(* ===== verification/Prelude.thy ===== *)
theory Prelude
  imports Main "HOL-Library.Word" "HOL-Library.Signed_Division" "HOL-Library.While_Combinator"
    "HOL-Library.Monad_Syntax"
begin

text \<open>
  Shared vocabulary of the development. Machine integers are \<open>64 word\<close> (Rust's \<open>i64\<close> and
  \<open>u64\<close>, told apart by how they are read: \<open>sint\<close> or \<open>uint\<close>); the Rust integer methods the
  compiler calls (\<open>checked_add\<close>, \<open>wrapping_shl\<close>, \<open>trailing_zeros\<close>, ...) are defined here as the
  Rust library documents them. The newtypes \<open>Local(usize)\<close> and \<open>BasicBlockId(usize)\<close> are only
  ever compared and used as indices, so they are \<open>nat\<close>.
\<close>

unbundle bit_operations_syntax

named_theorems i64_simps "Rust integer methods, unfolded"
named_theorems pass_defs "definitions of the optimizer passes that proofs unfold"
named_theorems ops_simps "operand and local traversals"

type_synonym i64 = "64 word"
type_synonym u64 = "64 word"
type_synonym local = nat
type_synonym bb_id = nat

abbreviation i64_min :: i64 where "i64_min \<equiv> push_bit 63 1"

definition in_i64 :: "int \<Rightarrow> bool" where
  "in_i64 n \<longleftrightarrow> - (2 ^ 63) \<le> n \<and> n < 2 ^ 63"

definition i64_quot :: "i64 \<Rightarrow> i64 \<Rightarrow> i64" where
  "i64_quot a b = word_of_int (sint a sdiv sint b)"

definition i64_rem :: "i64 \<Rightarrow> i64 \<Rightarrow> i64" where
  "i64_rem a b = word_of_int (sint a smod sint b)"

definition checked_add :: "i64 \<Rightarrow> i64 \<Rightarrow> i64 option" where
  "checked_add a b = (if in_i64 (sint a + sint b) then Some (a + b) else None)"

definition checked_sub :: "i64 \<Rightarrow> i64 \<Rightarrow> i64 option" where
  "checked_sub a b = (if in_i64 (sint a - sint b) then Some (a - b) else None)"

definition checked_mul :: "i64 \<Rightarrow> i64 \<Rightarrow> i64 option" where
  "checked_mul a b = (if in_i64 (sint a * sint b) then Some (a * b) else None)"

definition checked_div :: "i64 \<Rightarrow> i64 \<Rightarrow> i64 option" where
  "checked_div a b =
     (if b = 0 \<or> (a = i64_min \<and> b = -1) then None else Some (i64_quot a b))"

definition checked_rem :: "i64 \<Rightarrow> i64 \<Rightarrow> i64 option" where
  "checked_rem a b =
     (if b = 0 \<or> (a = i64_min \<and> b = -1) then None else Some (i64_rem a b))"

text \<open>\<open>a.wrapping_shl(b as u32)\<close>: the cast keeps the low 32 bits, the shift masks by 64.\<close>

definition wrapping_shl :: "i64 \<Rightarrow> i64 \<Rightarrow> i64" where
  "wrapping_shl a b = push_bit ((unat b mod 2 ^ 32) mod 64) a"

definition wrapping_shr :: "i64 \<Rightarrow> i64 \<Rightarrow> i64" where
  "wrapping_shr a b = signed_drop_bit ((unat b mod 2 ^ 32) mod 64) a"

text \<open>\<open>u64::is_power_of_two\<close> and \<open>u64::trailing_zeros\<close>.\<close>

definition is_power_of_two :: "u64 \<Rightarrow> bool" where
  "is_power_of_two c \<longleftrightarrow> (\<exists>k<64. c = push_bit k 1)"

fun count_zeros :: "nat \<Rightarrow> nat \<Rightarrow> u64 \<Rightarrow> nat" where
  "count_zeros 0 k c = k"
| "count_zeros (Suc n) k c = (if bit c k then k else count_zeros n (Suc k) c)"

definition trailing_zeros :: "u64 \<Rightarrow> nat" where
  "trailing_zeros c = count_zeros 64 0 c"

lemmas [i64_simps] = checked_add_def checked_sub_def checked_mul_def checked_div_def
  checked_rem_def wrapping_shl_def wrapping_shr_def i64_quot_def i64_rem_def in_i64_def

lemma is_power_of_two_code [code]:
  "is_power_of_two c = list_ex (\<lambda>k. c = push_bit k 1) [0..<64]"
  by (auto simp: is_power_of_two_def list_ex_iff)

lemma count_zeros_bit:
  assumes "bit c m" and "k \<le> m" and "m < k + n" and "\<forall>j<m. \<not> bit c j"
  shows "count_zeros n k c = m"
  using assms
proof (induction n arbitrary: k)
  case 0
  then show ?case by simp
next
  case (Suc n)
  show ?case
  proof (cases "k = m")
    case True
    with Suc.prems show ?thesis by simp
  next
    case False
    with Suc show ?thesis by simp
  qed
qed

lemma trailing_zeros_push_bit [i64_simps]:
  assumes "k < 64"
  shows "trailing_zeros (push_bit k 1) = k"
  unfolding trailing_zeros_def
  using assms
  by (intro count_zeros_bit) (auto simp: bit_push_bit_iff bit_1_iff simp del: push_bit_of_1)

lemma sint_range_i64: "in_i64 (sint (w :: i64))"
  using sint_range_size [of w] by (simp add: in_i64_def word_size)

lemma sint_word_of_int_i64: "in_i64 n \<Longrightarrow> sint (word_of_int n :: i64) = n"
  using signed_take_bit_int_eq_self [of 63 n]
  by (simp add: in_i64_def sint_sbintrunc')

lemma sint_i64_min: "sint i64_min = - (2 ^ 63)"
  by simp

lemma i64_eq_iff: "(a :: i64) = b \<longleftrightarrow> sint a = sint b"
  by (auto intro: signed_word_eqI)

subsection \<open>Decimal printing\<close>

text \<open>\<open>{}\<close> of a \<open>usize\<close> in a Rust format string.\<close>

fun show_nat :: "nat \<Rightarrow> string" where
  "show_nat n = (if n < 10 then [char_of (48 + n)]
                 else show_nat (n div 10) @ [char_of (48 + n mod 10)])"

declare show_nat.simps [simp del]

definition intercalate :: "string \<Rightarrow> string list \<Rightarrow> string" where
  "intercalate sep xs =
     (case xs of [] \<Rightarrow> [] | y # ys \<Rightarrow> y @ concat (map (\<lambda>z. sep @ z) ys))"

subsection \<open>Lists read and updated by index\<close>

text \<open>
  \<open>xs[i]\<close> panics out of range: \<open>None\<close> is the panic, and the option monad carries it to the
  caller. Definitions that index return options throughout, and lemmas show when they do not
  panic.
\<close>

definition idx :: "'a list \<Rightarrow> nat \<Rightarrow> 'a option" where
  "idx xs i = (if i < length xs then Some (xs ! i) else None)"

text \<open>\<open>xs.get(i)\<close> is the same function, read as an ordinary option.\<close>

definition get_opt :: "'a list \<Rightarrow> nat \<Rightarrow> 'a option" where
  "get_opt xs i = (if i < length xs then Some (xs ! i) else None)"

lemma idx_simps [simp]:
  "i < length xs \<Longrightarrow> idx xs i = Some (xs ! i)"
  "idx xs i = None \<longleftrightarrow> length xs \<le> i"
  by (auto simp: idx_def)

lemma idx_SomeD: "idx xs i = Some y \<Longrightarrow> i < length xs \<and> xs ! i = y"
  by (auto simp: idx_def split: if_splits)

subsection \<open>Results\<close>

text \<open>Sequencing for results \<open>'e + 'a\<close>: stop at the first \<open>Inl\<close>.\<close>

fun and_then :: "'e + 'a \<Rightarrow> ('a \<Rightarrow> 'e + 'b) \<Rightarrow> 'e + 'b" where
  "and_then (Inl e) g = Inl e"
| "and_then (Inr x) g = g x"

lemma and_then_assoc: "and_then (and_then m g) h = and_then m (\<lambda>x. and_then (g x) h)"
  by (cases m) auto

lemma and_then_Inr_iff: "and_then m g = Inr y \<longleftrightarrow> (\<exists>x. m = Inr x \<and> g x = Inr y)"
  by (cases m) auto

lemma and_then_cong: "m = m' \<Longrightarrow> (\<And>x. m' = Inr x \<Longrightarrow> g x = g' x) \<Longrightarrow> and_then m g = and_then m' g'"
  by (cases m') auto

definition word_of_bool :: "bool \<Rightarrow> i64" where
  "word_of_bool b = (if b then 1 else 0)"

lemma list_update_nth_cases:
  "i < length xs \<Longrightarrow> xs[j := y] ! i = (if i = j then y else xs ! i)"
  by auto

lemma fold_invariant:
  assumes "P s" and "\<And>x s. x \<in> set xs \<Longrightarrow> P s \<Longrightarrow> P (f x s)"
  shows "P (fold f xs s)"
  using assms by (induction xs arbitrary: s) auto

end
