(* ===== verification/Types.thy ===== *)
theory Types
  imports Prelude
begin

text \<open>
  The resolved types of the language (\<open>src/semantic/types.rs\<close>): the \<open>Type\<close> enum, the
  predicates the middle end asks of it (is it a Python value, does it move, does it own heap
  storage, is it stored in the tagged encoding), its printed form and the classification of
  casts. Constructors carry the source's names with a \<open>T\<close> in front.
\<close>

subsection \<open>The type language\<close>

datatype ty =
    TInt | TI8 | TI16 | TI32 | TU8 | TU16 | TU32 | TU64 | TUsize
  | TFloat | TF32 | TStr | TBytes | TBool | TNull
  | TStruct string "ty list" bool
  | TEnum string "ty list"
  | TTraitObject string "ty list"
  | TParam string
  | TUnion "ty list"
  | TFn "ty list" ty "ty list"
  | TTuple "ty list"
  | TList ty
  | TDict ty ty
  | TSet ty
  | TRef ty
  | TMutRef ty
  | TPtr ty
  | TVar nat
  | TAny
  | TNever
  | TVector ty nat
  | TFuture ty
  | TPyObject
  | TPyNamed string string
  | TIntegerLiteral nat
  | TFloatLiteral nat

fun is_py_value :: "ty \<Rightarrow> bool" where
  "is_py_value TPyObject = True"
| "is_py_value (TPyNamed _ _) = True"
| "is_py_value (TUnion members) = list_ex is_py_value members"
| "is_py_value (TRef inner) = is_py_value inner"
| "is_py_value (TMutRef inner) = is_py_value inner"
| "is_py_value _ = False"

fun is_scalar :: "ty \<Rightarrow> bool" where
  "is_scalar TInt = True"
| "is_scalar TI8 = True"
| "is_scalar TI16 = True"
| "is_scalar TI32 = True"
| "is_scalar TU8 = True"
| "is_scalar TU16 = True"
| "is_scalar TU32 = True"
| "is_scalar TU64 = True"
| "is_scalar TUsize = True"
| "is_scalar TFloat = True"
| "is_scalar TF32 = True"
| "is_scalar TBool = True"
| "is_scalar _ = False"

fun is_identity :: "ty \<Rightarrow> bool" where
  "is_identity TStr = True"
| "is_identity (TList _) = True"
| "is_identity (TDict _ _) = True"
| "is_identity (TSet _) = True"
| "is_identity TBytes = True"
| "is_identity _ = False"

fun is_struct :: "ty \<Rightarrow> bool" where
  "is_struct (TStruct _ _ _) = True"
| "is_struct _ = False"

fun is_tag_encoded_union :: "ty \<Rightarrow> bool" where
  "is_tag_encoded_union (TUnion members) =
     (if \<not> list_all (\<lambda>m. m = TNull \<or> is_struct m \<or> is_scalar m \<or> is_identity m) members
      then False
      else (let non_null = length (filter (\<lambda>m. m \<noteq> TNull) members)
            in list_ex is_scalar members \<or> (2 \<le> non_null \<and> list_ex is_struct members)))"
| "is_tag_encoded_union _ = False"

fun is_move_type :: "ty \<Rightarrow> bool" where
  "is_move_type TInt = False"
| "is_move_type TI8 = False"
| "is_move_type TI16 = False"
| "is_move_type TI32 = False"
| "is_move_type TU8 = False"
| "is_move_type TU16 = False"
| "is_move_type TU32 = False"
| "is_move_type TU64 = False"
| "is_move_type TUsize = False"
| "is_move_type TFloat = False"
| "is_move_type TF32 = False"
| "is_move_type TBool = False"
| "is_move_type TNull = False"
| "is_move_type TNever = False"
| "is_move_type TAny = False"
| "is_move_type (TRef _) = False"
| "is_move_type (TMutRef _) = False"
| "is_move_type (TPtr _) = False"
| "is_move_type (TVector _ _) = False"
| "is_move_type (TFuture _) = False"
| "is_move_type (TParam _) = False"
| "is_move_type (TIntegerLiteral _) = False"
| "is_move_type (TFloatLiteral _) = False"
| "is_move_type _ = True"

definition needs_drop :: "ty \<Rightarrow> bool" where
  "needs_drop t \<longleftrightarrow> is_move_type t \<or> t = TAny"

subsection \<open>The printed form\<close>

fun show_ty :: "ty \<Rightarrow> string" where
  "show_ty TInt = ''int''"
| "show_ty TI8 = ''i8''"
| "show_ty TI16 = ''i16''"
| "show_ty TI32 = ''i32''"
| "show_ty TU8 = ''u8''"
| "show_ty TU16 = ''u16''"
| "show_ty TU32 = ''u32''"
| "show_ty TU64 = ''u64''"
| "show_ty TUsize = ''usize''"
| "show_ty TFloat = ''float''"
| "show_ty TF32 = ''f32''"
| "show_ty TStr = ''str''"
| "show_ty TBytes = ''bytes''"
| "show_ty TBool = ''bool''"
| "show_ty TNull = ''None''"
| "show_ty (TUnion variants) = intercalate '' | '' (map show_ty variants)"
| "show_ty (TStruct name args _) =
     name @ (if args \<noteq> [] then ''['' @ intercalate '', '' (map show_ty args) @ '']'' else [])"
| "show_ty (TEnum name args) =
     name @ (if args \<noteq> [] then ''['' @ intercalate '', '' (map show_ty args) @ '']'' else [])"
| "show_ty (TTraitObject name args) =
     name @ (if args \<noteq> [] then ''['' @ intercalate '', '' (map show_ty args) @ '']'' else [])"
| "show_ty (TParam name) = name"
| "show_ty (TFn params ret args) =
     (if args \<noteq> [] then ''['' @ intercalate '', '' (map show_ty args) @ '']'' else [])
     @ ''('' @ intercalate '', '' (map show_ty params) @ '') -> '' @ show_ty ret"
| "show_ty (TTuple elems) =
     ''('' @ intercalate '', '' (map show_ty elems)
     @ (if length elems = 1 then '','' else []) @ '')''"
| "show_ty (TList t) = ''['' @ show_ty t @ '']''"
| "show_ty (TDict k v) = ''{'' @ show_ty k @ '': '' @ show_ty v @ ''}''"
| "show_ty (TSet t) = ''{'' @ show_ty t @ ''}''"
| "show_ty (TRef t) = ''&'' @ show_ty t"
| "show_ty (TMutRef t) = ''&mut '' @ show_ty t"
| "show_ty (TPtr t) = ''*'' @ show_ty t"
| "show_ty (TVar n) = ''?T'' @ show_nat n"
| "show_ty TAny = ''Any''"
| "show_ty TNever = ''Never''"
| "show_ty (TVector t w) = show_ty t @ ''x'' @ show_nat w"
| "show_ty (TFuture t) = ''Future['' @ show_ty t @ '']''"
| "show_ty TPyObject = ''PyObject''"
| "show_ty (TPyNamed module name) = module @ ''.'' @ name"
| "show_ty (TIntegerLiteral _) = ''{integer}''"
| "show_ty (TFloatLiteral _) = ''{float}''"

subsection \<open>Casts\<close>

datatype cast_kind = NumericExisting | ScalarToStr | Invalid

fun cast_is_int :: "ty \<Rightarrow> bool" where
  "cast_is_int TInt = True"
| "cast_is_int TI8 = True"
| "cast_is_int TI16 = True"
| "cast_is_int TI32 = True"
| "cast_is_int TU8 = True"
| "cast_is_int TU16 = True"
| "cast_is_int TU32 = True"
| "cast_is_int TU64 = True"
| "cast_is_int TUsize = True"
| "cast_is_int TBool = True"
| "cast_is_int _ = False"

fun cast_is_float :: "ty \<Rightarrow> bool" where
  "cast_is_float TFloat = True"
| "cast_is_float TF32 = True"
| "cast_is_float _ = False"

abbreviation cast_is_numeric :: "ty \<Rightarrow> bool" where
  "cast_is_numeric \<equiv> is_scalar"

definition is_integer_literal :: "ty \<Rightarrow> bool" where
  "is_integer_literal t = (case t of TIntegerLiteral _ \<Rightarrow> True | _ \<Rightarrow> False)"

definition is_float_literal :: "ty \<Rightarrow> bool" where
  "is_float_literal t = (case t of TFloatLiteral _ \<Rightarrow> True | _ \<Rightarrow> False)"

definition is_py_object :: "ty \<Rightarrow> bool" where
  "is_py_object t = (case t of TPyObject \<Rightarrow> True | TPyNamed _ _ \<Rightarrow> True | _ \<Rightarrow> False)"

definition is_type_variable :: "ty \<Rightarrow> bool" where
  "is_type_variable t = (case t of TVar _ \<Rightarrow> True | TParam _ \<Rightarrow> True | _ \<Rightarrow> False)"

text \<open>The arms of the \<open>match\<close>, in order.\<close>

definition cast_kind :: "ty \<Rightarrow> ty \<Rightarrow> cast_kind" where
  "cast_kind src dst =
     (if cast_is_int src \<and> cast_is_int dst then NumericExisting
      else if (cast_is_int src \<and> cast_is_float dst) \<or> (cast_is_float src \<and> cast_is_int dst)
        then NumericExisting
      else if cast_is_float src \<and> cast_is_float dst then NumericExisting
      else if dst = TStr \<and> cast_is_numeric src then ScalarToStr
      else if is_integer_literal src \<and> cast_is_numeric dst then NumericExisting
      else if (is_integer_literal src \<or> is_float_literal src) \<and> dst = TStr then ScalarToStr
      else if is_py_object src \<and> (cast_is_numeric dst \<or> dst = TStr \<or> dst = TBool)
        then NumericExisting
      else if src = TAny \<and> (cast_is_numeric dst \<or> dst = TStr \<or> dst = TBool)
        then NumericExisting
      else if is_type_variable src then NumericExisting
      else Invalid)"

subsection \<open>Facts about the predicates\<close>

lemma is_scalar_split: "is_scalar t \<longleftrightarrow> cast_is_int t \<or> cast_is_float t"
  by (cases t) auto

lemma scalar_not_move: "is_scalar t \<Longrightarrow> \<not> is_move_type t"
  by (cases t) auto

lemma scalar_identity_struct_not_py:
  "t = TNull \<or> is_struct t \<or> is_scalar t \<or> is_identity t \<Longrightarrow> \<not> is_py_value t"
  by (cases t) auto

text \<open>The numeric arms together: between scalar types every cast is numeric.\<close>

lemma cast_kind_scalars: "is_scalar s \<Longrightarrow> is_scalar d \<Longrightarrow> cast_kind s d = NumericExisting"
  unfolding cast_kind_def is_scalar_split by (elim disjE) simp_all

lemma cast_kind_to_str:
  "cast_kind s TStr = ScalarToStr \<longleftrightarrow> is_scalar s \<or> is_integer_literal s \<or> is_float_literal s"
  by (simp add: cast_kind_def)

lemma cast_kind_ScalarToStr_dst: "cast_kind s d = ScalarToStr \<Longrightarrow> d = TStr"
  by (auto simp: cast_kind_def split: if_splits)

end
