(* ===== verification/Mir.thy ===== *)
theory Mir
  imports Types
begin

text \<open>
  The middle intermediate representation (\<open>src/mir/ir.rs\<close>, the operators of
  \<open>src/parser/ast.rs\<close>, the operand traversal of \<open>src/mir/optimizations/mod.rs\<close>): constants,
  operands, rvalues, statements, terminators, basic blocks and functions, with the names of
  the source. A \<open>HashSet<Local>\<close> is a \<open>local set\<close> and a \<open>HashMap\<close> keyed by locals a map.
  Operators carry the suffix \<open>Op\<close> and constants the prefix \<open>C\<close>.
\<close>

subsection \<open>Operators and spans\<close>

datatype bin_op =
    AddOp | SubOp | MulOp | DivOp | ModOp | PowOp
  | EqOp | NotEqOp | LtOp | LtEqOp | GtOp | GtEqOp
  | AndOp | OrOp | CoalesceOp | InOp | NotInOp
  | ShlOp | ShrOp | BitOrOp | BitAndOp | BitXorOp

datatype unary_op = NegOp | PosOp | NotOp | BitNotOp

record span =
  file_id :: nat
  sp_line :: nat
  sp_col :: nat
  sp_start :: nat
  sp_end :: nat

definition default_span :: span where
  "default_span = \<lparr>file_id = 0, sp_line = 0, sp_col = 0, sp_start = 0, sp_end = 0\<rparr>"

definition span_merge :: "span \<Rightarrow> span \<Rightarrow> span" where
  "span_merge a b = \<lparr>file_id = file_id a, sp_line = sp_line a, sp_col = sp_col a,
                     sp_start = sp_start a, sp_end = sp_end b\<rparr>"

subsection \<open>Constants, operands, rvalues\<close>

datatype const =
    CInt i64
  | CFloat u64
  | CStr string
  | CBool bool
  | CFunction string
  | CGlobalData string
  | CNone

datatype operand = Copy local | Move local | Constant const

datatype aggregate_kind =
    AggTuple | AggList | AggSet | AggDict | AggEnumVariant i64 nat | AggFatPtr

datatype rvalue =
    Use operand
  | BinaryOp bin_op operand operand
  | UnaryOp unary_op operand
  | Call operand "operand list"
  | Aggregate aggregate_kind "operand list"
  | Cast operand ty
  | GetAttr operand string
  | GetIndex operand operand bool
  | GetTag operand
  | GetTypeId operand
  | Ref local
  | MutRef local
  | VectorSplat operand nat
  | VectorLoad operand operand nat
  | VectorFMA operand operand operand
  | VectorReduce bin_op operand nat
  | PtrLoad operand
  | FatPtrData operand
  | VTableLoad operand nat
  | GenOf operand

subsection \<open>Statements, blocks, functions\<close>

datatype statement_kind =
    Assign local rvalue
  | SetAttr operand string operand
  | SetIndex operand operand operand bool
  | StorageLive local
  | StorageDead local
  | Drop local
  | VectorStore operand operand operand
  | PtrStore operand operand
  | GenCheck local local

record statement =
  kind :: statement_kind
  span_of :: span

datatype terminator_kind =
    Goto bb_id
  | SwitchInt operand "(i64 \<times> bb_id) list" bb_id
  | Return
  | Unreachable

record terminator =
  term_kind :: terminator_kind
  term_span :: span

record basic_block =
  statements :: "statement list"
  terminator :: "terminator option"

record local_decl =
  decl_ty :: ty
  decl_name :: "string option"
  decl_span :: span
  is_mut :: bool
  is_owning :: bool

record mir_function =
  fn_name :: string
  locals :: "local_decl list"
  basic_blocks :: "basic_block list"
  arg_count :: nat
  vararg_idx :: "nat option"
  kwarg_idx :: "nat option"
  param_names :: "string list"
  is_async :: bool

text \<open>
  \<open>enum_type_id\<close> and \<open>struct_type_id\<close> hash the name with the \<open>FxHasher\<close> of the crate
  \<open>rustc_hash\<close>, which is the parameter \<open>fx_hash\<close>, and clear the sign bit.
\<close>

definition enum_type_id :: "(string \<Rightarrow> u64) \<Rightarrow> string \<Rightarrow> i64" where
  "enum_type_id fx_hash enum_name = fx_hash enum_name AND 0x7FFFFFFFFFFFFFFF"

definition struct_type_id :: "(string \<Rightarrow> u64) \<Rightarrow> string \<Rightarrow> i64" where
  "struct_type_id fx_hash struct_name = fx_hash struct_name AND 0x7FFFFFFFFFFFFFFF"

subsection \<open>What an rvalue reads\<close>

fun op_local :: "operand \<Rightarrow> local list" where
  "op_local (Copy l) = [l]"
| "op_local (Move l) = [l]"
| "op_local (Constant _) = []"

fun rvalue_operand_locals :: "rvalue \<Rightarrow> local list" where
  "rvalue_operand_locals (Use p) = op_local p"
| "rvalue_operand_locals (UnaryOp _ p) = op_local p"
| "rvalue_operand_locals (Cast p _) = op_local p"
| "rvalue_operand_locals (GetAttr p _) = op_local p"
| "rvalue_operand_locals (GetTag p) = op_local p"
| "rvalue_operand_locals (GetTypeId p) = op_local p"
| "rvalue_operand_locals (VectorSplat p _) = op_local p"
| "rvalue_operand_locals (VectorReduce _ p _) = op_local p"
| "rvalue_operand_locals (PtrLoad p) = op_local p"
| "rvalue_operand_locals (GenOf p) = op_local p"
| "rvalue_operand_locals (FatPtrData p) = op_local p"
| "rvalue_operand_locals (VTableLoad p _) = op_local p"
| "rvalue_operand_locals (BinaryOp _ a b) = op_local a @ op_local b"
| "rvalue_operand_locals (GetIndex a b _) = op_local a @ op_local b"
| "rvalue_operand_locals (VectorLoad a b _) = op_local a @ op_local b"
| "rvalue_operand_locals (VectorFMA a b c) = op_local a @ op_local b @ op_local c"
| "rvalue_operand_locals (Call f args) = op_local f @ concat (map op_local args)"
| "rvalue_operand_locals (Aggregate _ ops) = concat (map op_local ops)"
| "rvalue_operand_locals (Ref l) = [l]"
| "rvalue_operand_locals (MutRef l) = [l]"

definition rv_locals :: "rvalue \<Rightarrow> local set" where
  "rv_locals rv = set (rvalue_operand_locals rv)"

text \<open>The locals of the operands of any statement, and of a terminator.\<close>

fun stmt_locals :: "statement_kind \<Rightarrow> local set" where
  "stmt_locals (Assign _ rv) = rv_locals rv"
| "stmt_locals (SetAttr ob _ v) = set (op_local ob) \<union> set (op_local v)"
| "stmt_locals (SetIndex ob ix v _) = set (op_local ob) \<union> set (op_local ix) \<union> set (op_local v)"
| "stmt_locals (StorageLive _) = {}"
| "stmt_locals (StorageDead _) = {}"
| "stmt_locals (Drop l) = {l}"
| "stmt_locals (VectorStore ob ix v) = set (op_local ob) \<union> set (op_local ix) \<union> set (op_local v)"
| "stmt_locals (PtrStore p v) = set (op_local p) \<union> set (op_local v)"
| "stmt_locals (GenCheck v g) = {v, g}"

lemma finite_rv_locals [simp]: "finite (rv_locals rv)"
  by (simp add: rv_locals_def)

lemma rv_locals_simps [simp, ops_simps]:
  "rv_locals (Use p) = set (op_local p)"
  "rv_locals (UnaryOp u p) = set (op_local p)"
  "rv_locals (Cast p t) = set (op_local p)"
  "rv_locals (GetAttr p nm) = set (op_local p)"
  "rv_locals (GetTag p) = set (op_local p)"
  "rv_locals (GetTypeId p) = set (op_local p)"
  "rv_locals (VectorSplat p n) = set (op_local p)"
  "rv_locals (VectorReduce bo p n) = set (op_local p)"
  "rv_locals (PtrLoad p) = set (op_local p)"
  "rv_locals (GenOf p) = set (op_local p)"
  "rv_locals (FatPtrData p) = set (op_local p)"
  "rv_locals (VTableLoad p n) = set (op_local p)"
  "rv_locals (BinaryOp bo a b) = set (op_local a) \<union> set (op_local b)"
  "rv_locals (GetIndex a b ch) = set (op_local a) \<union> set (op_local b)"
  "rv_locals (VectorLoad a b n) = set (op_local a) \<union> set (op_local b)"
  "rv_locals (VectorFMA a b c) = set (op_local a) \<union> set (op_local b) \<union> set (op_local c)"
  "rv_locals (Call f args) = set (op_local f) \<union> (\<Union>p\<in>set args. set (op_local p))"
  "rv_locals (Aggregate k ops) = (\<Union>p\<in>set ops. set (op_local p))"
  "rv_locals (Ref l) = {l}"
  "rv_locals (MutRef l) = {l}"
  by (auto simp: rv_locals_def)

lemma finite_stmt_locals [simp]: "finite (stmt_locals k)"
  by (cases k) auto

subsection \<open>Successors\<close>

fun term_succs :: "terminator_kind \<Rightarrow> bb_id list" where
  "term_succs (Goto t) = [t]"
| "term_succs (SwitchInt _ targets otherwise) = map snd targets @ [otherwise]"
| "term_succs Return = []"
| "term_succs Unreachable = []"

definition bb_succs :: "basic_block \<Rightarrow> bb_id list" where
  "bb_succs bb = (case terminator bb of Some t \<Rightarrow> term_succs (term_kind t) | None \<Rightarrow> [])"

text \<open>
  A function is well formed when it has an entry block and every edge stays inside it and
  every operand names a declared local: what \<open>MirBuilder\<close> produces and what the passes
  index without a check.
\<close>

definition wf_edges :: "mir_function \<Rightarrow> bool" where
  "wf_edges f \<longleftrightarrow> basic_blocks f \<noteq> [] \<and>
     (\<forall>bb\<in>set (basic_blocks f). \<forall>t\<in>set (bb_succs bb). t < length (basic_blocks f))"

definition wf_locals :: "mir_function \<Rightarrow> bool" where
  "wf_locals f \<longleftrightarrow>
     (\<forall>bb\<in>set (basic_blocks f). \<forall>s\<in>set (statements bb).
        (\<forall>l\<in>stmt_locals (kind s). l < length (locals f)) \<and>
        (\<forall>d rv. kind s = Assign d rv \<longrightarrow> d < length (locals f)))"

end
