(* ===== verification/Rewrite.thy ===== *)
theory Rewrite
  imports Mir
begin

text \<open>
  The loop that the scalar passes share (\<open>trait Transform\<close> in
  \<open>src/mir/optimizations/mod.rs\<close>): walk every block and every statement, offer the right-hand
  side of each assignment to the pass, and report whether any was replaced. A pass is a function
  from rvalues to an optional replacement; an outer \<open>None\<close> is a panic of the compiler.
\<close>

definition rewrite_stmt :: "(rvalue \<Rightarrow> rvalue option option) \<Rightarrow> statement \<Rightarrow> (statement \<times> bool) option" where
  "rewrite_stmt p s =
     (case kind s of
        Assign d rv \<Rightarrow>
          (case p rv of
             None \<Rightarrow> None
           | Some None \<Rightarrow> Some (s, False)
           | Some (Some rv') \<Rightarrow> Some (s\<lparr>kind := Assign d rv'\<rparr>, True))
      | _ \<Rightarrow> Some (s, False))"

fun rewrite_list :: "('a \<Rightarrow> ('a \<times> bool) option) \<Rightarrow> 'a list \<Rightarrow> ('a list \<times> bool) option" where
  "rewrite_list g [] = Some ([], False)"
| "rewrite_list g (x # xs) =
     do { (y, c) \<leftarrow> g x; (ys, d) \<leftarrow> rewrite_list g xs; Some (y # ys, c \<or> d) }"

definition rewrite_block ::
  "(rvalue \<Rightarrow> rvalue option option) \<Rightarrow> basic_block \<Rightarrow> (basic_block \<times> bool) option" where
  "rewrite_block p bb =
     do { (ss, c) \<leftarrow> rewrite_list (rewrite_stmt p) (statements bb);
          Some (bb\<lparr>statements := ss\<rparr>, c) }"

definition rewrite_fn ::
  "(rvalue \<Rightarrow> rvalue option option) \<Rightarrow> mir_function \<Rightarrow> (mir_function \<times> bool) option" where
  "rewrite_fn p f =
     do { (bbs, c) \<leftarrow> rewrite_list (rewrite_block p) (basic_blocks f);
          Some (f\<lparr>basic_blocks := bbs\<rparr>, c) }"

subsection \<open>Facts about the loop\<close>

text \<open>A relation between a list and its rewriting: element by element.\<close>

lemma rewrite_list_all2:
  assumes "rewrite_list g xs = Some (ys, c)"
  shows "list_all2 (\<lambda>x y. \<exists>d. g x = Some (y, d)) xs ys"
  using assms
  by (induction g xs arbitrary: ys c rule: rewrite_list.induct)
     (auto split: Option.bind_splits)

lemma rewrite_list_length: "rewrite_list g xs = Some (ys, c) \<Longrightarrow> length ys = length xs"
  by (drule rewrite_list_all2) (simp add: list_all2_lengthD)

lemma rewrite_list_unchanged:
  assumes "rewrite_list g xs = Some (ys, False)"
    and "\<And>x y. x \<in> set xs \<Longrightarrow> g x = Some (y, False) \<Longrightarrow> y = x"
  shows "ys = xs"
  using assms
proof (induction xs arbitrary: ys)
  case Nil
  then show ?case by simp
next
  case (Cons x xs)
  from Cons.prems(1) obtain y zs
    where "g x = Some (y, False)" "rewrite_list g xs = Some (zs, False)" "ys = y # zs"
    by (cases "g x"; cases "rewrite_list g xs") fastforce+
  with Cons show ?case by (metis list.set_intros)
qed

lemma rewrite_list_total:
  assumes "\<And>x. x \<in> set xs \<Longrightarrow> g x \<noteq> None"
  shows "rewrite_list g xs \<noteq> None"
  using assms by (induction xs) (auto split: Option.bind_splits)

lemma rewrite_stmt_unchanged: "rewrite_stmt p s = Some (t, False) \<Longrightarrow> t = s"
  by (cases "kind s") (auto simp: rewrite_stmt_def split: option.splits)

lemma rewrite_stmt_kind:
  assumes "rewrite_stmt p s = Some (t, c)"
  shows "span_of t = span_of s \<and>
    (kind t = kind s \<or> (\<exists>d rv rv'. kind s = Assign d rv \<and> kind t = Assign d rv' \<and>
        p rv = Some (Some rv')))"
  using assms by (cases "kind s") (auto simp: rewrite_stmt_def split: option.splits)

lemma rewrite_block_unchanged: "rewrite_block p bb = Some (bb', False) \<Longrightarrow> bb' = bb"
  by (auto simp: rewrite_block_def split: Option.bind_splits
      dest!: rewrite_list_unchanged [OF _ rewrite_stmt_unchanged])

lemma rewrite_block_terminator:
  "rewrite_block p bb = Some (bb', c) \<Longrightarrow> terminator bb' = terminator bb"
  by (auto simp: rewrite_block_def split: Option.bind_splits)

theorem rewrite_fn_unchanged: "rewrite_fn p f = Some (f', False) \<Longrightarrow> f' = f"
  by (auto simp: rewrite_fn_def split: Option.bind_splits
      dest!: rewrite_list_unchanged [OF _ rewrite_block_unchanged])

lemma rewrite_fn_total:
  assumes "\<And>bb s d rv. bb \<in> set (basic_blocks f) \<Longrightarrow> s \<in> set (statements bb) \<Longrightarrow>
      kind s = Assign d rv \<Longrightarrow> p rv \<noteq> None"
  shows "rewrite_fn p f \<noteq> None"
proof -
  have st: "rewrite_stmt p s \<noteq> None" if "bb \<in> set (basic_blocks f)" "s \<in> set (statements bb)" for bb s
    using assms [OF that] by (cases "kind s") (auto simp: rewrite_stmt_def split: option.splits)
  have bl: "rewrite_block p bb \<noteq> None" if "bb \<in> set (basic_blocks f)" for bb
    using rewrite_list_total [of "statements bb" "rewrite_stmt p", OF st [OF that]]
    by (auto simp: rewrite_block_def)
  then show ?thesis
    using rewrite_list_total [of "basic_blocks f" "rewrite_block p"]
    by (auto simp: rewrite_fn_def)
qed

end
