(* ===== verification/ConstFold.thy ===== *)
theory ConstFold
  imports Rewrite
begin

text \<open>
  Constant folding (\<open>src/mir/optimizations/const_fold.rs\<close>). The hardware's IEEE operations on
  \<open>f64\<close>, which the code reaches through \<open>f64::from_bits\<close> and \<open>to_bits\<close>, are the record
  \<open>f64_ops\<close> of functions on bit patterns. Negation of an \<open>i64\<close> wraps, as in the release
  profile the compiler is shipped with; a debug build of the compiler panics on the smallest one.
\<close>

record f64_ops =
  f_add :: "u64 \<Rightarrow> u64 \<Rightarrow> u64"
  f_sub :: "u64 \<Rightarrow> u64 \<Rightarrow> u64"
  f_mul :: "u64 \<Rightarrow> u64 \<Rightarrow> u64"
  f_div :: "u64 \<Rightarrow> u64 \<Rightarrow> u64"
  f_neg :: "u64 \<Rightarrow> u64"
  f_eq :: "u64 \<Rightarrow> u64 \<Rightarrow> bool"
  f_lt :: "u64 \<Rightarrow> u64 \<Rightarrow> bool"
  f_le :: "u64 \<Rightarrow> u64 \<Rightarrow> bool"

fun fold_int :: "bin_op \<Rightarrow> i64 \<Rightarrow> i64 \<Rightarrow> const option" where
  "fold_int AddOp a b = map_option CInt (checked_add a b)"
| "fold_int SubOp a b = map_option CInt (checked_sub a b)"
| "fold_int MulOp a b = map_option CInt (checked_mul a b)"
| "fold_int DivOp a b = map_option CInt (checked_div a b)"
| "fold_int ModOp a b = map_option CInt (checked_rem a b)"
| "fold_int EqOp a b = Some (CBool (a = b))"
| "fold_int NotEqOp a b = Some (CBool (a \<noteq> b))"
| "fold_int LtOp a b = Some (CBool (sint a < sint b))"
| "fold_int LtEqOp a b = Some (CBool (sint a \<le> sint b))"
| "fold_int GtOp a b = Some (CBool (sint a > sint b))"
| "fold_int GtEqOp a b = Some (CBool (sint a \<ge> sint b))"
| "fold_int ShlOp a b = Some (CInt (wrapping_shl a b))"
| "fold_int ShrOp a b = Some (CInt (wrapping_shr a b))"
| "fold_int _ a b = None"

fun fold_float :: "f64_ops \<Rightarrow> bin_op \<Rightarrow> u64 \<Rightarrow> u64 \<Rightarrow> const option" where
  "fold_float fl AddOp a b = Some (CFloat (f_add fl a b))"
| "fold_float fl SubOp a b = Some (CFloat (f_sub fl a b))"
| "fold_float fl MulOp a b = Some (CFloat (f_mul fl a b))"
| "fold_float fl DivOp a b = Some (CFloat (f_div fl a b))"
| "fold_float fl EqOp a b = Some (CBool (f_eq fl a b))"
| "fold_float fl NotEqOp a b = Some (CBool (\<not> f_eq fl a b))"
| "fold_float fl LtOp a b = Some (CBool (f_lt fl a b))"
| "fold_float fl LtEqOp a b = Some (CBool (f_le fl a b))"
| "fold_float fl GtOp a b = Some (CBool (f_lt fl b a))"
| "fold_float fl GtEqOp a b = Some (CBool (f_le fl b a))"
| "fold_float fl _ a b = None"

fun fold_bool :: "bin_op \<Rightarrow> bool \<Rightarrow> bool \<Rightarrow> const option" where
  "fold_bool EqOp a b = Some (CBool (a = b))"
| "fold_bool NotEqOp a b = Some (CBool (a \<noteq> b))"
| "fold_bool AndOp a b = Some (CBool (a \<and> b))"
| "fold_bool OrOp a b = Some (CBool (a \<or> b))"
| "fold_bool _ a b = None"

fun fold_unary :: "f64_ops \<Rightarrow> unary_op \<Rightarrow> const \<Rightarrow> const option" where
  "fold_unary fl NegOp (CInt a) = Some (CInt (- a))"
| "fold_unary fl NegOp (CFloat a) = Some (CFloat (f_neg fl a))"
| "fold_unary fl NotOp (CBool a) = Some (CBool (\<not> a))"
| "fold_unary fl NotOp (CInt a) = Some (CBool (a = 0))"
| "fold_unary fl PosOp (CInt a) = Some (CInt a)"
| "fold_unary fl PosOp (CFloat a) = Some (CFloat a)"
| "fold_unary fl _ _ = None"

text \<open>The \<open>if let\<close> chain over the shape of the right-hand side.\<close>

fun fold_rvalue :: "f64_ops \<Rightarrow> rvalue \<Rightarrow> rvalue option" where
  "fold_rvalue fl (BinaryOp bop (Constant (CInt a)) (Constant (CInt b))) =
     map_option (\<lambda>c. Use (Constant c)) (fold_int bop a b)"
| "fold_rvalue fl (BinaryOp bop (Constant (CFloat a)) (Constant (CFloat b))) =
     map_option (\<lambda>c. Use (Constant c)) (fold_float fl bop a b)"
| "fold_rvalue fl (BinaryOp bop (Constant (CBool a)) (Constant (CBool b))) =
     map_option (\<lambda>c. Use (Constant c)) (fold_bool bop a b)"
| "fold_rvalue fl (UnaryOp uop (Constant c)) =
     map_option (\<lambda>c. Use (Constant c)) (fold_unary fl uop c)"
| "fold_rvalue fl _ = None"

definition const_fold_run :: "f64_ops \<Rightarrow> mir_function \<Rightarrow> (mir_function \<times> bool) option" where
  "const_fold_run fl f = rewrite_fn (\<lambda>rv. Some (fold_rvalue fl rv)) f"

end
