(* ===== verification/Codegen.thy ===== *)
theory Codegen
  imports ConstFold
begin

text \<open>
  The code that the Cranelift back end emits for operands, binary and unary operators
  (\<open>src/codegen/cranelift/translate.rs\<close>, \<open>translate_binop.rs\<close>, \<open>translate_rvalue.rs\<close>,
  \<open>imports/builtins.rs\<close>), read as its effect at run time on 64-bit registers. Cranelift's
  integer instructions have their documented meaning (\<open>iadd\<close> wraps, \<open>sdiv\<close> truncates, shifts
  mask their count); its floating-point ones are \<open>f64_ops\<close>. Calls into the runtime library go
  through the record \<open>runtime\<close>: a symbol, its arguments and a heap of any type. The registers of
  the narrower integer types, of \<open>f32\<close> and of vectors are not modelled, nor is the byte a truth value
  has at an operator: it is the word 0 or 1. Operators on \<open>Any\<close> take the general path, not the one
  of a site that was profiled.
\<close>

datatype fault =
    DivZeroFail bool
  | OverflowFail nat i64 i64
  | CompilerPanic
  | RuntimeFault nat

record 'h runtime =
  rt_call :: "string \<Rightarrow> i64 list \<Rightarrow> 'h \<Rightarrow> fault + i64 \<times> 'h"
  rt_fn_addr :: "string \<Rightarrow> i64 option"
  rt_str_addr :: "string \<Rightarrow> i64 option"
  rt_data_addr :: "string \<Rightarrow> i64"
  rt_f64 :: f64_ops
  rt_contains :: "i64 \<Rightarrow> i64 \<Rightarrow> 'h \<Rightarrow> fault + i64 \<times> 'h"
  rt_rvalue :: "rvalue \<Rightarrow> i64 list \<Rightarrow> 'h \<Rightarrow> fault + i64 \<times> 'h"
  rt_stmt :: "statement_kind \<Rightarrow> i64 list \<Rightarrow> 'h \<Rightarrow> fault + 'h"

subsection \<open>Static classification of operands\<close>

fun operand_ty_is :: "(ty \<Rightarrow> bool) \<Rightarrow> ty list \<Rightarrow> operand \<Rightarrow> bool" where
  "operand_ty_is P tys (Copy l) = P (tys ! l)"
| "operand_ty_is P tys (Move l) = P (tys ! l)"
| "operand_ty_is P tys (Constant _) = False"

definition is_u64_op :: "ty list \<Rightarrow> operand \<Rightarrow> bool" where
  "is_u64_op tys p = operand_ty_is (\<lambda>t. t = TU64) tys p"

definition is_str_op :: "ty list \<Rightarrow> operand \<Rightarrow> bool" where
  "is_str_op tys p = (case p of Constant (CStr _) \<Rightarrow> True | _ \<Rightarrow> operand_ty_is (\<lambda>t. t = TStr) tys p)"

definition is_float_op :: "ty list \<Rightarrow> operand \<Rightarrow> bool" where
  "is_float_op tys p =
     (case p of Constant (CFloat _) \<Rightarrow> True
      | _ \<Rightarrow> operand_ty_is (\<lambda>t. t = TFloat \<or> t = TF32) tys p)"

definition is_pyobj_op :: "ty list \<Rightarrow> operand \<Rightarrow> bool" where
  "is_pyobj_op tys p = operand_ty_is (\<lambda>t. t = TPyObject) tys p"

definition is_any_op :: "ty list \<Rightarrow> operand \<Rightarrow> bool" where
  "is_any_op tys p = operand_ty_is (\<lambda>t. t = TAny) tys p"

definition is_list_op :: "ty list \<Rightarrow> operand \<Rightarrow> bool" where
  "is_list_op tys p =
     operand_ty_is (\<lambda>t. case t of TList _ \<Rightarrow> True | TTuple _ \<Rightarrow> True | TSet _ \<Rightarrow> True | _ \<Rightarrow> False) tys p"

definition needs_structural_key :: "ty \<Rightarrow> bool" where
  "needs_structural_key t =
     (case t of TStruct _ _ _ \<Rightarrow> True | TEnum _ _ \<Rightarrow> True | TTuple _ \<Rightarrow> True | TList _ \<Rightarrow> True
      | TSet _ \<Rightarrow> True | TDict _ _ \<Rightarrow> True | _ \<Rightarrow> False)"

subsection \<open>Operands\<close>

text \<open>Reading an operand; a \<open>Move\<close> leaves zero behind in its source register.\<close>

definition starts_with :: "string \<Rightarrow> string \<Rightarrow> bool" where
  "starts_with s p \<longleftrightarrow> take (length p) s = p"

fun constant_value :: "'h runtime \<Rightarrow> const \<Rightarrow> fault + i64" where
  "constant_value rt (CInt i) = Inr i"
| "constant_value rt (CFloat b) = Inr b"
| "constant_value rt (CBool b) = Inr (word_of_bool b)"
| "constant_value rt (CStr s) =
     (case rt_str_addr rt s of Some a \<Rightarrow> Inr (a OR 1) | None \<Rightarrow> Inl CompilerPanic)"
| "constant_value rt (CFunction n) =
     (case rt_fn_addr rt n of
        Some a \<Rightarrow> Inr a
      | None \<Rightarrow> if starts_with n ''__olive_'' then Inl CompilerPanic else Inr 0)"
| "constant_value rt (CGlobalData n) = Inr (rt_data_addr rt n)"
| "constant_value rt CNone = Inr 0"

fun translate_operand :: "'h runtime \<Rightarrow> operand \<Rightarrow> (local \<Rightarrow> i64) \<Rightarrow> fault + i64 \<times> (local \<Rightarrow> i64)" where
  "translate_operand rt (Copy l) env = Inr (env l, env)"
| "translate_operand rt (Move l) env = Inr (env l, env(l := 0))"
| "translate_operand rt (Constant c) env = and_then (constant_value rt c) (\<lambda>v. Inr (v, env))"

subsection \<open>Checked arithmetic\<close>

definition in_u64 :: "int \<Rightarrow> bool" where
  "in_u64 n \<longleftrightarrow> 0 \<le> n \<and> n < 2 ^ 64"

definition emit_checked_arith :: "nat \<Rightarrow> i64 \<Rightarrow> i64 \<Rightarrow> fault + i64" where
  "emit_checked_arith k l r =
     (if k = 0 then (if in_i64 (sint l + sint r) then Inr (l + r) else Inl (OverflowFail 0 l r))
      else if k = 1 then (if in_i64 (sint l - sint r) then Inr (l - r) else Inl (OverflowFail 1 l r))
      else if k = 2 then (if in_i64 (sint l * sint r) then Inr (l * r) else Inl (OverflowFail 2 l r))
      else if k = 3 then (if in_u64 (uint l + uint r) then Inr (l + r) else Inl (OverflowFail 3 l r))
      else if k = 4 then (if in_u64 (uint l - uint r) then Inr (l - r) else Inl (OverflowFail 4 l r))
      else if k = 5 then (if in_u64 (uint l * uint r) then Inr (l * r) else Inl (OverflowFail 5 l r))
      else Inl CompilerPanic)"

definition emit_div_zero_check :: "i64 \<Rightarrow> bool \<Rightarrow> fault + unit" where
  "emit_div_zero_check divisor is_mod = (if divisor \<noteq> 0 then Inr () else Inl (DivZeroFail is_mod))"

definition emit_signed_div_overflow_check :: "nat \<Rightarrow> i64 \<Rightarrow> i64 \<Rightarrow> fault + unit" where
  "emit_signed_div_overflow_check k dividend divisor =
     (if dividend = i64_min \<and> divisor = -1 then Inl (OverflowFail k dividend divisor) else Inr ())"

subsection \<open>Arithmetic on Python objects\<close>

text \<open>A native operand is boxed for the call and released after it.\<close>

definition py_coerce ::
  "'h runtime \<Rightarrow> ty list \<Rightarrow> operand \<Rightarrow> i64 \<Rightarrow> 'h \<Rightarrow> fault + (i64 \<times> bool) \<times> 'h" where
  "py_coerce rt tys p v h =
     (if is_float_op tys p then
        and_then (rt_call rt ''__olive_py_from_float'' [v] h) (\<lambda>(b, h). Inr ((b, True), h))
      else if \<not> is_pyobj_op tys p then
        and_then (rt_call rt ''__olive_py_from_int'' [v] h) (\<lambda>(b, h). Inr ((b, True), h))
      else Inr ((v, False), h))"

fun py_arith_name :: "bin_op \<Rightarrow> string option" where
  "py_arith_name AddOp = Some ''__olive_py_add''"
| "py_arith_name SubOp = Some ''__olive_py_sub''"
| "py_arith_name MulOp = Some ''__olive_py_mul''"
| "py_arith_name DivOp = Some ''__olive_py_div''"
| "py_arith_name ModOp = Some ''__olive_py_mod''"
| "py_arith_name PowOp = Some ''__olive_py_pow''"
| "py_arith_name _ = None"

definition py_decref_if :: "'h runtime \<Rightarrow> bool \<Rightarrow> i64 \<Rightarrow> 'h \<Rightarrow> fault + 'h" where
  "py_decref_if rt c v h =
     (if c then and_then (rt_call rt ''__olive_py_decref'' [v] h) (\<lambda>(_, h). Inr h) else Inr h)"

definition translate_py_arith ::
  "'h runtime \<Rightarrow> ty list \<Rightarrow> string \<Rightarrow> operand \<Rightarrow> operand \<Rightarrow> i64 \<Rightarrow> i64 \<Rightarrow> 'h \<Rightarrow> fault + i64 \<times> 'h" where
  "translate_py_arith rt tys name lhs rhs l r h =
     and_then (py_coerce rt tys lhs l h) (\<lambda>((lv, lc), h).
     and_then (py_coerce rt tys rhs r h) (\<lambda>((rv, rc), h).
     and_then (rt_call rt name [lv, rv] h) (\<lambda>(res, h).
     and_then (py_decref_if rt lc lv h) (\<lambda>h.
     and_then (py_decref_if rt rc rv h) (\<lambda>h. Inr (res, h))))))"

subsection \<open>Dynamically typed operands\<close>

fun any_fn :: "bin_op \<Rightarrow> string option" where
  "any_fn AddOp = Some ''__olive_any_add''"
| "any_fn SubOp = Some ''__olive_any_sub''"
| "any_fn MulOp = Some ''__olive_any_mul''"
| "any_fn DivOp = Some ''__olive_any_div''"
| "any_fn ModOp = Some ''__olive_any_mod''"
| "any_fn LtOp = Some ''__olive_any_lt''"
| "any_fn LtEqOp = Some ''__olive_any_le''"
| "any_fn GtOp = Some ''__olive_any_gt''"
| "any_fn GtEqOp = Some ''__olive_any_ge''"
| "any_fn EqOp = Some ''__olive_any_eq''"
| "any_fn NotEqOp = Some ''__olive_any_ne''"
| "any_fn _ = None"

subsection \<open>Binary operators\<close>

abbreviation lift_h :: "'h \<Rightarrow> fault + i64 \<Rightarrow> fault + i64 \<times> 'h" where
  "lift_h h m \<equiv> and_then m (\<lambda>v. Inr (v, h))"

definition translate_add ::
  "'h runtime \<Rightarrow> bool \<Rightarrow> ty list \<Rightarrow> operand \<Rightarrow> operand \<Rightarrow> i64 \<Rightarrow> i64 \<Rightarrow> 'h \<Rightarrow> fault + i64 \<times> 'h" where
  "translate_add rt checked tys lhs rhs l r h =
     (if is_str_op tys lhs then
        (case lhs of Move _ \<Rightarrow> rt_call rt ''__olive_str_concat_move'' [l, r] h
         | _ \<Rightarrow> rt_call rt ''__olive_str_concat'' [l, r] h)
      else if is_list_op tys lhs then rt_call rt ''__olive_list_concat'' [l, r] h
      else if is_float_op tys lhs then Inr (f_add (rt_f64 rt) l r, h)
      else if checked then
        lift_h h (emit_checked_arith (if is_u64_op tys lhs \<or> is_u64_op tys rhs then 3 else 0) l r)
      else Inr (l + r, h))"

definition translate_sub ::
  "'h runtime \<Rightarrow> bool \<Rightarrow> ty list \<Rightarrow> operand \<Rightarrow> operand \<Rightarrow> i64 \<Rightarrow> i64 \<Rightarrow> 'h \<Rightarrow> fault + i64 \<times> 'h" where
  "translate_sub rt checked tys lhs rhs l r h =
     (if is_float_op tys lhs then Inr (f_sub (rt_f64 rt) l r, h)
      else if checked then
        lift_h h (emit_checked_arith (if is_u64_op tys lhs \<or> is_u64_op tys rhs then 4 else 1) l r)
      else Inr (l - r, h))"

definition translate_mul ::
  "'h runtime \<Rightarrow> bool \<Rightarrow> ty list \<Rightarrow> operand \<Rightarrow> operand \<Rightarrow> i64 \<Rightarrow> i64 \<Rightarrow> 'h \<Rightarrow> fault + i64 \<times> 'h" where
  "translate_mul rt checked tys lhs rhs l r h =
     (if is_float_op tys lhs then Inr (f_mul (rt_f64 rt) l r, h)
      else if checked then
        lift_h h (emit_checked_arith (if is_u64_op tys lhs \<or> is_u64_op tys rhs then 5 else 2) l r)
      else Inr (l * r, h))"

definition translate_div ::
  "'h runtime \<Rightarrow> ty list \<Rightarrow> operand \<Rightarrow> operand \<Rightarrow> i64 \<Rightarrow> i64 \<Rightarrow> 'h \<Rightarrow> fault + i64 \<times> 'h" where
  "translate_div rt tys lhs rhs l r h =
     (if is_float_op tys lhs then Inr (f_div (rt_f64 rt) l r, h)
      else and_then (emit_div_zero_check r False) (\<lambda>_.
        if is_u64_op tys lhs \<or> is_u64_op tys rhs then Inr (l div r, h)
        else and_then (emit_signed_div_overflow_check 6 l r) (\<lambda>_. Inr (i64_quot l r, h))))"

definition translate_mod ::
  "ty list \<Rightarrow> operand \<Rightarrow> operand \<Rightarrow> i64 \<Rightarrow> i64 \<Rightarrow> 'h \<Rightarrow> fault + i64 \<times> 'h" where
  "translate_mod tys lhs rhs l r h =
     and_then (emit_div_zero_check r True) (\<lambda>_.
       if is_u64_op tys lhs \<or> is_u64_op tys rhs then Inr (l mod r, h)
       else and_then (emit_signed_div_overflow_check 7 l r) (\<lambda>_. Inr (i64_rem l r, h)))"

text \<open>Equality: strings and Python objects by call, floats by \<open>fcmp\<close>, the rest by \<open>icmp\<close>.\<close>

definition translate_eq ::
  "'h runtime \<Rightarrow> ty list \<Rightarrow> operand \<Rightarrow> operand \<Rightarrow> i64 \<Rightarrow> i64 \<Rightarrow> 'h \<Rightarrow> fault + i64 \<times> 'h" where
  "translate_eq rt tys lhs rhs l r h =
     (if is_str_op tys lhs \<or> is_str_op tys rhs then rt_call rt ''__olive_str_eq'' [l, r] h
      else if is_pyobj_op tys lhs \<or> is_pyobj_op tys rhs then
        and_then (py_coerce rt tys lhs l h) (\<lambda>((lv, _), h).
        and_then (py_coerce rt tys rhs r h) (\<lambda>((rv, _), h).
          rt_call rt ''__olive_py_eq'' [lv, rv] h))
      else if is_float_op tys lhs \<or> is_float_op tys rhs then
        Inr (word_of_bool (f_eq (rt_f64 rt) l r), h)
      else Inr (word_of_bool (l = r), h))"

fun float_cc :: "f64_ops \<Rightarrow> bin_op \<Rightarrow> i64 \<Rightarrow> i64 \<Rightarrow> bool" where
  "float_cc fl LtOp l r = f_lt fl l r"
| "float_cc fl LtEqOp l r = f_le fl l r"
| "float_cc fl GtOp l r = f_lt fl r l"
| "float_cc fl GtEqOp l r = f_le fl r l"
| "float_cc fl _ l r = (\<not> f_eq fl l r)"

fun int_cc :: "bool \<Rightarrow> bin_op \<Rightarrow> i64 \<Rightarrow> i64 \<Rightarrow> bool" where
  "int_cc unsgn LtOp l r = (if unsgn then l < r else sint l < sint r)"
| "int_cc unsgn LtEqOp l r = (if unsgn then l \<le> r else sint l \<le> sint r)"
| "int_cc unsgn GtOp l r = (if unsgn then r < l else sint r < sint l)"
| "int_cc unsgn GtEqOp l r = (if unsgn then r \<le> l else sint r \<le> sint l)"
| "int_cc unsgn _ l r = (l \<noteq> r)"

fun py_cmp_name :: "bin_op \<Rightarrow> string" where
  "py_cmp_name LtOp = ''__olive_py_lt''"
| "py_cmp_name LtEqOp = ''__olive_py_le''"
| "py_cmp_name GtOp = ''__olive_py_gt''"
| "py_cmp_name GtEqOp = ''__olive_py_ge''"
| "py_cmp_name _ = ''__olive_py_ne''"

definition translate_cmp ::
  "'h runtime \<Rightarrow> ty list \<Rightarrow> bin_op \<Rightarrow> operand \<Rightarrow> operand \<Rightarrow> i64 \<Rightarrow> i64 \<Rightarrow> 'h \<Rightarrow> fault + i64 \<times> 'h" where
  "translate_cmp rt tys bop lhs rhs l r h =
     (if bop = NotEqOp \<and> (is_str_op tys lhs \<or> is_str_op tys rhs) then
        and_then (rt_call rt ''__olive_str_eq'' [l, r] h) (\<lambda>(e, h). Inr (word_of_bool (e = 0), h))
      else if is_pyobj_op tys lhs \<or> is_pyobj_op tys rhs then
        and_then (py_coerce rt tys lhs l h) (\<lambda>((lv, _), h).
        and_then (py_coerce rt tys rhs r h) (\<lambda>((rv, _), h).
          rt_call rt (py_cmp_name bop) [lv, rv] h))
      else if is_float_op tys lhs \<or> is_float_op tys rhs then
        Inr (word_of_bool (float_cc (rt_f64 rt) bop l r), h)
      else Inr (word_of_bool (int_cc (is_u64_op tys lhs \<or> is_u64_op tys rhs) bop l r), h))"

text \<open>Cranelift's \<open>ishl\<close>, \<open>ushr\<close> and \<open>sshr\<close> take the count modulo the register width.\<close>

definition shift_count :: "i64 \<Rightarrow> nat" where
  "shift_count r = unat r mod 64"

definition translate_shr :: "ty list \<Rightarrow> operand \<Rightarrow> i64 \<Rightarrow> i64 \<Rightarrow> i64" where
  "translate_shr tys lhs l r =
     (if is_u64_op tys lhs then drop_bit (shift_count r) l
      else signed_drop_bit (shift_count r) l)"

fun translate_native ::
  "'h runtime \<Rightarrow> bool \<Rightarrow> ty list \<Rightarrow> bin_op \<Rightarrow> operand \<Rightarrow> operand \<Rightarrow> i64 \<Rightarrow> i64 \<Rightarrow> 'h \<Rightarrow> fault + i64 \<times> 'h"
where
  "translate_native rt checked tys AddOp lhs rhs l r h = translate_add rt checked tys lhs rhs l r h"
| "translate_native rt checked tys SubOp lhs rhs l r h = translate_sub rt checked tys lhs rhs l r h"
| "translate_native rt checked tys MulOp lhs rhs l r h = translate_mul rt checked tys lhs rhs l r h"
| "translate_native rt checked tys DivOp lhs rhs l r h = translate_div rt tys lhs rhs l r h"
| "translate_native rt checked tys ModOp lhs rhs l r h = translate_mod tys lhs rhs l r h"
| "translate_native rt checked tys EqOp lhs rhs l r h = translate_eq rt tys lhs rhs l r h"
| "translate_native rt checked tys LtOp lhs rhs l r h = translate_cmp rt tys LtOp lhs rhs l r h"
| "translate_native rt checked tys LtEqOp lhs rhs l r h = translate_cmp rt tys LtEqOp lhs rhs l r h"
| "translate_native rt checked tys GtOp lhs rhs l r h = translate_cmp rt tys GtOp lhs rhs l r h"
| "translate_native rt checked tys GtEqOp lhs rhs l r h = translate_cmp rt tys GtEqOp lhs rhs l r h"
| "translate_native rt checked tys NotEqOp lhs rhs l r h = translate_cmp rt tys NotEqOp lhs rhs l r h"
| "translate_native rt checked tys ShlOp lhs rhs l r h = Inr (push_bit (shift_count r) l, h)"
| "translate_native rt checked tys ShrOp lhs rhs l r h = Inr (translate_shr tys lhs l r, h)"
| "translate_native rt checked tys AndOp lhs rhs l r h = Inr (l AND r, h)"
| "translate_native rt checked tys OrOp lhs rhs l r h = Inr (l OR r, h)"
| "translate_native rt checked tys BitAndOp lhs rhs l r h = Inr (l AND r, h)"
| "translate_native rt checked tys BitOrOp lhs rhs l r h =
     (if is_pyobj_op tys lhs \<or> is_pyobj_op tys rhs then rt_call rt ''__olive_py_bitor'' [l, r] h
      else Inr (l OR r, h))"
| "translate_native rt checked tys BitXorOp lhs rhs l r h = Inr (l XOR r, h)"
| "translate_native rt checked tys PowOp lhs rhs l r h =
     rt_call rt (if is_float_op tys lhs then ''__olive_pow_float'' else ''__olive_pow'') [l, r] h"
| "translate_native rt checked tys InOp lhs rhs l r h = rt_contains rt l r h"
| "translate_native rt checked tys NotInOp lhs rhs l r h =
     and_then (rt_contains rt l r h) (\<lambda>(e, h). Inr (word_of_bool (e = 0), h))"
| "translate_native rt checked tys CoalesceOp lhs rhs l r h = Inl CompilerPanic"

definition dispatch_binop ::
  "'h runtime \<Rightarrow> bool \<Rightarrow> ty list \<Rightarrow> bin_op \<Rightarrow> operand \<Rightarrow> operand \<Rightarrow> i64 \<Rightarrow> i64 \<Rightarrow> 'h \<Rightarrow> fault + i64 \<times> 'h"
where
  "dispatch_binop rt checked tys bop lhs rhs l r h =
     (let py = is_pyobj_op tys lhs \<or> is_pyobj_op tys rhs;
          any = is_any_op tys lhs \<or> is_any_op tys rhs
      in if py \<and> py_arith_name bop \<noteq> None
         then translate_py_arith rt tys (the (py_arith_name bop)) lhs rhs l r h
         else if any \<and> any_fn bop \<noteq> None then rt_call rt (the (any_fn bop)) [l, r] h
         else translate_native rt checked tys bop lhs rhs l r h)"

text \<open>Both operands are read, left first, before the operator runs.\<close>

definition translate_binop ::
  "'h runtime \<Rightarrow> bool \<Rightarrow> ty list \<Rightarrow> bin_op \<Rightarrow> operand \<Rightarrow> operand \<Rightarrow> (local \<Rightarrow> i64) \<Rightarrow> 'h
     \<Rightarrow> fault + i64 \<times> (local \<Rightarrow> i64) \<times> 'h" where
  "translate_binop rt checked tys bop lhs rhs env h =
     and_then (translate_operand rt lhs env) (\<lambda>(l, env).
     and_then (translate_operand rt rhs env) (\<lambda>(r, env).
     and_then (dispatch_binop rt checked tys bop lhs rhs l r h) (\<lambda>(v, h). Inr (v, env, h))))"

subsection \<open>Unary operators\<close>

text \<open>The operand's type is its local's, and \<open>Any\<close> for a constant.\<close>

fun unary_operand_ty :: "ty list \<Rightarrow> operand \<Rightarrow> ty" where
  "unary_operand_ty tys (Copy l) = tys ! l"
| "unary_operand_ty tys (Move l) = tys ! l"
| "unary_operand_ty tys (Constant _) = TAny"

text \<open>The value has an \<open>f64\<close> register exactly when the operand is statically a float.\<close>

definition dispatch_unaryop ::
  "'h runtime \<Rightarrow> ty list \<Rightarrow> unary_op \<Rightarrow> operand \<Rightarrow> i64 \<Rightarrow> 'h \<Rightarrow> fault + i64 \<times> 'h" where
  "dispatch_unaryop rt tys uop p v h =
     (case uop of
        NegOp \<Rightarrow>
          (if is_float_op tys p then Inr (f_neg (rt_f64 rt) v, h)
           else if unary_operand_ty tys p = TPyObject then
             and_then (rt_call rt ''__olive_py_to_int'' [v] h) (\<lambda>(i, h).
               rt_call rt ''__olive_py_from_int'' [- i] h)
           else Inr (- v, h))
      | NotOp \<Rightarrow>
          (if unary_operand_ty tys p = TPyObject then
             and_then (rt_call rt ''__olive_py_to_int'' [v] h) (\<lambda>(i, h).
               Inr (word_of_bool (i = 0), h))
           else Inr (word_of_bool (v = 0), h))
      | BitNotOp \<Rightarrow> Inr (NOT v, h)
      | PosOp \<Rightarrow> Inr (v, h))"

definition translate_unaryop ::
  "'h runtime \<Rightarrow> ty list \<Rightarrow> unary_op \<Rightarrow> operand \<Rightarrow> (local \<Rightarrow> i64) \<Rightarrow> 'h
     \<Rightarrow> fault + i64 \<times> (local \<Rightarrow> i64) \<times> 'h" where
  "translate_unaryop rt tys uop p env h =
     and_then (translate_operand rt p env) (\<lambda>(v, env).
     and_then (dispatch_unaryop rt tys uop p v h) (\<lambda>(v, h). Inr (v, env, h)))"

end
