(* ===== verification/Exec.thy ===== *)
theory Exec
  imports Codegen
begin

text \<open>
  Running a MIR function as its emitted code does: registers \<open>local \<Rightarrow> i64\<close> and a heap,
  statements in order, terminators choosing the next block
  (\<open>src/codegen/cranelift/translate.rs\<close>: \<open>translate_statement\<close>, \<open>translate_terminator\<close>).
  Right-hand sides other than uses, operators and references, and stores, are calls into
  the \<open>runtime\<close> with the values of their operands. \<open>run_fn\<close> is bounded by fuel, one unit per
  block; a result is a fault or the returned word and the heap.

  Every register is a 64-bit word here. What the code generator does at an assignment to a local of
  another register type is not modelled: the narrowing of an integer to 8, 16 or 32 bits and of a truth value
  to a byte, the change between the two float widths, the call that turns a Python object into a
  float, and the reuse of the storage of a dropped local by the assignment after it. So the theorems
  over runs speak of functions whose locals are words of 64 bits, floats of 64 bits and pointers. A switch
  takes the first entry with the value; Cranelift's builder refuses entries that repeat or
  are negative, which stops the compiler.
\<close>

fun rvalue_operands :: "rvalue \<Rightarrow> operand list" where
  "rvalue_operands (Use p) = [p]"
| "rvalue_operands (BinaryOp _ a b) = [a, b]"
| "rvalue_operands (UnaryOp _ p) = [p]"
| "rvalue_operands (Call f args) = f # args"
| "rvalue_operands (Aggregate _ ops) = ops"
| "rvalue_operands (Cast p _) = [p]"
| "rvalue_operands (GetAttr p _) = [p]"
| "rvalue_operands (GetIndex a b _) = [a, b]"
| "rvalue_operands (GetTag p) = [p]"
| "rvalue_operands (GetTypeId p) = [p]"
| "rvalue_operands (Ref _) = []"
| "rvalue_operands (MutRef _) = []"
| "rvalue_operands (VectorSplat p _) = [p]"
| "rvalue_operands (VectorLoad a b _) = [a, b]"
| "rvalue_operands (VectorFMA a b c) = [a, b, c]"
| "rvalue_operands (VectorReduce _ p _) = [p]"
| "rvalue_operands (PtrLoad p) = [p]"
| "rvalue_operands (FatPtrData p) = [p]"
| "rvalue_operands (VTableLoad p _) = [p]"
| "rvalue_operands (GenOf p) = [p]"

fun read_operands ::
  "'h runtime \<Rightarrow> operand list \<Rightarrow> (local \<Rightarrow> i64) \<Rightarrow> fault + i64 list \<times> (local \<Rightarrow> i64)" where
  "read_operands rt [] env = Inr ([], env)"
| "read_operands rt (p # ps) env =
     and_then (translate_operand rt p env) (\<lambda>(v, env).
     and_then (read_operands rt ps env) (\<lambda>(vs, env). Inr (v # vs, env)))"

definition eval_runtime_rvalue ::
  "'h runtime \<Rightarrow> rvalue \<Rightarrow> (local \<Rightarrow> i64) \<Rightarrow> 'h \<Rightarrow> fault + i64 \<times> (local \<Rightarrow> i64) \<times> 'h" where
  "eval_runtime_rvalue rt rv env h =
     and_then (read_operands rt (rvalue_operands rv) env) (\<lambda>(vs, env).
     and_then (rt_rvalue rt rv vs h) (\<lambda>(v, h). Inr (v, env, h)))"

definition eval_rvalue ::
  "'h runtime \<Rightarrow> bool \<Rightarrow> ty list \<Rightarrow> rvalue \<Rightarrow> (local \<Rightarrow> i64) \<Rightarrow> 'h
     \<Rightarrow> fault + i64 \<times> (local \<Rightarrow> i64) \<times> 'h" where
  "eval_rvalue rt checked tys rv env h =
     (case rv of
        Use p \<Rightarrow> and_then (translate_operand rt p env) (\<lambda>(v, env). Inr (v, env, h))
      | BinaryOp bop l r \<Rightarrow> translate_binop rt checked tys bop l r env h
      | UnaryOp uop p \<Rightarrow> translate_unaryop rt tys uop p env h
      | Ref l \<Rightarrow> Inr (env l, env, h)
      | MutRef l \<Rightarrow> Inr (env l, env, h)
      | _ \<Rightarrow> eval_runtime_rvalue rt rv env h)"

definition store_via_runtime ::
  "'h runtime \<Rightarrow> statement_kind \<Rightarrow> operand list \<Rightarrow> (local \<Rightarrow> i64) \<Rightarrow> 'h
     \<Rightarrow> fault + (local \<Rightarrow> i64) \<times> 'h" where
  "store_via_runtime rt k ps env h =
     and_then (read_operands rt ps env) (\<lambda>(vs, env).
     and_then (rt_stmt rt k vs h) (\<lambda>h. Inr (env, h)))"

fun exec_stmt ::
  "'h runtime \<Rightarrow> bool \<Rightarrow> ty list \<Rightarrow> statement_kind \<Rightarrow> (local \<Rightarrow> i64) \<Rightarrow> 'h
     \<Rightarrow> fault + (local \<Rightarrow> i64) \<times> 'h" where
  "exec_stmt rt checked tys (Assign d rv) env h =
     and_then (eval_rvalue rt checked tys rv env h) (\<lambda>(v, env, h). Inr (env(d := v), h))"
| "exec_stmt rt checked tys (SetAttr ob a v) env h =
     store_via_runtime rt (SetAttr ob a v) [ob, v] env h"
| "exec_stmt rt checked tys (SetIndex ob ix v u) env h =
     store_via_runtime rt (SetIndex ob ix v u) [ob, ix, v] env h"
| "exec_stmt rt checked tys (StorageLive l) env h = Inr (env, h)"
| "exec_stmt rt checked tys (StorageDead l) env h = Inr (env, h)"
| "exec_stmt rt checked tys (Drop l) env h =
     (if needs_drop (tys ! l)
      then and_then (rt_stmt rt (Drop l) [env l] h) (\<lambda>h. Inr (env(l := 0), h))
      else Inr (env, h))"
| "exec_stmt rt checked tys (VectorStore ob ix v) env h =
     store_via_runtime rt (VectorStore ob ix v) [ob, ix, v] env h"
| "exec_stmt rt checked tys (PtrStore p v) env h =
     store_via_runtime rt (PtrStore p v) [p, v] env h"
| "exec_stmt rt checked tys (GenCheck v g) env h =
     and_then (rt_stmt rt (GenCheck v g) [env v, env g] h) (\<lambda>h. Inr (env, h))"

fun exec_stmts ::
  "'h runtime \<Rightarrow> bool \<Rightarrow> ty list \<Rightarrow> statement list \<Rightarrow> (local \<Rightarrow> i64) \<Rightarrow> 'h
     \<Rightarrow> fault + (local \<Rightarrow> i64) \<times> 'h" where
  "exec_stmts rt checked tys [] env h = Inr (env, h)"
| "exec_stmts rt checked tys (s # ss) env h =
     and_then (exec_stmt rt checked tys (kind s) env h)
       (\<lambda>(env, h). exec_stmts rt checked tys ss env h)"

lemma exec_stmts_append:
  "exec_stmts rt checked tys (xs @ ys) env h =
     and_then (exec_stmts rt checked tys xs env h) (\<lambda>(env, h). exec_stmts rt checked tys ys env h)"
  by (induction xs arbitrary: env h)
     (auto simp: and_then_assoc case_prod_beta intro!: and_then_cong)

subsection \<open>Terminators\<close>

definition switch_target :: "i64 \<Rightarrow> (i64 \<times> bb_id) list \<Rightarrow> bb_id \<Rightarrow> bb_id" where
  "switch_target v targets otherwise =
     (case find (\<lambda>(tv, _). tv = v) targets of Some (_, t) \<Rightarrow> t | None \<Rightarrow> otherwise)"

datatype step = Jump bb_id | Finish i64

text \<open>
  A switch on a Python object first converts it to an integer, and compares by \<open>icmp_imm\<close> when
  there is a single target.
\<close>

definition translate_terminator ::
  "'h runtime \<Rightarrow> ty list \<Rightarrow> bool \<Rightarrow> terminator_kind \<Rightarrow> (local \<Rightarrow> i64) \<Rightarrow> 'h
     \<Rightarrow> fault + step \<times> (local \<Rightarrow> i64) \<times> 'h" where
  "translate_terminator rt tys asy tk env h =
     (case tk of
        Goto t \<Rightarrow> Inr (Jump t, env, h)
      | SwitchInt discr targets otherwise \<Rightarrow>
          and_then (translate_operand rt discr env) (\<lambda>(v, env).
            if is_pyobj_op tys discr then
              and_then (rt_call rt ''__olive_py_to_int'' [v] h) (\<lambda>(c, h).
                if length targets = 1 then
                  (let (tv, tb) = hd targets;
                       cond = (if tv = 0 then c = 0 else c \<noteq> tv)
                   in Inr (Jump (if cond then tb else otherwise), env, h))
                else Inr (Jump (switch_target c targets otherwise), env, h))
            else Inr (Jump (switch_target v targets otherwise), env, h))
      | Return \<Rightarrow>
          (if asy then and_then (rt_call rt ''__olive_make_future'' [env 0] h)
             (\<lambda>(v, h). Inr (Finish v, env, h))
           else Inr (Finish (env 0), env, h))
      | Unreachable \<Rightarrow> Inl (RuntimeFault 1))"

text \<open>A block without a terminator is closed by \<open>return 0\<close>.\<close>

definition exec_block ::
  "'h runtime \<Rightarrow> bool \<Rightarrow> ty list \<Rightarrow> bool \<Rightarrow> basic_block \<Rightarrow> (local \<Rightarrow> i64) \<Rightarrow> 'h
     \<Rightarrow> fault + step \<times> (local \<Rightarrow> i64) \<times> 'h" where
  "exec_block rt checked tys asy bb env h =
     and_then (exec_stmts rt checked tys (statements bb) env h) (\<lambda>(env, h).
       case terminator bb of
         None \<Rightarrow> Inr (Finish 0, env, h)
       | Some t \<Rightarrow> translate_terminator rt tys asy (term_kind t) env h)"

text \<open>The result of a run: \<open>None\<close> when the fuel is used up.\<close>

fun run_blocks ::
  "'h runtime \<Rightarrow> bool \<Rightarrow> ty list \<Rightarrow> bool \<Rightarrow> basic_block list \<Rightarrow> nat \<Rightarrow> bb_id \<Rightarrow> (local \<Rightarrow> i64) \<Rightarrow> 'h
     \<Rightarrow> (fault + i64 \<times> 'h) option" where
  "run_blocks rt checked tys asy bbs 0 b env h = None"
| "run_blocks rt checked tys asy bbs (Suc n) b env h =
     (if b < length bbs then
        (case exec_block rt checked tys asy (bbs ! b) env h of
           Inl e \<Rightarrow> Some (Inl e)
         | Inr (Finish v, env, h) \<Rightarrow> Some (Inr (v, h))
         | Inr (Jump t, env, h) \<Rightarrow> run_blocks rt checked tys asy bbs n t env h)
      else Some (Inl CompilerPanic))"

definition fn_tys :: "mir_function \<Rightarrow> ty list" where
  "fn_tys f = map decl_ty (locals f)"

definition run_fn ::
  "'h runtime \<Rightarrow> bool \<Rightarrow> mir_function \<Rightarrow> nat \<Rightarrow> (local \<Rightarrow> i64) \<Rightarrow> 'h \<Rightarrow> (fault + i64 \<times> 'h) option"
where
  "run_fn rt checked f n env h =
     run_blocks rt checked (fn_tys f) (is_async f) (basic_blocks f) n 0 env h"

text \<open>What a function computes, whatever the fuel.\<close>

definition fn_returns ::
  "'h runtime \<Rightarrow> bool \<Rightarrow> mir_function \<Rightarrow> (local \<Rightarrow> i64) \<Rightarrow> 'h \<Rightarrow> fault + i64 \<times> 'h \<Rightarrow> bool" where
  "fn_returns rt checked f env h r \<longleftrightarrow> (\<exists>n. run_fn rt checked f n env h = Some r)"

lemma run_blocks_mono:
  assumes "run_blocks rt checked tys asy bbs n b env h = Some r" and "n \<le> m"
  shows "run_blocks rt checked tys asy bbs m b env h = Some r"
  using assms
proof (induction n arbitrary: m b env h)
  case 0
  then show ?case by simp
next
  case (Suc n)
  then obtain k where m: "m = Suc k" and "n \<le> k" by (cases m) auto
  with Suc show ?case by (auto split: if_splits sum.splits prod.splits step.splits)
qed

lemma fn_returns_deterministic:
  assumes "fn_returns rt checked f env h r" and "fn_returns rt checked f env h r'"
  shows "r = r'"
proof -
  from assms obtain n m where
    "run_fn rt checked f n env h = Some r" "run_fn rt checked f m env h = Some r'"
    by (auto simp: fn_returns_def)
  then have "run_fn rt checked f (max n m) env h = Some r"
    "run_fn rt checked f (max n m) env h = Some r'"
    unfolding run_fn_def by (auto intro: run_blocks_mono)
  then show ?thesis by simp
qed

end
