(* ===== verification/Refine.thy ===== *)
theory Refine
  imports Exec Rewrite
begin

text \<open>
  What a pass may do to a function. \<open>refines fe a b\<close>: the outcome \<open>b\<close> is \<open>a\<close>, or, when \<open>fe\<close> does
  not ask for the faults to be kept, anything in place of a fault. It passes from blocks to whole
  runs, and for a pass that only replaces right-hand sides from one rvalue to the function: that
  is the locale \<open>rvalue_pass\<close>, whose one law the scalar passes discharge.
\<close>

definition refines :: "bool \<Rightarrow> fault + 'a \<Rightarrow> fault + 'a \<Rightarrow> bool" where
  "refines fe a b \<longleftrightarrow> a = b \<or> \<not> fe \<and> (\<exists>e. a = Inl e)"

lemma refines_refl [simp]: "refines fe a a"
  by (simp add: refines_def)

lemma refines_True [simp]: "refines True a b \<longleftrightarrow> a = b"
  by (simp add: refines_def)

lemma refines_Inr [simp]: "refines fe (Inr x) b \<longleftrightarrow> b = Inr x"
  by (auto simp: refines_def)

lemma refines_Inl [simp]: "\<not> fe \<Longrightarrow> refines fe (Inl e) b"
  by (simp add: refines_def)

lemma refines_trans: "refines fe a b \<Longrightarrow> refines fe b c \<Longrightarrow> refines fe a c"
  by (auto simp: refines_def)

lemma refines_and_then:
  assumes "refines fe a b" and "\<And>x. a = Inr x \<Longrightarrow> refines fe (f x) (g x)"
  shows "refines fe (and_then a f) (and_then b g)"
  using assms by (cases a) (auto simp: refines_def)

definition run_refines :: "bool \<Rightarrow> (fault + 'a) option \<Rightarrow> (fault + 'a) option \<Rightarrow> bool" where
  "run_refines fe a b \<longleftrightarrow> a = b \<or> \<not> fe \<and> (\<exists>e. a = Some (Inl e))"

definition block_refines ::
  "'h runtime \<Rightarrow> bool \<Rightarrow> ty list \<Rightarrow> bool \<Rightarrow> bool \<Rightarrow> basic_block \<Rightarrow> basic_block \<Rightarrow> bool" where
  "block_refines rt checked tys asy fe a b \<longleftrightarrow>
     (\<forall>env h. refines fe (exec_block rt checked tys asy a env h) (exec_block rt checked tys asy b env h))"

text \<open>Both runs take the same steps until the first one faults.\<close>

lemma run_blocks_refines:
  assumes "list_all2 (block_refines rt checked tys asy fe) bbs bbs'"
  shows "run_refines fe (run_blocks rt checked tys asy bbs n b env h)
           (run_blocks rt checked tys asy bbs' n b env h)"
proof (induction n arbitrary: b env h)
  case 0
  then show ?case by (simp add: run_refines_def)
next
  case (Suc n)
  have len: "length bbs' = length bbs" using assms by (simp add: list_all2_lengthD)
  show ?case
  proof (cases "b < length bbs")
    case False
    then show ?thesis by (simp add: len run_refines_def)
  next
    case True
    then have r: "refines fe (exec_block rt checked tys asy (bbs ! b) env h)
        (exec_block rt checked tys asy (bbs' ! b) env h)"
      using assms by (simp add: list_all2_conv_all_nth block_refines_def)
    show ?thesis
    proof (cases "exec_block rt checked tys asy (bbs ! b) env h")
      case (Inl e)
      with r have "exec_block rt checked tys asy (bbs' ! b) env h = Inl e \<or> \<not> fe"
        by (auto simp: refines_def)
      with Inl True len show ?thesis by (auto simp: run_refines_def)
    next
      case (Inr s)
      with r True len Suc show ?thesis
        by (cases s) (auto simp: run_refines_def split: step.splits)
    qed
  qed
qed

lemma fn_returns_refines:
  assumes "list_all2 (block_refines rt checked (fn_tys f) (is_async f) fe)
      (basic_blocks f) (basic_blocks f')"
    and "fn_tys f' = fn_tys f" "is_async f' = is_async f"
  shows "fn_returns rt checked f env h (Inr x) \<Longrightarrow> fn_returns rt checked f' env h (Inr x)"
    and "fe \<Longrightarrow> fn_returns rt checked f' env h r \<longleftrightarrow> fn_returns rt checked f env h r"
proof -
  have r: "run_refines fe (run_fn rt checked f n env h) (run_fn rt checked f' n env h)" for n
    using run_blocks_refines [OF assms(1), of n 0 env h] assms(2,3) by (simp add: run_fn_def)
  show "fn_returns rt checked f' env h (Inr x)" if ret: "fn_returns rt checked f env h (Inr x)"
  proof -
    from ret obtain n where "run_fn rt checked f n env h = Some (Inr x)"
      by (auto simp: fn_returns_def)
    with r [of n] have "run_fn rt checked f' n env h = Some (Inr x)"
      by (auto simp: run_refines_def)
    then show ?thesis unfolding fn_returns_def by blast
  qed
  show "fn_returns rt checked f' env h r \<longleftrightarrow> fn_returns rt checked f env h r" if fe
    using r that by (simp add: fn_returns_def run_refines_def)
qed

subsection \<open>Passes over right-hand sides\<close>

definition fn_rvalues :: "mir_function \<Rightarrow> rvalue list" where
  "fn_rvalues f =
     concat (map (\<lambda>bb. concat (map (\<lambda>s. case kind s of Assign _ rv \<Rightarrow> [rv] | _ \<Rightarrow> []) (statements bb)))
       (basic_blocks f))"

lemma fn_rvalues_mem:
  "bb \<in> set (basic_blocks f) \<Longrightarrow> s \<in> set (statements bb) \<Longrightarrow> kind s = Assign d rv \<Longrightarrow>
     rv \<in> set (fn_rvalues f)"
  by (force simp: fn_rvalues_def)

locale rvalue_pass =
  fixes p :: "rvalue \<Rightarrow> rvalue option option"
    and rt :: "'h runtime" and checked :: bool and tys :: "ty list"
    and fe :: bool and ok :: "rvalue \<Rightarrow> bool"
  assumes sound: "ok rv \<Longrightarrow> p rv = Some (Some rv') \<Longrightarrow>
      refines fe (eval_rvalue rt checked tys rv env h) (eval_rvalue rt checked tys rv' env h)"
begin

lemma stmt_refines:
  assumes "rewrite_stmt p s = Some (s', c)" and "\<And>d rv. kind s = Assign d rv \<Longrightarrow> ok rv"
  shows "refines fe (exec_stmt rt checked tys (kind s) env h) (exec_stmt rt checked tys (kind s') env h)"
  using rewrite_stmt_kind [OF assms(1)] assms(2)
  by (auto intro!: refines_and_then sound)

lemma stmts_refine:
  assumes "list_all2 (\<lambda>s s'. \<exists>c. rewrite_stmt p s = Some (s', c)) ss ss'"
    and "\<And>s d rv. s \<in> set ss \<Longrightarrow> kind s = Assign d rv \<Longrightarrow> ok rv"
  shows "refines fe (exec_stmts rt checked tys ss env h) (exec_stmts rt checked tys ss' env h)"
  using assms
proof (induction arbitrary: env h rule: list_all2_induct)
  case Nil
  then show ?case by simp
next
  case (Cons s ss s' ss')
  have ok: "ok rv" if "kind s = Assign d rv" for d rv
    using Cons.prems [of s] that by simp
  have ih: "refines fe (exec_stmts rt checked tys ss env h) (exec_stmts rt checked tys ss' env h)"
    for env h
    by (rule Cons.IH) (use Cons.prems in \<open>auto\<close>)
  from Cons.hyps(1) obtain c where "rewrite_stmt p s = Some (s', c)" by blast
  then have "refines fe (exec_stmt rt checked tys (kind s) env h) (exec_stmt rt checked tys (kind s') env h)"
    by (rule stmt_refines) (rule ok)
  with ih show ?case by (auto intro!: refines_and_then)
qed

lemma block_refined:
  assumes "rewrite_block p bb = Some (bb', c)"
    and "\<And>s d rv. s \<in> set (statements bb) \<Longrightarrow> kind s = Assign d rv \<Longrightarrow> ok rv"
  shows "block_refines rt checked tys asy fe bb bb'"
  using assms
  by (auto simp: block_refines_def exec_block_def rewrite_block_def split: Option.bind_splits
      dest!: rewrite_list_all2 intro!: refines_and_then stmts_refine)

lemma run_refined:
  assumes run: "rewrite_fn p f = Some (f', c)" and tys: "tys = fn_tys f"
    and all_ok: "list_all ok (fn_rvalues f)"
  shows "fn_returns rt checked f env h (Inr x) \<Longrightarrow> fn_returns rt checked f' env h (Inr x)"
    and "fe \<Longrightarrow> fn_returns rt checked f' env h r \<longleftrightarrow> fn_returns rt checked f env h r"
proof -
  have ok: "ok rv"
    if "bb \<in> set (basic_blocks f)" "s \<in> set (statements bb)" "kind s = Assign d rv" for bb s d rv
    using all_ok fn_rvalues_mem [OF that] by (auto simp: list_all_iff)
  from run obtain bbs where bbs: "rewrite_list (rewrite_block p) (basic_blocks f) = Some (bbs, c)"
    and f': "f' = f\<lparr>basic_blocks := bbs\<rparr>"
    by (auto simp: rewrite_fn_def split: Option.bind_splits)
  have all: "list_all2 (block_refines rt checked (fn_tys f) (is_async f) fe)
      (basic_blocks f) (basic_blocks f')"
  proof (rule list_all2I)
    show "\<forall>(bb, bb') \<in> set (zip (basic_blocks f) (basic_blocks f')).
        block_refines rt checked (fn_tys f) (is_async f) fe bb bb'"
    proof clarify
      fix bb bb' assume z: "(bb, bb') \<in> set (zip (basic_blocks f) (basic_blocks f'))"
      then obtain d where "rewrite_block p bb = Some (bb', d)"
        using rewrite_list_all2 [OF bbs] f' by (auto simp: list_all2_iff)
      moreover have "bb \<in> set (basic_blocks f)" using z by (rule set_zip_leftD)
      ultimately show "block_refines rt checked (fn_tys f) (is_async f) fe bb bb'"
        using ok tys block_refined by metis
    qed
    show "length (basic_blocks f) = length (basic_blocks f')"
      using rewrite_list_length [OF bbs] f' by simp
  qed
  have same: "fn_tys f' = fn_tys f" "is_async f' = is_async f"
    by (simp_all add: f' fn_tys_def)
  show "fn_returns rt checked f env h (Inr x) \<Longrightarrow> fn_returns rt checked f' env h (Inr x)"
    and "fe \<Longrightarrow> fn_returns rt checked f' env h r \<longleftrightarrow> fn_returns rt checked f env h r"
    using fn_returns_refines [OF all same] by blast+
qed

end

end
