(* ===== verification/Samples.thy ===== *)
theory Samples
  imports Exec
begin

text \<open>
  Small functions and a runtime on which the theorems of the other theories are applied: builders
  for statements, blocks and functions, and a runtime without heap whose calls all fault. Its
  floating-point operations are those of the words themselves, with the order of \<open>uint\<close>.
\<close>

definition st :: "statement_kind \<Rightarrow> statement" where
  "st k = \<lparr>kind = k, span_of = default_span\<rparr>"

definition block :: "statement_kind list \<Rightarrow> terminator_kind \<Rightarrow> basic_block" where
  "block ks t = \<lparr>statements = map st ks, terminator = Some \<lparr>term_kind = t, term_span = default_span\<rparr>\<rparr>"

definition loc :: "ty \<Rightarrow> local_decl" where
  "loc t = \<lparr>decl_ty = t, decl_name = None, decl_span = default_span, is_mut = True, is_owning = False\<rparr>"

definition func :: "ty list \<Rightarrow> nat \<Rightarrow> basic_block list \<Rightarrow> mir_function" where
  "func tys args bbs =
     \<lparr>fn_name = ''f'', locals = map loc tys, basic_blocks = bbs, arg_count = args,
      vararg_idx = None, kwarg_idx = None, param_names = [], is_async = False\<rparr>"

lemmas sample_defs = st_def block_def loc_def func_def

definition word_f64 :: f64_ops where
  "word_f64 = \<lparr>f_add = (+), f_sub = (-), f_mul = (*), f_div = (div), f_neg = uminus,
               f_eq = (=), f_lt = (<), f_le = (\<le>)\<rparr>"

definition bare_rt :: "unit runtime" where
  "bare_rt =
     \<lparr>rt_call = (\<lambda>_ _ _. Inl (RuntimeFault 0)), rt_fn_addr = (\<lambda>_. None), rt_str_addr = (\<lambda>_. None),
      rt_data_addr = (\<lambda>_. 0), rt_f64 = word_f64, rt_contains = (\<lambda>_ _ _. Inl (RuntimeFault 0)),
      rt_rvalue = (\<lambda>_ _ _. Inl (RuntimeFault 0)), rt_stmt = (\<lambda>_ _ _. Inl (RuntimeFault 0))\<rparr>"

text \<open>A word in every register.\<close>

definition env_of :: "i64 list \<Rightarrow> local \<Rightarrow> i64" where
  "env_of ws l = (if l < length ws then ws ! l else 0)"

lemma fn_tys_func [simp]: "fn_tys (func tys n bbs) = tys"
  by (simp add: func_def fn_tys_def loc_def comp_def)

lemma func_fields [simp]:
  "basic_blocks (func tys n bbs) = bbs" "is_async (func tys n bbs) = False"
  "arg_count (func tys n bbs) = n" "locals (func tys n bbs) = map loc tys"
  by (simp_all add: func_def)

lemma fn_returnsI: "run_fn rt checked f n env h = Some r \<Longrightarrow> fn_returns rt checked f env h r"
  by (auto simp: fn_returns_def)

end
