(* ===== verification/Folding.thy ===== *)
theory Folding
  imports Refine Samples
begin

text \<open>
  Constant folding (\<open>const_fold.rs\<close>) against the code generator: folding an operator gives the
  word that the emitted instructions compute, and a fold that would fault is not done. The runtime
  record carries the floating-point operations, so \<open>fl\<close> is \<open>rt_f64 rt\<close>.
\<close>

lemma mod_32_64: "(n :: nat) mod 4294967296 mod 64 = n mod 64"
  by (simp add: mod_mod_cancel)

lemmas static_kind_defs = is_u64_op_def is_str_op_def is_float_op_def is_pyobj_op_def is_any_op_def
  is_list_op_def

lemma const_not_special [simp]:
  "\<not> is_u64_op tys (Constant c)" "\<not> is_pyobj_op tys (Constant c)" "\<not> is_any_op tys (Constant c)"
  "\<not> is_list_op tys (Constant c)"
  "is_str_op tys (Constant c) \<longleftrightarrow> (\<exists>s. c = CStr s)"
  "is_float_op tys (Constant c) \<longleftrightarrow> (\<exists>b. c = CFloat b)"
  by (auto simp: static_kind_defs split: const.splits)

lemmas native_defs = dispatch_binop_def Let_def translate_add_def translate_sub_def translate_mul_def
  translate_div_def translate_mod_def translate_eq_def translate_cmp_def translate_shr_def
  emit_checked_arith_def emit_div_zero_check_def emit_signed_div_overflow_check_def shift_count_def

lemma fold_int_dispatch:
  assumes "fold_int bop a b = Some c"
  shows "\<exists>v. constant_value rt c = Inr v \<and>
      dispatch_binop rt checked tys bop (Constant (CInt a)) (Constant (CInt b)) a b h = Inr (v, h)"
  using assms
  by (cases bop)
     (auto simp: native_defs checked_add_def checked_sub_def checked_mul_def checked_div_def
        checked_rem_def wrapping_shl_def wrapping_shr_def mod_32_64 split: if_splits)

lemma fold_float_dispatch:
  assumes "fold_float (rt_f64 rt) bop a b = Some c"
  shows "\<exists>v. constant_value rt c = Inr v \<and>
      dispatch_binop rt checked tys bop (Constant (CFloat a)) (Constant (CFloat b)) a b h = Inr (v, h)"
  using assms by (cases bop) (auto simp: native_defs)

lemma fold_bool_dispatch:
  assumes "fold_bool bop a b = Some c"
  shows "\<exists>v. constant_value rt c = Inr v \<and>
      dispatch_binop rt checked tys bop (Constant (CBool a)) (Constant (CBool b))
        (word_of_bool a) (word_of_bool b) h = Inr (v, h)"
  using assms by (cases bop) (auto simp: native_defs word_of_bool_def)

lemma fold_unary_dispatch:
  assumes "fold_unary (rt_f64 rt) uop k = Some c"
  shows "\<exists>w v. constant_value rt k = Inr w \<and> constant_value rt c = Inr v \<and>
      dispatch_unaryop rt tys uop (Constant k) w h = Inr (v, h)"
  using assms
  by (cases uop; cases k) (auto simp: dispatch_unaryop_def word_of_bool_def)

lemma fold_rvalue_eval:
  assumes "fold_rvalue (rt_f64 rt) rv = Some rv'"
  shows "eval_rvalue rt checked tys rv env h = eval_rvalue rt checked tys rv' env h"
proof -
  from assms consider
      (int) bop a b c where "rv = BinaryOp bop (Constant (CInt a)) (Constant (CInt b))"
        "fold_int bop a b = Some c" "rv' = Use (Constant c)"
    | (float) bop a b c where "rv = BinaryOp bop (Constant (CFloat a)) (Constant (CFloat b))"
        "fold_float (rt_f64 rt) bop a b = Some c" "rv' = Use (Constant c)"
    | (bool) bop a b c where "rv = BinaryOp bop (Constant (CBool a)) (Constant (CBool b))"
        "fold_bool bop a b = Some c" "rv' = Use (Constant c)"
    | (unary) uop k c where "rv = UnaryOp uop (Constant k)"
        "fold_unary (rt_f64 rt) uop k = Some c" "rv' = Use (Constant c)"
    by (cases "(rt_f64 rt, rv)" rule: fold_rvalue.cases) auto
  then show ?thesis
  proof cases
    case int
    with fold_int_dispatch [OF int(2), of rt checked tys h] show ?thesis
      by (auto simp: eval_rvalue_def translate_binop_def)
  next
    case float
    with fold_float_dispatch [OF float(2), of checked tys h] show ?thesis
      by (auto simp: eval_rvalue_def translate_binop_def)
  next
    case bool
    with fold_bool_dispatch [OF bool(2), of rt checked tys h] show ?thesis
      by (auto simp: eval_rvalue_def translate_binop_def)
  next
    case unary
    with fold_unary_dispatch [OF unary(2), of tys h] show ?thesis
      by (auto simp: eval_rvalue_def translate_unaryop_def)
  qed
qed

interpretation folding: rvalue_pass "\<lambda>rv. Some (fold_rvalue (rt_f64 rt) rv)" rt checked tys True
    "\<lambda>_. True" for rt :: "'h runtime" and checked tys
  by unfold_locales (simp add: fold_rvalue_eval)

text \<open>
  C4. Constant folding never fails and is exact: the folded function returns what the function
  returned, faults included, in checked and in release builds, for every runtime whose
  floating-point operations the compiler shares.
\<close>

theorem const_fold_exact:
  "case const_fold_run (rt_f64 rt) f of
     None \<Rightarrow> False
   | Some (f', _) \<Rightarrow> \<forall>checked env h r. fn_returns rt checked f' env h r \<longleftrightarrow> fn_returns rt checked f env h r"
proof (cases "const_fold_run (rt_f64 rt) f")
  case None
  then show ?thesis using rewrite_fn_total [of f] by (simp add: const_fold_run_def)
next
  case (Some r)
  obtain f' c where r: "r = (f', c)" by (cases r)
  have "fn_returns rt checked f' env h x \<longleftrightarrow> fn_returns rt checked f env h x" for checked env h x
    by (rule folding.run_refined(2) [OF _ refl])
      (use Some r in \<open>auto simp: const_fold_run_def list_all_iff\<close>)
  with Some r show ?thesis by simp
qed

text \<open>\<open>2 + 3\<close> becomes \<open>5\<close>; the overflowing sum and the division by zero stay for run time.\<close>

lemma fold_rvalue_examples:
  "fold_rvalue word_f64 (BinaryOp AddOp (Constant (CInt 2)) (Constant (CInt 3)))
     = Some (Use (Constant (CInt 5)))"
  "fold_rvalue word_f64 (BinaryOp AddOp (Constant (CInt (i64_min - 1))) (Constant (CInt 1))) = None"
  "fold_rvalue word_f64 (BinaryOp DivOp (Constant (CInt 1)) (Constant (CInt 0))) = None"
  by code_simp+

end
