(* ===== verification/Peephole.thy ===== *)
theory Peephole
  imports Exec
begin

text \<open>
  The local rewrites: peephole patterns (\<open>src/mir/optimizations/peephole.rs\<close>), strength
  reduction (\<open>strength_reduction.rs\<close>) and algebraic simplification (\<open>algebraic.rs\<close>).
\<close>

subsection \<open>Peephole\<close>

definition int_like_ty :: "ty \<Rightarrow> bool" where
  "int_like_ty t \<longleftrightarrow>
     t \<in> {TInt, TI8, TI16, TI32, TU8, TU16, TU32, TU64, TUsize, TBool}"

fun is_int_like :: "ty list \<Rightarrow> operand \<Rightarrow> bool" where
  "is_int_like tys (Constant _) = True"
| "is_int_like tys (Copy l) = (l < length tys \<and> int_like_ty (tys ! l))"
| "is_int_like tys (Move l) = (l < length tys \<and> int_like_ty (tys ! l))"

fun is_float_like :: "ty list \<Rightarrow> operand \<Rightarrow> bool" where
  "is_float_like tys (Constant _) = True"
| "is_float_like tys (Copy l) = (l < length tys \<and> (tys ! l = TFloat \<or> tys ! l = TF32))"
| "is_float_like tys (Move l) = (l < length tys \<and> (tys ! l = TFloat \<or> tys ! l = TF32))"

abbreviation int_const :: "i64 \<Rightarrow> operand" where
  "int_const i \<equiv> Constant (CInt i)"

abbreviation bool_const :: "bool \<Rightarrow> operand" where
  "bool_const b \<equiv> Constant (CBool b)"

text \<open>
  One arm per group of patterns, tried in the source's order; \<open>None\<close> is the final \<open>_ => {}\<close>. An
  or-pattern binds its first matching alternative, and falls through to the next alternative
  when the guard fails.
\<close>

definition peep_identity :: "ty list \<Rightarrow> bin_op \<Rightarrow> operand \<Rightarrow> operand \<Rightarrow> rvalue option" where
  "peep_identity tys bop l r =
     (if bop = AddOp \<and> r = int_const 0 \<and> is_int_like tys l then Some (Use l)
      else if bop = AddOp \<and> l = int_const 0 \<and> is_int_like tys r then Some (Use r)
      else if bop = SubOp \<and> r = int_const 0 \<and> is_int_like tys l then Some (Use l)
      else if bop = MulOp \<and> r = int_const 1 \<and> is_int_like tys l then Some (Use l)
      else if bop = MulOp \<and> l = int_const 1 \<and> is_int_like tys r then Some (Use r)
      else if bop = DivOp \<and> r = int_const 1 \<and> is_int_like tys l then Some (Use l)
      else None)"

definition peep_zero :: "ty list \<Rightarrow> bin_op \<Rightarrow> operand \<Rightarrow> operand \<Rightarrow> rvalue option" where
  "peep_zero tys bop l r =
     (if bop = MulOp \<and> r = int_const 0 \<and> is_int_like tys l then Some (Use r)
      else if bop = MulOp \<and> l = int_const 0 \<and> is_int_like tys r then Some (Use l)
      else None)"

definition peep_same :: "ty list \<Rightarrow> bin_op \<Rightarrow> operand \<Rightarrow> operand \<Rightarrow> rvalue option" where
  "peep_same tys bop l r =
     (if l \<noteq> r then None
      else if bop = EqOp \<and> is_int_like tys l then Some (Use (bool_const True))
      else if bop = NotEqOp \<and> is_int_like tys l then Some (Use (bool_const False))
      else if bop = LtOp \<and> (is_int_like tys l \<or> is_float_like tys l)
        then Some (Use (bool_const False))
      else if bop = GtOp \<and> (is_int_like tys l \<or> is_float_like tys l)
        then Some (Use (bool_const False))
      else if bop = LtEqOp \<and> is_int_like tys l then Some (Use (bool_const True))
      else if bop = GtEqOp \<and> is_int_like tys l then Some (Use (bool_const True))
      else if bop = SubOp \<and> is_int_like tys l then Some (Use (int_const 0))
      else None)"

definition peep_bits :: "ty list \<Rightarrow> bin_op \<Rightarrow> operand \<Rightarrow> operand \<Rightarrow> rvalue option" where
  "peep_bits tys bop l r =
     (if bop = ShlOp \<and> r = int_const 0 \<and> is_int_like tys l then Some (Use l)
      else if bop = ShrOp \<and> r = int_const 0 \<and> is_int_like tys l then Some (Use l)
      else if bop = AndOp \<and> r = int_const 0 \<and> is_int_like tys l then Some (Use (int_const 0))
      else if bop = AndOp \<and> l = int_const 0 \<and> is_int_like tys r then Some (Use (int_const 0))
      else if bop = OrOp \<and> r = int_const 0 \<and> is_int_like tys l then Some (Use l)
      else if bop = OrOp \<and> l = int_const 0 \<and> is_int_like tys r then Some (Use r)
      else if bop = AndOp \<and> l = r \<and> is_int_like tys l then Some (Use l)
      else if bop = OrOp \<and> l = r \<and> is_int_like tys l then Some (Use l)
      else None)"

definition or_else :: "'a option \<Rightarrow> 'a option \<Rightarrow> 'a option" where
  "or_else a b = (case a of Some x \<Rightarrow> Some x | None \<Rightarrow> b)"

fun peephole_rvalue :: "ty list \<Rightarrow> rvalue \<Rightarrow> rvalue option" where
  "peephole_rvalue tys (BinaryOp bop l r) =
     or_else (peep_identity tys bop l r)
       (or_else (peep_zero tys bop l r)
         (or_else (peep_same tys bop l r) (peep_bits tys bop l r)))"
| "peephole_rvalue tys _ = None"

text \<open>
  \<open>eliminate_double_not\<close> walks one block with the map of locals last defined by a \<open>not\<close>. It
  leaves the whole block at a \<open>not\<close> of a constant, and forgets everything at any other
  statement than storage markers.
\<close>

fun double_not_loop ::
  "(local \<rightharpoonup> operand) \<Rightarrow> statement list \<Rightarrow> statement list \<times> bool" where
  "double_not_loop not_defs [] = ([], False)"
| "double_not_loop not_defs (s # ss) =
     (case kind s of
        Assign out (UnaryOp NotOp inner) \<Rightarrow>
          (case op_local inner of
             [] \<Rightarrow> (s # ss, False)
           | l # _ \<Rightarrow>
               (case not_defs l of
                  Some src \<Rightarrow>
                    (let (ss', c) = double_not_loop not_defs ss
                     in (s\<lparr>kind := Assign out (Use src)\<rparr> # ss', True))
                | None \<Rightarrow>
                    (let (ss', c) = double_not_loop (not_defs(out \<mapsto> inner)) ss
                     in (s # ss', c))))
      | StorageLive _ \<Rightarrow> (let (ss', c) = double_not_loop not_defs ss in (s # ss', c))
      | StorageDead _ \<Rightarrow> (let (ss', c) = double_not_loop not_defs ss in (s # ss', c))
      | _ \<Rightarrow> (let (ss', c) = double_not_loop Map.empty ss in (s # ss', c)))"

definition eliminate_double_not :: "basic_block \<Rightarrow> basic_block \<times> bool" where
  "eliminate_double_not bb =
     (let (ss, c) = double_not_loop Map.empty (statements bb) in (bb\<lparr>statements := ss\<rparr>, c))"

text \<open>The second loop of \<open>run\<close>: the patterns above at every assignment.\<close>

definition peephole_patterns :: "mir_function \<Rightarrow> (mir_function \<times> bool) option" where
  "peephole_patterns f = rewrite_fn (\<lambda>rv. Some (peephole_rvalue (fn_tys f) rv)) f"

definition peephole_run :: "mir_function \<Rightarrow> (mir_function \<times> bool) option" where
  "peephole_run f =
     (let f1 = f\<lparr>basic_blocks := map (fst \<circ> eliminate_double_not) (basic_blocks f)\<rparr>;
          c1 = list_ex (snd \<circ> eliminate_double_not) (basic_blocks f)
      in do { (f2, c2) \<leftarrow> peephole_patterns f1; Some (f2, c1 \<or> c2) })"

subsection \<open>Strength reduction\<close>

text \<open>Here the code indexes \<open>local_types\<close> without a check, so an undeclared local panics.\<close>

fun sr_is_pyobj_op :: "ty list \<Rightarrow> operand \<Rightarrow> bool option" where
  "sr_is_pyobj_op tys (Copy l) = map_option is_py_value (idx tys l)"
| "sr_is_pyobj_op tys (Move l) = map_option is_py_value (idx tys l)"
| "sr_is_pyobj_op tys (Constant _) = Some False"

definition unsigned_ty :: "ty \<Rightarrow> bool" where
  "unsigned_ty t \<longleftrightarrow> t \<in> {TU8, TU16, TU32, TU64, TUsize}"

fun is_unsigned_op :: "ty list \<Rightarrow> operand \<Rightarrow> bool option" where
  "is_unsigned_op tys (Copy l) = map_option unsigned_ty (idx tys l)"
| "is_unsigned_op tys (Move l) = map_option unsigned_ty (idx tys l)"
| "is_unsigned_op tys (Constant _) = Some False"

definition sr_mul :: "ty list \<Rightarrow> operand \<Rightarrow> i64 \<Rightarrow> rvalue option option" where
  "sr_mul tys p c =
     (if 2 \<le> sint c \<and> is_power_of_two c then
        do { py \<leftarrow> sr_is_pyobj_op tys p;
             Some (if py then None
                   else Some (BinaryOp ShlOp p (int_const (word_of_nat (trailing_zeros c))))) }
      else Some None)"

definition sr_unsigned :: "ty list \<Rightarrow> operand \<Rightarrow> i64 \<Rightarrow> rvalue \<Rightarrow> rvalue option option" where
  "sr_unsigned tys p c rv =
     (if 1 < sint c \<and> is_power_of_two c then
        do { py \<leftarrow> sr_is_pyobj_op tys p;
             if py then Some None
             else do { u \<leftarrow> is_unsigned_op tys p; Some (if u then Some rv else None) } }
      else Some None)"

fun const_int :: "operand \<Rightarrow> i64 option" where
  "const_int (Constant (CInt c)) = Some c"
| "const_int _ = None"

definition sr_or_else :: "'a option option \<Rightarrow> 'a option option \<Rightarrow> 'a option option" where
  "sr_or_else a b = do { x \<leftarrow> a; case x of Some y \<Rightarrow> Some (Some y) | None \<Rightarrow> b }"

fun strength_reduce :: "ty list \<Rightarrow> rvalue \<Rightarrow> rvalue option option" where
  "strength_reduce tys (BinaryOp MulOp l r) =
     sr_or_else (case const_int r of Some c \<Rightarrow> sr_mul tys l c | None \<Rightarrow> Some None)
                (case const_int l of Some c \<Rightarrow> sr_mul tys r c | None \<Rightarrow> Some None)"
| "strength_reduce tys (BinaryOp DivOp l r) =
     (case const_int r of
        Some c \<Rightarrow> sr_unsigned tys l c
                    (BinaryOp ShrOp l (int_const (word_of_nat (trailing_zeros c))))
      | None \<Rightarrow> Some None)"
| "strength_reduce tys (BinaryOp ModOp l r) =
     (case const_int r of
        Some c \<Rightarrow> sr_unsigned tys l c (BinaryOp AndOp l (int_const (c - 1)))
      | None \<Rightarrow> Some None)"
| "strength_reduce tys _ = Some None"

definition strength_reduction_run :: "mir_function \<Rightarrow> (mir_function \<times> bool) option" where
  "strength_reduction_run f = rewrite_fn (strength_reduce (fn_tys f)) f"

subsection \<open>Algebraic simplification\<close>

text \<open>
  A division of a multiplication: \<open>src\<close> must have exactly one assignment in the function, and
  that one a product with a constant. \<open>a % b\<close> of \<open>i64::MIN\<close> and \<open>-1\<close> panics.
\<close>

fun all_assigns :: "basic_block list \<Rightarrow> (local \<times> rvalue) list" where
  "all_assigns [] = []"
| "all_assigns (bb # bbs) =
     concat (map (\<lambda>s. case kind s of Assign d rv \<Rightarrow> [(d, rv)] | _ \<Rightarrow> []) (statements bb))
     @ all_assigns bbs"

definition assign_count :: "mir_function \<Rightarrow> local \<Rightarrow> nat" where
  "assign_count f l = length (filter (\<lambda>(d, _). d = l) (all_assigns (basic_blocks f)))"

definition single_def :: "mir_function \<Rightarrow> local \<Rightarrow> rvalue option" where
  "single_def f l =
     (if assign_count f l = 1 then map_of (rev (all_assigns (basic_blocks f))) l else None)"

definition i64_rem_panics :: "i64 \<Rightarrow> i64 \<Rightarrow> i64 option" where
  "i64_rem_panics a b = checked_rem a b"

definition alg_factor :: "i64 \<Rightarrow> i64 \<Rightarrow> operand \<Rightarrow> rvalue option option" where
  "alg_factor a b p =
     do { rm \<leftarrow> i64_rem_panics a b;
          Some (if rm = 0 then Some (BinaryOp MulOp p (int_const (i64_quot a b))) else None) }"

fun alg_rvalue :: "(local \<Rightarrow> rvalue option) \<Rightarrow> rvalue \<Rightarrow> rvalue option option" where
  "alg_rvalue sd (BinaryOp DivOp (Copy src) (Constant (CInt b))) =
     (if b = 0 then Some None
      else (case sd src of
              Some (BinaryOp MulOp mul_lhs mul_rhs) \<Rightarrow>
                (case const_int mul_rhs of
                   Some a \<Rightarrow> alg_factor a b mul_lhs
                 | None \<Rightarrow> (case const_int mul_lhs of
                             Some a \<Rightarrow> alg_factor a b mul_rhs
                           | None \<Rightarrow> Some None))
            | _ \<Rightarrow> Some None))"
| "alg_rvalue sd _ = Some None"

definition algebraic_run :: "mir_function \<Rightarrow> (mir_function \<times> bool) option" where
  "algebraic_run f = rewrite_fn (alg_rvalue (single_def f)) f"

end
