(* ===== verification/ScalarPasses.thy ===== *)
theory ScalarPasses
  imports Peephole Folding
begin

text \<open>
  The rewrites of \<open>peephole.rs\<close>, \<open>strength_reduction.rs\<close> and \<open>algebraic.rs\<close> against the code
  generator, through the law of \<open>rvalue_pass\<close>, and the inputs on which they go wrong.
\<close>

subsection \<open>Operands that read the same twice\<close>

text \<open>A copy, an integer or a truth value: no \<open>Move\<close>, no address, no float.\<close>

fun plain_operand :: "operand \<Rightarrow> bool" where
  "plain_operand (Copy _) = True"
| "plain_operand (Constant (CInt _)) = True"
| "plain_operand (Constant (CBool _)) = True"
| "plain_operand _ = False"

fun plain_rvalue :: "rvalue \<Rightarrow> bool" where
  "plain_rvalue (BinaryOp _ a b) = (plain_operand a \<and> plain_operand b)"
| "plain_rvalue _ = True"

definition plain_value :: "operand \<Rightarrow> (local \<Rightarrow> i64) \<Rightarrow> i64" where
  "plain_value p env =
     (case p of Copy l \<Rightarrow> env l | Constant (CInt i) \<Rightarrow> i | Constant (CBool b) \<Rightarrow> word_of_bool b | _ \<Rightarrow> 0)"

lemma translate_plain:
  "plain_operand p \<Longrightarrow> translate_operand rt p env = Inr (plain_value p env, env)"
  by (cases p rule: plain_operand.cases) (auto simp: plain_value_def)

lemma int_like_not_special:
  assumes "is_int_like tys p" "plain_operand p"
  shows "\<not> is_str_op tys p" "\<not> is_float_op tys p" "\<not> is_pyobj_op tys p" "\<not> is_any_op tys p"
    "\<not> is_list_op tys p"
  using assms
  by (cases p rule: plain_operand.cases; auto simp: static_kind_defs int_like_ty_def)+

lemma float_like_not_special:
  assumes "is_float_like tys p" "plain_operand p"
  shows "\<not> is_str_op tys p" "\<not> is_pyobj_op tys p" "\<not> is_any_op tys p"
  using assms
  by (cases p rule: plain_operand.cases; auto simp: static_kind_defs)+

lemma eval_plain_binop:
  assumes "plain_operand a" "plain_operand b"
  shows "eval_rvalue rt checked tys (BinaryOp bop a b) env h =
     and_then (dispatch_binop rt checked tys bop a b (plain_value a env) (plain_value b env) h)
       (\<lambda>(v, h). Inr (v, env, h))"
  using assms by (simp add: eval_rvalue_def translate_binop_def translate_plain)

lemma eval_plain_use:
  "plain_operand p \<Longrightarrow> eval_rvalue rt checked tys (Use p) env h = Inr (plain_value p env, env, h)"
  by (simp add: eval_rvalue_def translate_plain)

text \<open>The integer operators on operands of integer type, by their instructions alone.\<close>

lemma in_i64_sint [simp]: "in_i64 (sint (w :: i64))" "in_i64 0"
  by (simp_all add: sint_range_i64) (simp add: in_i64_def)

lemma in_u64_uint [simp]: "in_u64 (uint (w :: i64))" "in_u64 0"
  using uint_bounded [of w] by (simp_all add: in_u64_def)

lemma i64_quot_1 [simp]: "i64_quot w 1 = w"
  by (simp add: i64_quot_def)

lemma plain_value_int [simp]: "plain_value (Constant (CInt i)) env = i"
  and plain_value_bool [simp]: "plain_value (Constant (CBool b)) env = word_of_bool b"
  by (simp_all add: plain_value_def)

lemma sint_1_64 [simp]: "sint (1 :: i64) = 1"
  by simp

lemma peep_identity_eval:
  assumes "peep_identity tys bop a b = Some rv'" "plain_operand a" "plain_operand b"
  shows "eval_rvalue rt checked tys (BinaryOp bop a b) env h = eval_rvalue rt checked tys rv' env h"
  using assms int_like_not_special [of tys a] int_like_not_special [of tys b]
  by (auto simp: peep_identity_def eval_plain_binop eval_plain_use native_defs split: if_splits)

lemma peep_zero_eval:
  assumes "peep_zero tys bop a b = Some rv'" "plain_operand a" "plain_operand b"
  shows "eval_rvalue rt checked tys (BinaryOp bop a b) env h = eval_rvalue rt checked tys rv' env h"
  using assms int_like_not_special [of tys a] int_like_not_special [of tys b]
  by (auto simp: peep_zero_def eval_plain_binop eval_plain_use native_defs split: if_splits)

lemma peep_same_eval:
  assumes "peep_same tys bop a b = Some rv'" "plain_operand a" "plain_operand b"
    and "\<And>x. \<not> f_lt (rt_f64 rt) x x"
  shows "eval_rvalue rt checked tys (BinaryOp bop a b) env h = eval_rvalue rt checked tys rv' env h"
  using assms int_like_not_special [of tys a] float_like_not_special [of tys a]
  by (auto simp: peep_same_def eval_plain_binop eval_plain_use native_defs word_of_bool_def
      split: if_splits)

lemma peep_bits_eval:
  assumes "peep_bits tys bop a b = Some rv'" "plain_operand a" "plain_operand b"
  shows "eval_rvalue rt checked tys (BinaryOp bop a b) env h = eval_rvalue rt checked tys rv' env h"
  using assms int_like_not_special [of tys a] int_like_not_special [of tys b]
  by (auto simp: peep_bits_def eval_plain_binop eval_plain_use native_defs split: if_splits)

lemma or_else_Some: "or_else a b = Some x \<longleftrightarrow> a = Some x \<or> a = None \<and> b = Some x"
  by (cases a) (auto simp: or_else_def)

lemma peephole_rvalue_eval:
  assumes "peephole_rvalue tys rv = Some rv'" "plain_rvalue rv" "\<And>x. \<not> f_lt (rt_f64 rt) x x"
  shows "eval_rvalue rt checked tys rv env h = eval_rvalue rt checked tys rv' env h"
  using assms
  by (cases "(tys, rv)" rule: peephole_rvalue.cases)
     (auto simp: or_else_Some dest: peep_identity_eval peep_zero_eval peep_same_eval peep_bits_eval)

interpretation peephole: rvalue_pass "\<lambda>rv. Some (peephole_rvalue tys rv)" rt checked tys True
    "\<lambda>rv. plain_rvalue rv \<and> (\<forall>x. \<not> f_lt (rt_f64 rt) x x)"
  for rt :: "'h runtime" and checked tys
  by unfold_locales (simp add: peephole_rvalue_eval)

subsection \<open>Strength reduction\<close>

text \<open>Operands in a 64-bit integer register that the code generator treats as the pass does.\<close>

fun word_operand :: "ty set \<Rightarrow> ty list \<Rightarrow> operand \<Rightarrow> bool" where
  "word_operand T tys (Copy l) = (tys ! l \<in> T)"
| "word_operand T tys (Move l) = (tys ! l \<in> T)"
| "word_operand T tys (Constant c) = (case c of CInt _ \<Rightarrow> True | _ \<Rightarrow> False)"

fun sr_ok :: "ty list \<Rightarrow> rvalue \<Rightarrow> bool" where
  "sr_ok tys (BinaryOp MulOp a b) =
     (word_operand {TInt, TU64, TUsize} tys a \<and> word_operand {TInt, TU64, TUsize} tys b)"
| "sr_ok tys (BinaryOp DivOp a b) = word_operand {TInt, TU64} tys a"
| "sr_ok tys (BinaryOp ModOp a b) = word_operand {TInt, TU64} tys a"
| "sr_ok tys _ = True"

lemma word_operand_not_special:
  assumes "word_operand T tys p" "T \<subseteq> {TInt, TU64, TUsize}"
  shows "\<not> is_str_op tys p" "\<not> is_float_op tys p" "\<not> is_pyobj_op tys p" "\<not> is_any_op tys p"
    "\<not> is_list_op tys p"
  using assms
  by (cases p; force simp: static_kind_defs split: const.splits)+

lemma eval_binop_const_right:
  "eval_rvalue rt checked tys (BinaryOp bop p (Constant (CInt c))) env h =
     and_then (translate_operand rt p env) (\<lambda>(v, env).
       and_then (dispatch_binop rt checked tys bop p (Constant (CInt c)) v c h)
         (\<lambda>(v, h). Inr (v, env, h)))"
  by (simp add: eval_rvalue_def translate_binop_def)

lemma eval_binop_const_left:
  "eval_rvalue rt checked tys (BinaryOp bop (Constant (CInt c)) p) env h =
     and_then (translate_operand rt p env) (\<lambda>(v, env).
       and_then (dispatch_binop rt checked tys bop (Constant (CInt c)) p c v h)
         (\<lambda>(v, h). Inr (v, env, h)))"
  by (simp add: eval_rvalue_def translate_binop_def case_prod_beta)

lemma shift_count_of_nat: "k < 64 \<Longrightarrow> shift_count (word_of_nat k) = k"
  by (simp add: shift_count_def unat_of_nat)

lemma mul_shift_dispatch:
  assumes p: "word_operand {TInt, TU64, TUsize} tys p" and k: "k < 64" and c: "c = push_bit k 1"
  shows "refines (\<not> checked) (dispatch_binop rt checked tys MulOp p (Constant (CInt c)) v c h)
      (dispatch_binop rt checked tys ShlOp p (Constant (CInt (word_of_nat k))) v (word_of_nat k) h)"
    and "refines (\<not> checked) (dispatch_binop rt checked tys MulOp (Constant (CInt c)) p c v h)
      (dispatch_binop rt checked tys ShlOp p (Constant (CInt (word_of_nat k))) v (word_of_nat k) h)"
proof -
  have "push_bit k v = v * c" by (simp add: c push_bit_eq_mult)
  with word_operand_not_special [OF p] k
  show "refines (\<not> checked) (dispatch_binop rt checked tys MulOp p (Constant (CInt c)) v c h)
      (dispatch_binop rt checked tys ShlOp p (Constant (CInt (word_of_nat k))) v (word_of_nat k) h)"
    and "refines (\<not> checked) (dispatch_binop rt checked tys MulOp (Constant (CInt c)) p c v h)
      (dispatch_binop rt checked tys ShlOp p (Constant (CInt (word_of_nat k))) v (word_of_nat k) h)"
    by (auto simp: dispatch_binop_def Let_def translate_mul_def emit_checked_arith_def
        shift_count_of_nat mult.commute)
qed

lemma div_shift_dispatch:
  assumes p: "word_operand {TU64} tys p" "\<And>c. p \<noteq> Constant c" and k: "k < 64" and c: "c = push_bit k 1"
  shows "dispatch_binop rt checked tys DivOp p (Constant (CInt c)) v c h =
      dispatch_binop rt checked tys ShrOp p (Constant (CInt (word_of_nat k))) v (word_of_nat k) h"
    and "dispatch_binop rt checked tys ModOp p (Constant (CInt c)) v c h =
      dispatch_binop rt checked tys AndOp p (Constant (CInt (c - 1))) v (c - 1) h"
proof -
  have u: "is_u64_op tys p"
    using p by (cases p) (auto simp: is_u64_op_def)
  have "c \<noteq> 0" using k by (simp add: c push_bit_eq_mult flip: exp_eq_0_imp_not_bit)
  moreover have "drop_bit k v = v div c" by (simp add: c drop_bit_eq_div push_bit_eq_mult)
  moreover have "v AND (c - 1) = v mod c"
    by (simp add: c push_bit_eq_mult flip: take_bit_eq_mod mask_eq_exp_minus_1 take_bit_eq_mask)
  ultimately show "dispatch_binop rt checked tys DivOp p (Constant (CInt c)) v c h =
      dispatch_binop rt checked tys ShrOp p (Constant (CInt (word_of_nat k))) v (word_of_nat k) h"
    and "dispatch_binop rt checked tys ModOp p (Constant (CInt c)) v c h =
      dispatch_binop rt checked tys AndOp p (Constant (CInt (c - 1))) v (c - 1) h"
    using word_operand_not_special [OF p(1)] u k
    by (auto simp: dispatch_binop_def Let_def translate_div_def translate_mod_def translate_shr_def
        emit_div_zero_check_def shift_count_of_nat)
qed

lemma power_of_two_trailing:
  assumes "is_power_of_two c"
  obtains k where "k < 64" "c = push_bit k 1" "trailing_zeros c = k"
  using assms trailing_zeros_push_bit by (auto simp: is_power_of_two_def simp del: push_bit_of_1)

lemma const_int_Some: "const_int p = Some c \<longleftrightarrow> p = Constant (CInt c)"
  by (cases p rule: const_int.cases) auto

lemma sr_mul_Some:
  "sr_mul tys p c = Some (Some rv) \<Longrightarrow>
     \<exists>k<64. c = push_bit k 1 \<and> rv = BinaryOp ShlOp p (Constant (CInt (word_of_nat k)))"
  by (auto simp: sr_mul_def split: if_splits Option.bind_splits elim!: power_of_two_trailing)

lemma sr_unsigned_Some:
  assumes "sr_unsigned tys p c rv = Some (Some rv')"
  shows "rv' = rv \<and> is_unsigned_op tys p = Some True \<and> is_power_of_two c"
  using assms by (auto simp: sr_unsigned_def split: if_splits Option.bind_splits)

lemma unsigned_word_operand:
  "is_unsigned_op tys p = Some True \<Longrightarrow> word_operand {TInt, TU64} tys p \<Longrightarrow>
     word_operand {TU64} tys p \<and> (\<forall>c. p \<noteq> Constant c)"
  by (cases p) (auto simp: unsigned_ty_def dest!: idx_SomeD)

lemma strength_mul_refines:
  assumes "strength_reduce tys (BinaryOp MulOp a b) = Some (Some rv')" "sr_ok tys (BinaryOp MulOp a b)"
  shows "refines (\<not> checked) (eval_rvalue rt checked tys (BinaryOp MulOp a b) env h)
      (eval_rvalue rt checked tys rv' env h)"
proof -
  from assms(1) consider
      (right) c where "b = Constant (CInt c)" "sr_mul tys a c = Some (Some rv')"
    | (left) c where "a = Constant (CInt c)" "sr_mul tys b c = Some (Some rv')"
    by (auto simp: sr_or_else_def const_int_Some split: option.splits Option.bind_splits)
  then show ?thesis
  proof cases
    case right
    with assms(2) show ?thesis
      by (auto simp: eval_binop_const_right dest!: sr_mul_Some
          intro!: refines_and_then mul_shift_dispatch(1))
  next
    case left
    with assms(2) show ?thesis
      by (auto simp: eval_binop_const_right eval_binop_const_left dest!: sr_mul_Some
          intro!: refines_and_then mul_shift_dispatch(2))
  qed
qed

lemma strength_div_refines:
  assumes "strength_reduce tys (BinaryOp bop a b) = Some (Some rv')" "bop = DivOp \<or> bop = ModOp"
    "word_operand {TInt, TU64} tys a"
  shows "eval_rvalue rt checked tys (BinaryOp bop a b) env h = eval_rvalue rt checked tys rv' env h"
proof -
  from assms(1,2) obtain c rv where b: "b = Constant (CInt c)" and r: "sr_unsigned tys a c rv = Some (Some rv')"
    and rv: "rv = (if bop = DivOp then BinaryOp ShrOp a (Constant (CInt (word_of_nat (trailing_zeros c))))
                   else BinaryOp AndOp a (Constant (CInt (c - 1))))"
    by (auto simp: const_int_Some split: option.splits)
  from sr_unsigned_Some [OF r] have rv': "rv' = rv" and u: "is_unsigned_op tys a = Some True"
    and p2: "is_power_of_two c" by auto
  from p2 obtain k where k: "k < 64" "c = push_bit k 1" "trailing_zeros c = k"
    by (rule power_of_two_trailing)
  note w = unsigned_word_operand [OF u assms(3)]
  have d: "dispatch_binop rt checked tys DivOp a (Constant (CInt c)) v c h =
      dispatch_binop rt checked tys ShrOp a (Constant (CInt (word_of_nat k))) v (word_of_nat k) h"
    and m: "dispatch_binop rt checked tys ModOp a (Constant (CInt c)) v c h =
      dispatch_binop rt checked tys AndOp a (Constant (CInt (c - 1))) v (c - 1) h" for v h
    using w k by (auto intro!: div_shift_dispatch)
  from assms(2) show ?thesis
    using k(3) by (auto simp: b rv rv' eval_binop_const_right d m)
qed

lemma strength_reduce_refines:
  assumes "strength_reduce tys rv = Some (Some rv')" "sr_ok tys rv"
  shows "refines (\<not> checked) (eval_rvalue rt checked tys rv env h) (eval_rvalue rt checked tys rv' env h)"
proof -
  from assms(1) obtain bop a b where rv: "rv = BinaryOp bop a b"
    and bop: "bop = MulOp \<or> bop = DivOp \<or> bop = ModOp"
    by (cases "(tys, rv)" rule: strength_reduce.cases) auto
  from bop consider "bop = MulOp" | "bop = DivOp \<or> bop = ModOp" by blast
  then show ?thesis
  proof cases
    case 1
    with assms rv strength_mul_refines show ?thesis by simp
  next
    case 2
    moreover have "word_operand {TInt, TU64} tys a" using 2 assms(2) rv by auto
    ultimately show ?thesis using strength_div_refines assms(1) rv by (metis refines_refl)
  qed
qed

interpretation strength: rvalue_pass "strength_reduce tys" rt checked tys "\<not> checked" "sr_ok tys"
  for rt :: "'h runtime" and checked tys
  by unfold_locales (rule strength_reduce_refines)

text \<open>
  C24. The peephole patterns are exact on functions whose binary operators read copies, integers and
  truth values, neither moves nor constants of other types: the rewritten function returns the same results and
  the same faults. The one law asked of the floats is that no number is less than itself. The rule
  for a double negation, which \<open>peephole_run\<close> applies before the patterns, is not covered; it is wrong
  (\<open>double_not_ignores_reassignment\<close> below).
\<close>

theorem peephole_exact:
  assumes "peephole_patterns f = Some (f', changed)"
    and "list_all plain_rvalue (fn_rvalues f)"
    and "\<forall>x. \<not> f_lt (rt_f64 rt) x x"
  shows "fn_returns rt checked f' env h r \<longleftrightarrow> fn_returns rt checked f env h r"
  by (rule peephole.run_refined(2) [OF assms(1) [unfolded peephole_patterns_def] refl])
    (use assms(2,3) in \<open>auto simp: list_all_iff\<close>)

definition add_zero_fn :: "rvalue \<Rightarrow> mir_function" where
  "add_zero_fn rv = func [TInt, TInt] 1 [block [Assign 0 rv] Return]"

theorem peephole_exact_witness:
  "fn_returns bare_rt True (add_zero_fn (Use (Copy 1))) (env_of [0, 9]) () (Inr (9, ())) \<longleftrightarrow>
   fn_returns bare_rt True (add_zero_fn (BinaryOp AddOp (Copy 1) (Constant (CInt 0))))
     (env_of [0, 9]) () (Inr (9, ()))"
proof (rule peephole_exact)
  show "peephole_patterns (add_zero_fn (BinaryOp AddOp (Copy 1) (Constant (CInt 0))))
      = Some (add_zero_fn (Use (Copy 1)), True)"
    by code_simp
  show "list_all plain_rvalue (fn_rvalues (add_zero_fn (BinaryOp AddOp (Copy 1) (Constant (CInt 0)))))"
    by code_simp
  show "\<forall>x. \<not> f_lt (rt_f64 bare_rt) x x"
    by (simp add: bare_rt_def word_f64_def)
qed

text \<open>
  C25. Strength reduction on a function that multiplies 64-bit integers only and divides \<open>int\<close> and
  \<open>u64\<close> only: if it returns a value, the reduced function returns it too, and in a release build the
  faults stay as well. Quotients and remainders of \<open>usize\<close> are left out, on which the pass is wrong
  (\<open>strength_reduction_usize\<close> below), and so are narrower integers.
\<close>

theorem strength_reduction_refines:
  assumes "strength_reduction_run f = Some (f', changed)"
    and "list_all (sr_ok (fn_tys f)) (fn_rvalues f)"
  shows "(fn_returns rt checked f env h (Inr x) \<longrightarrow> fn_returns rt checked f' env h (Inr x))
    \<and> (fn_returns rt False f' env h r \<longleftrightarrow> fn_returns rt False f env h r)"
proof -
  note run = assms(1) [unfolded strength_reduction_run_def]
  have "fn_returns rt False f' env h r \<longleftrightarrow> fn_returns rt False f env h r"
    by (rule strength.run_refined(2) [OF run refl assms(2)]) simp
  then show ?thesis
    using strength.run_refined(1) [OF run refl assms(2)] by fast
qed

definition times_eight_fn :: "rvalue \<Rightarrow> mir_function" where
  "times_eight_fn rv = func [TInt, TInt] 1 [block [Assign 0 rv] Return]"

theorem strength_reduction_refines_witness:
  "fn_returns bare_rt True (times_eight_fn (BinaryOp ShlOp (Copy 1) (Constant (CInt 3))))
     (env_of [0, 5]) () (Inr (40, ()))"
proof -
  let ?f = "times_eight_fn (BinaryOp MulOp (Copy 1) (Constant (CInt 8)))"
  have a: "strength_reduction_run ?f
      = Some (times_eight_fn (BinaryOp ShlOp (Copy 1) (Constant (CInt 3))), True)"
    by code_simp
  have b: "list_all (sr_ok (fn_tys ?f)) (fn_rvalues ?f)" by code_simp
  have c: "fn_returns bare_rt True ?f (env_of [0, 5]) () (Inr (40, ()))"
    by (rule fn_returnsI [of _ _ _ 1]) code_simp
  show ?thesis
    by (rule strength_reduction_refines [OF a b, THEN conjunct1, rule_format, OF c])
qed

subsection \<open>Algebraic simplification\<close>

lemma sdiv_exact: "b \<noteq> 0 \<Longrightarrow> (x * b) sdiv b = (x :: int)"
  by (simp add: signed_divide_int_eq_divide_int)

lemma smod_zero_exact: "a smod b = 0 \<Longrightarrow> a = (a sdiv b) * (b :: int)"
  using sdiv_mult_smod_eq [of a b] by simp

lemma in_i64_quot:
  assumes "in_i64 a" "\<not> (a = - (2 ^ 63) \<and> b = -1)"
  shows "in_i64 (a sdiv b)"
proof -
  have "a sdiv b \<le> \<bar>a\<bar>" "- \<bar>a\<bar> \<le> a sdiv b"
    using sdiv_int_range [of a b] by auto
  moreover have "a sdiv b \<noteq> - a" if "a = - (2 ^ 63)"
    using assms(2) that int_sdiv_negated_is_minus1 [of a b] by simp
  moreover have "a \<noteq> - (2 ^ 63) \<Longrightarrow> \<bar>a\<bar> < 2 ^ 63" using assms(1) by (auto simp: in_i64_def)
  ultimately show ?thesis
    using assms(1) by (cases "a = - (2 ^ 63)") (simp_all add: in_i64_def)
qed

text \<open>
  The arithmetic of the pass: \<open>(v * a) / b\<close> is \<open>v * (a / b)\<close> when \<open>b\<close> divides \<open>a\<close>, the product did
  not wrap and the division is defined; the new product does not wrap either.
\<close>

lemma factor_quot:
  assumes m: "in_i64 (sint v * sint a)" and r: "checked_rem a b = Some 0"
    and d: "\<not> (v * a = i64_min \<and> b = -1)"
  shows "in_i64 (sint v * sint (i64_quot a b))"
    and "i64_quot (v * a) b = v * i64_quot a b"
proof -
  let ?q = "sint a sdiv sint b"
  have b: "b \<noteq> 0" and ab: "\<not> (a = i64_min \<and> b = -1)" and "i64_rem a b = 0"
    using r by (auto simp: checked_rem_def split: if_splits)
  have "sint b \<noteq> 0" using b i64_eq_iff [of b 0] by simp
  have nd: "\<not> (sint w = - (2 ^ 63) \<and> sint b = -1)" if "\<not> (w = i64_min \<and> b = -1)" for w
    using that unfolding i64_eq_iff sint_i64_min by simp
  have sq: "sint (i64_quot a b) = ?q"
    unfolding i64_quot_def by (rule sint_word_of_int_i64) (rule in_i64_quot [OF sint_range_i64 nd [OF ab]])
  have "in_i64 (sint a smod sint b)"
    using smod_int_range [OF \<open>sint b \<noteq> 0\<close>, of "sint a"] sint_range_i64 [of b]
    by (auto simp: in_i64_def abs_if split: if_splits)
  then have "sint a smod sint b = sint (i64_rem a b)"
    unfolding i64_rem_def by (rule sint_word_of_int_i64 [symmetric])
  with \<open>i64_rem a b = 0\<close> have "sint a smod sint b = 0" by simp
  then have e: "sint v * sint a = (sint v * ?q) * sint b"
    using smod_zero_exact by (metis mult.assoc)
  have vq: "(sint v * sint a) sdiv sint b = sint v * ?q"
    by (subst e) (rule sdiv_exact [OF \<open>sint b \<noteq> 0\<close>])
  have sva: "sint (v * a) = sint v * sint a"
    using sint_word_of_int_i64 [OF m] by simp
  have "in_i64 ((sint v * sint a) sdiv sint b)"
    by (rule in_i64_quot [OF m]) (use nd [OF d] sva in simp)
  with vq sq show "in_i64 (sint v * sint (i64_quot a b))" by simp
  have "i64_quot (v * a) b = word_of_int (sint v * ?q)"
    by (simp add: i64_quot_def sva vq)
  then show "i64_quot (v * a) b = v * i64_quot a b"
    by (simp add: i64_quot_def)
qed

text \<open>
  C26. Algebraic simplification keeps a result when the definition it looks through is still current
  and did not wrap: if evaluating that definition, checked, gives the value of the divided local
  again, the division and its replacement give the same value, in either build.
\<close>

theorem algebraic_exact:
  assumes "alg_rvalue sd (BinaryOp DivOp (Copy src) (Constant (CInt b))) = Some (Some rv')"
    and "sd src = Some def" and "tys ! src = TInt"
    and "case def of BinaryOp _ p q \<Rightarrow> word_operand {TInt} tys p \<and> plain_operand p
            \<and> word_operand {TInt} tys q \<and> plain_operand q | _ \<Rightarrow> False"
    and "eval_rvalue rt True tys def env h = Inr (env src, env, h)"
    and "eval_rvalue rt checked tys (BinaryOp DivOp (Copy src) (Constant (CInt b))) env h = Inr x"
  shows "eval_rvalue rt checked tys rv' env h = Inr x"
proof -
  have src: "word_operand {TInt} tys (Copy src)" using assms(3) by simp
  from assms(1,2) obtain p q a where fac: "alg_factor a b p = Some (Some rv')"
    and def: "def = BinaryOp MulOp p (Constant (CInt a)) \<or> def = BinaryOp MulOp (Constant (CInt a)) p"
    by (auto simp: const_int_Some split: if_splits rvalue.splits bin_op.splits option.splits)
  from fac have r: "checked_rem a b = Some 0"
    and rv': "rv' = BinaryOp MulOp p (Constant (CInt (i64_quot a b)))"
    by (auto simp: alg_factor_def i64_rem_panics_def split: Option.bind_splits if_splits)
  have p: "word_operand {TInt} tys p" "plain_operand p" using assms(4) def by auto
  note ns = word_operand_not_special [OF p(1)] word_operand_not_special [OF src]
  have nu: "\<not> is_u64_op tys p" "\<not> is_u64_op tys (Copy src)"
    using p src by (cases p; auto simp: is_u64_op_def)+
  let ?v = "plain_value p env"
  have m: "in_i64 (sint ?v * sint a)" and env: "env src = ?v * a"
    using assms(5) def p ns nu
    by (auto simp: eval_plain_binop dispatch_binop_def Let_def translate_mul_def
        emit_checked_arith_def and_then_Inr_iff mult.commute split: if_splits)
  have d: "\<not> (?v * a = i64_min \<and> b = -1)" and x: "x = (i64_quot (?v * a) b, env, h)"
    using assms(6) ns nu env
    by (auto simp: eval_rvalue_def translate_binop_def dispatch_binop_def Let_def translate_div_def
        emit_div_zero_check_def emit_signed_div_overflow_check_def and_then_Inr_iff split: if_splits)
  show ?thesis
    using factor_quot [OF m r d] p ns nu
    by (simp add: x rv' eval_plain_binop dispatch_binop_def Let_def translate_mul_def
        emit_checked_arith_def)
qed

theorem algebraic_exact_witness:
  "eval_rvalue bare_rt True [TInt, TInt, TInt] (BinaryOp MulOp (Copy 1) (Constant (CInt 2)))
     (env_of [0, 5, 40]) () = Inr (10, env_of [0, 5, 40], ())"
proof (rule algebraic_exact [where src = 2 and b = 4
      and sd = "[2 \<mapsto> BinaryOp MulOp (Copy 1) (Constant (CInt 8))]"
      and def = "BinaryOp MulOp (Copy 1) (Constant (CInt 8))"])
  show "alg_rvalue [2 \<mapsto> BinaryOp MulOp (Copy 1) (Constant (CInt 8))]
      (BinaryOp DivOp (Copy 2) (Constant (CInt 4)))
      = Some (Some (BinaryOp MulOp (Copy 1) (Constant (CInt 2))))"
    by code_simp
qed (simp_all add: eval_rvalue_def translate_binop_def native_defs static_kind_defs env_of_def
      in_i64_def i64_quot_def)

subsection \<open>Where the passes go wrong\<close>

text \<open>
  \<open>(x * 8) / 4\<close> is made \<open>x * 2\<close> whether or not \<open>x * 8\<close> wraps: in a release build the two functions
  return different numbers.
\<close>

definition mul_div_fn :: "rvalue \<Rightarrow> mir_function" where
  "mul_div_fn rv =
     func [TInt, TInt, TInt] 1
       [block [Assign 2 (BinaryOp MulOp (Copy 1) (Constant (CInt 8))), Assign 0 rv] Return]"

lemma algebraic_ignores_wrap:
  "algebraic_run (mul_div_fn (BinaryOp DivOp (Copy 2) (Constant (CInt 4))))
     = Some (mul_div_fn (BinaryOp MulOp (Copy 1) (Constant (CInt 2))), True)"
  "run_fn bare_rt False (mul_div_fn (BinaryOp DivOp (Copy 2) (Constant (CInt 4)))) 1
     (env_of [0, 2305843009213693952]) () = Some (Inr (0, ()))"
  "run_fn bare_rt False (mul_div_fn (BinaryOp MulOp (Copy 1) (Constant (CInt 2)))) 1
     (env_of [0, 2305843009213693952]) () = Some (Inr (4611686018427387904, ()))"
  by code_simp+

text \<open>
  The factor is read where the division stands: here local 1 was overwritten since the product was
  taken.
\<close>

definition stale_factor_fn :: "rvalue \<Rightarrow> mir_function" where
  "stale_factor_fn rv =
     func [TInt, TInt, TInt] 1
       [block [Assign 2 (BinaryOp MulOp (Copy 1) (Constant (CInt 8))),
               Assign 1 (Use (Constant (CInt 0))), Assign 0 rv] Return]"

lemma algebraic_ignores_reassignment:
  "algebraic_run (stale_factor_fn (BinaryOp DivOp (Copy 2) (Constant (CInt 4))))
     = Some (stale_factor_fn (BinaryOp MulOp (Copy 1) (Constant (CInt 2))), True)"
  "run_fn bare_rt True (stale_factor_fn (BinaryOp DivOp (Copy 2) (Constant (CInt 4)))) 1
     (env_of [0, 5]) () = Some (Inr (10, ()))"
  "run_fn bare_rt True (stale_factor_fn (BinaryOp MulOp (Copy 1) (Constant (CInt 2)))) 1
     (env_of [0, 5]) () = Some (Inr (0, ()))"
  by code_simp+

text \<open>\<open>i64::MIN % -1\<close> in the divisibility test panics the compiler.\<close>

lemma algebraic_panics:
  "alg_rvalue [2 \<mapsto> BinaryOp MulOp (Copy 1) (Constant (CInt i64_min))]
     (BinaryOp DivOp (Copy 2) (Constant (CInt (-1)))) = None"
  by code_simp

text \<open>
  \<open>a = not b; b = not c; d = not a\<close>: the last statement becomes \<open>d = b\<close>, but \<open>b\<close> has changed.
\<close>

definition three_nots :: "rvalue \<Rightarrow> mir_function" where
  "three_nots rv =
     func [TBool, TBool, TBool, TBool] 2
       [block [Assign 3 (UnaryOp NotOp (Copy 1)), Assign 1 (UnaryOp NotOp (Copy 2)), Assign 0 rv] Return]"

lemma double_not_ignores_reassignment:
  "peephole_run (three_nots (UnaryOp NotOp (Copy 3))) = Some (three_nots (Use (Copy 1)), True)"
  "run_fn bare_rt True (three_nots (UnaryOp NotOp (Copy 3))) 1 (env_of [0, 1, 1]) () = Some (Inr (1, ()))"
  "run_fn bare_rt True (three_nots (Use (Copy 1))) 1 (env_of [0, 1, 1]) () = Some (Inr (0, ()))"
  by code_simp+

text \<open>
  \<open>is_unsigned_op\<close> counts \<open>usize\<close> as unsigned, the code generator divides and shifts it as a signed
  word: \<open>x / 2\<close> and the shift it becomes differ on a \<open>usize\<close> with its top bit set.
\<close>

definition halve_fn :: "rvalue \<Rightarrow> mir_function" where
  "halve_fn rv = func [TUsize, TUsize] 1 [block [Assign 0 rv] Return]"

lemma strength_reduction_usize:
  "strength_reduction_run (halve_fn (BinaryOp DivOp (Copy 1) (Constant (CInt 2))))
     = Some (halve_fn (BinaryOp ShrOp (Copy 1) (Constant (CInt 1))), True)"
  "run_fn bare_rt True (halve_fn (BinaryOp DivOp (Copy 1) (Constant (CInt 2)))) 1
     (env_of [0, -1]) () = Some (Inr (0, ()))"
  "run_fn bare_rt True (halve_fn (BinaryOp ShrOp (Copy 1) (Constant (CInt 1)))) 1
     (env_of [0, -1]) () = Some (Inr (-1, ()))"
  by code_simp+

end
