(* ===== verification/SimplifyCfg.thy ===== *)
theory SimplifyCfg
  imports Exec
begin

text \<open>
  Control-flow simplification (\<open>src/mir/optimizations/simplify_cfg.rs\<close>): switches on constants
  become jumps, a block with a single predecessor that jumps to it is merged into it, blocks
  that cannot be reached are removed and the rest renumbered. The definitions follow the three
  methods of \<open>SimplifyCfg\<close>; the worklist of the reachability search is a stack, as in the code.
\<close>

subsection \<open>Branches on constants\<close>

definition branch_simplify_kind :: "terminator_kind \<Rightarrow> terminator_kind \<times> bool" where
  "branch_simplify_kind tk =
     (case tk of
        SwitchInt discr targets otherwise \<Rightarrow>
          (case discr of
             Constant (CBool b) \<Rightarrow>
               (Goto (switch_target (if b then 1 else 0) targets otherwise), True)
           | Constant (CInt v) \<Rightarrow> (Goto (switch_target v targets otherwise), True)
           | _ \<Rightarrow> if list_all (\<lambda>(_, t). t = otherwise) targets then (Goto otherwise, True)
                  else (tk, False))
      | _ \<Rightarrow> (tk, False))"

definition branch_simplify_block :: "basic_block \<Rightarrow> basic_block \<times> bool" where
  "branch_simplify_block bb =
     (case terminator bb of
        None \<Rightarrow> (bb, False)
      | Some t \<Rightarrow>
          (let (tk, c) = branch_simplify_kind (term_kind t)
           in (bb\<lparr>terminator := Some (t\<lparr>term_kind := tk\<rparr>)\<rparr>, c)))"

definition branch_simplification :: "mir_function \<Rightarrow> mir_function \<times> bool" where
  "branch_simplification f =
     (f\<lparr>basic_blocks := map (fst \<circ> branch_simplify_block) (basic_blocks f)\<rparr>,
      list_ex (snd \<circ> branch_simplify_block) (basic_blocks f))"

subsection \<open>Merging a block into its only predecessor\<close>

definition bump_pred :: "nat \<Rightarrow> nat list \<Rightarrow> bb_id \<Rightarrow> nat list" where
  "bump_pred n pc t = (if t < n then pc[t := pc ! t + 1] else pc)"

definition pred_count :: "basic_block list \<Rightarrow> nat list" where
  "pred_count bbs =
     (let n = length bbs
      in foldl (\<lambda>pc bb. foldl (bump_pred n) pc (bb_succs bb)) ((replicate n 0)[0 := 1]) bbs)"

definition unreachable_block :: basic_block where
  "unreachable_block =
     \<lparr>statements = [], terminator = Some \<lparr>term_kind = Unreachable, term_span = default_span\<rparr>\<rparr>"

definition goto_target :: "basic_block \<Rightarrow> bb_id option" where
  "goto_target bb =
     (case terminator bb of
        Some t \<Rightarrow> (case term_kind t of Goto b \<Rightarrow> Some b | _ \<Rightarrow> None)
      | None \<Rightarrow> None)"

definition merge_pair :: "basic_block list \<Rightarrow> nat \<Rightarrow> nat \<Rightarrow> basic_block list" where
  "merge_pair bbs i t =
     bbs[i := \<lparr>statements = statements (bbs ! i) @ statements (bbs ! t),
               terminator = terminator (bbs ! t)\<rparr>,
         t := unreachable_block]"

fun merge_step :: "nat list \<Rightarrow> basic_block list \<times> bool \<Rightarrow> nat \<Rightarrow> basic_block list \<times> bool" where
  "merge_step pc (bbs, changed) i =
     (case goto_target (bbs ! i) of
        Some t \<Rightarrow>
          if t \<noteq> i \<and> t < length bbs \<and> t \<noteq> 0 \<and> pc ! t = 1
          then (merge_pair bbs i t, True)
          else (bbs, changed)
      | None \<Rightarrow> (bbs, changed))"

definition merge_linear_blocks :: "mir_function \<Rightarrow> mir_function \<times> bool" where
  "merge_linear_blocks f =
     (let bbs = basic_blocks f; n = length bbs
      in if n \<le> 1 then (f, False)
         else (let (bbs', c) = foldl (merge_step (pred_count bbs)) (bbs, False) [0..<n]
               in (f\<lparr>basic_blocks := bbs'\<rparr>, c)))"

subsection \<open>Removing unreachable blocks\<close>

fun visit_succ :: "nat \<Rightarrow> bool list \<times> nat list \<Rightarrow> nat \<Rightarrow> bool list \<times> nat list" where
  "visit_succ n (reach, wl) s =
     (if s < n \<and> \<not> reach ! s then (reach[s := True], s # wl) else (reach, wl))"

definition unvisited :: "bool list \<Rightarrow> nat" where
  "unvisited reach = length (filter Not reach)"

lemma unvisited_update:
  "s < length reach \<Longrightarrow> \<not> reach ! s \<Longrightarrow> Suc (unvisited (reach[s := True])) = unvisited reach"
proof (induction reach arbitrary: s)
  case Nil
  then show ?case by simp
next
  case (Cons r reach)
  then show ?case by (cases s) (auto simp: unvisited_def)
qed

lemma visit_succ_measure:
  assumes "length reach = n"
  shows "length (fst (foldl (visit_succ n) (reach, wl) ss)) = n \<and>
    unvisited (fst (foldl (visit_succ n) (reach, wl) ss))
      + length (snd (foldl (visit_succ n) (reach, wl) ss)) = unvisited reach + length wl"
  using assms
proof (induction ss arbitrary: reach wl)
  case Nil
  then show ?case by simp
next
  case (Cons s ss)
  show ?case
  proof (cases "s < n \<and> \<not> reach ! s")
    case True
    with Cons.prems Cons.IH [of "reach[s := True]" "s # wl"] unvisited_update [of s reach]
    show ?thesis by simp
  next
    case False
    with Cons.prems Cons.IH [of reach wl] show ?thesis by auto
  qed
qed

function reach_loop :: "basic_block list \<Rightarrow> bool list \<Rightarrow> nat list \<Rightarrow> bool list" where
  "reach_loop bbs reach wl =
     (case wl of
        [] \<Rightarrow> reach
      | i # rest \<Rightarrow>
          if length reach = length bbs then
            (let (reach', wl') = foldl (visit_succ (length bbs)) (reach, rest) (bb_succs (bbs ! i))
             in reach_loop bbs reach' wl')
          else reach)"
  by pat_completeness auto
termination
proof (relation "measure (\<lambda>(bbs, reach, wl). unvisited reach + length wl)", goal_cases)
  case 1
  then show ?case by simp
next
  case (2 bbs reach wl i rest x reach' wl')
  then show ?case
    using visit_succ_measure [of reach "length bbs" rest "bb_succs (bbs ! i)"]
    by (metis (no_types, lifting) case_prod_conv fst_conv in_measure length_Cons less_add_Suc2
        add_Suc_right lessI snd_conv)
qed

declare reach_loop.simps [simp del]

definition reachable_blocks :: "basic_block list \<Rightarrow> bool list" where
  "reachable_blocks bbs =
     reach_loop bbs ((replicate (length bbs) False)[0 := True]) [0]"

definition remap_table :: "bool list \<Rightarrow> nat list" where
  "remap_table reach =
     fst (foldl (\<lambda>(rm, k) r. if r then (rm @ [k], Suc k) else (rm @ [0], k)) ([], 0) reach)"

fun remap_targets :: "nat list \<Rightarrow> (i64 \<times> bb_id) list \<Rightarrow> (i64 \<times> bb_id) list option" where
  "remap_targets rm [] = Some []"
| "remap_targets rm ((v, t) # ts) =
     do { t' \<leftarrow> idx rm t; ts' \<leftarrow> remap_targets rm ts; Some ((v, t') # ts') }"

fun remap_kind :: "nat list \<Rightarrow> terminator_kind \<Rightarrow> terminator_kind option" where
  "remap_kind rm (Goto t) = do { t' \<leftarrow> idx rm t; Some (Goto t') }"
| "remap_kind rm (SwitchInt d targets otherwise) =
     do { ts \<leftarrow> remap_targets rm targets; t' \<leftarrow> idx rm otherwise; Some (SwitchInt d ts t') }"
| "remap_kind rm tk = Some tk"

definition remap_block :: "nat list \<Rightarrow> basic_block \<Rightarrow> basic_block option" where
  "remap_block rm bb =
     (case terminator bb of
        None \<Rightarrow> Some bb
      | Some t \<Rightarrow>
          do { tk \<leftarrow> remap_kind rm (term_kind t);
               Some (bb\<lparr>terminator := Some (t\<lparr>term_kind := tk\<rparr>)\<rparr>) })"

fun keep_reachable :: "nat list \<Rightarrow> bool list \<Rightarrow> basic_block list \<Rightarrow> basic_block list option" where
  "keep_reachable rm (r # rs) (bb # bbs) =
     (if r then do { bb' \<leftarrow> remap_block rm bb; rest \<leftarrow> keep_reachable rm rs bbs; Some (bb' # rest) }
      else keep_reachable rm rs bbs)"
| "keep_reachable rm _ _ = Some []"

definition unreachable_block_elimination :: "mir_function \<Rightarrow> (mir_function \<times> bool) option" where
  "unreachable_block_elimination f =
     (let bbs = basic_blocks f
      in if length bbs \<le> 1 then Some (f, False)
         else (let reach = reachable_blocks bbs
               in if list_all id reach then Some (f, False)
                  else do { bbs' \<leftarrow> keep_reachable (remap_table reach) reach bbs;
                            Some (f\<lparr>basic_blocks := bbs'\<rparr>, True) }))"

definition simplify_cfg_run :: "mir_function \<Rightarrow> (mir_function \<times> bool) option" where
  "simplify_cfg_run f =
     (let (f1, c1) = branch_simplification f;
          (f2, c2) = merge_linear_blocks f1
      in do { (f3, c3) \<leftarrow> unreachable_block_elimination f2; Some (f3, c1 \<or> c2 \<or> c3) })"

end
