(* ===== verification/CfgProps.thy ===== *)
theory CfgProps
  imports SimplifyCfg ScalarPasses
begin

text \<open>
  \<open>simplify_cfg.rs\<close> keeps what a function returns: constant and trivial branches, merging of a
  block into its only predecessor, removal of unreachable blocks. Reachability is shown to be
  exactly the paths from the entry.
\<close>

subsection \<open>Branches\<close>

text \<open>
  A switch that tells two blocks apart, or that reads a copy of a local that is no Python object, an
  integer or a truth value: to leave out such a test is to leave out nothing.
\<close>

fun plain_switch :: "ty list \<Rightarrow> terminator_kind \<Rightarrow> bool" where
  "plain_switch tys (SwitchInt d targets otherwise) =
     ((plain_operand d \<and> \<not> is_pyobj_op tys d) \<or> list_ex (\<lambda>(_, t). t \<noteq> otherwise) targets)"
| "plain_switch tys _ = True"

definition plain_switches :: "mir_function \<Rightarrow> bool" where
  "plain_switches f =
     list_all (\<lambda>bb. case terminator bb of Some t \<Rightarrow> plain_switch (fn_tys f) (term_kind t) | None \<Rightarrow> True)
       (basic_blocks f)"

lemma switch_target_same: "list_all (\<lambda>(_, t). t = otherwise) targets \<Longrightarrow> switch_target v targets otherwise = otherwise"
  by (induction targets) (auto simp: switch_target_def)

lemma translate_plain_switch:
  assumes "plain_operand d" "\<not> is_pyobj_op tys d"
  shows "translate_terminator rt tys asy (SwitchInt d targets otherwise) env h
     = Inr (Jump (switch_target (plain_value d env) targets otherwise), env, h)"
  using assms by (simp add: translate_terminator_def translate_plain)

lemma branch_simplify_kind_exec:
  assumes "plain_switch tys tk"
  shows "translate_terminator rt tys asy (fst (branch_simplify_kind tk)) env h
     = translate_terminator rt tys asy tk env h"
proof (cases tk)
  case (SwitchInt d targets otherwise)
  have g: "translate_terminator rt tys asy (Goto t) env h = Inr (Jump t, env, h)" for t
    by (simp add: translate_terminator_def)
  show ?thesis
  proof (cases "plain_operand d \<and> \<not> is_pyobj_op tys d")
    case True
    then show ?thesis
      unfolding SwitchInt
      by (cases d rule: plain_operand.cases)
        (auto simp: branch_simplify_kind_def g switch_target_same word_of_bool_def
          translate_plain_switch)
  next
    case False
    then have "\<not> list_all (\<lambda>(_, t). t = otherwise) targets"
      using assms by (auto simp: SwitchInt list_ex_iff list_all_iff)
    moreover have "\<not> is_pyobj_op tys (Constant c)" for c
      by (simp add: static_kind_defs)
    ultimately show ?thesis
      using False unfolding SwitchInt
      by (cases d rule: plain_operand.cases) (auto simp: branch_simplify_kind_def)
  qed
qed (simp_all add: branch_simplify_kind_def)

lemma branch_simplify_block_exec:
  assumes "case terminator bb of Some t \<Rightarrow> plain_switch tys (term_kind t) | None \<Rightarrow> True"
  shows "block_refines rt checked tys asy True bb (fst (branch_simplify_block bb))"
  using assms
  by (auto simp: block_refines_def exec_block_def branch_simplify_block_def case_prod_beta
      branch_simplify_kind_exec split: option.splits intro!: and_then_cong)

lemma branch_simplification_returns:
  assumes "plain_switches f"
  shows "fn_returns rt checked (fst (branch_simplification f)) env h r \<longleftrightarrow> fn_returns rt checked f env h r"
proof (rule fn_returns_refines(2) [where fe = True])
  show "list_all2 (block_refines rt checked (fn_tys f) (is_async f) True) (basic_blocks f)
      (basic_blocks (fst (branch_simplification f)))"
    using assms
    by (auto simp: branch_simplification_def plain_switches_def list.rel_map list_all_iff
        intro!: list.rel_refl_strong branch_simplify_block_exec)
qed (simp_all add: branch_simplification_def fn_tys_def)

subsection \<open>Edges\<close>

lemma switch_target_succ: "switch_target v targets otherwise \<in> set (term_succs (SwitchInt d targets otherwise))"
  by (induction targets) (auto simp: switch_target_def)

lemma translate_terminator_succ:
  assumes "translate_terminator rt tys asy tk env h = Inr (Jump t, env', h')"
  shows "t \<in> set (term_succs tk)"
proof (cases tk)
  case (SwitchInt d targets otherwise)
  have "length targets = 1 \<Longrightarrow> fst (hd targets) = x \<Longrightarrow> snd (hd targets) \<in> snd ` set targets" for x
    by (cases targets) auto
  then show ?thesis
    using assms switch_target_succ [of _ targets otherwise d]
    by (auto simp: SwitchInt translate_terminator_def and_then_Inr_iff Let_def case_prod_beta
        split: if_splits)
qed (use assms in \<open>auto simp: translate_terminator_def and_then_Inr_iff split: if_splits\<close>)

lemma exec_block_succ:
  "exec_block rt checked tys asy bb env h = Inr (Jump t, env', h') \<Longrightarrow> t \<in> set (bb_succs bb)"
  by (auto simp: exec_block_def bb_succs_def and_then_Inr_iff split: option.splits
      dest: translate_terminator_succ)

definition edges_to :: "bb_id \<Rightarrow> basic_block list \<Rightarrow> nat" where
  "edges_to t bbs = sum_list (map (\<lambda>bb. count_list (bb_succs bb) t) bbs)"

lemma foldl_bump_pred:
  assumes "length pc = n"
  shows "length (foldl (bump_pred n) pc ts) = n \<and>
    (\<forall>t<n. foldl (bump_pred n) pc ts ! t = pc ! t + count_list ts t)"
  using assms
proof (induction ts arbitrary: pc)
  case (Cons x ts)
  then show ?case by (auto simp: bump_pred_def nth_list_update)
qed simp

lemma foldl_block_preds:
  assumes "length pc = n"
  shows "length (foldl (\<lambda>pc bb. foldl (bump_pred n) pc (bb_succs bb)) pc bbs) = n \<and>
    (\<forall>t<n. foldl (\<lambda>pc bb. foldl (bump_pred n) pc (bb_succs bb)) pc bbs ! t = pc ! t + edges_to t bbs)"
  using assms
proof (induction bbs arbitrary: pc)
  case (Cons bb bbs)
  then show ?case using foldl_bump_pred [OF Cons.prems, of "bb_succs bb"] by (simp add: edges_to_def)
qed (simp add: edges_to_def)

lemma pred_count_nth:
  "t < length bbs \<Longrightarrow> pred_count bbs ! t = (if t = 0 then 1 else 0) + edges_to t bbs"
  using foldl_block_preds [of "(replicate (length bbs) 0)[0 := 1]" "length bbs" bbs]
  by (auto simp: pred_count_def Let_def nth_list_update)

subsection \<open>Merging\<close>

lemma edges_to_nth: "edges_to t bbs = (\<Sum>j<length bbs. count_list (bb_succs (bbs ! j)) t)"
  by (simp add: edges_to_def sum_list_sum_nth atLeast0LessThan)

lemma edges_to_two:
  assumes "i < length bbs" "t < length bbs" "i \<noteq> t"
  shows "edges_to u bbs = count_list (bb_succs (bbs ! i)) u + count_list (bb_succs (bbs ! t)) u
    + (\<Sum>j\<in>{..<length bbs} - {i, t}. count_list (bb_succs (bbs ! j)) u)"
proof -
  have "{..<length bbs} - {i, t} = {..<length bbs} - {i} - {t}" by auto
  with assms show ?thesis
    by (simp add: edges_to_nth sum.remove [of "{..<length bbs}" i] sum.remove [of "{..<length bbs} - {i}" t])
qed

lemma goto_target_Some:
  "goto_target bb = Some t \<longleftrightarrow> (\<exists>tm. terminator bb = Some tm \<and> term_kind tm = Goto t)"
  by (auto simp: goto_target_def split: option.splits terminator_kind.splits)

lemma goto_target_succs: "goto_target bb = Some t \<Longrightarrow> bb_succs bb = [t]"
  by (auto simp: goto_target_Some bb_succs_def)

text \<open>The situation of a merge: the only edge to \<open>t\<close> is the jump that ends \<open>i\<close>.\<close>

definition mergeable :: "basic_block list \<Rightarrow> nat \<Rightarrow> nat \<Rightarrow> bool" where
  "mergeable bbs i t \<longleftrightarrow> i < length bbs \<and> t < length bbs \<and> t \<noteq> i \<and> t \<noteq> 0 \<and>
     goto_target (bbs ! i) = Some t \<and> edges_to t bbs \<le> 1"

lemma mergeable_only_edge:
  assumes "mergeable bbs i t" "j < length bbs" "t \<in> set (bb_succs (bbs ! j))"
  shows "j = i"
proof (rule ccontr)
  assume "j \<noteq> i"
  have pos: "0 < count_list (bb_succs (bbs ! j)) t" "0 < count_list (bb_succs (bbs ! i)) t"
    using assms goto_target_succs [of "bbs ! i" t] count_list_0_iff [of "bb_succs (bbs ! j)" t]
    by (auto simp: mergeable_def)
  have "edges_to t bbs \<ge> count_list (bb_succs (bbs ! i)) t + count_list (bb_succs (bbs ! j)) t"
    using edges_to_two [of i bbs j t] assms \<open>j \<noteq> i\<close> by (simp add: mergeable_def)
  with pos assms(1) show False by (simp add: mergeable_def)
qed

lemma merge_pair_nth:
  assumes "mergeable bbs i t" "j < length bbs"
  shows "merge_pair bbs i t ! j =
    (if j = t then unreachable_block
     else if j = i then \<lparr>statements = statements (bbs ! i) @ statements (bbs ! t),
                         terminator = terminator (bbs ! t)\<rparr>
     else bbs ! j)"
  using assms by (simp add: merge_pair_def nth_list_update mergeable_def)

lemma merge_pair_length [simp]: "length (merge_pair bbs i t) = length bbs"
  by (simp add: merge_pair_def)

lemma merge_pair_edges:
  assumes "mergeable bbs i t"
  shows "edges_to u (merge_pair bbs i t) \<le> edges_to u bbs"
proof -
  have m: "i < length bbs" "t < length bbs" "i \<noteq> t" using assms by (auto simp: mergeable_def)
  have "bb_succs (merge_pair bbs i t ! i) = bb_succs (bbs ! t)"
    "bb_succs (merge_pair bbs i t ! t) = []"
    using m by (simp_all add: merge_pair_nth [OF assms] bb_succs_def unreachable_block_def)
  moreover have "(\<Sum>j\<in>{..<length bbs} - {i, t}. count_list (bb_succs (merge_pair bbs i t ! j)) u)
      = (\<Sum>j\<in>{..<length bbs} - {i, t}. count_list (bb_succs (bbs ! j)) u)"
    by (intro sum.cong) (auto simp: merge_pair_nth [OF assms])
  ultimately show ?thesis
    using edges_to_two [OF m, of u] edges_to_two [of i "merge_pair bbs i t" t u] m by simp
qed

lemma exec_block_goto:
  assumes "goto_target bb = Some t"
  shows "exec_block rt checked tys asy bb env h =
    and_then (exec_stmts rt checked tys (statements bb) env h) (\<lambda>(env, h). Inr (Jump t, env, h))"
  using assms by (auto simp: goto_target_Some exec_block_def translate_terminator_def)

lemma exec_merged:
  assumes "goto_target a = Some t"
  shows "exec_block rt checked tys asy
      \<lparr>statements = statements a @ statements b, terminator = terminator b\<rparr> env h
    = and_then (exec_block rt checked tys asy a env h) (\<lambda>(_, env, h). exec_block rt checked tys asy b env h)"
  unfolding exec_block_goto [OF assms]
  by (cases "exec_stmts rt checked tys (statements a) env h")
    (auto simp: exec_block_def exec_stmts_append)

lemma merge_forward:
  assumes m: "mergeable bbs i t"
  shows "run_blocks rt checked tys asy bbs n b env h = Some r \<Longrightarrow> b \<noteq> t \<Longrightarrow>
    run_blocks rt checked tys asy (merge_pair bbs i t) n b env h = Some r"
proof (induction n arbitrary: b env h rule: less_induct)
  case (less n)
  obtain k where n: "n = Suc k" using less.prems(1) by (cases n) auto
  have lt: "t < length bbs" "i < length bbs" and g: "goto_target (bbs ! i) = Some t"
    using m by (auto simp: mergeable_def)
  show ?case
  proof (cases "b < length bbs")
    case False
    then show ?thesis using less.prems n by simp
  next
    case True
    show ?thesis
    proof (cases "b = i")
      case False
      then have same: "merge_pair bbs i t ! b = bbs ! b"
        using True less.prems(2) by (simp add: merge_pair_nth [OF m])
      have "t' \<noteq> t" if "exec_block rt checked tys asy (bbs ! b) env h = Inr (Jump t', x)" for t' x
        using that mergeable_only_edge [OF m True] False
        by (cases x) (auto dest: exec_block_succ)
      then show ?thesis
        using less.prems less.IH [of k] True n same by (auto split: sum.splits step.splits)
    next
      case True
      note b = this
      show ?thesis
      proof (cases "exec_block rt checked tys asy (bbs ! i) env h")
        case (Inl e)
        then show ?thesis using less.prems n b lt by (simp add: merge_pair_nth [OF m] exec_merged [OF g])
      next
        case (Inr x)
        then obtain env1 h1 where x: "exec_block rt checked tys asy (bbs ! i) env h = Inr (Jump t, env1, h1)"
          by (auto simp: exec_block_goto [OF g] and_then_Inr_iff)
        with less.prems n b lt have r: "run_blocks rt checked tys asy bbs k t env1 h1 = Some r" by simp
        then obtain j where k: "k = Suc j" by (cases k) auto
        have "t' \<noteq> t" if "exec_block rt checked tys asy (bbs ! t) env1 h1 = Inr (Jump t', y)" for t' y
          using that mergeable_only_edge [OF m lt(1)] m
          by (cases y) (auto simp: mergeable_def dest: exec_block_succ)
        moreover have "run_blocks rt checked tys asy (merge_pair bbs i t) k t' env2 h2 = Some r"
          if "run_blocks rt checked tys asy bbs j t' env2 h2 = Some r" "t' \<noteq> t" for t' env2 h2
        proof (rule run_blocks_mono)
          show "run_blocks rt checked tys asy (merge_pair bbs i t) j t' env2 h2 = Some r"
            by (rule less.IH) (use that n k in auto)
        qed (simp add: k)
        moreover have "exec_block rt checked tys asy (merge_pair bbs i t ! i) env h
            = exec_block rt checked tys asy (bbs ! t) env1 h1"
          using x m lt by (simp add: merge_pair_nth [OF m] exec_merged [OF g] mergeable_def)
        moreover have "(case exec_block rt checked tys asy (bbs ! t) env1 h1 of
            Inl e \<Rightarrow> Some (Inl e)
          | Inr (Finish v, env, h) \<Rightarrow> Some (Inr (v, h))
          | Inr (Jump t', env, h) \<Rightarrow> run_blocks rt checked tys asy bbs j t' env h) = Some r"
          using r k lt by simp
        ultimately show ?thesis
          unfolding n using b lt by (simp split: sum.splits prod.splits step.splits)
      qed
    qed
  qed
qed

lemma merge_backward:
  assumes m: "mergeable bbs i t"
  shows "run_blocks rt checked tys asy (merge_pair bbs i t) n b env h = Some r \<Longrightarrow> b \<noteq> t \<Longrightarrow>
    run_blocks rt checked tys asy bbs (2 * n) b env h = Some r"
proof (induction n arbitrary: b env h)
  case (Suc n)
  have lt: "t < length bbs" "i < length bbs" and g: "goto_target (bbs ! i) = Some t"
    using m by (auto simp: mergeable_def)
  define K where "K = Suc (2 * n)"
  then have K: "2 * Suc n = Suc K" by simp
  have more: "run_blocks rt checked tys asy bbs K b' env' h' = Some r"
    if "run_blocks rt checked tys asy (merge_pair bbs i t) n b' env' h' = Some r" "b' \<noteq> t" for b' env' h'
    by (rule run_blocks_mono [OF Suc.IH [OF that]]) (simp add: K_def)
  have "run_blocks rt checked tys asy bbs (Suc K) b env h = Some r"
  proof (cases "b < length bbs")
    case False
    then show ?thesis using Suc.prems by simp
  next
    case True
    show ?thesis
    proof (cases "b = i")
      case False
      then have same: "merge_pair bbs i t ! b = bbs ! b"
        using True Suc.prems(2) by (simp add: merge_pair_nth [OF m])
      have "t' \<noteq> t" if "exec_block rt checked tys asy (bbs ! b) env h = Inr (Jump t', x)" for t' x
        using that mergeable_only_edge [OF m True] False
        by (cases x) (auto dest: exec_block_succ)
      then show ?thesis
        using Suc.prems True same more by (auto split: sum.splits step.splits)
    next
      case b: True
      show ?thesis
      proof (cases "exec_block rt checked tys asy (bbs ! i) env h")
        case (Inl e)
        then show ?thesis using Suc.prems b lt by (simp add: merge_pair_nth [OF m] exec_merged [OF g])
      next
        case (Inr x)
        then obtain env1 h1 where x: "exec_block rt checked tys asy (bbs ! i) env h = Inr (Jump t, env1, h1)"
          by (auto simp: exec_block_goto [OF g] and_then_Inr_iff)
        have "t' \<noteq> t" if "exec_block rt checked tys asy (bbs ! t) env1 h1 = Inr (Jump t', y)" for t' y
          using that mergeable_only_edge [OF m lt(1)] m
          by (cases y) (auto simp: mergeable_def dest: exec_block_succ)
        then have "run_blocks rt checked tys asy bbs K t env1 h1 = Some r"
          using Suc.prems b lt x m Suc.IH
          by (auto simp: K_def merge_pair_nth [OF m] exec_merged [OF g] mergeable_def split: sum.splits step.splits)
        with x b lt show ?thesis by simp
      qed
    qed
  qed
  then show ?case unfolding K .
qed simp

definition runs_to ::
  "'h runtime \<Rightarrow> bool \<Rightarrow> ty list \<Rightarrow> bool \<Rightarrow> basic_block list \<Rightarrow> (local \<Rightarrow> i64) \<Rightarrow> 'h
     \<Rightarrow> fault + i64 \<times> 'h \<Rightarrow> bool" where
  "runs_to rt checked tys asy bbs env h r \<longleftrightarrow> (\<exists>n. run_blocks rt checked tys asy bbs n 0 env h = Some r)"

lemma merge_runs_to:
  "mergeable bbs i t \<Longrightarrow>
     runs_to rt checked tys asy (merge_pair bbs i t) env h r \<longleftrightarrow> runs_to rt checked tys asy bbs env h r"
  unfolding runs_to_def using merge_forward merge_backward by (metis mergeable_def)

text \<open>The counts taken before the loop bound the edges while it runs.\<close>

lemma merge_steps:
  assumes "\<And>u. u < length bbs \<Longrightarrow> (if u = 0 then 1 else 0) + edges_to u bbs \<le> pc ! u"
    and "\<And>i. i \<in> set is \<Longrightarrow> i < length bbs"
  shows "length (fst (foldl (merge_step pc) (bbs, c) is)) = length bbs \<and>
    (runs_to rt checked tys asy (fst (foldl (merge_step pc) (bbs, c) is)) env h r
       \<longleftrightarrow> runs_to rt checked tys asy bbs env h r)"
  using assms
proof (induction "is" arbitrary: bbs c)
  case (Cons i "is")
  show ?case
  proof (cases "\<exists>t. goto_target (bbs ! i) = Some t \<and> t \<noteq> i \<and> t < length bbs \<and> t \<noteq> 0 \<and> pc ! t = 1")
    case True
    then obtain t where t: "goto_target (bbs ! i) = Some t" "t \<noteq> i" "t < length bbs" "t \<noteq> 0" "pc ! t = 1"
      by blast
    with Cons.prems(1) [of t] Cons.prems(2) [of i] have m: "mergeable bbs i t" by (simp add: mergeable_def)
    have bound: "(if u = 0 then 1 else 0) + edges_to u (merge_pair bbs i t) \<le> pc ! u"
      if "u < length bbs" for u
      using add_left_mono [OF merge_pair_edges [OF m]] Cons.prems(1) [OF that] by (rule order_trans)
    have "length (fst (foldl (merge_step pc) (merge_pair bbs i t, True) is)) = length (merge_pair bbs i t) \<and>
      (runs_to rt checked tys asy (fst (foldl (merge_step pc) (merge_pair bbs i t, True) is)) env h r
         \<longleftrightarrow> runs_to rt checked tys asy (merge_pair bbs i t) env h r)"
      by (rule Cons.IH) (use Cons.prems(2) bound in simp_all)
    with t merge_runs_to [OF m] show ?thesis by simp
  next
    case False
    then have "merge_step pc (bbs, c) i = (bbs, c)" by (auto split: option.splits)
    with Cons show ?thesis by simp
  qed
qed simp

lemma merge_linear_returns:
  "fn_returns rt checked (fst (merge_linear_blocks f)) env h r \<longleftrightarrow> fn_returns rt checked f env h r"
proof -
  let ?r = "foldl (merge_step (pred_count (basic_blocks f))) (basic_blocks f, False)
    [0..<length (basic_blocks f)]"
  have "runs_to rt checked (fn_tys f) (is_async f) (fst ?r) env h r
      \<longleftrightarrow> runs_to rt checked (fn_tys f) (is_async f) (basic_blocks f) env h r"
    using merge_steps [of "basic_blocks f" "pred_count (basic_blocks f)" "[0..<length (basic_blocks f)]" False
        rt checked "fn_tys f" "is_async f" env h r]
    by (auto simp: pred_count_nth)
  then show ?thesis
    by (simp add: merge_linear_blocks_def Let_def case_prod_beta fn_returns_def run_fn_def fn_tys_def
        runs_to_def)
qed

subsection \<open>Reachability\<close>

definition cfg_edge :: "basic_block list \<Rightarrow> bb_id \<Rightarrow> bb_id \<Rightarrow> bool" where
  "cfg_edge bbs a b \<longleftrightarrow> a < length bbs \<and> b < length bbs \<and> b \<in> set (bb_succs (bbs ! a))"

lemma visit_succs:
  assumes "length reach = n"
  shows "length (fst (foldl (visit_succ n) (reach, wl) ss)) = n \<and>
    (\<forall>i<n. fst (foldl (visit_succ n) (reach, wl) ss) ! i \<longleftrightarrow> reach ! i \<or> i \<in> set ss) \<and>
    set (snd (foldl (visit_succ n) (reach, wl) ss)) = set wl \<union> {s \<in> set ss. s < n \<and> \<not> reach ! s}"
  using assms
proof (induction ss arbitrary: reach wl)
  case (Cons s ss)
  show ?case
  proof (cases "s < n \<and> \<not> reach ! s")
    case True
    with Cons.prems Cons.IH [of "reach[s := True]" "s # wl"] show ?thesis
      by (auto simp: nth_list_update split: if_splits)
  next
    case False
    with Cons.prems Cons.IH [of reach wl] show ?thesis by auto
  qed
qed simp

text \<open>What holds of the marks and the work list at every turn of the loop.\<close>

definition reach_inv :: "basic_block list \<Rightarrow> bool list \<Rightarrow> nat list \<Rightarrow> bool" where
  "reach_inv bbs reach wl \<longleftrightarrow>
     length reach = length bbs \<and>
     (\<forall>w\<in>set wl. w < length bbs \<and> reach ! w) \<and>
     (\<forall>i<length bbs. reach ! i \<longrightarrow> (cfg_edge bbs)\<^sup>*\<^sup>* 0 i) \<and>
     (\<forall>i<length bbs. reach ! i \<and> i \<notin> set wl \<longrightarrow> (\<forall>s. cfg_edge bbs i s \<longrightarrow> reach ! s))"

lemma reach_inv_step:
  assumes "reach_inv bbs reach (i # rest)"
    and "foldl (visit_succ (length bbs)) (reach, rest) (bb_succs (bbs ! i)) = (reach', wl')"
  shows "reach_inv bbs reach' wl' \<and> (\<forall>j<length bbs. reach ! j \<longrightarrow> reach' ! j)"
proof -
  let ?n = "length bbs"
  have len: "length reach = ?n" and i: "i < ?n" "reach ! i"
    and path: "\<And>j. j < ?n \<Longrightarrow> reach ! j \<Longrightarrow> (cfg_edge bbs)\<^sup>*\<^sup>* 0 j"
    and closed: "\<And>j s. j < ?n \<Longrightarrow> reach ! j \<Longrightarrow> j \<notin> set (i # rest) \<Longrightarrow> cfg_edge bbs j s \<Longrightarrow> reach ! s"
    and work: "\<And>w. w \<in> set rest \<Longrightarrow> w < ?n \<and> reach ! w"
    using assms(1) by (auto simp: reach_inv_def)
  from visit_succs [OF len, of rest "bb_succs (bbs ! i)"] assms(2)
  have len': "length reach' = ?n"
    and mark: "\<And>j. j < ?n \<Longrightarrow> reach' ! j \<longleftrightarrow> reach ! j \<or> j \<in> set (bb_succs (bbs ! i))"
    and work': "set wl' = set rest \<union> {s \<in> set (bb_succs (bbs ! i)). s < ?n \<and> \<not> reach ! s}"
    by auto
  have "(cfg_edge bbs)\<^sup>*\<^sup>* 0 j" if "j < ?n" "reach' ! j" for j
  proof (cases "reach ! j")
    case False
    then have "cfg_edge bbs i j" using that mark i by (simp add: cfg_edge_def)
    with path [OF i] show ?thesis by (rule rtranclp.rtrancl_into_rtrancl)
  qed (use path that in simp)
  moreover have "reach' ! s" if "j < ?n" "reach' ! j" "j \<notin> set wl'" "cfg_edge bbs j s" for j s
  proof -
    have s: "s < ?n" "s \<in> set (bb_succs (bbs ! j))" using that(4) by (auto simp: cfg_edge_def)
    have "reach ! j" using that mark work' by auto
    moreover have "j = i \<or> j \<notin> set (i # rest)" using that(3) work' by auto
    ultimately show ?thesis using closed [OF that(1) _ _ that(4)] mark [OF s(1)] s(2) by blast
  qed
  ultimately show ?thesis
    using len' mark work work' by (auto simp: reach_inv_def)
qed

lemma reach_loop_correct:
  assumes "reach_inv bbs reach wl"
  shows "reach_inv bbs (reach_loop bbs reach wl) [] \<and>
    (\<forall>j<length bbs. reach ! j \<longrightarrow> reach_loop bbs reach wl ! j)"
  using assms
proof (induction bbs reach wl rule: reach_loop.induct)
  case (1 bbs reach wl)
  show ?case
  proof (cases wl)
    case Nil
    with "1.prems" show ?thesis by (simp add: reach_loop.simps)
  next
    case (Cons i rest)
    obtain reach' wl' where f: "foldl (visit_succ (length bbs)) (reach, rest) (bb_succs (bbs ! i)) = (reach', wl')"
      by (cases "foldl (visit_succ (length bbs)) (reach, rest) (bb_succs (bbs ! i))")
    have len: "length reach = length bbs" using "1.prems" by (simp add: reach_inv_def)
    have step: "reach_inv bbs reach' wl'" "\<forall>j<length bbs. reach ! j \<longrightarrow> reach' ! j"
      using reach_inv_step "1.prems" f Cons by blast+
    have "reach_loop bbs reach wl = reach_loop bbs reach' wl'"
      using Cons len f by (simp add: reach_loop.simps [of bbs reach "i # rest"])
    with "1.IH" [OF Cons len f [symmetric] refl step(1)] step(2) show ?thesis by simp
  qed
qed

lemma reachable_blocks_correct:
  assumes "bbs \<noteq> []"
  shows "length (reachable_blocks bbs) = length bbs" "reachable_blocks bbs ! 0"
    and "i < length bbs \<Longrightarrow> reachable_blocks bbs ! i \<longleftrightarrow> (cfg_edge bbs)\<^sup>*\<^sup>* 0 i"
proof -
  let ?r = "reachable_blocks bbs"
  have "reach_inv bbs ((replicate (length bbs) False)[0 := True]) [0]"
    using assms by (auto simp: reach_inv_def nth_list_update)
  from reach_loop_correct [OF this] assms
  have inv: "reach_inv bbs ?r []" and zero: "?r ! 0"
    by (auto simp: reachable_blocks_def)
  then show "length ?r = length bbs" "?r ! 0" by (auto simp: reach_inv_def)
  have closed: "\<And>j s. j < length bbs \<Longrightarrow> ?r ! j \<Longrightarrow> cfg_edge bbs j s \<Longrightarrow> ?r ! s"
    using inv unfolding reach_inv_def by simp
  have "?r ! j" if "(cfg_edge bbs)\<^sup>*\<^sup>* 0 j" for j
    using that
  proof induction
    case base
    show ?case by (rule zero)
  next
    case (step a b)
    from step(2) have "a < length bbs" by (simp add: cfg_edge_def)
    then show ?case using step closed by blast
  qed
  then show "?r ! i \<longleftrightarrow> (cfg_edge bbs)\<^sup>*\<^sup>* 0 i" if "i < length bbs"
    using inv that unfolding reach_inv_def by blast
qed

subsection \<open>Removing unreachable blocks\<close>

definition rank :: "bool list \<Rightarrow> nat \<Rightarrow> nat" where
  "rank reach i = length (filter id (take i reach))"

lemma rank_simps [simp]:
  "rank reach 0 = 0" "rank (r # rs) (Suc i) = (if r then Suc (rank rs i) else rank rs i)"
  by (simp_all add: rank_def)

lemma remap_fold:
  "foldl (\<lambda>(rm, k) r. if r then (rm @ [k], Suc k) else (rm @ [0], k)) (rm0, k0) reach
     = (rm0 @ map (\<lambda>i. if reach ! i then k0 + rank reach i else 0) [0..<length reach],
        k0 + rank reach (length reach))"
proof (induction reach arbitrary: rm0 k0)
  case (Cons r reach)
  have "[0..<length (r # reach)] = 0 # map Suc [0..<length reach]"
    by (simp add: map_Suc_upt upt_conv_Cons del: upt_Suc)
  with Cons show ?case by (auto simp: comp_def)
qed simp

lemma remap_table_eq: "remap_table reach = map (\<lambda>i. if reach ! i then rank reach i else 0) [0..<length reach]"
  by (simp add: remap_table_def remap_fold)

lemma keep_reachable_nth:
  assumes "keep_reachable rm reach bbs = Some bbs'" "length reach = length bbs"
  shows "length bbs' = rank reach (length reach) \<and>
    (\<forall>i<length reach. reach ! i \<longrightarrow>
       rank reach i < length bbs' \<and> remap_block rm (bbs ! i) = Some (bbs' ! rank reach i))"
  using assms
proof (induction rm reach bbs arbitrary: bbs' rule: keep_reachable.induct)
  case (1 rm r rs bb bbs)
  show ?case
  proof (cases r)
    case True
    with "1.prems" obtain b rest where b: "remap_block rm bb = Some b"
      "keep_reachable rm rs bbs = Some rest" "bbs' = b # rest"
      by (auto split: Option.bind_splits)
    from "1.IH"(1) [OF True b(1,2)] "1.prems"(2) True b show ?thesis
      by (auto simp: less_Suc_eq_0_disj)
  next
    case False
    with "1.prems" "1.IH"(2) [OF False] show ?thesis
      by (auto simp: less_Suc_eq_0_disj)
  qed
qed auto

lemma keep_reachable_total:
  assumes "\<And>i. i < length reach \<Longrightarrow> reach ! i \<Longrightarrow> remap_block rm (bbs ! i) \<noteq> None"
    and "length reach = length bbs"
  shows "keep_reachable rm reach bbs \<noteq> None"
  using assms
proof (induction rm reach bbs rule: keep_reachable.induct)
  case (1 rm r rs bb bbs)
  have "keep_reachable rm rs bbs \<noteq> None"
  proof (cases r)
    case True
    from "1.prems"(1) [of 0] True have "remap_block rm bb \<noteq> None" by simp
    then obtain b where "remap_block rm bb = Some b" by blast
    from "1.IH"(1) [OF True this] "1.prems"(1) [of "Suc _"] "1.prems"(2) show ?thesis by simp
  next
    case False
    from "1.IH"(2) [OF False] "1.prems"(1) [of "Suc _"] "1.prems"(2) show ?thesis by simp
  qed
  with "1.prems"(1) [of 0] show ?case by (auto split: Option.bind_splits)
qed auto

lemma remap_targets_Some:
  assumes "\<And>t. t \<in> snd ` set ts \<Longrightarrow> t < length rm"
  shows "remap_targets rm ts = Some (map (\<lambda>(v, t). (v, rm ! t)) ts)"
  using assms by (induction ts) (auto simp: idx_def)

fun map_kind :: "(nat \<Rightarrow> nat) \<Rightarrow> terminator_kind \<Rightarrow> terminator_kind" where
  "map_kind g (Goto t) = Goto (g t)"
| "map_kind g (SwitchInt d ts t) = SwitchInt d (map (\<lambda>(v, t). (v, g t)) ts) (g t)"
| "map_kind g tk = tk"

lemma remap_kind_Some:
  assumes "\<And>t. t \<in> set (term_succs tk) \<Longrightarrow> t < length rm"
  shows "remap_kind rm tk = Some (map_kind ((!) rm) tk)"
  using assms by (cases tk) (auto simp: idx_def remap_targets_Some)

lemma remap_block_Some:
  assumes "\<And>t. t \<in> set (bb_succs bb) \<Longrightarrow> t < length rm"
  shows "remap_block rm bb = Some (bb\<lparr>terminator :=
      map_option (\<lambda>t. t\<lparr>term_kind := map_kind ((!) rm) (term_kind t)\<rparr>) (terminator bb)\<rparr>)"
  using assms by (auto simp: remap_block_def bb_succs_def remap_kind_Some split: option.splits)

fun map_step :: "(nat \<Rightarrow> nat) \<Rightarrow> step \<Rightarrow> step" where
  "map_step g (Jump t) = Jump (g t)"
| "map_step g (Finish v) = Finish v"

lemma switch_target_map:
  "switch_target v (map (\<lambda>(v, t). (v, g t)) ts) (g t) = g (switch_target v ts t)"
  by (induction ts) (auto simp: switch_target_def)

lemma translate_terminator_map:
  "translate_terminator rt tys asy (map_kind g tk) env h =
     and_then (translate_terminator rt tys asy tk env h) (\<lambda>(s, e, h). Inr (map_step g s, e, h))"
proof (cases tk)
  case (SwitchInt d ts t)
  have "length ts = 1 \<Longrightarrow> hd (map (\<lambda>(v, t). (v, g t)) ts) = (fst (hd ts), g (snd (hd ts)))"
    by (cases ts) auto
  then show ?thesis
    by (auto simp: SwitchInt translate_terminator_def and_then_assoc switch_target_map Let_def
        case_prod_beta intro!: and_then_cong)
qed (auto simp: translate_terminator_def and_then_assoc case_prod_beta intro!: and_then_cong)

lemma exec_block_map:
  "exec_block rt checked tys asy (bb\<lparr>terminator :=
      map_option (\<lambda>t. t\<lparr>term_kind := map_kind g (term_kind t)\<rparr>) (terminator bb)\<rparr>) env h =
   and_then (exec_block rt checked tys asy bb env h) (\<lambda>(s, e, h). Inr (map_step g s, e, h))"
  by (auto simp: exec_block_def and_then_assoc translate_terminator_map case_prod_beta
      split: option.splits intro!: and_then_cong)

text \<open>The removal step on a body whose edges stay inside it: its result, and the runs of both.\<close>

definition closed_body :: "basic_block list \<Rightarrow> bool" where
  "closed_body bbs \<longleftrightarrow> bbs \<noteq> [] \<and> (\<forall>bb\<in>set bbs. \<forall>t\<in>set (bb_succs bb). t < length bbs)"

abbreviation kept_index :: "basic_block list \<Rightarrow> nat list" where
  "kept_index bbs \<equiv> remap_table (reachable_blocks bbs)"

abbreviation kept :: "basic_block list \<Rightarrow> basic_block list \<Rightarrow> bool" where
  "kept bbs bbs' \<equiv> keep_reachable (kept_index bbs) (reachable_blocks bbs) bbs = Some bbs'"

lemma reach_length:
  assumes "closed_body bbs"
  shows "length (reachable_blocks bbs) = length bbs" "length (kept_index bbs) = length bbs"
  using reachable_blocks_correct(1) assms by (auto simp: closed_body_def remap_table_eq)

lemma reach_succ:
  assumes "closed_body bbs" "i < length bbs" "reachable_blocks bbs ! i" "t \<in> set (bb_succs (bbs ! i))"
  shows "t < length bbs" "reachable_blocks bbs ! t"
proof -
  have ne: "bbs \<noteq> []" using assms(1) by (simp add: closed_body_def)
  show t: "t < length bbs" using assms by (auto simp: closed_body_def)
  have "(cfg_edge bbs)\<^sup>*\<^sup>* 0 i" using assms(2,3) reachable_blocks_correct(3) [OF ne] by simp
  moreover have "cfg_edge bbs i t" using assms t by (simp add: cfg_edge_def)
  ultimately show "reachable_blocks bbs ! t"
    using reachable_blocks_correct(3) [OF ne t] by simp
qed

lemma remap_reached:
  assumes "closed_body bbs" "i < length bbs"
  shows "remap_block (kept_index bbs) (bbs ! i) = Some ((bbs ! i)\<lparr>terminator :=
      map_option (\<lambda>t. t\<lparr>term_kind := map_kind ((!) (kept_index bbs)) (term_kind t)\<rparr>) (terminator (bbs ! i))\<rparr>)"
  using assms reach_length [OF assms(1)] by (intro remap_block_Some) (auto simp: closed_body_def)

lemma keep_total:
  assumes "closed_body bbs"
  obtains bbs' where "kept bbs bbs'"
  using keep_reachable_total [of "reachable_blocks bbs" "kept_index bbs" bbs]
    reach_length [OF assms] remap_reached [OF assms]
  by auto

lemma kept_block:
  assumes "closed_body bbs" "kept bbs bbs'" "i < length bbs" "reachable_blocks bbs ! i"
  shows "kept_index bbs ! i < length bbs'"
    and "bbs' ! (kept_index bbs ! i) = (bbs ! i)\<lparr>terminator :=
      map_option (\<lambda>t. t\<lparr>term_kind := map_kind ((!) (kept_index bbs)) (term_kind t)\<rparr>) (terminator (bbs ! i))\<rparr>"
  using keep_reachable_nth [OF assms(2)] assms(3,4) reach_length [OF assms(1)]
    remap_reached [OF assms(1,3)]
  by (auto simp: remap_table_eq)

lemma kept_run:
  assumes c: "closed_body bbs" and k: "kept bbs bbs'"
  shows "i < length bbs \<Longrightarrow> reachable_blocks bbs ! i \<Longrightarrow>
    run_blocks rt checked tys asy bbs' n (kept_index bbs ! i) env h = run_blocks rt checked tys asy bbs n i env h"
proof (induction n arbitrary: i env h)
  case (Suc n)
  have "run_blocks rt checked tys asy bbs' n (kept_index bbs ! t) env' h' = run_blocks rt checked tys asy bbs n t env' h'"
    if "exec_block rt checked tys asy (bbs ! i) env h = Inr (Jump t, env', h')" for t env' h'
    using Suc reach_succ [OF c Suc.prems exec_block_succ [OF that]] by simp
  then show ?case
    using kept_block [OF c k Suc.prems] Suc.prems(1)
    by (cases "exec_block rt checked tys asy (bbs ! i) env h")
      (auto simp: exec_block_map split: step.splits)
qed simp

lemma kept_edges:
  assumes c: "closed_body bbs" and k: "kept bbs bbs'"
  shows "bbs' \<noteq> []" "\<forall>bb\<in>set bbs'. \<forall>t\<in>set (bb_succs bb). t < length bbs'"
proof -
  have z: "0 < length bbs" "reachable_blocks bbs ! 0"
    using c reachable_blocks_correct(2) by (auto simp: closed_body_def)
  then show "bbs' \<noteq> []" using kept_block(1) [OF c k z] by auto
  have rank_inj: "\<exists>i<length rs. rs ! i \<and> rank rs i = j" if "j < rank rs (length rs)" for j rs
    using that
  proof (induction rs arbitrary: j)
    case (Cons r rs)
    show ?case
    proof (cases "r \<and> j = 0")
      case True
      then show ?thesis by (intro exI [of _ 0]) simp
    next
      case False
      then obtain i where "i < length rs" "rs ! i" "rank rs i = (if r then j - 1 else j)"
        using Cons.IH [of "if r then j - 1 else j"] Cons.prems False by (cases r; cases j) auto
      with False show ?thesis by (intro exI [of _ "Suc i"]) auto
    qed
  qed simp
  show "\<forall>bb\<in>set bbs'. \<forall>t\<in>set (bb_succs bb). t < length bbs'"
  proof (intro ballI)
    fix bb t assume bb: "bb \<in> set bbs'" "t \<in> set (bb_succs bb)"
    then obtain j where j: "j < length bbs'" "bb = bbs' ! j" by (auto simp: in_set_conv_nth)
    then obtain i where i: "i < length bbs" "reachable_blocks bbs ! i"
        "rank (reachable_blocks bbs) i = j"
      using rank_inj [of j "reachable_blocks bbs"] keep_reachable_nth [OF k] reach_length [OF c] by auto
    then have "kept_index bbs ! i = j" using reach_length [OF c] by (simp add: remap_table_eq)
    with j kept_block(2) [OF c k i(1,2)] have eq: "bb = (bbs ! i)\<lparr>terminator :=
        map_option (\<lambda>t. t\<lparr>term_kind := map_kind ((!) (kept_index bbs)) (term_kind t)\<rparr>) (terminator (bbs ! i))\<rparr>"
      by simp
    have "set (term_succs (map_kind g tk)) = g ` set (term_succs tk)" for g tk
      by (cases tk) (auto simp: image_iff case_prod_beta)
    with bb(2) eq obtain t0 where "t0 \<in> set (bb_succs (bbs ! i))" "t = kept_index bbs ! t0"
      by (auto simp: bb_succs_def split: option.splits)
    with kept_block(1) [OF c k reach_succ [OF c i(1,2)]] show "t < length bbs'" by simp
  qed
qed

lemma unreachable_elimination_ok:
  fixes rt :: "'h runtime"
  assumes "wf_edges f"
  obtains f' c where "unreachable_block_elimination f = Some (f', c)" "wf_edges f'"
    "\<And>checked env h r. fn_returns rt checked f' env h r \<longleftrightarrow> fn_returns rt checked f env h r"
proof (cases "length (basic_blocks f) \<le> 1 \<or> list_all id (reachable_blocks (basic_blocks f))")
  case True
  then show ?thesis
    using assms that [of f False] by (auto simp: unreachable_block_elimination_def Let_def)
next
  case False
  let ?bbs = "basic_blocks f"
  let ?reach = "reachable_blocks ?bbs"
  have ne: "?bbs \<noteq> []" and c: "closed_body ?bbs"
    using assms by (auto simp: wf_edges_def closed_body_def)
  obtain bbs' where k: "kept ?bbs bbs'" using keep_total [OF c] .
  have zero: "0 < length ?bbs" "?reach ! 0" "kept_index ?bbs ! 0 = 0"
    using ne reachable_blocks_correct(1,2) [OF ne] by (auto simp: remap_table_eq)
  let ?f' = "f\<lparr>basic_blocks := bbs'\<rparr>"
  show ?thesis
  proof (rule that)
    show "unreachable_block_elimination f = Some (?f', True)"
      using False k by (auto simp: unreachable_block_elimination_def Let_def)
    show "wf_edges ?f'"
      using kept_edges [OF c k] by (simp add: wf_edges_def)
    show "fn_returns rt checked ?f' env h r \<longleftrightarrow> fn_returns rt checked f env h r" for checked env h r
      using kept_run [OF c k zero(1,2), of rt checked "fn_tys f" "is_async f" _ env h] zero(3)
      by (simp add: fn_returns_def run_fn_def fn_tys_def)
  qed
qed

lemma branch_simplify_succs:
  "set (bb_succs (fst (branch_simplify_block bb))) \<subseteq> set (bb_succs bb)"
proof (cases "terminator bb")
  case (Some t)
  have "set (term_succs (fst (branch_simplify_kind tk))) \<subseteq> set (term_succs tk)" for tk
  proof (cases tk)
    case (SwitchInt d targets otherwise)
    then show ?thesis
      using switch_target_succ [of _ targets otherwise d]
      by (auto simp: branch_simplify_kind_def split: operand.splits const.splits if_splits)
  qed (simp_all add: branch_simplify_kind_def)
  with Some show ?thesis by (simp add: branch_simplify_block_def bb_succs_def case_prod_beta)
qed (simp add: branch_simplify_block_def)

lemma branch_simplification_wf: "wf_edges f \<Longrightarrow> wf_edges (fst (branch_simplification f))"
  using branch_simplify_succs by (fastforce simp: wf_edges_def branch_simplification_def)

lemma merge_steps_wf:
  assumes "\<forall>bb\<in>set bbs. \<forall>t\<in>set (bb_succs bb). t < n" "\<And>i. i \<in> set is \<Longrightarrow> i < length bbs"
  shows "length (fst (foldl (merge_step pc) (bbs, c) is)) = length bbs \<and>
    (\<forall>bb\<in>set (fst (foldl (merge_step pc) (bbs, c) is)). \<forall>t\<in>set (bb_succs bb). t < n)"
  using assms
proof (induction "is" arbitrary: bbs c)
  case (Cons i "is")
  show ?case
  proof (cases "\<exists>t. goto_target (bbs ! i) = Some t \<and> t \<noteq> i \<and> t < length bbs \<and> t \<noteq> 0 \<and> pc ! t = 1")
    case True
    then obtain t where t: "goto_target (bbs ! i) = Some t" "t \<noteq> i" "t < length bbs" "t \<noteq> 0" "pc ! t = 1"
      by blast
    have "\<forall>bb\<in>set (merge_pair bbs i t). \<forall>t\<in>set (bb_succs bb). t < n"
    proof -
      have "bb_succs \<lparr>statements = ss, terminator = terminator (bbs ! t)\<rparr> = bb_succs (bbs ! t)" for ss
        by (simp add: bb_succs_def)
      moreover have "bb_succs unreachable_block = []" by (simp add: bb_succs_def unreachable_block_def)
      moreover have "\<forall>u\<in>set (bb_succs (bbs ! t)). u < n" using Cons.prems(1) t(3) nth_mem by blast
      ultimately show ?thesis
        using Cons.prems(1) unfolding merge_pair_def
        by (auto dest!: set_update_subset_insert [THEN subsetD])
    qed
    from Cons.IH [OF this] Cons.prems(2) t show ?thesis by simp
  next
    case False
    then have "merge_step pc (bbs, c) i = (bbs, c)" by (auto split: option.splits)
    with Cons show ?thesis by simp
  qed
qed simp

lemma merge_linear_wf: "wf_edges f \<Longrightarrow> wf_edges (fst (merge_linear_blocks f))"
  using merge_steps_wf [of "basic_blocks f" "length (basic_blocks f)" "[0..<length (basic_blocks f)]"
      "pred_count (basic_blocks f)" False]
  by (auto simp: wf_edges_def merge_linear_blocks_def Let_def case_prod_beta)

text \<open>
  C2. On a function whose edges stay inside it, and in which every switch with equal targets reads a
  copy of a local that is no Python object, an integer or a truth value, CFG simplification does not
  panic, leaves the edges inside, and the simplified function returns exactly what the function
  returned.
\<close>

theorem simplify_cfg_exact:
  assumes "wf_edges f" and "plain_switches f"
  shows "case simplify_cfg_run f of
      None \<Rightarrow> False
    | Some (f', _) \<Rightarrow> wf_edges f' \<and>
        (\<forall>checked env h r. fn_returns rt checked f' env h r \<longleftrightarrow> fn_returns rt checked f env h r)"
proof -
  let ?f1 = "fst (branch_simplification f)" and ?f2 = "fst (merge_linear_blocks (fst (branch_simplification f)))"
  have "wf_edges ?f2" by (intro merge_linear_wf branch_simplification_wf assms)
  then obtain f3 c where u: "unreachable_block_elimination ?f2 = Some (f3, c)" "wf_edges f3"
    "\<And>checked env h r. fn_returns rt checked f3 env h r \<longleftrightarrow> fn_returns rt checked ?f2 env h r"
    by (rule unreachable_elimination_ok [where rt = rt]) blast
  then show ?thesis
    using branch_simplification_returns [OF assms(2), where rt = rt]
    by (simp add: simplify_cfg_run_def case_prod_beta merge_linear_returns)
qed

text \<open>
  A diamond on a constant, a chain to merge and a dead block: one block is left.
\<close>

definition diamond_fn :: mir_function where
  "diamond_fn =
     func [TInt, TInt] 1
       [block [] (SwitchInt (Constant (CBool True)) [(1, 2)] 1),
        block [Assign 0 (Use (Constant (CInt 7)))] (Goto 3),
        block [Assign 0 (Use (Copy 1))] (Goto 3),
        block [] Return]"

theorem simplify_cfg_exact_witness:
  "map_option (\<lambda>(f', c). (length (basic_blocks f'), c)) (simplify_cfg_run diamond_fn) = Some (2, True) \<and>
   (case simplify_cfg_run diamond_fn of
      None \<Rightarrow> False
    | Some (f', _) \<Rightarrow> wf_edges f' \<and>
        (\<forall>checked env h r. fn_returns bare_rt checked f' env h r \<longleftrightarrow> fn_returns bare_rt checked diamond_fn env h r))"
proof
  show "map_option (\<lambda>(f', c). (length (basic_blocks f'), c)) (simplify_cfg_run diamond_fn) = Some (2, True)"
    by code_simp
  show "case simplify_cfg_run diamond_fn of
      None \<Rightarrow> False
    | Some (f', _) \<Rightarrow> wf_edges f' \<and>
        (\<forall>checked env h r. fn_returns bare_rt checked f' env h r \<longleftrightarrow> fn_returns bare_rt checked diamond_fn env h r)"
    by (rule simplify_cfg_exact) (simp_all add: diamond_fn_def wf_edges_def plain_switches_def block_def
        bb_succs_def)
qed

text \<open>
  The test that is lost otherwise: a switch on a Python object with equal targets asks the object for
  its truth, which may raise, and the jump that takes its place does not.
\<close>

definition idle_test_fn :: "terminator_kind \<Rightarrow> mir_function" where
  "idle_test_fn tk = func [TInt, TPyObject] 1 [block [] tk, block [] Return]"

lemma pyobject_switch_loses_test:
  "branch_simplification (idle_test_fn (SwitchInt (Copy 1) [(0, 1)] 1)) = (idle_test_fn (Goto 1), True)"
  "run_fn bare_rt True (idle_test_fn (SwitchInt (Copy 1) [(0, 1)] 1)) 2 (env_of [0, 5]) ()
     = Some (Inl (RuntimeFault 0))"
  "run_fn bare_rt True (idle_test_fn (Goto 1)) 2 (env_of [0, 5]) () = Some (Inr (0, ()))"
  by code_simp+

text \<open>
  C29. The marks of the elimination step are reachability: a block is kept exactly when a path of
  the control-flow graph leads to it from the entry.
\<close>

theorem reachable_blocks_paths:
  assumes "bbs \<noteq> []" and "i < length bbs"
  shows "reachable_blocks bbs ! i \<longleftrightarrow> (cfg_edge bbs)\<^sup>*\<^sup>* 0 i"
  by (rule reachable_blocks_correct(3) [OF assms])

theorem reachable_blocks_paths_witness:
  "(cfg_edge (basic_blocks diamond_fn))\<^sup>*\<^sup>* 0 3"
proof -
  have "reachable_blocks (basic_blocks diamond_fn) ! 3" by code_simp
  then show ?thesis
    by (subst reachable_blocks_paths [symmetric]) (simp_all add: diamond_fn_def)
qed

end
