(* ===== verification/Liveness.thy ===== *)
theory Liveness
  imports Mir
begin

text \<open>
  Backward liveness of locals (\<open>src/mir/liveness.rs\<close>). The table \<open>live_after\<close> has one row per
  block and one entry per statement boundary; \<open>compute\<close> sweeps the blocks backwards until a
  sweep changes nothing. Reading the row of a successor that does not exist panics, which is
  \<open>None\<close>.
\<close>

type_synonym live_table = "local set list list"

subsection \<open>Transfer functions\<close>

fun use_op :: "operand \<Rightarrow> local set \<Rightarrow> local set" where
  "use_op (Copy l) live = insert l live"
| "use_op (Move l) live = insert l live"
| "use_op (Constant _) live = live"

fun use_rvalue :: "rvalue \<Rightarrow> local set \<Rightarrow> local set" where
  "use_rvalue (Use p) live = use_op p live"
| "use_rvalue (UnaryOp _ p) live = use_op p live"
| "use_rvalue (FatPtrData p) live = use_op p live"
| "use_rvalue (GenOf p) live = use_op p live"
| "use_rvalue (BinaryOp _ l r) live = use_op r (use_op l live)"
| "use_rvalue (Call fn args) live = fold use_op args (use_op fn live)"
| "use_rvalue (Aggregate _ ops) live = fold use_op ops live"
| "use_rvalue (GetAttr p _) live = use_op p live"
| "use_rvalue (GetIndex p i _) live = use_op i (use_op p live)"
| "use_rvalue (GetTag p) live = use_op p live"
| "use_rvalue (GetTypeId p) live = use_op p live"
| "use_rvalue (Cast p _) live = use_op p live"
| "use_rvalue (Ref l) live = insert l live"
| "use_rvalue (MutRef l) live = insert l live"
| "use_rvalue (PtrLoad p) live = use_op p live"
| "use_rvalue (VTableLoad vtable _) live = use_op vtable live"
| "use_rvalue (VectorSplat p _) live = use_op p live"
| "use_rvalue (VectorReduce _ p _) live = use_op p live"
| "use_rvalue (VectorLoad ob ix _) live = use_op ix (use_op ob live)"
| "use_rvalue (VectorFMA a b c) live = use_op c (use_op b (use_op a live))"

fun update_stmt_liveness :: "statement_kind \<Rightarrow> local set \<Rightarrow> local set" where
  "update_stmt_liveness (Assign l rv) live = use_rvalue rv (live - {l})"
| "update_stmt_liveness (SetAttr ob _ v) live = use_op v (use_op ob live)"
| "update_stmt_liveness (SetIndex ob ix v _) live = use_op v (use_op ix (use_op ob live))"
| "update_stmt_liveness (Drop l) live = live - {l}"
| "update_stmt_liveness (StorageDead l) live = live - {l}"
| "update_stmt_liveness (StorageLive _) live = live"
| "update_stmt_liveness (VectorStore ob ix v) live = use_op v (use_op ix (use_op ob live))"
| "update_stmt_liveness (PtrStore p v) live = use_op v (use_op p live)"
| "update_stmt_liveness (GenCheck v g) live = insert g (insert v live)"

definition update_liveness :: "terminator option \<Rightarrow> local set \<Rightarrow> local set" where
  "update_liveness term live =
     (case term of
        Some t \<Rightarrow> (case term_kind t of SwitchInt discr _ _ \<Rightarrow> use_op discr live | _ \<Rightarrow> live)
      | None \<Rightarrow> live)"

definition successors :: "basic_block \<Rightarrow> nat list" where
  "successors bb =
     (case terminator bb of
        Some t \<Rightarrow>
          (case term_kind t of
             Goto target \<Rightarrow> [target]
           | SwitchInt _ targets otherwise \<Rightarrow> map snd targets @ [otherwise]
           | Return \<Rightarrow> []
           | Unreachable \<Rightarrow> [])
      | None \<Rightarrow> [])"

subsection \<open>The fixpoint loop\<close>

definition initial_table :: "mir_function \<Rightarrow> live_table" where
  "initial_table f = map (\<lambda>bb. replicate (length (statements bb) + 1) {}) (basic_blocks f)"

text \<open>The union of the first entries of the successors' rows.\<close>

fun live_out :: "live_table \<Rightarrow> nat list \<Rightarrow> local set option" where
  "live_out tbl [] = Some {}"
| "live_out tbl (s # ss) =
     do { row \<leftarrow> idx tbl s; first \<leftarrow> idx row 0; rest \<leftarrow> live_out tbl ss; Some (first \<union> rest) }"

text \<open>A row from its last entry backwards: what the inner loop writes.\<close>

fun live_row :: "local set \<Rightarrow> statement list \<Rightarrow> local set list" where
  "live_row live [] = [live]"
| "live_row live (s # ss) =
     (let rest = live_row live ss in update_stmt_liveness (kind s) (hd rest) # rest)"

definition block_row :: "live_table \<Rightarrow> basic_block \<Rightarrow> local set list option" where
  "block_row tbl bb =
     do { out \<leftarrow> live_out tbl (successors bb);
          Some (live_row (update_liveness (terminator bb) out) (statements bb)) }"

fun sweep :: "mir_function \<Rightarrow> nat list \<Rightarrow> live_table \<Rightarrow> bool \<Rightarrow> (live_table \<times> bool) option" where
  "sweep f [] tbl changed = Some (tbl, changed)"
| "sweep f (b # bs) tbl changed =
     do { row \<leftarrow> block_row tbl (basic_blocks f ! b);
          sweep f bs (tbl[b := row]) (changed \<or> row \<noteq> tbl ! b) }"

definition full_sweep :: "mir_function \<Rightarrow> live_table \<Rightarrow> (live_table \<times> bool) option" where
  "full_sweep f tbl = sweep f (rev [0..<length (basic_blocks f)]) tbl False"

text \<open>\<open>while changed\<close>: an inner \<open>None\<close> is a panic, an outer one a loop that does not end.\<close>

definition liveness_compute :: "mir_function \<Rightarrow> live_table option option" where
  "liveness_compute f =
     map_option (map_option fst)
       (while_option (\<lambda>st. case st of Some (_, changed) \<Rightarrow> changed | None \<Rightarrow> False)
          (\<lambda>st. do { (tbl, _) \<leftarrow> st; full_sweep f tbl })
          (Some (initial_table f, True)))"

subsection \<open>What a statement reads and what it kills\<close>

fun stmt_uses :: "statement_kind \<Rightarrow> local set" where
  "stmt_uses (Assign _ rv) = rv_locals rv"
| "stmt_uses (Drop _) = {}"
| "stmt_uses k = stmt_locals k"

fun stmt_kills :: "statement_kind \<Rightarrow> local set" where
  "stmt_kills (Assign l _) = {l}"
| "stmt_kills (Drop l) = {l}"
| "stmt_kills (StorageDead l) = {l}"
| "stmt_kills _ = {}"

definition term_uses :: "terminator option \<Rightarrow> local set" where
  "term_uses t = update_liveness t {}"

lemma use_op_eq: "use_op p live = set (op_local p) \<union> live"
  by (cases p) auto

lemma fold_use_op_eq: "fold use_op ps live = (\<Union>p\<in>set ps. set (op_local p)) \<union> live"
  by (induction ps arbitrary: live) (auto simp: use_op_eq)

lemma use_rvalue_eq: "use_rvalue rv live = rv_locals rv \<union> live"
  by (cases rv) (auto simp: use_op_eq fold_use_op_eq)

lemma update_stmt_liveness_eq: "update_stmt_liveness k live = stmt_uses k \<union> (live - stmt_kills k)"
  by (cases k) (auto simp: use_op_eq use_rvalue_eq)

lemma update_liveness_eq: "update_liveness t live = term_uses t \<union> live"
  by (auto simp: update_liveness_def term_uses_def use_op_eq
      split: option.splits terminator_kind.splits)

lemma successors_eq: "successors bb = bb_succs bb"
  by (auto simp: successors_def bb_succs_def split: option.splits terminator_kind.splits)

text \<open>
  The meaning of the table: a local is live at a boundary when some path from it reads the
  local before any statement kills it.
\<close>

inductive live_at :: "mir_function \<Rightarrow> local \<Rightarrow> nat \<Rightarrow> nat \<Rightarrow> bool" for f l where
  read_stmt: "b < length (basic_blocks f) \<Longrightarrow> i < length (statements (basic_blocks f ! b)) \<Longrightarrow>
     l \<in> stmt_uses (kind (statements (basic_blocks f ! b) ! i)) \<Longrightarrow> live_at f l b i"
| pass_stmt: "b < length (basic_blocks f) \<Longrightarrow> i < length (statements (basic_blocks f ! b)) \<Longrightarrow>
     l \<notin> stmt_kills (kind (statements (basic_blocks f ! b) ! i)) \<Longrightarrow> live_at f l b (Suc i) \<Longrightarrow>
     live_at f l b i"
| read_term: "b < length (basic_blocks f) \<Longrightarrow> l \<in> term_uses (terminator (basic_blocks f ! b)) \<Longrightarrow>
     live_at f l b (length (statements (basic_blocks f ! b)))"
| pass_term: "b < length (basic_blocks f) \<Longrightarrow> s \<in> set (successors (basic_blocks f ! b)) \<Longrightarrow>
     live_at f l s 0 \<Longrightarrow> live_at f l b (length (statements (basic_blocks f ! b)))"

end
