(* ===== verification/LivenessProps.thy ===== *)
theory LivenessProps
  imports Liveness Samples
begin

text \<open>
  The liveness analysis ends on every function whose edges stay inside it, without a panic, and
  its table is exactly liveness: a local is in the set of a boundary when some path from there
  reads it before a statement kills it.
\<close>

subsection \<open>One row\<close>

definition table_ok :: "mir_function \<Rightarrow> live_table \<Rightarrow> bool" where
  "table_ok f tbl \<longleftrightarrow> length tbl = length (basic_blocks f) \<and>
     (\<forall>b<length tbl. length (tbl ! b) = length (statements (basic_blocks f ! b)) + 1)"

definition out_set :: "mir_function \<Rightarrow> live_table \<Rightarrow> nat \<Rightarrow> local set" where
  "out_set f tbl b =
     term_uses (terminator (basic_blocks f ! b)) \<union> (\<Union>s\<in>set (successors (basic_blocks f ! b)). tbl ! s ! 0)"

definition new_row :: "mir_function \<Rightarrow> live_table \<Rightarrow> nat \<Rightarrow> local set list" where
  "new_row f tbl b = live_row (out_set f tbl b) (statements (basic_blocks f ! b))"

lemma live_row_length [simp]: "length (live_row live ss) = length ss + 1"
  by (induction ss) (auto simp: Let_def)

lemma live_row_last: "live_row live ss ! length ss = live"
  by (induction ss) (auto simp: Let_def)

lemma live_row_nth:
  "i < length ss \<Longrightarrow> live_row live ss ! i =
     stmt_uses (kind (ss ! i)) \<union> (live_row live ss ! Suc i - stmt_kills (kind (ss ! i)))"
proof (induction ss arbitrary: i)
  case (Cons s ss)
  have "hd (live_row live ss) = live_row live ss ! 0" by (cases ss) (auto simp: Let_def)
  with Cons show ?case by (cases i) (auto simp: Let_def update_stmt_liveness_eq)
qed simp

lemma live_row_mono:
  assumes "live \<subseteq> live'"
  shows "i \<le> length ss \<Longrightarrow> live_row live ss ! i \<subseteq> live_row live' ss ! i"
proof (induction "length ss - i" arbitrary: i)
  case 0
  then have "i = length ss" by simp
  then show ?case using assms by (simp add: live_row_last)
next
  case (Suc n)
  then have "i < length ss" "live_row live ss ! Suc i \<subseteq> live_row live' ss ! Suc i" by auto
  then show ?case by (auto simp: live_row_nth)
qed

lemma live_out_Some:
  assumes "\<forall>s\<in>set ss. s < length tbl \<and> tbl ! s \<noteq> []"
  shows "live_out tbl ss = Some (\<Union>s\<in>set ss. tbl ! s ! 0)"
  using assms by (induction ss) (auto simp: idx_def)

lemma table_ok_first: "table_ok f tbl \<Longrightarrow> s < length tbl \<Longrightarrow> tbl ! s \<noteq> []"
  by (auto simp: table_ok_def)

lemma block_row_Some:
  assumes "wf_edges f" "table_ok f tbl" "b < length (basic_blocks f)"
  shows "block_row tbl (basic_blocks f ! b) = Some (new_row f tbl b)"
proof -
  have "\<forall>s\<in>set (successors (basic_blocks f ! b)). s < length tbl"
    using assms by (auto simp: wf_edges_def successors_eq table_ok_def)
  with assms(2) have "live_out tbl (successors (basic_blocks f ! b))
      = Some (\<Union>s\<in>set (successors (basic_blocks f ! b)). tbl ! s ! 0)"
    by (intro live_out_Some) (auto dest: table_ok_first)
  then show ?thesis by (simp add: block_row_def new_row_def out_set_def update_liveness_eq)
qed

lemma new_row_ok: "table_ok f tbl \<Longrightarrow> b < length tbl \<Longrightarrow> table_ok f (tbl[b := new_row f tbl b])"
  by (auto simp: table_ok_def new_row_def nth_list_update)

subsection \<open>The order of tables\<close>

definition table_le :: "mir_function \<Rightarrow> live_table \<Rightarrow> live_table \<Rightarrow> bool" where
  "table_le f t u \<longleftrightarrow>
     (\<forall>b<length (basic_blocks f). \<forall>i\<le>length (statements (basic_blocks f ! b)). t ! b ! i \<subseteq> u ! b ! i)"

definition growing :: "mir_function \<Rightarrow> live_table \<Rightarrow> bool" where
  "growing f tbl \<longleftrightarrow>
     (\<forall>b<length (basic_blocks f). \<forall>i\<le>length (statements (basic_blocks f ! b)).
        tbl ! b ! i \<subseteq> new_row f tbl b ! i)"

definition sound_table :: "mir_function \<Rightarrow> live_table \<Rightarrow> bool" where
  "sound_table f tbl \<longleftrightarrow>
     (\<forall>b<length (basic_blocks f). \<forall>i\<le>length (statements (basic_blocks f ! b)).
        \<forall>l\<in>tbl ! b ! i. live_at f l b i)"

lemma new_row_mono:
  assumes "wf_edges f" "table_le f t u" "b < length (basic_blocks f)"
    "i \<le> length (statements (basic_blocks f ! b))"
  shows "new_row f t b ! i \<subseteq> new_row f u b ! i"
proof -
  have "t ! s ! 0 \<subseteq> u ! s ! 0" if "s \<in> set (successors (basic_blocks f ! b))" for s
  proof -
    have "s < length (basic_blocks f)" using assms that by (auto simp: wf_edges_def successors_eq)
    with assms(2) show ?thesis by (auto simp: table_le_def)
  qed
  then have "out_set f t b \<subseteq> out_set f u b" by (auto simp: out_set_def)
  then show ?thesis unfolding new_row_def using assms(4) by (rule live_row_mono)
qed

lemma growing_update:
  assumes "wf_edges f" "table_ok f tbl" "growing f tbl" "b < length (basic_blocks f)"
  shows "table_le f tbl (tbl[b := new_row f tbl b])" "growing f (tbl[b := new_row f tbl b])"
proof -
  let ?t = "tbl[b := new_row f tbl b]"
  have len: "length tbl = length (basic_blocks f)" using assms(2) by (simp add: table_ok_def)
  show le: "table_le f tbl ?t"
    using assms len by (auto simp: table_le_def growing_def nth_list_update)
  show "growing f ?t"
    unfolding growing_def
  proof (intro allI impI)
    fix c i assume c: "c < length (basic_blocks f)" "i \<le> length (statements (basic_blocks f ! c))"
    have "?t ! c ! i \<subseteq> new_row f tbl c ! i"
      using assms(3) c len by (cases "c = b") (simp_all add: growing_def)
    also have "\<dots> \<subseteq> new_row f ?t c ! i" by (rule new_row_mono [OF assms(1) le c])
    finally show "?t ! c ! i \<subseteq> new_row f ?t c ! i" .
  qed
qed

lemma sound_new_row:
  assumes s: "sound_table f tbl" "wf_edges f" and b: "b < length (basic_blocks f)"
  shows "i \<le> length (statements (basic_blocks f ! b)) \<Longrightarrow> l \<in> new_row f tbl b ! i \<Longrightarrow> live_at f l b i"
proof (induction "length (statements (basic_blocks f ! b)) - i" arbitrary: i)
  case 0
  then have i: "i = length (statements (basic_blocks f ! b))" by simp
  with 0 have "l \<in> out_set f tbl b" by (simp add: new_row_def live_row_last)
  then consider "l \<in> term_uses (terminator (basic_blocks f ! b))"
    | t where "t \<in> set (successors (basic_blocks f ! b))" "l \<in> tbl ! t ! 0"
    by (auto simp: out_set_def)
  then show ?case
  proof cases
    case 1
    then show ?thesis unfolding i by (rule live_at.read_term [OF b])
  next
    case 2
    then have "t < length (basic_blocks f)" using s(2) b by (auto simp: wf_edges_def successors_eq)
    with 2 s(1) have "live_at f l t 0" by (auto simp: sound_table_def)
    with 2 show ?thesis unfolding i by (intro live_at.pass_term [OF b])
  qed
next
  case (Suc n)
  then have i: "i < length (statements (basic_blocks f ! b))" by simp
  with Suc.prems consider "l \<in> stmt_uses (kind (statements (basic_blocks f ! b) ! i))"
    | "l \<in> new_row f tbl b ! Suc i" "l \<notin> stmt_kills (kind (statements (basic_blocks f ! b) ! i))"
    by (auto simp: new_row_def live_row_nth)
  then show ?case
  proof cases
    case 1
    then show ?thesis by (rule live_at.read_stmt [OF b i])
  next
    case 2
    then show ?thesis using Suc i by (intro live_at.pass_stmt [OF b i]) auto
  qed
qed

subsection \<open>One sweep\<close>

definition live_inv :: "mir_function \<Rightarrow> live_table \<Rightarrow> bool" where
  "live_inv f tbl \<longleftrightarrow> table_ok f tbl \<and> growing f tbl \<and> sound_table f tbl"

lemma live_inv_update:
  assumes "wf_edges f" "live_inv f tbl" "b < length (basic_blocks f)"
  shows "live_inv f (tbl[b := new_row f tbl b])"
  using assms growing_update [OF assms(1)] new_row_ok [of f tbl b] sound_new_row [of f tbl b]
  by (auto simp: live_inv_def table_ok_def sound_table_def nth_list_update)

lemma table_le_trans: "table_le f t u \<Longrightarrow> table_le f u v \<Longrightarrow> table_le f t v"
  unfolding table_le_def by blast

lemma sweep_ok:
  assumes "wf_edges f"
  shows "live_inv f tbl \<Longrightarrow> set bs \<subseteq> {..<length (basic_blocks f)} \<Longrightarrow>
    \<exists>tbl' c. sweep f bs tbl changed = Some (tbl', c) \<and> live_inv f tbl' \<and> table_le f tbl tbl' \<and>
      (c \<longleftrightarrow> changed \<or> tbl' \<noteq> tbl) \<and>
      (tbl' = tbl \<longrightarrow> (\<forall>b\<in>set bs. tbl ! b = new_row f tbl b))"
proof (induction bs arbitrary: tbl changed)
  case Nil
  then show ?case by (simp add: table_le_def)
next
  case (Cons b bs)
  let ?t = "tbl[b := new_row f tbl b]"
  have b: "b < length (basic_blocks f)" and len: "length tbl = length (basic_blocks f)"
    using Cons.prems by (auto simp: live_inv_def table_ok_def)
  have row: "block_row tbl (basic_blocks f ! b) = Some (new_row f tbl b)"
    using Cons.prems(1) b by (intro block_row_Some [OF assms]) (auto simp: live_inv_def)
  have inv: "live_inv f ?t" by (rule live_inv_update [OF assms Cons.prems(1) b])
  have le: "table_le f tbl ?t"
    using growing_update(1) [OF assms _ _ b] Cons.prems(1) by (auto simp: live_inv_def)
  obtain tbl' c where r: "sweep f bs ?t (changed \<or> new_row f tbl b \<noteq> tbl ! b) = Some (tbl', c)"
    "live_inv f tbl'" "table_le f ?t tbl'" "c \<longleftrightarrow> (changed \<or> new_row f tbl b \<noteq> tbl ! b) \<or> tbl' \<noteq> ?t"
    "tbl' = ?t \<longrightarrow> (\<forall>b\<in>set bs. ?t ! b = new_row f ?t b)"
    using Cons.IH [OF inv, of "changed \<or> new_row f tbl b \<noteq> tbl ! b"] Cons.prems(2) by auto
  have same: "?t = tbl \<longleftrightarrow> new_row f tbl b = tbl ! b"
    using b len by (metis list_update_id nth_list_update_eq)
  have anti: "?t = tbl" if "tbl' = tbl"
  proof -
    have "?t ! c ! i = tbl ! c ! i" if "c < length (basic_blocks f)" "i \<le> length (statements (basic_blocks f ! c))" for c i
      using le r(3) \<open>tbl' = tbl\<close> that unfolding table_le_def by blast
    moreover have "length (?t ! c) = length (statements (basic_blocks f ! c)) + 1"
      "length (tbl ! c) = length (statements (basic_blocks f ! c)) + 1" if "c < length (basic_blocks f)" for c
      using inv Cons.prems(1) that len by (auto simp: live_inv_def table_ok_def)
    ultimately show ?thesis
      using len by (intro nth_equalityI) (simp_all add: list_eq_iff_nth_eq less_Suc_eq_le)
  qed
  have "c \<longleftrightarrow> changed \<or> tbl' \<noteq> tbl"
    using r(4) same anti by metis
  moreover have "\<forall>b\<in>set (b # bs). tbl ! b = new_row f tbl b" if "tbl' = tbl"
  proof -
    have t: "?t = tbl" by (rule anti [OF that])
    then have "\<forall>b\<in>set bs. tbl ! b = new_row f tbl b" using r(5) that by metis
    moreover have "tbl ! b = new_row f tbl b" using t same by metis
    ultimately show ?thesis by simp
  qed
  ultimately show ?case
    using row r(1,2) table_le_trans [OF le r(3)] by auto
qed

subsection \<open>The loop ends\<close>

definition read_locals :: "mir_function \<Rightarrow> local set" where
  "read_locals f =
     (\<Union>bb\<in>set (basic_blocks f). term_uses (terminator bb) \<union> (\<Union>s\<in>set (statements bb). stmt_uses (kind s)))"

lemma finite_stmt_uses: "finite (stmt_uses k)"
  by (cases k) auto

lemma finite_term_uses: "finite (term_uses t)"
proof -
  have "finite (use_op p {})" for p by (cases p) auto
  then show ?thesis
    by (auto simp: term_uses_def update_liveness_def split: option.splits terminator_kind.splits)
qed

lemma finite_read_locals: "finite (read_locals f)"
  by (auto simp: read_locals_def finite_stmt_uses finite_term_uses)

lemma read_locals_stmt:
  "b < length (basic_blocks f) \<Longrightarrow> i < length (statements (basic_blocks f ! b)) \<Longrightarrow>
     stmt_uses (kind (statements (basic_blocks f ! b) ! i)) \<subseteq> read_locals f"
  unfolding read_locals_def
  by (rule subset_trans [OF _ UN_upper [of "basic_blocks f ! b"]]) (auto intro!: bexI [OF _ nth_mem])

lemma read_locals_term:
  "b < length (basic_blocks f) \<Longrightarrow> term_uses (terminator (basic_blocks f ! b)) \<subseteq> read_locals f"
  unfolding read_locals_def
  by (rule subset_trans [OF _ UN_upper [of "basic_blocks f ! b"]]) auto

lemma live_at_read: "live_at f l b i \<Longrightarrow> l \<in> read_locals f"
  by (induction rule: live_at.induct) (auto dest: read_locals_stmt read_locals_term)

definition missing :: "mir_function \<Rightarrow> live_table \<Rightarrow> nat" where
  "missing f tbl =
     (\<Sum>b<length (basic_blocks f). \<Sum>i\<le>length (statements (basic_blocks f ! b)).
        card (read_locals f - tbl ! b ! i))"

lemma table_differs:
  assumes "table_ok f t" "table_ok f u" "t \<noteq> u"
  shows "\<exists>b<length (basic_blocks f). \<exists>i\<le>length (statements (basic_blocks f ! b)). t ! b ! i \<noteq> u ! b ! i"
proof (rule ccontr)
  assume "\<not> ?thesis"
  then have "t ! b = u ! b" if "b < length (basic_blocks f)" for b
    using assms(1,2) that by (intro nth_equalityI) (auto simp: table_ok_def less_Suc_eq_le)
  then have "t = u" using assms(1,2) by (intro nth_equalityI) (auto simp: table_ok_def)
  with assms(3) show False by simp
qed

lemma missing_less:
  assumes le: "table_le f t u" and ok: "live_inv f t" "live_inv f u" and ne: "t \<noteq> u"
  shows "missing f u < missing f t"
proof -
  let ?n = "length (basic_blocks f)" and ?m = "\<lambda>b. length (statements (basic_blocks f ! b))"
  have sub: "u ! b ! i \<subseteq> read_locals f" if "b < ?n" "i \<le> ?m b" for b i
    using ok(2) that live_at_read by (fastforce simp: live_inv_def sound_table_def)
  have card: "card (read_locals f - u ! b ! i) \<le> card (read_locals f - t ! b ! i)" if "b < ?n" "i \<le> ?m b" for b i
    using le that by (intro card_mono) (auto simp: table_le_def finite_read_locals)
  obtain b i where bi: "b < ?n" "i \<le> ?m b" "t ! b ! i \<noteq> u ! b ! i"
    using table_differs [of f, OF _ _ ne] ok unfolding live_inv_def by blast
  then have "t ! b ! i \<subset> u ! b ! i" using le by (auto simp: table_le_def)
  then have "card (read_locals f - u ! b ! i) < card (read_locals f - t ! b ! i)"
    using sub [OF bi(1,2)] by (intro psubset_card_mono) (auto simp: finite_read_locals)
  then have "(\<Sum>i\<le>?m b. card (read_locals f - u ! b ! i)) < (\<Sum>i\<le>?m b. card (read_locals f - t ! b ! i))"
    using bi card by (intro sum_strict_mono_ex1) auto
  moreover have "(\<Sum>i\<le>?m b. card (read_locals f - u ! b ! i)) \<le> (\<Sum>i\<le>?m b. card (read_locals f - t ! b ! i))"
    if "b < ?n" for b
    using card that by (intro sum_mono) auto
  ultimately show ?thesis
    unfolding missing_def using bi(1) by (intro sum_strict_mono_ex1) auto
qed

lemma initial_inv: "live_inv f (initial_table f)"
proof -
  have e: "initial_table f ! b ! i = {}" if "b < length (basic_blocks f)" "i \<le> length (statements (basic_blocks f ! b))" for b i
    using that by (simp add: initial_table_def nth_replicate del: replicate_Suc)
  then show ?thesis
    by (auto simp: live_inv_def growing_def sound_table_def table_ok_def initial_table_def
        simp del: replicate_Suc)
qed

lemma full_sweep_ok:
  assumes "wf_edges f" "live_inv f tbl"
  obtains tbl' c where "full_sweep f tbl = Some (tbl', c)" "live_inv f tbl'" "table_le f tbl tbl'"
    "c \<longleftrightarrow> tbl' \<noteq> tbl" "tbl' = tbl \<Longrightarrow> \<forall>b<length (basic_blocks f). tbl ! b = new_row f tbl b"
proof -
  have "set (rev [0..<length (basic_blocks f)]) \<subseteq> {..<length (basic_blocks f)}" by auto
  with sweep_ok [OF assms(1,2) this, of False] that show ?thesis
    unfolding full_sweep_def by fastforce
qed

text \<open>The state of the loop: a table between sweeps, and at rest when the last one changed nothing.\<close>

definition loop_inv :: "mir_function \<Rightarrow> (live_table \<times> bool) option \<Rightarrow> bool" where
  "loop_inv f q \<longleftrightarrow>
     (case q of
        Some (tbl, c) \<Rightarrow> live_inv f tbl \<and> (\<not> c \<longrightarrow> (\<forall>b<length (basic_blocks f). tbl ! b = new_row f tbl b))
      | None \<Rightarrow> False)"

definition loop_measure :: "mir_function \<Rightarrow> (live_table \<times> bool) option \<Rightarrow> nat" where
  "loop_measure f q = (case q of Some (tbl, c) \<Rightarrow> 2 * missing f tbl + of_bool c | None \<Rightarrow> 0)"

lemma liveness_fixpoint:
  assumes "wf_edges f"
  obtains tbl where "liveness_compute f = Some (Some tbl)" "live_inv f tbl"
    "\<forall>b<length (basic_blocks f). tbl ! b = new_row f tbl b"
proof -
  let ?b = "\<lambda>q. case q of Some (_, changed) \<Rightarrow> changed | None \<Rightarrow> False"
  let ?c = "\<lambda>q. do { (tbl, _) \<leftarrow> q; full_sweep f tbl }"
  have step: "loop_inv f (?c q) \<and> loop_measure f (?c q) < loop_measure f q"
    if inv: "loop_inv f q" "?b q" for q
  proof -
    from inv obtain tbl where q: "q = Some (tbl, True)" "live_inv f tbl"
      by (auto simp: loop_inv_def split: option.splits)
    obtain tbl' c where r: "full_sweep f tbl = Some (tbl', c)" "live_inv f tbl'" "table_le f tbl tbl'"
      "c \<longleftrightarrow> tbl' \<noteq> tbl" "tbl' = tbl \<Longrightarrow> \<forall>b<length (basic_blocks f). tbl ! b = new_row f tbl b"
      using full_sweep_ok [OF assms q(2)] by metis
    show ?thesis
    proof (cases "tbl' = tbl")
      case True
      with r q show ?thesis by (auto simp: loop_inv_def loop_measure_def)
    next
      case False
      with missing_less [OF r(3) q(2) r(2)] r q show ?thesis
        by (auto simp: loop_inv_def loop_measure_def)
    qed
  qed
  have init: "loop_inv f (Some (initial_table f, True))" by (simp add: loop_inv_def initial_inv)
  obtain q where w: "while_option ?b ?c (Some (initial_table f, True)) = Some q"
    using measure_while_option_Some [of "loop_inv f" ?b ?c "loop_measure f", OF step init] by blast
  have "loop_inv f q" using while_option_rule [of "loop_inv f", OF _ w init] step by blast
  moreover have "\<not> ?b q" using while_option_stop [OF w] .
  ultimately obtain tbl where "q = Some (tbl, False)" "live_inv f tbl"
    "\<forall>b<length (basic_blocks f). tbl ! b = new_row f tbl b"
    by (auto simp: loop_inv_def split: option.splits)
  with w show ?thesis by (intro that) (simp_all add: liveness_compute_def)
qed

lemma live_at_table:
  assumes "wf_edges f" "\<forall>b<length (basic_blocks f). tbl ! b = new_row f tbl b"
  shows "live_at f l b i \<Longrightarrow> l \<in> tbl ! b ! i"
proof (induction rule: live_at.induct)
  case (read_stmt b i)
  then show ?case using assms(2) by (simp add: new_row_def live_row_nth)
next
  case (pass_stmt b i)
  then show ?case using assms(2) by (auto simp: new_row_def live_row_nth)
next
  case (read_term b)
  then show ?case using assms(2) by (simp add: new_row_def live_row_last out_set_def)
next
  case (pass_term b s)
  then show ?case using assms(2) by (auto simp: new_row_def live_row_last out_set_def)
qed

text \<open>
  C3. The liveness analysis ends without a panic on every function whose edges stay inside it, and
  the set it gives for a boundary of a block holds exactly the locals that some path from there reads
  before a statement kills them.
\<close>

theorem liveness_exact:
  assumes "wf_edges f"
  shows "\<exists>tbl. liveness_compute f = Some (Some tbl) \<and>
    (\<forall>b<length (basic_blocks f). length (tbl ! b) = length (statements (basic_blocks f ! b)) + 1 \<and>
       (\<forall>i\<le>length (statements (basic_blocks f ! b)). tbl ! b ! i = {l. live_at f l b i}))"
proof -
  obtain tbl where t: "liveness_compute f = Some (Some tbl)" "live_inv f tbl"
    "\<forall>b<length (basic_blocks f). tbl ! b = new_row f tbl b"
    by (rule liveness_fixpoint [OF assms])
  have "tbl ! b ! i = {l. live_at f l b i}" if "b < length (basic_blocks f)" "i \<le> length (statements (basic_blocks f ! b))" for b i
    using t(2) that live_at_table [OF assms t(3)] by (auto simp: live_inv_def sound_table_def)
  with t show ?thesis by (auto simp: live_inv_def table_ok_def)
qed

text \<open>A loop that counts local 1 down: it is live at the head on every turn.\<close>

definition count_fn :: mir_function where
  "count_fn =
     func [TInt, TInt] 1
       [block [] (SwitchInt (Copy 1) [(0, 2)] 1),
        block [Assign 1 (BinaryOp SubOp (Copy 1) (Constant (CInt 1)))] (Goto 0),
        block [Assign 0 (Use (Constant (CInt 0)))] Return]"

theorem liveness_exact_witness:
  "\<exists>tbl. liveness_compute count_fn = Some (Some tbl) \<and>
    (\<forall>b<length (basic_blocks count_fn). length (tbl ! b) = length (statements (basic_blocks count_fn ! b)) + 1 \<and>
       (\<forall>i\<le>length (statements (basic_blocks count_fn ! b)). tbl ! b ! i = {l. live_at count_fn l b i}))"
  by (rule liveness_exact) (simp add: count_fn_def wf_edges_def block_def bb_succs_def)

lemma count_fn_table: "liveness_compute count_fn = Some (Some [[{1}], [{1}, {1}], [{}, {}]])"
  by code_simp

end
