(* ===== verification/Dce.thy ===== *)
theory Dce
  imports Exec
begin

text \<open>
  Dead-code elimination (\<open>src/mir/optimizations/dce.rs\<close>): one flow-insensitive pass collects
  every local that is read anywhere, a second one drops the assignments whose target is not
  among them, calls excepted.
\<close>

fun record_operand_usage :: "operand \<Rightarrow> local set \<Rightarrow> local set" where
  "record_operand_usage (Copy l) used = insert l used"
| "record_operand_usage (Move l) used = insert l used"
| "record_operand_usage (Constant _) used = used"

fun record_rvalue_usage :: "rvalue \<Rightarrow> local set \<Rightarrow> local set" where
  "record_rvalue_usage (Use p) used = record_operand_usage p used"
| "record_rvalue_usage (UnaryOp _ p) used = record_operand_usage p used"
| "record_rvalue_usage (GetAttr p _) used = record_operand_usage p used"
| "record_rvalue_usage (GetTag p) used = record_operand_usage p used"
| "record_rvalue_usage (GetTypeId p) used = record_operand_usage p used"
| "record_rvalue_usage (FatPtrData p) used = record_operand_usage p used"
| "record_rvalue_usage (Cast p _) used = record_operand_usage p used"
| "record_rvalue_usage (BinaryOp _ l r) used = record_operand_usage r (record_operand_usage l used)"
| "record_rvalue_usage (GetIndex l r _) used = record_operand_usage r (record_operand_usage l used)"
| "record_rvalue_usage (Call f args) used =
     fold record_operand_usage args (record_operand_usage f used)"
| "record_rvalue_usage (Aggregate _ ops) used = fold record_operand_usage ops used"
| "record_rvalue_usage (Ref l) used = insert l used"
| "record_rvalue_usage (MutRef l) used = insert l used"
| "record_rvalue_usage (PtrLoad p) used = record_operand_usage p used"
| "record_rvalue_usage (GenOf p) used = record_operand_usage p used"
| "record_rvalue_usage (VTableLoad vtable _) used = record_operand_usage vtable used"
| "record_rvalue_usage (VectorSplat p _) used = record_operand_usage p used"
| "record_rvalue_usage (VectorReduce _ p _) used = record_operand_usage p used"
| "record_rvalue_usage (VectorLoad ob ix _) used =
     record_operand_usage ix (record_operand_usage ob used)"
| "record_rvalue_usage (VectorFMA a b c) used =
     record_operand_usage c (record_operand_usage b (record_operand_usage a used))"

fun record_stmt_usage :: "local_decl list \<Rightarrow> statement_kind \<Rightarrow> local set \<Rightarrow> local set" where
  "record_stmt_usage ds (Assign _ rv) used = record_rvalue_usage rv used"
| "record_stmt_usage ds (SetAttr ob _ v) used =
     record_operand_usage v (record_operand_usage ob used)"
| "record_stmt_usage ds (SetIndex ob ix v _) used =
     record_operand_usage v (record_operand_usage ix (record_operand_usage ob used))"
| "record_stmt_usage ds (VectorStore ob ix v) used =
     record_operand_usage v (record_operand_usage ix (record_operand_usage ob used))"
| "record_stmt_usage ds (PtrStore p v) used =
     record_operand_usage v (record_operand_usage p used)"
| "record_stmt_usage ds (Drop l) used =
     (case get_opt ds l of
        Some d \<Rightarrow> if needs_drop (decl_ty d) then insert l used else used
      | None \<Rightarrow> used)"
| "record_stmt_usage ds (GenCheck v g) used = insert g (insert v used)"
| "record_stmt_usage ds _ used = used"

definition record_block_usage :: "local_decl list \<Rightarrow> basic_block \<Rightarrow> local set \<Rightarrow> local set" where
  "record_block_usage ds bb used =
     (let used1 = fold (\<lambda>s. record_stmt_usage ds (kind s)) (statements bb) used
      in case terminator bb of
           Some t \<Rightarrow>
             (case term_kind t of SwitchInt discr _ _ \<Rightarrow> record_operand_usage discr used1
              | _ \<Rightarrow> used1)
         | None \<Rightarrow> used1)"

definition dce_used :: "mir_function \<Rightarrow> local set" where
  "dce_used f = fold (record_block_usage (locals f)) (basic_blocks f) {0}"

definition dce_keeps :: "local set \<Rightarrow> statement_kind \<Rightarrow> bool" where
  "dce_keeps used k =
     (case k of
        Assign dest rv \<Rightarrow> (case rv of Call _ _ \<Rightarrow> True | _ \<Rightarrow> dest \<in> used)
      | _ \<Rightarrow> True)"

definition dce_block :: "local set \<Rightarrow> basic_block \<Rightarrow> basic_block" where
  "dce_block used bb = bb\<lparr>statements := filter (\<lambda>s. dce_keeps used (kind s)) (statements bb)\<rparr>"

definition dce_run :: "mir_function \<Rightarrow> mir_function \<times> bool" where
  "dce_run f =
     (let used = dce_used f; bbs = map (dce_block used) (basic_blocks f)
      in (f\<lparr>basic_blocks := bbs\<rparr>,
          list_ex (\<lambda>(bb, bb'). length (statements bb') \<noteq> length (statements bb))
            (zip (basic_blocks f) bbs)))"

end
