(* ===== verification/Frame.thy ===== *)
theory Frame
  imports Exec
begin

text \<open>
  Running from two register files that agree on a set of locals: whatever reads only locals of the
  set gives the same values, heaps and faults, and leaves register files that agree on it again.
  The relations are the relators of the result types, one per kind of result.
\<close>

definition agree :: "local set \<Rightarrow> (local \<Rightarrow> i64) \<Rightarrow> (local \<Rightarrow> i64) \<Rightarrow> bool" where
  "agree U env env' \<longleftrightarrow> (\<forall>l\<in>U. env l = env' l)"

lemma agree_refl [simp]: "agree U env env"
  by (simp add: agree_def)

lemma agree_sym: "agree U env env' \<Longrightarrow> agree U env' env"
  by (simp add: agree_def)

lemma agree_trans: "agree U a b \<Longrightarrow> agree U b c \<Longrightarrow> agree U a c"
  by (simp add: agree_def)

lemma agree_same: "agree U env env' \<Longrightarrow> l \<in> U \<Longrightarrow> env' l = env l"
  by (simp add: agree_def)

lemma agree_upd: "agree U env env' \<Longrightarrow> agree U (env(l := v)) (env'(l := v))"
  by (simp add: agree_def)

lemma agree_upd_outside: "agree U env env' \<Longrightarrow> l \<notin> U \<Longrightarrow> agree U (env(l := v)) env'"
  by (auto simp: agree_def)

abbreviation result_rel :: "('a \<Rightarrow> 'b \<Rightarrow> bool) \<Rightarrow> fault + 'a \<Rightarrow> fault + 'b \<Rightarrow> bool" where
  "result_rel R \<equiv> rel_sum (=) R"

definition env_heap_rel ::
  "local set \<Rightarrow> (local \<Rightarrow> i64) \<times> 'h \<Rightarrow> (local \<Rightarrow> i64) \<times> 'h \<Rightarrow> bool" where
  "env_heap_rel U = rel_prod (agree U) (=)"

definition val_env_rel ::
  "local set \<Rightarrow> 'v \<times> (local \<Rightarrow> i64) \<Rightarrow> 'v \<times> (local \<Rightarrow> i64) \<Rightarrow> bool" where
  "val_env_rel U = rel_prod (=) (agree U)"

definition val_env_heap_rel ::
  "local set \<Rightarrow> 'v \<times> (local \<Rightarrow> i64) \<times> 'h \<Rightarrow> 'v \<times> (local \<Rightarrow> i64) \<times> 'h \<Rightarrow> bool" where
  "val_env_heap_rel U = rel_prod (=) (env_heap_rel U)"

lemmas frame_rels = env_heap_rel_def val_env_rel_def val_env_heap_rel_def

lemma env_heap_rel_pair: "env_heap_rel U (e, h) (e', h') \<longleftrightarrow> agree U e e' \<and> h = h'"
  by (simp add: frame_rels)

lemma result_rel_and_then:
  assumes "result_rel R a b" and "\<And>x y. a = Inr x \<Longrightarrow> b = Inr y \<Longrightarrow> R x y \<Longrightarrow> result_rel S (f x) (g y)"
  shows "result_rel S (and_then a f) (and_then b g)"
  using assms by (cases a; cases b) auto

lemma result_rel_same:
  assumes "\<And>x. a = Inr x \<Longrightarrow> result_rel S (f x) (g x)"
  shows "result_rel S (and_then a f) (and_then a g)"
  using assms by (cases a) auto

lemma result_rel_InrD: "result_rel R (Inr x) b \<Longrightarrow> \<exists>y. b = Inr y \<and> R x y"
  by (cases b) auto

subsection \<open>Operands\<close>

lemma translate_operand_frame:
  assumes "agree U env env'" "set (op_local p) \<subseteq> U"
  shows "result_rel (val_env_rel U) (translate_operand rt p env) (translate_operand rt p env')"
  using assms
  by (cases p) (auto simp: frame_rels agree_same agree_upd intro!: result_rel_same)

lemma read_operands_frame:
  "agree U env env' \<Longrightarrow> (\<Union>p\<in>set ps. set (op_local p)) \<subseteq> U \<Longrightarrow>
     result_rel (val_env_rel U) (read_operands rt ps env) (read_operands rt ps env')"
proof (induction ps arbitrary: env env')
  case Nil
  then show ?case by (simp add: frame_rels)
next
  case (Cons p ps)
  have "result_rel (val_env_rel U) (translate_operand rt p env) (translate_operand rt p env')"
    using Cons.prems by (intro translate_operand_frame) auto
  then show ?case
    using Cons
    by (auto simp: frame_rels intro!: result_rel_and_then [of "rel_prod (=) (agree U)"])
qed

lemma rvalue_operands_locals:
  "(\<Union>p\<in>set (rvalue_operands rv). set (op_local p)) \<subseteq> rv_locals rv"
  by (cases rv) auto

lemma eval_runtime_rvalue_frame:
  assumes "agree U env env'" "rv_locals rv \<subseteq> U"
  shows "result_rel (val_env_heap_rel U) (eval_runtime_rvalue rt rv env h) (eval_runtime_rvalue rt rv env' h)"
proof -
  have "result_rel (val_env_rel U) (read_operands rt (rvalue_operands rv) env)
      (read_operands rt (rvalue_operands rv) env')"
    using assms rvalue_operands_locals by (intro read_operands_frame) blast+
  then show ?thesis
    by (auto simp: eval_runtime_rvalue_def frame_rels
        intro!: result_rel_and_then [of "rel_prod (=) (agree U)"] result_rel_same)
qed

lemma translate_binop_frame:
  assumes "agree U env env'" "set (op_local l) \<union> set (op_local r) \<subseteq> U"
  shows "result_rel (val_env_heap_rel U) (translate_binop rt checked tys bop l r env h)
    (translate_binop rt checked tys bop l r env' h)"
  unfolding translate_binop_def
proof (rule result_rel_and_then)
  show "result_rel (val_env_rel U) (translate_operand rt l env) (translate_operand rt l env')"
    using assms by (intro translate_operand_frame) auto
next
  fix x y assume "val_env_rel U x (y :: i64 \<times> (local \<Rightarrow> i64))"
  then obtain v e e' where xy: "x = (v, e)" "y = (v, e')" "agree U e e'"
    by (cases x; cases y) (auto simp: frame_rels)
  have "result_rel (val_env_rel U) (translate_operand rt r e) (translate_operand rt r e')"
    using assms xy by (intro translate_operand_frame) auto
  then show "result_rel (val_env_heap_rel U)
      (case x of (lv, e) \<Rightarrow> and_then (translate_operand rt r e) (\<lambda>(rv, e).
         and_then (dispatch_binop rt checked tys bop l r lv rv h) (\<lambda>(v, h). Inr (v, e, h))))
      (case y of (lv, e) \<Rightarrow> and_then (translate_operand rt r e) (\<lambda>(rv, e).
         and_then (dispatch_binop rt checked tys bop l r lv rv h) (\<lambda>(v, h). Inr (v, e, h))))"
    unfolding xy
    by (auto simp: frame_rels intro!: result_rel_and_then [of "rel_prod (=) (agree U)"] result_rel_same)
qed

lemma translate_unaryop_frame:
  assumes "agree U env env'" "set (op_local p) \<subseteq> U"
  shows "result_rel (val_env_heap_rel U) (translate_unaryop rt tys uop p env h)
    (translate_unaryop rt tys uop p env' h)"
  using translate_operand_frame [OF assms, of rt]
  by (auto simp: translate_unaryop_def frame_rels
      intro!: result_rel_and_then [of "rel_prod (=) (agree U)"] result_rel_same)

lemma eval_rvalue_frame:
  assumes "agree U env env'" "rv_locals rv \<subseteq> U"
  shows "result_rel (val_env_heap_rel U) (eval_rvalue rt checked tys rv env h)
    (eval_rvalue rt checked tys rv env' h)"
proof (cases rv)
  case (Use p)
  with assms translate_operand_frame [of U env env' p rt] show ?thesis
    by (auto simp: eval_rvalue_def frame_rels
        intro!: result_rel_and_then [of "rel_prod (=) (agree U)"])
next
  case (BinaryOp bop l r)
  with assms show ?thesis by (simp add: eval_rvalue_def translate_binop_frame)
next
  case (UnaryOp uop p)
  with assms show ?thesis by (simp add: eval_rvalue_def translate_unaryop_frame)
next
  case (Ref l)
  with assms show ?thesis by (simp add: eval_rvalue_def frame_rels agree_same)
next
  case (MutRef l)
  with assms show ?thesis by (simp add: eval_rvalue_def frame_rels agree_same)
qed (use assms eval_runtime_rvalue_frame [of U env env' rv rt h] in \<open>simp_all add: eval_rvalue_def\<close>)

subsection \<open>Statements, terminators, runs\<close>

text \<open>What a statement reads at run time: a \<open>Drop\<close> of a type without drop glue does nothing.\<close>

fun stmt_reads :: "ty list \<Rightarrow> statement_kind \<Rightarrow> local set" where
  "stmt_reads tys (Drop l) = (if needs_drop (tys ! l) then {l} else {})"
| "stmt_reads tys k = stmt_locals k"

lemma store_via_runtime_frame:
  assumes "agree U env env'" "(\<Union>p\<in>set ps. set (op_local p)) \<subseteq> U"
  shows "result_rel (env_heap_rel U) (store_via_runtime rt k ps env h) (store_via_runtime rt k ps env' h)"
  using read_operands_frame [OF assms, of rt]
  by (auto simp: store_via_runtime_def frame_rels
      intro!: result_rel_and_then [of "rel_prod (=) (agree U)"] result_rel_same)

lemma exec_assign_frame:
  assumes "agree U env env'" "rv_locals rv \<subseteq> U"
  shows "result_rel (env_heap_rel U) (exec_stmt rt checked tys (Assign d rv) env h)
    (exec_stmt rt checked tys (Assign d rv) env' h)"
  using eval_rvalue_frame [OF assms, of rt checked tys h]
  by (auto simp: frame_rels agree_upd
      intro!: result_rel_and_then [of "rel_prod (=) (rel_prod (agree U) (=))"])

lemma exec_stmt_frame:
  assumes "agree U env env'" "stmt_reads tys k \<subseteq> U"
  shows "result_rel (env_heap_rel U) (exec_stmt rt checked tys k env h) (exec_stmt rt checked tys k env' h)"
proof (cases k)
  case (Assign d rv)
  with assms show ?thesis by (simp add: exec_assign_frame del: exec_stmt.simps)
next
  case (Drop l)
  with assms show ?thesis
    by (auto simp: frame_rels agree_same agree_upd intro!: result_rel_same)
next
  case (GenCheck v g)
  with assms show ?thesis by (auto simp: frame_rels agree_same intro!: result_rel_same)
qed (use assms in \<open>auto simp: env_heap_rel_pair intro!: store_via_runtime_frame\<close>)

lemma switch_frame:
  assumes "agree U env env'" "set (op_local p) \<subseteq> U" "0 \<in> U"
  shows "result_rel (val_env_heap_rel U) (translate_terminator rt tys asy (SwitchInt p ts d) env h)
    (translate_terminator rt tys asy (SwitchInt p ts d) env' h)"
  using translate_operand_frame [OF assms(1,2), of rt]
  by (auto simp: translate_terminator_def frame_rels Let_def split: prod.splits
      intro!: result_rel_and_then [of "rel_prod (=) (agree U)"] result_rel_same)

lemma terminator_frame:
  assumes "agree U env env'" "0 \<in> U" "\<And>p ts d. tk = SwitchInt p ts d \<Longrightarrow> set (op_local p) \<subseteq> U"
  shows "result_rel (val_env_heap_rel U) (translate_terminator rt tys asy tk env h)
    (translate_terminator rt tys asy tk env' h)"
proof (cases tk)
  case (SwitchInt p ts d)
  with assms switch_frame [of U env env' p rt tys asy ts d h] show ?thesis by simp
qed (use assms in \<open>auto simp: translate_terminator_def frame_rels agree_same intro!: result_rel_same\<close>)

text \<open>
  Two lists of blocks whose successful steps correspond, from agreeing registers, return the same.
\<close>

definition block_simulates ::
  "local set \<Rightarrow> 'h runtime \<Rightarrow> bool \<Rightarrow> ty list \<Rightarrow> bool \<Rightarrow> basic_block \<Rightarrow> basic_block \<Rightarrow> bool" where
  "block_simulates U rt checked tys asy a b \<longleftrightarrow>
     (\<forall>env env' h s e h'. agree U env env' \<longrightarrow> exec_block rt checked tys asy a env h = Inr (s, e, h') \<longrightarrow>
        (\<exists>e'. exec_block rt checked tys asy b env' h = Inr (s, e', h') \<and> agree U e e'))"

lemma run_blocks_simulates:
  assumes "list_all2 (block_simulates U rt checked tys asy) bbs bbs'"
  shows "agree U env env' \<Longrightarrow> run_blocks rt checked tys asy bbs n b env h = Some (Inr x) \<Longrightarrow>
    run_blocks rt checked tys asy bbs' n b env' h = Some (Inr x)"
proof (induction n arbitrary: b env env' h)
  case (Suc n)
  from Suc.prems(2) have b: "b < length bbs" by (auto split: if_splits)
  with Suc.prems(2) obtain s e h' where s: "exec_block rt checked tys asy (bbs ! b) env h = Inr (s, e, h')"
    by (auto split: sum.splits)
  then obtain e' where e': "exec_block rt checked tys asy (bbs' ! b) env' h = Inr (s, e', h')" "agree U e e'"
    using assms b Suc.prems(1) unfolding list_all2_conv_all_nth block_simulates_def by metis
  moreover have "b < length bbs'" using assms b by (simp add: list_all2_lengthD)
  ultimately show ?case
    using Suc.prems(2) s b Suc.IH [OF e'(2)] by (cases s) auto
qed simp

end
