(* ===== verification/DceProps.thy ===== *)
theory DceProps
  imports Dce Frame Samples
begin

text \<open>
  Dead-code elimination keeps results. The locals that the pass collects are those that any kept
  statement and any terminator read, so both runs agree on them; a dropped assignment only has to
  write outside the set. What it may lose is a fault of the dropped right-hand side.
\<close>

subsection \<open>What the pass collects\<close>

lemma record_operand_usage_eq: "record_operand_usage p used = set (op_local p) \<union> used"
  by (cases p) auto

lemma fold_record_operand_usage_eq:
  "fold record_operand_usage ps used = (\<Union>p\<in>set ps. set (op_local p)) \<union> used"
  by (induction ps arbitrary: used) (auto simp: record_operand_usage_eq)

lemma record_rvalue_usage_eq: "record_rvalue_usage rv used = rv_locals rv \<union> used"
  by (cases rv) (auto simp: record_operand_usage_eq fold_record_operand_usage_eq)

definition collected :: "local_decl list \<Rightarrow> statement_kind \<Rightarrow> local set" where
  "collected ds k = record_stmt_usage ds k {}"

lemma record_stmt_usage_eq: "record_stmt_usage ds k used = collected ds k \<union> used"
  by (cases k) (auto simp: collected_def record_operand_usage_eq record_rvalue_usage_eq split: option.splits)

lemma fold_record_stmt_usage_eq:
  "fold (\<lambda>s. record_stmt_usage ds (kind s)) ss used = (\<Union>s\<in>set ss. collected ds (kind s)) \<union> used"
  by (induction ss arbitrary: used) (auto simp: record_stmt_usage_eq)

definition switch_locals :: "terminator option \<Rightarrow> local set" where
  "switch_locals t =
     (case t of
        Some t \<Rightarrow> (case term_kind t of SwitchInt p _ _ \<Rightarrow> set (op_local p) | _ \<Rightarrow> {})
      | None \<Rightarrow> {})"

lemma record_block_usage_eq:
  "record_block_usage ds bb used =
     (\<Union>s\<in>set (statements bb). collected ds (kind s)) \<union> switch_locals (terminator bb) \<union> used"
  by (auto simp: record_block_usage_def Let_def fold_record_stmt_usage_eq switch_locals_def
      record_operand_usage_eq split: option.splits terminator_kind.splits)

lemma fold_record_block_usage_eq:
  "fold (record_block_usage ds) bbs used =
     (\<Union>bb\<in>set bbs. (\<Union>s\<in>set (statements bb). collected ds (kind s)) \<union> switch_locals (terminator bb)) \<union> used"
  by (induction bbs arbitrary: used) (auto simp: record_block_usage_eq)

lemma dce_used_eq:
  "dce_used f =
     (\<Union>bb\<in>set (basic_blocks f).
        (\<Union>s\<in>set (statements bb). collected (locals f) (kind s)) \<union> switch_locals (terminator bb)) \<union> {0}"
  by (simp add: dce_used_def fold_record_block_usage_eq)

lemma collected_reads:
  assumes "\<forall>l\<in>stmt_locals k. l < length (locals f)"
  shows "stmt_reads (fn_tys f) k \<subseteq> collected (locals f) k"
  using assms
  by (cases k) (auto simp: collected_def record_operand_usage_eq record_rvalue_usage_eq get_opt_def
      fn_tys_def split: if_splits)

lemma dce_used_reads:
  assumes "wf_locals f" "bb \<in> set (basic_blocks f)" "s \<in> set (statements bb)"
  shows "stmt_reads (fn_tys f) (kind s) \<subseteq> dce_used f"
proof -
  have "\<forall>l\<in>stmt_locals (kind s). l < length (locals f)" using assms by (auto simp: wf_locals_def)
  then have "stmt_reads (fn_tys f) (kind s) \<subseteq> collected (locals f) (kind s)" by (rule collected_reads)
  also have "\<dots> \<subseteq> dce_used f" using assms by (auto simp: dce_used_eq)
  finally show ?thesis .
qed

lemma dce_used_switch: "bb \<in> set (basic_blocks f) \<Longrightarrow> switch_locals (terminator bb) \<subseteq> dce_used f"
  by (auto simp: dce_used_eq)

lemma dce_used_result: "0 \<in> dce_used f"
  by (simp add: dce_used_eq)

subsection \<open>Dropping an assignment\<close>

text \<open>
  A right-hand side is quiet when it leaves the heap and the registers it reads alone: it moves
  nothing out of a local and calls nothing that allocates.
\<close>

definition quiet :: "'h runtime \<Rightarrow> bool \<Rightarrow> ty list \<Rightarrow> rvalue \<Rightarrow> bool" where
  "quiet rt checked tys rv \<longleftrightarrow>
     (\<forall>env h v env' h'. eval_rvalue rt checked tys rv env h = Inr (v, env', h') \<longrightarrow> env' = env \<and> h' = h)"

definition drops_quiet :: "'h runtime \<Rightarrow> bool \<Rightarrow> mir_function \<Rightarrow> bool" where
  "drops_quiet rt checked f \<longleftrightarrow>
     (\<forall>bb\<in>set (basic_blocks f). \<forall>s\<in>set (statements bb).
        case kind s of
          Assign d rv \<Rightarrow> dce_keeps (dce_used f) (kind s) \<or> quiet rt checked (fn_tys f) rv
        | _ \<Rightarrow> True)"

lemma dce_stmts_simulate:
  assumes reads: "\<forall>s\<in>set ss. stmt_reads tys (kind s) \<subseteq> U"
    and q: "\<forall>s\<in>set ss. \<forall>d rv. kind s = Assign d rv \<longrightarrow> dce_keeps U (kind s) \<or> quiet rt checked tys rv"
  shows "agree U env env' \<Longrightarrow> exec_stmts rt checked tys ss env h = Inr (e, h') \<Longrightarrow>
    \<exists>e'. exec_stmts rt checked tys (filter (\<lambda>s. dce_keeps U (kind s)) ss) env' h = Inr (e', h') \<and> agree U e e'"
  using reads q
proof (induction ss arbitrary: env env' h)
  case (Cons s ss)
  obtain e1 h1 where first: "exec_stmt rt checked tys (kind s) env h = Inr (e1, h1)"
    and rest: "exec_stmts rt checked tys ss e1 h1 = Inr (e, h')"
    using Cons.prems(2) by (auto simp: and_then_Inr_iff)
  show ?case
  proof (cases "dce_keeps U (kind s)")
    case True
    have "result_rel (env_heap_rel U) (exec_stmt rt checked tys (kind s) env h)
        (exec_stmt rt checked tys (kind s) env' h)"
      using Cons.prems by (intro exec_stmt_frame) auto
    then obtain e1' where "exec_stmt rt checked tys (kind s) env' h = Inr (e1', h1)" "agree U e1 e1'"
      unfolding first by (auto dest!: result_rel_InrD simp: env_heap_rel_pair)
    with True rest Cons.IH [of e1 e1' h1] Cons.prems show ?thesis by auto
  next
    case False
    then obtain d rv where k: "kind s = Assign d rv" and d: "d \<notin> U"
      by (auto simp: dce_keeps_def split: statement_kind.splits rvalue.splits)
    then have "quiet rt checked tys rv" using False Cons.prems(4) by auto
    moreover obtain v e2 where "eval_rvalue rt checked tys rv env h = Inr (v, e2, h1)" "e1 = e2(d := v)"
      using first k by (auto simp: and_then_Inr_iff)
    ultimately have "h1 = h" "\<exists>v. e1 = env(d := v)" unfolding quiet_def by blast+
    with Cons.prems(1) d have "agree U e1 env'" by (auto intro: agree_upd_outside)
    with False rest \<open>h1 = h\<close> Cons.IH [of e1 env' h1] Cons.prems show ?thesis by auto
  qed
qed simp

lemma dce_block_simulates:
  assumes "wf_locals f" "drops_quiet rt checked f" "bb \<in> set (basic_blocks f)"
  shows "block_simulates (dce_used f) rt checked (fn_tys f) asy bb (dce_block (dce_used f) bb)"
  unfolding block_simulates_def
proof (intro allI impI)
  fix env env' h s e h'
  assume ag: "agree (dce_used f) env env'" and ex: "exec_block rt checked (fn_tys f) asy bb env h = Inr (s, e, h')"
  define finish where "finish e h = (case terminator bb of
      None \<Rightarrow> Inr (Finish 0, e, h)
    | Some t \<Rightarrow> translate_terminator rt (fn_tys f) asy (term_kind t) e h)" for e and h
  obtain e1 h1 where st: "exec_stmts rt checked (fn_tys f) (statements bb) env h = Inr (e1, h1)"
    and tr: "finish e1 h1 = Inr (s, e, h')"
    using ex by (auto simp: exec_block_def finish_def and_then_Inr_iff)
  have "\<forall>s\<in>set (statements bb). stmt_reads (fn_tys f) (kind s) \<subseteq> dce_used f"
    using dce_used_reads assms by blast
  moreover have "\<forall>s\<in>set (statements bb). \<forall>d rv. kind s = Assign d rv \<longrightarrow>
      dce_keeps (dce_used f) (kind s) \<or> quiet rt checked (fn_tys f) rv"
    using assms(2,3) by (fastforce simp: drops_quiet_def)
  ultimately obtain e1' where e1': "exec_stmts rt checked (fn_tys f)
      (filter (\<lambda>s. dce_keeps (dce_used f) (kind s)) (statements bb)) env' h = Inr (e1', h1)" "agree (dce_used f) e1 e1'"
    using dce_stmts_simulate [OF _ _ ag st] by blast
  have "result_rel (val_env_heap_rel (dce_used f)) (finish e1 h1) (finish e1' h1)"
  proof (cases "terminator bb")
    case None
    with e1'(2) show ?thesis by (simp add: finish_def frame_rels)
  next
    case (Some t)
    then show ?thesis
      unfolding finish_def
      using dce_used_switch [OF assms(3)]
      by (auto simp: switch_locals_def intro!: terminator_frame e1' dce_used_result)
  qed
  then obtain e' where "finish e1' h1 = Inr (s, e', h')" "agree (dce_used f) e e'"
    unfolding tr by (auto dest!: result_rel_InrD simp: frame_rels)
  then show "\<exists>e'. exec_block rt checked (fn_tys f) asy (dce_block (dce_used f) bb) env' h = Inr (s, e', h') \<and>
      agree (dce_used f) e e'"
    using e1'(1) by (auto simp: exec_block_def dce_block_def finish_def)
qed

text \<open>
  C15. Dead-code elimination keeps results: when the right-hand sides it drops neither move a local
  nor touch the heap, a function that returns a value returns the same value and heap afterwards.
\<close>

theorem dce_keeps_results:
  assumes "wf_locals f" and "drops_quiet rt checked f"
    and "fn_returns rt checked f env h (Inr x)"
  shows "fn_returns rt checked (fst (dce_run f)) env h (Inr x)"
proof -
  let ?f' = "fst (dce_run f)"
  have f': "basic_blocks ?f' = map (dce_block (dce_used f)) (basic_blocks f)" "fn_tys ?f' = fn_tys f"
    "is_async ?f' = is_async f"
    by (simp_all add: dce_run_def Let_def fn_tys_def)
  have sim: "list_all2 (block_simulates (dce_used f) rt checked (fn_tys f) (is_async f))
      (basic_blocks f) (basic_blocks ?f')"
    using dce_block_simulates [OF assms(1,2)] by (simp add: f' list_all2_conv_all_nth)
  from assms(3) obtain n where "run_fn rt checked f n env h = Some (Inr x)"
    by (auto simp: fn_returns_def)
  then have "run_fn rt checked ?f' n env h = Some (Inr x)"
    using run_blocks_simulates [OF sim agree_refl] by (simp add: run_fn_def f')
  then show ?thesis by (rule fn_returnsI)
qed

text \<open>Local 2 is computed and never read; a dropped division may hide its fault.\<close>

definition dead_sum_fn :: mir_function where
  "dead_sum_fn =
     func [TInt, TInt, TInt] 1
       [block [Assign 2 (BinaryOp AddOp (Copy 1) (Constant (CInt 1))),
               Assign 0 (Use (Copy 1))] Return]"

lemma quiet_add: "is_any_op tys l = False \<Longrightarrow> is_any_op tys r = False \<Longrightarrow>
    is_pyobj_op tys l = False \<Longrightarrow> is_pyobj_op tys r = False \<Longrightarrow> is_str_op tys l = False \<Longrightarrow>
    is_list_op tys l = False \<Longrightarrow> (\<forall>x. l \<noteq> Move x) \<Longrightarrow> (\<forall>x. r \<noteq> Move x) \<Longrightarrow>
    quiet rt checked tys (BinaryOp AddOp l r)"
  by (cases l; cases r)
    (auto simp: quiet_def eval_rvalue_def translate_binop_def dispatch_binop_def translate_add_def
      and_then_Inr_iff Let_def split: if_splits)

theorem dce_keeps_results_witness:
  "dce_run dead_sum_fn = (func [TInt, TInt, TInt] 1 [block [Assign 0 (Use (Copy 1))] Return], True) \<and>
   fn_returns bare_rt True (fst (dce_run dead_sum_fn)) (env_of [0, 4]) () (Inr (4, ()))"
proof
  show "dce_run dead_sum_fn = (func [TInt, TInt, TInt] 1 [block [Assign 0 (Use (Copy 1))] Return], True)"
    by code_simp
  show "fn_returns bare_rt True (fst (dce_run dead_sum_fn)) (env_of [0, 4]) () (Inr (4, ()))"
  proof (rule dce_keeps_results)
    show "wf_locals dead_sum_fn" by (auto simp: wf_locals_def dead_sum_fn_def block_def st_def)
    show "drops_quiet bare_rt True dead_sum_fn"
      by (auto simp: drops_quiet_def dead_sum_fn_def block_def st_def is_any_op_def is_pyobj_op_def
          is_str_op_def is_list_op_def dce_keeps_def dce_used_result intro!: quiet_add)
    show "fn_returns bare_rt True dead_sum_fn (env_of [0, 4]) () (Inr (4, ()))"
      by (rule fn_returnsI [of _ _ _ 1]) code_simp
  qed
qed

text \<open>The pass keeps faults only where it keeps the statement that raises them.\<close>

lemma dce_loses_fault:
  defines "f \<equiv> func [TInt, TInt, TInt] 1
      [block [Assign 2 (BinaryOp DivOp (Constant (CInt 1)) (Copy 1)), Assign 0 (Use (Copy 1))] Return]"
  shows "run_fn bare_rt True f 1 (env_of [0, 0]) () = Some (Inl (DivZeroFail False))"
    and "run_fn bare_rt True (fst (dce_run f)) 1 (env_of [0, 0]) () = Some (Inr (0, ()))"
  unfolding f_def by code_simp+

end
