(* ===== verification/LoopUtils.thy ===== *)
theory LoopUtils
  imports Mir
begin

text \<open>
  Loops and dominators (\<open>src/mir/loop_utils.rs\<close>): the graph, the depth-first numbering with its
  explicit stack, the Cooper-Harvey-Kennedy iteration, the dominance sets and the natural loops.
  A loop of the source whose end is not evident is \<open>while_option\<close>, so \<open>None\<close> is a loop that
  does not end. All indices come from the graph itself: predecessors are block numbers, and
  successors are compared with \<open>num_blocks\<close> before they are used.
\<close>

record loop =
  lp_header :: bb_id
  lp_body :: "bb_id set"
  lp_latches :: "bb_id list"
  lp_exits :: "bb_id list"

record cfg =
  succs :: "bb_id list list"
  preds :: "bb_id list list"

definition block_succs :: "basic_block \<Rightarrow> bb_id list" where
  "block_succs bb =
     (let out = (case terminator bb of
                   Some t \<Rightarrow>
                     (case term_kind t of
                        Goto target \<Rightarrow> [target]
                      | SwitchInt _ targets otherwise \<Rightarrow> map snd targets @ [otherwise]
                      | _ \<Rightarrow> [])
                 | None \<Rightarrow> [])
      in remdups_adj (sort out))"

definition add_pred :: "nat \<Rightarrow> bb_id \<Rightarrow> bb_id list list \<Rightarrow> bb_id \<Rightarrow> bb_id list list" where
  "add_pred n i ps s = (if s < n then ps[s := ps ! s @ [i]] else ps)"

definition build_cfg :: "mir_function \<Rightarrow> cfg" where
  "build_cfg f =
     (let n = length (basic_blocks f); ss = map block_succs (basic_blocks f)
      in \<lparr>succs = ss,
          preds = foldl (\<lambda>ps i. foldl (add_pred n i) ps (ss ! i)) (replicate n []) [0..<n]\<rparr>)"

subsection \<open>Reverse postorder\<close>

record dfs =
  visited :: "bool list"
  stack :: "(nat \<times> nat) list"
  postorder :: "nat list"

text \<open>The head of \<open>stack\<close> is \<open>stack.last_mut()\<close>; a child that is out of range or visited is skipped.\<close>

definition dfs_step :: "cfg \<Rightarrow> nat \<Rightarrow> dfs \<Rightarrow> dfs" where
  "dfs_step g n st =
     (case stack st of
        [] \<Rightarrow> st
      | (node, child) # rest \<Rightarrow>
          (case get_opt (succs g ! node) child of
             Some s \<Rightarrow>
               if s < n \<and> \<not> visited st ! s
               then st\<lparr>visited := (visited st)[s := True],
                       stack := (s, 0) # (node, Suc child) # rest\<rparr>
               else st\<lparr>stack := (node, Suc child) # rest\<rparr>
           | None \<Rightarrow> st\<lparr>postorder := postorder st @ [node], stack := rest\<rparr>))"

definition dfs_start :: "nat \<Rightarrow> dfs" where
  "dfs_start n = \<lparr>visited = (replicate n False)[0 := True], stack = [(0, 0)], postorder = []\<rparr>"

definition reverse_postorder :: "cfg \<Rightarrow> nat \<Rightarrow> nat list option" where
  "reverse_postorder g n =
     map_option (\<lambda>st. rev (postorder st))
       (while_option (\<lambda>st. stack st \<noteq> []) (dfs_step g n) (dfs_start n))"

text \<open>\<open>usize::MAX\<close> marks a block that the search did not reach.\<close>

definition usize_max :: nat where
  "usize_max = 2 ^ 64 - 1"

definition rpo_index_of :: "nat \<Rightarrow> nat list \<Rightarrow> nat list" where
  "rpo_index_of n rpo =
     foldl (\<lambda>ix (i, b). ix[b := i]) (replicate n usize_max) (zip [0..<length rpo] rpo)"

subsection \<open>Immediate dominators\<close>

type_synonym idoms = "nat option list"

definition up :: "idoms \<Rightarrow> nat \<Rightarrow> nat" where
  "up idom a = (case idom ! a of Some d \<Rightarrow> d | None \<Rightarrow> 0)"

definition climb :: "idoms \<Rightarrow> nat list \<Rightarrow> nat \<Rightarrow> nat \<Rightarrow> nat option" where
  "climb idom ix a b = while_option (\<lambda>a. ix ! a > ix ! b) (up idom) a"

definition intersect :: "nat \<Rightarrow> nat \<Rightarrow> idoms \<Rightarrow> nat list \<Rightarrow> nat option" where
  "intersect a b idom ix =
     do { r \<leftarrow> while_option (\<lambda>st. case st of Some (a, b) \<Rightarrow> a \<noteq> b | None \<Rightarrow> False)
            (\<lambda>st. do { (a, b) \<leftarrow> st; a' \<leftarrow> climb idom ix a b; b' \<leftarrow> climb idom ix b a'; Some (a', b') })
            (Some (a, b));
          map_option fst r }"

fun meet_preds :: "nat list \<Rightarrow> nat \<Rightarrow> nat \<Rightarrow> idoms \<Rightarrow> nat list \<Rightarrow> nat option" where
  "meet_preds [] first cur idom ix = Some cur"
| "meet_preds (p # ps) first cur idom ix =
     (if idom ! p \<noteq> None \<and> p \<noteq> first
      then do { cur' \<leftarrow> intersect cur p idom ix; meet_preds ps first cur' idom ix }
      else meet_preds ps first cur idom ix)"

fun idom_pass :: "cfg \<Rightarrow> nat list \<Rightarrow> nat list \<Rightarrow> idoms \<Rightarrow> bool \<Rightarrow> (idoms \<times> bool) option" where
  "idom_pass g ix [] idom changed = Some (idom, changed)"
| "idom_pass g ix (b # bs) idom changed =
     (case find (\<lambda>p. idom ! p \<noteq> None) (preds g ! b) of
        None \<Rightarrow> idom_pass g ix bs idom changed
      | Some first \<Rightarrow>
          do { new \<leftarrow> meet_preds (preds g ! b) first first idom ix;
               if idom ! b \<noteq> Some new
               then idom_pass g ix bs (idom[b := Some new]) True
               else idom_pass g ix bs idom changed })"

definition compute_idoms :: "cfg \<Rightarrow> nat \<Rightarrow> nat list \<Rightarrow> idoms option" where
  "compute_idoms g n rpo =
     do { r \<leftarrow> while_option (\<lambda>st. case st of Some (_, changed) \<Rightarrow> changed | None \<Rightarrow> False)
            (\<lambda>st. do { (idom, _) \<leftarrow> st; idom_pass g (rpo_index_of n rpo) (tl rpo) idom False })
            (Some ((replicate n None)[0 := Some 0], True));
          map_option fst r }"

definition dom_chain :: "idoms \<Rightarrow> nat \<Rightarrow> bb_id set option" where
  "dom_chain idom b =
     map_option fst
       (while_option (\<lambda>(_, cur). cur \<noteq> None)
          (\<lambda>(s, cur). case cur of
             None \<Rightarrow> (s, None)
           | Some c \<Rightarrow> (insert c s, (case idom ! c of
                                     Some d \<Rightarrow> if d \<noteq> c then Some d else None
                                   | None \<Rightarrow> None)))
          ({}, Some b))"

fun seq_options :: "'a option list \<Rightarrow> 'a list option" where
  "seq_options [] = Some []"
| "seq_options (x # xs) = do { y \<leftarrow> x; ys \<leftarrow> seq_options xs; Some (y # ys) }"

definition dominance_sets :: "cfg \<Rightarrow> nat \<Rightarrow> bb_id set list option" where
  "dominance_sets g n =
     do { rpo \<leftarrow> reverse_postorder g n;
          idom \<leftarrow> compute_idoms g n rpo;
          seq_options (map (dom_chain idom) [0..<n]) }"

definition dominators :: "mir_function \<Rightarrow> bb_id set list option" where
  "dominators f =
     (if basic_blocks f = [] then Some []
      else dominance_sets (build_cfg f) (length (basic_blocks f)))"

subsection \<open>Natural loops\<close>

fun push_preds :: "bb_id \<Rightarrow> bb_id list \<Rightarrow> bb_id set \<times> bb_id list \<Rightarrow> bb_id set \<times> bb_id list" where
  "push_preds d [] (body, stk) = (body, stk)"
| "push_preds d (p # ps) (body, stk) =
     (if p \<noteq> d \<and> p \<notin> body then push_preds d ps (insert p body, p # stk)
      else push_preds d ps (body, stk))"

definition loop_body :: "cfg \<Rightarrow> bb_id \<Rightarrow> bb_id \<Rightarrow> bb_id set option" where
  "loop_body g d n =
     map_option fst
       (while_option (\<lambda>(_, stk). stk \<noteq> [])
          (\<lambda>(body, stk). push_preds d (preds g ! hd stk) (body, tl stk))
          ({d, n}, [n]))"

text \<open>
  \<open>exits\<close> is filled in the iteration order of a hash set, which is unspecified; the model walks
  the block numbers upwards.
\<close>

definition loop_exits :: "cfg \<Rightarrow> nat \<Rightarrow> bb_id set \<Rightarrow> bb_id list" where
  "loop_exits g n body =
     concat (map (\<lambda>b. if b \<in> body then filter (\<lambda>s. s \<notin> body) (succs g ! b) else []) [0..<n])"

definition find_loops :: "mir_function \<Rightarrow> loop list option" where
  "find_loops f =
     (let n = length (basic_blocks f)
      in if n = 0 then Some []
         else
           (let g = build_cfg f
            in do { doms \<leftarrow> dominance_sets g n;
                    seq_options
                      (concat (map (\<lambda>b. map (\<lambda>d.
                           map_option (\<lambda>body. \<lparr>lp_header = d, lp_body = body, lp_latches = [b],
                                              lp_exits = loop_exits g n body\<rparr>)
                             (loop_body g d b))
                         (filter (\<lambda>d. d < n \<and> d \<in> doms ! b) (succs g ! b))) [0..<n])) }))"

definition loop_blocks :: "loop list \<Rightarrow> bb_id set" where
  "loop_blocks ls = (\<Union>lp\<in>set ls. insert (lp_header lp) (lp_body lp))"

end
