(* ===== verification/Propagate.thy ===== *)
theory Propagate
  imports Exec LoopUtils
begin

text \<open>
  Copy propagation (\<open>src/mir/optimizations/copy_prop.rs\<close>) and constant propagation
  (\<open>const_prop.rs\<close>): both substitute operands by a map of locals. The two
  \<open>propagate_*_in_rvalue\<close> methods of the source have the same arms; \<open>prop_rvalue\<close> is their
  common shape, with the substitution of one operand as its argument.
\<close>

fun prop_ops :: "(operand \<Rightarrow> operand \<times> bool) \<Rightarrow> operand list \<Rightarrow> operand list \<times> bool" where
  "prop_ops g [] = ([], False)"
| "prop_ops g (p # ps) =
     (let (p', c) = g p; (ps', d) = prop_ops g ps in (p' # ps', c \<or> d))"

fun prop_rvalue :: "(operand \<Rightarrow> operand \<times> bool) \<Rightarrow> rvalue \<Rightarrow> rvalue \<times> bool" where
  "prop_rvalue g (Use p) = (let (p', c) = g p in (Use p', c))"
| "prop_rvalue g (UnaryOp u p) = (let (p', c) = g p in (UnaryOp u p', c))"
| "prop_rvalue g (GetAttr p a) = (let (p', c) = g p in (GetAttr p' a, c))"
| "prop_rvalue g (BinaryOp b l r) =
     (let (l', c) = g l; (r', d) = g r in (BinaryOp b l' r', c \<or> d))"
| "prop_rvalue g (GetIndex l r u) =
     (let (l', c) = g l; (r', d) = g r in (GetIndex l' r' u, c \<or> d))"
| "prop_rvalue g (Call f args) =
     (let (f', c) = g f; (args', d) = prop_ops g args in (Call f' args', c \<or> d))"
| "prop_rvalue g (Aggregate k ops) = (let (ops', c) = prop_ops g ops in (Aggregate k ops', c))"
| "prop_rvalue g (PtrLoad p) = (let (p', c) = g p in (PtrLoad p', c))"
| "prop_rvalue g (VectorSplat p n) = (let (p', c) = g p in (VectorSplat p' n, c))"
| "prop_rvalue g (VectorReduce b p n) = (let (p', c) = g p in (VectorReduce b p' n, c))"
| "prop_rvalue g (VectorLoad l r n) =
     (let (l', c) = g l; (r', d) = g r in (VectorLoad l' r' n, c \<or> d))"
| "prop_rvalue g (VectorFMA x y z) =
     (let (x', c) = g x; (y', d) = g y; (z', e) = g z in (VectorFMA x' y' z', c \<or> d \<or> e))"
| "prop_rvalue g rv = (rv, False)"

text \<open>Statements and terminators: the arms both passes have. \<open>PtrStore\<close> is not among them.\<close>

fun prop_stmt :: "(operand \<Rightarrow> operand \<times> bool) \<Rightarrow> statement_kind \<Rightarrow> statement_kind \<times> bool" where
  "prop_stmt g (Assign d rv) = (let (rv', c) = prop_rvalue g rv in (Assign d rv', c))"
| "prop_stmt g (SetIndex ob ix v u) =
     (let (ob', c) = g ob; (ix', d) = g ix; (v', e) = g v in (SetIndex ob' ix' v' u, c \<or> d \<or> e))"
| "prop_stmt g (SetAttr ob a v) =
     (let (ob', c) = g ob; (v', d) = g v in (SetAttr ob' a v', c \<or> d))"
| "prop_stmt g (VectorStore ob ix v) =
     (let (ob', c) = g ob; (ix', d) = g ix; (v', e) = g v in (VectorStore ob' ix' v', c \<or> d \<or> e))"
| "prop_stmt g k = (k, False)"

fun prop_term :: "(operand \<Rightarrow> operand \<times> bool) \<Rightarrow> terminator_kind \<Rightarrow> terminator_kind \<times> bool" where
  "prop_term g (SwitchInt d ts e) = (let (d', c) = g d in (SwitchInt d' ts e, c))"
| "prop_term g tk = (tk, False)"

definition prop_block :: "(operand \<Rightarrow> operand \<times> bool) \<Rightarrow> basic_block \<Rightarrow> basic_block \<times> bool" where
  "prop_block g bb =
     (let ss = map (\<lambda>s. s\<lparr>kind := fst (prop_stmt g (kind s))\<rparr>) (statements bb);
          c = list_ex (\<lambda>s. snd (prop_stmt g (kind s))) (statements bb)
      in case terminator bb of
           None \<Rightarrow> (bb\<lparr>statements := ss\<rparr>, c)
         | Some t \<Rightarrow>
             (let (tk, d) = prop_term g (term_kind t)
              in (bb\<lparr>statements := ss, terminator := Some (t\<lparr>term_kind := tk\<rparr>)\<rparr>, c \<or> d)))"

definition prop_fn :: "(operand \<Rightarrow> operand \<times> bool) \<Rightarrow> mir_function \<Rightarrow> mir_function \<times> bool" where
  "prop_fn g f =
     (f\<lparr>basic_blocks := map (fst \<circ> prop_block g) (basic_blocks f)\<rparr>,
      list_ex (snd \<circ> prop_block g) (basic_blocks f))"

subsection \<open>Copy propagation\<close>

text \<open>\<open>assign_counts\<close> and \<open>copy_assignments\<close>, filled in one walk over the function.\<close>

definition fn_stmts :: "mir_function \<Rightarrow> statement_kind list" where
  "fn_stmts f = concat (map (\<lambda>bb. map kind (statements bb)) (basic_blocks f))"

fun count_assigns :: "statement_kind list \<Rightarrow> (local \<Rightarrow> nat) \<Rightarrow> (local \<Rightarrow> nat)" where
  "count_assigns [] m = m"
| "count_assigns (Assign d _ # ks) m = count_assigns ks (m(d := m d + 1))"
| "count_assigns (_ # ks) m = count_assigns ks m"

fun copy_assignments :: "statement_kind list \<Rightarrow> (local \<rightharpoonup> local) \<Rightarrow> (local \<rightharpoonup> local)" where
  "copy_assignments [] m = m"
| "copy_assignments (Assign d (Use (Copy src)) # ks) m = copy_assignments ks (m(d \<mapsto> src))"
| "copy_assignments (_ # ks) m = copy_assignments ks m"

definition def_count :: "mir_function \<Rightarrow> local \<Rightarrow> nat" where
  "def_count f l =
     (let base = count_assigns (fn_stmts f) (\<lambda>_. 0) l
      in if 1 \<le> l \<and> l \<le> arg_count f then base + 1 else base)"

definition is_owning_move_local :: "mir_function \<Rightarrow> local \<Rightarrow> bool" where
  "is_owning_move_local f l =
     (case get_opt (locals f) l of
        Some d \<Rightarrow> is_move_type (decl_ty d) \<and> is_owning d
      | None \<Rightarrow> False)"

definition safe_copies :: "mir_function \<Rightarrow> (local \<rightharpoonup> local)" where
  "safe_copies f = (\<lambda>dest.
     case copy_assignments (fn_stmts f) Map.empty dest of
       Some src \<Rightarrow>
         if def_count f dest = 1 \<and> def_count f src \<le> 1 \<and> \<not> is_owning_move_local f src
         then Some src else None
     | None \<Rightarrow> None)"

fun copy_operand :: "(local \<rightharpoonup> local) \<Rightarrow> operand \<Rightarrow> operand \<times> bool" where
  "copy_operand m (Copy l) = (case m l of Some l' \<Rightarrow> (Copy l', True) | None \<Rightarrow> (Copy l, False))"
| "copy_operand m p = (p, False)"

text \<open>With no safe copy every operand stays, so the early return adds nothing but speed.\<close>

definition copy_prop_run :: "mir_function \<Rightarrow> mir_function \<times> bool" where
  "copy_prop_run f =
     (if safe_copies f = Map.empty then (f, False)
      else prop_fn (copy_operand (safe_copies f)) f)"

subsection \<open>Constant propagation\<close>

fun const_operand :: "(local \<rightharpoonup> const) \<Rightarrow> operand \<Rightarrow> operand \<times> bool" where
  "const_operand m (Copy l) = (case m l of Some c \<Rightarrow> (Constant c, True) | None \<Rightarrow> (Copy l, False))"
| "const_operand m (Move l) = (case m l of Some c \<Rightarrow> (Constant c, True) | None \<Rightarrow> (Move l, False))"
| "const_operand m (Constant c) = (Constant c, False)"

definition is_union_local :: "mir_function \<Rightarrow> local \<Rightarrow> bool option" where
  "is_union_local f l =
     map_option (\<lambda>d. case decl_ty d of TUnion _ \<Rightarrow> True | _ \<Rightarrow> False) (idx (locals f) l)"

text \<open>A write in a loop counts twice, and so does a store through the local.\<close>

fun count_writes :: "nat \<Rightarrow> statement_kind \<Rightarrow> (local \<Rightarrow> nat) \<Rightarrow> (local \<Rightarrow> nat)" where
  "count_writes w (Assign d _) m = m(d := m d + w)"
| "count_writes w (SetAttr ob _ _) m = fold (\<lambda>l m. m(l := m l + w)) (op_local ob) m"
| "count_writes w (SetIndex ob _ _ _) m = fold (\<lambda>l m. m(l := m l + w)) (op_local ob) m"
| "count_writes w (VectorStore ob _ _) m = fold (\<lambda>l m. m(l := m l + w)) (op_local ob) m"
| "count_writes w (PtrStore p _) m = fold (\<lambda>l m. m(l := m l + w)) (op_local p) m"
| "count_writes w _ m = m"

definition write_counts :: "mir_function \<Rightarrow> bb_id set \<Rightarrow> (local \<Rightarrow> nat)" where
  "write_counts f lbs =
     fold (\<lambda>(b, bb) m. fold (\<lambda>s. count_writes (if b \<in> lbs then 2 else 1) (kind s)) (statements bb) m)
       (zip [0..<length (basic_blocks f)] (basic_blocks f)) (\<lambda>_. 0)"

fun constant_assignments ::
  "mir_function \<Rightarrow> statement_kind list \<Rightarrow> (local \<rightharpoonup> const) \<Rightarrow> (local \<rightharpoonup> const) option" where
  "constant_assignments f [] m = Some m"
| "constant_assignments f (Assign d (Use (Constant c)) # ks) m =
     do { u \<leftarrow> is_union_local f d;
          constant_assignments f ks (if u then m else m(d \<mapsto> c)) }"
| "constant_assignments f (_ # ks) m = constant_assignments f ks m"

definition safe_constants ::
  "(local \<Rightarrow> nat) \<Rightarrow> (local \<rightharpoonup> const) \<Rightarrow> (local \<rightharpoonup> const)" where
  "safe_constants counts cs = (\<lambda>l. if counts l = 1 then cs l else None)"

text \<open>The second, block-local half: constants known since the start of the block.\<close>

fun local_consts_loop ::
  "mir_function \<Rightarrow> (local \<rightharpoonup> const) \<Rightarrow> statement list \<Rightarrow> (statement list \<times> bool) option" where
  "local_consts_loop f m [] = Some ([], False)"
| "local_consts_loop f m (s # ss) =
     (case kind s of
        Assign d rv \<Rightarrow>
          (let (rv', c) = prop_rvalue (const_operand m) rv
           in do { m' \<leftarrow> (case rv' of
                            Use (Constant k) \<Rightarrow>
                              do { u \<leftarrow> is_union_local f d;
                                   Some (if u then m(d := None) else m(d \<mapsto> k)) }
                          | _ \<Rightarrow> Some (m(d := None)));
                   (ss', c') \<leftarrow> local_consts_loop f m' ss;
                   Some (s\<lparr>kind := Assign d rv'\<rparr> # ss', c \<or> c') })
      | _ \<Rightarrow> do { (ss', c') \<leftarrow> local_consts_loop f m ss; Some (s # ss', c') })"

fun local_consts_blocks ::
  "mir_function \<Rightarrow> basic_block list \<Rightarrow> (basic_block list \<times> bool) option" where
  "local_consts_blocks f [] = Some ([], False)"
| "local_consts_blocks f (bb # bbs) =
     do { (ss, c) \<leftarrow> local_consts_loop f Map.empty (statements bb);
          (bbs', d) \<leftarrow> local_consts_blocks f bbs;
          Some (bb\<lparr>statements := ss\<rparr> # bbs', c \<or> d) }"

definition const_prop_with :: "bb_id set \<Rightarrow> mir_function \<Rightarrow> (mir_function \<times> bool) option" where
  "const_prop_with lbs f =
     do { cs \<leftarrow> constant_assignments f (fn_stmts f) Map.empty;
          let (f1, c1) = prop_fn (const_operand (safe_constants (write_counts f lbs) cs)) f;
          (bbs, c2) \<leftarrow> local_consts_blocks f1 (basic_blocks f1);
          Some (f1\<lparr>basic_blocks := bbs\<rparr>, c1 \<or> c2) }"

definition const_prop_run :: "mir_function \<Rightarrow> (mir_function \<times> bool) option" where
  "const_prop_run f =
     do { loops \<leftarrow> find_loops f; const_prop_with (loop_blocks loops) f }"

end
