(* ===== verification/Cse.thy ===== *)
theory Cse
  imports Exec
begin

text \<open>
  Common subexpression elimination within a block (\<open>src/mir/optimizations/cse.rs\<close>). The list of
  available expressions keeps its order; \<open>for_each_operand\<close> is the traversal of the source,
  which does not visit the table of a \<open>VTableLoad\<close>.
\<close>

fun cse_operands :: "rvalue \<Rightarrow> operand list" where
  "cse_operands (Use p) = [p]"
| "cse_operands (UnaryOp _ p) = [p]"
| "cse_operands (GetAttr p _) = [p]"
| "cse_operands (GetTag p) = [p]"
| "cse_operands (GetTypeId p) = [p]"
| "cse_operands (FatPtrData p) = [p]"
| "cse_operands (Cast p _) = [p]"
| "cse_operands (PtrLoad p) = [p]"
| "cse_operands (GenOf p) = [p]"
| "cse_operands (VectorSplat p _) = [p]"
| "cse_operands (VectorReduce _ p _) = [p]"
| "cse_operands (BinaryOp _ l r) = [l, r]"
| "cse_operands (GetIndex l r _) = [l, r]"
| "cse_operands (VectorLoad l r _) = [l, r]"
| "cse_operands (VectorFMA a b c) = [a, b, c]"
| "cse_operands (Call f args) = f # args"
| "cse_operands (Aggregate _ ops) = ops"
| "cse_operands (Ref _) = []"
| "cse_operands (MutRef _) = []"
| "cse_operands (VTableLoad _ _) = []"

fun move_of :: "operand \<Rightarrow> local list" where
  "move_of (Move l) = [l]"
| "move_of _ = []"

fun cse_moved_locals :: "statement_kind \<Rightarrow> local list" where
  "cse_moved_locals (Assign _ rv) = concat (map move_of (cse_operands rv))"
| "cse_moved_locals (SetIndex ob ix v _) = move_of ob @ move_of ix @ move_of v"
| "cse_moved_locals (SetAttr ob _ v) = move_of ob @ move_of v"
| "cse_moved_locals (VectorStore ob ix v) = move_of ob @ move_of ix @ move_of v"
| "cse_moved_locals (PtrStore p v) = move_of p @ move_of v"
| "cse_moved_locals _ = []"

definition rvalue_has_move :: "rvalue \<Rightarrow> bool" where
  "rvalue_has_move rv = list_ex (\<lambda>p. move_of p \<noteq> []) (cse_operands rv)"

definition uses_local :: "rvalue \<Rightarrow> local \<Rightarrow> bool" where
  "uses_local rv l = list_ex (\<lambda>p. l \<in> set (op_local p)) (cse_operands rv)"

fun cse_candidate_shape :: "rvalue \<Rightarrow> bool" where
  "cse_candidate_shape (BinaryOp _ _ _) = True"
| "cse_candidate_shape (UnaryOp _ _) = True"
| "cse_candidate_shape (Use _) = True"
| "cse_candidate_shape _ = False"

fun is_read_expr :: "rvalue \<Rightarrow> bool" where
  "is_read_expr (GetIndex _ _ _) = True"
| "is_read_expr (GetAttr _ _) = True"
| "is_read_expr _ = False"

type_synonym avail = "(rvalue \<times> local) list"

definition forget_local :: "local \<Rightarrow> avail \<Rightarrow> avail" where
  "forget_local d av = filter (\<lambda>(e, l). l \<noteq> d \<and> \<not> uses_local e d) av"

definition cse_assign :: "avail \<Rightarrow> local \<Rightarrow> rvalue \<Rightarrow> rvalue \<times> avail \<times> bool" where
  "cse_assign av dest rv =
     (let (rv', av', c) =
        (if cse_candidate_shape rv \<and> \<not> rvalue_has_move rv then
           (case find (\<lambda>(e, _). e = rv) av of
              Some (_, existing) \<Rightarrow>
                (let new = Use (Copy existing)
                 in if rv \<noteq> new then (new, av, True) else (rv, av, False))
            | None \<Rightarrow> (rv, av @ [(rv, dest)], False))
         else (rv, av, False))
      in (rv', forget_local dest av', c))"

definition cse_stmt :: "avail \<Rightarrow> statement_kind \<Rightarrow> statement_kind \<times> avail \<times> bool" where
  "cse_stmt av k =
     (let moved = cse_moved_locals k;
          (k', av', c) =
            (case k of
               Assign dest rv \<Rightarrow>
                 (case rv of
                    Call _ _ \<Rightarrow> (k, [], False)
                  | _ \<Rightarrow> (let (rv', av', c) = cse_assign av dest rv in (Assign dest rv', av', c)))
             | SetIndex _ _ _ _ \<Rightarrow> (k, filter (\<lambda>(e, _). \<not> is_read_expr e) av, False)
             | SetAttr _ _ _ \<Rightarrow> (k, filter (\<lambda>(e, _). \<not> is_read_expr e) av, False)
             | VectorStore _ _ _ \<Rightarrow> (k, filter (\<lambda>(e, _). \<not> is_read_expr e) av, False)
             | PtrStore _ _ \<Rightarrow> (k, filter (\<lambda>(e, _). \<not> is_read_expr e) av, False)
             | Drop l \<Rightarrow> (k, forget_local l av, False)
             | StorageDead l \<Rightarrow> (k, forget_local l av, False)
             | _ \<Rightarrow> (k, av, False))
      in (k', fold forget_local moved av', c))"

fun cse_loop :: "avail \<Rightarrow> statement list \<Rightarrow> statement list \<times> bool" where
  "cse_loop av [] = ([], False)"
| "cse_loop av (s # ss) =
     (let (k', av', c) = cse_stmt av (kind s); (ss', d) = cse_loop av' ss
      in (s\<lparr>kind := k'\<rparr> # ss', c \<or> d))"

definition cse_block :: "basic_block \<Rightarrow> basic_block \<times> bool" where
  "cse_block bb = (let (ss, c) = cse_loop [] (statements bb) in (bb\<lparr>statements := ss\<rparr>, c))"

definition cse_run :: "mir_function \<Rightarrow> mir_function \<times> bool" where
  "cse_run f =
     (f\<lparr>basic_blocks := map (fst \<circ> cse_block) (basic_blocks f)\<rparr>,
      list_ex (snd \<circ> cse_block) (basic_blocks f))"

end
