(* ===== verification/BorrowCheck.thy ===== *)
theory BorrowCheck
  imports Liveness
begin

text \<open>
  The borrow checker (\<open>src/borrow_check/checker.rs\<close>): a forward data-flow analysis over the
  blocks with a worklist. The checker's own state holds the errors and the provenance map,
  an association list because the hash map it stands for is iterated in an unspecified
  order; the flow state holds what is known of every local at a point. The liveness table is
  an argument of the model. Indexing outside a vector panics (\<open>None\<close>). The count of the borrows
  of a local is a natural number, in the source a \<open>usize\<close>: the two agree as long as fewer than
  \<open>2 ^ 64\<close> borrows are counted.
\<close>

subsection \<open>Flow states\<close>

datatype local_state = Initialized | Moved | Dead

record flow_state =
  fs_locals :: "local_state list"
  borrows :: "(nat \<times> bool) list"
  self_fields :: "string set"

definition flow_new :: "nat \<Rightarrow> flow_state" where
  "flow_new n =
     \<lparr>fs_locals = replicate n Dead, borrows = replicate n (0, False), self_fields = {}\<rparr>"

definition flow_get :: "flow_state \<Rightarrow> local \<Rightarrow> local_state" where
  "flow_get st l = (case get_opt (fs_locals st) l of Some s \<Rightarrow> s | None \<Rightarrow> Dead)"

text \<open>\<open>set\<close> gives back an error message and leaves the state alone while the local is borrowed.\<close>

definition flow_set :: "flow_state \<Rightarrow> local \<Rightarrow> local_state \<Rightarrow> (string + flow_state) option" where
  "flow_set st l s =
     (if l < length (fs_locals st) then
        do { b \<leftarrow> idx (borrows st) l;
             Some (if fst b > 0 \<or> snd b then
                     (if s \<noteq> Initialized then Inl ''cannot move or drop variable while it is borrowed''
                      else Inl ''cannot reassign variable while it is borrowed'')
                   else Inr (st\<lparr>fs_locals := (fs_locals st)[l := s],
                                borrows := (if s \<noteq> Initialized then (borrows st)[l := (0, False)]
                                            else borrows st)\<rparr>)) }
      else Some (Inr st))"

fun merge_states :: "local_state \<Rightarrow> local_state \<Rightarrow> local_state" where
  "merge_states Moved _ = Moved"
| "merge_states _ Moved = Moved"
| "merge_states Initialized _ = Initialized"
| "merge_states _ Initialized = Initialized"
| "merge_states Dead Dead = Dead"

definition pad :: "nat \<Rightarrow> 'a \<Rightarrow> 'a list \<Rightarrow> 'a list" where
  "pad n x xs = (if length xs < n then xs @ replicate (n - length xs) x else xs)"

fun zip_merge :: "('a \<Rightarrow> 'b \<Rightarrow> 'a) \<Rightarrow> 'a list \<Rightarrow> 'b list \<Rightarrow> 'a list" where
  "zip_merge g (x # xs) (y # ys) = g x y # zip_merge g xs ys"
| "zip_merge g xs [] = xs"
| "zip_merge g [] ys = []"

definition merge_borrow :: "nat \<times> bool \<Rightarrow> nat \<times> bool \<Rightarrow> nat \<times> bool" where
  "merge_borrow b1 b2 = (max (fst b1) (fst b2), snd b1 \<or> snd b2)"

definition flow_join :: "flow_state \<Rightarrow> flow_state \<Rightarrow> flow_state \<times> bool" where
  "flow_join st other =
     (let len = max (length (fs_locals st)) (length (fs_locals other));
          grow = length (fs_locals st) < len;
          ls0 = pad len Dead (fs_locals st);
          bs0 = (if grow then take len (pad len (0, False) (borrows st)) else borrows st);
          ls1 = zip_merge merge_states ls0 (fs_locals other);
          bs1 = zip_merge merge_borrow bs0 (borrows other);
          sf1 = self_fields st \<inter> self_fields other
      in (st\<lparr>fs_locals := ls1, borrows := bs1, self_fields := sf1\<rparr>,
          ls1 \<noteq> ls0 \<or> bs1 \<noteq> bs0 \<or> sf1 \<noteq> self_fields st))"

subsection \<open>The checker\<close>

record diagnostic =
  d_code :: string
  d_headline :: string
  d_span :: span
  d_label :: string
  d_help :: string

record checker =
  errors :: "diagnostic list"
  provenance :: "(local \<times> local) list"

type_synonym struct_fields = "string \<rightharpoonup> string list"

definition MUTATES_RECEIVER :: "(string \<times> nat) list" where
  "MUTATES_RECEIVER =
     [(''__olive_list_append'', 0), (''__olive_list_insert'', 0), (''__olive_list_extend'', 0),
      (''__olive_list_extend_typed'', 0), (''__olive_list_remove'', 0), (''__olive_list_pop'', 0),
      (''__olive_list_reverse'', 0), (''__olive_list_sort_int'', 0),
      (''__olive_list_sort_float'', 0), (''__olive_list_sort_str'', 0),
      (''__olive_list_clear'', 0), (''__olive_set_add'', 0), (''__olive_set_add_typed'', 0),
      (''__olive_set_remove'', 0), (''__olive_set_remove_typed'', 0),
      (''__olive_set_remove_checked'', 0), (''__olive_set_remove_checked_typed'', 0),
      (''__olive_set_clear'', 0), (''__olive_obj_set'', 0), (''__olive_obj_remove'', 0),
      (''__olive_obj_clear'', 0), (''__olive_obj_pop_default'', 0),
      (''__olive_obj_pop_default_typed'', 0), (''__olive_obj_pop_checked'', 0),
      (''__olive_obj_pop_checked_typed'', 0), (''__olive_obj_setdefault'', 0),
      (''__olive_obj_setdefault_typed'', 0), (''__olive_obj_update'', 0),
      (''__olive_obj_update_typed'', 0)]"

definition prov_get :: "(local \<times> local) list \<Rightarrow> local \<Rightarrow> local option" where
  "prov_get = map_of"

definition prov_remove :: "local \<Rightarrow> (local \<times> local) list \<Rightarrow> (local \<times> local) list" where
  "prov_remove l ps = filter (\<lambda>(k, _). k \<noteq> l) ps"

definition prov_insert :: "local \<Rightarrow> local \<Rightarrow> (local \<times> local) list \<Rightarrow> (local \<times> local) list" where
  "prov_insert l v ps = (l, v) # prov_remove l ps"

definition local_name :: "mir_function \<Rightarrow> local \<Rightarrow> string" where
  "local_name f l =
     (case get_opt (locals f) l of
        Some d \<Rightarrow> (case decl_name d of Some n \<Rightarrow> n | None \<Rightarrow> ''_'' @ show_nat l)
      | None \<Rightarrow> ''_'' @ show_nat l)"

definition borrow_error :: "string \<Rightarrow> string \<Rightarrow> span \<Rightarrow> string \<Rightarrow> string \<Rightarrow> diagnostic" where
  "borrow_error code headline sp label help =
     \<lparr>d_code = code, d_headline = headline, d_span = sp, d_label = label, d_help = help\<rparr>"

definition push_error :: "diagnostic \<Rightarrow> checker \<Rightarrow> checker" where
  "push_error e ck = ck\<lparr>errors := errors ck @ [e]\<rparr>"

definition tick :: "string \<Rightarrow> string" where
  "tick n = ''`'' @ n @ ''`''"

definition is_borrow_passthrough :: "operand \<Rightarrow> bool" where
  "is_borrow_passthrough p =
     (case p of Constant (CFunction n) \<Rightarrow> n = ''__olive_iter'' \<or> n = ''iter'' | _ \<Rightarrow> False)"

type_synonym st = "checker \<times> flow_state"

subsection \<open>Operands, mutations and right-hand sides\<close>

definition check_operand :: "mir_function \<Rightarrow> span \<Rightarrow> operand \<Rightarrow> st \<Rightarrow> st option" where
  "check_operand f sp p = (\<lambda>(ck, fs).
     case op_local p of
       [] \<Rightarrow> Some (ck, fs)
     | l # _ \<Rightarrow>
         (case flow_get fs l of
            Dead \<Rightarrow>
              (if (case get_opt (locals f) l of Some d \<Rightarrow> decl_name d = None | None \<Rightarrow> True)
               then Some (ck, fs)
               else (let n = local_name f l in
                 Some (push_error (borrow_error ''E0502''
                   (''use of possibly-uninitialized variable '' @ tick n) sp
                   ''used here before it is guaranteed to hold a value''
                   (''assign to '' @ tick n @ '' on every path that reaches this use'')) ck, fs)))
          | Moved \<Rightarrow>
              (let n = local_name f l in
                 Some (push_error (borrow_error ''E0501''
                   (''use of moved value '' @ tick n) sp
                   ''value used here after move''
                   (''clone '' @ tick n @ '' before the move, or restructure so it is not moved away'')) ck, fs))
          | Initialized \<Rightarrow>
              (case p of
                 Move _ \<Rightarrow>
                   do { d \<leftarrow> idx (locals f) l;
                        if is_move_type (decl_ty d) then
                          do { r \<leftarrow> flow_set fs l Moved;
                               (case r of
                                  Inr fs' \<Rightarrow> Some (ck, fs')
                                | Inl msg \<Rightarrow>
                                    Some (push_error (borrow_error ''E0501'' ''conflicting move'' sp
                                      (msg @ '' '' @ tick (local_name f l))
                                      ''a value cannot be moved more than once'') ck, fs)) }
                        else Some (ck, fs) }
               | _ \<Rightarrow> Some (ck, fs))))"

fun check_operands :: "mir_function \<Rightarrow> span \<Rightarrow> operand list \<Rightarrow> st \<Rightarrow> st option" where
  "check_operands f sp [] s = Some s"
| "check_operands f sp (p # ps) s = do { s' \<leftarrow> check_operand f sp p s; check_operands f sp ps s' }"

definition check_mutation :: "mir_function \<Rightarrow> span \<Rightarrow> operand \<Rightarrow> st \<Rightarrow> st option" where
  "check_mutation f sp p = (\<lambda>(ck, fs).
     case op_local p of
       [] \<Rightarrow> Some (ck, fs)
     | l # _ \<Rightarrow>
         do { b \<leftarrow> idx (borrows fs) l;
              Some (if fst b > 0 then
                      (push_error (borrow_error ''E0504''
                         (''cannot mutate '' @ tick (local_name f l) @ '' while it is borrowed'') sp
                         ''mutation occurs here''
                         ''let the outstanding borrow end before mutating the value'') ck, fs)
                    else (ck, fs)) })"

definition check_ref :: "mir_function \<Rightarrow> span \<Rightarrow> local \<Rightarrow> st \<Rightarrow> st option" where
  "check_ref f sp l = (\<lambda>(ck, fs).
     let n = local_name f l;
         ck1 = (if flow_get fs l \<noteq> Initialized then
                  push_error (borrow_error ''E0502''
                    (tick n @ '' is borrowed before it holds a value'') sp
                    ''borrow of possibly-uninitialized or moved value''
                    (''assign to '' @ tick n @ '' before borrowing it'')) ck
                else ck)
     in do { b \<leftarrow> idx (borrows fs) l;
             let ck2 = (if snd b then
                          push_error (borrow_error ''E0503''
                            (''cannot borrow '' @ tick n @ '' as immutable'') sp
                            ''already borrowed as mutable here''
                            ''end the mutable borrow before taking a shared borrow'') ck1
                        else ck1);
             Some (ck2, fs\<lparr>borrows := (borrows fs)[l := (fst b + 1, snd b)]\<rparr>) })"

definition check_mut_ref :: "mir_function \<Rightarrow> span \<Rightarrow> local \<Rightarrow> st \<Rightarrow> st option" where
  "check_mut_ref f sp l = (\<lambda>(ck, fs).
     let n = local_name f l;
         ck1 = (if flow_get fs l \<noteq> Initialized then
                  push_error (borrow_error ''E0502''
                    (tick n @ '' is mutably borrowed before it holds a value'') sp
                    ''mutable borrow of possibly-uninitialized or moved value''
                    (''assign to '' @ tick n @ '' before borrowing it'')) ck
                else ck)
     in do { d \<leftarrow> idx (locals f) l;
             let ck2 = (if \<not> is_mut d then
                          push_error (borrow_error ''E0505''
                            (''cannot mutably borrow immutable variable '' @ tick n) sp
                            ''this variable is not declared `mut`''
                            (''declare it mutable: `let mut '' @ n @ '' = ...`'')) ck1
                        else ck1);
             b \<leftarrow> idx (borrows fs) l;
             let ck3 = (if fst b > 0 \<or> snd b then
                          push_error (borrow_error ''E0503''
                            (''cannot borrow '' @ tick n @ '' as mutable more than once'') sp
                            ''already borrowed here''
                            ''a value may have only one mutable borrow at a time'') ck2
                        else ck2);
             Some (ck3, fs\<lparr>borrows := (borrows fs)[l := (fst b, True)]\<rparr>) })"

definition check_call_mutation ::
  "mir_function \<Rightarrow> span \<Rightarrow> operand \<Rightarrow> operand list \<Rightarrow> st \<Rightarrow> st option" where
  "check_call_mutation f sp fn args s =
     (case fn of
        Constant (CFunction name) \<Rightarrow>
          (case find (\<lambda>(n, _). n = name) MUTATES_RECEIVER of
             Some (_, pos) \<Rightarrow>
               (case get_opt args pos of
                  Some receiver \<Rightarrow> check_mutation f sp receiver s
                | None \<Rightarrow> Some s)
           | None \<Rightarrow> Some s)
      | _ \<Rightarrow> Some s)"

fun check_rvalue :: "mir_function \<Rightarrow> span \<Rightarrow> rvalue \<Rightarrow> st \<Rightarrow> st option" where
  "check_rvalue f sp (Use p) s = check_operand f sp p s"
| "check_rvalue f sp (FatPtrData p) s = check_operand f sp p s"
| "check_rvalue f sp (BinaryOp _ l r) s = check_operands f sp [l, r] s"
| "check_rvalue f sp (UnaryOp _ p) s = check_operand f sp p s"
| "check_rvalue f sp (Call fn args) s =
     do { s1 \<leftarrow> check_operand f sp fn s;
          s2 \<leftarrow> check_call_mutation f sp fn args s1;
          check_operands f sp args s2 }"
| "check_rvalue f sp (Aggregate _ ops) s = check_operands f sp ops s"
| "check_rvalue f sp (GetAttr p _) s = check_operand f sp p s"
| "check_rvalue f sp (GetIndex ob ix _) s = check_operands f sp [ob, ix] s"
| "check_rvalue f sp (GetTag p) s = check_operand f sp p s"
| "check_rvalue f sp (GetTypeId p) s = check_operand f sp p s"
| "check_rvalue f sp (Cast p _) s = check_operand f sp p s"
| "check_rvalue f sp (GenOf p) s = check_operand f sp p s"
| "check_rvalue f sp (Ref l) s = check_ref f sp l s"
| "check_rvalue f sp (MutRef l) s = check_mut_ref f sp l s"
| "check_rvalue f sp (PtrLoad p) s = check_operand f sp p s"
| "check_rvalue f sp (VTableLoad vtable _) s = check_operand f sp vtable s"
| "check_rvalue f sp (VectorSplat p _) s = check_operand f sp p s"
| "check_rvalue f sp (VectorReduce _ p _) s = check_operand f sp p s"
| "check_rvalue f sp (VectorLoad ob ix _) s = check_operands f sp [ob, ix] s"
| "check_rvalue f sp (VectorFMA a b c) s = check_operands f sp [a, b, c] s"

subsection \<open>Statements\<close>

definition ends_with :: "string \<Rightarrow> string \<Rightarrow> bool" where
  "ends_with s suf \<longleftrightarrow> length suf \<le> length s \<and> drop (length s - length suf) s = suf"

text \<open>What an assignment does to the provenance of its target.\<close>

definition carried_provenance :: "operand list \<Rightarrow> (local \<times> local) list \<Rightarrow> local option" where
  "carried_provenance args ps =
     (case args of
        [] \<Rightarrow> None
      | a # _ \<Rightarrow> (case op_local a of [] \<Rightarrow> None | r # _ \<Rightarrow> prov_get ps r))"

definition set_provenance ::
  "local \<Rightarrow> local option \<Rightarrow> (local \<times> local) list \<Rightarrow> (local \<times> local) list" where
  "set_provenance l v ps = (case v of Some p \<Rightarrow> prov_insert l p ps | None \<Rightarrow> prov_remove l ps)"

fun update_provenance ::
  "local \<Rightarrow> rvalue \<Rightarrow> (local \<times> local) list \<Rightarrow> (local \<times> local) list" where
  "update_provenance l (Ref r) ps = prov_insert l r ps"
| "update_provenance l (MutRef r) ps = prov_insert l r ps"
| "update_provenance l (Use (Copy r)) ps = set_provenance l (prov_get ps r) ps"
| "update_provenance l (Use (Move r)) ps = set_provenance l (prov_get ps r) ps"
| "update_provenance l (Call fn args) ps =
     (if is_borrow_passthrough fn then set_provenance l (carried_provenance args ps) ps
      else prov_remove l ps)"
| "update_provenance l _ ps = prov_remove l ps"

definition transfer_assign ::
  "mir_function \<Rightarrow> span \<Rightarrow> local \<Rightarrow> rvalue \<Rightarrow> st \<Rightarrow> st option" where
  "transfer_assign f sp lhs rv s =
     do { (ck, fs) \<leftarrow> check_rvalue f sp rv s;
          let ck1 = ck\<lparr>provenance := update_provenance lhs rv (provenance ck)\<rparr>;
          r \<leftarrow> flow_set fs lhs Initialized;
          (case r of
             Inr fs' \<Rightarrow> Some (ck1, fs')
           | Inl msg \<Rightarrow>
               Some (push_error (borrow_error ''E0500'' ''conflicting assignment'' sp
                 (msg @ '' '' @ tick (local_name f lhs))
                 ''each value may only be used once after it is moved'') ck1, fs)) }"

definition set_quietly :: "local \<Rightarrow> local_state \<Rightarrow> st \<Rightarrow> st option" where
  "set_quietly l ls = (\<lambda>(ck, fs).
     do { r \<leftarrow> flow_set fs l ls;
          Some (ck, (case r of Inr fs' \<Rightarrow> fs' | Inl _ \<Rightarrow> fs)) })"

definition transfer_drop :: "mir_function \<Rightarrow> span \<Rightarrow> local \<Rightarrow> st \<Rightarrow> st option" where
  "transfer_drop f sp l = (\<lambda>(ck, fs).
     if flow_get fs l = Initialized then
       do { r \<leftarrow> flow_set fs l Moved;
            (case r of
               Inr fs' \<Rightarrow> Some (ck, fs')
             | Inl msg \<Rightarrow>
                 Some (push_error (borrow_error ''E0507'' ''value used after its lifetime ends'' sp
                   (msg @ '' '' @ tick (local_name f l))
                   ''restructure the code so the value is not used after it is dropped'') ck, fs)) }
     else Some (ck, fs))"

definition note_self_field :: "mir_function \<Rightarrow> operand \<Rightarrow> string \<Rightarrow> st \<Rightarrow> st" where
  "note_self_field f ob field = (\<lambda>(ck, fs).
     (ck, if ends_with (fn_name f) ''::__init__'' \<and> op_local ob = [1]
          then fs\<lparr>self_fields := insert field (self_fields fs)\<rparr> else fs))"

fun transfer_stmt :: "mir_function \<Rightarrow> span \<Rightarrow> statement_kind \<Rightarrow> st \<Rightarrow> st option" where
  "transfer_stmt f sp (Assign lhs rv) s = transfer_assign f sp lhs rv s"
| "transfer_stmt f sp (SetAttr ob field v) s =
     do { s1 \<leftarrow> check_mutation f sp ob s;
          s2 \<leftarrow> check_operands f sp [ob, v] s1;
          Some (note_self_field f ob field s2) }"
| "transfer_stmt f sp (SetIndex ob ix v _) s =
     do { s1 \<leftarrow> check_mutation f sp ob s; check_operands f sp [ob, ix, v] s1 }"
| "transfer_stmt f sp (StorageLive l) s = set_quietly l Initialized s"
| "transfer_stmt f sp (StorageDead l) s = set_quietly l Dead s"
| "transfer_stmt f sp (Drop l) s = transfer_drop f sp l s"
| "transfer_stmt f sp (VectorStore ob ix v) s =
     do { s1 \<leftarrow> check_mutation f sp ob s; check_operands f sp [ob, ix, v] s1 }"
| "transfer_stmt f sp (PtrStore p v) s = check_operands f sp [p, v] s"
| "transfer_stmt f sp (GenCheck _ _) s = Some s"

subsection \<open>Terminators and the end of borrows\<close>

text \<open>\<open>trim_end_matches\<close> removes every trailing occurrence of the suffix.\<close>

function trim_end_matches :: "string \<Rightarrow> string \<Rightarrow> string" where
  "trim_end_matches s suf =
     (if suf \<noteq> [] \<and> ends_with s suf then trim_end_matches (take (length s - length suf) s) suf
      else s)"
  by pat_completeness auto
termination
proof (relation "measure (\<lambda>(s, suf). length s)", goal_cases)
  case 1
  show ?case by simp
next
  case (2 s suf)
  then show ?case by (cases suf; cases s) (auto simp: ends_with_def)
qed

declare trim_end_matches.simps [simp del]

definition missing_field_error :: "string \<Rightarrow> span \<Rightarrow> string \<Rightarrow> diagnostic" where
  "missing_field_error struct_name sp field =
     borrow_error ''E0506'' (''field '' @ tick field @ '' may be left uninitialized'') sp
       (tick (struct_name @ ''.'' @ field) @ '' is not set on every path through `__init__`'')
       (''assign `self.'' @ field @ '' = ...` before every `return`'')"

definition check_terminator ::
  "struct_fields \<Rightarrow> mir_function \<Rightarrow> terminator \<Rightarrow> st \<Rightarrow> st option" where
  "check_terminator sfs f t s =
     (case term_kind t of
        SwitchInt discr _ _ \<Rightarrow> check_operand f (term_span t) discr s
      | Return \<Rightarrow>
          (if ends_with (fn_name f) ''::__init__'' then
             (let struct_name = trim_end_matches (fn_name f) ''::__init__''
              in case sfs struct_name of
                   Some fnames \<Rightarrow>
                     Some (fold (\<lambda>field (ck, fs).
                              (if field \<notin> self_fields fs
                               then push_error (missing_field_error struct_name (term_span t) field) ck
                               else ck, fs)) fnames s)
                 | None \<Rightarrow> Some s)
           else Some s)
      | _ \<Rightarrow> Some s)"

definition still_borrowed :: "(local \<times> local) list \<Rightarrow> local set \<Rightarrow> local set" where
  "still_borrowed ps live = set (map snd (filter (\<lambda>(r, _). r \<in> live) ps))"

definition weaken_borrow :: "nat \<times> bool \<Rightarrow> nat \<times> bool" where
  "weaken_borrow b = (if fst b > 0 then (fst b - 1, snd b) else (fst b, False))"

fun release_loop ::
  "local set \<Rightarrow> local set \<Rightarrow> (local \<times> local) list \<Rightarrow> (nat \<times> bool) list \<Rightarrow> (nat \<times> bool) list option" where
  "release_loop live held [] bs = Some bs"
| "release_loop live held ((r, p) # ps) bs =
     (if r \<notin> live \<and> p \<notin> held
      then do { b \<leftarrow> idx bs p; release_loop live held ps (bs[p := weaken_borrow b]) }
      else release_loop live held ps bs)"

definition release_dead_borrows :: "local set \<Rightarrow> st \<Rightarrow> st option" where
  "release_dead_borrows live = (\<lambda>(ck, fs).
     do { bs \<leftarrow> release_loop live (still_borrowed (provenance ck) live) (provenance ck) (borrows fs);
          Some (ck, fs\<lparr>borrows := bs\<rparr>) })"

subsection \<open>The worklist\<close>

definition checker_successors :: "basic_block \<Rightarrow> nat list" where
  "checker_successors bb =
     (case terminator bb of
        Some t \<Rightarrow>
          (case term_kind t of
             Goto target \<Rightarrow> [target]
           | SwitchInt _ targets otherwise \<Rightarrow> map snd targets @ [otherwise]
           | Return \<Rightarrow> []
           | Unreachable \<Rightarrow> [])
      | None \<Rightarrow> [])"

fun check_stmts ::
  "mir_function \<Rightarrow> local set list \<Rightarrow> nat \<Rightarrow> statement list \<Rightarrow> st \<Rightarrow> st option" where
  "check_stmts f row i [] s = Some s"
| "check_stmts f row i (x # xs) s =
     do { s1 \<leftarrow> transfer_stmt f (span_of x) (kind x) s;
          live \<leftarrow> idx row (i + 1);
          s2 \<leftarrow> release_dead_borrows live s1;
          check_stmts f row (i + 1) xs s2 }"

definition check_block ::
  "struct_fields \<Rightarrow> mir_function \<Rightarrow> live_table \<Rightarrow> nat \<Rightarrow> st \<Rightarrow> st option" where
  "check_block sfs f tbl b s =
     do { bb \<leftarrow> idx (basic_blocks f) b;
          row \<leftarrow> idx tbl b;
          s1 \<leftarrow> check_stmts f row 0 (statements bb) s;
          s2 \<leftarrow> (case terminator bb of Some t \<Rightarrow> check_terminator sfs f t s1 | None \<Rightarrow> Some s1);
          live \<leftarrow> idx row (length (statements bb));
          release_dead_borrows live s2 }"

record work =
  w_checker :: checker
  entry_states :: "flow_state option list"
  worklist :: "nat list"
  in_worklist :: "bool list"

fun propagate_to :: "flow_state \<Rightarrow> nat list \<Rightarrow> work \<Rightarrow> work option" where
  "propagate_to fs [] w = Some w"
| "propagate_to fs (s # ss) w =
     do { e \<leftarrow> idx (entry_states w) s;
          let (e', changed) = (case e of None \<Rightarrow> (fs, True) | Some old \<Rightarrow> flow_join old fs);
          queued \<leftarrow> idx (in_worklist w) s;
          let w1 = w\<lparr>entry_states := (entry_states w)[s := Some e']\<rparr>;
          propagate_to fs ss
            (if changed \<and> \<not> queued
             then w1\<lparr>worklist := worklist w1 @ [s], in_worklist := (in_worklist w1)[s := True]\<rparr>
             else w1) }"

definition work_step ::
  "struct_fields \<Rightarrow> mir_function \<Rightarrow> live_table \<Rightarrow> work \<Rightarrow> work option" where
  "work_step sfs f tbl w =
     (case worklist w of
        [] \<Rightarrow> Some w
      | b # rest \<Rightarrow>
          (let w1 = w\<lparr>worklist := rest, in_worklist := (in_worklist w)[b := False]\<rparr>
           in do { e \<leftarrow> idx (entry_states w) b;
                   (case e of
                      None \<Rightarrow> Some w1
                    | Some fs \<Rightarrow>
                        do { (ck, fs') \<leftarrow> check_block sfs f tbl b (w_checker w, fs);
                             bb \<leftarrow> idx (basic_blocks f) b;
                             propagate_to fs' (checker_successors bb) (w1\<lparr>w_checker := ck\<rparr>) }) }))"

text \<open>The entry state: local 0 and the parameters hold values.\<close>

definition set_ignore :: "local \<Rightarrow> flow_state \<Rightarrow> flow_state" where
  "set_ignore l fs =
     (case flow_set fs l Initialized of Some (Inr fs') \<Rightarrow> fs' | _ \<Rightarrow> fs)"

definition entry_state :: "mir_function \<Rightarrow> flow_state" where
  "entry_state f =
     fold (\<lambda>i fs. if i < length (locals f) then set_ignore i fs else fs)
       [1..<arg_count f + 1] (set_ignore 0 (flow_new (length (locals f))))"

definition initial_work :: "mir_function \<Rightarrow> work" where
  "initial_work f =
     (let n = length (basic_blocks f)
      in \<lparr>w_checker = \<lparr>errors = [], provenance = []\<rparr>,
          entry_states = (replicate n None)[0 := Some (entry_state f)],
          worklist = [0], in_worklist = (replicate n False)[0 := True]\<rparr>)"

text \<open>
  \<open>check\<close>, with the number of blocks it may take from the worklist: the outer \<open>None\<close> is a
  worklist that is not empty by then, the inner one a panic.
\<close>

fun check_fuel ::
  "nat \<Rightarrow> struct_fields \<Rightarrow> mir_function \<Rightarrow> live_table \<Rightarrow> work \<Rightarrow> work option option" where
  "check_fuel n sfs f tbl w =
     (if worklist w = [] then Some (Some w)
      else (case n of
              0 \<Rightarrow> None
            | Suc m \<Rightarrow> (case work_step sfs f tbl w of
                         None \<Rightarrow> Some None
                       | Some w' \<Rightarrow> check_fuel m sfs f tbl w')))"

declare check_fuel.simps [simp del]

definition borrow_check ::
  "nat \<Rightarrow> struct_fields \<Rightarrow> mir_function \<Rightarrow> live_table \<Rightarrow> diagnostic list option option" where
  "borrow_check n sfs f tbl =
     (if basic_blocks f = [] then Some (Some [])
      else map_option (map_option (\<lambda>w. errors (w_checker w)))
             (check_fuel n sfs f tbl (initial_work f)))"

end
