(* ===== verification/FlowLattice.thy ===== *)
theory FlowLattice
  imports BorrowCheck
begin

text \<open>
  The order behind \<open>FlowState::join\<close>. The states of a local form the chain Dead, Initialized,
  Moved, and \<open>merge_states\<close> is its maximum; flow states are ordered local by local, with the fields
  set on every path in the opposite direction. For states of one function \<open>join\<close> is the least upper
  bound, and its flag says whether the state grew.
\<close>

subsection \<open>The chain of local states\<close>

fun rank :: "local_state \<Rightarrow> nat" where
  "rank Dead = 0"
| "rank Initialized = 1"
| "rank Moved = 2"

instantiation local_state :: linorder
begin

definition less_eq_local_state :: "local_state \<Rightarrow> local_state \<Rightarrow> bool" where
  "less_eq_local_state a b \<longleftrightarrow> rank a \<le> rank b"

definition less_local_state :: "local_state \<Rightarrow> local_state \<Rightarrow> bool" where
  "less_local_state a b \<longleftrightarrow> rank a < rank b"

instance
proof
  fix a b :: local_state
  show "a \<le> b \<Longrightarrow> b \<le> a \<Longrightarrow> a = b" by (cases a; cases b) (auto simp: less_eq_local_state_def)
qed (auto simp: less_eq_local_state_def less_local_state_def)

end

lemma rank_le: "rank a \<le> 2"
  by (cases a) auto

lemma local_state_le_iff: "a \<le> b \<longleftrightarrow> rank a \<le> rank (b :: local_state)"
  by (simp add: less_eq_local_state_def)

lemma Moved_top [simp]: "Moved \<le> s \<longleftrightarrow> s = Moved" "s \<le> Moved"
  by (cases s; simp add: local_state_le_iff)+

lemma Dead_bot [simp]: "Dead \<le> s"
  by (simp add: local_state_le_iff)

lemma merge_states_max: "merge_states a b = max a b"
  by (cases a; cases b) (simp_all add: max_def local_state_le_iff)

subsection \<open>Flow states of one function\<close>

definition shaped :: "nat \<Rightarrow> flow_state \<Rightarrow> bool" where
  "shaped n fs \<longleftrightarrow> length (fs_locals fs) = n \<and> length (borrows fs) = n"

definition borrow_le :: "nat \<times> bool \<Rightarrow> nat \<times> bool \<Rightarrow> bool" where
  "borrow_le a b \<longleftrightarrow> fst a \<le> fst b \<and> (snd a \<longrightarrow> snd b)"

definition flow_le :: "flow_state \<Rightarrow> flow_state \<Rightarrow> bool" where
  "flow_le a b \<longleftrightarrow>
     list_all2 (\<le>) (fs_locals a) (fs_locals b) \<and> list_all2 borrow_le (borrows a) (borrows b) \<and>
     self_fields b \<subseteq> self_fields a"

lemma flow_le_refl [simp]: "flow_le a a"
  by (simp add: flow_le_def borrow_le_def list_all2_conv_all_nth)

lemma flow_le_trans: "flow_le a b \<Longrightarrow> flow_le b c \<Longrightarrow> flow_le a c"
proof -
  have "list_all2 (\<le>) xs zs" if "list_all2 (\<le>) xs ys" "list_all2 (\<le>) ys zs" for xs ys zs :: "local_state list"
    using list_all2_trans [OF _ that] order_trans by blast
  moreover have "list_all2 borrow_le xs zs" if "list_all2 borrow_le xs ys" "list_all2 borrow_le ys zs" for xs ys zs
    using list_all2_trans [OF _ that, of borrow_le] by (force simp: borrow_le_def)
  ultimately show "flow_le a b \<Longrightarrow> flow_le b c \<Longrightarrow> flow_le a c"
    unfolding flow_le_def by blast
qed

lemma zip_merge_map2: "length xs = length ys \<Longrightarrow> zip_merge g xs ys = map2 g xs ys"
  by (induction g xs ys rule: zip_merge.induct) auto

lemma flow_join_shaped:
  assumes "shaped n a" "shaped n b"
  shows "flow_join a b =
    (a\<lparr>fs_locals := map2 max (fs_locals a) (fs_locals b),
       borrows := map2 merge_borrow (borrows a) (borrows b),
       self_fields := self_fields a \<inter> self_fields b\<rparr>,
     a\<lparr>fs_locals := map2 max (fs_locals a) (fs_locals b),
       borrows := map2 merge_borrow (borrows a) (borrows b),
       self_fields := self_fields a \<inter> self_fields b\<rparr> \<noteq> a)"
proof -
  have "merge_states = max" by (intro ext) (rule merge_states_max)
  with assms show ?thesis
    by (cases a) (simp add: flow_join_def shaped_def pad_def Let_def zip_merge_map2)
qed

text \<open>
  C20. Joining two states of one function gives their least upper bound, and the flag that puts a
  block back on the work list is raised exactly when the state changed.
\<close>

theorem flow_join_least_upper_bound:
  assumes "shaped n a" and "shaped n b"
  shows "flow_le a (fst (flow_join a b)) \<and> flow_le b (fst (flow_join a b)) \<and>
    (\<forall>c. flow_le a c \<and> flow_le b c \<longrightarrow> flow_le (fst (flow_join a b)) c) \<and>
    (snd (flow_join a b) \<longleftrightarrow> fst (flow_join a b) \<noteq> a) \<and> shaped n (fst (flow_join a b))"
  using assms
  by (auto simp: flow_join_shaped flow_le_def shaped_def list_all2_conv_all_nth borrow_le_def
      merge_borrow_def)

definition branch_state :: "local_state \<Rightarrow> flow_state" where
  "branch_state s = \<lparr>fs_locals = [Initialized, s], borrows = [(0, False), (0, False)], self_fields = {}\<rparr>"

theorem flow_join_least_upper_bound_witness:
  "fst (flow_join (branch_state Initialized) (branch_state Moved)) = branch_state Moved \<and>
   flow_le (branch_state Initialized) (branch_state Moved) \<and> flow_le (branch_state Moved) (branch_state Moved) \<and>
   snd (flow_join (branch_state Initialized) (branch_state Moved)) \<and> shaped 2 (branch_state Moved)"
proof -
  have j: "fst (flow_join (branch_state Initialized) (branch_state Moved)) = branch_state Moved"
    by code_simp
  have "shaped 2 (branch_state s)" for s by (simp add: shaped_def branch_state_def)
  with flow_join_least_upper_bound [of 2 "branch_state Initialized" "branch_state Moved"]
  show ?thesis unfolding j by (simp add: branch_state_def)
qed

text \<open>
  The chain puts a local without a value below an initialised one, so a local that is set on one of
  two paths counts as set after them.
\<close>

lemma join_forgets_dead:
  "fst (flow_join (branch_state Initialized) (branch_state Dead)) = branch_state Initialized"
  by code_simp

end
