(* ===== verification/MoveCheck.thy ===== *)
theory MoveCheck
  imports FlowLattice LivenessProps
begin

text \<open>
  The borrow checker as a checker of moves. On a function that takes no references the checker's
  state is one chain value per local and the fields set on every path; each operation acts on every
  local by itself. The work list then computes the merge over all paths, so that a use after a move
  is reported exactly when some path moves the local before the use.
\<close>

subsection \<open>What an operation does to one local\<close>

definition op_effect :: "mir_function \<Rightarrow> local \<Rightarrow> operand \<Rightarrow> local_state \<Rightarrow> local_state" where
  "op_effect f l p s =
     (if p = Move l \<and> is_move_type (decl_ty (locals f ! l)) \<and> s = Initialized then Moved else s)"

fun ops_effect :: "mir_function \<Rightarrow> local \<Rightarrow> operand list \<Rightarrow> local_state \<Rightarrow> local_state" where
  "ops_effect f l [] s = s"
| "ops_effect f l (p # ps) s = ops_effect f l ps (op_effect f l p s)"

fun ops_read_moved :: "mir_function \<Rightarrow> local \<Rightarrow> operand list \<Rightarrow> local_state \<Rightarrow> bool" where
  "ops_read_moved f l [] s \<longleftrightarrow> False"
| "ops_read_moved f l (p # ps) s \<longleftrightarrow>
     l \<in> set (op_local p) \<and> s = Moved \<or> ops_read_moved f l ps (op_effect f l p s)"

fun checked_ops :: "statement_kind \<Rightarrow> operand list" where
  "checked_ops (Assign _ rv) = rvalue_operands rv"
| "checked_ops (SetAttr ob _ v) = [ob, v]"
| "checked_ops (SetIndex ob ix v _) = [ob, ix, v]"
| "checked_ops (VectorStore ob ix v) = [ob, ix, v]"
| "checked_ops (PtrStore p v) = [p, v]"
| "checked_ops _ = []"

fun stmt_final :: "local \<Rightarrow> statement_kind \<Rightarrow> local_state \<Rightarrow> local_state" where
  "stmt_final l (Assign d _) s = (if l = d then Initialized else s)"
| "stmt_final l (StorageLive d) s = (if l = d then Initialized else s)"
| "stmt_final l (StorageDead d) s = (if l = d then Dead else s)"
| "stmt_final l (Drop d) s = (if l = d \<and> s = Initialized then Moved else s)"
| "stmt_final l _ s = s"

definition stmt_effect :: "mir_function \<Rightarrow> local \<Rightarrow> statement_kind \<Rightarrow> local_state \<Rightarrow> local_state" where
  "stmt_effect f l k s = stmt_final l k (ops_effect f l (checked_ops k) s)"

definition stmt_reads_moved :: "mir_function \<Rightarrow> local \<Rightarrow> statement_kind \<Rightarrow> local_state \<Rightarrow> bool" where
  "stmt_reads_moved f l k s = ops_read_moved f l (checked_ops k) s"

definition term_ops :: "terminator option \<Rightarrow> operand list" where
  "term_ops t = (case t of
       Some t \<Rightarrow> (case term_kind t of SwitchInt p _ _ \<Rightarrow> [p] | _ \<Rightarrow> [])
     | None \<Rightarrow> [])"

fun stmts_effect :: "mir_function \<Rightarrow> local \<Rightarrow> statement list \<Rightarrow> local_state \<Rightarrow> local_state" where
  "stmts_effect f l [] s = s"
| "stmts_effect f l (x # xs) s = stmts_effect f l xs (stmt_effect f l (kind x) s)"

fun stmts_read_moved :: "mir_function \<Rightarrow> local \<Rightarrow> statement list \<Rightarrow> local_state \<Rightarrow> bool" where
  "stmts_read_moved f l [] s \<longleftrightarrow> False"
| "stmts_read_moved f l (x # xs) s \<longleftrightarrow>
     stmt_reads_moved f l (kind x) s \<or> stmts_read_moved f l xs (stmt_effect f l (kind x) s)"

definition block_effect :: "mir_function \<Rightarrow> local \<Rightarrow> nat \<Rightarrow> local_state \<Rightarrow> local_state" where
  "block_effect f l b s =
     ops_effect f l (term_ops (terminator (basic_blocks f ! b)))
       (stmts_effect f l (statements (basic_blocks f ! b)) s)"

definition block_reads_moved :: "mir_function \<Rightarrow> local \<Rightarrow> nat \<Rightarrow> local_state \<Rightarrow> bool" where
  "block_reads_moved f l b s \<longleftrightarrow>
     stmts_read_moved f l (statements (basic_blocks f ! b)) s \<or>
     ops_read_moved f l (term_ops (terminator (basic_blocks f ! b)))
       (stmts_effect f l (statements (basic_blocks f ! b)) s)"

text \<open>The states of one local along the paths from the entry.\<close>

definition first_state :: "mir_function \<Rightarrow> local \<Rightarrow> local_state" where
  "first_state f l = (if l \<le> arg_count f then Initialized else Dead)"

inductive local_at :: "mir_function \<Rightarrow> local \<Rightarrow> nat \<Rightarrow> local_state \<Rightarrow> bool" for f l where
  entry: "local_at f l 0 (first_state f l)"
| edge: "local_at f l b s \<Longrightarrow> b < length (basic_blocks f) \<Longrightarrow> t \<in> set (successors (basic_blocks f ! b)) \<Longrightarrow>
     local_at f l t (block_effect f l b s)"

definition use_after_move :: "mir_function \<Rightarrow> bool" where
  "use_after_move f \<longleftrightarrow>
     (\<exists>l<length (locals f). \<exists>b<length (basic_blocks f). \<exists>s. local_at f l b s \<and> block_reads_moved f l b s)"

text \<open>The effects are monotone, and so is being a use after a move.\<close>

lemma op_effect_mono: "s \<le> s' \<Longrightarrow> op_effect f l p s \<le> op_effect f l p s'"
  by (cases s; cases s') (auto simp: op_effect_def local_state_le_iff)

lemma ops_effect_mono: "s \<le> s' \<Longrightarrow> ops_effect f l ps s \<le> ops_effect f l ps s'"
  by (induction ps arbitrary: s s') (auto intro: op_effect_mono)

lemma ops_read_moved_mono: "s \<le> s' \<Longrightarrow> ops_read_moved f l ps s \<Longrightarrow> ops_read_moved f l ps s'"
proof (induction ps arbitrary: s s')
  case (Cons p ps)
  from Cons.prems(2) consider "l \<in> set (op_local p)" "s = Moved" | "ops_read_moved f l ps (op_effect f l p s)"
    by auto
  then show ?case using Cons.prems(1) Cons.IH [OF op_effect_mono [OF Cons.prems(1)]] by cases auto
qed simp

lemma stmt_final_mono: "s \<le> s' \<Longrightarrow> stmt_final l k s \<le> stmt_final l k s'"
  by (cases k; cases s; cases s') (auto simp: local_state_le_iff)

lemma stmt_effect_mono: "s \<le> s' \<Longrightarrow> stmt_effect f l k s \<le> stmt_effect f l k s'"
  by (simp add: stmt_effect_def stmt_final_mono ops_effect_mono)

lemma stmts_effect_mono: "s \<le> s' \<Longrightarrow> stmts_effect f l ss s \<le> stmts_effect f l ss s'"
  by (induction ss arbitrary: s s') (auto intro: stmt_effect_mono)

lemma stmts_read_moved_mono: "s \<le> s' \<Longrightarrow> stmts_read_moved f l ss s \<Longrightarrow> stmts_read_moved f l ss s'"
  by (induction ss arbitrary: s s')
    (auto simp: stmt_reads_moved_def dest: ops_read_moved_mono stmt_effect_mono)

lemma block_effect_mono: "s \<le> s' \<Longrightarrow> block_effect f l b s \<le> block_effect f l b s'"
  by (simp add: block_effect_def ops_effect_mono stmts_effect_mono)

lemma block_reads_moved_mono: "s \<le> s' \<Longrightarrow> block_reads_moved f l b s \<Longrightarrow> block_reads_moved f l b s'"
  by (auto simp: block_reads_moved_def dest: stmts_read_moved_mono ops_read_moved_mono [OF stmts_effect_mono])

subsection \<open>Operations of the checker\<close>

definition plain_flow :: "nat \<Rightarrow> flow_state \<Rightarrow> bool" where
  "plain_flow n fs \<longleftrightarrow> length (fs_locals fs) = n \<and> borrows fs = replicate n (0, False)"

definition moved_code :: string where
  "moved_code = ''E0501''"

definition reports :: "diagnostic list \<Rightarrow> bool" where
  "reports es \<longleftrightarrow> moved_code \<in> d_code ` set es"

lemma reports_simps [simp]:
  "reports [] \<longleftrightarrow> False"
  "reports (e # es) \<longleftrightarrow> d_code e = moved_code \<or> reports es"
  "reports (es @ es') \<longleftrightarrow> reports es \<or> reports es'"
  by (auto simp: reports_def)

text \<open>
  \<open>acts n E R g m\<close>: the operation \<open>m\<close> ends, treats each local \<open>l\<close> by \<open>E l\<close>, reports a use after a
  move exactly when \<open>R l\<close> holds for some local, and the fields by \<open>g\<close>.
\<close>

definition acts ::
  "nat \<Rightarrow> (local \<Rightarrow> local_state \<Rightarrow> local_state) \<Rightarrow> (local \<Rightarrow> local_state \<Rightarrow> bool) \<Rightarrow>
   (string set \<Rightarrow> string set) \<Rightarrow> (st \<Rightarrow> st option) \<Rightarrow> bool" where
  "acts n E R g m \<longleftrightarrow>
     (\<forall>ck fs. plain_flow n fs \<and> provenance ck = [] \<longrightarrow>
        (\<exists>es fs'. m (ck, fs) = Some (ck\<lparr>errors := errors ck @ es\<rparr>, fs') \<and> plain_flow n fs' \<and>
           self_fields fs' = g (self_fields fs) \<and>
           (\<forall>l<n. fs_locals fs' ! l = E l (fs_locals fs ! l)) \<and>
           (reports es \<longleftrightarrow> (\<exists>l<n. R l (fs_locals fs ! l)))))"

lemma actsD:
  assumes "acts n E R g m" "plain_flow n fs" "provenance ck = []"
  obtains es fs' where "m (ck, fs) = Some (ck\<lparr>errors := errors ck @ es\<rparr>, fs')" "plain_flow n fs'"
    "self_fields fs' = g (self_fields fs)" "\<forall>l<n. fs_locals fs' ! l = E l (fs_locals fs ! l)"
    "reports es \<longleftrightarrow> (\<exists>l<n. R l (fs_locals fs ! l))"
  using assms unfolding acts_def by blast

lemma acts_skip: "acts n (\<lambda>l s. s) (\<lambda>l s. False) (\<lambda>F. F) Some"
  unfolding acts_def by (auto intro!: exI [of _ "[]"])

lemma acts_then:
  assumes "acts n E R g m" "acts n E' R' g' m'"
  shows "acts n (\<lambda>l s. E' l (E l s)) (\<lambda>l s. R l s \<or> R' l (E l s)) (\<lambda>F. g' (g F)) (\<lambda>s. do { s' \<leftarrow> m s; m' s' })"
  unfolding acts_def
proof (intro allI impI; elim conjE)
  fix ck :: checker and fs assume p: "plain_flow n fs" "provenance ck = []"
  obtain es fs1 where 1: "m (ck, fs) = Some (ck\<lparr>errors := errors ck @ es\<rparr>, fs1)" "plain_flow n fs1"
    "self_fields fs1 = g (self_fields fs)" "\<forall>l<n. fs_locals fs1 ! l = E l (fs_locals fs ! l)"
    "reports es \<longleftrightarrow> (\<exists>l<n. R l (fs_locals fs ! l))"
    using actsD [OF assms(1) p] .
  define ck1 where "ck1 = ck\<lparr>errors := errors ck @ es\<rparr>"
  have "provenance ck1 = []" using p(2) by (simp add: ck1_def)
  then obtain es' fs2 where
    2: "m' (ck1, fs1) = Some (ck1\<lparr>errors := errors ck1 @ es'\<rparr>, fs2)"
    "plain_flow n fs2" "self_fields fs2 = g' (self_fields fs1)"
    "\<forall>l<n. fs_locals fs2 ! l = E' l (fs_locals fs1 ! l)"
    "reports es' \<longleftrightarrow> (\<exists>l<n. R' l (fs_locals fs1 ! l))"
    using actsD [OF assms(2) 1(2)] by blast
  have r: "(\<exists>l<n. R' l (fs_locals fs1 ! l)) \<longleftrightarrow> (\<exists>l<n. R' l (E l (fs_locals fs ! l)))"
    using 1(4) by (simp cong: conj_cong)
  show "\<exists>es fs'. do { s' \<leftarrow> m (ck, fs); m' s' } = Some (ck\<lparr>errors := errors ck @ es\<rparr>, fs') \<and> plain_flow n fs' \<and>
      self_fields fs' = g' (g (self_fields fs)) \<and>
      (\<forall>l<n. fs_locals fs' ! l = E' l (E l (fs_locals fs ! l))) \<and>
      (reports es \<longleftrightarrow> (\<exists>l<n. R l (fs_locals fs ! l) \<or> R' l (E l (fs_locals fs ! l))))"
  proof (intro exI [of _ "es @ es'"] exI [of _ fs2] conjI)
    show "do { s' \<leftarrow> m (ck, fs); m' s' } = Some (ck\<lparr>errors := errors ck @ es @ es'\<rparr>, fs2)"
      using 1(1) 2(1) by (simp add: ck1_def)
    show "\<forall>l<n. fs_locals fs2 ! l = E' l (E l (fs_locals fs ! l))" using 1(4) 2(4) by simp
    show "reports (es @ es') \<longleftrightarrow> (\<exists>l<n. R l (fs_locals fs ! l) \<or> R' l (E l (fs_locals fs ! l)))"
      unfolding reports_simps 1(5) 2(5) r by blast
  qed (simp_all add: 1(3) 2(2,3))
qed

lemma acts_cong:
  assumes "acts n E R g m" "\<And>l s. l < n \<Longrightarrow> E' l s = E l s" "\<And>l s. l < n \<Longrightarrow> R' l s \<longleftrightarrow> R l s"
  shows "acts n E' R' g m"
  using assms(1) unfolding acts_def by (simp add: assms(2,3) cong: conj_cong)

lemma acts_operand:
  assumes "n = length (locals f)"
  shows "acts n (\<lambda>l. op_effect f l p) (\<lambda>l s. l \<in> set (op_local p) \<and> s = Moved) (\<lambda>F. F) (check_operand f sp p)"
proof (cases "op_local p")
  case Nil
  then have "p = Constant c" if "p = Constant c" for c using that by simp
  from Nil show ?thesis
    unfolding acts_def
    by (cases p) (auto simp: check_operand_def op_effect_def intro!: exI [of _ "[]"])
next
  case (Cons v vs)
  then have v: "op_local p = [v]" by (cases p) auto
  then have pv: "p = Move v \<or> p = Copy v" by (cases p) auto
  show ?thesis
    unfolding acts_def
  proof (intro allI impI; elim conjE)
    fix ck :: checker and fs assume p: "plain_flow n fs" "provenance ck = []"
    have get: "flow_get fs v = (if v < n then fs_locals fs ! v else Dead)"
      using p by (simp add: flow_get_def get_opt_def plain_flow_def)
    show "\<exists>es fs'. check_operand f sp p (ck, fs) = Some (ck\<lparr>errors := errors ck @ es\<rparr>, fs') \<and>
        plain_flow n fs' \<and> self_fields fs' = self_fields fs \<and>
        (\<forall>l<n. fs_locals fs' ! l = op_effect f l p (fs_locals fs ! l)) \<and>
        (reports es \<longleftrightarrow> (\<exists>l<n. l \<in> set (op_local p) \<and> fs_locals fs ! l = Moved))"
    proof (cases "v < n \<and> fs_locals fs ! v = Initialized \<and> p = Move v \<and> is_move_type (decl_ty (locals f ! v))")
      case True
      then have "check_operand f sp p (ck, fs) =
          Some (ck\<lparr>errors := errors ck @ []\<rparr>, fs\<lparr>fs_locals := (fs_locals fs)[v := Moved], borrows := (borrows fs)[v := (0, False)]\<rparr>)"
        using p(1) v get assms by (auto simp: check_operand_def plain_flow_def flow_set_def)
      moreover have "(replicate n (0 :: nat, False))[v := (0, False)] = replicate n (0, False)"
        using True by (metis list_update_id nth_replicate)
      ultimately show ?thesis
        using True p(1) v pv
        by (intro exI [of _ "[]"] exI [of _ "fs\<lparr>fs_locals := (fs_locals fs)[v := Moved], borrows := (borrows fs)[v := (0, False)]\<rparr>"])
          (auto simp: plain_flow_def op_effect_def nth_list_update)
    next
      case False
      have eff: "\<forall>l<n. fs_locals fs ! l = op_effect f l p (fs_locals fs ! l)"
        using False pv by (auto simp: op_effect_def)
      have "\<exists>es. check_operand f sp p (ck, fs) = Some (ck\<lparr>errors := errors ck @ es\<rparr>, fs) \<and>
          (reports es \<longleftrightarrow> v < n \<and> fs_locals fs ! v = Moved)"
        using False p(1) v pv get assms
        by (cases "flow_get fs v")
          (auto simp: check_operand_def plain_flow_def push_error_def Let_def borrow_error_def
            moved_code_def intro: exI [of _ "[]"] split: if_splits)
      then show ?thesis using eff p(1) v by auto
    qed
  qed
qed

lemma acts_operands:
  assumes "n = length (locals f)"
  shows "acts n (\<lambda>l. ops_effect f l ps) (\<lambda>l. ops_read_moved f l ps) (\<lambda>F. F) (check_operands f sp ps)"
proof (induction ps)
  case Nil
  have "check_operands f sp [] = Some" by (intro ext) simp
  then show ?case using acts_skip by simp
next
  case (Cons p ps)
  have "check_operands f sp (p # ps) = (\<lambda>s. do { s' \<leftarrow> check_operand f sp p s; check_operands f sp ps s' })"
    by (intro ext) simp
  with acts_then [OF acts_operand [OF assms] Cons.IH] show ?case by simp
qed

lemma acts_mutation:
  assumes "\<forall>l\<in>set (op_local p). l < n"
  shows "acts n (\<lambda>l s. s) (\<lambda>l s. False) (\<lambda>F. F) (check_mutation f sp p)"
  using assms
  by (cases p) (auto simp: acts_def check_mutation_def plain_flow_def idx_def intro!: exI [of _ "[]"])

lemma acts_call_mutation:
  assumes "\<forall>p\<in>set args. \<forall>l\<in>set (op_local p). l < n"
  shows "acts n (\<lambda>l s. s) (\<lambda>l s. False) (\<lambda>F. F) (check_call_mutation f sp fn args)"
proof -
  have "check_call_mutation f sp fn args = Some \<or>
      (\<exists>i<length args. check_call_mutation f sp fn args = check_mutation f sp (args ! i))"
    by (cases fn)
      (auto simp: check_call_mutation_def fun_eq_iff get_opt_def split: const.splits option.splits)
  then show ?thesis
    using assms acts_skip acts_mutation by (metis nth_mem)
qed

lemma flow_set_plain:
  assumes "plain_flow n fs"
  shows "flow_set fs d x = Some (Inr (if d < n then fs\<lparr>fs_locals := (fs_locals fs)[d := x]\<rparr> else fs))"
proof -
  have "(replicate n (0 :: nat, False))[d := (0, False)] = replicate n (0, False)" if "d < n"
    using that by (metis list_update_id nth_replicate)
  with assms show ?thesis by (cases fs) (auto simp: flow_set_def plain_flow_def)
qed

lemma plain_flow_update:
  "plain_flow n fs \<Longrightarrow> plain_flow n (if d < n then fs\<lparr>fs_locals := (fs_locals fs)[d := x]\<rparr> else fs)"
  by (simp add: plain_flow_def)

lemma acts_quietly: "acts n (\<lambda>l s. if l = d then x else s) (\<lambda>l s. False) (\<lambda>F. F) (set_quietly d x)"
  unfolding acts_def
  by (auto simp: set_quietly_def flow_set_plain plain_flow_def intro!: exI [of _ "[]"])

lemma acts_drop:
  "acts n (\<lambda>l s. if l = d \<and> s = Initialized then Moved else s) (\<lambda>l s. False) (\<lambda>F. F) (transfer_drop f sp d)"
  unfolding acts_def
  by (auto simp: transfer_drop_def flow_get_def get_opt_def flow_set_plain plain_flow_def
      intro!: exI [of _ "[]"])

definition refless :: "rvalue \<Rightarrow> bool" where
  "refless rv \<longleftrightarrow> (\<forall>l. rv \<noteq> Ref l \<and> rv \<noteq> MutRef l)"

lemma update_provenance_none: "refless rv \<Longrightarrow> update_provenance l rv [] = []"
proof (cases rv)
  case (Use p)
  then show ?thesis by (cases p) (simp_all add: prov_remove_def set_provenance_def prov_get_def)
qed (auto simp: refless_def prov_remove_def set_provenance_def prov_get_def carried_provenance_def
    split: list.splits)

lemma acts_assign_set:
  assumes "refless rv"
  shows "acts n (\<lambda>l s. if l = d then Initialized else s) (\<lambda>l s. False) (\<lambda>F. F)
    (\<lambda>(ck, fs). let ck1 = ck\<lparr>provenance := update_provenance d rv (provenance ck)\<rparr> in
       do { r \<leftarrow> flow_set fs d Initialized;
            (case r of
               Inr fs' \<Rightarrow> Some (ck1, fs')
             | Inl msg \<Rightarrow>
                 Some (push_error (borrow_error ''E0500'' ''conflicting assignment'' sp
                   (msg @ '' '' @ tick (local_name f d))
                   ''each value may only be used once after it is moved'') ck1, fs)) })"
  unfolding acts_def
  by (auto simp: flow_set_plain plain_flow_def update_provenance_none [OF assms]
      intro!: exI [of _ "[]"])

lemma check_operands_one: "check_operands f sp [p] = check_operand f sp p"
proof -
  have "check_operands f sp [] = Some" by (intro ext) simp
  then show ?thesis by (intro ext) (simp add: Option.bind_runit)
qed

lemma ops_effect_Cons: "ops_effect f l (p # ps) = (\<lambda>s. ops_effect f l ps (op_effect f l p s))"
  "ops_read_moved f l (p # ps) =
     (\<lambda>s. l \<in> set (op_local p) \<and> s = Moved \<or> ops_read_moved f l ps (op_effect f l p s))"
  by (intro ext; simp)+

lemma acts_rvalue:
  assumes "n = length (locals f)" "refless rv" "\<forall>l\<in>rv_locals rv. l < n"
  shows "acts n (\<lambda>l. ops_effect f l (rvalue_operands rv)) (\<lambda>l. ops_read_moved f l (rvalue_operands rv))
    (\<lambda>F. F) (check_rvalue f sp rv)"
proof (cases "\<exists>fn args. rv = Call fn args")
  case True
  then obtain fn args where rv: "rv = Call fn args" by blast
  with assms(3) have args: "\<forall>p\<in>set args. \<forall>l\<in>set (op_local p). l < n" by auto
  have "check_rvalue f sp rv = (\<lambda>s. do { s2 \<leftarrow> (do { s1 \<leftarrow> check_operand f sp fn s; check_call_mutation f sp fn args s1 });
      check_operands f sp args s2 })"
    by (intro ext) (simp add: rv Option.bind_assoc)
  with acts_then [OF acts_then [OF acts_operand [OF assms(1), of fn sp] acts_call_mutation [OF args, of f sp fn]]
      acts_operands [OF assms(1), of args sp]]
  show ?thesis by (simp add: rv ops_effect_Cons)
next
  case False
  then have "check_rvalue f sp rv = check_operands f sp (rvalue_operands rv)"
    using assms(2) by (intro ext; cases rv) (auto simp: check_operands_one refless_def simp del: check_operands.simps)
  with acts_operands [OF assms(1)] show ?thesis by simp
qed

fun stmt_fields :: "mir_function \<Rightarrow> statement_kind \<Rightarrow> string set \<Rightarrow> string set" where
  "stmt_fields f (SetAttr ob field _) F =
     (if ends_with (fn_name f) ''::__init__'' \<and> op_local ob = [1] then insert field F else F)"
| "stmt_fields f _ F = F"

definition stmt_plain :: "nat \<Rightarrow> statement_kind \<Rightarrow> bool" where
  "stmt_plain n k \<longleftrightarrow> (\<forall>l\<in>stmt_locals k. l < n) \<and> (\<forall>d rv. k = Assign d rv \<longrightarrow> refless rv)"

lemma acts_note: "acts n (\<lambda>l s. s) (\<lambda>l s. False)
    (\<lambda>F. if ends_with (fn_name f) ''::__init__'' \<and> op_local ob = [1] then insert field F else F)
    (\<lambda>s. Some (note_self_field f ob field s))"
  unfolding acts_def
  by (auto simp: note_self_field_def plain_flow_def intro!: exI [of _ "[]"])

lemma acts_then_quiet:
  assumes "acts n (\<lambda>l s. s) (\<lambda>l s. False) (\<lambda>F. F) m" "acts n E R g m'"
  shows "acts n E R g (\<lambda>s. do { s' \<leftarrow> m s; m' s' })"
  using acts_then [OF assms] by simp

lemma acts_then_final:
  assumes "acts n E R (\<lambda>F. F) m" "acts n E' (\<lambda>l s. False) g m'"
  shows "acts n (\<lambda>l s. E' l (E l s)) R g (\<lambda>s. do { s' \<leftarrow> m s; m' s' })"
  using acts_then [OF assms] by simp

lemma acts_assign:
  assumes "n = length (locals f)" "refless rv" "\<forall>l\<in>rv_locals rv. l < n"
  shows "acts n (\<lambda>l s. if l = d then Initialized else ops_effect f l (rvalue_operands rv) s)
    (\<lambda>l. ops_read_moved f l (rvalue_operands rv)) (\<lambda>F. F) (transfer_assign f sp d rv)"
proof -
  have "transfer_assign f sp d rv = (\<lambda>s. do { s' \<leftarrow> check_rvalue f sp rv s;
      (\<lambda>(ck, fs). let ck1 = ck\<lparr>provenance := update_provenance d rv (provenance ck)\<rparr> in
       do { r \<leftarrow> flow_set fs d Initialized;
            (case r of
               Inr fs' \<Rightarrow> Some (ck1, fs')
             | Inl msg \<Rightarrow>
                 Some (push_error (borrow_error ''E0500'' ''conflicting assignment'' sp
                   (msg @ '' '' @ tick (local_name f d))
                   ''each value may only be used once after it is moved'') ck1, fs)) }) s' })"
    by (intro ext) (simp add: transfer_assign_def case_prod_beta')
  with acts_then_final [OF acts_rvalue [OF assms, of sp] acts_assign_set [OF assms(2), of n d sp f]]
  show ?thesis by simp
qed

lemma acts_stmt:
  assumes "n = length (locals f)" "stmt_plain n k"
  shows "acts n (\<lambda>l. stmt_effect f l k) (\<lambda>l. stmt_reads_moved f l k) (stmt_fields f k) (transfer_stmt f sp k)"
proof -
  note ops = acts_operands [OF assms(1)]
  have skip: "acts n (\<lambda>l s. s) (\<lambda>l s. False) (\<lambda>F. F) (\<lambda>s. Some s)" by (rule acts_skip)
  note e = stmt_effect_def stmt_reads_moved_def
  have mut: "acts n (\<lambda>l s. s) (\<lambda>l s. False) (\<lambda>F. F) (check_mutation f sp ob)"
    if "\<forall>l\<in>set (op_local ob). l < n" for ob
    using that by (rule acts_mutation)
  show ?thesis
  proof (cases k)
    case (Assign d rv)
    with assms have "refless rv" "\<forall>l\<in>rv_locals rv. l < n" by (auto simp: stmt_plain_def)
    from acts_assign [OF assms(1) this, of d sp] Assign show ?thesis by (simp add: e fun_eq_iff acts_def)
  next
    case (SetAttr ob a v)
    with assms have "\<forall>l\<in>set (op_local ob). l < n" by (auto simp: stmt_plain_def)
    from acts_then_quiet [OF mut [OF this] acts_then_final [OF ops acts_note [of n f ob a]], of "[ob, v]" sp]
    show ?thesis by (simp add: SetAttr e fun_eq_iff acts_def del: ops_effect.simps ops_read_moved.simps check_operands.simps)
  next
    case (SetIndex ob ix v u)
    with assms have "\<forall>l\<in>set (op_local ob). l < n" by (auto simp: stmt_plain_def)
    from acts_then_quiet [OF mut [OF this] ops, of "[ob, ix, v]" sp]
    show ?thesis by (simp add: SetIndex e fun_eq_iff acts_def del: ops_effect.simps ops_read_moved.simps check_operands.simps)
  next
    case (VectorStore ob ix v)
    with assms have "\<forall>l\<in>set (op_local ob). l < n" by (auto simp: stmt_plain_def)
    from acts_then_quiet [OF mut [OF this] ops, of "[ob, ix, v]" sp]
    show ?thesis by (simp add: VectorStore e fun_eq_iff acts_def del: ops_effect.simps ops_read_moved.simps check_operands.simps)
  next
    case (PtrStore p v)
    from ops [of "[p, v]" sp]
    show ?thesis by (simp add: PtrStore e fun_eq_iff acts_def del: ops_effect.simps ops_read_moved.simps check_operands.simps)
  next
    case (StorageLive d)
    with acts_quietly [of n d Initialized] show ?thesis by (simp add: e acts_def)
  next
    case (StorageDead d)
    with acts_quietly [of n d Dead] show ?thesis by (simp add: e acts_def)
  next
    case (Drop d)
    with acts_drop [of n d f sp] show ?thesis by (simp add: e acts_def)
  next
    case (GenCheck v g)
    with skip show ?thesis by (simp add: e acts_def)
  qed
qed

lemma acts_release: "acts n (\<lambda>l s. s) (\<lambda>l s. False) (\<lambda>F. F) (release_dead_borrows live)"
  unfolding acts_def by (auto simp: release_dead_borrows_def intro!: exI [of _ "[]"])

fun stmts_fields :: "mir_function \<Rightarrow> statement list \<Rightarrow> string set \<Rightarrow> string set" where
  "stmts_fields f [] F = F"
| "stmts_fields f (x # xs) F = stmts_fields f xs (stmt_fields f (kind x) F)"

lemma acts_stmts:
  assumes "n = length (locals f)"
  shows "\<forall>x\<in>set ss. stmt_plain n (kind x) \<Longrightarrow> i + length ss < length row \<Longrightarrow>
    acts n (\<lambda>l. stmts_effect f l ss) (\<lambda>l. stmts_read_moved f l ss) (stmts_fields f ss) (check_stmts f row i ss)"
proof (induction ss arbitrary: i)
  case Nil
  then show ?case using acts_skip by (simp add: acts_def)
next
  case (Cons x xs)
  then have k: "stmt_plain n (kind x)" and row: "i + 1 < length row"
    and ih: "acts n (\<lambda>l. stmts_effect f l xs) (\<lambda>l. stmts_read_moved f l xs) (stmts_fields f xs)
      (check_stmts f row (i + 1) xs)"
    by auto
  have "check_stmts f row i (x # xs) =
      (\<lambda>s. do { s1 \<leftarrow> transfer_stmt f (span_of x) (kind x) s;
                (\<lambda>s1. do { s2 \<leftarrow> release_dead_borrows (row ! (i + 1)) s1; check_stmts f row (i + 1) xs s2 }) s1 })"
    using row by (intro ext) simp
  with acts_then [OF acts_stmt [OF assms k, of "span_of x"] acts_then_quiet [OF acts_release ih, of "row ! (i + 1)"]]
  show ?case by (simp add: acts_def)
qed

lemma acts_missing_fields:
  "acts n (\<lambda>l s. s) (\<lambda>l s. False) (\<lambda>F. F)
     (\<lambda>s. Some (fold (\<lambda>field (ck, fs).
        (if field \<notin> self_fields fs then push_error (missing_field_error nm sp field) ck else ck, fs)) fnames s))"
proof (induction fnames)
  case Nil
  show ?case using acts_skip by (simp add: acts_def)
next
  case (Cons a fnames)
  have "acts n (\<lambda>l s. s) (\<lambda>l s. False) (\<lambda>F. F)
      (\<lambda>(ck, fs). Some (if a \<notin> self_fields fs then push_error (missing_field_error nm sp a) ck else ck, fs))"
    unfolding acts_def
    by (force simp: push_error_def missing_field_error_def borrow_error_def moved_code_def
        intro: exI [of _ "[]"])
  from acts_then_quiet [OF this Cons.IH] show ?case by (simp add: case_prod_beta' acts_def)
qed

lemma acts_terminator:
  assumes "n = length (locals f)"
  shows "acts n (\<lambda>l. ops_effect f l (term_ops (Some t))) (\<lambda>l. ops_read_moved f l (term_ops (Some t)))
    (\<lambda>F. F) (check_terminator sfs f t)"
proof -
  have skip: "acts n (\<lambda>l s. s) (\<lambda>l s. False) (\<lambda>F. F) (\<lambda>s. Some s)" by (rule acts_skip)
  show ?thesis
  proof (cases "term_kind t")
    case (SwitchInt p ts d)
    then have "check_terminator sfs f t = check_operands f (term_span t) [p]"
      by (simp add: check_terminator_def fun_eq_iff check_operands_one)
    with acts_operands [OF assms, of "[p]"] SwitchInt show ?thesis by (simp add: term_ops_def)
  next
    case Return
    then show ?thesis
      using skip acts_missing_fields [of n]
      by (cases "ends_with (fn_name f) ''::__init__''";
          cases "sfs (trim_end_matches (fn_name f) ''::__init__'')")
        (simp_all add: check_terminator_def term_ops_def acts_def Let_def)
  qed (use skip in \<open>simp_all add: check_terminator_def term_ops_def acts_def\<close>)
qed

definition fn_plain :: "mir_function \<Rightarrow> bool" where
  "fn_plain f \<longleftrightarrow>
     (\<forall>bb\<in>set (basic_blocks f). \<forall>x\<in>set (statements bb). stmt_plain (length (locals f)) (kind x))"

definition block_fields :: "mir_function \<Rightarrow> nat \<Rightarrow> string set \<Rightarrow> string set" where
  "block_fields f b = stmts_fields f (statements (basic_blocks f ! b))"

lemma acts_block:
  assumes "n = length (locals f)" "fn_plain f" "table_ok f tbl" "b < length (basic_blocks f)"
  shows "acts n (\<lambda>l. block_effect f l b) (\<lambda>l. block_reads_moved f l b) (block_fields f b) (check_block sfs f tbl b)"
proof -
  let ?bb = "basic_blocks f ! b" and ?row = "tbl ! b"
  have row: "length ?row = length (statements ?bb) + 1" "b < length tbl"
    using assms(3,4) by (auto simp: table_ok_def)
  have ss: "acts n (\<lambda>l. stmts_effect f l (statements ?bb)) (\<lambda>l. stmts_read_moved f l (statements ?bb))
      (stmts_fields f (statements ?bb)) (check_stmts f ?row 0 (statements ?bb))"
    using assms(1,2,4) row by (intro acts_stmts) (auto simp: fn_plain_def)
  have tm: "acts n (\<lambda>l. ops_effect f l (term_ops (terminator ?bb))) (\<lambda>l. ops_read_moved f l (term_ops (terminator ?bb)))
      (\<lambda>F. F) (\<lambda>s. case terminator ?bb of Some t \<Rightarrow> check_terminator sfs f t s | None \<Rightarrow> Some s)"
  proof (cases "terminator ?bb")
    case None
    then show ?thesis using acts_skip [of n] by (simp add: term_ops_def acts_def)
  next
    case (Some t)
    then show ?thesis using acts_terminator [OF assms(1)] by simp
  qed
  have "check_block sfs f tbl b =
      (\<lambda>s. do { s1 \<leftarrow> check_stmts f ?row 0 (statements ?bb) s;
                (\<lambda>s1. do { s2 \<leftarrow> (\<lambda>s. case terminator ?bb of Some t \<Rightarrow> check_terminator sfs f t s | None \<Rightarrow> Some s) s1;
                           release_dead_borrows (?row ! length (statements ?bb)) s2 }) s1 })"
    using row assms(4) by (intro ext) (simp add: check_block_def)
  with acts_then [OF ss acts_then_final [OF tm acts_release]]
  show ?thesis by (simp add: block_effect_def block_reads_moved_def block_fields_def acts_def)
qed

end
