(* ===== verification/MoveSound.thy ===== *)
theory MoveSound
  imports MoveCheck
begin

text \<open>
  The work list of the borrow checker on functions without references: it ends within an explicit
  number of turns, and at the end a use after a move has been reported exactly when one exists on
  some path.
\<close>

subsection \<open>Weights\<close>

definition all_fields :: "mir_function \<Rightarrow> string set" where
  "all_fields f =
     (\<Union>bb\<in>set (basic_blocks f). \<Union>s\<in>set (statements bb).
        case kind s of SetAttr _ a _ \<Rightarrow> {a} | _ \<Rightarrow> {})"

lemma finite_all_fields [simp]: "finite (all_fields f)"
  by (auto simp: all_fields_def split: statement_kind.splits)

lemma stmts_fields_subset:
  "stmts_fields f ss F \<subseteq> F \<union> (\<Union>s\<in>set ss. case kind s of SetAttr _ a _ \<Rightarrow> {a} | _ \<Rightarrow> {})"
proof (induction ss arbitrary: F)
  case (Cons s ss)
  have "stmt_fields f (kind s) F \<subseteq> F \<union> (case kind s of SetAttr _ a _ \<Rightarrow> {a} | _ \<Rightarrow> {})"
    by (cases "kind s") auto
  with Cons [of "stmt_fields f (kind s) F"] show ?case by fastforce
qed simp

lemma block_fields_all:
  assumes "b < length (basic_blocks f)" "F \<subseteq> all_fields f"
  shows "block_fields f b F \<subseteq> all_fields f"
proof -
  have "basic_blocks f ! b \<in> set (basic_blocks f)" using assms(1) by simp
  then have "(\<Union>s\<in>set (statements (basic_blocks f ! b)). case kind s of SetAttr _ a _ \<Rightarrow> {a} | _ \<Rightarrow> {}) \<subseteq> all_fields f"
    unfolding all_fields_def by blast
  with stmts_fields_subset [of f "statements (basic_blocks f ! b)" F] assms(2) show ?thesis
    unfolding block_fields_def by blast
qed

definition entry_weight :: "mir_function \<Rightarrow> flow_state option \<Rightarrow> nat" where
  "entry_weight f e =
     (case e of
        None \<Rightarrow> 2 * length (locals f) + card (all_fields f) + 1
      | Some fs \<Rightarrow> (\<Sum>l<length (locals f). 2 - rank (fs_locals fs ! l)) + card (self_fields fs))"

definition table_weight :: "mir_function \<Rightarrow> flow_state option list \<Rightarrow> nat" where
  "table_weight f es = (\<Sum>b<length (basic_blocks f). entry_weight f (es ! b))"

lemma table_weight_update:
  assumes "t < length (basic_blocks f)" "length es = length (basic_blocks f)"
  shows "table_weight f (es[t := e]) + entry_weight f (es ! t) = table_weight f es + entry_weight f e"
proof -
  let ?n = "length (basic_blocks f)"
  have "table_weight f es' = entry_weight f (es' ! t) + (\<Sum>b\<in>{..<?n} - {t}. entry_weight f (es' ! b))" for es'
    using assms(1) by (simp add: table_weight_def sum.remove [of _ t])
  from this [of es] this [of "es[t := e]"] show ?thesis using assms by (simp cong: sum.cong_simp)
qed

lemma entry_weight_new:
  assumes "self_fields fs \<subseteq> all_fields f"
  shows "entry_weight f (Some fs) < entry_weight f None"
proof -
  have "(\<Sum>l<length (locals f). 2 - rank (fs_locals fs ! l)) \<le> (\<Sum>l<length (locals f). 2)"
    by (rule sum_mono) simp
  with card_mono [OF finite_all_fields assms] show ?thesis by (simp add: entry_weight_def)
qed

subsection \<open>Joins of plain states\<close>

lemma flow_join_plain:
  assumes "plain_flow n a" "plain_flow n b" "flow_join a b = (c, changed)"
  shows "plain_flow n c" "self_fields c = self_fields a \<inter> self_fields b"
    "\<forall>l<n. fs_locals c ! l = max (fs_locals a ! l) (fs_locals b ! l)" "changed \<longleftrightarrow> c \<noteq> a"
proof -
  have "shaped n a" "shaped n b" using assms by (auto simp: plain_flow_def shaped_def)
  from flow_join_shaped [OF this] assms show "plain_flow n c" "self_fields c = self_fields a \<inter> self_fields b"
    "\<forall>l<n. fs_locals c ! l = max (fs_locals a ! l) (fs_locals b ! l)" "changed \<longleftrightarrow> c \<noteq> a"
    by (auto simp: plain_flow_def merge_borrow_def list_eq_iff_nth_eq)
qed

lemma entry_weight_join:
  assumes "plain_flow (length (locals f)) a" "plain_flow (length (locals f)) b" "flow_join a b = (c, True)"
    "self_fields a \<subseteq> all_fields f"
  shows "entry_weight f (Some c) < entry_weight f (Some a)"
proof -
  let ?n = "length (locals f)"
  note j = flow_join_plain [OF assms(1-3)]
  have le: "2 - rank (fs_locals c ! l) \<le> 2 - rank (fs_locals a ! l)" if "l < ?n" for l
    using j(3) that by (metis diff_le_mono2 local_state_le_iff max.cobounded1)
  have sums: "(\<Sum>l<?n. 2 - rank (fs_locals c ! l)) \<le> (\<Sum>l<?n. 2 - rank (fs_locals a ! l))"
    using le by (intro sum_mono) auto
  have fin: "finite (self_fields a)" by (rule finite_subset [OF assms(4)]) simp
  have cards: "card (self_fields c) \<le> card (self_fields a)"
    using j(2) fin by (intro card_mono) auto
  show ?thesis
  proof (cases "self_fields c = self_fields a")
    case False
    then have "card (self_fields c) < card (self_fields a)"
      using j(2) fin by (intro psubset_card_mono) auto
    with sums show ?thesis by (simp add: entry_weight_def)
  next
    case True
    have "fs_locals c \<noteq> fs_locals a"
      using j(1,4) True assms(1) by (cases a; cases c) (auto simp: plain_flow_def)
    then obtain l where l: "l < ?n" "fs_locals c ! l \<noteq> fs_locals a ! l"
      using j(1) assms(1) by (auto simp: plain_flow_def list_eq_iff_nth_eq)
    then have "fs_locals a ! l < fs_locals c ! l" using j(3) by (auto simp: max_def split: if_splits)
    then have "2 - rank (fs_locals c ! l) < 2 - rank (fs_locals a ! l)"
      using rank_le [of "fs_locals c ! l"] by (simp add: less_local_state_def)
    then have "(\<Sum>l<?n. 2 - rank (fs_locals c ! l)) < (\<Sum>l<?n. 2 - rank (fs_locals a ! l))"
      using le l(1) by (intro sum_strict_mono_ex1) auto
    with cards show ?thesis by (simp add: entry_weight_def)
  qed
qed

subsection \<open>The state of the work list\<close>

definition entry_fits :: "mir_function \<Rightarrow> nat \<Rightarrow> flow_state \<Rightarrow> bool" where
  "entry_fits f b fs \<longleftrightarrow>
     plain_flow (length (locals f)) fs \<and> self_fields fs \<subseteq> all_fields f \<and>
     (\<forall>l<length (locals f). local_at f l b (fs_locals fs ! l))"

definition entries_ok :: "mir_function \<Rightarrow> flow_state option list \<Rightarrow> bool" where
  "entries_ok f es \<longleftrightarrow> length es = length (basic_blocks f) \<and>
     (\<forall>b<length (basic_blocks f). \<forall>fs. es ! b = Some fs \<longrightarrow> entry_fits f b fs)"

definition queue_ok :: "mir_function \<Rightarrow> work \<Rightarrow> bool" where
  "queue_ok f w \<longleftrightarrow>
     length (in_worklist w) = length (basic_blocks f) \<and> distinct (worklist w) \<and>
     set (worklist w) \<subseteq> {..<length (basic_blocks f)} \<and>
     (\<forall>b<length (basic_blocks f). in_worklist w ! b \<longleftrightarrow> b \<in> set (worklist w)) \<and>
     (\<forall>b\<in>set (worklist w). entry_states w ! b \<noteq> None)"

definition below :: "mir_function \<Rightarrow> (local \<Rightarrow> local_state) \<Rightarrow> flow_state option \<Rightarrow> bool" where
  "below f g e \<longleftrightarrow> (\<exists>fs. e = Some fs \<and> (\<forall>l<length (locals f). g l \<le> fs_locals fs ! l))"

definition grows :: "mir_function \<Rightarrow> flow_state option \<Rightarrow> flow_state option \<Rightarrow> bool" where
  "grows f e e' \<longleftrightarrow> (\<forall>g. below f g e \<longrightarrow> below f g e')"

lemma entry_fits_join:
  assumes "entry_fits f t a" "entry_fits f t b" "flow_join a b = (c, changed)"
  shows "entry_fits f t c"
proof -
  have "plain_flow (length (locals f)) a" "plain_flow (length (locals f)) b"
    using assms by (auto simp: entry_fits_def)
  from flow_join_plain [OF this assms(3)] assms(1,2) show ?thesis
    by (auto simp: entry_fits_def max_def)
qed

text \<open>What one turn of the inner loop does.\<close>

definition turn_ok :: "mir_function \<Rightarrow> flow_state \<Rightarrow> nat list \<Rightarrow> work \<Rightarrow> work \<Rightarrow> bool" where
  "turn_ok f fs ss w w' \<longleftrightarrow>
     w_checker w' = w_checker w \<and> entries_ok f (entry_states w') \<and> queue_ok f w' \<and>
     set (worklist w) \<subseteq> set (worklist w') \<and>
     (\<forall>b<length (basic_blocks f). grows f (entry_states w ! b) (entry_states w' ! b) \<and>
        (entry_states w' ! b = entry_states w ! b \<or> b \<in> set (worklist w'))) \<and>
     (\<forall>t\<in>set ss. below f (\<lambda>l. fs_locals fs ! l) (entry_states w' ! t)) \<and>
     2 * table_weight f (entry_states w') + length (worklist w')
       \<le> 2 * table_weight f (entry_states w) + length (worklist w)"

lemma turn_ok_Nil: "entries_ok f (entry_states w) \<Longrightarrow> queue_ok f w \<Longrightarrow> turn_ok f fs [] w w"
  by (simp add: turn_ok_def grows_def)

lemma turn_ok_Cons:
  assumes "turn_ok f fs [t] w w1" "turn_ok f fs ss w1 w2" "t < length (basic_blocks f)"
  shows "turn_ok f fs (t # ss) w w2"
  using assms unfolding turn_ok_def grows_def by (auto 4 4)

text \<open>One successor: its entry takes in the state, and it is queued when the entry grew.\<close>

definition visit :: "flow_state \<Rightarrow> nat \<Rightarrow> work \<Rightarrow> work option" where
  "visit fs t w = propagate_to fs [t] w"

lemma propagate_to_Cons:
  "propagate_to fs (t # ss) w = do { w1 \<leftarrow> visit fs t w; propagate_to fs ss w1 }"
  by (simp add: visit_def Let_def case_prod_beta' split: option.splits cong: option.case_cong)

lemma queue_ok_push:
  assumes "queue_ok f w" "t < length (basic_blocks f)" "length (entry_states w) = length (basic_blocks f)"
  shows "queue_ok f (w\<lparr>entry_states := (entry_states w)[t := Some e]\<rparr>)"
    "t \<notin> set (worklist w) \<Longrightarrow>
       queue_ok f (w\<lparr>entry_states := (entry_states w)[t := Some e], worklist := worklist w @ [t],
                     in_worklist := (in_worklist w)[t := True]\<rparr>)"
  using assms by (auto simp: queue_ok_def nth_list_update)

lemma visit_ok:
  assumes w: "entries_ok f (entry_states w)" "queue_ok f w" and t: "t < length (basic_blocks f)"
    and fs: "entry_fits f t fs"
  shows "\<exists>w'. visit fs t w = Some w' \<and> turn_ok f fs [t] w w'"
proof -
  have len: "length (entry_states w) = length (basic_blocks f)" "length (in_worklist w) = length (basic_blocks f)"
    and q: "in_worklist w ! t \<longleftrightarrow> t \<in> set (worklist w)"
    using w t by (auto simp: entries_ok_def queue_ok_def)
  define r where "r = (case entry_states w ! t of None \<Rightarrow> (fs, True) | Some old \<Rightarrow> flow_join old fs)"
  obtain e changed where e: "r = (e, changed)" by fastforce
  have "entry_fits f t e \<and> grows f (entry_states w ! t) (Some e) \<and> below f (\<lambda>l. fs_locals fs ! l) (Some e) \<and>
      (changed \<longrightarrow> entry_weight f (Some e) < entry_weight f (entry_states w ! t)) \<and>
      (\<not> changed \<longrightarrow> Some e = entry_states w ! t)"
  proof (cases "entry_states w ! t")
      case None
      with e fs entry_weight_new [of fs f]
      show ?thesis
        by (auto simp: r_def grows_def below_def entry_fits_def)
    next
      case (Some old)
      then have old: "entry_fits f t old" using w(1) t by (simp add: entries_ok_def)
      have j: "flow_join old fs = (e, changed)" using e Some by (simp add: r_def)
      have plain: "plain_flow (length (locals f)) old" "plain_flow (length (locals f)) fs"
        using old fs by (auto simp: entry_fits_def)
      have "changed \<Longrightarrow> entry_weight f (Some e) < entry_weight f (Some old)"
        using entry_weight_join [OF plain] j old by (auto simp: entry_fits_def)
      with flow_join_plain [OF plain j] entry_fits_join [OF old fs j] Some
      show ?thesis
        by (auto simp: grows_def below_def intro: max.coboundedI1)
  qed
  then have fits: "entry_fits f t e"
    and up: "grows f (entry_states w ! t) (Some e)" "below f (\<lambda>l. fs_locals fs ! l) (Some e)"
    and weight: "changed \<Longrightarrow> entry_weight f (Some e) < entry_weight f (entry_states w ! t)"
    and same: "\<not> changed \<Longrightarrow> Some e = entry_states w ! t"
    by blast+
  define w' where "w' = (let w1 = w\<lparr>entry_states := (entry_states w)[t := Some e]\<rparr> in
      if changed \<and> \<not> in_worklist w ! t
      then w1\<lparr>worklist := worklist w @ [t], in_worklist := (in_worklist w)[t := True]\<rparr> else w1)"
  have "visit fs t w = Some w'"
    using len t e by (simp add: visit_def r_def w'_def Let_def)
  moreover have "turn_ok f fs [t] w w'"
    unfolding turn_ok_def
  proof (intro conjI)
    show "w_checker w' = w_checker w" "set (worklist w) \<subseteq> set (worklist w')"
      by (auto simp: w'_def Let_def)
    show "entries_ok f (entry_states w')"
      using w(1) fits t by (auto simp: entries_ok_def w'_def Let_def nth_list_update)
    show "queue_ok f w'"
      using queue_ok_push [OF w(2) t len(1)] q by (simp add: w'_def Let_def)
    show "\<forall>b<length (basic_blocks f). grows f (entry_states w ! b) (entry_states w' ! b) \<and>
        (entry_states w' ! b = entry_states w ! b \<or> b \<in> set (worklist w'))"
      using up(1) same q len t by (auto simp: w'_def Let_def nth_list_update grows_def)
    show "\<forall>t\<in>set [t]. below f (\<lambda>l. fs_locals fs ! l) (entry_states w' ! t)"
      using up(2) len t by (simp add: w'_def Let_def)
    have "table_weight f (entry_states w') + entry_weight f (entry_states w ! t)
        = table_weight f (entry_states w) + entry_weight f (Some e)"
      using table_weight_update [OF t len(1)] by (simp add: w'_def Let_def)
    with weight same show "2 * table_weight f (entry_states w') + length (worklist w')
        \<le> 2 * table_weight f (entry_states w) + length (worklist w)"
      by (cases changed) (auto simp: w'_def Let_def)
  qed
  ultimately show ?thesis by blast
qed

lemma propagate_ok:
  "entries_ok f (entry_states w) \<Longrightarrow> queue_ok f w \<Longrightarrow>
   \<forall>t\<in>set ss. t < length (basic_blocks f) \<and> entry_fits f t fs \<Longrightarrow>
   \<exists>w'. propagate_to fs ss w = Some w' \<and> turn_ok f fs ss w w'"
proof (induction ss arbitrary: w)
  case Nil
  then show ?case by (simp add: turn_ok_Nil)
next
  case (Cons t ss)
  then obtain w1 where w1: "visit fs t w = Some w1" "turn_ok f fs [t] w w1"
    using visit_ok by (meson list.set_intros(1))
  then have "entries_ok f (entry_states w1)" "queue_ok f w1" by (auto simp: turn_ok_def)
  with Cons obtain w2 where "propagate_to fs ss w1 = Some w2" "turn_ok f fs ss w1 w2" by auto
  with w1 Cons.prems(3) turn_ok_Cons show ?case
    by (auto simp: propagate_to_Cons simp del: propagate_to.simps)
qed

subsection \<open>Turns of the outer loop\<close>

definition settled :: "mir_function \<Rightarrow> work \<Rightarrow> nat \<Rightarrow> bool" where
  "settled f w b \<longleftrightarrow>
     (\<forall>fs. entry_states w ! b = Some fs \<longrightarrow>
        (\<forall>t\<in>set (successors (basic_blocks f ! b)).
           below f (\<lambda>l. block_effect f l b (fs_locals fs ! l)) (entry_states w ! t)) \<and>
        ((\<exists>l<length (locals f). block_reads_moved f l b (fs_locals fs ! l)) \<longrightarrow> reports (errors (w_checker w))))"

definition work_inv :: "mir_function \<Rightarrow> work \<Rightarrow> bool" where
  "work_inv f w \<longleftrightarrow>
     entries_ok f (entry_states w) \<and> queue_ok f w \<and> provenance (w_checker w) = [] \<and>
     below f (first_state f) (entry_states w ! 0) \<and>
     (reports (errors (w_checker w)) \<longrightarrow> use_after_move f) \<and>
     (\<forall>b<length (basic_blocks f). b \<notin> set (worklist w) \<longrightarrow> settled f w b)"

definition work_left :: "mir_function \<Rightarrow> work \<Rightarrow> nat" where
  "work_left f w = 2 * table_weight f (entry_states w) + length (worklist w)"

lemma checker_successors_eq: "checker_successors bb = successors bb"
  by (simp add: checker_successors_def successors_def)

lemma settled_turn:
  assumes "settled f w b" "turn_ok f fs ss w0 w'" "b < length (basic_blocks f)" "b \<notin> set (worklist w')"
    "entry_states w0 = entry_states w" "reports (errors (w_checker w)) \<longrightarrow> reports (errors (w_checker w0))"
    "\<forall>t\<in>set (successors (basic_blocks f ! b)). t < length (basic_blocks f)"
  shows "settled f w' b"
proof -
  have "entry_states w' ! b = entry_states w ! b" "w_checker w' = w_checker w0"
    and g: "\<forall>t<length (basic_blocks f). grows f (entry_states w ! t) (entry_states w' ! t)"
    using assms(2-5) by (auto simp: turn_ok_def)
  with assms(1,6,7) show ?thesis unfolding settled_def grows_def by (metis (no_types, lifting))
qed

lemma work_step_ok:
  assumes f: "wf_edges f" "fn_plain f" "table_ok f tbl" and inv: "work_inv f w" and ne: "worklist w = b # rest"
  shows "\<exists>w'. work_step sfs f tbl w = Some w' \<and> work_inv f w' \<and> work_left f w' < work_left f w"
proof -
  let ?n = "length (locals f)"
  have b: "b < length (basic_blocks f)" and q: "queue_ok f w" and e: "entries_ok f (entry_states w)"
    and prov: "provenance (w_checker w) = []"
    using inv ne by (auto simp: work_inv_def queue_ok_def)
  have succ: "\<forall>t\<in>set (successors (basic_blocks f ! c)). t < length (basic_blocks f)" if "c < length (basic_blocks f)" for c
    using f(1) that by (auto simp: wf_edges_def successors_eq)
  obtain fs where fs: "entry_states w ! b = Some fs" using q ne by (auto simp: queue_ok_def)
  then have fits: "entry_fits f b fs" using e b by (auto simp: entries_ok_def)
  then have plain: "plain_flow ?n fs" by (simp add: entry_fits_def)
  obtain es fs' where cb: "check_block sfs f tbl b (w_checker w, fs) =
        Some ((w_checker w)\<lparr>errors := errors (w_checker w) @ es\<rparr>, fs')"
    and fs': "plain_flow ?n fs'" "self_fields fs' = block_fields f b (self_fields fs)"
      "\<forall>l<?n. fs_locals fs' ! l = block_effect f l b (fs_locals fs ! l)"
    and es: "reports es \<longleftrightarrow> (\<exists>l<?n. block_reads_moved f l b (fs_locals fs ! l))"
    using actsD [OF acts_block [OF refl f(2,3) b] plain prov] by metis
  define w0 where "w0 = w\<lparr>worklist := rest, in_worklist := (in_worklist w)[b := False],
      w_checker := (w_checker w)\<lparr>errors := errors (w_checker w) @ es\<rparr>\<rparr>"
  have w0: "entries_ok f (entry_states w0)" "queue_ok f w0"
    using e q ne b by (auto simp: w0_def queue_ok_def nth_list_update)
  have "\<forall>t\<in>set (successors (basic_blocks f ! b)). t < length (basic_blocks f) \<and> entry_fits f t fs'"
  proof
    fix t assume t: "t \<in> set (successors (basic_blocks f ! b))"
    have "local_at f l t (fs_locals fs' ! l)" if "l < ?n" for l
      using fits fs'(3) that local_at.edge [OF _ b t] by (auto simp: entry_fits_def)
    then show "t < length (basic_blocks f) \<and> entry_fits f t fs'"
      using succ [OF b] t fs'(1,2) block_fields_all [OF b] fits by (auto simp: entry_fits_def)
  qed
  from propagate_ok [OF w0 this] obtain w' where
    w': "propagate_to fs' (successors (basic_blocks f ! b)) w0 = Some w'"
      "turn_ok f fs' (successors (basic_blocks f ! b)) w0 w'"
    by blast
  have "work_step sfs f tbl w = Some w'"
    using w'(1) cb fs b ne e by (simp add: work_step_def w0_def checker_successors_eq entries_ok_def)
  moreover have "work_left f w' < work_left f w"
    using w'(2) ne by (simp add: work_left_def turn_ok_def w0_def)
  moreover have "work_inv f w'"
    unfolding work_inv_def
  proof (intro conjI allI impI)
    show "entries_ok f (entry_states w')" "queue_ok f w'" "provenance (w_checker w') = []"
      using w'(2) prov by (auto simp: turn_ok_def w0_def)
    show "below f (first_state f) (entry_states w' ! 0)"
    proof -
      have "0 < length (basic_blocks f)" using b by linarith
      then have "grows f (entry_states w ! 0) (entry_states w' ! 0)"
        using w'(2) unfolding turn_ok_def w0_def by auto
      with inv show ?thesis by (simp add: grows_def work_inv_def)
    qed
    assume "reports (errors (w_checker w'))"
    then have "reports (errors (w_checker w)) \<or> reports es" using w'(2) by (simp add: turn_ok_def w0_def)
    then show "use_after_move f"
      using inv es fits b unfolding work_inv_def use_after_move_def entry_fits_def by blast
  next
    fix c assume c: "c < length (basic_blocks f)" "c \<notin> set (worklist w')"
    show "settled f w' c"
    proof (cases "c = b")
      case False
      then have "settled f w c" using inv c w'(2) ne by (auto simp: work_inv_def turn_ok_def w0_def)
      from this w'(2) c show ?thesis
        by (rule settled_turn) (use succ [OF c(1)] in \<open>auto simp: w0_def\<close>)
    next
      case True
      then have "entry_states w' ! b = Some fs" using w'(2) c fs by (auto simp: turn_ok_def w0_def)
      moreover have "below f (\<lambda>l. block_effect f l b (fs_locals fs ! l)) (entry_states w' ! t)"
        if "t \<in> set (successors (basic_blocks f ! b))" for t
        using w'(2) fs'(3) that by (auto simp: turn_ok_def below_def)
      moreover have "w_checker w' = w_checker w0" using w'(2) by (simp add: turn_ok_def)
      ultimately show ?thesis using True es by (auto simp: settled_def w0_def)
    qed
  qed
  ultimately show ?thesis by blast
qed

lemma check_fuel_ends:
  assumes "wf_edges f" "fn_plain f" "table_ok f tbl"
  shows "work_inv f w \<Longrightarrow> work_left f w \<le> n \<Longrightarrow>
    \<exists>w'. check_fuel n sfs f tbl w = Some (Some w') \<and> work_inv f w' \<and> worklist w' = []"
proof (induction n arbitrary: w)
  case 0
  then have "worklist w = []" by (simp add: work_left_def)
  with 0 show ?case by (simp add: check_fuel.simps)
next
  case (Suc n)
  show ?case
  proof (cases "worklist w")
    case Nil
    with Suc.prems show ?thesis by (simp add: check_fuel.simps)
  next
    case (Cons b rest)
    obtain w1 where "work_step sfs f tbl w = Some w1" "work_inv f w1" "work_left f w1 < work_left f w"
      using work_step_ok [OF assms Suc.prems(1) Cons] by blast
    with Suc.IH [of w1] Suc.prems(2) Cons show ?thesis by (subst check_fuel.simps) simp
  qed
qed

lemma settled_paths:
  assumes "work_inv f w" "worklist w = []" "wf_edges f" "l < length (locals f)"
  shows "local_at f l b s \<Longrightarrow> b < length (basic_blocks f) \<and>
    (\<exists>fs. entry_states w ! b = Some fs \<and> s \<le> fs_locals fs ! l)"
proof (induction rule: local_at.induct)
  case entry
  then show ?case using assms by (auto simp: work_inv_def below_def wf_edges_def)
next
  case (edge b s t)
  then obtain fs where fs: "entry_states w ! b = Some fs" "s \<le> fs_locals fs ! l" by blast
  have "settled f w b" using assms(1,2) edge.hyps by (simp add: work_inv_def)
  then have "below f (\<lambda>l. block_effect f l b (fs_locals fs ! l)) (entry_states w ! t)"
    using fs(1) edge.hyps by (auto simp: settled_def)
  then obtain fs' where "entry_states w ! t = Some fs'" "block_effect f l b (fs_locals fs ! l) \<le> fs_locals fs' ! l"
    using assms(4) by (auto simp: below_def)
  moreover have "block_effect f l b s \<le> block_effect f l b (fs_locals fs ! l)"
    by (rule block_effect_mono [OF fs(2)])
  moreover have "t < length (basic_blocks f)"
    using edge.hyps assms(3) by (auto simp: wf_edges_def successors_eq)
  ultimately show ?case by force
qed

lemma settled_reports:
  assumes "work_inv f w" "worklist w = []" "wf_edges f"
  shows "reports (errors (w_checker w)) \<longleftrightarrow> use_after_move f"
proof
  show "reports (errors (w_checker w)) \<Longrightarrow> use_after_move f" using assms(1) by (simp add: work_inv_def)
  assume "use_after_move f"
  then obtain l b s where l: "l < length (locals f)" "b < length (basic_blocks f)" "local_at f l b s"
    "block_reads_moved f l b s"
    by (auto simp: use_after_move_def)
  then obtain fs where fs: "entry_states w ! b = Some fs" "s \<le> fs_locals fs ! l"
    using settled_paths [OF assms l(1)] by blast
  then have "block_reads_moved f l b (fs_locals fs ! l)" using l(4) block_reads_moved_mono by blast
  with fs(1) l assms(1,2) show "reports (errors (w_checker w))" by (auto simp: work_inv_def settled_def)
qed

subsection \<open>The start\<close>

lemma set_ignore_plain:
  assumes "plain_flow n fs"
  shows "plain_flow n (set_ignore d fs)" "self_fields (set_ignore d fs) = self_fields fs"
    "l < n \<Longrightarrow> fs_locals (set_ignore d fs) ! l = (if l = d then Initialized else fs_locals fs ! l)"
  using assms by (auto simp: set_ignore_def flow_set_plain plain_flow_def)

lemma fold_set_ignore:
  assumes "n = length (locals f)"
  shows "plain_flow n fs \<Longrightarrow>
    plain_flow n (fold (\<lambda>i fs. if i < length (locals f) then set_ignore i fs else fs) is fs) \<and>
    self_fields (fold (\<lambda>i fs. if i < length (locals f) then set_ignore i fs else fs) is fs) = self_fields fs \<and>
    (\<forall>l<n. fs_locals (fold (\<lambda>i fs. if i < length (locals f) then set_ignore i fs else fs) is fs) ! l =
       (if l \<in> set is then Initialized else fs_locals fs ! l))"
proof (induction "is" arbitrary: fs)
  case (Cons i "is")
  have "plain_flow n (if i < length (locals f) then set_ignore i fs else fs)"
    using Cons.prems by (simp add: set_ignore_plain)
  from Cons.IH [OF this] show ?case
    using Cons.prems assms by (auto simp: set_ignore_plain)
qed simp

lemma entry_state_plain:
  "plain_flow (length (locals f)) (entry_state f)" "self_fields (entry_state f) = {}"
  "l < length (locals f) \<Longrightarrow> fs_locals (entry_state f) ! l = first_state f l"
proof -
  let ?n = "length (locals f)"
  have new: "plain_flow ?n (flow_new ?n)" by (simp add: plain_flow_def flow_new_def)
  note s = set_ignore_plain [OF new, where d = 0]
  note f = fold_set_ignore [OF refl s(1), of "[1..<arg_count f + 1]"]
  show "plain_flow ?n (entry_state f)" "self_fields (entry_state f) = {}"
    using f s(2) by (simp_all add: entry_state_def flow_new_def)
  show "fs_locals (entry_state f) ! l = first_state f l" if "l < ?n"
    using f s(3) [OF that] that by (auto simp: entry_state_def flow_new_def first_state_def)
qed

lemma initial_work_inv:
  assumes "wf_edges f"
  shows "work_inv f (initial_work f)"
    "work_left f (initial_work f)
       \<le> 2 * length (basic_blocks f) * (2 * length (locals f) + card (all_fields f) + 1) + 1"
proof -
  let ?w = "initial_work f" and ?nb = "length (basic_blocks f)"
  have nb: "0 < ?nb" using assms by (simp add: wf_edges_def)
  have es: "entry_states ?w ! b = (if b = 0 then Some (entry_state f) else None)" if "b < ?nb" for b
    using that by (cases "b = 0") (auto simp: initial_work_def Let_def)
  have fits: "entry_fits f 0 (entry_state f)"
    using entry_state_plain [where f = f] local_at.entry [of f] by (auto simp: entry_fits_def)
  show "work_inv f ?w"
    unfolding work_inv_def
  proof (intro conjI allI impI)
    show "entries_ok f (entry_states ?w)"
      using es fits by (auto simp: entries_ok_def split: if_splits) (simp add: initial_work_def Let_def)
    show "queue_ok f ?w"
      using nb by (auto simp: queue_ok_def initial_work_def Let_def nth_list_update)
    show "provenance (w_checker ?w) = []" by (simp add: initial_work_def Let_def)
    show "below f (first_state f) (entry_states ?w ! 0)"
      using es [OF nb] entry_state_plain(3) [where f = f] by (simp add: below_def)
    show "reports (errors (w_checker ?w)) \<Longrightarrow> use_after_move f" by (simp add: initial_work_def Let_def)
    show "settled f ?w b" if "b < ?nb" "b \<notin> set (worklist ?w)" for b
      using es [OF that(1)] that(2) by (simp add: settled_def initial_work_def Let_def)
  qed
  have "entry_weight f (entry_states ?w ! b) \<le> entry_weight f None" if "b < ?nb" for b
    using es [OF that] entry_weight_new [of "entry_state f" f] entry_state_plain(2) by simp
  then have "table_weight f (entry_states ?w) \<le> ?nb * entry_weight f None"
    unfolding table_weight_def using sum_bounded_above [of "{..<?nb}" "\<lambda>b. entry_weight f (entry_states ?w ! b)"]
    by simp
  then show "work_left f ?w \<le> 2 * ?nb * (2 * length (locals f) + card (all_fields f) + 1) + 1"
    by (simp add: work_left_def entry_weight_def initial_work_def Let_def)
qed

subsection \<open>The theorem\<close>

definition turns :: "mir_function \<Rightarrow> nat" where
  "turns f = 2 * length (basic_blocks f) * (2 * length (locals f) + card (all_fields f) + 1) + 1"

text \<open>
  C5. Without references the borrow checker is exact about moves: with the liveness table of the
  function it ends within \<open>turns f\<close> blocks taken from the work list, it never indexes out of range,
  and it reports E0501 exactly when on some path from the entry a local is read after it was moved
  away.
\<close>

theorem borrow_check_moves_exact:
  assumes "wf_edges f" and "fn_plain f" and "turns f \<le> n"
  shows "\<exists>tbl es. liveness_compute f = Some (Some tbl) \<and> borrow_check n sfs f tbl = Some (Some es) \<and>
    ((\<exists>e\<in>set es. d_code e = ''E0501'') \<longleftrightarrow> use_after_move f)"
proof -
  obtain tbl where tbl: "liveness_compute f = Some (Some tbl)" "table_ok f tbl"
    using liveness_fixpoint [OF assms(1)] by (auto simp: live_inv_def)
  have "work_left f (initial_work f) \<le> n"
    using initial_work_inv(2) [OF assms(1)] assms(3) by (simp add: turns_def)
  then obtain w where w: "check_fuel n sfs f tbl (initial_work f) = Some (Some w)" "work_inv f w" "worklist w = []"
    using check_fuel_ends [OF assms(1,2) tbl(2) initial_work_inv(1) [OF assms(1)]] by blast
  have "(\<exists>e\<in>set (errors (w_checker w)). d_code e = ''E0501'') \<longleftrightarrow> use_after_move f"
    using settled_reports [OF w(2,3) assms(1)] by (force simp: reports_def moved_code_def)
  with w(1) tbl(1) assms(1) show ?thesis
    by (auto simp: borrow_check_def wf_edges_def)
qed

text \<open>A list is moved on one branch and read after the branches meet.\<close>

definition moved_on_branch :: mir_function where
  "moved_on_branch =
     func [TInt, TList TInt, TList TInt] 1
       [block [] (SwitchInt (Copy 1) [(0, 2)] 1),
        block [Assign 2 (Use (Move 1))] (Goto 2),
        block [Assign 0 (GetTag (Copy 1))] Return]"

lemma moved_on_branch_shape: "wf_edges moved_on_branch" "fn_plain moved_on_branch" "turns moved_on_branch = 43"
proof -
  show "wf_edges moved_on_branch" "fn_plain moved_on_branch"
    by (auto simp: moved_on_branch_def wf_edges_def block_def bb_succs_def fn_plain_def st_def stmt_plain_def
        refless_def func_def)
  have "all_fields moved_on_branch = {}"
    by (auto simp: moved_on_branch_def all_fields_def block_def st_def)
  then show "turns moved_on_branch = 43" by (simp add: turns_def moved_on_branch_def func_def)
qed

theorem borrow_check_moves_exact_witness:
  "use_after_move moved_on_branch \<and>
   (\<exists>tbl es. liveness_compute moved_on_branch = Some (Some tbl) \<and>
      borrow_check 43 (\<lambda>_. None) moved_on_branch tbl = Some (Some es) \<and>
      ((\<exists>e\<in>set es. d_code e = ''E0501'') \<longleftrightarrow> use_after_move moved_on_branch))"
proof
  let ?f = moved_on_branch
  have "local_at ?f 1 0 (first_state ?f 1)" by (rule local_at.entry)
  then have "local_at ?f 1 1 (block_effect ?f 1 0 (first_state ?f 1))"
    by (rule local_at.edge) (simp_all add: moved_on_branch_def successors_def block_def)
  then have "local_at ?f 1 2 (block_effect ?f 1 1 (block_effect ?f 1 0 (first_state ?f 1)))"
    by (rule local_at.edge) (simp_all add: moved_on_branch_def successors_def block_def)
  moreover have "block_reads_moved ?f 1 2 (block_effect ?f 1 1 (block_effect ?f 1 0 (first_state ?f 1)))"
    by code_simp
  ultimately show "use_after_move ?f"
    unfolding use_after_move_def
    by (intro exI [of _ 1] conjI exI [of _ 2] exI) (auto simp: moved_on_branch_def func_def)
qed (rule borrow_check_moves_exact; simp add: moved_on_branch_shape)

end
