(* ===== verification/BorrowLoop.thy ===== *)
theory BorrowLoop
  imports MoveSound
begin

text \<open>
  What the borrow checker does on references. Its count of borrows is not bounded by the function: a
  loop that borrows a value while an older reference to it is still live adds one to the count in
  every turn, so that the work list never empties. On the machine the loop ends when the 64-bit
  count overflows.
\<close>

subsection \<open>Functions on which the loop does not end\<close>

lemma check_fuel_step:
  "worklist w \<noteq> [] \<Longrightarrow> work_step sfs f tbl w = Some w' \<Longrightarrow> check_fuel (Suc n) sfs f tbl w = check_fuel n sfs f tbl w'"
  "worklist w \<noteq> [] \<Longrightarrow> check_fuel 0 sfs f tbl w = None"
  by (subst check_fuel.simps; simp)+

fun busy_turns :: "nat \<Rightarrow> struct_fields \<Rightarrow> mir_function \<Rightarrow> live_table \<Rightarrow> work \<Rightarrow> work option" where
  "busy_turns 0 sfs f tbl w = Some w"
| "busy_turns (Suc m) sfs f tbl w =
     (if worklist w = [] then None
      else do { w' \<leftarrow> work_step sfs f tbl w; busy_turns m sfs f tbl w' })"

lemma busy_turns_diverge:
  "busy_turns m sfs f tbl w = Some w' \<Longrightarrow> \<forall>n. check_fuel n sfs f tbl w' = None \<Longrightarrow>
     check_fuel n sfs f tbl w = None"
proof (induction m arbitrary: w n)
  case (Suc m)
  then obtain w1 where w1: "worklist w \<noteq> []" "work_step sfs f tbl w = Some w1" "busy_turns m sfs f tbl w1 = Some w'"
    by (auto split: if_splits Option.bind_splits)
  with Suc.IH Suc.prems(2) show ?case by (cases n) (simp_all add: check_fuel_step)
qed simp

lemma cycle_diverges:
  assumes "\<And>k. worklist (w k) \<noteq> []" "\<And>k. work_step sfs f tbl (w k) = Some (w (Suc k))"
  shows "check_fuel n sfs f tbl (w k) = None"
  by (induction n arbitrary: k) (simp_all add: check_fuel_step [OF assms(1)] check_fuel_step(1) [OF assms(1,2)])

subsection \<open>A borrow in a loop\<close>

text \<open>
  Local 3 borrows local 2 before the loop and is read in every turn; local 4 borrows local 2 again
  in the loop.
\<close>

definition reborrow_fn :: mir_function where
  "reborrow_fn =
     func [TInt, TInt, TInt, TInt, TInt] 1
       [block [Assign 2 (Use (Copy 1)), Assign 3 (Ref 2)] (Goto 1),
        block [] (SwitchInt (Copy 1) [(0, 3)] 2),
        block [Assign 4 (Ref 2), Assign 0 (Use (Copy 3))] (Goto 1),
        block [] Return]"

definition reborrow_live :: live_table where
  "reborrow_live = [[{1}, {1, 2}, {1, 2, 3}], [{1, 2, 3}], [{1, 2, 3}, {1, 2, 3}, {1, 2, 3}], [{}]]"

lemma reborrow_live: "liveness_compute reborrow_fn = Some (Some reborrow_live)"
  by code_simp

definition with_count :: "local_state \<Rightarrow> nat \<Rightarrow> flow_state" where
  "with_count s k =
     \<lparr>fs_locals = [Initialized, Initialized, Initialized, Initialized, s],
      borrows = [(0, False), (0, False), (k, False), (0, False), (0, False)], self_fields = {}\<rparr>"

definition loop_checker :: checker where
  "loop_checker = \<lparr>errors = [], provenance = [(0, 2), (4, 2), (3, 2)]\<rparr>"

definition first_entry :: flow_state where
  "first_entry = \<lparr>fs_locals = [Initialized, Initialized, Dead, Dead, Dead],
     borrows = [(0, False), (0, False), (0, False), (0, False), (0, False)], self_fields = {}\<rparr>"

definition turn_state :: "nat \<Rightarrow> nat \<Rightarrow> nat \<Rightarrow> nat list \<Rightarrow> bool list \<Rightarrow> work" where
  "turn_state i j k q inq =
     \<lparr>w_checker = loop_checker,
      entry_states = [Some first_entry, Some (with_count Initialized i),
        Some (with_count Initialized j), Some (with_count Initialized k)],
      worklist = q, in_worklist = inq\<rparr>"

lemma first_turns:
  "busy_turns 7 (\<lambda>_. None) reborrow_fn reborrow_live (initial_work reborrow_fn)
     = Some (turn_state 3 2 2 [1] [False, True, False, False])"
  by code_simp

lemmas checker_defs = check_block_def check_terminator_def check_operand_def
  flow_get_def get_opt_def flow_set_def release_dead_borrows_def still_borrowed_def weaken_borrow_def
  transfer_assign_def check_ref_def prov_insert_def prov_remove_def prov_get_def set_provenance_def

lemma reborrow_blocks:
  "basic_blocks reborrow_fn =
     [block [Assign 2 (Use (Copy 1)), Assign 3 (Ref 2)] (Goto 1),
      block [] (SwitchInt (Copy 1) [(0, 3)] 2),
      block [Assign 4 (Ref 2), Assign 0 (Use (Copy 3))] (Goto 1),
      block [] Return]"
  by (simp add: reborrow_fn_def)

lemma reborrow_names: "fn_name reborrow_fn = ''f''"
  by (simp add: reborrow_fn_def func_def)

lemma head_block:
  "check_block (\<lambda>_. None) reborrow_fn reborrow_live 1 (loop_checker, with_count Initialized k)
     = Some (loop_checker, with_count Initialized k)"
  by (simp add: checker_defs reborrow_blocks reborrow_live_def block_def with_count_def loop_checker_def idx_def
      del: set_map set_filter)

lemma body_block:
  "check_block (\<lambda>_. None) reborrow_fn reborrow_live 2 (loop_checker, with_count Initialized k)
     = Some (loop_checker, with_count Initialized (Suc k))"
  by (simp add: checker_defs reborrow_blocks reborrow_live_def block_def st_def with_count_def loop_checker_def idx_def
      del: set_map set_filter)

lemma exit_block:
  "\<exists>fs. check_block (\<lambda>_. None) reborrow_fn reborrow_live 3 (loop_checker, with_count Initialized k)
     = Some (loop_checker, fs)"
  by (simp add: checker_defs reborrow_blocks reborrow_live_def block_def with_count_def loop_checker_def idx_def
      reborrow_names ends_with_def del: set_map set_filter)

lemma join_counts:
  "flow_join (with_count Initialized i) (with_count Initialized j) = (with_count Initialized (max i j), i < j)"
  by (auto simp: flow_join_def pad_def merge_borrow_def Let_def with_count_def max_def)

lemmas turn_defs = work_step_def turn_state_def reborrow_blocks checker_successors_def block_def idx_def Let_def
  join_counts

lemma head_turn:
  "j < i \<Longrightarrow> k < i \<Longrightarrow>
   work_step (\<lambda>_. None) reborrow_fn reborrow_live (turn_state i j k [1] [False, True, False, False])
     = Some (turn_state i i i [3, 2] [False, False, True, True])"
  using head_block [of i] by (simp add: turn_defs)

lemma exit_turn:
  "work_step (\<lambda>_. None) reborrow_fn reborrow_live (turn_state i j k [3, 2] [False, False, True, True])
     = Some (turn_state i j k [2] [False, False, True, False])"
  using exit_block [of k] by (auto simp: turn_defs)

lemma body_turn:
  "i \<le> j \<Longrightarrow>
   work_step (\<lambda>_. None) reborrow_fn reborrow_live (turn_state i j k [2] [False, False, True, False])
     = Some (turn_state (Suc j) j k [1] [False, True, False, False])"
  using body_block [of j] by (simp add: turn_defs)

lemma loop_diverges:
  "k < i \<Longrightarrow> j < i \<Longrightarrow>
   check_fuel n (\<lambda>_. None) reborrow_fn reborrow_live (turn_state i j k [1] [False, True, False, False]) = None \<and>
   check_fuel n (\<lambda>_. None) reborrow_fn reborrow_live (turn_state i i i [3, 2] [False, False, True, True]) = None \<and>
   check_fuel n (\<lambda>_. None) reborrow_fn reborrow_live (turn_state i i i [2] [False, False, True, False]) = None"
proof (induction n arbitrary: i j k)
  case 0
  then show ?case by (simp add: check_fuel.simps turn_state_def)
next
  case (Suc n)
  have ne: "worklist (turn_state i j k (b # bs) q) \<noteq> []" for i j k b bs q by (simp add: turn_state_def)
  from Suc.prems Suc.IH [of i "Suc i" i] Suc.IH [of k i j] show ?case
    by (simp add: check_fuel_step(1) [OF ne head_turn] check_fuel_step(1) [OF ne exit_turn]
        check_fuel_step(1) [OF ne body_turn] del: One_nat_def)
qed

text \<open>
  With the counts of borrows as natural numbers, no number of turns empties the work list of the function
  above. The counts of the source have 64 bits: there the loop goes on until the count overflows.
\<close>

lemma borrow_check_diverges:
  "liveness_compute reborrow_fn = Some (Some reborrow_live) \<and>
   borrow_check n (\<lambda>_. None) reborrow_fn reborrow_live = None"
proof
  show "liveness_compute reborrow_fn = Some (Some reborrow_live)" by (rule reborrow_live)
  have "check_fuel n (\<lambda>_. None) reborrow_fn reborrow_live (initial_work reborrow_fn) = None"
    using loop_diverges [of 2 3 2] by (intro busy_turns_diverge [OF first_turns]) simp
  then show "borrow_check n (\<lambda>_. None) reborrow_fn reborrow_live = None"
    by (simp add: borrow_check_def reborrow_blocks)
qed

subsection \<open>A local without a value on one path\<close>

text \<open>
  The message of E0502 asks for a value on every path. The join takes a value on one path for a
  value, and the error is reported while the analysis runs, so the answer depends on the order in
  which the blocks are visited. Local 2, named x, is set on one branch only and read after both;
  the two functions differ in which branch the switch names first.
\<close>

definition half_set :: "terminator_kind \<Rightarrow> mir_function" where
  "half_set switch =
     (func [TInt, TInt, TInt] 1
       [block [] switch,
        block [Assign 2 (Use (Copy 1))] (Goto 2),
        block [Assign 0 (Use (Copy 2))] Return])
     \<lparr>locals := [loc TInt, loc TInt, (loc TInt)\<lparr>decl_name := Some ''x''\<rparr>]\<rparr>"

definition half_live :: live_table where
  "half_live = [[{1, 2}], [{1}, {2}], [{2}, {}]]"

lemma half_set_order:
  "liveness_compute (half_set (SwitchInt (Copy 1) [(1, 1)] 2)) = Some (Some half_live)"
  "liveness_compute (half_set (SwitchInt (Copy 1) [(0, 2)] 1)) = Some (Some half_live)"
  "borrow_check 9 (\<lambda>_. None) (half_set (SwitchInt (Copy 1) [(1, 1)] 2)) half_live = Some (Some [])"
  "map_option (map_option (map d_code)) (borrow_check 9 (\<lambda>_. None) (half_set (SwitchInt (Copy 1) [(0, 2)] 1)) half_live)
     = Some (Some [''E0502''])"
  by code_simp+

end
