(* ===== verification/Lexer.thy ===== *)
theory Lexer
  imports Prelude
begin

text \<open>
  The lexer (\<open>src/lexer/token.rs\<close>, \<open>error.rs\<close>, \<open>engine.rs\<close>). The source is the list of its
  code points; \<open>indent_stack\<close> and \<open>delimiter_stack\<close> have their top at the head. The Unicode
  tables behind \<open>char::is_alphabetic\<close> and \<open>char::is_alphanumeric\<close> are the record \<open>unicode\<close>. An
  error carries its kind, with the data its message prints, and its position.
\<close>

type_synonym uchar = nat

abbreviation cp :: "char \<Rightarrow> uchar" where
  "cp c \<equiv> of_char c"

abbreviation ch_nl :: uchar where "ch_nl \<equiv> 10"
abbreviation ch_tab :: uchar where "ch_tab \<equiv> 9"
abbreviation ch_cr :: uchar where "ch_cr \<equiv> 13"
abbreviation ch_dquote :: uchar where "ch_dquote \<equiv> 34"
abbreviation ch_squote :: uchar where "ch_squote \<equiv> 39"
abbreviation ch_backslash :: uchar where "ch_backslash \<equiv> 92"

definition cps :: "string \<Rightarrow> uchar list" where
  "cps s = map of_char s"

record unicode =
  is_alphabetic :: "uchar \<Rightarrow> bool"
  is_alphanumeric :: "uchar \<Rightarrow> bool"

subsection \<open>Tokens, comments, errors\<close>

text \<open>The enum \<open>TokenKind\<close>, in the groups its declaration is laid out in.\<close>

datatype literal_kind = Identifier | IntegerTok | FloatTok | StringTok | FString

datatype keyword =
    KwFn | KwLet | KwConst | KwIf | KwElse | KwElif | KwWhile | KwFor | KwIn | KwReturn
  | KwTrue | KwFalse | KwNot | KwAnd | KwOr | KwPass | KwBreak | KwContinue | KwImport
  | KwFrom | KwStruct | KwImpl | KwTrait | KwTry | KwAs | KwAssert | KwMut | KwEnum
  | KwMatch | KwAsync | KwAwait | KwCase | KwUnsafe | KwDefer | KwNull | KwWith | KwLambda

datatype operator_kind =
    Plus | Minus | Star | DoubleStar | Slash | Percent | Equal | DoubleEqual | NotEqual
  | Less | LessEqual | Greater | GreaterEqual | PlusEqual | MinusEqual | StarEqual | SlashEqual
  | PercentEqual | DoubleStarEqual | Shl | Shr | ShlEqual | ShrEqual
  | Ampersand | Pipe | Caret | Tilde | AmpersandEqual | PipeEqual | CaretEqual

datatype punctuation =
    LParen | RParen | LBracket | RBracket | LBrace | RBrace
  | Colon | Comma | Dot | DotDot | DotDotEq | Arrow | Semicolon | AtSign | Underscore | DoubleColon
  | Question | QuestionQuestion | QuestionDot | Hash

datatype token_kind =
    Lit literal_kind | Kw keyword | Opr operator_kind | Pn punctuation
  | Newline | Indent | Dedent | Eof

record token =
  t_kind :: token_kind
  t_value :: "uchar list"
  t_line :: nat
  t_col :: nat
  t_span :: "nat \<times> nat"
  t_file_id :: nat

datatype comment_kind = LineComment | BlockComment

record comment =
  c_kind :: comment_kind
  c_text :: "uchar list"
  c_span :: "nat \<times> nat"

datatype lex_error_kind =
    MixedIndentation
  | DedentMismatch nat
  | UnterminatedString
  | NewlineInString
  | InvalidHexEscape
  | InvalidUnicodeEscape
  | UnterminatedEscape
  | InvalidHexLiteral | InvalidOctalLiteral | InvalidBinaryLiteral
  | InvalidScientific
  | Unclosed uchar nat nat
  | Unmatched uchar
  | MismatchedDelimiter uchar nat nat uchar
  | UnexpectedChar uchar

record lex_error =
  le_kind :: lex_error_kind
  le_line :: nat
  le_col :: nat
  le_start :: nat
  le_end :: nat

record lexer =
  source :: "uchar list"
  pos :: nat
  line :: nat
  col :: nat
  indent_stack :: "nat list"
  pending :: "token list"
  delimiter_stack :: "(uchar \<times> nat \<times> nat) list"
  lx_file_id :: nat
  comments :: "comment list"

definition lexer_new :: "uchar list \<Rightarrow> nat \<Rightarrow> lexer" where
  "lexer_new src fid =
     \<lparr>source = src, pos = 0, line = 1, col = 1, indent_stack = [0], pending = [],
      delimiter_stack = [], lx_file_id = fid, comments = []\<rparr>"

subsection \<open>Reading characters\<close>

definition peek :: "lexer \<Rightarrow> uchar option" where
  "peek lx = get_opt (source lx) (pos lx)"

definition peek_next :: "lexer \<Rightarrow> uchar option" where
  "peek_next lx = get_opt (source lx) (pos lx + 1)"

definition adv :: "lexer \<Rightarrow> lexer" where
  "adv lx =
     (case peek lx of
        None \<Rightarrow> lx
      | Some ch \<Rightarrow>
          (if ch = ch_nl then lx\<lparr>pos := pos lx + 1, line := line lx + 1, col := 1\<rparr>
           else lx\<lparr>pos := pos lx + 1, col := col lx + 1\<rparr>))"

definition advance :: "lexer \<Rightarrow> uchar option \<times> lexer" where
  "advance lx = (peek lx, adv lx)"

definition record_comment :: "nat \<Rightarrow> comment_kind \<Rightarrow> lexer \<Rightarrow> lexer" where
  "record_comment start k lx =
     lx\<lparr>comments := comments lx @
         [\<lparr>c_kind = k, c_text = take (pos lx - start) (drop start (source lx)),
           c_span = (start, pos lx)\<rparr>]\<rparr>"

definition err :: "lex_error_kind \<Rightarrow> lexer \<Rightarrow> lex_error" where
  "err k lx = \<lparr>le_kind = k, le_line = line lx, le_col = col lx, le_start = pos lx,
               le_end = pos lx + 1\<rparr>"

definition err_at :: "lex_error_kind \<Rightarrow> nat \<Rightarrow> nat \<Rightarrow> nat \<Rightarrow> nat \<Rightarrow> lex_error" where
  "err_at k ln cl s e = \<lparr>le_kind = k, le_line = ln, le_col = cl, le_start = s, le_end = e\<rparr>"

definition make_tok ::
  "token_kind \<Rightarrow> uchar list \<Rightarrow> nat \<Rightarrow> nat \<Rightarrow> nat \<Rightarrow> lexer \<Rightarrow> token" where
  "make_tok k v ln cl start lx =
     \<lparr>t_kind = k, t_value = v, t_line = ln, t_col = cl, t_span = (start, pos lx),
      t_file_id = lx_file_id lx\<rparr>"

definition remaining :: "lexer \<Rightarrow> nat" where
  "remaining lx = length (source lx) - pos lx"

lemma peek_Some_pos: "peek lx = Some c \<Longrightarrow> pos lx < length (source lx)"
  by (auto simp: peek_def get_opt_def split: if_splits)

lemma adv_fields [simp]:
  "source (adv lx) = source lx" "indent_stack (adv lx) = indent_stack lx"
  "pending (adv lx) = pending lx" "delimiter_stack (adv lx) = delimiter_stack lx"
  "lx_file_id (adv lx) = lx_file_id lx" "comments (adv lx) = comments lx"
  by (auto simp: adv_def split: option.splits)

lemma pos_adv: "pos (adv lx) = (if peek lx = None then pos lx else pos lx + 1)"
  by (auto simp: adv_def split: option.splits)

lemma remaining_adv: "peek lx = Some c \<Longrightarrow> remaining (adv lx) < remaining lx"
  using peek_Some_pos [of lx c] by (auto simp: remaining_def pos_adv)

lemma remaining_adv_le: "remaining (adv lx) \<le> remaining lx"
  by (auto simp: remaining_def pos_adv)

text \<open>\<open>while matches!(self.peek(), Some(c) if p(c))\<close>\<close>

function skip_while :: "(uchar \<Rightarrow> bool) \<Rightarrow> lexer \<Rightarrow> lexer" where
  "skip_while p lx =
     (case peek lx of
        Some c \<Rightarrow> if p c then skip_while p (adv lx) else lx
      | None \<Rightarrow> lx)"
  by pat_completeness auto
termination
  by (relation "measure (\<lambda>(p, lx). remaining lx)") (auto simp: remaining_adv)

declare skip_while.simps [simp del]

definition at :: "lexer \<Rightarrow> char \<Rightarrow> char \<Rightarrow> bool" where
  "at lx a b \<longleftrightarrow> peek lx = Some (cp a) \<and> peek_next lx = Some (cp b)"

text \<open>To the end of a block comment, or of the file.\<close>

function skip_block :: "lexer \<Rightarrow> lexer" where
  "skip_block lx =
     (case peek lx of
        None \<Rightarrow> lx
      | Some c \<Rightarrow> if at lx CHR ''*'' CHR ''/'' then adv (adv lx) else skip_block (adv lx))"
  by pat_completeness auto
termination
  by (relation "measure remaining") (auto simp: remaining_adv)

declare skip_block.simps [simp del]

definition skip_line_comment :: "lexer \<Rightarrow> lexer" where
  "skip_line_comment lx =
     record_comment (pos lx) LineComment (skip_while (\<lambda>c. c \<noteq> ch_nl) lx)"

definition skip_block_comment :: "lexer \<Rightarrow> lexer" where
  "skip_block_comment lx = record_comment (pos lx) BlockComment (skip_block (adv (adv lx)))"

subsection \<open>Scanning\<close>

text \<open>
  Every reader moves forward by single characters and may record comments on the way.
  \<open>scan\<close> is that relation; what it keeps holds for all readers.
\<close>

inductive scan :: "lexer \<Rightarrow> lexer \<Rightarrow> bool" where
  scan_refl: "scan lx lx"
| scan_adv: "scan lx l \<Longrightarrow> scan lx (adv l)"
| scan_comment: "scan lx l \<Longrightarrow> scan lx (l\<lparr>comments := cs\<rparr>)"

lemma scan_trans: "scan b c \<Longrightarrow> scan a b \<Longrightarrow> scan a c"
  by (induction rule: scan.induct) (auto intro: scan.intros)

lemma scan_adv1: "scan (adv lx) l \<Longrightarrow> scan lx l"
  by (rule scan_trans) (auto intro: scan.intros)

lemma scan_keeps:
  "scan a b \<Longrightarrow> source b = source a \<and> indent_stack b = indent_stack a \<and> pending b = pending a
     \<and> delimiter_stack b = delimiter_stack a \<and> lx_file_id b = lx_file_id a"
  by (induction rule: scan.induct) auto

lemma scan_pos: "scan a b \<Longrightarrow> pos a \<le> pos b"
  by (induction rule: scan.induct) (auto simp: pos_adv)

lemma scan_remaining: "scan a b \<Longrightarrow> remaining b \<le> remaining a"
  using scan_keeps [of a b] scan_pos [of a b] by (simp add: remaining_def)

lemma skip_while_scan: "scan lx (skip_while p lx)"
proof (induction p lx rule: skip_while.induct)
  case (1 p lx)
  show ?case
  proof (cases "peek lx")
    case None
    then show ?thesis by (simp add: skip_while.simps scan_refl)
  next
    case (Some c)
    then show ?thesis
      using 1 [OF Some] by (auto simp: skip_while.simps [of p lx] scan_refl dest: scan_adv1)
  qed
qed

lemma skip_block_scan: "scan lx (skip_block lx)"
proof (induction lx rule: skip_block.induct)
  case (1 lx)
  show ?case
  proof (cases "peek lx")
    case None
    then show ?thesis by (simp add: skip_block.simps scan_refl)
  next
    case (Some c)
    then show ?thesis
      using 1 [OF Some] by (auto simp: skip_block.simps [of lx] dest: scan_adv1 intro: scan.intros)
  qed
qed

lemma record_comment_scan: "scan a b \<Longrightarrow> scan a (record_comment s k b)"
  by (simp add: record_comment_def scan_comment)

lemma skip_line_comment_scan: "scan lx (skip_line_comment lx)"
  unfolding skip_line_comment_def by (intro record_comment_scan skip_while_scan)

lemma skip_block_comment_scan: "scan lx (skip_block_comment lx)"
  unfolding skip_block_comment_def
  by (rule record_comment_scan, rule scan_adv1, rule scan_adv1, rule skip_block_scan)

lemma at_peek: "at lx a b \<Longrightarrow> peek lx = Some (cp a)"
  by (simp add: at_def)

lemma peek_record_comment [simp]:
  "peek (record_comment s k lx) = peek lx" "pos (record_comment s k lx) = pos lx"
  "remaining (record_comment s k lx) = remaining lx"
  by (auto simp: peek_def record_comment_def remaining_def)

lemma skip_while_progress: "peek lx = Some c \<Longrightarrow> p c \<Longrightarrow> remaining (skip_while p lx) < remaining lx"
  using scan_remaining [OF skip_while_scan [of "adv lx" p]] remaining_adv [of lx c]
  by (simp add: skip_while.simps [of p lx])

lemma skip_line_comment_progress:
  "at lx CHR ''/'' CHR ''/'' \<Longrightarrow> remaining (skip_line_comment lx) < remaining lx"
  by (simp add: skip_line_comment_def skip_while_progress [OF at_peek])

lemma skip_block_comment_progress:
  "at lx CHR ''/'' CHR ''*'' \<Longrightarrow> remaining (skip_block_comment lx) < remaining lx"
  using scan_remaining [OF skip_block_scan [of "adv (adv lx)"]] remaining_adv [OF at_peek]
    remaining_adv_le [of "adv lx"]
  by (fastforce simp: skip_block_comment_def)

subsection \<open>White space between tokens\<close>

definition is_blank :: "uchar \<Rightarrow> bool" where
  "is_blank c \<longleftrightarrow> c = cp CHR '' '' \<or> c = ch_tab \<or> c = ch_cr"

definition skip_round :: "lexer \<Rightarrow> lexer \<times> bool" where
  "skip_round lx =
     (let l1 = skip_while is_blank lx;
          c1 = at l1 CHR ''/'' CHR ''/'';
          l2 = (if c1 then skip_line_comment l1 else l1);
          c2 = at l2 CHR ''/'' CHR ''*'';
          l3 = (if c2 then skip_block_comment l2 else l2)
      in (l3, pos l1 \<noteq> pos lx \<or> c1 \<or> c2))"

lemma skip_round_scan: "scan lx (fst (skip_round lx))"
  by (auto simp: skip_round_def Let_def intro!: skip_while_scan
      scan_trans [OF skip_line_comment_scan] scan_trans [OF skip_block_comment_scan])

lemma skip_round_progress:
  assumes "skip_round lx = (l, True)"
  shows "remaining l < remaining lx"
proof -
  let ?l1 = "skip_while is_blank lx"
  let ?l2 = "if at ?l1 CHR ''/'' CHR ''/'' then skip_line_comment ?l1 else ?l1"
  have l: "l = (if at ?l2 CHR ''/'' CHR ''*'' then skip_block_comment ?l2 else ?l2)"
    and s: "pos ?l1 \<noteq> pos lx \<or> at ?l1 CHR ''/'' CHR ''/'' \<or> at ?l2 CHR ''/'' CHR ''*''"
    using assms by (auto simp: skip_round_def Let_def)
  have r1: "remaining ?l1 \<le> remaining lx" by (rule scan_remaining [OF skip_while_scan])
  have r2: "remaining ?l2 \<le> remaining ?l1"
    by (auto intro: scan_remaining skip_line_comment_scan)
  have r3: "remaining l \<le> remaining ?l2"
    using l by (auto intro: scan_remaining skip_block_comment_scan)
  from s consider "pos ?l1 \<noteq> pos lx" | "at ?l1 CHR ''/'' CHR ''/''" | "at ?l2 CHR ''/'' CHR ''*''"
    by blast
  then show ?thesis
  proof cases
    case 1
    then have "peek lx \<noteq> None"
      by (auto simp: skip_while.simps [of is_blank lx] split: option.splits)
    moreover from 1 have "\<exists>c. peek lx = Some c \<and> is_blank c"
      using calculation by (auto simp: skip_while.simps [of is_blank lx] split: if_splits)
    ultimately have "remaining ?l1 < remaining lx" using skip_while_progress by blast
    with r2 r3 show ?thesis by linarith
  next
    case 2
    then have "remaining ?l2 < remaining ?l1" using skip_line_comment_progress by simp
    with r1 r3 show ?thesis by linarith
  next
    case 3
    then have "remaining l < remaining ?l2" using l skip_block_comment_progress by simp
    with r1 r2 show ?thesis by linarith
  qed
qed

function skip_inline_whitespace :: "lexer \<Rightarrow> lexer" where
  "skip_inline_whitespace lx =
     (case skip_round lx of (l, skipped) \<Rightarrow> if skipped then skip_inline_whitespace l else l)"
  by pat_completeness auto
termination
  by (relation "measure remaining") (auto dest!: skip_round_progress [OF sym])

declare skip_inline_whitespace.simps [simp del]

lemma skip_inline_whitespace_scan: "scan lx (skip_inline_whitespace lx)"
proof (induction lx rule: skip_inline_whitespace.induct)
  case (1 lx)
  obtain l sk where r: "skip_round lx = (l, sk)" by (cases "skip_round lx")
  with skip_round_scan [of lx] have "scan lx l" by simp
  with r 1 [OF r [symmetric]] show ?case
    by (cases sk) (auto simp: skip_inline_whitespace.simps [of lx] intro: scan_trans)
qed

subsection \<open>Faults\<close>

text \<open>Lexing ends in an error of the source or, where the code unwraps, in a panic.\<close>

datatype lex_fault = LexErr lex_error | LexPanic

type_synonym 'a lexed = "lex_fault + 'a"

abbreviation fail_at :: "lex_error_kind \<Rightarrow> nat \<Rightarrow> nat \<Rightarrow> nat \<Rightarrow> nat \<Rightarrow> 'a lexed" where
  "fail_at k ln cl s e \<equiv> Inl (LexErr (err_at k ln cl s e))"

abbreviation fail :: "lex_error_kind \<Rightarrow> lexer \<Rightarrow> 'a lexed" where
  "fail k lx \<equiv> Inl (LexErr (err k lx))"

subsection \<open>Indentation\<close>

text \<open>The blanks a line starts with: their depth and whether tabs and spaces occur.\<close>

function read_depth :: "nat \<Rightarrow> bool \<Rightarrow> bool \<Rightarrow> lexer \<Rightarrow> (nat \<times> bool \<times> bool) \<times> lexer" where
  "read_depth depth tab space lx =
     (case peek lx of
        Some c \<Rightarrow>
          (if c = ch_tab then read_depth (depth + 4) True space (adv lx)
           else if c = cp CHR '' '' then read_depth (depth + 1) tab True (adv lx)
           else ((depth, tab, space), lx))
      | None \<Rightarrow> ((depth, tab, space), lx))"
  by pat_completeness auto
termination
  by (relation "measure (\<lambda>(_, _, _, lx). remaining lx)") (auto simp: remaining_adv)

declare read_depth.simps [simp del]

text \<open>
  \<open>while *self.indent_stack.last().unwrap() > depth\<close>: the levels that stay and how many were
  popped; \<open>None\<close> is the unwrap of an empty stack.
\<close>

fun pop_deeper :: "nat \<Rightarrow> nat list \<Rightarrow> (nat list \<times> nat) option" where
  "pop_deeper depth [] = None"
| "pop_deeper depth (d # ds) =
     (if d > depth then map_option (\<lambda>(r, n). (r, n + 1)) (pop_deeper depth ds)
      else Some (d # ds, 0))"

definition layout_tok :: "token_kind \<Rightarrow> nat \<Rightarrow> nat \<Rightarrow> lexer \<Rightarrow> token" where
  "layout_tok k nl_line nl_pos lx = make_tok k [] nl_line 1 nl_pos lx"

definition newline_tok :: "nat \<Rightarrow> nat \<Rightarrow> lexer \<Rightarrow> token" where
  "newline_tok nl_line nl_pos lx =
     \<lparr>t_kind = Newline, t_value = [ch_nl], t_line = nl_line, t_col = 1,
      t_span = (nl_pos, nl_pos + 1), t_file_id = lx_file_id lx\<rparr>"

definition indent_to :: "nat \<Rightarrow> nat \<Rightarrow> nat \<Rightarrow> lexer \<Rightarrow> lexer lexed" where
  "indent_to depth nl_line nl_pos lx =
     (case indent_stack lx of
        [] \<Rightarrow> Inl LexPanic
      | current # _ \<Rightarrow>
          (if depth > current then
             Inr (lx\<lparr>indent_stack := depth # indent_stack lx,
                     pending := pending lx @ [layout_tok Indent nl_line nl_pos lx]\<rparr>)
           else if depth < current then
             (case pop_deeper depth (indent_stack lx) of
                None \<Rightarrow> Inl LexPanic
              | Some (stack, n) \<Rightarrow>
                  (if hd stack \<noteq> depth then
                     fail_at (DedentMismatch depth) nl_line 1 nl_pos (pos lx)
                   else
                     Inr (lx\<lparr>indent_stack := stack,
                             pending := pending lx
                               @ replicate n (layout_tok Dedent nl_line nl_pos lx)\<rparr>)))
           else Inr lx))"

definition handle_indent :: "nat \<Rightarrow> nat \<Rightarrow> lexer \<Rightarrow> (token option \<times> lexer) lexed" where
  "handle_indent nl_line nl_pos lx0 =
     (case read_depth 0 False False lx0 of
        ((depth, tab, space), lx) \<Rightarrow>
          (if tab \<and> space then fail_at MixedIndentation nl_line 1 nl_pos (pos lx)
           else if at lx CHR ''/'' CHR ''/'' then Inr (None, skip_line_comment lx)
           else if at lx CHR ''/'' CHR ''*'' then Inr (None, skip_block_comment lx)
           else if peek lx = None \<or> peek lx = Some ch_nl then
             Inr (None, skip_while (\<lambda>c. c \<noteq> ch_nl) lx)
           else
             and_then (indent_to depth nl_line nl_pos lx)
               (\<lambda>l. Inr (Some (newline_tok nl_line nl_pos l), l))))"

subsection \<open>Strings\<close>

text \<open>\<open>while matches!(self.peek(), Some(c) if p(c)) { acc.push(self.advance().unwrap()) }\<close>\<close>

function read_while :: "(uchar \<Rightarrow> bool) \<Rightarrow> uchar list \<Rightarrow> lexer \<Rightarrow> uchar list \<times> lexer" where
  "read_while p acc lx =
     (case peek lx of
        Some c \<Rightarrow> if p c then read_while p (acc @ [c]) (adv lx) else (acc, lx)
      | None \<Rightarrow> (acc, lx))"
  by pat_completeness auto
termination
  by (relation "measure (\<lambda>(_, _, lx). remaining lx)") (auto simp: remaining_adv)

declare read_while.simps [simp del]

definition is_digit :: "uchar \<Rightarrow> bool" where
  "is_digit c \<longleftrightarrow> 48 \<le> c \<and> c \<le> 57"

text \<open>\<open>char::to_digit(16)\<close>\<close>

definition hex_digit :: "uchar \<Rightarrow> nat option" where
  "hex_digit c =
     (if is_digit c then Some (c - 48)
      else if 97 \<le> c \<and> c \<le> 102 then Some (c - 87)
      else if 65 \<le> c \<and> c \<le> 70 then Some (c - 55)
      else None)"

fun hex_value :: "nat \<Rightarrow> uchar list \<Rightarrow> nat option" where
  "hex_value acc [] = Some acc"
| "hex_value acc (c # cs) =
     (case hex_digit c of
        None \<Rightarrow> None
      | Some d \<Rightarrow> if acc * 16 + d < 2 ^ 32 then hex_value (acc * 16 + d) cs else None)"

text \<open>\<open>u32::from_str_radix(hex, 16)\<close>, which takes a leading plus sign, and \<open>char::from_u32\<close>.\<close>

definition u32_from_hex :: "uchar list \<Rightarrow> nat option" where
  "u32_from_hex cs =
     (let ds = (case cs of c # r \<Rightarrow> if c = cp CHR ''+'' then r else cs | [] \<Rightarrow> cs)
      in if ds = [] then None else hex_value 0 ds)"

definition char_from_u32 :: "nat \<Rightarrow> uchar option" where
  "char_from_u32 n =
     (if n < 0x110000 \<and> \<not> (0xD800 \<le> n \<and> n \<le> 0xDFFF) then Some n else None)"

text \<open>What follows a backslash: the characters it stands for.\<close>

definition read_hex_escape :: "nat \<Rightarrow> nat \<Rightarrow> lexer \<Rightarrow> (uchar list \<times> lexer) lexed" where
  "read_hex_escape ln cl lx =
     (let hi = peek lx; l1 = adv lx; lo = peek l1; l2 = adv l1
      in case (Option.bind hi hex_digit, Option.bind lo hex_digit) of
           (Some h, Some l) \<Rightarrow> Inr ([h * 16 + l], l2)
         | _ \<Rightarrow> fail_at InvalidHexEscape ln cl (pos l2 - 1) (pos l2))"

definition read_unicode_escape :: "nat \<Rightarrow> nat \<Rightarrow> lexer \<Rightarrow> (uchar list \<times> lexer) lexed" where
  "read_unicode_escape ln cl lx =
     (let (hex, l) =
        (if peek lx = Some (cp CHR ''{'')
         then (case read_while (\<lambda>c. c \<noteq> cp CHR ''}'') [] (adv lx) of (h, l) \<Rightarrow> (h, adv l))
         else ([], lx))
      in case Option.bind (u32_from_hex hex) char_from_u32 of
           Some ch \<Rightarrow> Inr ([ch], l)
         | None \<Rightarrow> fail_at InvalidUnicodeEscape ln cl (pos l - 1) (pos l))"

definition read_escape :: "nat \<Rightarrow> nat \<Rightarrow> lexer \<Rightarrow> (uchar list \<times> lexer) lexed" where
  "read_escape ln cl lx =
     (case peek lx of
        None \<Rightarrow> fail_at UnterminatedEscape ln cl (pos lx - 1) (pos lx)
      | Some c \<Rightarrow>
          (if c = cp CHR ''n'' then Inr ([ch_nl], adv lx)
           else if c = cp CHR ''t'' then Inr ([ch_tab], adv lx)
           else if c = cp CHR ''r'' then Inr ([ch_cr], adv lx)
           else if c = cp CHR ''0'' then Inr ([0], adv lx)
           else if c = ch_backslash then Inr ([ch_backslash], adv lx)
           else if c = ch_squote then Inr ([ch_squote], adv lx)
           else if c = ch_dquote then Inr ([ch_dquote], adv lx)
           else if c = ch_nl then Inr ([], adv lx)
           else if c = cp CHR ''x'' then read_hex_escape ln cl (adv lx)
           else if c = cp CHR ''u'' then read_unicode_escape ln cl (adv lx)
           else Inr ([ch_backslash, c], adv lx)))"

lemma read_while_scan: "scan lx (snd (read_while p acc lx))"
proof (induction p acc lx rule: read_while.induct)
  case (1 p acc lx)
  then show ?case
    by (cases "peek lx")
      (auto simp: read_while.simps [of p acc lx] scan_refl dest: scan_adv1)
qed

lemma read_depth_scan: "scan lx (snd (read_depth d t s lx))"
proof (induction d t s lx rule: read_depth.induct)
  case (1 d t s lx)
  then show ?case
    by (cases "peek lx")
      (auto simp: read_depth.simps [of d t s lx] scan_refl dest: scan_adv1)
qed

lemma scan_adv_here: "scan lx (adv lx)" and scan_adv2: "scan lx (adv (adv lx))"
  by (auto intro: scan.intros)

lemma read_hex_escape_scan: "read_hex_escape ln cl lx = Inr (cs, l) \<Longrightarrow> scan lx l"
  by (auto simp: read_hex_escape_def Let_def scan_adv2 split: option.splits)

lemma read_unicode_escape_scan:
  assumes "read_unicode_escape ln cl lx = Inr (cs, l)"
  shows "scan lx l"
proof (cases "peek lx = Some (cp CHR ''{'')")
  case True
  obtain h l1 where r: "read_while (\<lambda>c. c \<noteq> cp CHR ''}'') [] (adv lx) = (h, l1)"
    by (cases "read_while (\<lambda>c. c \<noteq> cp CHR ''}'') [] (adv lx)")
  then have "scan (adv lx) l1"
    using read_while_scan [of "adv lx" "\<lambda>c. c \<noteq> cp CHR ''}''" "[]"] by simp
  then have "scan lx (adv l1)" using scan_adv1 scan.scan_adv by blast
  then show ?thesis
    using assms True r
    by (auto simp: read_unicode_escape_def Let_def split: option.splits)
next
  case False
  then show ?thesis
    using assms by (auto simp: read_unicode_escape_def scan_refl split: option.splits)
qed

lemma read_escape_scan: "read_escape ln cl lx = Inr (cs, l) \<Longrightarrow> scan lx l"
  by (auto simp: read_escape_def scan_adv_here split: option.splits if_splits
      dest: read_hex_escape_scan read_unicode_escape_scan intro: scan_adv1)

function read_string_loop ::
  "uchar \<Rightarrow> bool \<Rightarrow> nat \<Rightarrow> nat \<Rightarrow> nat \<Rightarrow> uchar list \<Rightarrow> lexer \<Rightarrow> (uchar list \<times> lexer) lexed" where
  "read_string_loop quote triple ln cl start s lx =
     (case peek lx of
        None \<Rightarrow> fail_at UnterminatedString ln cl start (pos lx)
      | Some c \<Rightarrow>
          (let l = adv lx
           in if \<not> triple \<and> c = ch_nl then fail_at NewlineInString ln cl start (pos l)
              else if c = quote then
                (if triple then
                   (if peek l = Some quote \<and> peek_next l = Some quote then Inr (s, adv (adv l))
                    else read_string_loop quote triple ln cl start (s @ [c]) l)
                 else Inr (s, l))
              else if c = ch_backslash then
                (case read_escape ln cl l of
                   Inl e \<Rightarrow> Inl e
                 | Inr (cs, l') \<Rightarrow> read_string_loop quote triple ln cl start (s @ cs) l')
              else read_string_loop quote triple ln cl start (s @ [c]) l))"
  by pat_completeness auto
termination
  by (relation "measure (\<lambda>(_, _, _, _, _, _, lx). remaining lx)")
    (auto simp: remaining_adv intro: le_less_trans [OF scan_remaining remaining_adv]
      dest!: read_escape_scan)

declare read_string_loop.simps [simp del]

definition read_string ::
  "token_kind \<Rightarrow> uchar \<Rightarrow> nat \<Rightarrow> nat \<Rightarrow> nat \<Rightarrow> lexer \<Rightarrow> (token \<times> lexer) lexed" where
  "read_string kind quote ln cl start lx =
     (let triple = (peek lx = Some quote \<and> peek_next lx = Some quote);
          l = (if triple then adv (adv lx) else lx)
      in and_then (read_string_loop quote triple ln cl start [] l)
           (\<lambda>(s, l'). Inr (make_tok kind s ln cl start l', l')))"

subsection \<open>Numbers\<close>

function read_digit_run ::
  "(uchar \<Rightarrow> bool) \<Rightarrow> uchar list \<Rightarrow> lexer \<Rightarrow> uchar list \<times> lexer" where
  "read_digit_run d num lx =
     (case peek lx of
        Some c \<Rightarrow>
          (if d c then read_digit_run d (num @ [c]) (adv lx)
           else if c = cp CHR ''_'' \<and> num \<noteq> [] \<and> d (last num)
                \<and> (case peek_next lx of Some n \<Rightarrow> d n | None \<Rightarrow> False)
             then read_digit_run d num (adv lx)
           else (num, lx))
      | None \<Rightarrow> (num, lx))"
  by pat_completeness auto
termination
  by (relation "measure (\<lambda>(_, _, lx). remaining lx)") (auto simp: remaining_adv)

declare read_digit_run.simps [simp del]

definition is_hex :: "uchar \<Rightarrow> bool" where
  "is_hex c \<longleftrightarrow> hex_digit c \<noteq> None"

definition is_octal :: "uchar \<Rightarrow> bool" where
  "is_octal c \<longleftrightarrow> 48 \<le> c \<and> c \<le> 55"

definition is_binary :: "uchar \<Rightarrow> bool" where
  "is_binary c \<longleftrightarrow> c = 48 \<or> c = 49"

definition peek_is :: "lexer \<Rightarrow> (uchar \<Rightarrow> bool) \<Rightarrow> bool" where
  "peek_is lx p \<longleftrightarrow> (case peek lx of Some c \<Rightarrow> p c | None \<Rightarrow> False)"

abbreviation one_of :: "string \<Rightarrow> uchar \<Rightarrow> bool" where
  "one_of s c \<equiv> c \<in> set (cps s)"

definition read_radix ::
  "string \<Rightarrow> (uchar \<Rightarrow> bool) \<Rightarrow> lex_error_kind \<Rightarrow> nat \<Rightarrow> nat \<Rightarrow> nat \<Rightarrow> lexer
     \<Rightarrow> (token \<times> lexer) lexed" where
  "read_radix prefix d e ln cl start lx =
     (if \<not> peek_is lx d then fail_at e ln cl start (pos lx)
      else
        (case read_digit_run d (cps prefix) lx of
           (num, l) \<Rightarrow> Inr (make_tok (Lit IntegerTok) num ln cl start l, l)))"

text \<open>The exponent, if there is one: \<open>None\<close> when its digits are missing.\<close>

definition exponent_head :: "uchar list \<Rightarrow> lexer \<Rightarrow> uchar list \<times> lexer" where
  "exponent_head num lx =
     (let num1 = num @ (case peek lx of Some c \<Rightarrow> [c] | None \<Rightarrow> []);
          l = adv lx
      in case peek l of
           Some c \<Rightarrow> if one_of ''+-'' c then (num1 @ [c], adv l) else (num1, l)
         | None \<Rightarrow> (num1, l))"

definition number_tail ::
  "uchar list \<Rightarrow> bool \<Rightarrow> nat \<Rightarrow> nat \<Rightarrow> nat \<Rightarrow> lexer \<Rightarrow> (token \<times> lexer) lexed" where
  "number_tail num is_float ln cl start lx =
     (if peek_is lx (one_of ''eE'') then
        (case exponent_head num lx of
           (n, l) \<Rightarrow>
             (if \<not> peek_is l is_digit then fail_at InvalidScientific ln cl start (pos l)
              else
                (case read_digit_run is_digit n l of
                   (n', l') \<Rightarrow> Inr (make_tok (Lit FloatTok) n' ln cl start l', l'))))
      else
        Inr (make_tok (Lit (if is_float then FloatTok else IntegerTok)) num ln cl start lx, lx))"

definition read_decimal ::
  "uchar \<Rightarrow> nat \<Rightarrow> nat \<Rightarrow> nat \<Rightarrow> lexer \<Rightarrow> (token \<times> lexer) lexed" where
  "read_decimal first ln cl start lx =
     (case read_digit_run is_digit [first] lx of
        (num, l) \<Rightarrow>
          (if peek l = Some (cp CHR ''.'')
              \<and> (case peek_next l of Some c \<Rightarrow> is_digit c | None \<Rightarrow> False) then
             (case read_digit_run is_digit (num @ [cp CHR ''.'']) (adv l) of
                (num', l') \<Rightarrow> number_tail num' True ln cl start l')
           else number_tail num False ln cl start l))"

definition read_number ::
  "uchar \<Rightarrow> nat \<Rightarrow> nat \<Rightarrow> nat \<Rightarrow> lexer \<Rightarrow> (token \<times> lexer) lexed" where
  "read_number first ln cl start lx =
     (if first = cp CHR ''0'' \<and> peek_is lx (one_of ''xX'') then
        read_radix ''0x'' is_hex InvalidHexLiteral ln cl start (adv lx)
      else if first = cp CHR ''0'' \<and> peek_is lx (one_of ''oO'') then
        read_radix ''0o'' is_octal InvalidOctalLiteral ln cl start (adv lx)
      else if first = cp CHR ''0'' \<and> peek_is lx (one_of ''bB'') then
        read_radix ''0b'' is_binary InvalidBinaryLiteral ln cl start (adv lx)
      else read_decimal first ln cl start lx)"

text \<open>The arm for a number that starts with its point; its digits take no underscore.\<close>

definition read_point_number ::
  "nat \<Rightarrow> nat \<Rightarrow> nat \<Rightarrow> lexer \<Rightarrow> (token \<times> lexer) lexed" where
  "read_point_number ln cl start lx =
     (case read_while is_digit (cps ''0.'') lx of
        (num, l) \<Rightarrow>
          (if peek_is l (one_of ''eE'') then
             (case exponent_head num l of
                (n, l') \<Rightarrow>
                  (if \<not> peek_is l' is_digit then fail InvalidScientific l'
                   else
                     (case read_while is_digit n l' of
                        (n', l'') \<Rightarrow> Inr (make_tok (Lit FloatTok) n' ln cl start l'', l''))))
           else Inr (make_tok (Lit FloatTok) num ln cl start l, l)))"

subsection \<open>Identifiers and keywords\<close>

definition keyword_table :: "(string \<times> token_kind) list" where
  "keyword_table =
     [(''fn'', Kw KwFn), (''let'', Kw KwLet), (''const'', Kw KwConst), (''if'', Kw KwIf),
      (''else'', Kw KwElse), (''elif'', Kw KwElif), (''while'', Kw KwWhile), (''for'', Kw KwFor),
      (''in'', Kw KwIn), (''return'', Kw KwReturn), (''True'', Kw KwTrue), (''False'', Kw KwFalse),
      (''not'', Kw KwNot), (''and'', Kw KwAnd), (''or'', Kw KwOr), (''pass'', Kw KwPass),
      (''break'', Kw KwBreak), (''continue'', Kw KwContinue), (''try'', Kw KwTry), (''as'', Kw KwAs),
      (''assert'', Kw KwAssert), (''import'', Kw KwImport), (''from'', Kw KwFrom),
      (''struct'', Kw KwStruct), (''impl'', Kw KwImpl), (''trait'', Kw KwTrait), (''mut'', Kw KwMut),
      (''enum'', Kw KwEnum), (''match'', Kw KwMatch), (''async'', Kw KwAsync),
      (''await'', Kw KwAwait), (''case'', Kw KwCase), (''unsafe'', Kw KwUnsafe),
      (''defer'', Kw KwDefer), (''None'', Kw KwNull), (''with'', Kw KwWith),
      (''lambda'', Kw KwLambda), (''_'', Pn Underscore)]"

definition ident_kind :: "uchar list \<Rightarrow> token_kind" where
  "ident_kind s =
     (case map_of (map (\<lambda>(k, v). (cps k, v)) keyword_table) s of
        Some k \<Rightarrow> k
      | None \<Rightarrow> Lit Identifier)"

definition read_ident ::
  "unicode \<Rightarrow> uchar \<Rightarrow> nat \<Rightarrow> nat \<Rightarrow> nat \<Rightarrow> lexer \<Rightarrow> (token \<times> lexer) lexed" where
  "read_ident u first ln cl start lx =
     (case peek lx of
        Some quote \<Rightarrow>
          (if first = cp CHR ''f'' \<and> (quote = ch_dquote \<or> quote = ch_squote) then
             read_string (Lit FString) quote ln cl start (adv lx)
           else
             (case read_while (\<lambda>c. is_alphanumeric u c \<or> c = cp CHR ''_'') [first] lx of
                (ident, l) \<Rightarrow> Inr (make_tok (ident_kind ident) ident ln cl start l, l)))
      | None \<Rightarrow> Inr (make_tok (ident_kind [first]) [first] ln cl start lx, lx))"

subsection \<open>Operators and delimiters\<close>

text \<open>The outcome of an arm of \<open>next_token\<close>: no token is the \<open>continue\<close> of its loop.\<close>

type_synonym arm = "(token option \<times> lexer) lexed"

definition emit :: "token_kind \<Rightarrow> string \<Rightarrow> nat \<Rightarrow> nat \<Rightarrow> nat \<Rightarrow> lexer \<Rightarrow> arm" where
  "emit k v ln cl start lx = Inr (Some (make_tok k (cps v) ln cl start lx), lx)"

text \<open>\<open>if self.peek() == Some(c) { self.advance(); yes } else { no }\<close>\<close>

definition if_next :: "char \<Rightarrow> (lexer \<Rightarrow> arm) \<Rightarrow> (lexer \<Rightarrow> arm) \<Rightarrow> lexer \<Rightarrow> arm" where
  "if_next c yes no lx = (if peek lx = Some (cp c) then yes (adv lx) else no lx)"

definition push_open :: "uchar \<Rightarrow> nat \<Rightarrow> nat \<Rightarrow> lexer \<Rightarrow> lexer" where
  "push_open c ln cl lx = lx\<lparr>delimiter_stack := (c, ln, cl) # delimiter_stack lx\<rparr>"

definition close_delim ::
  "uchar \<Rightarrow> uchar \<Rightarrow> nat \<Rightarrow> nat \<Rightarrow> (lexer \<Rightarrow> arm) \<Rightarrow> lexer \<Rightarrow> arm" where
  "close_delim open_ch close_ch ln cl k lx =
     (case delimiter_stack lx of
        [] \<Rightarrow> fail (Unmatched close_ch) lx
      | (o', dl, dc) # ds \<Rightarrow>
          (if o' = open_ch then k (lx\<lparr>delimiter_stack := ds\<rparr>)
           else fail_at (MismatchedDelimiter o' dl dc close_ch) ln cl (pos lx - 1) (pos lx)))"

definition lex_delimiter :: "uchar \<Rightarrow> nat \<Rightarrow> nat \<Rightarrow> nat \<Rightarrow> lexer \<Rightarrow> arm option" where
  "lex_delimiter ch ln cl start lx =
     (let open_as = (\<lambda>k v. emit k v ln cl start (push_open ch ln cl lx));
          close_as = (\<lambda>o' k v. close_delim (cp o') ch ln cl (emit k v ln cl start) lx)
      in if ch = cp CHR ''('' then Some (open_as (Pn LParen) ''('')
         else if ch = cp CHR '')'' then Some (close_as CHR ''('' (Pn RParen) '')'')
         else if ch = cp CHR ''['' then Some (open_as (Pn LBracket) ''['')
         else if ch = cp CHR '']'' then Some (close_as CHR ''['' (Pn RBracket) '']'')
         else if ch = cp CHR ''{'' then Some (open_as (Pn LBrace) ''{'')
         else if ch = cp CHR ''}'' then Some (close_as CHR ''{'' (Pn RBrace) ''}'')
         else None)"

definition lex_operator :: "uchar \<Rightarrow> nat \<Rightarrow> nat \<Rightarrow> nat \<Rightarrow> lexer \<Rightarrow> arm" where
  "lex_operator ch ln cl start =
     (let tok = (\<lambda>k v. emit k v ln cl start);
          with_eq = (\<lambda>k1 v1 k2 v2. if_next CHR ''='' (tok (Opr k1) v1) (tok (Opr k2) v2))
      in if ch = cp CHR ''='' then with_eq DoubleEqual ''=='' Equal ''=''
         else if ch = cp CHR ''!'' then
           if_next CHR ''='' (tok (Opr NotEqual) ''!='') (fail (UnexpectedChar ch))
         else if ch = cp CHR ''<'' then
           if_next CHR ''='' (tok (Opr LessEqual) ''<='')
             (if_next CHR ''<'' (with_eq ShlEqual ''<<='' Shl ''<<'') (tok (Opr Less) ''<''))
         else if ch = cp CHR ''>'' then
           if_next CHR ''='' (tok (Opr GreaterEqual) ''>='')
             (if_next CHR ''>'' (with_eq ShrEqual ''>>='' Shr ''>>'') (tok (Opr Greater) ''>''))
         else if ch = cp CHR '':'' then
           if_next CHR '':'' (tok (Pn DoubleColon) ''::'') (tok (Pn Colon) '':'')
         else if ch = cp CHR ''+'' then with_eq PlusEqual ''+='' Plus ''+''
         else if ch = cp CHR ''-'' then
           if_next CHR ''>'' (tok (Pn Arrow) ''->'') (with_eq MinusEqual ''-='' Minus ''-'')
         else if ch = cp CHR ''*'' then
           if_next CHR ''*'' (with_eq DoubleStarEqual ''**='' DoubleStar ''**'')
             (with_eq StarEqual ''*='' Star ''*'')
         else if ch = cp CHR ''/'' then with_eq SlashEqual ''/='' Slash ''/''
         else if ch = cp CHR ''%'' then with_eq PercentEqual ''%='' Percent ''%''
         else if ch = cp CHR '','' then tok (Pn Comma) '',''
         else if ch = cp CHR ''.'' then
           if_next CHR ''.''
             (if_next CHR ''='' (tok (Pn DotDotEq) ''..='') (tok (Pn DotDot) ''..''))
             (tok (Pn Dot) ''.'')
         else if ch = cp CHR '';'' then tok (Pn Semicolon) '';''
         else if ch = cp CHR ''&'' then with_eq AmpersandEqual ''&='' Ampersand ''&''
         else if ch = cp CHR ''@'' then tok (Pn AtSign) ''@''
         else if ch = cp CHR ''|'' then with_eq PipeEqual ''|='' Pipe ''|''
         else if ch = cp CHR ''^'' then with_eq CaretEqual ''^='' Caret ''^''
         else if ch = cp CHR ''~'' then tok (Opr Tilde) ''~''
         else if ch = cp CHR ''?'' then
           if_next CHR ''?'' (tok (Pn QuestionQuestion) ''??'')
             (if_next CHR ''.'' (tok (Pn QuestionDot) ''?.'') (tok (Pn Question) ''?''))
         else if ch = cp CHR ''#'' then tok (Pn Hash) ''#''
         else fail (UnexpectedChar ch))"

subsection \<open>Tokens\<close>

definition lex_eof :: "nat \<Rightarrow> nat \<Rightarrow> nat \<Rightarrow> lexer \<Rightarrow> (token \<times> lexer) lexed" where
  "lex_eof ln cl start lx =
     (case delimiter_stack lx of
        (o', dl, dc) # _ \<Rightarrow> fail_at (Unclosed o' dl dc) ln cl (pos lx) (pos lx + 1)
      | [] \<Rightarrow>
          (let t = (\<lambda>k v. \<lparr>t_kind = k, t_value = v, t_line = ln, t_col = cl,
                            t_span = (start, start), t_file_id = lx_file_id lx\<rparr>);
               n = length (indent_stack lx) - 1
           in if length (indent_stack lx) > 1 then
                Inr (t Newline [ch_nl],
                     lx\<lparr>indent_stack := drop n (indent_stack lx),
                        pending := pending lx @ replicate n (t Dedent []) @ [t Eof []]\<rparr>)
              else Inr (t Eof [], lx)))"

definition some_tok :: "(token \<times> lexer) lexed \<Rightarrow> arm" where
  "some_tok r = and_then r (\<lambda>(t, l). Inr (Some t, l))"

definition lex_char :: "unicode \<Rightarrow> uchar \<Rightarrow> nat \<Rightarrow> nat \<Rightarrow> nat \<Rightarrow> lexer \<Rightarrow> arm" where
  "lex_char u ch ln cl start lx =
     (if ch = ch_nl then
        (if delimiter_stack lx \<noteq> [] then Inr (None, lx) else handle_indent ln start lx)
      else if ch = ch_backslash then
        (if peek lx = Some ch_nl then Inr (None, adv lx) else fail (UnexpectedChar ch) lx)
      else if ch = cp CHR ''.'' \<and> peek_is lx is_digit then
        some_tok (read_point_number ln cl start lx)
      else if is_digit ch then some_tok (read_number ch ln cl start lx)
      else if ch = ch_dquote \<or> ch = ch_squote then
        some_tok (read_string (Lit StringTok) ch ln cl start lx)
      else if is_alphabetic u ch \<or> ch = cp CHR ''_'' then some_tok (read_ident u ch ln cl start lx)
      else (case lex_delimiter ch ln cl start lx of
              Some r \<Rightarrow> r
            | None \<Rightarrow> lex_operator ch ln cl start lx))"

text \<open>An arm scans forward and may also change the three stacks.\<close>

definition moves :: "lexer \<Rightarrow> lexer \<Rightarrow> bool" where
  "moves lx l \<longleftrightarrow>
     scan lx (l\<lparr>indent_stack := indent_stack lx, pending := pending lx,
                delimiter_stack := delimiter_stack lx\<rparr>)"

lemma lexer_same:
  "indent_stack l = i \<Longrightarrow> pending l = p \<Longrightarrow> delimiter_stack l = d \<Longrightarrow>
     l\<lparr>indent_stack := i, pending := p, delimiter_stack := d\<rparr> = l"
  by (cases l) auto

lemma lexer_same_stack:
  "indent_stack l = i \<Longrightarrow> l\<lparr>indent_stack := i\<rparr> = l"
  "delimiter_stack l = d \<Longrightarrow> l\<lparr>delimiter_stack := d\<rparr> = l"
  by (cases l; auto)+

lemma scan_moves: "scan lx l \<Longrightarrow> moves lx l"
  using scan_keeps [of lx l] by (simp add: moves_def lexer_same)

lemma moves_keeps: "moves a b \<Longrightarrow> source b = source a \<and> pos a \<le> pos b \<and> lx_file_id b = lx_file_id a"
  using scan_keeps scan_pos by (fastforce simp: moves_def)

lemma moves_remaining: "moves a b \<Longrightarrow> remaining b \<le> remaining a"
  using moves_keeps [of a b] by (auto simp: remaining_def intro: diff_le_mono2)

lemma scan_moves_trans: "scan a b \<Longrightarrow> moves b c \<Longrightarrow> moves a c"
  using scan_keeps [of a b] by (auto simp: moves_def intro: scan_trans)

lemma adv_moves: "moves (adv a) b \<Longrightarrow> moves a b"
  by (rule scan_moves_trans [OF scan_adv_here])

lemma read_string_loop_scan:
  "read_string_loop q t ln cl start s lx = Inr (cs, l) \<Longrightarrow> scan lx l"
proof (induction q t ln cl start s lx rule: read_string_loop.induct)
  case (1 q t ln cl start s lx)
  show ?case
  proof (cases "peek lx")
    case None
    with "1.prems" show ?thesis by (simp add: read_string_loop.simps [of q t ln cl start s lx])
  next
    case (Some c)
    note eq = read_string_loop.simps [of q t ln cl start s lx]
    from "1.prems" Some consider
        "scan (adv lx) l"
      | cs' l' where "c = ch_backslash" "\<not> (\<not> t \<and> c = ch_nl)" "c \<noteq> q"
          "read_escape ln cl (adv lx) = Inr (cs', l')"
          "read_string_loop q t ln cl start (s @ cs') l' = Inr (cs, l)"
      using "1.IH"(1) [OF Some refl] "1.IH"(3) [OF Some refl]
      by (auto simp: eq Let_def scan_adv2 scan_refl split: if_splits sum.splits prod.splits)
    then show ?thesis
    proof cases
      case 1
      then show ?thesis by (rule scan_adv1)
    next
      case 2
      from "1.IH"(2) [OF Some refl] 2 have "scan l' l" by blast
      with 2(4) have "scan (adv lx) l" by (blast intro: scan_trans read_escape_scan)
      then show ?thesis by (rule scan_adv1)
    qed
  qed
qed

lemma read_string_scan:
  assumes "read_string k q ln cl start lx = Inr (t, l)"
  shows "scan lx l"
proof -
  let ?l = "if peek lx = Some q \<and> peek_next lx = Some q then adv (adv lx) else lx"
  obtain s where "read_string_loop q (peek lx = Some q \<and> peek_next lx = Some q) ln cl start [] ?l
      = Inr (s, l)"
    using assms by (auto simp: read_string_def Let_def and_then_Inr_iff)
  then have "scan ?l l" by (rule read_string_loop_scan)
  moreover have "scan lx ?l" by (simp add: scan_adv2 scan_refl)
  ultimately show ?thesis by (rule scan_trans)
qed

lemma read_digit_run_scan: "scan lx (snd (read_digit_run d num lx))"
proof (induction d num lx rule: read_digit_run.induct)
  case (1 d num lx)
  then show ?case
    by (cases "peek lx")
      (auto simp: read_digit_run.simps [of d num lx] scan_refl dest: scan_adv1)
qed

lemma read_while_scan' : "read_while p acc lx = (s, l) \<Longrightarrow> scan lx l"
  using read_while_scan [of lx p acc] by simp

lemma read_digit_run_scan' : "read_digit_run d num lx = (s, l) \<Longrightarrow> scan lx l"
  using read_digit_run_scan [of lx d num] by simp

lemma read_depth_scan' : "read_depth d t s lx = (r, l) \<Longrightarrow> scan lx l"
  using read_depth_scan [of lx d t s] by simp

lemma exponent_head_scan: "exponent_head num lx = (n, l) \<Longrightarrow> scan lx l"
  by (auto simp: exponent_head_def Let_def scan_adv_here scan_adv2 split: option.splits if_splits)

lemma read_radix_scan: "read_radix p d e ln cl start lx = Inr (t, l) \<Longrightarrow> scan lx l"
  by (auto simp: read_radix_def split: if_splits prod.splits dest: read_digit_run_scan')

lemma number_tail_scan: "number_tail num f ln cl start lx = Inr (t, l) \<Longrightarrow> scan lx l"
  by (auto simp: number_tail_def split: if_splits prod.splits
      dest!: read_digit_run_scan' exponent_head_scan intro: scan_trans scan_refl)

lemma read_decimal_scan:
  assumes "read_decimal c ln cl start lx = Inr (t, l)"
  shows "scan lx l"
proof -
  obtain n l1 where r: "read_digit_run is_digit [c] lx = (n, l1)"
    by (cases "read_digit_run is_digit [c] lx")
  obtain n' l2 where r2: "read_digit_run is_digit (n @ [cp CHR ''.'']) (adv l1) = (n', l2)"
    by (cases "read_digit_run is_digit (n @ [cp CHR ''.'']) (adv l1)")
  have "scan l1 l"
    using assms r r2 scan_adv1 [OF read_digit_run_scan' [OF r2]]
    by (auto simp: read_decimal_def split: if_splits dest!: number_tail_scan intro: scan_trans)
  with r show ?thesis by (blast intro: scan_trans read_digit_run_scan')
qed

lemma read_number_scan: "read_number c ln cl start lx = Inr (t, l) \<Longrightarrow> scan lx l"
  by (auto simp: read_number_def split: if_splits
      dest: read_radix_scan read_decimal_scan intro: scan_adv1)

lemma read_point_number_scan: "read_point_number ln cl start lx = Inr (t, l) \<Longrightarrow> scan lx l"
  by (auto simp: read_point_number_def split: if_splits prod.splits
      dest!: read_while_scan' exponent_head_scan intro: scan_trans)

lemma read_ident_scan: "read_ident u c ln cl start lx = Inr (t, l) \<Longrightarrow> scan lx l"
  by (auto simp: read_ident_def scan_refl split: if_splits prod.splits option.splits
      dest: read_while_scan' read_string_scan intro: scan_adv1)

lemmas reader_scan = read_number_scan read_point_number_scan read_ident_scan read_string_scan

lemma some_tok_Inr_iff:
  "some_tok r = Inr (t, l) \<longleftrightarrow> (\<exists>t'. t = Some t' \<and> r = Inr (t', l))"
  by (auto simp: some_tok_def and_then_Inr_iff)

text \<open>
  A token that is neither layout nor a bracket, at the place where its reader started; and the
  readers of operators, as functions of the lexer, which scan and then emit such a token.
\<close>

fun plain_kind :: "token_kind \<Rightarrow> bool" where
  "plain_kind (Lit _) = True"
| "plain_kind (Kw _) = True"
| "plain_kind (Opr _) = True"
| "plain_kind (Pn p) = (p \<notin> {LParen, RParen, LBracket, RBracket, LBrace, RBrace})"
| "plain_kind _ = False"

definition token_at :: "nat \<Rightarrow> nat \<Rightarrow> nat \<Rightarrow> lexer \<Rightarrow> token \<Rightarrow> bool" where
  "token_at ln cl start l t \<longleftrightarrow>
     t_line t = ln \<and> t_col t = cl \<and> t_span t = (start, pos l) \<and> plain_kind (t_kind t)"

lemma token_at_make [simp]: "token_at ln cl start l (make_tok k v ln cl start l) \<longleftrightarrow> plain_kind k"
  by (simp add: token_at_def make_tok_def)

definition scans :: "nat \<Rightarrow> nat \<Rightarrow> nat \<Rightarrow> (lexer \<Rightarrow> arm) \<Rightarrow> bool" where
  "scans ln cl start f \<longleftrightarrow>
     (\<forall>lx t l. f lx = Inr (t, l) \<longrightarrow> scan lx l \<and> (\<exists>tk. t = Some tk \<and> token_at ln cl start l tk))"

lemma scans_emit: "plain_kind k \<Longrightarrow> scans ln cl start (emit k v ln cl start)"
  by (auto simp: scans_def emit_def scan_refl)

lemma scans_fail: "scans ln cl start (fail k)"
  by (simp add: scans_def)

lemma scans_if_next: "scans ln cl start f \<Longrightarrow> scans ln cl start g \<Longrightarrow> scans ln cl start (if_next c f g)"
  by (auto simp: scans_def if_next_def intro: scan_adv1)

lemma scans_if: "scans ln cl start f \<Longrightarrow> scans ln cl start g \<Longrightarrow> scans ln cl start (if b then f else g)"
  by simp

lemmas scans_intros = scans_if scans_emit scans_fail scans_if_next

lemma lex_operator_scans: "scans ln cl start (lex_operator ch ln cl start)"
  unfolding lex_operator_def Let_def by (intro scans_intros) simp_all

lemma ident_kind_plain: "plain_kind (ident_kind s)"
proof -
  have "\<forall>(k, v) \<in> set keyword_table. plain_kind v" by (simp add: keyword_table_def)
  then show ?thesis
    by (auto simp: ident_kind_def split: option.splits dest!: map_of_SomeD)
qed

lemma read_string_tok: "read_string k q ln cl start lx = Inr (t, l) \<Longrightarrow> plain_kind k \<Longrightarrow> token_at ln cl start l t"
  by (auto simp: read_string_def Let_def and_then_Inr_iff)

lemma read_number_tok: "read_number c ln cl start lx = Inr (t, l) \<Longrightarrow> token_at ln cl start l t"
  by (auto simp: read_number_def read_radix_def read_decimal_def number_tail_def
      split: if_splits prod.splits)

lemma read_point_number_tok: "read_point_number ln cl start lx = Inr (t, l) \<Longrightarrow> token_at ln cl start l t"
  by (auto simp: read_point_number_def split: if_splits prod.splits)

lemma read_ident_tok: "read_ident u c ln cl start lx = Inr (t, l) \<Longrightarrow> token_at ln cl start l t"
  by (auto simp: read_ident_def ident_kind_plain split: if_splits prod.splits option.splits
      dest: read_string_tok)

text \<open>Brackets: what opens, and the bracket that closes it.\<close>

definition open_bracket :: "uchar \<Rightarrow> token_kind \<Rightarrow> bool" where
  "open_bracket c k \<longleftrightarrow> (c, k) \<in> {(40, Pn LParen), (91, Pn LBracket), (123, Pn LBrace)}"

definition close_bracket :: "uchar \<Rightarrow> token_kind \<Rightarrow> bool" where
  "close_bracket c k \<longleftrightarrow> (c, k) \<in> {(40, Pn RParen), (91, Pn RBracket), (123, Pn RBrace)}"

lemma lex_delimiter_cases:
  assumes "lex_delimiter ch ln cl start lx = Some (Inr (t, l))"
  obtains (opens) k where "open_bracket ch k" "t = Some (make_tok k [ch] ln cl start lx)"
      "l = push_open ch ln cl lx"
    | (closes) k o' dl dc ds where "close_bracket o' k" "delimiter_stack lx = (o', dl, dc) # ds"
      "t = Some (make_tok k [ch] ln cl start lx)" "l = lx\<lparr>delimiter_stack := ds\<rparr>"
  using assms
  by (auto simp: lex_delimiter_def Let_def close_delim_def emit_def push_open_def cps_def make_tok_def
      open_bracket_def close_bracket_def split: if_splits list.splits)

lemma handle_indent_cases:
  assumes "handle_indent ln start lx = Inr (t, l)"
  obtains (blank) "t = None" "scan lx l"
    | (code) depth l1 where "scan lx l1" "indent_to depth ln start l1 = Inr l"
      "t = Some (newline_tok ln start l)"
proof -
  obtain d tb sp l1 where r: "read_depth 0 False False lx = ((d, tb, sp), l1)"
    by (metis prod_cases3 surj_pair)
  then have s: "scan lx l1" by (rule read_depth_scan')
  show ?thesis
  proof (cases t)
    case None
    with assms r s have "scan lx l"
      by (auto simp: handle_indent_def and_then_Inr_iff split: if_splits
          intro: scan_trans skip_line_comment_scan skip_block_comment_scan skip_while_scan)
    with None show ?thesis by (rule blank)
  next
    case (Some tk)
    with assms r s show ?thesis
      by (auto simp: handle_indent_def and_then_Inr_iff split: if_splits intro: code)
  qed
qed

lemma indent_to_moves: "indent_to d ln start lx = Inr l \<Longrightarrow> moves lx l"
  by (auto simp: indent_to_def moves_def lexer_same lexer_same_stack scan_refl split: list.splits option.splits if_splits)

text \<open>The outcomes of an arm.\<close>

lemma lex_char_cases:
  assumes "lex_char u ch ln cl start lx = Inr (t, l)"
  obtains (skip) "t = None" "scan lx l"
    | (plain) tk where "t = Some tk" "scan lx l" "token_at ln cl start l tk"
    | (opens) k where "open_bracket ch k" "t = Some (make_tok k [ch] ln cl start lx)"
      "l = push_open ch ln cl lx"
    | (closes) k o' dl dc ds where "close_bracket o' k" "delimiter_stack lx = (o', dl, dc) # ds"
      "t = Some (make_tok k [ch] ln cl start lx)" "l = lx\<lparr>delimiter_stack := ds\<rparr>"
    | (line) depth l1 where "ch = ch_nl" "delimiter_stack lx = []" "scan lx l1"
      "indent_to depth ln start l1 = Inr l" "t = Some (newline_tok ln start l)"
proof -
  note to_open = opens and to_close = closes
  have tok: ?thesis if "some_tok r = Inr (t, l)" "\<And>t' l'. r = Inr (t', l') \<Longrightarrow> scan lx l' \<and> token_at ln cl start l' t'" for r
  proof -
    from that(1) obtain tk where "t = Some tk" "r = Inr (tk, l)" by (auto simp: some_tok_Inr_iff)
    with that(2) show ?thesis by (intro plain) auto
  qed
  have delim: ?thesis if "lex_delimiter ch ln cl start lx = Some (Inr (t, l))"
    using that
  proof (cases rule: lex_delimiter_cases)
    case opens
    then show ?thesis by (rule to_open)
  next
    case closes
    then show ?thesis by (rule to_close)
  qed
  have oper: ?thesis if "lex_operator ch ln cl start lx = Inr (t, l)"
  proof -
    have "scan lx l \<and> (\<exists>tk. t = Some tk \<and> token_at ln cl start l tk)"
      using that lex_operator_scans [of ln cl start ch] unfolding scans_def by blast
    then obtain tk where "t = Some tk" "scan lx l" "token_at ln cl start l tk" by blast
    then show ?thesis by (rule plain)
  qed
  have indent: ?thesis if "handle_indent ln start lx = Inr (t, l)" "ch = ch_nl" "delimiter_stack lx = []"
    using that(1)
  proof (cases rule: handle_indent_cases)
    case blank
    then show ?thesis by (rule skip)
  next
    case code
    with that(2,3) show ?thesis by (intro line)
  qed
  consider "ch = ch_nl" "delimiter_stack lx \<noteq> []" | "ch = ch_nl" "delimiter_stack lx = []"
    | "ch \<noteq> ch_nl" "ch = ch_backslash" | "ch \<noteq> ch_nl" "ch \<noteq> ch_backslash"
    by blast
  then show ?thesis
  proof cases
    case 1
    with assms have "t = None" "l = lx" by (simp_all add: lex_char_def)
    then show ?thesis using skip scan_refl by simp
  next
    case 2
    with assms have "handle_indent ln start lx = Inr (t, l)" by (simp add: lex_char_def)
    with 2 show ?thesis using indent by blast
  next
    case 3
    with assms have "t = None" "l = adv lx" by (auto simp: lex_char_def split: if_splits)
    then show ?thesis using skip scan_adv_here by simp
  next
    case 4
    note eq = lex_char_def [of u ch ln cl start lx]
    from 4 assms consider
        "some_tok (read_point_number ln cl start lx) = Inr (t, l)"
      | "some_tok (read_number ch ln cl start lx) = Inr (t, l)"
      | "some_tok (read_string (Lit StringTok) ch ln cl start lx) = Inr (t, l)"
      | "some_tok (read_ident u ch ln cl start lx) = Inr (t, l)"
      | "lex_delimiter ch ln cl start lx = Some (Inr (t, l))"
      | "lex_operator ch ln cl start lx = Inr (t, l)"
      by (auto simp: eq split: if_splits option.splits)
    then show ?thesis
    proof cases
      case 1
      then show ?thesis by (rule tok) (simp add: read_point_number_scan read_point_number_tok)
    next
      case 2
      then show ?thesis by (rule tok) (simp add: read_number_scan read_number_tok)
    next
      case 3
      then show ?thesis by (rule tok) (simp add: read_string_scan read_string_tok)
    next
      case 4
      then show ?thesis by (rule tok) (simp add: read_ident_scan read_ident_tok)
    qed (fact delim oper)+
  qed
qed

lemma lex_char_moves:
  assumes "lex_char u ch ln cl start lx = Inr (t, l)"
  shows "moves lx l"
  using assms
proof (cases rule: lex_char_cases)
  case (opens k)
  then show ?thesis by (simp add: moves_def push_open_def lexer_same lexer_same_stack scan_refl)
next
  case (closes k o' dl dc ds)
  then show ?thesis by (simp add: moves_def lexer_same lexer_same_stack scan_refl)
qed (auto intro: scan_moves scan_moves_trans indent_to_moves)

function next_token :: "unicode \<Rightarrow> lexer \<Rightarrow> (token \<times> lexer) lexed" where
  "next_token u lx0 =
     (case pending lx0 of
        t # ts \<Rightarrow> Inr (t, lx0\<lparr>pending := ts\<rparr>)
      | [] \<Rightarrow>
          (let lx = skip_inline_whitespace lx0
           in case peek lx of
                None \<Rightarrow> lex_eof (line lx) (col lx) (pos lx) lx
              | Some ch \<Rightarrow>
                  (case lex_char u ch (line lx) (col lx) (pos lx) (adv lx) of
                     Inl e \<Rightarrow> Inl e
                   | Inr (Some t, l) \<Rightarrow> Inr (t, l)
                   | Inr (None, l) \<Rightarrow> next_token u l)))"
  by pat_completeness auto
termination
proof (relation "measure (\<lambda>(u, lx). remaining lx)")
  fix u lx0 lx ch x l and o' :: "token option"
  assume "lx = skip_inline_whitespace lx0" "peek lx = Some ch"
    "lex_char u ch (line lx) (col lx) (pos lx) (adv lx) = Inr x" "(o', l) = x"
  then have "remaining l \<le> remaining (adv lx)" "remaining (adv lx) < remaining lx"
    "remaining lx \<le> remaining lx0"
    using lex_char_moves moves_remaining remaining_adv
      scan_remaining [OF skip_inline_whitespace_scan]
    by blast+
  then show "((u, l), u, lx0) \<in> measure (\<lambda>(u, lx). remaining lx)" by simp
qed auto

declare next_token.simps [simp del]

text \<open>
  Each token uses up the measure \<open>5 * remaining + 3 * length indent_stack + length pending\<close>: a
  level of indentation may turn into a queued token, a character into a level.
\<close>

definition weight :: "lexer \<Rightarrow> nat" where
  "weight lx = 3 * length (indent_stack lx) + length (pending lx)"

lemma pop_deeper_Some:
  "pop_deeper d st = Some (r, n) \<Longrightarrow>
     \<exists>p. st = p @ r \<and> length p = n \<and> (\<forall>x \<in> set p. d < x) \<and> r \<noteq> [] \<and> hd r \<le> d"
proof (induction st arbitrary: r n)
  case (Cons x st)
  show ?case
  proof (cases "x > d")
    case True
    with Cons.prems obtain n' where "pop_deeper d st = Some (r, n')" "n = n' + 1"
      by (auto split: option.splits)
    with Cons.IH True show ?thesis by (metis Suc_eq_plus1 append_Cons length_Cons set_ConsD)
  next
    case False
    with Cons.prems show ?thesis by auto
  qed
qed simp

lemma scan_weight: "scan lx l \<Longrightarrow> weight l = weight lx"
  using scan_keeps [of lx l] by (simp add: weight_def)

lemma indent_to_weight: "indent_to d ln start lx = Inr l \<Longrightarrow> weight l \<le> weight lx + 4"
  by (auto simp: indent_to_def weight_def split: list.splits option.splits if_splits
      dest!: pop_deeper_Some)

lemma lex_char_weight:
  assumes "lex_char u ch ln cl start lx = Inr (t, l)"
  shows "weight l \<le> weight lx + 4"
  using assms
  by (cases rule: lex_char_cases)
    (auto simp: weight_def [of "push_open _ _ _ _"] weight_def [of "_\<lparr>delimiter_stack := _\<rparr>"]
      push_open_def weight_def [of lx] dest!: scan_weight indent_to_weight)

lemma next_token_measure:
  "next_token u lx = Inr (t, l) \<Longrightarrow>
     t_kind t = Eof \<or> 5 * remaining l + weight l < 5 * remaining lx + weight lx"
proof (induction u lx rule: next_token.induct)
  case (1 u lx0)
  show ?case
  proof (cases "pending lx0")
    case (Cons t' ts)
    with "1.prems" show ?thesis
      by (auto simp: next_token.simps [of u lx0] weight_def remaining_def)
  next
    case Nil
    let ?lx = "skip_inline_whitespace lx0"
    have w: "weight ?lx = weight lx0" and r: "remaining ?lx \<le> remaining lx0"
      by (rule scan_weight scan_remaining, rule skip_inline_whitespace_scan)+
    show ?thesis
    proof (cases "peek ?lx")
      case None
      with Nil "1.prems" r scan_keeps [OF skip_inline_whitespace_scan, of lx0] show ?thesis
        by (auto simp: next_token.simps [of u lx0] Let_def lex_eof_def weight_def remaining_def
            split: list.splits if_splits)
    next
      case (Some ch)
      have r': "remaining (adv ?lx) < remaining ?lx" by (rule remaining_adv [OF Some])
      have w': "weight (adv ?lx) = weight ?lx" by (simp add: weight_def)
      obtain tk l1 where c: "lex_char u ch (line ?lx) (col ?lx) (pos ?lx) (adv ?lx) = Inr (tk, l1)"
        using "1.prems" Nil Some
        by (auto simp: next_token.simps [of u lx0] Let_def split: sum.splits prod.splits)
      have l1: "weight l1 \<le> weight lx0 + 4" "remaining l1 < remaining lx0"
        using lex_char_weight [OF c] moves_remaining [OF lex_char_moves [OF c]] w w' r r' by auto
      show ?thesis
      proof (cases tk)
        case None
        with "1.prems" Nil Some c have "next_token u l1 = Inr (t, l)"
          by (simp add: next_token.simps [of u lx0] Let_def)
        from "1.IH" [OF Nil refl Some c refl None this] l1 show ?thesis by auto
      next
        case (Some t')
        with "1.prems" Nil c \<open>peek ?lx = Some ch\<close> have "l = l1"
          by (simp add: next_token.simps [of u lx0] Let_def)
        with l1 show ?thesis by auto
      qed
    qed
  qed
qed

function tokenise :: "unicode \<Rightarrow> lexer \<Rightarrow> (token list \<times> lexer) lexed" where
  "tokenise u lx =
     (case next_token u lx of
        Inl e \<Rightarrow> Inl e
      | Inr (t, l) \<Rightarrow>
          (if t_kind t = Eof then Inr ([t], l)
           else
             (case tokenise u l of
                Inl e \<Rightarrow> Inl e
              | Inr (ts, l') \<Rightarrow> Inr (t # ts, l'))))"
  by pat_completeness auto
termination
  by (relation "measure (\<lambda>(u, lx). 5 * remaining lx + weight lx)")
    (auto dest!: next_token_measure)

declare tokenise.simps [simp del]

text \<open>What every caller does: normalise the line ends and tokenise.\<close>

fun normalize_newlines :: "uchar list \<Rightarrow> uchar list" where
  "normalize_newlines [] = []"
| "normalize_newlines (c # cs) =
     (if c = ch_cr then
        (case cs of
           d # ds \<Rightarrow> if d = ch_nl then ch_nl # normalize_newlines ds
                     else ch_nl # normalize_newlines cs
         | [] \<Rightarrow> [ch_nl])
      else c # normalize_newlines cs)"

definition lex :: "unicode \<Rightarrow> uchar list \<Rightarrow> nat \<Rightarrow> (token list \<times> lexer) lexed" where
  "lex u src fid = tokenise u (lexer_new (normalize_newlines src) fid)"

definition tokens_of :: "(token list \<times> lexer) lexed \<Rightarrow> token list" where
  "tokens_of r = (case r of Inr (ts, _) \<Rightarrow> ts | Inl _ \<Rightarrow> [])"

end
