(* ===== verification/LexerProps.thy ===== *)
theory LexerProps
  imports Lexer
begin

text \<open>
  What the lexer promises of its tokens: positions are those of the source, spans stay inside it
  and come in order, indentation and brackets are balanced, the end of file comes once, and no
  input makes it panic; and what the normalisation of line ends makes of a text.
\<close>

subsection \<open>Positions\<close>

text \<open>Line and column of a position, by the line ends before it.\<close>

definition line_at :: "uchar list \<Rightarrow> nat \<Rightarrow> nat" where
  "line_at src p = 1 + length (filter (\<lambda>c. c = ch_nl) (take p src))"

definition col_at :: "uchar list \<Rightarrow> nat \<Rightarrow> nat" where
  "col_at src p = 1 + length (takeWhile (\<lambda>c. c \<noteq> ch_nl) (rev (take p src)))"

definition pos_ok :: "lexer \<Rightarrow> bool" where
  "pos_ok lx \<longleftrightarrow> pos lx \<le> length (source lx) \<and> line lx = line_at (source lx) (pos lx)
     \<and> col lx = col_at (source lx) (pos lx)"

lemma pos_ok_adv: "pos_ok lx \<Longrightarrow> pos_ok (adv lx)"
  by (auto simp: pos_ok_def adv_def peek_def get_opt_def line_at_def col_at_def take_Suc_conv_app_nth
      split: option.splits if_splits)

lemma pos_ok_scan: "scan a b \<Longrightarrow> pos_ok a \<Longrightarrow> pos_ok b"
  by (induction rule: scan.induct) (auto simp: pos_ok_adv, simp add: pos_ok_def)

subsection \<open>Indentation levels\<close>

definition levels_ok :: "nat list \<Rightarrow> bool" where
  "levels_ok st \<longleftrightarrow> st \<noteq> [] \<and> last st = 0 \<and> sorted_wrt (>) st"

lemma pop_deeper_total: "st \<noteq> [] \<Longrightarrow> last st = 0 \<Longrightarrow> pop_deeper d st \<noteq> None"
  by (induction st) (auto split: if_splits)

lemma levels_ok_suffix: "levels_ok (p @ r) \<Longrightarrow> r \<noteq> [] \<Longrightarrow> levels_ok r"
  by (auto simp: levels_ok_def sorted_wrt_append)

text \<open>The layout tokens, as steps of the depth they open and close.\<close>

fun layout_step :: "nat \<Rightarrow> token_kind \<Rightarrow> nat option" where
  "layout_step d Indent = Some (Suc d)"
| "layout_step d Dedent = (case d of 0 \<Rightarrow> None | Suc n \<Rightarrow> Some n)"
| "layout_step d _ = Some d"

fun layout :: "nat \<Rightarrow> token_kind list \<Rightarrow> nat option" where
  "layout d [] = Some d"
| "layout d (k # ks) = Option.bind (layout_step d k) (\<lambda>d'. layout d' ks)"

lemma layout_append: "layout d (ks @ js) = Option.bind (layout d ks) (\<lambda>d'. layout d' js)"
  by (induction ks arbitrary: d) (auto split: Option.bind_splits)

lemma layout_dedents: "n \<le> d \<Longrightarrow> layout d (replicate n Dedent) = Some (d - n)"
  by (induction n arbitrary: d) (auto split: nat.splits)

lemma layout_step_plain: "plain_kind k \<Longrightarrow> layout_step d k = Some d"
  by (cases k rule: plain_kind.cases) auto

subsection \<open>Brackets\<close>

fun bracket_step :: "uchar list \<Rightarrow> token_kind \<Rightarrow> uchar list option" where
  "bracket_step st k =
     (if open_bracket 40 k then Some (40 # st)
      else if open_bracket 91 k then Some (91 # st)
      else if open_bracket 123 k then Some (123 # st)
      else if k \<in> {Pn RParen, Pn RBracket, Pn RBrace} then
        (case st of c # cs \<Rightarrow> if close_bracket c k then Some cs else None | [] \<Rightarrow> None)
      else Some st)"

fun brackets :: "uchar list \<Rightarrow> token_kind list \<Rightarrow> uchar list option" where
  "brackets st [] = Some st"
| "brackets st (k # ks) = Option.bind (bracket_step st k) (\<lambda>st'. brackets st' ks)"

lemma bracket_step_plain: "plain_kind k \<Longrightarrow> bracket_step st k = Some st"
  by (cases k rule: plain_kind.cases) (auto simp: open_bracket_def)

lemma bracket_step_layout: "k \<in> {Newline, Indent, Dedent, Eof} \<Longrightarrow> bracket_step st k = Some st"
  by (auto simp: open_bracket_def)

lemma bracket_step_open: "open_bracket c k \<Longrightarrow> bracket_step st k = Some (c # st)"
  by (auto simp: open_bracket_def)

lemma bracket_step_close: "close_bracket c k \<Longrightarrow> bracket_step (c # st) k = Some st"
  by (auto simp: open_bracket_def close_bracket_def)

lemma layout_step_bracket: "open_bracket c k \<or> close_bracket c k \<Longrightarrow> layout_step d k = Some d"
  by (auto simp: open_bracket_def close_bracket_def)

subsection \<open>The invariant\<close>

text \<open>The place of a token: inside the source, at its line, and not before the token before it.\<close>

definition placed :: "uchar list \<Rightarrow> nat \<Rightarrow> token \<Rightarrow> bool" where
  "placed src b t \<longleftrightarrow>
     b \<le> fst (t_span t) \<and> fst (t_span t) \<le> snd (t_span t) \<and> snd (t_span t) \<le> length src
     \<and> t_line t = line_at src (fst (t_span t))"

text \<open>
  \<open>lex_inv d b lx\<close>: \<open>d\<close> levels are open in the tokens handed out so far, and the last of them
  started at \<open>b\<close>. The queue holds layout tokens that lead from \<open>d\<close> to the levels on the stack; the
  end of file is queued last and only at level zero; nothing is queued inside brackets.
\<close>

definition lex_inv :: "nat \<Rightarrow> nat \<Rightarrow> lexer \<Rightarrow> bool" where
  "lex_inv d b lx \<longleftrightarrow>
     pos_ok lx \<and> levels_ok (indent_stack lx) \<and> b \<le> pos lx \<and>
     layout d (map t_kind (pending lx)) = Some (length (indent_stack lx) - 1) \<and>
     (\<forall>t\<in>set (pending lx). t_kind t \<in> {Indent, Dedent, Eof} \<and> placed (source lx) b t \<and> fst (t_span t) \<le> pos lx) \<and>
     sorted (map (\<lambda>t. fst (t_span t)) (pending lx)) \<and>
     (\<forall>t\<in>set (butlast (pending lx)). t_kind t \<noteq> Eof) \<and>
     (Eof \<in> t_kind ` set (pending lx) \<longrightarrow> length (indent_stack lx) = 1) \<and>
     (pending lx \<noteq> [] \<longrightarrow> delimiter_stack lx = [])"

definition token_step :: "uchar list \<Rightarrow> nat \<Rightarrow> nat \<Rightarrow> uchar list \<Rightarrow> token \<Rightarrow> lexer \<Rightarrow> bool" where
  "token_step src d b st t l \<longleftrightarrow>
     placed src b t \<and>
     (if t_kind t = Eof then d = 0 \<and> st = []
      else \<exists>d'. layout_step d (t_kind t) = Some d' \<and>
           bracket_step st (t_kind t) = Some (map fst (delimiter_stack l)) \<and>
           source l = src \<and> lex_inv d' (fst (t_span t)) l)"

lemma lex_inv_new: "lex_inv 0 0 (lexer_new src fid)"
  by (simp add: lex_inv_def lexer_new_def pos_ok_def line_at_def col_at_def levels_ok_def)

lemma lex_inv_scan:
  assumes "lex_inv d b a" "pending a = []" "scan a l"
  shows "lex_inv d b l"
  using assms scan_keeps [OF assms(3)] scan_pos [OF assms(3)] pos_ok_scan [OF assms(3)]
  by (auto simp: lex_inv_def)

text \<open>A queued token.\<close>

lemma queued_step:
  assumes inv: "lex_inv d b lx" and q: "pending lx = t # ts"
  shows "token_step (source lx) d b (map fst (delimiter_stack lx)) t (lx\<lparr>pending := ts\<rparr>)"
proof (cases "t_kind t = Eof")
  case True
  have "ts = []"
    using inv q True by (auto simp: lex_inv_def split: if_splits)
  with inv q True show ?thesis
    by (auto simp: lex_inv_def token_step_def)
next
  case False
  from inv q obtain d' where d': "layout_step d (t_kind t) = Some d'"
    "layout d' (map t_kind ts) = Some (length (indent_stack lx) - 1)"
    by (auto simp: lex_inv_def split: Option.bind_splits)
  have "t_kind t \<in> {Indent, Dedent}" "delimiter_stack lx = []" "placed (source lx) b t"
    using inv q False by (auto simp: lex_inv_def)
  moreover have "\<forall>t\<in>set (butlast ts). t_kind t \<noteq> Eof"
    using inv q by (cases "ts = []") (auto simp: lex_inv_def)
  then have "lex_inv d' (fst (t_span t)) (lx\<lparr>pending := ts\<rparr>)"
    using inv q d'(2) False by (simp add: lex_inv_def pos_ok_def placed_def)
  ultimately show ?thesis
    using False d'(1) bracket_step_layout [of "t_kind t" "[]"] by (auto simp: token_step_def)
qed

text \<open>The end of the file.\<close>

lemma eof_step:
  assumes inv: "lex_inv d b lx" and q: "pending lx = []"
    and e: "lex_eof (line lx) (col lx) (pos lx) lx = Inr (t, l)"
  shows "token_step (source lx) d b (map fst (delimiter_stack lx)) t l"
proof -
  let ?n = "length (indent_stack lx) - 1"
  from e have st: "delimiter_stack lx = []" by (auto simp: lex_eof_def split: list.splits)
  have d: "d = ?n" and ne: "indent_stack lx \<noteq> []" and lv: "levels_ok (indent_stack lx)"
    and p: "pos_ok lx" "b \<le> pos lx"
    using inv q by (auto simp: lex_inv_def levels_ok_def)
  show ?thesis
  proof (cases "length (indent_stack lx) > 1")
    case True
    have drop: "drop ?n (indent_stack lx) = [last (indent_stack lx)]"
      using ne by (metis append_butlast_last_id append_eq_conv_conj length_butlast)
    have "layout d (replicate ?n Dedent @ [Eof]) = Some 0"
      by (simp add: layout_append layout_dedents d)
    then show ?thesis
      using True e st p lv d drop q
      by (auto simp: lex_eof_def Let_def token_step_def placed_def pos_ok_def lex_inv_def levels_ok_def
          bracket_step_layout map_replicate_const sorted_append butlast_append simp del: bracket_step.simps)
  next
    case False
    with e st p d show ?thesis
      by (auto simp: lex_eof_def Let_def token_step_def placed_def pos_ok_def)
  qed
qed

text \<open>A line end: the levels after it and the tokens it queues.\<close>

lemma indent_to_inv:
  assumes i: "indent_to depth ln start lx = Inr l"
    and p: "pos_ok lx" "levels_ok (indent_stack lx)" "pending lx = []" "delimiter_stack lx = []"
    and s: "start \<le> pos lx" "ln = line_at (source lx) start"
  shows "lex_inv (length (indent_stack lx) - 1) start l \<and> source l = source lx \<and> delimiter_stack l = []
    \<and> pos l = pos lx"
proof -
  from p(2) obtain x xs where st: "indent_stack lx = x # xs" by (cases "indent_stack lx") (auto simp: levels_ok_def)
  have tok: "placed (source lx) start (layout_tok k ln start lx)" for k
    using p(1) s by (simp add: placed_def layout_tok_def make_tok_def pos_ok_def)
  have tok2: "t_kind (layout_tok k ln start lx) = k" "fst (t_span (layout_tok k ln start lx)) = start" for k
    by (simp_all add: layout_tok_def make_tok_def)
  consider (deeper) "depth > x" | (shallower) "depth < x" | (level) "depth = x" by linarith
  then show ?thesis
  proof cases
    case deeper
    then have l: "l = lx\<lparr>indent_stack := depth # x # xs, pending := [layout_tok Indent ln start lx]\<rparr>"
      using i st p(3) by (simp add: indent_to_def)
    have "levels_ok (depth # x # xs)" using deeper p(2) st by (auto simp: levels_ok_def)
    with l p s tok tok2 st show ?thesis by (auto simp: lex_inv_def pos_ok_def)
  next
    case level
    with i st p s show ?thesis by (auto simp: indent_to_def lex_inv_def)
  next
    case shallower
    from i st p(3) shallower obtain r n where r: "pop_deeper depth (x # xs) = Some (r, n)" "hd r = depth"
      and l: "l = lx\<lparr>indent_stack := r, pending := replicate n (layout_tok Dedent ln start lx)\<rparr>"
      by (auto simp: indent_to_def simp del: pop_deeper.simps split: option.splits if_splits)
    from pop_deeper_Some [OF r(1)] obtain q where q: "x # xs = q @ r" "length q = n" "r \<noteq> []" by blast
    have lv: "levels_ok r" using levels_ok_suffix [of q r] p(2) st q by simp
    have "length (x # xs) - 1 = n + (length r - 1)" using q by (cases r) auto
    then have "layout (length (x # xs) - 1) (replicate n Dedent) = Some (length r - 1)"
      by (simp add: layout_dedents)
    with l lv p s tok tok2 st show ?thesis
      by (auto simp: lex_inv_def pos_ok_def map_replicate_const dest: in_set_butlastD)
  qed
qed

lemma char_step:
  assumes inv: "lex_inv d b lx" and q: "pending lx = []" and pk: "peek lx = Some ch"
    and c: "lex_char u ch (line lx) (col lx) (pos lx) (adv lx) = Inr (tk, l)"
  shows "case tk of
      Some t \<Rightarrow> token_step (source lx) d b (map fst (delimiter_stack lx)) t l
    | None \<Rightarrow> lex_inv d b l \<and> source l = source lx \<and> delimiter_stack l = delimiter_stack lx"
proof -
  let ?a = "adv lx"
  have p: "pos_ok lx" "pos_ok ?a" "levels_ok (indent_stack lx)" "b \<le> pos lx" "d = length (indent_stack lx) - 1"
    using inv q by (auto simp: lex_inv_def pos_ok_adv)
  have pa: "pos ?a = pos lx + 1" by (simp add: pos_adv pk)
  have la: "lex_inv d b ?a" by (rule lex_inv_scan [OF inv q scan_adv_here])
  have at: "line lx = line_at (source lx) (pos lx)" using p by (simp add: pos_ok_def)
  have plc: "placed (source lx) b t" if "token_at (line lx) (col lx) (pos lx) l' t" "pos lx \<le> pos l'"
      "pos_ok l'" "source l' = source lx" for t l'
    using that at p(4) by (auto simp: placed_def token_at_def pos_ok_def)
  have low: "lex_inv d (pos lx) l'" if "lex_inv d b l'" "pending l' = []" "pos lx \<le> pos l'" for l'
    using that by (auto simp: lex_inv_def)
  from c show ?thesis
  proof (cases rule: lex_char_cases)
    case skip
    with lex_inv_scan [OF la _ skip(2)] q scan_keeps [OF skip(2)] show ?thesis by simp
  next
    case (plain t)
    have l: "lex_inv d b l" "source l = source lx" "delimiter_stack l = delimiter_stack lx" "pending l = []"
      "pos lx \<le> pos l" "pos_ok l"
      using lex_inv_scan [OF la _ plain(2)] q scan_keeps [OF plain(2)] scan_pos [OF plain(2)] pa
        pos_ok_scan [OF plain(2) p(2)]
      by auto
    have "plain_kind (t_kind t)" "fst (t_span t) = pos lx" using plain(3) by (auto simp: token_at_def)
    with plain l plc [OF plain(3)] low [OF l(1)] show ?thesis
      by (auto simp: token_step_def bracket_step_plain layout_step_plain simp del: bracket_step.simps)
  next
    case (opens k)
    have "lex_inv d (pos lx) l"
      using low [OF la] q pa opens by (simp add: lex_inv_def push_open_def pos_ok_def)
    with opens p pa at show ?thesis
      by (auto simp: token_step_def make_tok_def placed_def pos_ok_def push_open_def bracket_step_open
          layout_step_bracket open_bracket_def simp del: bracket_step.simps)
  next
    case (closes k o' dl dc ds)
    have "lex_inv d (pos lx) l"
      using low [OF la] q pa closes by (simp add: lex_inv_def pos_ok_def)
    with closes p pa at show ?thesis
      by (auto simp: token_step_def make_tok_def placed_def pos_ok_def bracket_step_close
          layout_step_bracket close_bracket_def simp del: bracket_step.simps)
  next
    case (line depth l1)
    note keeps = scan_keeps [OF line(3)]
    have l1: "pos_ok l1" "pos lx + 1 \<le> pos l1" using pos_ok_scan [OF line(3) p(2)] scan_pos [OF line(3)] pa by auto
    have r: "lex_inv d (pos lx) l" "source l = source lx" "delimiter_stack l = []" "pos l = pos l1"
      using indent_to_inv [OF line(4)] l1 keeps p q line(2) at by auto
    have "pos lx < length (source lx)" using peek_Some_pos [OF pk] .
    with r line p at show ?thesis
      by (auto simp: token_step_def newline_tok_def placed_def bracket_step_layout simp del: bracket_step.simps)
  qed
qed

lemma next_token_step:
  "next_token u lx = Inr (t, l) \<Longrightarrow> lex_inv d b lx \<Longrightarrow>
     token_step (source lx) d b (map fst (delimiter_stack lx)) t l"
proof (induction u lx rule: next_token.induct)
  case (1 u lx0)
  show ?case
  proof (cases "pending lx0")
    case (Cons t' ts)
    with "1.prems" queued_step [OF "1.prems"(2) Cons] show ?thesis
      by (auto simp: next_token.simps [of u lx0])
  next
    case Nil
    let ?lx = "skip_inline_whitespace lx0"
    have s: "scan lx0 ?lx" by (rule skip_inline_whitespace_scan)
    note keeps = scan_keeps [OF s]
    have inv: "lex_inv d b ?lx" by (rule lex_inv_scan [OF "1.prems"(2) Nil s])
    show ?thesis
    proof (cases "peek ?lx")
      case None
      with "1.prems" Nil have "lex_eof (line ?lx) (col ?lx) (pos ?lx) ?lx = Inr (t, l)"
        by (simp add: next_token.simps [of u lx0] Let_def)
      from eof_step [OF inv _ this] Nil keeps show ?thesis by simp
    next
      case (Some ch)
      obtain tk l1 where c: "lex_char u ch (line ?lx) (col ?lx) (pos ?lx) (adv ?lx) = Inr (tk, l1)"
        using "1.prems" Nil Some
        by (auto simp: next_token.simps [of u lx0] Let_def split: sum.splits prod.splits)
      note step = char_step [OF inv _ Some c]
      show ?thesis
      proof (cases tk)
        case None
        with "1.prems" Nil Some c have n: "next_token u l1 = Inr (t, l)"
          by (simp add: next_token.simps [of u lx0] Let_def)
        from step None Nil keeps
        have "lex_inv d b l1" "source l1 = source lx0" "delimiter_stack l1 = delimiter_stack lx0" by auto
        with "1.IH" [OF Nil refl Some c refl None n] show ?thesis by simp
      next
        case (Some t')
        with "1.prems" Nil c \<open>peek ?lx = Some ch\<close> have "l = l1" "t' = t"
          by (simp_all add: next_token.simps [of u lx0] Let_def)
        with step Some Nil keeps show ?thesis by simp
      qed
    qed
  qed
qed

subsection \<open>No panic\<close>

lemma read_escape_no_panic: "read_escape ln cl lx \<noteq> Inl LexPanic"
  by (auto simp: read_escape_def read_hex_escape_def read_unicode_escape_def Let_def
      split: option.splits prod.splits if_splits)

lemma read_string_loop_no_panic: "read_string_loop q t ln cl start s lx \<noteq> Inl LexPanic"
proof (induction q t ln cl start s lx rule: read_string_loop.induct)
  case (1 q t ln cl start s lx)
  show ?case
  proof (cases "peek lx")
    case None
    then show ?thesis by (simp add: read_string_loop.simps [of q t ln cl start s lx])
  next
    case (Some c)
    show ?thesis
    proof (cases "c = ch_backslash \<and> \<not> (\<not> t \<and> c = ch_nl) \<and> c \<noteq> q")
      case True
      then show ?thesis
        using Some "1.IH"(2) [OF Some refl] read_escape_no_panic [of ln cl "adv lx"]
        by (auto simp: read_string_loop.simps [of q t ln cl start s lx] Let_def split: sum.splits prod.splits)
    next
      case False
      then show ?thesis
        using Some "1.IH"(1) [OF Some refl] "1.IH"(3) [OF Some refl]
        by (auto simp: read_string_loop.simps [of q t ln cl start s lx] Let_def)
    qed
  qed
qed

lemma and_then_Inl_iff: "and_then m g = Inl e \<longleftrightarrow> m = Inl e \<or> (\<exists>x. m = Inr x \<and> g x = Inl e)"
  by (cases m) auto

lemma some_tok_no_panic: "r \<noteq> Inl LexPanic \<Longrightarrow> some_tok r \<noteq> Inl LexPanic"
  by (auto simp: some_tok_def and_then_Inl_iff)

lemma reader_no_panic:
  "read_string k q ln cl start lx \<noteq> Inl LexPanic"
  "read_number c ln cl start lx \<noteq> Inl LexPanic"
  "read_point_number ln cl start lx \<noteq> Inl LexPanic"
  "read_ident u c ln cl start lx \<noteq> Inl LexPanic"
proof -
  show s: "read_string k q ln cl start lx \<noteq> Inl LexPanic" for k q lx
    by (auto simp: read_string_def Let_def and_then_Inl_iff read_string_loop_no_panic)
  show "read_number c ln cl start lx \<noteq> Inl LexPanic"
    by (auto simp: read_number_def read_radix_def read_decimal_def number_tail_def split: prod.splits)
  show "read_point_number ln cl start lx \<noteq> Inl LexPanic"
    by (auto simp: read_point_number_def split: prod.splits)
  show "read_ident u c ln cl start lx \<noteq> Inl LexPanic"
    using s by (auto simp: read_ident_def split: option.splits prod.splits)
qed

definition calm :: "(lexer \<Rightarrow> arm) \<Rightarrow> bool" where
  "calm f \<longleftrightarrow> (\<forall>lx. f lx \<noteq> Inl LexPanic)"

lemma calm_intros:
  "calm f \<Longrightarrow> calm g \<Longrightarrow> calm (if b then f else g)" "calm (emit k v ln cl start)" "calm (fail e)"
  "calm f \<Longrightarrow> calm g \<Longrightarrow> calm (if_next c f g)"
  by (auto simp: calm_def emit_def if_next_def)

lemma lex_operator_calm: "lex_operator ch ln cl start lx \<noteq> Inl LexPanic"
proof -
  have "calm (lex_operator ch ln cl start)"
    unfolding lex_operator_def Let_def by (intro calm_intros)
  then show ?thesis by (simp add: calm_def)
qed

lemma lex_delimiter_calm: "lex_delimiter ch ln cl start lx \<noteq> Some (Inl LexPanic)"
  by (auto simp: lex_delimiter_def Let_def close_delim_def emit_def split: list.splits)

lemma handle_indent_calm:
  assumes "levels_ok (indent_stack lx)"
  shows "handle_indent ln start lx \<noteq> Inl LexPanic"
proof -
  obtain d tb sp l1 where r: "read_depth 0 False False lx = ((d, tb, sp), l1)"
    by (metis prod_cases3 surj_pair)
  have "levels_ok (indent_stack l1)" using assms scan_keeps [OF read_depth_scan' [OF r]] by simp
  then obtain x xs where st: "indent_stack l1 = x # xs" "last (x # xs) = 0"
    by (cases "indent_stack l1") (auto simp: levels_ok_def)
  have "pop_deeper d (x # xs) \<noteq> None" by (rule pop_deeper_total) (use st in simp_all)
  then have "indent_to d ln start l1 \<noteq> Inl LexPanic"
    using st by (auto simp: indent_to_def simp del: pop_deeper.simps split: option.splits)
  with r show ?thesis by (auto simp: handle_indent_def and_then_Inl_iff)
qed

lemma lex_char_calm:
  assumes "levels_ok (indent_stack lx)"
  shows "lex_char u ch ln cl start lx \<noteq> Inl LexPanic"
  using handle_indent_calm [OF assms] some_tok_no_panic reader_no_panic lex_operator_calm lex_delimiter_calm
  unfolding lex_char_def by (auto split: option.splits)

lemma next_token_no_panic: "lex_inv d b lx \<Longrightarrow> next_token u lx \<noteq> Inl LexPanic"
proof (induction u lx rule: next_token.induct)
  case (1 u lx0)
  show ?case
  proof (cases "pending lx0")
    case (Cons t' ts)
    then show ?thesis by (simp add: next_token.simps [of u lx0])
  next
    case Nil
    let ?lx = "skip_inline_whitespace lx0"
    have inv: "lex_inv d b ?lx" "pending ?lx = []"
      using lex_inv_scan [OF "1.prems" Nil] skip_inline_whitespace_scan
        scan_keeps [OF skip_inline_whitespace_scan, of lx0] Nil by auto
    then have lv: "levels_ok (indent_stack (adv ?lx))" by (simp add: lex_inv_def)
    show ?thesis
    proof (cases "peek ?lx")
      case None
      with Nil show ?thesis
        by (auto simp: next_token.simps [of u lx0] Let_def lex_eof_def split: list.splits)
    next
      case (Some ch)
      have again: "next_token u l \<noteq> Inl LexPanic"
        if c: "lex_char u ch (line ?lx) (col ?lx) (pos ?lx) (adv ?lx) = Inr (None, l)" for l
        using "1.IH" [OF Nil refl Some c refl refl] char_step [OF inv Some c] by simp
      show ?thesis
        using Nil Some again lex_char_calm [OF lv]
        by (auto simp: next_token.simps [of u lx0] Let_def split: sum.splits prod.splits option.splits)
    qed
  qed
qed

subsection \<open>The token stream\<close>

definition stream_ok :: "uchar list \<Rightarrow> nat \<Rightarrow> nat \<Rightarrow> uchar list \<Rightarrow> token list \<Rightarrow> bool" where
  "stream_ok src d b st ts \<longleftrightarrow>
     layout d (map t_kind ts) = Some 0 \<and> brackets st (map t_kind ts) = Some [] \<and>
     (\<forall>t\<in>set ts. placed src b t) \<and> sorted (map (\<lambda>t. fst (t_span t)) ts) \<and>
     ts \<noteq> [] \<and> t_kind (last ts) = Eof \<and> Eof \<notin> t_kind ` set (butlast ts)"

lemma tokenise_stream:
  "lex_inv d b lx \<Longrightarrow>
     (case tokenise u lx of
        Inl e \<Rightarrow> e \<noteq> LexPanic
      | Inr (ts, l) \<Rightarrow> stream_ok (source lx) d b (map fst (delimiter_stack lx)) ts)"
proof (induction u lx arbitrary: d b rule: tokenise.induct)
  case (1 u lx)
  show ?case
  proof (cases "next_token u lx")
    case (Inl e)
    with next_token_no_panic [OF "1.prems"] show ?thesis by (auto simp: tokenise.simps [of u lx])
  next
    case (Inr p)
    obtain t l where n: "next_token u lx = Inr (t, l)" using Inr by (cases p) simp
    from next_token_step [OF n "1.prems"]
    have step: "token_step (source lx) d b (map fst (delimiter_stack lx)) t l" .
    show ?thesis
    proof (cases "t_kind t = Eof")
      case True
      with n step show ?thesis
        by (auto simp: tokenise.simps [of u lx] stream_ok_def token_step_def open_bracket_def)
    next
      case False
      with step obtain d' where d': "layout_step d (t_kind t) = Some d'"
        "bracket_step (map fst (delimiter_stack lx)) (t_kind t) = Some (map fst (delimiter_stack l))"
        "source l = source lx" "lex_inv d' (fst (t_span t)) l" "placed (source lx) b t"
        by (auto simp: token_step_def simp del: bracket_step.simps)
      from "1.IH" [OF n refl False d'(4)] show ?thesis
      proof (cases "tokenise u l")
        case (Inl e)
        with "1.IH" [OF n refl False d'(4)] n False show ?thesis by (simp add: tokenise.simps [of u lx])
      next
        case (Inr q)
        obtain ts l' where q: "q = (ts, l')" by (cases q)
        with Inr "1.IH" [OF n refl False d'(4)]
        have ts: "stream_ok (source lx) d' (fst (t_span t)) (map fst (delimiter_stack l)) ts"
          by (simp add: d'(3))
        then have "stream_ok (source lx) d b (map fst (delimiter_stack lx)) (t # ts)"
          using d' False
          by (auto simp: stream_ok_def placed_def simp del: bracket_step.simps)
        with n False Inr q show ?thesis by (simp add: tokenise.simps [of u lx])
      qed
    qed
  qed
qed

lemma lexer_new_fields: "source (lexer_new src fid) = src" "delimiter_stack (lexer_new src fid) = []"
  by (simp_all add: lexer_new_def)

lemma lex_stream:
  "case lex u src fid of
     Inl e \<Rightarrow> e \<noteq> LexPanic
   | Inr (ts, _) \<Rightarrow> stream_ok (normalize_newlines src) 0 0 [] ts"
  using tokenise_stream [OF lex_inv_new [of "normalize_newlines src" fid], of u]
  by (auto simp: lex_def lexer_new_fields split: sum.splits)

text \<open>
  C1. Lexing is total: on every text it ends, in a token list or in an error of the source; the indentation stack it unwraps is never empty.
\<close>

theorem lex_no_panic: "lex u src fid \<noteq> Inl LexPanic"
  using lex_stream [of src u fid] by auto

text \<open>
  C14. Layout is balanced: read from left to right, every DEDENT closes an INDENT that is open, and at
  the end of the token list none is left open.
\<close>

theorem lex_layout_balanced:
  "case lex u src fid of
     Inl _ \<Rightarrow> True
   | Inr (ts, _) \<Rightarrow> layout 0 (map t_kind ts) = Some 0"
  using lex_stream [of src u fid] by (auto simp: stream_ok_def split: sum.splits)

text \<open>
  C27. Brackets are balanced: the round, square and curly brackets of a token list nest, each closed by
  its own kind, and none is left open.
\<close>

theorem lex_brackets_balanced:
  "case lex u src fid of
     Inl _ \<Rightarrow> True
   | Inr (ts, _) \<Rightarrow> brackets [] (map t_kind ts) = Some []"
  using lex_stream [of src u fid] by (auto simp: stream_ok_def split: sum.splits)

text \<open>
  C28. Token positions are those of the text: the span of each token lies inside the (normalised)
  text, its line is one more than the number of line ends before it, and the tokens come in the
  order of their starts.
\<close>

theorem lex_positions:
  "case lex u src fid of
     Inl _ \<Rightarrow> True
   | Inr (ts, _) \<Rightarrow>
       list_all (placed (normalize_newlines src) 0) ts \<and> sorted (map (\<lambda>t. fst (t_span t)) ts)"
  using lex_stream [of src u fid] by (auto simp: stream_ok_def list_all_iff split: sum.splits)

lemma lex_eof_last:
  "case lex u src fid of
     Inl _ \<Rightarrow> True
   | Inr (ts, _) \<Rightarrow> ts \<noteq> [] \<and> t_kind (last ts) = Eof \<and> Eof \<notin> t_kind ` set (butlast ts)"
  using lex_stream [of src u fid] by (auto simp: stream_ok_def split: sum.splits)

subsection \<open>Line ends\<close>

text \<open>
  A text cut into its first line and, after each line end, the next one. A carriage return before a
  line feed is one line end with it, so no line end of a carriage return alone stands right before a line feed.
\<close>

definition line_end :: "uchar list \<Rightarrow> bool" where
  "line_end e \<longleftrightarrow> e = [ch_cr, ch_nl] \<or> e = [ch_cr] \<or> e = [ch_nl]"

definition plain_line :: "uchar list \<Rightarrow> bool" where
  "plain_line l \<longleftrightarrow> ch_cr \<notin> set l \<and> ch_nl \<notin> set l"

fun longest_ends :: "(uchar list \<times> uchar list) list \<Rightarrow> bool" where
  "longest_ends [] = True"
| "longest_ends ((e, l) # els) =
     (line_end e \<and> plain_line l \<and> longest_ends els \<and>
      \<not> (e = [ch_cr] \<and> l = [] \<and> (case els of (e', _) # _ \<Rightarrow> e' = [ch_nl] | [] \<Rightarrow> False)))"

abbreviation rest_of_text :: "(uchar list \<times> uchar list) list \<Rightarrow> uchar list" where
  "rest_of_text els \<equiv> concat (map (\<lambda>(e, l). e @ l) els)"

lemma normalize_plain: "plain_line l \<Longrightarrow> normalize_newlines (l @ s) = l @ normalize_newlines s"
  by (induction l) (auto simp: plain_line_def)

lemma normalize_lone_cr:
  "(case s of d # _ \<Rightarrow> d \<noteq> ch_nl | [] \<Rightarrow> True) \<Longrightarrow> normalize_newlines (ch_cr # s) = ch_nl # normalize_newlines s"
  by (cases s) simp_all

lemma normalize_rest:
  "longest_ends els \<Longrightarrow> normalize_newlines (rest_of_text els) = concat (map (\<lambda>(_, l). ch_nl # l) els)"
proof (induction els rule: longest_ends.induct)
  case (2 e l els)
  let ?rest = "rest_of_text els"
  from 2 have l: "plain_line l" and n: "normalize_newlines (l @ ?rest) = l @ concat (map (\<lambda>(_, l). ch_nl # l) els)"
    by (simp_all add: normalize_plain)
  have "case l @ ?rest of d # _ \<Rightarrow> d \<noteq> ch_nl | [] \<Rightarrow> True" if "e = [ch_cr]"
    using 2(2) that by (cases l; cases els) (auto simp: plain_line_def line_end_def split: prod.splits)
  then have "e = [ch_cr] \<Longrightarrow> normalize_newlines (e @ l @ ?rest) = ch_nl # normalize_newlines (l @ ?rest)"
    using normalize_lone_cr [of "l @ ?rest"] by simp
  moreover have "e = [ch_nl] \<or> e = [ch_cr, ch_nl] \<Longrightarrow>
      normalize_newlines (e @ l @ ?rest) = ch_nl # normalize_newlines (l @ ?rest)"
    by auto
  moreover have "line_end e" using 2(2) by simp
  ultimately have "normalize_newlines (e @ l @ ?rest) = ch_nl # normalize_newlines (l @ ?rest)"
    unfolding line_end_def by blast
  with n show ?case by simp
qed simp

lemma text_cut: "\<exists>l els. plain_line l \<and> longest_ends els \<and> s = l @ rest_of_text els"
proof (induction s rule: normalize_newlines.induct)
  case 1
  then show ?case by (intro exI [of _ "[]"]) (simp add: plain_line_def)
next
  case (2 c cs)
  have ended: "\<exists>l els. plain_line l \<and> longest_ends els \<and> e @ l' @ rest_of_text els' = l @ rest_of_text els"
    if "plain_line l'" "longest_ends ((e, l') # els')" for e l' els'
    using that by (intro exI [of _ "[]"] exI [of _ "(e, l') # els'"]) (simp add: plain_line_def)
  consider "c \<noteq> ch_cr" "c \<noteq> ch_nl" | "c = ch_nl" | ds where "c = ch_cr" "cs = ch_nl # ds"
    | "c = ch_cr" "cs = []" | d ds where "c = ch_cr" "cs = d # ds" "d \<noteq> ch_nl"
    by (cases cs) auto
  then show ?case
  proof cases
    case 1
    then obtain l els where "plain_line l" "longest_ends els" "cs = l @ rest_of_text els" using "2.IH" by blast
    with 1 show ?thesis by (intro exI [of _ "c # l"] exI [of _ els]) (simp add: plain_line_def)
  next
    case 2
    then obtain l els where "plain_line l" "longest_ends els" "cs = l @ rest_of_text els" using "2.IH" by auto
    with 2 ended [of l "[ch_nl]" els] show ?thesis by (simp add: line_end_def)
  next
    case (3 ds)
    then obtain l els where "plain_line l" "longest_ends els" "ds = l @ rest_of_text els" using "2.IH" by auto
    with 3 ended [of l "[ch_cr, ch_nl]" els] show ?thesis by (simp add: line_end_def)
  next
    case 4
    with ended [of "[]" "[ch_cr]" "[]"] show ?thesis by (simp add: line_end_def plain_line_def)
  next
    case (5 d ds)
    then obtain l els where l: "plain_line l" "longest_ends els" "cs = l @ rest_of_text els" using "2.IH" by auto
    with 5 have "\<not> (l = [] \<and> (case els of (e', _) # _ \<Rightarrow> e' = [ch_nl] | [] \<Rightarrow> False))"
      by (auto split: list.splits)
    with 5 l ended [of l "[ch_cr]" els] show ?thesis by (simp add: line_end_def)
  qed
qed

text \<open>
  C31. Every text can be cut into lines at its line ends, CR LF, CR and LF, the longest taken first, and
  however it is cut so, its normalisation consists of the same lines with one line feed between two.
\<close>

theorem normalize_newlines_exact:
  "(\<exists>l els. plain_line l \<and> longest_ends els \<and> s = l @ rest_of_text els) \<and>
   (plain_line l \<and> longest_ends els \<longrightarrow>
      normalize_newlines (l @ rest_of_text els) = l @ concat (map (\<lambda>(_, l). ch_nl # l) els))"
  using text_cut [of s] by (simp add: normalize_plain normalize_rest)

lemma normalize_newlines_exact_witness:
  "normalize_newlines (cps ''a'' @ [ch_cr, ch_nl] @ cps ''b'' @ [ch_cr] @ [ch_cr] @ cps ''c'' @ [ch_nl]) =
   cps ''a'' @ [ch_nl] @ cps ''b'' @ [ch_nl, ch_nl] @ cps ''c'' @ [ch_nl]"
proof -
  have "plain_line (cps ''a'') \<and>
      longest_ends [([ch_cr, ch_nl], cps ''b''), ([ch_cr], []), ([ch_cr], cps ''c''), ([ch_nl], [])]"
    by code_simp
  then show ?thesis
    using normalize_newlines_exact [of _ "cps ''a''"
        "[([ch_cr, ch_nl], cps ''b''), ([ch_cr], []), ([ch_cr], cps ''c''), ([ch_nl], [])]"]
    by simp
qed

subsection \<open>Examples\<close>

definition ascii :: unicode where
  "ascii =
     \<lparr>is_alphabetic = (\<lambda>c. (97 \<le> c \<and> c \<le> 122) \<or> (65 \<le> c \<and> c \<le> 90)),
      is_alphanumeric = (\<lambda>c. (97 \<le> c \<and> c \<le> 122) \<or> (65 \<le> c \<and> c \<le> 90) \<or> is_digit c)\<rparr>"

text \<open>A block, its layout tokens and the underscore of a number, which its token does not keep.\<close>

lemma lex_block_example:
  "map (\<lambda>t. (t_kind t, t_value t))
     (tokens_of (lex ascii (cps ''if x:'' @ [13, 10] @ cps ''  y(1_0)'' @ [10] @ cps ''z'') 0)) =
   [(Kw KwIf, cps ''if''), (Lit Identifier, cps ''x''), (Pn Colon, cps '':''), (Newline, [10]),
    (Indent, []), (Lit Identifier, cps ''y''), (Pn LParen, cps ''(''), (Lit IntegerTok, cps ''10''),
    (Pn RParen, cps '')''), (Newline, [10]), (Dedent, []), (Lit Identifier, cps ''z''), (Eof, [])]"
  by code_simp

text \<open>
  A block comment at the start of a line swallows the line end before it: the two names end up on
  one line, and the block that the second example opens gets no INDENT.
\<close>

lemma comment_swallows_newline:
  "map t_kind (tokens_of (lex ascii (cps ''a'' @ [10] @ cps ''/* c */ b'') 0))
     = [Lit Identifier, Lit Identifier, Eof]"
  "map t_kind (tokens_of (lex ascii (cps ''if a:'' @ [10] @ cps '' /* c */ b'') 0))
     = [Kw KwIf, Lit Identifier, Pn Colon, Lit Identifier, Eof]"
  by code_simp+

end
