(* ===== verification/Slab.thy ===== *)
theory Slab
  imports Prelude
begin

text \<open>
  The generational slab of the runtime (\<open>std_lib/src/slab.rs\<close>): chunks cut into slots, a word of
  generation before each body that is odd while the slot is live, a free list threaded through the
  bodies, the table of all chunks with its per-thread cache, and the classification of words as slab
  bodies. Addresses are natural numbers, 0 is the null pointer. The generation word of a slot and the
  first word of its body are different words of memory, so they are two maps, both keyed by the body
  address; the counter that a chunk boxes is named by the chunk's start. One thread is modelled: a
  lock is taken and released inside one operation. The system allocator is an argument: the address
  it would return for a new chunk. The page size is one as well.
\<close>

definition CHUNK_TARGET :: nat where
  "CHUNK_TARGET = 65536"

record chunk_span =
  ch_start :: nat
  ch_end :: nat
  ch_slot_bytes :: nat
  ch_global :: bool

text \<open>The two cached spans, which of them is filled next, and the epoch they were read at.\<close>

type_synonym chunk_cache = "(chunk_span option \<times> chunk_span option) \<times> bool \<times> nat"

record slab_heap =
  gen_word :: "nat \<Rightarrow> u64"
  link_word :: "nat \<Rightarrow> nat"
  chunk_table :: "chunk_span list"
  live_count :: "nat \<Rightarrow> nat"
  chunk_epoch :: nat
  span_min :: nat
  span_max :: nat
  last_chunks :: chunk_cache

definition heap_start :: slab_heap where
  "heap_start =
     \<lparr>gen_word = (\<lambda>_. 0), link_word = (\<lambda>_. 0), chunk_table = [], live_count = (\<lambda>_. 0),
      chunk_epoch = 0, span_min = 2 ^ 64 - 1, span_max = 0, last_chunks = ((None, None), False, 0)\<rparr>"

subsection \<open>The chunk table\<close>

definition partition_point :: "('a \<Rightarrow> bool) \<Rightarrow> 'a list \<Rightarrow> nat" where
  "partition_point P xs = length (takeWhile P xs)"

definition register_chunk :: "nat \<Rightarrow> nat \<Rightarrow> nat \<Rightarrow> bool \<Rightarrow> slab_heap \<Rightarrow> slab_heap" where
  "register_chunk start fin slot_bytes is_global h =
     (let at = partition_point (\<lambda>c. ch_start c < start) (chunk_table h);
          c = \<lparr>ch_start = start, ch_end = fin, ch_slot_bytes = slot_bytes, ch_global = is_global\<rparr>
      in h\<lparr>span_min := min (span_min h) start, span_max := max (span_max h) fin,
           chunk_table := take at (chunk_table h) @ [c] @ drop at (chunk_table h),
           live_count := (live_count h)(start := 0), chunk_epoch := chunk_epoch h + 1\<rparr>)"

fun remove_span :: "nat \<Rightarrow> chunk_span list \<Rightarrow> chunk_span list" where
  "remove_span start [] = []"
| "remove_span start (c # cs) = (if ch_start c = start then cs else c # remove_span start cs)"

definition unregister_chunk :: "nat \<Rightarrow> slab_heap \<Rightarrow> slab_heap" where
  "unregister_chunk start h =
     (if chunk_epoch h = 0 then h
      else h\<lparr>chunk_table := remove_span start (chunk_table h), chunk_epoch := chunk_epoch h + 1\<rparr>)"

definition holds :: "nat \<Rightarrow> chunk_span \<Rightarrow> bool" where
  "holds addr c \<longleftrightarrow> ch_start c \<le> addr \<and> addr < ch_end c"

definition cached_hit :: "nat \<Rightarrow> chunk_span option \<times> chunk_span option \<Rightarrow> chunk_span option" where
  "cached_hit addr cached =
     (case fst cached of
        Some c \<Rightarrow> if holds addr c then Some c
                  else (case snd cached of Some d \<Rightarrow> if holds addr d then Some d else None | None \<Rightarrow> None)
      | None \<Rightarrow> (case snd cached of Some d \<Rightarrow> if holds addr d then Some d else None | None \<Rightarrow> None))"

definition fill_cache ::
  "chunk_span option \<times> chunk_span option \<Rightarrow> bool \<Rightarrow> chunk_span \<Rightarrow> chunk_span option \<times> chunk_span option" where
  "fill_cache cached next_slot c = (if next_slot then (fst cached, Some c) else (Some c, snd cached))"

text \<open>
  The search behind the cache. A cache of another epoch is emptied, but the entry that is filled in
  goes beside the entries that were read before.
\<close>

definition search_table :: "nat \<Rightarrow> chunk_span option \<times> chunk_span option \<Rightarrow> bool \<Rightarrow> slab_heap
    \<Rightarrow> chunk_span option \<times> slab_heap" where
  "search_table addr cached next_slot h =
     (let i = partition_point (\<lambda>c. ch_start c \<le> addr) (chunk_table h)
      in if i = 0 then (None, h)
         else (let c = chunk_table h ! (i - 1)
               in if holds addr c
                  then (Some c, h\<lparr>last_chunks := (fill_cache cached next_slot c, \<not> next_slot, chunk_epoch h)\<rparr>)
                  else (None, h)))"

definition find_chunk_for_addr :: "nat \<Rightarrow> slab_heap \<Rightarrow> chunk_span option \<times> slab_heap" where
  "find_chunk_for_addr addr h =
     (if addr < span_min h \<or> addr \<ge> span_max h then (None, h)
      else
        (let (cached, next_slot, cached_epoch) = last_chunks h
         in if cached_epoch = chunk_epoch h then
              (case cached_hit addr cached of
                 Some c \<Rightarrow> (Some c, h)
               | None \<Rightarrow> search_table addr cached next_slot h)
            else
              search_table addr cached next_slot
                (if fst cached \<noteq> None \<or> snd cached \<noteq> None
                 then h\<lparr>last_chunks := ((None, None), False, chunk_epoch h)\<rparr> else h)))"

subsection \<open>Classification of words\<close>

definition chunk_for_valid_slot :: "i64 \<Rightarrow> slab_heap \<Rightarrow> chunk_span option \<times> slab_heap" where
  "chunk_for_valid_slot val h =
     (if sint val \<le> 0 \<or> val AND 7 \<noteq> 0 then (None, h)
      else
        (case find_chunk_for_addr (unat val) h of
           (None, h') \<Rightarrow> (None, h')
         | (Some c, h') \<Rightarrow>
             (if (unat val - ch_start c) mod ch_slot_bytes c \<noteq> 16 then (None, h') else (Some c, h'))))"

definition slab_header_of :: "i64 \<Rightarrow> slab_heap \<Rightarrow> nat option \<times> slab_heap" where
  "slab_header_of val h =
     (let (c, h') = chunk_for_valid_slot val h in (map_option (\<lambda>_. unat val) c, h'))"

definition ptr_is_slab_body :: "i64 \<Rightarrow> slab_heap \<Rightarrow> bool \<times> slab_heap" where
  "ptr_is_slab_body val h =
     (case slab_header_of val h of
        (Some body, h') \<Rightarrow> (odd (unat (gen_word h' body)), h')
      | (None, h') \<Rightarrow> (False, h'))"

definition ptr_in_slab_span :: "i64 \<Rightarrow> slab_heap \<Rightarrow> bool \<times> slab_heap" where
  "ptr_in_slab_span val h = (let (b, h') = slab_header_of val h in (b \<noteq> None, h'))"

definition slab_membership :: "i64 \<Rightarrow> slab_heap \<Rightarrow> bool option \<times> slab_heap" where
  "slab_membership val h =
     (let (c, h') = chunk_for_valid_slot val h in (map_option ch_global c, h'))"

definition slot_generation :: "i64 \<Rightarrow> slab_heap \<Rightarrow> u64 \<times> slab_heap" where
  "slot_generation val h =
     (case slab_header_of val h of
        (Some body, h') \<Rightarrow> (gen_word h' body, h')
      | (None, h') \<Rightarrow> (0, h'))"

definition chunk_is_global :: "nat \<Rightarrow> slab_heap \<Rightarrow> bool \<times> slab_heap" where
  "chunk_is_global addr h =
     (let (c, h') = find_chunk_for_addr addr h in (case c of Some c \<Rightarrow> ch_global c | None \<Rightarrow> False, h'))"

subsection \<open>One slab\<close>

text \<open>\<open>active\<close> is the counter of the chunk that is being cut.\<close>

record gen_slab =
  free_head :: nat
  bump :: nat
  bump_end :: nat
  slot_bytes :: nat
  active :: "nat option"
  chunks :: "(nat \<times> nat) list"

definition slab_new :: "nat \<Rightarrow> gen_slab" where
  "slab_new body_bytes =
     \<lparr>free_head = 0, bump = 0, bump_end = 0, slot_bytes = 16 + (body_bytes + 7) div 8 * 8,
      active = None, chunks = []\<rparr>"

definition chunk_slots :: "gen_slab \<Rightarrow> nat" where
  "chunk_slots s = max (CHUNK_TARGET div slot_bytes s) 1"

definition zero_generations :: "nat \<Rightarrow> nat \<Rightarrow> nat \<Rightarrow> (nat \<Rightarrow> u64) \<Rightarrow> nat \<Rightarrow> u64" where
  "zero_generations chunk slots sb g =
     fold (\<lambda>k g. g(chunk + k * sb + 16 := 0)) [0..<slots] g"

definition grow :: "nat \<Rightarrow> bool \<Rightarrow> gen_slab \<times> slab_heap \<Rightarrow> gen_slab \<times> slab_heap" where
  "grow chunk is_global = (\<lambda>(s, h).
     let slots = chunk_slots s; bytes = slots * slot_bytes s;
         h1 = h\<lparr>gen_word := zero_generations chunk slots (slot_bytes s) (gen_word h)\<rparr>
     in (s\<lparr>bump := chunk, bump_end := chunk + bytes, active := Some chunk,
           chunks := chunks s @ [(chunk, bytes)]\<rparr>,
         register_chunk chunk (chunk + bytes) (slot_bytes s) is_global h1))"

definition add_live :: "nat \<Rightarrow> slab_heap \<Rightarrow> slab_heap" where
  "add_live c h = h\<lparr>live_count := (live_count h)(c := live_count h c + 1)\<rparr>"

text \<open>\<open>alloc\<close> with the address that the system allocator gives when a chunk is needed.\<close>

definition slab_alloc :: "nat \<Rightarrow> bool \<Rightarrow> gen_slab \<times> slab_heap \<Rightarrow> (nat \<times> bool) \<times> gen_slab \<times> slab_heap" where
  "slab_alloc chunk is_global = (\<lambda>(s, h).
     if free_head s \<noteq> 0 then
       (let body = free_head s + 16;
            s1 = s\<lparr>free_head := link_word h body\<rparr>;
            h1 = h\<lparr>gen_word := (gen_word h)(body := gen_word h body + 1)\<rparr>;
            (c, h2) = find_chunk_for_addr body h1
        in ((body, False), s1, (case c of Some c \<Rightarrow> add_live (ch_start c) h2 | None \<Rightarrow> h2)))
     else
       (let (s1, h1) = (if bump s = 0 \<or> bump s + slot_bytes s > bump_end s
                        then grow chunk is_global (s, h) else (s, h));
            body = bump s1 + 16;
            s2 = s1\<lparr>bump := bump s1 + slot_bytes s1\<rparr>;
            h2 = h1\<lparr>gen_word := (gen_word h1)(body := 1)\<rparr>
        in ((body, True), s2, (case active s2 of Some c \<Rightarrow> add_live c h2 | None \<Rightarrow> h2))))"

text \<open>The walks along the free list; \<open>None\<close> is a list that does not end.\<close>

partial_function (option) free_slots :: "(nat \<Rightarrow> nat) \<Rightarrow> nat \<Rightarrow> nat list option" where
  "free_slots lk node =
     (if node = 0 then Some []
      else do { rest \<leftarrow> free_slots lk (lk (node + 16)); Some (node # rest) })"

definition count_chunk_slots :: "nat \<Rightarrow> nat \<Rightarrow> gen_slab \<Rightarrow> slab_heap \<Rightarrow> nat option" where
  "count_chunk_slots start fin s h =
     map_option (\<lambda>xs. length (filter (\<lambda>a. start \<le> a \<and> a < fin) xs)) (free_slots (link_word h) (free_head s))"

text \<open>\<open>prev\<close> is where the link to the current slot is stored: \<open>None\<close> for \<open>free_head\<close>.\<close>

partial_function (option) unlink_loop ::
  "nat \<Rightarrow> nat \<Rightarrow> nat option \<Rightarrow> nat \<Rightarrow> nat \<Rightarrow> (nat \<Rightarrow> nat) \<Rightarrow> (nat \<times> (nat \<Rightarrow> nat)) option" where
  "unlink_loop start fin prev node fh lk =
     (if node = 0 then Some (fh, lk)
      else
        (let nxt = lk (node + 16)
         in if start \<le> node \<and> node < fin then
              (case prev of
                 None \<Rightarrow> unlink_loop start fin None nxt nxt lk
               | Some p \<Rightarrow> unlink_loop start fin prev nxt fh (lk(p := nxt)))
            else unlink_loop start fin (Some (node + 16)) nxt fh lk))"

definition unlink_chunk_slots :: "nat \<Rightarrow> nat \<Rightarrow> gen_slab \<times> slab_heap \<Rightarrow> (gen_slab \<times> slab_heap) option" where
  "unlink_chunk_slots start fin = (\<lambda>(s, h).
     map_option (\<lambda>(fh, lk). (s\<lparr>free_head := fh\<rparr>, h\<lparr>link_word := lk\<rparr>))
       (unlink_loop start fin None (free_head s) (free_head s) (link_word h)))"

text \<open>
  The pages that lie inside the range go back to the system and read as zero afterwards, as
  \<open>madvise\<close> does on Unix. The call made on Windows leaves the contents of the pages open and is not modelled.
\<close>

definition reclaim_pages :: "nat \<Rightarrow> nat \<Rightarrow> nat \<Rightarrow> slab_heap \<Rightarrow> slab_heap" where
  "reclaim_pages page addr len h =
     (if page = 0 then h
      else
        (let start = (addr + page - 1) div page * page; fin = (addr + len) div page * page
         in if fin > start
            then h\<lparr>gen_word := (\<lambda>b. if start \<le> b - 8 \<and> b - 8 < fin then 0 else gen_word h b),
                   link_word := (\<lambda>b. if start \<le> b \<and> b < fin then 0 else link_word h b)\<rparr>
            else h))"

definition reclaim_if_empty ::
  "nat \<Rightarrow> chunk_span \<Rightarrow> gen_slab \<times> slab_heap \<Rightarrow> (gen_slab \<times> slab_heap) option" where
  "reclaim_if_empty page c = (\<lambda>(s, h).
     if ch_start c \<le> bump s \<and> bump s < ch_end c then Some (s, h)
     else
       do { n \<leftarrow> count_chunk_slots (ch_start c) (ch_end c) s h;
            if n = (ch_end c - ch_start c) div ch_slot_bytes c
            then map_option (\<lambda>(s, h). (s, reclaim_pages page (ch_start c) (ch_end c - ch_start c) h))
                   (unlink_chunk_slots (ch_start c) (ch_end c) (s, h))
            else Some (s, h) })"

definition slab_free :: "nat \<Rightarrow> nat \<Rightarrow> gen_slab \<times> slab_heap \<Rightarrow> (bool \<times> gen_slab \<times> slab_heap) option" where
  "slab_free page body = (\<lambda>(s, h).
     if even (unat (gen_word h body)) then Some (False, s, h)
     else
       (let h1 = h\<lparr>gen_word := (gen_word h)(body := gen_word h body + 1),
                   link_word := (link_word h)(body := free_head s)\<rparr>;
            s1 = s\<lparr>free_head := body - 16\<rparr>
        in (case find_chunk_for_addr body h1 of
              (None, h2) \<Rightarrow> Some (True, s1, h2)
            | (Some c, h2) \<Rightarrow>
                (let prev = live_count h2 (ch_start c);
                     h3 = h2\<lparr>live_count := (live_count h2)(ch_start c := prev - 1)\<rparr>
                 in if prev = 1 then map_option (\<lambda>r. (True, r)) (reclaim_if_empty page c (s1, h3))
                    else Some (True, s1, h3)))))"

definition owns_addr :: "gen_slab \<Rightarrow> nat \<Rightarrow> bool" where
  "owns_addr s addr \<longleftrightarrow> list_ex (\<lambda>(chunk, size). chunk \<le> addr \<and> addr < chunk + size) (chunks s)"

definition slab_drop :: "gen_slab \<Rightarrow> slab_heap \<Rightarrow> slab_heap" where
  "slab_drop s h = fold (\<lambda>(chunk, _) h. unregister_chunk chunk h) (chunks s) h"

end
