(* ===== verification/SlabTable.thy ===== *)
theory SlabTable
  imports Slab
begin

text \<open>
  The chunk table is sorted by address and its spans are disjoint, so the search behind the cache
  finds the one chunk that holds an address; while no chunk is given back, the cache only holds
  spans of the table and a lookup through it gives the same answer. After a chunk was given back the
  cache may keep its span.
\<close>

definition table_sorted :: "chunk_span list \<Rightarrow> bool" where
  "table_sorted cs \<longleftrightarrow>
     sorted_wrt (\<lambda>c d. ch_end c \<le> ch_start d) cs \<and> (\<forall>c\<in>set cs. ch_start c < ch_end c)"

definition cached_spans :: "slab_heap \<Rightarrow> chunk_span set" where
  "cached_spans h = set_option (fst (fst (last_chunks h))) \<union> set_option (snd (fst (last_chunks h)))"

definition table_inv :: "slab_heap \<Rightarrow> bool" where
  "table_inv h \<longleftrightarrow>
     table_sorted (chunk_table h) \<and>
     (\<forall>c\<in>set (chunk_table h). span_min h \<le> ch_start c \<and> ch_end c \<le> span_max h)"

definition cache_inv :: "slab_heap \<Rightarrow> bool" where
  "cache_inv h \<longleftrightarrow> cached_spans h \<subseteq> set (chunk_table h)"

text \<open>Everything but the cache.\<close>

definition same_but_cache :: "slab_heap \<Rightarrow> slab_heap \<Rightarrow> bool" where
  "same_but_cache h h' \<longleftrightarrow> (\<exists>c. h' = h\<lparr>last_chunks := c\<rparr>)"

lemma same_but_cache_refl [simp]: "same_but_cache h h"
  unfolding same_but_cache_def by (rule exI [of _ "last_chunks h"]) simp

lemma same_but_cache_upd [simp]: "same_but_cache h (h\<lparr>last_chunks := c\<rparr>)"
  unfolding same_but_cache_def by blast

lemma same_but_cacheD:
  assumes "same_but_cache h h'"
  shows "gen_word h' = gen_word h" "link_word h' = link_word h" "chunk_table h' = chunk_table h"
    "live_count h' = live_count h" "chunk_epoch h' = chunk_epoch h" "span_min h' = span_min h"
    "span_max h' = span_max h"
  using assms by (auto simp: same_but_cache_def)

lemma holds_unique:
  assumes "table_sorted cs" "c \<in> set cs" "d \<in> set cs" "holds a c" "holds a d"
  shows "c = d"
proof (rule ccontr)
  assume "c \<noteq> d"
  then obtain i j where ij: "i < length cs" "j < length cs" "i \<noteq> j" "cs ! i = c" "cs ! j = d"
    using assms(2,3) by (auto simp: in_set_conv_nth)
  then have "ch_end c \<le> ch_start d \<or> ch_end d \<le> ch_start c"
    using assms(1) by (cases "i < j") (auto simp: table_sorted_def sorted_wrt_iff_nth_less)
  with assms(4,5) show False by (auto simp: holds_def)
qed

lemma partition_point_holds:
  assumes "table_sorted cs" "c \<in> set cs" "holds a c"
  shows "partition_point (\<lambda>c. ch_start c \<le> a) cs \<noteq> 0 \<and>
    cs ! (partition_point (\<lambda>c. ch_start c \<le> a) cs - 1) = c"
  using assms
proof (induction cs)
  case (Cons d cs)
  have sorted: "table_sorted cs" using Cons.prems(1) by (simp add: table_sorted_def)
  show ?case
  proof (cases "c = d")
    case True
    have "\<not> ch_start e \<le> a" if "e \<in> set cs" for e
      using Cons.prems that True by (auto simp: table_sorted_def holds_def)
    then have "takeWhile (\<lambda>c. ch_start c \<le> a) cs = []" by (cases cs) auto
    then show ?thesis using Cons.prems(3) True by (simp add: partition_point_def holds_def)
  next
    case False
    then have c: "c \<in> set cs" using Cons.prems(2) by simp
    then have "ch_start d \<le> a" using Cons.prems by (fastforce simp: table_sorted_def holds_def)
    with Cons.IH [OF sorted c Cons.prems(3)] show ?thesis by (simp add: partition_point_def nth_Cons')
  qed
qed simp

lemma partition_point_le: "partition_point P cs \<le> length cs"
  by (simp add: partition_point_def length_takeWhile_le)

lemma search_table_spec:
  assumes "table_inv h"
  shows "fst (search_table a cached nx h) = Some c \<longleftrightarrow> c \<in> set (chunk_table h) \<and> holds a c"
    "same_but_cache h (snd (search_table a cached nx h))"
    "set_option (fst cached) \<union> set_option (snd cached) \<subseteq> set (chunk_table h) \<Longrightarrow> cache_inv h \<Longrightarrow>
       cache_inv (snd (search_table a cached nx h))"
proof -
  let ?i = "partition_point (\<lambda>c. ch_start c \<le> a) (chunk_table h)"
  have i: "?i \<le> length (chunk_table h)" by (rule partition_point_le)
  have mem: "?i \<noteq> 0 \<Longrightarrow> chunk_table h ! (?i - 1) \<in> set (chunk_table h)" using i by simp
  show "fst (search_table a cached nx h) = Some c \<longleftrightarrow> c \<in> set (chunk_table h) \<and> holds a c"
    using partition_point_holds [of "chunk_table h" c a] assms mem
    by (auto simp: search_table_def Let_def table_inv_def)
  show "same_but_cache h (snd (search_table a cached nx h))"
    by (simp add: search_table_def Let_def)
  show "cache_inv (snd (search_table a cached nx h))"
    if "set_option (fst cached) \<union> set_option (snd cached) \<subseteq> set (chunk_table h)" "cache_inv h"
    using that mem
    by (cases cached) (auto simp: search_table_def Let_def cache_inv_def cached_spans_def fill_cache_def)
qed

lemma cached_hit_Some:
  "cached_hit a cached = Some c \<Longrightarrow> c \<in> set_option (fst cached) \<union> set_option (snd cached) \<and> holds a c"
  by (auto simp: cached_hit_def split: option.splits if_splits)

lemma find_chunk_spec:
  assumes "table_inv h" "cache_inv h"
  shows "fst (find_chunk_for_addr a h) = Some c \<longleftrightarrow> c \<in> set (chunk_table h) \<and> holds a c"
    and "same_but_cache h (snd (find_chunk_for_addr a h))" and "cache_inv (snd (find_chunk_for_addr a h))"
proof -
  obtain cached nx ep where lc: "last_chunks h = (cached, nx, ep)" by (cases "last_chunks h")
  have sub: "set_option (fst cached) \<union> set_option (snd cached) \<subseteq> set (chunk_table h)"
    using assms(2) lc by (simp add: cache_inv_def cached_spans_def)
  have out: "a < span_min h \<or> span_max h \<le> a \<Longrightarrow> \<not> (c \<in> set (chunk_table h) \<and> holds a c)"
    using assms(1) by (fastforce simp: table_inv_def holds_def)
  let ?e = "h\<lparr>last_chunks := ((None, None), False, chunk_epoch h)\<rparr>"
  have e: "table_inv ?e" "cache_inv ?e" "same_but_cache h ?e"
    using assms(1) by (auto simp: table_inv_def cache_inv_def cached_spans_def)
  note s = search_table_spec [OF assms(1)] and se = search_table_spec [OF e(1)]
  have hit: "c = d" if "cached_hit a cached = Some d" "c \<in> set (chunk_table h)" "holds a c" for d
    using cached_hit_Some [OF that(1)] sub that(2,3) assms(1) holds_unique
    by (auto simp: table_inv_def)
  show "fst (find_chunk_for_addr a h) = Some c \<longleftrightarrow> c \<in> set (chunk_table h) \<and> holds a c"
    using out s(1) se(1) hit cached_hit_Some [of a cached] sub
    by (auto simp: find_chunk_for_addr_def lc split: option.splits)
  have t: "same_but_cache h h'" if "same_but_cache ?e h'" for h'
    using that by (auto simp: same_but_cache_def)
  show "same_but_cache h (snd (find_chunk_for_addr a h))"
    using s(2) t [OF se(2)] by (simp add: find_chunk_for_addr_def lc split: option.splits)
  show "cache_inv (snd (find_chunk_for_addr a h))"
    using s(3) [OF sub assms(2)] se(3) [of cached] sub e(2) assms(2)
    by (simp add: find_chunk_for_addr_def lc split: option.splits)
qed

subsection \<open>The cache after a chunk was given back\<close>

text \<open>
  Two chunks are registered and looked up, the second is unregistered, and one lookup of the first
  puts the span of the second back under the new epoch.
\<close>

definition two_chunks :: slab_heap where
  "two_chunks = register_chunk 5000 6000 40 False (register_chunk 1000 2000 40 False heap_start)"

definition after_drop :: slab_heap where
  "after_drop =
     unregister_chunk 5000 (snd (find_chunk_for_addr 5016 (snd (find_chunk_for_addr 1016 two_chunks))))"

lemma cache_keeps_dropped_chunk:
  "map ch_start (chunk_table after_drop) = [1000]"
  "map_option ch_start (fst (find_chunk_for_addr 5016 (snd (find_chunk_for_addr 1016 after_drop)))) = Some 5000"
  "fst (find_chunk_for_addr 5016 after_drop) = None"
  by (simp_all add: after_drop_def two_chunks_def heap_start_def register_chunk_def unregister_chunk_def
      find_chunk_for_addr_def search_table_def cached_hit_def fill_cache_def holds_def partition_point_def Let_def)

end
