(* ===== verification/SlabProps.thy ===== *)
theory SlabProps
  imports SlabTable
begin

text \<open>
  The slab as a state machine: its invariant, that allocation and release keep it, and that a handle
  to a released slot stays recognisably stale.
\<close>

subsection \<open>Generations\<close>

lemma odd_gen_succ [simp]: "odd (unat (g + 1 :: u64)) \<longleftrightarrow> even (unat g)"
  by (simp add: unat_word_ariths dvd_mod_iff)

lemma even_gen_succ [simp]: "even (unat (g + 1 :: u64)) \<longleftrightarrow> odd (unat g)"
  using odd_gen_succ [of g] by blast

lemma unat_gen_succ: "unat g < 2 ^ 64 - 1 \<Longrightarrow> unat (g + 1 :: u64) = unat g + 1"
  by (subst unat_word_ariths) simp

subsection \<open>Slots\<close>

definition is_slot :: "gen_slab \<Rightarrow> nat \<Rightarrow> bool" where
  "is_slot s x \<longleftrightarrow>
     (\<exists>a n. (a, n) \<in> set (chunks s) \<and> a \<le> x \<and> x + slot_bytes s \<le> a + n \<and> slot_bytes s dvd x - a)"

definition is_fresh :: "gen_slab \<Rightarrow> nat \<Rightarrow> bool" where
  "is_fresh s x \<longleftrightarrow> is_slot s x \<and> bump s \<noteq> 0 \<and> bump s \<le> x \<and> x < bump_end s"

text \<open>\<open>seg lk h xs t\<close>: from \<open>h\<close> the links lead through \<open>xs\<close> to \<open>t\<close>.\<close>

fun seg :: "(nat \<Rightarrow> nat) \<Rightarrow> nat \<Rightarrow> nat list \<Rightarrow> nat \<Rightarrow> bool" where
  "seg lk h [] t \<longleftrightarrow> h = t"
| "seg lk h (x # xs) t \<longleftrightarrow> h = x \<and> x \<noteq> 0 \<and> seg lk (lk (x + 16)) xs t"

lemma seg_append: "seg lk h (xs @ ys) t \<longleftrightarrow> (\<exists>m. seg lk h xs m \<and> seg lk m ys t)"
  by (induction xs arbitrary: h) auto

lemma seg_unchanged: "\<forall>x\<in>set xs. lk' (x + 16) = lk (x + 16) \<Longrightarrow> seg lk' h xs t \<longleftrightarrow> seg lk h xs t"
  by (induction xs arbitrary: h) auto

lemma seg_end: "seg lk h xs t \<Longrightarrow> xs \<noteq> [] \<Longrightarrow> lk (last xs + 16) = t"
  by (induction xs arbitrary: h) (auto split: if_splits)

lemma seg_nonzero: "seg lk h xs t \<Longrightarrow> 0 \<notin> set xs"
  by (induction xs arbitrary: h) auto

lemma free_slots_seg: "seg lk h xs 0 \<Longrightarrow> free_slots lk h = Some xs"
  by (induction xs arbitrary: h) (subst free_slots.simps; auto)+

lemma unlink_steps:
  "unlink_loop start fin prev 0 fh lk = Some (fh, lk)"
  "node \<noteq> 0 \<Longrightarrow> \<not> (start \<le> node \<and> node < fin) \<Longrightarrow>
     unlink_loop start fin prev node fh lk = unlink_loop start fin (Some (node + 16)) (lk (node + 16)) fh lk"
  "node \<noteq> 0 \<Longrightarrow> start \<le> node \<and> node < fin \<Longrightarrow>
     unlink_loop start fin None node fh lk = unlink_loop start fin None (lk (node + 16)) (lk (node + 16)) lk"
  "node \<noteq> 0 \<Longrightarrow> start \<le> node \<and> node < fin \<Longrightarrow>
     unlink_loop start fin (Some p) node fh lk =
       unlink_loop start fin (Some p) (lk (node + 16)) fh (lk(p := lk (node + 16)))"
  by (subst unlink_loop.simps; auto simp: Let_def)+

text \<open>The walk that takes a chunk's slots out of the list keeps the others in their order.\<close>

lemma unlink_loop_seg:
  "seg lk fh (ks @ rest) 0 \<Longrightarrow> distinct (ks @ rest) \<Longrightarrow> node = (case rest of [] \<Rightarrow> 0 | x # _ \<Rightarrow> x) \<Longrightarrow>
   prev = (if ks = [] then None else Some (last ks + 16)) \<Longrightarrow>
   \<exists>fh' lk'. unlink_loop start fin prev node fh lk = Some (fh', lk') \<and>
     seg lk' fh' (ks @ filter (\<lambda>a. \<not> (start \<le> a \<and> a < fin)) rest) 0"
proof (induction rest arbitrary: ks node prev fh lk)
  case Nil
  then show ?case by (simp add: unlink_steps)
next
  case (Cons x rest)
  have x: "node = x" "x \<noteq> 0" and d: "distinct (ks @ rest)" "x \<notin> set ks" "x \<notin> set rest"
    using Cons.prems(1-3) by (auto simp: seg_append)
  have chain: "seg lk fh ks x" "seg lk (lk (x + 16)) rest 0"
    using Cons.prems(1) by (auto simp: seg_append)
  have nxt: "lk (x + 16) = (case rest of [] \<Rightarrow> 0 | y # _ \<Rightarrow> y)"
    using chain(2) by (cases rest) auto
  show ?case
  proof (cases "start \<le> x \<and> x < fin")
    case False
    have "\<exists>fh' lk'. unlink_loop start fin (Some (x + 16)) (lk (x + 16)) fh lk = Some (fh', lk') \<and>
        seg lk' fh' ((ks @ [x]) @ filter (\<lambda>a. \<not> (start \<le> a \<and> a < fin)) rest) 0"
      using Cons.prems(1,2) nxt by (intro Cons.IH) auto
    with False x show ?thesis by (simp add: unlink_steps(2) cong: conj_cong)
  next
    case True
    show ?thesis
    proof (cases "ks = []")
      case empty: True
      have "\<exists>fh' lk'. unlink_loop start fin None (lk (x + 16)) (lk (x + 16)) lk = Some (fh', lk') \<and>
          seg lk' fh' ([] @ filter (\<lambda>a. \<not> (start \<le> a \<and> a < fin)) rest) 0"
        using chain d nxt by (intro Cons.IH) (auto split: list.splits)
      with True x empty Cons.prems(4) show ?thesis by (simp add: unlink_steps(3))
    next
      case ne: False
      let ?p = "last ks + 16" and ?n = "lk (x + 16)"
      let ?lk = "lk(?p := ?n)"
      obtain zs z where ks: "ks = zs @ [z]" using ne by (metis append_butlast_last_id)
      have "seg ?lk fh zs z" using chain(1) d(1) by (subst seg_unchanged) (auto simp: ks seg_append)
      moreover have "z \<noteq> 0" using chain(1) by (simp add: ks seg_append)
      moreover have "seg ?lk ?n rest 0"
        using chain(2) d(1) by (subst seg_unchanged) (auto simp: ks)
      ultimately have "seg ?lk fh (ks @ rest) 0" by (auto simp: ks seg_append)
      then have "\<exists>fh' lk'. unlink_loop start fin (Some ?p) ?n fh ?lk = Some (fh', lk') \<and>
          seg lk' fh' (ks @ filter (\<lambda>a. \<not> (start \<le> a \<and> a < fin)) rest) 0"
        using d nxt ne by (intro Cons.IH) (simp_all add: Int_commute del: fun_upd_apply)
      with True x ne Cons.prems(4) show ?thesis by (simp add: unlink_steps(4))
    qed
  qed
qed

subsection \<open>The invariant\<close>

definition geometry :: "gen_slab \<times> slab_heap \<Rightarrow> bool" where
  "geometry = (\<lambda>(s, h).
     24 \<le> slot_bytes s \<and> 8 dvd slot_bytes s \<and> table_inv h \<and> cache_inv h \<and>
     (\<forall>c\<in>set (chunk_table h).
        ch_slot_bytes c = slot_bytes s \<and> (ch_start c, ch_end c - ch_start c) \<in> set (chunks s)) \<and>
     (\<forall>(a, n)\<in>set (chunks s).
        0 < a \<and> 8 dvd a \<and> slot_bytes s dvd n \<and> 0 < n \<and> a + n < 2 ^ 63 \<and>
        (\<exists>c\<in>set (chunk_table h). ch_start c = a \<and> ch_end c = a + n)) \<and>
     (bump s = 0 \<or>
        (\<exists>a n. (a, n) \<in> set (chunks s) \<and> a \<le> bump s \<and> bump s \<le> a + n \<and> bump_end s = a + n \<and>
           slot_bytes s dvd bump s - a)))"

definition free_ok :: "gen_slab \<times> slab_heap \<Rightarrow> nat list \<Rightarrow> bool" where
  "free_ok = (\<lambda>(s, h) fl.
     seg (link_word h) (free_head s) fl 0 \<and> distinct fl \<and>
     (\<forall>x\<in>set fl. is_slot s x \<and> even (unat (gen_word h (x + 16))) \<and> \<not> is_fresh s x) \<and>
     (\<forall>x. is_fresh s x \<longrightarrow> gen_word h (x + 16) = 0))"

definition slab_ok :: "gen_slab \<times> slab_heap \<Rightarrow> nat list \<Rightarrow> bool" where
  "slab_ok sh fl \<longleftrightarrow> geometry sh \<and> free_ok sh fl"

text \<open>What the system allocator promises of a new chunk.\<close>

definition region_ok :: "gen_slab \<times> slab_heap \<Rightarrow> nat \<Rightarrow> bool" where
  "region_ok = (\<lambda>(s, h) a.
     let n = chunk_slots s * slot_bytes s
     in 0 < a \<and> 8 dvd a \<and> a + n < 2 ^ 63 \<and>
        (\<forall>c\<in>set (chunk_table h). a + n \<le> ch_start c \<or> ch_end c \<le> a))"

lemma geometry_chunk:
  assumes "geometry (s, h)" "(a, n) \<in> set (chunks s)"
  shows "0 < a" "8 dvd a" "slot_bytes s dvd n" "0 < n" "a + n < 2 ^ 63"
    "\<exists>c\<in>set (chunk_table h). ch_start c = a \<and> ch_end c = a + n"
  using assms unfolding geometry_def by (simp_all add: case_prod_beta' Ball_def)

lemma geometry_span:
  assumes "geometry (s, h)" "c \<in> set (chunk_table h)"
  shows "ch_slot_bytes c = slot_bytes s" "(ch_start c, ch_end c - ch_start c) \<in> set (chunks s)"
    "ch_start c < ch_end c"
  using assms by (auto simp: geometry_def table_inv_def table_sorted_def)

lemma geometry_basic:
  assumes "geometry (s, h)"
  shows "24 \<le> slot_bytes s" "8 dvd slot_bytes s" "table_inv h" "cache_inv h"
    "bump s = 0 \<or> (\<exists>a n. (a, n) \<in> set (chunks s) \<and> a \<le> bump s \<and> bump s \<le> a + n \<and> bump_end s = a + n \<and>
       slot_bytes s dvd bump s - a)"
  using assms by (simp_all add: geometry_def)

lemma same_chunk:
  assumes "geometry (s, h)" "(a, n) \<in> set (chunks s)" "(a', n') \<in> set (chunks s)"
    "a \<le> x" "x < a + n" "a' \<le> x" "x < a' + n'"
  shows "a = a'" "n = n'"
proof -
  obtain c c' where c: "c \<in> set (chunk_table h)" "ch_start c = a" "ch_end c = a + n"
    "c' \<in> set (chunk_table h)" "ch_start c' = a'" "ch_end c' = a' + n'"
    using geometry_chunk(6) [OF assms(1,2)] geometry_chunk(6) [OF assms(1,3)] by blast
  have "table_sorted (chunk_table h)" using geometry_basic(3) [OF assms(1)] by (simp add: table_inv_def)
  moreover have "holds x c" "holds x c'" using assms(4-7) c by (auto simp: holds_def)
  ultimately have "c = c'" using c holds_unique by blast
  with c show "a = a'" "n = n'" by auto
qed

lemma slot_in_chunk:
  assumes "geometry (s, h)" "is_slot s x"
  obtains a n where "(a, n) \<in> set (chunks s)" "a \<le> x" "x + slot_bytes s \<le> a + n" "slot_bytes s dvd x - a"
    "0 < a" "x + 24 \<le> a + n"
proof -
  obtain a n where an: "(a, n) \<in> set (chunks s)" "a \<le> x" "x + slot_bytes s \<le> a + n" "slot_bytes s dvd x - a"
    using assms(2) unfolding is_slot_def by blast
  with geometry_chunk(1) [OF assms(1) an(1)] geometry_basic(1) [OF assms(1)] that show ?thesis by auto
qed

lemma slot_nonzero: "geometry (s, h) \<Longrightarrow> is_slot s x \<Longrightarrow> x \<noteq> 0"
  by (rule slot_in_chunk) auto

lemma find_slot_chunk:
  assumes "geometry (s, h)" "is_slot s x"
  obtains c h' where "find_chunk_for_addr (x + 16) h = (Some c, h')" "same_but_cache h h'" "cache_inv h'"
    "c \<in> set (chunk_table h)" "holds (x + 16) c"
proof -
  obtain a n where an: "(a, n) \<in> set (chunks s)" "a \<le> x" "x + 24 \<le> a + n"
    using slot_in_chunk [OF assms] by metis
  then obtain c where c: "c \<in> set (chunk_table h)" "ch_start c = a" "ch_end c = a + n"
    using geometry_chunk(6) [OF assms(1)] by blast
  have inv: "table_inv h" "cache_inv h" using geometry_basic [OF assms(1)] by auto
  have "holds (x + 16) c" using an c by (simp add: holds_def)
  with c find_chunk_spec [OF inv, of "x + 16"] that show ?thesis
    by (cases "find_chunk_for_addr (x + 16) h") auto
qed

lemma geometry_cong:
  assumes "geometry (s, h)" "table_inv h'" "cache_inv h'" "chunk_table h' = chunk_table h"
    "slot_bytes s' = slot_bytes s" "chunks s' = chunks s" "bump s' = bump s" "bump_end s' = bump_end s"
  shows "geometry (s', h')"
  using assms(1-3) unfolding geometry_def prod.case assms(4-8) by blast

lemma table_inv_cong:
  "table_inv h \<Longrightarrow> chunk_table h' = chunk_table h \<Longrightarrow> span_min h' = span_min h \<Longrightarrow> span_max h' = span_max h \<Longrightarrow>
     table_inv h'"
  by (simp add: table_inv_def)

lemma cache_inv_cong:
  "cache_inv h \<Longrightarrow> chunk_table h' = chunk_table h \<Longrightarrow> last_chunks h' = last_chunks h \<Longrightarrow> cache_inv h'"
  by (simp add: cache_inv_def cached_spans_def)

lemma is_slot_cong:
  "slot_bytes s' = slot_bytes s \<Longrightarrow> chunks s' = chunks s \<Longrightarrow> is_slot s' x \<longleftrightarrow> is_slot s x"
  by (simp add: is_slot_def)

lemma is_fresh_cong:
  "slot_bytes s' = slot_bytes s \<Longrightarrow> chunks s' = chunks s \<Longrightarrow> bump s' = bump s \<Longrightarrow> bump_end s' = bump_end s \<Longrightarrow>
     is_fresh s' x \<longleftrightarrow> is_fresh s x"
  by (simp add: is_fresh_def is_slot_def)

subsection \<open>Allocation\<close>

text \<open>
  What an allocation promises: the slot of the body was free or never cut, it is live now, and every
  other slot keeps its generation.
\<close>

definition alloc_ok :: "gen_slab \<times> slab_heap \<Rightarrow> nat list \<Rightarrow> nat \<Rightarrow> gen_slab \<times> slab_heap \<Rightarrow> nat list \<Rightarrow> bool" where
  "alloc_ok = (\<lambda>(s, h) fl x (s', h') fl'.
     slab_ok (s', h') fl' \<and> is_slot s' x \<and> x \<notin> set fl' \<and> \<not> is_fresh s' x \<and> set fl' \<subseteq> set fl \<and>
     (is_slot s x \<longrightarrow> x \<in> set fl \<or> is_fresh s x) \<and>
     (\<forall>y. is_slot s y \<longrightarrow> is_slot s' y \<and> (is_fresh s' y \<longrightarrow> is_fresh s y)) \<and>
     (\<forall>y. is_slot s y \<and> y \<noteq> x \<longrightarrow> gen_word h' (y + 16) = gen_word h (y + 16)) \<and>
     odd (unat (gen_word h' (x + 16))) \<and>
     (is_slot s x \<longrightarrow> even (unat (gen_word h (x + 16))) \<and> gen_word h' (x + 16) = gen_word h (x + 16) + 1) \<and>
     (\<forall>y. unat (gen_word h' (y + 16)) \<le> unat (gen_word h (y + 16)) + 1))"

lemma unat_gen_succ_le: "unat (g + 1 :: u64) \<le> Suc (unat g)"
  by (subst unat_word_ariths) simp

lemma alloc_recycled:
  assumes ok: "slab_ok (s, h) fl" and ne: "free_head s \<noteq> 0"
  obtains x s' h' fl' where "slab_alloc a g (s, h) = ((x + 16, False), s', h')" "alloc_ok (s, h) fl x (s', h') fl'"
proof -
  have geo: "geometry (s, h)" and free: "free_ok (s, h) fl" using ok by (auto simp: slab_ok_def)
  obtain fl' where fl: "fl = free_head s # fl'"
    using free ne by (cases fl) (auto simp: free_ok_def)
  define x where "x = free_head s"
  have x: "is_slot s x" "even (unat (gen_word h (x + 16)))" "\<not> is_fresh s x" "x \<notin> set fl'"
    using free by (auto simp: free_ok_def fl x_def)
  define h1 where "h1 = h\<lparr>gen_word := (gen_word h)(x + 16 := gen_word h (x + 16) + 1)\<rparr>"
  have h1: "table_inv h1" "cache_inv h1"
    using geometry_basic(3,4) [OF geo] table_inv_cong [of h h1] cache_inv_cong [of h h1] by (auto simp: h1_def)
  have geo1: "geometry (s, h1)" using h1 by (intro geometry_cong [OF geo]) (auto simp: h1_def)
  obtain c h2 where find: "find_chunk_for_addr (x + 16) h1 = (Some c, h2)" and h2: "same_but_cache h1 h2" "cache_inv h2"
    using find_slot_chunk [OF geo1 x(1)] by metis
  define s' where "s' = s\<lparr>free_head := link_word h (x + 16)\<rparr>"
  define h' where "h' = add_live (ch_start c) h2"
  have run: "slab_alloc a g (s, h) = ((x + 16, False), s', h')"
    using ne find by (simp add: slab_alloc_def x_def [symmetric] h1_def [symmetric] s'_def h'_def Let_def)
  note same = same_but_cacheD [OF h2(1)]
  have gens: "gen_word h' = (gen_word h)(x + 16 := gen_word h (x + 16) + 1)" and links: "link_word h' = link_word h"
    using same by (simp_all add: h'_def add_live_def h1_def)
  have inv': "table_inv h'" "cache_inv h'"
    using table_inv_cong [OF h1(1), of h'] cache_inv_cong [OF h2(2), of h'] same by (auto simp: h'_def add_live_def)
  have geo': "geometry (s', h')"
    using inv' same by (intro geometry_cong [OF geo]) (auto simp: s'_def h'_def add_live_def h1_def)
  have slots: "is_slot s' y \<longleftrightarrow> is_slot s y" "is_fresh s' y \<longleftrightarrow> is_fresh s y" for y
    by (simp_all add: s'_def is_slot_def is_fresh_def)
  have "free_head s' = link_word h (x + 16)" by (simp add: s'_def)
  with free have "seg (link_word h') (free_head s') fl' 0" by (simp add: free_ok_def fl links x_def)
  with free x(3,4) have "free_ok (s', h') fl'"
    unfolding free_ok_def prod.case gens slots by (auto simp: fl)
  with geo' x have "alloc_ok (s, h) fl x (s', h') fl'"
    unfolding alloc_ok_def slab_ok_def prod.case gens slots by (auto simp: fl x_def unat_gen_succ_le)
  with run that show ?thesis by blast
qed

text \<open>Cutting the next slot from the chunk in use.\<close>

definition cut :: "gen_slab \<times> slab_heap \<Rightarrow> gen_slab \<times> slab_heap" where
  "cut = (\<lambda>(s, h).
     (s\<lparr>bump := bump s + slot_bytes s\<rparr>,
      (let h2 = h\<lparr>gen_word := (gen_word h)(bump s + 16 := 1)\<rparr>
       in case active s of Some c \<Rightarrow> add_live c h2 | None \<Rightarrow> h2)))"

lemma slab_alloc_cut:
  assumes "free_head s = 0"
  shows "slab_alloc a g (s, h) =
    (let r = (if bump s = 0 \<or> bump s + slot_bytes s > bump_end s then grow a g (s, h) else (s, h))
     in ((bump (fst r) + 16, True), cut r))"
  using assms by (cases "grow a g (s, h)") (simp add: slab_alloc_def cut_def Let_def)

lemma free_nil: "free_ok (s, h) fl \<Longrightarrow> free_head s = 0 \<Longrightarrow> fl = []"
  by (cases fl) (auto simp: free_ok_def)

lemma cut_ok:
  assumes ok: "slab_ok (s, h) fl" and fh: "free_head s = 0" and b: "bump s \<noteq> 0" "bump s + slot_bytes s \<le> bump_end s"
  shows "alloc_ok (s, h) fl (bump s) (cut (s, h)) fl" "is_fresh s (bump s)"
proof -
  have geo: "geometry (s, h)" and free: "free_ok (s, h) fl" using ok by (auto simp: slab_ok_def)
  have fl: "fl = []" by (rule free_nil [OF free fh])
  obtain an n where c: "(an, n) \<in> set (chunks s)" "an \<le> bump s" "bump s \<le> an + n" "bump_end s = an + n"
    "slot_bytes s dvd bump s - an"
    using geometry_basic(5) [OF geo] b(1) by blast
  have sb: "24 \<le> slot_bytes s" by (rule geometry_basic(1) [OF geo])
  have slot: "is_slot s (bump s)"
    unfolding is_slot_def using c b(2) by (intro exI [of _ an] exI [of _ n]) simp
  then show fresh: "is_fresh s (bump s)" using b sb by (simp add: is_fresh_def)
  obtain s' h' where r: "cut (s, h) = (s', h')" by fastforce
  have s': "s' = s\<lparr>bump := bump s + slot_bytes s\<rparr>" using r by (simp add: cut_def)
  have h': "gen_word h' = (gen_word h)(bump s + 16 := 1)" "link_word h' = link_word h" "chunk_table h' = chunk_table h"
    "span_min h' = span_min h" "span_max h' = span_max h" "last_chunks h' = last_chunks h"
    using r by (auto simp: cut_def Let_def add_live_def split: option.splits)
  have slots: "is_slot s' y \<longleftrightarrow> is_slot s y" for y by (simp add: s' is_slot_def)
  have fr: "is_fresh s' y \<Longrightarrow> is_fresh s y \<and> y \<noteq> bump s" for y
    using sb b(1) by (auto simp: is_fresh_def s' is_slot_def)
  have "slot_bytes s dvd (bump s - an) + slot_bytes s" using c(5) by simp
  then have "slot_bytes s dvd bump s + slot_bytes s - an" using c(2) by simp
  then have bump': "\<exists>a n. (a, n) \<in> set (chunks s') \<and> a \<le> bump s' \<and> bump s' \<le> a + n \<and> bump_end s' = a + n \<and>
      slot_bytes s' dvd bump s' - a"
    using c b(2) by (intro exI [of _ an] exI [of _ n]) (simp add: s')
  have "geometry (s', h')"
    using geo bump' table_inv_cong [OF geometry_basic(3) [OF geo] h'(3-5)]
      cache_inv_cong [OF geometry_basic(4) [OF geo] h'(3,6)]
    unfolding geometry_def prod.case h'(3) by (simp add: s')
  moreover have "free_ok (s', h') []"
    using free fr by (auto simp: free_ok_def fl fh s' h')
  moreover have "gen_word h (bump s + 16) = 0" using free fresh by (simp add: free_ok_def)
  ultimately show "alloc_ok (s, h) fl (bump s) (cut (s, h)) fl"
    unfolding r alloc_ok_def prod.case using slot slots fr fresh fl by (auto simp: slab_ok_def h')
qed

text \<open>Growing: the new chunk is disjoint from the others, and no slot was left to cut.\<close>

lemma zero_generations_eq:
  "zero_generations chunk slots sb g b = (if \<exists>k. k < slots \<and> b = chunk + k * sb + 16 then 0 else g b)"
  unfolding zero_generations_def by (induction slots arbitrary: b) (auto simp: less_Suc_eq)

lemma takeWhile_dropWhile_insert:
  assumes "table_sorted cs" "\<forall>d\<in>set cs. ch_end c \<le> ch_start d \<or> ch_end d \<le> ch_start c" "ch_start c < ch_end c"
    "i = partition_point (\<lambda>d. ch_start d < ch_start c) cs"
  shows "table_sorted (take i cs @ [c] @ drop i cs)"
proof -
  let ?P = "\<lambda>d. ch_start d < ch_start c"
  have t: "take i cs = takeWhile ?P cs" "drop i cs = dropWhile ?P cs"
    by (simp_all add: assms(4) partition_point_def takeWhile_eq_take [symmetric] dropWhile_eq_drop [symmetric])
  have s: "sorted_wrt (\<lambda>c d. ch_end c \<le> ch_start d) (takeWhile ?P cs @ dropWhile ?P cs)"
    using assms(1) by (simp add: table_sorted_def)
  have before: "ch_end d \<le> ch_start c" if "d \<in> set (takeWhile ?P cs)" for d
    using assms(2) set_takeWhileD [OF that] that assms(3) by fastforce
  have after: "ch_end c \<le> ch_start d" if "d \<in> set (dropWhile ?P cs)" for d
  proof -
    obtain e es where e: "dropWhile ?P cs = e # es" using \<open>d \<in> _\<close> by (cases "dropWhile ?P cs") auto
    then have "\<not> ?P e" by (metis hd_dropWhile list.distinct(1) list.sel(1))
    have ein: "e \<in> set cs" "d \<in> set cs" using e that by (metis list.set_intros(1) set_dropWhileD)+
    have "ch_start e \<le> ch_start d"
    proof (cases "d = e")
      case False
      then have "d \<in> set es" using that e by simp
      then have "ch_end e \<le> ch_start d" using s e by (auto simp: sorted_wrt_append)
      moreover have "ch_start e < ch_end e" using assms(1) ein by (simp add: table_sorted_def)
      ultimately show ?thesis by simp
    qed simp
    with \<open>\<not> ?P e\<close> have "ch_start c \<le> ch_start d" by simp
    moreover have "ch_start d < ch_end d" using assms(1) ein by (simp add: table_sorted_def)
    ultimately show ?thesis using assms(2) ein(2) assms(3) by fastforce
  qed
  have across: "ch_end x \<le> ch_start y" if "x \<in> set (takeWhile ?P cs)" "y \<in> set (dropWhile ?P cs)" for x y
    using before [OF that(1)] after [OF that(2)] assms(3) by linarith
  show ?thesis
    using s before after across assms(1,3)
    by (auto simp: t table_sorted_def sorted_wrt_append dest: set_takeWhileD set_dropWhileD)
qed

definition grow_ok :: "gen_slab \<times> slab_heap \<Rightarrow> gen_slab \<times> slab_heap \<Rightarrow> bool" where
  "grow_ok = (\<lambda>(s, h) (s', h').
     slab_ok (s', h') [] \<and> free_head s' = 0 \<and> slot_bytes s' = slot_bytes s \<and> bump s' \<noteq> 0 \<and>
     bump s' + slot_bytes s' \<le> bump_end s' \<and> \<not> is_slot s (bump s') \<and>
     (\<forall>y. is_slot s y \<longrightarrow> is_slot s' y \<and> \<not> is_fresh s' y \<and> gen_word h' (y + 16) = gen_word h (y + 16)) \<and>
     (\<forall>b. gen_word h' b = gen_word h b \<or> gen_word h' b = 0))"

lemma grow_ok:
  assumes ok: "slab_ok (s, h) []" and fh: "free_head s = 0"
    and full: "bump s = 0 \<or> bump s + slot_bytes s > bump_end s" and region: "region_ok (s, h) a"
  shows "grow_ok (s, h) (grow a g (s, h))"
proof -
  let ?sb = "slot_bytes s"
  define n where "n = chunk_slots s * ?sb"
  have geo: "geometry (s, h)" and free: "free_ok (s, h) []" using ok by (auto simp: slab_ok_def)
  note sb = geometry_basic(1,2) [OF geo]
  have reg: "0 < a" "8 dvd a" "a + n < 2 ^ 63" "\<forall>c\<in>set (chunk_table h). a + n \<le> ch_start c \<or> ch_end c \<le> a"
    using region by (auto simp: region_ok_def n_def Let_def)
  have n: "?sb \<le> n" "?sb dvd n" by (simp_all add: n_def chunk_slots_def)
  define c where "c = \<lparr>ch_start = a, ch_end = a + n, ch_slot_bytes = ?sb, ch_global = g\<rparr>"
  obtain s' h' where r: "grow a g (s, h) = (s', h')" by fastforce
  have s': "s' = s\<lparr>bump := a, bump_end := a + n, active := Some a, chunks := chunks s @ [(a, n)]\<rparr>"
    using r by (simp add: grow_def Let_def n_def)
  have h': "gen_word h' = zero_generations a (chunk_slots s) ?sb (gen_word h)" "link_word h' = link_word h"
    "last_chunks h' = last_chunks h" "span_min h' = min (span_min h) a" "span_max h' = max (span_max h) (a + n)"
    "\<exists>i. i = partition_point (\<lambda>d. ch_start d < ch_start c) (chunk_table h) \<and>
       chunk_table h' = take i (chunk_table h) @ [c] @ drop i (chunk_table h)"
    using r by (auto simp: grow_def register_chunk_def Let_def n_def c_def)
  then have table: "set (chunk_table h') = insert c (set (chunk_table h))"
    by (metis Un_insert_left Un_insert_right append_take_drop_id list.simps(15) set_append sup_bot_left empty_set)
  have "table_sorted (chunk_table h)" using geometry_basic(3) [OF geo] by (simp add: table_inv_def)
  then have "table_sorted (chunk_table h')"
    using h'(6) reg(4) n(1) sb(1) takeWhile_dropWhile_insert [of "chunk_table h" c] by (auto simp: c_def)
  then have tinv: "table_inv h'"
    using geometry_basic(3) [OF geo] table by (auto simp: table_inv_def h'(4,5) c_def min.coboundedI1 max.coboundedI1)
  have cinv: "cache_inv h'"
    using geometry_basic(4) [OF geo] table by (auto simp: cache_inv_def cached_spans_def h'(3))
  have "geometry (s', h')"
    unfolding geometry_def prod.case
  proof (intro conjI)
    show "\<forall>d\<in>set (chunk_table h'). ch_slot_bytes d = slot_bytes s' \<and> (ch_start d, ch_end d - ch_start d) \<in> set (chunks s')"
      using geometry_span(1,2) [OF geo] table by (auto simp: s' c_def)
    have "\<exists>c\<in>set (chunk_table h'). ch_start c = b \<and> ch_end c = b + m" if "(b, m) \<in> set (chunks s')" for b m
      using that geometry_chunk(6) [OF geo] table by (auto simp: s' c_def)
    then show "\<forall>(a, n)\<in>set (chunks s'). 0 < a \<and> 8 dvd a \<and> slot_bytes s' dvd n \<and> 0 < n \<and> a + n < 2 ^ 63 \<and>
        (\<exists>c\<in>set (chunk_table h'). ch_start c = a \<and> ch_end c = a + n)"
      using geometry_chunk(1-5) [OF geo] reg n sb(1) by (auto simp: s')
    show "bump s' = 0 \<or> (\<exists>a n. (a, n) \<in> set (chunks s') \<and> a \<le> bump s' \<and> bump s' \<le> a + n \<and> bump_end s' = a + n \<and>
        slot_bytes s' dvd bump s' - a)"
      by (intro disjI2 exI [of _ a] exI [of _ n]) (simp add: s')
  qed (use sb tinv cinv in \<open>simp_all add: s'\<close>)
  moreover have apart: "y + ?sb \<le> a \<or> a + n \<le> y" if y: "is_slot s y" for y
  proof -
    obtain b m where bm: "(b, m) \<in> set (chunks s)" "b \<le> y" "y + ?sb \<le> b + m" using slot_in_chunk [OF geo y] by metis
    with geometry_chunk(6) [OF geo bm(1)] reg(4) show ?thesis by fastforce
  qed
  moreover have old: "gen_word h' (y + 16) = gen_word h (y + 16)" if y: "is_slot s y" for y
  proof -
    have "y + 16 \<noteq> a + k * ?sb + 16" if "k < chunk_slots s" for k
    proof -
      have "(k + 1) * ?sb \<le> n" unfolding n_def using that by (intro mult_le_mono1) simp
      then show ?thesis using apart [OF y] sb(1) by auto
    qed
    then show ?thesis by (auto simp: h'(1) zero_generations_eq)
  qed
  moreover have fresh: "gen_word h' (y + 16) = 0" if y: "is_fresh s' y" for y
  proof -
    obtain b m where bm: "(b, m) \<in> set (chunks s')" "b \<le> y" "y + ?sb \<le> b + m" "?sb dvd y - b"
      using y by (auto simp: is_fresh_def is_slot_def s')
    have "a \<le> y" "y < a + n" using y by (auto simp: is_fresh_def s')
    moreover have "(a, n) \<in> set (chunks s')" by (simp add: s')
    ultimately have "b = a" "m = n"
      using same_chunk [OF \<open>geometry (s', h')\<close> bm(1), of a n y] bm sb(1) by auto
    then obtain k where k: "y = a + k * ?sb" using bm by (metis dvd_def le_add_diff_inverse mult.commute)
    then have "k * ?sb + ?sb \<le> chunk_slots s * ?sb" using bm(3) \<open>m = n\<close> \<open>b = a\<close> by (simp add: n_def)
    moreover have "chunk_slots s * ?sb \<le> k * ?sb" if "chunk_slots s \<le> k" using that by (rule mult_le_mono1)
    ultimately have "k < chunk_slots s" using sb(1) by (meson add_le_same_cancel1 le_trans not_less not_numeral_le_zero)
    with k show ?thesis by (auto simp: h'(1) zero_generations_eq)
  qed
  moreover have "\<not> is_slot s a" using apart [of a] sb(1) n(1) by auto
  moreover have "\<not> is_fresh s' y" if "is_slot s y" for y
    using apart [OF that] sb(1) by (auto simp: is_fresh_def s')
  moreover have "is_slot s' y" if "is_slot s y" for y using that by (auto simp: is_slot_def s')
  moreover have "\<forall>b. gen_word h' b = gen_word h b \<or> gen_word h' b = 0" by (auto simp: h'(1) zero_generations_eq)
  ultimately show ?thesis
    using reg(1) n(1) fh unfolding r grow_ok_def prod.case slab_ok_def free_ok_def by (auto simp: s')
qed

definition room_or_region :: "gen_slab \<times> slab_heap \<Rightarrow> nat \<Rightarrow> bool" where
  "room_or_region = (\<lambda>(s, h) a.
     free_head s = 0 \<and> (bump s = 0 \<or> bump s + slot_bytes s > bump_end s) \<longrightarrow> region_ok (s, h) a)"

lemma slab_alloc_ok:
  assumes ok: "slab_ok (s, h) fl" and room: "room_or_region (s, h) a"
  obtains x fr r fl' where "slab_alloc a g (s, h) = ((x + 16, fr), r)" "alloc_ok (s, h) fl x r fl'"
proof (cases "free_head s = 0")
  case False
  from alloc_recycled [OF ok False, of a g] that show ?thesis by metis
next
  case fh: True
  have fl: "fl = []" using free_nil [OF _ fh] ok by (auto simp: slab_ok_def)
  show ?thesis
  proof (cases "bump s = 0 \<or> bump s + slot_bytes s > bump_end s")
    case False
    then have b: "bump s \<noteq> 0" "bump s + slot_bytes s \<le> bump_end s" by auto
    have "slab_alloc a g (s, h) = ((bump s + 16, True), cut (s, h))"
      using slab_alloc_cut [OF fh, of a g h] False by (simp add: Let_def)
    with cut_ok(1) [OF ok fh b] that show ?thesis by metis
  next
    case True
    then have "region_ok (s, h) a" using room fh by (simp add: room_or_region_def)
    then have g: "grow_ok (s, h) (grow a g (s, h))" using grow_ok [OF _ fh True] ok fl by simp
    obtain s1 h1 where r: "grow a g (s, h) = (s1, h1)" by fastforce
    have g': "slab_ok (s1, h1) []" "free_head s1 = 0" "bump s1 \<noteq> 0" "bump s1 + slot_bytes s1 \<le> bump_end s1"
      "\<not> is_slot s (bump s1)"
      and old: "\<And>y. is_slot s y \<Longrightarrow> is_slot s1 y \<and> \<not> is_fresh s1 y \<and> gen_word h1 (y + 16) = gen_word h (y + 16)"
      and gens: "\<And>b. gen_word h1 b = gen_word h b \<or> gen_word h1 b = 0"
      using g unfolding r grow_ok_def prod.case by blast+
    have run: "slab_alloc a g (s, h) = ((bump s1 + 16, True), cut (s1, h1))"
      using slab_alloc_cut [OF fh, of a g h] True r by (simp add: Let_def)
    obtain s2 h2 where r2: "cut (s1, h1) = (s2, h2)" by fastforce
    have cut: "alloc_ok (s1, h1) [] (bump s1) (s2, h2) []" using cut_ok(1) [OF g'(1-4)] by (simp add: r2)
    have le: "unat (gen_word h1 b) \<le> unat (gen_word h b)" for b using gens [of b] by auto
    have "alloc_ok (s, h) fl (bump s1) (s2, h2) []"
    proof -
      have c: "slab_ok (s2, h2) []" "is_slot s2 (bump s1)" "\<not> is_fresh s2 (bump s1)"
        "odd (unat (gen_word h2 (bump s1 + 16)))"
        and s: "\<And>y. is_slot s1 y \<Longrightarrow> is_slot s2 y \<and> (is_fresh s2 y \<longrightarrow> is_fresh s1 y)"
        and w: "\<And>y. is_slot s1 y \<Longrightarrow> y \<noteq> bump s1 \<Longrightarrow> gen_word h2 (y + 16) = gen_word h1 (y + 16)"
        and u: "\<And>y. unat (gen_word h2 (y + 16)) \<le> unat (gen_word h1 (y + 16)) + 1"
        using cut unfolding alloc_ok_def prod.case by blast+
      have "gen_word h2 (y + 16) = gen_word h (y + 16)" if "is_slot s y" "y \<noteq> bump s1" for y
        using w [of y] old [OF that(1)] that by simp
      moreover have "is_slot s2 y \<and> \<not> is_fresh s2 y" if "is_slot s y" for y
        using s [of y] old [OF that] by blast
      moreover have "unat (gen_word h2 (y + 16)) \<le> unat (gen_word h (y + 16)) + 1" for y
        using u [of y] le [of "y + 16"] by linarith
      ultimately show ?thesis using c g'(5) by (simp add: alloc_ok_def fl)
    qed
    with run r2 that show ?thesis by metis
  qed
qed

subsection \<open>Release\<close>

text \<open>
  What a release promises: the slot is dead and free, or its whole chunk was emptied and taken out of
  the list for good.
\<close>

definition release_ok :: "gen_slab \<times> slab_heap \<Rightarrow> nat list \<Rightarrow> nat \<Rightarrow> gen_slab \<times> slab_heap \<Rightarrow> nat list \<Rightarrow> bool" where
  "release_ok = (\<lambda>(s, h) fl x (s', h') fl'.
     slab_ok (s', h') fl' \<and>
     (\<forall>y. (is_slot s' y \<longleftrightarrow> is_slot s y) \<and> (is_fresh s' y \<longleftrightarrow> is_fresh s y)) \<and>
     (\<forall>y. is_slot s y \<longrightarrow>
        gen_word h' (y + 16) = (if y = x then gen_word h (x + 16) + 1 else gen_word h (y + 16)) \<and>
          (y \<in> set fl' \<longleftrightarrow> y = x \<or> y \<in> set fl) \<or>
        even (unat (gen_word h' (y + 16))) \<and> y \<notin> set fl' \<and>
          (y = x \<or> even (unat (gen_word h (y + 16))))) \<and>
     (\<forall>b. unat (gen_word h' b) \<le> unat (gen_word h b) + 1))"

lemma full_chunk:
  assumes geo: "geometry (s, h)" and c: "c \<in> set (chunk_table h)" and d: "distinct fl" "\<forall>x\<in>set fl. is_slot s x"
    and n: "length (filter (\<lambda>a. ch_start c \<le> a \<and> a < ch_end c) fl) = (ch_end c - ch_start c) div slot_bytes s"
    and y: "is_slot s y" "ch_start c \<le> y" "y < ch_end c"
  shows "y \<in> set fl"
proof -
  let ?sb = "slot_bytes s" and ?a = "ch_start c" and ?n = "ch_end c - ch_start c"
  let ?S = "(\<lambda>k. ?a + k * ?sb) ` {..<?n div ?sb}" and ?F = "filter (\<lambda>a. ?a \<le> a \<and> a < ch_end c) fl"
  have sb: "0 < ?sb" using geometry_basic(1) [OF geo] by simp
  have ch: "(?a, ?n) \<in> set (chunks s)" "?a < ch_end c" using geometry_span [OF geo c] by auto
  have in_S: "x \<in> ?S" if x: "is_slot s x" "?a \<le> x" "x < ch_end c" for x
  proof -
    obtain b m where bm: "(b, m) \<in> set (chunks s)" "b \<le> x" "x + ?sb \<le> b + m" "?sb dvd x - b"
      using slot_in_chunk [OF geo x(1)] by metis
    have "b = ?a" "m = ?n" using same_chunk [OF geo bm(1) ch(1), of x] bm x sb ch(2) by auto
    with bm obtain k where k: "x - ?a = k * ?sb" by (metis dvd_div_mult_self)
    then have "k * ?sb + ?sb \<le> ?n" using bm \<open>b = ?a\<close> \<open>m = ?n\<close> by auto
    then have "(k + 1) * ?sb div ?sb \<le> ?n div ?sb" by (intro div_le_mono) simp
    then have "k < ?n div ?sb" using sb by simp
    moreover have "x = ?a + k * ?sb" using k x(2) by simp
    ultimately show ?thesis by blast
  qed
  have "set ?F = ?S"
  proof (rule card_seteq)
    show "set ?F \<subseteq> ?S" using d(2) in_S by auto
    have "card ?S \<le> card {..<?n div ?sb}" by (intro card_image_le) simp
    then show "card ?S \<le> card (set ?F)" using n d(1) by (simp add: distinct_card del: set_filter)
  qed simp
  moreover have "y \<in> ?S" using in_S y by blast
  ultimately show ?thesis by auto
qed

lemma reclaim_pages_words:
  assumes "h' = reclaim_pages page start len h"
  shows "gen_word h' b = gen_word h b \<or> gen_word h' b = 0 \<and> start \<le> b - 8 \<and> b - 8 < start + len"
    "link_word h' b = link_word h b \<or> start \<le> b \<and> b < start + len"
    "chunk_table h' = chunk_table h" "span_min h' = span_min h" "span_max h' = span_max h" "last_chunks h' = last_chunks h"
    "live_count h' = live_count h"
proof -
  have lo: "start \<le> (start + page - 1) div page * page" if "0 < page"
  proof -
    have "(start + page - 1) mod page < page" using that by simp
    moreover have "(start + page - 1) div page * page + (start + page - 1) mod page = start + page - 1" by simp
    ultimately show ?thesis using that by linarith
  qed
  define fin where "fin = (start + len) div page * page"
  have hi: "fin \<le> start + len" by (simp add: fin_def)
  show "gen_word h' b = gen_word h b \<or> gen_word h' b = 0 \<and> start \<le> b - 8 \<and> b - 8 < start + len"
    "link_word h' b = link_word h b \<or> start \<le> b \<and> b < start + len"
    using lo hi by (auto simp: assms reclaim_pages_def Let_def fin_def [symmetric] split: if_splits)
  show "chunk_table h' = chunk_table h" "span_min h' = span_min h" "span_max h' = span_max h" "last_chunks h' = last_chunks h"
    "live_count h' = live_count h"
    by (simp_all add: assms reclaim_pages_def Let_def)
qed

definition reclaim_ok :: "gen_slab \<times> slab_heap \<Rightarrow> nat list \<Rightarrow> gen_slab \<times> slab_heap \<Rightarrow> nat list \<Rightarrow> bool" where
  "reclaim_ok = (\<lambda>(s, h) fl (s', h') fl'.
     slab_ok (s', h') fl' \<and> set fl' \<subseteq> set fl \<and>
     (\<forall>y. (is_slot s' y \<longleftrightarrow> is_slot s y) \<and> (is_fresh s' y \<longleftrightarrow> is_fresh s y)) \<and>
     (\<forall>y. is_slot s y \<longrightarrow>
        gen_word h' (y + 16) = gen_word h (y + 16) \<and> (y \<in> set fl' \<longleftrightarrow> y \<in> set fl) \<or>
        even (unat (gen_word h' (y + 16))) \<and> y \<notin> set fl' \<and> y \<in> set fl) \<and>
     (\<forall>b. gen_word h' b = gen_word h b \<or> gen_word h' b = 0))"

lemma reclaim_keep: "slab_ok (s, h) fl \<Longrightarrow> reclaim_ok (s, h) fl (s, h) fl"
  by (simp add: reclaim_ok_def)

lemma reclaim_full:
  assumes ok: "slab_ok (s, h) fl" and c: "c \<in> set (chunk_table h)"
    and n: "length (filter (\<lambda>a. ch_start c \<le> a \<and> a < ch_end c) fl) = (ch_end c - ch_start c) div ch_slot_bytes c"
  shows "\<exists>r fl'. map_option (\<lambda>(s, h). (s, reclaim_pages page (ch_start c) (ch_end c - ch_start c) h))
      (unlink_chunk_slots (ch_start c) (ch_end c) (s, h)) = Some r \<and> reclaim_ok (s, h) fl r fl'"
proof -
  let ?in = "\<lambda>a. ch_start c \<le> a \<and> a < ch_end c"
  define fl' where "fl' = filter (\<lambda>a. \<not> ?in a) fl"
  have geo: "geometry (s, h)" and free: "free_ok (s, h) fl" using ok by (auto simp: slab_ok_def)
  have seg: "seg (link_word h) (free_head s) fl 0" and d: "distinct fl"
    and each: "\<And>x. x \<in> set fl \<Longrightarrow> is_slot s x \<and> even (unat (gen_word h (x + 16))) \<and> \<not> is_fresh s x"
    and zero: "\<And>x. is_fresh s x \<Longrightarrow> gen_word h (x + 16) = 0"
    using free by (auto simp: free_ok_def)
  obtain fh lk where u: "unlink_loop (ch_start c) (ch_end c) None (free_head s) (free_head s) (link_word h) = Some (fh, lk)"
    and fh: "seg lk fh fl' 0"
    using unlink_loop_seg [of "link_word h" "free_head s" "[]" fl "free_head s" None "ch_start c" "ch_end c"] seg d
    by (cases fl) (auto simp: fl'_def)
  define s' where "s' = s\<lparr>free_head := fh\<rparr>"
  define h' where "h' = reclaim_pages page (ch_start c) (ch_end c - ch_start c) (h\<lparr>link_word := lk\<rparr>)"
  note w = reclaim_pages_words [OF h'_def]
  have len: "ch_start c + (ch_end c - ch_start c) = ch_end c" using geometry_span(3) [OF geo c] by simp
  have slots: "is_slot s' y \<longleftrightarrow> is_slot s y" "is_fresh s' y \<longleftrightarrow> is_fresh s y" for y
    by (simp_all add: s'_def is_slot_def is_fresh_def)
  have geo': "geometry (s', h')"
    using geo w by (intro geometry_cong [OF geo] table_inv_cong [OF geometry_basic(3) [OF geo]]
        cache_inv_cong [OF geometry_basic(4) [OF geo]]) (auto simp: s'_def)
  have outside: "\<not> ?in (y + 8) \<and> \<not> ?in (y + 16)" if y: "is_slot s y" "\<not> ?in y" for y
  proof -
    obtain b m where bm: "(b, m) \<in> set (chunks s)" "b \<le> y" "y + 24 \<le> b + m" using slot_in_chunk [OF geo y(1)] by metis
    have ch: "(ch_start c, ch_end c - ch_start c) \<in> set (chunks s)" using geometry_span(2) [OF geo c] .
    have "\<not> ?in z" if "b \<le> z" "z < b + m" for z
      using same_chunk [OF geo bm(1) ch that] y(2) bm len by auto
    from this [of "y + 8"] this [of "y + 16"] bm show ?thesis by simp
  qed
  have gens: "gen_word h' (y + 16) = gen_word h (y + 16)" if "is_slot s y" "\<not> ?in y" for y
    using w(1) [of "y + 16"] outside [OF that] len by auto
  have gens_le: "gen_word h' b = gen_word h b \<or> gen_word h' b = 0" for b using w(1) [of b] by auto
  have "\<forall>x\<in>set fl'. link_word h' (x + 16) = lk (x + 16)"
  proof
    fix x assume "x \<in> set fl'"
    then have "is_slot s x" "\<not> ?in x" using each by (auto simp: fl'_def)
    then show "link_word h' (x + 16) = lk (x + 16)" using w(2) [of "x + 16"] outside len by auto
  qed
  then have "seg (link_word h') (free_head s') fl' 0" using fh by (subst seg_unchanged) (auto simp: s'_def)
  moreover have "is_slot s' x \<and> even (unat (gen_word h' (x + 16))) \<and> \<not> is_fresh s' x" if "x \<in> set fl'" for x
  proof -
    have x: "x \<in> set fl" "\<not> ?in x" using that by (auto simp: fl'_def)
    then show ?thesis using each [OF x(1)] gens [of x] slots by metis
  qed
  moreover have "gen_word h' (x + 16) = 0" if "is_fresh s' x" for x
    using gens_le [of "x + 16"] zero [of x] slots that by metis
  moreover have "distinct fl'" using d by (simp add: fl'_def)
  ultimately have "free_ok (s', h') fl'" unfolding free_ok_def prod.case by blast
  moreover have "even (unat (gen_word h' (y + 16))) \<and> y \<notin> set fl' \<and> y \<in> set fl" if y: "is_slot s y" "?in y" for y
  proof -
    have "\<forall>x\<in>set fl. is_slot s x" using each by blast
    then have "y \<in> set fl" using full_chunk [OF geo c d _ _ y(1)] n y(2) geometry_span(1) [OF geo c] by simp
    with each y(2) gens_le [of "y + 16"] show ?thesis by (auto simp: fl'_def)
  qed
  ultimately have "reclaim_ok (s, h) fl (s', h') fl'"
    using geo' gens gens_le slots unfolding reclaim_ok_def prod.case slab_ok_def by (auto simp: fl'_def)
  moreover have "map_option (\<lambda>(s, h). (s, reclaim_pages page (ch_start c) (ch_end c - ch_start c) h))
      (unlink_chunk_slots (ch_start c) (ch_end c) (s, h)) = Some (s', h')"
    by (simp add: unlink_chunk_slots_def u s'_def h'_def)
  ultimately show ?thesis by blast
qed

lemma reclaim_if_empty_ok:
  assumes ok: "slab_ok (s, h) fl" and c: "c \<in> set (chunk_table h)"
  shows "\<exists>r fl'. reclaim_if_empty page c (s, h) = Some r \<and> reclaim_ok (s, h) fl r fl'"
proof -
  have "seg (link_word h) (free_head s) fl 0" using ok by (simp add: slab_ok_def free_ok_def)
  then have "count_chunk_slots (ch_start c) (ch_end c) s h = Some (length (filter (\<lambda>a. ch_start c \<le> a \<and> a < ch_end c) fl))"
    by (simp add: count_chunk_slots_def free_slots_seg)
  with reclaim_full [OF assms] reclaim_keep [OF ok] show ?thesis
    unfolding reclaim_if_empty_def prod.case by simp blast
qed

lemma slab_ok_but_cache:
  assumes "slab_ok (s, h) fl" "same_but_cache h h'" "cache_inv h'"
  shows "slab_ok (s, h'\<lparr>live_count := n\<rparr>) fl"
proof -
  note e = same_but_cacheD [OF assms(2)]
  have geo: "geometry (s, h)" and free: "free_ok (s, h) fl" using assms(1) by (auto simp: slab_ok_def)
  have "geometry (s, h'\<lparr>live_count := n\<rparr>)"
    using e assms(3) by (intro geometry_cong [OF geo] table_inv_cong [OF geometry_basic(3) [OF geo]]
        cache_inv_cong [OF assms(3)]) auto
  with free e show ?thesis by (simp add: slab_ok_def free_ok_def)
qed

text \<open>The slot is put at the head of the list before its chunk is looked at.\<close>

lemma put_ok:
  assumes ok: "slab_ok (s, h) fl" and x: "is_slot s x" and odd: "odd (unat (gen_word h (x + 16)))"
  shows "slab_ok (s\<lparr>free_head := x\<rparr>, h\<lparr>gen_word := (gen_word h)(x + 16 := gen_word h (x + 16) + 1),
     link_word := (link_word h)(x + 16 := free_head s)\<rparr>) (x # fl)" (is "slab_ok (?s, ?h) _")
proof -
  have geo: "geometry (s, h)" and free: "free_ok (s, h) fl" using ok by (auto simp: slab_ok_def)
  have nin: "x \<notin> set fl" and nf: "\<not> is_fresh s x" using free odd by (auto simp: free_ok_def)
  have "geometry (?s, ?h)"
    by (intro geometry_cong [OF geo] table_inv_cong [OF geometry_basic(3) [OF geo]]
        cache_inv_cong [OF geometry_basic(4) [OF geo]]) auto
  moreover have slots: "is_slot ?s y \<longleftrightarrow> is_slot s y" "is_fresh ?s y \<longleftrightarrow> is_fresh s y" for y
    by (simp_all add: is_slot_def is_fresh_def)
  moreover have "seg (link_word ?h) x (x # fl) 0"
  proof -
    have "seg ((link_word h)(x + 16 := free_head s)) (free_head s) fl 0"
      using free nin by (subst seg_unchanged) (auto simp: free_ok_def)
    with slot_nonzero [OF geo x] show ?thesis by simp
  qed
  ultimately show ?thesis
    using free nin nf x odd unfolding slab_ok_def free_ok_def prod.case by simp
qed

lemma slab_free_ok:
  assumes ok: "slab_ok (s, h) fl" and x: "is_slot s x" and odd: "odd (unat (gen_word h (x + 16)))"
  obtains r fl' where "slab_free page (x + 16) (s, h) = Some (True, r)" "release_ok (s, h) fl x r fl'"
proof -
  define s1 where "s1 = s\<lparr>free_head := x\<rparr>"
  define h1 where "h1 = h\<lparr>gen_word := (gen_word h)(x + 16 := gen_word h (x + 16) + 1),
     link_word := (link_word h)(x + 16 := free_head s)\<rparr>"
  have ok1: "slab_ok (s1, h1) (x # fl)" using put_ok [OF assms] by (simp add: s1_def h1_def)
  then have geo1: "geometry (s1, h1)" by (simp add: slab_ok_def)
  have slots: "is_slot s1 y \<longleftrightarrow> is_slot s y" "is_fresh s1 y \<longleftrightarrow> is_fresh s y" for y
    by (simp_all add: s1_def is_slot_def is_fresh_def)
  obtain c h2 where f: "find_chunk_for_addr (x + 16) h1 = (Some c, h2)" "same_but_cache h1 h2" "cache_inv h2"
    "c \<in> set (chunk_table h1)"
    using find_slot_chunk [OF geo1, of x] x slots by metis
  define h3 where "h3 = h2\<lparr>live_count := (live_count h2)(ch_start c := live_count h2 (ch_start c) - 1)\<rparr>"
  have ok3: "slab_ok (s1, h3) (x # fl)" using slab_ok_but_cache [OF ok1 f(2,3)] by (simp add: h3_def)
  have c3: "c \<in> set (chunk_table h3)" using f(4) same_but_cacheD [OF f(2)] by (simp add: h3_def)
  have g3: "gen_word h3 = (gen_word h)(x + 16 := gen_word h (x + 16) + 1)"
    using same_but_cacheD [OF f(2)] by (simp add: h3_def h1_def)
  have run: "slab_free page (x + 16) (s, h) =
      (if live_count h2 (ch_start c) = 1 then map_option (\<lambda>r. (True, r)) (reclaim_if_empty page c (s1, h3))
       else Some (True, s1, h3))"
    using odd f(1) by (simp add: slab_free_def Let_def h3_def s1_def h1_def)
  have "\<exists>r fl'. slab_free page (x + 16) (s, h) = Some (True, r) \<and> reclaim_ok (s1, h3) (x # fl) r fl'"
    using reclaim_if_empty_ok [OF ok3 c3, of page] reclaim_keep [OF ok3] unfolding run by auto
  then obtain s' h' fl' where r: "slab_free page (x + 16) (s, h) = Some (True, s', h')"
    and k: "reclaim_ok (s1, h3) (x # fl) (s', h') fl'" by (metis surj_pair)
  have k1: "slab_ok (s', h') fl'" "\<And>y. (is_slot s' y \<longleftrightarrow> is_slot s1 y) \<and> (is_fresh s' y \<longleftrightarrow> is_fresh s1 y)"
    and k2: "\<And>y. is_slot s1 y \<Longrightarrow> gen_word h' (y + 16) = gen_word h3 (y + 16) \<and> (y \<in> set fl' \<longleftrightarrow> y \<in> set (x # fl)) \<or>
        even (unat (gen_word h' (y + 16))) \<and> y \<notin> set fl' \<and> y \<in> set (x # fl)"
    and k3: "\<And>b. gen_word h' b = gen_word h3 b \<or> gen_word h' b = 0"
    using k unfolding reclaim_ok_def prod.case by blast+
  have ev: "\<And>y. y \<in> set fl \<Longrightarrow> even (unat (gen_word h (y + 16)))" using ok by (simp add: slab_ok_def free_ok_def)
  have "unat (gen_word h' b) \<le> unat (gen_word h b) + 1" for b
    using k3 [of b] unat_gen_succ_le [of "gen_word h (x + 16)"] by (auto simp: g3)
  moreover have "gen_word h' (y + 16) = (if y = x then gen_word h (x + 16) + 1 else gen_word h (y + 16)) \<and>
          (y \<in> set fl' \<longleftrightarrow> y = x \<or> y \<in> set fl) \<or>
        even (unat (gen_word h' (y + 16))) \<and> y \<notin> set fl' \<and>
          (y = x \<or> even (unat (gen_word h (y + 16))))" if "is_slot s y" for y
    using k2 [of y] that ev [of y] slots by (auto simp: g3)
  ultimately have "release_ok (s, h) fl x (s', h') fl'"
    using k1 slots unfolding release_ok_def prod.case by simp
  with r that show ?thesis by blast
qed

lemma slab_free_dead:
  "even (unat (gen_word h body)) \<Longrightarrow> slab_free page body (s, h) = Some (False, s, h)"
  by (simp add: slab_free_def)

end
