(* ===== verification/SlabRun.thy ===== *)
theory SlabRun
  imports SlabProps
begin

text \<open>
  A slab in use: the steps a program can make with it (allocate, release, write to a live body) and
  what holds after any number of them. A handle captured while a slot was live is never valid again
  once the slot was released, live slots are never handed out twice, a second release does nothing,
  and the classifier recognises exactly the bodies of live slots.
\<close>

definition live_slot :: "gen_slab \<times> slab_heap \<Rightarrow> nat \<Rightarrow> bool" where
  "live_slot = (\<lambda>(s, h) x. is_slot s x \<and> odd (unat (gen_word h (x + 16))))"

text \<open>A write to the first word of a live body is the one that can touch what the list uses.\<close>

inductive slab_step :: "nat \<Rightarrow> gen_slab \<times> slab_heap \<Rightarrow> gen_slab \<times> slab_heap \<Rightarrow> bool" for page where
  alloc: "room_or_region r a \<Longrightarrow> slab_step page r (snd (slab_alloc a g r))"
| free: "is_slot (fst r) x \<Longrightarrow> slab_free page (x + 16) r = Some (b, r') \<Longrightarrow> slab_step page r r'"
| poke: "live_slot (s, h) x \<Longrightarrow>
    slab_step page (s, h) (s, h\<lparr>link_word := (link_word h)(x + 16 := w)\<rparr>)"

inductive slab_runs :: "nat \<Rightarrow> nat \<Rightarrow> gen_slab \<times> slab_heap \<Rightarrow> gen_slab \<times> slab_heap \<Rightarrow> bool" for page where
  none: "slab_runs page 0 r r"
| more: "slab_runs page n r r' \<Longrightarrow> slab_step page r' r'' \<Longrightarrow> slab_runs page (Suc n) r r''"

text \<open>An invariant that may depend on how many steps were made.\<close>

locale counted_inv =
  fixes step :: "'s \<Rightarrow> 's \<Rightarrow> bool" and runs :: "nat \<Rightarrow> 's \<Rightarrow> 's \<Rightarrow> bool" and inv :: "nat \<Rightarrow> 's \<Rightarrow> bool"
  assumes runs_less: "runs n r r' \<Longrightarrow> n = 0 \<and> r' = r \<or> (\<exists>m r''. n = Suc m \<and> runs m r r'' \<and> step r'' r')"
    and keeps: "inv k r \<Longrightarrow> step r r' \<Longrightarrow> inv (Suc k) r'"
begin

lemma after_runs: "runs n r r' \<Longrightarrow> inv k r \<Longrightarrow> inv (k + n) r'"
proof (induction n arbitrary: r')
  case 0
  then show ?case using runs_less [of 0 r r'] by auto
next
  case (Suc n)
  then obtain r'' where "runs n r r''" "step r'' r'" using runs_less [of "Suc n" r r'] by auto
  with Suc keeps [of "k + n" r'' r'] show ?case by simp
qed

end

lemma slab_runs_less:
  "slab_runs page n r r' \<Longrightarrow>
     n = 0 \<and> r' = r \<or> (\<exists>m r''. n = Suc m \<and> slab_runs page m r r'' \<and> slab_step page r'' r')"
  by (cases rule: slab_runs.cases) auto

text \<open>What a step does to a good slab, whichever it is.\<close>

lemma step_cases:
  assumes "slab_step page (s, h) r'" "slab_ok (s, h) fl"
  obtains
    (alloc) x fl' where "alloc_ok (s, h) fl x r' fl'"
  | (free) x fl' where "live_slot (s, h) x" "release_ok (s, h) fl x r' fl'"
  | (skip) "r' = (s, h)"
  | (poke) x w where "live_slot (s, h) x" "r' = (s, h\<lparr>link_word := (link_word h)(x + 16 := w)\<rparr>)"
  using assms(1)
proof (cases rule: slab_step.cases)
  case (alloc a g)
  then show ?thesis using slab_alloc_ok [OF assms(2), of a g] that(1) by (metis snd_conv)
next
  case (free x b)
  show ?thesis
  proof (cases "odd (unat (gen_word h (x + 16)))")
    case True
    moreover have x: "is_slot s x" using free(1) by simp
    ultimately obtain r fl' where "slab_free page (x + 16) (s, h) = Some (True, r)" "release_ok (s, h) fl x r fl'"
      using slab_free_ok [OF assms(2) x] by metis
    then show ?thesis using True x free(2) that(2) by (simp add: live_slot_def)
  next
    case False
    then show ?thesis using free slab_free_dead [of h "x + 16" page s] that(3) by auto
  qed
qed (use that(4) in auto)

lemma poke_ok:
  assumes "slab_ok (s, h) fl" "live_slot (s, h) x"
  shows "slab_ok (s, h\<lparr>link_word := (link_word h)(x + 16 := w)\<rparr>) fl"
proof -
  have geo: "geometry (s, h)" and free: "free_ok (s, h) fl" using assms(1) by (auto simp: slab_ok_def)
  have "x \<notin> set fl" using free assms(2) by (auto simp: free_ok_def live_slot_def)
  then have "seg ((link_word h)(x + 16 := w)) (free_head s) fl 0"
    using free by (subst seg_unchanged) (auto simp: free_ok_def)
  moreover have "geometry (s, h\<lparr>link_word := (link_word h)(x + 16 := w)\<rparr>)"
    by (intro geometry_cong [OF geo] table_inv_cong [OF geometry_basic(3) [OF geo]]
        cache_inv_cong [OF geometry_basic(4) [OF geo]]) auto
  ultimately show ?thesis using free by (simp add: slab_ok_def free_ok_def)
qed

definition good :: "nat \<Rightarrow> gen_slab \<times> slab_heap \<Rightarrow> bool" where
  "good k r \<longleftrightarrow> (\<exists>fl. slab_ok r fl) \<and> (\<forall>y. unat (gen_word (snd r) (y + 16)) \<le> k)"

lemma good_step:
  assumes "good k r" "slab_step page r r'"
  shows "good (Suc k) r'"
proof -
  obtain s h where r: "r = (s, h)" by fastforce
  obtain s' h' where r': "r' = (s', h')" by fastforce
  obtain fl where fl: "slab_ok (s, h) fl" and le: "\<And>y. unat (gen_word h (y + 16)) \<le> k"
    using assms(1) by (auto simp: good_def r)
  have "\<exists>fl'. slab_ok (s', h') fl' \<and> (\<forall>y. unat (gen_word h' (y + 16)) \<le> unat (gen_word h (y + 16)) + 1)"
    using assms(2) [unfolded r r'] fl
  proof (cases rule: step_cases)
    case (alloc x fl')
    then show ?thesis unfolding alloc_ok_def prod.case by blast
  next
    case (free x fl')
    then show ?thesis unfolding release_ok_def prod.case by blast
  next
    case skip
    then show ?thesis using fl by auto
  next
    case (poke x w)
    then show ?thesis using poke_ok [OF fl] by auto
  qed
  then show ?thesis using le by (fastforce simp: good_def r' intro: order_trans)
qed

interpretation reach: counted_inv "slab_step page" "slab_runs page" good for page
  by unfold_locales (rule slab_runs_less, simp, erule (1) good_step)

text \<open>
  A slot after the release that ended generation \<open>g\<close>: its generation is past \<open>g\<close>, or its chunk was
  emptied and the slot is out of use for good.
\<close>

definition released :: "nat \<Rightarrow> nat \<Rightarrow> nat \<Rightarrow> gen_slab \<times> slab_heap \<Rightarrow> bool" where
  "released x g k r \<longleftrightarrow>
     (\<exists>fl. slab_ok r fl \<and> is_slot (fst r) x \<and>
        (g < unat (gen_word (snd r) (x + 16)) \<and> unat (gen_word (snd r) (x + 16)) \<le> g + k \<or> 2 ^ 64 \<le> g + k \<or>
         even (unat (gen_word (snd r) (x + 16))) \<and> x \<notin> set fl \<and> \<not> is_fresh (fst r) x))"

lemma unat_u64: "unat (w :: u64) < 2 ^ 64"
  using unsigned_less [of w, where 'a = nat] by simp

lemma gen_grows:
  assumes "g < unat (w :: u64) \<and> unat w \<le> g + k \<or> 2 ^ 64 \<le> g + k"
  shows "g < unat (w + 1) \<and> unat (w + 1) \<le> g + Suc k \<or> 2 ^ 64 \<le> g + Suc k"
proof (cases "unat w < 2 ^ 64 - 1")
  case True
  then show ?thesis using assms unat_gen_succ [of w] by auto
next
  case False
  then show ?thesis using assms unat_u64 [of w] by auto
qed

lemma released_step:
  assumes "released x g k r" "slab_step page r r'"
  shows "released x g (Suc k) r'"
proof -
  obtain s h where r: "r = (s, h)" by fastforce
  obtain s' h' where r': "r' = (s', h')" by fastforce
  let ?w = "gen_word h (x + 16)" and ?w' = "gen_word h' (x + 16)"
  obtain fl where fl: "slab_ok (s, h) fl" "is_slot s x"
    and st: "(g < unat ?w \<and> unat ?w \<le> g + k \<or> 2 ^ 64 \<le> g + k) \<or>
        even (unat ?w) \<and> x \<notin> set fl \<and> \<not> is_fresh s x"
    using assms(1) unfolding released_def r fst_conv snd_conv by blast
  note up = gen_grows [of g ?w k]
  have same: "released x g (Suc k) (s', h')"
    if "slab_ok (s', h') fl'" "is_slot s' x" "?w' = ?w" "x \<in> set fl' \<Longrightarrow> x \<in> set fl"
      "is_fresh s' x \<Longrightarrow> is_fresh s x" for fl'
    using that st unfolding released_def fst_conv snd_conv by (intro exI [of _ fl']) auto
  have grown: "released x g (Suc k) (s', h')"
    if "slab_ok (s', h') fl'" "is_slot s' x" "?w' = ?w + 1"
      "g < unat ?w \<and> unat ?w \<le> g + k \<or> 2 ^ 64 \<le> g + k" for fl'
    using that up unfolding released_def fst_conv snd_conv by (intro exI [of _ fl']) auto
  from assms(2) [unfolded r r'] fl(1) show ?thesis
  proof (cases rule: step_cases)
    case (alloc y fl')
    have a: "slab_ok (s', h') fl'" "is_slot s' x" "is_fresh s' x \<Longrightarrow> is_fresh s x" "set fl' \<subseteq> set fl"
      "x \<noteq> y \<Longrightarrow> ?w' = ?w" "x = y \<Longrightarrow> ?w' = ?w + 1 \<and> (x \<in> set fl \<or> is_fresh s x)"
      using alloc fl(2) unfolding alloc_ok_def prod.case by blast+
    show ?thesis
    proof (cases "x = y")
      case True
      with a(6) st show ?thesis unfolding r' by (intro grown [OF a(1,2)]) auto
    next
      case False
      with a show ?thesis unfolding r' by (intro same [OF a(1,2)]) auto
    qed
  next
    case (free y fl')
    have f: "slab_ok (s', h') fl'" "is_slot s' x" "is_fresh s' x \<Longrightarrow> is_fresh s x"
      using free(2) fl(2) unfolding release_ok_def prod.case by blast+
    have w: "?w' = (if x = y then gen_word h (y + 16) + 1 else ?w) \<and> (x \<in> set fl' \<longleftrightarrow> x = y \<or> x \<in> set fl) \<or>
         even (unat ?w') \<and> x \<notin> set fl' \<and> (x = y \<or> even (unat ?w))"
      using free(2) fl(2) unfolding release_ok_def prod.case by blast
    have nf: "?w = 0" if "is_fresh s x"
      using that fl(1) by (auto simp: slab_ok_def free_ok_def)
    have ody: "odd (unat ?w)" if "x = y" using free(1) that by (simp add: live_slot_def)
    from w show ?thesis
    proof (elim disjE conjE)
      assume e: "?w' = (if x = y then gen_word h (y + 16) + 1 else ?w)" "x \<in> set fl' \<longleftrightarrow> x = y \<or> x \<in> set fl"
      show ?thesis
      proof (cases "x = y")
        case True
        with e st ody show ?thesis unfolding r' by (intro grown [OF f(1,2)]) auto
      next
        case False
        with e f show ?thesis unfolding r' by (intro same [OF f(1,2)]) auto
      qed
    qed (use f fl st nf ody in \<open>unfold r' released_def fst_conv snd_conv, intro exI [of _ fl'], auto\<close>)
  next
    case skip
    with fl show ?thesis unfolding r' by (intro same [OF _ _]) auto
  next
    case (poke y w)
    with poke_ok [OF fl(1)] fl show ?thesis unfolding r' by (intro same [of fl]) auto
  qed
qed

interpretation stale: counted_inv "slab_step page" "slab_runs page" "released x g" for page x g
  by unfold_locales (rule slab_runs_less, simp, erule (1) released_step)

subsection \<open>The start and the classification of words\<close>

lemma start_good: "0 < b \<Longrightarrow> good 0 (slab_new b, heap_start)"
  by (auto simp: good_def slab_ok_def geometry_def free_ok_def slab_new_def heap_start_def table_inv_def table_sorted_def
      cache_inv_def cached_spans_def is_slot_def is_fresh_def intro!: exI [of _ "[]"])

lemma reachable_good: "0 < b \<Longrightarrow> slab_runs page n (slab_new b, heap_start) r \<Longrightarrow> good n r"
  using reach.after_runs [OF _ start_good] by fastforce

lemma sint_nat: assumes "unat (v :: i64) < 2 ^ 63" shows "sint v = int (unat v)"
proof -
  have u: "uint v = int (unat v)" by (rule uint_nat)
  have "int (unat v) < int (2 ^ 63)" using assms by (simp only: of_nat_less_iff)
  then have "uint v < 2 ^ 63" "0 \<le> uint v" unfolding u [symmetric] by (simp_all only: of_nat_power of_nat_numeral uint_ge_0)
  moreover have "- (2 ^ 63) \<le> uint v" by (rule order.trans [of _ 0]) simp_all
  ultimately have "signed_take_bit 63 (uint v) = uint v" by (intro signed_take_bit_int_eq_self)
  moreover have "sint v = signed_take_bit 63 (uint v)" by (simp add: sint_uint)
  ultimately show ?thesis using u by metis
qed
text \<open>A word passes the checks when it is the body address of a slot, live or not.\<close>

lemma valid_slot_iff:
  assumes geo: "geometry (s, h)"
  shows "(\<exists>c. fst (chunk_for_valid_slot v h) = Some c) \<longleftrightarrow> (\<exists>x. unat v = x + 16 \<and> is_slot s x)"
    and "gen_word (snd (chunk_for_valid_slot v h)) = gen_word h"
proof -
  have inv: "table_inv h" "cache_inv h" using geometry_basic [OF geo] by auto
  obtain c' h' where f: "find_chunk_for_addr (unat v) h = (c', h')" by fastforce
  have c': "c' = Some c \<longleftrightarrow> c \<in> set (chunk_table h) \<and> holds (unat v) c" for c
    using find_chunk_spec(1) [OF inv, of "unat v" c] f by simp
  have "gen_word h' = gen_word h" using find_chunk_spec(2) [OF inv, of "unat v"] f same_but_cacheD by auto
  then show "gen_word (snd (chunk_for_valid_slot v h)) = gen_word h"
    by (auto simp: chunk_for_valid_slot_def f split: option.splits)
  have pos: "0 < sint v" if "0 < unat v" "unat v < 2 ^ 63" using that sint_nat [of v] by (metis of_nat_0_less_iff)
  have aligned: "v AND 7 = 0 \<longleftrightarrow> 8 dvd unat v"
  proof -
    have "v AND 7 = 0 \<longleftrightarrow> take_bit 3 v = 0" by (simp add: take_bit_eq_mask mask_eq_exp_minus_1)
    also have "\<dots> \<longleftrightarrow> take_bit 3 (unat v) = 0"
      by (metis unsigned_0 unsigned_take_bit_eq word_unat_eq_iff)
    finally show ?thesis by (simp add: take_bit_eq_mod dvd_eq_mod_eq_0)
  qed
  show "(\<exists>c. fst (chunk_for_valid_slot v h) = Some c) \<longleftrightarrow> (\<exists>x. unat v = x + 16 \<and> is_slot s x)"
  proof
    assume "\<exists>c. fst (chunk_for_valid_slot v h) = Some c"
    then obtain c where c: "c' = Some c" and m: "(unat v - ch_start c) mod ch_slot_bytes c = 16"
      by (auto simp: chunk_for_valid_slot_def f split: if_splits option.splits)
    have t: "c \<in> set (chunk_table h)" "ch_start c \<le> unat v" "unat v < ch_end c"
      using c' [of c] c by (auto simp: holds_def)
    note span = geometry_span [OF geo t(1)] and sb = geometry_basic(1) [OF geo]
    define d where "d = unat v - ch_start c"
    define k where "k = d div slot_bytes s"
    have d: "d = k * slot_bytes s + 16" using m span(1) div_mult_mod_eq [of d "slot_bytes s"] by (simp add: d_def k_def)
    let ?x = "ch_start c + k * slot_bytes s"
    have v: "unat v = ?x + 16" using d t by (simp add: d_def)
    have "slot_bytes s dvd ch_end c - ch_start c" using geometry_chunk(3) [OF geo span(2)] .
    then obtain m where m: "ch_end c - ch_start c = m * slot_bytes s" by (metis dvd_div_mult_self)
    have "k * slot_bytes s < m * slot_bytes s" using m v t span(3) by linarith
    then have "(k + 1) * slot_bytes s \<le> m * slot_bytes s" by (intro mult_le_mono1) simp
    then have "?x + slot_bytes s \<le> ch_start c + (ch_end c - ch_start c)" using m by simp
    with span(2) have "is_slot s ?x" unfolding is_slot_def
      by (intro exI [of _ "ch_start c"] exI [of _ "ch_end c - ch_start c"]) simp
    with v show "\<exists>x. unat v = x + 16 \<and> is_slot s x" by blast
  next
    assume "\<exists>x. unat v = x + 16 \<and> is_slot s x"
    then obtain x where x: "unat v = x + 16" "is_slot s x" by blast
    obtain a n where an: "(a, n) \<in> set (chunks s)" "a \<le> x" "x + slot_bytes s \<le> a + n" "slot_bytes s dvd x - a"
      using slot_in_chunk [OF geo x(2)] by metis
    note ch = geometry_chunk [OF geo an(1)] and sb = geometry_basic(1,2) [OF geo]
    obtain c where c: "c \<in> set (chunk_table h)" "ch_start c = a" "ch_end c = a + n" using ch(6) by blast
    have hit: "c' = Some c" using c' [of c] c an x sb by (simp add: holds_def)
    have "unat v < 2 ^ 63" using x an ch(5) sb by linarith
    then have sgn: "\<not> sint v \<le> 0" using pos x(1) by (simp add: not_le)
    have "8 dvd unat v"
    proof -
      have "8 dvd x - a" using an(4) sb(2) dvd_trans by blast
      then have "8 dvd (x - a) + a + 16" using ch(2) by (intro dvd_add) auto
      then show ?thesis using x an(2) by simp
    qed
    then have "v AND 7 = 0" using aligned by simp
    moreover have "(unat v - ch_start c) mod ch_slot_bytes c = 16"
    proof -
      obtain k where "x - a = k * slot_bytes s" using an(4) by (metis dvd_div_mult_self)
      then have "unat v - a = k * slot_bytes s + 16" using x an(2) by simp
      then show ?thesis using sb(1) unfolding geometry_span(1) [OF geo c(1)] c(2) by simp
    qed
    ultimately have "fst (chunk_for_valid_slot v h) = Some c"
      using sgn by (simp add: chunk_for_valid_slot_def f hit)
    then show "\<exists>c. fst (chunk_for_valid_slot v h) = Some c" by blast
  qed
qed

lemma header_gen:
  assumes "geometry (s, h)" "is_slot s x" "unat v = x + 16"
  shows "fst (slot_generation v h) = gen_word h (x + 16)"
  using valid_slot_iff [OF assms(1), of v] assms(2,3)
  by (cases "chunk_for_valid_slot v h") (auto simp: slot_generation_def slab_header_of_def)

subsection \<open>The contract of the slab\<close>

text \<open>Two slots per chunk; the first one is allocated, released and allocated again.\<close>

definition demo_slab :: "gen_slab \<times> slab_heap" where
  "demo_slab = snd (slab_alloc 8 False (snd (slab_alloc 8 False (slab_new 32000, heap_start))))"

definition demo_free :: "gen_slab \<times> slab_heap" where
  "demo_free = snd (the (slab_free 4096 24 demo_slab))"

lemmas demo_defs = slab_alloc_def grow_def slab_new_def heap_start_def CHUNK_TARGET_def
  chunk_slots_def zero_generations_def register_chunk_def partition_point_def add_live_def Let_def

lemma demo_slab_eq: "demo_slab =
   (\<lparr>free_head = 0, bump = 64040, bump_end = 64040, slot_bytes = 32016, active = Some 8, chunks = [(8, 64032)]\<rparr>,
    heap_start\<lparr>gen_word := (\<lambda>_. 0)(24 := 1, 32040 := 1),
      chunk_table := [\<lparr>ch_start = 8, ch_end = 64040, ch_slot_bytes = 32016, ch_global = False\<rparr>],
      live_count := (\<lambda>_. 0)(8 := 2), chunk_epoch := 1, span_min := 8, span_max := 64040\<rparr>)"
  by (simp add: demo_slab_def demo_defs upt_rec fun_eq_iff)

lemma demo_slots: "is_slot (fst demo_slab) 8" "is_slot (fst demo_slab) 32024"
  by (simp_all add: demo_slab_eq is_slot_def)

lemma demo_live: "live_slot demo_slab 8" "live_slot demo_slab 32024"
  using demo_slots by (simp_all add: demo_slab_eq live_slot_def)

lemma demo_runs: "slab_runs page 2 (slab_new 32000, heap_start) demo_slab"
proof -
  have a: "room_or_region (slab_new 32000, heap_start) 8"
    by (simp add: room_or_region_def region_ok_def demo_defs)
  have b: "room_or_region (snd (slab_alloc 8 False (slab_new 32000, heap_start))) 8"
    by (simp add: room_or_region_def demo_defs)
  have "slab_runs page (Suc (Suc 0)) (slab_new 32000, heap_start) demo_slab"
    unfolding demo_slab_def by (rule slab_runs.more [OF slab_runs.more [OF slab_runs.none slab_step.alloc [OF a]] slab_step.alloc [OF b]])
  then show ?thesis by (simp add: numeral_2_eq_2)
qed

lemma demo_free_eq: "slab_free 4096 24 demo_slab =
   Some (True, (fst demo_slab)\<lparr>free_head := 8\<rparr>,
     (snd demo_slab)\<lparr>gen_word := (\<lambda>_. 0)(24 := 2, 32040 := 1), live_count := (\<lambda>_. 0)(8 := 1),
       last_chunks := ((Some \<lparr>ch_start = 8, ch_end = 64040, ch_slot_bytes = 32016, ch_global = False\<rparr>, None), True, 1)\<rparr>)"
  by (simp add: demo_slab_eq slab_free_def find_chunk_for_addr_def search_table_def fill_cache_def heap_start_def
      holds_def partition_point_def Let_def fun_eq_iff)

text \<open>
  C12. A captured handle never becomes valid again: the generation of a slot that was live when the
  handle was taken and was then released differs from the captured one after any number of further
  steps, also when the slot was handed out again or its chunk was emptied and given back to the
  system. The bound only says that the 64-bit generation cannot have wrapped.
\<close>

theorem stale_handle_never_valid:
  assumes "0 < b" "slab_runs page m (slab_new b, heap_start) r" "live_slot r x"
    and "slab_free page (x + 16) r = Some (f, r')" "slab_runs page n r' r''" "m + n + 1 < 2 ^ 64"
    and "unat v = x + 16"
  shows "fst (slot_generation v (snd r'')) \<noteq> fst (slot_generation v (snd r))"
proof -
  obtain s h where r: "r = (s, h)" by fastforce
  obtain s'' h'' where r'': "r'' = (s'', h'')" by fastforce
  obtain fl where fl: "slab_ok (s, h) fl" and le: "unat (gen_word h (x + 16)) \<le> m"
    using reachable_good [OF assms(1,2)] by (auto simp: good_def r)
  let ?g = "gen_word h (x + 16)"
  have x: "is_slot s x" "odd (unat ?g)" using assms(3) by (auto simp: live_slot_def r)
  obtain fl' where rel: "release_ok (s, h) fl x r' fl'"
    using slab_free_ok [OF fl x, of page] assms(4) by (metis Pair_inject option.inject r)
  obtain s' h' where r': "r' = (s', h')" by fastforce
  have "unat ?g + 1 < 2 ^ 64" using le assms(6) by linarith
  then have up: "unat (?g + 1) = unat ?g + 1" using unat_gen_succ [of ?g] by simp
  have f: "slab_ok (s', h') fl'" "is_slot s' x" "is_fresh s' x \<longleftrightarrow> is_fresh s x"
    and w: "gen_word h' (x + 16) = ?g + 1 \<or> even (unat (gen_word h' (x + 16))) \<and> x \<notin> set fl'"
    using rel x(1) unfolding release_ok_def r' prod.case by auto
  have "\<not> is_fresh s x" using fl x(2) by (auto simp: slab_ok_def free_ok_def)
  then have "released x (unat ?g) 1 (s', h')"
    using f w up unfolding released_def fst_conv snd_conv by (intro exI [of _ fl']) auto
  then have "released x (unat ?g) (1 + n) (s'', h'')"
    using stale.after_runs assms(5) unfolding r' r'' by blast
  then obtain fl'' where e: "slab_ok (s'', h'') fl''" "is_slot s'' x"
    "unat ?g < unat (gen_word h'' (x + 16)) \<or> even (unat (gen_word h'' (x + 16)))"
    using le assms(6) unfolding released_def fst_conv snd_conv by auto
  have "gen_word h'' (x + 16) \<noteq> ?g" using e(3) x(2) by auto
  then show ?thesis
    using header_gen [of s h x v] header_gen [of s'' h'' x v] fl e x assms(7) by (simp add: r r'' slab_ok_def)
qed

theorem stale_handle_never_valid_witness:
  "\<exists>r' r''. slab_free 4096 24 demo_slab = Some (True, r') \<and> slab_runs 4096 1 r' r'' \<and> live_slot r'' 8 \<and>
     fst (slot_generation 24 (snd r'')) \<noteq> fst (slot_generation 24 (snd demo_slab))"
proof -
  define r' where "r' = ((fst demo_slab)\<lparr>free_head := 8\<rparr>,
     (snd demo_slab)\<lparr>gen_word := (\<lambda>_. 0)(24 := 2, 32040 := 1), live_count := (\<lambda>_. 0)(8 := 1),
       last_chunks := ((Some \<lparr>ch_start = 8, ch_end = 64040, ch_slot_bytes = 32016, ch_global = False\<rparr>, None), True, 1)\<rparr>)"
  have f: "slab_free 4096 (8 + 16) demo_slab = Some (True, r')" using demo_free_eq by (simp add: r'_def)
  have room: "room_or_region r' 8" by (simp add: room_or_region_def r'_def)
  define r'' where "r'' = snd (slab_alloc 8 False r')"
  have run: "slab_runs 4096 (Suc 0) r' r''"
    unfolding r''_def by (rule slab_runs.more [OF slab_runs.none slab_step.alloc [OF room]])
  have "live_slot r'' 8"
    by (simp add: r''_def r'_def demo_slab_eq slab_alloc_def heap_start_def live_slot_def is_slot_def
        find_chunk_for_addr_def cached_hit_def holds_def add_live_def Let_def)
  moreover have "fst (slot_generation 24 (snd r'')) \<noteq> fst (slot_generation 24 (snd demo_slab))"
    by (rule stale_handle_never_valid [OF _ demo_runs demo_live(1) f run]) simp_all
  ultimately show ?thesis
    using f run by (intro exI [of _ r'] exI [of _ r'']) simp
qed

text \<open>
  C16. What an allocation promises in every state the slab can reach: the body that is handed out was
  not live before and is live now, and every other live slot stays live under its generation.
\<close>

theorem slab_alloc_exclusive:
  assumes "0 < b" "slab_runs page m (slab_new b, heap_start) r" "room_or_region r a"
    and "slab_alloc a g r = ((body, fresh), r')"
  shows "\<exists>x. body = x + 16 \<and> \<not> live_slot r x \<and> live_slot r' x \<and>
    (\<forall>y. live_slot r y \<longrightarrow> live_slot r' y \<and> gen_word (snd r') (y + 16) = gen_word (snd r) (y + 16))"
proof -
  obtain s h where r: "r = (s, h)" by fastforce
  obtain s' h' where r': "r' = (s', h')" by fastforce
  obtain fl where "slab_ok (s, h) fl" using reachable_good [OF assms(1,2)] by (auto simp: good_def r)
  from slab_alloc_ok [OF this assms(3) [unfolded r], of g]
  obtain x fl' where x: "body = x + 16" "alloc_ok (s, h) fl x (s', h') fl'"
    using assms(4) unfolding r r' by (metis Pair_inject)
  then have a: "is_slot s' x" "odd (unat (gen_word h' (x + 16)))" "is_slot s x \<Longrightarrow> even (unat (gen_word h (x + 16)))"
    "\<And>y. is_slot s y \<Longrightarrow> is_slot s' y" "\<And>y. is_slot s y \<Longrightarrow> y \<noteq> x \<Longrightarrow> gen_word h' (y + 16) = gen_word h (y + 16)"
    unfolding alloc_ok_def prod.case by blast+
  have "live_slot r' y \<and> gen_word (snd r') (y + 16) = gen_word (snd r) (y + 16)" if "live_slot r y" for y
    using that a(3) a(4,5) [of y] by (cases "y = x") (auto simp: live_slot_def r r')
  moreover have "live_slot r' x" "\<not> live_slot r x" using a(1-3) by (auto simp: live_slot_def r r')
  ultimately show ?thesis using x(1) by blast
qed

theorem slab_alloc_exclusive_witness:
  "\<exists>x. 24 = x + 16 \<and> \<not> live_slot (slab_new 32000, heap_start) x \<and>
     live_slot (snd (slab_alloc 8 False (slab_new 32000, heap_start))) x"
proof -
  have "room_or_region (slab_new 32000, heap_start) 8"
    by (simp add: room_or_region_def region_ok_def demo_defs)
  moreover have "slab_alloc 8 False (slab_new 32000, heap_start) =
      ((24, True), snd (slab_alloc 8 False (slab_new 32000, heap_start)))"
    by (simp add: demo_defs)
  ultimately show ?thesis
    using slab_alloc_exclusive [OF _ slab_runs.none [of 4096], of 32000 8 False 24 True] by auto
qed

text \<open>
  C17. What a release promises in every state the slab can reach: releasing a live body ends (the
  walks along the free list do) and leaves it dead, a second release of the same body changes
  nothing, and every other slot keeps its state, a live one its generation too.
\<close>

theorem slab_free_once:
  assumes "0 < b" "slab_runs page m (slab_new b, heap_start) r" "live_slot r x"
  shows "\<exists>r'. slab_free page (x + 16) r = Some (True, r') \<and> \<not> live_slot r' x \<and>
    slab_free page (x + 16) r' = Some (False, r') \<and>
    (\<forall>y. y \<noteq> x \<longrightarrow> live_slot r' y = live_slot r y \<and>
       (live_slot r y \<longrightarrow> gen_word (snd r') (y + 16) = gen_word (snd r) (y + 16)))"
proof -
  obtain s h where r: "r = (s, h)" by fastforce
  obtain fl where fl: "slab_ok (s, h) fl" using reachable_good [OF assms(1,2)] by (auto simp: good_def r)
  have x: "is_slot s x" "odd (unat (gen_word h (x + 16)))" using assms(3) by (auto simp: live_slot_def r)
  obtain s' h' fl' where f: "slab_free page (x + 16) (s, h) = Some (True, s', h')" "release_ok (s, h) fl x (s', h') fl'"
    using slab_free_ok [OF fl x, of page] by (metis surj_pair)
  have slots: "\<And>y. is_slot s' y \<longleftrightarrow> is_slot s y"
    and w: "\<And>y. is_slot s y \<Longrightarrow>
        gen_word h' (y + 16) = (if y = x then gen_word h (x + 16) + 1 else gen_word h (y + 16)) \<or>
        even (unat (gen_word h' (y + 16))) \<and> (y = x \<or> even (unat (gen_word h (y + 16))))"
    using f(2) unfolding release_ok_def prod.case by blast+
  have dead: "even (unat (gen_word h' (x + 16)))" using w [OF x(1)] x(2) by auto
  show ?thesis
    by (rule exI [of _ "(s', h')"])
      (use f(1) dead slab_free_dead w slots in \<open>fastforce simp: r live_slot_def\<close>)
qed

theorem slab_free_once_witness:
  "\<exists>r'. slab_free 4096 24 demo_slab = Some (True, r') \<and> \<not> live_slot r' 8 \<and>
     slab_free 4096 24 r' = Some (False, r') \<and> live_slot r' 32024"
  using slab_free_once [OF _ demo_runs [of 4096] demo_live(1)] demo_live(2) by auto

text \<open>
  C18. The classifier is exact on a heap of one slab that is never dropped: after any sequence of
  allocations, releases and reclamations a word is taken for a slab body just when it is the body
  address of a live slot, whatever the cache holds and whatever the word is. The drop of a slab is not
  among the steps: after it the cache can name a chunk that was given back
  (\<open>cache_keeps_dropped_chunk\<close> of \<open>SlabTable\<close>).
\<close>

theorem slab_body_exact:
  assumes "0 < b" "slab_runs page m (slab_new b, heap_start) r"
  shows "fst (ptr_is_slab_body v (snd r)) \<longleftrightarrow> (\<exists>x. unat v = x + 16 \<and> live_slot r x)"
proof -
  obtain s h where r: "r = (s, h)" by fastforce
  have geo: "geometry (s, h)" using reachable_good [OF assms] by (auto simp: good_def r slab_ok_def)
  show ?thesis
    using valid_slot_iff [OF geo, of v]
    by (cases "chunk_for_valid_slot v h"; cases "fst (chunk_for_valid_slot v h)")
      (auto simp: ptr_is_slab_body_def slab_header_of_def r live_slot_def)
qed

theorem slab_body_exact_witness:
  "fst (ptr_is_slab_body 24 (snd demo_slab)) \<and> \<not> fst (ptr_is_slab_body 32 (snd demo_slab))"
proof -
  have "\<not> is_slot (fst demo_slab) 16"
    by (auto simp: demo_slab_eq is_slot_def dvd_def)
  then have "\<not> live_slot demo_slab 16" by (auto simp: live_slot_def split_beta)
  then show ?thesis
    using slab_body_exact [OF _ demo_runs [of 4096]] demo_live(1) by force
qed

end
