(* ===== verification/Exhaustive.thy ===== *)
theory Exhaustive
  imports Types Mir
begin

text \<open>
  The exhaustiveness check of \<open>match\<close> (\<open>semantic/type_checker/exhaustiveness.rs\<close> and the \<open>Match\<close>
  arm of \<open>semantic/type_checker/expr.rs\<close>): the patterns, the integer intervals they cover, the first
  gap that a set of intervals leaves, and the E0414 messages for a match. The expressions a pattern
  holds are reduced to the kinds the check looks at, every other one is \<open>EOther\<close>; spans are left
  out. Integer arithmetic is that of a release build.
\<close>

datatype expr =
    EInteger i64
  | EStr string
  | EBool bool
  | ENull
  | EUnaryOp unary_op expr
  | EOther nat

datatype match_pattern =
    PVariant string "match_pattern list"
  | PIdentifier string
  | PLiteral expr
  | PWildcard
  | PTuple "match_pattern list"
  | PStructFields string "(string \<times> match_pattern) list"
  | PList "match_pattern list" "string option" "match_pattern list"
  | PRange expr expr bool
  | POr "match_pattern list"

record gap =
  g_label :: string
  g_help :: string

subsection \<open>Integer intervals\<close>

fun literal_int_value :: "expr \<Rightarrow> i64 option" where
  "literal_int_value (EInteger n) = Some n"
| "literal_int_value (EUnaryOp NegOp e) = map_option (\<lambda>n. - n) (literal_int_value e)"
| "literal_int_value _ = None"

fun gap_loop :: "(i64 \<times> i64) list \<Rightarrow> i64 \<Rightarrow> i64 \<Rightarrow> (i64 \<times> i64) option" where
  "gap_loop [] cursor full_hi = (if sint cursor \<le> sint full_hi then Some (cursor, full_hi) else None)"
| "gap_loop ((lo, hi) # ivs) cursor full_hi =
     (if sint lo > sint cursor then Some (cursor, lo - 1)
      else
        (case (if sint hi \<ge> sint cursor then checked_add hi 1 else Some cursor) of
           None \<Rightarrow> None
         | Some c \<Rightarrow> if sint c > sint full_hi then None else gap_loop ivs c full_hi))"

definition first_gap :: "(i64 \<times> i64) list \<Rightarrow> i64 \<Rightarrow> i64 \<Rightarrow> (i64 \<times> i64) option" where
  "first_gap intervals full_lo full_hi = gap_loop (sort_key (\<lambda>iv. sint (fst iv)) intervals) full_lo full_hi"

fun int_interval :: "match_pattern \<Rightarrow> (i64 \<times> i64) option" where
  "int_interval (PLiteral e) = map_option (\<lambda>v. (v, v)) (literal_int_value e)"
| "int_interval (PRange start fin inclusive) =
     do { lo \<leftarrow> literal_int_value start; hi \<leftarrow> literal_int_value fin;
          Some (lo, if inclusive then hi else hi - 1) }"
| "int_interval _ = None"

definition i64_max :: i64 where
  "i64_max = 9223372036854775807"

fun list_length_interval :: "match_pattern \<Rightarrow> (i64 \<times> i64) option" where
  "list_length_interval (PList before rest after) =
     (let fixed = word_of_nat (length before + length after)
      in Some (fixed, if rest \<noteq> None then i64_max else fixed))"
| "list_length_interval _ = None"

fun is_trivially_exhaustive :: "match_pattern \<Rightarrow> bool" where
  "is_trivially_exhaustive PWildcard = True"
| "is_trivially_exhaustive (PIdentifier _) = True"
| "is_trivially_exhaustive _ = False"

subsection \<open>The check\<close>

definition show_i64 :: "i64 \<Rightarrow> string" where
  "show_i64 w = (if sint w < 0 then ''-'' @ show_nat (nat (- sint w)) else show_nat (nat (sint w)))"

definition is_int_type :: "ty \<Rightarrow> bool" where
  "is_int_type t \<longleftrightarrow> t \<in> {TInt, TI8, TI16, TI32, TU8, TU16, TU32, TU64, TUsize}"

definition is_point_pattern :: "match_pattern \<Rightarrow> bool" where
  "is_point_pattern p = (case p of PLiteral _ \<Rightarrow> True | PRange _ _ _ \<Rightarrow> True | _ \<Rightarrow> False)"

definition is_tuple_pattern :: "match_pattern \<Rightarrow> bool" where
  "is_tuple_pattern p = (case p of PTuple _ \<Rightarrow> True | _ \<Rightarrow> False)"

definition is_struct_pattern :: "string \<Rightarrow> match_pattern \<Rightarrow> bool" where
  "is_struct_pattern n p = (case p of PStructFields m _ \<Rightarrow> m = n | _ \<Rightarrow> False)"

definition int_gap :: "match_pattern list \<Rightarrow> gap option" where
  "int_gap patterns =
     (case first_gap (List.map_filter int_interval patterns) i64_min i64_max of
        None \<Rightarrow> None
      | Some (lo, hi) \<Rightarrow>
          Some \<lparr>g_label = (if lo = hi then show_i64 lo else show_i64 lo @ ''..='' @ show_i64 hi) @ '' is not covered'',
                g_help = ''add a range/literal arm covering it, or a wildcard `case _:` arm''\<rparr>)"

definition list_gap :: "match_pattern list \<Rightarrow> gap option" where
  "list_gap patterns =
     (let intervals = List.map_filter list_length_interval patterns
      in if intervals = [] then None
         else
           (case first_gap intervals 0 i64_max of
              None \<Rightarrow> None
            | Some (lo, hi) \<Rightarrow>
                Some \<lparr>g_label = (if hi = i64_max then ''lists of length '' @ show_i64 lo @ '' or more are not covered''
                                else if lo = hi then ''lists of length '' @ show_i64 lo @ '' are not covered''
                                else ''lists of length '' @ show_i64 lo @ ''..='' @ show_i64 hi @ '' are not covered''),
                      g_help = ''add a `[*rest]`-shaped arm, or a wildcard `case _:` arm''\<rparr>))"

definition fields_gap :: gap where
  "fields_gap =
     \<lparr>g_label = ''not every field combination is covered'',
      g_help = ''add a wildcard `case _:` arm, or bind every field in one arm''\<rparr>"

type_synonym field_types = "string \<times> string \<Rightarrow> ty option"

text \<open>
  The check of one match and the check of one field call each other; both go down the patterns, so
  the check of a field is written with the patterns of that field alone.
\<close>

function (sequential) check_new_form_exhaustiveness :: "field_types \<Rightarrow> ty \<Rightarrow> match_pattern list \<Rightarrow> gap option"
  and field_fully_covered :: "field_types \<Rightarrow> match_pattern \<Rightarrow> ty \<Rightarrow> bool" where
  "check_new_form_exhaustiveness ft t patterns =
     (case t of
        TList _ \<Rightarrow> list_gap patterns
      | TTuple field_tys \<Rightarrow>
          (if \<not> list_ex is_tuple_pattern patterns then None
           else if list_ex (\<lambda>p. case p of
                     PTuple items \<Rightarrow>
                       length items = length field_tys \<and>
                       list_all (\<lambda>(item, field_ty). field_fully_covered ft item field_ty) (zip items field_tys)
                   | _ \<Rightarrow> is_trivially_exhaustive p) patterns
                then None else Some fields_gap)
      | TStruct struct_name _ _ \<Rightarrow>
          (if \<not> list_ex (is_struct_pattern struct_name) patterns then None
           else if list_ex (\<lambda>p. case p of
                     PStructFields name fpats \<Rightarrow>
                       name = struct_name \<and>
                       list_all (\<lambda>(fname, fpat). case ft (struct_name, fname) of
                           Some fty \<Rightarrow> field_fully_covered ft fpat fty | None \<Rightarrow> False) fpats
                   | _ \<Rightarrow> is_trivially_exhaustive p) patterns
                then None else Some fields_gap)
      | _ \<Rightarrow> if is_int_type t then int_gap patterns else None)"
| "field_fully_covered ft p field_ty \<longleftrightarrow>
     is_trivially_exhaustive p \<or>
     check_new_form_exhaustiveness ft field_ty [p] = None \<and> \<not> is_point_pattern p"
  by pat_completeness auto

lemma sum_list_size: "(p :: 'a :: size) \<in> set ps \<Longrightarrow> size p \<le> sum_list (map size ps)"
  by (rule member_le_sum_list) auto

lemma nested_pattern_size:
  "PStructFields n fs \<in> set ps \<Longrightarrow> (a, p) \<in> set fs \<Longrightarrow> Suc (2 * size p) < 2 * sum_list (map size ps)"
  "PTuple items \<in> set ps \<Longrightarrow> (p, t) \<in> set (zip items ts) \<Longrightarrow> Suc (2 * size p) < 2 * sum_list (map size ps)"
proof -
  show "Suc (2 * size p) < 2 * sum_list (map size ps)" if f: "PStructFields n fs \<in> set ps" "(a, p) \<in> set fs"
  proof -
    have "size p \<le> size_list (size_prod (\<lambda>_. 0) size) fs"
      by (rule size_list_estimation' [OF f(2)]) simp
    with sum_list_size [OF f(1)] show ?thesis by simp
  qed
  show "Suc (2 * size p) < 2 * sum_list (map size ps)" if f: "PTuple items \<in> set ps" "(p, t) \<in> set (zip items ts)"
  proof -
    have "size p \<le> size_list size items"
      by (rule size_list_estimation' [OF set_zip_leftD [OF f(2)]]) simp
    with sum_list_size [OF f(1)] show ?thesis by simp
  qed
qed

termination check_new_form_exhaustiveness
  by (relation "measure (\<lambda>x. case x of Inl (_, _, ps) \<Rightarrow> 2 * sum_list (map size ps) | Inr (_, p, _) \<Rightarrow> 2 * size p + 1)")
    (auto intro: nested_pattern_size)

declare check_new_form_exhaustiveness.simps [simp del] field_fully_covered.simps [simp del]

subsection \<open>The E0414 messages of a match\<close>

fun collect_matched_variants :: "match_pattern \<Rightarrow> string set \<Rightarrow> string set" where
  "collect_matched_variants (PVariant v_name _) out = insert v_name out"
| "collect_matched_variants (POr alts) out = fold collect_matched_variants alts out"
| "collect_matched_variants _ out = out"

fun pattern_matches_null :: "match_pattern \<Rightarrow> bool" where
  "pattern_matches_null (PLiteral e) \<longleftrightarrow> e = ENull"
| "pattern_matches_null (POr alts) \<longleftrightarrow> list_ex pattern_matches_null alts"
| "pattern_matches_null _ \<longleftrightarrow> False"

text \<open>The references around the type of the scrutinee are taken off first.\<close>

fun strip_refs :: "ty \<Rightarrow> ty" where
  "strip_refs (TRef t) = strip_refs t"
| "strip_refs (TMutRef t) = strip_refs t"
| "strip_refs t = t"

definition variant_label :: "string \<Rightarrow> string \<Rightarrow> string" where
  "variant_label enum_name v = ''variant `'' @ enum_name @ ''::'' @ v @ ''` is not covered''"

definition missing_variants :: "(string \<Rightarrow> string list option) \<Rightarrow> string \<Rightarrow> string set \<Rightarrow> string list" where
  "missing_variants enum_variants en matched =
     (case enum_variants en of
        Some all_variants \<Rightarrow> map (variant_label en) (filter (\<lambda>v. v \<notin> matched) all_variants)
      | None \<Rightarrow> [])"

definition variant_errors :: "(string \<Rightarrow> string list option) \<Rightarrow> ty \<Rightarrow> string set \<Rightarrow> string list" where
  "variant_errors enum_variants match_ty matched =
     (case match_ty of
        TEnum en _ \<Rightarrow> missing_variants enum_variants en matched
      | TUnion members \<Rightarrow>
          concat (map (\<lambda>t. case t of TEnum en _ \<Rightarrow> missing_variants enum_variants en matched | _ \<Rightarrow> []) members)
      | _ \<Rightarrow> [])"

definition unguarded_arms :: "(match_pattern \<times> bool) list \<Rightarrow> match_pattern list" where
  "unguarded_arms cases = map fst (filter (\<lambda>c. \<not> snd c) cases)"

text \<open>The labels of the E0414 messages; an arm is its pattern and whether it has a guard.\<close>

definition match_errors ::
  "(string \<Rightarrow> string list option) \<Rightarrow> field_types \<Rightarrow> ty \<Rightarrow> (match_pattern \<times> bool) list \<Rightarrow> string list" where
  "match_errors enum_variants ft scrutinee cases =
     (let match_ty = strip_refs scrutinee;
          unguarded = unguarded_arms cases;
          matched = fold collect_matched_variants unguarded {}
      in if list_ex is_trivially_exhaustive unguarded then []
         else variant_errors enum_variants match_ty matched @
           (case check_new_form_exhaustiveness ft match_ty unguarded of
              Some g \<Rightarrow> [g_label g] | None \<Rightarrow> []))"

end
