(* ===== verification/ExhaustiveProps.thy ===== *)
theory ExhaustiveProps
  imports Exhaustive
begin

text \<open>
  The exhaustiveness check against what the arms of a match accept: the interval arithmetic is exact,
  a match over integers, lists, tuples and structs that passes leaves no value out when its patterns
  are of the plain forms, and a match over an enum passes exactly when every value has an arm. The
  last section has the patterns for which a match passes and a value is left out.
\<close>

subsection \<open>Intervals\<close>

definition covers :: "(i64 \<times> i64) list \<Rightarrow> int \<Rightarrow> bool" where
  "covers ivs x \<longleftrightarrow> (\<exists>(a, b)\<in>set ivs. sint a \<le> x \<and> x \<le> sint b)"

lemma covers_simps [simp]:
  "\<not> covers [] x"
  "covers ((a, b) # ivs) x \<longleftrightarrow> sint a \<le> x \<and> x \<le> sint b \<or> covers ivs x"
  by (auto simp: covers_def)

lemma covers_cong: "set ivs = set ivs' \<Longrightarrow> covers ivs = covers ivs'"
  by (auto simp: covers_def fun_eq_iff)

lemma checked_succ:
  "checked_add h 1 = Some c \<Longrightarrow> sint c = sint h + 1"
  "checked_add h 1 = None \<Longrightarrow> sint h = 2 ^ 63 - 1"
proof -
  have one: "sint (1 :: i64) = 1" by simp
  note r = sint_range_i64 [of h]
  show "sint c = sint h + 1" if c: "checked_add h 1 = Some c"
  proof -
    have "in_i64 (sint h + 1)" "c = h + 1" using c one by (auto simp: checked_add_def split: if_splits)
    moreover have "word_of_int (sint h + 1) = h + 1" by simp
    ultimately show ?thesis using sint_word_of_int_i64 by metis
  qed
  show "sint h = 2 ^ 63 - 1" if "checked_add h 1 = None"
    using that one r by (auto simp: checked_add_def in_i64_def split: if_splits)
qed

lemma sint_pred:
  assumes "sint (c :: i64) < sint (lo :: i64)"
  shows "sint (lo - 1) = sint lo - 1"
proof -
  from assms have "in_i64 (sint lo - 1)" using sint_range_i64 [of c] sint_range_i64 [of lo] by (auto simp: in_i64_def)
  moreover have "word_of_int (sint lo - 1) = lo - 1" by simp
  ultimately show ?thesis using sint_word_of_int_i64 by metis
qed

text \<open>What the loop finds above the cursor, when the intervals are sorted by their low ends.\<close>

lemma gap_loop_spec:
  assumes "sorted (map (\<lambda>iv. sint (fst iv)) ivs)" "sint cursor \<le> sint hi"
  shows "case gap_loop ivs cursor hi of
      None \<Rightarrow> (\<forall>x. sint cursor \<le> x \<and> x \<le> sint hi \<longrightarrow> covers ivs x)
    | Some (a, b) \<Rightarrow> sint cursor \<le> sint a \<and> sint a \<le> sint b \<and> sint a \<le> sint hi \<and>
        (\<forall>x. sint cursor \<le> x \<and> x < sint a \<longrightarrow> covers ivs x) \<and>
        (\<forall>x. sint a \<le> x \<and> x \<le> sint b \<longrightarrow> \<not> covers ivs x)"
  using assms
proof (induction ivs cursor hi rule: gap_loop.induct)
  case (2 lo h ivs cursor hi)
  show ?case
  proof (cases "sint lo > sint cursor")
    case True
    have "\<not> covers ((lo, h) # ivs) x" if "x < sint lo" for x
      using that 2(2) by (fastforce simp: covers_def)
    with True sint_pred [OF True] show ?thesis using 2(3) by auto
  next
    case low: False
    let ?step = "if sint h \<ge> sint cursor then checked_add h 1 else Some cursor"
    have below: "covers ((lo, h) # ivs) x" if "sint cursor \<le> x" "x \<le> sint h" for x
      using that low by auto
    show ?thesis
    proof (cases ?step)
      case None
      then have "sint h = 2 ^ 63 - 1" using checked_succ(2) [of h] by (auto split: if_splits)
      with None low below sint_range_i64 [of hi] show ?thesis by (auto simp: in_i64_def)
    next
      case (Some c)
      have c: "sint cursor \<le> sint c" "sint h < sint c" "sint c = sint cursor \<or> sint c = sint h + 1"
        using Some checked_succ(1) [of h c] by (auto split: if_splits)
      show ?thesis
      proof (cases "sint c > sint hi")
        case True
        have "covers ((lo, h) # ivs) x" if "sint cursor \<le> x" "x \<le> sint hi" for x
          using that below [of x] c True 2(3) by auto
        with True low Some show ?thesis by auto
      next
        case False
        have ih: "case gap_loop ivs c hi of
            None \<Rightarrow> (\<forall>x. sint c \<le> x \<and> x \<le> sint hi \<longrightarrow> covers ivs x)
          | Some (a, b) \<Rightarrow> sint c \<le> sint a \<and> sint a \<le> sint b \<and> sint a \<le> sint hi \<and>
              (\<forall>x. sint c \<le> x \<and> x < sint a \<longrightarrow> covers ivs x) \<and>
              (\<forall>x. sint a \<le> x \<and> x \<le> sint b \<longrightarrow> \<not> covers ivs x)"
          using 2 low Some False by simp
        have step: "gap_loop ((lo, h) # ivs) cursor hi = gap_loop ivs c hi"
          using low Some False by simp
        have first: "covers ((lo, h) # ivs) x" if "sint cursor \<le> x" "x < sint c" for x
          using that below [of x] c by auto
        show ?thesis
        proof (cases "gap_loop ivs c hi")
          case None
          then have "covers ((lo, h) # ivs) x" if "sint cursor \<le> x" "x \<le> sint hi" for x
            using that first [of x] ih by (cases "x < sint c") auto
          with None step show ?thesis by simp
        next
          case (Some ab)
          obtain a b where ab: "ab = (a, b)" by fastforce
          have i: "sint c \<le> sint a" "sint a \<le> sint b" "sint a \<le> sint hi"
            "\<And>x. sint c \<le> x \<Longrightarrow> x < sint a \<Longrightarrow> covers ivs x"
            "\<And>x. sint a \<le> x \<Longrightarrow> x \<le> sint b \<Longrightarrow> \<not> covers ivs x"
            using ih Some ab by auto
          have "covers ((lo, h) # ivs) x" if "sint cursor \<le> x" "x < sint a" for x
            using that first [of x] i(4) [of x] by (cases "x < sint c") auto
          with i c show ?thesis unfolding step Some ab by auto
        qed
      qed
    qed
  qed
qed auto

lemma first_gap_cases:
  assumes "sint lo \<le> sint hi"
  shows "case first_gap ivs lo hi of
      None \<Rightarrow> (\<forall>x. sint lo \<le> x \<and> x \<le> sint hi \<longrightarrow> covers ivs x)
    | Some (a, b) \<Rightarrow> sint lo \<le> sint a \<and> sint a \<le> sint b \<and> sint a \<le> sint hi \<and>
        (\<forall>x. sint lo \<le> x \<and> x < sint a \<longrightarrow> covers ivs x) \<and>
        (\<forall>x. sint a \<le> x \<and> x \<le> sint b \<longrightarrow> \<not> covers ivs x)"
proof -
  let ?s = "sort_key (\<lambda>iv. sint (fst iv)) ivs"
  have c: "covers ?s = covers ivs" by (rule covers_cong) simp
  have "sorted (map (\<lambda>iv. sint (fst iv)) ?s)" by simp
  from gap_loop_spec [OF this assms] show ?thesis unfolding c first_gap_def .
qed

text \<open>
  C22. The interval arithmetic is exact: no gap is reported just when every number between the bounds
  lies in an interval, and a reported gap is the first one: nothing in it is covered and everything
  below it is.
\<close>

theorem first_gap_exact:
  assumes "sint lo \<le> sint hi"
  shows "(first_gap ivs lo hi = None \<longleftrightarrow> (\<forall>x. sint lo \<le> x \<and> x \<le> sint hi \<longrightarrow> covers ivs x)) \<and>
    (\<forall>a b. first_gap ivs lo hi = Some (a, b) \<longrightarrow>
       sint lo \<le> sint a \<and> sint a \<le> sint b \<and> sint a \<le> sint hi \<and>
       (\<forall>x. sint lo \<le> x \<and> x < sint a \<longrightarrow> covers ivs x) \<and>
       (\<forall>x. sint a \<le> x \<and> x \<le> sint b \<longrightarrow> \<not> covers ivs x))"
  using first_gap_cases [OF assms, of ivs] by (cases "first_gap ivs lo hi") auto

theorem first_gap_exact_witness:
  "first_gap [(6, 10), (0, 5)] 0 10 = None \<and> covers [(6, 10), (0, 5)] 6 \<and>
   first_gap [(8, 10), (0, 5)] 0 10 = Some (6, 7) \<and> \<not> covers [(8, 10), (0, 5)] 6"
proof -
  have a: "first_gap [(6, 10), (0, 5)] 0 10 = None" and b: "first_gap [(8, 10), (0, 5)] 0 10 = Some (6, 7)"
    by code_simp+
  show ?thesis
    using first_gap_exact [of 0 10 "[(6, 10), (0, 5)]"] first_gap_exact [of 0 10 "[(8, 10), (0, 5)]"] unfolding a b
    by auto
qed

subsection \<open>What an arm accepts\<close>

text \<open>
  The values a match takes apart, and the test that the arms compile to
  (\<open>mir/builder/lower_pattern.rs\<close>): tags, positions from the front and from the back, lengths,
  equality with a literal, bounds. Integers of all widths are compared as 64-bit signed numbers.
\<close>

datatype val =
    VInt i64
  | VStr string
  | VBool bool
  | VNull
  | VEnum string string "val list"
  | VTuple "val list"
  | VStruct string "(string \<times> val) list"
  | VList "val list"

function (sequential) accepts :: "match_pattern \<Rightarrow> val \<Rightarrow> bool" where
  "accepts PWildcard v \<longleftrightarrow> True"
| "accepts (PIdentifier _) v \<longleftrightarrow> True"
| "accepts (PLiteral e) v \<longleftrightarrow>
     (case v of VInt n \<Rightarrow> literal_int_value e = Some n | VStr s \<Rightarrow> e = EStr s | VBool b \<Rightarrow> e = EBool b
      | VNull \<Rightarrow> e = ENull | _ \<Rightarrow> False)"
| "accepts (PRange a b inclusive) v \<longleftrightarrow>
     (case (v, literal_int_value a, literal_int_value b) of
        (VInt n, Some lo, Some hi) \<Rightarrow>
          sint lo \<le> sint n \<and> (if inclusive then sint n \<le> sint hi else sint n < sint hi)
      | _ \<Rightarrow> False)"
| "accepts (PVariant name ps) v \<longleftrightarrow>
     (case v of VEnum _ tag vs \<Rightarrow> tag = name \<and> list_all (\<lambda>(p, v). accepts p v) (zip ps vs) | _ \<Rightarrow> False)"
| "accepts (PTuple ps) v \<longleftrightarrow>
     (case v of VTuple vs \<Rightarrow> list_all (\<lambda>(p, v). accepts p v) (zip ps vs) | _ \<Rightarrow> False)"
| "accepts (PStructFields name fs) v \<longleftrightarrow>
     (case v of
        VStruct _ vs \<Rightarrow> list_all (\<lambda>(f, p). case map_of vs f of Some v \<Rightarrow> accepts p v | None \<Rightarrow> False) fs
      | _ \<Rightarrow> False)"
| "accepts (PList before rest after) v \<longleftrightarrow>
     (case v of
        VList vs \<Rightarrow>
          (let n = length before + length after
           in (if rest = None then length vs = n else length vs \<ge> n) \<and>
              list_all (\<lambda>(p, v). accepts p v) (zip before vs) \<and>
              list_all (\<lambda>(p, v). accepts p v) (zip after (drop (length vs - length after) vs)))
      | _ \<Rightarrow> False)"
| "accepts (POr ps) v \<longleftrightarrow> list_ex (\<lambda>p. accepts p v) ps"
  by pat_completeness auto

lemma nested_accepts_size:
  "(p, v) \<in> set (zip ps vs) \<Longrightarrow> size p < Suc (size_list size ps)"
  "(p, v) \<in> set (zip ps vs) \<Longrightarrow> size p < Suc (size_list size ps + k)"
  "(p, v) \<in> set (zip ps vs) \<Longrightarrow> size p < Suc (k + size_list size ps)"
  "p \<in> set ps \<Longrightarrow> size p < Suc (size_list size ps)"
  "(f, p) \<in> set fs \<Longrightarrow> size p < Suc (size_list (size_prod (\<lambda>_. 0) size) fs)"
proof -
  have m: "size p \<le> size_list size ps" if "p \<in> set ps"
    using size_list_estimation' [OF that, of "size p" size] by simp
  show "p \<in> set ps \<Longrightarrow> size p < Suc (size_list size ps)" using m by simp
  show "(p, v) \<in> set (zip ps vs) \<Longrightarrow> size p < Suc (size_list size ps)"
    "(p, v) \<in> set (zip ps vs) \<Longrightarrow> size p < Suc (size_list size ps + k)"
    "(p, v) \<in> set (zip ps vs) \<Longrightarrow> size p < Suc (k + size_list size ps)"
    using m by (auto dest!: set_zip_leftD)
  show "size p < Suc (size_list (size_prod (\<lambda>_. 0) size) fs)" if "(f, p) \<in> set fs"
    using size_list_estimation' [OF that, of "size p" "size_prod (\<lambda>_. 0) size"] by simp
qed

termination accepts
  by (relation "measure (size \<circ> fst)") (auto intro: nested_accepts_size)

inductive has_type :: "field_types \<Rightarrow> val \<Rightarrow> ty \<Rightarrow> bool" for ft where
  int: "is_int_type t \<Longrightarrow> has_type ft (VInt n) t"
| str: "has_type ft (VStr s) TStr"
| bool: "has_type ft (VBool b) TBool"
| null: "has_type ft VNull TNull"
| enum: "has_type ft (VEnum e tag vs) (TEnum e ts)"
| tuple: "list_all2 (has_type ft) vs ts \<Longrightarrow> has_type ft (VTuple vs) (TTuple ts)"
| struct: "(\<And>f t. ft (n, f) = Some t \<Longrightarrow> \<exists>v. map_of vs f = Some v \<and> has_type ft v t) \<Longrightarrow>
    has_type ft (VStruct n vs) (TStruct n ts ffi)"
| list: "list_all (\<lambda>v. has_type ft v t) vs \<Longrightarrow> length vs < 2 ^ 63 \<Longrightarrow> has_type ft (VList vs) (TList t)"

inductive_cases has_type_tuple: "has_type ft v (TTuple ts)"
inductive_cases has_type_struct: "has_type ft v (TStruct n ts ffi)"
inductive_cases has_type_list: "has_type ft v (TList t)"
inductive_cases has_type_enum: "has_type ft v (TEnum e ts)"

lemma has_type_int: "has_type ft v t \<Longrightarrow> is_int_type t \<Longrightarrow> \<exists>n. v = VInt n"
  by (cases rule: has_type.cases) (auto simp: is_int_type_def)

declare accepts.simps [simp del]

text \<open>
  The patterns for which the check is sound at a type: of the shape of the type, without variants and
  alternatives below the top, and with catch-alls only inside lists. A bound of an exclusive range is
  not the smallest number, which no literal can denote.
\<close>

function (sequential) plain :: "field_types \<Rightarrow> match_pattern \<Rightarrow> ty \<Rightarrow> bool" where
  "plain ft PWildcard t \<longleftrightarrow> True"
| "plain ft (PIdentifier _) t \<longleftrightarrow> True"
| "plain ft (PLiteral _) t \<longleftrightarrow> True"
| "plain ft (PRange a b inclusive) t \<longleftrightarrow> inclusive \<or> literal_int_value b \<noteq> Some i64_min"
| "plain ft (PTuple ps) t \<longleftrightarrow>
     (case t of TTuple ts \<Rightarrow> length ps = length ts \<and> list_all (\<lambda>(p, t). plain ft p t) (zip ps ts) | _ \<Rightarrow> False)"
| "plain ft (PStructFields n fs) t \<longleftrightarrow>
     (case t of
        TStruct m _ _ \<Rightarrow> n = m \<and> list_all (\<lambda>(f, p). case ft (n, f) of Some t \<Rightarrow> plain ft p t | None \<Rightarrow> False) fs
      | _ \<Rightarrow> False)"
| "plain ft (PList before rest after) t \<longleftrightarrow>
     (case t of
        TList _ \<Rightarrow> list_all is_trivially_exhaustive (before @ after) \<and> length before + length after < 2 ^ 63
      | _ \<Rightarrow> False)"
| "plain ft (PVariant _ _) t \<longleftrightarrow> False"
| "plain ft (POr _) t \<longleftrightarrow> False"
  by pat_completeness auto

termination
  by (relation "measure (\<lambda>(ft, p, t). size p)") (auto intro: nested_accepts_size)

declare plain.simps [simp del]

text \<open>The scrutinee types that the check looks into, with patterns that it looks at.\<close>

definition checked_form :: "ty \<Rightarrow> match_pattern list \<Rightarrow> bool" where
  "checked_form t ps \<longleftrightarrow>
     (case t of
        TList _ \<Rightarrow> list_ex (\<lambda>p. list_length_interval p \<noteq> None) ps
      | TTuple _ \<Rightarrow> list_ex is_tuple_pattern ps
      | TStruct n _ _ \<Rightarrow> list_ex (is_struct_pattern n) ps
      | _ \<Rightarrow> is_int_type t)"

lemma trivial_accepts: "is_trivially_exhaustive p \<Longrightarrow> accepts p v"
  by (cases p) (auto simp: accepts.simps)

lemma interval_accepts:
  assumes "int_interval p = Some (a, b)" "plain ft p t" "sint a \<le> sint n" "sint n \<le> sint b"
  shows "accepts p (VInt n)"
proof (cases p)
  case (PLiteral e)
  then have "a = b" "literal_int_value e = Some a" using assms(1) by auto
  moreover from this(1) have "n = a" using assms(3,4) by (simp add: i64_eq_iff)
  ultimately show ?thesis using PLiteral by (simp add: accepts.simps)
next
  case (PRange x y inclusive)
  then obtain hi where r: "literal_int_value x = Some a" "literal_int_value y = Some hi"
    "b = (if inclusive then hi else hi - 1)"
    using assms(1) by (auto split: option.splits simp: Option.bind_eq_Some_conv)
  have "sint b < sint hi" if "\<not> inclusive"
  proof -
    have "hi \<noteq> i64_min" using assms(2) PRange r that by (simp add: plain.simps)
    then have "sint i64_min < sint hi"
      using sint_range_i64 [of hi] by (auto simp: in_i64_def i64_eq_iff)
    then show ?thesis using sint_pred [of i64_min hi] r that by simp
  qed
  then show ?thesis using PRange r assms(3,4) by (auto simp: accepts.simps)
qed (use assms(1) in auto)

lemma int_gap_sound:
  assumes "int_gap ps = None" "\<forall>p\<in>set ps. plain ft p t"
  shows "\<exists>p\<in>set ps. accepts p (VInt n)"
proof -
  have m: "sint i64_min \<le> sint n" "sint n \<le> sint i64_max"
    using sint_range_i64 [of n] by (auto simp: in_i64_def i64_max_def)
  have "first_gap (List.map_filter int_interval ps) i64_min i64_max = None"
    using assms(1) by (auto simp: int_gap_def split: option.splits)
  then have "covers (List.map_filter int_interval ps) (sint n)"
    using first_gap_cases [of i64_min i64_max "List.map_filter int_interval ps"] m by simp
  then obtain p a b where "p \<in> set ps" "int_interval p = Some (a, b)" "sint a \<le> sint n" "sint n \<le> sint b"
    by (auto simp: covers_def List.map_filter_def split: option.splits)
  with assms(2) interval_accepts show ?thesis by blast
qed

lemma list_gap_sound:
  assumes "list_gap ps = None" "\<forall>p\<in>set ps. plain ft p (TList t)"
    and "list_ex (\<lambda>p. list_length_interval p \<noteq> None) ps" and "length vs < 2 ^ 63"
  shows "\<exists>p\<in>set ps. accepts p (VList vs)"
proof -
  let ?ivs = "List.map_filter list_length_interval ps"
  have "?ivs \<noteq> []" using assms(3) by (auto simp: List.map_filter_def list_ex_iff filter_empty_conv)
  then have "first_gap ?ivs 0 i64_max = None"
    using assms(1) by (auto simp: list_gap_def Let_def split: option.splits)
  then have "covers ?ivs (int (length vs))"
    using first_gap_cases [of 0 i64_max ?ivs] assms(4) by (simp add: i64_max_def)
  then obtain p a b where p: "p \<in> set ps" "list_length_interval p = Some (a, b)" "sint a \<le> int (length vs)"
    "int (length vs) \<le> sint b"
    by (auto simp: covers_def List.map_filter_def split: option.splits)
  from p(2) obtain before rest after where l: "p = PList before rest after" by (cases p) auto
  have plain: "list_all is_trivially_exhaustive (before @ after)" "length before + length after < 2 ^ 63"
    using assms(2) p(1) unfolding l by (auto simp: plain.simps)
  define n where "n = length before + length after"
  have n: "sint (word_of_nat n :: i64) = int n"
    using plain(2) sint_word_of_int_i64 [of "int n"] by (simp add: in_i64_def n_def)
  have "(if rest = None then length vs = n else length vs \<ge> n)"
    using p n unfolding l by (auto simp: Let_def n_def split: if_splits)
  moreover have "list_all (\<lambda>(p, v). accepts p v) (zip xs ws)" if "set xs \<subseteq> set (before @ after)" for xs ws
    using plain(1) that trivial_accepts by (fastforce simp: list_all_iff dest: set_zip_leftD)
  ultimately show ?thesis using p(1) unfolding l n_def by (intro bexI [of _ p]) (auto simp: l accepts.simps Let_def)
qed

lemma zip_accepts:
  assumes "list_all2 (has_type ft) vs ts" "length ps = length ts"
    and "\<And>p t v. (p, t) \<in> set (zip ps ts) \<Longrightarrow> has_type ft v t \<Longrightarrow> accepts p v"
  shows "list_all (\<lambda>(p, v). accepts p v) (zip ps vs)"
  unfolding list_all_length
proof (intro allI impI)
  fix i assume i: "i < length (zip ps vs)"
  have "(ps ! i, ts ! i) \<in> set (zip ps ts)" using i assms(2) by (auto simp: set_zip)
  moreover have "has_type ft (vs ! i) (ts ! i)" using i assms(1) by (auto simp: list_all2_conv_all_nth)
  ultimately show "case zip ps vs ! i of (p, v) \<Rightarrow> accepts p v" using assms(3) i by simp
qed

lemma check_sound:
  "check_new_form_exhaustiveness ft t ps = None \<Longrightarrow> checked_form t ps \<Longrightarrow> \<forall>p\<in>set ps. plain ft p t \<Longrightarrow>
     has_type ft v t \<Longrightarrow> \<exists>p\<in>set ps. accepts p v"
  "field_fully_covered ft p t \<Longrightarrow> plain ft p t \<Longrightarrow> has_type ft v t \<Longrightarrow> accepts p v"
proof (induction ft t ps and ft p t arbitrary: v and v rule: check_new_form_exhaustiveness_field_fully_covered.induct)
  case (1 ft t ps)
  show ?case
  proof (cases "is_int_type t")
    case True
    then have "int_gap ps = None"
      using 1(3) by (cases t) (auto simp: check_new_form_exhaustiveness.simps is_int_type_def)
    moreover obtain n where "v = VInt n" using has_type_int 1(6) True by blast
    ultimately show ?thesis using int_gap_sound 1(5) by blast
  next
    case False
    then consider (list) t' where "t = TList t'" | (tuple) ts where "t = TTuple ts"
      | (struct) n as f where "t = TStruct n as f"
      using 1(4) by (cases t) (auto simp: checked_form_def)
    then show ?thesis
    proof cases
      case list
      then obtain vs where "v = VList vs" "length vs < 2 ^ 63" using 1(6) by (auto elim!: has_type_list simp: is_int_type_def)
      moreover have "list_gap ps = None" using 1(3) list by (simp add: check_new_form_exhaustiveness.simps)
      ultimately show ?thesis using list_gap_sound 1(4,5) list by (auto simp: checked_form_def)
    next
      case tuple
      obtain vs where v: "v = VTuple vs" "list_all2 (has_type ft) vs ts" using 1(6) tuple by (auto elim!: has_type_tuple simp: is_int_type_def)
      have ex: "list_ex is_tuple_pattern ps" using 1(4) tuple by (simp add: checked_form_def)
      then obtain p where p: "p \<in> set ps"
        "case p of PTuple items \<Rightarrow> length items = length ts \<and>
             list_all (\<lambda>(item, field_ty). field_fully_covered ft item field_ty) (zip items ts)
           | _ \<Rightarrow> is_trivially_exhaustive p"
        using 1(3) tuple by (auto simp: check_new_form_exhaustiveness.simps list_ex_iff split: if_splits)
      show ?thesis
      proof (cases "\<exists>items. p = PTuple items")
        case True
        then obtain items where items: "p = PTuple items" by blast
        with p have i: "length items = length ts"
          "list_all (\<lambda>(item, field_ty). field_fully_covered ft item field_ty) (zip items ts)" by auto
        have pl: "list_all (\<lambda>(p, t). plain ft p t) (zip items ts)" using 1(5) p(1) items tuple by (auto simp: plain.simps)
        have "list_all (\<lambda>(p, v). accepts p v) (zip items vs)"
        proof (rule zip_accepts [OF v(2) i(1)])
          fix q u w assume q: "(q, u) \<in> set (zip items ts)" "has_type ft w u"
          then have "field_fully_covered ft q u" "plain ft q u" using i(2) pl by (auto simp: list_all_iff)
          with q show "accepts q w" using 1(2) [OF tuple _ p(1) items q(1) refl] ex by auto
        qed
        with p(1) items v(1) show ?thesis by (intro bexI [of _ p]) (auto simp: accepts.simps)
      next
        case False
        then have "is_trivially_exhaustive p" using p(2) by (cases p) auto
        with p(1) trivial_accepts show ?thesis by blast
      qed
    next
      case struct
      obtain vs where v: "v = VStruct n vs" "\<And>g u. ft (n, g) = Some u \<Longrightarrow> \<exists>w. map_of vs g = Some w \<and> has_type ft w u"
        using 1(6) struct by (auto elim!: has_type_struct simp: is_int_type_def)
      have ex: "list_ex (is_struct_pattern n) ps" using 1(4) struct by (simp add: checked_form_def)
      then obtain p where p: "p \<in> set ps"
        "case p of PStructFields name fpats \<Rightarrow> name = n \<and>
             list_all (\<lambda>(fname, fpat). case ft (n, fname) of Some fty \<Rightarrow> field_fully_covered ft fpat fty | None \<Rightarrow> False) fpats
           | _ \<Rightarrow> is_trivially_exhaustive p"
        using 1(3) struct by (auto simp: check_new_form_exhaustiveness.simps list_ex_iff split: if_splits)
      show ?thesis
      proof (cases "\<exists>m fs. p = PStructFields m fs")
        case True
        with p obtain fs where fs: "p = PStructFields n fs"
          "list_all (\<lambda>(fname, fpat). case ft (n, fname) of Some fty \<Rightarrow> field_fully_covered ft fpat fty | None \<Rightarrow> False) fs"
          by auto
        have pl: "list_all (\<lambda>(g, q). case ft (n, g) of Some u \<Rightarrow> plain ft q u | None \<Rightarrow> False) fs"
          using 1(5) p(1) fs(1) struct by (auto simp: plain.simps)
        have "case map_of vs g of Some w \<Rightarrow> accepts q w | None \<Rightarrow> False" if q: "(g, q) \<in> set fs" for g q
        proof -
          obtain u where u: "ft (n, g) = Some u" "field_fully_covered ft q u" "plain ft q u"
            using fs(2) pl q by (fastforce simp: list_all_iff split: option.splits)
          then obtain w where w: "map_of vs g = Some w" "has_type ft w u" using v(2) by blast
          then show ?thesis using 1(1) [OF struct _ p(1) fs(1) q refl u(1,2,3) w(2)] ex by auto
        qed
        with p(1) fs(1) v(1) show ?thesis by (intro bexI [of _ p]) (auto simp: accepts.simps list_all_iff)
      next
        case False
        then have "is_trivially_exhaustive p" using p(2) by (cases p) auto
        with p(1) trivial_accepts show ?thesis by blast
      qed
    qed
  qed
next
  case (2 ft p t)
  show ?case
  proof (cases "is_trivially_exhaustive p")
    case False
    then have c: "check_new_form_exhaustiveness ft t [p] = None" "\<not> is_point_pattern p"
      using 2(2) by (auto simp: field_fully_covered.simps)
    have "checked_form t [p]"
      using False c(2) 2(3) by (cases p) (auto simp: plain.simps is_point_pattern_def checked_form_def
          is_tuple_pattern_def is_struct_pattern_def Let_def split: ty.splits)
    with 2(1) [OF c(1)] 2(3,4) show ?thesis by simp
  qed (rule trivial_accepts)
qed

text \<open>
  C13. A match that passes the check leaves no value out, for patterns of the plain forms: whatever
  value the scrutinee has at its type, some unguarded arm accepts it.
\<close>

theorem exhaustive_match_covers:
  assumes "check_new_form_exhaustiveness ft t ps = None" and "checked_form t ps"
    and "\<forall>p\<in>set ps. plain ft p t" and "has_type ft v t"
  shows "\<exists>p\<in>set ps. accepts p v"
  using check_sound(1) [OF assms] .

definition point_fields :: field_types where
  "point_fields = (\<lambda>(n, f). if n = ''Point'' \<and> f \<in> {''x'', ''y''} then Some TInt else None)"

definition point_arms :: "match_pattern list" where
  "point_arms =
     [PStructFields ''Point'' [(''x'', PLiteral (EInteger 0)), (''y'', PWildcard)],
      PStructFields ''Point'' [(''x'', PIdentifier ''a''), (''y'', PIdentifier ''b'')]]"

theorem exhaustive_match_covers_witness:
  "\<exists>p\<in>set point_arms. accepts p (VStruct ''Point'' [(''x'', VInt 7), (''y'', VInt 8)])"
proof (rule exhaustive_match_covers [of point_fields "TStruct ''Point'' [] False" point_arms])
  show "check_new_form_exhaustiveness point_fields (TStruct ''Point'' [] False) point_arms = None"
    by (simp add: check_new_form_exhaustiveness.simps field_fully_covered.simps point_arms_def point_fields_def
        is_struct_pattern_def)
  show "checked_form (TStruct ''Point'' [] False) point_arms"
    by (simp add: checked_form_def point_arms_def is_struct_pattern_def)
  show "\<forall>p\<in>set point_arms. plain point_fields p (TStruct ''Point'' [] False)"
    by (simp add: point_arms_def plain.simps point_fields_def)
  show "has_type point_fields (VStruct ''Point'' [(''x'', VInt 7), (''y'', VInt 8)]) (TStruct ''Point'' [] False)"
    by (rule has_type.struct) (auto simp: point_fields_def is_int_type_def intro: has_type.int split: if_splits)
qed

subsection \<open>Enums\<close>

text \<open>An arm that looks at the tag alone.\<close>

fun tag_only :: "match_pattern \<Rightarrow> bool" where
  "tag_only (PVariant _ ps) \<longleftrightarrow> list_all is_trivially_exhaustive ps"
| "tag_only (POr alts) \<longleftrightarrow> list_all tag_only alts \<and> list_all (\<lambda>p. \<not> is_trivially_exhaustive p) alts"
| "tag_only p \<longleftrightarrow> is_trivially_exhaustive p"

lemma fold_union:
  assumes "\<And>p out. p \<in> set ps \<Longrightarrow> g p out = out \<union> g p {}"
  shows "fold g ps out = out \<union> (\<Union>p\<in>set ps. g p {})"
  using assms
proof (induction ps arbitrary: out)
  case (Cons p ps)
  have "fold g ps (g p out) = g p out \<union> (\<Union>p\<in>set ps. g p {})" by (rule Cons.IH) (rule Cons.prems, simp)
  moreover have "g p out = out \<union> g p {}" by (rule Cons.prems) simp
  ultimately show ?case by auto
qed simp

lemma collect_one: "collect_matched_variants p out = out \<union> collect_matched_variants p {}"
proof (induction p arbitrary: out)
  case (POr alts)
  have "fold collect_matched_variants alts out = out \<union> (\<Union>p\<in>set alts. collect_matched_variants p {})" for out
    by (rule fold_union) (rule POr)
  then show ?case by simp
qed auto

lemma collect_all:
  "fold collect_matched_variants ps out = out \<union> (\<Union>p\<in>set ps. collect_matched_variants p {})"
  by (rule fold_union) (rule collect_one)

lemma tag_only_accepts:
  "tag_only p \<Longrightarrow> accepts p (VEnum e tag vs) \<longleftrightarrow> is_trivially_exhaustive p \<or> tag \<in> collect_matched_variants p {}"
proof (induction p)
  case (PVariant name ps)
  have "list_all (\<lambda>(p, v). accepts p v) (zip ps vs)"
    using PVariant.prems trivial_accepts by (fastforce simp: list_all_iff dest: set_zip_leftD)
  then show ?case by (auto simp: accepts.simps)
next
  case (POr alts)
  then show ?case by (auto simp: accepts.simps list_ex_iff list_all_iff collect_all)
qed (auto simp: accepts.simps)

text \<open>
  C21. The check of a match over an enum is exact for arms that look at the tag: no E0414 is reported
  just when every value of the enum is accepted by an arm without a guard.
\<close>

theorem enum_match_exact:
  assumes "strip_refs t = TEnum e ts" and "enum_variants e = Some tags"
    and "\<forall>(p, guarded)\<in>set cases. tag_only p"
  shows "match_errors enum_variants ft t cases = [] \<longleftrightarrow>
    (\<forall>tag\<in>set tags. \<forall>vs. \<exists>(p, guarded)\<in>set cases. \<not> guarded \<and> accepts p (VEnum e tag vs))"
proof -
  define ps where "ps = unguarded_arms cases"
  have ps: "p \<in> set ps \<longleftrightarrow> (p, False) \<in> set cases" for p by (force simp: ps_def unguarded_arms_def)
  have tag: "tag_only p" if "p \<in> set ps" for p using that assms(3) ps by blast
  define seen where "seen = (\<Union>p\<in>set ps. collect_matched_variants p {})"
  have none: "check_new_form_exhaustiveness ft (TEnum e ts) ps = None"
    by (simp add: check_new_form_exhaustiveness.simps is_int_type_def)
  have "fold collect_matched_variants ps {} = seen" unfolding seen_def collect_all by simp
  then have "match_errors enum_variants ft t cases =
      (if list_ex is_trivially_exhaustive ps then [] else map (variant_label e) (filter (\<lambda>v. v \<notin> seen) tags))"
    by (simp add: match_errors_def Let_def ps_def [symmetric] assms(1,2) none variant_errors_def missing_variants_def)
  then have "match_errors enum_variants ft t cases = [] \<longleftrightarrow>
      list_ex is_trivially_exhaustive ps \<or> (\<forall>tag\<in>set tags. tag \<in> seen)"
    by (simp add: filter_empty_conv)
  also have "\<dots> \<longleftrightarrow> (\<forall>tag\<in>set tags. \<forall>vs. \<exists>p\<in>set ps. accepts p (VEnum e tag vs))"
  proof -
    have eq: "(\<exists>p\<in>set ps. accepts p (VEnum e tag vs)) \<longleftrightarrow> list_ex is_trivially_exhaustive ps \<or> tag \<in> seen" for tag vs
    proof -
      have "(\<exists>p\<in>set ps. accepts p (VEnum e tag vs)) \<longleftrightarrow>
          (\<exists>p\<in>set ps. is_trivially_exhaustive p \<or> tag \<in> collect_matched_variants p {})"
        using tag_only_accepts [OF tag] by (metis (full_types))
      then show ?thesis by (auto simp: list_ex_iff seen_def)
    qed
    show ?thesis unfolding eq by blast
  qed
  also have "\<dots> \<longleftrightarrow> (\<forall>tag\<in>set tags. \<forall>vs. \<exists>(p, guarded)\<in>set cases. \<not> guarded \<and> accepts p (VEnum e tag vs))"
  proof -
    have "(\<exists>p\<in>set ps. accepts p v) \<longleftrightarrow> (\<exists>(p, guarded)\<in>set cases. \<not> guarded \<and> accepts p v)" for v
      unfolding Bex_def ps by auto
    then show ?thesis by simp
  qed
  finally show ?thesis .
qed

text \<open>A traffic light: two arms and one of them an alternative.\<close>

definition light_variants :: "string \<Rightarrow> string list option" where
  "light_variants = (\<lambda>e. if e = ''Light'' then Some [''Red'', ''Amber'', ''Green''] else None)"

definition light_arms :: "(match_pattern \<times> bool) list" where
  "light_arms = [(POr [PVariant ''Red'' [], PVariant ''Amber'' []], False), (PVariant ''Green'' [], False)]"

theorem enum_match_exact_witness:
  "match_errors light_variants Map.empty (TRef (TEnum ''Light'' [])) light_arms = [] \<and>
   (\<exists>(p, guarded)\<in>set light_arms. \<not> guarded \<and> accepts p (VEnum ''Light'' ''Amber'' [])) \<and>
   match_errors light_variants Map.empty (TEnum ''Light'' []) [(PVariant ''Red'' [], True), (PVariant ''Green'' [], False)] =
     [''variant `Light::Red` is not covered'', ''variant `Light::Amber` is not covered'']"
proof (intro conjI)
  show none: "match_errors light_variants Map.empty (TRef (TEnum ''Light'' [])) light_arms = []"
    by (simp add: match_errors_def unguarded_arms_def Let_def light_arms_def variant_errors_def missing_variants_def light_variants_def
        check_new_form_exhaustiveness.simps is_int_type_def)
  have "(match_errors light_variants Map.empty (TRef (TEnum ''Light'' [])) light_arms = []) \<longleftrightarrow>
      (\<forall>tag\<in>set [''Red'', ''Amber'', ''Green'']. \<forall>vs.
         \<exists>(p, guarded)\<in>set light_arms. \<not> guarded \<and> accepts p (VEnum ''Light'' tag vs))"
    by (rule enum_match_exact) (auto simp: light_arms_def light_variants_def)
  with none show "\<exists>(p, guarded)\<in>set light_arms. \<not> guarded \<and> accepts p (VEnum ''Light'' ''Amber'' [])" by simp
  show "match_errors light_variants Map.empty (TEnum ''Light'' []) [(PVariant ''Red'' [], True), (PVariant ''Green'' [], False)] =
     [''variant `Light::Red` is not covered'', ''variant `Light::Amber` is not covered'']"
    by (simp add: match_errors_def unguarded_arms_def Let_def variant_errors_def missing_variants_def light_variants_def variant_label_def
        check_new_form_exhaustiveness.simps is_int_type_def)
qed

subsection \<open>Matches that pass and leave a value out\<close>

text \<open>
  Lists are checked by their lengths alone, a field whose pattern is a variant or an alternative of
  strings counts as covered, and a variant counts as covered whatever its payload patterns are.
\<close>

lemma list_elements_ignored:
  "match_errors ev ft (TList TInt)
     [(PList [] None [], False), (PList [PLiteral (EInteger 1)] (Some ''rest'') [], False)] = []"
  "\<not> accepts (PList [] None []) (VList [VInt 2])"
  "\<not> accepts (PList [PLiteral (EInteger 1)] (Some ''rest'') []) (VList [VInt 2])"
proof -
  have gap: "first_gap [(0, 0), (1, i64_max)] 0 i64_max = None" by code_simp
  show "match_errors ev ft (TList TInt)
     [(PList [] None [], False), (PList [PLiteral (EInteger 1)] (Some ''rest'') [], False)] = []"
    using gap by (simp add: match_errors_def unguarded_arms_def Let_def variant_errors_def check_new_form_exhaustiveness.simps list_gap_def
        List.map_filter_def i64_max_def)
qed (simp_all add: accepts.simps)

lemma nested_variant_ignored:
  "match_errors ev ft (TTuple [TEnum ''Light'' [], TInt])
     [(PTuple [PVariant ''Red'' [], PWildcard], False)] = []"
  "\<not> accepts (PTuple [PVariant ''Red'' [], PWildcard]) (VTuple [VEnum ''Light'' ''Green'' [], VInt 0])"
  by (simp_all add: match_errors_def unguarded_arms_def Let_def variant_errors_def check_new_form_exhaustiveness.simps accepts.simps
      field_fully_covered.simps is_tuple_pattern_def is_point_pattern_def is_int_type_def)

lemma string_alternative_ignored:
  "match_errors ev ft (TTuple [TStr, TInt])
     [(PTuple [POr [PLiteral (EStr ''a''), PLiteral (EStr ''b'')], PWildcard], False)] = []"
  "\<not> accepts (PTuple [POr [PLiteral (EStr ''a''), PLiteral (EStr ''b'')], PWildcard]) (VTuple [VStr ''c'', VInt 0])"
  by (simp_all add: match_errors_def unguarded_arms_def Let_def variant_errors_def check_new_form_exhaustiveness.simps accepts.simps
      field_fully_covered.simps is_tuple_pattern_def is_point_pattern_def is_int_type_def)

lemma payload_ignored:
  "match_errors (\<lambda>_. Some [''A'']) ft (TEnum e [TInt]) [(PVariant ''A'' [PLiteral (EInteger 1)], False)] = []"
  "\<not> accepts (PVariant ''A'' [PLiteral (EInteger 1)]) (VEnum e ''A'' [VInt 2])"
  by (simp_all add: match_errors_def unguarded_arms_def Let_def variant_errors_def missing_variants_def
      check_new_form_exhaustiveness.simps accepts.simps is_int_type_def)

text \<open>
  The other way round: the smallest number has no literal, since the digits of a literal are read as a
  number that is not negative, so integer arms alone never pass, whatever ranges they name.
\<close>

fun literal_from_text :: "expr \<Rightarrow> bool" where
  "literal_from_text (EInteger n) \<longleftrightarrow> 0 \<le> sint n"
| "literal_from_text (EUnaryOp _ e) \<longleftrightarrow> literal_from_text e"
| "literal_from_text _ \<longleftrightarrow> True"

fun arm_from_text :: "match_pattern \<Rightarrow> bool" where
  "arm_from_text (PLiteral e) \<longleftrightarrow> literal_from_text e"
| "arm_from_text (PRange a b inclusive) \<longleftrightarrow> literal_from_text a \<and> literal_from_text b"
| "arm_from_text _ \<longleftrightarrow> True"

lemma literal_from_text_bound:
  "literal_int_value e = Some n \<Longrightarrow> literal_from_text e \<Longrightarrow> - (2 ^ 63) < sint n"
proof (induction e arbitrary: n rule: literal_int_value.induct)
  case (2 e)
  then obtain m where m: "n = - m" "- (2 ^ 63) < sint m" by auto
  then have "in_i64 (- sint m)" using sint_range_i64 [of m] by (auto simp: in_i64_def)
  moreover have "word_of_int (- sint m) = - m" by simp
  ultimately have "sint n = - sint m" using sint_word_of_int_i64 m(1) by metis
  then show ?case using sint_range_i64 [of m] by (auto simp: in_i64_def)
qed (auto simp: in_i64_def)

lemma int_arms_never_pass:
  assumes "\<forall>p\<in>set ps. arm_from_text p" and "is_int_type t"
  shows "check_new_form_exhaustiveness ft t ps \<noteq> None"
proof -
  have "- (2 ^ 63) < sint a" if "p \<in> set ps" "int_interval p = Some (a, b)" for p a b
  proof -
    have "arm_from_text p" using assms(1) that(1) by blast
    then show ?thesis using that(2) literal_from_text_bound
      by (cases p) (auto simp: Option.bind_eq_Some_conv)
  qed
  then have "\<not> covers (List.map_filter int_interval ps) (- (2 ^ 63))"
    by (fastforce simp: covers_def List.map_filter_def)
  moreover have m: "sint i64_min = - (2 ^ 63)" "sint i64_min \<le> sint i64_max" by (simp_all add: i64_max_def)
  ultimately have "first_gap (List.map_filter int_interval ps) i64_min i64_max \<noteq> None"
    using first_gap_cases [OF m(2), of "List.map_filter int_interval ps"] unfolding m(1)
    by (auto split: option.splits)
  then show ?thesis
    using assms(2) by (cases t) (auto simp: check_new_form_exhaustiveness.simps is_int_type_def int_gap_def)
qed

end
