(* ===== verification/Unify.thy ===== *)
theory Unify
  imports Types
begin

text \<open>
  Type inference by unification (\<open>semantic/type_checker/unify.rs\<close>, and \<open>unify_silently\<close> of
  \<open>expr.rs\<close>): the substitution of inference variables with its path compression, the occurs check,
  and \<open>unify\<close> itself, which reports errors and goes on. A diagnostic keeps its code, its title, its
  label and its notes; every one of a call has the span of the call, which is left out, and so is the
  text that offers help. The walks along the substitution
  take fuel, and the theory of their properties shows that some amount is always enough.
\<close>

record type_error =
  e_code :: string
  e_title :: string
  e_label :: string
  e_notes :: "string list"

type_synonym subst = "nat \<Rightarrow> ty option"

definition quoted :: "string \<Rightarrow> string" where
  "quoted s = ''`'' @ s @ ''`''"

definition type_mismatch :: "string \<Rightarrow> string \<Rightarrow> type_error" where
  "type_mismatch expected found =
     \<lparr>e_code = ''E0400'', e_title = ''mismatched types'',
      e_label = ''expected '' @ quoted expected @ '', found '' @ quoted found,
      e_notes = [''expected type '' @ quoted expected, ''   found type '' @ quoted found]\<rparr>"

definition literal_mismatch :: "string \<Rightarrow> string \<Rightarrow> type_error" where
  "literal_mismatch expected literal =
     \<lparr>e_code = ''E0400'', e_title = ''mismatched types'',
      e_label = ''expected '' @ quoted expected @ '', found '' @ literal,
      e_notes = [''the '' @ literal @ '' has no fixed type until it is constrained'']\<rparr>"

subsection \<open>The substitution\<close>

text \<open>The step of a variable of any of the three kinds: bound, or left as it is or made final.\<close>

fun apply_subst_impl :: "nat \<Rightarrow> bool \<Rightarrow> ty \<Rightarrow> subst \<Rightarrow> (ty \<times> subst) option"
  and apply_subst_list :: "nat \<Rightarrow> bool \<Rightarrow> ty list \<Rightarrow> subst \<Rightarrow> (ty list \<times> subst) option" where
  "apply_subst_impl 0 finalize t \<sigma> = None"
| "apply_subst_impl (Suc n) finalize t \<sigma> =
     (let bound = (\<lambda>v free. case \<sigma> v of
            Some u \<Rightarrow> do { (r, \<sigma>') \<leftarrow> apply_subst_impl n finalize u \<sigma>; Some (r, \<sigma>'(v \<mapsto> r)) }
          | None \<Rightarrow> Some (if finalize then free else t, \<sigma>));
          one = (\<lambda>C inner. do { (a, \<sigma>') \<leftarrow> apply_subst_impl n finalize inner \<sigma>; Some (C a, \<sigma>') });
          many = (\<lambda>C args. do { (as, \<sigma>') \<leftarrow> apply_subst_list n finalize args \<sigma>; Some (C as, \<sigma>') })
      in case t of
        TVar v \<Rightarrow> bound v TAny
      | TIntegerLiteral v \<Rightarrow> bound v TInt
      | TFloatLiteral v \<Rightarrow> bound v TFloat
      | TList inner \<Rightarrow> one TList inner
      | TSet inner \<Rightarrow> one TSet inner
      | TPtr inner \<Rightarrow> one TPtr inner
      | TDict k v \<Rightarrow>
          do { (k', \<sigma>1) \<leftarrow> apply_subst_impl n finalize k \<sigma>;
               (v', \<sigma>2) \<leftarrow> apply_subst_impl n finalize v \<sigma>1;
               Some (TDict k' v', \<sigma>2) }
      | TTuple elems \<Rightarrow> many TTuple elems
      | TFn params ret args \<Rightarrow>
          do { (ps, \<sigma>1) \<leftarrow> apply_subst_list n finalize params \<sigma>;
               (r, \<sigma>2) \<leftarrow> apply_subst_impl n finalize ret \<sigma>1;
               (as, \<sigma>3) \<leftarrow> apply_subst_list n finalize args \<sigma>2;
               Some (TFn ps r as, \<sigma>3) }
      | TRef inner \<Rightarrow> one TRef inner
      | TMutRef inner \<Rightarrow> one TMutRef inner
      | TFuture inner \<Rightarrow> one TFuture inner
      | TStruct name args is_ffi \<Rightarrow> many (\<lambda>as. TStruct name as is_ffi) args
      | TEnum name args \<Rightarrow> many (TEnum name) args
      | TTraitObject name args \<Rightarrow> many (TTraitObject name) args
      | TUnion members \<Rightarrow> many TUnion members
      | _ \<Rightarrow> Some (t, \<sigma>))"
| "apply_subst_list n finalize [] \<sigma> = Some ([], \<sigma>)"
| "apply_subst_list n finalize (t # ts) \<sigma> =
     do { (t', \<sigma>1) \<leftarrow> apply_subst_impl n finalize t \<sigma>;
          (ts', \<sigma>2) \<leftarrow> apply_subst_list n finalize ts \<sigma>1;
          Some (t' # ts', \<sigma>2) }"

abbreviation apply_subst :: "nat \<Rightarrow> ty \<Rightarrow> subst \<Rightarrow> (ty \<times> subst) option" where
  "apply_subst n \<equiv> apply_subst_impl n False"

abbreviation apply_subst_final :: "nat \<Rightarrow> ty \<Rightarrow> subst \<Rightarrow> (ty \<times> subst) option" where
  "apply_subst_final n \<equiv> apply_subst_impl n True"

fun any_opt :: "('a \<Rightarrow> bool option) \<Rightarrow> 'a list \<Rightarrow> bool option" where
  "any_opt f [] = Some False"
| "any_opt f (x # xs) = (case f x of None \<Rightarrow> None | Some True \<Rightarrow> Some True | Some False \<Rightarrow> any_opt f xs)"

fun occurs_check :: "nat \<Rightarrow> subst \<Rightarrow> nat \<Rightarrow> ty \<Rightarrow> bool option" where
  "occurs_check 0 \<sigma> v t = None"
| "occurs_check (Suc n) \<sigma> v t =
     (let var = (\<lambda>w. if v = w then Some True
            else (case \<sigma> w of Some u \<Rightarrow> occurs_check n \<sigma> v u | None \<Rightarrow> Some False));
          any = any_opt (occurs_check n \<sigma> v)
      in case t of
        TVar w \<Rightarrow> var w | TIntegerLiteral w \<Rightarrow> var w | TFloatLiteral w \<Rightarrow> var w
      | TList a \<Rightarrow> any [a] | TSet a \<Rightarrow> any [a] | TPtr a \<Rightarrow> any [a]
      | TDict k u \<Rightarrow> any [k, u]
      | TTuple ts \<Rightarrow> any ts
      | TFn ps r as \<Rightarrow> any (ps @ [r] @ as)
      | TRef a \<Rightarrow> any [a] | TMutRef a \<Rightarrow> any [a] | TFuture a \<Rightarrow> any [a]
      | TStruct _ as _ \<Rightarrow> any as | TEnum _ as \<Rightarrow> any as | TTraitObject _ as \<Rightarrow> any as
      | TUnion ms \<Rightarrow> any ms
      | _ \<Rightarrow> Some False)"

subsection \<open>Python callables and nullable types\<close>

definition is_nullable_target :: "ty \<Rightarrow> bool" where
  "is_nullable_target t =
     (case t of
        TStruct _ _ _ \<Rightarrow> True | TEnum _ _ \<Rightarrow> True | TTraitObject _ _ \<Rightarrow> True | TPyObject \<Rightarrow> True
      | TPyNamed _ _ \<Rightarrow> True | TPtr _ \<Rightarrow> True | TRef _ \<Rightarrow> True | TMutRef _ \<Rightarrow> True | TFn _ _ _ \<Rightarrow> True
      | TList _ \<Rightarrow> True | TDict _ _ \<Rightarrow> True | TSet _ \<Rightarrow> True | TTuple _ \<Rightarrow> True | TFuture _ \<Rightarrow> True
      | TVector _ _ \<Rightarrow> True | _ \<Rightarrow> False)"

definition py_callable_tag_ok :: "ty \<Rightarrow> bool" where
  "py_callable_tag_ok t =
     (case t of
        TInt \<Rightarrow> True | TI8 \<Rightarrow> True | TI16 \<Rightarrow> True | TI32 \<Rightarrow> True | TU8 \<Rightarrow> True | TU16 \<Rightarrow> True | TU32 \<Rightarrow> True
      | TU64 \<Rightarrow> True | TUsize \<Rightarrow> True | TFloat \<Rightarrow> True | TF32 \<Rightarrow> True | TBool \<Rightarrow> True | TStr \<Rightarrow> True
      | TPyObject \<Rightarrow> True | TPyNamed _ _ \<Rightarrow> True | _ \<Rightarrow> False)"

fun bad_callable_param :: "nat \<Rightarrow> ty list \<Rightarrow> type_error option" where
  "bad_callable_param i [] = None"
| "bad_callable_param i (p # ps) =
     (if \<not> py_callable_tag_ok p then
        Some \<lparr>e_code = ''E0603'',
              e_title = ''parameter '' @ show_nat (i + 1) @ '' of type '' @ quoted (show_ty p) @
                ''  can't cross into a Python callable'',
              e_label = ''only int, float, bool, str, and PyObject parameters are supported'', e_notes = []\<rparr>
      else bad_callable_param (i + 1) ps)"

definition check_py_callable_shape :: "ty list \<Rightarrow> ty \<Rightarrow> type_error list" where
  "check_py_callable_shape params ret =
     (if length params > 4 then
        [\<lparr>e_code = ''E0603'',
          e_title = ''function with '' @ show_nat (length params) @
            '' parameters can't cross into a Python callable (max 4)'',
          e_label = ''the runtime trampoline only supports arity 0-4'', e_notes = []\<rparr>]
      else
        (case bad_callable_param 0 params of
           Some e \<Rightarrow> [e]
         | None \<Rightarrow>
             (if ret \<noteq> TNull \<and> \<not> py_callable_tag_ok ret then
                [\<lparr>e_code = ''E0603'',
                  e_title = ''return type '' @ quoted (show_ty ret) @ '' can't cross into a Python callable'',
                  e_label = ''only int, float, bool, str, PyObject, or no return value are supported'', e_notes = []\<rparr>]
              else [])))"

subsection \<open>The arms of unify\<close>

record unify_ctx =
  c_ffi_structs :: "string \<Rightarrow> bool"
  type_traits :: "string \<Rightarrow> string \<Rightarrow> bool"

text \<open>
  What the arm that matches two resolved types does: bind a variable or a literal, accept, report,
  unify pairs of parts (through \<open>unify_elem\<close> for the elements of containers), compare two unions, or
  look for a member of a union.
\<close>

datatype arm =
    BindVar nat ty
  | BindInt nat ty
  | BindFloat nat ty
  | Accept
  | Report "type_error list"
  | Parts "(ty \<times> ty) list"
  | Elems "(ty \<times> ty) list"
  | UnionPair "ty list" "ty list"
  | UnionMember ty "ty list"

definition dest_var :: "ty \<Rightarrow> nat option" where
  "dest_var t = (case t of TVar v \<Rightarrow> Some v | _ \<Rightarrow> None)"

definition dest_int_literal :: "ty \<Rightarrow> nat option" where
  "dest_int_literal t = (case t of TIntegerLiteral v \<Rightarrow> Some v | _ \<Rightarrow> None)"

definition dest_float_literal :: "ty \<Rightarrow> nat option" where
  "dest_float_literal t = (case t of TFloatLiteral v \<Rightarrow> Some v | _ \<Rightarrow> None)"

definition dest_union :: "ty \<Rightarrow> ty list option" where
  "dest_union t = (case t of TUnion ms \<Rightarrow> Some ms | _ \<Rightarrow> None)"

text \<open>An arm \<open>(C, other) | (other, C)\<close>: the left type is tried first.\<close>

definition either :: "(ty \<Rightarrow> 'a option) \<Rightarrow> ty \<Rightarrow> ty \<Rightarrow> ('a \<times> ty) option" where
  "either dest t1 t2 =
     (case dest t1 of
        Some x \<Rightarrow> Some (x, t2)
      | None \<Rightarrow> (case dest t2 of Some x \<Rightarrow> Some (x, t1) | None \<Rightarrow> None))"

definition mismatch :: "ty \<Rightarrow> ty \<Rightarrow> arm" where
  "mismatch t1 t2 = Report [type_mismatch (show_ty t1) (show_ty t2)]"

definition named_args :: "ty \<Rightarrow> ty \<Rightarrow> string \<Rightarrow> ty list \<Rightarrow> string \<Rightarrow> ty list \<Rightarrow> arm" where
  "named_args t1 t2 a_name a_args b_name b_args =
     (if a_name \<noteq> b_name \<or> length a_args \<noteq> length b_args then mismatch t1 t2
      else Parts (zip a_args b_args))"

definition trait_arm :: "unify_ctx \<Rightarrow> string \<Rightarrow> string \<Rightarrow> arm" where
  "trait_arm ctx trait_name struct_name =
     (if type_traits ctx struct_name trait_name then Accept
      else Report
        [\<lparr>e_code = ''E0415'',
          e_title = quoted struct_name @ '' does not implement trait '' @ quoted trait_name,
          e_label = ''the trait '' @ quoted trait_name @ '' is not implemented for '' @ quoted struct_name,
          e_notes = []\<rparr>])"

definition expected_notes :: "ty \<Rightarrow> ty \<Rightarrow> string list" where
  "expected_notes t1 t2 = [''expected '' @ quoted (show_ty t1), ''   found '' @ quoted (show_ty t2)]"

definition tuple_arm :: "ty \<Rightarrow> ty \<Rightarrow> ty list \<Rightarrow> ty list \<Rightarrow> arm" where
  "tuple_arm t1 t2 a b =
     (if length a \<noteq> length b then
        Report [\<lparr>e_code = ''E0401'', e_title = ''tuple length mismatch'',
          e_label = ''expected a '' @ show_nat (length a) @ ''-tuple, found a '' @ show_nat (length b) @ ''-tuple'',
          e_notes = expected_notes t1 t2\<rparr>]
      else Parts (zip a b))"

definition fn_arm :: "ty \<Rightarrow> ty \<Rightarrow> ty list \<Rightarrow> ty \<Rightarrow> ty list \<Rightarrow> ty list \<Rightarrow> ty \<Rightarrow> ty list \<Rightarrow> arm" where
  "fn_arm t1 t2 p1 r1 a1 p2 r2 a2 =
     (if length p1 \<noteq> length p2 \<or> length a1 \<noteq> length a2 then
        Report [\<lparr>e_code = ''E0402'', e_title = ''function signature mismatch'',
          e_label = ''expected '' @ show_nat (length p1) @ '' parameter(s), found '' @ show_nat (length p2),
          e_notes = expected_notes t1 t2\<rparr>]
      else Parts (zip p1 p2 @ [(r1, r2)] @ zip a1 a2))"

text \<open>The arms that compare two types of one shape.\<close>

definition shape_arm :: "unify_ctx \<Rightarrow> ty \<Rightarrow> ty \<Rightarrow> arm option" where
  "shape_arm ctx t1 t2 =
     (case t1 of
        TPtr a \<Rightarrow> (case t2 of TPtr b \<Rightarrow> Some (Parts [(a, b)]) | _ \<Rightarrow> None)
      | TRef a \<Rightarrow> (case t2 of TRef b \<Rightarrow> Some (Parts [(a, b)]) | TMutRef b \<Rightarrow> Some (Parts [(a, b)]) | _ \<Rightarrow> None)
      | TMutRef a \<Rightarrow> (case t2 of TMutRef b \<Rightarrow> Some (Parts [(a, b)]) | _ \<Rightarrow> None)
      | TList a \<Rightarrow> (case t2 of TList b \<Rightarrow> Some (Elems [(a, b)]) | _ \<Rightarrow> None)
      | TSet a \<Rightarrow> (case t2 of TSet b \<Rightarrow> Some (Elems [(a, b)]) | _ \<Rightarrow> None)
      | TFuture a \<Rightarrow> (case t2 of TFuture b \<Rightarrow> Some (Parts [(a, b)]) | _ \<Rightarrow> None)
      | TDict k1 v1 \<Rightarrow> (case t2 of TDict k2 v2 \<Rightarrow> Some (Elems [(k1, k2), (v1, v2)]) | _ \<Rightarrow> None)
      | TTuple a \<Rightarrow> (case t2 of TTuple b \<Rightarrow> Some (tuple_arm t1 t2 a b) | _ \<Rightarrow> None)
      | TFn p1 r1 a1 \<Rightarrow> (case t2 of TFn p2 r2 a2 \<Rightarrow> Some (fn_arm t1 t2 p1 r1 a1 p2 r2 a2) | _ \<Rightarrow> None)
      | TU64 \<Rightarrow> (case t2 of TInt \<Rightarrow> Some Accept | _ \<Rightarrow> None)
      | TInt \<Rightarrow>
          (case t2 of TU64 \<Rightarrow> Some Accept
           | TStruct name _ _ \<Rightarrow> if c_ffi_structs ctx name then Some Accept else None
           | _ \<Rightarrow> None)
      | TStruct name as _ \<Rightarrow>
          (case t2 of TInt \<Rightarrow> if c_ffi_structs ctx name then Some Accept else None
           | TStruct b_name bs _ \<Rightarrow> Some (named_args t1 t2 name as b_name bs)
           | TTraitObject trait_name _ \<Rightarrow> Some (trait_arm ctx trait_name name)
           | _ \<Rightarrow> None)
      | TEnum name as \<Rightarrow> (case t2 of TEnum b_name bs \<Rightarrow> Some (named_args t1 t2 name as b_name bs) | _ \<Rightarrow> None)
      | TTraitObject name as \<Rightarrow>
          (case t2 of TTraitObject b_name bs \<Rightarrow> Some (named_args t1 t2 name as b_name bs)
           | TStruct struct_name _ _ \<Rightarrow> Some (trait_arm ctx name struct_name)
           | _ \<Rightarrow> None)
      | TParam a \<Rightarrow> (case t2 of TParam b \<Rightarrow> Some (if a \<noteq> b then mismatch t1 t2 else Accept) | _ \<Rightarrow> None)
      | _ \<Rightarrow> None)"

definition py_arm :: "ty \<Rightarrow> arm" where
  "py_arm other =
     (case other of TFn params ret _ \<Rightarrow> Report (check_py_callable_shape params ret) | _ \<Rightarrow> Accept)"

definition py_named_arm :: "ty \<Rightarrow> ty \<Rightarrow> arm option" where
  "py_named_arm t1 t2 =
     (case t1 of
        TPyNamed m1 n1 \<Rightarrow>
          (case t2 of
             TPyNamed m2 n2 \<Rightarrow>
               Some (if m1 \<noteq> m2 \<or> n1 \<noteq> n2
                     then Report [type_mismatch (m1 @ ''.'' @ n1) (m2 @ ''.'' @ n2)] else Accept)
           | _ \<Rightarrow> None)
      | _ \<Rightarrow> None)"

definition null_arm :: "ty \<Rightarrow> ty \<Rightarrow> bool" where
  "null_arm t1 t2 \<longleftrightarrow> t1 = TNull \<and> is_nullable_target t2 \<or> t2 = TNull \<and> is_nullable_target t1"

definition union_arm :: "ty \<Rightarrow> ty \<Rightarrow> arm option" where
  "union_arm t1 t2 =
     (case (dest_union t1, dest_union t2) of
        (Some as, Some bs) \<Rightarrow> Some (UnionPair as bs)
      | (None, Some ms) \<Rightarrow> Some (UnionMember t1 ms)
      | (Some ms, None) \<Rightarrow> Some (UnionMember t2 ms)
      | (None, None) \<Rightarrow> None)"

text \<open>The match on the two resolved types, in the order of its arms.\<close>

definition unify_arm :: "unify_ctx \<Rightarrow> ty \<Rightarrow> ty \<Rightarrow> arm" where
  "unify_arm ctx t1 t2 =
     (case either dest_var t1 t2 of Some (v, other) \<Rightarrow> BindVar v other | None \<Rightarrow>
     (case either dest_int_literal t1 t2 of Some (v, other) \<Rightarrow> BindInt v other | None \<Rightarrow>
     (case either dest_float_literal t1 t2 of Some (v, other) \<Rightarrow> BindFloat v other | None \<Rightarrow>
     (if t1 = TAny \<or> t2 = TAny then Accept
      else if t1 = TPyObject then py_arm t2
      else if t2 = TPyObject then py_arm t1
      else (case py_named_arm t1 t2 of Some a \<Rightarrow> a | None \<Rightarrow>
     (if t1 = TNever \<or> t2 = TNever then Accept
      else (case shape_arm ctx t1 t2 of Some a \<Rightarrow> a | None \<Rightarrow>
     (if null_arm t1 t2 then Accept
      else (case union_arm t1 t2 of Some a \<Rightarrow> a | None \<Rightarrow> mismatch t1 t2)))))))))"

subsection \<open>Unification\<close>

type_synonym infer_state = "subst \<times> type_error list"

definition is_int_binding :: "ty \<Rightarrow> bool" where
  "is_int_binding t \<longleftrightarrow>
     t \<in> {TInt, TI8, TI16, TI32, TU8, TU16, TU32, TU64, TUsize, TFloat, TF32}"

definition bind_int :: "nat \<Rightarrow> ty \<Rightarrow> infer_state \<Rightarrow> infer_state" where
  "bind_int v other = (\<lambda>(\<sigma>, es).
     let fail = (\<sigma>, es @ [literal_mismatch (show_ty other) ''integer literal''])
     in if other = TAny \<or> other = TPyObject then (\<sigma>, es)
        else if is_int_binding other \<or> dest_int_literal other \<noteq> None then (\<sigma>(v \<mapsto> other), es)
        else
          (case dest_var other of
             Some w \<Rightarrow> (\<sigma>(w \<mapsto> TIntegerLiteral v), es)
           | None \<Rightarrow>
               (case dest_union other of
                  Some members \<Rightarrow>
                    (case List.find is_int_binding members of
                       Some m \<Rightarrow> (\<sigma>(v \<mapsto> m), es)
                     | None \<Rightarrow> fail)
                | None \<Rightarrow> fail)))"

definition is_float_binding :: "ty \<Rightarrow> bool" where
  "is_float_binding t \<longleftrightarrow> t \<in> {TFloat, TF32}"

definition bind_float :: "nat \<Rightarrow> ty \<Rightarrow> infer_state \<Rightarrow> infer_state" where
  "bind_float v other = (\<lambda>(\<sigma>, es).
     let fail = (\<sigma>, es @ [literal_mismatch (show_ty other) ''float literal''])
     in if other = TAny \<or> other = TPyObject then (\<sigma>, es)
        else if is_float_binding other \<or> dest_float_literal other \<noteq> None then (\<sigma>(v \<mapsto> other), es)
        else
          (case dest_var other of
             Some w \<Rightarrow> (\<sigma>(w \<mapsto> TFloatLiteral v), es)
           | None \<Rightarrow>
               (case dest_union other of
                  Some members \<Rightarrow>
                    (case List.find is_float_binding members of
                       Some m \<Rightarrow> (\<sigma>(v \<mapsto> m), es)
                     | None \<Rightarrow> fail)
                | None \<Rightarrow> fail)))"

definition infinite_type :: "ty \<Rightarrow> type_error" where
  "infinite_type other =
     \<lparr>e_code = ''E0420'', e_title = ''infinite type'',
      e_label = ''this type would contain itself: '' @ quoted (show_ty other),
      e_notes = [''Olive types must have a finite size known at compile time'']\<rparr>"

definition unions_differ :: "ty \<Rightarrow> ty \<Rightarrow> type_error" where
  "unions_differ t1 t2 =
     \<lparr>e_code = ''E0400'', e_title = ''mismatched types'',
      e_label = quoted (show_ty t1) @ '' is not compatible with '' @ quoted (show_ty t2),
      e_notes = expected_notes t1 t2\<rparr>"

definition not_a_member :: "ty \<Rightarrow> ty \<Rightarrow> type_error" where
  "not_a_member t1 t2 =
     \<lparr>e_code = ''E0400'', e_title = ''mismatched types'',
      e_label = quoted (show_ty t1) @ '' is not a member of '' @ quoted (show_ty t2),
      e_notes = [''expected one of the members of '' @ quoted (show_ty t2), ''   found '' @ quoted (show_ty t1)]\<rparr>"

definition needs_any_boxing :: "ty \<Rightarrow> bool" where
  "needs_any_boxing t \<longleftrightarrow>
     t \<in> {TInt, TI8, TI16, TI32, TU8, TU16, TU32, TU64, TUsize, TFloat, TF32, TBool, TNull} \<or>
     dest_int_literal t \<noteq> None \<or> dest_float_literal t \<noteq> None"

definition boxing_side :: "ty \<Rightarrow> ty \<Rightarrow> ty option" where
  "boxing_side a b =
     (if a = TAny \<and> needs_any_boxing b then Some b
      else if b = TAny \<and> needs_any_boxing a then Some a else None)"

definition element_aliases_any :: "ty \<Rightarrow> type_error" where
  "element_aliases_any concrete =
     \<lparr>e_code = ''E0425'', e_title = ''element type cannot alias an `Any` container'',
      e_label = ''this element is '' @ quoted (show_ty concrete) @
        '' here, but the container is also used as `Any` elsewhere; an `Any` element is stored boxed, a '' @
        quoted (show_ty concrete) @ '' is not'',
      e_notes = []\<rparr>"

text \<open>\<open>iter().any\<close> and \<open>iter().all\<close> over a test that changes the substitution.\<close>

fun any_st :: "('a \<Rightarrow> 's \<Rightarrow> (bool \<times> 's) option) \<Rightarrow> 'a list \<Rightarrow> 's \<Rightarrow> (bool \<times> 's) option" where
  "any_st f [] s = Some (False, s)"
| "any_st f (x # xs) s =
     (case f x s of None \<Rightarrow> None | Some (True, s') \<Rightarrow> Some (True, s') | Some (False, s') \<Rightarrow> any_st f xs s')"

fun all_st :: "('a \<Rightarrow> 's \<Rightarrow> (bool \<times> 's) option) \<Rightarrow> 'a list \<Rightarrow> 's \<Rightarrow> (bool \<times> 's) option" where
  "all_st f [] s = Some (True, s)"
| "all_st f (x # xs) s =
     (case f x s of None \<Rightarrow> None | Some (True, s') \<Rightarrow> all_st f xs s' | Some (False, s') \<Rightarrow> Some (False, s'))"

fun probe_compatible :: "nat \<Rightarrow> ty \<Rightarrow> ty \<Rightarrow> subst \<Rightarrow> (bool \<times> subst) option" where
  "probe_compatible 0 t1 t2 \<sigma> = None"
| "probe_compatible (Suc n) t1 t2 \<sigma> =
     do { (a, \<sigma>1) \<leftarrow> apply_subst n t1 \<sigma>;
          (b, \<sigma>2) \<leftarrow> apply_subst n t2 \<sigma>1;
          if a = b then Some (True, \<sigma>2)
          else if a \<in> {TAny, TPyObject, TNever} \<or> b \<in> {TAny, TPyObject, TNever} \<or>
                  dest_var a \<noteq> None \<or> dest_var b \<noteq> None then Some (True, \<sigma>2)
          else if a = TNull then Some (is_nullable_target b, \<sigma>2)
          else if b = TNull then Some (is_nullable_target a, \<sigma>2)
          else (case either dest_union a b of
                  Some (ms, other) \<Rightarrow> any_st (\<lambda>m. probe_compatible n m other) ms \<sigma>2
                | None \<Rightarrow> Some (False, \<sigma>2)) }"

definition unions_fit :: "nat \<Rightarrow> ty list \<Rightarrow> ty list \<Rightarrow> subst \<Rightarrow> (bool \<times> subst) option" where
  "unions_fit n as bs = all_st (\<lambda>m. any_st (probe_compatible n m) bs) as"

function (sequential) unify :: "unify_ctx \<Rightarrow> nat \<Rightarrow> ty \<Rightarrow> ty \<Rightarrow> infer_state \<Rightarrow> infer_state option"
  and unify_parts :: "unify_ctx \<Rightarrow> nat \<Rightarrow> (ty \<times> ty) list \<Rightarrow> infer_state \<Rightarrow> infer_state option"
  and unify_elems :: "unify_ctx \<Rightarrow> nat \<Rightarrow> (ty \<times> ty) list \<Rightarrow> infer_state \<Rightarrow> infer_state option"
  and unify_members :: "unify_ctx \<Rightarrow> nat \<Rightarrow> ty \<Rightarrow> ty list \<Rightarrow> infer_state \<Rightarrow> (bool \<times> infer_state) option"
  and unify_elem :: "unify_ctx \<Rightarrow> nat \<Rightarrow> ty \<Rightarrow> ty \<Rightarrow> infer_state \<Rightarrow> infer_state option"
  and unify_silently :: "unify_ctx \<Rightarrow> nat \<Rightarrow> ty \<Rightarrow> ty \<Rightarrow> infer_state \<Rightarrow> (bool \<times> infer_state) option"
where
  "unify ctx 0 t1 t2 st = None"
| "unify ctx (Suc n) t1 t2 (\<sigma>, es) =
     (case apply_subst n t1 \<sigma> of None \<Rightarrow> None | Some (a, \<sigma>1) \<Rightarrow>
     (case apply_subst n t2 \<sigma>1 of None \<Rightarrow> None | Some (b, \<sigma>2) \<Rightarrow>
     (if a = b then Some (\<sigma>2, es)
      else
       (case unify_arm ctx a b of
          BindVar v other \<Rightarrow>
            (case occurs_check n \<sigma>2 v other of
               None \<Rightarrow> None
             | Some True \<Rightarrow> Some (\<sigma>2, es @ [infinite_type other])
             | Some False \<Rightarrow> Some (\<sigma>2(v \<mapsto> other), es))
        | BindInt v other \<Rightarrow> Some (bind_int v other (\<sigma>2, es))
        | BindFloat v other \<Rightarrow> Some (bind_float v other (\<sigma>2, es))
        | Accept \<Rightarrow> Some (\<sigma>2, es)
        | Report new \<Rightarrow> Some (\<sigma>2, es @ new)
        | Parts ps \<Rightarrow> unify_parts ctx n ps (\<sigma>2, es)
        | Elems ps \<Rightarrow> unify_elems ctx n ps (\<sigma>2, es)
        | UnionPair as bs \<Rightarrow>
            (case unions_fit n as bs \<sigma>2 of None \<Rightarrow> None | Some (a_fits, \<sigma>3) \<Rightarrow>
            (case unions_fit n bs as \<sigma>3 of None \<Rightarrow> None | Some (b_fits, \<sigma>4) \<Rightarrow>
               Some (\<sigma>4, if \<not> a_fits \<and> \<not> b_fits then es @ [unions_differ a b] else es)))
        | UnionMember other members \<Rightarrow>
            (case unify_members ctx n other members (\<sigma>2, es) of
               None \<Rightarrow> None
             | Some (matched, st) \<Rightarrow> Some (if matched then st else (fst st, snd st @ [not_a_member a b])))))))"
| "unify_parts ctx n [] st = Some st"
| "unify_parts ctx n ((x, y) # ps) st =
     (case unify ctx n x y st of None \<Rightarrow> None | Some st' \<Rightarrow> unify_parts ctx n ps st')"
| "unify_elems ctx n [] st = Some st"
| "unify_elems ctx n ((x, y) # ps) st =
     (case unify_elem ctx n x y st of None \<Rightarrow> None | Some st' \<Rightarrow> unify_elems ctx n ps st')"
| "unify_members ctx n other [] st = Some (False, st)"
| "unify_members ctx n other (m # ms) st =
     (case unify_silently ctx n other m st of
        None \<Rightarrow> None
      | Some (True, st') \<Rightarrow> Some (True, st')
      | Some (False, st') \<Rightarrow> unify_members ctx n other ms st')"
| "unify_elem ctx n a b (\<sigma>, es) =
     (case apply_subst n a \<sigma> of None \<Rightarrow> None | Some (ra, \<sigma>1) \<Rightarrow>
     (case apply_subst n b \<sigma>1 of None \<Rightarrow> None | Some (rb, \<sigma>2) \<Rightarrow>
     (case boxing_side ra rb of
        Some concrete \<Rightarrow> Some (\<sigma>2, es @ [element_aliases_any concrete])
      | None \<Rightarrow> unify ctx n a b (\<sigma>2, es))))"
| "unify_silently ctx n a b (\<sigma>, es) =
     (case unify ctx n a b (\<sigma>, es) of
        None \<Rightarrow> None
      | Some (\<sigma>', es') \<Rightarrow>
          if length es' > length es then Some (False, \<sigma>, take (length es) es') else Some (True, \<sigma>', es'))"
  by pat_completeness auto

termination
  by (relation "measures [\<lambda>x. case x of
        Inl (Inl (_, n, _)) \<Rightarrow> n | Inl (Inr (Inl (_, n, _))) \<Rightarrow> n | Inl (Inr (Inr (_, n, _))) \<Rightarrow> n
      | Inr (Inl (_, n, _)) \<Rightarrow> n | Inr (Inr (Inl (_, n, _))) \<Rightarrow> n | Inr (Inr (Inr (_, n, _))) \<Rightarrow> n,
     \<lambda>x. case x of
        Inl (Inl _) \<Rightarrow> 0 | Inl (Inr (Inl (_, _, ps, _))) \<Rightarrow> 2 + length ps | Inl (Inr (Inr (_, _, ps, _))) \<Rightarrow> 2 + length ps
      | Inr (Inl (_, _, _, ms, _)) \<Rightarrow> 2 + length ms | Inr (Inr _) \<Rightarrow> 1]") auto

subsection \<open>The join of two branches\<close>

definition is_join_transparent :: "ty \<Rightarrow> bool" where
  "is_join_transparent t \<longleftrightarrow> t = TAny \<or> dest_var t \<noteq> None"

definition push_new :: "ty list \<Rightarrow> ty \<Rightarrow> ty list" where
  "push_new members t = (if t \<in> set members then members else members @ [t])"

definition join_members :: "ty \<Rightarrow> ty \<Rightarrow> ty list" where
  "join_members acc next_ty =
     foldl (\<lambda>members t. case dest_union t of Some ms \<Rightarrow> foldl push_new members ms | None \<Rightarrow> push_new members t)
       [] [acc, next_ty]"

definition join_branch_ty :: "unify_ctx \<Rightarrow> nat \<Rightarrow> ty \<Rightarrow> ty \<Rightarrow> infer_state \<Rightarrow> (ty \<times> infer_state) option" where
  "join_branch_ty ctx n acc0 next0 = (\<lambda>(\<sigma>, es).
     (case apply_subst n acc0 \<sigma> of None \<Rightarrow> None | Some (acc, \<sigma>1) \<Rightarrow>
     (case apply_subst n next0 \<sigma>1 of None \<Rightarrow> None | Some (next_ty, \<sigma>2) \<Rightarrow>
     (if acc = next_ty then Some (acc, \<sigma>2, es)
      else if acc = TNever then Some (next_ty, \<sigma>2, es)
      else if next_ty = TNever then Some (acc, \<sigma>2, es)
      else if is_py_value acc \<noteq> is_py_value next_ty \<and> \<not> is_join_transparent acc \<and> \<not> is_join_transparent next_ty
      then Some (TUnion (join_members acc next_ty), \<sigma>2, es)
      else
       (case unify ctx n acc next_ty (\<sigma>2, es) of None \<Rightarrow> None | Some (\<sigma>3, es3) \<Rightarrow>
       (case apply_subst n acc \<sigma>3 of None \<Rightarrow> None | Some (resolved, \<sigma>4) \<Rightarrow>
          (if dest_var resolved \<noteq> None
           then (case apply_subst n next_ty \<sigma>4 of None \<Rightarrow> None | Some (r, \<sigma>5) \<Rightarrow> Some (r, \<sigma>5, es3))
           else Some (resolved, \<sigma>4, es3))))))))"

end
