(* ===== verification/UnifyProps.thy ===== *)
theory UnifyProps
  imports Unify
begin

text \<open>
  The substitution of the type checker: what a type resolves to is a relation that does not change a
  substitution, and applying the substitution with path compression computes it.
\<close>

subsection \<open>Types as trees\<close>

definition var_id :: "ty \<Rightarrow> nat option" where
  "var_id t = (case t of TVar v \<Rightarrow> Some v | TIntegerLiteral v \<Rightarrow> Some v | TFloatLiteral v \<Rightarrow> Some v | _ \<Rightarrow> None)"

text \<open>The parts of a type that the walks go into, and the type with other parts in their place.\<close>

fun sub_tys :: "ty \<Rightarrow> ty list" where
  "sub_tys (TList a) = [a]"
| "sub_tys (TSet a) = [a]"
| "sub_tys (TPtr a) = [a]"
| "sub_tys (TRef a) = [a]"
| "sub_tys (TMutRef a) = [a]"
| "sub_tys (TFuture a) = [a]"
| "sub_tys (TDict k v) = [k, v]"
| "sub_tys (TTuple ts) = ts"
| "sub_tys (TFn ps r as) = ps @ [r] @ as"
| "sub_tys (TStruct _ as _) = as"
| "sub_tys (TEnum _ as) = as"
| "sub_tys (TTraitObject _ as) = as"
| "sub_tys (TUnion ms) = ms"
| "sub_tys _ = []"

fun with_parts :: "ty \<Rightarrow> ty list \<Rightarrow> ty" where
  "with_parts (TList _) us = TList (us ! 0)"
| "with_parts (TSet _) us = TSet (us ! 0)"
| "with_parts (TPtr _) us = TPtr (us ! 0)"
| "with_parts (TRef _) us = TRef (us ! 0)"
| "with_parts (TMutRef _) us = TMutRef (us ! 0)"
| "with_parts (TFuture _) us = TFuture (us ! 0)"
| "with_parts (TDict _ _) us = TDict (us ! 0) (us ! 1)"
| "with_parts (TTuple _) us = TTuple us"
| "with_parts (TFn ps _ _) us = TFn (take (length ps) us) (us ! length ps) (drop (Suc (length ps)) us)"
| "with_parts (TStruct n _ f) us = TStruct n us f"
| "with_parts (TEnum n _) us = TEnum n us"
| "with_parts (TTraitObject n _) us = TTraitObject n us"
| "with_parts (TUnion _) us = TUnion us"
| "with_parts t _ = t"

lemma size_sub: "u \<in> set (sub_tys t) \<Longrightarrow> size u < size t"
proof -
  have le: "size u \<le> size_list size us" if "u \<in> set us" for us
    using size_list_estimation' [OF that, of "size u" size] by simp
  assume "u \<in> set (sub_tys t)"
  then show ?thesis by (cases t) (auto simp: less_Suc_eq_le dest!: le)
qed

lemma with_parts_self [simp]: "with_parts t (sub_tys t) = t"
  by (cases t) auto

lemma sub_with_parts [simp]:
  "length us = length (sub_tys t) \<Longrightarrow> sub_tys (with_parts t us) = us"
proof (cases t)
  case (TFn ps r as)
  assume "length us = length (sub_tys t)"
  then have "length ps < length us" using TFn by simp
  then show ?thesis using TFn by (simp add: id_take_nth_drop [symmetric])
qed (auto simp: length_Suc_conv numeral_2_eq_2)

lemma var_with_parts [simp]: "var_id (with_parts t us) = var_id t"
  by (cases t) (auto simp: var_id_def)

lemma var_no_parts: "var_id t = Some v \<Longrightarrow> sub_tys t = []"
  by (cases t) (auto simp: var_id_def)

function tvars :: "ty \<Rightarrow> nat set" where
  "tvars t = (case var_id t of Some v \<Rightarrow> {v} | None \<Rightarrow> (\<Union>u\<in>set (sub_tys t). tvars u))"
  by pat_completeness auto
termination by (relation "measure size") (auto simp: size_sub)

declare tvars.simps [simp del]

lemma tvars_var [simp]: "var_id t = Some v \<Longrightarrow> tvars t = {v}"
  by (simp add: tvars.simps)

lemma tvars_node: "var_id t = None \<Longrightarrow> tvars t = (\<Union>u\<in>set (sub_tys t). tvars u)"
  by (simp add: tvars.simps)

lemma tvars_sub: "u \<in> set (sub_tys t) \<Longrightarrow> tvars u \<subseteq> tvars t"
  using var_no_parts [of t] by (cases "var_id t") (auto simp: tvars_node)

text \<open>A type is a variable or is built from its parts.\<close>

lemma ty_tree_induct [case_names var node]:
  assumes "\<And>t v. var_id t = Some v \<Longrightarrow> P t"
    and "\<And>t. var_id t = None \<Longrightarrow> (\<And>u. u \<in> set (sub_tys t) \<Longrightarrow> P u) \<Longrightarrow> P t"
  shows "P t"
proof (induction t rule: measure_induct_rule [of size])
  case (less t)
  then show ?case using assms size_sub by (cases "var_id t") blast+
qed

subsection \<open>Resolution\<close>

inductive resolves :: "subst \<Rightarrow> ty \<Rightarrow> ty \<Rightarrow> bool" for \<sigma> where
  bound: "var_id t = Some v \<Longrightarrow> \<sigma> v = Some u \<Longrightarrow> resolves \<sigma> u r \<Longrightarrow> resolves \<sigma> t r"
| free: "var_id t = Some v \<Longrightarrow> \<sigma> v = None \<Longrightarrow> resolves \<sigma> t t"
| node: "var_id t = None \<Longrightarrow> list_all2 (resolves \<sigma>) (sub_tys t) us \<Longrightarrow> resolves \<sigma> t (with_parts t us)"

inductive_cases resolves_cases: "resolves \<sigma> t r"

lemma resolves_node_iff:
  "var_id t = None \<Longrightarrow>
     resolves \<sigma> t r \<longleftrightarrow> (\<exists>us. r = with_parts t us \<and> list_all2 (resolves \<sigma>) (sub_tys t) us)"
  by (auto elim: resolves_cases intro: resolves.node)

lemma resolves_var_iff:
  "var_id t = Some v \<Longrightarrow>
     resolves \<sigma> t r \<longleftrightarrow> (case \<sigma> v of Some u \<Rightarrow> resolves \<sigma> u r | None \<Rightarrow> r = t)"
  by (auto elim: resolves_cases intro: resolves.bound resolves.free split: option.splits)

lemma resolves_unique: "resolves \<sigma> t r \<Longrightarrow> resolves \<sigma> t r' \<Longrightarrow> r = r'"
proof (induction arbitrary: r' rule: resolves.induct)
  case (node t us)
  then obtain us' where us': "r' = with_parts t us'" "list_all2 (resolves \<sigma>) (sub_tys t) us'"
    by (auto simp: resolves_node_iff)
  have "us = us'"
  proof (rule nth_equalityI)
    show "length us = length us'" using node(2) us'(2) by (auto dest!: list_all2_lengthD)
    fix i assume "i < length us"
    then show "us ! i = us' ! i" using node(2) us'(2) by (auto simp: list_all2_conv_all_nth)
  qed
  with us' show ?case by simp
qed (auto simp: resolves_var_iff)

text \<open>A substitution without cycles: the variables of a binding have smaller ranks.\<close>

definition ranked :: "(nat \<Rightarrow> nat) \<Rightarrow> subst \<Rightarrow> bool" where
  "ranked rk \<sigma> \<longleftrightarrow> (\<forall>v u w. \<sigma> v = Some u \<longrightarrow> w \<in> tvars u \<longrightarrow> rk w < rk v)"

lemma rankedD: "ranked rk \<sigma> \<Longrightarrow> \<sigma> v = Some u \<Longrightarrow> w \<in> tvars u \<Longrightarrow> rk w < rk v"
  by (auto simp: ranked_def)

text \<open>An induction that may step from a variable to what it is bound to.\<close>

lemma ranked_induct [consumes 1, case_names bound free node]:
  assumes rk: "ranked rk \<sigma>"
    and bound: "\<And>t v u. var_id t = Some v \<Longrightarrow> \<sigma> v = Some u \<Longrightarrow> P u \<Longrightarrow> P t"
    and free: "\<And>t v. var_id t = Some v \<Longrightarrow> \<sigma> v = None \<Longrightarrow> P t"
    and node: "\<And>t. var_id t = None \<Longrightarrow> (\<And>u. u \<in> set (sub_tys t) \<Longrightarrow> P u) \<Longrightarrow> P t"
  shows "P t"
proof -
  have "\<forall>t. (\<forall>w\<in>tvars t. rk w < k) \<longrightarrow> P t" for k
  proof (induction k)
    case 0
    have "(\<forall>w\<in>tvars t. False) \<longrightarrow> P t" for t
      by (induction t rule: ty_tree_induct) (auto simp: tvars_node intro: node)
    then show ?case by simp
  next
    case (Suc k)
    have "(\<forall>w\<in>tvars t. rk w < Suc k) \<longrightarrow> P t" for t
    proof (induction t rule: ty_tree_induct)
      case (var t v)
      show ?case
      proof (cases "\<sigma> v")
        case (Some u)
        show ?thesis
        proof
          assume "\<forall>w\<in>tvars t. rk w < Suc k"
          then have "\<forall>w\<in>tvars u. rk w < k" using rankedD [OF rk Some] var by fastforce
          with Suc have "P u" by blast
          with bound var Some show "P t" by blast
        qed
      qed (use free var in blast)
    next
      case (node t)
      then show ?case using assms(4) [of t] by (auto simp: tvars_node)
    qed
    then show ?case by blast
  qed
  moreover have "finite (tvars t)"
    by (induction t rule: ty_tree_induct) (auto simp: tvars_node)
  then have "\<forall>w\<in>tvars t. rk w < Suc (Max (rk ` tvars t))" by (auto simp: le_imp_less_Suc)
  ultimately show ?thesis by blast
qed

lemma resolves_total: "ranked rk \<sigma> \<Longrightarrow> \<exists>r. resolves \<sigma> t r"
proof (induction t rule: ranked_induct)
  case (node t)
  then have "\<forall>u\<in>set (sub_tys t). \<exists>r. resolves \<sigma> u r" by blast
  then obtain g where "\<forall>u\<in>set (sub_tys t). resolves \<sigma> u (g u)" by metis
  then have "list_all2 (resolves \<sigma>) (sub_tys t) (map g (sub_tys t))"
    by (auto simp: list_all2_conv_all_nth)
  with node(1) show ?case by (blast intro: resolves.node)
qed (auto intro: resolves.intros)

text \<open>The variables of a resolved type are free and rank no higher than those it came from.\<close>

lemma resolves_vars:
  assumes "resolves \<sigma> t r"
  shows "tvars r \<inter> dom \<sigma> = {}" "ranked rk \<sigma> \<Longrightarrow> w \<in> tvars r \<Longrightarrow> \<exists>v\<in>tvars t. rk w \<le> rk v"
    "tvars r \<subseteq> tvars t \<union> (\<Union>u\<in>ran \<sigma>. tvars u)"
proof -
  have "tvars r \<inter> dom \<sigma> = {} \<and> (ranked rk \<sigma> \<longrightarrow> (\<forall>w\<in>tvars r. \<exists>v\<in>tvars t. rk w \<le> rk v)) \<and>
      tvars r \<subseteq> tvars t \<union> (\<Union>u\<in>ran \<sigma>. tvars u)"
    using assms
  proof (induction rule: resolves.induct)
    case (bound t v u r)
    have "\<exists>v'\<in>tvars t. rk w \<le> rk v'" if w: "ranked rk \<sigma>" "w \<in> tvars r" for w
    proof -
      obtain v' where v': "v' \<in> tvars u" "rk w \<le> rk v'" using bound.IH w by blast
      then have "rk v' < rk v" using rankedD [OF w(1) bound(2)] by blast
      with v' bound(1) show ?thesis by auto
    qed
    moreover have "u \<in> ran \<sigma>" using bound(2) by (rule ranI)
    ultimately show ?case using bound by blast
  next
    case (node t us)
    have l: "length us = length (sub_tys t)" using node(2) by (auto dest: list_all2_lengthD)
    have each: "\<exists>x\<in>set (sub_tys t). tvars u \<inter> dom \<sigma> = {} \<and> (ranked rk \<sigma> \<longrightarrow> (\<forall>w\<in>tvars u. \<exists>v\<in>tvars x. rk w \<le> rk v)) \<and>
        tvars u \<subseteq> tvars x \<union> (\<Union>u\<in>ran \<sigma>. tvars u)" if "u \<in> set us" for u
    proof -
      obtain i where i: "i < length us" "us ! i = u" using \<open>u \<in> set us\<close> by (auto simp: in_set_conv_nth)
      then have "sub_tys t ! i \<in> set (sub_tys t)" using l by simp
      moreover note list_all2_nthD2 [OF node(2) i(1)]
      ultimately show ?thesis unfolding i(2) by blast
    qed
    have v: "tvars (with_parts t us) = (\<Union>u\<in>set us. tvars u)" "tvars t = (\<Union>u\<in>set (sub_tys t). tvars u)"
      using node(1) l by (simp_all add: tvars_node)
    have pick: "\<exists>u x. u \<in> set us \<and> w \<in> tvars u \<and> x \<in> set (sub_tys t) \<and> w \<notin> dom \<sigma> \<and>
        (ranked rk \<sigma> \<longrightarrow> (\<exists>v\<in>tvars x. rk w \<le> rk v)) \<and> (w \<in> tvars x \<or> w \<in> (\<Union>u\<in>ran \<sigma>. tvars u))"
      if w: "w \<in> (\<Union>u\<in>set us. tvars u)" for w
    proof -
      obtain u where u: "u \<in> set us" "w \<in> tvars u" using w by blast
      obtain x where x: "x \<in> set (sub_tys t)" "tvars u \<inter> dom \<sigma> = {}"
        "ranked rk \<sigma> \<longrightarrow> (\<forall>w\<in>tvars u. \<exists>v\<in>tvars x. rk w \<le> rk v)" "tvars u \<subseteq> tvars x \<union> (\<Union>u\<in>ran \<sigma>. tvars u)"
        using each [OF u(1)] by (elim bexE conjE)
      have "w \<notin> dom \<sigma>" using x(2) u(2) by auto
      moreover have "ranked rk \<sigma> \<longrightarrow> (\<exists>v\<in>tvars x. rk w \<le> rk v)" using x(3) u(2) by simp
      moreover have "w \<in> tvars x \<or> w \<in> (\<Union>u\<in>ran \<sigma>. tvars u)" using x(4) u(2) by auto
      ultimately show ?thesis using u x(1) by metis
    qed
    show ?case unfolding v
    proof (intro conjI impI ballI subsetI equals0I)
      fix w assume "w \<in> (\<Union>u\<in>set us. tvars u) \<inter> dom \<sigma>"
      then show False using pick [of w] by (elim IntE) metis
    next
      fix w assume w: "ranked rk \<sigma>" "w \<in> (\<Union>u\<in>set us. tvars u)"
      show "\<exists>v\<in>\<Union>u\<in>set (sub_tys t). tvars u. rk w \<le> rk v" using pick [OF w(2)] w(1) by (metis UN_I)
    next
      fix w assume w: "w \<in> (\<Union>u\<in>set us. tvars u)"
      show "w \<in> (\<Union>u\<in>set (sub_tys t). tvars u) \<union> (\<Union>u\<in>ran \<sigma>. tvars u)" using pick [OF w] by (metis UN_I UnI1 UnI2)
    qed
  qed auto
  then show "tvars r \<inter> dom \<sigma> = {}" "ranked rk \<sigma> \<Longrightarrow> w \<in> tvars r \<Longrightarrow> \<exists>v\<in>tvars t. rk w \<le> rk v"
    "tvars r \<subseteq> tvars t \<union> (\<Union>u\<in>ran \<sigma>. tvars u)" by blast+
qed

lemma resolves_self: "tvars t \<inter> dom \<sigma> = {} \<Longrightarrow> resolves \<sigma> t t"
proof (induction t rule: ty_tree_induct)
  case (var t v)
  then show ?case by (auto intro: resolves.free)
next
  case (node t)
  then have "list_all2 (resolves \<sigma>) (sub_tys t) (sub_tys t)"
    by (fastforce simp: list_all2_same tvars_node)
  from resolves.node [OF node(1) this] show ?case by simp
qed

text \<open>Two substitutions that bind the same variables and resolve every type alike.\<close>

definition same_solution :: "subst \<Rightarrow> subst \<Rightarrow> bool" where
  "same_solution \<sigma> \<sigma>' \<longleftrightarrow> dom \<sigma>' = dom \<sigma> \<and> resolves \<sigma>' = resolves \<sigma>"

lemma same_solution_refl [simp]: "same_solution \<sigma> \<sigma>"
  by (simp add: same_solution_def)

lemma same_solution_trans: "same_solution \<sigma> \<sigma>1 \<Longrightarrow> same_solution \<sigma>1 \<sigma>2 \<Longrightarrow> same_solution \<sigma> \<sigma>2"
  by (simp add: same_solution_def)

lemma compress:
  assumes rk: "ranked rk \<sigma>" and v: "\<sigma> v = Some u" and r: "resolves \<sigma> u r"
  shows "ranked rk (\<sigma>(v \<mapsto> r))" "same_solution \<sigma> (\<sigma>(v \<mapsto> r))"
proof -
  let ?\<sigma> = "\<sigma>(v \<mapsto> r)"
  have low: "rk w < rk v" if "w \<in> tvars r" for w
    using resolves_vars(2) [OF r rk that] rankedD [OF rk v] by fastforce
  show rk': "ranked rk ?\<sigma>" using rk low by (auto simp: ranked_def)
  have d: "dom ?\<sigma> = dom \<sigma>" using v by auto
  have "resolves ?\<sigma> r r" by (rule resolves_self) (use resolves_vars(1) [OF r] d in simp)
  have forth: "resolves ?\<sigma> t x" if "resolves \<sigma> t x" for t x
    using that
  proof (induction rule: resolves.induct)
    case (bound t w u' x)
    show ?case
    proof (cases "w = v")
      case True
      then have "x = r" using resolves_unique [OF r] bound(2,3) v by simp
      with \<open>resolves ?\<sigma> r r\<close> True bound(1) show ?thesis by (metis fun_upd_same resolves.bound)
    next
      case False
      with bound show ?thesis by (intro resolves.bound [of t w]) auto
    qed
  next
    case (free t w)
    then show ?case using v by (intro resolves.free) auto
  next
    case (node t us)
    have "list_all2 (resolves ?\<sigma>) (sub_tys t) us" using node(2) by (rule list_all2_mono) (erule conjunct2)
    with node(1) show ?case by (rule resolves.node)
  qed
  have "resolves ?\<sigma> t x \<longleftrightarrow> resolves \<sigma> t x" for t x
    using forth resolves_total [OF rk, of t] resolves_unique by blast
  with d show "same_solution \<sigma> ?\<sigma>" by (simp add: same_solution_def fun_eq_iff)
qed

subsection \<open>Applying the substitution\<close>

definition final_ty :: "ty \<Rightarrow> ty" where
  "final_ty t = (case t of TIntegerLiteral _ \<Rightarrow> TInt | TFloatLiteral _ \<Rightarrow> TFloat | _ \<Rightarrow> TAny)"

lemma apply_subst_list_append:
  "apply_subst_list n f (xs @ ys) \<sigma> =
     do { (xs', \<sigma>1) \<leftarrow> apply_subst_list n f xs \<sigma>;
          (ys', \<sigma>2) \<leftarrow> apply_subst_list n f ys \<sigma>1;
          Some (xs' @ ys', \<sigma>2) }"
  by (induction xs arbitrary: \<sigma>) (auto split: bind_splits prod.splits)

lemma apply_subst_list_length: "apply_subst_list n f ts \<sigma> = Some (us, \<sigma>') \<Longrightarrow> length us = length ts"
  by (induction ts arbitrary: us \<sigma> \<sigma>') (auto simp: Option.bind_eq_Some_conv split: prod.splits)

lemma apply_subst_unfold:
  "apply_subst_impl (Suc n) f t \<sigma> =
     (case var_id t of
        Some v \<Rightarrow>
          (case \<sigma> v of
             Some u \<Rightarrow> do { (r, \<sigma>') \<leftarrow> apply_subst_impl n f u \<sigma>; Some (r, \<sigma>'(v \<mapsto> r)) }
           | None \<Rightarrow> Some (if f then final_ty t else t, \<sigma>))
      | None \<Rightarrow> do { (us, \<sigma>') \<leftarrow> apply_subst_list n f (sub_tys t) \<sigma>; Some (with_parts t us, \<sigma>') })"
  by (cases t) (auto simp: var_id_def final_ty_def apply_subst_list_append nth_append dest!: apply_subst_list_length
      split: bind_splits prod.splits option.splits)

declare apply_subst_impl.simps(2) [simp del]

text \<open>What applying the substitution gives, for any amount of fuel that is enough.\<close>

definition applies :: "(nat \<Rightarrow> nat) \<Rightarrow> subst \<Rightarrow> subst \<Rightarrow> bool" where
  "applies rk \<sigma> \<sigma>' \<longleftrightarrow> ranked rk \<sigma>' \<and> same_solution \<sigma> \<sigma>'"

lemma apply_list_spec:
  assumes one: "\<And>t \<sigma> r \<sigma>'. apply_subst n t \<sigma> = Some (r, \<sigma>') \<Longrightarrow> ranked rk \<sigma> \<Longrightarrow> resolves \<sigma> t r \<and> applies rk \<sigma> \<sigma>'"
  shows "apply_subst_list n False ts \<sigma> = Some (rs, \<sigma>') \<Longrightarrow> ranked rk \<sigma> \<Longrightarrow>
    list_all2 (resolves \<sigma>) ts rs \<and> applies rk \<sigma> \<sigma>'"
proof (induction ts arbitrary: \<sigma> rs)
  case (Cons t ts)
  obtain r \<sigma>1 rs' where r: "apply_subst n t \<sigma> = Some (r, \<sigma>1)"
    "apply_subst_list n False ts \<sigma>1 = Some (rs', \<sigma>')" "rs = r # rs'"
    using Cons.prems(1) by (auto split: bind_splits)
  have first: "resolves \<sigma> t r" "ranked rk \<sigma>1" "same_solution \<sigma> \<sigma>1"
    using one [OF r(1) Cons.prems(2)] by (auto simp: applies_def)
  show ?case using Cons.IH [OF r(2) first(2)] first r(3) by (auto simp: applies_def same_solution_def)
qed (simp add: applies_def)

lemma apply_subst_spec:
  "apply_subst n t \<sigma> = Some (r, \<sigma>') \<Longrightarrow> ranked rk \<sigma> \<Longrightarrow> resolves \<sigma> t r \<and> applies rk \<sigma> \<sigma>'"
proof (induction n arbitrary: t \<sigma> r \<sigma>')
  case (Suc n)
  show ?case
  proof (cases "var_id t")
    case None
    then obtain us where us: "apply_subst_list n False (sub_tys t) \<sigma> = Some (us, \<sigma>')" "r = with_parts t us"
      using Suc.prems(1) by (auto simp: apply_subst_unfold split: bind_splits)
    with apply_list_spec [OF Suc.IH us(1) Suc.prems(2)] None show ?thesis by (auto intro: resolves.node)
  next
    case v: (Some v)
    show ?thesis
    proof (cases "\<sigma> v")
      case None
      with v Suc.prems show ?thesis by (auto simp: apply_subst_unfold applies_def intro: resolves.free)
    next
      case (Some u)
      then obtain \<sigma>1 where s1: "apply_subst n u \<sigma> = Some (r, \<sigma>1)" "\<sigma>' = \<sigma>1(v \<mapsto> r)"
        using Suc.prems(1) v by (auto simp: apply_subst_unfold split: bind_splits)
      then have ih: "resolves \<sigma> u r" "ranked rk \<sigma>1" "same_solution \<sigma> \<sigma>1"
        using Suc.IH [OF s1(1) Suc.prems(2)] by (auto simp: applies_def)
      then have t: "resolves \<sigma> t r" using Some v by (blast intro: resolves.bound)
      have "v \<in> dom \<sigma>1" using ih(3) Some by (auto simp: same_solution_def)
      then obtain u1 where u1: "\<sigma>1 v = Some u1" by blast
      then have "resolves \<sigma>1 u1 r"
        using t ih(3) resolves_var_iff [OF v, of \<sigma>1] by (simp add: same_solution_def)
      from compress [OF ih(2) u1 this] show ?thesis
        using t ih(3) same_solution_trans unfolding s1(2) applies_def by metis
    qed
  qed
qed simp

text \<open>More fuel changes nothing, and some amount is enough.\<close>

lemma apply_subst_mono: "apply_subst_impl n f t \<sigma> = Some x \<Longrightarrow> n \<le> m \<Longrightarrow> apply_subst_impl m f t \<sigma> = Some x"
  and apply_subst_list_mono: "apply_subst_list n f ts \<sigma> = Some y \<Longrightarrow> n \<le> m \<Longrightarrow> apply_subst_list m f ts \<sigma> = Some y"
proof -
  have lists: "apply_subst_list (Suc n) f ts \<sigma> = Some y"
    if "\<And>t \<sigma> x. apply_subst_impl n f t \<sigma> = Some x \<Longrightarrow> apply_subst_impl (Suc n) f t \<sigma> = Some x"
      "apply_subst_list n f ts \<sigma> = Some y" for n ts \<sigma> y
    using that(2) by (induction ts arbitrary: \<sigma> y) (auto simp: that(1) split: bind_splits)
  have one: "apply_subst_impl n f t \<sigma> = Some x \<Longrightarrow> apply_subst_impl (Suc n) f t \<sigma> = Some x" for n t \<sigma> x
  proof (induction n arbitrary: t \<sigma> x)
    case (Suc n)
    show ?case
    proof (cases "var_id t")
      case None
      then obtain us \<sigma>' where us: "apply_subst_list n f (sub_tys t) \<sigma> = Some (us, \<sigma>')" "x = (with_parts t us, \<sigma>')"
        using Suc.prems by (auto simp: apply_subst_unfold [of n] split: bind_splits)
      have "apply_subst_list (Suc n) f (sub_tys t) \<sigma> = Some (us, \<sigma>')" by (rule lists [OF Suc.IH us(1)])
      then show ?thesis using None us(2) by (simp add: apply_subst_unfold [of "Suc n"])
    next
      case v: (Some v)
      show ?thesis
      proof (cases "\<sigma> v")
        case (Some u)
        then obtain r \<sigma>' where r: "apply_subst_impl n f u \<sigma> = Some (r, \<sigma>')" "x = (r, \<sigma>'(v \<mapsto> r))"
          using Suc.prems v by (auto simp: apply_subst_unfold [of n] split: bind_splits)
        from Suc.IH [OF r(1)] show ?thesis using v Some r(2) by (simp add: apply_subst_unfold [of "Suc n"])
      qed (use Suc.prems v in \<open>simp add: apply_subst_unfold\<close>)
    qed
  qed simp
  show "apply_subst_impl n f t \<sigma> = Some x \<Longrightarrow> n \<le> m \<Longrightarrow> apply_subst_impl m f t \<sigma> = Some x"
    by (induction m) (auto simp: le_Suc_eq intro: one)
  show "apply_subst_list n f ts \<sigma> = Some y \<Longrightarrow> n \<le> m \<Longrightarrow> apply_subst_list m f ts \<sigma> = Some y"
    by (induction m) (auto simp: le_Suc_eq intro: lists [OF one])
qed

lemma apply_list_total:
  assumes "ranked rk \<sigma>" and "\<And>t \<sigma>'. t \<in> set ts \<Longrightarrow> ranked rk \<sigma>' \<Longrightarrow> dom \<sigma>' = dom \<sigma> \<Longrightarrow> \<exists>n. apply_subst n t \<sigma>' \<noteq> None"
  shows "\<exists>n. apply_subst_list n False ts \<sigma> \<noteq> None"
  using assms
proof (induction ts arbitrary: \<sigma>)
  case (Cons t ts)
  obtain n r \<sigma>1 where r: "apply_subst n t \<sigma> = Some (r, \<sigma>1)" using Cons.prems(2) [of t \<sigma>] Cons.prems(1) by auto
  then have s1: "ranked rk \<sigma>1" "dom \<sigma>1 = dom \<sigma>"
    using apply_subst_spec [OF r Cons.prems(1)] by (auto simp: applies_def same_solution_def)
  then obtain m y where y: "apply_subst_list m False ts \<sigma>1 = Some y"
    using Cons.IH [OF s1(1)] Cons.prems(2) by fastforce
  have "apply_subst_list (max n m) False (t # ts) \<sigma> \<noteq> None"
    using apply_subst_mono [OF r, of "max n m"] apply_subst_list_mono [OF y, of "max n m"] by (cases y) simp
  then show ?case by blast
qed simp

lemma apply_subst_total:
  assumes "ranked rk \<sigma>"
  shows "\<exists>n. apply_subst n t \<sigma> \<noteq> None"
proof -
  have "\<forall>t \<sigma>. ranked rk \<sigma> \<longrightarrow> (\<forall>w\<in>tvars t. rk w < k) \<longrightarrow> (\<exists>n. apply_subst n t \<sigma> \<noteq> None)" for k
  proof (induction k rule: less_induct)
    case (less k)
    have "ranked rk \<sigma> \<longrightarrow> (\<forall>w\<in>tvars t. rk w < k) \<longrightarrow> (\<exists>n. apply_subst n t \<sigma> \<noteq> None)" for t \<sigma>
    proof (induction t arbitrary: \<sigma> rule: ty_tree_induct)
      case (var t v)
      show ?case
      proof (intro impI)
        assume a: "ranked rk \<sigma>" "\<forall>w\<in>tvars t. rk w < k"
        show "\<exists>n. apply_subst n t \<sigma> \<noteq> None"
        proof (cases "\<sigma> v")
          case None
          have "apply_subst (Suc 0) t \<sigma> \<noteq> None" unfolding apply_subst_unfold by (simp add: var None)
          then show ?thesis by blast
        next
          case (Some u)
          then have "rk v < k" "\<forall>w\<in>tvars u. rk w < rk v" using a var rankedD [OF a(1) Some] by auto
          then obtain n y where "apply_subst n u \<sigma> = Some y" using less a(1) by blast
          then have "apply_subst (Suc n) t \<sigma> \<noteq> None" unfolding apply_subst_unfold by (cases y) (simp add: var Some)
          then show ?thesis by blast
        qed
      qed
    next
      case (node t)
      show ?case
      proof (intro impI)
        assume a: "ranked rk \<sigma>" "\<forall>w\<in>tvars t. rk w < k"
        have "\<exists>n. apply_subst n u \<sigma>' \<noteq> None" if "u \<in> set (sub_tys t)" "ranked rk \<sigma>'" for u \<sigma>'
          using node(2) [OF that(1), of \<sigma>'] that a(2) tvars_sub [OF that(1)] by blast
        then obtain n y where "apply_subst_list n False (sub_tys t) \<sigma> = Some y"
          using apply_list_total [OF a(1), of "sub_tys t"] by blast
        then have "apply_subst (Suc n) t \<sigma> \<noteq> None" unfolding apply_subst_unfold by (cases y) (simp add: node(1))
        then show "\<exists>n. apply_subst n t \<sigma> \<noteq> None" by blast
      qed
    qed
    then show ?case by blast
  qed
  moreover have "finite (tvars t)"
    by (induction t rule: ty_tree_induct) (auto simp: tvars_node)
  then have "\<forall>w\<in>tvars t. rk w < Suc (Max (rk ` tvars t))" by (auto simp: le_imp_less_Suc)
  ultimately show ?thesis using assms by blast
qed

end
