(* ===== verification/UnifyArms.thy ===== *)
theory UnifyArms
  imports UnifyProps
begin

text \<open>
  When two types are compatible, and what each arm of \<open>unify\<close> has found out about the two types
  it was chosen for.
\<close>

subsection \<open>Compatible types\<close>

text \<open>The outermost constructors fit and have as many parts; a mutable reference serves as a shared one.\<close>

definition heads_agree :: "ty \<Rightarrow> ty \<Rightarrow> bool" where
  "heads_agree a b \<longleftrightarrow>
     (case a of
        TPtr _ \<Rightarrow> (case b of TPtr _ \<Rightarrow> True | _ \<Rightarrow> False)
      | TRef _ \<Rightarrow> (case b of TRef _ \<Rightarrow> True | TMutRef _ \<Rightarrow> True | _ \<Rightarrow> False)
      | TMutRef _ \<Rightarrow> (case b of TMutRef _ \<Rightarrow> True | _ \<Rightarrow> False)
      | TList _ \<Rightarrow> (case b of TList _ \<Rightarrow> True | _ \<Rightarrow> False)
      | TSet _ \<Rightarrow> (case b of TSet _ \<Rightarrow> True | _ \<Rightarrow> False)
      | TFuture _ \<Rightarrow> (case b of TFuture _ \<Rightarrow> True | _ \<Rightarrow> False)
      | TDict _ _ \<Rightarrow> (case b of TDict _ _ \<Rightarrow> True | _ \<Rightarrow> False)
      | TTuple as \<Rightarrow> (case b of TTuple bs \<Rightarrow> length as = length bs | _ \<Rightarrow> False)
      | TFn ps _ as \<Rightarrow> (case b of TFn qs _ bs \<Rightarrow> length ps = length qs \<and> length as = length bs | _ \<Rightarrow> False)
      | TStruct n as _ \<Rightarrow> (case b of TStruct m bs _ \<Rightarrow> n = m \<and> length as = length bs | _ \<Rightarrow> False)
      | TEnum n as \<Rightarrow> (case b of TEnum m bs \<Rightarrow> n = m \<and> length as = length bs | _ \<Rightarrow> False)
      | TTraitObject n as \<Rightarrow> (case b of TTraitObject m bs \<Rightarrow> n = m \<and> length as = length bs | _ \<Rightarrow> False)
      | _ \<Rightarrow> False)"

definition dynamic_ty :: "ty \<Rightarrow> bool" where
  "dynamic_ty t \<longleftrightarrow> t = TAny \<or> t = TPyObject \<or> t = TNever"

definition coercible :: "unify_ctx \<Rightarrow> ty \<Rightarrow> ty \<Rightarrow> bool" where
  "coercible ctx a b \<longleftrightarrow>
     (case a of
        TU64 \<Rightarrow> b = TInt
      | TStruct n _ _ \<Rightarrow>
          (case b of TInt \<Rightarrow> c_ffi_structs ctx n | TTraitObject tr _ \<Rightarrow> type_traits ctx n tr | _ \<Rightarrow> False)
      | TNull \<Rightarrow> is_nullable_target b
      | _ \<Rightarrow> False)"

text \<open>
  Two unions are always compatible here: the probe that compares them takes any variable for a fit
  and binds nothing, so it promises nothing that a later binding keeps.
\<close>

inductive compat :: "unify_ctx \<Rightarrow> ty \<Rightarrow> ty \<Rightarrow> bool" for ctx where
  refl: "compat ctx t t"
| dynamic: "dynamic_ty a \<or> dynamic_ty b \<Longrightarrow> compat ctx a b"
| coerce: "coercible ctx a b \<or> coercible ctx b a \<Longrightarrow> compat ctx a b"
| parts: "heads_agree a b \<Longrightarrow> list_all2 (compat ctx) (sub_tys a) (sub_tys b) \<Longrightarrow> compat ctx a b"
| unions: "compat ctx (TUnion as) (TUnion bs)"
| member: "m \<in> set ms \<Longrightarrow> compat ctx t m \<Longrightarrow> compat ctx t (TUnion ms)"
| member_of: "m \<in> set ms \<Longrightarrow> compat ctx t m \<Longrightarrow> compat ctx (TUnion ms) t"

lemma heads_agree_parts:
  "heads_agree a b \<Longrightarrow> var_id a = None \<and> var_id b = None \<and> length (sub_tys a) = length (sub_tys b)"
  by (auto simp: heads_agree_def var_id_def split: ty.splits)

lemma heads_agree_with_parts:
  assumes "heads_agree a b" "length us = length (sub_tys a)" "length ws = length (sub_tys b)"
  shows "heads_agree (with_parts a us) (with_parts b ws)"
  using assms by (auto simp: heads_agree_def split: ty.splits)

lemma resolves_leaf: "var_id t = None \<Longrightarrow> sub_tys t = [] \<Longrightarrow> resolves \<sigma> t r \<longleftrightarrow> r = t"
  using with_parts_self [of t] by (auto simp: resolves_node_iff)

lemma resolves_dynamic: "dynamic_ty t \<Longrightarrow> resolves \<sigma> t r \<Longrightarrow> dynamic_ty r"
  using resolves_leaf [of t \<sigma> r] by (auto simp: dynamic_ty_def var_id_def)

lemma resolves_coercible:
  assumes "coercible ctx a b" "resolves \<sigma> a x" "resolves \<sigma> b y"
  shows "coercible ctx x y"
proof -
  have "var_id a = None" "var_id b = None"
    using assms(1) by (auto simp: coercible_def var_id_def is_nullable_target_def split: ty.splits)
  with assms(2,3) obtain us ws where "x = with_parts a us" "y = with_parts b ws"
    by (auto simp: resolves_node_iff)
  then show ?thesis
    using assms(1) by (auto simp: coercible_def is_nullable_target_def split: ty.splits)
qed

lemma list_all2_member: "list_all2 R xs ys \<Longrightarrow> x \<in> set xs \<Longrightarrow> \<exists>y\<in>set ys. R x y"
  by (induction rule: list_all2_induct) auto

text \<open>Compatibility only depends on what later bindings cannot change.\<close>

lemma compat_resolves:
  "compat ctx a b \<Longrightarrow> resolves \<sigma> a x \<Longrightarrow> resolves \<sigma> b y \<Longrightarrow> compat ctx x y"
proof (induction arbitrary: x y rule: compat.induct)
  case (refl t)
  then show ?case using resolves_unique compat.refl by metis
next
  case (dynamic a b)
  then show ?case using resolves_dynamic compat.dynamic by metis
next
  case (coerce a b)
  then show ?case using resolves_coercible compat.coerce by metis
next
  case (parts a b)
  note n = heads_agree_parts [OF parts(1)]
  obtain us ws where u: "x = with_parts a us" "list_all2 (resolves \<sigma>) (sub_tys a) us"
    and w: "y = with_parts b ws" "list_all2 (resolves \<sigma>) (sub_tys b) ws"
    using parts(3,4) n by (auto simp: resolves_node_iff)
  have l: "length us = length (sub_tys a)" "length ws = length (sub_tys b)"
    using u(2) w(2) by (auto dest: list_all2_lengthD)
  have "list_all2 (compat ctx) us ws"
    using parts(2) u(2) w(2) n l by (auto simp: list_all2_conv_all_nth)
  moreover have "heads_agree x y" using heads_agree_with_parts [OF parts(1) l] u w by simp
  ultimately show ?case using l u(1) w(1) by (intro compat.parts) auto
next
  case (unions as bs)
  then show ?case by (auto simp: resolves_node_iff var_id_def intro: compat.unions)
next
  case (member m ms t)
  then obtain ws where ws: "y = TUnion ws" "list_all2 (resolves \<sigma>) ms ws"
    by (auto simp: resolves_node_iff var_id_def)
  obtain m' where "m' \<in> set ws" "resolves \<sigma> m m'" using list_all2_member [OF ws(2) member(1)] by blast
  then show ?case using member ws(1) by (auto intro: compat.member)
next
  case (member_of m ms t)
  then obtain ws where ws: "x = TUnion ws" "list_all2 (resolves \<sigma>) ms ws"
    by (auto simp: resolves_node_iff var_id_def)
  obtain m' where "m' \<in> set ws" "resolves \<sigma> m m'" using list_all2_member [OF ws(2) member_of(1)] by blast
  then show ?case using member_of ws(1) by (auto intro: compat.member_of)
qed

subsection \<open>What the arms are\<close>

lemma either_Some: "either dest a b = Some (x, other) \<longleftrightarrow> dest a = Some x \<and> other = b \<or> dest a = None \<and> dest b = Some x \<and> other = a"
  by (auto simp: either_def split: option.splits)

lemma either_None: "either dest a b = None \<longleftrightarrow> dest a = None \<and> dest b = None"
  by (auto simp: either_def split: option.splits)

lemma dest_Some:
  "dest_var t = Some v \<longleftrightarrow> t = TVar v"
  "dest_int_literal t = Some v \<longleftrightarrow> t = TIntegerLiteral v"
  "dest_float_literal t = Some v \<longleftrightarrow> t = TFloatLiteral v"
  "dest_union t = Some ms \<longleftrightarrow> t = TUnion ms"
  by (auto simp: dest_var_def dest_int_literal_def dest_float_literal_def dest_union_def split: ty.splits)

definition arm_fits :: "unify_ctx \<Rightarrow> ty \<Rightarrow> ty \<Rightarrow> arm \<Rightarrow> bool" where
  "arm_fits ctx a b arm =
     (case arm of
        Accept \<Rightarrow> a = b \<or> coercible ctx a b \<or> coercible ctx b a
      | Report new \<Rightarrow> new \<noteq> []
      | Parts ps \<Rightarrow> heads_agree a b \<and> ps = zip (sub_tys a) (sub_tys b)
      | Elems ps \<Rightarrow> heads_agree a b \<and> ps = zip (sub_tys a) (sub_tys b)
      | _ \<Rightarrow> False)"

lemmas shape_defs = named_args_def trait_arm_def tuple_arm_def fn_arm_def mismatch_def

lemma shape_arm_spec: "shape_arm ctx a b = Some arm \<Longrightarrow> arm_fits ctx a b arm"
  apply (cases a)
  apply (simp_all add: shape_arm_def)
  apply (simp_all split: ty.split_asm if_split_asm)
  apply (auto simp: arm_fits_def shape_defs coercible_def heads_agree_def zip_append split: if_splits)
  done

definition arm_ok :: "unify_ctx \<Rightarrow> ty \<Rightarrow> ty \<Rightarrow> arm \<Rightarrow> bool" where
  "arm_ok ctx a b arm =
     (case arm of
        BindVar v other \<Rightarrow> a = TVar v \<and> other = b \<or> b = TVar v \<and> other = a
      | BindInt v other \<Rightarrow> dest_var other = None \<and>
          (a = TIntegerLiteral v \<and> other = b \<or> b = TIntegerLiteral v \<and> other = a)
      | BindFloat v other \<Rightarrow> dest_var other = None \<and>
          (a = TFloatLiteral v \<and> other = b \<or> b = TFloatLiteral v \<and> other = a)
      | Accept \<Rightarrow> compat ctx a b
      | Report new \<Rightarrow> new = [] \<longrightarrow> compat ctx a b
      | Parts ps \<Rightarrow> heads_agree a b \<and> ps = zip (sub_tys a) (sub_tys b)
      | Elems ps \<Rightarrow> heads_agree a b \<and> ps = zip (sub_tys a) (sub_tys b)
      | UnionPair as bs \<Rightarrow> a = TUnion as \<and> b = TUnion bs
      | UnionMember other ms \<Rightarrow> other = a \<and> b = TUnion ms \<or> other = b \<and> a = TUnion ms)"

lemma shape_arm_ok: "shape_arm ctx a b = Some arm \<Longrightarrow> arm_ok ctx a b arm"
  using shape_arm_spec [of ctx a b arm] by (auto simp: arm_ok_def arm_fits_def intro: compat.refl compat.coerce split: arm.splits)

lemma unify_arm_ok: "arm_ok ctx a b (unify_arm ctx a b)"
proof -
  have dyn: "arm_ok ctx a b Accept" if "dynamic_ty a \<or> dynamic_ty b" 
    using that by (auto simp: arm_ok_def intro: compat.dynamic)
  have py: "arm_ok ctx a b (py_arm t)" if "dynamic_ty a \<or> dynamic_ty b" for t
    using that by (auto simp: arm_ok_def py_arm_def intro: compat.dynamic split: ty.splits)
  have named: "arm_ok ctx a b arm" if "py_named_arm a b = Some arm" for arm
    using that by (auto simp: py_named_arm_def arm_ok_def intro: compat.refl split: ty.splits if_splits)
  have null: "arm_ok ctx a b Accept" if "null_arm a b"
  proof -
    have "coercible ctx a b \<or> coercible ctx b a" using that by (auto simp: null_arm_def coercible_def)
    then show ?thesis by (auto simp: arm_ok_def intro: compat.coerce)
  qed
  have union: "arm_ok ctx a b arm" if "union_arm a b = Some arm" for arm
    using that by (auto simp: union_arm_def arm_ok_def dest_Some split: option.splits)
  have fail: "arm_ok ctx a b (mismatch a b)" by (simp add: arm_ok_def mismatch_def)
  show ?thesis
  proof (cases "either dest_var a b")
    case (Some x)
    obtain v t where x: "x = (v, t)" by (cases x)
    then have "unify_arm ctx a b = BindVar v t" using Some by (simp add: unify_arm_def)
    then show ?thesis using Some x by (auto simp: arm_ok_def either_Some dest_Some)
  next
    case v: None
    then have nv: "dest_var a = None" "dest_var b = None" by (auto simp: either_None)
    show ?thesis
    proof (cases "either dest_int_literal a b")
      case (Some x)
      obtain w t where x: "x = (w, t)" by (cases x)
      then have "unify_arm ctx a b = BindInt w t" using v Some by (simp add: unify_arm_def)
      then show ?thesis using Some x nv by (auto simp: arm_ok_def either_Some dest_Some)
    next
      case i: None
      show ?thesis
      proof (cases "either dest_float_literal a b")
        case (Some x)
        obtain w t where x: "x = (w, t)" by (cases x)
        then have "unify_arm ctx a b = BindFloat w t" using v i Some by (simp add: unify_arm_def)
        then show ?thesis using Some x nv by (auto simp: arm_ok_def either_Some dest_Some)
      next
        case f: None
        have arm: "unify_arm ctx a b =
            (if a = TAny \<or> b = TAny then Accept
             else if a = TPyObject then py_arm b
             else if b = TPyObject then py_arm a
             else (case py_named_arm a b of Some x \<Rightarrow> x | None \<Rightarrow>
            (if a = TNever \<or> b = TNever then Accept
             else (case shape_arm ctx a b of Some x \<Rightarrow> x | None \<Rightarrow>
            (if null_arm a b then Accept
             else (case union_arm a b of Some x \<Rightarrow> x | None \<Rightarrow> mismatch a b))))))"
          by (simp add: unify_arm_def v i f)
        show ?thesis unfolding arm
          using dyn py named null union fail shape_arm_ok [of ctx a b]
          by (simp only: dynamic_ty_def split: if_split option.split) blast
      qed
    qed
  qed
qed

end
