(* ===== verification/UnifySound.thy ===== *)
theory UnifySound
  imports UnifyArms
begin

text \<open>
  \<open>unify\<close> keeps the substitution free of cycles, only ever adds bindings and errors, and when it adds
  no error the two types are compatible as they then resolve.
\<close>

subsection \<open>Substitutions that extend each other\<close>

definition acyclic_subst :: "subst \<Rightarrow> bool" where
  "acyclic_subst \<sigma> \<longleftrightarrow> (\<exists>rk. ranked rk \<sigma>)"

text \<open>The later substitution binds no fewer variables, and finishes what the earlier one resolved.\<close>

definition extends :: "subst \<Rightarrow> subst \<Rightarrow> bool" where
  "extends \<sigma> \<sigma>' \<longleftrightarrow> dom \<sigma> \<subseteq> dom \<sigma>' \<and> (\<forall>t r x. resolves \<sigma> t r \<longrightarrow> resolves \<sigma>' r x \<longrightarrow> resolves \<sigma>' t x)"

text \<open>Every variable that is bound or that a binding mentions is one of \<open>U\<close>.\<close>

definition vars_in :: "nat set \<Rightarrow> subst \<Rightarrow> bool" where
  "vars_in U \<sigma> \<longleftrightarrow> dom \<sigma> \<subseteq> U \<and> (\<forall>v u. \<sigma> v = Some u \<longrightarrow> tvars u \<subseteq> U)"

lemma acyclic_total: "acyclic_subst \<sigma> \<Longrightarrow> \<exists>r. resolves \<sigma> t r"
  by (auto simp: acyclic_subst_def intro: resolves_total)

lemma resolves_idem: "resolves \<sigma> t r \<Longrightarrow> resolves \<sigma> r r"
  by (rule resolves_self, rule resolves_vars(1))

lemma resolved_free: "resolves \<sigma> t r \<Longrightarrow> tvars r \<inter> dom \<sigma> = {}"
  by (rule resolves_vars(1))

lemma vars_in_upd: "vars_in U \<sigma> \<Longrightarrow> v \<in> U \<Longrightarrow> tvars u \<subseteq> U \<Longrightarrow> vars_in U (\<sigma>(v \<mapsto> u))"
  by (simp add: vars_in_def)

lemma resolved_in: "resolves \<sigma> t r \<Longrightarrow> vars_in U \<sigma> \<Longrightarrow> tvars t \<subseteq> U \<Longrightarrow> tvars r \<subseteq> U"
proof -
  assume a: "resolves \<sigma> t r" "vars_in U \<sigma>" "tvars t \<subseteq> U"
  have "(\<Union>u\<in>ran \<sigma>. tvars u) \<subseteq> U" using a(2) by (auto simp: vars_in_def ran_def)
  with a(3) resolves_vars(3) [OF a(1)] show ?thesis by blast
qed

lemma with_with_parts [simp]:
  "length us = length (sub_tys t) \<Longrightarrow> with_parts (with_parts t us) ws = with_parts t ws"
  by (cases t) (simp_all add: min_def)

lemma extends_refl: "extends \<sigma> \<sigma>"
  using resolves_idem resolves_unique unfolding extends_def by blast

lemma same_solution_extends: "same_solution \<sigma> \<sigma>' \<Longrightarrow> extends \<sigma> \<sigma>'"
  using extends_refl [of \<sigma>] by (simp add: same_solution_def extends_def)

lemma extends_resolves: "extends \<sigma> \<sigma>' \<Longrightarrow> resolves \<sigma> t r \<Longrightarrow> acyclic_subst \<sigma>' \<Longrightarrow> resolves \<sigma>' t x \<Longrightarrow> resolves \<sigma>' r x"
  using acyclic_total [of \<sigma>' r] resolves_unique unfolding extends_def by blast

lemma extends_trans:
  assumes "extends \<sigma> \<sigma>1" "extends \<sigma>1 \<sigma>2" "acyclic_subst \<sigma>1" "acyclic_subst \<sigma>2"
  shows "extends \<sigma> \<sigma>2"
proof -
  have "resolves \<sigma>2 t x" if r: "resolves \<sigma> t r" "resolves \<sigma>2 r x" for t r x
  proof -
    obtain r1 where r1: "resolves \<sigma>1 r r1" using acyclic_total [OF assms(3)] by blast
    then have "resolves \<sigma>2 r1 x" using extends_resolves [OF assms(2) _ assms(4)] r(2) by blast
    moreover have "resolves \<sigma>1 t r1" using assms(1) r(1) r1 unfolding extends_def by blast
    ultimately show ?thesis using assms(2) unfolding extends_def by blast
  qed
  moreover have "dom \<sigma> \<subseteq> dom \<sigma>2" using assms(1,2) unfolding extends_def by blast
  ultimately show ?thesis unfolding extends_def by blast
qed

text \<open>Once no variable is left to bind, resolution does not change any more.\<close>

lemma extends_same_dom:
  assumes "extends \<sigma> \<sigma>'" "dom \<sigma>' = dom \<sigma>" "acyclic_subst \<sigma>"
  shows "same_solution \<sigma> \<sigma>'"
proof -
  have forth: "resolves \<sigma>' t r" if "resolves \<sigma> t r" for t r
    using that assms resolved_free [OF that] resolves_self [of r \<sigma>'] unfolding extends_def by blast
  have "resolves \<sigma>' t r \<longleftrightarrow> resolves \<sigma> t r" for t r
    using forth acyclic_total [OF assms(3), of t] resolves_unique by blast
  with assms(2) show ?thesis by (simp add: same_solution_def fun_eq_iff)
qed

lemma map_le_extends:
  assumes "\<sigma> \<subseteq>\<^sub>m \<sigma>'"
  shows "extends \<sigma> \<sigma>'"
proof -
  have "resolves \<sigma>' t x" if "resolves \<sigma> t r" "resolves \<sigma>' r x" for t r x
    using that
  proof (induction arbitrary: x rule: resolves.induct)
    case (bound t v u r)
    then have "\<sigma>' v = Some u" using assms by (metis domI map_le_def)
    with bound show ?case by (blast intro: resolves.bound)
  next
    case (node t us)
    have l: "length us = length (sub_tys t)" using node(2) by (auto dest: list_all2_lengthD)
    then obtain ws where ws: "x = with_parts t ws" "list_all2 (resolves \<sigma>') us ws"
      using node(1,3) by (auto simp: resolves_node_iff)
    then have "list_all2 (resolves \<sigma>') (sub_tys t) ws"
      using node(2) by (auto simp: list_all2_conv_all_nth)
    with ws(1) node(1) show ?case by (auto intro: resolves.node)
  qed
  with assms show ?thesis by (auto simp: extends_def map_le_implies_dom_le)
qed

lemma bind_free:
  assumes "acyclic_subst \<sigma>" "v \<notin> dom \<sigma>" "tvars u \<inter> dom \<sigma> = {}" "v \<notin> tvars u"
  shows "acyclic_subst (\<sigma>(v \<mapsto> u))" "extends \<sigma> (\<sigma>(v \<mapsto> u))"
    "vars_in U \<sigma> \<Longrightarrow> v \<in> U \<Longrightarrow> tvars u \<subseteq> U \<Longrightarrow> vars_in U (\<sigma>(v \<mapsto> u))"
proof -
  obtain rk where rk: "ranked rk \<sigma>" using assms(1) by (auto simp: acyclic_subst_def)
  let ?rk = "\<lambda>w. if w \<in> dom \<sigma> then rk w + 2 else if w = v then 1 else 0"
  have "?rk w < ?rk x" if x: "(\<sigma>(v \<mapsto> u)) x = Some b" "w \<in> tvars b" for x b w
  proof (cases "x = v")
    case True
    then show ?thesis using x assms by auto
  next
    case False
    then have "\<sigma> x = Some b" using x by simp
    then show ?thesis using rankedD [OF rk _ x(2)] by (auto simp: domI)
  qed
  then have "ranked ?rk (\<sigma>(v \<mapsto> u))" unfolding ranked_def by blast
  then show "acyclic_subst (\<sigma>(v \<mapsto> u))" unfolding acyclic_subst_def by blast
  show "extends \<sigma> (\<sigma>(v \<mapsto> u))"
    by (rule map_le_extends) (use assms(2) in \<open>auto simp: map_le_def\<close>)
  show "vars_in U \<sigma> \<Longrightarrow> v \<in> U \<Longrightarrow> tvars u \<subseteq> U \<Longrightarrow> vars_in U (\<sigma>(v \<mapsto> u))"
    by (rule vars_in_upd)
qed

subsection \<open>The walks that bind nothing\<close>

text \<open>A step that only compresses paths.\<close>

definition compresses :: "subst \<Rightarrow> subst \<Rightarrow> bool" where
  "compresses \<sigma> \<sigma>' \<longleftrightarrow> acyclic_subst \<sigma>' \<and> same_solution \<sigma> \<sigma>' \<and> (\<forall>U. vars_in U \<sigma> \<longrightarrow> vars_in U \<sigma>')"

lemma compresses_refl [simp]: "acyclic_subst \<sigma> \<Longrightarrow> compresses \<sigma> \<sigma>"
  by (simp add: compresses_def)

lemma compresses_trans: "compresses \<sigma> \<sigma>1 \<Longrightarrow> compresses \<sigma>1 \<sigma>2 \<Longrightarrow> compresses \<sigma> \<sigma>2"
  using same_solution_trans unfolding compresses_def by blast

lemma apply_list_vars_in:
  assumes "\<And>t \<sigma> r \<sigma>'. apply_subst n t \<sigma> = Some (r, \<sigma>') \<Longrightarrow> vars_in U \<sigma> \<Longrightarrow> tvars t \<subseteq> U \<Longrightarrow> vars_in U \<sigma>' \<and> tvars r \<subseteq> U"
  shows "apply_subst_list n False ts \<sigma> = Some (rs, \<sigma>') \<Longrightarrow> vars_in U \<sigma> \<Longrightarrow> \<forall>t\<in>set ts. tvars t \<subseteq> U \<Longrightarrow>
    vars_in U \<sigma>' \<and> (\<forall>r\<in>set rs. tvars r \<subseteq> U)"
proof (induction ts arbitrary: \<sigma> rs)
  case (Cons t ts)
  obtain r \<sigma>1 rs' where r: "apply_subst n t \<sigma> = Some (r, \<sigma>1)"
    "apply_subst_list n False ts \<sigma>1 = Some (rs', \<sigma>')" "rs = r # rs'"
    using Cons.prems(1) by (auto split: bind_splits)
  have t: "tvars t \<subseteq> U" "\<forall>t\<in>set ts. tvars t \<subseteq> U" using Cons.prems(3) by simp_all
  then show ?case
    using assms [OF r(1) Cons.prems(2) t(1)] Cons.IH [OF r(2) _ t(2)] r(3) by simp
qed simp

lemma apply_vars_in:
  "apply_subst n t \<sigma> = Some (r, \<sigma>') \<Longrightarrow> vars_in U \<sigma> \<Longrightarrow> tvars t \<subseteq> U \<Longrightarrow> vars_in U \<sigma>' \<and> tvars r \<subseteq> U"
proof (induction n arbitrary: t \<sigma> r \<sigma>')
  case (Suc n)
  show ?case
  proof (cases "var_id t")
    case None
    then obtain us where us: "apply_subst_list n False (sub_tys t) \<sigma> = Some (us, \<sigma>')" "r = with_parts t us"
      using Suc.prems(1) by (auto simp: apply_subst_unfold split: bind_splits)
    have "length us = length (sub_tys t)" using us(1) by (rule apply_subst_list_length)
    moreover have "vars_in U \<sigma>' \<and> (\<forall>r\<in>set us. tvars r \<subseteq> U)"
      by (rule apply_list_vars_in [OF Suc.IH us(1) Suc.prems(2)]) (use Suc.prems(3) None in \<open>auto simp: tvars_node\<close>)
    ultimately show ?thesis using us(2) None by (auto simp: tvars_node)
  next
    case v: (Some v)
    show ?thesis
    proof (cases "\<sigma> v")
      case None
      with v Suc.prems show ?thesis by (auto simp: apply_subst_unfold)
    next
      case (Some u)
      then obtain \<sigma>1 where s1: "apply_subst n u \<sigma> = Some (r, \<sigma>1)" "\<sigma>' = \<sigma>1(v \<mapsto> r)"
        using Suc.prems(1) v by (auto simp: apply_subst_unfold split: bind_splits)
      moreover have "tvars u \<subseteq> U" "v \<in> U" using Suc.prems(2) Some by (auto simp: vars_in_def)
      ultimately show ?thesis using Suc.IH [OF s1(1) Suc.prems(2)] vars_in_upd by blast
    qed
  qed
qed simp

text \<open>A type whose variables are not in \<open>U\<close> may still be resolved: its own bindings are then in \<open>U\<close>.\<close>

lemma apply_keeps_vars_in: "apply_subst n t \<sigma> = Some (r, \<sigma>') \<Longrightarrow> vars_in U \<sigma> \<Longrightarrow> vars_in U \<sigma>'"
proof (induction n arbitrary: t \<sigma> r \<sigma>')
  case (Suc n)
  have lists: "apply_subst_list n False ts \<sigma> = Some (rs, \<sigma>') \<Longrightarrow> vars_in U \<sigma> \<Longrightarrow> vars_in U \<sigma>'" for ts \<sigma> rs \<sigma>'
    by (induction ts arbitrary: \<sigma> rs) (auto split: bind_splits dest!: Suc.IH)
  show ?case
  proof (cases "var_id t")
    case None
    with Suc.prems lists show ?thesis by (auto simp: apply_subst_unfold split: bind_splits)
  next
    case v: (Some v)
    show ?thesis
    proof (cases "\<sigma> v")
      case None
      with v Suc.prems show ?thesis by (auto simp: apply_subst_unfold)
    next
      case (Some u)
      then obtain \<sigma>1 where s1: "apply_subst n u \<sigma> = Some (r, \<sigma>1)" "\<sigma>' = \<sigma>1(v \<mapsto> r)"
        using Suc.prems(1) v by (auto simp: apply_subst_unfold split: bind_splits)
      moreover have "tvars u \<subseteq> U" "v \<in> U" using Suc.prems(2) Some by (auto simp: vars_in_def)
      ultimately show ?thesis using apply_vars_in [OF s1(1) Suc.prems(2)] vars_in_upd by blast
    qed
  qed
qed simp

lemma apply_compresses:
  assumes "apply_subst n t \<sigma> = Some (r, \<sigma>')" "acyclic_subst \<sigma>"
  shows "resolves \<sigma> t r" "compresses \<sigma> \<sigma>'"
  using assms apply_subst_spec [OF assms(1)] apply_keeps_vars_in [OF assms(1)]
  unfolding compresses_def acyclic_subst_def applies_def by blast+

lemma any_st_compresses:
  assumes "\<And>x \<sigma> b \<sigma>'. f x \<sigma> = Some (b, \<sigma>') \<Longrightarrow> acyclic_subst \<sigma> \<Longrightarrow> compresses \<sigma> \<sigma>'"
  shows "any_st f xs \<sigma> = Some (b, \<sigma>') \<Longrightarrow> acyclic_subst \<sigma> \<Longrightarrow> compresses \<sigma> \<sigma>'"
    and "all_st f xs \<sigma> = Some (b, \<sigma>') \<Longrightarrow> acyclic_subst \<sigma> \<Longrightarrow> compresses \<sigma> \<sigma>'"
proof -
  have step: "compresses \<sigma> \<sigma>1 \<and> acyclic_subst \<sigma>1" if "f x \<sigma> = Some (b, \<sigma>1)" "acyclic_subst \<sigma>" for x \<sigma> b \<sigma>1
    using assms [OF that] by (simp add: compresses_def)
  show "any_st f xs \<sigma> = Some (b, \<sigma>') \<Longrightarrow> acyclic_subst \<sigma> \<Longrightarrow> compresses \<sigma> \<sigma>'"
    by (induction xs arbitrary: \<sigma>) (auto dest!: step split: option.splits bool.splits intro: compresses_trans)
  show "all_st f xs \<sigma> = Some (b, \<sigma>') \<Longrightarrow> acyclic_subst \<sigma> \<Longrightarrow> compresses \<sigma> \<sigma>'"
    by (induction xs arbitrary: \<sigma>) (auto dest!: step split: option.splits bool.splits intro: compresses_trans)
qed

lemma probe_compresses:
  "probe_compatible n a b \<sigma> = Some (x, \<sigma>') \<Longrightarrow> acyclic_subst \<sigma> \<Longrightarrow> compresses \<sigma> \<sigma>'"
proof (induction n arbitrary: a b \<sigma> x \<sigma>')
  case (Suc n)
  obtain ra \<sigma>1 rb \<sigma>2 where r: "apply_subst n a \<sigma> = Some (ra, \<sigma>1)" "apply_subst n b \<sigma>1 = Some (rb, \<sigma>2)"
    using Suc.prems(1) by (auto split: bind_splits)
  have 1: "compresses \<sigma> \<sigma>1" by (rule apply_compresses(2) [OF r(1) Suc.prems(2)])
  then have 2: "compresses \<sigma>1 \<sigma>2" using apply_compresses(2) [OF r(2)] by (simp add: compresses_def)
  have a2: "acyclic_subst \<sigma>2" using 2 by (simp add: compresses_def)
  have ms: "compresses \<sigma>2 \<sigma>'" if "any_st (\<lambda>m. probe_compatible n m other) ms \<sigma>2 = Some (x, \<sigma>')" for ms other
    by (rule any_st_compresses(1) [OF _ that a2]) (rule Suc.IH)
  have "compresses \<sigma>2 \<sigma>'"
    using Suc.prems(1) a2 by (auto simp: r dest: ms split: if_splits option.splits)
  with 1 2 show ?case by (blast intro: compresses_trans)
qed simp

lemma unions_fit_compresses: "unions_fit n as bs \<sigma> = Some (x, \<sigma>') \<Longrightarrow> acyclic_subst \<sigma> \<Longrightarrow> compresses \<sigma> \<sigma>'"
  unfolding unions_fit_def
  by (erule (1) any_st_compresses(2) [rotated], rule any_st_compresses(1) [rotated], assumption+, rule probe_compresses)

lemma occurs_check_unfold:
  "occurs_check (Suc n) \<sigma> v t =
     (case var_id t of
        Some w \<Rightarrow> if v = w then Some True else (case \<sigma> w of Some u \<Rightarrow> occurs_check n \<sigma> v u | None \<Rightarrow> Some False)
      | None \<Rightarrow> any_opt (occurs_check n \<sigma> v) (sub_tys t))"
  by (cases t) (auto simp: var_id_def)

declare occurs_check.simps(2) [simp del]

text \<open>In a resolved type the occurs check looks for the variable itself.\<close>

lemma occurs_check_resolved:
  "occurs_check n \<sigma> v t = Some b \<Longrightarrow> tvars t \<inter> dom \<sigma> = {} \<Longrightarrow> b \<longleftrightarrow> v \<in> tvars t"
proof (induction n arbitrary: t b)
  case (Suc n)
  show ?case
  proof (cases "var_id t")
    case None
    have "any_opt (occurs_check n \<sigma> v) ts = Some b \<Longrightarrow> \<forall>t\<in>set ts. tvars t \<inter> dom \<sigma> = {} \<Longrightarrow>
        b \<longleftrightarrow> (\<exists>t\<in>set ts. v \<in> tvars t)" for ts b
      by (induction ts) (auto dest: Suc.IH split: option.splits bool.splits)
    from this [of "sub_tys t" b] Suc.prems None show ?thesis by (auto simp: occurs_check_unfold tvars_node)
  next
    case (Some w)
    with Suc.prems show ?thesis by (auto simp: occurs_check_unfold split: if_splits option.splits)
  qed
qed simp

end
