(* ===== verification/UnifyRuns.thy ===== *)
theory UnifyRuns
  imports UnifySound
begin

text \<open>What a run of \<open>unify\<close> does to the substitution and to the errors, for any fuel that is enough.\<close>

subsection \<open>Growing states\<close>

definition fits :: "unify_ctx \<Rightarrow> subst \<Rightarrow> ty \<Rightarrow> ty \<Rightarrow> bool" where
  "fits ctx \<sigma> a b \<longleftrightarrow> (\<forall>x y. resolves \<sigma> a x \<longrightarrow> resolves \<sigma> b y \<longrightarrow> compat ctx x y)"

definition sane :: "nat set \<Rightarrow> subst \<Rightarrow> bool" where
  "sane U \<sigma> \<longleftrightarrow> acyclic_subst \<sigma> \<and> vars_in U \<sigma>"

definition grows :: "nat set \<Rightarrow> infer_state \<Rightarrow> infer_state \<Rightarrow> bool" where
  "grows U s s' \<longleftrightarrow> sane U (fst s') \<and> extends (fst s) (fst s') \<and> (\<exists>new. snd s' = snd s @ new)"

lemma grows_sane [dest]: "grows U s s' \<Longrightarrow> sane U (fst s')"
  by (simp add: grows_def)

lemma grows_refl: "sane U (fst s) \<Longrightarrow> grows U s s"
  by (simp add: grows_def extends_refl)

lemma grows_trans: "grows U s s1 \<Longrightarrow> grows U s1 s2 \<Longrightarrow> grows U s s2"
  using extends_trans [of "fst s" "fst s1" "fst s2"] by (auto simp: grows_def sane_def)

lemma fits_extends:
  assumes "fits ctx \<sigma> a b" "extends \<sigma> \<sigma>'" "acyclic_subst \<sigma>" "acyclic_subst \<sigma>'"
  shows "fits ctx \<sigma>' a b"
  unfolding fits_def
proof (intro allI impI)
  fix x y assume xy: "resolves \<sigma>' a x" "resolves \<sigma>' b y"
  obtain a0 b0 where 0: "resolves \<sigma> a a0" "resolves \<sigma> b b0" using acyclic_total [OF assms(3)] by metis
  then have "compat ctx a0 b0" using assms(1) unfolding fits_def by blast
  moreover have "resolves \<sigma>' a0 x" "resolves \<sigma>' b0 y"
    using extends_resolves [OF assms(2) _ assms(4)] 0 xy by blast+
  ultimately show "compat ctx x y" by (rule compat_resolves)
qed

lemma fits_grows: "fits ctx (fst s) a b \<Longrightarrow> sane U (fst s) \<Longrightarrow> grows U s s' \<Longrightarrow> fits ctx (fst s') a b"
  using fits_extends unfolding grows_def sane_def by blast

lemma compat_fits: "compat ctx a b \<Longrightarrow> fits ctx \<sigma> a b"
  unfolding fits_def using compat_resolves by blast

text \<open>Types that fit once they have been resolved fit.\<close>

lemma fits_resolved:
  assumes "fits ctx \<sigma>' a b" "resolves \<sigma> t1 a" "resolves \<sigma> t2 b" "extends \<sigma> \<sigma>'" "acyclic_subst \<sigma>'"
  shows "fits ctx \<sigma>' t1 t2"
  unfolding fits_def
proof (intro allI impI)
  fix x y assume "resolves \<sigma>' t1 x" "resolves \<sigma>' t2 y"
  then have "resolves \<sigma>' a x" "resolves \<sigma>' b y"
    using extends_resolves [OF assms(4) _ assms(5)] assms(2,3) by blast+
  with assms(1) show "compat ctx x y" by (simp add: fits_def)
qed

lemma same_solution_fits: "same_solution \<sigma> \<sigma>' \<Longrightarrow> fits ctx \<sigma>' = fits ctx \<sigma>"
  by (simp add: same_solution_def fits_def fun_eq_iff)

lemma fits_parts:
  assumes heads: "heads_agree a b" and all: "\<forall>(p, q)\<in>set (zip (sub_tys a) (sub_tys b)). fits ctx \<sigma> p q"
  shows "fits ctx \<sigma> a b"
  unfolding fits_def
proof (intro allI impI)
  fix x y assume xy: "resolves \<sigma> a x" "resolves \<sigma> b y"
  note n = heads_agree_parts [OF heads]
  obtain us ws where u: "x = with_parts a us" "list_all2 (resolves \<sigma>) (sub_tys a) us"
    and w: "y = with_parts b ws" "list_all2 (resolves \<sigma>) (sub_tys b) ws"
    using xy n by (auto simp: resolves_node_iff)
  have l: "length us = length (sub_tys a)" "length ws = length (sub_tys b)"
    using u(2) w(2) by (auto dest: list_all2_lengthD)
  have "list_all2 (fits ctx \<sigma>) (sub_tys a) (sub_tys b)"
    using all n by (auto simp: list_all2_iff)
  then have "list_all2 (compat ctx) us ws"
    using u(2) w(2) n l by (auto simp: list_all2_conv_all_nth fits_def)
  moreover have "heads_agree x y" using heads_agree_with_parts [OF heads l] u w by simp
  ultimately show "compat ctx x y" using l u(1) w(1) by (intro compat.parts) auto
qed

lemma fits_union_member:
  assumes "m \<in> set ms" "fits ctx \<sigma> t m" "acyclic_subst \<sigma>"
  shows "fits ctx \<sigma> t (TUnion ms)" "fits ctx \<sigma> (TUnion ms) t"
proof -
  have "\<exists>m' ws. resolves \<sigma> m m' \<and> m' \<in> set ws \<and> u = TUnion ws" if "resolves \<sigma> (TUnion ms) u" for u
  proof -
    from that obtain ws where "u = TUnion ws" "list_all2 (resolves \<sigma>) ms ws"
      by (auto simp: resolves_node_iff var_id_def)
    with list_all2_member [OF _ assms(1)] show ?thesis by blast
  qed
  then show "fits ctx \<sigma> t (TUnion ms)" "fits ctx \<sigma> (TUnion ms) t"
    using assms(2) unfolding fits_def by (blast intro: compat.member compat.member_of)+
qed

subsection \<open>Binding a literal\<close>

lemma binding_leaf: "is_int_binding t \<or> is_float_binding t \<Longrightarrow> var_id t = None \<and> sub_tys t = []"
  by (auto simp: is_int_binding_def is_float_binding_def var_id_def)

lemma fits_bound:
  assumes "var_id t = Some v" "\<sigma> v = Some u" "acyclic_subst \<sigma>"
  shows "fits ctx \<sigma> t u" "fits ctx \<sigma> u t"
proof -
  have "resolves \<sigma> t x \<longleftrightarrow> resolves \<sigma> u x" for x using assms(1,2) by (simp add: resolves_var_iff)
  then show "fits ctx \<sigma> t u" "fits ctx \<sigma> u t"
    unfolding fits_def using resolves_unique compat.refl by metis+
qed

lemma sane_empty: "sane U \<sigma> \<Longrightarrow> acyclic_subst \<sigma>"
  by (simp add: sane_def)

lemma bind_grows:
  assumes "sane U \<sigma>" "var_id t = Some v" "tvars t \<inter> dom \<sigma> = {}" "tvars t \<subseteq> U"
    and "tvars u \<inter> dom \<sigma> = {}" "v \<notin> tvars u" "tvars u \<subseteq> U"
  shows "grows U (\<sigma>, es) (\<sigma>(v \<mapsto> u), es)" "fits ctx (\<sigma>(v \<mapsto> u)) t u" "fits ctx (\<sigma>(v \<mapsto> u)) u t"
proof -
  have v: "v \<notin> dom \<sigma>" "v \<in> U" using assms(2,3,4) by auto
  note b = bind_free [OF sane_empty [OF assms(1)] v(1) assms(5,6)]
  show "grows U (\<sigma>, es) (\<sigma>(v \<mapsto> u), es)"
    using b v(2) assms(1,7) unfolding grows_def sane_def by (metis fst_conv snd_conv append_Nil2)
  show "fits ctx (\<sigma>(v \<mapsto> u)) t u" "fits ctx (\<sigma>(v \<mapsto> u)) u t"
    using b(1) by (auto intro: fits_bound [OF assms(2)])
qed

text \<open>The outcomes of binding a literal: nothing, an error, the type itself, or a member of the union.\<close>

definition literal_bound :: "nat \<Rightarrow> ty \<Rightarrow> infer_state \<Rightarrow> infer_state \<Rightarrow> bool" where
  "literal_bound v other = (\<lambda>(\<sigma>, es) s'.
     dynamic_ty other \<and> s' = (\<sigma>, es) \<or> (\<exists>e. s' = (\<sigma>, es @ [e])) \<or>
     v \<notin> tvars other \<and> s' = (\<sigma>(v \<mapsto> other), es) \<or>
     (\<exists>ms m. other = TUnion ms \<and> m \<in> set ms \<and> var_id m = None \<and> sub_tys m = [] \<and> s' = (\<sigma>(v \<mapsto> m), es)))"

lemma literal_bound_ok:
  assumes b: "literal_bound v other (\<sigma>, es) s'" and ok: "sane U \<sigma>" "var_id t = Some v"
    "tvars t \<inter> dom \<sigma> = {}" "tvars t \<subseteq> U" "tvars other \<inter> dom \<sigma> = {}" "tvars other \<subseteq> U"
  shows "grows U (\<sigma>, es) s' \<and> (snd s' = es \<longrightarrow> fits ctx (fst s') t other \<and> fits ctx (fst s') other t)"
proof -
  note bind = bind_grows [OF ok(1-4)]
  consider "dynamic_ty other" "s' = (\<sigma>, es)" | e where "s' = (\<sigma>, es @ [e])"
    | "v \<notin> tvars other" "s' = (\<sigma>(v \<mapsto> other), es)"
    | ms m where "other = TUnion ms" "m \<in> set ms" "var_id m = None" "sub_tys m = []" "s' = (\<sigma>(v \<mapsto> m), es)"
    using b unfolding literal_bound_def prod.case by blast
  then show ?thesis
  proof cases
    case 1
    then show ?thesis using grows_refl [of U s'] ok(1) by (auto intro: compat_fits compat.dynamic)
  next
    case 2
    then show ?thesis using ok(1) by (simp add: grows_def extends_refl)
  next
    case 3
    then show ?thesis using bind [OF ok(5) _ ok(6)] by simp
  next
    case (4 ms m)
    then have m: "tvars m = {}" by (simp add: tvars_node)
    note g = bind [of m, unfolded m, simplified]
    have "acyclic_subst (\<sigma>(v \<mapsto> m))" using grows_sane [OF g(1)] by (simp add: sane_def)
    with 4 g show ?thesis using fits_union_member [OF 4(2), of ctx "\<sigma>(v \<mapsto> m)" t] by simp
  qed
qed

lemma find_member: "List.find P xs = Some x \<Longrightarrow> x \<in> set xs \<and> P x"
  by (auto simp: find_Some_iff)

lemma literal_vars:
  "tvars (TIntegerLiteral w) = {w}" "tvars (TFloatLiteral w) = {w}"
  by (simp_all add: tvars_var var_id_def)

lemma binding_vars: "is_int_binding t \<or> is_float_binding t \<Longrightarrow> tvars t = {}"
  using binding_leaf [of t] by (simp add: tvars_node)

lemma literal_bound_cases:
  "v \<notin> tvars other \<Longrightarrow> literal_bound v other (\<sigma>, es) (\<sigma>(v \<mapsto> other), es)"
  "literal_bound v other (\<sigma>, es) (\<sigma>, es @ [e])"
  "dynamic_ty other \<Longrightarrow> literal_bound v other (\<sigma>, es) (\<sigma>, es)"
  "m \<in> set ms \<Longrightarrow> is_int_binding m \<or> is_float_binding m \<Longrightarrow> literal_bound v (TUnion ms) (\<sigma>, es) (\<sigma>(v \<mapsto> m), es)"
  using binding_leaf [of m] by (auto simp: literal_bound_def)

lemma bind_int_bound:
  assumes "dest_var other = None" "other \<noteq> TIntegerLiteral v"
  shows "literal_bound v other (\<sigma>, es) (bind_int v other (\<sigma>, es))"
  using assms
  by (auto simp: bind_int_def Let_def dest_Some binding_vars literal_vars dynamic_ty_def
      dest!: find_member intro!: literal_bound_cases split: option.split)

lemma bind_float_bound:
  assumes "dest_var other = None" "other \<noteq> TFloatLiteral v"
  shows "literal_bound v other (\<sigma>, es) (bind_float v other (\<sigma>, es))"
  using assms
  by (auto simp: bind_float_def Let_def dest_Some binding_vars literal_vars dynamic_ty_def
      dest!: find_member intro!: literal_bound_cases split: option.split)

subsection \<open>One step\<close>

text \<open>What a run on two types, or on pairs of types, promises.\<close>

definition run_ok :: "unify_ctx \<Rightarrow> nat set \<Rightarrow> (infer_state \<Rightarrow> infer_state option) \<Rightarrow> (ty \<times> ty) list \<Rightarrow> bool" where
  "run_ok ctx U run ps \<longleftrightarrow> (\<forall>s s'. run s = Some s' \<longrightarrow> sane U (fst s) \<longrightarrow>
     (\<forall>(p, q)\<in>set ps. tvars p \<subseteq> U \<and> tvars q \<subseteq> U) \<longrightarrow>
     grows U s s' \<and> (snd s' = snd s \<longrightarrow> (\<forall>(p, q)\<in>set ps. fits ctx (fst s') p q)))"

lemma run_okD:
  assumes "run_ok ctx U run [(a, b)]" "run s = Some s'" "sane U (fst s)" "tvars a \<subseteq> U" "tvars b \<subseteq> U"
  shows "grows U s s'" "snd s' = snd s \<Longrightarrow> fits ctx (fst s') a b"
  using assms(1) [unfolded run_ok_def, rule_format, OF assms(2,3)] assms(4,5) by simp_all

lemma grows_no_error:
  assumes "grows U s s1" "grows U s1 s2" "snd s2 = snd s"
  shows "snd s1 = snd s" "snd s2 = snd s1"
  using assms unfolding grows_def by (metis append_assoc append_is_Nil_conv append_self_conv)+

lemma run_ok_seq:
  assumes first: "run_ok ctx U run1 [(a, b)]" and rest: "run_ok ctx U run2 ps"
    and run: "\<And>s. run s = (case run1 s of None \<Rightarrow> None | Some s1 \<Rightarrow> run2 s1)"
  shows "run_ok ctx U run ((a, b) # ps)"
  unfolding run_ok_def
proof (intro allI impI)
  fix s s' assume s: "run s = Some s'" "sane U (fst s)" "\<forall>(p, q)\<in>set ((a, b) # ps). tvars p \<subseteq> U \<and> tvars q \<subseteq> U"
  then obtain s1 where s1: "run1 s = Some s1" "run2 s1 = Some s'" by (auto simp: run split: option.splits)
  have g1: "grows U s s1" by (rule run_okD [OF first s1(1) s(2)]) (use s(3) in auto)
  have r: "grows U s1 s' \<and> (snd s' = snd s1 \<longrightarrow> (\<forall>(p, q)\<in>set ps. fits ctx (fst s') p q))"
    using rest [unfolded run_ok_def, rule_format, OF s1(2) grows_sane [OF g1]] s(3) by simp
  moreover have "fits ctx (fst s') a b" if "snd s' = snd s"
  proof -
    have "snd s1 = snd s" using grows_no_error g1 r that by blast
    then have "fits ctx (fst s1) a b" using run_okD(2) [OF first s1(1) s(2)] s(3) by auto
    then show ?thesis using fits_grows r grows_sane [OF g1] by blast
  qed
  moreover have "snd s' = snd s1" if "snd s' = snd s" using grows_no_error(2) [OF g1] r that by blast
  ultimately show "grows U s s' \<and> (snd s' = snd s \<longrightarrow> (\<forall>(p, q)\<in>set ((a, b) # ps). fits ctx (fst s') p q))"
    using grows_trans [OF g1] by simp
qed

lemma run_ok_nil: "run_ok ctx U Some []"
  by (simp add: run_ok_def grows_refl)

lemma compresses_grows: "compresses (fst s) \<sigma>' \<Longrightarrow> sane U (fst s) \<Longrightarrow> grows U s (\<sigma>', snd s)"
  by (simp add: grows_def sane_def compresses_def same_solution_extends)

lemma apply_grows:
  assumes "apply_subst n t \<sigma> = Some (r, \<sigma>')" "sane U \<sigma>"
  shows "grows U (\<sigma>, es) (\<sigma>', es)" "resolves \<sigma> t r" "resolves \<sigma>' = resolves \<sigma>" "dom \<sigma>' = dom \<sigma>"
    "tvars t \<subseteq> U \<Longrightarrow> tvars r \<subseteq> U" "sane U \<sigma>'"
proof -
  note a = apply_compresses [OF assms(1) sane_empty [OF assms(2)]]
  show g: "grows U (\<sigma>, es) (\<sigma>', es)" using compresses_grows [of "(\<sigma>, es)"] a(2) assms(2) by simp
  show "resolves \<sigma> t r" "resolves \<sigma>' = resolves \<sigma>" "dom \<sigma>' = dom \<sigma>"
    using a by (auto simp: compresses_def same_solution_def)
  show "tvars t \<subseteq> U \<Longrightarrow> tvars r \<subseteq> U" using resolved_in [OF a(1)] assms(2) by (simp add: sane_def)
  show "sane U \<sigma>'" using grows_sane [OF g] by simp
qed

lemma unify_parts_ok:
  "(\<And>a b. run_ok ctx U (unify ctx n a b) [(a, b)]) \<Longrightarrow> run_ok ctx U (unify_parts ctx n ps) ps"
proof (induction ps)
  case Nil
  then show ?case using run_ok_nil [of ctx U] by (simp add: run_ok_def)
next
  case (Cons p ps)
  obtain a b where p: "p = (a, b)" by (cases p)
  show ?case unfolding p by (rule run_ok_seq [OF Cons.prems Cons.IH [OF Cons.prems]]) simp
qed

lemma unify_elem_ok:
  assumes "run_ok ctx U (unify ctx n a b) [(a, b)]"
  shows "run_ok ctx U (unify_elem ctx n a b) [(a, b)]"
  unfolding run_ok_def
proof (intro allI impI)
  fix s s' assume s: "unify_elem ctx n a b s = Some s'" "sane U (fst s)" "\<forall>(p, q)\<in>set [(a, b)]. tvars p \<subseteq> U \<and> tvars q \<subseteq> U"
  obtain \<sigma> es where [simp]: "s = (\<sigma>, es)" by (cases s)
  obtain ra \<sigma>1 rb \<sigma>2 where r: "apply_subst n a \<sigma> = Some (ra, \<sigma>1)" "apply_subst n b \<sigma>1 = Some (rb, \<sigma>2)"
    using s(1) by (auto split: option.splits)
  have g1: "grows U s (\<sigma>1, es)" "sane U \<sigma>1" using apply_grows [OF r(1)] s(2) by simp_all
  have g2: "grows U s (\<sigma>2, es)" "sane U \<sigma>2" using apply_grows [OF r(2) g1(2)] grows_trans [OF g1(1)] by simp_all
  show "grows U s s' \<and> (snd s' = snd s \<longrightarrow> (\<forall>(p, q)\<in>set [(a, b)]. fits ctx (fst s') p q))"
  proof (cases "boxing_side ra rb")
    case (Some c)
    then have s': "s' = (\<sigma>2, es @ [element_aliases_any c])" using s(1) r by simp
    then show ?thesis using g2 by (auto simp: grows_def)
  next
    case None
    then have u: "unify ctx n a b (\<sigma>2, es) = Some s'" using s(1) r by simp
    have "sane U (fst (\<sigma>2, es))" "tvars a \<subseteq> U" "tvars b \<subseteq> U" using g2(2) s(3) by simp_all
    from run_okD [OF assms u this] show ?thesis using grows_trans [OF g2(1)] by simp
  qed
qed

lemma unify_elems_ok:
  "(\<And>a b. run_ok ctx U (unify ctx n a b) [(a, b)]) \<Longrightarrow> run_ok ctx U (unify_elems ctx n ps) ps"
proof (induction ps)
  case Nil
  then show ?case using run_ok_nil [of ctx U] by (simp add: run_ok_def)
next
  case (Cons p ps)
  obtain a b where p: "p = (a, b)" by (cases p)
  show ?case unfolding p by (rule run_ok_seq [OF unify_elem_ok [OF Cons.prems] Cons.IH [OF Cons.prems]]) simp
qed

text \<open>A silent attempt leaves no error; when it fails it leaves no trace at all.\<close>

lemma unify_silently_ok:
  assumes "run_ok ctx U (unify ctx n a b) [(a, b)]" and run: "unify_silently ctx n a b s = Some (x, s')"
    and ok: "sane U (fst s)" "tvars a \<subseteq> U" "tvars b \<subseteq> U"
  shows "grows U s s'" "snd s' = snd s" "x \<Longrightarrow> fits ctx (fst s') a b" "\<not> x \<Longrightarrow> s' = s"
proof -
  obtain \<sigma> es where [simp]: "s = (\<sigma>, es)" by (cases s)
  obtain \<sigma>1 es1 where u: "unify ctx n a b s = Some (\<sigma>1, es1)" using run by (auto split: option.splits)
  note g = run_okD [OF assms(1) u ok]
  obtain new where new: "es1 = es @ new" using g(1) by (auto simp: grows_def)
  have x: "x \<longleftrightarrow> new = []" "s' = (if new = [] then (\<sigma>1, es) else s)"
    using run u new by (auto split: if_splits)
  then show "grows U s s'" using g(1) new grows_refl ok(1) by auto
  show "snd s' = snd s" using x by auto
  show "x \<Longrightarrow> fits ctx (fst s') a b" using x g(2) new by simp
  show "\<not> x \<Longrightarrow> s' = s" using x by simp
qed

lemma unify_members_ok:
  assumes one: "\<And>a b. run_ok ctx U (unify ctx n a b) [(a, b)]"
  shows "unify_members ctx n other ms s = Some (x, s') \<Longrightarrow> sane U (fst s) \<Longrightarrow> tvars other \<subseteq> U \<Longrightarrow>
    \<forall>m\<in>set ms. tvars m \<subseteq> U \<Longrightarrow>
    grows U s s' \<and> snd s' = snd s \<and> (x \<longrightarrow> (\<exists>m\<in>set ms. fits ctx (fst s') other m))"
proof (induction ms)
  case Nil
  then show ?case by (simp add: grows_refl)
next
  case (Cons m ms)
  obtain y s1 where y: "unify_silently ctx n other m s = Some (y, s1)"
    using Cons.prems(1) by (auto split: option.splits)
  have m: "tvars m \<subseteq> U" using Cons.prems(4) by simp
  note sil = unify_silently_ok [OF one y Cons.prems(2,3) m]
  show ?case
  proof (cases y)
    case True
    with Cons.prems(1) y sil show ?thesis by simp
  next
    case False
    then have "unify_members ctx n other ms s = Some (x, s')" using Cons.prems(1) y sil(4) by simp
    from Cons.IH [OF this Cons.prems(2,3)] Cons.prems(4) show ?thesis by auto
  qed
qed

lemma bind_var_ok:
  assumes "occurs_check n \<sigma> v u = Some x" "sane U \<sigma>"
    and "tvars (TVar v) \<inter> dom \<sigma> = {}" "tvars (TVar v) \<subseteq> U" "tvars u \<inter> dom \<sigma> = {}" "tvars u \<subseteq> U"
    and "s' = (if x then (\<sigma>, es @ [infinite_type u]) else (\<sigma>(v \<mapsto> u), es))"
  shows "grows U (\<sigma>, es) s' \<and> (snd s' = es \<longrightarrow> fits ctx (fst s') (TVar v) u \<and> fits ctx (fst s') u (TVar v))"
proof -
  have x: "x \<longleftrightarrow> v \<in> tvars u" by (rule occurs_check_resolved [OF assms(1,5)])
  have v: "var_id (TVar v) = Some v" by (simp add: var_id_def)
  show ?thesis
  proof (cases x)
    case True
    then show ?thesis using assms(2,7) by (simp add: grows_def extends_refl)
  next
    case False
    then have "s' = (\<sigma>(v \<mapsto> u), es)" "v \<notin> tvars u" using assms(7) x by simp_all
    with bind_grows [OF assms(2) v assms(3,4,5) _ assms(6)] show ?thesis by simp
  qed
qed

lemma zip_vars:
  "tvars a \<subseteq> U \<Longrightarrow> tvars b \<subseteq> U \<Longrightarrow>
     \<forall>(p, q)\<in>set (zip (sub_tys a) (sub_tys b)). tvars p \<subseteq> U \<and> tvars q \<subseteq> U"
  using tvars_sub by (fastforce dest: set_zip_leftD set_zip_rightD)

definition arm_run :: "unify_ctx \<Rightarrow> nat \<Rightarrow> ty \<Rightarrow> ty \<Rightarrow> infer_state \<Rightarrow> infer_state option" where
  "arm_run ctx n a b = (\<lambda>(\<sigma>2, es).
       (case unify_arm ctx a b of
          BindVar v other \<Rightarrow>
            (case occurs_check n \<sigma>2 v other of
               None \<Rightarrow> None
             | Some True \<Rightarrow> Some (\<sigma>2, es @ [infinite_type other])
             | Some False \<Rightarrow> Some (\<sigma>2(v \<mapsto> other), es))
        | BindInt v other \<Rightarrow> Some (bind_int v other (\<sigma>2, es))
        | BindFloat v other \<Rightarrow> Some (bind_float v other (\<sigma>2, es))
        | Accept \<Rightarrow> Some (\<sigma>2, es)
        | Report new \<Rightarrow> Some (\<sigma>2, es @ new)
        | Parts ps \<Rightarrow> unify_parts ctx n ps (\<sigma>2, es)
        | Elems ps \<Rightarrow> unify_elems ctx n ps (\<sigma>2, es)
        | UnionPair as bs \<Rightarrow>
            (case unions_fit n as bs \<sigma>2 of None \<Rightarrow> None | Some (a_fits, \<sigma>3) \<Rightarrow>
            (case unions_fit n bs as \<sigma>3 of None \<Rightarrow> None | Some (b_fits, \<sigma>4) \<Rightarrow>
               Some (\<sigma>4, if \<not> a_fits \<and> \<not> b_fits then es @ [unions_differ a b] else es)))
        | UnionMember other members \<Rightarrow>
            (case unify_members ctx n other members (\<sigma>2, es) of
               None \<Rightarrow> None
             | Some (matched, s) \<Rightarrow> Some (if matched then s else (fst s, snd s @ [not_a_member a b])))))"

lemma unify_Suc:
  "unify ctx (Suc n) t1 t2 (\<sigma>, es) =
     (case apply_subst n t1 \<sigma> of None \<Rightarrow> None | Some (a, \<sigma>1) \<Rightarrow>
     (case apply_subst n t2 \<sigma>1 of None \<Rightarrow> None | Some (b, \<sigma>2) \<Rightarrow>
     (if a = b then Some (\<sigma>2, es) else arm_run ctx n a b (\<sigma>2, es))))"
  unfolding arm_run_def prod.case by (rule unify.simps(2))

declare unify.simps(2) [simp del]

lemma parts_fit:
  assumes run: "run_ok ctx U run ps" "run (\<sigma>, es) = Some s'" and "sane U \<sigma>" "tvars a \<subseteq> U" "tvars b \<subseteq> U"
    and heads: "heads_agree a b" "ps = zip (sub_tys a) (sub_tys b)"
  shows "grows U (\<sigma>, es) s' \<and> (snd s' = es \<longrightarrow> fits ctx (fst s') a b)"
proof -
  have "sane U (fst (\<sigma>, es))" "\<forall>(p, q)\<in>set ps. tvars p \<subseteq> U \<and> tvars q \<subseteq> U"
    using assms(3) zip_vars [OF assms(4,5)] heads(2) by simp_all
  from run(1) [unfolded run_ok_def, rule_format, OF run(2) this(1)] this(2) show ?thesis
    using fits_parts [OF heads(1)] heads(2) by simp
qed

lemma arm_run_ok:
  assumes one: "\<And>a b. run_ok ctx U (unify ctx n a b) [(a, b)]"
    and run: "arm_run ctx n a b (\<sigma>, es) = Some s'"
    and s: "sane U \<sigma>" "tvars a \<subseteq> U" "tvars b \<subseteq> U" "tvars a \<inter> dom \<sigma> = {}" "tvars b \<inter> dom \<sigma> = {}" "a \<noteq> b"
  shows "grows U (\<sigma>, es) s' \<and> (snd s' = es \<longrightarrow> fits ctx (fst s') a b)"
proof (cases "unify_arm ctx a b")
  note ok = unify_arm_ok [of ctx a b]
  {
    case (BindVar v u)
    then have ab: "a = TVar v \<and> u = b \<or> b = TVar v \<and> u = a" using ok by (simp add: arm_ok_def)
    obtain x where x: "occurs_check n \<sigma> v u = Some x"
      "s' = (if x then (\<sigma>, es @ [infinite_type u]) else (\<sigma>(v \<mapsto> u), es))"
      using run BindVar by (auto simp: arm_run_def split: option.splits bool.splits)
    have "tvars (TVar v) \<inter> dom \<sigma> = {}" "tvars (TVar v) \<subseteq> U" "tvars u \<inter> dom \<sigma> = {}" "tvars u \<subseteq> U"
      using ab s by auto
    from bind_var_ok [OF x(1) s(1) this x(2), of ctx] ab show ?thesis by auto
  next
    case (BindInt v u)
    then have u: "dest_var u = None" and ab: "a = TIntegerLiteral v \<and> u = b \<or> b = TIntegerLiteral v \<and> u = a"
      using ok by (simp_all add: arm_ok_def)
    have "literal_bound v u (\<sigma>, es) s'" using run BindInt u ab s(6) bind_int_bound [of u v] by (auto simp: arm_run_def)
    moreover have "tvars (TIntegerLiteral v) \<inter> dom \<sigma> = {}" "tvars (TIntegerLiteral v) \<subseteq> U"
      "tvars u \<inter> dom \<sigma> = {}" "tvars u \<subseteq> U" using ab s by auto
    ultimately show ?thesis
      using literal_bound_ok [of v u \<sigma> es s' U "TIntegerLiteral v" ctx] s(1) ab by (auto simp: var_id_def)
  next
    case (BindFloat v u)
    then have u: "dest_var u = None" and ab: "a = TFloatLiteral v \<and> u = b \<or> b = TFloatLiteral v \<and> u = a"
      using ok by (simp_all add: arm_ok_def)
    have "literal_bound v u (\<sigma>, es) s'" using run BindFloat u ab s(6) bind_float_bound [of u v] by (auto simp: arm_run_def)
    moreover have "tvars (TFloatLiteral v) \<inter> dom \<sigma> = {}" "tvars (TFloatLiteral v) \<subseteq> U"
      "tvars u \<inter> dom \<sigma> = {}" "tvars u \<subseteq> U" using ab s by auto
    ultimately show ?thesis
      using literal_bound_ok [of v u \<sigma> es s' U "TFloatLiteral v" ctx] s(1) ab by (auto simp: var_id_def)
  next
    case Accept
    then show ?thesis using run ok s(1) by (auto simp: arm_run_def arm_ok_def grows_refl intro: compat_fits)
  next
    case (Report new)
    then have s': "s' = (\<sigma>, es @ new)" using run by (simp add: arm_run_def)
    moreover have "grows U (\<sigma>, es) s'" using s' s(1) by (simp add: grows_def extends_refl)
    ultimately show ?thesis using ok Report by (auto simp: arm_ok_def intro: compat_fits)
  next
    case (Parts ps)
    have p: "heads_agree a b" "ps = zip (sub_tys a) (sub_tys b)" using ok Parts by (simp_all add: arm_ok_def)
    show ?thesis by (rule parts_fit [OF unify_parts_ok [OF one] _ s(1,2,3) p]) (use run Parts in \<open>simp add: arm_run_def\<close>)
  next
    case (Elems ps)
    have p: "heads_agree a b" "ps = zip (sub_tys a) (sub_tys b)" using ok Elems by (simp_all add: arm_ok_def)
    show ?thesis by (rule parts_fit [OF unify_elems_ok [OF one] _ s(1,2,3) p]) (use run Elems in \<open>simp add: arm_run_def\<close>)
  next
    case (UnionPair as bs)
    then have ab: "a = TUnion as" "b = TUnion bs" using ok by (simp_all add: arm_ok_def)
    obtain x \<sigma>3 y \<sigma>4 where u: "unions_fit n as bs \<sigma> = Some (x, \<sigma>3)" "unions_fit n bs as \<sigma>3 = Some (y, \<sigma>4)"
      "s' = (\<sigma>4, if \<not> x \<and> \<not> y then es @ [unions_differ a b] else es)"
      using run UnionPair by (auto simp: arm_run_def split: option.splits)
    have "compresses \<sigma> \<sigma>3" by (rule unions_fit_compresses [OF u(1) sane_empty [OF s(1)]])
    then have "compresses \<sigma> \<sigma>4" using unions_fit_compresses [OF u(2)] compresses_trans by (auto simp: compresses_def)
    then have "grows U (\<sigma>, es) (\<sigma>4, es)" using compresses_grows [of "(\<sigma>, es)"] s(1) by simp
    then have "grows U (\<sigma>, es) s'" using u(3) by (auto simp: grows_def)
    then show ?thesis by (simp add: ab compat_fits compat.unions)
  next
    case (UnionMember other ms)
    then have ab: "other = a \<and> b = TUnion ms \<or> other = b \<and> a = TUnion ms" using ok by (simp add: arm_ok_def)
    obtain x s1 where m: "unify_members ctx n other ms (\<sigma>, es) = Some (x, s1)"
      "s' = (if x then s1 else (fst s1, snd s1 @ [not_a_member a b]))"
      using run UnionMember by (auto simp: arm_run_def split: option.splits)
    have "tvars (TUnion ms) \<subseteq> U" "tvars other \<subseteq> U" using ab s(2,3) by auto
    then have "\<forall>m\<in>set ms. tvars m \<subseteq> U" using tvars_sub [of _ "TUnion ms"] by auto
    with unify_members_ok [OF one m(1)] s(1) \<open>tvars other \<subseteq> U\<close>
    have r: "grows U (\<sigma>, es) s1" "snd s1 = es" "x \<Longrightarrow> \<exists>m\<in>set ms. fits ctx (fst s1) other m" by simp_all
    have "acyclic_subst (fst s1)" using grows_sane [OF r(1)] by (simp add: sane_def)
    then have "fits ctx (fst s1) a b" if x using r(3) [OF that] fits_union_member ab by blast
    moreover have "grows U (\<sigma>, es) s'" using r(1) m(2) by (auto simp: grows_def)
    ultimately show ?thesis using m(2) r(2) by auto
  }
qed

lemma unify_run_ok: "run_ok ctx U (unify ctx n t1 t2) [(t1, t2)]"
proof (induction n arbitrary: t1 t2)
  case 0
  then show ?case by (simp add: run_ok_def)
next
  case (Suc n)
  show ?case unfolding run_ok_def
  proof (intro allI impI)
    fix s s' assume s: "unify ctx (Suc n) t1 t2 s = Some s'" "sane U (fst s)"
      "\<forall>(p, q)\<in>set [(t1, t2)]. tvars p \<subseteq> U \<and> tvars q \<subseteq> U"
    obtain \<sigma> es where [simp]: "s = (\<sigma>, es)" by (cases s)
    obtain a \<sigma>1 b \<sigma>2 where r: "apply_subst n t1 \<sigma> = Some (a, \<sigma>1)" "apply_subst n t2 \<sigma>1 = Some (b, \<sigma>2)"
      using s(1) by (auto simp: unify_Suc split: option.splits)
    have v: "sane U \<sigma>" "tvars t1 \<subseteq> U" "tvars t2 \<subseteq> U" using s(2,3) by simp_all
    note g1 = apply_grows [OF r(1) v(1)] and g2 = apply_grows [OF r(2) apply_grows(6) [OF r(1) v(1)]]
    have g: "grows U s (\<sigma>2, es)" using grows_trans [OF g1(1) g2(1)] by simp
    have res: "resolves \<sigma>2 t1 a" "resolves \<sigma>2 t2 b" using g1 g2 by simp_all
    have k: "grows U (\<sigma>2, es) s' \<and> (snd s' = es \<longrightarrow> fits ctx (fst s') a b)"
    proof (cases "a = b")
      case True
      then show ?thesis using s(1) r g2(6) grows_refl [of U "(\<sigma>2, es)"]
        by (auto simp: unify_Suc intro: compat_fits compat.refl)
    next
      case False
      show ?thesis
      proof (rule arm_run_ok [OF Suc.IH])
        show "arm_run ctx n a b (\<sigma>2, es) = Some s'" using s(1) r False by (simp add: unify_Suc)
      qed (use g1(5) g2(5,6) v resolved_free [OF res(1)] resolved_free [OF res(2)] False in auto)
    qed
    moreover have "fits ctx (fst s') t1 t2" if "fits ctx (fst s') a b"
      by (rule fits_resolved [OF that res]) (use k in \<open>auto simp: grows_def sane_def\<close>)
    ultimately show "grows U s s' \<and> (snd s' = snd s \<longrightarrow> (\<forall>(p, q)\<in>set [(t1, t2)]. fits ctx (fst s') p q))"
      using grows_trans [OF g] by simp
  qed
qed

end
