(* ===== verification/UnifyTotal.thy ===== *)
theory UnifyTotal
  imports UnifyRuns
begin

text \<open>
  More fuel never changes the result of a run, and some amount is always enough: each step either
  binds one of finitely many variables or goes on to smaller types.
\<close>

subsection \<open>More fuel\<close>

lemma any_opt_mono:
  "any_opt f xs = Some b \<Longrightarrow> (\<And>x b. x \<in> set xs \<Longrightarrow> f x = Some b \<Longrightarrow> g x = Some b) \<Longrightarrow> any_opt g xs = Some b"
proof (induction xs)
  case (Cons x xs)
  then show ?case by (cases "f x"; cases "the (f x)") auto
qed simp

lemma any_st_mono:
  "any_st f xs \<sigma> = Some y \<Longrightarrow> (\<And>x \<sigma> y. f x \<sigma> = Some y \<Longrightarrow> g x \<sigma> = Some y) \<Longrightarrow> any_st g xs \<sigma> = Some y"
  by (induction xs arbitrary: \<sigma>) (fastforce split: option.splits bool.splits)+

lemma all_st_mono:
  "all_st f xs \<sigma> = Some y \<Longrightarrow> (\<And>x \<sigma> y. f x \<sigma> = Some y \<Longrightarrow> g x \<sigma> = Some y) \<Longrightarrow> all_st g xs \<sigma> = Some y"
  by (induction xs arbitrary: \<sigma>) (fastforce split: option.splits bool.splits)+

lemma Suc_mono:
  assumes "\<And>n y. f n = Some y \<Longrightarrow> f (Suc n) = Some y"
  shows "f n = Some y \<Longrightarrow> n \<le> m \<Longrightarrow> f m = Some y"
  by (induction m) (auto simp: le_Suc_eq intro: assms)

lemma occurs_check_Suc: "occurs_check n \<sigma> v t = Some b \<Longrightarrow> occurs_check (Suc n) \<sigma> v t = Some b"
proof (induction n arbitrary: t b)
  case (Suc n)
  have "any_opt (occurs_check (Suc n) \<sigma> v) ts = Some b" if "any_opt (occurs_check n \<sigma> v) ts = Some b" for ts
    using that by (rule any_opt_mono) (rule Suc.IH)
  with Suc.prems [unfolded occurs_check_unfold [of n]] show ?case
    by (auto simp: occurs_check_unfold [of "Suc n"] dest: Suc.IH split: option.splits)
qed simp

lemma occurs_check_mono: "occurs_check n \<sigma> v t = Some b \<Longrightarrow> n \<le> m \<Longrightarrow> occurs_check m \<sigma> v t = Some b"
  by (rule Suc_mono [where f = "\<lambda>n. occurs_check n \<sigma> v t", OF occurs_check_Suc])

text \<open>The probe of two resolved types.\<close>

definition probe_case :: "(ty \<Rightarrow> ty \<Rightarrow> subst \<Rightarrow> (bool \<times> subst) option) \<Rightarrow> ty \<Rightarrow> ty \<Rightarrow> subst \<Rightarrow> (bool \<times> subst) option" where
  "probe_case probe a b \<sigma>2 =
     (if a = b then Some (True, \<sigma>2)
      else if a \<in> {TAny, TPyObject, TNever} \<or> b \<in> {TAny, TPyObject, TNever} \<or>
              dest_var a \<noteq> None \<or> dest_var b \<noteq> None then Some (True, \<sigma>2)
      else if a = TNull then Some (is_nullable_target b, \<sigma>2)
      else if b = TNull then Some (is_nullable_target a, \<sigma>2)
      else (case either dest_union a b of
              Some (ms, other) \<Rightarrow> any_st (\<lambda>m. probe m other) ms \<sigma>2
            | None \<Rightarrow> Some (False, \<sigma>2)))"

lemma probe_unfold:
  "probe_compatible (Suc n) t1 t2 \<sigma> =
     do { (a, \<sigma>1) \<leftarrow> apply_subst n t1 \<sigma>;
          (b, \<sigma>2) \<leftarrow> apply_subst n t2 \<sigma>1;
          probe_case (probe_compatible n) a b \<sigma>2 }"
  unfolding probe_case_def by (rule probe_compatible.simps(2))

declare probe_compatible.simps(2) [simp del]

lemma probe_case_mono:
  assumes "probe_case f a b \<sigma> = Some y" and "\<And>m t \<sigma> y. f m t \<sigma> = Some y \<Longrightarrow> g m t \<sigma> = Some y"
  shows "probe_case g a b \<sigma> = Some y"
proof -
  have "any_st (\<lambda>m. g m t) ms \<sigma> = Some y" if "any_st (\<lambda>m. f m t) ms \<sigma> = Some y" for ms t
    using that by (rule any_st_mono) (rule assms(2))
  then show ?thesis using assms(1) unfolding probe_case_def by (auto split: if_split_asm option.splits)
qed

lemma probe_Suc: "probe_compatible n a b \<sigma> = Some y \<Longrightarrow> probe_compatible (Suc n) a b \<sigma> = Some y"
proof (induction n arbitrary: a b \<sigma> y)
  case (Suc n)
  obtain ra \<sigma>1 rb \<sigma>2 where r: "apply_subst n a \<sigma> = Some (ra, \<sigma>1)" "apply_subst n b \<sigma>1 = Some (rb, \<sigma>2)"
    "probe_case (probe_compatible n) ra rb \<sigma>2 = Some y"
    using Suc.prems by (auto simp: probe_unfold split: bind_splits)
  note r' = apply_subst_mono [OF r(1), of "Suc n", simplified] apply_subst_mono [OF r(2), of "Suc n", simplified]
  show ?case unfolding probe_unfold [of "Suc n"] using probe_case_mono [OF r(3) Suc.IH] by (simp add: r')
qed simp

lemma probe_mono: "probe_compatible n a b \<sigma> = Some y \<Longrightarrow> n \<le> m \<Longrightarrow> probe_compatible m a b \<sigma> = Some y"
  by (rule Suc_mono [where f = "\<lambda>n. probe_compatible n a b \<sigma>", OF probe_Suc])

lemma unions_fit_Suc: "unions_fit n as bs \<sigma> = Some y \<Longrightarrow> unions_fit (Suc n) as bs \<sigma> = Some y"
  unfolding unions_fit_def by (erule all_st_mono, erule any_st_mono, rule probe_Suc)

lemma unions_fit_mono: "unions_fit n as bs \<sigma> = Some y \<Longrightarrow> n \<le> m \<Longrightarrow> unions_fit m as bs \<sigma> = Some y"
  by (rule Suc_mono [where f = "\<lambda>n. unions_fit n as bs \<sigma>", OF unions_fit_Suc])

definition more_fuel :: "unify_ctx \<Rightarrow> nat \<Rightarrow> bool" where
  "more_fuel ctx n \<longleftrightarrow> (\<forall>a b s s'. unify ctx n a b s = Some s' \<longrightarrow> unify ctx (Suc n) a b s = Some s')"

lemma more_fuelD: "more_fuel ctx n \<Longrightarrow> unify ctx n a b s = Some s' \<Longrightarrow> unify ctx (Suc n) a b s = Some s'"
  unfolding more_fuel_def by blast

lemma unify_parts_Suc:
  assumes "more_fuel ctx n"
  shows "unify_parts ctx n ps s = Some s' \<Longrightarrow> unify_parts ctx (Suc n) ps s = Some s'"
proof (induction ps arbitrary: s)
  case (Cons p ps)
  obtain a b where p: "p = (a, b)" by (cases p)
  obtain s1 where s1: "unify ctx n a b s = Some s1" "unify_parts ctx n ps s1 = Some s'"
    using Cons.prems p by (auto split: option.splits)
  show ?case using more_fuelD [OF assms s1(1)] Cons.IH [OF s1(2)] by (simp add: p)
qed simp

lemma unify_elem_Suc:
  assumes "more_fuel ctx n" and run: "unify_elem ctx n a b s = Some s'"
  shows "unify_elem ctx (Suc n) a b s = Some s'"
proof -
  obtain \<sigma> es where [simp]: "s = (\<sigma>, es)" by (cases s)
  obtain ra \<sigma>1 rb \<sigma>2 where r: "apply_subst n a \<sigma> = Some (ra, \<sigma>1)" "apply_subst n b \<sigma>1 = Some (rb, \<sigma>2)"
    using run by (auto split: option.splits)
  note r' = apply_subst_mono [OF r(1), of "Suc n", simplified] apply_subst_mono [OF r(2), of "Suc n", simplified]
  show ?thesis
  proof (cases "boxing_side ra rb")
    case None
    then have "unify ctx n a b (\<sigma>2, es) = Some s'" using run r by simp
    from more_fuelD [OF assms(1) this] None show ?thesis by (simp add: r')
  qed (use run in \<open>simp add: r r'\<close>)
qed

lemma unify_elems_Suc:
  assumes "more_fuel ctx n"
  shows "unify_elems ctx n ps s = Some s' \<Longrightarrow> unify_elems ctx (Suc n) ps s = Some s'"
proof (induction ps arbitrary: s)
  case (Cons p ps)
  obtain a b where p: "p = (a, b)" by (cases p)
  obtain s1 where s1: "unify_elem ctx n a b s = Some s1" "unify_elems ctx n ps s1 = Some s'"
    using Cons.prems p by (auto simp del: unify_elem.simps split: option.splits)
  show ?case using unify_elem_Suc [OF assms s1(1)] Cons.IH [OF s1(2)] by (simp add: p del: unify_elem.simps)
qed simp

lemma unify_silently_Suc:
  assumes "more_fuel ctx n" and run: "unify_silently ctx n a b s = Some s'"
  shows "unify_silently ctx (Suc n) a b s = Some s'"
proof -
  obtain \<sigma> es where [simp]: "s = (\<sigma>, es)" by (cases s)
  obtain s1 where "unify ctx n a b (\<sigma>, es) = Some s1" using run by (auto split: option.splits)
  with more_fuelD [OF assms(1) this] run show ?thesis by simp
qed

lemma unify_members_Suc:
  assumes "more_fuel ctx n"
  shows "unify_members ctx n other ms s = Some y \<Longrightarrow> unify_members ctx (Suc n) other ms s = Some y"
proof (induction ms arbitrary: s)
  case (Cons m ms)
  obtain x s1 where x: "unify_silently ctx n other m s = Some (x, s1)"
    using Cons.prems by (auto simp del: unify_silently.simps split: option.splits)
  show ?case using unify_silently_Suc [OF assms x] Cons x by (cases x) (auto simp del: unify_silently.simps)
qed simp

lemma arm_run_Suc:
  assumes "more_fuel ctx n" and run: "arm_run ctx n a b s = Some s'"
  shows "arm_run ctx (Suc n) a b s = Some s'"
proof -
  obtain \<sigma> es where [simp]: "s = (\<sigma>, es)" by (cases s)
  show ?thesis
  proof (cases "\<exists>as bs. unify_arm ctx a b = UnionPair as bs")
    case True
    then obtain as bs x \<sigma>1 y where u: "unify_arm ctx a b = UnionPair as bs"
      "unions_fit n as bs \<sigma> = Some (x, \<sigma>1)" "unions_fit n bs as \<sigma>1 = Some y"
      using run by (auto simp: arm_run_def split: option.splits)
    with run unions_fit_Suc [OF u(2)] unions_fit_Suc [OF u(3)] show ?thesis by (simp add: arm_run_def)
  next
    case False
    then show ?thesis
      using run
      by (cases "unify_arm ctx a b")
        (auto simp: arm_run_def unify_parts_Suc [OF assms(1)] unify_elems_Suc [OF assms(1)]
          dest: occurs_check_Suc unify_members_Suc [OF assms(1)] split: option.splits bool.splits)
  qed
qed

lemma unify_Suc_fuel: "more_fuel ctx n"
proof (induction n)
  case 0
  then show ?case by (simp add: more_fuel_def)
next
  case (Suc n)
  show ?case unfolding more_fuel_def
  proof (intro allI impI)
    fix t1 t2 s s' assume u: "unify ctx (Suc n) t1 t2 s = Some s'"
    obtain \<sigma> es where [simp]: "s = (\<sigma>, es)" by (cases s)
    obtain a \<sigma>1 b \<sigma>2 where r: "apply_subst n t1 \<sigma> = Some (a, \<sigma>1)" "apply_subst n t2 \<sigma>1 = Some (b, \<sigma>2)"
      using u by (auto simp: unify_Suc split: option.splits)
    note r' = apply_subst_mono [OF r(1), of "Suc n", simplified] apply_subst_mono [OF r(2), of "Suc n", simplified]
    show "unify ctx (Suc (Suc n)) t1 t2 s = Some s'"
    proof (cases "a = b")
      case False
      then have "arm_run ctx n a b (\<sigma>2, es) = Some s'" using u r by (simp add: unify_Suc)
      from arm_run_Suc [OF Suc.IH this] False show ?thesis by (simp add: unify_Suc [of _ "Suc n"] r')
    qed (use u in \<open>simp add: unify_Suc r r'\<close>)
  qed
qed

lemma unify_mono: "unify ctx n a b s = Some s' \<Longrightarrow> n \<le> m \<Longrightarrow> unify ctx m a b s = Some s'"
  by (rule Suc_mono [where f = "\<lambda>n. unify ctx n a b s", OF more_fuelD [OF unify_Suc_fuel]])

lemma unify_parts_mono: "unify_parts ctx n ps s = Some s' \<Longrightarrow> n \<le> m \<Longrightarrow> unify_parts ctx m ps s = Some s'"
  by (rule Suc_mono [where f = "\<lambda>n. unify_parts ctx n ps s", OF unify_parts_Suc [OF unify_Suc_fuel]])

lemma unify_elems_mono: "unify_elems ctx n ps s = Some s' \<Longrightarrow> n \<le> m \<Longrightarrow> unify_elems ctx m ps s = Some s'"
  by (rule Suc_mono [where f = "\<lambda>n. unify_elems ctx n ps s", OF unify_elems_Suc [OF unify_Suc_fuel]])

lemma unify_elem_mono: "unify_elem ctx n a b s = Some s' \<Longrightarrow> n \<le> m \<Longrightarrow> unify_elem ctx m a b s = Some s'"
  by (rule Suc_mono [where f = "\<lambda>n. unify_elem ctx n a b s", OF unify_elem_Suc [OF unify_Suc_fuel]])

lemma unify_silently_mono: "unify_silently ctx n a b s = Some y \<Longrightarrow> n \<le> m \<Longrightarrow> unify_silently ctx m a b s = Some y"
  by (rule Suc_mono [where f = "\<lambda>n. unify_silently ctx n a b s", OF unify_silently_Suc [OF unify_Suc_fuel]])

lemma unify_members_mono: "unify_members ctx n t ms s = Some y \<Longrightarrow> n \<le> m \<Longrightarrow> unify_members ctx m t ms s = Some y"
  by (rule Suc_mono [where f = "\<lambda>n. unify_members ctx n t ms s", OF unify_members_Suc [OF unify_Suc_fuel]])

subsection \<open>Enough fuel\<close>

lemma any_opt_total:
  fixes f :: "nat \<Rightarrow> ty \<Rightarrow> bool option"
  assumes "\<And>t. t \<in> set ts \<Longrightarrow> \<exists>n b. f n t = Some b" and mono: "\<And>n m t b. f n t = Some b \<Longrightarrow> n \<le> m \<Longrightarrow> f m t = Some b"
  shows "\<exists>n b. any_opt (f n) ts = Some b"
  using assms(1)
proof (induction ts)
  case (Cons t ts)
  obtain n b where n: "f n t = Some b" using Cons.prems by (meson list.set_intros(1))
  obtain m c where m: "any_opt (f m) ts = Some c" using Cons by auto
  have "f (max n m) t = Some b" by (rule mono [OF n]) simp
  moreover have "any_opt (f (max n m)) ts = Some c"
    by (rule any_opt_mono [OF m], erule mono, simp)
  ultimately have "any_opt (f (max n m)) (t # ts) = Some (b \<or> c)" by (cases b) simp_all
  then show ?case by blast
qed auto

lemma occurs_check_total:
  assumes "acyclic_subst \<sigma>"
  shows "\<exists>n b. occurs_check n \<sigma> v t = Some b"
proof -
  obtain rk where "ranked rk \<sigma>" using assms by (auto simp: acyclic_subst_def)
  then show ?thesis
  proof (induction t rule: ranked_induct)
    case (bound t w u)
    then obtain n b where "occurs_check n \<sigma> v u = Some b" by blast
    then have "occurs_check (Suc n) \<sigma> v t = Some (v = w \<or> b)" using bound by (simp add: occurs_check_unfold)
    then show ?case by blast
  next
    case (free t w)
    then have "occurs_check (Suc 0) \<sigma> v t = Some (v = w)" by (simp add: occurs_check_unfold)
    then show ?case by blast
  next
    case (node t)
    obtain n b where "any_opt (occurs_check n \<sigma> v) (sub_tys t) = Some b"
      using any_opt_total [of "sub_tys t" "\<lambda>n. occurs_check n \<sigma> v"] node(2) occurs_check_mono by blast
    then have "occurs_check (Suc n) \<sigma> v t = Some b" using node(1) by (simp add: occurs_check_unfold)
    then show ?case by blast
  qed
qed

lemma apply_two_total:
  assumes "acyclic_subst \<sigma>"
  obtains n a \<sigma>1 b \<sigma>2 where "apply_subst n t1 \<sigma> = Some (a, \<sigma>1)" "apply_subst n t2 \<sigma>1 = Some (b, \<sigma>2)"
proof -
  obtain n a \<sigma>1 where a: "apply_subst n t1 \<sigma> = Some (a, \<sigma>1)"
    using assms apply_subst_total unfolding acyclic_subst_def by fastforce
  then have "acyclic_subst \<sigma>1" using apply_compresses(2) [OF a assms] by (simp add: compresses_def)
  then obtain m b \<sigma>2 where b: "apply_subst m t2 \<sigma>1 = Some (b, \<sigma>2)"
    using apply_subst_total unfolding acyclic_subst_def by fastforce
  show thesis
    using that apply_subst_mono [OF a, of "max n m"] apply_subst_mono [OF b, of "max n m"] by simp
qed

text \<open>A search whose tests only compress paths ends when each test does.\<close>

lemma any_st_total:
  fixes f :: "nat \<Rightarrow> ty \<Rightarrow> subst \<Rightarrow> (bool \<times> subst) option"
  assumes total: "\<And>x \<sigma>. x \<in> set xs \<Longrightarrow> compresses \<sigma>0 \<sigma> \<Longrightarrow> \<exists>n y. f n x \<sigma> = Some y"
    and keeps: "\<And>n x \<sigma> b \<sigma>'. f n x \<sigma> = Some (b, \<sigma>') \<Longrightarrow> acyclic_subst \<sigma> \<Longrightarrow> compresses \<sigma> \<sigma>'"
    and mono: "\<And>n m x \<sigma> y. f n x \<sigma> = Some y \<Longrightarrow> n \<le> m \<Longrightarrow> f m x \<sigma> = Some y"
  shows "compresses \<sigma>0 \<sigma> \<Longrightarrow> \<exists>n y. any_st (f n) xs \<sigma> = Some y" "compresses \<sigma>0 \<sigma> \<Longrightarrow> \<exists>n y. all_st (f n) xs \<sigma> = Some y"
proof -
  have step: "\<exists>n b \<sigma>1. f n x \<sigma> = Some (b, \<sigma>1) \<and> compresses \<sigma>0 \<sigma>1" if x: "x \<in> set xs" "compresses \<sigma>0 \<sigma>" for x \<sigma>
  proof -
    obtain n b \<sigma>1 where n: "f n x \<sigma> = Some (b, \<sigma>1)" using total [OF x] by auto
    then have "compresses \<sigma> \<sigma>1" using keeps x(2) by (auto simp: compresses_def)
    with n x(2) show ?thesis using compresses_trans by blast
  qed
  have "\<forall>\<sigma>. compresses \<sigma>0 \<sigma> \<longrightarrow> (\<exists>n y. any_st (f n) ys \<sigma> = Some y)" if "set ys \<subseteq> set xs" for ys
    using that
  proof (induction ys)
    case (Cons x ys)
    show ?case
    proof (intro allI impI)
      fix \<sigma> assume c: "compresses \<sigma>0 \<sigma>"
      obtain n b \<sigma>1 where n: "f n x \<sigma> = Some (b, \<sigma>1)" "compresses \<sigma>0 \<sigma>1" using step [of x \<sigma>] Cons.prems c by auto
      obtain m y where m: "any_st (f m) ys \<sigma>1 = Some y" using Cons.IH Cons.prems n(2) by auto
      have "f (max n m) x \<sigma> = Some (b, \<sigma>1)" by (rule mono [OF n(1)]) simp
      moreover have "any_st (f (max n m)) ys \<sigma>1 = Some y" by (rule any_st_mono [OF m], erule mono, simp)
      ultimately have "any_st (f (max n m)) (x # ys) \<sigma> = Some (if b then (True, \<sigma>1) else y)" by (cases b) simp_all
      then show "\<exists>n y. any_st (f n) (x # ys) \<sigma> = Some y" by blast
    qed
  qed auto
  then show "compresses \<sigma>0 \<sigma> \<Longrightarrow> \<exists>n y. any_st (f n) xs \<sigma> = Some y" by blast
  have "\<forall>\<sigma>. compresses \<sigma>0 \<sigma> \<longrightarrow> (\<exists>n y. all_st (f n) ys \<sigma> = Some y)" if "set ys \<subseteq> set xs" for ys
    using that
  proof (induction ys)
    case (Cons x ys)
    show ?case
    proof (intro allI impI)
      fix \<sigma> assume c: "compresses \<sigma>0 \<sigma>"
      obtain n b \<sigma>1 where n: "f n x \<sigma> = Some (b, \<sigma>1)" "compresses \<sigma>0 \<sigma>1" using step [of x \<sigma>] Cons.prems c by auto
      obtain m y where m: "all_st (f m) ys \<sigma>1 = Some y" using Cons.IH Cons.prems n(2) by auto
      have "f (max n m) x \<sigma> = Some (b, \<sigma>1)" by (rule mono [OF n(1)]) simp
      moreover have "all_st (f (max n m)) ys \<sigma>1 = Some y" by (rule all_st_mono [OF m], erule mono, simp)
      ultimately have "all_st (f (max n m)) (x # ys) \<sigma> = Some (if b then y else (False, \<sigma>1))" by (cases b) simp_all
      then show "\<exists>n y. all_st (f n) (x # ys) \<sigma> = Some y" by blast
    qed
  qed auto
  then show "compresses \<sigma>0 \<sigma> \<Longrightarrow> \<exists>n y. all_st (f n) xs \<sigma> = Some y" by blast
qed

lemma either_union_size:
  "either dest_union a b = Some (ms, other) \<Longrightarrow> m \<in> set ms \<Longrightarrow> size m + size other < size a + size b"
  using size_sub [of m "TUnion ms"] by (auto simp: either_Some dest_Some)

lemma probe_total:
  "acyclic_subst \<sigma> \<Longrightarrow> resolves \<sigma> t1 a \<Longrightarrow> resolves \<sigma> t2 b \<Longrightarrow> \<exists>n y. probe_compatible n t1 t2 \<sigma> = Some y"
proof (induction "size a + size b" arbitrary: \<sigma> t1 t2 a b rule: less_induct)
  case less
  obtain n a' \<sigma>1 b' \<sigma>2 where r: "apply_subst n t1 \<sigma> = Some (a', \<sigma>1)" "apply_subst n t2 \<sigma>1 = Some (b', \<sigma>2)"
    using apply_two_total [OF less.prems(1)] by blast
  note c1 = apply_compresses [OF r(1) less.prems(1)]
  have ac: "acyclic_subst \<sigma>1" using c1(2) by (simp add: compresses_def)
  note c2 = apply_compresses [OF r(2) ac]
  have eq: "resolves \<sigma>1 = resolves \<sigma>" "resolves \<sigma>2 = resolves \<sigma>" "acyclic_subst \<sigma>2"
    using c1(2) c2(2) by (simp_all add: compresses_def same_solution_def)
  have ab: "a' = a" "b' = b" using resolves_unique c1(1) c2(1) less.prems(2,3) eq(1) by metis+
  have "\<exists>m y. probe_case (probe_compatible m) a b \<sigma>2 = Some y"
  proof (cases "either dest_union a b")
    case (Some x)
    then obtain ms other where u: "either dest_union a b = Some (ms, other)" by (cases x) auto
    have self: "resolves \<sigma> a a" "resolves \<sigma> b b" using resolves_idem less.prems(2,3) by blast+
    have free: "resolves \<sigma>' t t" if "compresses \<sigma>2 \<sigma>'" "t = other \<or> t \<in> set ms" for t \<sigma>'
    proof -
      have d: "tvars a \<inter> dom \<sigma> = {}" "tvars b \<inter> dom \<sigma> = {}" using resolved_free less.prems(2,3) by blast+
      have "tvars t \<subseteq> tvars a \<union> tvars b"
        using that(2) u tvars_sub [of t "TUnion ms"] by (auto simp: either_Some dest_Some)
      with d have "resolves \<sigma> t t" by (intro resolves_self) blast
      with that(1) eq(2) show ?thesis by (simp add: compresses_def same_solution_def)
    qed
    have "\<exists>m y. any_st (\<lambda>x. probe_compatible m x other) ms \<sigma>2 = Some y"
    proof (rule any_st_total(1) [where f = "\<lambda>m x. probe_compatible m x other" and \<sigma>0 = \<sigma>2])
      show "\<exists>n y. probe_compatible n x other \<sigma>' = Some y" if x: "x \<in> set ms" "compresses \<sigma>2 \<sigma>'" for x \<sigma>'
        by (rule less.hyps [OF either_union_size [OF u x(1)]]) (use x free in \<open>auto simp: compresses_def\<close>)
    qed (auto intro: probe_compresses probe_mono simp: eq(3))
    then show ?thesis using u unfolding probe_case_def by (auto split: option.splits)
  next
    case None
    then show ?thesis unfolding probe_case_def by (cases "a = b") auto
  qed
  then obtain m y where m: "probe_case (probe_compatible m) a b \<sigma>2 = Some y" by blast
  let ?k = "max n m"
  have "probe_case (probe_compatible ?k) a b \<sigma>2 = Some y"
    by (rule probe_case_mono [OF m], erule probe_mono, simp)
  moreover have "apply_subst ?k t1 \<sigma> = Some (a, \<sigma>1)" "apply_subst ?k t2 \<sigma>1 = Some (b, \<sigma>2)"
    using apply_subst_mono [OF r(1), of ?k] apply_subst_mono [OF r(2), of ?k] ab by simp_all
  ultimately have "probe_compatible (Suc ?k) t1 t2 \<sigma> = Some y" by (simp add: probe_unfold)
  then show ?case by blast
qed

lemma any_probe_total:
  assumes "compresses \<sigma>0 \<sigma>"
  shows "\<exists>n y. any_st (probe_compatible n x) bs \<sigma> = Some y"
proof (rule any_st_total(1) [where f = "\<lambda>n. probe_compatible n x", OF _ probe_compresses probe_mono assms])
  fix y \<sigma>2 assume "compresses \<sigma>0 \<sigma>2"
  then have a: "acyclic_subst \<sigma>2" by (simp add: compresses_def)
  obtain ra rb where "resolves \<sigma>2 x ra" "resolves \<sigma>2 y rb" using acyclic_total [OF a] by metis
  then show "\<exists>n z. probe_compatible n x y \<sigma>2 = Some z" by (rule probe_total [OF a])
qed

lemma any_probe_mono:
  assumes "any_st (probe_compatible n x) bs \<sigma> = Some y" "n \<le> m"
  shows "any_st (probe_compatible m x) bs \<sigma> = Some y"
  by (rule any_st_mono [OF assms(1)]) (rule probe_mono [OF _ assms(2)])

lemma unions_fit_total:
  assumes "acyclic_subst \<sigma>"
  shows "\<exists>n y. unions_fit n as bs \<sigma> = Some y"
  unfolding unions_fit_def
proof (rule any_st_total(2) [where \<sigma>0 = \<sigma> and f = "\<lambda>n x. any_st (probe_compatible n x) bs", OF any_probe_total _ any_probe_mono])
  fix n x \<sigma> b \<sigma>' assume "any_st (probe_compatible n x) bs \<sigma> = Some (b, \<sigma>')" "acyclic_subst \<sigma>"
  then show "compresses \<sigma> \<sigma>'" by (rule any_st_compresses(1) [rotated]) (rule probe_compresses)
next
  show "compresses \<sigma> \<sigma>" using assms by simp
qed

subsection \<open>Every run ends\<close>

definition halts :: "unify_ctx \<Rightarrow> ty \<Rightarrow> ty \<Rightarrow> infer_state \<Rightarrow> bool" where
  "halts ctx a b s \<longleftrightarrow> (\<exists>n s'. unify ctx n a b s = Some s')"

lemma vars_of_pair: "(p, q) \<in> set (zip (sub_tys a) (sub_tys b)) \<Longrightarrow> tvars p \<subseteq> tvars a \<and> tvars q \<subseteq> tvars b"
  using tvars_sub by (auto dest: set_zip_leftD set_zip_rightD)

lemma unify_parts_halts:
  assumes "\<And>p q s'. (p, q) \<in> set ps \<Longrightarrow> grows U s s' \<Longrightarrow> halts ctx p q s'"
    and "\<forall>(p, q)\<in>set ps. tvars p \<subseteq> U \<and> tvars q \<subseteq> U" "sane U (fst s)"
  shows "\<exists>n s'. unify_parts ctx n ps s = Some s'"
  using assms
proof (induction ps arbitrary: s)
  case (Cons p ps)
  obtain a b where p: "p = (a, b)" by (cases p)
  obtain n s1 where n: "unify ctx n a b s = Some s1"
    using Cons.prems(1) [of a b s] p grows_refl [OF Cons.prems(3)] by (auto simp: halts_def)
  have v: "tvars a \<subseteq> U" "tvars b \<subseteq> U" using Cons.prems(2) p by auto
  have g: "grows U s s1" by (rule run_okD(1) [OF unify_run_ok n Cons.prems(3) v])
  have "halts ctx p q s'" if "(p, q) \<in> set ps" "grows U s1 s'" for p q s'
    by (rule Cons.prems(1) [OF _ grows_trans [OF g that(2)]]) (use that(1) in simp)
  then obtain m s2 where m: "unify_parts ctx m ps s1 = Some s2"
    using Cons.IH [of s1] Cons.prems(2) grows_sane [OF g] by auto
  have "unify_parts ctx (max n m) (p # ps) s = Some s2"
    using unify_mono [OF n, of "max n m"] unify_parts_mono [OF m, of "max n m"] by (simp add: p)
  then show ?case by blast
qed simp

lemma unify_elem_halts:
  assumes "\<And>s'. grows U s s' \<Longrightarrow> halts ctx a b s'" "sane U (fst s)"
  shows "\<exists>n s'. unify_elem ctx n a b s = Some s'"
proof -
  obtain \<sigma> es where [simp]: "s = (\<sigma>, es)" by (cases s)
  have ac: "acyclic_subst \<sigma>" using assms(2) by (simp add: sane_def)
  obtain n ra \<sigma>1 rb \<sigma>2 where r: "apply_subst n a \<sigma> = Some (ra, \<sigma>1)" "apply_subst n b \<sigma>1 = Some (rb, \<sigma>2)"
    using apply_two_total [OF ac] by blast
  have "sane U \<sigma>" using assms(2) by simp
  note g1 = apply_grows [OF r(1) this]
  note g2 = apply_grows [OF r(2) g1(6)]
  obtain m s' where m: "unify ctx m a b (\<sigma>2, es) = Some s'"
    using assms(1) [of "(\<sigma>2, es)"] grows_trans [OF g1(1) g2(1), of es] unfolding halts_def by auto
  let ?k = "max n m"
  have "unify_elem ctx ?k a b s = Some (case boxing_side ra rb of Some c \<Rightarrow> (\<sigma>2, es @ [element_aliases_any c]) | None \<Rightarrow> s')"
    using apply_subst_mono [OF r(1), of ?k] apply_subst_mono [OF r(2), of ?k] unify_mono [OF m, of ?k]
    by (simp split: option.splits)
  then show ?thesis by blast
qed

lemma unify_elems_halts:
  assumes "\<And>p q s'. (p, q) \<in> set ps \<Longrightarrow> grows U s s' \<Longrightarrow> halts ctx p q s'"
    and "\<forall>(p, q)\<in>set ps. tvars p \<subseteq> U \<and> tvars q \<subseteq> U" "sane U (fst s)"
  shows "\<exists>n s'. unify_elems ctx n ps s = Some s'"
  using assms
proof (induction ps arbitrary: s)
  case (Cons p ps)
  obtain a b where p: "p = (a, b)" by (cases p)
  have "halts ctx a b s'" if "grows U s s'" for s' using Cons.prems(1) that p by simp
  then obtain n s1 where n: "unify_elem ctx n a b s = Some s1"
    using unify_elem_halts [OF _ Cons.prems(3)] by blast
  have v: "tvars a \<subseteq> U" "tvars b \<subseteq> U" using Cons.prems(2) p by auto
  have g: "grows U s s1" by (rule run_okD(1) [OF unify_elem_ok [OF unify_run_ok] n Cons.prems(3) v])
  have "halts ctx p q s'" if "(p, q) \<in> set ps" "grows U s1 s'" for p q s'
    by (rule Cons.prems(1) [OF _ grows_trans [OF g that(2)]]) (use that(1) in simp)
  then obtain m s2 where m: "unify_elems ctx m ps s1 = Some s2"
    using Cons.IH [of s1] Cons.prems(2) grows_sane [OF g] by auto
  have "unify_elems ctx (max n m) (p # ps) s = Some s2"
    using unify_elem_mono [OF n, of "max n m"] unify_elems_mono [OF m, of "max n m"] by (simp add: p del: unify_elem.simps)
  then show ?case by blast
qed simp

lemma unify_members_halts:
  assumes "\<And>m. m \<in> set ms \<Longrightarrow> halts ctx other m s" "sane U (fst s)" "tvars other \<subseteq> U" "\<forall>m\<in>set ms. tvars m \<subseteq> U"
  shows "\<exists>n y. unify_members ctx n other ms s = Some y"
  using assms(1,4)
proof (induction ms)
  case (Cons m ms)
  obtain \<sigma> es where s: "s = (\<sigma>, es)" by (cases s)
  obtain n s1 where "unify ctx n other m (\<sigma>, es) = Some s1" using Cons.prems(1) [of m] by (auto simp: halts_def s)
  then have "unify_silently ctx n other m s \<noteq> None" by (cases s1) (auto simp: s)
  then obtain x s2 where n: "unify_silently ctx n other m s = Some (x, s2)" by auto
  have m: "tvars m \<subseteq> U" using Cons.prems(2) by simp
  obtain k y where k: "unify_members ctx k other ms s = Some y" using Cons by auto
  have "s2 = s" if "\<not> x" by (rule unify_silently_ok(4) [OF unify_run_ok n assms(2,3) m that])
  then have "unify_members ctx (max n k) other (m # ms) s = Some (if x then (True, s2) else y)"
    using unify_silently_mono [OF n, of "max n k"] unify_members_mono [OF k, of "max n k"]
    by (cases x) (simp_all del: unify_silently.simps)
  then show ?case by blast
qed auto

lemma arm_run_mono:
  "arm_run ctx n a b s = Some s' \<Longrightarrow> n \<le> m \<Longrightarrow> arm_run ctx m a b s = Some s'"
  by (rule Suc_mono [where f = "\<lambda>n. arm_run ctx n a b s", OF arm_run_Suc [OF unify_Suc_fuel]])

text \<open>
  The step, when every run that starts from a larger substitution, or from this one with smaller
  resolved types, ends.
\<close>

lemma arm_run_halts:
  assumes sub: "\<And>p q s'. grows U (\<sigma>, es) s' \<Longrightarrow> tvars p \<subseteq> tvars a \<union> tvars b \<Longrightarrow> tvars q \<subseteq> tvars a \<union> tvars b \<Longrightarrow>
      size p + size q < size a + size b \<Longrightarrow> halts ctx p q s'"
    and s: "sane U \<sigma>" "tvars a \<subseteq> U" "tvars b \<subseteq> U"
  shows "\<exists>n s'. arm_run ctx n a b (\<sigma>, es) = Some s'"
proof -
  have ac: "acyclic_subst \<sigma>" and s': "sane U (fst (\<sigma>, es))" using s(1) by (simp_all add: sane_def)
  note ok = unify_arm_ok [of ctx a b]
  have pairs: "halts ctx p q s'" if "(p, q) \<in> set (zip (sub_tys a) (sub_tys b))" "grows U (\<sigma>, es) s'" for p q s'
  proof (rule sub [OF that(2)])
    show "tvars p \<subseteq> tvars a \<union> tvars b" "tvars q \<subseteq> tvars a \<union> tvars b" using vars_of_pair [OF that(1)] by blast+
    show "size p + size q < size a + size b"
      using size_sub [of p a] size_sub [of q b] set_zip_leftD [OF that(1)] set_zip_rightD [OF that(1)] by simp
  qed
  show ?thesis
  proof (cases "unify_arm ctx a b")
    case (BindVar v u)
    obtain n x where "occurs_check n \<sigma> v u = Some x" using occurs_check_total [OF ac] by blast
    then have "arm_run ctx n a b (\<sigma>, es) \<noteq> None" using BindVar by (cases x) (simp_all add: arm_run_def)
    then show ?thesis by blast
  next
    case (Parts ps)
    then have ps: "ps = zip (sub_tys a) (sub_tys b)" using ok by (simp add: arm_ok_def)
    show ?thesis
      using unify_parts_halts [OF pairs zip_vars [OF s(2,3)] s'] Parts ps by (simp add: arm_run_def)
  next
    case (Elems ps)
    then have ps: "ps = zip (sub_tys a) (sub_tys b)" using ok by (simp add: arm_ok_def)
    show ?thesis
      using unify_elems_halts [OF pairs zip_vars [OF s(2,3)] s'] Elems ps by (simp add: arm_run_def)
  next
    case (UnionPair as bs)
    obtain n x \<sigma>3 where n: "unions_fit n as bs \<sigma> = Some (x, \<sigma>3)" using unions_fit_total [OF ac] by fastforce
    then have "acyclic_subst \<sigma>3" using unions_fit_compresses [OF n ac] by (simp add: compresses_def)
    then obtain m y \<sigma>4 where m: "unions_fit m bs as \<sigma>3 = Some (y, \<sigma>4)" using unions_fit_total by fastforce
    have "arm_run ctx (max n m) a b (\<sigma>, es) \<noteq> None"
      using UnionPair unions_fit_mono [OF n, of "max n m"] unions_fit_mono [OF m, of "max n m"] by (simp add: arm_run_def)
    then show ?thesis by blast
  next
    case (UnionMember other ms)
    then have ab: "other = a \<and> b = TUnion ms \<or> other = b \<and> a = TUnion ms" using ok by (simp add: arm_ok_def)
    have m: "tvars m \<subseteq> tvars (TUnion ms) \<and> size m < size (TUnion ms)" if "m \<in> set ms" for m
      using tvars_sub [of m "TUnion ms"] size_sub [of m "TUnion ms"] that by simp
    have "halts ctx other m (\<sigma>, es)" if "m \<in> set ms" for m
      by (rule sub [OF grows_refl [OF s']]) (use ab m [OF that] in auto)
    moreover have "tvars other \<subseteq> U" "\<forall>m\<in>set ms. tvars m \<subseteq> U" using ab s(2,3) m by blast+
    ultimately obtain n y where "unify_members ctx n other ms (\<sigma>, es) = Some y"
      using unify_members_halts [OF _ s'] by blast
    then have "arm_run ctx n a b (\<sigma>, es) \<noteq> None" using UnionMember by (cases y) (simp add: arm_run_def)
    then show ?thesis by blast
  qed (auto simp: arm_run_def)
qed

lemma unify_step_halts:
  assumes r: "apply_subst n t1 \<sigma> = Some (a, \<sigma>1)" "apply_subst n t2 \<sigma>1 = Some (b, \<sigma>2)"
    and m: "arm_run ctx m a b (\<sigma>2, es) = Some s'"
  shows "halts ctx t1 t2 (\<sigma>, es)"
proof -
  let ?k = "max n m"
  have "unify ctx (Suc ?k) t1 t2 (\<sigma>, es) = Some (if a = b then (\<sigma>2, es) else s')"
    using apply_subst_mono [OF r(1), of ?k] apply_subst_mono [OF r(2), of ?k] arm_run_mono [OF m, of ?k]
    by (simp add: unify_Suc)
  then show ?thesis unfolding halts_def by blast
qed

lemma unify_halts:
  assumes "finite U"
  shows "sane U \<sigma> \<Longrightarrow> tvars t1 \<subseteq> U \<Longrightarrow> tvars t2 \<subseteq> U \<Longrightarrow> resolves \<sigma> t1 a \<Longrightarrow> resolves \<sigma> t2 b \<Longrightarrow> halts ctx t1 t2 (\<sigma>, es)"
proof (induction "card (U - dom \<sigma>)" arbitrary: \<sigma> t1 t2 a b es rule: less_induct)
  case outer: less
  show ?case using outer.prems outer.hyps
  proof (induction "size a + size b" arbitrary: \<sigma> t1 t2 a b es rule: less_induct)
    case inner: less
    note free = inner.prems(6)
    have ac: "acyclic_subst \<sigma>" using inner.prems(1) by (simp add: sane_def)
    obtain n a' \<sigma>1 b' \<sigma>2 where r': "apply_subst n t1 \<sigma> = Some (a', \<sigma>1)" "apply_subst n t2 \<sigma>1 = Some (b', \<sigma>2)"
      using apply_two_total [OF ac] by blast
    note g1 = apply_grows [OF r'(1) inner.prems(1)]
    note g2 = apply_grows [OF r'(2) g1(6)]
    have "a' = a" "b' = b" using resolves_unique g1(2,3) g2(2) inner.prems(4,5) by metis+
    note r = r' [unfolded this]
    have ab: "tvars a \<subseteq> U" "tvars b \<subseteq> U" "tvars a \<inter> dom \<sigma> = {}" "tvars b \<inter> dom \<sigma> = {}"
      using resolved_in [of \<sigma> _ _ U] resolved_free inner.prems(1-5) unfolding sane_def by blast+
    have d2: "dom \<sigma>2 = dom \<sigma>" using g1(4) g2(4) by simp
    have "halts ctx p q s'" if s': "grows U (\<sigma>2, es) s'" and v: "tvars p \<subseteq> tvars a \<union> tvars b" "tvars q \<subseteq> tvars a \<union> tvars b"
      and sz: "size p + size q < size a + size b" for p q s'
    proof -
      obtain \<sigma>3 es3 where [simp]: "s' = (\<sigma>3, es3)" by (cases s')
      have s3: "sane U \<sigma>3" "dom \<sigma> \<subseteq> dom \<sigma>3" using s' d2 by (auto simp: grows_def extends_def)
      have pq: "tvars p \<subseteq> U" "tvars q \<subseteq> U" using v ab by blast+
      show ?thesis
      proof (cases "dom \<sigma>3 = dom \<sigma>")
        case True
        then have "resolves \<sigma>3 p p" "resolves \<sigma>3 q q" using v ab by (intro resolves_self; blast)+
        with inner.hyps [OF sz s3(1) pq] free True show ?thesis by simp
      next
        case False
        have "dom \<sigma>3 \<subseteq> U" using s3(1) by (simp add: sane_def vars_in_def)
        then have "card (U - dom \<sigma>3) < card (U - dom \<sigma>)"
          using s3(2) False assms by (intro psubset_card_mono) blast+
        moreover obtain x y where "resolves \<sigma>3 p x" "resolves \<sigma>3 q y" using acyclic_total sane_empty [OF s3(1)] by metis
        ultimately show ?thesis using free s3(1) pq by simp
      qed
    qed
    then obtain m s' where "arm_run ctx m a b (\<sigma>2, es) = Some s'"
      using arm_run_halts [OF _ g2(6) ab(1,2)] by blast
    then show ?case by (rule unify_step_halts [OF r])
  qed
qed

end
