(* ===== verification/Inference.thy ===== *)
theory Inference
  imports UnifyTotal
begin

text \<open>
  The correctness of type inference: applying the substitution, and \<open>unify\<close> on any two types and any
  substitution without cycles.
\<close>

lemma finite_tvars: "finite (tvars t)"
  by (induction t rule: ty_tree_induct) (auto simp: tvars_node)

text \<open>The variables that two types and a substitution can mention.\<close>

lemma finite_universe:
  assumes "finite (dom \<sigma>)"
  obtains U where "finite U" "vars_in U \<sigma>" "tvars t1 \<subseteq> U" "tvars t2 \<subseteq> U"
proof
  let ?U = "dom \<sigma> \<union> (\<Union>u\<in>ran \<sigma>. tvars u) \<union> tvars t1 \<union> tvars t2"
  show "finite ?U" using assms finite_ran [OF assms] finite_tvars by auto
  show "vars_in ?U \<sigma>" by (auto simp: vars_in_def ran_def)
qed auto

text \<open>
  C6. Unification always returns, and its result is right: for every two types and every acyclic
  substitution there is an amount of fuel from which on \<open>unify\<close> gives the same result. It leaves an
  acyclic substitution that only adds to the solution it got, it keeps every error that was there, and
  when it adds none the two types, as they now resolve, are compatible.
\<close>

theorem unify_sound:
  assumes "acyclic_subst \<sigma>" "finite (dom \<sigma>)"
  shows "\<exists>n \<sigma>' new. (\<forall>k. unify ctx (n + k) t1 t2 (\<sigma>, es) = Some (\<sigma>', es @ new)) \<and>
    acyclic_subst \<sigma>' \<and> finite (dom \<sigma>') \<and> extends \<sigma> \<sigma>' \<and> (new = [] \<longrightarrow> fits ctx \<sigma>' t1 t2)"
proof -
  obtain U where U: "finite U" "vars_in U \<sigma>" "tvars t1 \<subseteq> U" "tvars t2 \<subseteq> U"
    by (rule finite_universe [OF assms(2)])
  have s: "sane U \<sigma>" using U(2) assms(1) by (simp add: sane_def)
  obtain a b where "resolves \<sigma> t1 a" "resolves \<sigma> t2 b" using acyclic_total [OF assms(1)] by metis
  then obtain n s' where n: "unify ctx n t1 t2 (\<sigma>, es) = Some s'"
    using unify_halts [OF U(1) s U(3,4)] unfolding halts_def by blast
  have "sane U (fst (\<sigma>, es))" using s by simp
  note ok = run_okD [OF unify_run_ok n this U(3,4)]
  obtain new where new: "snd s' = es @ new" using ok(1) by (auto simp: grows_def)
  have "unify ctx (n + k) t1 t2 (\<sigma>, es) = Some (fst s', es @ new)" for k
    using unify_mono [OF n, of "n + k"] new by (cases s') simp
  moreover have "acyclic_subst (fst s')" "extends \<sigma> (fst s')" "dom (fst s') \<subseteq> U"
    using ok(1) by (auto simp: grows_def sane_def vars_in_def)
  moreover have "new = [] \<longrightarrow> fits ctx (fst s') t1 t2" using ok(2) new by simp
  ultimately show ?thesis using finite_subset [OF _ U(1)] by blast
qed

definition no_ctx :: unify_ctx where
  "no_ctx = \<lparr>c_ffi_structs = (\<lambda>_. False), type_traits = (\<lambda>_ _. False)\<rparr>"

lemma acyclic_empty [simp]: "acyclic_subst Map.empty"
  by (auto simp: acyclic_subst_def ranked_def)

lemmas unify_eval =
  unify.simps apply_subst_unfold unify_arm_def either_def dest_var_def dest_int_literal_def
  dest_float_literal_def py_named_arm_def shape_arm_def null_arm_def union_arm_def dest_union_def
  unions_fit_def probe_unfold probe_case_def occurs_check_unfold var_id_def boxing_side_def
  needs_any_boxing_def is_nullable_target_def eval_nat_numeral

lemma unify_sound_witness:
  "fits no_ctx [0 \<mapsto> TStr] (TList (TVar 0)) (TList TStr) \<and> acyclic_subst [0 \<mapsto> TStr]"
proof -
  have run: "unify no_ctx 6 (TList (TVar 0)) (TList TStr) (Map.empty, []) = Some ([0 \<mapsto> TStr], [])"
    by (simp add: unify_eval)
  obtain n \<sigma>' new where u:
    "\<forall>k. unify no_ctx (n + k) (TList (TVar 0)) (TList TStr) (Map.empty, []) = Some (\<sigma>', [] @ new)"
    "acyclic_subst \<sigma>'" "new = [] \<longrightarrow> fits no_ctx \<sigma>' (TList (TVar 0)) (TList TStr)"
    using unify_sound [of Map.empty no_ctx "TList (TVar 0)" "TList TStr" "[]"] by auto
  have "Some (\<sigma>', new) = Some ([0 \<mapsto> TStr], [])"
    using u(1) [rule_format, of 6] unify_mono [OF run, of "n + 6"] by simp
  with u(2,3) show ?thesis by simp
qed

text \<open>
  C23. Path compression never changes an inference: applying an acyclic substitution to a type gives
  what the type resolves to, and the rewritten substitution binds the same variables, is acyclic and
  resolves every type as before. Some amount of fuel is enough, and more gives the same result.
\<close>

theorem apply_subst_exact:
  assumes "acyclic_subst \<sigma>"
  shows "\<exists>n r \<sigma>'. (\<forall>k. apply_subst (n + k) t \<sigma> = Some (r, \<sigma>')) \<and> resolves \<sigma> t r \<and>
    acyclic_subst \<sigma>' \<and> dom \<sigma>' = dom \<sigma> \<and> resolves \<sigma>' = resolves \<sigma>"
proof -
  obtain rk where "ranked rk \<sigma>" using assms by (auto simp: acyclic_subst_def)
  then obtain n r \<sigma>' where n: "apply_subst n t \<sigma> = Some (r, \<sigma>')" using apply_subst_total by fastforce
  have "apply_subst (n + k) t \<sigma> = Some (r, \<sigma>')" for k by (rule apply_subst_mono [OF n]) simp
  then show ?thesis
    using apply_compresses [OF n assms] unfolding compresses_def same_solution_def by blast
qed

definition chain_subst :: subst where
  "chain_subst = [0 \<mapsto> TList (TVar 1), 1 \<mapsto> TVar 2, 2 \<mapsto> TInt]"

lemma acyclic_chain: "acyclic_subst chain_subst"
  unfolding acyclic_subst_def
  by (rule exI [of _ "\<lambda>v. 3 - v"])
    (auto simp: ranked_def chain_subst_def tvars.simps var_id_def split: if_splits)

lemma apply_subst_exact_witness:
  "\<exists>n r \<sigma>'. (\<forall>k. apply_subst (n + k) (TTuple [TVar 0, TVar 3]) chain_subst = Some (r, \<sigma>')) \<and>
    resolves chain_subst (TTuple [TVar 0, TVar 3]) r \<and>
    acyclic_subst \<sigma>' \<and> dom \<sigma>' = dom chain_subst \<and> resolves \<sigma>' = resolves chain_subst"
  using apply_subst_exact [OF acyclic_chain] by blast

subsection \<open>What the probe of unions misses\<close>

text \<open>
  Two unions are only probed: a variable in one of them counts as a fit and stays unbound, so a later
  binding may make two types that were accepted together incompatible.
\<close>

lemma union_probe_binds_nothing:
  "unify no_ctx 5 (TUnion [TVar 0, TNull]) (TUnion [TStr, TNull]) (Map.empty, []) = Some (Map.empty, [])"
  by (simp add: unify_eval)

end
