(* ===== verification/Ast.thy ===== *)
theory Ast
  imports Mir Lexer
begin

text \<open>
  The syntax tree (\<open>parser/ast.rs\<close>). Names and texts are lists of code points, as in the lexer. A
  node of the source is a kind with a span; the identity number that each expression gets from a
  global counter is left out. Type expressions carry spans of any type, so that two of them can be
  compared without their positions. The bits of a literal of type \<open>f64\<close> stand for it.
\<close>

type_synonym ustring = "uchar list"

subsection \<open>Type expressions\<close>

datatype 's type_expr_of = TypeExpr (te_kind: "'s type_kind_of") (te_span: 's)
  and 's type_kind_of =
    TeName ustring
  | TeQualified "ustring list"
  | TeGeneric ustring "'s type_expr_of list"
  | TeTuple "'s type_expr_of list"
  | TeList "'s type_expr_of"
  | TeDict "'s type_expr_of" "'s type_expr_of"
  | TeUnion "'s type_expr_of" "'s type_expr_of"
  | TeFn "'s type_expr_of list" "'s type_expr_of"
  | TeRef "'s type_expr_of"
  | TeMutRef "'s type_expr_of"
  | TePtr "'s type_expr_of"
  | TeFixedArray "'s type_expr_of" nat

type_synonym type_expr = "span type_expr_of"

subsection \<open>Declarations of foreign functions\<close>

record decorator =
  dc_name :: ustring
  dc_is_directive :: bool
  dc_span :: span

record ffi_var_def =
  fv_name :: ustring
  fv_ty :: type_expr

record ffi_fn_sig =
  ff_name :: ustring
  ff_params :: "type_expr list"
  ff_ret :: "type_expr option"
  ff_is_vararg :: bool
  ff_decorators :: "decorator list"
  ff_call_conv :: "ustring option"
  ff_span :: span

record ffi_struct_field =
  fsf_name :: ustring
  fsf_ty :: type_expr
  fsf_bits :: "8 word option"

record ffi_struct_def =
  fs_name :: ustring
  fs_fields :: "ffi_struct_field list"
  fs_is_union :: bool
  fs_destructor :: "ustring option"

record ffi_const_def =
  fc_name :: ustring
  fc_value :: i64

record py_fn_sig =
  py_name :: ustring
  py_params :: "type_expr list"
  py_ret :: "type_expr option"

subsection \<open>Expressions, patterns and statements\<close>

datatype aug_op =
    AugAdd | AugSub | AugMul | AugDiv | AugMod | AugPow
  | AugShl | AugShr | AugBitOr | AugBitAnd | AugBitXor

datatype param_kind = RegularParam | VarArg | KwArg

datatype for_target = ForName ustring span | ForTuple "(ustring \<times> span) list"

text \<open>
  The small node types first, over the types of the nodes they hold; expressions hold statements (in
  \<open>async\<close> blocks and \<open>match\<close> arms) and statements hold expressions.
\<close>

datatype 'e call_arg_of =
    Positional 'e
  | Keyword ustring 'e
  | Splat 'e
  | KwSplat 'e

datatype 'e comp_clause_of = CompClause for_target 'e "'e option"

datatype 'e param_of = Param ustring "type_expr option" "'e option" param_kind bool span

datatype 'e fstr_part_of = FStrPart 'e "ustring option"

datatype 'e src_pattern_of =
    PatVariant ustring "'e src_pattern_of list"
  | PatIdentifier ustring span
  | PatLiteral 'e
  | PatWildcard
  | PatTuple "'e src_pattern_of list"
  | PatStructFields ustring "(ustring \<times> 'e src_pattern_of) list" span
  | PatList "'e src_pattern_of list" "(ustring \<times> span) option" "'e src_pattern_of list"
  | PatRange 'e 'e bool
  | PatOr "'e src_pattern_of list"

datatype ('e, 's) match_case_of = MatchCase "'e src_pattern_of" "'e option" "'s list" span

datatype 'e enum_variant_of = EnumVariant ustring "type_expr list" "'e option"

datatype 'e with_item_of = WithItem 'e "'e option"

datatype (plugins only: size code) 's src_expr_of = Expr (x_kind: "'s expr_kind_of") (x_span: span)
  and 's expr_kind_of =
    XInteger i64
  | XFloat u64
  | XStr ustring
  | XFStr "'s src_expr_of fstr_part_of list"
  | XBool bool
  | XNull
  | XIdentifier ustring
  | XBinOp "'s src_expr_of" bin_op "'s src_expr_of"
  | XUnaryOp unary_op "'s src_expr_of"
  | XCast "'s src_expr_of" type_expr
  | XCall "'s src_expr_of" "'s src_expr_of call_arg_of list"
  | XIndex "'s src_expr_of" "'s src_expr_of"
  | XAttr "'s src_expr_of" ustring
  | XOptAttr "'s src_expr_of" ustring
  | XList "'s src_expr_of list"
  | XTuple "'s src_expr_of list"
  | XSet "'s src_expr_of list"
  | XDict "('s src_expr_of \<times> 's src_expr_of) list"
  | XStarred "'s src_expr_of"
  | XListComp "'s src_expr_of" "'s src_expr_of comp_clause_of list"
  | XSetComp "'s src_expr_of" "'s src_expr_of comp_clause_of list"
  | XDictComp "'s src_expr_of" "'s src_expr_of" "'s src_expr_of comp_clause_of list"
  | XBorrow "'s src_expr_of"
  | XMutBorrow "'s src_expr_of"
  | XDeref "'s src_expr_of"
  | XSlice "'s src_expr_of option" "'s src_expr_of option" "'s src_expr_of option"
  | XTry "'s src_expr_of"
  | XAwait "'s src_expr_of"
  | XAsyncBlock "'s list"
  | XRange "'s src_expr_of" "'s src_expr_of" bool "'s src_expr_of option"
  | XMatch "'s src_expr_of" "('s src_expr_of, 's) match_case_of list"
  | XTernary "'s src_expr_of" "'s src_expr_of" "'s src_expr_of"
  | XLambda "'s src_expr_of param_of list" "'s src_expr_of"

datatype (plugins only: size code) src_stmt = Stmt (s_kind: stmt_kind) (s_span: span)
  and stmt_kind =
    SFn ustring "ustring list" "src_stmt src_expr_of param_of list" "type_expr option" "src_stmt list" "decorator list" bool
  | SStruct ustring "ustring list" "src_stmt src_expr_of param_of list" "src_stmt list" "decorator list"
  | SImpl "ustring list" "type_expr option" type_expr "src_stmt list"
  | STrait ustring "ustring list" "src_stmt list"
  | SEnum ustring "ustring list" "src_stmt src_expr_of enum_variant_of list" "src_stmt list" "decorator list"
  | SIf "src_stmt src_expr_of" "src_stmt list" "(src_stmt src_expr_of \<times> src_stmt list) list" "src_stmt list option"
  | SWhile "src_stmt src_expr_of" "src_stmt list" "src_stmt list option"
  | SFor for_target "src_stmt src_expr_of" "src_stmt list" "src_stmt list option"
  | SReturn "src_stmt src_expr_of option"
  | SAssert "src_stmt src_expr_of" "src_stmt src_expr_of option"
  | SWith "src_stmt src_expr_of with_item_of list" "src_stmt list"
  | SImport "ustring list" "ustring option"
  | SNativeImport ustring ustring "ffi_fn_sig list" "ffi_struct_def list" "ffi_var_def list" "ffi_const_def list" bool
  | SFromImport "ustring list" "(ustring \<times> ustring option) list" bool
  | SPyImport ustring ustring "ustring list" "py_fn_sig list"
  | SLet ustring span "type_expr option" "src_stmt src_expr_of" bool
  | SMultiLet "ustring list" "span list" "type_expr option" "src_stmt src_expr_of" bool "nat option"
  | SConst ustring span "type_expr option" "src_stmt src_expr_of"
  | SMultiConst "ustring list" "span list" "type_expr option" "src_stmt src_expr_of"
  | SAssign "src_stmt src_expr_of" "src_stmt src_expr_of"
  | SAugAssign "src_stmt src_expr_of" aug_op "src_stmt src_expr_of"
  | SPass
  | SBreak
  | SContinue
  | SExprStmt "src_stmt src_expr_of"
  | SUnsafeBlock "src_stmt list"
  | SDefer "src_stmt src_expr_of"
  | STypeAlias ustring span type_expr

type_synonym src_expr = "src_stmt src_expr_of"
type_synonym src_pattern = "src_expr src_pattern_of"
type_synonym call_arg = "src_expr call_arg_of"
type_synonym comp_clause = "src_expr comp_clause_of"
type_synonym param = "src_expr param_of"
type_synonym fstr_part = "src_expr fstr_part_of"
type_synonym match_case = "(src_expr, src_stmt) match_case_of"
type_synonym enum_variant = "src_expr enum_variant_of"
type_synonym with_item = "src_expr with_item_of"
type_synonym program = "src_stmt list"

end
