(* ===== verification/ParserBase.thy ===== *)
theory ParserBase
  imports Ast
begin

text \<open>
  The parser's state and the operations every rule is made of (\<open>parser/base.rs\<close>, \<open>parser/error.rs\<close>,
  \<open>parser/mod.rs\<close>), and the type expressions (\<open>parser/types.rs\<close>). A rule takes a state and returns an
  error or a result with the next state. Reading past the tokens is \<open>Panic\<close>; \<open>NoFuel\<close> is the value of
  a run whose bound on the recursion was too small, and the theory of the parser's totality shows a
  bound that always is enough. An error carries its kind, with the data its message prints.

  The rules call each other in cycles. \<open>rules\<close> holds the rules at which a cycle closes, always behind
  a token that was read; every other rule is a definition over it.
\<close>

subsection \<open>State, errors, results\<close>

datatype parse_error_kind =
    Expected token_kind token_kind ustring
  | ExpectedNewline token_kind ustring
  | ExpectedTypeExpr
  | ExpectedPattern
  | UnexpectedToken token_kind ustring
  | NestedTooDeeply
  | BlockNestedTooDeeply
  | IntegerOutOfRange ustring
  | InvalidFloat ustring
  | InvalidIntegerConstant ustring
  | InvalidBitWidth ustring
  | UnclosedBrace
  | SingleBrace
  | EmptyFStringExpr
  | FStringLexError lex_error_kind
  | FStringParseError parse_error_kind
  | NoIdentifierBeforeColons
  | ExpectedMatchBlock
  | SecondRest
  | SecondStarred
  | InvalidTarget
  | InvalidAugTarget
  | BadDirective token_kind
  | UnknownImportDecorator ustring
  | MisplacedDecorators
  | ExpectedAfterAsync
  | ExpectedAfterUnsafe
  | ExpectedInPyImport
  | ExpectedInTrait
  | ExpectedAfterVariant

record parse_error =
  pe_kind :: parse_error_kind
  pe_line :: nat
  pe_col :: nat
  pe_start :: nat
  pe_end :: nat

datatype failure = Failed parse_error | Panic | NoFuel

record parser =
  tokens :: "token list"
  ppos :: nat
  depth :: nat

type_synonym 'a parse = "parser \<Rightarrow> failure + 'a \<times> parser"

definition parser_new :: "token list \<Rightarrow> parser" where
  "parser_new ts = \<lparr>tokens = ts, ppos = 0, depth = 0\<rparr>"

definition max_nesting_depth :: nat where
  "max_nesting_depth = 100"

definition ret :: "'a \<Rightarrow> 'a parse" where
  "ret x p = Inr (x, p)"

definition bindp :: "'a parse \<Rightarrow> ('a \<Rightarrow> 'b parse) \<Rightarrow> 'b parse" where
  "bindp f g p = (case f p of Inl e \<Rightarrow> Inl e | Inr (x, q) \<Rightarrow> g x q)"

definition seqp :: "'a parse \<Rightarrow> 'b parse \<Rightarrow> 'b parse" where
  "seqp f g = bindp f (\<lambda>_. g)"

definition fail :: "failure \<Rightarrow> 'a parse" where
  "fail e p = Inl e"

definition err_at :: "token \<Rightarrow> parse_error_kind \<Rightarrow> 'a parse" where
  "err_at t k = fail (Failed \<lparr>pe_kind = k, pe_line = t_line t, pe_col = t_col t,
                             pe_start = fst (t_span t), pe_end = snd (t_span t)\<rparr>)"

subsection \<open>Reading tokens\<close>

definition peek_tok :: "token parse" where
  "peek_tok p = (case idx (tokens p) (ppos p) of Some t \<Rightarrow> Inr (t, p) | None \<Rightarrow> Inl Panic)"

definition peek_kind :: "token_kind parse" where
  "peek_kind = bindp peek_tok (\<lambda>t. ret (t_kind t))"

definition peek_at :: "nat \<Rightarrow> token parse" where
  "peek_at offset p =
     (case idx (tokens p) (ppos p + offset) of
        Some t \<Rightarrow> Inr (t, p)
      | None \<Rightarrow> if tokens p = [] then Inl Panic else Inr (last (tokens p), p))"

definition step_pos :: "unit parse" where
  "step_pos p = Inr ((), p\<lparr>ppos := ppos p + 1\<rparr>)"

definition advance_tok :: "token parse" where
  "advance_tok = bindp peek_tok (\<lambda>t. if t_kind t \<noteq> Eof then seqp step_pos (ret t) else ret t)"

definition expect :: "token_kind \<Rightarrow> token parse" where
  "expect want = bindp peek_tok (\<lambda>t.
     if t_kind t = want then (if t_kind t \<noteq> Eof then seqp step_pos (ret t) else ret t)
     else err_at t (Expected want (t_kind t) (t_value t)))"

text \<open>The loop moves on while the token is a line end, and reading past the tokens panics.\<close>

definition newlines_at :: "token list \<Rightarrow> nat \<Rightarrow> nat" where
  "newlines_at ts i = length (takeWhile (\<lambda>t. t_kind t = Newline) (drop i ts))"

definition skip_newlines :: "unit parse" where
  "skip_newlines p =
     (let n = newlines_at (tokens p) (ppos p)
      in if ppos p + n < length (tokens p) then Inr ((), p\<lparr>ppos := ppos p + n\<rparr>) else Inl Panic)"

definition eat_stmt_end :: "unit parse" where
  "eat_stmt_end = bindp peek_tok (\<lambda>t.
     if t_kind t = Newline \<or> t_kind t = Pn Semicolon then step_pos
     else if t_kind t = Eof \<or> t_kind t = Dedent then ret ()
     else err_at t (ExpectedNewline (t_kind t) (t_value t)))"

definition tok_span :: "token \<Rightarrow> span" where
  "tok_span t = \<lparr>file_id = t_file_id t, sp_line = t_line t, sp_col = t_col t,
                 sp_start = fst (t_span t), sp_end = snd (t_span t)\<rparr>"

text \<open>The last token before the position that is not a line end and not a change of indentation.\<close>

fun last_solid :: "token list \<Rightarrow> nat \<Rightarrow> nat" where
  "last_solid ts 0 = 0"
| "last_solid ts (Suc i) =
     (if i < length ts \<and> t_kind (ts ! i) \<in> {Newline, Indent, Dedent} then last_solid ts i else Suc i)"

definition span_from :: "token \<Rightarrow> span parse" where
  "span_from start p =
     (let i = last_solid (tokens p) (ppos p) in
      if i > 0 then
        (case idx (tokens p) (i - 1) of
           Some t \<Rightarrow> Inr ((tok_span start)\<lparr>sp_end := max (snd (t_span t)) (snd (t_span start))\<rparr>, p)
         | None \<Rightarrow> Inl Panic)
      else Inr (tok_span start, p))"

definition enter_nested :: "'a parse \<Rightarrow> 'a parse" where
  "enter_nested f p =
     (if depth p \<ge> max_nesting_depth then bindp peek_tok (\<lambda>t. err_at t NestedTooDeeply) p
      else (case f (p\<lparr>depth := depth p + 1\<rparr>) of
              Inl e \<Rightarrow> Inl e
            | Inr (x, q) \<Rightarrow> Inr (x, q\<lparr>depth := depth q - 1\<rparr>)))"

subsection \<open>Shapes that the rules repeat\<close>

definition if_kind :: "token_kind \<Rightarrow> 'a parse \<Rightarrow> 'a parse \<Rightarrow> 'a parse" where
  "if_kind k f g = bindp peek_kind (\<lambda>k'. if k' = k then f else g)"

text \<open>\<open>if self.peek().kind == k { self.advance(); Some(f) } else { None }\<close>\<close>

definition opt_after :: "token_kind \<Rightarrow> 'a parse \<Rightarrow> 'a option parse" where
  "opt_after k f = if_kind k (seqp advance_tok (bindp f (\<lambda>x. ret (Some x)))) (ret None)"

text \<open>
  \<open>while peek != close && peek != Eof { push(item); if peek == Comma { advance } else { break } }\<close>
\<close>

primrec comma_list :: "nat \<Rightarrow> token_kind \<Rightarrow> 'a parse \<Rightarrow> 'a list parse" where
  "comma_list 0 close item = fail NoFuel"
| "comma_list (Suc n) close item = bindp peek_kind (\<lambda>k.
     if k = close \<or> k = Eof then ret []
     else bindp item (\<lambda>x. if_kind (Pn Comma)
            (seqp advance_tok (bindp (comma_list n close item) (\<lambda>xs. ret (x # xs))))
            (ret [x])))"

text \<open>\<open>while peek == Comma { advance; if peek in stop { break } push(item) }\<close>\<close>

primrec more_elems :: "nat \<Rightarrow> token_kind list \<Rightarrow> 'a parse \<Rightarrow> 'a list parse" where
  "more_elems 0 stop item = fail NoFuel"
| "more_elems (Suc n) stop item = if_kind (Pn Comma)
     (seqp advance_tok (bindp peek_kind (\<lambda>k.
        if k \<in> set stop then ret []
        else bindp item (\<lambda>x. bindp (more_elems n stop item) (\<lambda>xs. ret (x # xs))))))
     (ret [])"

text \<open>\<open>while peek != Dedent && peek != Eof { push(item); skip_newlines() }\<close>\<close>

primrec block_items :: "nat \<Rightarrow> 'a parse \<Rightarrow> 'a list parse" where
  "block_items 0 item = fail NoFuel"
| "block_items (Suc n) item = bindp peek_kind (\<lambda>k.
     if k = Dedent \<or> k = Eof then ret []
     else bindp item (\<lambda>x. seqp skip_newlines (bindp (block_items n item) (\<lambda>xs. ret (x # xs)))))"

text \<open>\<open>while peek == sep { advance; push(item) }\<close>\<close>

primrec sep_items :: "nat \<Rightarrow> token_kind \<Rightarrow> 'a parse \<Rightarrow> 'a list parse" where
  "sep_items 0 sep item = fail NoFuel"
| "sep_items (Suc n) sep item = if_kind sep
     (seqp advance_tok (bindp item (\<lambda>x. bindp (sep_items n sep item) (\<lambda>xs. ret (x # xs)))))
     (ret [])"

text \<open>\<open>loop { push(item); if peek == Comma { advance } else { break } }\<close>\<close>

primrec comma_plus :: "nat \<Rightarrow> 'a parse \<Rightarrow> 'a list parse" where
  "comma_plus 0 item = fail NoFuel"
| "comma_plus (Suc n) item = bindp item (\<lambda>x. if_kind (Pn Comma)
     (seqp advance_tok (bindp (comma_plus n item) (\<lambda>xs. ret (x # xs))))
     (ret [x]))"

text \<open>An identifier's name.\<close>

definition name_tok :: "ustring parse" where
  "name_tok = bindp (expect (Lit Identifier)) (\<lambda>t. ret (t_value t))"

subsection \<open>The rules at which cycles close\<close>

record rules =
  fuel :: nat
  r_type :: "type_expr parse"
  r_single_type :: "type_expr parse"
  r_expr :: "src_expr parse"
  r_range :: "src_expr parse"
  r_or :: "src_expr parse"
  r_not :: "src_expr parse"
  r_unary :: "src_expr parse"
  r_pattern :: "src_pattern parse"
  r_stmt :: "src_stmt parse"

definition no_rules :: rules where
  "no_rules = \<lparr>fuel = 0, r_type = fail NoFuel, r_single_type = fail NoFuel, r_expr = fail NoFuel,
     r_range = fail NoFuel, r_or = fail NoFuel, r_not = fail NoFuel, r_unary = fail NoFuel, r_pattern = fail NoFuel, r_stmt = fail NoFuel\<rparr>"

subsection \<open>Type expressions\<close>

text \<open>A node with the span from its first token to the last one read.\<close>

definition type_node :: "token \<Rightarrow> span type_kind_of \<Rightarrow> type_expr parse" where
  "type_node start k = bindp (span_from start) (\<lambda>sp. ret (TypeExpr k sp))"

text \<open>\<open>str::parse::<usize>\<close> of the digits of an integer token, with 0 for every error.\<close>

definition digit_value :: "uchar \<Rightarrow> nat option" where
  "digit_value c =
     (if cp CHR ''0'' \<le> c \<and> c \<le> cp CHR ''9'' then Some (c - cp CHR ''0'')
      else if cp CHR ''a'' \<le> c \<and> c \<le> cp CHR ''f'' then Some (c - cp CHR ''a'' + 10)
      else if cp CHR ''A'' \<le> c \<and> c \<le> cp CHR ''F'' then Some (c - cp CHR ''A'' + 10)
      else None)"

fun digits_value :: "nat \<Rightarrow> nat \<Rightarrow> ustring \<Rightarrow> nat option" where
  "digits_value radix acc [] = Some acc"
| "digits_value radix acc (c # cs) =
     (case digit_value c of
        Some d \<Rightarrow> if d < radix then digits_value radix (acc * radix + d) cs else None
      | None \<Rightarrow> None)"

text \<open>The sign and the digits of an integer, as the \<open>from_str_radix\<close> of the standard library reads them.\<close>

definition int_of_str :: "nat \<Rightarrow> ustring \<Rightarrow> int option" where
  "int_of_str radix s =
     (case s of
        [] \<Rightarrow> None
      | c # cs \<Rightarrow>
          (if c = cp CHR ''-'' then
             (if cs = [] then None else map_option (\<lambda>n. - int n) (digits_value radix 0 cs))
           else if c = cp CHR ''+'' then
             (if cs = [] then None else map_option int (digits_value radix 0 cs))
           else map_option int (digits_value radix 0 s)))"

definition i64_from_str_radix :: "nat \<Rightarrow> ustring \<Rightarrow> i64 option" where
  "i64_from_str_radix radix s =
     (case int_of_str radix s of
        Some n \<Rightarrow> if in_i64 n then Some (word_of_int n) else None
      | None \<Rightarrow> None)"

definition usize_from_str :: "ustring \<Rightarrow> nat option" where
  "usize_from_str s =
     (case s of
        [] \<Rightarrow> None
      | c # cs \<Rightarrow>
          (case digits_value 10 0 (if c = cp CHR ''+'' \<and> cs \<noteq> [] then cs else s) of
             Some n \<Rightarrow> if n < 2 ^ 64 then Some n else None
           | None \<Rightarrow> None))"

definition parse_type_args :: "rules \<Rightarrow> token_kind \<Rightarrow> type_expr list parse" where
  "parse_type_args g close =
     seqp advance_tok
       (bindp (comma_list (fuel g) close (r_type g)) (\<lambda>args. seqp (expect close) (ret args)))"

definition join_colons :: "ustring list \<Rightarrow> ustring" where
  "join_colons parts =
     (case parts of [] \<Rightarrow> [] | x # xs \<Rightarrow> x @ concat (map (\<lambda>y. cps ''::'' @ y) xs))"

definition parse_named_type :: "rules \<Rightarrow> token \<Rightarrow> type_expr parse" where
  "parse_named_type g start =
     bindp advance_tok (\<lambda>t.
     bindp (sep_items (fuel g) (Pn Dot) name_tok) (\<lambda>more.
     if_kind (Pn LBracket)
       (bindp (enter_nested (parse_type_args g (Pn RBracket))) (\<lambda>args.
          type_node start (TeGeneric (join_colons (t_value t # more)) args)))
       (if more \<noteq> [] then type_node start (TeQualified (t_value t # more))
        else type_node start (TeName (t_value t)))))"

definition parse_list_type :: "rules \<Rightarrow> token \<Rightarrow> type_expr parse" where
  "parse_list_type g start =
     seqp advance_tok
     (bindp (r_type g) (\<lambda>inner.
      if_kind (Pn Semicolon)
        (seqp advance_tok
         (bindp (expect (Lit IntegerTok)) (\<lambda>size_tok.
          seqp (expect (Pn RBracket))
            (type_node start (TeFixedArray inner
               (case usize_from_str (t_value size_tok) of Some n \<Rightarrow> n | None \<Rightarrow> 0))))))
        (seqp (expect (Pn RBracket)) (type_node start (TeList inner)))))"

definition parse_dict_type :: "rules \<Rightarrow> token \<Rightarrow> type_expr parse" where
  "parse_dict_type g start =
     seqp advance_tok
     (bindp (r_type g) (\<lambda>key.
      seqp (expect (Pn Colon))
      (bindp (r_type g) (\<lambda>value.
       seqp (expect (Pn RBrace)) (type_node start (TeDict key value))))))"

definition parse_ref_type :: "rules \<Rightarrow> token \<Rightarrow> type_expr parse" where
  "parse_ref_type g start =
     seqp advance_tok
     (if_kind (Kw KwMut)
        (seqp advance_tok (bindp (r_single_type g) (\<lambda>inner. type_node start (TeMutRef inner))))
        (bindp (r_single_type g) (\<lambda>inner. type_node start (TeRef inner))))"

definition parse_fn_type :: "rules \<Rightarrow> token \<Rightarrow> type_expr parse" where
  "parse_fn_type g start =
     bindp (enter_nested
       (seqp advance_tok
       (seqp (expect (Pn LParen))
       (bindp (comma_list (fuel g) (Pn RParen) (r_type g)) (\<lambda>params.
        seqp (expect (Pn RParen))
        (seqp (expect (Pn Arrow))
        (bindp (r_type g) (\<lambda>r. ret (params, r)))))))))
     (\<lambda>(params, r). type_node start (TeFn params r))"

definition parse_single_type_expr :: "rules \<Rightarrow> type_expr parse" where
  "parse_single_type_expr g = bindp peek_tok (\<lambda>start.
     case t_kind start of
       Kw KwNull \<Rightarrow> seqp advance_tok (type_node start (TeName (cps ''None'')))
     | Lit Identifier \<Rightarrow> parse_named_type g start
     | Pn LParen \<Rightarrow>
         bindp (enter_nested (parse_type_args g (Pn RParen))) (\<lambda>types. type_node start (TeTuple types))
     | Pn LBracket \<Rightarrow> parse_list_type g start
     | Pn LBrace \<Rightarrow> parse_dict_type g start
     | Opr Ampersand \<Rightarrow> parse_ref_type g start
     | Opr Star \<Rightarrow> seqp advance_tok (bindp (r_single_type g) (\<lambda>inner. type_node start (TePtr inner)))
     | Kw KwFn \<Rightarrow> parse_fn_type g start
     | _ \<Rightarrow> err_at start ExpectedTypeExpr)"

definition union_node :: "type_expr \<Rightarrow> type_expr \<Rightarrow> type_expr" where
  "union_node a b = TypeExpr (TeUnion a b) (span_merge (te_span a) (te_span b))"

definition parse_type_expr :: "rules \<Rightarrow> type_expr parse" where
  "parse_type_expr g =
     bindp (parse_single_type_expr g) (\<lambda>first_ty.
     bindp (sep_items (fuel g) (Opr Pipe) (parse_single_type_expr g)) (\<lambda>more.
     ret (foldl union_node first_ty more)))"

end
