(* ===== verification/ExprParser.thy ===== *)
theory ExprParser
  imports ParserBase
begin

text \<open>
  Expressions and patterns (\<open>parser/expr/mod.rs\<close>, \<open>ops.rs\<close>, \<open>postfix.rs\<close>, \<open>primary.rs\<close>), with the
  blocks and parameters they hold. The Unicode tables and the reading of floats are the record
  \<open>penv\<close>; \<open>embedded\<close> lexes and parses the expression of a field of an f-string.
\<close>

record penv = unicode +
  is_uppercase :: "uchar \<Rightarrow> bool"
  is_whitespace :: "uchar \<Rightarrow> bool"
  parse_f64 :: "ustring \<Rightarrow> u64 option"
  embedded :: "ustring \<Rightarrow> nat \<Rightarrow> failure + src_expr"

definition binop :: "src_expr \<Rightarrow> bin_op \<Rightarrow> src_expr \<Rightarrow> src_expr" where
  "binop l op r = Expr (XBinOp l op r) (span_merge (x_span l) (x_span r))"

definition expr_node :: "token \<Rightarrow> src_stmt expr_kind_of \<Rightarrow> src_expr parse" where
  "expr_node start k = bindp (span_from start) (\<lambda>sp. ret (Expr k sp))"

text \<open>The node from the token of a span to the token that is read next.\<close>

definition to_here :: "span \<Rightarrow> token \<Rightarrow> src_stmt expr_kind_of \<Rightarrow> src_expr" where
  "to_here start end_tok k = Expr k (start\<lparr>sp_end := snd (t_span end_tok)\<rparr>)"

subsection \<open>Blocks and parameters\<close>

definition parse_block :: "rules \<Rightarrow> src_stmt list parse" where
  "parse_block g =
     seqp (expect (Pn Colon))
     (if_kind Newline
        (seqp advance_tok (seqp (expect Indent) (seqp skip_newlines
          (bindp (block_items (fuel g) (r_stmt g)) (\<lambda>stmts. seqp (expect Dedent) (ret stmts))))))
        (bindp (r_stmt g) (\<lambda>s. ret [s])))"

definition param_kind_of :: "param_kind parse" where
  "param_kind_of = bindp peek_kind (\<lambda>k.
     if k = Opr DoubleStar then seqp advance_tok (ret KwArg)
     else if k = Opr Star then seqp advance_tok (ret VarArg)
     else ret RegularParam)"

definition eat_kind :: "token_kind \<Rightarrow> bool parse" where
  "eat_kind k = if_kind k (seqp advance_tok (ret True)) (ret False)"

definition parse_param :: "rules \<Rightarrow> param parse" where
  "parse_param g =
     bindp peek_tok (\<lambda>start.
     bindp param_kind_of (\<lambda>kind.
     bindp (eat_kind (Kw KwMut)) (\<lambda>is_mut.
     bindp name_tok (\<lambda>name.
     bindp (opt_after (Pn Colon) (r_type g)) (\<lambda>type_ann.
     bindp (if kind = RegularParam then opt_after (Opr Equal) (r_expr g) else ret None) (\<lambda>dflt.
     bindp (span_from start) (\<lambda>sp.
     ret (Param name type_ann dflt kind is_mut sp))))))))"

definition parse_params :: "rules \<Rightarrow> param list parse" where
  "parse_params g = comma_list (fuel g) (Pn RParen) (parse_param g)"

definition for_name :: "(ustring \<times> span) parse" where
  "for_name = bindp (expect (Lit Identifier)) (\<lambda>t. ret (t_value t, tok_span t))"

definition parse_for_target :: "rules \<Rightarrow> for_target parse" where
  "parse_for_target g =
     if_kind (Pn LParen)
       (seqp advance_tok
       (bindp for_name (\<lambda>x.
        bindp (more_elems (fuel g) [Pn RParen] for_name) (\<lambda>xs.
        seqp (expect (Pn RParen)) (ret (ForTuple (x # xs)))))))
       (bindp for_name (\<lambda>x.
        if_kind (Pn Comma)
          (bindp (more_elems (fuel g) [Kw KwIn] for_name) (\<lambda>xs. ret (ForTuple (x # xs))))
          (ret (ForName (fst x) (snd x)))))"

subsection \<open>f-strings\<close>

definition mk_err :: "token \<Rightarrow> parse_error_kind \<Rightarrow> failure" where
  "mk_err t k = Failed \<lparr>pe_kind = k, pe_line = t_line t, pe_col = t_col t,
                      pe_start = fst (t_span t), pe_end = snd (t_span t)\<rparr>"

text \<open>\<open>s.replace("cc", "c")\<close>\<close>

fun undouble :: "uchar \<Rightarrow> ustring \<Rightarrow> ustring" where
  "undouble c (x # y # r) = (if x = c \<and> y = c then c # undouble c r else x # undouble c (y # r))"
| "undouble c s = s"

definition ch_lbrace :: uchar where "ch_lbrace = cp CHR ''{''"
definition ch_rbrace :: uchar where "ch_rbrace = cp CHR ''}''"

definition literal_part :: "token \<Rightarrow> ustring \<Rightarrow> fstr_part list" where
  "literal_part tok s =
     (let t = undouble ch_rbrace (undouble ch_lbrace s)
      in if t = [] then [] else [FStrPart (Expr (XStr t) (tok_span tok)) None])"

text \<open>The count of braces left open and of the characters read.\<close>

fun match_braces :: "nat \<Rightarrow> ustring \<Rightarrow> nat \<times> nat" where
  "match_braces 0 cs = (0, 0)"
| "match_braces (Suc b) [] = (Suc b, 0)"
| "match_braces (Suc b) (c # cs) =
     (case match_braces (if c = ch_lbrace then Suc (Suc b) else if c = ch_rbrace then b else Suc b) cs of
        (b', n) \<Rightarrow> (b', Suc n))"

fun split_spec_at :: "int \<Rightarrow> ustring \<Rightarrow> ustring \<Rightarrow> ustring \<times> ustring option" where
  "split_spec_at d before [] = (before, None)"
| "split_spec_at d before (c # cs) =
     (if c \<in> {cp CHR ''('', cp CHR ''['', ch_lbrace} then split_spec_at (d + 1) (before @ [c]) cs
      else if c \<in> {cp CHR '')'', cp CHR '']'', ch_rbrace} then split_spec_at (d - 1) (before @ [c]) cs
      else if c = cp CHR '':'' \<and> d = 0 then (before, Some cs)
      else split_spec_at d (before @ [c]) cs)"

definition split_fstring_spec :: "ustring \<Rightarrow> ustring \<times> ustring option" where
  "split_fstring_spec field = split_spec_at 0 [] field"

definition trim_end :: "penv \<Rightarrow> ustring \<Rightarrow> ustring" where
  "trim_end u s = rev (dropWhile (is_whitespace u) (rev s))"

definition is_blank :: "penv \<Rightarrow> ustring \<Rightarrow> bool" where
  "is_blank u s \<longleftrightarrow> list_all (is_whitespace u) s"

text \<open>The form \<open>{expr=}\<close>: the text before the sign, when there is one.\<close>

definition debug_form :: "penv \<Rightarrow> ustring \<Rightarrow> ustring option" where
  "debug_form u s =
     (let t = trim_end u s; before = butlast t
      in if t \<noteq> [] \<and> last t = cp CHR ''='' \<and> \<not> is_blank u before \<and>
            last before \<notin> {cp CHR ''='', cp CHR ''!'', cp CHR ''<'', cp CHR ''>''}
         then Some before else None)"

text \<open>One field: its parts, or the error with the positions of the field in the source.\<close>

definition field_error :: "token \<Rightarrow> nat \<Rightarrow> nat \<Rightarrow> failure \<Rightarrow> failure" where
  "field_error tok start i e =
     (case e of
        Failed pe \<Rightarrow> Failed \<lparr>pe_kind = pe_kind pe, pe_line = t_line tok, pe_col = t_col tok,
                            pe_start = fst (t_span tok) + start, pe_end = fst (t_span tok) + i\<rparr>
      | _ \<Rightarrow> e)"

definition fstr_field :: "penv \<Rightarrow> token \<Rightarrow> nat \<Rightarrow> nat \<Rightarrow> ustring \<Rightarrow> failure + fstr_part list" where
  "fstr_field u tok start i field =
     (case split_fstring_spec field of (expr_str, spec) \<Rightarrow>
        if is_blank u expr_str then Inl (mk_err tok EmptyFStringExpr)
        else
          (let dbg = debug_form u expr_str;
               shown = (if dbg = None then [] else [FStrPart (Expr (XStr (trim_end u expr_str)) (tok_span tok)) None]);
               src = (case dbg of Some before \<Rightarrow> before | None \<Rightarrow> expr_str)
           in (case embedded u src (t_file_id tok) of
                 Inl e \<Rightarrow> Inl (field_error tok start i e)
               | Inr e \<Rightarrow> Inr (shown @ [FStrPart e spec]))))"

lemma match_braces_le: "match_braces b cs = (b', n) \<Longrightarrow> n \<le> length cs"
  by (induction b cs arbitrary: b' n rule: match_braces.induct) (auto split: prod.splits)

function fstr_loop :: "penv \<Rightarrow> token \<Rightarrow> ustring \<Rightarrow> nat \<Rightarrow> nat \<Rightarrow> fstr_part list \<Rightarrow> failure + nat \<times> fstr_part list" where
  "fstr_loop u tok chars i last_pos parts =
     (if \<not> i < length chars then Inr (last_pos, parts)
      else if chars ! i = ch_lbrace then
        (if i + 1 < length chars \<and> chars ! (i + 1) = ch_lbrace then fstr_loop u tok chars (i + 2) last_pos parts
         else
           (let before = (if last_pos < i then literal_part tok (take (i - last_pos) (drop last_pos chars)) else []);
                start = i + 1
            in (case match_braces 1 (drop start chars) of (open_braces, n) \<Rightarrow>
                 if open_braces > 0 then Inl (mk_err tok UnclosedBrace)
                 else
                   (case fstr_field u tok start (start + n) (take (n - 1) (drop start chars)) of
                      Inl e \<Rightarrow> Inl e
                    | Inr ps \<Rightarrow> fstr_loop u tok chars (start + n) (start + n) (parts @ before @ ps)))))
      else if chars ! i = ch_rbrace then
        (if i + 1 < length chars \<and> chars ! (i + 1) = ch_rbrace then fstr_loop u tok chars (i + 2) last_pos parts
         else Inl (mk_err tok SingleBrace))
      else fstr_loop u tok chars (i + 1) last_pos parts)"
  by pat_completeness auto
termination
  by (relation "measure (\<lambda>(u, tok, chars, i, l, ps). length chars - i)") auto

declare fstr_loop.simps [simp del]

definition parse_fstring :: "penv \<Rightarrow> token \<Rightarrow> src_expr parse" where
  "parse_fstring u tok =
     (case fstr_loop u tok (t_value tok) 0 0 [] of
        Inl e \<Rightarrow> fail e
      | Inr (last_pos, parts) \<Rightarrow>
          ret (Expr (XFStr (parts @ (if last_pos < length (t_value tok)
                                    then literal_part tok (drop last_pos (t_value tok)) else [])))
                 (tok_span tok)))"

subsection \<open>Primary expressions\<close>

definition newline_like :: "token \<Rightarrow> token" where
  "newline_like d = \<lparr>t_kind = Newline, t_value = [ch_nl], t_line = t_line d, t_col = t_col d,
                     t_span = t_span d, t_file_id = t_file_id d\<rparr>"

definition insert_newline :: "unit parse" where
  "insert_newline = bindp peek_tok (\<lambda>d p.
     Inr ((), p\<lparr>tokens := take (ppos p) (tokens p) @ newline_like d # drop (ppos p) (tokens p)\<rparr>))"

definition parse_match_case :: "rules \<Rightarrow> match_case parse" where
  "parse_match_case g =
     bindp peek_tok (\<lambda>case_tok.
     seqp (eat_kind (Kw KwCase))
     (bindp (r_pattern g) (\<lambda>pat.
      bindp (opt_after (Kw KwIf) (r_or g)) (\<lambda>guard.
      bindp (parse_block g) (\<lambda>body.
      ret (MatchCase pat guard body (tok_span case_tok)))))))"

definition parse_match :: "rules \<Rightarrow> token \<Rightarrow> src_expr parse" where
  "parse_match g start_tok =
     bindp (r_expr g) (\<lambda>scrutinee.
     seqp (expect (Pn Colon))
     (if_kind Newline
        (seqp advance_tok (seqp (expect Indent) (seqp skip_newlines (seqp skip_newlines
          (bindp (block_items (fuel g) (parse_match_case g)) (\<lambda>cases.
           bindp peek_tok (\<lambda>end_tok.
           seqp (expect Dedent) (seqp insert_newline
             (ret (to_here (tok_span start_tok) end_tok (XMatch scrutinee cases)))))))))))
        (bindp peek_tok (\<lambda>t. err_at t ExpectedMatchBlock))))"

definition parse_comp_clause :: "rules \<Rightarrow> comp_clause parse" where
  "parse_comp_clause g =
     bindp (parse_for_target g) (\<lambda>target.
     seqp (expect (Kw KwIn))
     (bindp (r_range g) (\<lambda>iter.
      bindp (opt_after (Kw KwIf) (r_or g)) (\<lambda>condition.
      ret (CompClause target iter condition)))))"

definition parse_comp_clauses :: "rules \<Rightarrow> comp_clause list parse" where
  "parse_comp_clauses g = sep_items (fuel g) (Kw KwFor) (parse_comp_clause g)"

text \<open>\<open>let end = self.peek().span.1; self.expect(close)?;\<close> and the node up to there.\<close>

definition close_node :: "span \<Rightarrow> token_kind \<Rightarrow> src_stmt expr_kind_of \<Rightarrow> src_expr parse" where
  "close_node start close k =
     bindp peek_tok (\<lambda>end_tok. seqp (expect close) (ret (to_here start end_tok k)))"

definition parse_paren_expr :: "rules \<Rightarrow> span \<Rightarrow> src_expr parse" where
  "parse_paren_expr g start =
     seqp advance_tok
     (if_kind (Pn RParen)
        (bindp advance_tok (\<lambda>end_tok. ret (to_here start end_tok (XTuple []))))
        (bindp (r_expr g) (\<lambda>first_e.
         if_kind (Pn Comma)
           (bindp (more_elems (fuel g) [Pn RParen] (r_expr g)) (\<lambda>more.
              close_node start (Pn RParen) (XTuple (first_e # more))))
           (seqp (expect (Pn RParen)) (ret first_e)))))"

definition parse_bracket_expr :: "rules \<Rightarrow> span \<Rightarrow> src_expr parse" where
  "parse_bracket_expr g start =
     seqp advance_tok
     (if_kind (Pn RBracket)
        (bindp advance_tok (\<lambda>end_tok. ret (to_here start end_tok (XList []))))
        (bindp (r_expr g) (\<lambda>first_e.
         if_kind (Kw KwFor)
           (bindp (parse_comp_clauses g) (\<lambda>clauses.
              close_node start (Pn RBracket) (XListComp first_e clauses)))
           (bindp (more_elems (fuel g) [Pn RBracket] (r_expr g)) (\<lambda>more.
              close_node start (Pn RBracket) (XList (first_e # more)))))))"

definition parse_pair :: "rules \<Rightarrow> (src_expr \<times> src_expr) parse" where
  "parse_pair g =
     bindp (r_expr g) (\<lambda>k. seqp (expect (Pn Colon)) (bindp (r_expr g) (\<lambda>v. ret (k, v))))"

definition parse_brace_expr :: "rules \<Rightarrow> span \<Rightarrow> src_expr parse" where
  "parse_brace_expr g start =
     seqp advance_tok
     (if_kind (Pn RBrace)
        (bindp advance_tok (\<lambda>end_tok. ret (to_here start end_tok (XDict []))))
        (bindp (r_expr g) (\<lambda>first_e.
         bindp peek_kind (\<lambda>k.
           if k = Pn Colon then
             seqp advance_tok
             (bindp (r_expr g) (\<lambda>first_val.
              if_kind (Kw KwFor)
                (bindp (parse_comp_clauses g) (\<lambda>clauses.
                   close_node start (Pn RBrace) (XDictComp first_e first_val clauses)))
                (bindp (more_elems (fuel g) [Pn RBrace] (parse_pair g)) (\<lambda>more.
                   close_node start (Pn RBrace) (XDict ((first_e, first_val) # more))))))
           else if k = Kw KwFor then
             bindp (parse_comp_clauses g) (\<lambda>clauses.
               close_node start (Pn RBrace) (XSetComp first_e clauses))
           else
             bindp (more_elems (fuel g) [Pn RBrace] (r_expr g)) (\<lambda>more.
               close_node start (Pn RBrace) (XSet (first_e # more)))))))"

definition bare_lambda_param :: "param parse" where
  "bare_lambda_param =
     bindp (expect (Lit Identifier)) (\<lambda>t.
     bindp (span_from t) (\<lambda>sp. ret (Param (t_value t) None None RegularParam False sp)))"

definition parse_lambda :: "rules \<Rightarrow> token \<Rightarrow> src_expr parse" where
  "parse_lambda g start_tok =
     bindp
       (bindp peek_kind (\<lambda>k.
          if k = Pn Colon then ret []
          else if k = Pn LParen then
            seqp advance_tok (bindp (parse_params g) (\<lambda>ps. seqp (expect (Pn RParen)) (ret ps)))
          else comma_plus (fuel g) bare_lambda_param))
       (\<lambda>params.
          seqp (expect (Pn Colon))
          (bindp (enter_nested (r_expr g)) (\<lambda>body.
           ret (Expr (XLambda params body) ((tok_span start_tok)\<lparr>sp_end := sp_end (x_span body)\<rparr>)))))"

definition has_prefix :: "ustring \<Rightarrow> ustring \<Rightarrow> bool" where
  "has_prefix pre s \<longleftrightarrow> take (length pre) s = pre"

definition integer_value :: "ustring \<Rightarrow> i64 option" where
  "integer_value s =
     (if has_prefix (cps ''0x'') s \<or> has_prefix (cps ''0X'') s then i64_from_str_radix 16 (drop 2 s)
      else if has_prefix (cps ''0o'') s \<or> has_prefix (cps ''0O'') s then i64_from_str_radix 8 (drop 2 s)
      else if has_prefix (cps ''0b'') s \<or> has_prefix (cps ''0B'') s then i64_from_str_radix 2 (drop 2 s)
      else i64_from_str_radix 10 s)"

definition parse_integer :: "token \<Rightarrow> src_expr parse" where
  "parse_integer tok =
     seqp advance_tok
       (case integer_value (t_value tok) of
          Some n \<Rightarrow> ret (Expr (XInteger n) (tok_span tok))
        | None \<Rightarrow> err_at tok (IntegerOutOfRange (t_value tok)))"

definition parse_float :: "penv \<Rightarrow> token \<Rightarrow> src_expr parse" where
  "parse_float u tok =
     seqp advance_tok
       (case parse_f64 u (t_value tok) of
          Some f \<Rightarrow> ret (Expr (XFloat f) (tok_span tok))
        | None \<Rightarrow> err_at tok (InvalidFloat (t_value tok)))"

definition parse_async_expr :: "rules \<Rightarrow> token \<Rightarrow> src_expr parse" where
  "parse_async_expr g tok =
     seqp advance_tok
     (bindp (parse_block g) (\<lambda>body.
      bindp (span_from tok) (\<lambda>sp.
      seqp insert_newline (ret (Expr (XAsyncBlock body) sp)))))"

definition leaf_expr :: "token \<Rightarrow> src_stmt expr_kind_of \<Rightarrow> src_expr parse" where
  "leaf_expr tok k = seqp advance_tok (ret (Expr k (tok_span tok)))"

definition parse_primary :: "penv \<Rightarrow> rules \<Rightarrow> src_expr parse" where
  "parse_primary u g = bindp peek_tok (\<lambda>tok.
     case t_kind tok of
       Lit IntegerTok \<Rightarrow> parse_integer tok
     | Lit FloatTok \<Rightarrow> parse_float u tok
     | Lit StringTok \<Rightarrow> leaf_expr tok (XStr (t_value tok))
     | Lit FString \<Rightarrow> seqp advance_tok (parse_fstring u tok)
     | Kw KwTrue \<Rightarrow> leaf_expr tok (XBool True)
     | Kw KwFalse \<Rightarrow> leaf_expr tok (XBool False)
     | Kw KwNull \<Rightarrow> leaf_expr tok XNull
     | Kw KwMatch \<Rightarrow> seqp advance_tok (parse_match g tok)
     | Kw KwAsync \<Rightarrow> parse_async_expr g tok
     | Lit Identifier \<Rightarrow> leaf_expr tok (XIdentifier (t_value tok))
     | Pn LParen \<Rightarrow> enter_nested (parse_paren_expr g (tok_span tok))
     | Pn LBracket \<Rightarrow> enter_nested (parse_bracket_expr g (tok_span tok))
     | Pn LBrace \<Rightarrow> enter_nested (parse_brace_expr g (tok_span tok))
     | Kw KwLambda \<Rightarrow> seqp advance_tok (parse_lambda g tok)
     | _ \<Rightarrow> err_at tok (UnexpectedToken (t_kind tok) (t_value tok)))"

end
