(* ===== verification/ExprOps.thy ===== *)
theory ExprOps
  imports ExprParser
begin

text \<open>
  Postfix operators (\<open>parser/expr/postfix.rs\<close>), the levels of the binary and unary operators
  (\<open>ops.rs\<close>), ranges, conditional expressions and expression lists (\<open>expr/mod.rs\<close>) and patterns
  (\<open>primary.rs\<close>).
\<close>

subsection \<open>Postfix operators\<close>

text \<open>The token that the source makes up to carry the span of an expression.\<close>

definition span_tok :: "src_expr \<Rightarrow> token" where
  "span_tok e =
     \<lparr>t_kind = Lit Identifier, t_value = [], t_line = sp_line (x_span e), t_col = sp_col (x_span e),
      t_span = (sp_start (x_span e), sp_end (x_span e)), t_file_id = file_id (x_span e)\<rparr>"

definition parse_call_arg :: "rules \<Rightarrow> call_arg parse" where
  "parse_call_arg g =
     bindp peek_kind (\<lambda>k.
     if k = Opr DoubleStar then seqp advance_tok (bindp (r_expr g) (\<lambda>e. ret (KwSplat e)))
     else if k = Opr Star then seqp advance_tok (bindp (r_expr g) (\<lambda>e. ret (Splat e)))
     else
       bindp (peek_at 1) (\<lambda>t1.
       if k = Lit Identifier \<and> t_kind t1 = Opr Equal then
         bindp advance_tok (\<lambda>t. seqp advance_tok (bindp (r_expr g) (\<lambda>e. ret (Keyword (t_value t) e))))
       else bindp (r_expr g) (\<lambda>e. ret (Positional e))))"

definition parse_call_args :: "rules \<Rightarrow> call_arg list parse" where
  "parse_call_args g = comma_list (fuel g) (Pn RParen) (parse_call_arg g)"

definition parse_slice_step ::
  "rules \<Rightarrow> src_expr option \<Rightarrow> src_expr option \<Rightarrow> token \<Rightarrow> src_expr parse" where
  "parse_slice_step g start stop span_t =
     bindp (if_kind (Pn RBracket) (ret None) (bindp (r_expr g) (\<lambda>e. ret (Some e)))) (\<lambda>step.
     expr_node span_t (XSlice start stop step))"

definition parse_slice_remainder :: "rules \<Rightarrow> src_expr option \<Rightarrow> token \<Rightarrow> src_expr parse" where
  "parse_slice_remainder g start span_t =
     bindp (bindp peek_kind (\<lambda>k. if k = Pn RBracket \<or> k = Pn Colon then ret None
                                 else bindp (r_expr g) (\<lambda>e. ret (Some e)))) (\<lambda>stop.
     if_kind (Pn Colon)
       (seqp advance_tok (parse_slice_step g start stop span_t))
       (expr_node span_t (XSlice start stop None)))"

definition parse_index :: "rules \<Rightarrow> token \<Rightarrow> src_expr parse" where
  "parse_index g span_t =
     bindp peek_kind (\<lambda>k.
     if k = Pn Colon then seqp advance_tok (parse_slice_remainder g None span_t)
     else if k = Pn DoubleColon then seqp advance_tok (parse_slice_step g None None span_t)
     else
       bindp (r_expr g) (\<lambda>first_e.
       bindp peek_kind (\<lambda>k2.
       if k2 = Pn Colon then seqp advance_tok (parse_slice_remainder g (Some first_e) span_t)
       else if k2 = Pn DoubleColon then seqp advance_tok (parse_slice_step g (Some first_e) None span_t)
       else ret first_e)))"

definition parse_attr :: "src_expr \<Rightarrow> src_expr parse" where
  "parse_attr e =
     bindp advance_tok (\<lambda>op.
     bindp peek_kind (\<lambda>k.
     if t_kind op = Pn Dot \<and> k = Kw KwAwait then
       bindp advance_tok (\<lambda>end_tok.
       bindp (span_from end_tok) (\<lambda>sp. ret (Expr (XAwait e) (span_merge (x_span e) sp))))
     else
       bindp name_tok (\<lambda>attr.
       bindp (span_from (span_tok e)) (\<lambda>sp.
       if t_kind op = Pn DoubleColon then
         (case x_kind e of
            XIdentifier name \<Rightarrow> ret (Expr (XIdentifier (name @ cps ''::'' @ attr)) sp)
          | _ \<Rightarrow> err_at op NoIdentifierBeforeColons)
       else ret (Expr (XAttr e attr) sp)))))"

text \<open>One turn of the loop: the larger expression, or the end.\<close>

definition postfix_step :: "rules \<Rightarrow> src_expr \<Rightarrow> src_expr option parse" where
  "postfix_step g e =
     bindp peek_kind (\<lambda>k.
     bindp (peek_at 1) (\<lambda>t1.
     if k = Pn Dot \<or> k = Pn DoubleColon \<and> t_kind t1 = Lit Identifier then
       bindp (parse_attr e) (\<lambda>e'. ret (Some e'))
     else if k = Pn QuestionDot then
       seqp advance_tok (bindp name_tok (\<lambda>attr.
         bindp (expr_node (span_tok e) (XOptAttr e attr)) (\<lambda>e'. ret (Some e'))))
     else if k = Pn LBracket then
       seqp advance_tok (bindp (parse_index g (span_tok e)) (\<lambda>index.
         seqp (expect (Pn RBracket))
           (bindp (expr_node (span_tok e) (XIndex e index)) (\<lambda>e'. ret (Some e')))))
     else if k = Pn LParen then
       seqp advance_tok (bindp (parse_call_args g) (\<lambda>args.
         seqp (expect (Pn RParen))
           (bindp (expr_node (span_tok e) (XCall e args)) (\<lambda>e'. ret (Some e')))))
     else if k = Pn Question then
       bindp advance_tok (\<lambda>op.
       bindp (span_from op) (\<lambda>sp. ret (Some (Expr (XTry e) (span_merge (x_span e) sp)))))
     else if k = Kw KwAs then
       seqp advance_tok (bindp (r_type g) (\<lambda>ty.
         ret (Some (Expr (XCast e ty) (span_merge (x_span e) (te_span ty))))))
     else ret None))"

primrec postfix_loop :: "nat \<Rightarrow> rules \<Rightarrow> src_expr \<Rightarrow> src_expr parse" where
  "postfix_loop 0 g e = fail NoFuel"
| "postfix_loop (Suc n) g e =
     bindp (postfix_step g e) (\<lambda>r. case r of Some e' \<Rightarrow> postfix_loop n g e' | None \<Rightarrow> ret e)"

definition parse_postfix :: "penv \<Rightarrow> rules \<Rightarrow> src_expr parse" where
  "parse_postfix u g = bindp (parse_primary u g) (postfix_loop (fuel g) g)"

subsection \<open>Operators\<close>

definition parse_power :: "penv \<Rightarrow> rules \<Rightarrow> src_expr parse" where
  "parse_power u g =
     bindp (parse_postfix u g) (\<lambda>base.
     if_kind (Opr DoubleStar)
       (seqp advance_tok (bindp (enter_nested (r_unary g)) (\<lambda>e. ret (binop base PowOp e))))
       (ret base))"

definition unary_after :: "rules \<Rightarrow> token \<Rightarrow> (src_expr \<Rightarrow> src_stmt expr_kind_of) \<Rightarrow> src_expr parse" where
  "unary_after g start C = bindp (r_unary g) (\<lambda>operand. expr_node start (C operand))"

definition parse_unary_prefix :: "penv \<Rightarrow> rules \<Rightarrow> src_expr parse" where
  "parse_unary_prefix u g = bindp peek_tok (\<lambda>start.
     case t_kind start of
       Kw KwTry \<Rightarrow> seqp advance_tok (unary_after g start XTry)
     | Kw KwAwait \<Rightarrow> seqp advance_tok (unary_after g start XAwait)
     | Opr Ampersand \<Rightarrow>
         seqp advance_tok
           (if_kind (Kw KwMut)
              (seqp advance_tok (unary_after g start XMutBorrow))
              (unary_after g start XBorrow))
     | Opr Tilde \<Rightarrow> seqp advance_tok (unary_after g start (XUnaryOp BitNotOp))
     | Opr Star \<Rightarrow> seqp advance_tok (unary_after g start XDeref)
     | Opr Minus \<Rightarrow> seqp advance_tok (unary_after g start (XUnaryOp NegOp))
     | Opr Plus \<Rightarrow> seqp advance_tok (unary_after g start (XUnaryOp PosOp))
     | _ \<Rightarrow> parse_power u g)"

definition parse_unary :: "penv \<Rightarrow> rules \<Rightarrow> src_expr parse" where
  "parse_unary u g = bindp peek_kind (\<lambda>k.
     if k \<in> {Kw KwTry, Kw KwAwait, Opr Ampersand, Opr Tilde, Opr Star, Opr Minus, Opr Plus}
     then enter_nested (parse_unary_prefix u g) else parse_power u g)"

text \<open>The loop of a level whose operators associate to the left.\<close>

primrec binary_loop ::
  "nat \<Rightarrow> (token_kind \<Rightarrow> bin_op option) \<Rightarrow> src_expr parse \<Rightarrow> src_expr \<Rightarrow> src_expr parse" where
  "binary_loop 0 op_of next_level left = fail NoFuel"
| "binary_loop (Suc n) op_of next_level left = bindp peek_kind (\<lambda>k.
     case op_of k of
       None \<Rightarrow> ret left
     | Some op \<Rightarrow> seqp advance_tok (bindp next_level (\<lambda>right.
         binary_loop n op_of next_level (binop left op right))))"

definition binary_level :: "rules \<Rightarrow> (token_kind \<Rightarrow> bin_op option) \<Rightarrow> src_expr parse \<Rightarrow> src_expr parse" where
  "binary_level g op_of next_level = bindp next_level (binary_loop (fuel g) op_of next_level)"

definition mul_op :: "token_kind \<Rightarrow> bin_op option" where
  "mul_op k = (if k = Opr Star then Some MulOp else if k = Opr Slash then Some DivOp
               else if k = Opr Percent then Some ModOp else None)"

definition add_op :: "token_kind \<Rightarrow> bin_op option" where
  "add_op k = (if k = Opr Plus then Some AddOp else if k = Opr Minus then Some SubOp else None)"

definition shift_op :: "token_kind \<Rightarrow> bin_op option" where
  "shift_op k = (if k = Opr Shl then Some ShlOp else if k = Opr Shr then Some ShrOp else None)"

definition one_op :: "token_kind \<Rightarrow> bin_op \<Rightarrow> token_kind \<Rightarrow> bin_op option" where
  "one_op k op k' = (if k' = k then Some op else None)"

definition parse_mul :: "penv \<Rightarrow> rules \<Rightarrow> src_expr parse" where
  "parse_mul u g = binary_level g mul_op (parse_unary u g)"

definition parse_add :: "penv \<Rightarrow> rules \<Rightarrow> src_expr parse" where
  "parse_add u g = binary_level g add_op (parse_mul u g)"

definition parse_shift :: "penv \<Rightarrow> rules \<Rightarrow> src_expr parse" where
  "parse_shift u g = binary_level g shift_op (parse_add u g)"

definition parse_bitand :: "penv \<Rightarrow> rules \<Rightarrow> src_expr parse" where
  "parse_bitand u g = binary_level g (one_op (Opr Ampersand) BitAndOp) (parse_shift u g)"

definition parse_bitxor :: "penv \<Rightarrow> rules \<Rightarrow> src_expr parse" where
  "parse_bitxor u g = binary_level g (one_op (Opr Caret) BitXorOp) (parse_bitand u g)"

definition parse_bitor :: "penv \<Rightarrow> rules \<Rightarrow> src_expr parse" where
  "parse_bitor u g = binary_level g (one_op (Opr Pipe) BitOrOp) (parse_bitxor u g)"

definition comparison_op :: "bin_op option parse" where
  "comparison_op = bindp peek_kind (\<lambda>k.
     if k = Opr DoubleEqual then seqp advance_tok (ret (Some EqOp))
     else if k = Opr NotEqual then seqp advance_tok (ret (Some NotEqOp))
     else if k = Kw KwNot then
       seqp advance_tok (if_kind (Kw KwIn) (seqp advance_tok (ret (Some NotInOp))) (ret (Some NotEqOp)))
     else if k = Opr Less then seqp advance_tok (ret (Some LtOp))
     else if k = Opr LessEqual then seqp advance_tok (ret (Some LtEqOp))
     else if k = Opr Greater then seqp advance_tok (ret (Some GtOp))
     else if k = Opr GreaterEqual then seqp advance_tok (ret (Some GtEqOp))
     else if k = Kw KwIn then seqp advance_tok (ret (Some InOp))
     else ret None)"

text \<open>\<open>by\<close> is a word of its own only after the end of a range.\<close>

definition parse_optional_range_step :: "rules \<Rightarrow> src_expr option parse" where
  "parse_optional_range_step g = bindp peek_tok (\<lambda>t.
     if t_kind t = Lit Identifier \<and> t_value t = cps ''by''
     then seqp advance_tok (bindp (r_or g) (\<lambda>e. ret (Some e)))
     else ret None)"

definition range_node :: "src_expr \<Rightarrow> src_expr \<Rightarrow> bool \<Rightarrow> src_expr option \<Rightarrow> src_expr" where
  "range_node start end_e inclusive step =
     Expr (XRange start end_e inclusive step)
       (span_merge (x_span start) (x_span (case step of Some s \<Rightarrow> s | None \<Rightarrow> end_e)))"

text \<open>\<open>..\<close> or \<open>..=\<close> after \<open>start\<close>, with the rule for the end of the range.\<close>

definition range_suffix :: "rules \<Rightarrow> src_expr parse \<Rightarrow> src_expr \<Rightarrow> src_expr parse" where
  "range_suffix g end_rule start = bindp peek_kind (\<lambda>k.
     if k = Pn DotDot \<or> k = Pn DotDotEq then
       seqp advance_tok
       (bindp end_rule (\<lambda>end_e.
        bindp (parse_optional_range_step g) (\<lambda>step.
        ret (range_node start end_e (k = Pn DotDotEq) step))))
     else ret start)"

primrec comparison_loop :: "nat \<Rightarrow> penv \<Rightarrow> rules \<Rightarrow> src_expr \<Rightarrow> src_expr parse" where
  "comparison_loop 0 u g left = fail NoFuel"
| "comparison_loop (Suc n) u g left =
     bindp comparison_op (\<lambda>r.
     case r of
       None \<Rightarrow> ret left
     | Some op \<Rightarrow>
         bindp (parse_bitor u g) (\<lambda>right0.
         bindp (if op = InOp \<or> op = NotInOp then range_suffix g (parse_bitor u g) right0 else ret right0)
           (\<lambda>right. comparison_loop n u g (binop left op right))))"

definition parse_comparison :: "penv \<Rightarrow> rules \<Rightarrow> src_expr parse" where
  "parse_comparison u g = bindp (parse_bitor u g) (comparison_loop (fuel g) u g)"

definition parse_not :: "penv \<Rightarrow> rules \<Rightarrow> src_expr parse" where
  "parse_not u g = bindp peek_tok (\<lambda>start.
     if t_kind start = Kw KwNot then
       seqp advance_tok (bindp (r_not g) (\<lambda>operand. expr_node start (XUnaryOp NotOp operand)))
     else parse_comparison u g)"

definition parse_and :: "penv \<Rightarrow> rules \<Rightarrow> src_expr parse" where
  "parse_and u g = binary_level g (one_op (Kw KwAnd) AndOp) (parse_not u g)"

definition parse_coalesce :: "penv \<Rightarrow> rules \<Rightarrow> src_expr parse" where
  "parse_coalesce u g = binary_level g (one_op (Pn QuestionQuestion) CoalesceOp) (parse_and u g)"

definition parse_or :: "penv \<Rightarrow> rules \<Rightarrow> src_expr parse" where
  "parse_or u g = binary_level g (one_op (Kw KwOr) OrOp) (parse_coalesce u g)"

definition parse_range :: "penv \<Rightarrow> rules \<Rightarrow> src_expr parse" where
  "parse_range u g = bindp (parse_or u g) (range_suffix g (parse_or u g))"

definition parse_expr :: "penv \<Rightarrow> rules \<Rightarrow> src_expr parse" where
  "parse_expr u g =
     bindp (parse_range u g) (\<lambda>start.
     if_kind (Kw KwIf)
       (enter_nested
          (seqp advance_tok
          (bindp (parse_or u g) (\<lambda>cond.
           seqp (expect (Kw KwElse))
           (bindp (r_expr g) (\<lambda>otherwise.
            ret (Expr (XTernary cond start otherwise) (span_merge (x_span start) (x_span otherwise)))))))))
       (ret start))"

definition list_stops :: "token_kind list" where
  "list_stops = [Opr Equal, Opr PlusEqual, Opr MinusEqual, Opr StarEqual, Opr SlashEqual,
     Opr PercentEqual, Opr DoubleStarEqual, Newline, Pn Semicolon, Eof, Dedent]"

definition parse_expr_list :: "penv \<Rightarrow> rules \<Rightarrow> src_expr parse" where
  "parse_expr_list u g =
     bindp (parse_expr u g) (\<lambda>first_e.
     if_kind (Pn Comma)
       (bindp (more_elems (fuel g) list_stops (parse_expr u g)) (\<lambda>more.
          ret (Expr (XTuple (first_e # more)) (span_merge (x_span first_e) (x_span (last (first_e # more)))))))
       (ret first_e))"

lemma size_elem: "x_kind e = XTuple es \<Longrightarrow> x \<in> set es \<Longrightarrow> size x < size e"
proof -
  assume a: "x_kind e = XTuple es" "x \<in> set es"
  have "size x \<le> size_list size es" by (rule size_list_estimation' [OF a(2)]) simp
  with a(1) show ?thesis by (cases e) simp
qed

function is_valid_assign_target :: "src_expr \<Rightarrow> bool" where
  "is_valid_assign_target e =
     (case x_kind e of
        XIdentifier _ \<Rightarrow> True
      | XAttr _ _ \<Rightarrow> True
      | XIndex _ _ \<Rightarrow> True
      | XDeref _ \<Rightarrow> True
      | XStarred inner \<Rightarrow> (case x_kind inner of XIdentifier _ \<Rightarrow> True | _ \<Rightarrow> False)
      | XTuple elems \<Rightarrow> list_all is_valid_assign_target elems
      | _ \<Rightarrow> False)"
  by pat_completeness auto
termination
  by (relation "measure size") (auto intro: size_elem)

declare is_valid_assign_target.simps [simp del]

subsection \<open>Patterns\<close>

definition parse_field_pattern :: "rules \<Rightarrow> (ustring \<times> src_pattern) parse" where
  "parse_field_pattern g =
     bindp name_tok (\<lambda>f. seqp (expect (Opr Equal)) (bindp (r_pattern g) (\<lambda>pat. ret (f, pat))))"

definition parse_number_pattern :: "penv \<Rightarrow> rules \<Rightarrow> src_pattern parse" where
  "parse_number_pattern u g =
     bindp (parse_primary u g) (\<lambda>e.
     bindp peek_kind (\<lambda>k.
     if k = Pn DotDot \<or> k = Pn DotDotEq then
       seqp advance_tok (bindp (parse_primary u g) (\<lambda>end_e. ret (PatRange e end_e (k = Pn DotDotEq))))
     else ret (PatLiteral e)))"

definition parse_name_pattern :: "penv \<Rightarrow> rules \<Rightarrow> src_pattern parse" where
  "parse_name_pattern u g =
     bindp advance_tok (\<lambda>t.
     if_kind (Pn LParen)
       (seqp advance_tok
       (bindp peek_kind (\<lambda>k. bindp (peek_at 1) (\<lambda>t1.
        if k = Lit Identifier \<and> t_kind t1 = Opr Equal then
          bindp (comma_list (fuel g) (Pn RParen) (parse_field_pattern g)) (\<lambda>fields.
          bindp peek_tok (\<lambda>end_tok.
          seqp (expect (Pn RParen))
            (ret (PatStructFields (t_value t) fields ((tok_span t)\<lparr>sp_end := snd (t_span end_tok)\<rparr>)))))
        else
          bindp (comma_list (fuel g) (Pn RParen) (r_pattern g)) (\<lambda>pats.
          seqp (expect (Pn RParen)) (ret (PatVariant (t_value t) pats)))))))
       (ret (if t_value t \<noteq> [] \<and> is_uppercase u (hd (t_value t)) then PatVariant (t_value t) []
             else PatIdentifier (t_value t) (tok_span t))))"

text \<open>The loop of a tuple pattern, with \<open>saw_comma\<close>.\<close>

primrec tuple_pattern_items :: "nat \<Rightarrow> rules \<Rightarrow> (src_pattern list \<times> bool) parse" where
  "tuple_pattern_items 0 g = fail NoFuel"
| "tuple_pattern_items (Suc n) g = bindp peek_kind (\<lambda>k.
     if k = Pn RParen \<or> k = Eof then ret ([], False)
     else bindp (r_pattern g) (\<lambda>x. if_kind (Pn Comma)
            (seqp advance_tok (bindp (tuple_pattern_items n g) (\<lambda>(xs, _). ret (x # xs, True))))
            (ret ([x], False))))"

definition parse_tuple_pattern :: "rules \<Rightarrow> src_pattern parse" where
  "parse_tuple_pattern g =
     enter_nested
       (seqp (expect (Pn LParen))
       (bindp (tuple_pattern_items (fuel g) g) (\<lambda>(items, saw_comma).
        seqp (expect (Pn RParen))
          (ret (case items of [item] \<Rightarrow> if \<not> saw_comma then item else PatTuple items | _ \<Rightarrow> PatTuple items)))))"

type_synonym list_pattern = "src_pattern list \<times> (ustring \<times> span) option \<times> src_pattern list"

definition list_pattern_item :: "rules \<Rightarrow> list_pattern \<Rightarrow> list_pattern parse" where
  "list_pattern_item g = (\<lambda>(before, rest, after).
     if_kind (Opr Star)
       (if rest \<noteq> None then bindp peek_tok (\<lambda>t. err_at t SecondRest)
        else seqp advance_tok (bindp for_name (\<lambda>x. ret (before, Some x, after))))
       (bindp (r_pattern g) (\<lambda>pat.
          ret (if rest \<noteq> None then (before, rest, after @ [pat]) else (before @ [pat], rest, after)))))"

primrec list_pattern_items :: "nat \<Rightarrow> rules \<Rightarrow> list_pattern \<Rightarrow> list_pattern parse" where
  "list_pattern_items 0 g acc = fail NoFuel"
| "list_pattern_items (Suc n) g acc = bindp peek_kind (\<lambda>k.
     if k = Pn RBracket \<or> k = Eof then ret acc
     else bindp (list_pattern_item g acc) (\<lambda>acc'. if_kind (Pn Comma)
            (seqp advance_tok (list_pattern_items n g acc'))
            (ret acc')))"

definition parse_list_pattern :: "rules \<Rightarrow> src_pattern parse" where
  "parse_list_pattern g =
     enter_nested
       (seqp (expect (Pn LBracket))
       (bindp (list_pattern_items (fuel g) g ([], None, [])) (\<lambda>(before, rest, after).
        seqp (expect (Pn RBracket)) (ret (PatList before rest after)))))"

definition parse_pattern_atom :: "penv \<Rightarrow> rules \<Rightarrow> src_pattern parse" where
  "parse_pattern_atom u g = bindp peek_tok (\<lambda>t.
     case t_kind t of
       Pn Underscore \<Rightarrow> seqp advance_tok (ret PatWildcard)
     | Pn LParen \<Rightarrow> parse_tuple_pattern g
     | Pn LBracket \<Rightarrow> parse_list_pattern g
     | Lit IntegerTok \<Rightarrow> parse_number_pattern u g
     | Lit FloatTok \<Rightarrow> parse_number_pattern u g
     | Lit StringTok \<Rightarrow> bindp (parse_primary u g) (\<lambda>e. ret (PatLiteral e))
     | Kw KwTrue \<Rightarrow> bindp (parse_primary u g) (\<lambda>e. ret (PatLiteral e))
     | Kw KwFalse \<Rightarrow> bindp (parse_primary u g) (\<lambda>e. ret (PatLiteral e))
     | Kw KwNull \<Rightarrow> bindp (parse_primary u g) (\<lambda>e. ret (PatLiteral e))
     | Lit Identifier \<Rightarrow> parse_name_pattern u g
     | _ \<Rightarrow> err_at t ExpectedPattern)"

definition parse_pattern :: "penv \<Rightarrow> rules \<Rightarrow> src_pattern parse" where
  "parse_pattern u g =
     bindp (parse_pattern_atom u g) (\<lambda>first_pat.
     if_kind (Opr Pipe)
       (bindp (sep_items (fuel g) (Opr Pipe) (parse_pattern_atom u g)) (\<lambda>more. ret (PatOr (first_pat # more))))
       (ret first_pat))"

end
