(* ===== verification/StmtParser.thy ===== *)
theory StmtParser
  imports ExprOps
begin

text \<open>
  Statements (\<open>parser/stmt/\<close>), declarations (\<open>decls.rs\<close>) and the bodies of foreign imports
  (\<open>ffi.rs\<close>), the rules tied together, and \<open>parse_program\<close>.
\<close>

definition stmt_node :: "token \<Rightarrow> stmt_kind \<Rightarrow> src_stmt parse" where
  "stmt_node start k = bindp (span_from start) (\<lambda>sp. ret (Stmt k sp))"

text \<open>\<open>self.eat_stmt_end()?; Ok(Stmt::new(k, self.span_from(&start)))\<close>\<close>

definition end_stmt :: "token \<Rightarrow> stmt_kind \<Rightarrow> src_stmt parse" where
  "end_stmt start k = seqp eat_stmt_end (stmt_node start k)"

definition fail_here :: "parse_error_kind \<Rightarrow> 'a parse" where
  "fail_here k = bindp peek_tok (\<lambda>t. err_at t k)"

subsection \<open>Control flow (\<open>stmt/control.rs\<close>)\<close>

definition cond_block :: "penv \<Rightarrow> rules \<Rightarrow> (src_expr \<times> src_stmt list) parse" where
  "cond_block u g = bindp (parse_expr u g) (\<lambda>c. bindp (parse_block g) (\<lambda>b. ret (c, b)))"

text \<open>The \<open>elif\<close> clauses and the \<open>else\<close> body, with \<open>else if\<close> as one more clause.\<close>

primrec if_clauses ::
  "nat \<Rightarrow> penv \<Rightarrow> rules \<Rightarrow> ((src_expr \<times> src_stmt list) list \<times> src_stmt list option) parse" where
  "if_clauses 0 u g = fail NoFuel"
| "if_clauses (Suc n) u g =
     (let more = bindp (cond_block u g) (\<lambda>c. bindp (if_clauses n u g) (\<lambda>(cs, e). ret (c # cs, e)))
      in seqp skip_newlines (bindp peek_kind (\<lambda>k.
           if k = Kw KwElif then seqp advance_tok more
           else if k = Kw KwElse then
             seqp advance_tok (seqp skip_newlines
               (if_kind (Kw KwIf) (seqp advance_tok more)
                  (bindp (parse_block g) (\<lambda>b. ret ([], Some b)))))
           else ret ([], None))))"

definition parse_if :: "penv \<Rightarrow> rules \<Rightarrow> src_stmt parse" where
  "parse_if u g =
     bindp peek_tok (\<lambda>start.
     seqp (expect (Kw KwIf))
     (bindp (parse_expr u g) (\<lambda>condition.
      bindp (parse_block g) (\<lambda>then_body.
      bindp (if_clauses (fuel g) u g) (\<lambda>(elifs, else_body).
      stmt_node start (SIf condition then_body elifs else_body))))))"

text \<open>The \<open>else\<close> of a loop.\<close>

definition loop_else :: "rules \<Rightarrow> src_stmt list option parse" where
  "loop_else g = seqp skip_newlines (opt_after (Kw KwElse) (parse_block g))"

definition parse_while :: "penv \<Rightarrow> rules \<Rightarrow> src_stmt parse" where
  "parse_while u g =
     bindp peek_tok (\<lambda>start.
     seqp (expect (Kw KwWhile))
     (bindp (parse_expr u g) (\<lambda>condition.
      bindp (parse_block g) (\<lambda>body.
      bindp (loop_else g) (\<lambda>else_body.
      stmt_node start (SWhile condition body else_body))))))"

definition parse_for :: "penv \<Rightarrow> rules \<Rightarrow> src_stmt parse" where
  "parse_for u g =
     bindp peek_tok (\<lambda>start.
     seqp (expect (Kw KwFor))
     (bindp (parse_for_target g) (\<lambda>target.
      seqp (expect (Kw KwIn))
      (bindp (parse_expr u g) (\<lambda>iter.
       bindp (parse_block g) (\<lambda>body.
       bindp (loop_else g) (\<lambda>else_body.
       stmt_node start (SFor target iter body else_body))))))))"

text \<open>\<open>with e as name\<close>: the cast that the expression grammar reads is undone when its type is a name.\<close>

definition parse_with_item :: "penv \<Rightarrow> rules \<Rightarrow> with_item parse" where
  "parse_with_item u g =
     bindp (parse_expr u g) (\<lambda>e.
     case x_kind e of
       XCast inner ty \<Rightarrow>
         (case te_kind ty of
            TeName name \<Rightarrow> ret (WithItem inner (Some (Expr (XIdentifier name) (te_span ty))))
          | _ \<Rightarrow> ret (WithItem e None))
     | _ \<Rightarrow>
         if_kind (Kw KwAs)
           (seqp advance_tok (bindp (expect (Lit Identifier)) (\<lambda>ident.
              bindp (expr_node ident (XIdentifier (t_value ident))) (\<lambda>alias. ret (WithItem e (Some alias))))))
           (ret (WithItem e None)))"

primrec with_items :: "nat \<Rightarrow> penv \<Rightarrow> rules \<Rightarrow> with_item list parse" where
  "with_items 0 u g = fail NoFuel"
| "with_items (Suc n) u g =
     bindp (parse_with_item u g) (\<lambda>x.
     if_kind (Pn Comma)
       (seqp advance_tok (seqp skip_newlines (bindp (with_items n u g) (\<lambda>xs. ret (x # xs)))))
       (ret [x]))"

definition parse_with :: "penv \<Rightarrow> rules \<Rightarrow> src_stmt parse" where
  "parse_with u g =
     bindp peek_tok (\<lambda>start.
     seqp (expect (Kw KwWith))
     (bindp (with_items (fuel g) u g) (\<lambda>items.
      bindp (parse_block g) (\<lambda>body.
      stmt_node start (SWith items body)))))"

subsection \<open>Foreign imports (\<open>ffi.rs\<close>, \<open>stmt/functions.rs\<close>)\<close>

definition u8_of_str :: "ustring \<Rightarrow> 8 word option" where
  "u8_of_str s =
     (case usize_from_str s of Some n \<Rightarrow> if n < 256 then Some (word_of_nat n) else None | None \<Rightarrow> None)"

definition parse_ffi_field :: "rules \<Rightarrow> ffi_struct_field parse" where
  "parse_ffi_field g =
     bindp name_tok (\<lambda>name.
     seqp (expect (Pn Colon))
     (bindp (r_type g) (\<lambda>ty.
      bindp (opt_after (Pn AtSign)
        (bindp (expect (Lit IntegerTok)) (\<lambda>t.
           case u8_of_str (t_value t) of Some w \<Rightarrow> ret w | None \<Rightarrow> err_at t (InvalidBitWidth (t_value t))))) (\<lambda>bits.
      seqp eat_stmt_end (ret \<lparr>fsf_name = name, fsf_ty = ty, fsf_bits = bits\<rparr>)))))"

definition parse_ffi_struct_def :: "rules \<Rightarrow> bool \<Rightarrow> ffi_struct_def parse" where
  "parse_ffi_struct_def g is_union =
     seqp (expect (Kw KwStruct))
     (bindp name_tok (\<lambda>name.
      bindp (bindp peek_tok (\<lambda>t.
        if t_kind t = Lit Identifier \<and> t_value t = cps ''free_with'' then
          seqp advance_tok (seqp (expect (Pn LParen)) (bindp name_tok (\<lambda>d. seqp (expect (Pn RParen)) (ret (Some d)))))
        else ret None)) (\<lambda>destructor.
      seqp (expect (Pn Colon)) (seqp (expect Newline) (seqp (expect Indent) (seqp skip_newlines
      (bindp (block_items (fuel g) (parse_ffi_field g)) (\<lambda>fields.
       seqp (expect Dedent)
         (ret \<lparr>fs_name = name, fs_fields = fields, fs_is_union = is_union, fs_destructor = destructor\<rparr>)))))))))"

definition parse_ffi_var_def :: "rules \<Rightarrow> ffi_var_def parse" where
  "parse_ffi_var_def g =
     seqp advance_tok
     (bindp name_tok (\<lambda>name.
      seqp (expect (Pn Colon))
      (bindp (r_type g) (\<lambda>ty. seqp eat_stmt_end (ret \<lparr>fv_name = name, fv_ty = ty\<rparr>)))))"

definition parse_ffi_const_def :: "rules \<Rightarrow> ffi_const_def parse" where
  "parse_ffi_const_def g =
     seqp (expect (Kw KwConst))
     (bindp name_tok (\<lambda>name.
      seqp (opt_after (Pn Colon) (r_type g))
      (seqp (expect (Opr Equal))
      (bindp (eat_kind (Opr Minus)) (\<lambda>negative.
       bindp (expect (Lit IntegerTok)) (\<lambda>t.
       case i64_from_str_radix 10 (t_value t) of
         None \<Rightarrow> err_at t (InvalidIntegerConstant (t_value t))
       | Some raw \<Rightarrow> seqp eat_stmt_end (ret \<lparr>fc_name = name, fc_value = (if negative then - raw else raw)\<rparr>)))))))"

definition name_decorator :: "bool \<Rightarrow> decorator parse" where
  "name_decorator is_directive =
     bindp (expect (Lit Identifier)) (\<lambda>t.
     ret \<lparr>dc_name = t_value t, dc_is_directive = is_directive, dc_span = tok_span t\<rparr>)"

primrec ffi_decorators :: "nat \<Rightarrow> decorator list parse" where
  "ffi_decorators 0 = fail NoFuel"
| "ffi_decorators (Suc n) =
     if_kind (Pn AtSign)
       (seqp advance_tok (bindp (name_decorator False) (\<lambda>d.
          seqp skip_newlines (bindp (ffi_decorators n) (\<lambda>ds. ret (d # ds))))))
       (ret [])"

text \<open>The parameters with \<open>is_vararg\<close>; a variadic parameter ends the list.\<close>

primrec ffi_params :: "nat \<Rightarrow> rules \<Rightarrow> (type_expr list \<times> bool) parse" where
  "ffi_params 0 g = fail NoFuel"
| "ffi_params (Suc n) g = bindp peek_kind (\<lambda>k.
     if k = Pn RParen \<or> k = Eof then ret ([], False)
     else if k = Opr Star \<or> k = Pn DotDot then
       seqp (if k = Pn DotDot then seqp advance_tok (seqp (eat_kind (Pn Dot)) (ret ()))
             else seqp advance_tok (seqp (expect (Lit Identifier)) (ret ())))
         (seqp (eat_kind (Pn Comma)) (ret ([], True)))
     else
       seqp (expect (Lit Identifier)) (seqp (expect (Pn Colon))
         (bindp (r_type g) (\<lambda>ty. if_kind (Pn Comma)
            (seqp advance_tok (bindp (ffi_params n g) (\<lambda>(tys, va). ret (ty # tys, va))))
            (ret ([ty], False))))))"

definition call_conv_of :: "decorator list \<Rightarrow> ustring option" where
  "call_conv_of ds =
     map_option dc_name
       (List.find (\<lambda>d. dc_name d \<in> {cps ''stdcall'', cps ''fastcall'', cps ''cdecl''}) ds)"

definition parse_ffi_fn_sig :: "rules \<Rightarrow> ffi_fn_sig parse" where
  "parse_ffi_fn_sig g =
     bindp (ffi_decorators (fuel g)) (\<lambda>ds.
     seqp (expect (Kw KwFn))
     (bindp (expect (Lit Identifier)) (\<lambda>name_t.
      seqp (expect (Pn LParen))
      (bindp (ffi_params (fuel g) g) (\<lambda>(params, is_vararg).
       seqp (expect (Pn RParen))
       (bindp (opt_after (Pn Arrow) (r_type g)) (\<lambda>r.
        seqp eat_stmt_end
          (ret \<lparr>ff_name = t_value name_t, ff_params = params, ff_ret = r, ff_is_vararg = is_vararg,
                ff_decorators = ds, ff_call_conv = call_conv_of ds, ff_span = tok_span name_t\<rparr>)))))))) "

definition parse_py_param :: "rules \<Rightarrow> type_expr parse" where
  "parse_py_param g =
     bindp peek_kind (\<lambda>k. bindp (peek_at 1) (\<lambda>t1.
     if k = Lit Identifier \<and> t_kind t1 = Pn Colon then seqp advance_tok (seqp advance_tok (r_type g))
     else r_type g))"

definition parse_py_fn_sig :: "rules \<Rightarrow> py_fn_sig parse" where
  "parse_py_fn_sig g =
     seqp (expect (Kw KwFn))
     (bindp name_tok (\<lambda>name.
      seqp (expect (Pn LParen))
      (bindp (comma_list (fuel g) (Pn RParen) (parse_py_param g)) (\<lambda>params.
       seqp (expect (Pn RParen))
       (bindp (opt_after (Pn Arrow) (r_type g)) (\<lambda>r.
        seqp eat_stmt_end (ret \<lparr>py_name = name, py_params = params, py_ret = r\<rparr>)))))))"

text \<open>What one line of a Python import block declares.\<close>

definition py_block_item :: "rules \<Rightarrow> (ustring + py_fn_sig) parse" where
  "py_block_item g =
     bindp peek_tok (\<lambda>t.
     if t_kind t = Lit Identifier \<and> t_value t = cps ''type'' then
       seqp advance_tok (bindp name_tok (\<lambda>n. seqp eat_stmt_end (ret (Inl n))))
     else if t_kind t = Kw KwFn then bindp (parse_py_fn_sig g) (\<lambda>f. ret (Inr f))
     else err_at t ExpectedInPyImport)"

definition lefts :: "('a + 'b) list \<Rightarrow> 'a list" where
  "lefts xs = concat (map (\<lambda>x. case x of Inl a \<Rightarrow> [a] | Inr _ \<Rightarrow> []) xs)"

definition rights :: "('a + 'b) list \<Rightarrow> 'b list" where
  "rights xs = concat (map (\<lambda>x. case x of Inl _ \<Rightarrow> [] | Inr b \<Rightarrow> [b]) xs)"

text \<open>\<open>: NEWLINE INDENT items DEDENT\<close> when a colon and a line end follow.\<close>

definition import_block :: "rules \<Rightarrow> 'a parse \<Rightarrow> 'a list parse \<Rightarrow> 'a list parse" where
  "import_block g item otherwise =
     bindp peek_kind (\<lambda>k. bindp (peek_at 1) (\<lambda>t1.
     if k = Pn Colon \<and> t_kind t1 = Newline then
       seqp advance_tok (seqp advance_tok (seqp (expect Indent) (seqp skip_newlines
         (bindp (block_items (fuel g) item) (\<lambda>items. seqp (expect Dedent) (ret items))))))
     else otherwise))"

definition parse_py_import :: "rules \<Rightarrow> token \<Rightarrow> src_stmt parse" where
  "parse_py_import g start =
     seqp advance_tok
     (bindp advance_tok (\<lambda>module_t.
      seqp (expect (Kw KwAs))
      (bindp name_tok (\<lambda>alias.
       bindp (import_block g (py_block_item g) (seqp eat_stmt_end (ret []))) (\<lambda>items.
       stmt_node start (SPyImport (t_value module_t) alias (lefts items) (rights items)))))))"

datatype native_item =
    NiStruct ffi_struct_def
  | NiVar ffi_var_def
  | NiConst ffi_const_def
  | NiFn ffi_fn_sig

definition native_block_item :: "rules \<Rightarrow> native_item parse" where
  "native_block_item g =
     bindp peek_tok (\<lambda>t. bindp (peek_at 1) (\<lambda>t1.
     if t_kind t = Kw KwStruct then bindp (parse_ffi_struct_def g False) (\<lambda>s. ret (NiStruct s))
     else if t_kind t = Lit Identifier \<and> t_value t = cps ''union'' \<and> t_kind t1 = Kw KwStruct then
       seqp advance_tok (bindp (parse_ffi_struct_def g True) (\<lambda>s. ret (NiStruct s)))
     else if t_kind t = Lit Identifier \<and> t_value t = cps ''var'' then
       bindp (parse_ffi_var_def g) (\<lambda>v. ret (NiVar v))
     else if t_kind t = Kw KwConst then bindp (parse_ffi_const_def g) (\<lambda>c. ret (NiConst c))
     else bindp (parse_ffi_fn_sig g) (\<lambda>f. ret (NiFn f))))"

definition native_import :: "ustring \<Rightarrow> ustring \<Rightarrow> native_item list \<Rightarrow> stmt_kind" where
  "native_import path alias items =
     SNativeImport path alias
       (concat (map (\<lambda>x. case x of NiFn f \<Rightarrow> [f] | _ \<Rightarrow> []) items))
       (concat (map (\<lambda>x. case x of NiStruct s \<Rightarrow> [s] | _ \<Rightarrow> []) items))
       (concat (map (\<lambda>x. case x of NiVar v \<Rightarrow> [v] | _ \<Rightarrow> []) items))
       (concat (map (\<lambda>x. case x of NiConst c \<Rightarrow> [c] | _ \<Rightarrow> []) items)) False"

definition parse_native_import :: "rules \<Rightarrow> token \<Rightarrow> src_stmt parse" where
  "parse_native_import g start =
     bindp advance_tok (\<lambda>path_t.
     seqp (expect (Kw KwAs))
     (bindp name_tok (\<lambda>alias.
      bindp (import_block g (native_block_item g) (seqp eat_stmt_end (ret []))) (\<lambda>items.
      stmt_node start (native_import (t_value path_t) alias items)))))"

definition module_path :: "rules \<Rightarrow> ustring list parse" where
  "module_path g = bindp name_tok (\<lambda>x. bindp (sep_items (fuel g) (Pn Dot) name_tok) (\<lambda>xs. ret (x # xs)))"

definition parse_import :: "rules \<Rightarrow> src_stmt parse" where
  "parse_import g =
     bindp peek_tok (\<lambda>start.
     seqp (expect (Kw KwImport))
     (bindp peek_tok (\<lambda>t. bindp (peek_at 1) (\<lambda>t1.
      if t_kind t = Lit Identifier \<and> t_value t = cps ''py'' \<and> t_kind t1 = Lit StringTok then
        parse_py_import g start
      else if t_kind t = Lit StringTok then parse_native_import g start
      else
        bindp (module_path g) (\<lambda>module.
        bindp (opt_after (Kw KwAs) name_tok) (\<lambda>alias.
        end_stmt start (SImport module alias)))))))"

definition import_name :: "(ustring \<times> ustring option) parse" where
  "import_name = bindp name_tok (\<lambda>n. bindp (opt_after (Kw KwAs) name_tok) (\<lambda>a. ret (n, a)))"

definition parse_from_import :: "rules \<Rightarrow> src_stmt parse" where
  "parse_from_import g =
     bindp peek_tok (\<lambda>start.
     seqp (expect (Kw KwFrom))
     (bindp (module_path g) (\<lambda>module.
      seqp (expect (Kw KwImport))
      (if_kind (Opr Star)
         (seqp advance_tok (end_stmt start (SFromImport module [] True)))
         (bindp (comma_plus (fuel g) import_name) (\<lambda>names.
            end_stmt start (SFromImport module names False)))))))"

subsection \<open>Simple statements (\<open>stmt/functions.rs\<close>)\<close>

definition parse_return :: "penv \<Rightarrow> rules \<Rightarrow> src_stmt parse" where
  "parse_return u g =
     bindp peek_tok (\<lambda>start.
     seqp (expect (Kw KwReturn))
     (bindp (bindp peek_kind (\<lambda>k.
        if k \<in> {Newline, Pn Semicolon, Eof, Dedent} then ret None
        else bindp (parse_expr u g) (\<lambda>e. ret (Some e)))) (\<lambda>value.
      end_stmt start (SReturn value))))"

definition parse_assert :: "penv \<Rightarrow> rules \<Rightarrow> src_stmt parse" where
  "parse_assert u g =
     bindp peek_tok (\<lambda>start.
     seqp (expect (Kw KwAssert))
     (bindp (parse_expr u g) (\<lambda>test.
      bindp (opt_after (Pn Comma) (parse_expr u g)) (\<lambda>msg.
      end_stmt start (SAssert test msg)))))"

definition parse_type_alias :: "rules \<Rightarrow> src_stmt parse" where
  "parse_type_alias g =
     bindp peek_tok (\<lambda>start.
     seqp advance_tok
     (bindp (expect (Lit Identifier)) (\<lambda>name_t.
      seqp (expect (Opr Equal))
      (bindp (r_type g) (\<lambda>target.
      end_stmt start (STypeAlias (t_value name_t) (tok_span name_t) target))))))"

text \<open>The names of a \<open>let\<close>, with their spans and the place of the starred one.\<close>

primrec let_names :: "nat \<Rightarrow> nat option \<Rightarrow> (ustring \<times> span) list \<Rightarrow> ((ustring \<times> span) list \<times> nat option) parse" where
  "let_names 0 starred names = fail NoFuel"
| "let_names (Suc n) starred names =
     bindp (bindp peek_tok (\<lambda>star_tok.
        if t_kind star_tok = Opr Star then
          seqp advance_tok
            (if starred \<noteq> None then err_at star_tok SecondStarred
             else bindp (expect (Lit Identifier)) (\<lambda>t.
                    ret (t_value t, span_merge (tok_span star_tok) (tok_span t), Some (length names))))
        else bindp (expect (Lit Identifier)) (\<lambda>t. ret (t_value t, tok_span t, starred))))
       (\<lambda>(name, sp, starred').
          if_kind (Pn Comma)
            (seqp advance_tok (let_names n starred' (names @ [(name, sp)])))
            (ret (names @ [(name, sp)], starred')))"

definition value_for :: "penv \<Rightarrow> rules \<Rightarrow> 'a list \<Rightarrow> src_expr parse" where
  "value_for u g names = (if length names > 1 then parse_expr_list u g else parse_expr u g)"

definition parse_let :: "penv \<Rightarrow> rules \<Rightarrow> src_stmt parse" where
  "parse_let u g =
     bindp peek_tok (\<lambda>start.
     seqp (expect (Kw KwLet))
     (bindp (eat_kind (Kw KwMut)) (\<lambda>is_mut.
      bindp (eat_kind (Pn LParen)) (\<lambda>parenthesized.
      bindp (let_names (fuel g) None []) (\<lambda>(names, starred).
      seqp (if parenthesized then seqp (expect (Pn RParen)) (ret ()) else ret ())
      (bindp (opt_after (Pn Colon) (r_type g)) (\<lambda>type_ann.
       seqp (expect (Opr Equal))
       (bindp (value_for u g names) (\<lambda>value.
        end_stmt start
          (case names of
             [(name, sp)] \<Rightarrow> SLet name sp type_ann value is_mut
           | _ \<Rightarrow> SMultiLet (map fst names) (map snd names) type_ann value is_mut starred)))))))))) "

definition parse_const :: "penv \<Rightarrow> rules \<Rightarrow> src_stmt parse" where
  "parse_const u g =
     bindp peek_tok (\<lambda>start.
     seqp (expect (Kw KwConst))
     (bindp for_name (\<lambda>x.
      bindp (sep_items (fuel g) (Pn Comma) for_name) (\<lambda>xs.
      bindp (opt_after (Pn Colon) (r_type g)) (\<lambda>type_ann.
      seqp (expect (Opr Equal))
      (bindp (value_for u g (x # xs)) (\<lambda>value.
       end_stmt start
         (if xs = [] then SConst (fst x) (snd x) type_ann value
          else SMultiConst (map fst (x # xs)) (map snd (x # xs)) type_ann value))))))))"

subsection \<open>Assignments and expressions (\<open>stmt/mod.rs\<close>)\<close>

definition is_star_name :: "src_expr \<Rightarrow> bool" where
  "is_star_name e =
     (case x_kind e of XDeref inner \<Rightarrow> (case x_kind inner of XIdentifier _ \<Rightarrow> True | _ \<Rightarrow> False) | _ \<Rightarrow> False)"

definition star_elem :: "src_expr \<Rightarrow> src_expr" where
  "star_elem e = (if is_star_name e then (case x_kind e of XDeref inner \<Rightarrow> Expr (XStarred inner) (x_span e) | _ \<Rightarrow> e) else e)"

definition rewrite_starred_targets :: "token \<Rightarrow> src_expr \<Rightarrow> src_expr parse" where
  "rewrite_starred_targets err_tok lhs =
     (case x_kind lhs of
        XTuple elems \<Rightarrow>
          (case filter is_star_name elems of
             _ # e2 # _ \<Rightarrow> fail (Failed \<lparr>pe_kind = SecondStarred, pe_line = t_line err_tok, pe_col = t_col err_tok,
                              pe_start = sp_start (x_span e2), pe_end = sp_end (x_span e2)\<rparr>)
           | _ \<Rightarrow> ret (Expr (XTuple (map star_elem elems)) (x_span lhs)))
      | _ \<Rightarrow> ret lhs)"

definition target_error :: "token \<Rightarrow> src_expr \<Rightarrow> parse_error_kind \<Rightarrow> 'a parse" where
  "target_error op_tok lhs k =
     fail (Failed \<lparr>pe_kind = k, pe_line = t_line op_tok, pe_col = t_col op_tok,
                   pe_start = sp_start (x_span lhs), pe_end = sp_end (x_span lhs)\<rparr>)"

definition aug_op_of :: "token_kind \<Rightarrow> aug_op option" where
  "aug_op_of k =
     map_of [(Opr PlusEqual, AugAdd), (Opr MinusEqual, AugSub), (Opr StarEqual, AugMul),
       (Opr SlashEqual, AugDiv), (Opr PercentEqual, AugMod), (Opr DoubleStarEqual, AugPow),
       (Opr ShlEqual, AugShl), (Opr ShrEqual, AugShr), (Opr PipeEqual, AugBitOr),
       (Opr AmpersandEqual, AugBitAnd), (Opr CaretEqual, AugBitXor)] k"

definition parse_expr_or_assign :: "penv \<Rightarrow> rules \<Rightarrow> src_stmt parse" where
  "parse_expr_or_assign u g =
     bindp peek_tok (\<lambda>start.
     bindp (bindp (parse_expr_list u g) (rewrite_starred_targets start)) (\<lambda>lhs.
     bindp peek_tok (\<lambda>op_tok.
     if t_kind op_tok = Opr Equal then
       (if \<not> is_valid_assign_target lhs then target_error op_tok lhs InvalidTarget
        else seqp advance_tok (bindp (parse_expr_list u g) (\<lambda>value. end_stmt start (SAssign lhs value))))
     else
       (case aug_op_of (t_kind op_tok) of
          Some op \<Rightarrow>
            (if \<not> is_valid_assign_target lhs then target_error op_tok lhs InvalidAugTarget
             else seqp advance_tok (bindp (parse_expr u g) (\<lambda>value. end_stmt start (SAugAssign lhs op value))))
        | None \<Rightarrow> seqp eat_stmt_end (ret (Stmt (SExprStmt lhs) (x_span lhs)))))))"

text \<open>Type parameters; the bound of one is read and dropped.\<close>

definition type_param :: "rules \<Rightarrow> ustring parse" where
  "type_param g = bindp name_tok (\<lambda>n. seqp (opt_after (Pn Colon) (r_type g)) (ret n))"

definition parse_type_params :: "rules \<Rightarrow> ustring list parse" where
  "parse_type_params g =
     if_kind (Pn LBracket)
       (seqp advance_tok (bindp (comma_list (fuel g) (Pn RBracket) (type_param g)) (\<lambda>ps.
          seqp (expect (Pn RBracket)) (ret ps))))
       (ret [])"

definition parse_unsafe_stmt :: "rules \<Rightarrow> src_stmt parse" where
  "parse_unsafe_stmt g =
     bindp peek_tok (\<lambda>start.
     seqp advance_tok
     (if_kind (Pn Colon)
        (bindp (parse_block g) (\<lambda>body. stmt_node start (SUnsafeBlock body)))
        (fail_here ExpectedAfterUnsafe)))"

definition parse_defer :: "penv \<Rightarrow> rules \<Rightarrow> src_stmt parse" where
  "parse_defer u g =
     bindp peek_tok (\<lambda>start.
     seqp advance_tok
     (bindp (parse_expr u g) (\<lambda>e. end_stmt start (SDefer e))))"

subsection \<open>Declarations (\<open>decls.rs\<close>)\<close>

definition parse_fn :: "rules \<Rightarrow> bool \<Rightarrow> src_stmt parse" where
  "parse_fn g is_async_fn =
     bindp peek_tok (\<lambda>start.
     seqp (expect (Kw KwFn))
     (bindp name_tok (\<lambda>name.
      bindp (parse_type_params g) (\<lambda>type_params.
      seqp (expect (Pn LParen))
      (bindp (parse_params g) (\<lambda>params.
       seqp (expect (Pn RParen))
       (bindp (opt_after (Pn Arrow) (r_type g)) (\<lambda>return_type.
        bindp (parse_block g) (\<lambda>body.
        stmt_node start (SFn name type_params params return_type body [] is_async_fn))))))))))"

definition parse_async_stmt :: "rules \<Rightarrow> src_stmt parse" where
  "parse_async_stmt g =
     bindp peek_tok (\<lambda>start.
     seqp advance_tok
     (bindp peek_kind (\<lambda>k.
      if k = Kw KwFn then parse_fn g True
      else if k = Pn Colon then
        bindp (parse_block g) (\<lambda>body.
        bindp (span_from start) (\<lambda>sp.
        ret (Stmt (SExprStmt (Expr (XAsyncBlock body) sp)) sp)))
      else fail_here ExpectedAfterAsync)))"

definition parse_struct_field :: "penv \<Rightarrow> rules \<Rightarrow> param parse" where
  "parse_struct_field u g =
     bindp peek_tok (\<lambda>start.
     bindp name_tok (\<lambda>name.
     seqp (expect (Pn Colon))
     (bindp (r_type g) (\<lambda>ty.
      bindp (opt_after (Opr Equal) (parse_expr u g)) (\<lambda>dflt.
      seqp eat_stmt_end
      (bindp (span_from start) (\<lambda>sp.
       ret (Param name (Some ty) dflt RegularParam False sp))))))))"

definition struct_item :: "penv \<Rightarrow> rules \<Rightarrow> (param + src_stmt) parse" where
  "struct_item u g =
     (\<lambda>p. bindp peek_kind (\<lambda>k.
        if k = Lit Identifier \<and> ppos p + 1 < length (tokens p) \<and> t_kind (tokens p ! (ppos p + 1)) = Pn Colon
        then bindp (parse_struct_field u g) (\<lambda>f. ret (Inl f))
        else bindp (r_stmt g) (\<lambda>s. ret (Inr s))) p)"

text \<open>\<open>NEWLINE INDENT items DEDENT\<close> after a colon, or the end of the statement.\<close>

definition decl_block :: "rules \<Rightarrow> 'a parse \<Rightarrow> 'a list parse" where
  "decl_block g item =
     if_kind Newline
       (seqp advance_tok (seqp (expect Indent) (seqp skip_newlines
         (bindp (block_items (fuel g) item) (\<lambda>items. seqp (expect Dedent) (ret items))))))
       (seqp eat_stmt_end (ret []))"

definition parse_struct :: "penv \<Rightarrow> rules \<Rightarrow> src_stmt parse" where
  "parse_struct u g =
     bindp peek_tok (\<lambda>start.
     seqp (expect (Kw KwStruct))
     (bindp name_tok (\<lambda>name.
      bindp (parse_type_params g) (\<lambda>type_params.
      seqp (expect (Pn Colon))
      (bindp (decl_block g (struct_item u g)) (\<lambda>items.
       stmt_node start (SStruct name type_params (lefts items) (rights items) [])))))))"

definition upper_args :: "penv \<Rightarrow> type_expr \<Rightarrow> ustring list" where
  "upper_args u ty =
     (case te_kind ty of
        TeGeneric _ args \<Rightarrow>
          concat (map (\<lambda>a. case te_kind a of
              TeName n \<Rightarrow> if n \<noteq> [] \<and> is_uppercase u (hd n) then [n] else []
            | _ \<Rightarrow> []) args)
      | _ \<Rightarrow> [])"

definition parse_impl :: "penv \<Rightarrow> rules \<Rightarrow> src_stmt parse" where
  "parse_impl u g =
     bindp peek_tok (\<lambda>start.
     seqp (expect (Kw KwImpl))
     (bindp (parse_type_params g) (\<lambda>given.
      bindp (r_type g) (\<lambda>first_ty.
      bindp (opt_after (Kw KwFor) (r_type g)) (\<lambda>for_ty.
      let trait_name = (if for_ty = None then None else Some first_ty);
          type_name = (case for_ty of Some ty \<Rightarrow> ty | None \<Rightarrow> first_ty);
          type_params = (if given = [] then upper_args u type_name else given)
      in bindp (parse_block g) (\<lambda>body.
         stmt_node start (SImpl type_params trait_name type_name body)))))))"

definition is_fn_stmt :: "src_stmt \<Rightarrow> bool" where
  "is_fn_stmt s = (case s_kind s of SFn _ _ _ _ _ _ _ \<Rightarrow> True | _ \<Rightarrow> False)"

definition is_pass_stmt :: "src_stmt \<Rightarrow> bool" where
  "is_pass_stmt s = (case s_kind s of SPass \<Rightarrow> True | _ \<Rightarrow> False)"

definition parse_trait :: "rules \<Rightarrow> src_stmt parse" where
  "parse_trait g =
     bindp peek_tok (\<lambda>start.
     seqp (expect (Kw KwTrait))
     (bindp name_tok (\<lambda>name.
      bindp (parse_type_params g) (\<lambda>type_params.
      bindp (parse_block g) (\<lambda>raw_body.
      if \<not> list_all (\<lambda>s. is_fn_stmt s \<or> is_pass_stmt s) raw_body then err_at start ExpectedInTrait
      else stmt_node start (STrait name type_params (filter is_fn_stmt raw_body)))))))"

definition parse_variant :: "penv \<Rightarrow> rules \<Rightarrow> enum_variant parse" where
  "parse_variant u g =
     bindp name_tok (\<lambda>name.
     bindp (if_kind (Pn LParen)
        (seqp advance_tok (bindp (comma_list (fuel g) (Pn RParen) (r_type g)) (\<lambda>tys.
           seqp (expect (Pn RParen)) (ret tys))))
        (ret [])) (\<lambda>types.
     bindp (opt_after (Opr Equal) (parse_expr u g)) (\<lambda>value.
     bindp peek_tok (\<lambda>t.
     if t_kind t = Pn Comma then seqp advance_tok (ret (EnumVariant name types value))
     else if t_kind t \<notin> {Newline, Dedent, Eof} then err_at t ExpectedAfterVariant
     else ret (EnumVariant name types value)))))"

definition enum_item :: "penv \<Rightarrow> rules \<Rightarrow> (enum_variant + src_stmt) parse" where
  "enum_item u g =
     if_kind (Kw KwFn) (bindp (r_stmt g) (\<lambda>s. ret (Inr s))) (bindp (parse_variant u g) (\<lambda>v. ret (Inl v)))"

definition parse_enum :: "penv \<Rightarrow> rules \<Rightarrow> src_stmt parse" where
  "parse_enum u g =
     bindp peek_tok (\<lambda>start.
     seqp (expect (Kw KwEnum))
     (bindp name_tok (\<lambda>name.
      bindp (parse_type_params g) (\<lambda>type_params.
      seqp (expect (Pn Colon))
      (bindp (decl_block g (enum_item u g)) (\<lambda>items.
       stmt_node start (SEnum name type_params (lefts items) (rights items) [])))))))"

subsection \<open>Decorators\<close>

text \<open>\<open>#[a, b]\<close> after the bracket; a missing closing bracket is reported by the name that is expected.\<close>

primrec directive_names :: "nat \<Rightarrow> decorator list parse" where
  "directive_names 0 = fail NoFuel"
| "directive_names (Suc n) =
     if_kind (Pn RBracket) (ret [])
       (bindp (name_decorator True) (\<lambda>d.
        bindp peek_tok (\<lambda>t.
        if t_kind t = Pn Comma then seqp advance_tok (bindp (directive_names n) (\<lambda>ds. ret (d # ds)))
        else if t_kind t = Pn RBracket then ret [d]
        else err_at t (BadDirective (t_kind t)))))"

primrec decorator_lines :: "nat \<Rightarrow> rules \<Rightarrow> decorator list parse" where
  "decorator_lines 0 g = fail NoFuel"
| "decorator_lines (Suc n) g = bindp peek_kind (\<lambda>k.
     if k = Pn AtSign \<or> k = Pn Hash then
       bindp
         (if k = Pn AtSign then seqp advance_tok (bindp (name_decorator False) (\<lambda>d. ret [d]))
          else seqp advance_tok (seqp (expect (Pn LBracket))
                 (bindp (directive_names (fuel g)) (\<lambda>ds. seqp (expect (Pn RBracket)) (ret ds)))))
         (\<lambda>ds. seqp skip_newlines (bindp (decorator_lines n g) (\<lambda>more. ret (ds @ more))))
     else ret [])"

definition with_decorators :: "decorator list \<Rightarrow> src_stmt \<Rightarrow> src_stmt parse" where
  "with_decorators ds s =
     (case s_kind s of
        SFn a b c d e _ f \<Rightarrow> ret (Stmt (SFn a b c d e ds f) (s_span s))
      | SStruct a b c d _ \<Rightarrow> ret (Stmt (SStruct a b c d ds) (s_span s))
      | SEnum a b c d _ \<Rightarrow> ret (Stmt (SEnum a b c d ds) (s_span s))
      | SNativeImport a b c d e f safe \<Rightarrow>
          (case List.find (\<lambda>d. dc_name d \<noteq> cps ''safe'') ds of
             Some d \<Rightarrow> fail_here (UnknownImportDecorator (dc_name d))
           | None \<Rightarrow> ret (Stmt (SNativeImport a b c d e f (safe \<or> ds \<noteq> [])) (s_span s)))
      | _ \<Rightarrow> if ds \<noteq> [] then fail_here MisplacedDecorators else ret s)"

definition parse_decorated :: "rules \<Rightarrow> src_stmt parse" where
  "parse_decorated g =
     bindp (decorator_lines (fuel g) g) (\<lambda>ds.
     bindp peek_kind (\<lambda>k. (\<lambda>p.
       if k = Kw KwAsync \<and> ppos p + 1 < length (tokens p) \<and> t_kind (tokens p ! (ppos p + 1)) = Kw KwFn then
         seqp advance_tok (bindp (parse_fn g True) (\<lambda>s.
           case s_kind s of
             SFn a b c d e _ f \<Rightarrow> ret (Stmt (SFn a b c d e ds f) (s_span s))
           | _ \<Rightarrow> ret s)) p
       else bindp (r_stmt g) (with_decorators ds) p)))"

subsection \<open>Statements, and the rules tied together\<close>

definition keyword_stmt :: "stmt_kind \<Rightarrow> src_stmt parse" where
  "keyword_stmt k = bindp advance_tok (\<lambda>s. end_stmt s k)"

definition parse_stmt_inner :: "penv \<Rightarrow> rules \<Rightarrow> src_stmt parse" where
  "parse_stmt_inner u g = bindp peek_tok (\<lambda>t. bindp (peek_at 1) (\<lambda>t1. bindp (peek_at 2) (\<lambda>t2.
     case t_kind t of
       Kw KwFn \<Rightarrow> parse_fn g False
     | Kw KwAsync \<Rightarrow> parse_async_stmt g
     | Kw KwStruct \<Rightarrow> parse_struct u g
     | Kw KwImpl \<Rightarrow> parse_impl u g
     | Kw KwTrait \<Rightarrow> parse_trait g
     | Kw KwEnum \<Rightarrow> parse_enum u g
     | Kw KwIf \<Rightarrow> parse_if u g
     | Kw KwWhile \<Rightarrow> parse_while u g
     | Kw KwFor \<Rightarrow> parse_for u g
     | Kw KwReturn \<Rightarrow> parse_return u g
     | Kw KwAssert \<Rightarrow> parse_assert u g
     | Kw KwImport \<Rightarrow> parse_import g
     | Kw KwFrom \<Rightarrow> parse_from_import g
     | Kw KwLet \<Rightarrow> parse_let u g
     | Kw KwConst \<Rightarrow> parse_const u g
     | Lit Identifier \<Rightarrow>
         if t_value t = cps ''type'' \<and> t_kind t1 = Lit Identifier \<and> t_kind t2 = Opr Equal
         then parse_type_alias g else parse_expr_or_assign u g
     | Pn AtSign \<Rightarrow> parse_decorated g
     | Pn Hash \<Rightarrow> parse_decorated g
     | Kw KwUnsafe \<Rightarrow> parse_unsafe_stmt g
     | Kw KwDefer \<Rightarrow> parse_defer u g
     | Kw KwWith \<Rightarrow> parse_with u g
     | Kw KwPass \<Rightarrow> keyword_stmt SPass
     | Kw KwBreak \<Rightarrow> keyword_stmt SBreak
     | Kw KwContinue \<Rightarrow> keyword_stmt SContinue
     | _ \<Rightarrow> parse_expr_or_assign u g)))"

definition parse_stmt :: "penv \<Rightarrow> rules \<Rightarrow> src_stmt parse" where
  "parse_stmt u g p =
     (if depth p \<ge> max_nesting_depth then fail_here BlockNestedTooDeeply p
      else (case parse_stmt_inner u g (p\<lparr>depth := depth p + 1\<rparr>) of
              Inl e \<Rightarrow> Inl e
            | Inr (s, q) \<Rightarrow> Inr (s, q\<lparr>depth := depth q - 1\<rparr>)))"

text \<open>The rules with \<open>n\<close> levels of recursion below them.\<close>

primrec grammar :: "penv \<Rightarrow> nat \<Rightarrow> rules" where
  "grammar u 0 = no_rules"
| "grammar u (Suc n) =
     \<lparr>fuel = Suc n,
      r_type = parse_type_expr (grammar u n),
      r_single_type = parse_single_type_expr (grammar u n),
      r_expr = parse_expr u (grammar u n),
      r_range = parse_range u (grammar u n),
      r_or = parse_or u (grammar u n),
      r_not = parse_not u (grammar u n),
      r_unary = parse_unary u (grammar u n),
      r_pattern = parse_pattern u (grammar u n),
      r_stmt = parse_stmt u (grammar u n)\<rparr>"

text \<open>The statements up to the end of the file.\<close>

primrec program_items :: "nat \<Rightarrow> src_stmt parse \<Rightarrow> src_stmt list parse" where
  "program_items 0 item = fail NoFuel"
| "program_items (Suc n) item =
     if_kind Eof (ret [])
       (bindp item (\<lambda>s. seqp skip_newlines (bindp (program_items n item) (\<lambda>ss. ret (s # ss)))))"

definition parse_program :: "penv \<Rightarrow> nat \<Rightarrow> program parse" where
  "parse_program u n =
     seqp skip_newlines (program_items n (parse_stmt u (grammar u n)))"

text \<open>
  The expressions of f-strings: the lexer and the parser again, with a bound on how often an f-string
  is inside the expression of another.
\<close>

definition nested_failure :: "failure \<Rightarrow> failure" where
  "nested_failure e =
     (case e of Failed pe \<Rightarrow> Failed (pe\<lparr>pe_kind := FStringParseError (pe_kind pe)\<rparr>) | _ \<Rightarrow> e)"

definition lex_failure :: "lex_fault \<Rightarrow> failure" where
  "lex_failure f =
     (case f of
        LexErr e \<Rightarrow> Failed \<lparr>pe_kind = FStringLexError (le_kind e), pe_line = le_line e, pe_col = le_col e,
                            pe_start = le_start e, pe_end = le_end e\<rparr>
      | LexPanic \<Rightarrow> Panic)"

primrec parse_embedded :: "penv \<Rightarrow> nat \<Rightarrow> ustring \<Rightarrow> nat \<Rightarrow> failure + src_expr" where
  "parse_embedded u 0 s fid = Inl NoFuel"
| "parse_embedded u (Suc k) s fid =
     (case tokenise (unicode.truncate u) (lexer_new s fid) of
        Inl e \<Rightarrow> Inl (lex_failure e)
      | Inr (ts, _) \<Rightarrow>
          (case parse_expr (u\<lparr>embedded := parse_embedded u k\<rparr>)
                  (grammar (u\<lparr>embedded := parse_embedded u k\<rparr>) (length ts)) (parser_new ts) of
             Inl e \<Rightarrow> Inl (nested_failure e)
           | Inr (e, _) \<Rightarrow> Inr e))"

text \<open>The parser on the tokens of a file, with the bounds that are enough.\<close>

definition parse_tokens :: "penv \<Rightarrow> nat \<Rightarrow> token list \<Rightarrow> failure + program" where
  "parse_tokens u k ts =
     (case parse_program (u\<lparr>embedded := parse_embedded u k\<rparr>) (length ts) (parser_new ts) of
        Inl e \<Rightarrow> Inl e
      | Inr (prog, _) \<Rightarrow> Inr prog)"

end
