(* ===== verification/ParserLogic.thy ===== *)
theory ParserLogic
  imports StmtParser
begin

text \<open>
  A logic for the parser: what a rule does from a state whose next token is of one of the kinds \<open>K\<close>
  and of which at most \<open>n\<close> tokens are left. It never panics and never runs out of fuel, keeps the
  state well formed, never gives a token back, and reads at least one when it is \<open>strict\<close>.
\<close>

named_theorems okp_rules "the rules of the parser's logic"

definition left_of :: "parser \<Rightarrow> nat" where
  "left_of p = length (tokens p) - ppos p"

text \<open>The text of an f-string is at most \<open>m\<close> characters long; the last token is the end of the file.\<close>

definition parser_wf :: "nat \<Rightarrow> parser \<Rightarrow> bool" where
  "parser_wf m p \<longleftrightarrow>
     ppos p < length (tokens p) \<and> t_kind (last (tokens p)) = Eof \<and>
     (\<forall>t\<in>set (tokens p). t_kind t = Lit FString \<longrightarrow> length (t_value t) \<le> m)"

definition next_kind :: "parser \<Rightarrow> token_kind" where
  "next_kind p = t_kind (tokens p ! ppos p)"

definition result_ok :: "nat \<Rightarrow> ('a \<Rightarrow> bool) \<Rightarrow> parser \<Rightarrow> failure + 'a \<times> parser \<Rightarrow> bool" where
  "result_ok m C p r =
     (case r of
        Inr (x, q) \<Rightarrow> parser_wf m q \<and> (if C x then left_of q < left_of p else left_of q \<le> left_of p)
      | Inl (Failed _) \<Rightarrow> True
      | Inl _ \<Rightarrow> False)"

definition okr :: "nat \<Rightarrow> token_kind set \<Rightarrow> nat \<Rightarrow> ('a \<Rightarrow> bool) \<Rightarrow> 'a parse \<Rightarrow> bool" where
  "okr m K n C f \<longleftrightarrow>
     (\<forall>p. parser_wf m p \<longrightarrow> next_kind p \<in> K \<longrightarrow> left_of p \<le> n \<longrightarrow> result_ok m C p (f p))"

abbreviation okp :: "nat \<Rightarrow> token_kind set \<Rightarrow> nat \<Rightarrow> bool \<Rightarrow> 'a parse \<Rightarrow> bool" where
  "okp m K n strict \<equiv> okr m K n (\<lambda>_. strict)"

lemma okrD:
  assumes "okr m K n C f" "parser_wf m p" "next_kind p \<in> K" "left_of p \<le> n"
  shows "result_ok m C p (f p)"
  using assms by (simp add: okr_def)

lemma left_pos: "parser_wf m p \<Longrightarrow> 0 < left_of p"
  by (simp add: parser_wf_def left_of_def)

lemma okp_weaken: "okp m K n True f \<Longrightarrow> okp m K n c f"
  unfolding okr_def result_ok_def by (cases c) (fastforce split: sum.splits failure.splits)+

lemma okp_any: "okp m UNIV n True f \<Longrightarrow> n' \<le> n \<Longrightarrow> okp m K n' c f"
  by (rule okp_weaken) (auto simp: okr_def)

lemma okp_same: "okp m UNIV n True f \<Longrightarrow> okp m K n c f"
  by (rule okp_any [OF _ le_refl])

lemma okr_le: "okr m K n C f \<Longrightarrow> n' \<le> n \<Longrightarrow> K' \<subseteq> K \<Longrightarrow> okr m K' n' C f"
  unfolding okr_def by (meson order_trans subsetD)

lemma okr_univ: "okr m UNIV n C f \<Longrightarrow> okr m K n C f"
  by (erule okr_le) auto

text \<open>With no token left but the last one, only the end of the file can come next.\<close>

lemma okr_end: "Eof \<notin> K \<Longrightarrow> n \<le> 1 \<Longrightarrow> okr m K n C f"
proof -
  assume a: "Eof \<notin> K" "n \<le> 1"
  have "next_kind p = Eof" if "parser_wf m p" "left_of p \<le> n" for p
  proof -
    have "ppos p = length (tokens p) - 1" "tokens p \<noteq> []"
      using that a(2) by (auto simp: parser_wf_def left_of_def)
    then show ?thesis using that(1) by (simp add: next_kind_def parser_wf_def last_conv_nth)
  qed
  with a(1) show ?thesis by (auto simp: okr_def)
qed

lemma okr_zero: "okr m K 0 C f"
  using left_pos by (fastforce simp: okr_def)

subsection \<open>Sequences\<close>

lemma okr_bind:
  assumes f: "okr m K n C f"
    and g: "\<And>x. C x \<Longrightarrow> okp m UNIV (n - 1) False (g x)" "\<And>x. \<not> C x \<Longrightarrow> okr m UNIV n D (g x)"
  shows "okr m K n D (bindp f g)"
  unfolding okr_def
proof (intro allI impI)
  fix p assume p: "parser_wf m p" "next_kind p \<in> K" "left_of p \<le> n"
  note r = okrD [OF f p]
  show "result_ok m D p (bindp f g p)"
  proof (cases "f p")
    case (Inl e)
    with r show ?thesis by (simp add: bindp_def result_ok_def)
  next
    case (Inr y)
    obtain x q where y: "y = (x, q)" by (cases y)
    show ?thesis
    proof (cases "C x")
      case True
      then have q: "parser_wf m q" "left_of q < left_of p" using r Inr y by (simp_all add: result_ok_def)
      have "result_ok m (\<lambda>_. False) q (g x q)"
        by (rule okrD [OF g(1) [OF True] q(1)]) (use q(2) p(3) in auto)
      then show ?thesis using Inr y q(2)
        by (auto simp: bindp_def result_ok_def split: sum.splits failure.splits)
    next
      case False
      then have q: "parser_wf m q" "left_of q \<le> left_of p" using r Inr y by (simp_all add: result_ok_def)
      have "result_ok m D q (g x q)" by (rule okrD [OF g(2) [OF False] q(1)]) (use q(2) p(3) in auto)
      then show ?thesis using Inr y q(2)
        by (auto simp: bindp_def result_ok_def split: sum.splits failure.splits)
    qed
  qed
qed

lemma okp_bind_loose [okp_rules]:
  "okp m K n False f \<Longrightarrow> (\<And>x. okr m UNIV n D (g x)) \<Longrightarrow> okr m K n D (bindp f g)"
  by (rule okr_bind [where C = "\<lambda>_. False"]) auto

lemma okp_bind_strict [okp_rules]:
  "okp m K n True f \<Longrightarrow> (\<And>x. okp m UNIV (n - 1) False (g x)) \<Longrightarrow> okr m K n D (bindp f g)"
  by (rule okr_bind [where C = "\<lambda>_. True"]) auto

declare seqp_def [okp_rules]

lemma okr_prod [okp_rules]: "(\<And>a b. okr m K n C (f a b)) \<Longrightarrow> okr m K n C (case x of (a, b) \<Rightarrow> f a b)"
  by (cases x) simp

lemma okr_option [okp_rules]:
  "(x = None \<Longrightarrow> okr m K n C z) \<Longrightarrow> (\<And>y. x = Some y \<Longrightarrow> okr m K n C (f y)) \<Longrightarrow>
     okr m K n C (case x of None \<Rightarrow> z | Some y \<Rightarrow> f y)"
  by (cases x) simp_all

lemma okr_ret [okp_rules]: "\<not> C x \<Longrightarrow> okr m K n C (ret x)"
  by (simp add: okr_def result_ok_def ret_def)

lemma okr_fail [okp_rules]: "okr m K n C (fail (Failed e))"
  by (simp add: okr_def result_ok_def fail_def)

lemma okr_err_at [okp_rules]: "okr m K n C (err_at t k)"
  by (simp add: err_at_def okr_fail)

subsection \<open>Reading tokens\<close>

lemma peek_tok_run: "parser_wf m p \<Longrightarrow> peek_tok p = Inr (tokens p ! ppos p, p)"
  by (simp add: peek_tok_def idx_def parser_wf_def)

lemma okr_peek_tok [okp_rules]:
  "(\<And>t. t_kind t \<in> K \<Longrightarrow> okr m {t_kind t} n C (g t)) \<Longrightarrow> okr m K n C (bindp peek_tok g)"
  unfolding okr_def by (auto simp: bindp_def peek_tok_run next_kind_def)

lemma okr_peek_value:
  "(\<And>t. t_kind t \<in> K \<Longrightarrow> (t_kind t = Lit FString \<Longrightarrow> length (t_value t) \<le> m) \<Longrightarrow> okr m {t_kind t} n C (g t)) \<Longrightarrow>
     okr m K n C (bindp peek_tok g)"
  unfolding okr_def by (auto simp: bindp_def peek_tok_run next_kind_def parser_wf_def)

lemma okr_peek_kind [okp_rules]:
  "(\<And>k. k \<in> K \<Longrightarrow> okr m {k} n C (g k)) \<Longrightarrow> okr m K n C (bindp peek_kind g)"
  unfolding okr_def by (auto simp: peek_kind_def bindp_def peek_tok_run next_kind_def ret_def)

lemma okr_peek_at [okp_rules]:
  "(\<And>t. okr m K n C (g t)) \<Longrightarrow> okr m K n C (bindp (peek_at i) g)"
  unfolding okr_def
  by (auto simp: peek_at_def bindp_def parser_wf_def split: option.splits)

lemma step_wf:
  assumes "parser_wf m p" "next_kind p \<noteq> Eof"
  shows "parser_wf m (p\<lparr>ppos := Suc (ppos p)\<rparr>)" "left_of (p\<lparr>ppos := Suc (ppos p)\<rparr>) < left_of p"
proof -
  have "tokens p \<noteq> []" using assms(1) by (auto simp: parser_wf_def)
  then have "ppos p \<noteq> length (tokens p) - 1"
    using assms by (auto simp: parser_wf_def next_kind_def last_conv_nth)
  then show "parser_wf m (p\<lparr>ppos := Suc (ppos p)\<rparr>)" "left_of (p\<lparr>ppos := Suc (ppos p)\<rparr>) < left_of p"
    using assms(1) by (auto simp: parser_wf_def left_of_def)
qed

lemma okp_advance [okp_rules]: "Eof \<notin> K \<Longrightarrow> okp m K n True advance_tok"
  unfolding okr_def
  by (auto simp: advance_tok_def bindp_def peek_tok_run seqp_def step_pos_def ret_def result_ok_def
      next_kind_def dest: step_wf)

lemma okp_advance_loose [okp_rules]: "okp m K n False advance_tok"
  unfolding okr_def
  by (auto simp: advance_tok_def bindp_def peek_tok_run seqp_def step_pos_def ret_def result_ok_def
      next_kind_def dest: step_wf less_imp_le)

lemma okp_expect [okp_rules]: "k \<noteq> Eof \<Longrightarrow> okp m K n c (expect k)"
  unfolding okr_def
  by (cases c) (auto simp: expect_def bindp_def peek_tok_run seqp_def step_pos_def ret_def result_ok_def
      next_kind_def err_at_def fail_def dest: step_wf less_imp_le)

lemma okp_name [okp_rules]: "okp m K n c name_tok"
  by (rule okp_same) (simp add: name_tok_def okp_rules)

lemma okp_eat_stmt_end [okp_rules]: "okp m K n False eat_stmt_end"
  unfolding okr_def
  by (auto simp: eat_stmt_end_def bindp_def peek_tok_run step_pos_def ret_def result_ok_def
      next_kind_def err_at_def fail_def dest: step_wf less_imp_le)

lemma newlines_bound:
  assumes "parser_wf m p"
  shows "ppos p + newlines_at (tokens p) (ppos p) < length (tokens p)"
proof -
  let ?ts = "drop (ppos p) (tokens p)" and ?P = "\<lambda>t. t_kind t = Newline"
  have ne: "?ts \<noteq> []" "last ?ts = last (tokens p)" using assms by (auto simp: parser_wf_def)
  have "last ?ts \<in> set ?ts" by (rule last_in_set [OF ne(1)])
  moreover have "\<not> ?P (last ?ts)" using ne(2) assms by (simp add: parser_wf_def)
  ultimately have "takeWhile ?P ?ts \<noteq> ?ts" by (auto simp: takeWhile_eq_all_conv)
  then have "dropWhile ?P ?ts \<noteq> []" using takeWhile_dropWhile_id [of ?P ?ts] by auto
  then have "length (takeWhile ?P ?ts) < length ?ts"
    using arg_cong [OF takeWhile_dropWhile_id [of ?P ?ts], of length] by (cases "dropWhile ?P ?ts") auto
  then show ?thesis by (simp add: newlines_at_def)
qed

lemma okp_skip_newlines [okp_rules]: "okp m K n False skip_newlines"
  unfolding okr_def
proof (intro allI impI)
  fix p assume p: "parser_wf m p"
  have "parser_wf m (p\<lparr>ppos := ppos p + newlines_at (tokens p) (ppos p)\<rparr>)"
    using p newlines_bound [OF p] by (simp add: parser_wf_def)
  then show "result_ok m (\<lambda>_. False) p (skip_newlines p)"
    using newlines_bound [OF p] by (simp add: skip_newlines_def Let_def result_ok_def left_of_def)
qed

lemma last_solid_le: "last_solid ts i \<le> i"
  by (induction ts i rule: last_solid.induct) auto

lemma span_run:
  assumes "parser_wf m p"
  shows "\<exists>sp. span_from t p = Inr (sp, p)"
proof -
  have "last_solid (tokens p) (ppos p) \<le> ppos p" "ppos p < length (tokens p)"
    using assms by (auto simp: last_solid_le parser_wf_def)
  then have "last_solid (tokens p) (ppos p) - 1 < length (tokens p)" by linarith
  then obtain ta where "idx (tokens p) (last_solid (tokens p) (ppos p) - 1) = Some ta" by (simp add: idx_def)
  then show ?thesis by (cases "last_solid (tokens p) (ppos p) > 0") (auto simp: span_from_def Let_def)
qed

lemma okr_span_from [okp_rules]:
  assumes "\<And>sp. okr m K n C (g sp)"
  shows "okr m K n C (bindp (span_from t) g)"
  unfolding okr_def
proof (intro allI impI)
  fix p assume p: "parser_wf m p" "next_kind p \<in> K" "left_of p \<le> n"
  obtain sp where "span_from t p = Inr (sp, p)" using span_run [OF p(1)] by blast
  with okrD [OF assms p] show "result_ok m C p (bindp (span_from t) g p)" by (simp add: bindp_def)
qed

lemma okr_nested:
  assumes "okr m K n C f" "okr m K n C z"
  shows "okr m K n C (\<lambda>p. if depth p \<ge> max_nesting_depth then z p
           else case f (p\<lparr>depth := depth p + 1\<rparr>) of
                  Inl e \<Rightarrow> Inl e
                | Inr (x, q) \<Rightarrow> Inr (x, q\<lparr>depth := depth q - 1\<rparr>))"
  unfolding okr_def
proof (intro allI impI)
  fix p assume p: "parser_wf m p" "next_kind p \<in> K" "left_of p \<le> n"
  let ?q = "p\<lparr>depth := depth p + 1\<rparr>"
  have "result_ok m C ?q (f ?q)"
    by (rule okrD [OF assms(1)]) (use p in \<open>simp_all add: parser_wf_def next_kind_def left_of_def\<close>)
  then show "result_ok m C p (if depth p \<ge> max_nesting_depth then z p
      else case f ?q of Inl e \<Rightarrow> Inl e | Inr (x, q) \<Rightarrow> Inr (x, q\<lparr>depth := depth q - 1\<rparr>))"
    using okrD [OF assms(2) p]
    by (auto simp: result_ok_def parser_wf_def left_of_def split: sum.splits failure.splits if_splits)
qed

lemma okr_enter_nested [okp_rules]: "okr m K n C f \<Longrightarrow> okr m K n C (enter_nested f)"
  using okr_nested [of m K n C f "bindp peek_tok (\<lambda>t. err_at t NestedTooDeeply)"]
  by (simp add: enter_nested_def [abs_def] okp_rules cong: if_cong)

lemma okr_choice [okp_rules]:
  "okr m K n C f \<Longrightarrow> okr m K n C g \<Longrightarrow> okr m K n C (\<lambda>p. if b p then f p else g p)"
  by (simp add: okr_def)

lemma okr_diag: "(\<And>q. okr m K n C (h q)) \<Longrightarrow> okr m K n C (\<lambda>p. h p p)"
  by (simp add: okr_def)

text \<open>The newline that is put in takes the place of a token that was read.\<close>

lemma insert_run:
  assumes "parser_wf m p"
  shows "\<exists>q. insert_newline p = Inr ((), q) \<and> parser_wf m q \<and> left_of q = Suc (left_of p)"
proof -
  let ?t = "tokens p ! ppos p"
  let ?q = "p\<lparr>tokens := take (ppos p) (tokens p) @ newline_like ?t # drop (ppos p) (tokens p)\<rparr>"
  have "insert_newline p = Inr ((), ?q)"
    using assms by (simp add: insert_newline_def bindp_def peek_tok_run)
  moreover have "parser_wf m ?q"
    using assms by (auto simp: parser_wf_def newline_like_def dest: in_set_takeD in_set_dropD)
  moreover have "left_of ?q = Suc (left_of p)" using assms by (simp add: left_of_def parser_wf_def Suc_diff_le less_imp_le)
  ultimately show ?thesis by blast
qed

lemma okp_bind_insert [okp_rules]:
  assumes "okp m K n True f"
  shows "okp m K n False (bindp f (\<lambda>x. bindp insert_newline (\<lambda>_. ret (h x))))"
  unfolding okr_def
proof (intro allI impI)
  fix p assume p: "parser_wf m p" "next_kind p \<in> K" "left_of p \<le> n"
  note r = okrD [OF assms p]
  show "result_ok m (\<lambda>_. False) p (bindp f (\<lambda>x. bindp insert_newline (\<lambda>_. ret (h x))) p)"
  proof (cases "f p")
    case (Inr y)
    obtain x q where y: "y = (x, q)" by (cases y)
    then have q: "parser_wf m q" "left_of q < left_of p" using r Inr by (simp_all add: result_ok_def)
    obtain q' where "insert_newline q = Inr ((), q')" "parser_wf m q'" "left_of q' = Suc (left_of q)"
      using insert_run [OF q(1)] by blast
    then show ?thesis using Inr y q(2) by (simp add: bindp_def ret_def result_ok_def)
  qed (use r in \<open>simp add: bindp_def result_ok_def\<close>)
qed

lemma okp_bind_span_insert [okp_rules]:
  assumes "okp m K n True f"
  shows "okp m K n False (bindp f (\<lambda>x. bindp (span_from t) (\<lambda>sp. bindp insert_newline (\<lambda>_. ret (h x sp)))))"
  unfolding okr_def
proof (intro allI impI)
  fix p assume p: "parser_wf m p" "next_kind p \<in> K" "left_of p \<le> n"
  let ?g = "\<lambda>x. bindp (span_from t) (\<lambda>sp. bindp insert_newline (\<lambda>_. ret (h x sp)))"
  note r = okrD [OF assms p]
  show "result_ok m (\<lambda>_. False) p (bindp f ?g p)"
  proof (cases "f p")
    case (Inr y)
    obtain x q where y: "y = (x, q)" by (cases y)
    then have q: "parser_wf m q" "left_of q < left_of p" using r Inr by (simp_all add: result_ok_def)
    obtain sp where "span_from t q = Inr (sp, q)" using span_run [OF q(1)] by blast
    moreover obtain q' where "insert_newline q = Inr ((), q')" "parser_wf m q'" "left_of q' = Suc (left_of q)"
      using insert_run [OF q(1)] by blast
    ultimately show ?thesis using Inr y q(2) by (simp add: bindp_def ret_def result_ok_def)
  qed (use r in \<open>simp add: bindp_def result_ok_def\<close>)
qed

end
