(* ===== verification/ParserTotal.thy ===== *)
theory ParserTotal
  imports ParserLogic
begin

text \<open>
  Every rule of the parser reads a token or fails, never panics, and never runs out of fuel when its
  fuel is the count of the tokens that are left.
\<close>

subsection \<open>The shapes that the rules repeat\<close>

lemma okr_if_kind [okp_rules]:
  "okr m (K \<inter> {k}) n C f \<Longrightarrow> okr m (K - {k}) n C g \<Longrightarrow> okr m K n C (if_kind k f g)"
  unfolding if_kind_def by (rule okr_peek_kind) (auto intro: okr_le)

lemma okp_if_kind [okp_rules]:
  "okr m {k} n C f \<Longrightarrow> okr m (UNIV - {k}) n C g \<Longrightarrow> okr m UNIV n C (if_kind k f g)"
  by (rule okr_if_kind) auto

lemma okp_opt_after [okp_rules]:
  "k \<noteq> Eof \<Longrightarrow> okp m UNIV (n - 1) False f \<Longrightarrow> okp m K n False (opt_after k f)"
  by (rule okr_le [where K = UNIV]) (auto simp: opt_after_def okp_rules)

lemma okp_comma_list [okp_rules]:
  "okp m UNIV n True item \<Longrightarrow> n \<le> k \<Longrightarrow> okp m K n False (comma_list k close item)"
proof (induction k arbitrary: K n)
  case 0
  then show ?case by (simp add: okr_zero)
next
  case (Suc k)
  have "okp m K n' c item" if "n' \<le> n" for n' K c by (rule okp_any [OF Suc.prems(1) that])
  with Suc show ?case by (simp add: okp_rules)
qed

lemma okp_more_elems [okp_rules]:
  "okp m UNIV n True item \<Longrightarrow> n \<le> k \<Longrightarrow> okp m K n False (more_elems k stop item)"
proof (induction k arbitrary: K n)
  case 0
  then show ?case by (simp add: okr_zero)
next
  case (Suc k)
  have "okp m K n' c item" if "n' \<le> n" for n' K c by (rule okp_any [OF Suc.prems(1) that])
  with Suc show ?case by (simp add: okp_rules)
qed

lemma okp_block_items [okp_rules]:
  "okp m UNIV n True item \<Longrightarrow> n \<le> k \<Longrightarrow> okp m K n False (block_items k item)"
proof (induction k arbitrary: K n)
  case 0
  then show ?case by (simp add: okr_zero)
next
  case (Suc k)
  have "okp m K n' c item" if "n' \<le> n" for n' K c by (rule okp_any [OF Suc.prems(1) that])
  with Suc show ?case by (simp add: okp_rules)
qed

lemma okp_sep_items [okp_rules]:
  "okp m UNIV n True item \<Longrightarrow> n \<le> k \<Longrightarrow> sep \<noteq> Eof \<Longrightarrow> okp m K n False (sep_items k sep item)"
proof (induction k arbitrary: K n)
  case 0
  then show ?case by (simp add: okr_zero)
next
  case (Suc k)
  have "okp m K n' c item" if "n' \<le> n" for n' K c by (rule okp_any [OF Suc.prems(1) that])
  with Suc show ?case by (simp add: okp_rules)
qed

lemma okp_comma_plus [okp_rules]:
  "okp m UNIV n True item \<Longrightarrow> n \<le> k \<Longrightarrow> okp m K n c (comma_plus k item)"
proof (induction k arbitrary: K n c)
  case 0
  then show ?case by (simp add: okr_zero)
next
  case (Suc k)
  have "okp m K n' c item" if "n' \<le> n" for n' K c by (rule okp_any [OF Suc.prems(1) that])
  with Suc show ?case by (simp add: okp_rules)
qed

lemma okp_eat_kind [okp_rules]: "k \<noteq> Eof \<Longrightarrow> okp m K n False (eat_kind k)"
  by (simp add: eat_kind_def okp_rules)

lemma okp_param_kind [okp_rules]: "okp m K n False param_kind_of"
  by (rule okr_univ) (simp add: param_kind_of_def okp_rules)

lemma okp_for_name [okp_rules]: "okp m K n c for_name"
  by (rule okp_same) (simp add: for_name_def okp_rules)

lemma okp_nodes [okp_rules]:
  "okp m K n False (type_node t k)"
  "okp m K n False (expr_node t k')"
  "okp m K n False (stmt_node t k'')"
  "okp m K n False (end_stmt t k'')"
  by (simp_all add: type_node_def expr_node_def end_stmt_def stmt_node_def okp_rules)

lemma okr_fail_here [okp_rules]: "okr m K n C (fail_here k)"
  by (simp add: fail_here_def okp_rules)

lemma okp_close_node [okp_rules]: "k \<noteq> Eof \<Longrightarrow> okp m K n c (close_node sp k x)"
  by (rule okp_same) (simp add: close_node_def okp_rules)

subsection \<open>The rules over a grammar\<close>

text \<open>
  The hypotheses of a rule: the grammar \<open>g\<close> is good for \<open>n\<close> tokens, and the expressions of
  f-strings for texts that are shorter than \<open>m\<close>.
\<close>

text \<open>A run of an f-string's reader ends in parts or in an error of the source.\<close>

definition settled :: "failure + 'a \<Rightarrow> bool" where
  "settled r \<longleftrightarrow> (case r of Inl e \<Rightarrow> e \<noteq> Panic \<and> e \<noteq> NoFuel | Inr _ \<Rightarrow> True)"

definition embed_ok :: "nat \<Rightarrow> penv \<Rightarrow> bool" where
  "embed_ok m u \<longleftrightarrow> (\<forall>s fid. length s < m \<longrightarrow> settled (embedded u s fid))"

lemma split_spec_length: "split_spec_at d b cs = (x, y) \<Longrightarrow> length x \<le> length b + length cs"
  by (induction d b cs rule: split_spec_at.induct) (fastforce split: if_splits)+

lemma debug_form_length: "debug_form u s = Some x \<Longrightarrow> length x \<le> length s"
proof -
  assume "debug_form u s = Some x"
  then have "x = butlast (trim_end u s)" by (auto simp: debug_form_def Let_def split: if_splits)
  moreover have "length (trim_end u s) \<le> length s"
    using length_dropWhile_le [of "is_whitespace u" "rev s"] by (simp add: trim_end_def)
  ultimately show ?thesis by simp
qed

lemma fstr_field_settled:
  assumes "embed_ok m u" "length field < m"
  shows "settled (fstr_field u tok i j field)"
proof -
  obtain e spec where sp: "split_fstring_spec field = (e, spec)" by (cases "split_fstring_spec field")
  have e: "length e \<le> length field" using split_spec_length [of 0 "[]" field e spec] sp by (simp add: split_fstring_spec_def)
  let ?src = "case debug_form u e of Some before \<Rightarrow> before | None \<Rightarrow> e"
  have "length ?src \<le> length e" by (auto split: option.splits dest: debug_form_length)
  then have "settled (embedded u ?src (t_file_id tok))" using assms e by (simp add: embed_ok_def)
  then show ?thesis
    by (auto simp: fstr_field_def sp Let_def settled_def mk_err_def field_error_def split: sum.splits failure.splits)
qed

lemma fstr_loop_settled:
  "embed_ok m u \<Longrightarrow> length chars \<le> m \<Longrightarrow> settled (fstr_loop u tok chars i l ps)"
proof (induction u tok chars i l ps rule: fstr_loop.induct)
  case (1 u tok chars i l ps)
  show ?case
  proof (cases "i < length chars \<and> chars ! i = ch_lbrace \<and> \<not> (i + 1 < length chars \<and> chars ! (i + 1) = ch_lbrace)")
    case False
    with 1 show ?thesis by (auto simp: fstr_loop.simps [of u tok chars i l ps] settled_def [of "Inl _"] settled_def [of "Inr _"] mk_err_def)
  next
    case True
    obtain b k where m: "match_braces 1 (drop (i + 1) chars) = (b, k)" by (cases "match_braces 1 (drop (i + 1) chars)")
    let ?f = "fstr_field u tok (i + 1) (i + 1 + k) (take (k - 1) (drop (i + 1) chars))"
    have "settled ?f" by (rule fstr_field_settled [OF 1(5)]) (use True 1(6) in auto)
    with True m 1(2) [OF _ _ _ refl refl m [symmetric]] 1(5,6) show ?thesis
      by (cases ?f) (auto simp: fstr_loop.simps [of u tok chars i l ps] Let_def settled_def [of "Inl _"] mk_err_def)
  qed
qed

locale rules_ok =
  fixes m n :: nat and u :: penv and g :: rules
  assumes type_rule: "okp m UNIV n True (r_type g)"
    and single_type_rule: "okp m UNIV n True (r_single_type g)"
    and expr_rule: "okp m UNIV n True (r_expr g)"
    and range_rule: "okp m UNIV n True (r_range g)"
    and or_rule: "okp m UNIV n True (r_or g)"
    and not_rule: "okp m UNIV n True (r_not g)"
    and unary_rule: "okp m UNIV n True (r_unary g)"
    and pattern_rule: "okp m UNIV n True (r_pattern g)"
    and stmt_rule: "okp m UNIV n True (r_stmt g)"
    and fuel_enough [simp]: "fuel g = n"
    and embed: "embed_ok m u"
begin

lemma rules [okp_rules]:
  assumes "n' \<le> n"
  shows "okp m K n' c (r_type g)" "okp m K n' c (r_single_type g)" "okp m K n' c (r_expr g)"
    "okp m K n' c (r_range g)" "okp m K n' c (r_or g)" "okp m K n' c (r_not g)" "okp m K n' c (r_unary g)"
    "okp m K n' c (r_pattern g)" "okp m K n' c (r_stmt g)"
  using assms
  by (blast intro: okp_any type_rule single_type_rule expr_rule range_rule or_rule not_rule unary_rule
      pattern_rule stmt_rule)+

subsubsection \<open>Types\<close>

subsubsection \<open>Types\<close>

lemma okp_type_args [okp_rules]: "n' \<le> Suc n \<Longrightarrow> Eof \<notin> K \<Longrightarrow> close \<noteq> Eof \<Longrightarrow> okp m K n' c (parse_type_args g close)"
  by (rule okp_weaken) (simp add: parse_type_args_def okp_rules)

lemma okp_named_type [okp_rules]: "n' \<le> Suc n \<Longrightarrow> Eof \<notin> K \<Longrightarrow> okp m K n' c (parse_named_type g t)"
  by (rule okp_weaken) (simp add: parse_named_type_def okp_rules)

lemma okp_list_type [okp_rules]: "n' \<le> Suc n \<Longrightarrow> Eof \<notin> K \<Longrightarrow> okp m K n' c (parse_list_type g t)"
  by (rule okp_weaken) (simp add: parse_list_type_def okp_rules)

lemma okp_dict_type [okp_rules]: "n' \<le> Suc n \<Longrightarrow> Eof \<notin> K \<Longrightarrow> okp m K n' c (parse_dict_type g t)"
  by (rule okp_weaken) (simp add: parse_dict_type_def okp_rules)

lemma okp_ref_type [okp_rules]: "n' \<le> Suc n \<Longrightarrow> Eof \<notin> K \<Longrightarrow> okp m K n' c (parse_ref_type g t)"
  by (rule okp_weaken) (simp add: parse_ref_type_def okp_rules)

lemma okp_fn_type [okp_rules]: "n' \<le> Suc n \<Longrightarrow> Eof \<notin> K \<Longrightarrow> okp m K n' c (parse_fn_type g t)"
  by (rule okp_weaken) (simp add: parse_fn_type_def okp_rules)

lemma okp_single_type [okp_rules]: "n' \<le> Suc n \<Longrightarrow> okp m K n' c (parse_single_type_expr g)"
  unfolding parse_single_type_expr_def
  by (rule okp_weaken, rule okr_peek_tok)
    (simp add: okp_rules split: token_kind.split literal_kind.split keyword.split operator_kind.split punctuation.split)

lemma okp_type_expr [okp_rules]: "n' \<le> Suc n \<Longrightarrow> okp m K n' c (parse_type_expr g)"
  by (rule okp_same) (simp add: parse_type_expr_def okp_rules)

subsubsection \<open>Blocks, parameters, targets\<close>

lemma okp_block [okp_rules]: "n' \<le> Suc n \<Longrightarrow> okp m K n' c (parse_block g)"
  by (rule okp_same) (simp add: parse_block_def okp_rules)

lemma okp_param [okp_rules]: "n' \<le> Suc n \<Longrightarrow> okp m K n' c (parse_param g)"
  by (rule okp_same) (simp add: parse_param_def okp_rules)

lemma okp_params [okp_rules]: "n' \<le> n \<Longrightarrow> okp m K n' False (parse_params g)"
  by (simp add: parse_params_def okp_rules)

lemma okp_for_target [okp_rules]: "n' \<le> Suc n \<Longrightarrow> okp m K n' c (parse_for_target g)"
  by (rule okp_same) (simp add: parse_for_target_def okp_rules)

subsubsection \<open>Primary expressions\<close>

lemma okp_match_case [okp_rules]: "n' \<le> n \<Longrightarrow> okp m K n' c (parse_match_case g)"
  by (rule okp_same) (simp add: parse_match_case_def okp_rules)

lemma okp_match [okp_rules]: "n' \<le> n \<Longrightarrow> okp m K n' False (parse_match g t)"
  by (rule okr_univ) (simp add: parse_match_def okp_rules)

lemma okp_comp_clauses [okp_rules]: "n' \<le> n \<Longrightarrow> okp m K n' False (parse_comp_clauses g)"
  by (simp add: parse_comp_clauses_def parse_comp_clause_def okp_rules)

lemma okp_pair [okp_rules]: "n' \<le> n \<Longrightarrow> okp m K n' c (parse_pair g)"
  by (rule okp_same) (simp add: parse_pair_def okp_rules)

lemma okp_paren_expr [okp_rules]: "n' \<le> Suc n \<Longrightarrow> Eof \<notin> K \<Longrightarrow> okp m K n' c (parse_paren_expr g t)"
  by (rule okp_weaken) (simp add: parse_paren_expr_def okp_rules)

lemma okp_bracket_expr [okp_rules]: "n' \<le> Suc n \<Longrightarrow> Eof \<notin> K \<Longrightarrow> okp m K n' c (parse_bracket_expr g t)"
  by (rule okp_weaken) (simp add: parse_bracket_expr_def okp_rules)

lemma okp_brace_expr [okp_rules]: "n' \<le> Suc n \<Longrightarrow> Eof \<notin> K \<Longrightarrow> okp m K n' c (parse_brace_expr g t)"
  by (rule okp_weaken) (simp add: parse_brace_expr_def okp_rules)

lemma okp_bare_param [okp_rules]: "okp m K n' c bare_lambda_param"
  by (rule okp_same) (simp add: bare_lambda_param_def okp_rules)

lemma okp_lambda [okp_rules]: "n' \<le> n \<Longrightarrow> okp m K n' False (parse_lambda g t)"
  by (rule okr_univ) (simp add: parse_lambda_def okp_rules)

lemma okp_integer [okp_rules]: "n' \<le> Suc n \<Longrightarrow> Eof \<notin> K \<Longrightarrow> okp m K n' c (parse_integer t)"
  by (rule okp_weaken) (simp add: parse_integer_def okp_rules)

lemma okp_float [okp_rules]: "n' \<le> Suc n \<Longrightarrow> Eof \<notin> K \<Longrightarrow> okp m K n' c (parse_float u t)"
  by (rule okp_weaken) (simp add: parse_float_def okp_rules)

lemma okp_async_expr [okp_rules]: "n' \<le> Suc n \<Longrightarrow> Eof \<notin> K \<Longrightarrow> okp m K n' c (parse_async_expr g t)"
  by (rule okp_weaken) (simp add: parse_async_expr_def okp_rules)

lemma okp_leaf [okp_rules]: "n' \<le> Suc n \<Longrightarrow> Eof \<notin> K \<Longrightarrow> okp m K n' c (leaf_expr t k)"
  by (rule okp_weaken) (simp add: leaf_expr_def okp_rules)

lemma okp_fstring: "length (t_value t) \<le> m \<Longrightarrow> okp m K n' False (parse_fstring u t)"
proof -
  assume "length (t_value t) \<le> m"
  then have "settled (fstr_loop u t (t_value t) 0 0 [])" by (rule fstr_loop_settled [OF embed])
  then show ?thesis
    by (auto simp: parse_fstring_def okr_def result_ok_def settled_def fail_def ret_def split: sum.splits failure.splits)
qed

lemma okp_primary [okp_rules]: "n' \<le> Suc n \<Longrightarrow> okp m K n' c (parse_primary u g)"
  unfolding parse_primary_def
  by (rule okp_weaken, rule okr_peek_value)
    (simp add: okp_rules okp_fstring split: token_kind.split literal_kind.split keyword.split punctuation.split)

subsubsection \<open>Postfix operators\<close>

lemma okp_call_arg [okp_rules]: "n' \<le> n \<Longrightarrow> okp m K n' c (parse_call_arg g)"
  by (rule okp_same) (simp add: parse_call_arg_def okp_rules)

lemma okp_call_args [okp_rules]: "n' \<le> n \<Longrightarrow> okp m K n' False (parse_call_args g)"
  by (rule okr_univ) (simp add: parse_call_args_def okp_rules)

lemma okp_slice_step [okp_rules]: "n' \<le> n \<Longrightarrow> okp m K n' False (parse_slice_step g a b t)"
  by (rule okr_univ) (simp add: parse_slice_step_def okp_rules)

lemma okp_slice_remainder [okp_rules]: "n' \<le> n \<Longrightarrow> okp m K n' False (parse_slice_remainder g a t)"
  by (rule okr_univ) (simp add: parse_slice_remainder_def okp_rules)

lemma okp_index [okp_rules]: "n' \<le> n \<Longrightarrow> okp m K n' False (parse_index g t)"
  by (rule okr_univ) (simp add: parse_index_def okp_rules)

lemma okp_attr [okp_rules]: "okp m K n' c (parse_attr e)"
  by (rule okp_same) (simp add: parse_attr_def okp_rules split: expr_kind_of.split)

lemma okr_postfix_step: "n' \<le> Suc n \<Longrightarrow> okr m K n' (\<lambda>r. r \<noteq> None) (postfix_step g e)"
  by (rule okr_univ) (simp add: postfix_step_def okp_rules)

lemma okp_postfix_loop [okp_rules]:
  "n' \<le> Suc n \<Longrightarrow> n' \<le> k \<Longrightarrow> okp m K n' False (postfix_loop k g e)"
proof (induction k arbitrary: K n' e)
  case 0
  then show ?case by (simp add: okr_zero)
next
  case (Suc k)
  show ?case unfolding postfix_loop.simps
    by (rule okr_bind [OF okr_postfix_step]) (use Suc in \<open>auto simp: okp_rules\<close>)
qed

lemma okp_postfix [okp_rules]: "n' \<le> Suc n \<Longrightarrow> okp m K n' c (parse_postfix u g)"
  by (rule okp_same) (simp add: parse_postfix_def okp_rules)

subsubsection \<open>Operators\<close>

lemma okp_power [okp_rules]: "n' \<le> Suc n \<Longrightarrow> okp m K n' c (parse_power u g)"
  by (rule okp_same) (simp add: parse_power_def okp_rules)

lemma okp_unary_after [okp_rules]: "n' \<le> n \<Longrightarrow> okp m K n' False (unary_after g t C)"
  by (rule okr_univ) (simp add: unary_after_def okp_rules)

lemma okp_unary_prefix [okp_rules]: "n' \<le> Suc n \<Longrightarrow> okp m K n' c (parse_unary_prefix u g)"
  unfolding parse_unary_prefix_def
  by (rule okp_weaken, rule okr_peek_tok)
    (simp add: okp_rules split: token_kind.split keyword.split operator_kind.split)

lemma okp_unary [okp_rules]: "n' \<le> Suc n \<Longrightarrow> okp m K n' c (parse_unary u g)"
  by (rule okp_same) (simp add: parse_unary_def okp_rules)

lemma okp_binary_loop [okp_rules]:
  "okp m UNIV n' True next_level \<Longrightarrow> op_of Eof = None \<Longrightarrow> n' \<le> k \<Longrightarrow>
     okp m K n' False (binary_loop k op_of next_level e)"
proof (induction k arbitrary: K n' e)
  case 0
  then show ?case by (simp add: okr_zero)
next
  case (Suc k)
  have "okp m K i c next_level" if "i \<le> n'" for i K c by (rule okp_any [OF Suc.prems(1) that])
  with Suc show ?case unfolding binary_loop.simps
    by (intro okr_peek_kind okr_option) (auto simp: okp_rules)
qed

lemma okp_binary_level [okp_rules]:
  "okp m UNIV (Suc n) True next_level \<Longrightarrow> op_of Eof = None \<Longrightarrow> n' \<le> Suc n \<Longrightarrow>
     okp m K n' c (binary_level g op_of next_level)"
proof -
  assume a: "okp m UNIV (Suc n) True next_level" "op_of Eof = None" "n' \<le> Suc n"
  have "okp m K i c next_level" if "i \<le> Suc n" for i K c by (rule okp_any [OF a(1) that])
  with a show ?thesis by - (rule okp_same, simp add: binary_level_def okp_rules)
qed

lemma op_at_eof [simp]:
  "mul_op Eof = None" "add_op Eof = None" "shift_op Eof = None" "k \<noteq> Eof \<Longrightarrow> one_op k op Eof = None"
  by (simp_all add: mul_op_def add_op_def shift_op_def one_op_def)

lemma okp_levels [okp_rules]:
  assumes "n' \<le> Suc n"
  shows "okp m K n' c (parse_mul u g)" "okp m K n' c (parse_add u g)" "okp m K n' c (parse_shift u g)"
    "okp m K n' c (parse_bitand u g)" "okp m K n' c (parse_bitxor u g)" "okp m K n' c (parse_bitor u g)"
  using assms
  by (simp_all add: parse_bitor_def parse_bitxor_def parse_bitand_def parse_shift_def parse_add_def
      parse_mul_def okp_rules)

lemma okr_comparison_op: "okr m K n' (\<lambda>r. r \<noteq> None) comparison_op"
  by (rule okr_univ) (simp add: comparison_op_def okp_rules)

lemma okp_range_step [okp_rules]: "n' \<le> n \<Longrightarrow> okp m K n' False (parse_optional_range_step g)"
  by (rule okr_univ) (simp add: parse_optional_range_step_def okp_rules)

lemma okp_range_suffix [okp_rules]:
  "okp m UNIV n True end_rule \<Longrightarrow> n' \<le> n \<Longrightarrow> okp m K n' False (range_suffix g end_rule e)"
proof (rule okr_univ)
  assume a: "okp m UNIV n True end_rule" "n' \<le> n"
  have "okp m K i c end_rule" if "i \<le> n" for i K c by (rule okp_any [OF a(1) that])
  with a(2) show "okp m UNIV n' False (range_suffix g end_rule e)" by (simp add: range_suffix_def okp_rules)
qed

lemma okp_comparison_loop [okp_rules]: "n' \<le> n \<Longrightarrow> n' \<le> k \<Longrightarrow> okp m K n' False (comparison_loop k u g e)"
proof (induction k arbitrary: K n' e)
  case 0
  then show ?case by (simp add: okr_zero)
next
  case (Suc k)
  show ?case unfolding comparison_loop.simps
    by (rule okr_bind [OF okr_comparison_op]) (use Suc in \<open>auto simp: okp_rules\<close>)
qed

lemma okp_comparison [okp_rules]: "n' \<le> Suc n \<Longrightarrow> okp m K n' c (parse_comparison u g)"
  by (rule okp_same) (simp add: parse_comparison_def okp_rules)

lemma okp_not [okp_rules]: "n' \<le> Suc n \<Longrightarrow> okp m K n' c (parse_not u g)"
  by (rule okp_same) (simp add: parse_not_def okp_rules)

lemma okp_logical [okp_rules]:
  assumes "n' \<le> Suc n"
  shows "okp m K n' c (parse_and u g)" "okp m K n' c (parse_coalesce u g)" "okp m K n' c (parse_or u g)"
  using assms by (simp_all add: parse_or_def parse_coalesce_def parse_and_def okp_rules)

lemma okp_range [okp_rules]: "n' \<le> Suc n \<Longrightarrow> okp m K n' c (parse_range u g)"
  by (rule okp_same) (simp add: parse_range_def okp_rules)

lemma okp_expr [okp_rules]: "n' \<le> Suc n \<Longrightarrow> okp m K n' c (parse_expr u g)"
  by (rule okp_same) (simp add: parse_expr_def okp_rules)

lemma okp_expr_list [okp_rules]: "n' \<le> Suc n \<Longrightarrow> okp m K n' c (parse_expr_list u g)"
  by (rule okp_same) (simp add: parse_expr_list_def okp_rules)

subsubsection \<open>Patterns\<close>

lemma okp_field_pattern [okp_rules]: "n' \<le> n \<Longrightarrow> okp m K n' c (parse_field_pattern g)"
  by (rule okp_same) (simp add: parse_field_pattern_def okp_rules)

lemma okp_number_pattern [okp_rules]: "n' \<le> Suc n \<Longrightarrow> okp m K n' c (parse_number_pattern u g)"
  by (rule okp_same) (simp add: parse_number_pattern_def okp_rules)

lemma okp_name_pattern [okp_rules]: "n' \<le> Suc n \<Longrightarrow> Eof \<notin> K \<Longrightarrow> okp m K n' c (parse_name_pattern u g)"
  by (rule okp_weaken) (simp add: parse_name_pattern_def okp_rules)

lemma okp_tuple_items [okp_rules]: "n' \<le> n \<Longrightarrow> n' \<le> k \<Longrightarrow> okp m K n' False (tuple_pattern_items k g)"
proof (induction k arbitrary: K n')
  case 0
  then show ?case by (simp add: okr_zero)
next
  case (Suc k)
  then show ?case by (simp add: okp_rules)
qed

lemma okp_tuple_pattern [okp_rules]: "n' \<le> Suc n \<Longrightarrow> okp m K n' c (parse_tuple_pattern g)"
  unfolding parse_tuple_pattern_def by (rule okp_same) (simp add: okp_rules)

lemma okp_list_item [okp_rules]: "n' \<le> n \<Longrightarrow> okp m K n' c (list_pattern_item g acc)"
  by (rule okp_same) (cases acc, simp add: list_pattern_item_def okp_rules)

lemma okp_list_items [okp_rules]: "n' \<le> n \<Longrightarrow> n' \<le> k \<Longrightarrow> okp m K n' False (list_pattern_items k g acc)"
proof (induction k arbitrary: K n' acc)
  case 0
  then show ?case by (simp add: okr_zero)
next
  case (Suc k)
  then show ?case by (simp add: okp_rules)
qed

lemma okp_list_pattern [okp_rules]: "n' \<le> Suc n \<Longrightarrow> okp m K n' c (parse_list_pattern g)"
  by (rule okp_same) (simp add: parse_list_pattern_def okp_rules)

lemma okp_pattern_atom [okp_rules]: "n' \<le> Suc n \<Longrightarrow> okp m K n' c (parse_pattern_atom u g)"
  unfolding parse_pattern_atom_def
  by (rule okp_weaken, rule okr_peek_tok)
    (simp add: okp_rules split: token_kind.split literal_kind.split keyword.split punctuation.split)

lemma okp_pattern [okp_rules]: "n' \<le> Suc n \<Longrightarrow> okp m K n' c (parse_pattern u g)"
  by (rule okp_same) (simp add: parse_pattern_def okp_rules)

end

end
