(* ===== verification/StringLength.thy ===== *)
theory StringLength
  imports LexerProps
begin

text \<open>The text of an f-string token is no longer than the source it was read from.\<close>

lemma read_escape_length:
  "read_escape ln cl lx = Inr (cs, l) \<Longrightarrow> length cs + remaining l \<le> Suc (remaining lx)"
proof -
  assume r: "read_escape ln cl lx = Inr (cs, l)"
  then obtain c where c: "peek lx = Some c" by (auto simp: read_escape_def split: option.splits)
  have "length cs \<le> 1 \<or> cs = [ch_backslash, c] \<and> l = adv lx"
    using r c by (auto simp: read_escape_def read_hex_escape_def read_unicode_escape_def Let_def
        split: option.splits if_splits prod.splits)
  with scan_remaining [OF read_escape_scan [OF r]] remaining_adv [OF c] show ?thesis by auto
qed

lemma read_string_loop_length:
  "read_string_loop q t ln cl start s lx = Inr (cs, l) \<Longrightarrow>
     length cs + remaining l \<le> length s + remaining lx"
proof (induction q t ln cl start s lx rule: read_string_loop.induct)
  case (1 q t ln cl start s lx)
  then obtain c where c: "peek lx = Some c"
    by (auto simp: read_string_loop.simps [of q t ln cl start s lx] split: option.splits)
  note a = remaining_adv [OF c] remaining_adv_le [of "adv lx"] remaining_adv_le [of "adv (adv lx)"]
  show ?case
  proof (cases "c = ch_backslash \<and> \<not> (\<not> t \<and> c = ch_nl) \<and> c \<noteq> q")
    case True
    then obtain cs' l' where e: "read_escape ln cl (adv lx) = Inr (cs', l')"
      using "1.prems" c by (auto simp: read_string_loop.simps [of q t ln cl start s lx] Let_def split: sum.splits)
    with True "1.prems" c have "read_string_loop q t ln cl start (s @ cs') l' = Inr (cs, l)"
      by (auto simp: read_string_loop.simps [of q t ln cl start s lx] Let_def)
    with "1.IH"(2) [OF c refl _ _ _ e refl] True have "length cs + remaining l \<le> length (s @ cs') + remaining l'"
      by auto
    with read_escape_length [OF e] a show ?thesis by simp
  next
    case False
    with "1.prems" "1.IH"(1) [OF c refl] "1.IH"(3) [OF c refl] c a show ?thesis
      by (auto simp: read_string_loop.simps [of q t ln cl start s lx] Let_def split: if_splits)
  qed
qed

definition short_at :: "nat \<Rightarrow> token \<Rightarrow> bool" where
  "short_at n t \<longleftrightarrow> (t_kind t = Lit FString \<longrightarrow> length (t_value t) \<le> n)"

lemma short_layout: "t_kind t \<in> {Newline, Indent, Dedent, Eof} \<Longrightarrow> short_at n t"
  by (auto simp: short_at_def)

lemma read_string_short: "read_string k q ln cl start lx = Inr (t, l) \<Longrightarrow> short_at (remaining lx) t"
  using remaining_adv_le [of lx] remaining_adv_le [of "adv lx"]
  by (auto simp: read_string_def Let_def short_at_def make_tok_def and_then_Inr_iff dest!: read_string_loop_length
      split: if_splits sum.splits)


text \<open>The arms that read no f-string.\<close>

definition quiet :: "(lexer \<Rightarrow> arm) \<Rightarrow> bool" where
  "quiet f \<longleftrightarrow> (\<forall>lx t l. f lx = Inr (Some t, l) \<longrightarrow> t_kind t \<noteq> Lit FString)"

lemma quiet_intros:
  "quiet f \<Longrightarrow> quiet g \<Longrightarrow> quiet (if b then f else g)" "k \<noteq> Lit FString \<Longrightarrow> quiet (emit k v ln cl start)"
  "quiet (fail e)" "quiet f \<Longrightarrow> quiet g \<Longrightarrow> quiet (if_next c f g)"
  by (auto simp: quiet_def emit_def if_next_def make_tok_def)

lemma lex_operator_quiet: "quiet (lex_operator ch ln cl start)"
  unfolding lex_operator_def Let_def by (intro quiet_intros) simp_all

lemma lex_delimiter_quiet: "lex_delimiter ch ln cl start lx = Some (Inr (Some t, l)) \<Longrightarrow> t_kind t \<noteq> Lit FString"
  by (auto simp: lex_delimiter_def Let_def close_delim_def emit_def make_tok_def split: list.splits if_splits)

lemma handle_indent_quiet: "handle_indent ln start lx = Inr (Some t, l) \<Longrightarrow> t_kind t \<noteq> Lit FString"
  by (auto simp: handle_indent_def and_then_Inr_iff newline_tok_def split: prod.splits if_splits)

lemma read_number_quiet:
  "read_number c ln cl start lx = Inr (t, l) \<Longrightarrow> t_kind t \<noteq> Lit FString"
  "read_point_number ln cl start lx = Inr (t, l) \<Longrightarrow> t_kind t \<noteq> Lit FString"
  by (auto simp: read_number_def read_radix_def read_decimal_def number_tail_def read_point_number_def
      make_tok_def split: if_splits prod.splits)

lemma ident_kind_quiet: "ident_kind s \<noteq> Lit FString"
proof -
  have "\<forall>(k, v) \<in> set keyword_table. v \<noteq> Lit FString" by (simp add: keyword_table_def)
  then show ?thesis
    by (auto simp: ident_kind_def split: option.splits dest!: map_of_SomeD)
qed

lemma read_ident_short: "read_ident u c ln cl start lx = Inr (t, l) \<Longrightarrow> short_at (remaining lx) t"
  using remaining_adv_le [of lx]
  by (auto simp: read_ident_def short_at_def make_tok_def ident_kind_quiet
      split: if_splits prod.splits option.splits dest!: read_string_short)

lemma lex_char_short:
  assumes "lex_char u ch ln cl start lx = Inr (Some t, l)"
  shows "short_at (remaining lx) t"
proof (cases "t_kind t = Lit FString")
  case False
  then show ?thesis by (simp add: short_at_def)
next
  case True
  with assms show ?thesis
    using lex_operator_quiet [of ch ln cl start]
    by (auto simp: lex_char_def some_tok_Inr_iff quiet_def
        split: if_splits option.splits
        dest: handle_indent_quiet read_number_quiet lex_delimiter_quiet intro: read_string_short read_ident_short)
qed

lemma remaining_le: "remaining lx \<le> length (source lx)"
  by (simp add: remaining_def)

lemma next_token_short:
  "next_token u lx = Inr (t, l) \<Longrightarrow> lex_inv d b lx \<Longrightarrow> short_at (length (source lx)) t"
proof (induction u lx rule: next_token.induct)
  case (1 u lx0)
  show ?case
  proof (cases "pending lx0")
    case (Cons t' ts)
    with "1.prems" show ?thesis
      by (auto simp: next_token.simps [of u lx0] lex_inv_def intro: short_layout)
  next
    case Nil
    let ?lx = "skip_inline_whitespace lx0"
    have s: "scan lx0 ?lx" by (rule skip_inline_whitespace_scan)
    note keeps = scan_keeps [OF s]
    have inv: "lex_inv d b ?lx" by (rule lex_inv_scan [OF "1.prems"(2) Nil s])
    show ?thesis
    proof (cases "peek ?lx")
      case None
      with "1.prems" Nil show ?thesis
        by (auto simp: next_token.simps [of u lx0] Let_def lex_eof_def split: list.splits if_splits
            intro: short_layout)
    next
      case (Some ch)
      obtain tk l1 where c: "lex_char u ch (line ?lx) (col ?lx) (pos ?lx) (adv ?lx) = Inr (tk, l1)"
        using "1.prems" Nil Some
        by (auto simp: next_token.simps [of u lx0] Let_def split: sum.splits prod.splits)
      show ?thesis
      proof (cases tk)
        case None
        with "1.prems" Nil Some c have n: "next_token u l1 = Inr (t, l)"
          by (simp add: next_token.simps [of u lx0] Let_def)
        from char_step [OF inv _ Some c] None Nil keeps have "lex_inv d b l1" "source l1 = source lx0" by auto
        with "1.IH" [OF Nil refl Some c refl None n] show ?thesis by simp
      next
        case (Some t')
        with "1.prems" Nil c \<open>peek ?lx = Some ch\<close> have "t' = t"
          by (simp add: next_token.simps [of u lx0] Let_def)
        with lex_char_short c Some have "short_at (remaining (adv ?lx)) t" by blast
        with remaining_le [of "adv ?lx"] keeps show ?thesis by (auto simp: short_at_def)
      qed
    qed
  qed
qed

lemma tokenise_short:
  "tokenise u lx = Inr (ts, l) \<Longrightarrow> lex_inv d b lx \<Longrightarrow> \<forall>t\<in>set ts. short_at (length (source lx)) t"
proof (induction u lx arbitrary: d b ts l rule: tokenise.induct)
  case (1 u lx)
  then obtain t l1 where n: "next_token u lx = Inr (t, l1)"
    by (auto simp: tokenise.simps [of u lx] split: sum.splits)
  note sh = next_token_short [OF n "1.prems"(2)]
  show ?case
  proof (cases "t_kind t = Eof")
    case True
    with n "1.prems" sh show ?thesis by (auto simp: tokenise.simps [of u lx])
  next
    case False
    then obtain ts' l' where r: "tokenise u l1 = Inr (ts', l')" "ts = t # ts'"
      using n "1.prems"(1) by (auto simp: tokenise.simps [of u lx] split: sum.splits)
    from next_token_step [OF n "1.prems"(2)] False obtain d' where
      "source l1 = source lx" "lex_inv d' (fst (t_span t)) l1" by (auto simp: token_step_def)
    with "1.IH" [OF n refl False r(1)] r(2) sh show ?thesis by auto
  qed
qed

lemma tokenise_new:
  assumes "tokenise u (lexer_new src fid) = Inr (ts, l)"
  shows "ts \<noteq> []" "t_kind (last ts) = Eof" "\<forall>t\<in>set ts. t_kind t = Lit FString \<longrightarrow> length (t_value t) \<le> length src"
  using tokenise_stream [OF lex_inv_new [of src fid], of u] tokenise_short [OF assms lex_inv_new] assms
  by (auto simp: stream_ok_def lexer_new_fields short_at_def)

end
