(* ===== verification/StmtTotal.thy ===== *)
theory StmtTotal
  imports ParserTotal StringLength
begin

text \<open>
  Statements, declarations and programs read a token or fail; with them every rule of the grammar, and
  \<open>parse_tokens\<close> returns a program or an error for every token list that the lexer makes.
\<close>

context rules_ok
begin

lemma okp_cond_block [okp_rules]: "n' \<le> Suc n \<Longrightarrow> okp m K n' c (cond_block u g)"
  by (rule okp_same) (simp add: cond_block_def okp_rules)

lemma okp_if_clauses [okp_rules]: "n' \<le> n \<Longrightarrow> n' \<le> k \<Longrightarrow> okp m K n' False (if_clauses k u g)"
proof (induction k arbitrary: K n')
  case 0
  then show ?case by (simp add: okr_zero)
next
  case (Suc k)
  then show ?case by (simp add: Let_def okp_rules)
qed

lemma okp_loop_else [okp_rules]: "n' \<le> n \<Longrightarrow> okp m K n' False (loop_else g)"
  by (rule okr_univ) (simp add: loop_else_def okp_rules)

lemma okp_if [okp_rules]: "n' \<le> Suc n \<Longrightarrow> okp m K n' c (parse_if u g)"
  by (rule okp_same) (simp add: parse_if_def okp_rules)

lemma okp_while [okp_rules]: "n' \<le> Suc n \<Longrightarrow> okp m K n' c (parse_while u g)"
  by (rule okp_same) (simp add: parse_while_def okp_rules)

lemma okp_for [okp_rules]: "n' \<le> Suc n \<Longrightarrow> okp m K n' c (parse_for u g)"
  by (rule okp_same) (simp add: parse_for_def okp_rules)

lemma okp_with_item [okp_rules]: "n' \<le> Suc n \<Longrightarrow> okp m K n' c (parse_with_item u g)"
  by (rule okp_same) (simp add: parse_with_item_def okp_rules split: expr_kind_of.split type_kind_of.split)

lemma okp_with_items [okp_rules]: "n' \<le> n \<Longrightarrow> n' \<le> k \<Longrightarrow> okp m K n' c (with_items k u g)"
proof (induction k arbitrary: K n' c)
  case 0
  then show ?case by (simp add: okr_zero)
next
  case (Suc k)
  then show ?case by (simp add: okp_rules)
qed

lemma okp_with [okp_rules]: "n' \<le> Suc n \<Longrightarrow> okp m K n' c (parse_with u g)"
  by (rule okp_same) (simp add: parse_with_def okp_rules)

subsubsection \<open>Foreign imports\<close>

lemma okp_ffi_field [okp_rules]: "n' \<le> n \<Longrightarrow> okp m K n' c (parse_ffi_field g)"
  by (rule okp_same) (simp add: parse_ffi_field_def okp_rules)

lemma okp_ffi_struct [okp_rules]: "n' \<le> n \<Longrightarrow> okp m K n' c (parse_ffi_struct_def g b)"
  by (rule okp_same) (simp add: parse_ffi_struct_def_def okp_rules)

lemma okp_ffi_var [okp_rules]: "n' \<le> n \<Longrightarrow> okp m K n' c (parse_ffi_var_def g)"
  by (rule okp_same) (simp add: parse_ffi_var_def_def okp_rules)

lemma okp_ffi_const [okp_rules]: "n' \<le> n \<Longrightarrow> okp m K n' c (parse_ffi_const_def g)"
  by (rule okp_same) (simp add: parse_ffi_const_def_def okp_rules)

lemma okp_name_decorator [okp_rules]: "okp m K n' c (name_decorator b)"
  by (rule okp_same) (simp add: name_decorator_def okp_rules)

lemma okp_ffi_decorators [okp_rules]: "n' \<le> k \<Longrightarrow> okp m K n' False (ffi_decorators k)"
proof (induction k arbitrary: K n')
  case 0
  then show ?case by (simp add: okr_zero)
next
  case (Suc k)
  then show ?case by (simp add: okp_rules)
qed

lemma okp_ffi_params [okp_rules]: "n' \<le> n \<Longrightarrow> n' \<le> k \<Longrightarrow> okp m K n' False (ffi_params k g)"
proof (induction k arbitrary: K n')
  case 0
  then show ?case by (simp add: okr_zero)
next
  case (Suc k)
  then show ?case by (simp add: okp_rules)
qed

lemma okp_ffi_fn [okp_rules]: "n' \<le> n \<Longrightarrow> okp m K n' c (parse_ffi_fn_sig g)"
  by (rule okp_same) (simp add: parse_ffi_fn_sig_def okp_rules)

lemma okp_py_param [okp_rules]: "n' \<le> n \<Longrightarrow> okp m K n' c (parse_py_param g)"
  by (rule okp_same) (simp add: parse_py_param_def okp_rules)

lemma okp_py_fn [okp_rules]: "n' \<le> n \<Longrightarrow> okp m K n' c (parse_py_fn_sig g)"
  by (rule okp_same) (simp add: parse_py_fn_sig_def okp_rules)

lemma okp_py_item [okp_rules]: "n' \<le> n \<Longrightarrow> okp m K n' c (py_block_item g)"
  by (rule okp_same) (simp add: py_block_item_def okp_rules)

lemma okp_native_item [okp_rules]: "n' \<le> n \<Longrightarrow> okp m K n' c (native_block_item g)"
  by (rule okp_same) (simp add: native_block_item_def okp_rules)

lemma okp_import_block [okp_rules]:
  "okp m UNIV n True item \<Longrightarrow> okp m UNIV n' False otherwise \<Longrightarrow> n' \<le> n \<Longrightarrow>
     okp m K n' False (import_block g item otherwise)"
proof (rule okr_univ)
  assume a: "okp m UNIV n True item" "okp m UNIV n' False otherwise" "n' \<le> n"
  have "okp m K i c item" if "i \<le> n" for i K c by (rule okp_any [OF a(1) that])
  moreover have "okp m K n' False otherwise" for K by (rule okr_univ [OF a(2)])
  ultimately show "okp m UNIV n' False (import_block g item otherwise)"
    using a(3) by (simp add: import_block_def okp_rules)
qed

lemma okp_py_import [okp_rules]: "n' \<le> n \<Longrightarrow> okp m K n' False (parse_py_import g t)"
  by (rule okr_univ) (simp add: parse_py_import_def okp_rules)

lemma okp_native_import [okp_rules]: "n' \<le> n \<Longrightarrow> okp m K n' False (parse_native_import g t)"
  by (rule okr_univ) (simp add: parse_native_import_def okp_rules)

lemma okp_module_path [okp_rules]: "n' \<le> n \<Longrightarrow> okp m K n' c (module_path g)"
  by (rule okp_same) (simp add: module_path_def okp_rules)

lemma okp_import [okp_rules]: "n' \<le> Suc n \<Longrightarrow> okp m K n' c (parse_import g)"
  by (rule okp_same) (simp add: parse_import_def okp_rules)

lemma okp_import_name [okp_rules]: "okp m K n' c import_name"
  by (rule okp_same) (simp add: import_name_def okp_rules)

lemma okp_from_import [okp_rules]: "n' \<le> Suc n \<Longrightarrow> okp m K n' c (parse_from_import g)"
  by (rule okp_same) (simp add: parse_from_import_def okp_rules)

subsubsection \<open>Simple statements\<close>

lemma okp_return [okp_rules]: "n' \<le> Suc n \<Longrightarrow> okp m K n' c (parse_return u g)"
  by (rule okp_same) (simp add: parse_return_def okp_rules)

lemma okp_assert [okp_rules]: "n' \<le> Suc n \<Longrightarrow> okp m K n' c (parse_assert u g)"
  by (rule okp_same) (simp add: parse_assert_def okp_rules)

lemma okp_type_alias [okp_rules]: "n' \<le> Suc n \<Longrightarrow> Eof \<notin> K \<Longrightarrow> okp m K n' c (parse_type_alias g)"
  by (rule okp_weaken) (simp add: parse_type_alias_def okp_rules)

lemma okp_let_names [okp_rules]: "n' \<le> k \<Longrightarrow> okp m K n' c (let_names k st names)"
proof (induction k arbitrary: K n' c st names)
  case 0
  then show ?case by (simp add: okr_zero)
next
  case (Suc k)
  then show ?case by (simp add: okp_rules)
qed

lemma okp_value_for [okp_rules]: "n' \<le> Suc n \<Longrightarrow> okp m K n' c (value_for u g xs)"
  by (rule okp_same) (simp add: value_for_def okp_rules)

lemma okp_let [okp_rules]: "n' \<le> Suc n \<Longrightarrow> okp m K n' c (parse_let u g)"
  by (rule okp_same) (simp add: parse_let_def okp_rules)

lemma okp_const [okp_rules]: "n' \<le> Suc n \<Longrightarrow> okp m K n' c (parse_const u g)"
  by (rule okp_same) (simp add: parse_const_def okp_rules)

lemma okp_rewrite_starred [okp_rules]: "okp m K n' False (rewrite_starred_targets t e)"
  by (simp add: rewrite_starred_targets_def okp_rules split: expr_kind_of.split list.split)

lemma okr_target_error [okp_rules]: "okr m K n' C (target_error t e k)"
  by (simp add: target_error_def okp_rules)

lemma okp_expr_or_assign [okp_rules]: "n' \<le> Suc n \<Longrightarrow> okp m K n' c (parse_expr_or_assign u g)"
  by (rule okp_same) (simp add: parse_expr_or_assign_def okp_rules)

lemma okp_type_param [okp_rules]: "n' \<le> n \<Longrightarrow> okp m K n' c (type_param g)"
  by (rule okp_same) (simp add: type_param_def okp_rules)

lemma okp_type_params [okp_rules]: "n' \<le> n \<Longrightarrow> okp m K n' False (parse_type_params g)"
  by (rule okr_univ) (simp add: parse_type_params_def okp_rules)

lemma okp_unsafe [okp_rules]: "n' \<le> Suc n \<Longrightarrow> Eof \<notin> K \<Longrightarrow> okp m K n' c (parse_unsafe_stmt g)"
  by (rule okp_weaken) (simp add: parse_unsafe_stmt_def okp_rules)

lemma okp_defer [okp_rules]: "n' \<le> Suc n \<Longrightarrow> okp m K n' c (parse_defer u g)"
  by (rule okp_same) (simp add: parse_defer_def okp_rules)

subsubsection \<open>Declarations\<close>

lemma okp_fn [okp_rules]: "n' \<le> Suc n \<Longrightarrow> okp m K n' c (parse_fn g b)"
  by (rule okp_same) (simp add: parse_fn_def okp_rules)

lemma okp_async_stmt [okp_rules]: "n' \<le> Suc n \<Longrightarrow> Eof \<notin> K \<Longrightarrow> okp m K n' c (parse_async_stmt g)"
  by (rule okp_weaken) (simp add: parse_async_stmt_def okp_rules)

lemma okp_struct_field [okp_rules]: "n' \<le> Suc n \<Longrightarrow> okp m K n' c (parse_struct_field u g)"
  by (rule okp_same) (simp add: parse_struct_field_def okp_rules)

lemma okp_struct_item [okp_rules]: "n' \<le> n \<Longrightarrow> okp m K n' c (struct_item u g)"
  unfolding struct_item_def by (rule okp_same, rule okr_diag) (simp add: okp_rules)

lemma okp_decl_block [okp_rules]:
  "okp m UNIV n True item \<Longrightarrow> n' \<le> n \<Longrightarrow> okp m K n' False (decl_block g item)"
proof (rule okr_univ)
  assume a: "okp m UNIV n True item" "n' \<le> n"
  have "okp m K i c item" if "i \<le> n" for i K c by (rule okp_any [OF a(1) that])
  with a(2) show "okp m UNIV n' False (decl_block g item)" by (simp add: decl_block_def okp_rules)
qed

lemma okp_struct [okp_rules]: "n' \<le> Suc n \<Longrightarrow> okp m K n' c (parse_struct u g)"
  by (rule okp_same) (simp add: parse_struct_def okp_rules)

lemma okp_impl [okp_rules]: "n' \<le> Suc n \<Longrightarrow> okp m K n' c (parse_impl u g)"
  by (rule okp_same) (simp add: parse_impl_def Let_def okp_rules)

lemma okp_trait [okp_rules]: "n' \<le> Suc n \<Longrightarrow> okp m K n' c (parse_trait g)"
  by (rule okp_same) (simp add: parse_trait_def okp_rules)

lemma okp_variant [okp_rules]: "n' \<le> Suc n \<Longrightarrow> okp m K n' c (parse_variant u g)"
  by (rule okp_same) (simp add: parse_variant_def okp_rules)

lemma okp_enum_item [okp_rules]: "n' \<le> n \<Longrightarrow> okp m K n' c (enum_item u g)"
  by (rule okp_same) (simp add: enum_item_def okp_rules)

lemma okp_enum [okp_rules]: "n' \<le> Suc n \<Longrightarrow> okp m K n' c (parse_enum u g)"
  by (rule okp_same) (simp add: parse_enum_def okp_rules)

lemma okp_directive_names [okp_rules]: "n' \<le> k \<Longrightarrow> okp m K n' False (directive_names k)"
proof (induction k arbitrary: K n')
  case 0
  then show ?case by (simp add: okr_zero)
next
  case (Suc k)
  then show ?case by (simp add: okp_rules)
qed

lemma okp_decorator_lines: "n' \<le> n \<Longrightarrow> n' \<le> k \<Longrightarrow> okp m K n' False (decorator_lines k g)"
proof (induction k arbitrary: K n')
  case 0
  then show ?case by (simp add: okr_zero)
next
  case (Suc k)
  then show ?case by (simp add: okp_rules)
qed

lemma bindp_assoc: "bindp (bindp f h) k = bindp f (\<lambda>x. bindp (h x) k)"
  by (rule ext) (auto simp: bindp_def split: sum.splits)

lemma okp_decorators [okp_rules]:
  assumes "n' \<le> Suc n" "K \<subseteq> {Pn AtSign, Pn Hash}"
  shows "okp m K n' True (decorator_lines (fuel g) g)"
proof (cases n)
  case 0
  then show ?thesis using assms by (intro okr_end) auto
next
  case (Suc k)
  have "okr m K n' (\<lambda>_. True) (decorator_lines (Suc k) g)"
    unfolding decorator_lines.simps
    by (rule okr_peek_kind) (use assms Suc okp_decorator_lines [of _ k] in \<open>auto simp: bindp_assoc okp_rules\<close>)
  with Suc show ?thesis by simp
qed

lemma okp_with_decorators [okp_rules]: "okp m K n' False (with_decorators ds s)"
  by (simp add: with_decorators_def okp_rules split: stmt_kind.split)

lemma okp_decorated [okp_rules]:
  "n' \<le> Suc n \<Longrightarrow> K \<subseteq> {Pn AtSign, Pn Hash} \<Longrightarrow> okp m K n' c (parse_decorated g)"
  by (rule okp_weaken) (simp add: parse_decorated_def okp_rules split: stmt_kind.split del: fuel_enough)

lemma okp_keyword [okp_rules]: "n' \<le> Suc n \<Longrightarrow> Eof \<notin> K \<Longrightarrow> okp m K n' c (keyword_stmt k)"
  by (rule okp_weaken) (simp add: keyword_stmt_def okp_rules)

lemma okp_stmt_inner [okp_rules]: "n' \<le> Suc n \<Longrightarrow> okp m K n' c (parse_stmt_inner u g)"
  unfolding parse_stmt_inner_def
  by (rule okp_weaken, rule okr_peek_tok, rule okr_peek_at, rule okr_peek_at)
    (simp add: okp_rules split: token_kind.split literal_kind.split keyword.split punctuation.split)

lemma okp_stmt [okp_rules]: "n' \<le> Suc n \<Longrightarrow> okp m K n' c (parse_stmt u g)"
  using okr_nested [of m K n' "\<lambda>_. c" "parse_stmt_inner u g" "fail_here BlockNestedTooDeeply"]
  by (simp add: parse_stmt_def [abs_def] okp_rules cong: if_cong)

lemma okp_program_items [okp_rules]:
  "n' \<le> Suc n \<Longrightarrow> n' \<le> k \<Longrightarrow> okp m K n' False (program_items k (parse_stmt u g))"
proof (induction k arbitrary: K n')
  case 0
  then show ?case by (simp add: okr_zero)
next
  case (Suc k)
  then show ?case by (simp add: okp_rules)
qed

lemma okp_program: "okp m UNIV n False (seqp skip_newlines (program_items n (parse_stmt u g)))"
  by (simp add: okp_rules)

end

subsection \<open>The grammar\<close>

lemma grammar_ok: "embed_ok m u \<Longrightarrow> rules_ok m n u (grammar u n)"
proof (induction n)
  case 0
  then show ?case by (simp add: rules_ok_def no_rules_def okr_zero)
next
  case (Suc n)
  then have r: "rules_ok m n u (grammar u n)" by simp
  show ?case
    by (rule rules_ok.intro)
      (simp_all add: Suc.prems rules_ok.okp_type_expr [OF r] rules_ok.okp_single_type [OF r]
        rules_ok.okp_expr [OF r] rules_ok.okp_range [OF r] rules_ok.okp_logical [OF r] rules_ok.okp_not [OF r]
        rules_ok.okp_unary [OF r] rules_ok.okp_pattern [OF r] rules_ok.okp_stmt [OF r])
qed

lemma parser_new_wf:
  assumes "ts \<noteq> []" "t_kind (last ts) = Eof" "\<forall>t\<in>set ts. t_kind t = Lit FString \<longrightarrow> length (t_value t) \<le> m"
  shows "parser_wf m (parser_new ts)" "left_of (parser_new ts) = length ts"
  using assms by (simp_all add: parser_wf_def parser_new_def left_of_def)

lemma okr_settled:
  assumes "okr m UNIV n C f" "parser_wf m p" "left_of p \<le> n"
  shows "settled (f p)"
  using okrD [OF assms(1,2) UNIV_I assms(3)]
  by (auto simp: result_ok_def settled_def split: sum.splits failure.splits)

lemma lex_failure_settled: "f \<noteq> LexPanic \<Longrightarrow> lex_failure f \<noteq> Panic \<and> lex_failure f \<noteq> NoFuel"
  by (cases f) (auto simp: lex_failure_def)

text \<open>An f-string's expression is shorter than the f-string, so the levels of \<open>parse_embedded\<close> suffice.\<close>

lemma embedded_settled: "length s < k \<Longrightarrow> settled (parse_embedded u k s fid)"
proof (induction k arbitrary: s fid)
  case (Suc k)
  let ?u = "u\<lparr>embedded := parse_embedded u k\<rparr>"
  have e: "embed_ok k ?u" using Suc.IH by (simp add: embed_ok_def)
  show ?case
  proof (cases "tokenise (unicode.truncate u) (lexer_new s fid)")
    case (Inl f)
    with tokenise_stream [OF lex_inv_new [of s fid], of "unicode.truncate u"]
    show ?thesis by (simp add: settled_def lex_failure_settled)
  next
    case (Inr r)
    obtain ts l where t: "tokenise (unicode.truncate u) (lexer_new s fid) = Inr (ts, l)" using Inr by (cases r) simp
    have wf: "parser_wf k (parser_new ts)" "left_of (parser_new ts) = length ts"
      using parser_new_wf [of ts k] tokenise_new [OF t] Suc.prems by (force+)
    have "settled (parse_expr ?u (grammar ?u (length ts)) (parser_new ts))"
      by (rule okr_settled [OF rules_ok.okp_expr [OF grammar_ok [OF e] le_SucI [OF le_refl]] wf(1)]) (simp add: wf(2))
    with t show ?thesis by (auto simp: settled_def nested_failure_def split: sum.splits failure.splits)
  qed
qed simp


lemma embedded_ok: "embed_ok k (u\<lparr>embedded := parse_embedded u k\<rparr>)"
  by (simp add: embed_ok_def embedded_settled)

interpretation nested: rules_ok k n "u\<lparr>embedded := parse_embedded u k\<rparr>"
    "grammar (u\<lparr>embedded := parse_embedded u k\<rparr>) n" for k n u
  by (rule grammar_ok [OF embedded_ok])

lemma parse_tokens_settled:
  assumes "ts \<noteq> []" "t_kind (last ts) = Eof" "\<forall>t\<in>set ts. t_kind t = Lit FString \<longrightarrow> length (t_value t) \<le> k"
  shows "settled (parse_tokens u k ts)"
proof -
  let ?u = "u\<lparr>embedded := parse_embedded u k\<rparr>"
  have "settled (parse_program ?u (length ts) (parser_new ts))"
    unfolding parse_program_def
    by (rule okr_settled [OF nested.okp_program parser_new_wf(1) [OF assms]]) (simp add: parser_new_wf(2) [OF assms])
  then show ?thesis by (auto simp: parse_tokens_def settled_def split: sum.splits)
qed

text \<open>
  C7. The parser is total: every token list that the lexer makes from a text is parsed to a program, or
  to an error of the source. No token is read past the end of the list, no loop runs on, and the bounds
  on the levels of the grammar (the count of the tokens) and of f-strings (the length of the text) are
  never reached.
\<close>

theorem parser_total:
  "case lex (unicode.truncate u) src fid of
     Inl _ \<Rightarrow> True
   | Inr (ts, _) \<Rightarrow>
       (case parse_tokens u (length (normalize_newlines src)) ts of
          Inl e \<Rightarrow> \<exists>pe. e = Failed pe
        | Inr _ \<Rightarrow> True)"
proof (cases "lex (unicode.truncate u) src fid")
  case (Inr r)
  obtain ts l where r: "r = (ts, l)" by (cases r)
  with Inr have "tokenise (unicode.truncate u) (lexer_new (normalize_newlines src) fid) = Inr (ts, l)"
    by (simp add: lex_def)
  from parse_tokens_settled [OF tokenise_new [OF this]]
  have "settled (parse_tokens u (length (normalize_newlines src)) ts)" .
  with Inr r show ?thesis
    by (auto simp: settled_def split: sum.splits) (metis failure.exhaust)
qed simp

end
