(* ===== verification/TypeRoundtrip.thy ===== *)
theory TypeRoundtrip
  imports ParserLogic
begin

text \<open>
  Type expressions written down and read back. \<open>type_toks\<close> spells a type expression in tokens, in the
  order of the \<open>Display\<close> of \<open>parser/ast.rs\<close>; the parser reads it back, up to the positions.
\<close>

type_synonym lexeme = "token_kind \<times> ustring"

definition lexeme_of :: "token \<Rightarrow> lexeme" where
  "lexeme_of t = (t_kind t, t_value t)"

subsection \<open>Spelling\<close>

abbreviation punct :: "punctuation \<Rightarrow> string \<Rightarrow> lexeme" where
  "punct k s \<equiv> (Pn k, cps s)"

fun comma_sep :: "lexeme list list \<Rightarrow> lexeme list" where
  "comma_sep [] = []"
| "comma_sep [x] = x"
| "comma_sep (x # y # xs) = x @ punct Comma '','' # comma_sep (y # xs)"

definition name_lexeme :: "ustring \<Rightarrow> lexeme" where
  "name_lexeme n = (if n = cps ''None'' then (Kw KwNull, n) else (Lit Identifier, n))"

definition dotted :: "ustring list \<Rightarrow> lexeme list" where
  "dotted parts = (Lit Identifier, hd parts) # concat (map (\<lambda>x. [punct Dot ''.'', (Lit Identifier, x)]) (tl parts))"

fun type_toks :: "'s type_expr_of \<Rightarrow> lexeme list" and kind_toks :: "'s type_kind_of \<Rightarrow> lexeme list" where
  "type_toks (TypeExpr k _) = kind_toks k"
| "kind_toks (TeName n) = [name_lexeme n]"
| "kind_toks (TeQualified parts) = dotted parts"
| "kind_toks (TeGeneric n args) =
     [(Lit Identifier, n), punct LBracket ''[''] @ comma_sep (map type_toks args) @ [punct RBracket '']'']"
| "kind_toks (TeTuple args) = punct LParen ''('' # comma_sep (map type_toks args) @ [punct RParen '')'']"
| "kind_toks (TeList t) = punct LBracket ''['' # type_toks t @ [punct RBracket '']'']"
| "kind_toks (TeDict a b) =
     punct LBrace ''{'' # type_toks a @ punct Colon '':'' # type_toks b @ [punct RBrace ''}'']"
| "kind_toks (TeUnion a b) = type_toks a @ (Opr Pipe, cps ''|'') # type_toks b"
| "kind_toks (TeFn params r) =
     [(Kw KwFn, cps ''fn''), punct LParen ''(''] @ comma_sep (map type_toks params)
       @ [punct RParen '')'', punct Arrow ''->''] @ type_toks r"
| "kind_toks (TeRef t) = (Opr Ampersand, cps ''&'') # type_toks t"
| "kind_toks (TeMutRef t) = (Opr Ampersand, cps ''&'') # (Kw KwMut, cps ''mut'') # type_toks t"
| "kind_toks (TePtr t) = (Opr Star, cps ''*'') # type_toks t"
| "kind_toks (TeFixedArray t n) =
     punct LBracket ''['' # type_toks t
       @ [punct Semicolon '';'', (Lit IntegerTok, cps (show_nat n)), punct RBracket '']'']"

text \<open>
  What has a spelling of its own: an element of a union is no union, and only its last element may end
  in the result of a function type; \<open>&A | B\<close> is a union of a reference. How deep the brackets that the
  parser counts are nested is \<open>guards\<close>.
\<close>

definition is_union :: "'s type_expr_of \<Rightarrow> bool" where
  "is_union t = (case te_kind t of TeUnion _ _ \<Rightarrow> True | _ \<Rightarrow> False)"

fun open_end :: "'s type_expr_of \<Rightarrow> bool" and open_kind :: "'s type_kind_of \<Rightarrow> bool" where
  "open_end (TypeExpr k _) = open_kind k"
| "open_kind (TeFn _ _) = True"
| "open_kind (TeRef t) = open_end t"
| "open_kind (TeMutRef t) = open_end t"
| "open_kind (TePtr t) = open_end t"
| "open_kind (TeUnion _ b) = open_end b"
| "open_kind _ = False"

fun wf_type :: "'s type_expr_of \<Rightarrow> bool" and wf_kind :: "'s type_kind_of \<Rightarrow> bool" where
  "wf_type (TypeExpr k _) = wf_kind k"
| "wf_kind (TeName n) = True"
| "wf_kind (TeQualified parts) = (1 < length parts)"
| "wf_kind (TeGeneric n args) = list_all wf_type args"
| "wf_kind (TeTuple args) = list_all wf_type args"
| "wf_kind (TeList t) = wf_type t"
| "wf_kind (TeDict a b) = (wf_type a \<and> wf_type b)"
| "wf_kind (TeUnion a b) = (wf_type a \<and> wf_type b \<and> \<not> is_union b \<and> \<not> open_end a)"
| "wf_kind (TeFn params r) = (list_all wf_type params \<and> wf_type r)"
| "wf_kind (TeRef t) = (wf_type t \<and> \<not> is_union t)"
| "wf_kind (TeMutRef t) = (wf_type t \<and> \<not> is_union t)"
| "wf_kind (TePtr t) = (wf_type t \<and> \<not> is_union t)"
| "wf_kind (TeFixedArray t n) = (wf_type t \<and> n < 2 ^ 64)"

definition max_of :: "nat list \<Rightarrow> nat" where
  "max_of xs = foldr max xs 0"

fun guards :: "'s type_expr_of \<Rightarrow> nat" and kind_guards :: "'s type_kind_of \<Rightarrow> nat" where
  "guards (TypeExpr k _) = kind_guards k"
| "kind_guards (TeGeneric n args) = Suc (max_of (map guards args))"
| "kind_guards (TeTuple args) = Suc (max_of (map guards args))"
| "kind_guards (TeList t) = guards t"
| "kind_guards (TeDict a b) = max (guards a) (guards b)"
| "kind_guards (TeUnion a b) = max (guards a) (guards b)"
| "kind_guards (TeFn params r) = Suc (max (max_of (map guards params)) (guards r))"
| "kind_guards (TeRef t) = guards t"
| "kind_guards (TeMutRef t) = guards t"
| "kind_guards (TePtr t) = guards t"
| "kind_guards (TeFixedArray t n) = guards t"
| "kind_guards _ = 0"

text \<open>A type expression without its positions.\<close>

definition bare :: "'s type_expr_of \<Rightarrow> unit type_expr_of" where
  "bare t = map_type_expr_of (\<lambda>_. ()) t"

subsection \<open>Reading a given spelling\<close>

definition spelled :: "lexeme list \<Rightarrow> parser \<Rightarrow> bool" where
  "spelled ks p \<longleftrightarrow>
     ppos p + length ks < length (tokens p) \<and>
     (\<forall>i<length ks. lexeme_of (tokens p ! (ppos p + i)) = ks ! i)"

definition moved :: "nat \<Rightarrow> parser \<Rightarrow> parser" where
  "moved n p = p\<lparr>ppos := ppos p + n\<rparr>"

text \<open>
  \<open>reads f ks N d P\<close>: on the lexemes \<open>ks\<close>, with a token of \<open>N\<close> after them and \<open>d\<close> levels of nesting
  free, \<open>f\<close> reads just these lexemes and gives a result with \<open>P\<close>.
\<close>

definition reads :: "'a parse \<Rightarrow> lexeme list \<Rightarrow> token_kind set \<Rightarrow> nat \<Rightarrow> ('a \<Rightarrow> bool) \<Rightarrow> bool" where
  "reads f ks N d P \<longleftrightarrow>
     (\<forall>p. spelled ks p \<longrightarrow> t_kind (tokens p ! (ppos p + length ks)) \<in> N \<longrightarrow>
        depth p + d \<le> max_nesting_depth \<longrightarrow> (\<exists>x. f p = Inr (x, moved (length ks) p) \<and> P x))"

definition after_kinds :: "lexeme list \<Rightarrow> token_kind set \<Rightarrow> token_kind set" where
  "after_kinds ks N = (case ks of [] \<Rightarrow> N | k # _ \<Rightarrow> {fst k})"

lemma after_kinds_simps [simp]: "after_kinds [] N = N" "after_kinds (k # ks) N = {fst k}"
  by (simp_all add: after_kinds_def)

lemma spelled_append:
  "spelled (ks @ js) p \<Longrightarrow> spelled ks p \<and> spelled js (moved (length ks) p)"
  by (auto simp: spelled_def moved_def nth_append add.assoc dest: spec [of _ "length ks + _"])

lemma readsD:
  assumes "reads f ks N d P" "spelled ks p" "t_kind (tokens p ! (ppos p + length ks)) \<in> N"
    "depth p + d \<le> max_nesting_depth"
  obtains x where "f p = Inr (x, moved (length ks) p)" "P x"
  using assms by (auto simp: reads_def)

lemma reads_mono:
  "reads f ks N d P \<Longrightarrow> N' \<subseteq> N \<Longrightarrow> d \<le> d' \<Longrightarrow> (\<And>x. P x \<Longrightarrow> Q x) \<Longrightarrow> reads f ks N' d' Q"
  unfolding reads_def by (meson add_left_mono order_trans subsetD)

lemma next_after:
  assumes "spelled (ks @ js) p" "t_kind (tokens p ! (ppos p + length (ks @ js))) \<in> N"
  shows "t_kind (tokens p ! (ppos p + length ks)) \<in> after_kinds js N"
proof (cases js)
  case (Cons j js')
  with assms(1) have "lexeme_of (tokens p ! (ppos p + length ks)) = j"
    unfolding spelled_def by (auto dest: spec [of _ "length ks"])
  with Cons show ?thesis by (auto simp: lexeme_of_def)
qed (use assms in simp)

lemma reads_bind:
  assumes f: "reads f ks (after_kinds js N) d P" and g: "\<And>x. P x \<Longrightarrow> reads (g x) js N d Q"
  shows "reads (bindp f g) (ks @ js) N d Q"
  unfolding reads_def
proof (intro allI impI)
  fix p assume p: "spelled (ks @ js) p" "t_kind (tokens p ! (ppos p + length (ks @ js))) \<in> N"
    "depth p + d \<le> max_nesting_depth"
  obtain x where x: "f p = Inr (x, moved (length ks) p)" "P x"
    by (rule readsD [OF f _ next_after [OF p(1,2)] p(3)]) (use p(1) spelled_append in blast)
  obtain y where y: "g x (moved (length ks) p) = Inr (y, moved (length js) (moved (length ks) p))" "Q y"
  proof (rule readsD [OF g [OF x(2)]])
    show "spelled js (moved (length ks) p)" using p(1) spelled_append by blast
    show "t_kind (tokens (moved (length ks) p) ! (ppos (moved (length ks) p) + length js)) \<in> N"
      using p(2) by (simp add: moved_def add.assoc)
    show "depth (moved (length ks) p) + d \<le> max_nesting_depth" using p(3) by (simp add: moved_def)
  qed
  from x(1) y show "\<exists>y. bindp f g p = Inr (y, moved (length (ks @ js)) p) \<and> Q y"
    by (simp add: bindp_def moved_def add.assoc)
qed

lemma reads_seq: "reads f [k] (after_kinds js N) d P \<Longrightarrow> reads g js N d Q \<Longrightarrow> reads (seqp f g) (k # js) N d Q"
  using reads_bind [of f "[k]" js N d P "\<lambda>_. g" Q] by (simp add: seqp_def)

lemma reads_bind1:
  "reads f [k] (after_kinds js N) d P \<Longrightarrow> (\<And>x. P x \<Longrightarrow> reads (g x) js N d Q) \<Longrightarrow> reads (bindp f g) (k # js) N d Q"
  using reads_bind [of f "[k]" js N d P g Q] by simp

lemma reads_ret: "Q x \<Longrightarrow> reads (ret x) [] N d Q"
  by (simp add: reads_def ret_def moved_def)

lemma spelled_one: "spelled (k # ks) p \<Longrightarrow> idx (tokens p) (ppos p) = Some (tokens p ! ppos p) \<and> lexeme_of (tokens p ! ppos p) = k"
  by (force simp: spelled_def idx_def)

lemma reads_advance: "k \<noteq> Eof \<Longrightarrow> reads advance_tok [(k, v)] N d (\<lambda>t. lexeme_of t = (k, v))"
  unfolding reads_def
  by (auto simp: advance_tok_def bindp_def peek_tok_def seqp_def step_pos_def ret_def moved_def lexeme_of_def
      dest!: spelled_one)

lemma reads_expect: "k \<noteq> Eof \<Longrightarrow> reads (expect k) [(k, v)] N d (\<lambda>t. lexeme_of t = (k, v))"
  unfolding reads_def
  by (auto simp: expect_def bindp_def peek_tok_def seqp_def step_pos_def ret_def moved_def lexeme_of_def
      dest!: spelled_one)

lemma reads_peek_tok:
  "(\<And>t. t_kind t \<in> after_kinds ks N \<Longrightarrow> reads (g t) ks N d Q) \<Longrightarrow> reads (bindp peek_tok g) ks N d Q"
  using next_after [of "[]" ks]
  by (simp add: reads_def bindp_def peek_tok_def idx_def spelled_def)

lemma reads_peek_kind:
  "(\<And>k. k \<in> after_kinds ks N \<Longrightarrow> reads (g k) ks N d Q) \<Longrightarrow> reads (bindp peek_kind g) ks N d Q"
proof -
  assume g: "\<And>k. k \<in> after_kinds ks N \<Longrightarrow> reads (g k) ks N d Q"
  have "bindp peek_kind g = bindp peek_tok (\<lambda>t. g (t_kind t))"
    by (rule ext) (auto simp: peek_kind_def bindp_def ret_def split: sum.splits)
  with g show ?thesis by (auto intro: reads_peek_tok)
qed

lemma reads_if_yes: "after_kinds ks N = {k} \<Longrightarrow> reads f ks N d Q \<Longrightarrow> reads (if_kind k f g) ks N d Q"
  unfolding if_kind_def by (rule reads_peek_kind) simp

lemma reads_if_no: "k \<notin> after_kinds ks N \<Longrightarrow> reads g ks N d Q \<Longrightarrow> reads (if_kind k f g) ks N d Q"
  unfolding if_kind_def by (rule reads_peek_kind) auto

lemma reads_type_node: "reads (type_node start k) [] N d (\<lambda>t. te_kind t = k)"
proof -
  have "\<exists>sp. span_from start p = Inr (sp, p)" if "ppos p < length (tokens p)" for p
  proof -
    have "last_solid (tokens p) (ppos p) - 1 < length (tokens p)"
      using last_solid_le [of "tokens p" "ppos p"] that by linarith
    then show ?thesis by (auto simp: span_from_def Let_def idx_def)
  qed
  then show ?thesis
    by (force simp: reads_def type_node_def bindp_def spelled_def ret_def moved_def)
qed

lemma reads_enter: "reads f ks N d P \<Longrightarrow> reads (enter_nested f) ks N (Suc d) P"
  unfolding reads_def
proof (intro allI impI)
  fix p assume r: "\<forall>p. spelled ks p \<longrightarrow> t_kind (tokens p ! (ppos p + length ks)) \<in> N \<longrightarrow>
      depth p + d \<le> max_nesting_depth \<longrightarrow> (\<exists>x. f p = Inr (x, moved (length ks) p) \<and> P x)"
    and p: "spelled ks p" "t_kind (tokens p ! (ppos p + length ks)) \<in> N" "depth p + Suc d \<le> max_nesting_depth"
  let ?q = "p\<lparr>depth := depth p + 1\<rparr>"
  from spec [OF r, of ?q] p obtain x where "f ?q = Inr (x, moved (length ks) ?q)" "P x"
    by (auto simp: spelled_def)
  with p(3) show "\<exists>x. enter_nested f p = Inr (x, moved (length ks) p) \<and> P x"
    by (simp add: enter_nested_def moved_def)
qed


lemma reads_map:
  "reads f ks N d P \<Longrightarrow> (\<And>x. P x \<Longrightarrow> Q (h x)) \<Longrightarrow> reads (bindp f (\<lambda>x. ret (h x))) ks N d Q"
  using reads_bind [of f ks "[]" N d P "\<lambda>x. ret (h x)" Q] by (simp add: reads_ret)

subsection \<open>Lists\<close>

lemma reads_comma_list:
  assumes "\<And>x. x \<in> set xs \<Longrightarrow> reads item (sp x) {Pn Comma, close} d (R x)"
    and "\<And>x. x \<in> set xs \<Longrightarrow> sp x \<noteq> [] \<and> fst (hd (sp x)) \<notin> {close, Eof}"
    and "length xs < k" "close \<noteq> Pn Comma" "close \<noteq> Eof"
  shows "reads (comma_list k close item) (comma_sep (map sp xs)) {close} d (list_all2 R xs)"
  using assms
proof (induction xs arbitrary: k)
  case Nil
  then obtain k' where "k = Suc k'" by (cases k) auto
  then show ?case by (auto intro!: reads_peek_kind reads_ret)
next
  case (Cons x xs)
  then obtain k' where k: "k = Suc k'" "length xs < k'" by (cases k) auto
  obtain l ls where x: "sp x = l # ls" "fst l \<notin> {close, Eof}"
    using Cons.prems(2) [of x] by (cases "sp x") auto
  let ?rest = "if xs = [] then [] else punct Comma '','' # comma_sep (map sp xs)"
  have spell: "comma_sep (map sp (x # xs)) = sp x @ ?rest" by (cases xs) simp_all
  let ?next = "\<lambda>y. if_kind (Pn Comma)
      (seqp advance_tok (bindp (comma_list k' close item) (\<lambda>ys. ret (y # ys)))) (ret [y])"
  have next_ok: "reads (?next y) ?rest {close} d (list_all2 R (x # xs))" if y: "R x y" for y
  proof (cases "xs = []")
    case True
    with y Cons.prems(4) show ?thesis by (auto intro!: reads_if_no reads_ret)
  next
    case False
    have IH: "reads (comma_list k' close item) (comma_sep (map sp xs)) {close} d (list_all2 R xs)"
      by (rule Cons.IH) (use Cons.prems k in auto)
    have "reads (bindp (comma_list k' close item) (\<lambda>ys. ret (y # ys))) (comma_sep (map sp xs)) {close} d
        (list_all2 R (x # xs))"
      by (rule reads_map [OF IH]) (use y in simp)
    with False show ?thesis
      by (auto intro!: reads_if_yes reads_seq [OF reads_advance])
  qed
  have "reads item (sp x) (after_kinds ?rest {close}) d (R x)"
    by (rule reads_mono [OF Cons.prems(1)]) auto
  then have "reads (bindp item ?next) (sp x @ ?rest) {close} d (list_all2 R (x # xs))"
    by (rule reads_bind) (rule next_ok)
  then show ?case unfolding spell k(1) comma_list.simps
    by (intro reads_peek_kind) (use x in auto)
qed

lemma reads_sep_items:
  assumes "\<And>ys x zs. xs = ys @ x # zs \<Longrightarrow> reads item (sp x) (if zs = [] then N else {sep}) d (R x)"
    and "length xs < k" "sep \<notin> N" "sep \<noteq> Eof"
  shows "reads (sep_items k sep item) (concat (map (\<lambda>x. (sep, v) # sp x) xs)) N d (list_all2 R xs)"
  using assms
proof (induction xs arbitrary: k)
  case Nil
  then obtain k' where "k = Suc k'" by (cases k) auto
  with Nil show ?case by (auto intro!: reads_if_no reads_ret)
next
  case (Cons x xs)
  then obtain k' where k: "k = Suc k'" "length xs < k'" by (cases k) auto
  let ?rest = "concat (map (\<lambda>x. (sep, v) # sp x) xs)"
  have IH: "reads (sep_items k' sep item) ?rest N d (list_all2 R xs)"
  proof (rule Cons.IH)
    show "reads item (sp y) (if zs = [] then N else {sep}) d (R y)" if "xs = ys @ y # zs" for ys y zs
      using Cons.prems(1) [of "x # ys" y zs] that by simp
  qed (use Cons.prems k in auto)
  have "reads item (sp x) (after_kinds ?rest N) d (R x)"
    using Cons.prems(1) [of "[]" x xs] by (cases xs) auto
  moreover have "reads (bindp (sep_items k' sep item) (\<lambda>ys. ret (y # ys))) ?rest N d (list_all2 R (x # xs))"
    if "R x y" for y
    by (rule reads_map [OF IH]) (use that in simp)
  ultimately have "reads (bindp item (\<lambda>y. bindp (sep_items k' sep item) (\<lambda>ys. ret (y # ys)))) (sp x @ ?rest) N d
      (list_all2 R (x # xs))"
    by (rule reads_bind)
  with k(1) Cons.prems(4) show ?case
    by (auto intro!: reads_if_yes reads_seq [OF reads_advance])
qed


subsection \<open>Numbers\<close>

lemma digits_value_append:
  "digits_value r a (xs @ ys) = Option.bind (digits_value r a xs) (\<lambda>b. digits_value r b ys)"
  by (induction r a xs rule: digits_value.induct) (auto split: option.splits)

lemma digit_of: "d < 10 \<Longrightarrow> digit_value (48 + d) = Some d"
  by (simp add: digit_value_def)

lemma digits_of_show: "digits_value 10 a (cps (show_nat n)) = Some (a * 10 ^ length (show_nat n) + n)"
proof (induction n arbitrary: a rule: show_nat.induct)
  case (1 n)
  show ?case
  proof (cases "n < 10")
    case True
    then show ?thesis by (simp add: show_nat.simps [of n] cps_def digit_of)
  next
    case False
    have "digits_value 10 a (cps (show_nat (n div 10) @ [char_of (48 + n mod 10)])) =
        Some ((a * 10 ^ length (show_nat (n div 10)) + n div 10) * 10 + n mod 10)"
      using 1 [OF False] digit_of [of "n mod 10"] by (simp add: cps_def digits_value_append)
    with False show ?thesis by (simp add: show_nat.simps [of n] algebra_simps)
  qed
qed

lemma show_nat_head: "\<exists>d cs. d < (10 :: nat) \<and> show_nat n = char_of (48 + d) # cs"
proof (induction n rule: show_nat.induct)
  case (1 n)
  then show ?case by (cases "n < 10") (auto simp: show_nat.simps [of n])
qed

lemma usize_of_show: "n < 2 ^ 64 \<Longrightarrow> usize_from_str (cps (show_nat n)) = Some n"
proof -
  assume n: "n < 2 ^ 64"
  obtain d :: nat and cs where d: "d < 10" "show_nat n = char_of (48 + d) # cs" using show_nat_head by blast
  then have c: "cps (show_nat n) = (48 + d) # cps cs" by (simp add: cps_def of_char_of)
  show ?thesis using digits_of_show [of 0 n] n d(1) unfolding c by (simp add: usize_from_str_def)
qed


subsection \<open>Type expressions\<close>

definition type_follow :: "token_kind set" where
  "type_follow = - {Pn Dot, Pn LBracket, Opr Pipe}"

definition single_follow :: "'s type_expr_of \<Rightarrow> token_kind set" where
  "single_follow t = (if open_end t then type_follow else - {Pn Dot, Pn LBracket})"

definition type_firsts :: "token_kind set" where
  "type_firsts = {Kw KwNull, Lit Identifier, Pn LParen, Pn LBracket, Pn LBrace, Opr Ampersand, Opr Star, Kw KwFn}"

lemma type_toks_first: "type_toks t \<noteq> [] \<and> fst (hd (type_toks t)) \<in> type_firsts"
  and "kind_toks k \<noteq> [] \<and> fst (hd (kind_toks k)) \<in> type_firsts"
  for t :: "'s type_expr_of" and k :: "'s type_kind_of"
  by (induction t and k rule: type_toks_kind_toks.induct)
    (auto simp: type_firsts_def name_lexeme_def dotted_def)

text \<open>\<open>levels_read g n\<close>: the rules of \<open>g\<close> read back type expressions of at most \<open>n\<close> lexemes.\<close>

definition levels_read :: "rules \<Rightarrow> nat \<Rightarrow> bool" where
  "levels_read g n \<longleftrightarrow>
     (\<forall>t :: type_expr. wf_type t \<longrightarrow> length (type_toks t) \<le> n \<longrightarrow>
        reads (r_type g) (type_toks t) type_follow (guards t) (\<lambda>r. bare r = bare t) \<and>
        (\<not> is_union t \<longrightarrow>
           reads (r_single_type g) (type_toks t) (single_follow t) (guards t) (\<lambda>r. bare r = bare t)))"

lemma max_of_ge: "x \<in> set xs \<Longrightarrow> x \<le> max_of xs"
  by (induction xs) (auto simp: max_of_def)

lemma comma_sep_length: "x \<in> set xs \<Longrightarrow> length x \<le> length (comma_sep xs)"
  by (induction xs rule: comma_sep.induct) auto

lemma comma_sep_count: "(\<And>x. x \<in> set xs \<Longrightarrow> x \<noteq> []) \<Longrightarrow> length xs \<le> length (comma_sep xs)"
proof (induction xs rule: comma_sep.induct)
  case (3 x y xs)
  then have "x \<noteq> []" "length (y # xs) \<le> length (comma_sep (y # xs))" by simp_all
  then show ?case by (cases x) auto
qed (simp_all add: Suc_leI)

lemma bare_list: "list_all2 (\<lambda>t r. bare r = bare t) ts rs \<Longrightarrow> map bare rs = map bare ts"
  by (induction rule: list_all2_induct) auto

lemma bare_simps [simp]:
  "bare (TypeExpr (TeName x) s) = TypeExpr (TeName x) ()"
  "bare (TypeExpr (TeQualified ps) s) = TypeExpr (TeQualified ps) ()"
  "bare (TypeExpr (TeGeneric x ts) s) = TypeExpr (TeGeneric x (map bare ts)) ()"
  "bare (TypeExpr (TeTuple ts) s) = TypeExpr (TeTuple (map bare ts)) ()"
  "bare (TypeExpr (TeList t) s) = TypeExpr (TeList (bare t)) ()"
  "bare (TypeExpr (TeDict t t') s) = TypeExpr (TeDict (bare t) (bare t')) ()"
  "bare (TypeExpr (TeUnion t t') s) = TypeExpr (TeUnion (bare t) (bare t')) ()"
  "bare (TypeExpr (TeFn ts t) s) = TypeExpr (TeFn (map bare ts) (bare t)) ()"
  "bare (TypeExpr (TeRef t) s) = TypeExpr (TeRef (bare t)) ()"
  "bare (TypeExpr (TeMutRef t) s) = TypeExpr (TeMutRef (bare t)) ()"
  "bare (TypeExpr (TePtr t) s) = TypeExpr (TePtr (bare t)) ()"
  "bare (TypeExpr (TeFixedArray t n) s) = TypeExpr (TeFixedArray (bare t) n) ()"
  by (simp_all add: bare_def [abs_def])

lemma bare_by_kind: "te_kind r = k \<Longrightarrow> bare r = bare (TypeExpr k s)"
  by (cases r) (simp add: bare_def)

lemma sub_read:
  fixes t :: type_expr
  assumes g: "levels_read g n" and t: "wf_type t" "length (type_toks t) \<le> n" "guards t \<le> d"
  shows "N \<subseteq> type_follow \<Longrightarrow> reads (r_type g) (type_toks t) N d (\<lambda>r. bare r = bare t)"
    and "\<not> is_union t \<Longrightarrow> N \<subseteq> single_follow t \<Longrightarrow> reads (r_single_type g) (type_toks t) N d (\<lambda>r. bare r = bare t)"
proof -
  note r = g [unfolded levels_read_def, rule_format, OF t(1,2)]
  show "N \<subseteq> type_follow \<Longrightarrow> reads (r_type g) (type_toks t) N d (\<lambda>r. bare r = bare t)"
    by (rule reads_mono [OF conjunct1 [OF r] _ t(3)])
  show "\<not> is_union t \<Longrightarrow> N \<subseteq> single_follow t \<Longrightarrow> reads (r_single_type g) (type_toks t) N d (\<lambda>r. bare r = bare t)"
    by (rule reads_mono [OF mp [OF conjunct2 [OF r]] _ t(3)])
qed

lemma args_read:
  fixes ts :: "type_expr list"
  assumes g: "levels_read g n"
    and ts: "list_all wf_type ts" "length (comma_sep (map type_toks ts)) \<le> n" "n < k"
    and close: "close \<in> {Pn RBracket, Pn RParen}"
  shows "reads (comma_list k close (r_type g)) (comma_sep (map type_toks ts)) {close}
    (max_of (map guards ts)) (\<lambda>rs. map bare rs = map bare ts)"
proof (rule reads_mono [OF reads_comma_list [where R = "\<lambda>t r. bare r = bare t"]])
  fix t assume t: "t \<in> set ts"
  have "length (type_toks t) \<le> n" "wf_type t" "guards t \<le> max_of (map guards ts)"
    using comma_sep_length [of "type_toks t" "map type_toks ts"] ts t
    by (auto simp: list_all_iff intro!: max_of_ge)
  then show "reads (r_type g) (type_toks t) {Pn Comma, close} (max_of (map guards ts)) (\<lambda>r. bare r = bare t)"
    by (intro sub_read(1) [OF g]) (use close in \<open>auto simp: type_follow_def\<close>)
  show "type_toks t \<noteq> [] \<and> fst (hd (type_toks t)) \<notin> {close, Eof}"
    using type_toks_first [of t] close by (auto simp: type_firsts_def)
next
  have "length ts \<le> length (comma_sep (map type_toks ts))"
    using comma_sep_count [of "map type_toks ts"] type_toks_first by force
  with ts show "length ts < k" by simp
qed (use close in \<open>auto dest: bare_list\<close>)

lemma reads_last:
  "reads f ks N d P \<Longrightarrow> (\<And>x. P x \<Longrightarrow> reads (g x) [] N d Q) \<Longrightarrow> reads (bindp f g) ks N d Q"
  using reads_bind [of f ks "[]" N d P g Q] by simp

lemma reads_node: "(\<And>s. bare (TypeExpr k s) = x) \<Longrightarrow> reads (type_node start k) [] N d (\<lambda>r. bare r = x)"
  by (rule reads_mono [OF reads_type_node]) (auto, metis type_expr_of.exhaust type_expr_of.sel(1))

lemma dots_read:
  assumes "length ps < k" "Pn Dot \<notin> N"
  shows "reads (sep_items k (Pn Dot) name_tok) (concat (map (\<lambda>x. [punct Dot ''.'', (Lit Identifier, x)]) ps))
    N d (\<lambda>rs. rs = ps)"
proof (rule reads_mono [OF reads_sep_items [where R = "(=)" and sp = "\<lambda>x. [(Lit Identifier, x)]"]])
  show "reads name_tok [(Lit Identifier, x)] (if zs = [] then N else {Pn Dot}) d ((=) x)" for x and zs :: "ustring list"
    unfolding name_tok_def by (rule reads_map [OF reads_expect]) (auto simp: lexeme_of_def)
qed (use assms in \<open>auto simp: list.rel_eq\<close>)


text \<open>One kind of type expression after the other, over a grammar that reads back smaller ones.\<close>

lemma list_read:
  fixes t :: type_expr
  assumes g: "levels_read g n" and t: "wf_type t" "length (type_toks t) \<le> n"
  shows "reads (parse_list_type g start) (kind_toks (TeList t)) N (guards t) (\<lambda>r. bare r = TypeExpr (TeList (bare t)) ())"
proof -
  have r: "reads (r_type g) (type_toks t) {Pn RBracket} (guards t) (\<lambda>r. bare r = bare t)"
    by (rule sub_read(1) [OF g t order_refl]) (simp add: type_follow_def)
  show ?thesis
    unfolding parse_list_type_def kind_toks.simps
    apply (rule reads_seq [OF reads_advance], simp, rule reads_bind [where P = "\<lambda>r. bare r = bare t"])
     apply (simp_all add: r)
    apply (rule reads_if_no, simp)
    apply (rule reads_seq [OF reads_expect], simp)
    apply (rule reads_node, simp)
    done
qed

lemma array_read:
  fixes t :: type_expr
  assumes g: "levels_read g n" and t: "wf_type t" "length (type_toks t) \<le> n" and m: "m < 2 ^ 64"
  shows "reads (parse_list_type g start) (kind_toks (TeFixedArray t m)) N (guards t)
    (\<lambda>r. bare r = TypeExpr (TeFixedArray (bare t) m) ())"
proof -
  have r: "reads (r_type g) (type_toks t) {Pn Semicolon} (guards t) (\<lambda>r. bare r = bare t)"
    by (rule sub_read(1) [OF g t order_refl]) (simp add: type_follow_def)
  show ?thesis
    unfolding parse_list_type_def kind_toks.simps
    apply (rule reads_seq [OF reads_advance], simp, rule reads_bind [where P = "\<lambda>r. bare r = bare t"])
     apply (simp_all add: r)
    apply (rule reads_if_yes, simp)
    apply (rule reads_seq [OF reads_advance], simp)
    apply (rule reads_bind1 [OF reads_expect], simp)
    apply (rule reads_seq [OF reads_expect], simp)
    apply (rule reads_node)
    apply (simp add: lexeme_of_def usize_of_show [OF m])
    done
qed

lemma dict_read:
  fixes a b :: type_expr
  assumes g: "levels_read g n" and a: "wf_type a" "length (type_toks a) \<le> n" and b: "wf_type b" "length (type_toks b) \<le> n"
  shows "reads (parse_dict_type g start) (kind_toks (TeDict a b)) N (max (guards a) (guards b))
    (\<lambda>r. bare r = TypeExpr (TeDict (bare a) (bare b)) ())"
proof -
  have r: "reads (r_type g) (type_toks a) {Pn Colon} (max (guards a) (guards b)) (\<lambda>r. bare r = bare a)"
    "reads (r_type g) (type_toks b) {Pn RBrace} (max (guards a) (guards b)) (\<lambda>r. bare r = bare b)"
    using sub_read(1) [OF g a] sub_read(1) [OF g b] by (simp_all add: type_follow_def)
  show ?thesis
    unfolding parse_dict_type_def kind_toks.simps
    apply (rule reads_seq [OF reads_advance], simp, rule reads_bind [where P = "\<lambda>r. bare r = bare a"])
     apply (simp_all add: r)
    apply (rule reads_seq [OF reads_expect], simp, rule reads_bind [where P = "\<lambda>r. bare r = bare b"])
     apply (simp_all add: r)
    apply (rule reads_seq [OF reads_expect], simp)
    apply (rule reads_node, simp)
    done
qed

lemma ref_read:
  fixes t :: type_expr
  assumes g: "levels_read g n" and t: "wf_type t" "length (type_toks t) \<le> n" "\<not> is_union t"
  shows "reads (parse_ref_type g start) (kind_toks (TeRef t)) (single_follow t) (guards t)
      (\<lambda>r. bare r = TypeExpr (TeRef (bare t)) ())"
    and "reads (parse_ref_type g start) (kind_toks (TeMutRef t)) (single_follow t) (guards t)
      (\<lambda>r. bare r = TypeExpr (TeMutRef (bare t)) ())"
    and "reads (seqp advance_tok (bindp (r_single_type g) (\<lambda>inner. type_node start (TePtr inner))))
      (kind_toks (TePtr t)) (single_follow t) (guards t) (\<lambda>r. bare r = TypeExpr (TePtr (bare t)) ())"
proof -
  have r: "reads (r_single_type g) (type_toks t) (single_follow t) (guards t) (\<lambda>r. bare r = bare t)"
    by (rule sub_read(2) [OF g t(1,2) order_refl t(3) subset_refl])
  have node: "reads (bindp (r_single_type g) (\<lambda>inner. type_node start (C inner))) (type_toks t) (single_follow t)
      (guards t) (\<lambda>r. bare r = x)" if "\<And>i s. bare i = bare t \<Longrightarrow> bare (TypeExpr (C i) s) = x" for C x
    by (rule reads_last [OF r]) (rule reads_node, rule that)
  have mut: "Kw KwMut \<notin> after_kinds (type_toks t) (single_follow t)"
    using type_toks_first [of t] by (cases "type_toks t") (auto simp: type_firsts_def)
  show "reads (parse_ref_type g start) (kind_toks (TeRef t)) (single_follow t) (guards t)
      (\<lambda>r. bare r = TypeExpr (TeRef (bare t)) ())"
    unfolding parse_ref_type_def kind_toks.simps
    by (rule reads_seq [OF reads_advance], simp, rule reads_if_no [OF mut], rule node, simp)
  show "reads (parse_ref_type g start) (kind_toks (TeMutRef t)) (single_follow t) (guards t)
      (\<lambda>r. bare r = TypeExpr (TeMutRef (bare t)) ())"
    unfolding parse_ref_type_def kind_toks.simps
    by (rule reads_seq [OF reads_advance], simp, rule reads_if_yes, simp,
        rule reads_seq [OF reads_advance], simp, rule node, simp)
  show "reads (seqp advance_tok (bindp (r_single_type g) (\<lambda>inner. type_node start (TePtr inner))))
      (kind_toks (TePtr t)) (single_follow t) (guards t) (\<lambda>r. bare r = TypeExpr (TePtr (bare t)) ())"
    unfolding kind_toks.simps by (rule reads_seq [OF reads_advance], simp, rule node, simp)
qed

lemma type_args_read:
  fixes ts :: "type_expr list"
  assumes g: "levels_read g n" "fuel g = Suc n"
    and ts: "list_all wf_type ts" "length (comma_sep (map type_toks ts)) \<le> n"
    and close: "close \<in> {Pn RBracket, Pn RParen}" and first: "k \<noteq> Eof"
  shows "reads (enter_nested (parse_type_args g close)) ((k, v) # comma_sep (map type_toks ts) @ [(close, w)]) N
    (Suc (max_of (map guards ts))) (\<lambda>rs. map bare rs = map bare ts)"
proof (rule reads_enter)
  have r: "reads (comma_list (fuel g) close (r_type g)) (comma_sep (map type_toks ts)) {close}
      (max_of (map guards ts)) (\<lambda>rs. map bare rs = map bare ts)"
    by (rule args_read [OF g(1) ts _ close]) (simp add: g(2))
  show "reads (parse_type_args g close) ((k, v) # comma_sep (map type_toks ts) @ [(close, w)]) N
      (max_of (map guards ts)) (\<lambda>rs. map bare rs = map bare ts)"
    unfolding parse_type_args_def
    apply (rule reads_seq [OF reads_advance [OF first]])
    apply (rule reads_bind [where P = "\<lambda>rs. map bare rs = map bare ts"])
     apply (use close in \<open>simp add: r\<close>)
    apply (rule reads_seq [OF reads_expect])
     apply (use close in auto)[1]
    apply (rule reads_ret, assumption)
    done
qed

lemma tuple_read:
  fixes ts :: "type_expr list"
  assumes "levels_read g n" "fuel g = Suc n" "list_all wf_type ts" "length (comma_sep (map type_toks ts)) \<le> n"
  shows "reads (bindp (enter_nested (parse_type_args g (Pn RParen))) (\<lambda>types. type_node start (TeTuple types)))
    (kind_toks (TeTuple ts)) N (Suc (max_of (map guards ts))) (\<lambda>r. bare r = TypeExpr (TeTuple (map bare ts)) ())"
  unfolding kind_toks.simps
  by (rule reads_last [OF type_args_read [OF assms]]) (auto intro!: reads_node)

lemma named_read:
  assumes "ps \<noteq> []" "length ps \<le> fuel g"
  shows "reads (parse_named_type g start) (dotted ps) (- {Pn Dot, Pn LBracket}) d
    (\<lambda>r. bare r = TypeExpr (if length ps = 1 then TeName (hd ps) else TeQualified ps) ())"
proof -
  obtain p qs where ps: "ps = p # qs" using assms(1) by (cases ps) auto
  have r: "reads (sep_items (fuel g) (Pn Dot) name_tok) (concat (map (\<lambda>x. [punct Dot ''.'', (Lit Identifier, x)]) qs))
      (- {Pn Dot, Pn LBracket}) d (\<lambda>rs. rs = qs)"
    by (rule dots_read) (use assms(2) ps in auto)
  show ?thesis
    unfolding parse_named_type_def dotted_def ps list.sel
    apply (rule reads_bind1 [OF reads_advance], simp)
    apply (rule reads_last [OF r])
    apply (rule reads_if_no, simp)
    apply (auto simp: lexeme_of_def intro!: reads_node)
    done
qed

lemma generic_read:
  fixes ts :: "type_expr list"
  assumes g: "levels_read g n" "fuel g = Suc n" "list_all wf_type ts" "length (comma_sep (map type_toks ts)) \<le> n"
  shows "reads (parse_named_type g start) (kind_toks (TeGeneric x ts)) N (Suc (max_of (map guards ts)))
    (\<lambda>r. bare r = TypeExpr (TeGeneric x (map bare ts)) ())"
proof -
  let ?args = "punct LBracket ''['' # comma_sep (map type_toks ts) @ [punct RBracket '']'']"
  have r: "reads (sep_items (fuel g) (Pn Dot) name_tok) [] {Pn LBracket} d (\<lambda>rs. rs = [])" for d
    using dots_read [of "[]" "fuel g" "{Pn LBracket}" d] g(2) by simp
  have a: "reads (bindp (enter_nested (parse_type_args g (Pn RBracket)))
        (\<lambda>args. type_node start (TeGeneric (join_colons [x]) args))) ?args N (Suc (max_of (map guards ts)))
      (\<lambda>r. bare r = TypeExpr (TeGeneric x (map bare ts)) ())"
    by (rule reads_last [OF type_args_read [OF assms]]) (auto intro!: reads_node simp: join_colons_def)
  have step: "reads (bindp (sep_items (fuel g) (Pn Dot) name_tok) h) ?args N d Q"
    if "reads (h []) ?args N d Q" for h d and Q :: "type_expr \<Rightarrow> bool"
    using reads_bind [of "sep_items (fuel g) (Pn Dot) name_tok" "[]" ?args N d "\<lambda>rs. rs = []" h Q] that r by simp
  show ?thesis
    unfolding parse_named_type_def kind_toks.simps append_Cons append_Nil
    apply (rule reads_bind1 [OF reads_advance], simp)
    apply (rule step)
    apply (rule reads_if_yes, simp)
    apply (use a in \<open>simp add: lexeme_of_def\<close>)
    done
qed

lemma fn_read:
  fixes ts :: "type_expr list" and t :: type_expr
  assumes g: "levels_read g n" "fuel g = Suc n"
    and ts: "list_all wf_type ts" "length (comma_sep (map type_toks ts)) \<le> n"
    and t: "wf_type t" "length (type_toks t) \<le> n"
  shows "reads (parse_fn_type g start) (kind_toks (TeFn ts t)) type_follow
    (Suc (max (max_of (map guards ts)) (guards t))) (\<lambda>r. bare r = TypeExpr (TeFn (map bare ts) (bare t)) ())"
proof -
  let ?d = "max (max_of (map guards ts)) (guards t)"
  have r: "reads (comma_list (fuel g) (Pn RParen) (r_type g)) (comma_sep (map type_toks ts)) {Pn RParen} ?d
      (\<lambda>rs. map bare rs = map bare ts)"
    by (rule reads_mono [OF args_read [OF g(1) ts]]) (auto simp: g(2))
  have q: "reads (r_type g) (type_toks t) type_follow ?d (\<lambda>r. bare r = bare t)"
    by (rule sub_read(1) [OF g(1) t]) auto
  have inner: "reads (seqp advance_tok (seqp (expect (Pn LParen)) (bindp (comma_list (fuel g) (Pn RParen) (r_type g)) (\<lambda>params.
        seqp (expect (Pn RParen)) (seqp (expect (Pn Arrow)) (bindp (r_type g) (\<lambda>r. ret (params, r))))))))
      (kind_toks (TeFn ts t)) type_follow ?d (\<lambda>(ps, r). map bare ps = map bare ts \<and> bare r = bare t)"
    unfolding kind_toks.simps append_Cons append_Nil
    apply (rule reads_seq [OF reads_advance], simp)
    apply (rule reads_seq [OF reads_expect], simp)
    apply (rule reads_bind [where P = "\<lambda>rs. map bare rs = map bare ts"])
     apply (simp add: r)
    apply (rule reads_seq [OF reads_expect], simp)
    apply (rule reads_seq [OF reads_expect], simp)
    apply (rule reads_map [OF q], simp)
    done
  show ?thesis unfolding parse_fn_type_def
    by (rule reads_last [OF reads_enter [OF inner]]) (auto intro!: reads_node)
qed

subsection \<open>All type expressions\<close>

lemma single_read:
  fixes t :: type_expr
  assumes g: "levels_read g n" "fuel g = Suc n"
    and t: "wf_type t" "\<not> is_union t" "length (type_toks t) \<le> Suc n"
  shows "reads (parse_single_type_expr g) (type_toks t) (single_follow t) (guards t) (\<lambda>r. bare r = bare t)"
proof -
  obtain k s where ts: "t = TypeExpr k s" by (cases t)
  have start: "reads (parse_single_type_expr g) (kind_toks k) N d Q"
    if "\<And>start. t_kind start \<in> after_kinds (kind_toks k) N \<Longrightarrow>
        reads (case t_kind start of
             Kw KwNull \<Rightarrow> seqp advance_tok (type_node start (TeName (cps ''None'')))
           | Lit Identifier \<Rightarrow> parse_named_type g start
           | Pn LParen \<Rightarrow>
               bindp (enter_nested (parse_type_args g (Pn RParen))) (\<lambda>types. type_node start (TeTuple types))
           | Pn LBracket \<Rightarrow> parse_list_type g start
           | Pn LBrace \<Rightarrow> parse_dict_type g start
           | Opr Ampersand \<Rightarrow> parse_ref_type g start
           | Opr Star \<Rightarrow> seqp advance_tok (bindp (r_single_type g) (\<lambda>inner. type_node start (TePtr inner)))
           | Kw KwFn \<Rightarrow> parse_fn_type g start
           | _ \<Rightarrow> err_at start ExpectedTypeExpr) (kind_toks k) N d Q" for N d Q
    unfolding parse_single_type_expr_def by (rule reads_peek_tok) (rule that)
  show ?thesis
  proof (cases k)
    case (TeName x)
    have "reads (seqp advance_tok (type_node start (TeName (cps ''None'')))) [(Kw KwNull, cps ''None'')] N d
        (\<lambda>r. bare r = TypeExpr (TeName (cps ''None'')) ())" for start N d
      by (rule reads_seq [OF reads_advance]) (auto intro!: reads_node)
    moreover have "reads (parse_named_type g start) [(Lit Identifier, x)] (- {Pn Dot, Pn LBracket}) d
        (\<lambda>r. bare r = TypeExpr (TeName x) ())" for start d
      using named_read [of "[x]" g start d] g(2) by (simp add: dotted_def)
    ultimately show ?thesis unfolding ts type_toks.simps
      by (intro start) (auto simp: TeName single_follow_def name_lexeme_def)
  next
    case (TeQualified ps)
    have "length ps \<le> length (kind_toks k)" using TeQualified t(1) ts
      by (auto simp: dotted_def length_concat comp_def sum_list_triv)
    then have "reads (parse_named_type g start) (dotted ps) (- {Pn Dot, Pn LBracket}) d
        (\<lambda>r. bare r = TypeExpr (TeQualified ps) ())" for start d
      using named_read [of ps g start d] g(2) t ts TeQualified by (cases ps) auto
    then show ?thesis unfolding ts type_toks.simps
      by (intro start) (auto simp: TeQualified single_follow_def dotted_def)
  next
    case (TeGeneric x as)
    then have "length (comma_sep (map type_toks as)) \<le> n" "list_all wf_type as" using t ts by auto
    from generic_read [OF g this(2,1)] show ?thesis unfolding ts type_toks.simps
      by (intro start) (auto simp: TeGeneric single_follow_def)
  next
    case (TeTuple as)
    then have "length (comma_sep (map type_toks as)) \<le> n" "list_all wf_type as" using t ts by auto
    from tuple_read [OF g this(2,1)] show ?thesis unfolding ts type_toks.simps
      by (intro start) (auto simp: TeTuple single_follow_def)
  next
    case (TeList a)
    then have "length (type_toks a) \<le> n" "wf_type a" using t ts by auto
    from list_read [OF g(1) this(2,1)] show ?thesis unfolding ts type_toks.simps
      by (intro start) (auto simp: TeList single_follow_def)
  next
    case (TeDict a b)
    then have "length (type_toks a) \<le> n" "wf_type a" "length (type_toks b) \<le> n" "wf_type b" using t ts by auto
    from dict_read [OF g(1) this(2,1,4,3)] show ?thesis unfolding ts type_toks.simps
      by (intro start) (auto simp: TeDict single_follow_def)
  next
    case (TeUnion a b)
    with t ts show ?thesis by (simp add: is_union_def)
  next
    case (TeFn as a)
    then have "length (comma_sep (map type_toks as)) \<le> n" "list_all wf_type as" "length (type_toks a) \<le> n" "wf_type a"
      using t ts by auto
    from fn_read [OF g this(2,1,4,3)] show ?thesis unfolding ts type_toks.simps
      by (intro start) (auto simp: TeFn single_follow_def)
  next
    case (TeRef a)
    then have "length (type_toks a) \<le> n" "wf_type a" "\<not> is_union a" using t ts by auto
    from ref_read(1) [OF g(1) this(2,1,3)] show ?thesis unfolding ts type_toks.simps
      by (intro start) (auto simp: TeRef single_follow_def)
  next
    case (TeMutRef a)
    then have "length (type_toks a) \<le> n" "wf_type a" "\<not> is_union a" using t ts by auto
    from ref_read(2) [OF g(1) this(2,1,3)] show ?thesis unfolding ts type_toks.simps
      by (intro start) (auto simp: TeMutRef single_follow_def)
  next
    case (TePtr a)
    then have "length (type_toks a) \<le> n" "wf_type a" "\<not> is_union a" using t ts by auto
    from ref_read(3) [OF g(1) this(2,1,3)] show ?thesis unfolding ts type_toks.simps
      by (intro start) (auto simp: TePtr single_follow_def)
  next
    case (TeFixedArray a m)
    then have "length (type_toks a) \<le> n" "wf_type a" "m < 2 ^ 64" using t ts by auto
    from array_read [OF g(1) this(2,1,3)] show ?thesis unfolding ts type_toks.simps
      by (intro start) (auto simp: TeFixedArray single_follow_def)
  qed
qed

text \<open>A union as the list of its elements.\<close>

lemma union_elements:
  fixes t :: "'s type_expr_of"
  assumes "wf_type t"
  shows "\<exists>(h :: 's type_expr_of) ts. type_toks t = type_toks h @ concat (map (\<lambda>x. (Opr Pipe, cps ''|'') # type_toks x) ts) \<and>
    list_all (\<lambda>x. wf_type x \<and> \<not> is_union x \<and> guards x \<le> guards t) (h # ts) \<and>
    list_all (\<lambda>x. \<not> open_end x) (butlast (h # ts)) \<and> open_end t = open_end (last (h # ts)) \<and>
    bare t = foldl (\<lambda>a b. TypeExpr (TeUnion a b) ()) (bare h) (map bare ts)"
  using assms
proof (induction t rule: measure_induct_rule [where f = size])
  case (less t)
  show ?case
  proof (cases "is_union t")
    case False
    then show ?thesis using less.prems by - (rule exI [of _ t], rule exI [of _ "[]"], simp)
  next
    case True
    then obtain a b s where t: "t = TypeExpr (TeUnion a b) s"
      by (cases t) (auto simp: is_union_def split: type_kind_of.splits)
    then have a: "wf_type a" "wf_type b" "\<not> is_union b" "\<not> open_end a" using less.prems by simp_all
    have "size a < size t" by (simp add: t)
    from less.IH [OF this a(1)] obtain h :: "'s type_expr_of" and ts where
      h: "type_toks a = type_toks h @ concat (map (\<lambda>x. (Opr Pipe, cps ''|'') # type_toks x) ts)"
      "list_all (\<lambda>x. wf_type x \<and> \<not> is_union x \<and> guards x \<le> guards a) (h # ts)"
      "list_all (\<lambda>x. \<not> open_end x) (butlast (h # ts))" "open_end a = open_end (last (h # ts))"
      "bare a = foldl (\<lambda>a b. TypeExpr (TeUnion a b) ()) (bare h) (map bare ts)" by blast
    have "list_all (\<lambda>x. \<not> open_end x) (butlast (h # ts) @ [last (h # ts)])"
      using h(3,4) a(4) by (simp only: list_all_append list.pred_inject simp_thms)
    then have "list_all (\<lambda>x. \<not> open_end x) (h # ts)"
      by (simp only: append_butlast_last_id [OF list.distinct(2)])
    then have "list_all (\<lambda>x. \<not> open_end x) (butlast (h # (ts @ [b])))"
      by (simp add: butlast_append)
    then show ?thesis using h a t
      by - (rule exI [of _ h], rule exI [of _ "ts @ [b]"], auto simp: list_all_iff)
  qed
qed

lemma full_read:
  fixes t :: type_expr
  assumes g: "levels_read g n" "fuel g = Suc n" and t: "wf_type t" "length (type_toks t) \<le> Suc n"
  shows "reads (parse_type_expr g) (type_toks t) type_follow (guards t) (\<lambda>r. bare r = bare t)"
proof -
  let ?pipe = "(Opr Pipe, cps ''|'')" and ?u = "\<lambda>a b. TypeExpr (TeUnion a b) ()"
  obtain h :: type_expr and ts where
    h: "type_toks t = type_toks h @ concat (map (\<lambda>x. ?pipe # type_toks x) ts)"
      "list_all (\<lambda>x. wf_type x \<and> \<not> is_union x \<and> guards x \<le> guards t) (h # ts)"
      "list_all (\<lambda>x. \<not> open_end x) (butlast (h # ts))" "bare t = foldl ?u (bare h) (map bare ts)"
    using union_elements [OF t(1)] by blast
  have len: "length (type_toks x) \<le> Suc n" if "x \<in> set (h # ts)" for x
  proof (cases "x = h")
    case False
    with that have "x \<in> set ts" by simp
    then obtain ys zs where "ts = ys @ x # zs" by (auto dest: split_list)
    with h(1) t(2) show ?thesis by simp
  qed (use h(1) t(2) in simp)
  have count: "length ts < fuel g"
  proof -
    have "length ts \<le> length (concat (map (\<lambda>x. ?pipe # type_toks x) ts))" by (induction ts) auto
    moreover have "type_toks h \<noteq> []" using type_toks_first by blast
    ultimately show ?thesis using h(1) t(2) g(2) by (cases "type_toks h") auto
  qed
  have elem: "reads (parse_single_type_expr g) (type_toks x) (if zs = [] then type_follow else {Opr Pipe})
      (guards t) (\<lambda>r. bare r = bare x)" if e: "h # ts = ys @ x # zs" for ys x zs
  proof (rule reads_mono [OF single_read [OF g]])
    have x: "x \<in> set (h # ts)" unfolding e by simp
    show "wf_type x" "\<not> is_union x" "guards x \<le> guards t" using h(2) x by (auto simp: list_all_iff)
    show "length (type_toks x) \<le> Suc n" by (rule len [OF x])
    have "zs \<noteq> [] \<Longrightarrow> \<not> open_end x" using h(3) unfolding e by (auto simp: butlast_append)
    then show "(if zs = [] then type_follow else {Opr Pipe}) \<subseteq> single_follow x"
      by (auto simp: single_follow_def type_follow_def)
  qed simp
  have more: "reads (sep_items (fuel g) (Opr Pipe) (parse_single_type_expr g))
      (concat (map (\<lambda>x. ?pipe # type_toks x) ts)) type_follow (guards t) (list_all2 (\<lambda>x r. bare r = bare x) ts)"
    by (rule reads_sep_items) (use elem [of "h # _"] count in \<open>auto simp: type_follow_def\<close>)
  have fold: "bare (foldl union_node a rs) = foldl ?u (bare a) (map bare rs)" for a and rs :: "type_expr list"
    by (induction rs arbitrary: a) (simp_all add: union_node_def)
  show ?thesis unfolding parse_type_expr_def h(1)
  proof (rule reads_bind)
    show "reads (parse_single_type_expr g) (type_toks h)
        (after_kinds (concat (map (\<lambda>x. ?pipe # type_toks x) ts)) type_follow) (guards t) (\<lambda>r. bare r = bare h)"
      using elem [of "[]" h ts] by (cases ts) auto
    show "reads (bindp (sep_items (fuel g) (Opr Pipe) (parse_single_type_expr g)) (\<lambda>more. ret (foldl union_node r more)))
        (concat (map (\<lambda>x. ?pipe # type_toks x) ts)) type_follow (guards t) (\<lambda>r. bare r = bare t)"
      if "bare r = bare h" for r
      by (rule reads_map [OF more]) (use that h(4) in \<open>auto simp: fold dest!: bare_list\<close>)
  qed
qed

lemma grammar_fuel: "fuel (grammar u (Suc n)) = Suc n"
  by simp

lemma grammar_reads: "levels_read (grammar u (Suc n)) n"
proof (induction n)
  case 0
  have "\<not> length (type_toks t) \<le> 0" for t :: type_expr using type_toks_first [of t] by auto
  then show ?case by (simp add: levels_read_def)
next
  case (Suc n)
  from full_read [OF Suc grammar_fuel] single_read [OF Suc grammar_fuel] show ?case
    by (simp add: levels_read_def grammar.simps(2) [of u "Suc n"] del: grammar.simps)
qed

lemma type_reads_back:
  fixes t :: type_expr
  assumes "wf_type t" "guards t \<le> max_nesting_depth"
    and "map lexeme_of ts = type_toks t" "t_kind eof = Eof"
  shows "\<exists>r q. parse_type_expr (grammar u (length ts)) (parser_new (ts @ [eof])) = Inr (r, q) \<and>
    bare r = bare t \<and> ppos q = length ts"
proof -
  let ?p = "parser_new (ts @ [eof])"
  have len: "length ts = length (type_toks t)" using arg_cong [OF assms(3), of length] by simp
  then obtain n where n: "length ts = Suc n" using type_toks_first [of t] by (cases "type_toks t") auto
  have "reads (parse_type_expr (grammar u (Suc n))) (type_toks t) type_follow (guards t) (\<lambda>r. bare r = bare t)"
    by (rule full_read [OF grammar_reads grammar_fuel assms(1)]) (use len n in simp)
  moreover have "spelled (type_toks t) ?p" unfolding assms(3) [symmetric]
    by (simp add: spelled_def parser_new_def nth_append)
  moreover have "t_kind (tokens ?p ! (ppos ?p + length (type_toks t))) \<in> type_follow"
    using assms(4) len by (simp add: parser_new_def nth_append type_follow_def)
  moreover have "depth ?p + guards t \<le> max_nesting_depth" using assms(2) by (simp add: parser_new_def)
  ultimately obtain r where "parse_type_expr (grammar u (Suc n)) ?p = Inr (r, moved (length (type_toks t)) ?p)"
    "bare r = bare t" by (rule readsD)
  then show ?thesis by (simp add: n [symmetric] len moved_def parser_new_def)
qed

text \<open>
  C8. Type expressions survive a round trip: the tokens that spell a well-formed type expression, with
  at most a hundred guarded brackets nested, are read back to that type expression, up to positions,
  and all of them are read.
\<close>

theorem type_expr_roundtrip:
  fixes t :: type_expr
  assumes "wf_type t" "guards t \<le> max_nesting_depth"
    and "map lexeme_of ts = type_toks t" "t_kind eof = Eof"
  shows "\<exists>r q. parse_type_expr (grammar u (length ts)) (parser_new (ts @ [eof])) = Inr (r, q) \<and>
    bare r = bare t \<and> ppos q = length ts"
  by (rule type_reads_back [OF assms])

text \<open>A sample: \<open>Map[int, a.b] | None\<close>.\<close>

definition sample_tok :: "lexeme \<Rightarrow> token" where
  "sample_tok l = \<lparr>t_kind = fst l, t_value = snd l, t_line = 1, t_col = 1, t_span = (0, 1), t_file_id = 0\<rparr>"

definition sample_span :: span where
  "sample_span = \<lparr>file_id = 0, sp_line = 1, sp_col = 1, sp_start = 0, sp_end = 1\<rparr>"

definition sample_type :: type_expr where
  "sample_type =
     (let node = (\<lambda>k. TypeExpr k sample_span)
      in node (TeUnion
           (node (TeGeneric (cps ''Map'') [node (TeName (cps ''int'')), node (TeQualified [cps ''a'', cps ''b''])]))
           (node (TeName (cps ''None'')))))"

lemma lexeme_of_sample: "map lexeme_of (map sample_tok ls) = ls"
  by (induction ls) (simp_all add: lexeme_of_def sample_tok_def)

definition sample_env :: penv where
  "sample_env =
     \<lparr>is_alphabetic = (\<lambda>_. False), is_alphanumeric = (\<lambda>_. False), is_uppercase = (\<lambda>_. False),
      is_whitespace = (\<lambda>c. c = 32), parse_f64 = (\<lambda>_. None), embedded = (\<lambda>_ _. Inl NoFuel)\<rparr>"

theorem type_expr_roundtrip_witness:
  "\<exists>r q. parse_type_expr (grammar sample_env (length (map sample_tok (type_toks sample_type))))
      (parser_new (map sample_tok (type_toks sample_type) @ [sample_tok (Eof, [])])) = Inr (r, q) \<and>
    bare r = bare sample_type \<and> ppos q = length (map sample_tok (type_toks sample_type))"
proof (rule type_expr_roundtrip)
  show "wf_type sample_type" by (simp add: sample_type_def is_union_def)
  show "guards sample_type \<le> max_nesting_depth" by (simp add: sample_type_def max_of_def max_nesting_depth_def)
  show "map lexeme_of (map sample_tok (type_toks sample_type)) = type_toks sample_type" by (rule lexeme_of_sample)
  show "t_kind (sample_tok (Eof, [])) = Eof" by (simp add: sample_tok_def)
qed

text \<open>
  List types are no guarded brackets: whatever their depth, the parser reads them, on a stack as deep as
  the input.
\<close>

primrec list_nest :: "nat \<Rightarrow> type_expr \<Rightarrow> type_expr" where
  "list_nest 0 t = t"
| "list_nest (Suc n) t = TypeExpr (TeList (list_nest n t)) sample_span"

lemma list_types_nest_freely:
  assumes "map lexeme_of ts = type_toks (list_nest n (TypeExpr (TeName x) sample_span))" "t_kind eof = Eof"
  shows "\<exists>r q. parse_type_expr (grammar u (length ts)) (parser_new (ts @ [eof])) = Inr (r, q)"
proof -
  let ?t = "list_nest n (TypeExpr (TeName x) sample_span)"
  have "wf_type ?t \<and> guards ?t = 0" by (induction n) simp_all
  then have "wf_type ?t" "guards ?t \<le> max_nesting_depth" by simp_all
  from type_reads_back [OF this assms] show ?thesis by blast
qed

end
