(* ===== verification/Suggest.thy ===== *)
theory Suggest
  imports Ast "HOL-Library.List_Lexorder" "HOL-Library.Product_Lexorder" "HOL-Library.Multiset"
begin

text \<open>
  The nearest names to a name that is not defined (\<open>semantic/suggest.rs\<close>). The distance is computed
  row by row over three rows that are swapped; the rows are lists that are updated in place. Names are
  compared by their code points, which is the order of their bytes.
\<close>

subsection \<open>The distance\<close>

definition cell :: "ustring \<Rightarrow> ustring \<Rightarrow> nat \<Rightarrow> nat \<Rightarrow> nat list \<Rightarrow> nat list \<Rightarrow> nat list \<Rightarrow> nat" where
  "cell a b i j prev_prev prev cur =
     (let cost = (if a ! (i - 1) \<noteq> b ! (j - 1) then 1 else 0);
          d = min (min (prev ! j + 1) (cur ! (j - 1) + 1)) (prev ! (j - 1) + cost)
      in if i > 1 \<and> j > 1 \<and> a ! (i - 1) = b ! (j - 2) \<and> a ! (i - 2) = b ! (j - 1)
         then min d (prev_prev ! (j - 2) + 1) else d)"

definition fill_row :: "ustring \<Rightarrow> ustring \<Rightarrow> nat \<Rightarrow> nat list \<Rightarrow> nat list \<Rightarrow> nat list \<Rightarrow> nat list \<times> nat" where
  "fill_row a b i prev_prev prev cur =
     foldl (\<lambda>(c, best) j. let d = cell a b i j prev_prev prev c in (c[j := d], min best d))
       (cur[0 := i], i) [1..<length b + 1]"

text \<open>The rows from \<open>i\<close> on, \<open>k\<close> of them.\<close>

primrec edit_rows :: "nat \<Rightarrow> ustring \<Rightarrow> ustring \<Rightarrow> nat \<Rightarrow> nat \<Rightarrow> nat list \<Rightarrow> nat list \<Rightarrow> nat list \<Rightarrow> nat" where
  "edit_rows 0 a b m i prev_prev prev cur = prev ! length b"
| "edit_rows (Suc k) a b m i prev_prev prev cur =
     (case fill_row a b i prev_prev prev cur of (row, best) \<Rightarrow>
        if best > m then m + 1 else edit_rows k a b m (i + 1) prev row prev_prev)"

definition edit_distance :: "ustring \<Rightarrow> ustring \<Rightarrow> nat \<Rightarrow> nat" where
  "edit_distance a b m =
     (if (length a - length b) + (length b - length a) > m then m + 1
      else if a = [] then length b
      else if b = [] then length a
      else
        (let zeros = replicate (length b + 1) 0
         in edit_rows (length a) a b m 1 zeros [0..<length b + 1] zeros))"

subsection \<open>Ranking\<close>

definition olive_prefix :: ustring where
  "olive_prefix = cps ''__olive_''"

definition starts_with :: "ustring \<Rightarrow> ustring \<Rightarrow> bool" where
  "starts_with p s \<longleftrightarrow> take (length p) s = p"

definition edit_limit :: "ustring \<Rightarrow> nat" where
  "edit_limit target = min 3 (max 1 (length target div 3))"

definition hits :: "ustring \<Rightarrow> ustring list \<Rightarrow> (nat \<times> ustring) list" where
  "hits target candidates =
     concat (map (\<lambda>c.
       if c = target \<or> starts_with olive_prefix c then []
       else let d = edit_distance target c (edit_limit target)
            in if d \<le> edit_limit target then [(d, c)] else []) candidates)"

definition ranked :: "ustring \<Rightarrow> ustring list \<Rightarrow> nat \<Rightarrow> ustring list \<times> bool" where
  "ranked target candidates n =
     (let hs = sort (hits target candidates);
          unambiguous = (case hs of [] \<Rightarrow> False | [_] \<Rightarrow> True | a # b # _ \<Rightarrow> fst a < fst b)
      in (map snd (take n hs), unambiguous))"

definition closest_n :: "ustring \<Rightarrow> ustring list \<Rightarrow> nat \<Rightarrow> ustring list" where
  "closest_n target candidates n = fst (ranked target candidates n)"

definition closest :: "ustring \<Rightarrow> ustring list \<Rightarrow> ustring option" where
  "closest target candidates = (case closest_n target candidates 1 of [] \<Rightarrow> None | x # _ \<Rightarrow> Some x)"

subsection \<open>The distance as the least count of edits\<close>

text \<open>
  How the second word comes from the first, from left to right: a letter is kept, replaced, removed or
  put in, or two neighbours change places.
\<close>

inductive edits :: "'a list \<Rightarrow> 'a list \<Rightarrow> nat \<Rightarrow> bool" where
  edits_nil: "edits [] [] 0"
| edits_keep: "edits xs ys n \<Longrightarrow> edits (xs @ [x]) (ys @ [x]) n"
| edits_replace: "edits xs ys n \<Longrightarrow> edits (xs @ [x]) (ys @ [y]) (Suc n)"
| edits_remove: "edits xs ys n \<Longrightarrow> edits (xs @ [x]) ys (Suc n)"
| edits_insert: "edits xs ys n \<Longrightarrow> edits xs (ys @ [y]) (Suc n)"
| edits_swap: "edits xs ys n \<Longrightarrow> edits (xs @ [x, y]) (ys @ [y, x]) (Suc n)"

fun osa :: "'a list \<Rightarrow> 'a list \<Rightarrow> nat" where
  "osa [] ys = length ys"
| "osa xs [] = length xs"
| "osa (x # xs) (y # ys) =
     (let d = min (min (osa xs (y # ys) + 1) (osa (x # xs) ys + 1)) (osa xs ys + (if x = y then 0 else 1))
      in case (xs, ys) of
           (x' # xs', y' # ys') \<Rightarrow> if x = y' \<and> x' = y then min d (osa xs' ys' + 1) else d
         | _ \<Rightarrow> d)"

lemma osa_nil [simp]: "osa xs [] = length xs"
  by (cases xs) simp_all

declare osa.simps(3) [simp del]

lemma osa_cons_le:
  "osa (x # xs) (y # ys) \<le> Suc (osa xs (y # ys))" "osa (x # xs) (y # ys) \<le> Suc (osa (x # xs) ys)"
  "osa (x # xs) (y # ys) \<le> Suc (osa xs ys)" "osa (x # xs) (x # ys) \<le> osa xs ys"
  unfolding osa.simps(3) [of x xs y ys] osa.simps(3) [of x xs x ys]
  by (auto simp: Let_def split: list.split)

lemma osa_swap_le: "osa (x # y # xs) (y # x # ys) \<le> Suc (osa xs ys)"
  unfolding osa.simps(3) [of x "y # xs" y "x # ys"] by (simp add: Let_def)

lemma osa_le: "osa (x # xs) ys \<le> Suc (osa xs ys)" "osa xs (y # ys) \<le> Suc (osa xs ys)"
  by (cases ys; simp add: osa_cons_le) (cases xs; simp add: osa_cons_le)

lemma osa_least: "edits xs ys n \<Longrightarrow> osa (rev xs) (rev ys) \<le> n"
proof (induction rule: edits.induct)
  case (edits_keep xs ys n x)
  then show ?case using osa_cons_le(4) [of x "rev xs" "rev ys"] by simp
next
  case (edits_replace xs ys n x y)
  then show ?case using osa_cons_le(3) [of x "rev xs" y "rev ys"] by simp
next
  case (edits_remove xs ys n x)
  then show ?case using osa_le(1) [of x "rev xs" "rev ys"] by simp
next
  case (edits_insert xs ys n y)
  then show ?case using osa_le(2) [of "rev xs" y "rev ys"] by simp
next
  case (edits_swap xs ys n x y)
  then show ?case using osa_swap_le [of y x "rev xs" "rev ys"] by simp
qed simp

lemma edits_all_in: "edits [] ys (length ys)"
  by (induction ys rule: rev_induct) (auto intro: edits.intros)

lemma edits_all_out: "edits xs [] (length xs)"
  by (induction xs rule: rev_induct) (auto intro: edits.intros)

lemma edits_osa: "edits (rev xs) (rev ys) (osa xs ys)"
proof (induction xs ys rule: osa.induct)
  case (1 ys)
  then show ?case using edits_all_in [of "rev ys"] by simp
next
  case (2 x xs)
  then show ?case using edits_all_out [of "rev (x # xs)"] by simp
next
  case (3 x xs y ys)
  let ?d = "min (min (osa xs (y # ys) + 1) (osa (x # xs) ys + 1)) (osa xs ys + (if x = y then 0 else 1))"
  have "edits (rev (x # xs)) (rev (y # ys)) (osa xs (y # ys) + 1)"
    "edits (rev (x # xs)) (rev (y # ys)) (osa (x # xs) ys + 1)"
    "edits (rev (x # xs)) (rev (y # ys)) (osa xs ys + (if x = y then 0 else 1))"
    using 3(1-3) by (auto intro: edits.intros)
  then have d: "edits (rev (x # xs)) (rev (y # ys)) ?d" by (auto simp: min_def)
  show ?case
  proof (cases "\<exists>x' xs' y' ys'. xs = x' # xs' \<and> ys = y' # ys' \<and> x = y' \<and> x' = y")
    case True
    then obtain xs' ys' where e: "xs = y # xs'" "ys = x # ys'" by blast
    then have "edits (rev (x # xs)) (rev (y # ys)) (osa xs' ys' + 1)"
      using 3(4) edits_swap [of "rev xs'" "rev ys'" _ y x] by (simp add: Let_def)
    with d have "edits (rev (x # xs)) (rev (y # ys)) (min ?d (osa xs' ys' + 1))" by (simp add: min_def)
    with e show ?thesis
      unfolding e osa.simps(3) [of x "y # xs'" y "x # ys'"] by (simp add: Let_def)
  next
    case False
    then have "osa (x # xs) (y # ys) = ?d"
      unfolding osa.simps(3) [of x xs y ys] by (auto simp: Let_def split: list.split)
    with d show ?thesis by simp
  qed
qed


lemma least_osa: "(LEAST n. edits xs ys n) = osa (rev xs) (rev ys)"
  using edits_osa [of "rev xs" "rev ys"] osa_least by (intro Least_equality) auto

lemma edits_lengths: "edits xs ys n \<Longrightarrow> length xs \<le> length ys + n \<and> length ys \<le> length xs + n"
  by (induction rule: edits.induct) auto

lemma osa_lengths: "length xs \<le> length ys + osa xs ys" "length ys \<le> length xs + osa xs ys"
  using edits_lengths [OF edits_osa [of xs ys]] by simp_all

text \<open>When a row is beyond the bound everywhere, so is the next one.\<close>

lemma osa_step:
  "osa (x # xs) (y # ys) =
    (let d = min (min (osa xs (y # ys) + 1) (osa (x # xs) ys + 1)) (osa xs ys + (if x = y then 0 else 1))
     in if xs \<noteq> [] \<and> ys \<noteq> [] \<and> x = hd ys \<and> hd xs = y then min d (osa (tl xs) (tl ys) + 1) else d)"
  unfolding osa.simps(3) [of x xs y ys] by (cases xs; cases ys) (simp_all add: Let_def)

lemma osa_row_above:
  assumes "\<And>k. m < osa xs (drop k ys)"
  shows "m < osa (x # xs) ys"
  using assms
proof (induction ys)
  case Nil
  then show ?case using Nil [of 0] by simp
next
  case (Cons y ys)
  have a: "m < osa xs (y # ys)" and b: "m < osa xs ys"
    using Cons.prems [of 0] Cons.prems [of 1] by simp_all
  have "m < osa xs (drop k ys)" for k using Cons.prems [of "Suc k"] by simp
  then have c: "m < osa (x # xs) ys" by (rule Cons.IH)
  have d: "m < Suc (osa (tl xs) (tl ys))" if "xs \<noteq> []" "ys \<noteq> []"
    using osa_le(1) [of "hd xs" "tl xs" "tl ys"] Cons.prems [of 2] that by (cases ys) auto
  show ?case
    using a b c d osa_step [of x xs y ys] by (auto simp: Let_def min_def split: if_splits)
qed

lemma osa_rows_above:
  assumes "\<And>k. m < osa xs (drop k ys)"
  shows "m < osa (zs @ xs) (drop k ys)"
proof (induction zs arbitrary: k)
  case (Cons z zs)
  have "m < osa (zs @ xs) (drop l (drop k ys))" for l
    using Cons.IH [of "l + k"] by simp
  then show ?case by (simp add: osa_row_above)
qed (simp add: assms)

subsection \<open>The rows\<close>

definition upto :: "ustring \<Rightarrow> ustring \<Rightarrow> nat \<Rightarrow> nat \<Rightarrow> nat" where
  "upto a b i j = osa (rev (take i a)) (rev (take j b))"

definition row_holds :: "ustring \<Rightarrow> ustring \<Rightarrow> nat \<Rightarrow> nat \<Rightarrow> nat list \<Rightarrow> bool" where
  "row_holds a b i n row \<longleftrightarrow> length row = length b + 1 \<and> (\<forall>j\<le>n. row ! j = upto a b i j)"

lemma rev_take_Suc: "i < length a \<Longrightarrow> rev (take (Suc i) a) = a ! i # rev (take i a)"
  by (simp add: take_Suc_conv_app_nth)

lemma upto_0: "i \<le> length a \<Longrightarrow> upto a b i 0 = i" "j \<le> length b \<Longrightarrow> upto a b 0 j = j"
  by (simp_all add: upto_def)

lemma upto_Suc:
  assumes "i < length a" "j < length b"
  shows "upto a b (Suc i) (Suc j) =
    (let d = min (min (upto a b i (Suc j) + 1) (upto a b (Suc i) j + 1))
               (upto a b i j + (if a ! i = b ! j then 0 else 1))
     in if 0 < i \<and> 0 < j \<and> a ! i = b ! (j - 1) \<and> a ! (i - 1) = b ! j
        then min d (upto a b (i - 1) (j - 1) + 1) else d)"
proof -
  note ends = rev_take_Suc [OF assms(1)] rev_take_Suc [OF assms(2)]
  note step = osa_step [of "a ! i" "rev (take i a)" "b ! j" "rev (take j b)"]
  consider "i = 0" | "j = 0" | i' j' where "i = Suc i'" "j = Suc j'"
    by (metis not0_implies_Suc)
  then show ?thesis
  proof cases
    case 1
    show ?thesis unfolding upto_def ends step by (simp add: 1 Let_def)
  next
    case 2
    show ?thesis unfolding upto_def ends step by (simp add: 2 Let_def)
  next
    case (3 i' j')
    with assms have r: "rev (take i a) = a ! i' # rev (take i' a)" "rev (take j b) = b ! j' # rev (take j' b)"
      by (simp_all add: rev_take_Suc)
    have n: "i - 1 = i'" "j - 1 = j'" "(0 < i) = True" "(0 < j) = True" using 3 by simp_all
    show ?thesis
      unfolding upto_def ends step n unfolding r by (simp add: Let_def)
  qed
qed

lemma cell_upto:
  assumes "i < length a" "j < length b"
    and "row_holds a b i (length b) prev" "row_holds a b (Suc i) j cur"
    and "0 < i \<Longrightarrow> row_holds a b (i - 1) (length b) prev_prev"
  shows "cell a b (Suc i) (Suc j) prev_prev prev cur = upto a b (Suc i) (Suc j)"
proof -
  have p: "prev ! Suc j = upto a b i (Suc j)" "prev ! j = upto a b i j" "cur ! j = upto a b (Suc i) j"
    using assms by (auto simp: row_holds_def)
  have q: "prev_prev ! (j - 1) = upto a b (i - 1) (j - 1)" if "0 < i" "0 < j"
    using assms that by (auto simp: row_holds_def)
  show ?thesis
    unfolding upto_Suc [OF assms(1,2)] using p q by (auto simp: cell_def Let_def)
qed

lemma fill_row_upto:
  assumes i: "i < length a" and l: "length cur = length b + 1"
    and prev: "row_holds a b i (length b) prev"
    and pp: "0 < i \<Longrightarrow> row_holds a b (i - 1) (length b) prev_prev"
  shows "case fill_row a b (Suc i) prev_prev prev cur of (row, best) \<Rightarrow>
    row_holds a b (Suc i) (length b) row \<and> (\<forall>j\<le>length b. best \<le> upto a b (Suc i) j)"
proof -
  define f where "f = (\<lambda>(c, best) j. let d = cell a b (Suc i) j prev_prev prev c in (c[j := d], min best d))"
  have "case foldl f (cur[0 := Suc i], Suc i) [1..<k + 1] of (row, best) \<Rightarrow>
      row_holds a b (Suc i) k row \<and> (\<forall>j\<le>k. best \<le> upto a b (Suc i) j)" if "k \<le> length b" for k
    using that
  proof (induction k)
    case 0
    then show ?case using i l upto_0(1) [of "Suc i" a b] by (simp add: row_holds_def)
  next
    case (Suc k)
    obtain row best where e: "foldl f (cur[0 := Suc i], Suc i) [1..<k + 1] = (row, best)" by force
    with Suc have r: "row_holds a b (Suc i) k row" "\<And>j. j \<le> k \<Longrightarrow> best \<le> upto a b (Suc i) j"
      by simp_all
    have c: "cell a b (Suc i) (Suc k) prev_prev prev row = upto a b (Suc i) (Suc k)"
      using i Suc.prems prev pp r(1) by (intro cell_upto) auto
    have "foldl f (cur[0 := Suc i], Suc i) [1..<Suc k + 1] =
        (row[Suc k := upto a b (Suc i) (Suc k)], min best (upto a b (Suc i) (Suc k)))"
      using e by (simp add: f_def c Let_def)
    then show ?case
      using r Suc.prems by (auto simp: row_holds_def nth_list_update le_Suc_eq min.coboundedI1)
  qed
  from this [of "length b"] show ?thesis by (simp add: fill_row_def f_def)
qed

text \<open>A row beyond the bound: the whole distance is.\<close>

lemma stop_early:
  assumes "i \<le> length a" "\<And>j. j \<le> length b \<Longrightarrow> m < upto a b i j"
  shows "m < osa (rev a) (rev b)"
proof -
  have "m < osa (rev (take i a)) (drop k (rev b))" for k
    using assms(2) [of "length b - k"] by (simp add: upto_def drop_rev)
  then have "m < osa (rev (drop i a) @ rev (take i a)) (drop 0 (rev b))"
    by (rule osa_rows_above)
  then show ?thesis by (simp flip: rev_append)
qed

lemma edit_rows_upto:
  assumes "k + i = length a" "length cur = length b + 1"
    and "row_holds a b i (length b) prev"
    and "length prev_prev = length b + 1" "0 < i \<Longrightarrow> row_holds a b (i - 1) (length b) prev_prev"
  shows "min (edit_rows k a b m (Suc i) prev_prev prev cur) (Suc m) = min (osa (rev a) (rev b)) (Suc m)"
  using assms
proof (induction k arbitrary: i prev_prev prev cur)
  case 0
  then show ?case by (simp add: row_holds_def upto_def)
next
  case (Suc k)
  obtain row best where e: "fill_row a b (Suc i) prev_prev prev cur = (row, best)" by force
  have r: "row_holds a b (Suc i) (length b) row" "\<And>j. j \<le> length b \<Longrightarrow> best \<le> upto a b (Suc i) j"
    using fill_row_upto [of i a cur b prev prev_prev] Suc.prems e by auto
  show ?case
  proof (cases "best > m")
    case True
    then have "m < osa (rev a) (rev b)"
      using Suc.prems(1) r(2) by (intro stop_early [of "Suc i"]) (auto intro: less_le_trans)
    with True e show ?thesis by simp
  next
    case False
    then show ?thesis
      using Suc.IH [of "Suc i" prev_prev row prev] Suc.prems r(1) e
      by (simp add: row_holds_def)
  qed
qed

lemma edit_distance_osa: "min (edit_distance a b m) (Suc m) = min (osa (rev a) (rev b)) (Suc m)"
proof (cases "(length a - length b) + (length b - length a) > m")
  case True
  then show ?thesis using osa_lengths(1) [of "rev a" "rev b"] osa_lengths(2) [of "rev b" "rev a"]
    by (simp add: edit_distance_def)
next
  case False
  have "row_holds a b 0 (length b) [0..<length b + 1]"
    using upto_0(2) [of _ b a] by (simp add: row_holds_def nth_append)
  with False show ?thesis
    using edit_rows_upto [of "length a" 0 a "replicate (length b + 1) 0" b] 
    by (simp add: edit_distance_def Let_def)
qed

subsection \<open>What is promised\<close>

text \<open>
  C10. The distance is the least number of edits that make the second name of the first, where an edit
  removes a letter, puts one in, replaces one or swaps two neighbours, as far as the bound goes: leaving
  the rows early, and refusing names whose lengths are too far apart, never changes what is compared
  with the bound.
\<close>

theorem edit_distance_least:
  "(\<exists>n. edits a b n) \<and> min (edit_distance a b m) (m + 1) = min (LEAST n. edits a b n) (m + 1)"
  using edits_osa [of "rev a" "rev b"] by (auto simp: least_osa edit_distance_osa)

lemma sort_key_mset: "mset xs = mset ys \<Longrightarrow> sort xs = sort (ys :: 'a :: linorder list)"
  by (simp add: properties_for_sort)

lemma hits_mset: "mset cs = mset ds \<Longrightarrow> mset (hits t cs) = mset (hits t ds)"
proof -
  define g where "g c = (if c = t \<or> starts_with olive_prefix c then []
       else let d = edit_distance t c (edit_limit t)
            in if d \<le> edit_limit t then [(d, c)] else [])" for c
  have "mset (concat (map g cs)) = (\<Sum>c\<in>#mset cs. mset (g c))" for cs
    by (induction cs) simp_all
  moreover have "hits t cs = concat (map g cs)" for cs
    unfolding hits_def g_def ..
  ultimately have "mset (hits t cs) = (\<Sum>c\<in>#mset cs. mset (g c))" for cs by simp
  then show "mset cs = mset ds \<Longrightarrow> mset (hits t cs) = mset (hits t ds)" by simp
qed

lemma ranked_mset: "mset cs = mset ds \<Longrightarrow> ranked t cs n = ranked t ds n"
  unfolding ranked_def Let_def using sort_key_mset [OF hits_mset, of cs ds t] by simp

text \<open>A name that may be offered for another one, by the count of edits only.\<close>

definition edit_count :: "ustring \<Rightarrow> ustring \<Rightarrow> nat" where
  "edit_count t c = (LEAST n. edits t c n)"

definition near :: "ustring \<Rightarrow> ustring \<Rightarrow> bool" where
  "near t c \<longleftrightarrow> c \<noteq> t \<and> \<not> starts_with olive_prefix c \<and> edit_count t c \<le> edit_limit t"

lemma distance_in_limit:
  "(edit_distance t c m \<le> m) = (edit_count t c \<le> m)"
  "edit_count t c \<le> m \<Longrightarrow> edit_distance t c m = edit_count t c"
  using edit_distance_osa [of t c m] by (auto simp: edit_count_def least_osa min_def split: if_splits)

lemma set_hits: "set (hits t cs) = {(edit_count t c, c) | c. c \<in> set cs \<and> near t c}"
  by (auto simp: hits_def near_def distance_in_limit Let_def split: if_splits)

lemma closest_eq: "closest t cs = (case sort (hits t cs) of [] \<Rightarrow> None | h # _ \<Rightarrow> Some (snd h))"
  unfolding closest_def closest_n_def ranked_def Let_def by (cases "sort (hits t cs)") simp_all

text \<open>
  C32. The name that is offered for an unknown one is among the candidates, is near enough, and no other
  candidate that is near enough is nearer, nor equally near and before it in the order of names; there
  is none only if no candidate is near enough. Which one is offered, and whether it may be put in
  automatically, does not depend on the order in which the hash tables list the candidates.
\<close>

theorem closest_is_nearest:
  "(case closest t cs of
      None \<Rightarrow> \<not> (\<exists>c. c \<in> set cs \<and> near t c)
    | Some c \<Rightarrow> c \<in> set cs \<and> near t c \<and>
        (\<forall>d\<in>set cs. near t d \<longrightarrow> (edit_count t c, c) \<le> (edit_count t d, d))) \<and>
   (\<forall>ds. mset ds = mset cs \<longrightarrow> ranked t ds n = ranked t cs n)"
proof -
  have "case closest t cs of
      None \<Rightarrow> \<not> (\<exists>c. c \<in> set cs \<and> near t c)
    | Some c \<Rightarrow> c \<in> set cs \<and> near t c \<and>
        (\<forall>d\<in>set cs. near t d \<longrightarrow> (edit_count t c, c) \<le> (edit_count t d, d))"
  proof (cases "sort (hits t cs)")
    case Nil
    then have "set (hits t cs) = {}" by (metis set_sort set_empty)
    then have "\<not> (\<exists>c. c \<in> set cs \<and> near t c)" unfolding set_hits by blast
    with Nil show ?thesis by (simp add: closest_eq)
  next
    case (Cons h hs)
    then have s: "set (h # hs) = set (hits t cs)" "sorted (h # hs)"
      by (metis set_sort, metis sorted_sort)
    then have h: "h \<in> set (hits t cs)" by auto
    have "h \<le> g" if "g \<in> set (h # hs)" for g using s(2) that by auto
    then have "h \<le> (edit_count t d, d)" if "d \<in> set cs" "near t d" for d
      using that unfolding s(1) set_hits by blast
    moreover obtain c where "h = (edit_count t c, c)" "c \<in> set cs" "near t c"
      using h unfolding set_hits by blast
    moreover have "closest t cs = Some (snd h)" by (simp add: closest_eq Cons)
    ultimately show ?thesis by simp
  qed
  then show ?thesis using ranked_mset by blast
qed

lemma closest_is_nearest_witness:
  "closest (cps ''totla'') [cps ''count'', cps ''total'', cps ''__olive_to''] = Some (cps ''total'') \<and>
   near (cps ''totla'') (cps ''total'')"
proof -
  have c: "closest (cps ''totla'') [cps ''count'', cps ''total'', cps ''__olive_to''] = Some (cps ''total'')"
    by code_simp
  show ?thesis
    using closest_is_nearest [where t = "cps ''totla''"
        and cs = "[cps ''count'', cps ''total'', cps ''__olive_to'']" and n = 1] c
    by simp
qed

end
