(* ===== verification/Scopes.thy ===== *)
theory Scopes
  imports Suggest "HOL-Library.AList"
begin

text \<open>
  The symbol table of the name resolver (\<open>semantic/symbol_table.rs\<close>): a stack of scopes, here with
  the innermost one first. The hash table of a scope is an association list; the order in which it is
  listed, which the source leaves to the hash function, is the order in which its names came in.
\<close>

subsection \<open>Symbols and scopes\<close>

datatype symbol_kind =
    SkVariable | SkFunction | SkStruct | SkEnum | SkTypeAlias
  | SkParameter | SkLoopVar | SkImport | SkNativeImport | SkPyImport

record symbol =
  sy_name :: ustring
  sy_kind :: symbol_kind
  sy_span :: span
  sy_private :: bool
  sy_used :: bool

datatype scope_kind = ScGlobal | ScFunction | ScStruct | ScBlock | ScComprehension

record scope =
  sc_kind :: scope_kind
  sc_symbols :: "(ustring \<times> symbol) list"

type_synonym symbol_table = "scope list"

definition scope_new :: "scope_kind \<Rightarrow> scope" where
  "scope_new k = \<lparr>sc_kind = k, sc_symbols = []\<rparr>"

definition scope_get :: "scope \<Rightarrow> ustring \<Rightarrow> symbol option" where
  "scope_get sc x = map_of (sc_symbols sc) x"

definition scope_define :: "symbol \<Rightarrow> scope \<Rightarrow> scope" where
  "scope_define sy sc = sc\<lparr>sc_symbols := AList.update (sy_name sy) sy (sc_symbols sc)\<rparr>"

definition scope_mark :: "ustring \<Rightarrow> scope \<Rightarrow> scope" where
  "scope_mark x sc = (case scope_get sc x of
     None \<Rightarrow> sc
   | Some sy \<Rightarrow> sc\<lparr>sc_symbols := AList.update x (sy\<lparr>sy_used := True\<rparr>) (sc_symbols sc)\<rparr>)"

subsection \<open>The table\<close>

definition table_new :: symbol_table where
  "table_new = [scope_new ScGlobal]"

definition table_push :: "scope_kind \<Rightarrow> symbol_table \<Rightarrow> symbol_table" where
  "table_push k t = scope_new k # t"

text \<open>The table is never empty, so that \<open>last_mut().unwrap()\<close> does not panic; see \<open>table_ok\<close>.\<close>

fun table_define :: "symbol \<Rightarrow> symbol_table \<Rightarrow> symbol_table" where
  "table_define sy [] = []"
| "table_define sy (sc # t) = scope_define sy sc # t"

fun table_lookup :: "symbol_table \<Rightarrow> ustring \<Rightarrow> symbol option" where
  "table_lookup [] x = None"
| "table_lookup (sc # t) x = (case scope_get sc x of Some sy \<Rightarrow> Some sy | None \<Rightarrow> table_lookup t x)"

fun mark_used :: "ustring \<Rightarrow> symbol_table \<Rightarrow> symbol_table" where
  "mark_used x [] = []"
| "mark_used x (sc # t) = (case scope_get sc x of
     Some _ \<Rightarrow> scope_mark x sc # t
   | None \<Rightarrow> sc # mark_used x t)"

fun mark_used_in_current :: "ustring \<Rightarrow> symbol_table \<Rightarrow> symbol_table" where
  "mark_used_in_current x [] = []"
| "mark_used_in_current x (sc # t) = scope_mark x sc # t"

definition unused_symbol :: "symbol \<Rightarrow> bool" where
  "unused_symbol sy \<longleftrightarrow>
     \<not> sy_used sy \<and> sy_kind sy \<in> {SkVariable, SkParameter, SkLoopVar} \<and>
     \<not> starts_with (cps ''_'') (sy_name sy) \<and> sy_name sy \<noteq> cps ''self''"

fun pop_unused :: "symbol_table \<Rightarrow> symbol_table \<times> symbol list" where
  "pop_unused [] = ([], [])"
| "pop_unused [sc] = ([sc], [])"
| "pop_unused (sc # sc' # t) =
     (sc' # t,
      if sc_kind sc = ScFunction \<or> sc_kind sc = ScBlock
      then filter unused_symbol (map snd (sc_symbols sc)) else [])"

definition visible_names :: "symbol_table \<Rightarrow> ustring list" where
  "visible_names t = concat (map (\<lambda>sc. map fst (sc_symbols sc)) t)"

subsection \<open>Laws\<close>

text \<open>
  What a client of the table relies on, on the level of the bindings: each scope is a map from names to
  symbols, and every table has a scope.
\<close>

definition scope_ok :: "scope \<Rightarrow> bool" where
  "scope_ok sc \<longleftrightarrow> distinct (map fst (sc_symbols sc)) \<and> (\<forall>(x, sy)\<in>set (sc_symbols sc). sy_name sy = x)"

definition table_ok :: "symbol_table \<Rightarrow> bool" where
  "table_ok t \<longleftrightarrow> t \<noteq> [] \<and> list_all scope_ok t"

lemma scope_get_new [simp]: "scope_get (scope_new k) x = None"
  by (simp add: scope_get_def scope_new_def)

lemma scope_get_define: "scope_get (scope_define sy sc) = (scope_get sc)(sy_name sy \<mapsto> sy)"
  by (simp add: scope_get_def scope_define_def update_conv' fun_eq_iff)

lemma scope_get_mark:
  "scope_get (scope_mark x sc) y =
     (if y = x then map_option (\<lambda>sy. sy\<lparr>sy_used := True\<rparr>) (scope_get sc x) else scope_get sc y)"
  by (auto simp: scope_get_def scope_mark_def update_conv' split: option.split)

lemma scope_kind_simps [simp]:
  "sc_kind (scope_new k) = k" "sc_kind (scope_define sy sc) = sc_kind sc" "sc_kind (scope_mark x sc) = sc_kind sc"
  by (simp_all add: scope_new_def scope_define_def scope_mark_def split: option.split)

lemma scope_ok_new [simp]: "scope_ok (scope_new k)"
  by (simp add: scope_ok_def scope_new_def)

lemma update_entries:
  "(\<forall>(y, v')\<in>set al. P y v') \<Longrightarrow> P x v \<Longrightarrow> \<forall>(y, v')\<in>set (AList.update x v al). P y v'"
  by (induction al) auto

lemma scope_ok_update:
  "scope_ok sc \<Longrightarrow> sy_name sy = x \<Longrightarrow> scope_ok (sc\<lparr>sc_symbols := AList.update x sy (sc_symbols sc)\<rparr>)"
  using update_entries [of "sc_symbols sc" "\<lambda>x sy. sy_name sy = x" x sy]
  by (simp add: scope_ok_def distinct_update)

lemma scope_ok_define [simp]: "scope_ok sc \<Longrightarrow> scope_ok (scope_define sy sc)"
  by (simp add: scope_define_def scope_ok_update)

lemma scope_get_name: "scope_ok sc \<Longrightarrow> scope_get sc x = Some sy \<Longrightarrow> sy_name sy = x"
  by (auto simp: scope_ok_def scope_get_def dest: map_of_SomeD)

lemma scope_ok_mark [simp]: "scope_ok sc \<Longrightarrow> scope_ok (scope_mark x sc)"
  by (auto simp: scope_mark_def scope_ok_update scope_get_name split: option.split)

lemma visible_lookup: "x \<in> set (visible_names t) \<longleftrightarrow> table_lookup t x \<noteq> None"
proof (induction t)
  case (Cons sc t)
  then show ?case
    by (auto simp: visible_names_def scope_get_def map_of_eq_None_iff weak_map_of_SomeI
        split: option.split dest: map_of_SomeD)
      (metis fst_conv image_eqI map_of_SomeD)
qed (simp add: visible_names_def)

end
