(* ===== verification/Resolver.thy ===== *)
theory Resolver
  imports Scopes
begin

text \<open>
  The name resolver (\<open>semantic/resolver.rs\<close>). The counter of the nesting depth is the first argument:
  it holds what is left of \<open>MAX_SEMANTIC_NESTING\<close>, so that the recursion is on it and
  \<open>enter_nested\<close> fails at zero. Sites of definitions are kept by the place of the use, since expressions
  carry no identity number. A diagnostic that the source builds in place is a constructor with the data
  it is built from.
\<close>

subsection \<open>State\<close>

datatype semantic_error =
    UndefinedName ustring span "ustring list" bool
  | DuplicateParam ustring span span
  | AssignToUndefined ustring span "ustring list" bool
  | PrivateAccess ustring span
  | AmbiguousVariant ustring span "ustring list"
  | StmtTooDeep span
  | ExprTooDeep span
  | UnusedBinding symbol_kind ustring span
  | UnknownDecorator ustring span

record resolver =
  r_table :: symbol_table
  r_errors :: "semantic_error list"
  r_warnings :: "semantic_error list"
  r_origins :: "ustring \<Rightarrow> ustring list"
  r_sites :: "(span \<times> span) list"

definition max_semantic_nesting :: nat where
  "max_semantic_nesting = 100"

definition builtin_fns :: "ustring list" where
  "builtin_fns = map cps
     [''print'', ''str'', ''int'', ''type'', ''len'', ''max'', ''min'', ''sum'', ''list_new'', ''list'',
      ''dict'', ''slice'', ''ffi_errno'', ''bytes_new'', ''bytes_push'', ''bytes_push_u16_le'',
      ''bytes_push_u32_le'', ''Error'', ''Error::Error'', ''enumerate'', ''zip'', ''abs'', ''round'',
      ''input'', ''sorted'', ''reversed'', ''any'', ''all'']"

definition builtin_types :: "ustring list" where
  "builtin_types = map cps
     [''i64'', ''i32'', ''i16'', ''i8'', ''u64'', ''u32'', ''u16'', ''u8'', ''float'', ''f64'', ''f32'', ''bool'']"

definition resolver_new :: resolver where
  "resolver_new =
     \<lparr>r_table = fold (\<lambda>x. table_define \<lparr>sy_name = x, sy_kind = SkFunction, sy_span = default_span,
                                       sy_private = False, sy_used = True\<rparr>)
        (builtin_fns @ builtin_types) table_new,
      r_errors = [], r_warnings = [], r_origins = (\<lambda>_. []), r_sites = []\<rparr>"

definition push_error :: "semantic_error \<Rightarrow> resolver \<Rightarrow> resolver" where
  "push_error e r = r\<lparr>r_errors := r_errors r @ [e]\<rparr>"

definition push_warning :: "semantic_error \<Rightarrow> resolver \<Rightarrow> resolver" where
  "push_warning e r = r\<lparr>r_warnings := r_warnings r @ [e]\<rparr>"

definition on_table :: "(symbol_table \<Rightarrow> symbol_table) \<Rightarrow> resolver \<Rightarrow> resolver" where
  "on_table f r = r\<lparr>r_table := f (r_table r)\<rparr>"

definition record_site :: "span \<Rightarrow> span \<Rightarrow> resolver \<Rightarrow> resolver" where
  "record_site use d r = r\<lparr>r_sites := (use, d) # r_sites r\<rparr>"

abbreviation push_scope :: "scope_kind \<Rightarrow> resolver \<Rightarrow> resolver" where
  "push_scope k \<equiv> on_table (table_push k)"

subsection \<open>Definitions of names\<close>

definition define_sym :: "ustring \<Rightarrow> symbol_kind \<Rightarrow> span \<Rightarrow> resolver \<Rightarrow> resolver" where
  "define_sym x k sp = on_table (table_define
     \<lparr>sy_name = x, sy_kind = k, sy_span = sp, sy_private = starts_with (cps ''_'') x, sy_used = False\<rparr>)"

definition qual_name :: "ustring \<Rightarrow> ustring \<Rightarrow> ustring" where
  "qual_name a b = a @ cps ''::'' @ b"

text \<open>The text of a type expression (its \<open>Display\<close>), which is the prefix of the members of an \<open>impl\<close>.\<close>

fun join_with :: "ustring \<Rightarrow> ustring list \<Rightarrow> ustring" where
  "join_with sep [] = []"
| "join_with sep [x] = x"
| "join_with sep (x # y # xs) = x @ sep @ join_with sep (y # xs)"

fun dotted :: "ustring \<Rightarrow> ustring" where
  "dotted (c # d # cs) = (if c = 58 \<and> d = 58 then 46 # dotted cs else c # dotted (d # cs))"
| "dotted cs = cs"

fun type_text :: "'s type_expr_of \<Rightarrow> ustring" where
  "type_text (TypeExpr (TeName n) _) = n"
| "type_text (TypeExpr (TeQualified parts) _) = join_with (cps ''.'') parts"
| "type_text (TypeExpr (TeGeneric n args) _) = dotted n @ cps ''['' @ join_with (cps '', '') (map type_text args) @ cps '']''"
| "type_text (TypeExpr (TeTuple args) _) = cps ''('' @ join_with (cps '', '') (map type_text args) @ cps '')''"
| "type_text (TypeExpr (TeList t) _) = cps ''['' @ type_text t @ cps '']''"
| "type_text (TypeExpr (TeDict k v) _) = cps ''{'' @ type_text k @ cps '': '' @ type_text v @ cps ''}''"
| "type_text (TypeExpr (TeUnion a b) _) = type_text a @ cps '' | '' @ type_text b"
| "type_text (TypeExpr (TeFn ps ret) _) =
     cps ''fn('' @ join_with (cps '', '') (map type_text ps) @ cps '') -> '' @ type_text ret"
| "type_text (TypeExpr (TeRef t) _) = cps ''&'' @ type_text t"
| "type_text (TypeExpr (TeMutRef t) _) = cps ''&mut '' @ type_text t"
| "type_text (TypeExpr (TePtr t) _) = cps ''*'' @ type_text t"
| "type_text (TypeExpr (TeFixedArray t n) _) = cps ''['' @ type_text t @ cps ''; '' @ cps (show_nat n) @ cps '']''"

subsection \<open>Declarations that are visible before their place\<close>

definition hoist_member :: "ustring \<Rightarrow> src_stmt \<Rightarrow> resolver \<Rightarrow> resolver" where
  "hoist_member type_name s r = (case s_kind s of
     SFn x _ _ _ _ _ _ \<Rightarrow> define_sym (qual_name type_name x) SkFunction (s_span s) r
   | SConst x _ _ _ \<Rightarrow> define_sym (qual_name type_name x) SkVariable (s_span s) r
   | _ \<Rightarrow> r)"

definition hoist_variant :: "ustring \<Rightarrow> span \<Rightarrow> enum_variant \<Rightarrow> resolver \<Rightarrow> resolver" where
  "hoist_variant enum_name sp v r = (case v of EnumVariant x _ _ \<Rightarrow>
     (let r1 = define_sym (qual_name enum_name x) SkFunction sp r;
          r2 = r1\<lparr>r_origins := (r_origins r1)(x := r_origins r1 x @ [enum_name])\<rparr>
      in define_sym x SkFunction sp r2))"

definition hoist_stmt :: "src_stmt \<Rightarrow> resolver \<Rightarrow> resolver" where
  "hoist_stmt s r = (case s_kind s of
     SFn x _ _ _ _ _ _ \<Rightarrow> define_sym x SkFunction (s_span s) r
   | SStruct x _ _ _ _ \<Rightarrow> define_sym x SkStruct (s_span s) r
   | STypeAlias x _ _ \<Rightarrow> define_sym x SkTypeAlias (s_span s) r
   | SImpl _ _ ty body \<Rightarrow> fold (hoist_member (type_text ty)) body r
   | SEnum x _ variants _ _ \<Rightarrow> fold (hoist_variant x (s_span s)) variants (define_sym x SkEnum (s_span s) r)
   | _ \<Rightarrow> r)"

definition hoist_fns_and_structs :: "src_stmt list \<Rightarrow> resolver \<Rightarrow> resolver" where
  "hoist_fns_and_structs stmts = fold hoist_stmt stmts"

definition known_decorators :: "ustring list" where
  "known_decorators = map cps [''memo'', ''test'', ''bench'', ''safe'']"

definition check_decorators :: "decorator list \<Rightarrow> resolver \<Rightarrow> resolver" where
  "check_decorators = fold (\<lambda>d r. if dc_name d \<in> set known_decorators then r
                                  else push_warning (UnknownDecorator (dc_name d) (dc_span d)) r)"

definition pop_scope :: "resolver \<Rightarrow> resolver" where
  "pop_scope r = (case pop_unused (r_table r) of (t, syms) \<Rightarrow>
     fold (\<lambda>sy. push_warning (UnusedBinding (sy_kind sy) (sy_name sy) (sy_span sy))) syms (r\<lparr>r_table := t\<rparr>))"

definition suggest :: "ustring \<Rightarrow> resolver \<Rightarrow> ustring list \<times> bool" where
  "suggest x r = ranked x (visible_names (r_table r)) 3"

definition push_undefined :: "(ustring \<Rightarrow> span \<Rightarrow> ustring list \<Rightarrow> bool \<Rightarrow> semantic_error) \<Rightarrow> ustring \<Rightarrow> span \<Rightarrow> resolver \<Rightarrow> resolver" where
  "push_undefined mk x sp r = (case suggest x r of (names, sure) \<Rightarrow> push_error (mk x sp names sure) r)"

definition define_for_target :: "for_target \<Rightarrow> resolver \<Rightarrow> resolver" where
  "define_for_target tg r = (case tg of
     ForName x sp \<Rightarrow> define_sym x SkLoopVar sp r
   | ForTuple names \<Rightarrow> fold (\<lambda>(x, sp). define_sym x SkLoopVar sp) names r)"

subsection \<open>One level of the resolver, over the resolvers of the level below\<close>

definition resolve_opt :: "('e \<Rightarrow> resolver \<Rightarrow> resolver) \<Rightarrow> 'e option \<Rightarrow> resolver \<Rightarrow> resolver" where
  "resolve_opt re x r = (case x of Some e \<Rightarrow> re e r | None \<Rightarrow> r)"

definition resolve_param ::
    "('e \<Rightarrow> resolver \<Rightarrow> resolver) \<Rightarrow> 'e param_of \<Rightarrow> (ustring \<rightharpoonup> span) \<times> resolver \<Rightarrow> (ustring \<rightharpoonup> span) \<times> resolver" where
  "resolve_param re p state = (case p of Param x ty dflt k mut_ sp \<Rightarrow> (case state of (seen, r) \<Rightarrow>
     (case seen x of
        Some first \<Rightarrow> (seen, resolve_opt re dflt (push_error (DuplicateParam x sp first) r))
      | None \<Rightarrow> (seen(x \<mapsto> sp), resolve_opt re dflt (define_sym x SkParameter sp r)))))"

definition resolve_params :: "('e \<Rightarrow> resolver \<Rightarrow> resolver) \<Rightarrow> 'e param_of list \<Rightarrow> resolver \<Rightarrow> resolver" where
  "resolve_params re ps r = snd (fold (resolve_param re) ps (Map.empty, r))"

fun resolve_pattern :: "('e \<Rightarrow> resolver \<Rightarrow> resolver) \<Rightarrow> 'e src_pattern_of \<Rightarrow> resolver \<Rightarrow> resolver" where
  "resolve_pattern re PatWildcard r = r"
| "resolve_pattern re (PatIdentifier x sp) r = define_sym x SkVariable sp r"
| "resolve_pattern re (PatVariant _ ps) r = fold (resolve_pattern re) ps r"
| "resolve_pattern re (PatLiteral e) r = re e r"
| "resolve_pattern re (PatTuple ps) r = fold (resolve_pattern re) ps r"
| "resolve_pattern re (PatOr ps) r = fold (resolve_pattern re) ps r"
| "resolve_pattern re (PatStructFields _ fs _) r = fold (\<lambda>(_, p). resolve_pattern re p) fs r"
| "resolve_pattern re (PatList before rest after) r =
     resolve_opt (\<lambda>(x, sp). define_sym x SkVariable sp) rest
       (fold (resolve_pattern re) after (fold (resolve_pattern re) before r))"
| "resolve_pattern re (PatRange lo hi _) r = re hi (re lo r)"

definition resolve_comp_clauses :: "('e \<Rightarrow> resolver \<Rightarrow> resolver) \<Rightarrow> 'e comp_clause_of list \<Rightarrow> resolver \<Rightarrow> resolver" where
  "resolve_comp_clauses re cs r =
     fold (\<lambda>c r. case c of CompClause tg it cond \<Rightarrow> resolve_opt re cond (define_for_target tg (re it r)))
       cs (push_scope ScComprehension r)"

definition resolve_block :: "(src_stmt \<Rightarrow> resolver \<Rightarrow> resolver) \<Rightarrow> src_stmt list \<Rightarrow> resolver \<Rightarrow> resolver" where
  "resolve_block rs ss r =
     pop_scope (fold rs ss (hoist_fns_and_structs ss (push_scope ScBlock r)))"

fun resolve_assign_target :: "(src_expr \<Rightarrow> resolver \<Rightarrow> resolver) \<Rightarrow> src_expr \<Rightarrow> resolver \<Rightarrow> resolver" where
  "resolve_assign_target re (Expr (XTuple es) sp) r = fold (resolve_assign_target re) es r"
| "resolve_assign_target re e r = (case x_kind e of
     XIdentifier x \<Rightarrow>
       (if table_lookup (r_table r) x = None then push_undefined AssignToUndefined x (x_span e) r
        else on_table (mark_used x) r)
   | XIndex obj index \<Rightarrow> re index (re obj r)
   | XAttr obj _ \<Rightarrow> re obj r
   | _ \<Rightarrow> re e r)"

definition resolve_name :: "ustring \<Rightarrow> span \<Rightarrow> resolver \<Rightarrow> resolver" where
  "resolve_name x sp r =
     (if starts_with olive_prefix x then r
      else case table_lookup (r_table r) x of
        None \<Rightarrow> push_undefined UndefinedName x sp r
      | Some sy \<Rightarrow>
          (let r1 = record_site sp (sy_span sy) r;
               r2 = (if sy_private sy \<and> file_id (sy_span sy) \<noteq> file_id sp
                     then push_error (PrivateAccess x sp) r1 else r1)
           in if length (r_origins r2 x) > 1
              then push_error (AmbiguousVariant x sp (map (\<lambda>e. qual_name e x) (r_origins r2 x))) r2
              else on_table (mark_used x) r2))"

definition resolve_arg :: "('e \<Rightarrow> resolver \<Rightarrow> resolver) \<Rightarrow> 'e call_arg_of \<Rightarrow> resolver \<Rightarrow> resolver" where
  "resolve_arg re a = (case a of
     Positional e \<Rightarrow> re e | Keyword _ e \<Rightarrow> re e | Splat e \<Rightarrow> re e | KwSplat e \<Rightarrow> re e)"

definition resolve_case ::
    "('e \<Rightarrow> resolver \<Rightarrow> resolver) \<Rightarrow> ('s \<Rightarrow> resolver \<Rightarrow> resolver) \<Rightarrow> ('e, 's) match_case_of \<Rightarrow> resolver \<Rightarrow> resolver" where
  "resolve_case re rs c r = (case c of MatchCase p guard body _ \<Rightarrow>
     pop_scope (fold rs body (resolve_opt re guard (resolve_pattern re p (push_scope ScBlock r)))))"

definition resolve_attr :: "(src_expr \<Rightarrow> resolver \<Rightarrow> resolver) \<Rightarrow> src_expr \<Rightarrow> ustring \<Rightarrow> span \<Rightarrow> resolver \<Rightarrow> resolver" where
  "resolve_attr re obj attr sp r =
     (case x_kind obj of
        XIdentifier x \<Rightarrow>
          (case table_lookup (r_table r) x of
             None \<Rightarrow> re obj r
           | Some sy \<Rightarrow>
               (if sy_kind sy = SkNativeImport \<or> sy_kind sy = SkPyImport then r
                else if sy_kind sy = SkImport
                then (case table_lookup (r_table r) (qual_name x attr) of
                        Some m \<Rightarrow> record_site sp (sy_span m) r
                      | None \<Rightarrow> push_undefined UndefinedName (qual_name x attr) sp r)
                else re obj r))
      | _ \<Rightarrow> re obj r)"

definition define_lambda_param :: "'e param_of \<Rightarrow> resolver \<Rightarrow> resolver" where
  "define_lambda_param p r = (case p of Param x _ _ _ _ sp \<Rightarrow>
     if x \<noteq> cps ''_'' then define_sym x SkVariable sp r else r)"

definition resolve_expr_inner ::
    "(src_expr \<Rightarrow> resolver \<Rightarrow> resolver) \<Rightarrow> (src_stmt \<Rightarrow> resolver \<Rightarrow> resolver) \<Rightarrow> src_expr \<Rightarrow> resolver \<Rightarrow> resolver" where
  "resolve_expr_inner re rs e r = (case x_kind e of
     XIdentifier x \<Rightarrow> resolve_name x (x_span e) r
   | XBinOp a _ b \<Rightarrow> re b (re a r)
   | XUnaryOp _ a \<Rightarrow> re a r
   | XCall f args \<Rightarrow> fold (resolve_arg re) args (re f r)
   | XIndex obj index \<Rightarrow> re index (re obj r)
   | XAttr obj attr \<Rightarrow> resolve_attr re obj attr (x_span e) r
   | XOptAttr obj _ \<Rightarrow> re obj r
   | XList es \<Rightarrow> fold re es r
   | XTuple es \<Rightarrow> fold re es r
   | XSet es \<Rightarrow> fold re es r
   | XDict ps \<Rightarrow> fold (\<lambda>(k, v) r. re v (re k r)) ps r
   | XListComp elt cs \<Rightarrow> pop_scope (re elt (resolve_comp_clauses re cs r))
   | XSetComp elt cs \<Rightarrow> pop_scope (re elt (resolve_comp_clauses re cs r))
   | XDictComp k v cs \<Rightarrow> pop_scope (re v (re k (resolve_comp_clauses re cs r)))
   | XBorrow a \<Rightarrow> re a r
   | XMutBorrow a \<Rightarrow> re a r
   | XDeref a \<Rightarrow> re a r
   | XStarred a \<Rightarrow> re a r
   | XSlice a b c \<Rightarrow> resolve_opt re c (resolve_opt re b (resolve_opt re a r))
   | XInteger _ \<Rightarrow> r
   | XFloat _ \<Rightarrow> r
   | XStr _ \<Rightarrow> r
   | XFStr parts \<Rightarrow> fold (\<lambda>p. case p of FStrPart a _ \<Rightarrow> re a) parts r
   | XBool _ \<Rightarrow> r
   | XNull \<Rightarrow> r
   | XTernary a b c \<Rightarrow> re c (re b (re a r))
   | XMatch a cs \<Rightarrow> fold (resolve_case re rs) cs (re a r)
   | XTry a \<Rightarrow> re a r
   | XAwait a \<Rightarrow> re a r
   | XRange a b _ _ \<Rightarrow> re b (re a r)
   | XCast a _ \<Rightarrow> re a r
   | XAsyncBlock body \<Rightarrow> pop_scope (fold rs body (push_scope ScBlock r))
   | XLambda ps body \<Rightarrow> pop_scope (re body (fold define_lambda_param ps (push_scope ScBlock r))))"

text \<open>A type parameter of a function or a structure, which counts as read.\<close>

definition define_type_param :: "span \<Rightarrow> ustring \<Rightarrow> resolver \<Rightarrow> resolver" where
  "define_type_param sp x r = on_table (mark_used_in_current x) (define_sym x SkVariable sp r)"

definition resolve_with_item :: "(src_expr \<Rightarrow> resolver \<Rightarrow> resolver) \<Rightarrow> with_item \<Rightarrow> resolver \<Rightarrow> resolver" where
  "resolve_with_item re item r = (case item of WithItem ctx alias \<Rightarrow>
     (let r1 = re ctx r in
      case alias of
        None \<Rightarrow> r1
      | Some a \<Rightarrow> (case x_kind a of XIdentifier x \<Rightarrow> define_sym x SkVariable (x_span a) r1 | _ \<Rightarrow> r1)))"

definition resolve_from_import :: "span \<Rightarrow> ustring \<times> ustring option \<Rightarrow> resolver \<Rightarrow> resolver" where
  "resolve_from_import sp na r = (case na of (x, alias) \<Rightarrow>
     if starts_with (cps ''_'') x then push_error (PrivateAccess x sp) r
     else define_sym (case alias of Some a \<Rightarrow> a | None \<Rightarrow> x) SkImport sp r)"

definition define_all :: "ustring list \<Rightarrow> span list \<Rightarrow> resolver \<Rightarrow> resolver" where
  "define_all names spans = fold (\<lambda>(x, sp). define_sym x SkVariable sp) (zip names spans)"

definition resolve_stmt_inner ::
    "(src_expr \<Rightarrow> resolver \<Rightarrow> resolver) \<Rightarrow> (src_stmt \<Rightarrow> resolver \<Rightarrow> resolver) \<Rightarrow> src_stmt \<Rightarrow> resolver \<Rightarrow> resolver" where
  "resolve_stmt_inner re rs s r = (case s_kind s of
     SLet x sp _ v _ \<Rightarrow> define_sym x SkVariable sp (re v r)
   | SMultiLet xs sps _ v _ _ \<Rightarrow> define_all xs sps (re v r)
   | SConst x sp _ v \<Rightarrow> define_sym x SkVariable sp (re v r)
   | SMultiConst xs sps _ v \<Rightarrow> define_all xs sps (re v r)
   | SAssign tg v \<Rightarrow> resolve_assign_target re tg (re v r)
   | SAugAssign tg _ v \<Rightarrow> resolve_assign_target re tg (re v r)
   | SFn _ tps ps _ body decs _ \<Rightarrow>
       pop_scope (fold rs body (hoist_fns_and_structs body (resolve_params re ps
         (fold (define_type_param (s_span s)) tps (push_scope ScFunction (check_decorators decs r))))))
   | SStruct _ tps _ body _ \<Rightarrow>
       pop_scope (fold rs body (fold (define_type_param (s_span s)) tps (push_scope ScStruct r)))
   | SImpl tps _ _ body \<Rightarrow>
       pop_scope (fold rs body (hoist_fns_and_structs body
         (fold (\<lambda>x. define_sym x SkVariable (s_span s)) tps (push_scope ScStruct r))))
   | STrait _ _ _ \<Rightarrow> r
   | STypeAlias _ _ _ \<Rightarrow> r
   | SIf c body elifs els \<Rightarrow>
       resolve_opt (resolve_block rs) els
         (fold (\<lambda>(c', b) r. resolve_block rs b (re c' r)) elifs (resolve_block rs body (re c r)))
   | SWhile c body els \<Rightarrow> resolve_opt (resolve_block rs) els (resolve_block rs body (re c r))
   | SFor tg it body els \<Rightarrow>
       resolve_opt (resolve_block rs) els (pop_scope (fold rs body (hoist_fns_and_structs body
         (define_for_target tg (push_scope ScBlock (re it r))))))
   | SWith items body \<Rightarrow>
       pop_scope (fold rs body (hoist_fns_and_structs body
         (fold (resolve_with_item re) items (push_scope ScBlock r))))
   | SReturn x \<Rightarrow> resolve_opt re x r
   | SAssert test msg \<Rightarrow> resolve_opt re msg (re test r)
   | SImport module alias \<Rightarrow>
       define_sym (case alias of Some a \<Rightarrow> a | None \<Rightarrow> last module) SkImport (s_span s) r
   | SNativeImport _ alias functions structs _ _ _ \<Rightarrow>
       fold (\<lambda>d. define_sym (qual_name alias (fs_name d)) SkStruct (s_span s)) structs
         (fold (\<lambda>f. define_sym (qual_name alias (ff_name f)) SkFunction (s_span s)) functions
           (define_sym alias SkNativeImport (s_span s) r))
   | SFromImport _ names _ \<Rightarrow> fold (resolve_from_import (s_span s)) names r
   | SPyImport _ alias _ _ \<Rightarrow> define_sym alias SkPyImport (s_span s) r
   | SExprStmt e \<Rightarrow> re e r
   | SUnsafeBlock body \<Rightarrow> fold rs body r
   | SPass \<Rightarrow> r
   | SBreak \<Rightarrow> r
   | SContinue \<Rightarrow> r
   | SEnum _ _ _ _ _ \<Rightarrow> r
   | SDefer e \<Rightarrow> re e r)"

subsection \<open>The resolver\<close>

fun resolve_expr :: "nat \<Rightarrow> src_expr \<Rightarrow> resolver \<Rightarrow> resolver"
  and resolve_stmt :: "nat \<Rightarrow> src_stmt \<Rightarrow> resolver \<Rightarrow> resolver" where
  "resolve_expr 0 e r = push_error (ExprTooDeep (x_span e)) r"
| "resolve_expr (Suc d) e r = resolve_expr_inner (resolve_expr d) (resolve_stmt d) e r"
| "resolve_stmt 0 s r = push_error (StmtTooDeep (s_span s)) r"
| "resolve_stmt (Suc d) s r = resolve_stmt_inner (resolve_expr d) (resolve_stmt d) s r"

definition resolve_program :: "program \<Rightarrow> resolver \<Rightarrow> resolver" where
  "resolve_program p r = fold (resolve_stmt max_semantic_nesting) p (hoist_fns_and_structs p r)"

end
