(* ===== verification/ResolverProps.thy ===== *)
theory ResolverProps
  imports Resolver
begin

text \<open>
  What the resolver leaves of its tables: an expression leaves every scope as it was but for the marks
  of use, a statement adds names to the innermost scope alone, and errors and warnings are only added.
  The laws are shared by every level of the recursion, so they are proved once over the resolvers of
  the level below.
\<close>

named_theorems step_rules "steps of the resolver that keep or extend the tables"

definition marked :: "symbol \<Rightarrow> symbol \<Rightarrow> bool" where
  "marked sy sy' \<longleftrightarrow> sy'\<lparr>sy_used := True\<rparr> = sy\<lparr>sy_used := True\<rparr> \<and> (sy_used sy \<longrightarrow> sy_used sy')"

definition same_scope :: "scope \<Rightarrow> scope \<Rightarrow> bool" where
  "same_scope sc sc' \<longleftrightarrow> sc_kind sc' = sc_kind sc \<and> (\<forall>x. rel_option marked (scope_get sc x) (scope_get sc' x))"

definition grown_scope :: "scope \<Rightarrow> scope \<Rightarrow> bool" where
  "grown_scope sc sc' \<longleftrightarrow>
     sc_kind sc' = sc_kind sc \<and> (\<forall>x. scope_get sc x \<noteq> None \<longrightarrow> scope_get sc' x \<noteq> None)"

definition same_table :: "symbol_table \<Rightarrow> symbol_table \<Rightarrow> bool" where
  "same_table = list_all2 same_scope"

fun grown_table :: "symbol_table \<Rightarrow> symbol_table \<Rightarrow> bool" where
  "grown_table (sc # t) (sc' # t') = (grown_scope sc sc' \<and> same_table t t')"
| "grown_table t t' = (t = [] \<and> t' = [])"

definition reports :: "resolver \<Rightarrow> resolver \<Rightarrow> bool" where
  "reports r r' \<longleftrightarrow>
     (\<exists>es. r_errors r' = r_errors r @ es) \<and> (\<exists>ws. r_warnings r' = r_warnings r @ ws) \<and>
     (\<exists>ds. r_sites r' = ds @ r_sites r)"

definition keeps :: "resolver \<Rightarrow> resolver \<Rightarrow> bool" where
  "keeps r r' \<longleftrightarrow> reports r r' \<and>
     (table_ok (r_table r) \<longrightarrow> table_ok (r_table r') \<and> same_table (r_table r) (r_table r'))"

definition widens :: "resolver \<Rightarrow> resolver \<Rightarrow> bool" where
  "widens r r' \<longleftrightarrow> reports r r' \<and>
     (table_ok (r_table r) \<longrightarrow> table_ok (r_table r') \<and> grown_table (r_table r) (r_table r'))"

subsection \<open>The relations\<close>

lemma marked_refl [simp]: "marked sy sy"
  by (simp add: marked_def)

lemma marked_trans: "marked a b \<Longrightarrow> marked b c \<Longrightarrow> marked a c"
  by (auto simp: marked_def)

lemma same_scope_refl [simp]: "same_scope sc sc"
  by (simp add: same_scope_def option.rel_refl)

lemma rel_marked_trans:
  "rel_option marked a b \<Longrightarrow> rel_option marked b c \<Longrightarrow> rel_option marked a c"
  by (cases a; cases b; cases c) (auto intro: marked_trans)

lemma same_scope_trans: "same_scope a b \<Longrightarrow> same_scope b c \<Longrightarrow> same_scope a c"
  by (auto simp: same_scope_def intro: rel_marked_trans)

lemma same_table_refl [simp]: "same_table t t"
  by (simp add: same_table_def list_all2_refl)

lemma same_table_trans: "same_table a b \<Longrightarrow> same_table b c \<Longrightarrow> same_table a c"
  unfolding same_table_def by (rule list_all2_trans [OF same_scope_trans])

lemma same_grown_scope: "same_scope a b \<Longrightarrow> grown_scope a b"
  by (auto simp: same_scope_def grown_scope_def rel_option_iff split: option.splits)

lemma grown_scope_trans: "grown_scope a b \<Longrightarrow> grown_scope b c \<Longrightarrow> grown_scope a c"
  by (simp add: grown_scope_def)

lemma same_grown_table: "same_table t t' \<Longrightarrow> grown_table t t'"
  by (cases t; cases t') (simp_all add: same_table_def same_grown_scope)

lemma grown_table_trans: "grown_table a b \<Longrightarrow> grown_table b c \<Longrightarrow> grown_table a c"
  by (cases a; cases b; cases c) (auto intro: grown_scope_trans same_table_trans)

lemma reports_refl [simp]: "reports r r"
  by (simp add: reports_def)

lemma reports_trans: "reports a b \<Longrightarrow> reports b c \<Longrightarrow> reports a c"
  by (auto simp: reports_def)

lemma keeps_refl [simp, step_rules]: "keeps r r"
  by (simp add: keeps_def)

lemma keeps_trans: "keeps a b \<Longrightarrow> keeps b c \<Longrightarrow> keeps a c"
  by (auto simp: keeps_def intro: same_table_trans reports_trans)

lemma keeps_widens: "keeps a b \<Longrightarrow> widens a b"
  by (auto simp: keeps_def widens_def intro: same_grown_table)

lemma widens_refl [simp, step_rules]: "widens r r"
  by (simp add: keeps_widens)

lemma widens_trans: "widens a b \<Longrightarrow> widens b c \<Longrightarrow> widens a c"
  by (auto simp: widens_def intro: grown_table_trans reports_trans)

lemma keeps_fold: "(\<And>x r. x \<in> set xs \<Longrightarrow> keeps r (f x r)) \<Longrightarrow> keeps r (fold f xs r)"
  by (induction xs arbitrary: r) (auto intro: keeps_trans)

lemma widens_fold: "(\<And>x r. x \<in> set xs \<Longrightarrow> widens r (f x r)) \<Longrightarrow> widens r (fold f xs r)"
  by (induction xs arbitrary: r) (auto intro: widens_trans)

subsection \<open>The primitive steps\<close>

lemma same_scope_mark: "same_scope sc (scope_mark x sc)"
  by (auto simp: same_scope_def scope_get_mark marked_def option.rel_refl rel_option_iff split: option.split)

lemma table_ok_tl: "list_all scope_ok t \<Longrightarrow> list_all scope_ok (mark_used x t)"
  by (induction t) (auto split: option.split)

lemma same_table_mark: "same_table t (mark_used x t)"
  by (induction t) (auto simp: same_table_def same_scope_mark list_all2_refl split: option.split)

lemma keeps_mark [step_rules]: "keeps r (on_table (mark_used x) r)"
  using same_table_mark [of "r_table r" x]
  by (auto simp: keeps_def on_table_def table_ok_def reports_def table_ok_tl same_table_def)

lemma keeps_push_error [step_rules]: "keeps r (push_error e r)"
  by (simp add: keeps_def push_error_def reports_def)

lemma keeps_push_warning [step_rules]: "keeps r (push_warning e r)"
  by (simp add: keeps_def push_warning_def reports_def)

lemma keeps_record_site [step_rules]: "keeps r (record_site u d r)"
  by (simp add: keeps_def record_site_def reports_def)

lemma keeps_push_undefined [step_rules]: "keeps r (push_undefined mk x sp r)"
  by (simp add: push_undefined_def keeps_push_error split: prod.split)

lemma grown_define: "grown_scope sc (scope_define sy sc)"
  by (simp add: grown_scope_def scope_get_define)

lemma widens_table:
  "(\<And>sc. grown_scope sc (f sc)) \<Longrightarrow> (\<And>sc. scope_ok sc \<Longrightarrow> scope_ok (f sc)) \<Longrightarrow>
   (\<And>sc t. g (sc # t) = f sc # t) \<Longrightarrow> widens r (on_table g r)"
  by (cases "r_table r") (auto simp: widens_def on_table_def table_ok_def reports_def)

lemma widens_define [step_rules]: "widens r (define_sym x k sp r)"
  unfolding define_sym_def by (rule widens_table [OF grown_define]) auto

lemma widens_mark_current [step_rules]: "widens r (on_table (mark_used_in_current x) r)"
  by (rule widens_table [OF same_grown_scope [OF same_scope_mark]]) auto

lemma widens_origins: "widens r (r\<lparr>r_origins := f\<rparr>)"
  by (cases "r_table r") (auto simp: widens_def reports_def grown_scope_def)

lemma warnings_fold:
  "fold (\<lambda>sy. push_warning (w sy)) syms r = r\<lparr>r_warnings := r_warnings r @ map w syms\<rparr>"
  by (induction syms arbitrary: r) (simp_all add: push_warning_def)

text \<open>A scope that is opened, and whose work only widens it, is gone after it is closed.\<close>

lemma keeps_pop:
  assumes "widens (push_scope k r) r'"
  shows "keeps r (pop_scope r')"
proof -
  have "reports r' (pop_scope r')"
    by (simp add: pop_scope_def warnings_fold reports_def split: prod.split)
  moreover have "reports r r'"
    using assms by (simp add: widens_def on_table_def reports_def)
  moreover have "table_ok (r_table (pop_scope r')) \<and> same_table (r_table r) (r_table (pop_scope r'))"
    if ok: "table_ok (r_table r)"
  proof -
    have e: "table_ok (r_table r')" "grown_table (scope_new k # r_table r) (r_table r')"
      using assms ok by (auto simp: widens_def on_table_def table_push_def table_ok_def)
    then obtain sc t where t: "r_table r' = sc # t" "same_table (r_table r) t"
      by (cases "r_table r'") auto
    with ok have "t \<noteq> []" by (auto simp: table_ok_def same_table_def)
    then obtain syms where "pop_unused (r_table r') = (t, syms)"
      unfolding t by (cases t) auto
    then have "r_table (pop_scope r') = t" by (simp add: pop_scope_def warnings_fold)
    with e t \<open>t \<noteq> []\<close> show ?thesis by (auto simp: table_ok_def)
  qed
  ultimately show ?thesis by (auto simp: keeps_def intro: reports_trans)
qed

subsection \<open>Steps in sequence\<close>

named_theorems keep_flow "a step after steps that keep the table"
named_theorems extend_flow "a step after steps that extend the table"

lemma keeps_then: "(\<And>r. keeps r (f r)) \<Longrightarrow> keeps a r \<Longrightarrow> keeps a (f r)"
  by (blast intro: keeps_trans)

lemma widens_then: "(\<And>r. widens r (f r)) \<Longrightarrow> widens a r \<Longrightarrow> widens a (f r)"
  by (blast intro: widens_trans)

lemma widens_then_keeps: "(\<And>r. keeps r (f r)) \<Longrightarrow> widens a r \<Longrightarrow> widens a (f r)"
  by (blast intro: widens_trans keeps_widens)

lemma keeps_fold_then: "(\<And>x r. x \<in> set xs \<Longrightarrow> keeps r (f x r)) \<Longrightarrow> keeps a r \<Longrightarrow> keeps a (fold f xs r)"
  by (rule keeps_trans [OF _ keeps_fold])

lemma widens_fold_then: "(\<And>x r. x \<in> set xs \<Longrightarrow> widens r (f x r)) \<Longrightarrow> widens a r \<Longrightarrow> widens a (fold f xs r)"
  by (rule widens_trans [OF _ widens_fold])

lemmas [keep_flow] = keeps_refl
  keeps_mark [THEN keeps_trans [rotated]] keeps_push_error [THEN keeps_trans [rotated]]
  keeps_push_warning [THEN keeps_trans [rotated]] keeps_record_site [THEN keeps_trans [rotated]]
  keeps_push_undefined [THEN keeps_trans [rotated]]

lemmas [extend_flow] = widens_refl
  widens_define [THEN widens_trans [rotated]] widens_mark_current [THEN widens_trans [rotated]]
  widens_origins [THEN widens_trans [rotated]]
  keeps_push_error [THEN keeps_widens, THEN widens_trans [rotated]]

lemma widens_define_all [extend_flow]: "widens a r \<Longrightarrow> widens a (define_all xs sps r)"
  unfolding define_all_def by (rule widens_then [OF widens_fold]) (auto intro!: widens_define)

lemma widens_define_for_target [extend_flow]: "widens a r \<Longrightarrow> widens a (define_for_target tg r)"
  by (rule widens_then) (auto simp: define_for_target_def intro!: widens_define widens_fold split: for_target.split)

lemma widens_hoist_stmt: "widens r (hoist_stmt s r)"
  by (auto simp: hoist_stmt_def hoist_member_def hoist_variant_def Let_def
      intro!: widens_fold_then extend_flow split: stmt_kind.split enum_variant_of.split)

lemma widens_hoist [extend_flow]: "widens a r \<Longrightarrow> widens a (hoist_fns_and_structs ss r)"
  unfolding hoist_fns_and_structs_def by (rule widens_then [OF widens_fold]) (simp_all add: widens_hoist_stmt)

lemma widens_type_params [extend_flow]: "widens a r \<Longrightarrow> widens a (fold (define_type_param sp) xs r)"
  by (rule widens_then [OF widens_fold]) (auto simp: define_type_param_def intro!: extend_flow)

lemma widens_lambda_params [extend_flow]: "widens a r \<Longrightarrow> widens a (fold define_lambda_param ps r)"
  by (rule widens_then [OF widens_fold])
    (auto simp: define_lambda_param_def intro!: extend_flow split: param_of.split)

lemma keeps_decorators [keep_flow]: "keeps a r \<Longrightarrow> keeps a (check_decorators ds r)"
  unfolding check_decorators_def by (rule keeps_then [OF keeps_fold]) (auto intro!: keep_flow)

lemma keeps_name [keep_flow]: "keeps a r \<Longrightarrow> keeps a (resolve_name x sp r)"
  by (rule keeps_then) (auto simp: resolve_name_def Let_def intro!: keep_flow split: option.split)

lemma pop_flow [keep_flow]: "widens (push_scope k r) r' \<Longrightarrow> keeps a r \<Longrightarrow> keeps a (pop_scope r')"
  by (blast intro: keeps_trans keeps_pop)

subsection \<open>One level\<close>

locale resolver_level =
  fixes re :: "src_expr \<Rightarrow> resolver \<Rightarrow> resolver"
    and rs :: "src_stmt \<Rightarrow> resolver \<Rightarrow> resolver"
  assumes re_keeps: "keeps r (re e r)"
    and rs_widens: "widens r (rs s r)"
begin

lemmas [keep_flow] = re_keeps [THEN keeps_trans [rotated]]

lemmas [extend_flow] = re_keeps [THEN keeps_widens, THEN widens_trans [rotated]]
  rs_widens [THEN widens_trans [rotated]]

lemma fold_re [keep_flow, extend_flow]:
  "keeps a r \<Longrightarrow> keeps a (fold re es r)" "widens a r \<Longrightarrow> widens a (fold re es r)"
  by (auto intro: keeps_fold_then widens_fold_then re_keeps keeps_widens)

lemma fold_rs [extend_flow]: "widens a r \<Longrightarrow> widens a (fold rs ss r)"
  by (auto intro: widens_fold_then rs_widens)

lemma opt_re [keep_flow, extend_flow]:
  "keeps a r \<Longrightarrow> keeps a (resolve_opt re x r)" "widens a r \<Longrightarrow> widens a (resolve_opt re x r)"
  by (auto simp: resolve_opt_def intro!: keep_flow extend_flow split: option.split)

lemma param: "widens (snd p) (snd (resolve_param re q p))"
  by (cases p) (auto simp: resolve_param_def intro!: extend_flow split: param_of.split option.split)

lemma params_fold: "widens (snd p) (snd (fold (resolve_param re) ps p))"
proof (induction ps arbitrary: p)
  case (Cons q ps)
  show ?case using widens_trans [OF param Cons.IH] by simp
qed simp

lemma params [extend_flow]: "widens a r \<Longrightarrow> widens a (resolve_params re ps r)"
  using params_fold [of "(Map.empty, r)" ps] by (auto simp: resolve_params_def intro: widens_trans)

lemma pattern: "widens r (resolve_pattern re p r)"
  by (induction p arbitrary: r)
    (fastforce intro!: extend_flow widens_fold_then split: option.split simp: resolve_opt_def)+

lemma pattern_flow [extend_flow]: "widens a r \<Longrightarrow> widens a (resolve_pattern re p r)"
  by (rule widens_then [OF pattern])

lemma comp_clauses [extend_flow]:
  "widens (push_scope ScComprehension r) (resolve_comp_clauses re cs r)"
  by (auto simp: resolve_comp_clauses_def intro!: widens_fold_then extend_flow split: comp_clause_of.split)

lemma block_keeps: "keeps r (resolve_block rs ss r)"
  by (auto simp: resolve_block_def intro!: keep_flow extend_flow)

lemmas [keep_flow] = block_keeps [THEN keeps_trans [rotated]]

lemma opt_block [keep_flow]: "keeps a r \<Longrightarrow> keeps a (resolve_opt (resolve_block rs) x r)"
  by (auto simp: resolve_opt_def intro!: keep_flow split: option.split)

lemma case_keeps: "keeps r (resolve_case re rs c r)"
  by (auto simp: resolve_case_def intro!: keep_flow extend_flow split: match_case_of.split)

lemma fold_cases [keep_flow]: "keeps a r \<Longrightarrow> keeps a (fold (resolve_case re rs) cs r)"
  by (rule keeps_fold_then [OF case_keeps])

lemma attr [keep_flow]: "keeps a r \<Longrightarrow> keeps a (resolve_attr re obj name sp r)"
  by (auto simp: resolve_attr_def intro!: keep_flow split: expr_kind_of.split option.split)

lemma assign_target: "keeps r (resolve_assign_target re tg r)"
proof (induction tg arbitrary: r rule: measure_induct_rule [of size])
  case (less tg)
  obtain k sp where "tg = Expr k sp" by (cases tg)
  moreover have "size x < Suc (Suc (size_list size es))" if "x \<in> set es" for x :: src_expr and es
    using size_list_estimation' [OF that order_refl, of size] by simp
  ultimately show ?case
    using less by (cases k) (auto intro!: keep_flow keeps_fold_then split: expr_kind_of.split)
qed

lemmas [keep_flow] = assign_target [THEN keeps_trans [rotated]]

lemma arg: "keeps r (resolve_arg re x r)"
  by (auto simp: resolve_arg_def intro!: keep_flow split: call_arg_of.split)

lemma fold_args [keep_flow]: "keeps a r \<Longrightarrow> keeps a (fold (resolve_arg re) xs r)"
  by (rule keeps_fold_then [OF arg])

lemma expr_inner: "keeps r (resolve_expr_inner re rs e r)"
  unfolding resolve_expr_inner_def
  by (cases "x_kind e")
    (auto intro!: keep_flow extend_flow intro: keeps_fold_then split: fstr_part_of.split)

lemma with_items [extend_flow]: "widens a r \<Longrightarrow> widens a (fold (resolve_with_item re) items r)"
  by (rule widens_fold_then)
    (auto simp: resolve_with_item_def Let_def intro!: extend_flow split: with_item_of.split option.split expr_kind_of.split)

lemma from_import: "widens r (resolve_from_import sp na r)"
  by (auto simp: resolve_from_import_def intro!: extend_flow split: prod.split)

lemma stmt_inner: "widens r (resolve_stmt_inner re rs s r)"
  unfolding resolve_stmt_inner_def
  by (cases "s_kind s")
    (auto intro!: keep_flow extend_flow from_import keeps_fold_then widens_fold_then
      widens_then_keeps [OF assign_target] intro: keeps_widens split: option.split)

end

subsection \<open>The whole resolver\<close>

lemma resolver_levels: "keeps r (resolve_expr d e r) \<and> widens r (resolve_stmt d s r)"
proof (induction d arbitrary: r e s)
  case 0
  show ?case by (simp add: keeps_push_error keeps_widens)
next
  case (Suc d)
  then have l: "resolver_level (resolve_expr d) (resolve_stmt d)" by unfold_locales auto
  show ?case
    using resolver_level.expr_inner [OF l] resolver_level.stmt_inner [OF l] by simp
qed

interpretation level: resolver_level "resolve_expr d" "resolve_stmt d" for d
  by unfold_locales (simp_all add: resolver_levels)

lemma program_widens: "widens r (resolve_program p r)"
  unfolding resolve_program_def by (intro widens_fold_then extend_flow)

lemma new_table: "table_ok (r_table resolver_new)" "length (r_table resolver_new) = 1"
  "sc_kind (hd (r_table resolver_new)) = ScGlobal"
proof -
  have "\<exists>sc. fold (\<lambda>x. table_define (f x)) xs [sc0] = [sc] \<and> scope_ok sc \<and> sc_kind sc = sc_kind sc0"
    if "scope_ok sc0" for f :: "ustring \<Rightarrow> symbol" and xs sc0
    using that by (induction xs arbitrary: sc0) (simp_all, metis scope_kind_simps(2) scope_ok_define)
  from this [of "scope_new ScGlobal"] obtain sc where
    "r_table resolver_new = [sc]" "scope_ok sc" "sc_kind sc = ScGlobal"
    unfolding resolver_new_def table_new_def resolver.select_convs by (metis scope_ok_new scope_kind_simps(1))
  then show "table_ok (r_table resolver_new)" "length (r_table resolver_new) = 1"
    "sc_kind (hd (r_table resolver_new)) = ScGlobal"
    by (simp_all add: table_ok_def)
qed

text \<open>
  C11. Scopes nest: resolving an expression leaves every scope with the names and symbols it had, save
  that symbols may have been marked as used; resolving a statement may add names to the innermost scope
  and does not otherwise touch the scopes. Neither takes back an error, a warning or a recorded site,
  and after a whole program the global scope alone is left, with all that was bound at the start.
\<close>

theorem resolver_scopes:
  assumes "table_ok (r_table r)"
  shows "same_table (r_table r) (r_table (resolve_expr d e r)) \<and> reports r (resolve_expr d e r) \<and>
    grown_table (r_table r) (r_table (resolve_stmt d s r)) \<and> reports r (resolve_stmt d s r) \<and>
    length (r_table (resolve_program p resolver_new)) = 1 \<and>
    (\<forall>x. table_lookup (r_table resolver_new) x \<noteq> None \<longrightarrow>
         table_lookup (r_table (resolve_program p resolver_new)) x \<noteq> None)"
proof -
  obtain sc where sc: "r_table resolver_new = [sc]"
    using new_table(2) by (cases "r_table resolver_new") auto
  moreover have "grown_table (r_table resolver_new) (r_table (resolve_program p resolver_new))"
    using program_widens new_table(1) by (simp add: widens_def)
  ultimately obtain sc' where "r_table (resolve_program p resolver_new) = [sc']" "grown_scope sc sc'"
    by (cases "r_table (resolve_program p resolver_new)") (auto simp: same_table_def)
  with sc have "length (r_table (resolve_program p resolver_new)) = 1 \<and>
    (\<forall>x. table_lookup (r_table resolver_new) x \<noteq> None \<longrightarrow>
         table_lookup (r_table (resolve_program p resolver_new)) x \<noteq> None)"
    by (auto simp: grown_scope_def split: option.splits)
  with resolver_levels [of r d e s] assms show ?thesis by (simp add: keeps_def widens_def)
qed

lemma resolver_scopes_witness:
  "same_table (r_table resolver_new)
     (r_table (resolve_expr 2 (Expr (XLambda [] (Expr (XIdentifier (cps ''print'')) default_span)) default_span) resolver_new))"
  using resolver_scopes [OF new_table(1)] by blast

end
