(* ===== verification/ResolverFree.thy ===== *)
theory ResolverFree
  imports ResolverProps
begin

text \<open>
  Names that are free in a piece of a program, by the scoping rules of the language and without the
  resolver: what each expression and statement consists of, and which names each part of it stands
  under. Such a name is reported by the resolver, unless it stands in one of the positions that the
  resolver does not visit.
\<close>

subsection \<open>The parts of a node and the names they stand under\<close>

datatype part = PExpr src_expr | PSeq "src_stmt list"

definition target_binds :: "for_target \<Rightarrow> ustring list" where
  "target_binds tg = (case tg of ForName x _ \<Rightarrow> [x] | ForTuple xs \<Rightarrow> map fst xs)"

fun pattern_binds :: "'e src_pattern_of \<Rightarrow> ustring list" where
  "pattern_binds (PatIdentifier x _) = [x]"
| "pattern_binds (PatVariant _ ps) = concat (map pattern_binds ps)"
| "pattern_binds (PatTuple ps) = concat (map pattern_binds ps)"
| "pattern_binds (PatOr ps) = concat (map pattern_binds ps)"
| "pattern_binds (PatStructFields _ fs _) = concat (map (\<lambda>(_, p). pattern_binds p) fs)"
| "pattern_binds (PatList before rest after) =
     concat (map pattern_binds before) @ concat (map pattern_binds after) @
     (case rest of Some (x, _) \<Rightarrow> [x] | None \<Rightarrow> [])"
| "pattern_binds _ = []"

fun pattern_exprs :: "'e src_pattern_of \<Rightarrow> 'e list" where
  "pattern_exprs (PatLiteral e) = [e]"
| "pattern_exprs (PatRange a b _) = [a, b]"
| "pattern_exprs (PatVariant _ ps) = concat (map pattern_exprs ps)"
| "pattern_exprs (PatTuple ps) = concat (map pattern_exprs ps)"
| "pattern_exprs (PatOr ps) = concat (map pattern_exprs ps)"
| "pattern_exprs (PatStructFields _ fs _) = concat (map (\<lambda>(_, p). pattern_exprs p) fs)"
| "pattern_exprs (PatList before _ after) = concat (map pattern_exprs before) @ concat (map pattern_exprs after)"
| "pattern_exprs _ = []"

definition param_name :: "'e param_of \<Rightarrow> ustring" where
  "param_name p = (case p of Param x _ _ _ _ _ \<Rightarrow> x)"

definition param_default :: "'e param_of \<Rightarrow> 'e option" where
  "param_default p = (case p of Param _ _ d _ _ _ \<Rightarrow> d)"

definition member_names :: "ustring \<Rightarrow> src_stmt \<Rightarrow> ustring list" where
  "member_names ty m = (case s_kind m of
     SFn x _ _ _ _ _ _ \<Rightarrow> [qual_name ty x] | SConst x _ _ _ \<Rightarrow> [qual_name ty x] | _ \<Rightarrow> [])"

definition variant_names :: "ustring \<Rightarrow> 'e enum_variant_of \<Rightarrow> ustring list" where
  "variant_names x v = (case v of EnumVariant y _ _ \<Rightarrow> [qual_name x y, y])"

definition hoisted :: "src_stmt \<Rightarrow> ustring list" where
  "hoisted s = (case s_kind s of
     SFn x _ _ _ _ _ _ \<Rightarrow> [x]
   | SStruct x _ _ _ _ \<Rightarrow> [x]
   | STypeAlias x _ _ \<Rightarrow> [x]
   | SImpl _ _ ty body \<Rightarrow> concat (map (member_names (type_text ty)) body)
   | SEnum x _ variants _ _ \<Rightarrow> x # concat (map (variant_names x) variants)
   | _ \<Rightarrow> [])"

definition hoists :: "src_stmt list \<Rightarrow> ustring list" where
  "hoists ss = concat (map hoisted ss)"

text \<open>The names that a statement adds to the scope it stands in.\<close>

fun binds :: "src_stmt \<Rightarrow> ustring list" where
  "binds (Stmt (SLet x _ _ _ _) _) = [x]"
| "binds (Stmt (SConst x _ _ _) _) = [x]"
| "binds (Stmt (SMultiLet xs sps _ _ _ _) _) = map fst (zip xs sps)"
| "binds (Stmt (SMultiConst xs sps _ _) _) = map fst (zip xs sps)"
| "binds (Stmt (SImport m alias) _) = [case alias of Some a \<Rightarrow> a | None \<Rightarrow> last m]"
| "binds (Stmt (SNativeImport _ alias fs ds _ _ _) _) =
     alias # map (\<lambda>f. qual_name alias (ff_name f)) fs @ map (\<lambda>d. qual_name alias (fs_name d)) ds"
| "binds (Stmt (SFromImport _ ns _) _) = map (\<lambda>(x, alias). case alias of Some a \<Rightarrow> a | None \<Rightarrow> x) ns"
| "binds (Stmt (SPyImport _ alias _ _) _) = [alias]"
| "binds (Stmt (SUnsafeBlock body) _) = concat (map binds body)"
| "binds _ = []"

fun clause_parts :: "ustring list \<Rightarrow> comp_clause list \<Rightarrow> (ustring list \<times> part) list" where
  "clause_parts B [] = []"
| "clause_parts B (CompClause tg it cond # cs) =
     (B, PExpr it) # (case cond of Some c \<Rightarrow> [(target_binds tg @ B, PExpr c)] | None \<Rightarrow> []) @
     clause_parts (target_binds tg @ B) cs"

definition clause_binds :: "comp_clause list \<Rightarrow> ustring list" where
  "clause_binds cs = concat (map (\<lambda>c. case c of CompClause tg _ _ \<Rightarrow> target_binds tg) cs)"

abbreviation here :: "src_expr list \<Rightarrow> (ustring list \<times> part) list" where
  "here es \<equiv> map (\<lambda>e. ([], PExpr e)) es"

definition opt_list :: "'a option \<Rightarrow> 'a list" where
  "opt_list x = (case x of Some a \<Rightarrow> [a] | None \<Rightarrow> [])"

definition arg_expr :: "'e call_arg_of \<Rightarrow> 'e" where
  "arg_expr a = (case a of Positional e \<Rightarrow> e | Keyword _ e \<Rightarrow> e | Splat e \<Rightarrow> e | KwSplat e \<Rightarrow> e)"

definition expr_parts :: "src_expr \<Rightarrow> (ustring list \<times> part) list" where
  "expr_parts e = (case x_kind e of
     XBinOp a _ b \<Rightarrow> here [a, b]
   | XUnaryOp _ a \<Rightarrow> here [a]
   | XCast a _ \<Rightarrow> here [a]
   | XCall f args \<Rightarrow> here (f # map arg_expr args)
   | XIndex a b \<Rightarrow> here [a, b]
   | XAttr a _ \<Rightarrow> here [a]
   | XOptAttr a _ \<Rightarrow> here [a]
   | XList es \<Rightarrow> here es
   | XTuple es \<Rightarrow> here es
   | XSet es \<Rightarrow> here es
   | XDict ps \<Rightarrow> here (map fst ps @ map snd ps)
   | XListComp a cs \<Rightarrow> clause_parts [] cs @ [(clause_binds cs, PExpr a)]
   | XSetComp a cs \<Rightarrow> clause_parts [] cs @ [(clause_binds cs, PExpr a)]
   | XDictComp k v cs \<Rightarrow> clause_parts [] cs @ [(clause_binds cs, PExpr k), (clause_binds cs, PExpr v)]
   | XBorrow a \<Rightarrow> here [a]
   | XMutBorrow a \<Rightarrow> here [a]
   | XDeref a \<Rightarrow> here [a]
   | XStarred a \<Rightarrow> here [a]
   | XSlice a b c \<Rightarrow> here (opt_list a @ opt_list b @ opt_list c)
   | XFStr parts \<Rightarrow> here (map (\<lambda>p. case p of FStrPart a _ \<Rightarrow> a) parts)
   | XTernary a b c \<Rightarrow> here [a, b, c]
   | XMatch a cs \<Rightarrow> here [a] @
       concat (map (\<lambda>c. case c of MatchCase p guard body _ \<Rightarrow>
         map (\<lambda>g. (pattern_binds p, PExpr g)) (pattern_exprs p @ opt_list guard) @ [(pattern_binds p, PSeq body)]) cs)
   | XTry a \<Rightarrow> here [a]
   | XAwait a \<Rightarrow> here [a]
   | XRange a b _ _ \<Rightarrow> here [a, b]
   | XAsyncBlock body \<Rightarrow> [([], PSeq body)]
   | XLambda ps body \<Rightarrow> [(map param_name ps, PExpr body)]
   | _ \<Rightarrow> [])"

text \<open>The names that an assignment writes, and the expressions it evaluates on its left side.\<close>

fun target_names :: "src_expr \<Rightarrow> ustring list" where
  "target_names (Expr (XIdentifier x) _) = [x]"
| "target_names (Expr (XTuple es) _) = concat (map target_names es)"
| "target_names _ = []"

definition assigned_names :: "src_stmt \<Rightarrow> ustring list" where
  "assigned_names s = (case s_kind s of
     SAssign tg _ \<Rightarrow> target_names tg | SAugAssign tg _ _ \<Rightarrow> target_names tg | _ \<Rightarrow> [])"

definition target_parts :: "src_expr \<Rightarrow> (ustring list \<times> part) list" where
  "target_parts e = (case x_kind e of
     XIndex a b \<Rightarrow> here [a, b] | XAttr a _ \<Rightarrow> here [a] | XTuple _ \<Rightarrow> [] | XIdentifier _ \<Rightarrow> [] | _ \<Rightarrow> here [e])"

definition block_part :: "ustring list \<Rightarrow> src_stmt list \<Rightarrow> (ustring list \<times> part) list" where
  "block_part B ss = [(hoists ss @ B, PSeq ss)]"

definition with_binds :: "with_item list \<Rightarrow> ustring list" where
  "with_binds items = concat (map (\<lambda>i. case i of WithItem _ alias \<Rightarrow>
     (case alias of Some a \<Rightarrow> (case x_kind a of XIdentifier x \<Rightarrow> [x] | _ \<Rightarrow> []) | None \<Rightarrow> [])) items)"

definition stmt_parts :: "src_stmt \<Rightarrow> (ustring list \<times> part) list" where
  "stmt_parts s = (case s_kind s of
     SLet _ _ _ v _ \<Rightarrow> here [v]
   | SMultiLet _ _ _ v _ _ \<Rightarrow> here [v]
   | SConst _ _ _ v \<Rightarrow> here [v]
   | SMultiConst _ _ _ v \<Rightarrow> here [v]
   | SAssign tg v \<Rightarrow> here [v] @ target_parts tg
   | SAugAssign tg _ v \<Rightarrow> here [v] @ target_parts tg
   | SFn _ tps ps _ body _ _ \<Rightarrow>
       map (\<lambda>d. (tps @ map param_name ps, PExpr d)) (concat (map (opt_list \<circ> param_default) ps)) @
       block_part (tps @ map param_name ps) body
   | SStruct _ tps _ body _ \<Rightarrow> [(tps, PSeq body)]
   | SImpl tps _ _ body \<Rightarrow> block_part tps body
   | SIf c body elifs els \<Rightarrow> here (c # map fst elifs) @ block_part [] body @
       concat (map (\<lambda>(_, b). block_part [] b) elifs) @ concat (map (block_part []) (opt_list els))
   | SWhile c body els \<Rightarrow> here [c] @ block_part [] body @ concat (map (block_part []) (opt_list els))
   | SFor tg it body els \<Rightarrow> here [it] @ block_part (target_binds tg) body @
       concat (map (block_part []) (opt_list els))
   | SWith items body \<Rightarrow>
       map (\<lambda>i. case i of WithItem c _ \<Rightarrow> (with_binds items, PExpr c)) items @
       block_part (with_binds items) body
   | SReturn x \<Rightarrow> here (opt_list x)
   | SAssert t msg \<Rightarrow> here (t # opt_list msg)
   | SExprStmt e \<Rightarrow> here [e]
   | SUnsafeBlock body \<Rightarrow> [([], PSeq body)]
   | SDefer e \<Rightarrow> here [e]
   | _ \<Rightarrow> [])"

text \<open>
  The parts that stand in the positions that \<open>resolver.rs\<close> does not visit: the step of a range, the
  defaults of the parameters of a lambda, the defaults of the fields of a structure, the values of the
  variants of an enum, the bodies of enums and traits, and a target after \<open>as\<close> that is no name
  (the parser makes none).
\<close>

definition skipped_expr_parts :: "src_expr \<Rightarrow> (ustring list \<times> part) list" where
  "skipped_expr_parts e = (case x_kind e of
     XRange _ _ _ step \<Rightarrow> here (opt_list step)
   | XLambda ps _ \<Rightarrow> map (\<lambda>d. (map param_name ps, PExpr d)) (concat (map (opt_list \<circ> param_default) ps))
   | _ \<Rightarrow> [])"

definition with_target_parts :: "with_item \<Rightarrow> (ustring list \<times> part) list" where
  "with_target_parts i = (case i of WithItem _ alias \<Rightarrow> concat (map target_parts (opt_list alias)))"

definition skipped_stmt_parts :: "src_stmt \<Rightarrow> (ustring list \<times> part) list" where
  "skipped_stmt_parts s = (case s_kind s of
     SStruct _ tps fs _ _ \<Rightarrow> map (\<lambda>d. (tps, PExpr d)) (concat (map (opt_list \<circ> param_default) fs))
   | SEnum _ tps variants body _ \<Rightarrow>
       map (\<lambda>d. (tps, PExpr d)) (concat (map (\<lambda>v. case v of EnumVariant _ _ d \<Rightarrow> opt_list d) variants)) @
       block_part tps body
   | STrait _ tps body \<Rightarrow> block_part tps body
   | SWith items _ \<Rightarrow> map (\<lambda>(B, p). (B @ with_binds items, p)) (concat (map with_target_parts items))
   | _ \<Rightarrow> [])"

text \<open>
  The free names of a part, whatever the position they stand in; those with a free occurrence inside a
  skipped position; and those with one outside, which is what the resolver is to find.
\<close>

inductive free_in :: "ustring \<Rightarrow> part \<Rightarrow> bool" where
  free_name: "free_in x (PExpr (Expr (XIdentifier x) sp))"
| free_expr: "(B, p) \<in> set (expr_parts e @ skipped_expr_parts e) \<Longrightarrow> x \<notin> set B \<Longrightarrow> free_in x p \<Longrightarrow>
     free_in x (PExpr e)"
| free_target: "x \<in> set (assigned_names s) \<Longrightarrow> free_in x (PSeq (s # ss))"
| free_stmt: "(B, p) \<in> set (stmt_parts s @ skipped_stmt_parts s) \<Longrightarrow> x \<notin> set B \<Longrightarrow> free_in x p \<Longrightarrow>
     free_in x (PSeq (s # ss))"
| free_next: "x \<notin> set (binds s) \<Longrightarrow> free_in x (PSeq ss) \<Longrightarrow> free_in x (PSeq (s # ss))"

inductive skipped_in :: "ustring \<Rightarrow> part \<Rightarrow> bool" where
  skipped_expr: "(B, p) \<in> set (skipped_expr_parts e) \<Longrightarrow> x \<notin> set B \<Longrightarrow> free_in x p \<Longrightarrow> skipped_in x (PExpr e)"
| skipped_stmt: "(B, p) \<in> set (skipped_stmt_parts s) \<Longrightarrow> x \<notin> set B \<Longrightarrow> free_in x p \<Longrightarrow> skipped_in x (PSeq (s # ss))"
| skipped_below_expr: "(B, p) \<in> set (expr_parts e) \<Longrightarrow> x \<notin> set B \<Longrightarrow> skipped_in x p \<Longrightarrow> skipped_in x (PExpr e)"
| skipped_below_stmt: "(B, p) \<in> set (stmt_parts s) \<Longrightarrow> x \<notin> set B \<Longrightarrow> skipped_in x p \<Longrightarrow> skipped_in x (PSeq (s # ss))"
| skipped_next: "x \<notin> set (binds s) \<Longrightarrow> skipped_in x (PSeq ss) \<Longrightarrow> skipped_in x (PSeq (s # ss))"

inductive seen_in :: "ustring \<Rightarrow> part \<Rightarrow> bool" where
  seen_name: "seen_in x (PExpr (Expr (XIdentifier x) sp))"
| seen_expr: "(B, p) \<in> set (expr_parts e) \<Longrightarrow> x \<notin> set B \<Longrightarrow> seen_in x p \<Longrightarrow> seen_in x (PExpr e)"
| seen_target: "x \<in> set (assigned_names s) \<Longrightarrow> seen_in x (PSeq (s # ss))"
| seen_stmt: "(B, p) \<in> set (stmt_parts s) \<Longrightarrow> x \<notin> set B \<Longrightarrow> seen_in x p \<Longrightarrow> seen_in x (PSeq (s # ss))"
| seen_next: "x \<notin> set (binds s) \<Longrightarrow> seen_in x (PSeq ss) \<Longrightarrow> seen_in x (PSeq (s # ss))"

inductive_cases seen_in_exprE: "seen_in x (PExpr e)"
inductive_cases seen_in_nilE: "seen_in x (PSeq [])"
inductive_cases seen_in_consE: "seen_in x (PSeq (s # ss))"

lemma free_seen_or_skipped: "free_in x p \<Longrightarrow> seen_in x p \<or> skipped_in x p"
  by (induction rule: free_in.induct) (auto intro: seen_in.intros skipped_in.intros)

lemma free_identifier: "seen_in x (PExpr e) \<Longrightarrow> x_kind e = XIdentifier y \<Longrightarrow> y = x"
  by (erule seen_in_exprE) (simp_all add: expr_parts_def)

subsection \<open>Hidden names and reports about them\<close>

named_theorems hide_flow "a name that is not bound stays so"
named_theorems flag_flow "a report stays"

definition hidden :: "ustring \<Rightarrow> resolver \<Rightarrow> bool" where
  "hidden x r \<longleftrightarrow> table_ok (r_table r) \<and> table_lookup (r_table r) x = None"

fun about :: "ustring \<Rightarrow> semantic_error \<Rightarrow> bool" where
  "about x (UndefinedName y _ _ _) = (y = x)"
| "about x (AssignToUndefined y _ _ _) = (y = x)"
| "about x (StmtTooDeep _) = True"
| "about x (ExprTooDeep _) = True"
| "about x _ = False"

definition flagged :: "ustring \<Rightarrow> resolver \<Rightarrow> bool" where
  "flagged x r \<longleftrightarrow> (\<exists>e\<in>set (r_errors r). about x e)"

lemma flagged_reports: "reports r r' \<Longrightarrow> flagged x r \<Longrightarrow> flagged x r'"
  by (auto simp: flagged_def reports_def)

lemma flagged_keeps: "keeps r r' \<Longrightarrow> flagged x r \<Longrightarrow> flagged x r'"
  by (rule flagged_reports) (simp_all add: keeps_def)

lemma flagged_widens: "widens r r' \<Longrightarrow> flagged x r \<Longrightarrow> flagged x r'"
  by (rule flagged_reports) (simp_all add: widens_def)

lemma lookup_same: "same_table t t' \<Longrightarrow> table_lookup t x = None \<longleftrightarrow> table_lookup t' x = None"
  unfolding same_table_def
proof (induction t t' rule: list_all2_induct)
  case (Cons sc t sc' t')
  then have "rel_option marked (scope_get sc x) (scope_get sc' x)" by (simp add: same_scope_def)
  with Cons.IH show ?case by (cases "scope_get sc x"; cases "scope_get sc' x") simp_all
qed simp

lemma hidden_keeps: "keeps r r' \<Longrightarrow> hidden x r \<Longrightarrow> hidden x r'"
  using lookup_same by (auto simp: keeps_def hidden_def)

lemma hidden_push [hide_flow]: "hidden x r \<Longrightarrow> hidden x (push_scope k r)"
  by (simp add: hidden_def on_table_def table_push_def table_ok_def)

lemma hidden_define [hide_flow]: "y \<noteq> x \<Longrightarrow> hidden x r \<Longrightarrow> hidden x (define_sym y k sp r)"
  by (cases "r_table r")
    (auto simp: hidden_def define_sym_def on_table_def table_ok_def scope_get_define split: option.splits)

lemma hidden_mark_current [hide_flow]: "hidden x r \<Longrightarrow> hidden x (on_table (mark_used_in_current y) r)"
  by (cases "r_table r")
    (auto simp: hidden_def on_table_def table_ok_def scope_get_mark split: option.splits)

lemma hidden_origins [hide_flow]: "hidden x r \<Longrightarrow> hidden x (r\<lparr>r_origins := f\<rparr>)"
  by (simp add: hidden_def)

lemma hidden_fold:
  "(\<And>y r. y \<in> set ys \<Longrightarrow> hidden x r \<Longrightarrow> hidden x (f y r)) \<Longrightarrow> hidden x r \<Longrightarrow> hidden x (fold f ys r)"
  by (induction ys arbitrary: r) auto

lemma flagged_fold:
  "(\<And>y r. y \<in> set ys \<Longrightarrow> widens r (f y r)) \<Longrightarrow> flagged x r \<Longrightarrow> flagged x (fold f ys r)"
  by (rule flagged_widens [OF widens_fold])

text \<open>One of the steps of a loop reports the name, and the steps before it do not bind it.\<close>

lemma flagged_in_fold:
  assumes "y \<in> set ys" "\<And>r. hidden x r \<Longrightarrow> flagged x (f y r)" "hidden x r"
    and "\<And>y r. y \<in> set ys \<Longrightarrow> widens r (f y r)"
    and "\<And>y r. y \<in> set ys \<Longrightarrow> hidden x r \<Longrightarrow> hidden x (f y r)"
  shows "flagged x (fold f ys r)"
  using assms
proof (induction ys arbitrary: r)
  case (Cons z zs)
  show ?case
  proof (cases "y = z")
    case True
    with Cons.prems have "flagged x (fold f zs (f z r))" by (intro flagged_fold) auto
    then show ?thesis by simp
  next
    case False
    with Cons show ?thesis by simp
  qed
qed simp

lemma flagged_pop [flag_flow]: "flagged x r \<Longrightarrow> flagged x (pop_scope r)"
  by (rule flagged_reports) (simp_all add: pop_scope_def warnings_fold reports_def split: prod.split)

lemma flagged_push [flag_flow]: "flagged x r \<Longrightarrow> flagged x (push_scope k r)"
  by (simp add: flagged_def on_table_def)

lemma flagged_undefined:
  "flagged x (push_undefined UndefinedName x sp r)" "flagged x (push_undefined AssignToUndefined x sp r)"
  by (simp_all add: push_undefined_def push_error_def flagged_def split: prod.split)

lemma hidden_define_all [hide_flow]:
  "x \<notin> set (map fst (zip xs sps)) \<Longrightarrow> hidden x r \<Longrightarrow> hidden x (define_all xs sps r)"
  unfolding define_all_def by (rule hidden_fold) (force intro: hidden_define)+

lemma hidden_define_for_target [hide_flow]:
  "x \<notin> set (target_binds tg) \<Longrightarrow> hidden x r \<Longrightarrow> hidden x (define_for_target tg r)"
  by (cases tg) (force simp: define_for_target_def target_binds_def intro!: hidden_define hidden_fold)+

lemma hidden_member: "x \<notin> set (member_names ty m) \<Longrightarrow> hidden x r \<Longrightarrow> hidden x (hoist_member ty m r)"
  by (cases "s_kind m") (auto simp: hoist_member_def member_names_def intro!: hide_flow)

lemma hidden_variant: "x \<notin> set (variant_names y v) \<Longrightarrow> hidden x r \<Longrightarrow> hidden x (hoist_variant y sp v r)"
  by (cases v) (auto simp: hoist_variant_def variant_names_def Let_def intro!: hide_flow)

lemma hidden_hoist_stmt: "x \<notin> set (hoisted s) \<Longrightarrow> hidden x r \<Longrightarrow> hidden x (hoist_stmt s r)"
  by (cases "s_kind s")
    (auto simp: hoist_stmt_def hoisted_def intro!: hide_flow hidden_fold intro: hidden_member hidden_variant)

lemma hidden_hoist [hide_flow]:
  "x \<notin> set (hoists ss) \<Longrightarrow> hidden x r \<Longrightarrow> hidden x (hoist_fns_and_structs ss r)"
  unfolding hoist_fns_and_structs_def hoists_def by (rule hidden_fold) (auto intro: hidden_hoist_stmt)

lemma hidden_type_params [hide_flow]:
  "x \<notin> set tps \<Longrightarrow> hidden x r \<Longrightarrow> hidden x (fold (define_type_param sp) tps r)"
  by (rule hidden_fold) (auto simp: define_type_param_def intro!: hide_flow)

lemma hidden_lambda_params [hide_flow]:
  "x \<notin> param_name ` set ps \<Longrightarrow> hidden x r \<Longrightarrow> hidden x (fold define_lambda_param ps r)"
  by (rule hidden_fold)
    (auto simp: define_lambda_param_def param_name_def image_iff intro!: hide_flow split: param_of.split)

subsection \<open>One level finds what the level below finds\<close>

locale finder = resolver_level re rs for re rs +
  fixes x :: ustring
  assumes plain: "\<not> starts_with olive_prefix x"
    and re_finds: "seen_in x (PExpr e) \<Longrightarrow> hidden x r \<Longrightarrow> flagged x (re e r)"
    and rs_finds: "seen_in x (PSeq ss) \<Longrightarrow> hidden x r \<Longrightarrow> flagged x (fold rs ss r)"
    and rs_hides: "x \<notin> set (binds s) \<Longrightarrow> hidden x r \<Longrightarrow> hidden x (rs s r)"
begin

lemmas [hide_flow] = keeps_mark [THEN hidden_keeps] keeps_push_error [THEN hidden_keeps]
  re_keeps [THEN hidden_keeps] fold_re(1) [OF keeps_refl, THEN hidden_keeps]
  opt_re(1) [OF keeps_refl, THEN hidden_keeps] block_keeps [THEN hidden_keeps]
  opt_block [OF keeps_refl, THEN hidden_keeps] fold_cases [OF keeps_refl, THEN hidden_keeps]
  fold_args [OF keeps_refl, THEN hidden_keeps] assign_target [THEN hidden_keeps]
  keeps_decorators [OF keeps_refl, THEN hidden_keeps]

lemmas [flag_flow] = re_keeps [THEN flagged_keeps] rs_widens [THEN flagged_widens]
  fold_re(1) [OF keeps_refl, THEN flagged_keeps] fold_rs [OF widens_refl, THEN flagged_widens]
  opt_re(1) [OF keeps_refl, THEN flagged_keeps] block_keeps [THEN flagged_keeps]
  opt_block [OF keeps_refl, THEN flagged_keeps] fold_cases [OF keeps_refl, THEN flagged_keeps]
  fold_args [OF keeps_refl, THEN flagged_keeps] assign_target [THEN flagged_keeps]
  params [OF widens_refl, THEN flagged_widens] pattern [THEN flagged_widens]
  with_items [OF widens_refl, THEN flagged_widens] widens_hoist [OF widens_refl, THEN flagged_widens]
  widens_define [THEN flagged_widens] widens_define_all [OF widens_refl, THEN flagged_widens]

lemmas finds = re_finds rs_finds

lemma opt_finds: "e \<in> set (opt_list y) \<Longrightarrow> seen_in x (PExpr e) \<Longrightarrow> hidden x r \<Longrightarrow> flagged x (resolve_opt re y r)"
  by (cases y) (auto simp: opt_list_def resolve_opt_def intro: finds)

lemma fold_finds: "e \<in> set es \<Longrightarrow> seen_in x (PExpr e) \<Longrightarrow> hidden x r \<Longrightarrow> flagged x (fold re es r)"
  by (rule flagged_in_fold) (auto intro: finds hide_flow keeps_widens re_keeps)

lemma pattern_hides: "x \<notin> set (pattern_binds p) \<Longrightarrow> hidden x r \<Longrightarrow> hidden x (resolve_pattern re p r)"
  by (induction p arbitrary: r)
    (fastforce intro!: hide_flow hidden_fold split: option.split simp: resolve_opt_def)+

lemma pattern_finds:
  "e \<in> set (pattern_exprs p) \<Longrightarrow> seen_in x (PExpr e) \<Longrightarrow> x \<notin> set (pattern_binds p) \<Longrightarrow> hidden x r \<Longrightarrow>
   flagged x (resolve_pattern re p r)"
proof (induction p arbitrary: r)
  case (PatList before rest after)
  have later: "flagged x (resolve_opt (\<lambda>(x, sp). define_sym x SkVariable sp) rest r')" if "flagged x r'" for r'
    using that by (auto simp: resolve_opt_def intro!: flag_flow split: option.split)
  from PatList.prems(1) consider q where "q \<in> set before" "e \<in> set (pattern_exprs q)"
    | q where "q \<in> set after" "e \<in> set (pattern_exprs q)" by auto
  then show ?case
  proof cases
    case 1
    with PatList have "flagged x (fold (resolve_pattern re) before r)"
      by (intro flagged_in_fold [OF 1(1)]) (auto intro: pattern pattern_hides)
    then show ?thesis by (auto intro!: later flagged_fold pattern)
  next
    case 2
    have "hidden x (fold (resolve_pattern re) before r)"
      using PatList.prems by (intro hidden_fold) (auto intro: pattern_hides)
    with 2 PatList have "flagged x (fold (resolve_pattern re) after (fold (resolve_pattern re) before r))"
      by (intro flagged_in_fold [OF 2(1)]) (auto intro: pattern pattern_hides)
    then show ?thesis by (simp add: later)
  qed
next
  case (PatStructFields n fs b)
  then obtain f q where q: "(f, q) \<in> set fs" "e \<in> set (pattern_exprs q)" by auto
  have nb: "x \<notin> set (pattern_binds b)" if "(a, b) \<in> set fs" for a b
    using PatStructFields.prems(3) that by fastforce
  show ?case
    using PatStructFields q by (auto intro!: flagged_in_fold [OF q(1)] intro: pattern pattern_hides dest: nb)
qed (auto intro!: flagged_in_fold intro: pattern pattern_hides finds flag_flow hide_flow)

lemma param_hides:
  "x \<noteq> param_name q \<Longrightarrow> hidden x (snd p) \<Longrightarrow> hidden x (snd (resolve_param re q p))"
  by (cases p) (auto simp: resolve_param_def param_name_def intro!: hide_flow split: param_of.split option.split)

lemma param_finds:
  "x \<noteq> param_name q \<Longrightarrow> e \<in> set (opt_list (param_default q)) \<Longrightarrow> seen_in x (PExpr e) \<Longrightarrow>
   hidden x (snd p) \<Longrightarrow> flagged x (snd (resolve_param re q p))"
  by (cases p) (auto simp: resolve_param_def param_name_def param_default_def
    intro!: hide_flow opt_finds split: param_of.splits option.split)

lemma params_fold_hides:
  "x \<notin> param_name ` set ps \<Longrightarrow> hidden x (snd p) \<Longrightarrow> hidden x (snd (fold (resolve_param re) ps p))"
proof (induction ps arbitrary: p)
  case (Cons q ps)
  then show ?case using Cons.IH [OF _ param_hides [of q p]] by simp
qed simp

lemma params_fold_finds:
  "x \<notin> param_name ` set ps \<Longrightarrow> q \<in> set ps \<Longrightarrow> e \<in> set (opt_list (param_default q)) \<Longrightarrow>
   seen_in x (PExpr e) \<Longrightarrow> hidden x (snd p) \<Longrightarrow> flagged x (snd (fold (resolve_param re) ps p))"
proof (induction ps arbitrary: p)
  case (Cons z zs)
  show ?case
  proof (cases "q = z")
    case True
    with Cons.prems have "flagged x (snd (resolve_param re z p))" by (auto intro: param_finds)
    then show ?thesis using flagged_widens [OF params_fold] by simp
  next
    case False
    with Cons show ?thesis using Cons.IH [OF _ _ _ _ param_hides [of z p]] by simp
  qed
qed simp

lemma params_hides [hide_flow]:
  "x \<notin> param_name ` set ps \<Longrightarrow> hidden x r \<Longrightarrow> hidden x (resolve_params re ps r)"
  using params_fold_hides [of ps "(Map.empty, r)"] by (simp add: resolve_params_def)

lemma params_finds:
  "x \<notin> param_name ` set ps \<Longrightarrow> q \<in> set ps \<Longrightarrow> e \<in> set (opt_list (param_default q)) \<Longrightarrow>
   seen_in x (PExpr e) \<Longrightarrow> hidden x r \<Longrightarrow> flagged x (resolve_params re ps r)"
  using params_fold_finds [of ps q e "(Map.empty, r)"] by (simp add: resolve_params_def)

definition clause_step :: "comp_clause \<Rightarrow> resolver \<Rightarrow> resolver" where
  "clause_step c r = (case c of CompClause tg it cond \<Rightarrow> resolve_opt re cond (define_for_target tg (re it r)))"

lemma clause_step_simp [simp]:
  "clause_step (CompClause tg it cond) r = resolve_opt re cond (define_for_target tg (re it r))"
  by (simp add: clause_step_def)

lemma clauses_eq: "resolve_comp_clauses re cs r = fold clause_step cs (push_scope ScComprehension r)"
  by (simp add: resolve_comp_clauses_def clause_step_def [abs_def])

lemma clause_widens: "widens r (clause_step c r)"
  by (auto simp: clause_step_def intro!: extend_flow split: comp_clause_of.split)

lemma clauses_hide: "x \<notin> set (clause_binds cs) \<Longrightarrow> hidden x r \<Longrightarrow> hidden x (fold clause_step cs r)"
  by (rule hidden_fold)
    (auto simp: clause_binds_def clause_step_def intro!: hide_flow split: comp_clause_of.splits)

lemma clause_parts_under: "(B, p) \<in> set (clause_parts B0 cs) \<Longrightarrow> set B0 \<subseteq> set B"
  by (induction B0 cs rule: clause_parts.induct) (auto split: option.splits)

lemma clauses_find:
  "(B, p) \<in> set (clause_parts B0 cs) \<Longrightarrow> x \<notin> set B \<Longrightarrow> seen_in x p \<Longrightarrow> hidden x r \<Longrightarrow>
   flagged x (fold clause_step cs r)"
proof (induction B0 cs arbitrary: r rule: clause_parts.induct)
  case (2 B0 tg it cond cs)
  have more: "flagged x (fold clause_step cs r')" if "flagged x r'" for r'
    using that by (rule flagged_fold [OF clause_widens])
  have tg: "widens r' (define_for_target tg r')" for r' by (intro extend_flow)
  from 2(2) consider "B = B0" "p = PExpr it" | c where "cond = Some c" "B = target_binds tg @ B0" "p = PExpr c"
    | "(B, p) \<in> set (clause_parts (target_binds tg @ B0) cs)"
    by (auto split: option.splits)
  then show ?case
  proof cases
    case 1
    with 2 show ?thesis
      by (auto intro!: more opt_re(1) [OF keeps_refl, THEN flagged_keeps] flagged_widens [OF tg] finds)
  next
    case 2
    with "2.prems" show ?thesis
      by (auto simp: resolve_opt_def intro!: more finds hide_flow)
  next
    case 3
    then have "x \<notin> set (target_binds tg)" using clause_parts_under 2(3) by fastforce
    with 2(5) have "hidden x (resolve_opt re cond (define_for_target tg (re it r)))"
      by (intro hide_flow)
    with 3 2 show ?thesis by simp
  qed
qed simp

lemma case_finds:
  "(\<exists>g. (g \<in> set (pattern_exprs p) \<or> g \<in> set (opt_list guard)) \<and> seen_in x (PExpr g)) \<or> seen_in x (PSeq body) \<Longrightarrow>
   x \<notin> set (pattern_binds p) \<Longrightarrow> hidden x r \<Longrightarrow>
   flagged x (resolve_case re rs (MatchCase p guard body sp) r)"
  by (auto simp: resolve_case_def intro!: flagged_pop hide_flow pattern_hides
      intro: rs_finds fold_rs [OF widens_refl, THEN flagged_widens] opt_finds
        opt_re(1) [OF keeps_refl, THEN flagged_keeps] pattern_finds)

lemma cases_find:
  "MatchCase p guard body sp \<in> set cs \<Longrightarrow>
   (\<exists>g. (g \<in> set (pattern_exprs p) \<or> g \<in> set (opt_list guard)) \<and> seen_in x (PExpr g)) \<or> seen_in x (PSeq body) \<Longrightarrow>
   x \<notin> set (pattern_binds p) \<Longrightarrow> hidden x r \<Longrightarrow> flagged x (fold (resolve_case re rs) cs r)"
  by (rule flagged_in_fold) (auto intro: case_finds keeps_widens case_keeps hidden_keeps [OF case_keeps])

lemma attr_finds:
  assumes "seen_in x (PExpr obj)" "hidden x r"
  shows "flagged x (resolve_attr re obj a sp r)"
proof -
  have "flagged x (re obj r)" using assms by (rule finds)
  then show ?thesis
    using assms free_identifier [of x obj]
    by (auto simp: resolve_attr_def hidden_def split: expr_kind_of.split option.split)
qed

lemma args_find: "c \<in> set args \<Longrightarrow> seen_in x (PExpr (arg_expr c)) \<Longrightarrow> hidden x r \<Longrightarrow>
   flagged x (fold (resolve_arg re) args r)"
  by (erule flagged_in_fold)
    (auto simp: resolve_arg_def arg_expr_def intro: finds intro!: extend_flow hide_flow split: call_arg_of.splits)

lemma fstr_find: "FStrPart e f \<in> set parts \<Longrightarrow> seen_in x (PExpr e) \<Longrightarrow> hidden x r \<Longrightarrow>
   flagged x (fold (\<lambda>p. case p of FStrPart a _ \<Rightarrow> re a) parts r)"
  by (erule flagged_in_fold) (auto intro: finds intro!: extend_flow hide_flow split: fstr_part_of.split)

lemma dict_finds:
  assumes "(k, v) \<in> set ps" "seen_in x (PExpr k) \<or> seen_in x (PExpr v)" "hidden x r"
  shows "flagged x (fold (\<lambda>(k, v) r. re v (re k r)) ps r)"
  using assms(1) _ assms(3)
proof (rule flagged_in_fold)
  show "flagged x ((case (k, v) of (k, v) \<Rightarrow> \<lambda>r. re v (re k r)) r)" if "hidden x r" for r
    using assms(2) that re_finds hidden_keeps [OF re_keeps] flagged_keeps [OF re_keeps] by fastforce
qed (auto intro!: extend_flow hide_flow)

lemma comp_finds:
  "(B, p) \<in> set (clause_parts [] cs) \<Longrightarrow> x \<notin> set B \<Longrightarrow> seen_in x p \<Longrightarrow> hidden x r \<Longrightarrow>
   flagged x (resolve_comp_clauses re cs r)"
  unfolding clauses_eq by (rule clauses_find) (auto intro: hidden_push)

lemma comp_hides [hide_flow]:
  "x \<notin> set (clause_binds cs) \<Longrightarrow> hidden x r \<Longrightarrow> hidden x (resolve_comp_clauses re cs r)"
  unfolding clauses_eq by (rule clauses_hide) (auto intro: hidden_push)

lemma expr_finds:
  assumes "(B, p) \<in> set (expr_parts e)" "x \<notin> set B" "seen_in x p" "hidden x r"
  shows "flagged x (resolve_expr_inner re rs e r)"
  using assms
  by (cases "x_kind e")
    (auto simp: expr_parts_def resolve_expr_inner_def split: fstr_part_of.splits match_case_of.splits
      intro: flag_flow finds hide_flow fold_finds args_find attr_finds fstr_find dict_finds comp_finds
        opt_finds cases_find)

lemma target_finds:
  "x \<in> set (target_names tg) \<Longrightarrow> hidden x r \<Longrightarrow> flagged x (resolve_assign_target re tg r)"
proof (induction tg arbitrary: r rule: measure_induct_rule [of size])
  case (less tg)
  obtain k sp where k: "tg = Expr k sp" by (cases tg)
  show ?case
  proof (cases "\<exists>es. k = XTuple es")
    case True
    then obtain es where es: "k = XTuple es" by blast
    with less.prems k obtain e where e: "e \<in> set es" "x \<in> set (target_names e)" by auto
    have "size e < size tg" using size_list_estimation' [OF e(1) order_refl, of size] by (simp add: k es)
    then have "flagged x (fold (resolve_assign_target re) es r)"
      using e less by (intro flagged_in_fold [OF e(1)])
        (auto intro: keeps_widens assign_target hide_flow)
    then show ?thesis by (simp add: k es)
  next
    case False
    with less.prems k show ?thesis
      by (cases k) (auto simp: hidden_def intro: flagged_undefined)
  qed
qed

lemma target_parts_find:
  "(B, p) \<in> set (target_parts tg) \<Longrightarrow> seen_in x p \<Longrightarrow> hidden x r \<Longrightarrow>
   flagged x (resolve_assign_target re tg r)"
  by (cases tg; cases "x_kind tg") (auto simp: target_parts_def intro: finds flag_flow hide_flow)

lemma body_finds: "seen_in x (PSeq ss) \<Longrightarrow> hidden x r \<Longrightarrow> flagged x (pop_scope (fold rs ss r))"
  by (intro flagged_pop rs_finds)

lemma block_finds:
  "seen_in x (PSeq ss) \<Longrightarrow> x \<notin> set (hoists ss) \<Longrightarrow> hidden x r \<Longrightarrow> flagged x (resolve_block rs ss r)"
  unfolding resolve_block_def by (intro body_finds hide_flow)

lemma opt_block_finds:
  "ss \<in> set (opt_list y) \<Longrightarrow> seen_in x (PSeq ss) \<Longrightarrow> x \<notin> set (hoists ss) \<Longrightarrow> hidden x r \<Longrightarrow>
   flagged x (resolve_opt (resolve_block rs) y r)"
  by (cases y) (auto simp: opt_list_def resolve_opt_def intro: block_finds)

lemma elifs_find:
  "(c, b) \<in> set elifs \<Longrightarrow> seen_in x (PExpr c) \<or> (seen_in x (PSeq b) \<and> x \<notin> set (hoists b)) \<Longrightarrow>
   hidden x r \<Longrightarrow> flagged x (fold (\<lambda>(c', b) r. resolve_block rs b (re c' r)) elifs r)"
  by (erule flagged_in_fold)
    (auto intro: finds block_finds flag_flow hide_flow keeps_widens intro!: keep_flow)

lemma with_hides:
  "x \<notin> set (with_binds items) \<Longrightarrow> hidden x r \<Longrightarrow> hidden x (fold (resolve_with_item re) items r)"
  by (rule hidden_fold)
    (auto simp: with_binds_def resolve_with_item_def Let_def intro!: hide_flow
      split: with_item_of.splits option.splits expr_kind_of.splits)

lemma with_finds:
  "WithItem c alias \<in> set items \<Longrightarrow> x \<notin> set (with_binds items) \<Longrightarrow> seen_in x (PExpr c) \<Longrightarrow> hidden x r \<Longrightarrow>
   flagged x (fold (resolve_with_item re) items r)"
proof (induction items arbitrary: r)
  case (Cons i items)
  show ?case
  proof (cases "i = WithItem c alias")
    case True
    have "flagged x (re c r)" using Cons.prems by (intro finds)
    then have "flagged x (resolve_with_item re i r)"
      by (auto simp: True resolve_with_item_def Let_def intro!: flag_flow split: option.split expr_kind_of.split)
    then show ?thesis using flagged_widens [OF with_items [OF widens_refl]] by simp
  next
    case False
    have "hidden x (fold (resolve_with_item re) [i] r)"
      using Cons.prems by (intro with_hides) (simp_all add: with_binds_def)
    with False Cons show ?thesis by (simp add: with_binds_def)
  qed
qed simp

lemma fold_rs_hides: "x \<notin> set (concat (map binds ss)) \<Longrightarrow> hidden x r \<Longrightarrow> hidden x (fold rs ss r)"
  by (rule hidden_fold) (auto intro: rs_hides)

lemma from_import_hides:
  "x \<noteq> (case alias of Some a \<Rightarrow> a | None \<Rightarrow> n) \<Longrightarrow> hidden x r \<Longrightarrow> hidden x (resolve_from_import sp (n, alias) r)"
  by (auto simp: resolve_from_import_def intro!: hide_flow split: option.splits)

lemma from_imports_hide:
  "x \<notin> set (map (\<lambda>(n, alias). case alias of Some a \<Rightarrow> a | None \<Rightarrow> n) ns) \<Longrightarrow> hidden x r \<Longrightarrow>
   hidden x (fold (resolve_from_import sp) ns r)"
  by (rule hidden_fold) (force intro: from_import_hides)+

definition scoped :: "src_stmt \<Rightarrow> bool" where
  "scoped s \<longleftrightarrow> (case s_kind s of SFn _ _ _ _ _ _ _ \<Rightarrow> True | SStruct _ _ _ _ _ \<Rightarrow> True | SImpl _ _ _ _ \<Rightarrow> True
     | SIf _ _ _ _ \<Rightarrow> True | SWhile _ _ _ \<Rightarrow> True | SFor _ _ _ _ \<Rightarrow> True | SWith _ _ \<Rightarrow> True | _ \<Rightarrow> False)"

lemma scoped_keeps: "scoped s \<Longrightarrow> keeps r (resolve_stmt_inner re rs s r)"
  unfolding resolve_stmt_inner_def scoped_def
  by (cases "s_kind s")
    (auto intro!: keep_flow extend_flow keeps_fold_then widens_fold_then split: option.split)

lemma scoped_hides: "widens (push_scope k r) r' \<Longrightarrow> hidden x r \<Longrightarrow> hidden x (pop_scope r')"
  by (rule hidden_keeps [OF keeps_pop])

lemma native_hides:
  "x \<noteq> alias \<Longrightarrow> x \<notin> (\<lambda>f. qual_name alias (ff_name f)) ` set fs \<Longrightarrow> x \<notin> (\<lambda>d. qual_name alias (fs_name d)) ` set ds \<Longrightarrow>
   hidden x r \<Longrightarrow>
   hidden x (fold (\<lambda>d. define_sym (qual_name alias (fs_name d)) SkStruct sp) ds
     (fold (\<lambda>f. define_sym (qual_name alias (ff_name f)) SkFunction sp) fs (define_sym alias SkNativeImport sp r)))"
  by (intro hidden_fold hide_flow) auto

lemma stmt_hides:
  assumes "x \<notin> set (binds s)" "hidden x r"
  shows "hidden x (resolve_stmt_inner re rs s r)"
proof (cases "scoped s")
  case True
  then show ?thesis using assms by (blast intro: hidden_keeps scoped_keeps)
next
  case False
  obtain k sp where "s = Stmt k sp" by (cases s)
  with assms False show ?thesis
    by (cases k)
      (auto simp: resolve_stmt_inner_def scoped_def intro!: hide_flow fold_rs_hides from_imports_hide native_hides
        split: option.splits)
qed

lemma fn_finds:
  "(seen_in x (PSeq body) \<and> x \<notin> set (hoists body)) \<or>
   (\<exists>q e. q \<in> set ps \<and> e \<in> set (opt_list (param_default q)) \<and> seen_in x (PExpr e)) \<Longrightarrow>
   x \<notin> param_name ` set ps \<Longrightarrow> hidden x r \<Longrightarrow>
   flagged x (pop_scope (fold rs body (hoist_fns_and_structs body (resolve_params re ps r))))"
  by (elim disjE conjE exE)
    (blast intro: body_finds hide_flow, blast intro: flag_flow params_finds)

lemma loop_finds:
  "seen_in x (PExpr it) \<or> (seen_in x (PSeq body) \<and> x \<notin> set (hoists body) \<and> x \<notin> set (target_binds tg)) \<Longrightarrow>
   hidden x r \<Longrightarrow>
   flagged x (pop_scope (fold rs body (hoist_fns_and_structs body
     (define_for_target tg (push_scope k (re it r))))))"
proof (elim disjE conjE)
  assume "seen_in x (PExpr it)" "hidden x r"
  then have "flagged x (define_for_target tg (push_scope k (re it r)))"
    by (intro flagged_widens [OF widens_define_for_target [OF widens_refl]] flagged_push finds)
  then show ?thesis by (intro flag_flow)
qed (intro body_finds hide_flow)

lemma impl_finds:
  "seen_in x (PSeq body) \<Longrightarrow> x \<notin> set (hoists body) \<Longrightarrow> x \<notin> set tps \<Longrightarrow> hidden x r \<Longrightarrow>
   flagged x (pop_scope (fold rs body (hoist_fns_and_structs body (fold (\<lambda>x. define_sym x k sp) tps r))))"
  by (intro body_finds hide_flow hidden_fold) auto

lemma with_body_finds:
  "seen_in x (PSeq body) \<and> x \<notin> set (hoists body) \<or> (\<exists>c a. WithItem c a \<in> set items \<and> seen_in x (PExpr c)) \<Longrightarrow>
   x \<notin> set (with_binds items) \<Longrightarrow> hidden x r \<Longrightarrow>
   flagged x (pop_scope (fold rs body (hoist_fns_and_structs body (fold (resolve_with_item re) items r))))"
  by (elim disjE conjE exE)
    (blast intro: body_finds hide_flow with_hides, blast intro: flag_flow with_finds)

lemma fn_stmt_finds:
  "(seen_in x (PSeq body) \<and> x \<notin> set (hoists body)) \<or>
   (\<exists>q e. q \<in> set ps \<and> e \<in> set (opt_list (param_default q)) \<and> seen_in x (PExpr e)) \<Longrightarrow>
   x \<notin> param_name ` set ps \<Longrightarrow> x \<notin> set tps \<Longrightarrow> hidden x r \<Longrightarrow>
   flagged x (pop_scope (fold rs body (hoist_fns_and_structs body (resolve_params re ps
     (fold (define_type_param sp) tps (push_scope k (check_decorators ds r)))))))"
  by (rule fn_finds) (assumption, assumption, intro hide_flow)

lemma elifs_keep: "keeps r (fold (\<lambda>(c', b) r. resolve_block rs b (re c' r)) elifs r)"
  by (auto intro!: keeps_fold_then keep_flow)

lemma for_finds:
  "seen_in x (PExpr it) \<or> (seen_in x (PSeq body) \<and> x \<notin> set (hoists body) \<and> x \<notin> set (target_binds tg)) \<or>
   (\<exists>ss. ss \<in> set (opt_list els) \<and> seen_in x (PSeq ss) \<and> x \<notin> set (hoists ss)) \<Longrightarrow>
   hidden x r \<Longrightarrow>
   flagged x (resolve_opt (resolve_block rs) els (pop_scope (fold rs body (hoist_fns_and_structs body
     (define_for_target tg (push_scope k (re it r)))))))"
proof (elim disjE)
  let ?r = "pop_scope (fold rs body (hoist_fns_and_structs body (define_for_target tg (push_scope k (re it r)))))"
  let ?goal = "flagged x (resolve_opt (resolve_block rs) els ?r)"
  note up = opt_block [OF keeps_refl, THEN flagged_keeps]
  assume h: "hidden x r"
  then have h': "hidden x (re it r)" by (intro hide_flow)
  have "hidden x ?r"
    by (rule scoped_hides [OF _ h', where k = k]) (intro extend_flow)
  then show ?goal if "\<exists>ss. ss \<in> set (opt_list els) \<and> seen_in x (PSeq ss) \<and> x \<notin> set (hoists ss)"
    using that by (blast intro: opt_block_finds)
  show ?goal if "seen_in x (PExpr it)"
    using that h by (intro up loop_finds) auto
  show ?goal if "seen_in x (PSeq body) \<and> x \<notin> set (hoists body) \<and> x \<notin> set (target_binds tg)"
    using that h by (intro up loop_finds) auto
qed

lemma if_finds:
  "seen_in x (PExpr c) \<or> (seen_in x (PSeq body) \<and> x \<notin> set (hoists body)) \<or>
   (\<exists>c' b. (c', b) \<in> set elifs \<and> (seen_in x (PExpr c') \<or> (seen_in x (PSeq b) \<and> x \<notin> set (hoists b)))) \<or>
   (\<exists>ss. ss \<in> set (opt_list els) \<and> seen_in x (PSeq ss) \<and> x \<notin> set (hoists ss)) \<Longrightarrow>
   hidden x r \<Longrightarrow>
   flagged x (resolve_opt (resolve_block rs) els
     (fold (\<lambda>(c', b) r. resolve_block rs b (re c' r)) elifs (resolve_block rs body (re c r))))"
proof (elim disjE)
  let ?g = "fold (\<lambda>(c', b) r. resolve_block rs b (re c' r)) elifs"
  let ?r = "resolve_block rs body (re c r)"
  let ?goal = "flagged x (resolve_opt (resolve_block rs) els (?g ?r))"
  note up = opt_block [OF keeps_refl, THEN flagged_keeps] flagged_keeps [OF elifs_keep]
  assume h: "hidden x r"
  then have h': "hidden x ?r" by (intro hide_flow)
  show ?goal if "seen_in x (PExpr c)"
    using that h by (intro up flagged_keeps [OF block_keeps] finds)
  show ?goal if "seen_in x (PSeq body) \<and> x \<notin> set (hoists body)"
    using that h by (intro up block_finds hide_flow) auto
  show ?goal if "\<exists>c' b. (c', b) \<in> set elifs \<and> (seen_in x (PExpr c') \<or> (seen_in x (PSeq b) \<and> x \<notin> set (hoists b)))"
    using that h' by (blast intro: elifs_find up(1))
  show ?goal if "\<exists>ss. ss \<in> set (opt_list els) \<and> seen_in x (PSeq ss) \<and> x \<notin> set (hoists ss)"
    using that hidden_keeps [OF elifs_keep h'] by (blast intro: opt_block_finds)
qed

lemma stmt_finds:
  assumes "(B, p) \<in> set (stmt_parts s)" "x \<notin> set B" "seen_in x p" "hidden x r"
  shows "flagged x (resolve_stmt_inner re rs s r)"
proof -
  note simps = stmt_parts_def block_part_def resolve_stmt_inner_def
  show ?thesis
  proof (cases "s_kind s")
    case (SFn n tps ps ret body ds asy)
    with assms show ?thesis by (auto simp: simps intro!: fn_stmt_finds)
  next
    case (SImpl tps tr ty body)
    with assms show ?thesis by (auto simp: simps intro!: impl_finds hide_flow)
  next
    case (SIf c body elifs els)
    with assms show ?thesis by (auto simp: simps intro!: if_finds)
  next
    case (SFor tg it body els)
    with assms show ?thesis by (auto simp: simps intro!: for_finds)
  next
    case (SWith items body)
    have w: "x \<notin> set (with_binds items)"
      using assms SWith by (auto simp: simps split: with_item_of.splits)
    have "seen_in x (PSeq body) \<and> x \<notin> set (hoists body) \<or> (\<exists>c a. WithItem c a \<in> set items \<and> seen_in x (PExpr c))"
      using assms SWith by (fastforce simp: simps split: with_item_of.splits)
    from with_body_finds [OF this w]
    show ?thesis using assms SWith by (simp add: simps hidden_push)
  qed (use assms in \<open>auto simp: simps intro: flag_flow finds hide_flow opt_finds target_parts_find
      body_finds block_finds opt_block_finds\<close>)
qed

end

subsection \<open>The whole resolver\<close>

lemma free_seq_step:
  assumes step: "\<And>s r. seen_in x (PSeq [s]) \<Longrightarrow> hidden x r \<Longrightarrow> flagged x (f s r)"
    and hides: "\<And>s r. x \<notin> set (binds s) \<Longrightarrow> hidden x r \<Longrightarrow> hidden x (f s r)"
    and ext: "\<And>s r. widens r (f s r)"
  shows "seen_in x (PSeq ss) \<Longrightarrow> hidden x r \<Longrightarrow> flagged x (fold f ss r)"
proof (induction ss arbitrary: r)
  case (Cons s ss)
  have later: "flagged x (fold f ss r')" if "flagged x r'" for r'
    using that by (rule flagged_widens [OF widens_fold [OF ext]])
  have "seen_in x (PSeq [s]) \<or> (x \<notin> set (binds s) \<and> seen_in x (PSeq ss))"
    using Cons.prems(1) by (auto elim!: seen_in_consE intro: seen_target seen_stmt)
  then show ?case
  proof (elim disjE conjE)
    assume "seen_in x (PSeq [s])"
    with Cons.prems(2) show ?thesis by (simp add: step later)
  next
    assume "x \<notin> set (binds s)" "seen_in x (PSeq ss)"
    with Cons show ?thesis by (simp add: hides)
  qed
qed (auto elim: seen_in_nilE)

lemma finds_all:
  assumes "\<not> starts_with olive_prefix x"
  shows "(seen_in x (PExpr e) \<longrightarrow> hidden x r \<longrightarrow> flagged x (resolve_expr d e r)) \<and>
    (seen_in x (PSeq ss) \<longrightarrow> hidden x r \<longrightarrow> flagged x (fold (resolve_stmt d) ss r)) \<and>
    (x \<notin> set (binds s) \<longrightarrow> hidden x r \<longrightarrow> hidden x (resolve_stmt d s r))"
proof (induction d arbitrary: e r s ss)
  case 0
  have "hidden x (push_error m r)" if "hidden x r" for m r
    using that by (rule hidden_keeps [OF keeps_push_error])
  moreover have "flagged x (resolve_stmt 0 s r)" for s r
    by (simp add: flagged_def push_error_def)
  moreover have "flagged x (resolve_expr 0 e r)" by (simp add: flagged_def push_error_def)
  moreover have "hidden x (resolve_stmt 0 s r)" if "hidden x r" for s r
    using that by (simp add: hidden_keeps [OF keeps_push_error])
  ultimately show ?case
    using free_seq_step [of x "resolve_stmt 0" ss r] resolver_levels by blast
next
  case (Suc d)
  then have f: "finder (resolve_expr d) (resolve_stmt d) x"
    using assms by unfold_locales blast+
  have e: "flagged x (resolve_expr (Suc d) e r)" if "seen_in x (PExpr e)" "hidden x r" for e r
  proof -
    from that(1) consider sp where "e = Expr (XIdentifier x) sp"
      | B p where "(B, p) \<in> set (expr_parts e)" "x \<notin> set B" "seen_in x p"
      by (blast elim: seen_in_exprE)
    then show ?thesis
    proof cases
      case (1 sp)
      with that(2) assms show ?thesis
        by (simp add: resolve_expr_inner_def resolve_name_def hidden_def flagged_undefined)
    next
      case (2 B p)
      with that(2) show ?thesis using finder.expr_finds [OF f] by simp
    qed
  qed
  have s: "flagged x (resolve_stmt (Suc d) s r)" if "seen_in x (PSeq [s])" "hidden x r" for s r
    using that(1)
  proof -
    from that(1) consider "x \<in> set (assigned_names s)"
      | B p where "(B, p) \<in> set (stmt_parts s)" "x \<notin> set B" "seen_in x p"
      by (blast elim: seen_in_consE seen_in_nilE)
    then show ?thesis
    proof cases
      case 1
      then obtain tg where "x \<in> set (target_names tg)"
        "(\<exists>v. s_kind s = SAssign tg v) \<or> (\<exists>op v. s_kind s = SAugAssign tg op v)"
        by (auto simp: assigned_names_def split: stmt_kind.splits)
      moreover have "hidden x (resolve_expr d v r)" for v
        using that(2) by (rule hidden_keeps [OF conjunct1 [OF resolver_levels]])
      ultimately show ?thesis
        using finder.target_finds [OF f] by (auto simp: resolve_stmt_inner_def)
    next
      case (2 B p)
      with that(2) show ?thesis using finder.stmt_finds [OF f] by simp
    qed
  qed
  have h: "hidden x (resolve_stmt (Suc d) s r)" if "x \<notin> set (binds s)" "hidden x r" for s r
    using finder.stmt_hides [OF f that] by simp
  show ?case using e h free_seq_step [of x "resolve_stmt (Suc d)" ss r] s resolver_levels by blast
qed

interpretation found: finder "resolve_expr d" "resolve_stmt d" "cps ''undefined''" for d
proof unfold_locales
  have plain: "\<not> starts_with olive_prefix (cps ''undefined'')" by code_simp
  then show "\<not> starts_with olive_prefix (cps ''undefined'')" .
qed (use finds_all in \<open>auto simp: starts_with_def olive_prefix_def cps_def\<close>)

lemma hidden_new: "x \<notin> set (builtin_fns @ builtin_types) \<Longrightarrow> hidden x resolver_new"
proof -
  have "scope_get sc x = None \<Longrightarrow> x \<notin> set xs \<Longrightarrow> (\<And>y. sy_name (f y) = y) \<Longrightarrow>
      table_lookup (fold (\<lambda>y. table_define (f y)) xs [sc]) x = None" for f :: "ustring \<Rightarrow> symbol" and xs sc
    by (induction xs arbitrary: sc) (simp_all add: scope_get_define)
  from this [of "scope_new ScGlobal" "builtin_fns @ builtin_types" "\<lambda>x. \<lparr>sy_name = x, sy_kind = SkFunction,
      sy_span = default_span, sy_private = False, sy_used = True\<rparr>"]
  show "x \<notin> set (builtin_fns @ builtin_types) \<Longrightarrow> ?thesis"
    using new_table(1) by (simp add: hidden_def resolver_new_def table_new_def del: fold_append set_append)
qed

text \<open>
  C9. No undefined name passes outside the positions the resolver does not visit. Let a name occur free
  in a program, that is, under no declaration, binding, parameter, loop variable or pattern of that
  name as the language scopes them; let none of its free occurrences stand in the step of a range, in
  the default of a lambda's parameter or of a structure's field, in the value of an enum's variant, in the body of
  an enum or a trait, or in a target after \<open>as\<close> that is no name. If the name is not built in either, it is
  reported as undefined, or the program is refused because it nests too deeply.
\<close>

theorem undefined_names_reported:
  assumes "free_in x (PSeq p)" "\<not> skipped_in x (PSeq p)"
    and "x \<notin> set (hoists p)" "x \<notin> set (builtin_fns @ builtin_types)" "\<not> starts_with olive_prefix x"
  shows "\<exists>e\<in>set (r_errors (resolve_program p resolver_new)). about x e"
proof -
  have "seen_in x (PSeq p)" using free_seen_or_skipped assms(1,2) by blast
  moreover have "hidden x (hoist_fns_and_structs p resolver_new)"
    using hidden_hoist hidden_new assms by blast
  ultimately show ?thesis
    using finds_all [OF assms(5)] unfolding resolve_program_def flagged_def [symmetric] by blast
qed

definition sample_name :: "ustring \<Rightarrow> src_expr" where
  "sample_name x = Expr (XIdentifier x) default_span"

definition sample_fn :: program where
  "sample_fn =
     [Stmt (SFn (cps ''f'') [] [Param (cps ''a'') None None RegularParam False default_span] None
        [Stmt (SIf (sample_name (cps ''a'')) [Stmt (SReturn (Some (sample_name (cps ''b'')))) default_span] [] None)
           default_span] [] False) default_span]"

inductive_cases skipped_exprE: "skipped_in x (PExpr e)"
inductive_cases skipped_nilE: "skipped_in x (PSeq [])"
inductive_cases skipped_consE: "skipped_in x (PSeq (s # ss))"

lemma skipped_parts_none:
  "skipped_in x (PExpr (sample_name y)) = False"
  "skipped_in x (PSeq []) = False"
  by (auto simp: sample_name_def expr_parts_def skipped_expr_parts_def elim: skipped_exprE skipped_nilE)

lemma undefined_names_reported_witness:
  "(\<exists>e\<in>set (r_errors (resolve_program sample_fn resolver_new)). about (cps ''b'') e)"
proof (rule undefined_names_reported)
  note simps = stmt_parts_def opt_list_def block_part_def hoists_def hoisted_def param_name_def
    param_default_def cps_def
  have "free_in (cps ''b'') (PSeq [Stmt (SReturn (Some (sample_name (cps ''b'')))) default_span])"
    by (rule free_stmt [of "[]" "PExpr (sample_name (cps ''b''))"])
      (simp_all add: simps sample_name_def free_name)
  then have "free_in (cps ''b'') (PSeq [Stmt (SIf (sample_name (cps ''a''))
      [Stmt (SReturn (Some (sample_name (cps ''b'')))) default_span] [] None) default_span])"
    by (rule free_stmt [of "[]", rotated 2]) (simp_all add: simps)
  then show "free_in (cps ''b'') (PSeq sample_fn)"
    unfolding sample_fn_def by (rule free_stmt [of "[cps ''a'']", rotated 2]) (simp_all add: simps)
  show "\<not> skipped_in (cps ''b'') (PSeq sample_fn)"
    by (auto simp: sample_fn_def simps skipped_stmt_parts_def skipped_parts_none elim!: skipped_consE)
  show "cps ''b'' \<notin> set (hoists sample_fn)" "cps ''b'' \<notin> set (builtin_fns @ builtin_types)"
    "\<not> starts_with olive_prefix (cps ''b'')"
    by code_simp+
qed

subsection \<open>Names the resolver does not look at\<close>

text \<open>
  In none of the skipped positions is an undefined name reported. A variable that is used only
  there is warned about as unused.
\<close>

abbreviation nowhere :: src_expr where
  "nowhere \<equiv> sample_name (cps ''nowhere'')"

abbreviation nowhere_field :: param where
  "nowhere_field \<equiv> Param (cps ''a'') None (Some nowhere) RegularParam False default_span"

definition skipped_samples :: "program list" where
  "skipped_samples = map (\<lambda>k. [Stmt k default_span])
     [SExprStmt (Expr (XRange (Expr (XInteger 0) default_span) (Expr (XInteger 9) default_span) False
        (Some nowhere)) default_span),
      SExprStmt (Expr (XLambda [nowhere_field] (Expr XNull default_span)) default_span),
      SStruct (cps ''S'') [] [nowhere_field] [] [],
      SEnum (cps ''E'') [] [EnumVariant (cps ''A'') [] (Some nowhere)] [] [],
      SEnum (cps ''E'') [] [] [Stmt (SExprStmt nowhere) default_span] [],
      STrait (cps ''T'') [] [Stmt (SExprStmt nowhere) default_span],
      SWith [WithItem (Expr XNull default_span) (Some (Expr (XAttr nowhere (cps ''a'')) default_span))] []]"

lemma skipped_free:
  "\<forall>p\<in>set skipped_samples. free_in (cps ''nowhere'') (PSeq p)"
proof -
  have n: "free_in (cps ''nowhere'') (PExpr nowhere)" by (simp add: sample_name_def free_name)
  have s: "free_in (cps ''nowhere'') (PSeq [Stmt (SExprStmt nowhere) default_span])"
    by (rule free_stmt [OF _ _ n, of "[]"]) (simp_all add: stmt_parts_def)
  note simps = stmt_parts_def skipped_stmt_parts_def skipped_expr_parts_def opt_list_def block_part_def hoists_def
    hoisted_def param_name_def param_default_def cps_def with_target_parts_def target_parts_def with_binds_def
  have r: "free_in (cps ''nowhere'') (PExpr (Expr (XRange a b i (Some nowhere)) sp))" for a b i sp
    by (rule free_expr [OF _ _ n, of "[]"]) (simp_all add: simps)
  have l: "free_in (cps ''nowhere'') (PExpr (Expr (XLambda [nowhere_field] b) sp))" for b sp
    by (rule free_expr [OF _ _ n, of "[cps ''a'']"]) (simp_all add: simps)
  have e: "free_in (cps ''nowhere'') (PSeq [Stmt (SExprStmt a) sp])" if "free_in (cps ''nowhere'') (PExpr a)" for a sp
    by (rule free_stmt [OF _ _ that, of "[]"]) (simp_all add: simps)
  have "free_in (cps ''nowhere'') (PSeq [Stmt (SStruct (cps ''S'') [] [nowhere_field] [] []) sp])"
    "free_in (cps ''nowhere'') (PSeq [Stmt (SEnum (cps ''E'') [] [EnumVariant (cps ''A'') [] (Some nowhere)] [] []) sp])"
    "free_in (cps ''nowhere'') (PSeq [Stmt (SWith [WithItem (Expr XNull sp) (Some (Expr (XAttr nowhere (cps ''a'')) sp))] []) sp])"
    for sp
    by (rule free_stmt [OF _ _ n, of "[]"]; simp add: simps)+
  moreover have "free_in (cps ''nowhere'') (PSeq [Stmt (SEnum (cps ''E'') [] [] [Stmt (SExprStmt nowhere) default_span] []) sp])"
    "free_in (cps ''nowhere'') (PSeq [Stmt (STrait (cps ''T'') [] [Stmt (SExprStmt nowhere) default_span]) sp])" for sp
    by (rule free_stmt [OF _ _ s, of "[]"]; simp add: simps)+
  ultimately show ?thesis
    using e [OF r] e [OF l] by (simp add: skipped_samples_def)
qed

lemma skipped_unreported:
  "list_all (\<lambda>p. r_errors (resolve_program p resolver_new) = []) skipped_samples"
  by code_simp

end
