(* ===== verification/LspPosition.thy ===== *)
theory LspPosition
  imports Ast
begin

text \<open>
  Offsets in characters and positions of the language server protocol (\<open>tooling/lsp/position.rs\<close>), whose
  columns count the 16-bit units of a line. The numbers of a position are \<open>u32\<close> and wrap.
\<close>

record line_index =
  li_starts :: "nat list"
  li_chars :: ustring

record lsp_position =
  lp_line :: nat
  lp_char :: nat

definition as_u32 :: "nat \<Rightarrow> nat" where
  "as_u32 n = n mod 2 ^ 32"

definition len_utf16 :: "uchar \<Rightarrow> nat" where
  "len_utf16 c = (if c < 65536 then 1 else 2)"

definition line_index_new :: "ustring \<Rightarrow> line_index" where
  "line_index_new src =
     \<lparr>li_starts = 0 # map Suc (filter (\<lambda>i. src ! i = ch_nl) [0..<length src]), li_chars = src\<rparr>"

text \<open>
  \<open>binary_search\<close> of the library on a list without repetitions that ascends: the place of the element, or
  where it would have to stand.
\<close>

definition binary_search :: "nat list \<Rightarrow> nat \<Rightarrow> nat + nat" where
  "binary_search xs x =
     (let i = length (takeWhile (\<lambda>y. y < x) xs) in if i < length xs \<and> xs ! i = x then Inl i else Inr i)"

definition line_of :: "line_index \<Rightarrow> nat \<Rightarrow> nat" where
  "line_of li offset = (case binary_search (li_starts li) offset of Inl i \<Rightarrow> i | Inr i \<Rightarrow> i - 1)"

definition to_lsp :: "line_index \<Rightarrow> nat \<Rightarrow> lsp_position" where
  "to_lsp li char_offset =
     (let offset = min char_offset (length (li_chars li));
          line_no = line_of li offset;
          line_start = li_starts li ! line_no
      in \<lparr>lp_line = as_u32 line_no,
          lp_char = fold (\<lambda>c n. as_u32 (n + len_utf16 c)) (take (offset - line_start) (drop line_start (li_chars li))) 0\<rparr>)"

function count_units :: "ustring \<Rightarrow> nat \<Rightarrow> nat \<Rightarrow> nat \<Rightarrow> nat \<Rightarrow> nat" where
  "count_units cs fin target offset units =
     (if offset < fin \<and> units < target
      then count_units cs fin target (offset + 1) (as_u32 (units + len_utf16 (cs ! offset)))
      else offset)"
  by auto
termination count_units
  by (relation "measure (\<lambda>(cs, fin, target, offset, units). fin - offset)") auto

definition to_char_offset :: "line_index \<Rightarrow> lsp_position \<Rightarrow> nat" where
  "to_char_offset li p =
     (let line_no = min (lp_line p) (length (li_starts li) - 1);
          start = li_starts li ! line_no;
          fin = (if line_no + 1 < length (li_starts li) then li_starts li ! (line_no + 1) - 1
                  else length (li_chars li))
      in count_units (li_chars li) fin (lp_char p) start 0)"

definition span_to_range :: "line_index \<Rightarrow> span \<Rightarrow> lsp_position \<times> lsp_position" where
  "span_to_range li sp = (to_lsp li (sp_start sp), to_lsp li (sp_end sp))"

declare count_units.simps [simp del]

subsection \<open>Lines\<close>

lemma starts_ascend: "sorted_wrt (<) (li_starts (line_index_new src))"
proof -
  have "sorted_wrt (<) (filter P [0..<n])" for P and n :: nat
    by (rule sorted_wrt_filter) simp
  then show ?thesis by (auto simp: line_index_new_def sorted_wrt_map)
qed

lemma starts_bounds: "x \<in> set (li_starts (line_index_new src)) \<Longrightarrow> x \<le> length src"
  by (auto simp: line_index_new_def)

lemma starts_0: "li_starts (line_index_new src) ! 0 = 0" "li_starts (line_index_new src) \<noteq> []"
  by (simp_all add: line_index_new_def)

text \<open>The line of an offset is the last one that starts at it or before it.\<close>

lemma line_of_bounds:
  assumes S: "li_starts li = S" "sorted_wrt (<) S" "S \<noteq> []" "S ! 0 = 0"
  shows "line_of li x < length S" "S ! line_of li x \<le> x"
    "line_of li x + 1 < length S \<Longrightarrow> x < S ! (line_of li x + 1)"
proof -
  define i where "i = length (takeWhile (\<lambda>y. y < x) S)"
  have below: "S ! j < x" if "j < i" for j
    using that nth_mem [of j "takeWhile (\<lambda>y. y < x) S"] takeWhile_nth [of j "\<lambda>y. y < x" S]
    by (auto simp: i_def dest: set_takeWhileD)
  have at: "\<not> S ! i < x" if "i < length S"
    using that nth_length_takeWhile [of "\<lambda>y. y < x" S] by (simp add: i_def)
  have le: "i \<le> length S" by (simp add: i_def length_takeWhile_le)
  have mono: "S ! a < S ! b" if "a < b" "b < length S" for a b
    using S(2) that by (simp add: sorted_wrt_nth_less)
  show "line_of li x < length S" "S ! line_of li x \<le> x"
    "line_of li x + 1 < length S \<Longrightarrow> x < S ! (line_of li x + 1)"
  proof -
    consider "i < length S" "S ! i = x" | "0 < i" "i < length S \<Longrightarrow> x < S ! i"
      using at S(3,4) by (cases "i = 0") (auto simp: not_less le_less)
    then have "line_of li x < length S \<and> S ! line_of li x \<le> x \<and>
      (line_of li x + 1 < length S \<longrightarrow> x < S ! (line_of li x + 1))"
    proof cases
      case 1
      then have "line_of li x = i"
        by (simp add: line_of_def binary_search_def Let_def i_def [symmetric] S(1))
      with 1 mono [of i "i + 1"] show ?thesis by simp
    next
      case 2
      then have "line_of li x = i - 1"
        by (auto simp: line_of_def binary_search_def Let_def i_def [symmetric] S(1))
      with 2 below [of "i - 1"] le show ?thesis by simp
    qed
    then show "line_of li x < length S" "S ! line_of li x \<le> x"
      "line_of li x + 1 < length S \<Longrightarrow> x < S ! (line_of li x + 1)" by blast+
  qed
qed

lemma filter_ascending:
  fixes x :: nat
  assumes "sorted_wrt (<) S" "k < length S" "S ! k \<le> x" "k + 1 < length S \<Longrightarrow> x < S ! (k + 1)"
  shows "length (filter (\<lambda>y. y \<le> x) S) = k + 1"
proof -
  have "y \<le> x" if "y \<in> set (take (k + 1) S)" for y
  proof -
    obtain j where j: "j < k + 1" "j < length S" "y = S ! j" using \<open>y \<in> _\<close> by (auto simp: in_set_conv_nth)
    then have "S ! j \<le> S ! k"
      using assms(1,2) sorted_wrt_nth_less [of "(<)" S j k] by (cases "j = k") auto
    with j assms(3) show ?thesis by simp
  qed
  moreover have "\<not> y \<le> x" if "y \<in> set (drop (k + 1) S)" for y
  proof -
    obtain j where "j < length S - (k + 1)" "y = S ! (k + 1 + j)"
      using \<open>y \<in> _\<close> by (auto simp: in_set_conv_nth)
    then have j: "k + 1 + j < length S" "y = S ! (k + 1 + j)" by simp_all
    then have "S ! (k + 1) \<le> S ! (k + 1 + j)"
      using assms(1) sorted_wrt_nth_less [of "(<)" S "k + 1" "k + 1 + j"] by (cases "j = 0") auto
    with j assms(4) show ?thesis by simp
  qed
  ultimately have "filter (\<lambda>y. y \<le> x) (take (k + 1) S @ drop (k + 1) S) = take (k + 1) S"
    by (simp only: filter_append) (simp add: filter_empty_conv)
  with assms(2) show ?thesis by simp
qed

lemma starts_before:
  assumes "x \<le> length src"
  shows "length (filter (\<lambda>y. y \<le> x) (li_starts (line_index_new src))) =
    length (filter (\<lambda>c. c = ch_nl) (take x src)) + 1"
proof -
  have "filter (\<lambda>i. i < x) [0..<length src] = [0..<x]"
  proof -
    have "[0..<length src] = [0..<x] @ [x..<length src]" using assms by (metis le0 le_add_diff_inverse upt_add_eq_append)
    then show ?thesis by (simp add: filter_empty_conv)
  qed
  then have "filter (\<lambda>i. i < x \<and> src ! i = ch_nl) [0..<length src] = filter (\<lambda>i. src ! i = ch_nl) [0..<x]"
    by (metis filter_filter conj_commute)
  moreover have "length (filter (\<lambda>i. src ! i = ch_nl) [0..<x]) = length (filter (\<lambda>c. c = ch_nl) (take x src))"
  proof -
    have "take x src = map ((!) src) [0..<x]" using assms by (intro nth_equalityI) simp_all
    then show ?thesis by (simp add: filter_map o_def)
  qed
  ultimately show ?thesis
    by (simp add: line_index_new_def filter_map o_def less_eq_Suc_le [symmetric] conj_commute)
qed

subsection \<open>Columns\<close>

definition units :: "ustring \<Rightarrow> nat" where
  "units cs = sum_list (map len_utf16 cs)"

lemma len_utf16_bounds: "1 \<le> len_utf16 c" "len_utf16 c \<le> 2"
  by (simp_all add: len_utf16_def)

lemma units_le: "units cs \<le> 2 * length cs"
  by (induction cs) (simp_all add: units_def len_utf16_def)

lemma fold_units:
  "n + units cs < 2 ^ 32 \<Longrightarrow> fold (\<lambda>c n. as_u32 (n + len_utf16 c)) cs n = n + units cs"
  by (induction cs arbitrary: n) (simp_all add: units_def as_u32_def)

lemma count_units_reach:
  assumes "offset \<le> stop" "stop \<le> fin" "fin \<le> length cs" "2 * length cs < 2 ^ 32"
    and "u = units (take (offset - start) (drop start cs))" "start \<le> offset"
    and "target = units (take (stop - start) (drop start cs))"
  shows "count_units cs fin target offset u = stop"
  using assms
proof (induction "stop - offset" arbitrary: offset u)
  case 0
  then show ?case by (simp add: count_units.simps)
next
  case (Suc n)
  have step: "take (Suc offset - start) (drop start cs) = take (offset - start) (drop start cs) @ [cs ! offset]"
    using Suc.hyps(2) Suc.prems by (simp add: Suc_diff_le take_Suc_conv_app_nth)
  have u: "units (take (Suc offset - start) (drop start cs)) = u + len_utf16 (cs ! offset)"
    using Suc.prems by (simp add: step units_def)
  have "take (stop - start) (drop start cs) = take (Suc offset - start) (drop start cs) @
      take (stop - Suc offset) (drop (Suc offset) cs)"
    using Suc.hyps(2) Suc.prems take_add [of "Suc offset - start" "stop - Suc offset" "drop start cs"] by simp
  then have t: "u + len_utf16 (cs ! offset) \<le> target"
    using Suc.prems u by (simp add: units_def)
  have "target \<le> 2 * length cs"
    using units_le [of "take (stop - start) (drop start cs)"] Suc.prems by simp
  with t have "as_u32 (u + len_utf16 (cs ! offset)) = u + len_utf16 (cs ! offset)"
    using Suc.prems by (simp add: as_u32_def)
  moreover have "count_units cs fin target (Suc offset) (u + len_utf16 (cs ! offset)) = stop"
    using Suc.hyps(2) Suc.prems u by (intro Suc.hyps(1)) simp_all
  moreover have "u < target" using t len_utf16_bounds(1) [of "cs ! offset"] by linarith
  ultimately show ?case
    using Suc.hyps(2) Suc.prems by (subst count_units.simps) simp
qed

text \<open>
  C34. Positions are exact and can be taken back: in a text of fewer than two to the 31 characters the position of an
  offset has the number of line ends before it as its line and the 16-bit units since the start of the
  line as its column, and it leads back to the offset, clamped to the text.
\<close>

theorem position_roundtrip:
  assumes "length src < 2 ^ 31"
  shows "to_char_offset (line_index_new src) (to_lsp (line_index_new src) offset) = min offset (length src) \<and>
    lp_line (to_lsp (line_index_new src) offset) = length (filter (\<lambda>c. c = ch_nl) (take offset src))"
proof -
  define S where "S = li_starts (line_index_new src)"
  define x where "x = min offset (length src)"
  define k where "k = line_of (line_index_new src) x"
  have k: "k < length S" "S ! k \<le> x" "k + 1 < length S \<Longrightarrow> x < S ! (k + 1)"
    unfolding k_def S_def
    by (rule line_of_bounds [OF refl starts_ascend starts_0(2,1)]; assumption)+
  have len: "length S \<le> Suc (length src)"
    unfolding S_def line_index_new_def by (simp add: le_trans [OF length_filter_le])
  have c: "li_chars (line_index_new src) = src" by (simp add: line_index_new_def)
  have u: "units (take (x - S ! k) (drop (S ! k) src)) < 2 ^ 32"
    using units_le [of "take (x - S ! k) (drop (S ! k) src)"] assms by simp
  define fin where "fin = (if k + 1 < length S then S ! (k + 1) - 1 else length src)"
  have to: "to_lsp (line_index_new src) offset =
      \<lparr>lp_line = k, lp_char = units (take (x - S ! k) (drop (S ! k) src))\<rparr>"
    using u k(1) len assms fold_units [of 0 "take (x - S ! k) (drop (S ! k) src)"]
    by (simp add: to_lsp_def Let_def c x_def [symmetric] k_def [symmetric] S_def [symmetric] as_u32_def)
  have fin: "fin \<le> length src" "x \<le> fin"
    using k starts_bounds [of "S ! (k + 1)" src] nth_mem [of "k + 1" S] by (auto simp: fin_def S_def x_def)
  have m: "min k (length S - 1) = k" using k(1) by simp
  have "count_units src fin (units (take (x - S ! k) (drop (S ! k) src))) (S ! k) 0 = x"
    using k(2) fin assms
    by (intro count_units_reach [where start = "S ! k"]) (simp_all add: units_def)
  then have "to_char_offset (line_index_new src) (to_lsp (line_index_new src) offset) = x"
    unfolding to Let_def to_char_offset_def lsp_position.select_convs c S_def [symmetric] m fin_def [symmetric] .
  moreover have "k = length (filter (\<lambda>c. c = ch_nl) (take x src))"
    using filter_ascending [OF starts_ascend, of k src x] starts_before [of x src] k
    by (simp add: S_def x_def)
  ultimately show ?thesis
    using to by (simp add: x_def min_def)
qed

lemma position_roundtrip_witness:
  "to_char_offset (line_index_new [128512, 120, 10, 121]) (to_lsp (line_index_new [128512, 120, 10, 121]) 3) = 3 \<and>
   lp_line (to_lsp (line_index_new [128512, 120, 10, 121]) 3) = 1"
  using position_roundtrip [of "[128512, 120, 10, 121]" 3] by simp

end
