(* ===== verification/Calendar.thy ===== *)
theory Calendar
  imports Prelude
begin

text \<open>
  Dates and times of the runtime (\<open>std_lib/src/datetime.rs\<close>, \<open>unix_to_ymd_hms\<close> of \<open>std_lib/src/time.rs\<close>).
  The numbers are the values of \<open>i64\<close>s: every operation that can leave the range is checked, and \<open>None\<close> is
  the overflow, which panics in a build with overflow checks and wraps in one without; where the result is \<open>Some\<close>, both
  builds compute it. Division is the one of the source, towards zero. The entry points take a time as an
  \<open>f64\<close> and truncate it; the functions here take the truncated count, and their results are exact as an
  \<open>f64\<close> below two to the 53. Texts are given as their bytes, already trimmed.
\<close>

definition is_leap :: "int \<Rightarrow> bool" where
  "is_leap year \<longleftrightarrow> (year smod 4 = 0 \<and> year smod 100 \<noteq> 0) \<or> year smod 400 = 0"

definition days_in_month :: "int \<Rightarrow> int \<Rightarrow> int" where
  "days_in_month year month =
     (if month \<in> {1, 3, 5, 7, 8, 10, 12} then 31
      else if month \<in> {4, 6, 9, 11} then 30
      else if month = 2 then (if is_leap year then 29 else 28)
      else 30)"

text \<open>The result of an operation on \<open>i64\<close>s.\<close>

definition i64_op :: "int \<Rightarrow> int option" where
  "i64_op n = (if in_i64 n then Some n else None)"

definition ymd_to_unix :: "int \<Rightarrow> int \<Rightarrow> int \<Rightarrow> int \<Rightarrow> int \<Rightarrow> int \<Rightarrow> int option" where
  "ymd_to_unix year month day h mn sec = do {
     m \<leftarrow> i64_op (if month \<le> 2 then month + 9 else month - 3);
     y \<leftarrow> i64_op (if month \<le> 2 then year - 1 else year);
     y1 \<leftarrow> i64_op (if y \<ge> 0 then y else y - 399);
     let era = y1 sdiv 400;
     y400 \<leftarrow> i64_op (era * 400);
     yoe \<leftarrow> i64_op (y - y400);
     m153 \<leftarrow> i64_op (153 * m);
     m2 \<leftarrow> i64_op (m153 + 2);
     doy1 \<leftarrow> i64_op (m2 sdiv 5 + day);
     doy \<leftarrow> i64_op (doy1 - 1);
     y365 \<leftarrow> i64_op (yoe * 365);
     y4 \<leftarrow> i64_op (y365 + yoe sdiv 4);
     y100 \<leftarrow> i64_op (y4 - yoe sdiv 100);
     doe \<leftarrow> i64_op (y100 + doy);
     eras \<leftarrow> i64_op (era * 146097);
     days1 \<leftarrow> i64_op (eras + doe);
     days \<leftarrow> i64_op (days1 - 719468);
     t \<leftarrow> i64_op (days * 86400);
     t1 \<leftarrow> i64_op (h * 3600);
     t2 \<leftarrow> i64_op (t + t1);
     t3 \<leftarrow> i64_op (mn * 60);
     t4 \<leftarrow> i64_op (t2 + t3);
     i64_op (t4 + sec) }"

definition unix_to_ymd_hms :: "int \<Rightarrow> (int \<times> int \<times> int \<times> int \<times> int \<times> int) option" where
  "unix_to_ymd_hms ts = do {
     let sec = ts mod 86400;
     let h = sec sdiv 3600;
     let m = (sec smod 3600) sdiv 60;
     let s = sec smod 60;
     d0 \<leftarrow> i64_op (if ts < 0 \<and> ts smod 86400 \<noteq> 0 then ts sdiv 86400 - 1 else ts sdiv 86400);
     d \<leftarrow> i64_op (d0 + 719468);
     d1 \<leftarrow> i64_op (if d \<ge> 0 then d else d - 146096);
     let era = d1 sdiv 146097;
     eras \<leftarrow> i64_op (era * 146097);
     doe \<leftarrow> i64_op (d - eras);
     e1 \<leftarrow> i64_op (doe - doe sdiv 1460);
     e2 \<leftarrow> i64_op (e1 + doe sdiv 36524);
     e3 \<leftarrow> i64_op (e2 - doe sdiv 146096);
     let yoe = e3 sdiv 365;
     y400 \<leftarrow> i64_op (era * 400);
     y \<leftarrow> i64_op (yoe + y400);
     y365 \<leftarrow> i64_op (365 * yoe);
     y4 \<leftarrow> i64_op (y365 + yoe sdiv 4);
     y100 \<leftarrow> i64_op (y4 - yoe sdiv 100);
     doy \<leftarrow> i64_op (doe - y100);
     doy5 \<leftarrow> i64_op (5 * doy);
     doy2 \<leftarrow> i64_op (doy5 + 2);
     let mp = doy2 sdiv 153;
     m153 \<leftarrow> i64_op (153 * mp);
     m2 \<leftarrow> i64_op (m153 + 2);
     day1 \<leftarrow> i64_op (doy - m2 sdiv 5);
     day \<leftarrow> i64_op (day1 + 1);
     month \<leftarrow> i64_op (if mp < 10 then mp + 3 else mp - 9);
     year \<leftarrow> i64_op (if month \<le> 2 then y + 1 else y);
     Some (year, month, day, h, m, s) }"

definition day_of_week :: "int \<Rightarrow> int option" where
  "day_of_week ts = do {
     t \<leftarrow> i64_op (if ts \<ge> 0 then ts else ts - 86399);
     d \<leftarrow> i64_op (t sdiv 86400 + 3);
     Some (d mod 7) }"

subsection \<open>Reading a date\<close>

type_synonym bytes = "nat list"

definition byte :: "char \<Rightarrow> nat" where
  "byte c = of_char c"

definition ascii_digit :: "nat \<Rightarrow> bool" where
  "ascii_digit b \<longleftrightarrow> 48 \<le> b \<and> b \<le> 57"

definition ascii_space :: "nat \<Rightarrow> bool" where
  "ascii_space b \<longleftrightarrow> b \<in> {32, 9, 10, 12, 13}"

definition digits_at :: "bytes \<Rightarrow> nat \<Rightarrow> nat \<Rightarrow> int option" where
  "digits_at bs i width =
     (if i + width > length bs then None
      else foldl (\<lambda>v b. case v of None \<Rightarrow> None
                        | Some n \<Rightarrow> if ascii_digit b then Some (n * 10 + int (b - 48)) else None)
             (Some 0) (take width (drop i bs)))"

definition parse_tz_suffix :: "bytes \<Rightarrow> int" where
  "parse_tz_suffix s0 =
     (let s = rev (dropWhile ascii_space (rev (dropWhile ascii_space s0))) in
      if s = [] then 0
      else if s = [byte CHR ''Z''] \<or> s = [byte CHR ''z''] then 0
      else if hd s \<noteq> byte CHR ''+'' \<and> hd s \<noteq> byte CHR ''-'' then 0
      else
        (let sign = (if hd s = byte CHR ''+'' then 1 else -1);
             rest = tl s;
             hh = (if length rest \<ge> 2 then case_option 0 id (digits_at rest 0 2) else 0);
             mm = (if length rest \<ge> 5 then case_option 0 id (digits_at rest 3 2) else 0)
         in sign * (hh * 3600 + mm * 60)))"

text \<open>The time of day and the offset of the zone, when there is text after the date.\<close>

definition parse_clock :: "bytes \<Rightarrow> (int \<times> int \<times> int \<times> int) option" where
  "parse_clock b =
     (if length b > 10
      then (if b ! 10 \<noteq> byte CHR ''T'' \<and> b ! 10 \<noteq> byte CHR '' '' then None
            else if length b < 19 then None
            else do {
              h \<leftarrow> digits_at b 11 2;
              (if b ! 13 \<noteq> byte CHR '':'' then None else do {
                mn \<leftarrow> digits_at b 14 2;
                (if b ! 16 \<noteq> byte CHR '':'' then None else do {
                  sec \<leftarrow> digits_at b 17 2;
                  Some (h, mn, sec, if length b > 19 then parse_tz_suffix (drop 19 b) else 0) }) }) })
      else Some (0, 0, 0, 0))"

definition parse_datetime :: "bytes \<Rightarrow> int option" where
  "parse_datetime b =
     (if length b < 10 then None
      else do {
        year \<leftarrow> digits_at b 0 4;
        (if b ! 4 \<noteq> byte CHR ''-'' then None else do {
          month \<leftarrow> digits_at b 5 2;
          (if b ! 7 \<noteq> byte CHR ''-'' then None else do {
            day \<leftarrow> digits_at b 8 2;
            (h, mn, sec, tz) \<leftarrow> parse_clock b;
            ts \<leftarrow> ymd_to_unix year month day h mn sec;
            i64_op (ts - tz) }) }) })"

subsection \<open>Moving in the calendar\<close>

definition add_months :: "int \<Rightarrow> int \<Rightarrow> int option" where
  "add_months ts months = do {
     (year, month, day, h, mn, sec) \<leftarrow> unix_to_ymd_hms ts;
     month1 \<leftarrow> i64_op (month + months);
     m \<leftarrow> i64_op (month1 - 1);
     year1 \<leftarrow> i64_op (year + m sdiv 12);
     let month2 = m mod 12 + 1;
     ymd_to_unix year1 month2 (min day (days_in_month year1 month2)) h mn sec }"

definition add_years :: "int \<Rightarrow> int \<Rightarrow> int option" where
  "add_years ts years = do {
     (year, month, day, h, mn, sec) \<leftarrow> unix_to_ymd_hms ts;
     year1 \<leftarrow> i64_op (year + years);
     ymd_to_unix year1 month (min day (days_in_month year1 month)) h mn sec }"

definition start_of_day :: "int \<Rightarrow> int option" where
  "start_of_day ts = do {
     (year, month, day, _) \<leftarrow> unix_to_ymd_hms ts;
     ymd_to_unix year month day 0 0 0 }"

definition end_of_day :: "int \<Rightarrow> int option" where
  "end_of_day ts = do {
     (year, month, day, _) \<leftarrow> unix_to_ymd_hms ts;
     ymd_to_unix year month day 23 59 59 }"

definition start_of_month :: "int \<Rightarrow> int option" where
  "start_of_month ts = do {
     (year, month, _) \<leftarrow> unix_to_ymd_hms ts;
     ymd_to_unix year month 1 0 0 0 }"

subsection \<open>The same computations on unbounded integers\<close>

definition date_seconds :: "int \<Rightarrow> int \<Rightarrow> int \<Rightarrow> int \<Rightarrow> int \<Rightarrow> int \<Rightarrow> int" where
  "date_seconds year month day h mn sec =
     (let m = (if month \<le> 2 then month + 9 else month - 3);
          y = (if month \<le> 2 then year - 1 else year);
          era = (if y \<ge> 0 then y else y - 399) sdiv 400;
          yoe = y - era * 400;
          doy = (153 * m + 2) sdiv 5 + day - 1;
          doe = yoe * 365 + yoe sdiv 4 - yoe sdiv 100 + doy;
          days = era * 146097 + doe - 719468
      in days * 86400 + h * 3600 + mn * 60 + sec)"

definition second_date :: "int \<Rightarrow> int \<times> int \<times> int \<times> int \<times> int \<times> int" where
  "second_date ts =
     (let sec = ts mod 86400;
          h = sec sdiv 3600;
          m = (sec smod 3600) sdiv 60;
          s = sec smod 60;
          d0 = (if ts < 0 \<and> ts smod 86400 \<noteq> 0 then ts sdiv 86400 - 1 else ts sdiv 86400);
          d = d0 + 719468;
          era = (if d \<ge> 0 then d else d - 146096) sdiv 146097;
          doe = d - era * 146097;
          yoe = (doe - doe sdiv 1460 + doe sdiv 36524 - doe sdiv 146096) sdiv 365;
          y = yoe + era * 400;
          doy = doe - (365 * yoe + yoe sdiv 4 - yoe sdiv 100);
          mp = (5 * doy + 2) sdiv 153;
          day = doy - (153 * mp + 2) sdiv 5 + 1;
          month = (if mp < 10 then mp + 3 else mp - 9);
          year = (if month \<le> 2 then y + 1 else y)
      in (year, month, day, h, m, s))"

subsection \<open>Years that start in March\<close>

text \<open>
  The days before the first of March of the year \<open>y\<close> of an era of 400 years, and the year of an era
  that a day belongs to, as the source computes it.
\<close>

definition era_start :: "int \<Rightarrow> int" where
  "era_start y = y * 365 + y div 4 - y div 100"

definition era_year :: "int \<Rightarrow> int" where
  "era_year n = (n - n div 1460 + n div 36524 - n div 146096) div 365"

lemma sdiv_pos: "0 \<le> a \<Longrightarrow> 0 < b \<Longrightarrow> a sdiv b = a div b" for a b :: int
  by (simp add: signed_divide_int_def sgn_if)

lemma smod_pos: "0 \<le> a \<Longrightarrow> 0 < b \<Longrightarrow> a smod b = a mod b" for a b :: int
  by (simp add: smod_int_alt_def sgn_if)

lemma era_parts:
  fixes c q r k :: int
  assumes "0 \<le> c" "c \<le> 3" "0 \<le> q" "q \<le> 24" "0 \<le> r" "r \<le> 3" "0 \<le> k"
    and k: "k \<le> 364 \<or> (k = 365 \<and> r = 3 \<and> (q < 24 \<or> c = 3))"
  defines "n \<equiv> 36524 * c + 1461 * q + 365 * r + k"
  shows "era_year n = 100 * c + 4 * q + r" "0 \<le> n" "n \<le> 146096"
proof -
  define e where "e = (if 24 * c + q + 365 * r + k \<ge> 1460 then 1 else 0 :: int)"
  define b where "b = (if n = 146096 then 1 else 0 :: int)"
  show n: "0 \<le> n" "n \<le> 146096" using assms by (auto simp: n_def)
  have e: "n div 1460 = 25 * c + q + e"
    using assms by (intro int_div_pos_eq [where r = "24 * c + q + 365 * r + k - 1460 * e"]) (auto simp: e_def n_def)
  have last: "n = 146096 \<longleftrightarrow> c = 3 \<and> q = 24 \<and> r = 3 \<and> k = 365"
    using assms(1-8) unfolding n_def by (smt (verit, best))
  have "36524 * c \<le> n" "n < 36524 * c + 36524" if "n \<noteq> 146096"
    using assms(1-7) k that last unfolding n_def by (smt (verit, best))+
  then have B: "n div 36524 = c + b"
  proof (cases "n = 146096")
    case True
    with last show ?thesis by (simp add: b_def)
  next
    case False
    with \<open>_ \<Longrightarrow> n < 36524 * c + 36524\<close> \<open>_ \<Longrightarrow> 36524 * c \<le> n\<close> show ?thesis
      by (intro int_div_pos_eq [where r = "n - 36524 * c"]) (simp_all add: b_def)
  qed
  have C: "n div 146096 = b"
    using n by (auto simp: b_def)
  have k': "0 \<le> k - e" "k - e \<le> 364" using assms by (auto simp: e_def)
  have "n - n div 1460 + n div 36524 - n div 146096 = 365 * (100 * c + 4 * q + r) + (k - e)"
    unfolding e B C by (simp add: n_def)
  then show "era_year n = 100 * c + 4 * q + r"
    unfolding era_year_def using k' by (simp add: int_div_pos_eq)
qed

text \<open>Every day of an era lies in one year, and the days of a year are counted from its start.\<close>

lemma era_start_parts:
  fixes c q r :: int
  assumes "0 \<le> q" "q \<le> 24" "0 \<le> r" "r \<le> 3"
  shows "era_start (100 * c + 4 * q + r) = 36524 * c + 1461 * q + 365 * r"
proof -
  have "(100 * c + 4 * q + r) div 4 = 25 * c + q"
    using assms by (intro int_div_pos_eq [where r = r]) auto
  moreover have "(100 * c + 4 * q + r) div 100 = c"
    using assms by (intro int_div_pos_eq [where r = "4 * q + r"]) auto
  ultimately show ?thesis by (simp add: era_start_def)
qed

lemma year_parts:
  fixes y :: int
  assumes "0 \<le> y" "y < 400"
  obtains c q r where "y = 100 * c + 4 * q + r" "0 \<le> c" "c \<le> 3" "0 \<le> q" "q \<le> 24" "0 \<le> r" "r \<le> 3"
proof
  show "y = 100 * (y div 100) + 4 * (y mod 100 div 4) + y mod 100 mod 4" by presburger
qed (use assms in presburger)+

text \<open>A year counted from March is long when the February at its end has 29 days.\<close>

definition long_year :: "int \<Rightarrow> bool" where
  "long_year y \<longleftrightarrow> (y + 1) mod 4 = 0 \<and> ((y + 1) mod 100 \<noteq> 0 \<or> (y + 1) mod 400 = 0)"

lemma long_year_parts:
  fixes c q r :: int
  assumes "0 \<le> c" "c \<le> 3" "0 \<le> q" "q \<le> 24" "0 \<le> r" "r \<le> 3"
  shows "long_year (100 * c + 4 * q + r) \<longleftrightarrow> r = 3 \<and> (q < 24 \<or> c = 3)"
proof -
  have "100 * c + 4 * q + r + 1 = (r + 1) + (25 * c + q) * 4" by simp
  then have "(100 * c + 4 * q + r + 1) mod 4 = (r + 1) mod 4" by (metis mod_mult_self1)
  also have "\<dots> = 0 \<longleftrightarrow> r = 3" using assms(5,6) by presburger
  finally have 4: "(100 * c + 4 * q + r + 1) mod 4 = 0 \<longleftrightarrow> r = 3" .
  have "100 * c + 4 * q + 3 + 1 = 4 * (q + 1) + c * 100" by simp
  then have "(100 * c + 4 * q + 3 + 1) mod 100 = (4 * (q + 1)) mod 100" by (metis mod_mult_self1)
  also have "\<dots> = 0 \<longleftrightarrow> q = 24" using assms(3,4) by presburger
  finally have 100: "(100 * c + 4 * q + 3 + 1) mod 100 = 0 \<longleftrightarrow> q = 24" .
  have 400: "(100 * c + 4 * 24 + 3 + 1) mod 400 = 0 \<longleftrightarrow> c = 3" using assms(1,2) by presburger
  have 40: "(100 * c + 4 * q + 3 + 1) mod 400 = 0 \<Longrightarrow> (100 * c + 4 * q + 3 + 1) mod 100 = 0"
    using mod_mod_cancel [of 100 400 "100 * c + 4 * q + 3 + 1"] by simp
  show ?thesis
    unfolding long_year_def 4 using 100 400 40 assms(4) by auto
qed

lemma era_year_of_day:
  assumes "0 \<le> y" "y < 400" "0 \<le> k" "k \<le> (if long_year y then 365 else 364)"
  shows "era_year (era_start y + k) = y" "0 \<le> era_start y + k" "era_start y + k \<le> 146096"
proof -
  obtain c q r where p: "y = 100 * c + 4 * q + r" "0 \<le> c" "c \<le> 3" "0 \<le> q" "q \<le> 24" "0 \<le> r" "r \<le> 3"
    using year_parts [OF assms(1,2)] .
  have k: "k \<le> 364 \<or> (k = 365 \<and> r = 3 \<and> (q < 24 \<or> c = 3))"
    using assms(4) long_year_parts [OF p(2-7)] unfolding p(1) by (auto split: if_splits)
  show "era_year (era_start y + k) = y" "0 \<le> era_start y + k" "era_start y + k \<le> 146096"
    using era_parts [OF p(2-7) assms(3) k] era_start_parts [OF p(4-7), of c] p(1) by simp_all
qed

lemma split_at:
  fixes n b t :: int
  assumes "0 < b" "0 \<le> n" "n \<le> b * (t + 1)" "0 \<le> t"
  obtains c where "0 \<le> c" "c \<le> t" "0 \<le> n - b * c" "n - b * c \<le> b" "n - b * c = b \<longrightarrow> c = t"
proof (cases "n div b \<le> t")
  case True
  have "n - b * (n div b) = n mod b" by (simp add: minus_mult_div_eq_mod)
  moreover have "0 \<le> n mod b" "n mod b < b" using assms(1) by simp_all
  moreover have "n mod b \<noteq> b" using pos_mod_bound [OF assms(1), of n] by linarith
  ultimately show ?thesis
    using that [of "n div b"] True assms(1,2) by (simp add: pos_imp_zdiv_nonneg_iff less_imp_le)
next
  case False
  then have "b * (t + 1) \<le> b * (n div b)" using assms(1) by (intro mult_left_mono) auto
  also have "\<dots> \<le> n" using mult_div_mod_eq [of b n] pos_mod_sign [OF assms(1), of n] by linarith
  finally have "n - b * t = b" using assms(3) by (simp add: algebra_simps)
  then show ?thesis using that [of t] assms(1,4) by simp
qed

lemma day_has_year:
  assumes "0 \<le> n" "n \<le> 146096"
  obtains y k where "n = era_start y + k" "0 \<le> y" "y < 400" "0 \<le> k" "k \<le> (if long_year y then 365 else 364)"
proof -
  obtain c where c: "0 \<le> c" "c \<le> 3" "0 \<le> n - 36524 * c" "n - 36524 * c \<le> 36524" "n - 36524 * c = 36524 \<longrightarrow> c = 3"
    using split_at [of 36524 n 3] assms by auto
  define m where "m = n - 36524 * c"
  obtain q where q: "0 \<le> q" "q \<le> 24" "0 \<le> m - 1461 * q" "m - 1461 * q \<le> 1461" "m - 1461 * q = 1461 \<longrightarrow> q = 24"
    using split_at [of 1461 m 24] c by (auto simp: m_def)
  define l where "l = m - 1461 * q"
  have l: "0 \<le> l" "l \<le> 1460" "l = 1460 \<longrightarrow> q < 24 \<or> c = 3"
    using c q unfolding l_def m_def by auto
  obtain r where r: "0 \<le> r" "r \<le> 3" "0 \<le> l - 365 * r" "l - 365 * r \<le> 365" "l - 365 * r = 365 \<longrightarrow> r = 3"
    using split_at [of 365 l 3] l by auto
  show ?thesis
  proof
    show "n = era_start (100 * c + 4 * q + r) + (l - 365 * r)"
      using era_start_parts [OF q(1,2) r(1,2)] by (simp add: l_def m_def)
    show "l - 365 * r \<le> (if long_year (100 * c + 4 * q + r) then 365 else 364)"
      unfolding long_year_parts [OF c(1,2) q(1,2) r(1,2)] using r l by auto
  qed (use c q r in auto)
qed

subsection \<open>Dates and seconds\<close>

lemma floor_sdiv:
  fixes a b c :: int
  assumes "0 < b" "c = b - 1"
  shows "(if a \<ge> 0 then a else a - c) sdiv b = a div b"
proof (cases "a \<ge> 0")
  case False
  have "(a - c) sdiv b = - ((b - 1 - a) div b)"
    using False assms by (simp add: signed_divide_int_def abs_if)
  also have "(b - 1 - a) div b = - (a div b)"
  proof (rule int_div_pos_eq [where r = "b - 1 - a mod b"])
    show "b - 1 - a = b * (- (a div b)) + (b - 1 - a mod b)"
      using mult_div_mod_eq [of b a] by (simp add: algebra_simps)
  qed (use assms pos_mod_bound [of b a] pos_mod_sign [of b a] in \<open>auto simp del: pos_mod_bound pos_mod_sign\<close>)
  finally show ?thesis using False by simp
qed (simp add: sdiv_pos assms)

text \<open>The months counted from March, as they follow from the day of the year and the other way round.\<close>

definition month_start :: "int \<Rightarrow> int" where
  "month_start mp = (153 * mp + 2) div 5"

definition month_length :: "int \<Rightarrow> int" where
  "month_length mp = (if mp \<in> {1, 3, 6, 8} then 30 else if mp = 11 then 29 else 31)"

lemma month_cases:
  "0 \<le> mp \<Longrightarrow> mp \<le> 11 \<Longrightarrow> mp = 0 \<or> mp = 1 \<or> mp = 2 \<or> mp = 3 \<or> mp = 4 \<or> mp = 5 \<or> mp = 6 \<or>
   mp = 7 \<or> mp = 8 \<or> mp = 9 \<or> mp = 10 \<or> mp = 11" for mp :: int
  by presburger

lemma month_of_day:
  assumes "0 \<le> mp" "mp \<le> 11" "1 \<le> day" "day \<le> month_length mp"
  shows "(5 * (month_start mp + day - 1) + 2) div 153 = mp" "0 \<le> month_start mp + day - 1"
proof -
  have "0 \<le> 5 * (month_start mp + day - 1) + 2 - 153 * mp"
    "5 * (month_start mp + day - 1) + 2 - 153 * mp < 153"
    using month_cases [OF assms(1,2)] assms(3,4) by (elim disjE; simp add: month_start_def month_length_def)+
  then show "(5 * (month_start mp + day - 1) + 2) div 153 = mp"
    by (intro int_div_pos_eq [where r = "5 * (month_start mp + day - 1) + 2 - 153 * mp"]) simp_all
  show "0 \<le> month_start mp + day - 1"
    using assms(1,3) by (simp add: month_start_def pos_imp_zdiv_nonneg_iff add_nonneg_nonneg)
qed

lemma day_has_month:
  fixes k :: int
  assumes "0 \<le> k" "k \<le> 365"
  defines "mp \<equiv> (5 * k + 2) div 153"
  shows "0 \<le> mp" "mp \<le> 11" "1 \<le> k - month_start mp + 1" "k - month_start mp + 1 \<le> month_length mp"
    "k < 365 \<Longrightarrow> mp = 11 \<Longrightarrow> k - month_start mp + 1 \<le> 28"
proof -
  have b: "153 * mp \<le> 5 * k + 2" "5 * k + 2 < 153 * mp + 153"
    using mult_div_mod_eq [of 153 "5 * k + 2"] pos_mod_bound [of 153 "5 * k + 2"] pos_mod_sign [of 153 "5 * k + 2"]
    unfolding mp_def by linarith+
  show m: "0 \<le> mp" "mp \<le> 11" using b assms(1,2) by linarith+
  show "1 \<le> k - month_start mp + 1" "k - month_start mp + 1 \<le> month_length mp"
    "k < 365 \<Longrightarrow> mp = 11 \<Longrightarrow> k - month_start mp + 1 \<le> 28"
    using month_cases [OF m] b assms(1,2)
    by (elim disjE; simp add: month_start_def month_length_def)+
qed

subsection \<open>Both directions\<close>

definition valid_date :: "int \<Rightarrow> int \<Rightarrow> int \<Rightarrow> bool" where
  "valid_date year month day \<longleftrightarrow> 1 \<le> month \<and> month \<le> 12 \<and> 1 \<le> day \<and> day \<le> days_in_month year month"

definition valid_time :: "int \<Rightarrow> int \<Rightarrow> int \<Rightarrow> bool" where
  "valid_time h mn sec \<longleftrightarrow> 0 \<le> h \<and> h < 24 \<and> 0 \<le> mn \<and> mn < 60 \<and> 0 \<le> sec \<and> sec < 60"

text \<open>A month of the year and the year that starts in March it lies in.\<close>

definition march_month :: "int \<Rightarrow> int" where
  "march_month month = (if month \<le> 2 then month + 9 else month - 3)"

definition march_year :: "int \<Rightarrow> int \<Rightarrow> int" where
  "march_year year month = (if month \<le> 2 then year - 1 else year)"

definition day_number :: "int \<Rightarrow> int \<Rightarrow> int \<Rightarrow> int" where
  "day_number y mp day = y div 400 * 146097 + era_start (y mod 400) + (month_start mp + day - 1)"

lemma is_leap_mod: "is_leap y \<longleftrightarrow> (y mod 4 = 0 \<and> y mod 100 \<noteq> 0) \<or> y mod 400 = 0"
  by (auto simp: is_leap_def smod_int_alt_def sgn_if abs_if)

lemma date_seconds_eq:
  assumes "1 \<le> month" "month \<le> 12"
  shows "date_seconds year month day h mn sec =
    (day_number (march_year year month) (march_month month) day - 719468) * 86400 + h * 3600 + mn * 60 + sec"
proof -
  define y where "y = march_year year month"
  have m: "0 \<le> 153 * march_month month + 2" using assms by (auto simp: march_month_def)
  have e: "(if y \<ge> 0 then y else y - 399) sdiv 400 = y div 400"
    by (rule floor_sdiv) simp_all
  have r: "y - y div 400 * 400 = y mod 400" by (simp add: minus_div_mult_eq_mod)
  have p: "y mod 400 sdiv 4 = y mod 400 div 4" "y mod 400 sdiv 100 = y mod 400 div 100"
    by (simp_all add: sdiv_pos)
  show ?thesis
    unfolding date_seconds_def Let_def march_year_def [symmetric] march_month_def [symmetric] y_def [symmetric]
      e r p sdiv_pos [OF m, of 5, simplified]
    by (simp add: day_number_def era_start_def month_start_def)
qed

lemma floor_days: "(if ts < 0 \<and> ts smod 86400 \<noteq> 0 then ts sdiv 86400 - 1 else ts sdiv 86400) = ts div 86400" for ts :: int
proof (cases "0 \<le> ts")
  case False
  then show ?thesis
    using zdiv_zminus1_eq_if [of 86400 "- ts"] zmod_zminus1_eq_if [of "- ts" 86400]
    by (auto simp: signed_divide_int_def smod_int_alt_def sgn_if abs_if)
qed (simp add: sdiv_pos)

text \<open>The parts of a time are those of its day and of its second in the day.\<close>

lemma second_date_eq:
  assumes d: "ts div 86400 + 719468 = era * 146097 + era_start y + k"
    and y: "0 \<le> y" "y < 400" "0 \<le> k" "k \<le> (if long_year y then 365 else 364)"
  defines "mp \<equiv> (5 * k + 2) div 153"
  defines "month \<equiv> (if mp < 10 then mp + 3 else mp - 9)"
  defines "sec \<equiv> ts mod 86400"
  shows "second_date ts =
     (if month \<le> 2 then y + era * 400 + 1 else y + era * 400, month, k - month_start mp + 1,
      sec div 3600, sec mod 3600 div 60, sec mod 60)"
proof -
  define n where "n = era_start y + k"
  have n: "era_year n = y" "0 \<le> n" "n \<le> 146096"
    using era_year_of_day [OF y] by (simp_all add: n_def)
  define d where "d = ts div 86400 + 719468"
  have dn: "d = 146097 * era + n" using d by (simp add: d_def n_def)
  then have "d div 146097 = era" using n by (intro int_div_pos_eq [where r = n]) auto
  then have e: "(if d \<ge> 0 then d else d - 146096) sdiv 146097 = era"
    using floor_sdiv [of 146097 146096 d] by simp
  have "n div 1460 \<le> n" "n div 146096 \<le> n div 36524" "0 \<le> n div 36524"
    using n by (auto simp: pos_imp_zdiv_nonneg_iff)
  then have yoe: "(n - n sdiv 1460 + n sdiv 36524 - n sdiv 146096) sdiv 365 = y"
    using n by (simp add: sdiv_pos era_year_def)
  have doy: "n - (365 * y + y sdiv 4 - y sdiv 100) = k"
    using y by (simp add: n_def era_start_def sdiv_pos)
  have mp: "(5 * k + 2) sdiv 153 = mp" "0 \<le> mp"
    using y by (simp_all add: mp_def sdiv_pos pos_imp_zdiv_nonneg_iff)
  have ms: "(153 * mp + 2) sdiv 5 = month_start mp"
    using mp by (simp add: month_start_def sdiv_pos)
  have s: "sec sdiv 3600 = sec div 3600" "sec smod 3600 = sec mod 3600" "sec smod 60 = sec mod 60"
    "sec mod 3600 sdiv 60 = sec mod 3600 div 60"
    by (simp_all add: sec_def sdiv_pos smod_pos)
  have nd: "d - era * 146097 = n" using dn by simp
  show ?thesis
    unfolding second_date_def Let_def floor_days sec_def [symmetric] d_def [symmetric] e nd yoe doy mp(1) ms s
      month_def [symmetric] ..
qed

text \<open>A date is valid exactly when its day is one of its month counted from March.\<close>

lemma valid_date_march:
  fixes year month day :: int
  assumes "1 \<le> month" "month \<le> 12"
  defines "y \<equiv> march_year year month" and "mp \<equiv> march_month month"
  shows "0 \<le> mp" "mp \<le> 11" "day \<le> days_in_month year month \<longleftrightarrow>
    day \<le> (if mp = 11 then (if long_year (y mod 400) then 29 else 28) else month_length mp)"
proof -
  have "((y mod 400) + 1) mod m = (y + 1) mod m" if "m dvd 400" for m
    using mod_add_left_eq [of "y mod 400" m 1] mod_add_left_eq [of y m 1] mod_mod_cancel [OF that, of y] by simp
  then have "long_year (y mod 400) = long_year y" by (simp add: long_year_def)
  moreover have "long_year y \<longleftrightarrow> is_leap year" if "month = 2"
    using that by (auto simp: y_def march_year_def long_year_def is_leap_mod)
  moreover have "month = 1 \<or> month = 2 \<or> month = 3 \<or> month = 4 \<or> month = 5 \<or> month = 6 \<or> month = 7 \<or>
      month = 8 \<or> month = 9 \<or> month = 10 \<or> month = 11 \<or> month = 12"
    using assms(1,2) by presburger
  ultimately show "day \<le> days_in_month year month \<longleftrightarrow>
    day \<le> (if mp = 11 then (if long_year (y mod 400) then 29 else 28) else month_length mp)"
    by (elim disjE) (simp_all add: mp_def march_month_def days_in_month_def month_length_def)
  show "0 \<le> mp" "mp \<le> 11" using assms(1,2) by (auto simp: mp_def march_month_def)
qed

lemma time_parts:
  assumes "valid_time h mn sec"
  defines "t \<equiv> h * 3600 + mn * 60 + sec"
  shows "0 \<le> t" "t < 86400" "t div 3600 = h" "t mod 3600 div 60 = mn" "t mod 60 = sec"
proof -
  show t: "0 \<le> t" "t < 86400" using assms by (auto simp: valid_time_def t_def)
  show h: "t div 3600 = h"
    using assms by (intro int_div_pos_eq [where r = "mn * 60 + sec"]) (auto simp: valid_time_def t_def)
  have "t mod 3600 = mn * 60 + sec" using minus_div_mult_eq_mod [of t 3600] h by (simp add: t_def)
  then show "t mod 3600 div 60 = mn"
    using assms by (auto simp: valid_time_def intro!: int_div_pos_eq [where r = sec])
  show "t mod 60 = sec"
    using assms by (intro int_mod_pos_eq [where q = "h * 60 + mn"]) (auto simp: valid_time_def t_def)
qed

lemma parts_valid: "valid_time (t mod 86400 div 3600) (t mod 86400 mod 3600 div 60) (t mod 86400 mod 60)"
  "t mod 86400 div 3600 * 3600 + t mod 86400 mod 3600 div 60 * 60 + t mod 86400 mod 60 = t mod 86400"
proof -
  define s where "s = t mod 86400"
  have "0 \<le> s" "s < 86400" by (simp_all add: s_def)
  then show "valid_time (t mod 86400 div 3600) (t mod 86400 mod 3600 div 60) (t mod 86400 mod 60)"
    unfolding s_def [symmetric] valid_time_def
    using div_mult_mod_eq [of s 3600] div_mult_mod_eq [of "s mod 3600" 60] pos_mod_bound [of 3600 s]
      pos_mod_sign [of 3600 s] pos_mod_sign [of 60 "s mod 3600"]
    by (auto simp: pos_imp_zdiv_nonneg_iff)
  have "s mod 3600 mod 60 = s mod 60" by (rule mod_mod_cancel) simp
  then show "t mod 86400 div 3600 * 3600 + t mod 86400 mod 3600 div 60 * 60 + t mod 86400 mod 60 = t mod 86400"
    unfolding s_def [symmetric] using div_mult_mod_eq [of s 3600] div_mult_mod_eq [of "s mod 3600" 60] by linarith
qed

lemma date_of_seconds:
  assumes "valid_date year month day" "valid_time h mn sec"
  shows "second_date (date_seconds year month day h mn sec) = (year, month, day, h, mn, sec)"
proof -
  define y where "y = march_year year month"
  define mp where "mp = march_month month"
  define t where "t = h * 3600 + mn * 60 + sec"
  define k where "k = month_start mp + day - 1"
  have m: "1 \<le> month" "month \<le> 12" "1 \<le> day" "day \<le> days_in_month year month"
    using assms(1) by (auto simp: valid_date_def)
  note v = valid_date_march(1,2) [OF m(1,2), folded mp_def]
    valid_date_march(3) [where year = year and month = month and day = day, OF m(1,2), folded y_def mp_def]
  have day: "day \<le> month_length mp" "mp = 11 \<Longrightarrow> day \<le> (if long_year (y mod 400) then 29 else 28)"
    using m(4) v(3) by (auto simp: month_length_def split: if_splits)
  note mk = month_of_day [OF v(1,2) m(3) day(1), folded k_def]
  have "month_start mp \<le> 337 \<and> (mp < 11 \<longrightarrow> month_start mp + month_length mp \<le> 337)"
    using month_cases [OF v(1,2)] by (elim disjE) (simp_all add: month_start_def month_length_def)
  then have k: "k \<le> (if long_year (y mod 400) then 365 else 364)"
    using day v(2) by (cases "mp = 11") (auto simp: k_def month_start_def)
  define ts where "ts = date_seconds year month day h mn sec"
  define q where "q = day_number y mp day - 719468"
  have "ts = 86400 * q + t"
    by (simp add: ts_def date_seconds_eq [OF m(1,2)] y_def mp_def t_def q_def)
  then have "ts div 86400 = q" "ts mod 86400 = t"
    using time_parts(1,2) [OF assms(2), folded t_def]
    by (auto intro: int_div_pos_eq [where r = t] int_mod_pos_eq [where q = q])
  then have ts: "ts div 86400 + 719468 = day_number y mp day" "ts mod 86400 = t"
    by (simp_all add: q_def)
  have d: "ts div 86400 + 719468 = y div 400 * 146097 + era_start (y mod 400) + k"
    by (simp add: ts day_number_def k_def)
  have mo: "(if mp < 10 then mp + 3 else mp - 9) = month"
    using m(1,2) by (auto simp: mp_def march_month_def)
  have "y mod 400 + y div 400 * 400 = y" by simp
  then have yr: "(if month \<le> 2 then y mod 400 + y div 400 * 400 + 1 else y mod 400 + y div 400 * 400) = year"
    by (simp add: y_def march_year_def)
  have "second_date ts = (year, month, k - month_start mp + 1, t div 3600, t mod 3600 div 60, t mod 60)"
    using second_date_eq [OF d _ _ mk(2) k] unfolding mk(1) mo yr ts(2) by simp
  then show ?thesis
    using time_parts(3-5) [OF assms(2), folded t_def] by (simp add: ts_def k_def)
qed

lemma seconds_sum:
  fixes a r :: int
  assumes "a + 719468 = e * 146097 + s + k" "x1 * 3600 + x2 * 60 + x3 = r"
  shows "(e * 146097 + s + (ms + (k - ms + 1) - 1) - 719468) * 86400 + x1 * 3600 + x2 * 60 + x3 = a * 86400 + r"
proof -
  have "e * 146097 + s + (ms + (k - ms + 1) - 1) - 719468 = a" using assms(1) by linarith
  with assms(2) show ?thesis by simp
qed

lemma seconds_of_date:
  "case second_date ts of (year, month, day, h, mn, sec) \<Rightarrow>
     valid_date year month day \<and> valid_time h mn sec \<and> date_seconds year month day h mn sec = ts"
proof -
  define d where "d = ts div 86400 + 719468"
  have "0 \<le> d mod 146097" "d mod 146097 \<le> 146096"
    using pos_mod_bound [of 146097 d] by simp_all
  then obtain y k where n: "d mod 146097 = era_start y + k"
    and yk: "0 \<le> y" "y < 400" "0 \<le> k" "k \<le> (if long_year y then 365 else 364)"
    by (rule day_has_year)
  define era where "era = d div 146097"
  have d: "ts div 86400 + 719468 = era * 146097 + era_start y + k"
    using n div_mult_mod_eq [of d 146097] by (simp add: d_def era_def)
  define mp where "mp = (5 * k + 2) div 153"
  define month where "month = (if mp < 10 then mp + 3 else mp - 9)"
  define year where "year = (if month \<le> 2 then y + era * 400 + 1 else y + era * 400)"
  define day where "day = k - month_start mp + 1"
  have k: "0 \<le> k" "k \<le> 365" using yk by (auto split: if_splits)
  note mk = day_has_month [OF k, folded mp_def]
  have m: "1 \<le> month" "month \<le> 12" using mk(1,2) by (auto simp: month_def)
  have mp: "march_month month = mp" and my: "march_year year month = y + era * 400"
    using mk(1,2) by (auto simp: march_month_def march_year_def month_def year_def)
  have y: "(y + era * 400) mod 400 = y" "(y + era * 400) div 400 = era" using yk by simp_all
  have "day \<le> days_in_month year month"
    unfolding valid_date_march(3) [OF m] mp my y
    using mk yk(4) by (auto simp: day_def month_start_def month_length_def split: if_splits)
  then have v: "valid_date year month day"
    using m mk(3) by (simp add: valid_date_def day_def)
  have "date_seconds year month day (ts mod 86400 div 3600) (ts mod 86400 mod 3600 div 60) (ts mod 86400 mod 60) =
      ts div 86400 * 86400 + ts mod 86400"
    unfolding date_seconds_eq [OF m] mp my day_number_def y
    unfolding day_def by (rule seconds_sum [OF d parts_valid(2)])
  also have "\<dots> = ts" by simp
  finally have t: "date_seconds year month day (ts mod 86400 div 3600) (ts mod 86400 mod 3600 div 60) (ts mod 86400 mod 60) = ts" .
  have "second_date ts = (year, month, day, ts mod 86400 div 3600, ts mod 86400 mod 3600 div 60, ts mod 86400 mod 60)"
    using second_date_eq [OF d yk] unfolding mp_def [symmetric] month_def [symmetric] year_def [symmetric]
      day_def [symmetric] .
  then show ?thesis using v t parts_valid(1) by simp
qed

subsection \<open>No overflow\<close>

lemma i64_op_Some: "- 9223372036854775808 \<le> n \<Longrightarrow> n < 9223372036854775808 \<Longrightarrow> i64_op n = Some n"
  by (simp add: i64_op_def in_i64_def)

lemma ymd_to_unix_Some:
  assumes "0 \<le> month" "month \<le> 99" "0 \<le> day" "day \<le> 99" "\<bar>year\<bar> \<le> 1000000000000"
    and t: "0 \<le> h" "h \<le> 99" "0 \<le> mn" "mn \<le> 99" "0 \<le> sec" "sec \<le> 99"
    and D: "in_i64 (date_seconds year month day 0 0 0)" "in_i64 (date_seconds year month day h mn sec)"
  shows "ymd_to_unix year month day h mn sec = Some (date_seconds year month day h mn sec)"
proof -
  define m where "m = (if month \<le> 2 then month + 9 else month - 3)"
  define y where "y = (if month \<le> 2 then year - 1 else year)"
  define era where "era = y div 400"
  define yoe where "yoe = y - era * 400"
  define md where "md = (153 * m + 2) div 5"
  define q where "q = yoe div 4"
  define c where "c = yoe div 100"
  have m: "0 \<le> m" "m \<le> 96" using assms(1,2) by (auto simp: m_def)
  have y: "\<bar>y\<bar> \<le> 1000000000001" using assms(5) by (auto simp: y_def)
  have e: "(if y \<ge> 0 then y else y - 399) sdiv 400 = era"
    unfolding era_def by (rule floor_sdiv) simp_all
  have yoe: "0 \<le> yoe" "yoe < 400"
    using pos_mod_bound [of 400 y] pos_mod_sign [of 400 y] minus_div_mult_eq_mod [of y 400]
    by (simp_all add: yoe_def era_def)
  have era: "\<bar>era\<bar> \<le> 2500000001" using y yoe unfolding yoe_def by (auto simp: abs_le_iff)
  have md: "(153 * m + 2) sdiv 5 = md" "0 \<le> md" "md \<le> 2940" using m by (simp_all add: md_def sdiv_pos)
  have qc: "yoe sdiv 4 = q" "yoe sdiv 100 = c" "0 \<le> q" "q \<le> 100" "0 \<le> c" "c \<le> 4"
    using yoe by (simp_all add: q_def c_def sdiv_pos)
  define y1 where "y1 = (if y \<ge> 0 then y else y - 399)"
  define doe where "doe = yoe * 365 + q - c + (md + day - 1)"
  define days where "days = era * 146097 + doe - 719468"
  have doe: "- 5 \<le> doe" "doe \<le> 150000" using yoe qc md assms(3,4) by (simp_all add: doe_def)
  have ds: "date_seconds year month day h' mn' sec' = days * 86400 + h' * 3600 + mn' * 60 + sec'" for h' mn' sec'
    unfolding date_seconds_def Let_def m_def [symmetric] y_def [symmetric] e yoe_def [symmetric] md qc days_def doe_def
    by simp
  have w: "- 9223372036854775808 \<le> days * 86400" "days * 86400 \<le> days * 86400 + h * 3600"
    "days * 86400 + h * 3600 \<le> days * 86400 + h * 3600 + mn * 60"
    "days * 86400 + h * 3600 + mn * 60 \<le> days * 86400 + h * 3600 + mn * 60 + sec"
    "days * 86400 + h * 3600 + mn * 60 + sec < 9223372036854775808"
    using D t unfolding ds by (simp_all add: in_i64_def)
  have y1: "\<bar>y1\<bar> \<le> 1000000000400" using y by (auto simp: y1_def)
  note bounds = m y yoe era md(2,3) qc(3-6) doe y1 assms(3,4) t
  have r1: "i64_op (if month \<le> 2 then month + 9 else month - 3) = Some m"
    "i64_op (if month \<le> 2 then year - 1 else year) = Some y" "i64_op (if y \<ge> 0 then y else y - 399) = Some y1"
    unfolding m_def [symmetric] y_def [symmetric] y1_def [symmetric]
    by (rule i64_op_Some; use m y y1 in linarith)+
  have r2: "y1 sdiv 400 = era" "i64_op (era * 400) = Some (era * 400)" "i64_op (y - era * 400) = Some yoe"
    "i64_op (153 * m) = Some (153 * m)" "i64_op (153 * m + 2) = Some (153 * m + 2)"
    "i64_op (md + day) = Some (md + day)" "i64_op (md + day - 1) = Some (md + day - 1)"
    unfolding yoe_def [symmetric] y1_def
    by (rule e; fail | rule i64_op_Some; use bounds in \<open>simp add: abs_le_iff\<close>)+
  have r3: "i64_op (yoe * 365) = Some (yoe * 365)" "i64_op (yoe * 365 + q) = Some (yoe * 365 + q)"
    "i64_op (yoe * 365 + q - c) = Some (yoe * 365 + q - c)" "i64_op (yoe * 365 + q - c + (md + day - 1)) = Some doe"
    "i64_op (era * 146097) = Some (era * 146097)" "i64_op (era * 146097 + doe) = Some (era * 146097 + doe)"
    "i64_op (era * 146097 + doe - 719468) = Some days"
    unfolding doe_def [symmetric] days_def [symmetric]
    by (rule i64_op_Some; use bounds in \<open>simp add: days_def abs_le_iff\<close>)+
  have r4: "i64_op (days * 86400) = Some (days * 86400)" "i64_op (h * 3600) = Some (h * 3600)"
    "i64_op (days * 86400 + h * 3600) = Some (days * 86400 + h * 3600)" "i64_op (mn * 60) = Some (mn * 60)"
    "i64_op (days * 86400 + h * 3600 + mn * 60) = Some (days * 86400 + h * 3600 + mn * 60)"
    "i64_op (days * 86400 + h * 3600 + mn * 60 + sec) = Some (days * 86400 + h * 3600 + mn * 60 + sec)"
    by (rule i64_op_Some; use w t in linarith)+
  show ?thesis
    unfolding ymd_to_unix_def ds by (simp only: r1 r2 r3 r4 md(1) qc(1,2) Let_def bind.bind_lunit)
qed

lemma sdiv_abs: "\<bar>a sdiv b\<bar> \<le> \<bar>a\<bar>" for a b :: int
  using sdiv_int_range [of a b] by auto

lemma unix_to_ymd_hms_Some:
  assumes "in_i64 ts"
  shows "unix_to_ymd_hms ts = Some (second_date ts)"
proof -
  define d0 where "d0 = ts div 86400"
  define d where "d = d0 + 719468"
  define d1 where "d1 = (if d \<ge> 0 then d else d - 146096)"
  define era where "era = d div 146097"
  define doe where "doe = d - era * 146097"
  define a where "a = doe sdiv 1460"
  define b where "b = doe sdiv 36524"
  define c where "c = doe sdiv 146096"
  define yoe where "yoe = (doe - a + b - c) sdiv 365"
  define q where "q = yoe sdiv 4"
  define u where "u = yoe sdiv 100"
  define doy where "doy = doe - (365 * yoe + q - u)"
  define mp where "mp = (5 * doy + 2) sdiv 153"
  define md where "md = (153 * mp + 2) sdiv 5"
  define y where "y = yoe + era * 400"
  define month where "month = (if mp < 10 then mp + 3 else mp - 9)"
  define sec where "sec = ts mod 86400"
  have "- 9223372036854775808 \<le> ts" "ts < 9223372036854775808" using assms by (simp_all add: in_i64_def)
  moreover have "ts = d0 * 86400 + sec" "0 \<le> sec" "sec < 86400" by (simp_all add: d0_def sec_def)
  ultimately have "d0 \<le> 106751991167301" "- 106751991167301 \<le> d0" by linarith+
  then have d0: "\<bar>d0\<bar> \<le> 106751991167301" by simp
  then have d: "\<bar>d\<bar> \<le> 106751991886769" "\<bar>d1\<bar> \<le> 106751992032865" by (auto simp: d_def d1_def)
  have e: "d1 sdiv 146097 = era" unfolding era_def d1_def by (rule floor_sdiv) simp_all
  have doe: "0 \<le> doe" "doe < 146097"
    using pos_mod_bound [of 146097 d] pos_mod_sign [of 146097 d] minus_div_mult_eq_mod [of d 146097]
    by (simp_all add: doe_def era_def)
  have era: "\<bar>era\<bar> \<le> 800000000" using d doe unfolding doe_def by (auto simp: abs_le_iff)
  have abc: "\<bar>a\<bar> \<le> 146097" "\<bar>b\<bar> \<le> 146097" "\<bar>c\<bar> \<le> 146097"
    using sdiv_abs [of doe 1460] sdiv_abs [of doe 36524] sdiv_abs [of doe 146096] doe
    by (simp_all add: a_def b_def c_def)
  have "\<bar>doe - a + b - c\<bar> \<le> 600000" using doe abc by (simp add: abs_le_iff)
  then have yoe: "\<bar>yoe\<bar> \<le> 600000" using sdiv_abs [of "doe - a + b - c" 365] by (simp add: yoe_def)
  then have qu: "\<bar>q\<bar> \<le> 600000" "\<bar>u\<bar> \<le> 600000"
    using sdiv_abs [of yoe 4] sdiv_abs [of yoe 100] by (simp_all add: q_def u_def)
  have doy: "\<bar>doy\<bar> \<le> 300000000" using doe yoe qu by (auto simp: doy_def abs_le_iff)
  then have "\<bar>5 * doy + 2\<bar> \<le> 1500000002" by (simp add: abs_le_iff)
  then have mp: "\<bar>mp\<bar> \<le> 1500000002" using sdiv_abs [of "5 * doy + 2" 153] by (simp add: mp_def)
  then have "\<bar>153 * mp + 2\<bar> \<le> 300000000000" by (simp add: abs_le_iff)
  then have md: "\<bar>md\<bar> \<le> 300000000000" using sdiv_abs [of "153 * mp + 2" 5] by (simp add: md_def)
  have y: "\<bar>y\<bar> \<le> 320000600000" using era yoe by (simp add: y_def abs_le_iff)
  have month: "\<bar>month\<bar> \<le> 1500000011" using mp by (auto simp: month_def abs_le_iff)
  note bounds = d0 d doe era abc yoe qu doy mp md y month
  note fold = d_def [symmetric] d1_def [symmetric] doe_def [symmetric] yoe_def [symmetric] doy_def [symmetric]
    mp_def [symmetric] md_def [symmetric] y_def [symmetric] month_def [symmetric]
    a_def [symmetric] b_def [symmetric] c_def [symmetric] q_def [symmetric] u_def [symmetric]
  have r1: "i64_op d0 = Some d0" "i64_op d = Some d" "i64_op d1 = Some d1"
    "i64_op (era * 146097) = Some (era * 146097)" "i64_op doe = Some doe" "i64_op (doe - a) = Some (doe - a)"
    "i64_op (doe - a + b) = Some (doe - a + b)" "i64_op (doe - a + b - c) = Some (doe - a + b - c)"
    "i64_op (era * 400) = Some (era * 400)" "i64_op y = Some y"
    by (rule i64_op_Some; use bounds in \<open>simp add: abs_le_iff\<close>)+
  have r2: "i64_op (365 * yoe) = Some (365 * yoe)" "i64_op (365 * yoe + q) = Some (365 * yoe + q)"
    "i64_op (365 * yoe + q - u) = Some (365 * yoe + q - u)" "i64_op doy = Some doy"
    "i64_op (5 * doy) = Some (5 * doy)" "i64_op (5 * doy + 2) = Some (5 * doy + 2)"
    "i64_op (153 * mp) = Some (153 * mp)" "i64_op (153 * mp + 2) = Some (153 * mp + 2)"
    by (rule i64_op_Some; use bounds in \<open>simp add: abs_le_iff\<close>)+
  have r3: "i64_op (doy - md) = Some (doy - md)" "i64_op (doy - md + 1) = Some (doy - md + 1)"
    "i64_op month = Some month"
    "i64_op (if month \<le> 2 then y + 1 else y) = Some (if month \<le> 2 then y + 1 else y)"
    by (rule i64_op_Some; use bounds in \<open>simp add: abs_le_iff\<close>)+
  have "second_date ts = (if month \<le> 2 then y + 1 else y, month, doy - md + 1,
      sec sdiv 3600, sec smod 3600 sdiv 60, sec smod 60)"
    unfolding second_date_def Let_def floor_days sec_def [symmetric] d0_def [symmetric] d_def [symmetric]
      d1_def [symmetric] e fold ..
  then show ?thesis
    unfolding unix_to_ymd_hms_def Let_def floor_days sec_def [symmetric] d0_def [symmetric] r1(1) bind.bind_lunit
      d_def [symmetric] r1(2) d1_def [symmetric] r1(3) e r1(4) doe_def [symmetric] r1(5) fold(10-12) r1(6) r1(7) r1(8)
      yoe_def [symmetric] r1(9) y_def [symmetric] r1(10) r2(1) fold(13,14) r2(2) r2(3) doy_def [symmetric] r2(4) r2(5) r2(6)
      mp_def [symmetric] r2(7) r2(8) md_def [symmetric] r3(1) r3(2) month_def [symmetric] r3(3) r3(4)
    by simp
qed

text \<open>A year and the seconds of its days, by the 400 years they lie in.\<close>

lemma date_seconds_era:
  assumes "1 \<le> month" "month \<le> 12" "1 \<le> day" "day \<le> 31"
  obtains era r where "400 * era \<le> year" "year \<le> 400 * era + 400" "- 4 \<le> r" "r \<le> 147000"
    "\<And>h mn sec. date_seconds year month day h mn sec =
       (era * 146097 + r - 719468) * 86400 + (h * 3600 + mn * 60 + sec)"
proof
  define y where "y = march_year year month"
  define mp where "mp = march_month month"
  let ?r = "era_start (y mod 400) + (month_start mp + day - 1)"
  have mp: "0 \<le> mp" "mp \<le> 11" using assms(1,2) by (auto simp: mp_def march_month_def)
  have ms: "0 \<le> month_start mp" "month_start mp \<le> 337"
    using month_cases [OF mp] by (elim disjE; simp add: month_start_def)+
  have yoe: "0 \<le> y mod 400" "y mod 400 < 400" by simp_all
  have "0 \<le> w div 4" "w div 4 \<le> 100" "0 \<le> w div 100" "w div 100 \<le> 4" if "0 \<le> w" "w < 400" for w :: int
    using that by (auto simp: pos_imp_zdiv_nonneg_iff)
  note q = this [OF yoe]
  have "- 4 + 365 * (y mod 400) \<le> era_start (y mod 400)" "era_start (y mod 400) \<le> 365 * (y mod 400) + 100"
    using q unfolding era_start_def by linarith+
  then show "- 4 \<le> ?r" "?r \<le> 147000" using ms yoe assms(3,4) by linarith+
  have "y = 400 * (y div 400) + y mod 400" by simp
  moreover have "y \<le> year" "year \<le> y + 1" by (simp_all add: y_def march_year_def)
  ultimately show "400 * (y div 400) \<le> year" "year \<le> 400 * (y div 400) + 400" using yoe by linarith+
  show "date_seconds year month day h mn sec =
      (y div 400 * 146097 + ?r - 719468) * 86400 + (h * 3600 + mn * 60 + sec)" for h mn sec
    unfolding date_seconds_eq [OF assms(1,2)] y_def [symmetric] mp_def [symmetric] day_number_def by simp
qed

lemma year_in_range:
  assumes "1 \<le> month" "month \<le> 12" "1 \<le> day" "day \<le> 31" "valid_time h mn sec"
    and "in_i64 (date_seconds year month day h mn sec)"
  shows "\<bar>year\<bar> \<le> 1000000000000"
proof -
  obtain era r where e: "400 * era \<le> year" "year \<le> 400 * era + 400" "- 4 \<le> r" "r \<le> 147000"
    "date_seconds year month day h mn sec = (era * 146097 + r - 719468) * 86400 + (h * 3600 + mn * 60 + sec)"
    using date_seconds_era [OF assms(1-4)] by metis
  define days where "days = era * 146097 + r - 719468"
  define t where "t = h * 3600 + mn * 60 + sec"
  have "0 \<le> t" "t < 86400" using time_parts(1,2) [OF assms(5)] by (simp_all add: t_def)
  moreover have "- 9223372036854775808 \<le> days * 86400 + t" "days * 86400 + t < 9223372036854775808"
    using assms(6) unfolding e(5) days_def [symmetric] t_def [symmetric] by (simp_all add: in_i64_def)
  ultimately have "- 106751991167301 \<le> days" "days \<le> 106751991167301" by linarith+
  then have "- 730692600 \<le> era" "era \<le> 730692600" using e(3,4) unfolding days_def by linarith+
  then show ?thesis using e(1,2) by simp
qed

lemma seconds_in_range:
  assumes "1 \<le> month" "month \<le> 12" "1 \<le> day" "day \<le> 31" "\<bar>year\<bar> \<le> 292277000000" "valid_time h mn sec"
  shows "in_i64 (date_seconds year month day h mn sec)"
proof -
  obtain era r where e: "400 * era \<le> year" "year \<le> 400 * era + 400" "- 4 \<le> r" "r \<le> 147000"
    "date_seconds year month day h mn sec = (era * 146097 + r - 719468) * 86400 + (h * 3600 + mn * 60 + sec)"
    using date_seconds_era [OF assms(1-4)] by metis
  define days where "days = era * 146097 + r - 719468"
  define t where "t = h * 3600 + mn * 60 + sec"
  have t: "0 \<le> t" "t < 86400" using time_parts(1,2) [OF assms(6)] by (simp_all add: t_def)
  have "- 730692501 \<le> era" "era \<le> 730692500" using e(1,2) assms(5) by simp_all
  then have "- 106751983100000 \<le> days" "days \<le> 106751982000000" using e(3,4) unfolding days_def by linarith+
  then have "- 9223372036854775808 \<le> days * 86400 + t" "days * 86400 + t < 9223372036854775808"
    using t by linarith+
  then show ?thesis unfolding e(5) days_def [symmetric] t_def [symmetric] by (simp add: in_i64_def)
qed

lemma seconds_of_date_i64:
  assumes "in_i64 ts" "- (2 ^ 63) + 86400 \<le> ts"
  shows "\<exists>year month day h mn sec. unix_to_ymd_hms ts = Some (year, month, day, h, mn, sec) \<and>
    valid_date year month day \<and> valid_time h mn sec \<and> ymd_to_unix year month day h mn sec = Some ts"
proof -
  obtain year month day h mn sec where p: "second_date ts = (year, month, day, h, mn, sec)"
    by (metis prod_cases6)
  have v: "valid_date year month day" "valid_time h mn sec" "date_seconds year month day h mn sec = ts"
    using seconds_of_date [of ts] by (simp_all add: p)
  have m: "1 \<le> month" "month \<le> 12" "1 \<le> day" "day \<le> 31"
    using v(1) by (auto simp: valid_date_def days_in_month_def split: if_splits)
  note t = time_parts(1,2) [OF v(2)] v(2) [unfolded valid_time_def]
  have z: "date_seconds year month day h mn sec = date_seconds year month day 0 0 0 + (h * 3600 + mn * 60 + sec)"
    by (simp add: date_seconds_eq [OF m(1,2)])
  have Y: "\<bar>year\<bar> \<le> 1000000000000"
    using year_in_range [OF m v(2), of year] v(3) assms(1) by simp
  have "ymd_to_unix year month day h mn sec = Some (date_seconds year month day h mn sec)"
    by (rule ymd_to_unix_Some) (use m t Y z v(3) assms in \<open>simp_all add: in_i64_def\<close>)
  with unix_to_ymd_hms_Some [OF assms(1)] p v show ?thesis by simp
qed

lemma date_of_seconds_i64:
  assumes "valid_date year month day" "valid_time h mn sec" "\<bar>year\<bar> \<le> 292277000000"
  shows "\<exists>t. in_i64 t \<and> ymd_to_unix year month day h mn sec = Some t \<and>
    unix_to_ymd_hms t = Some (year, month, day, h, mn, sec)"
proof -
  have m: "1 \<le> month" "month \<le> 12" "1 \<le> day" "day \<le> 31"
    using assms(1) by (auto simp: valid_date_def days_in_month_def split: if_splits)
  have r: "in_i64 (date_seconds year month day h mn sec)" "in_i64 (date_seconds year month day 0 0 0)"
    using seconds_in_range [OF m assms(3)] assms(2) by (simp_all add: valid_time_def)
  have "ymd_to_unix year month day h mn sec = Some (date_seconds year month day h mn sec)"
    by (rule ymd_to_unix_Some) (use m r assms(2,3) in \<open>auto simp: valid_time_def\<close>)
  with unix_to_ymd_hms_Some [OF r(1)] date_of_seconds [OF assms(1,2)] r(1) show ?thesis by auto
qed

text \<open>
  C33. Dates and seconds are in a one-to-one correspondence inside the range of \<open>i64\<close>. Every 64-bit
  count of seconds but those of the very first day is taken apart, without overflow, into a valid date
  and time of day that are put together to it again; and every valid date and time of the 292277
  millions of years before and after the year 0 is put together without overflow and taken apart to itself.
\<close>

theorem calendar_roundtrip:
  "(in_i64 ts \<and> - (2 ^ 63) + 86400 \<le> ts \<longrightarrow>
      (\<exists>year month day h mn sec. unix_to_ymd_hms ts = Some (year, month, day, h, mn, sec) \<and>
         valid_date year month day \<and> valid_time h mn sec \<and> ymd_to_unix year month day h mn sec = Some ts)) \<and>
   (valid_date year month day \<and> valid_time h mn sec \<and> \<bar>year\<bar> \<le> 292277000000 \<longrightarrow>
      (\<exists>t. in_i64 t \<and> ymd_to_unix year month day h mn sec = Some t \<and>
         unix_to_ymd_hms t = Some (year, month, day, h, mn, sec)))"
  using seconds_of_date_i64 [of ts] date_of_seconds_i64 [of year month day h mn sec] by blast

lemma calendar_roundtrip_witness:
  "ymd_to_unix 2024 2 29 23 59 59 \<bind> unix_to_ymd_hms = Some (2024, 2, 29, 23, 59, 59) \<and>
   unix_to_ymd_hms 1705319445 = Some (2024, 1, 15, 11, 50, 45) \<and>
   ymd_to_unix 2024 1 15 11 50 45 = Some 1705319445"
proof -
  have u: "unix_to_ymd_hms 1705319445 = Some (2024, 1, 15, 11, 50, 45)" by code_simp
  have "valid_date 2024 2 29" "valid_time 23 59 59" by code_simp+
  then obtain t where "ymd_to_unix 2024 2 29 23 59 59 = Some t" "unix_to_ymd_hms t = Some (2024, 2, 29, 23, 59, 59)"
    using calendar_roundtrip [where year = 2024 and month = 2 and day = 29 and h = 23 and mn = 59 and sec = 59]
    by auto
  moreover have "ymd_to_unix 2024 1 15 11 50 45 = Some 1705319445"
    using calendar_roundtrip [of 1705319445, THEN conjunct1] u by (auto simp: in_i64_def)
  ultimately show ?thesis using u by simp
qed

text \<open>The first day of the range: its beginning is before the smallest count there is.\<close>

lemma first_day_overflows:
  "unix_to_ymd_hms (- (2 ^ 63)) = Some (- 292277022657, 1, 27, 8, 29, 52)"
  "ymd_to_unix (- 292277022657) 1 27 8 29 52 = None"
  by code_simp+

subsection \<open>Months before the first one\<close>

text \<open>
  Going back over the start of a year keeps the year: the month before the fifteenth of January 2024 is
  said to be the fifteenth of December 2024, since the year is divided towards zero and the month is
  not. An offset without a colon loses its minutes.
\<close>

lemma add_months_wrong_year:
  "do { t \<leftarrow> ymd_to_unix 2024 1 15 0 0 0; t' \<leftarrow> add_months t (-1); unix_to_ymd_hms t' }
     = Some (2024, 12, 15, 0, 0, 0)"
  by code_simp

lemma offset_without_colon: "parse_tz_suffix (map byte ''+0530'') = 5 * 3600"
  by code_simp

lemma impossible_dates_read:
  "parse_datetime (map byte ''2023-02-31'') = parse_datetime (map byte ''2023-03-03'')"
  "parse_datetime (map byte ''2023-03-03'') = Some 1677801600"
  by code_simp+

end
