(* ===== verification/PrettyDoc.thy ===== *)
theory PrettyDoc
  imports Ast
begin

text \<open>
  The document printer of the formatter (\<open>fmt/doc.rs\<close>). The stack of the renderer and the one of the
  look-ahead are lists with their top first. Reference counts have no counterpart.
\<close>

subsection \<open>Documents\<close>

datatype doc =
    DNil
  | DText ustring
  | DLine
  | DSoftLine
  | DHardLine
  | DConcat doc doc
  | DNest nat doc
  | DGroup doc
  | DIfBreak doc doc

datatype layout_mode = Flat | Break

type_synonym doc_item = "nat \<times> layout_mode \<times> doc"

definition indent_step :: nat where
  "indent_step = 4"

definition concat_doc :: "doc \<Rightarrow> doc \<Rightarrow> doc" where
  "concat_doc a b = (if a = DNil then b else if b = DNil then a else DConcat a b)"

definition concat_all :: "doc list \<Rightarrow> doc" where
  "concat_all ds = foldl concat_doc DNil ds"

definition join_docs :: "doc \<Rightarrow> doc list \<Rightarrow> doc" where
  "join_docs sep ds =
     snd (foldl (\<lambda>(i, out) d. (i + 1, concat_doc (if i > 0 then concat_doc out sep else out) d)) (0 :: nat, DNil) ds)"

definition bracketed :: "ustring \<Rightarrow> doc list \<Rightarrow> ustring \<Rightarrow> doc" where
  "bracketed opening items closing =
     (if items = [] then concat_doc (DText opening) (DText closing)
      else
        (let sep = concat_doc (DText (cps '','')) DLine;
             inner = concat_doc DSoftLine (join_docs sep items)
         in DGroup (concat_all
              [DText opening, DNest indent_step (concat_doc inner (DIfBreak (DText (cps '','')) DNil)),
               DSoftLine, DText closing])))"

subsection \<open>Looking ahead\<close>

definition item_size :: "doc_item \<Rightarrow> nat" where
  "item_size it = 2 * size (snd (snd it)) + 1"

abbreviation items_size :: "doc_item list \<Rightarrow> nat" where
  "items_size st \<equiv> sum_list (map item_size st)"

function fits :: "int \<Rightarrow> doc_item list \<Rightarrow> doc_item list \<Rightarrow> bool" where
  "fits room [] [] = (\<not> room < 0)"
| "fits room [] (it # rest) = (if room < 0 then False else fits room [it] rest)"
| "fits room ((indent, mode, d) # local) rest =
     (if room < 0 then False
      else case d of
        DNil \<Rightarrow> fits room local rest
      | DText s \<Rightarrow> fits (room - int (length s)) local rest
      | DConcat a b \<Rightarrow> fits room ((indent, mode, a) # (indent, mode, b) # local) rest
      | DNest n inner \<Rightarrow> fits room ((indent + n, mode, inner) # local) rest
      | DGroup inner \<Rightarrow> fits room ((indent, Flat, inner) # local) rest
      | DLine \<Rightarrow> (case mode of Flat \<Rightarrow> fits (room - 1) local rest | Break \<Rightarrow> True)
      | DSoftLine \<Rightarrow> (if mode = Break then True else fits room local rest)
      | DHardLine \<Rightarrow> (case mode of Flat \<Rightarrow> False | Break \<Rightarrow> True)
      | DIfBreak broken flat \<Rightarrow>
          fits room ((indent, mode, if mode = Break then broken else flat) # local) rest)"
  by pat_completeness auto
termination fits
  by (relation "measure (\<lambda>(_, local, rest). items_size local + items_size rest + length rest)")
    (auto simp: item_size_def)

subsection \<open>Rendering\<close>

definition newline :: "nat \<Rightarrow> ustring" where
  "newline indent = ch_nl # replicate indent 32"

function render_loop :: "nat \<Rightarrow> doc_item list \<Rightarrow> ustring \<Rightarrow> nat \<Rightarrow> ustring" where
  "render_loop width [] out column = out"
| "render_loop width ((indent, mode, d) # stack) out column =
     (case d of
        DNil \<Rightarrow> render_loop width stack out column
      | DText s \<Rightarrow> render_loop width stack (out @ s) (column + length s)
      | DConcat a b \<Rightarrow> render_loop width ((indent, mode, a) # (indent, mode, b) # stack) out column
      | DNest n inner \<Rightarrow> render_loop width ((indent + n, mode, inner) # stack) out column
      | DLine \<Rightarrow> (case mode of
          Flat \<Rightarrow> render_loop width stack (out @ [32]) (column + 1)
        | Break \<Rightarrow> render_loop width stack (out @ newline indent) indent)
      | DSoftLine \<Rightarrow>
          (if mode = Break then render_loop width stack (out @ newline indent) indent
           else render_loop width stack out column)
      | DHardLine \<Rightarrow> render_loop width stack (out @ newline indent) indent
      | DIfBreak broken flat \<Rightarrow>
          render_loop width ((indent, mode, if mode = Break then broken else flat) # stack) out column
      | DGroup inner \<Rightarrow>
          (let room = int width - int column;
               group_mode = (if fits room [(indent, Flat, inner)] stack then Flat else Break)
           in render_loop width ((indent, group_mode, inner) # stack) out column))"
  by pat_completeness auto
termination render_loop
  by (relation "measure (\<lambda>(_, stack, _, _). items_size stack)") (auto simp: item_size_def)

definition render :: "doc \<Rightarrow> nat \<Rightarrow> ustring" where
  "render d width = render_loop width [(0, Break, d)] [] 0"

subsection \<open>What the look-ahead sees\<close>

abbreviation ahead :: "int \<Rightarrow> doc_item list \<Rightarrow> bool" where
  "ahead room st \<equiv> fits room st []"

declare fits.simps(3) [simp del]

lemma fits_ahead: "fits room local rest = ahead room (local @ rest)"
proof (induction room local rest rule: fits.induct)
  case (2 room it rest)
  obtain indent mode d where "it = (indent, mode, d)" by (cases it)
  with 2 show ?case by (cases "room < 0") (simp_all add: fits.simps(3))
next
  case (3 room indent mode d local rest)
  then show ?case
    unfolding fits.simps(3) [of room indent mode d local rest] append_Cons
      fits.simps(3) [of room indent mode d "local @ rest"]
    by (cases d; cases mode) simp_all
qed simp

text \<open>One step for each kind of document.\<close>

lemma ahead_step:
  "ahead room ((i, m, DNil) # st) \<longleftrightarrow> 0 \<le> room \<and> ahead room st"
  "ahead room ((i, m, DText s) # st) \<longleftrightarrow> 0 \<le> room \<and> ahead (room - int (length s)) st"
  "ahead room ((i, m, DConcat a b) # st) \<longleftrightarrow> 0 \<le> room \<and> ahead room ((i, m, a) # (i, m, b) # st)"
  "ahead room ((i, m, DNest n a) # st) \<longleftrightarrow> 0 \<le> room \<and> ahead room ((i + n, m, a) # st)"
  "ahead room ((i, m, DGroup a) # st) \<longleftrightarrow> 0 \<le> room \<and> ahead room ((i, Flat, a) # st)"
  "ahead room ((i, m, DIfBreak a b) # st) \<longleftrightarrow>
     0 \<le> room \<and> ahead room ((i, m, if m = Break then a else b) # st)"
  "ahead room ((i, Flat, DLine) # st) \<longleftrightarrow> 0 \<le> room \<and> ahead (room - 1) st"
  "ahead room ((i, Flat, DSoftLine) # st) \<longleftrightarrow> 0 \<le> room \<and> ahead room st"
  "\<not> ahead room ((i, Flat, DHardLine) # st)"
  by (simp_all add: fits.simps(3) not_less)

lemma ahead_room: "ahead room st \<Longrightarrow> 0 \<le> room"
proof (cases st)
  case (Cons it st')
  then show "ahead room st \<Longrightarrow> 0 \<le> room" by (cases it) (auto simp: fits.simps(3) split: if_splits)
qed simp

subsection \<open>Flat groups\<close>

text \<open>The text of a document that is laid flat.\<close>

fun flat_text :: "doc \<Rightarrow> ustring" where
  "flat_text DNil = []"
| "flat_text (DText s) = s"
| "flat_text DLine = [32]"
| "flat_text DSoftLine = []"
| "flat_text DHardLine = [ch_nl]"
| "flat_text (DConcat a b) = flat_text a @ flat_text b"
| "flat_text (DNest n d) = flat_text d"
| "flat_text (DGroup d) = flat_text d"
| "flat_text (DIfBreak broken flat) = flat_text flat"

lemma render_step:
  "render_loop w ((i, m, DNil) # st) out c = render_loop w st out c"
  "render_loop w ((i, m, DText s) # st) out c = render_loop w st (out @ s) (c + length s)"
  "render_loop w ((i, m, DConcat a b) # st) out c = render_loop w ((i, m, a) # (i, m, b) # st) out c"
  "render_loop w ((i, m, DNest n a) # st) out c = render_loop w ((i + n, m, a) # st) out c"
  "render_loop w ((i, m, DGroup a) # st) out c =
     render_loop w ((i, if ahead (int w - int c) ((i, Flat, a) # st) then Flat else Break, a) # st) out c"
  "render_loop w ((i, m, DIfBreak a b) # st) out c =
     render_loop w ((i, m, if m = Break then a else b) # st) out c"
  "render_loop w ((i, Flat, DLine) # st) out c = render_loop w st (out @ [32]) (c + 1)"
  "render_loop w ((i, Break, DLine) # st) out c = render_loop w st (out @ newline i) i"
  "render_loop w ((i, Flat, DSoftLine) # st) out c = render_loop w st out c"
  "render_loop w ((i, Break, DSoftLine) # st) out c = render_loop w st (out @ newline i) i"
  "render_loop w ((i, m, DHardLine) # st) out c = render_loop w st (out @ newline i) i"
  by (simp_all add: render_loop.simps(2) [of w i m] render_loop.simps(2) [of w i Flat]
      render_loop.simps(2) [of w i Break] Let_def fits_ahead [of _ "[_]"])

text \<open>An induction over what is left on the stack, with one case for each step.\<close>

lemma stack_induct [case_names Nil Nil_doc Text Line SoftLine HardLine Concat Nest Group IfBreak]:
  fixes P :: "doc_item list \<Rightarrow> bool"
  assumes "P []"
    and "\<And>i m st. P st \<Longrightarrow> P ((i, m, DNil) # st)"
    and "\<And>i m s st. P st \<Longrightarrow> P ((i, m, DText s) # st)"
    and "\<And>i m st. P st \<Longrightarrow> P ((i, m, DLine) # st)"
    and "\<And>i m st. P st \<Longrightarrow> P ((i, m, DSoftLine) # st)"
    and "\<And>i m st. P st \<Longrightarrow> P ((i, m, DHardLine) # st)"
    and "\<And>i m a b st. P ((i, m, a) # (i, m, b) # st) \<Longrightarrow> P ((i, m, DConcat a b) # st)"
    and "\<And>i m n a st. P ((i + n, m, a) # st) \<Longrightarrow> P ((i, m, DNest n a) # st)"
    and "\<And>i m a st. (\<And>m. P ((i, m, a) # st)) \<Longrightarrow> P ((i, m, DGroup a) # st)"
    and "\<And>i m a b st. (\<And>d. d = a \<or> d = b \<Longrightarrow> P ((i, m, d) # st)) \<Longrightarrow> P ((i, m, DIfBreak a b) # st)"
  shows "P st"
proof (induction "items_size st" arbitrary: st rule: less_induct)
  case less
  show ?case
  proof (cases st)
    case (Cons it stack)
    obtain i m d where "it = (i, m, d)" by (cases it)
    note st = Cons [unfolded this]
    have IH: "P (its @ stack)" if "items_size its < item_size (i, m, d)" for its
      using less.hyps [of "its @ stack"] that by (simp add: st)
    note item = IH [of "[_]", simplified]
    show ?thesis
    proof (cases d)
      case (DConcat a b)
      then have "P ((i, m, a) # (i, m, b) # stack)"
        using IH [of "[(i, m, a), (i, m, b)]"] by (simp add: item_size_def)
      then show ?thesis unfolding st DConcat by (rule assms(7))
    next
      case (DIfBreak a b)
      then have "P ((i, m, d') # stack)" if "d' = a \<or> d' = b" for d'
        using that item by (auto simp: item_size_def)
      then show ?thesis unfolding st DIfBreak by (rule assms(10))
    next
      case (DNest n a)
      then show ?thesis unfolding st by (simp add: assms(8) item item_size_def)
    next
      case (DGroup a)
      then show ?thesis unfolding st by (simp add: assms(9) item item_size_def)
    qed (use IH [of "[]"] in \<open>simp_all add: st item_size_def assms\<close>)
  qed (simp add: assms)
qed

declare render_loop.simps(2) [simp del]

lemma render_flat:
  assumes "ahead (int width - int column) ((indent, Flat, d) # st)"
  shows "render_loop width ((indent, Flat, d) # st) out column =
      render_loop width st (out @ flat_text d) (column + length (flat_text d))"
    "ahead (int width - int (column + length (flat_text d))) st"
  using assms
proof (induction d arbitrary: indent st out column)
  case (DConcat a b)
  case 1
  then have a: "ahead (int width - int column) ((indent, Flat, a) # (indent, Flat, b) # st)"
    by (simp add: ahead_step split: if_splits)
  show ?case
    using DConcat.IH(1) [OF a] DConcat.IH(3) [OF DConcat.IH(2) [OF a]] by (simp add: render_step add.assoc)
next
  case (DConcat a b)
  case 2
  then have a: "ahead (int width - int column) ((indent, Flat, a) # (indent, Flat, b) # st)"
    by (simp add: ahead_step split: if_splits)
  show ?case
    using DConcat.IH(4) [OF DConcat.IH(2) [OF a]] by (simp add: add.assoc)
next
  case (DGroup d)
  case 1
  then have "ahead (int width - int column) ((indent, Flat, d) # st)"
    by (simp add: ahead_step split: if_splits)
  with DGroup.IH(1) show ?case by (simp add: render_step fits_ahead [of _ "[_]"])
next
  case (DGroup d)
  case 2
  then have "ahead (int width - int column) ((indent, Flat, d) # st)"
    by (simp add: ahead_step split: if_splits)
  with DGroup.IH(2) show ?case by simp
qed (auto simp: ahead_step render_step algebra_simps split: if_splits)

text \<open>Output is only ever added to.\<close>

lemma render_appends: "\<exists>more. render_loop width st out column = out @ more"
proof (induction st arbitrary: out column rule: stack_induct)
  case (Text i m s st)
  then obtain more where "render_loop width st (out @ s) (column + length s) = (out @ s) @ more" by blast
  then show ?case by (simp add: render_step)
next
  case (Line i m st)
  from Line [of "out @ newline i" i] Line [of "out @ [32]" "column + 1"] show ?case
    by (cases m) (auto simp: render_step)
next
  case (SoftLine i m st)
  from SoftLine [of "out @ newline i" i] SoftLine [of out column] show ?case
    by (cases m) (auto simp: render_step)
next
  case (HardLine i m st)
  from HardLine [of "out @ newline i" i] show ?case by (auto simp: render_step)
qed (simp_all add: render_step)

text \<open>Once the look-ahead is content, the line ends inside the width.\<close>

definition line_ends :: "nat \<Rightarrow> nat \<Rightarrow> ustring \<Rightarrow> ustring \<Rightarrow> bool" where
  "line_ends width column out res \<longleftrightarrow>
     (\<exists>ln tail. res = out @ ln @ tail \<and> column + length ln \<le> width \<and> (tail = [] \<or> hd tail = ch_nl))"

lemma line_ends_more: "line_ends width (column + length s) (out @ s) res \<Longrightarrow> line_ends width column out res"
  unfolding line_ends_def
proof (elim exE conjE)
  fix ln tail
  assume "res = (out @ s) @ ln @ tail" "column + length s + length ln \<le> width" "tail = [] \<or> hd tail = ch_nl"
  then show "\<exists>ln tail. res = out @ ln @ tail \<and> column + length ln \<le> width \<and> (tail = [] \<or> hd tail = ch_nl)"
    by (intro exI [of _ "s @ ln"] exI [of _ tail]) simp
qed

lemma line_ends_newline:
  "column \<le> width \<Longrightarrow> line_ends width column out (render_loop width st (out @ newline i) i)"
proof -
  obtain more where "render_loop width st (out @ newline i) i = (out @ newline i) @ more"
    using render_appends by blast
  then show "column \<le> width \<Longrightarrow> ?thesis"
    unfolding line_ends_def by (intro exI [of _ "[]"] exI [of _ "newline i @ more"]) (simp add: newline_def)
qed

lemma render_line:
  "ahead (int width - int column) st \<Longrightarrow> line_ends width column out (render_loop width st out column)"
proof (induction st arbitrary: out column rule: stack_induct)
  case Nil
  then show ?case by (simp add: line_ends_def)
next
  case (Text i m s st)
  have "ahead (int width - int (column + length s)) st"
    using Text.prems by (simp add: ahead_step algebra_simps)
  from line_ends_more [OF Text.IH [OF this]] show ?case by (simp add: render_step)
next
  case (Line i m st)
  show ?case
  proof (cases m)
    case Flat
    have "ahead (int width - int (column + length [32 :: nat])) st"
      using Line.prems by (simp add: ahead_step algebra_simps Flat)
    from line_ends_more [OF Line.IH [OF this]] show ?thesis by (simp add: render_step Flat)
  next
    case Break
    then show ?thesis using ahead_room [OF Line.prems] by (simp add: render_step line_ends_newline)
  qed
next
  case (SoftLine i m st)
  show ?case
  proof (cases m)
    case Flat
    with SoftLine show ?thesis by (simp add: render_step ahead_step)
  next
    case Break
    then show ?thesis using ahead_room [OF SoftLine.prems] by (simp add: render_step line_ends_newline)
  qed
next
  case (HardLine i m st)
  then show ?case using ahead_room [OF HardLine.prems] by (simp add: render_step line_ends_newline)
next
  case (Group i m a st)
  then show ?case by (simp add: render_step ahead_step)
next
  case (IfBreak i m a b st)
  then show ?case by (simp add: render_step ahead_step)
qed (simp_all add: render_step ahead_step)

subsection \<open>What the layout keeps\<close>

text \<open>The text of a document without blanks; it may depend on which groups are broken.\<close>

definition letters :: "ustring \<Rightarrow> ustring" where
  "letters s = filter (\<lambda>c. c \<noteq> 32 \<and> c \<noteq> ch_nl) s"

fun contents :: "layout_mode \<Rightarrow> doc \<Rightarrow> ustring set" where
  "contents m (DText s) = {letters s}"
| "contents m (DConcat a b) = {x @ y | x y. x \<in> contents m a \<and> y \<in> contents m b}"
| "contents m (DNest n d) = contents m d"
| "contents m (DGroup d) = contents Flat d \<union> contents Break d"
| "contents m (DIfBreak broken flat) = contents m (if m = Break then broken else flat)"
| "contents m _ = {[]}"

fun stack_contents :: "doc_item list \<Rightarrow> ustring set" where
  "stack_contents [] = {[]}"
| "stack_contents ((i, m, d) # st) = {x @ y | x y. x \<in> contents m d \<and> y \<in> stack_contents st}"

lemma letters_simps [simp]:
  "letters (a @ b) = letters a @ letters b" "letters [32] = []" "letters (newline i) = []"
  by (simp_all add: letters_def newline_def)

lemma render_contents:
  "\<exists>x\<in>stack_contents st. letters (render_loop width st out column) = letters out @ x"
proof (induction st arbitrary: out column rule: stack_induct)
  case (Text i m s st)
  from Text [of "out @ s" "column + length s"] show ?case by (auto simp: render_step)
next
  case (Line i m st)
  from Line [of "out @ newline i" i] Line [of "out @ [32]" "column + 1"] show ?case
    by (cases m) (simp_all add: render_step)
next
  case (SoftLine i m st)
  from SoftLine [of "out @ newline i" i] SoftLine [of out column] show ?case
    by (cases m) (simp_all add: render_step)
next
  case (HardLine i m st)
  from HardLine [of "out @ newline i" i] show ?case by (simp add: render_step)
next
  case (Concat i m a b st)
  from Concat [of out column] show ?case by (auto simp: render_step) (metis append_assoc)
next
  case (Group i m a st)
  let ?g = "if ahead (int width - int column) ((i, Flat, a) # st) then Flat else Break"
  obtain x where x: "x \<in> stack_contents ((i, ?g, a) # st)"
    and l: "letters (render_loop width ((i, ?g, a) # st) out column) = letters out @ x"
    using Group [of ?g out column] by blast
  have "x \<in> stack_contents ((i, m, DGroup a) # st)" using x by (auto split: if_splits)
  with l show ?case by (auto simp: render_step)
qed (simp_all add: render_step)

text \<open>
  C35. A group that is laid out flat is flat to its end, and its line, up to the next line break or the end
  of the text, stays inside the width, whatever follows the group on it.
\<close>

theorem flat_group_fits:
  assumes "fits (int width - int column) [(indent, Flat, d)] st"
  shows "render_loop width ((indent, m, DGroup d) # st) out column =
      render_loop width st (out @ flat_text d) (column + length (flat_text d)) \<and>
    line_ends width column out (render_loop width ((indent, m, DGroup d) # st) out column)"
proof -
  have a: "ahead (int width - int column) ((indent, Flat, d) # st)"
    using assms by (simp add: fits_ahead [of _ "[_]"])
  then show ?thesis
    using render_flat(1) [OF a] render_line [OF a] assms by (simp add: render_step)
qed

lemma flat_group_fits_witness:
  "render (bracketed [91] [DText [49], DText [50]] [93]) 8 = [91, 49, 44, 32, 50, 93] \<and>
   line_ends 8 0 [] (render (bracketed [91] [DText [49], DText [50]] [93]) 8)"
proof -
  obtain d where d: "bracketed [91] [DText [49], DText [50]] [93] = DGroup d"
    by (simp add: bracketed_def Let_def)
  have f: "fits (int 8 - int 0) [(0, Flat, d)] []" and t: "flat_text d = [91, 49, 44, 32, 50, 93]"
    using d by (auto simp: bracketed_def Let_def concat_all_def concat_doc_def join_docs_def cps_def ahead_step)
  show ?thesis
    using flat_group_fits [OF f, of Break "[]"] unfolding render_def d t by (elim conjE) simp
qed

text \<open>
  A set of characters, none of them blank, that does not tell the two forms of any \<open>IfBreak\<close> of a
  document apart.
\<close>

fun steady :: "(nat \<Rightarrow> bool) \<Rightarrow> doc \<Rightarrow> bool" where
  "steady keep (DConcat a b) = (steady keep a \<and> steady keep b)"
| "steady keep (DNest n d) = steady keep d"
| "steady keep (DGroup d) = steady keep d"
| "steady keep (DIfBreak a b) =
     (steady keep a \<and> steady keep b \<and> filter keep (flat_text a) = filter keep (flat_text b))"
| "steady keep _ = True"

lemma render_filter:
  assumes "\<not> keep 32" "\<not> keep ch_nl"
  shows "list_all (\<lambda>(_, _, d). steady keep d) st \<Longrightarrow>
    filter keep (render_loop width st out column) =
    filter keep out @ concat (map (\<lambda>(_, _, d). filter keep (flat_text d)) st)"
proof (induction st arbitrary: out column rule: stack_induct)
  case (Line i m st)
  then show ?case using assms by (cases m) (simp_all add: render_step newline_def)
next
  case (SoftLine i m st)
  then show ?case using assms by (cases m) (simp_all add: render_step newline_def)
next
  case (IfBreak i m a b st)
  then show ?case by (cases m) (simp_all add: render_step)
qed (use assms in \<open>simp_all add: render_step newline_def\<close>)

text \<open>The trailing comma of a list is the only thing its two layouts differ in.\<close>

lemma steady_concat: "steady keep a \<Longrightarrow> steady keep b \<Longrightarrow> steady keep (concat_doc a b)"
  by (simp add: concat_doc_def)

lemma steady_concat_all: "list_all (steady keep) ds \<Longrightarrow> steady keep (concat_all ds)"
proof -
  have "list_all (steady keep) ds \<Longrightarrow> steady keep d \<Longrightarrow> steady keep (foldl concat_doc d ds)" for d
    by (induction ds arbitrary: d) (simp_all add: steady_concat)
  then show "list_all (steady keep) ds \<Longrightarrow> ?thesis" by (simp add: concat_all_def)
qed

lemma steady_join:
  assumes "steady keep sep" "list_all (steady keep) ds"
  shows "steady keep (join_docs sep ds)"
proof -
  have "list_all (steady keep) ds \<Longrightarrow> steady keep (snd p) \<Longrightarrow>
      steady keep (snd (foldl (\<lambda>(i, out) d. (i + 1, concat_doc (if i > 0 then concat_doc out sep else out) d)) p ds))"
    for p :: "nat \<times> doc"
    using assms(1) by (induction ds arbitrary: p) (auto simp: steady_concat split: prod.split)
  with assms(2) show ?thesis by (simp add: join_docs_def)
qed

lemma steady_bracketed:
  assumes "list_all (steady keep) items" "\<not> keep 44"
  shows "steady keep (bracketed opening items closing)"
  using assms by (auto simp: bracketed_def Let_def cps_def intro!: steady_concat steady_concat_all steady_join)

text \<open>
  C36. What a layout keeps of the text: without blanks and line ends, the rendered text is the text of
  the document in which each group contributes the broken or the flat form of its \<open>IfBreak\<close>s, so that
  a list that is broken gains its trailing comma. The characters of a set without blanks that
  tells no \<open>IfBreak\<close>'s forms apart (for a document without \<open>IfBreak\<close>, all that are not blank; for bracketed lists,
  those that are no commas either) are exactly those of the flat text, in their order, at every width.
\<close>

theorem render_keeps_text:
  "letters (render d width) \<in> contents Break d \<and>
   (steady keep d \<and> \<not> keep 32 \<and> \<not> keep ch_nl \<longrightarrow> filter keep (render d width) = filter keep (flat_text d))"
  using render_contents [of "[(0, Break, d)]" width "[]" 0] render_filter [of keep "[(0, Break, d)]" width "[]" 0]
  by (auto simp: render_def letters_def)

text \<open>The list of one and two in eighty columns and in three.\<close>

definition small_list :: doc where
  "small_list = bracketed [91] [DText [49], DText [50]] [93]"

definition inked :: "nat \<Rightarrow> bool" where
  "inked c \<longleftrightarrow> c \<noteq> 32 \<and> c \<noteq> ch_nl \<and> c \<noteq> 44"

lemma broken_list_gains_comma:
  "letters (render small_list 80) = [91, 49, 44, 50, 93]"
  "letters (render small_list 3) = [91, 49, 44, 50, 44, 93]"
  by (simp_all add: small_list_def bracketed_def Let_def concat_all_def concat_doc_def join_docs_def cps_def
      render_def render_step ahead_step letters_def newline_def indent_step_def)

lemma render_keeps_text_witness:
  "filter inked (render small_list 80) = [91, 49, 50, 93] \<and> filter inked (render small_list 3) = [91, 49, 50, 93]"
proof -
  have "steady inked small_list"
    unfolding small_list_def by (rule steady_bracketed) (simp_all add: inked_def)
  moreover have "\<not> inked 32" "\<not> inked ch_nl" by (simp_all add: inked_def)
  moreover have "filter inked (flat_text small_list) = [91, 49, 50, 93]"
    by (simp add: small_list_def bracketed_def Let_def concat_all_def concat_doc_def join_docs_def cps_def
        inked_def)
  ultimately show ?thesis
    using render_keeps_text [of small_list 80 inked] render_keeps_text [of small_list 3 inked] by simp
qed

end
