(* ===== verification/Summaries.thy ===== *)
theory Summaries
  imports Mir
begin

text \<open>
  Summaries of whole programs for the ownership passes (\<open>mir/optimizations/ownership/summaries.rs\<close>, the
  recognition of calls into Python of \<open>ownership/escape_copies.rs\<close>): which parameters escape into longer
  lived storage and which functions may return a borrow. A loop that runs until nothing changes is a
  \<open>while_option\<close>, whose \<open>None\<close> would be a loop that does not end. Locals are declared (\<open>wf_locals\<close>), so
  no index is out of range.
\<close>

subsection \<open>Runtime calls\<close>

definition runtime_escapes :: "(string \<times> nat) list" where
  "runtime_escapes =
     [(''__olive_list_append'', 1), (''__olive_list_insert'', 2), (''__olive_obj_set'', 2),
      (''__olive_obj_setdefault'', 2), (''__olive_obj_setdefault_typed'', 2), (''__olive_set_add'', 1),
      (''__olive_set_add_typed'', 1), (''__olive_chan_send'', 1), (''__olive_mutex_new'', 0),
      (''__olive_mutex_unlock'', 1), (''__olive_pool_run'', 1), (''__olive_pool_run_sync'', 1),
      (''__olive_py_make_callable'', 0), (''__olive_struct_box'', 0)]"

definition runtime_escape :: "string \<Rightarrow> nat \<Rightarrow> bool" where
  "runtime_escape name p \<longleftrightarrow> list_ex (\<lambda>(n, q). n = name \<and> q = p) runtime_escapes"

definition runtime_borrowed_returns :: "string list" where
  "runtime_borrowed_returns =
     [''__olive_struct_unbox'', ''__olive_obj_get'', ''__olive_obj_get_typed'', ''__olive_obj_get_boxed'',
      ''__olive_obj_get_default'', ''__olive_obj_get_default_typed'', ''__olive_obj_get_default_boxed'',
      ''__olive_obj_get_default_boxed_typed'', ''__olive_obj_set'', ''__olive_obj_setdefault'',
      ''__olive_obj_setdefault_typed'', ''__olive_obj_update'', ''__olive_obj_update_typed'',
      ''__olive_obj_clear'']"

definition runtime_borrowed_return :: "string \<Rightarrow> bool" where
  "runtime_borrowed_return name \<longleftrightarrow> List.member runtime_borrowed_returns name"

definition task_boundary_escapes :: "(string \<times> nat) list" where
  "task_boundary_escapes =
     [(''__olive_chan_send'', 1), (''__olive_mutex_new'', 0), (''__olive_mutex_unlock'', 1)]"

definition task_boundary_escape :: "string \<Rightarrow> nat \<Rightarrow> bool" where
  "task_boundary_escape name p \<longleftrightarrow> list_ex (\<lambda>(n, q). n = name \<and> q = p) task_boundary_escapes"

subsection \<open>Calls into Python\<close>

datatype py_call_tag_source = TagArgs i64 | TagKwargs i64 | TagKwargsFlat i64

record py_call_shape =
  args_list_pos :: nat
  coll_tags_pos :: nat
  kwargs_pos :: "(nat \<times> nat) option"
  kw_flat :: bool

definition shape_of :: "string \<Rightarrow> py_call_shape option" where
  "shape_of name =
     (if name = ''__olive_py_call'' \<or> name = ''__olive_py_call_safe'' \<or> name = ''__olive_py_call_t'' \<or>
         name = ''__olive_py_call_t_safe''
      then Some \<lparr>args_list_pos = 1, coll_tags_pos = 2, kwargs_pos = None, kw_flat = False\<rparr>
      else if name = ''__olive_py_call_kw'' \<or> name = ''__olive_py_call_kw_safe''
      then Some \<lparr>args_list_pos = 1, coll_tags_pos = 2, kwargs_pos = Some (3, 4), kw_flat = False\<rparr>
      else if name = ''__olive_py_call_kw_v'' \<or> name = ''__olive_py_call_kw_v_safe''
      then Some \<lparr>args_list_pos = 1, coll_tags_pos = 2, kwargs_pos = Some (5, 6), kw_flat = True\<rparr>
      else if name = ''__olive_py_call_method_kw_v'' \<or> name = ''__olive_py_call_method_kw_v_safe''
      then Some \<lparr>args_list_pos = 2, coll_tags_pos = 3, kwargs_pos = Some (6, 7), kw_flat = True\<rparr>
      else None)"

text \<open>The packed word of tags that a call takes beside the aggregate \<open>dst\<close>.\<close>

definition call_tags :: "local \<Rightarrow> py_call_shape \<Rightarrow> operand list \<Rightarrow> py_call_tag_source option" where
  "call_tags dst shape args =
     (let is_dst = (\<lambda>p. p = Copy dst \<or> p = Move dst);
          int_at = (\<lambda>i. case args ! i of Constant (CInt tags) \<Rightarrow> Some tags | _ \<Rightarrow> None);
          positional =
            (if length args > coll_tags_pos shape \<and> is_dst (args ! args_list_pos shape)
             then int_at (coll_tags_pos shape) else None)
      in case positional of
           Some tags \<Rightarrow> Some (TagArgs tags)
         | None \<Rightarrow>
             (case kwargs_pos shape of
                None \<Rightarrow> None
              | Some (kw_list_pos, kw_coll_pos) \<Rightarrow>
                  (if length args > kw_coll_pos \<and> is_dst (args ! kw_list_pos)
                   then map_option (if kw_flat shape then TagKwargsFlat else TagKwargs) (int_at kw_coll_pos)
                   else None)))"

fun first_call_tags :: "local \<Rightarrow> statement_kind list \<Rightarrow> py_call_tag_source option" where
  "first_call_tags dst [] = None"
| "first_call_tags dst (k # ks) =
     (case k of
        Assign _ (Call (Constant (CFunction name)) args) \<Rightarrow>
          (case shape_of name of
             None \<Rightarrow> first_call_tags dst ks
           | Some shape \<Rightarrow>
               (case call_tags dst shape args of Some t \<Rightarrow> Some t | None \<Rightarrow> first_call_tags dst ks))
      | _ \<Rightarrow> first_call_tags dst ks)"

definition py_call_coll_tags :: "statement list \<Rightarrow> nat \<Rightarrow> local \<Rightarrow> py_call_tag_source option" where
  "py_call_coll_tags stmts i dst = first_call_tags dst (map kind (drop (i + 1) stmts))"

definition tag_at :: "i64 \<Rightarrow> nat \<Rightarrow> i64" where
  "tag_at tags i = (if i \<ge> 16 then 0 else signed_drop_bit (i * 4) tags AND 0xF)"

fun py_call_tag_for_pos :: "py_call_tag_source \<Rightarrow> nat \<Rightarrow> i64" where
  "py_call_tag_for_pos (TagArgs tags) p = tag_at tags p"
| "py_call_tag_for_pos (TagKwargsFlat tags) p = tag_at tags p"
| "py_call_tag_for_pos (TagKwargs tags) p = (if p mod 2 = 1 then tag_at tags (p div 2) else 0)"

subsection \<open>Parameters that escape\<close>

type_synonym escapes = "string \<rightharpoonup> bool list"

text \<open>The bits of the parameters; all from the sixty-fourth on share the top bit.\<close>

definition param_bit :: "nat \<Rightarrow> u64" where
  "param_bit i = push_bit (min i 63) 1"

definition initial_taint :: "mir_function \<Rightarrow> u64 list" where
  "initial_taint f =
     map (\<lambda>l. if 1 \<le> l \<and> l \<le> arg_count f then param_bit (l - 1) else 0) [0..<length (locals f)]"

definition all_statements :: "mir_function \<Rightarrow> statement_kind list" where
  "all_statements f = concat (map (\<lambda>bb. map kind (statements bb)) (basic_blocks f))"

fun taint_stmt :: "statement_kind \<Rightarrow> u64 list \<times> bool \<Rightarrow> u64 list \<times> bool" where
  "taint_stmt (Assign dst rv) (taint, changed) =
     (case rv of
        Use p \<Rightarrow>
          (case op_local p of
             src # _ \<Rightarrow>
               (if dst < length taint \<and> src < length taint \<and> taint ! dst OR taint ! src \<noteq> taint ! dst
                then (taint[dst := taint ! dst OR taint ! src], True) else (taint, changed))
           | [] \<Rightarrow> (taint, changed))
      | _ \<Rightarrow> (taint, changed))"
| "taint_stmt _ tc = tc"

definition taint_loop :: "mir_function \<Rightarrow> u64 list option" where
  "taint_loop f =
     map_option fst
       (while_option snd (\<lambda>(taint, _). fold taint_stmt (all_statements f) (taint, False))
          (initial_taint f, True))"

definition mark :: "u64 list \<Rightarrow> operand \<Rightarrow> u64 \<Rightarrow> u64" where
  "mark taint p bits =
     (case op_local p of l # _ \<Rightarrow> if l < length taint then bits OR taint ! l else bits | [] \<Rightarrow> bits)"

definition escapes_at :: "escapes \<Rightarrow> string \<Rightarrow> nat \<Rightarrow> bool" where
  "escapes_at esc callee p \<longleftrightarrow> (case esc callee of None \<Rightarrow> False | Some v \<Rightarrow> get_opt v p = Some True)"

text \<open>What a statement stores beyond the frame; \<open>i\<close> is its index in the block.\<close>

definition mark_stmt :: "escapes \<Rightarrow> u64 list \<Rightarrow> statement list \<Rightarrow> nat \<Rightarrow> u64 \<Rightarrow> u64" where
  "mark_stmt esc taint stmts i bits =
     (case kind (stmts ! i) of
        SetAttr _ _ v \<Rightarrow> mark taint v bits
      | SetIndex _ _ v _ \<Rightarrow> mark taint v bits
      | PtrStore _ v \<Rightarrow> mark taint v bits
      | Assign dst (Aggregate _ ops) \<Rightarrow>
          (let tags = py_call_coll_tags stmts i dst
           in fold (\<lambda>(p, x) acc.
                  if (case tags of None \<Rightarrow> False | Some src \<Rightarrow> py_call_tag_for_pos src p \<noteq> 0) then acc
                  else mark taint x acc)
                (enumerate 0 ops) bits)
      | Assign _ (Call (Constant (CFunction callee)) args) \<Rightarrow>
          fold (\<lambda>(p, x) acc.
              if runtime_escape callee p \<or> escapes_at esc callee p then mark taint x acc else acc)
            (enumerate 0 args) bits
      | _ \<Rightarrow> bits)"

definition params_escaping :: "mir_function \<Rightarrow> escapes \<Rightarrow> bool list option" where
  "params_escaping f esc =
     map_option (\<lambda>taint.
        let bits = fold (\<lambda>bb. fold (mark_stmt esc taint (statements bb)) [0..<length (statements bb)])
                     (basic_blocks f) 0
        in map (\<lambda>i. bits AND param_bit i \<noteq> 0) [0..<arg_count f])
       (taint_loop f)"

fun escape_sweep :: "mir_function list \<Rightarrow> escapes \<times> bool \<Rightarrow> (escapes \<times> bool) option" where
  "escape_sweep [] ec = Some ec"
| "escape_sweep (f # fs) (esc, changed) =
     do { updated \<leftarrow> params_escaping f esc;
          entry \<leftarrow> esc (fn_name f);
          let entry' = map (\<lambda>(old, e). old \<or> e) (zip entry updated);
          escape_sweep fs (esc(fn_name f \<mapsto> entry'), changed \<or> entry' \<noteq> entry) }"

definition compute_param_escapes :: "mir_function list \<Rightarrow> escapes option" where
  "compute_param_escapes fns =
     do { r \<leftarrow> while_option (\<lambda>st. case st of Some (_, changed) \<Rightarrow> changed | None \<Rightarrow> False)
                 (\<lambda>st. do { (esc, _) \<leftarrow> st; escape_sweep fns (esc, False) })
                 (Some (map_of (rev (map (\<lambda>f. (fn_name f, replicate (arg_count f) False)) fns)), True));
          map_option fst r }"

subsection \<open>Functions that return a borrow\<close>

definition borrow_preds :: "mir_function \<Rightarrow> bb_id \<Rightarrow> bb_id list" where
  "borrow_preds f b =
     concat (map (\<lambda>i. replicate (count_list (bb_succs (basic_blocks f ! i)) b) i) [0..<length (basic_blocks f)])"

fun borrow_stmt :: "string set \<Rightarrow> statement_kind \<Rightarrow> bool list \<Rightarrow> bool list" where
  "borrow_stmt borrowed (Assign dst rv) state =
     (if dst < length state
      then state[dst :=
        (case rv of
           Use p \<Rightarrow> (case op_local p of src # _ \<Rightarrow> src < length state \<and> state ! src | [] \<Rightarrow> False)
         | GetIndex _ _ _ \<Rightarrow> True
         | GetAttr _ _ \<Rightarrow> True
         | PtrLoad _ \<Rightarrow> True
         | FatPtrData _ \<Rightarrow> True
         | VTableLoad _ _ \<Rightarrow> True
         | Call (Constant (CFunction name)) _ \<Rightarrow> name \<in> borrowed \<or> runtime_borrowed_return name
         | _ \<Rightarrow> False)]
      else state)"
| "borrow_stmt borrowed _ state = state"

definition borrow_block :: "string set \<Rightarrow> basic_block \<Rightarrow> bool list \<Rightarrow> bool list" where
  "borrow_block borrowed bb state = fold (\<lambda>s. borrow_stmt borrowed (kind s)) (statements bb) state"

definition taint_params :: "nat \<Rightarrow> bool list \<Rightarrow> bool list" where
  "taint_params bound state = map (\<lambda>l. (1 \<le> l \<and> l \<le> bound) \<or> state ! l) [0..<length state]"

text \<open>
  One turn for one block. The states of the predecessors are those at their ends, and their statements
  are applied once more.
\<close>

type_synonym borrow_tables = "bool list list \<times> bool list list"

definition borrow_turn ::
  "mir_function \<Rightarrow> string set \<Rightarrow> nat \<Rightarrow> bb_id \<Rightarrow> borrow_tables \<times> bool \<Rightarrow> borrow_tables \<times> bool" where
  "borrow_turn f borrowed bound b st =
     (case st of ((entry, out), changed) \<Rightarrow>
        (let n = length (locals f);
             joined = fold (\<lambda>p state. map2 (\<or>) state (borrow_block borrowed (basic_blocks f ! p) (out ! p)))
                        (borrow_preds f b) (replicate n False);
             start = (if b = 0 then taint_params bound joined else joined);
             fin = borrow_block borrowed (basic_blocks f ! b) start
         in ((entry[b := start], out[b := fin]), changed \<or> start \<noteq> entry ! b \<or> fin \<noteq> out ! b)))"

definition returns_borrow :: "mir_function \<Rightarrow> string set \<Rightarrow> bool option" where
  "returns_borrow f borrowed =
     (if \<not> (locals f \<noteq> [] \<and> is_move_type (decl_ty (hd (locals f)))) then Some False
      else
        (let n = length (locals f);
             nb = length (basic_blocks f);
             bound = min (arg_count f) (n - 1);
             entry = replicate nb (taint_params bound (replicate n False))
         in map_option (\<lambda>((_, out), _).
               list_ex (\<lambda>b. (case terminator (basic_blocks f ! b) of
                   Some t \<Rightarrow> term_kind t = Return | None \<Rightarrow> False) \<and> out ! b ! 0) [0..<nb])
             (while_option snd
               (\<lambda>(tables, _). fold (borrow_turn f borrowed bound) [0..<nb] (tables, False))
               ((entry, entry), True))))"

fun borrowed_sweep :: "mir_function list \<Rightarrow> string set \<times> bool \<Rightarrow> (string set \<times> bool) option" where
  "borrowed_sweep [] bc = Some bc"
| "borrowed_sweep (f # fs) (borrowed, changed) =
     (if fn_name f \<in> borrowed then borrowed_sweep fs (borrowed, changed)
      else do { r \<leftarrow> returns_borrow f borrowed;
                (if r then borrowed_sweep fs (insert (fn_name f) borrowed, True)
                 else borrowed_sweep fs (borrowed, changed)) })"

definition compute_borrowed_returns :: "mir_function list \<Rightarrow> string set option" where
  "compute_borrowed_returns fns =
     do { r \<leftarrow> while_option (\<lambda>st. case st of Some (_, changed) \<Rightarrow> changed | None \<Rightarrow> False)
                 (\<lambda>st. do { (borrowed, _) \<leftarrow> st; borrowed_sweep fns (borrowed, False) })
                 (Some ({}, True));
          map_option fst r }"

end
