(* ===== verification/ChangedLoop.thy ===== *)
theory ChangedLoop
  imports Prelude
begin

text \<open>
  Loops that go over a list of keys until a sweep changes nothing. A turn may write what does not count as a
  change; \<open>view\<close> is what counts. The second locale has the data-flow analyses, whose tables only shrink.
\<close>

subsection \<open>Sweeps with a flag\<close>

locale changed_loop =
  fixes turn :: "'k \<Rightarrow> 'a \<times> bool \<Rightarrow> 'a \<times> bool"
    and keys :: "'k list"
    and inv :: "'a \<Rightarrow> bool"
    and m :: "'a \<Rightarrow> nat"
    and view :: "'a \<Rightarrow> 'v"
  assumes turn: "\<And>k x c y d. k \<in> set keys \<Longrightarrow> inv x \<Longrightarrow> turn k (x, c) = (y, d) \<Longrightarrow>
      inv y \<and> m y \<le> m x \<and> (d \<longleftrightarrow> c \<or> m y < m x) \<and> (m y = m x \<longrightarrow> view y = view x)"
begin

definition settled :: "'a \<Rightarrow> 'k \<Rightarrow> bool" where
  "settled y k \<longleftrightarrow> (\<exists>x c. inv x \<and> view x = view y \<and> view (fst (turn k (x, c))) = view y)"

lemma sweep:
  assumes "set ks \<subseteq> set keys" "inv x" "fold turn ks (x, c) = (y, d)"
  shows "inv y \<and> m y \<le> m x \<and> (d \<longleftrightarrow> c \<or> m y < m x) \<and>
    (m y = m x \<longrightarrow> view y = view x \<and> (\<forall>k\<in>set ks. settled y k))"
  using assms
proof (induction ks arbitrary: x c)
  case (Cons k ks)
  obtain x' c' where t: "turn k (x, c) = (x', c')" by fastforce
  have 1: "inv x' \<and> m x' \<le> m x \<and> (c' \<longleftrightarrow> c \<or> m x' < m x) \<and> (m x' = m x \<longrightarrow> view x' = view x)"
    using turn [OF _ Cons.prems(2) t] Cons.prems(1) by simp
  have 2: "inv y \<and> m y \<le> m x' \<and> (d \<longleftrightarrow> c' \<or> m y < m x') \<and>
      (m y = m x' \<longrightarrow> view y = view x' \<and> (\<forall>k\<in>set ks. settled y k))"
    using Cons.IH [of x' c'] Cons.prems 1 t by simp
  have "settled y k" if "m y = m x"
    unfolding settled_def using that 1 2 Cons.prems(2) t by (intro exI [of _ x] exI [of _ c]) simp
  note here = this
  show ?case
  proof (intro conjI impI ballI)
    show "inv y" "m y \<le> m x" using 1 2 by simp_all
    have "m y < m x \<longleftrightarrow> m y < m x' \<or> m x' < m x" using 1 2 by auto
    with 1 2 show "d \<longleftrightarrow> c \<or> m y < m x" by blast
    show "view y = view x" if "m y = m x" using 1 2 that by simp
    show "settled y j" if "m y = m x" "j \<in> set (k # ks)" for j
      using 1 2 that here by (cases "j = k") auto
  qed
qed simp

lemma loop_ends:
  assumes "inv x0"
  obtains y where "while_option snd (\<lambda>(x, _). fold turn keys (x, False)) (x0, True) = Some (y, False)"
    "inv y" "\<forall>k\<in>set keys. settled y k"
proof -
  let ?c = "\<lambda>(x, _). fold turn keys (x, False)"
  let ?I = "\<lambda>(x, c). inv x \<and> (\<not> c \<longrightarrow> (\<forall>k\<in>set keys. settled x k))"
  let ?m = "\<lambda>(x, c). 2 * m x + of_bool c"
  have step: "?I (?c s) \<and> ?m (?c s) < ?m s" if "?I s" "snd s" for s
  proof -
    obtain x where s: "s = (x, True)" "inv x" using \<open>?I s\<close> \<open>snd s\<close> by (cases s) auto
    obtain y d where y: "fold turn keys (x, False) = (y, d)" by fastforce
    from sweep [OF subset_refl s(2) y] have r: "inv y" "d \<longleftrightarrow> m y < m x" "m y \<le> m x"
      "m y = m x \<Longrightarrow> \<forall>k\<in>set keys. settled y k"
      by simp_all
    have "?I (y, d)" using r by simp
    moreover have "?m (y, d) < ?m (x, True)" using r(2,3) by (cases d) simp_all
    moreover have "?c s = (y, d)" by (simp add: s(1) y)
    ultimately show ?thesis unfolding s(1) by (simp only:)
  qed
  have start: "?I (x0, True)" using assms by simp
  obtain s where w: "while_option snd ?c (x0, True) = Some s"
    using measure_while_option_Some [of ?I snd ?c ?m, OF step start] by blast
  have "?I s" using while_option_rule [of ?I, OF conjunct1 [OF step] w start] .
  moreover have "\<not> snd s" using while_option_stop [OF w] .
  moreover obtain y d where s: "s = (y, d)" by fastforce
  ultimately have "inv y" "\<forall>k\<in>set keys. settled y k" "d = False" by simp_all
  with w s show ?thesis by (intro that) simp_all
qed

end

text \<open>A loop that stays inside a set of states from which it goes on does not end.\<close>

lemma while_option_cycle:
  assumes "P s" and "\<And>s. P s \<Longrightarrow> b s \<and> P (c s)"
  shows "while_option b c s = None"
proof -
  have "P ((c ^^ k) s)" for k
    by (induction k) (use assms in auto)
  with assms(2) show ?thesis by (auto simp: while_option_def)
qed

subsection \<open>Tables that shrink\<close>

text \<open>A table of sets, one for each block, that is recomputed block by block from the current table.\<close>

definition below :: "'s set list \<Rightarrow> 's set list \<Rightarrow> bool" where
  "below xs ys \<longleftrightarrow> list_all2 (\<subseteq>) xs ys"

lemma below_refl: "below xs xs"
  by (simp add: below_def list_all2_refl)

lemma below_trans: "below xs ys \<Longrightarrow> below ys zs \<Longrightarrow> below xs zs"
  unfolding below_def by (rule list_all2_trans [where ?P1.0 = "(\<subseteq>)"]) auto

lemma below_update: "below xs ys \<Longrightarrow> X \<subseteq> Y \<Longrightarrow> below (xs[b := X]) (ys[b := Y])"
  unfolding below_def by (rule list_all2_update_cong)

lemma below_nth: "below xs ys \<Longrightarrow> b < length xs \<Longrightarrow> xs ! b \<subseteq> ys ! b"
  by (auto simp: below_def list_all2_conv_all_nth)

lemma below_length: "below xs ys \<Longrightarrow> length xs = length ys"
  by (auto simp: below_def dest: list_all2_lengthD)

lemma belowI: "length xs = length ys \<Longrightarrow> (\<And>b. b < length xs \<Longrightarrow> xs ! b \<subseteq> ys ! b) \<Longrightarrow> below xs ys"
  by (auto simp: below_def list_all2_conv_all_nth)

locale shrinking_table =
  fixes T :: "'s set list \<Rightarrow> nat \<Rightarrow> 's set" and nb :: nat and top :: "'s set"
  assumes mono: "\<And>xs ys b. below xs ys \<Longrightarrow> b < nb \<Longrightarrow> length xs = nb \<Longrightarrow> T xs b \<subseteq> T ys b"
    and finite_top: "finite top"
begin

definition shrinks :: "'s set list \<Rightarrow> bool" where
  "shrinks xs \<longleftrightarrow> length xs = nb \<and> (\<forall>b<nb. xs ! b \<subseteq> top \<and> T xs b \<subseteq> xs ! b)"

definition table_turn :: "nat \<Rightarrow> 's set list \<times> bool \<Rightarrow> 's set list \<times> bool" where
  "table_turn b = (\<lambda>(xs, c). (xs[b := T xs b], c \<or> T xs b \<noteq> xs ! b))"

definition table_size :: "'s set list \<Rightarrow> nat" where
  "table_size xs = (\<Sum>b<nb. card (xs ! b))"

lemma shrinks_update:
  assumes "shrinks xs" "b < nb"
  shows "shrinks (xs[b := T xs b])"
proof -
  have le: "below (xs[b := T xs b]) xs"
    using below_update [OF below_refl, of "T xs b" "xs ! b" xs b] assms by (simp add: shrinks_def)
  have "T (xs[b := T xs b]) c \<subseteq> T xs c" if "c < nb" for c
    using mono [OF le that] assms by (simp add: shrinks_def)
  with assms show ?thesis
    by (simp add: shrinks_def list_update_nth_cases) blast
qed

lemma size_update:
  assumes "shrinks xs" "b < nb" "T xs b \<noteq> xs ! b"
  shows "table_size (xs[b := T xs b]) < table_size xs"
proof -
  have fin: "finite (xs ! c)" if "c < nb" for c
    using assms(1) that finite_top by (auto simp: shrinks_def intro: finite_subset)
  have "T xs b \<subset> xs ! b" using assms by (auto simp: shrinks_def)
  then have "card (T xs b) < card (xs ! b)" using fin [OF assms(2)] by (rule psubset_card_mono [rotated])
  moreover have "length xs = nb" using assms(1) by (simp add: shrinks_def)
  ultimately show ?thesis
    unfolding table_size_def using assms(2)
    by (intro sum_strict_mono_ex1) (auto simp: list_update_nth_cases)
qed

text \<open>What every table above \<open>z\<close> keeps, when \<open>z\<close> is not shrunk itself.\<close>

definition above :: "'s set list \<Rightarrow> 's set list \<Rightarrow> bool" where
  "above z xs \<longleftrightarrow> below z xs \<and> (\<forall>b<nb. z ! b \<subseteq> T z b)"

lemma above_update:
  assumes "above z xs" "length xs = nb" "b < nb"
  shows "above z (xs[b := T xs b])"
proof -
  have "T z b \<subseteq> T xs b" using mono [of z xs b] assms below_length [of z xs] by (simp add: above_def)
  then have "below (z[b := z ! b]) (xs[b := T xs b])"
    using assms by (intro below_update) (auto simp: above_def)
  with assms(1) show ?thesis by (simp add: above_def)
qed

lemma table_loop: "changed_loop table_turn [0..<nb] (\<lambda>xs. shrinks xs \<and> above z xs) table_size id"
proof
  fix k x c y d
  assume a: "k \<in> set [0..<nb]" "shrinks x \<and> above z x" "table_turn k (x, c) = (y, d)"
  then have y: "y = x[k := T x k]" and d: "d \<longleftrightarrow> c \<or> T x k \<noteq> x ! k" and k: "k < nb"
    by (auto simp: table_turn_def)
  have inv: "shrinks y \<and> above z y"
    using a(2) k above_update [of z x k] by (auto simp: y shrinks_update) (simp add: shrinks_def)
  show "(shrinks y \<and> above z y) \<and> table_size y \<le> table_size x \<and> (d \<longleftrightarrow> c \<or> table_size y < table_size x) \<and>
      (table_size y = table_size x \<longrightarrow> id y = id x)"
  proof (cases "T x k = x ! k")
    case True
    then have "y = x" by (simp add: y)
    with True inv d show ?thesis by simp
  next
    case False
    with size_update [of x k] a(2) k have "table_size y < table_size x" by (simp add: y)
    with False inv d show ?thesis by simp
  qed
qed

lemma table_ends:
  assumes "shrinks x0" "above z x0"
  obtains y where
    "while_option snd (\<lambda>(x, _). fold table_turn [0..<nb] (x, False)) (x0, True) = Some (y, False)"
    "length y = nb" "\<And>b. b < nb \<Longrightarrow> T y b = y ! b" "below z y" "\<And>b. b < nb \<Longrightarrow> y ! b \<subseteq> top"
proof -
  from changed_loop.loop_ends [OF table_loop, of x0 z] assms obtain y where
    y: "while_option snd (\<lambda>(x, _). fold table_turn [0..<nb] (x, False)) (x0, True) = Some (y, False)"
      "shrinks y \<and> above z y" "\<forall>k\<in>set [0..<nb]. changed_loop.settled table_turn (\<lambda>xs. shrinks xs \<and> above z xs) id y k"
    by blast
  have "T y b = y ! b" if "b < nb" for b
  proof -
    have "changed_loop.settled table_turn (\<lambda>xs. shrinks xs \<and> above z xs) id y b" using y(3) that by simp
    then have "y[b := T y b] = y"
      by (auto simp: changed_loop.settled_def [OF table_loop] table_turn_def)
    with that y(2) show ?thesis by (metis nth_list_update_eq shrinks_def)
  qed
  with y that show ?thesis by (auto simp: shrinks_def above_def)
qed

text \<open>The first table need not shrink at the first key when that one does not depend on the table.\<close>

lemma turns_flag: "fold table_turn ks (x, c) = (y, d) \<Longrightarrow> fold table_turn ks (x, True) = (y, True)"
proof (induction ks arbitrary: x c)
  case (Cons k ks)
  then show ?case using Cons.IH [of "x[k := T x k]"] by (simp add: table_turn_def)
qed simp

lemma table_ends_from:
  assumes "0 < nb" "length x0 = nb" "\<And>x. T x 0 = c0" "shrinks (x0[0 := c0])" "above z (x0[0 := c0])"
  obtains y where
    "while_option snd (\<lambda>(x, _). fold table_turn [0..<nb] (x, False)) (x0, True) = Some (y, False)"
    "length y = nb" "\<And>b. b < nb \<Longrightarrow> T y b = y ! b" "below z y" "\<And>b. b < nb \<Longrightarrow> y ! b \<subseteq> top"
proof -
  let ?x1 = "x0[0 := c0]"
  let ?c = "\<lambda>(x, _). fold table_turn [0..<nb] (x, False)"
  obtain y where y: "while_option snd ?c (?x1, True) = Some (y, False)"
    "length y = nb" "\<And>b. b < nb \<Longrightarrow> T y b = y ! b" "below z y" "\<And>b. b < nb \<Longrightarrow> y ! b \<subseteq> top"
    by (rule table_ends [OF assms(4,5)]) blast
  obtain x' d where d: "fold table_turn [1..<nb] (?x1, False) = (x', d)" by fastforce
  have keys: "[0..<nb] = 0 # [1..<nb]" using assms(1) by (simp add: upt_conv_Cons)
  have t1: "table_turn 0 (?x1, False) = (?x1, False)" using assms(1-3) by (simp add: table_turn_def)
  have t0: "table_turn 0 (x0, False) = (?x1, c0 \<noteq> x0 ! 0)" using assms(3) by (simp add: table_turn_def)
  have s1: "?c (?x1, True) = (x', d)" using keys t1 d by simp
  have "while_option snd ?c (x0, True) = Some (y, False)"
  proof (cases "c0 \<noteq> x0 ! 0 \<and> \<not> d")
    case False
    then have "?c (x0, True) = (x', d)"
      using keys t0 d turns_flag [OF d] by (cases d; cases "c0 = x0 ! 0") simp_all
    with y(1) s1 show ?thesis by (simp add: while_option_unfold [of snd ?c "(x0, True)"] while_option_unfold [of snd ?c "(?x1, True)"])
  next
    case True
    then have s0: "?c (x0, True) = (x', True)" using keys t0 turns_flag [OF d] by simp
    have y': "y = x'" using y(1) s1 True by (simp add: while_option_unfold [of snd ?c "(?x1, True)"] while_option_unfold [of snd ?c "(x', False)"])
    have "table_turn b (y, False) = (y, False)" if "b \<in> set [0..<nb]" for b
      using y(2,3) that by (simp add: table_turn_def)
    then have "fold table_turn ks (y, False) = (y, False)" if "set ks \<subseteq> set [0..<nb]" for ks
      using that by (induction ks) auto
    then have "?c (y, True) = (y, False)" by simp
    then have "while_option snd ?c (y, True) = Some (y, False)"
      by (simp add: while_option_unfold [of snd ?c "(y, True)"] while_option_unfold [of snd ?c "(y, False)"])
    with s0 y' show ?thesis by (simp add: while_option_unfold [of snd ?c "(x0, True)"])
  qed
  with y show ?thesis by (intro that) auto
qed

end

end
