(* ===== verification/BorrowReturns.thy ===== *)
theory BorrowReturns
  imports Summaries Samples ChangedLoop
begin

text \<open>
  Two functions on which \<open>returns_borrow\<close> of \<open>mir/optimizations/ownership/summaries.rs\<close> goes wrong. It joins the
  states at the ends of the predecessors and then applies the statements of the predecessors once more.
\<close>

subsection \<open>A borrow that is missed\<close>

text \<open>
  The parameter is copied, overwritten and the copy returned: the result is the object of the caller, but on
  the second application the copy is taken from the overwritten parameter.
\<close>

definition keep_param :: mir_function where
  "keep_param = func [TList TInt, TList TInt, TList TInt] 1
     [block [Assign 2 (Use (Copy 1)), Assign 1 (Aggregate AggList [])] (Goto 1),
      block [Assign 0 (Use (Copy 2))] Return]"

definition keep_param_straight :: mir_function where
  "keep_param_straight = func [TList TInt, TList TInt, TList TInt] 1
     [block [Assign 2 (Use (Copy 1)), Assign 1 (Aggregate AggList []), Assign 0 (Use (Copy 2))] Return]"

lemma changed_loop_done: "while_option snd (\<lambda>(x, _). g x) (x, False) = Some (x, False)"
  by (simp add: while_option_unfold)

lemma changed_loop_step: "while_option snd (\<lambda>(x, _). g x) (x, True) = while_option snd (\<lambda>(x, _). g x) (g x)"
  by (subst while_option_unfold) simp

lemmas small_fn = sample_defs taint_params_def borrow_turn_def borrow_block_def borrow_preds_def bb_succs_def
  upt_rec eval_nat_numeral

lemma returned_borrow_missed:
  "returns_borrow keep_param_straight {} = Some True \<and> returns_borrow keep_param {} = Some False"
  by (simp add: returns_borrow_def keep_param_def keep_param_straight_def Let_def small_fn changed_loop_step
      changed_loop_done)

subsection \<open>A loop that does not end\<close>

text \<open>
  The parameter is overwritten before a loop that passes three lists round. Every block starts with the
  parameter as a borrow, and in the loop this mark is passed round for ever.
\<close>

definition turn_round :: mir_function where
  "turn_round = func [TList TInt, TList TInt, TList TInt, TList TInt, TList TInt, TBool] 1
     [block [Assign 1 (Aggregate AggList []), Assign 2 (Aggregate AggList []), Assign 3 (Aggregate AggList [])]
        (Goto 1),
      block [] (SwitchInt (Copy 5) [(0, 3)] 2),
      block [Assign 4 (Use (Copy 1)), Assign 1 (Use (Copy 2)), Assign 2 (Use (Copy 3)), Assign 3 (Use (Copy 4))]
        (Goto 1),
      block [Assign 0 (Use (Copy 1))] Return]"

definition marks :: "nat list \<Rightarrow> bool list" where
  "marks ls = map (\<lambda>l. l \<in> set ls) [0..<6]"

definition turn_state :: "nat list list \<Rightarrow> nat list list \<Rightarrow> borrow_tables" where
  "turn_state entry out = (map marks entry, map marks out)"

abbreviation turn_sweep :: "borrow_tables \<Rightarrow> borrow_tables \<times> bool" where
  "turn_sweep tables \<equiv> fold (borrow_turn turn_round {} 1) [0..<4] (tables, False)"

lemmas turn_defs = turn_round_def small_fn turn_state_def marks_def

definition round_start :: borrow_tables where
  "round_start = turn_state [[1], [1], [1], [1]] [[1], [1], [1], [1]]"

definition round_a :: borrow_tables where
  "round_a = turn_state [[1], [3, 4], [3, 4], [3, 4]] [[], [3, 4], [2], [3, 4]]"

definition round_b :: borrow_tables where
  "round_b = turn_state [[1], [1], [1], [1]] [[], [1], [3, 4], [0, 1]]"

definition round_c :: borrow_tables where
  "round_c = turn_state [[1], [2], [2], [2]] [[], [2], [1], [2]]"

lemma turn_sweeps:
  "turn_sweep round_start = (round_a, True)"
  "turn_sweep round_a = (round_b, True)"
  "turn_sweep round_b = (round_c, True)"
  "turn_sweep round_c = (round_a, True)"
  by (code_simp, code_simp, code_simp, code_simp)

theorem returned_borrow_diverges: "returns_borrow turn_round {} = None"
proof -
  let ?P = "\<lambda>s. s \<in> {(round_a, True), (round_b, True), (round_c, True)}"
  have next_round: "snd s \<and> ?P (case s of (tables, _) \<Rightarrow> turn_sweep tables)" if "?P s" for s
    using that by (elim insertE emptyE) (simp_all only: turn_sweeps prod.case snd_conv insert_iff simp_thms)
  have "while_option snd (\<lambda>(tables, _). turn_sweep tables) (round_a, True) = None"
    by (rule while_option_cycle [where P = ?P]) (simp, rule next_round)
  then have "while_option snd (\<lambda>(tables, _). turn_sweep tables) (round_start, True) = None"
    by (subst while_option_unfold) (simp only: turn_sweeps prod.case snd_conv if_True)
  moreover have "(replicate 4 (taint_params 1 (replicate 6 False)), replicate 4 (taint_params 1 (replicate 6 False)))
      = round_start"
    by code_simp
  moreover have "length (locals turn_round) = 6" "length (basic_blocks turn_round) = 4" "arg_count turn_round = 1"
    "is_move_type (decl_ty (hd (locals turn_round)))" "locals turn_round \<noteq> []"
    by (simp_all add: turn_round_def loc_def)
  ultimately show ?thesis
    by (simp only: returns_borrow_def Let_def) simp
qed

end
