(* ===== verification/GenCheck.thy ===== *)
theory GenCheck
  imports Summaries
begin

text \<open>
  Insertion of generation checks (\<open>mir/optimizations/gencheck/mod.rs\<close>) and the proof of definite staleness
  (\<open>gencheck/must_stale.rs\<close>). The vector of proven suspects of \<open>solve\<close> is the set of the suspects that are
  proven; the sets of roots are sets. A loop that runs until nothing changes is a \<open>while_option\<close>. Locals are
  declared (\<open>wf_locals\<close>) and targets exist (\<open>wf_edges\<close>), so no index is out of range.
\<close>

subsection \<open>Types whose borrows are checked\<close>

definition non_null :: "ty list \<Rightarrow> ty list" where
  "non_null members = filter (\<lambda>m. m \<noteq> TNull) members"

lemma non_null_size: "non_null ms = [m] \<Longrightarrow> size m < Suc (size_list size ms)"
proof -
  assume "non_null ms = [m]"
  then have "m \<in> set (non_null ms)" by simp
  then have "m \<in> set ms" by (simp add: non_null_def)
  then show ?thesis by (simp add: less_Suc_eq_le size_list_estimation')
qed

function slab_backed :: "ty \<Rightarrow> bool" where
  "slab_backed t =
     (case t of
        TList _ \<Rightarrow> True
      | TTuple _ \<Rightarrow> True
      | TSet _ \<Rightarrow> True
      | TDict _ _ \<Rightarrow> True
      | TEnum _ _ \<Rightarrow> True
      | TBytes \<Rightarrow> True
      | TUnion members \<Rightarrow> (case non_null members of [m] \<Rightarrow> slab_backed m | _ \<Rightarrow> False)
      | _ \<Rightarrow> False)"
  by auto
termination slab_backed by (relation "measure size") (auto dest: non_null_size)

function str_backed :: "ty \<Rightarrow> bool" where
  "str_backed t =
     (case t of
        TStr \<Rightarrow> True
      | TUnion members \<Rightarrow> (case non_null members of [m] \<Rightarrow> str_backed m | _ \<Rightarrow> False)
      | _ \<Rightarrow> False)"
  by auto
termination str_backed by (relation "measure size") (auto dest: non_null_size)

function struct_backed :: "ty \<Rightarrow> bool" where
  "struct_backed t =
     (case t of
        TStruct _ _ is_ffi \<Rightarrow> \<not> is_ffi
      | TFn _ _ _ \<Rightarrow> True
      | TUnion members \<Rightarrow> (case non_null members of [m] \<Rightarrow> struct_backed m | _ \<Rightarrow> False)
      | _ \<Rightarrow> False)"
  by auto
termination struct_backed by (relation "measure size") (auto dest: non_null_size)

declare slab_backed.simps [simp del] str_backed.simps [simp del] struct_backed.simps [simp del]

definition checkable :: "ty \<Rightarrow> bool" where
  "checkable t \<longleftrightarrow> slab_backed t \<or> str_backed t \<or> struct_backed t"

definition has_prefix :: "string \<Rightarrow> string \<Rightarrow> bool" where
  "has_prefix p s \<longleftrightarrow> take (length p) s = p"

fun is_safe_call :: "operand \<Rightarrow> bool" where
  "is_safe_call (Constant (CFunction name)) \<longleftrightarrow>
     has_prefix ''__olive_'' name \<and> \<not> has_prefix ''__olive_aio'' name"
| "is_safe_call _ \<longleftrightarrow> False"

subsection \<open>Suspects\<close>

record suspect_info =
  si_suspect :: bool
  si_elem_def :: bool
  si_unknown :: bool
  si_roots :: "local set"
  si_borrow_span :: "span option"

type_synonym infos = "suspect_info list"

definition no_suspect :: suspect_info where
  "no_suspect = \<lparr>si_suspect = False, si_elem_def = False, si_unknown = False, si_roots = {},
     si_borrow_span = None\<rparr>"

definition get_or_insert :: "span \<Rightarrow> span option \<Rightarrow> span option" where
  "get_or_insert sp opt = (case opt of None \<Rightarrow> Some sp | Some s \<Rightarrow> Some s)"

text \<open>A local is marked as a suspect at a statement.\<close>

definition suspect_at :: "span \<Rightarrow> suspect_info \<Rightarrow> suspect_info" where
  "suspect_at sp si = si\<lparr>si_suspect := True, si_borrow_span := get_or_insert sp (si_borrow_span si)\<rparr>"

definition tracked :: "mir_function \<Rightarrow> local \<Rightarrow> bool" where
  "tracked f l \<longleftrightarrow> l < length (locals f) \<and>
     (let t = decl_ty (locals f ! l) in is_move_type t \<or> t = TAny)"

definition escape :: "mir_function \<Rightarrow> span \<Rightarrow> operand \<Rightarrow> local option \<Rightarrow> infos \<Rightarrow> infos" where
  "escape f sp p owner info =
     (case op_local p of
        l # _ \<Rightarrow>
          (if l \<noteq> 0 \<and> tracked f l
           then info[l := (case owner of
               Some c \<Rightarrow> suspect_at sp (info ! l)\<lparr>si_roots := insert c (si_roots (info ! l))\<rparr>
             | None \<Rightarrow> suspect_at sp (info ! l)\<lparr>si_unknown := True\<rparr>)]
           else info)
      | [] \<Rightarrow> info)"

definition op_owner :: "operand \<Rightarrow> local option" where
  "op_owner p = (case op_local p of l # _ \<Rightarrow> Some l | [] \<Rightarrow> None)"

text \<open>What a statement gives away.\<close>

definition collect_escapes :: "escapes \<Rightarrow> mir_function \<Rightarrow> statement \<Rightarrow> infos \<Rightarrow> infos" where
  "collect_escapes pe f s info =
     (case kind s of
        SetIndex ob _ v _ \<Rightarrow> escape f (span_of s) v (op_owner ob) info
      | SetAttr ob _ v \<Rightarrow> escape f (span_of s) v (op_owner ob) info
      | Assign dst (Aggregate k ops) \<Rightarrow>
          (if k \<noteq> AggFatPtr then fold (\<lambda>p. escape f (span_of s) p (Some dst)) ops info else info)
      | Assign _ (Call (Constant (CFunction callee)) args) \<Rightarrow>
          fold (\<lambda>(i, p) acc.
              if runtime_escape callee i \<or> escapes_at pe callee i then escape f (span_of s) p None acc else acc)
            (enumerate 0 args) info
      | _ \<Rightarrow> info)"

text \<open>What a definition borrows or takes over.\<close>

definition elem_borrow :: "span \<Rightarrow> local \<Rightarrow> operand \<Rightarrow> infos \<Rightarrow> infos" where
  "elem_borrow sp dst base info =
     info[dst := (suspect_at sp (info ! dst))\<lparr>si_elem_def := True,
        si_roots := set (op_local base) \<union> si_roots (info ! dst)\<rparr>]"

definition collect_borrows ::
  "string set \<Rightarrow> mir_function \<Rightarrow> statement \<Rightarrow> infos \<times> (local \<times> local) list \<Rightarrow> infos \<times> (local \<times> local) list" where
  "collect_borrows br f s ia =
     (case ia of (info, aliases) \<Rightarrow>
       (case kind s of
          Assign dst rv \<Rightarrow>
            (if dst = 0 \<or> \<not> tracked f dst then (info, aliases)
             else (case rv of
                 Use (Copy src) \<Rightarrow>
                   (if tracked f src \<and> src \<noteq> dst
                    then (info[dst := (suspect_at (span_of s) (info ! dst))
                                \<lparr>si_roots := insert src (si_roots (info ! dst))\<rparr>], aliases @ [(dst, src)])
                    else (info, aliases))
               | Use (Move src) \<Rightarrow>
                   (if tracked f src \<and> src \<noteq> dst
                    then (info[src := (info ! src)\<lparr>si_roots := insert dst (si_roots (info ! src))\<rparr>],
                          aliases @ [(dst, src)])
                    else (info, aliases))
               | GetIndex base _ _ \<Rightarrow> (elem_borrow (span_of s) dst base info, aliases)
               | GetAttr base _ \<Rightarrow> (elem_borrow (span_of s) dst base info, aliases)
               | FatPtrData base \<Rightarrow> (elem_borrow (span_of s) dst base info, aliases)
               | VTableLoad base _ \<Rightarrow> (elem_borrow (span_of s) dst base info, aliases)
               | Call (Constant (CFunction name)) _ \<Rightarrow>
                   (if name \<in> br
                    then (info[dst := (suspect_at (span_of s) (info ! dst))\<lparr>si_unknown := True\<rparr>], aliases)
                    else (info, aliases))
               | _ \<Rightarrow> (info, aliases)))
        | _ \<Rightarrow> (info, aliases)))"

definition collect_suspects ::
  "escapes \<Rightarrow> string set \<Rightarrow> mir_function \<Rightarrow> infos \<times> (local \<times> local) list" where
  "collect_suspects pe br f =
     fold (\<lambda>s (info, aliases). collect_borrows br f s (collect_escapes pe f s info, aliases))
       (concat (map statements (basic_blocks f))) (replicate (length (locals f)) no_suspect, [])"

text \<open>One half of an alias pair takes over what the other half has.\<close>

definition share_with :: "local \<Rightarrow> local \<Rightarrow> infos \<times> bool \<Rightarrow> infos \<times> bool" where
  "share_with x y ic =
     (case ic of (info, changed) \<Rightarrow>
        (let ix = info ! x; iy = info ! y;
             new = ix\<lparr>si_suspect := si_suspect ix \<or> si_suspect iy,
                       si_borrow_span := (if si_borrow_span ix = None then si_borrow_span iy else si_borrow_span ix),
                       si_unknown := si_unknown ix \<or> si_unknown iy,
                       si_roots := si_roots ix \<union> (si_roots iy - {x})\<rparr>
         in (info[x := new], changed \<or> new \<noteq> ix)))"

definition merge_aliases :: "(local \<times> local) list \<Rightarrow> infos \<Rightarrow> infos option" where
  "merge_aliases aliases info =
     map_option fst
       (while_option snd
          (\<lambda>(info, _). fold (\<lambda>(a, b) ic. share_with b a (share_with a b ic)) aliases (info, False))
          (info, True))"

text \<open>The roots of a local are visited in ascending order here, in the order of the hash set in the source.\<close>

definition close_root :: "local \<Rightarrow> local \<Rightarrow> infos \<times> bool \<Rightarrow> infos \<times> bool" where
  "close_root i r ic =
     (case ic of (info, changed) \<Rightarrow>
        (if r = i then (info, changed)
         else
           (let old = info ! i;
                new = old\<lparr>si_unknown := si_unknown old \<or> si_unknown (info ! r),
                           si_roots := si_roots old \<union> (si_roots (info ! r) - {i})\<rparr>
            in (info[i := new], changed \<or> new \<noteq> old))))"

definition close_roots :: "infos \<Rightarrow> infos option" where
  "close_roots info =
     map_option fst
       (while_option snd
          (\<lambda>(cur, _).
             fold (\<lambda>i (cur, changed). fold (close_root i) (sorted_list_of_set (si_roots (cur ! i))) (cur, changed))
               [0..<length info] (cur, False))
          (info, True))"

subsection \<open>Uses and edges\<close>

definition read_locals :: "statement_kind \<Rightarrow> local list" where
  "read_locals k =
     (case k of
        Assign _ rv \<Rightarrow> rvalue_operand_locals rv
      | SetAttr a _ b \<Rightarrow> op_local a @ op_local b
      | PtrStore a b \<Rightarrow> op_local a @ op_local b
      | SetIndex a b c _ \<Rightarrow> op_local a @ op_local b @ op_local c
      | VectorStore a b c \<Rightarrow> op_local a @ op_local b @ op_local c
      | _ \<Rightarrow> [])"

definition predecessors :: "mir_function \<Rightarrow> bb_id \<Rightarrow> bb_id list" where
  "predecessors f b =
     concat (map (\<lambda>i. replicate (count_list (bb_succs (basic_blocks f ! i)) b) i) [0..<length (basic_blocks f)])"

definition switched_local :: "terminator option \<Rightarrow> local option" where
  "switched_local t =
     (case t of
        None \<Rightarrow> None
      | Some t \<Rightarrow> (case term_kind t of SwitchInt discr _ _ \<Rightarrow> op_owner discr | _ \<Rightarrow> None))"

subsection \<open>Where a check is needed\<close>

text \<open>
  A place is a block and the index of a statement in it, or the end of the block (\<open>usize::MAX\<close> in the
  source), with the local to check.
\<close>

datatype place = At nat | AtEnd

type_synonym site = "bb_id \<times> place \<times> local"

text \<open>Reading: every suspect that is read and not proven is checked, and proven then.\<close>

fun prove_uses :: "local set \<Rightarrow> bb_id \<Rightarrow> place \<Rightarrow> local list \<Rightarrow> local set \<times> site list \<Rightarrow> local set \<times> site list" where
  "prove_uses suspects b p [] st = st"
| "prove_uses suspects b p (l # ls) (proven, sites) =
     prove_uses suspects b p ls
       (if l \<in> suspects \<and> l \<notin> proven then (insert l proven, sites @ [(b, p, l)]) else (proven, sites))"

definition act :: "infos \<Rightarrow> local set \<Rightarrow> statement_kind \<Rightarrow> local set \<Rightarrow> local set" where
  "act info suspects k proven =
     (case k of
        Assign dst rv \<Rightarrow>
          (let kept = (case rv of
                 Call callee _ \<Rightarrow> if is_safe_call callee then proven else {l \<in> proven. \<not> si_unknown (info ! l)}
               | _ \<Rightarrow> proven)
           in if dst \<in> suspects then insert dst kept else kept)
      | Drop dropped \<Rightarrow> {l \<in> proven. \<not> (si_unknown (info ! l) \<or> dropped \<in> si_roots (info ! l))}
      | _ \<Rightarrow> proven)"

fun transfer_stmts ::
  "infos \<Rightarrow> local set \<Rightarrow> bb_id \<Rightarrow> nat \<Rightarrow> statement list \<Rightarrow> local set \<times> site list \<Rightarrow> local set \<times> site list" where
  "transfer_stmts info suspects b i [] st = st"
| "transfer_stmts info suspects b i (s # ss) st =
     (case prove_uses suspects b (At i) (read_locals (kind s)) st of (proven, sites) \<Rightarrow>
        transfer_stmts info suspects b (Suc i) ss (act info suspects (kind s) proven, sites))"

definition transfer_block ::
  "mir_function \<Rightarrow> bb_id \<Rightarrow> infos \<Rightarrow> local set \<Rightarrow> local set \<times> site list \<Rightarrow> local set \<times> site list" where
  "transfer_block f b info suspects st =
     (let bb = basic_blocks f ! b
      in prove_uses suspects b AtEnd (case switched_local (terminator bb) of None \<Rightarrow> [] | Some l \<Rightarrow> [l])
           (transfer_stmts info suspects b 0 (statements bb) st))"

definition join_proven :: "mir_function \<Rightarrow> local set \<Rightarrow> local set list \<Rightarrow> bb_id \<Rightarrow> local set" where
  "join_proven f suspects out b =
     (case predecessors f b of [] \<Rightarrow> suspects | p # ps \<Rightarrow> fold (\<lambda>q s. s \<inter> out ! q) ps (out ! p))"

definition solve_turn ::
  "mir_function \<Rightarrow> infos \<Rightarrow> local set \<Rightarrow> bb_id \<Rightarrow> local set list \<times> bool \<Rightarrow> local set list \<times> bool" where
  "solve_turn f info suspects b st =
     (case st of (out, changed) \<Rightarrow>
        (let state = fst (transfer_block f b info suspects (join_proven f suspects out b, []))
         in (out[b := state], changed \<or> state \<noteq> out ! b)))"

definition solve_loop :: "mir_function \<Rightarrow> infos \<Rightarrow> local set \<Rightarrow> local set list option" where
  "solve_loop f info suspects =
     (let nb = length (basic_blocks f)
      in map_option fst
           (while_option snd (\<lambda>(out, _). fold (solve_turn f info suspects) [0..<nb] (out, False))
              (replicate nb suspects, True)))"

definition solve :: "mir_function \<Rightarrow> infos \<Rightarrow> local set \<Rightarrow> site list option" where
  "solve f info suspects =
     map_option (\<lambda>out.
        fold (\<lambda>b sites. snd (transfer_block f b info suspects (join_proven f suspects out b, sites)))
          [0..<length (basic_blocks f)] [])
       (solve_loop f info suspects)"


subsection \<open>Definite staleness\<close>

text \<open>
  One bit for each root of an eligible suspect, in ascending order of the roots. \<open>mi_roots\<close> has the
  roots of each eligible suspect.
\<close>

record must_info =
  mi_suspects :: "local list"
  mi_roots :: "local list list"

definition max_roots :: nat where
  "max_roots = 64"

definition full_mask_for :: "nat \<Rightarrow> u64" where
  "full_mask_for len = (if len \<ge> 64 then - 1 else push_bit len 1 - 1)"

definition build_must_info :: "mir_function \<Rightarrow> infos \<Rightarrow> must_info" where
  "build_must_info f info =
     (let suspects = filter (\<lambda>i. i \<noteq> 0 \<and> si_suspect (info ! i) \<and> \<not> si_unknown (info ! i) \<and>
                 checkable (decl_ty (locals f ! i)) \<and> si_roots (info ! i) \<noteq> {} \<and>
                 card (si_roots (info ! i)) \<le> max_roots) [0..<length info]
      in \<lparr>mi_suspects = suspects, mi_roots = map (\<lambda>i. sorted_list_of_set (si_roots (info ! i))) suspects\<rparr>)"

definition index_of :: "must_info \<Rightarrow> local \<Rightarrow> nat option" where
  "index_of mi l = (let i = length (takeWhile (\<lambda>x. x \<noteq> l) (mi_suspects mi))
                    in if i < length (mi_suspects mi) then Some i else None)"

definition full_mask :: "must_info \<Rightarrow> nat \<Rightarrow> u64" where
  "full_mask mi s = full_mask_for (length (mi_roots mi ! s))"

text \<open>The suspects that a root backs, with its bit in each.\<close>

definition backed_by :: "must_info \<Rightarrow> local \<Rightarrow> (nat \<times> nat) list" where
  "backed_by mi r =
     concat (map (\<lambda>(s, roots). map (\<lambda>(b, _). (s, b)) (filter (\<lambda>(_, q). q = r) (enumerate 0 roots)))
       (enumerate 0 (mi_roots mi)))"

record must_stale_use =
  ms_bb :: bb_id
  ms_place :: place
  ms_local :: local
  ms_free_span :: span

type_synonym must_state = "u64 list \<times> span option list"

definition self_move_exempt :: "must_info \<Rightarrow> statement_kind \<Rightarrow> (nat \<times> u64) option" where
  "self_move_exempt mi k =
     (case k of
        Assign dst (Use (Move src)) \<Rightarrow>
          (case index_of mi src of
             Some s \<Rightarrow> map_option (\<lambda>(_, b). (s, push_bit b 1)) (find (\<lambda>(si, _). si = s) (backed_by mi dst))
           | None \<Rightarrow> None)
      | _ \<Rightarrow> None)"

definition stale_reads ::
  "must_info \<Rightarrow> bb_id \<Rightarrow> place \<Rightarrow> (nat \<times> u64) option \<Rightarrow> span \<Rightarrow> local list \<Rightarrow> must_state \<Rightarrow> must_stale_use list" where
  "stale_reads mi b p exempt sp ls st =
     (case st of (masks, spans) \<Rightarrow>
        concat (map (\<lambda>l.
          (case index_of mi l of
             None \<Rightarrow> []
           | Some s \<Rightarrow>
               (let effective = (case exempt of
                      Some (es, bits) \<Rightarrow> if es = s then masks ! s AND NOT bits else masks ! s
                    | None \<Rightarrow> masks ! s)
                in if effective = full_mask mi s
                   then [\<lparr>ms_bb = b, ms_place = p, ms_local = l,
                          ms_free_span = (case spans ! s of Some fs \<Rightarrow> fs | None \<Rightarrow> sp)\<rparr>]
                   else []))) ls))"

definition forget_root :: "nat \<times> nat \<Rightarrow> must_state \<Rightarrow> must_state" where
  "forget_root sb st =
     (case (sb, st) of ((s, b), (masks, spans)) \<Rightarrow>
        (let m = masks ! s AND NOT (push_bit b 1)
         in (masks[s := m], if m = 0 then spans[s := None] else spans)))"

definition drop_root :: "span \<Rightarrow> nat \<times> nat \<Rightarrow> must_state \<Rightarrow> must_state" where
  "drop_root sp sb st =
     (case (sb, st) of ((s, b), (masks, spans)) \<Rightarrow> (masks[s := masks ! s OR push_bit b 1], spans[s := Some sp]))"

definition must_act :: "must_info \<Rightarrow> statement \<Rightarrow> must_state \<Rightarrow> must_state" where
  "must_act mi s st =
     (case kind s of
        Assign dst _ \<Rightarrow>
          (let st1 = (case index_of mi dst of
                Some i \<Rightarrow> (case st of (masks, spans) \<Rightarrow> (masks[i := 0], spans[i := None]))
              | None \<Rightarrow> st)
           in fold forget_root (backed_by mi dst) st1)
      | Drop dropped \<Rightarrow> fold (drop_root (span_of s)) (backed_by mi dropped) st
      | _ \<Rightarrow> st)"

fun must_stmts ::
  "must_info \<Rightarrow> bb_id \<Rightarrow> nat \<Rightarrow> statement list \<Rightarrow> must_state \<times> must_stale_use list \<Rightarrow>
   must_state \<times> must_stale_use list" where
  "must_stmts mi b i [] r = r"
| "must_stmts mi b i (s # ss) (st, hits) =
     must_stmts mi b (Suc i) ss
       (must_act mi s st,
        hits @ stale_reads mi b (At i) (self_move_exempt mi (kind s)) (span_of s) (read_locals (kind s)) st)"

definition must_block ::
  "mir_function \<Rightarrow> must_info \<Rightarrow> bb_id \<Rightarrow> must_state \<times> must_stale_use list \<Rightarrow>
   must_state \<times> must_stale_use list" where
  "must_block f mi b r =
     (let bb = basic_blocks f ! b;
          (st, hits) = must_stmts mi b 0 (statements bb) r
      in case terminator bb of
           None \<Rightarrow> (st, hits)
         | Some t \<Rightarrow>
             (st, hits @ stale_reads mi b AtEnd None (term_span t)
                (case switched_local (Some t) of None \<Rightarrow> [] | Some l \<Rightarrow> [l]) st))"

definition merge_preds :: "mir_function \<Rightarrow> nat \<Rightarrow> must_state list \<Rightarrow> bb_id \<Rightarrow> must_state" where
  "merge_preds f k out b =
     (case predecessors f b of
        [] \<Rightarrow> (replicate k 0, replicate k None)
      | p # ps \<Rightarrow>
          fold (\<lambda>q (masks, spans).
              (map2 (AND) masks (fst (out ! q)), map2 (\<lambda>a c. if a = None then c else a) spans (snd (out ! q))))
            ps (out ! p))"

text \<open>The spans are written back on every turn, but only the masks decide whether something changed.\<close>

definition must_turn ::
  "mir_function \<Rightarrow> must_info \<Rightarrow> bb_id \<Rightarrow> must_state list \<times> bool \<Rightarrow> must_state list \<times> bool" where
  "must_turn f mi b oc =
     (case oc of (out, changed) \<Rightarrow>
        (let st = fst (must_block f mi b (merge_preds f (length (mi_suspects mi)) out b, []))
         in (out[b := st], changed \<or> fst st \<noteq> fst (out ! b))))"

definition must_start :: "mir_function \<Rightarrow> must_info \<Rightarrow> must_state list" where
  "must_start f mi =
     (let k = length (mi_suspects mi)
      in map (\<lambda>b. (if predecessors f b = [] then replicate k 0 else map (full_mask mi) [0..<k], replicate k None))
           [0..<length (basic_blocks f)])"

definition must_loop :: "mir_function \<Rightarrow> must_info \<Rightarrow> must_state list option" where
  "must_loop f mi =
     map_option fst
       (while_option snd
          (\<lambda>(out, _). fold (must_turn f mi) [0..<length (basic_blocks f)] (out, False))
          (must_start f mi, True))"

definition find_must_stale :: "mir_function \<Rightarrow> infos \<Rightarrow> must_stale_use list option" where
  "find_must_stale f info =
     (let mi = build_must_info f info; k = length (mi_suspects mi)
      in if mi_suspects mi = [] \<or> basic_blocks f = [] then Some []
         else map_option (\<lambda>out.
                fold (\<lambda>b hits. snd (must_block f mi b (merge_preds f k out b, hits))) [0..<length (basic_blocks f)] [])
              (must_loop f mi))"

subsection \<open>The checks themselves\<close>

definition gen_decl :: local_decl where
  "gen_decl = \<lparr>decl_ty = TInt, decl_name = None, decl_span = default_span, is_mut = True, is_owning = True\<rparr>"

definition checked_locals :: "site list \<Rightarrow> local list" where
  "checked_locals sites = sorted_list_of_set (set (map (\<lambda>(_, _, l). l) sites))"

text \<open>The local that holds the generation of the checked local \<open>l\<close>.\<close>

definition gen_of :: "mir_function \<Rightarrow> local list \<Rightarrow> local \<Rightarrow> local" where
  "gen_of f checked l = length (locals f) + length (takeWhile (\<lambda>x. x \<noteq> l) checked)"

definition check_stmt :: "mir_function \<Rightarrow> local list \<Rightarrow> span \<Rightarrow> local \<Rightarrow> statement" where
  "check_stmt f checked sp l = \<lparr>kind = GenCheck l (gen_of f checked l), span_of = sp\<rparr>"

definition capture_stmt :: "mir_function \<Rightarrow> local list \<Rightarrow> span \<Rightarrow> local \<Rightarrow> statement" where
  "capture_stmt f checked sp l = \<lparr>kind = Assign (gen_of f checked l) (GenOf (Copy l)), span_of = sp\<rparr>"

definition zero_stmt :: "mir_function \<Rightarrow> local list \<Rightarrow> local \<Rightarrow> statement" where
  "zero_stmt f checked l = \<lparr>kind = Assign (gen_of f checked l) (Use (Constant (CInt 0))), span_of = default_span\<rparr>"

definition sites_at :: "site list \<Rightarrow> bb_id \<Rightarrow> place \<Rightarrow> local list" where
  "sites_at sites b p = map (\<lambda>(_, _, l). l) (filter (\<lambda>(b', p', _). b' = b \<and> p' = p) sites)"

definition rebuilt_stmt :: "mir_function \<Rightarrow> site list \<Rightarrow> bb_id \<Rightarrow> nat \<Rightarrow> statement \<Rightarrow> statement list" where
  "rebuilt_stmt f sites b i s =
     (let checked = checked_locals sites
      in map (check_stmt f checked (span_of s)) (sites_at sites b (At i)) @ [s] @
         (case kind s of
            Assign dst _ \<Rightarrow> if dst \<in> set checked then [capture_stmt f checked (span_of s) dst] else []
          | _ \<Rightarrow> []))"

fun rebuilt_stmts :: "mir_function \<Rightarrow> site list \<Rightarrow> bb_id \<Rightarrow> nat \<Rightarrow> statement list \<Rightarrow> statement list" where
  "rebuilt_stmts f sites b i [] = []"
| "rebuilt_stmts f sites b i (s # ss) = rebuilt_stmt f sites b i s @ rebuilt_stmts f sites b (Suc i) ss"

definition entry_stmts :: "mir_function \<Rightarrow> infos \<Rightarrow> site list \<Rightarrow> statement list" where
  "entry_stmts f info sites =
     (let checked = checked_locals sites
      in map (zero_stmt f checked) checked @
         map (capture_stmt f checked default_span)
           (filter (\<lambda>l. l \<ge> 1 \<and> l \<le> arg_count f \<and> si_suspect (info ! l)) checked))"

definition rebuilt_block :: "mir_function \<Rightarrow> infos \<Rightarrow> site list \<Rightarrow> bb_id \<Rightarrow> basic_block" where
  "rebuilt_block f info sites b =
     (let bb = basic_blocks f ! b;
          term_sp = (case terminator bb of Some t \<Rightarrow> term_span t | None \<Rightarrow> default_span)
      in bb\<lparr>statements :=
           (if b = 0 then entry_stmts f info sites else []) @
           rebuilt_stmts f sites b 0 (statements bb) @
           map (check_stmt f (checked_locals sites) term_sp) (sites_at sites b AtEnd)\<rparr>)"

definition insert_checks :: "mir_function \<Rightarrow> infos \<Rightarrow> site list \<Rightarrow> mir_function" where
  "insert_checks f info sites =
     f\<lparr>locals := locals f @ replicate (length (checked_locals sites)) gen_decl,
       basic_blocks := map (rebuilt_block f info sites) [0..<length (basic_blocks f)]\<rparr>"

subsection \<open>The pass\<close>

text \<open>A report of E0708: the use, the place where the value was borrowed, the one where it was freed.\<close>

record stale_report =
  sr_use :: span
  sr_borrow :: span
  sr_free :: span
  sr_function :: string

definition e0708_for :: "mir_function \<Rightarrow> infos \<Rightarrow> must_stale_use \<Rightarrow> stale_report" where
  "e0708_for f info hit =
     \<lparr>sr_use = (case ms_place hit of
          AtEnd \<Rightarrow> (case terminator (basic_blocks f ! ms_bb hit) of Some t \<Rightarrow> term_span t | None \<Rightarrow> default_span)
        | At i \<Rightarrow> span_of (statements (basic_blocks f ! ms_bb hit) ! i)),
      sr_borrow = (case si_borrow_span (info ! ms_local hit) of Some sp \<Rightarrow> sp | None \<Rightarrow> default_span),
      sr_free = ms_free_span hit, sr_function = fn_name f\<rparr>"

definition closed_info :: "escapes \<Rightarrow> string set \<Rightarrow> mir_function \<Rightarrow> infos option" where
  "closed_info pe br f =
     (case collect_suspects pe br f of (info, aliases) \<Rightarrow>
        do { merged \<leftarrow> merge_aliases aliases info; close_roots merged })"

definition suspects_of :: "mir_function \<Rightarrow> infos \<Rightarrow> local list" where
  "suspects_of f info =
     filter (\<lambda>i. i \<noteq> 0 \<and> si_suspect (info ! i) \<and> checkable (decl_ty (locals f ! i))) [0..<length (locals f)]"

text \<open>
  The function with its checks, the reports, and whether something was done. The list of birth checks of
  the source stays empty.
\<close>

definition gencheck_run ::
  "escapes \<Rightarrow> string set \<Rightarrow> mir_function \<Rightarrow> (mir_function \<times> stale_report list \<times> bool) option" where
  "gencheck_run pe br f =
     (if basic_blocks f = [] then Some (f, [], False)
      else do {
        info \<leftarrow> closed_info pe br f;
        let suspects = suspects_of f info;
        if suspects = [] then Some (f, [], False)
        else do {
          hits \<leftarrow> find_must_stale f info;
          let must_sites = set (map (\<lambda>h. (ms_bb h, ms_place h, ms_local h)) hits);
          let reports = map (e0708_for f info) hits;
          sites \<leftarrow> solve f info (set suspects);
          let check_sites = filter (\<lambda>x. x \<notin> must_sites) sites;
          (if check_sites = [] then Some (f, reports, hits \<noteq> [])
           else Some (insert_checks f info check_sites, reports, True)) } })"

end
