(* ===== verification/GenCheckFlow.thy ===== *)
theory GenCheckFlow
  imports GenCheck ChangedLoop Samples
begin

text \<open>
  Where \<open>solve\<close> of \<open>gencheck/mod.rs\<close> puts its checks: exactly before the reads that some path reaches with the
  value possibly freed since it was last defined, read or checked. The analysis ends on every function.
\<close>

subsection \<open>What a statement does to a suspect\<close>

definition gives :: "local \<Rightarrow> statement_kind \<Rightarrow> bool" where
  "gives l k \<longleftrightarrow> (case k of Assign dst _ \<Rightarrow> dst = l | _ \<Rightarrow> False)"

definition frees :: "infos \<Rightarrow> local \<Rightarrow> statement_kind \<Rightarrow> bool" where
  "frees info l k \<longleftrightarrow>
     (case k of
        Assign _ (Call callee _) \<Rightarrow> \<not> is_safe_call callee \<and> si_unknown (info ! l)
      | Drop d \<Rightarrow> si_unknown (info ! l) \<or> d \<in> si_roots (info ! l)
      | _ \<Rightarrow> False)"

lemma act_iff: "l \<in> S \<Longrightarrow> l \<in> act info S k P \<longleftrightarrow> gives l k \<or> (l \<in> P \<and> \<not> frees info l k)"
  by (auto simp: act_def gives_def frees_def Let_def split: statement_kind.split rvalue.split)

lemma act_subset: "P \<subseteq> S \<Longrightarrow> act info S k P \<subseteq> S"
  by (auto simp: act_def Let_def split: statement_kind.split rvalue.split if_splits)

lemma act_mono: "P \<subseteq> Q \<Longrightarrow> act info S k P \<subseteq> act info S k Q"
  by (auto simp: act_def Let_def split: statement_kind.split rvalue.split)

lemma prove_uses_state [simp]: "fst (prove_uses S b p ls (P, sites)) = P \<union> (S \<inter> set ls)"
  by (induction ls arbitrary: P sites) auto

lemma prove_uses_sites [simp]:
  "set (snd (prove_uses S b p ls (P, sites))) = set sites \<union> {(b, p, l) | l. l \<in> set ls \<inter> S - P}"
  by (induction ls arbitrary: P sites) auto

subsection \<open>Blocks\<close>

abbreviation stmt_reads :: "statement \<Rightarrow> local set" where
  "stmt_reads s \<equiv> set (read_locals (kind s))"

fun flow :: "infos \<Rightarrow> local set \<Rightarrow> statement list \<Rightarrow> local set \<Rightarrow> local set" where
  "flow info S [] P = P"
| "flow info S (s # ss) P = flow info S ss (act info S (kind s) (P \<union> (S \<inter> stmt_reads s)))"

lemma flow_append [simp]: "flow info S (xs @ ys) P = flow info S ys (flow info S xs P)"
  by (induction xs arbitrary: P) auto

lemma flow_take_Suc:
  "i < length ss \<Longrightarrow> flow info S (take (Suc i) ss) P =
     act info S (kind (ss ! i)) (flow info S (take i ss) P \<union> (S \<inter> stmt_reads (ss ! i)))"
  by (simp add: take_Suc_conv_app_nth)

lemma flow_subset: "P \<subseteq> S \<Longrightarrow> flow info S ss P \<subseteq> S"
proof (induction ss arbitrary: P)
  case (Cons s ss)
  show ?case using Cons.IH [OF act_subset [of "P \<union> (S \<inter> stmt_reads s)"]] Cons.prems by simp
qed simp

lemma flow_mono: "P \<subseteq> Q \<Longrightarrow> flow info S ss P \<subseteq> flow info S ss Q"
proof (induction ss arbitrary: P Q)
  case (Cons s ss)
  have "P \<union> (S \<inter> stmt_reads s) \<subseteq> Q \<union> (S \<inter> stmt_reads s)" using Cons.prems by blast
  then show ?case using Cons.IH act_mono by simp
qed simp

lemma transfer_stmts_state [simp]: "fst (transfer_stmts info S b i ss (P, sites)) = flow info S ss P"
proof (induction ss arbitrary: i P sites)
  case (Cons s ss)
  obtain P' sites' where p: "prove_uses S b (At i) (read_locals (kind s)) (P, sites) = (P', sites')" by fastforce
  then have "P' = P \<union> (S \<inter> stmt_reads s)" using prove_uses_state [of S b "At i" _ P sites] by (metis fst_conv)
  with Cons p show ?case by simp
qed simp

lemma transfer_stmts_sites:
  "set (snd (transfer_stmts info S b i ss (P, sites))) = set sites \<union>
     {(b, At (i + j), l) | j l. j < length ss \<and> l \<in> S \<inter> stmt_reads (ss ! j) - flow info S (take j ss) P}"
    (is "_ = _ \<union> ?R i ss P")
proof (induction ss arbitrary: i P sites)
  case (Cons s ss)
  obtain P' sites' where p: "prove_uses S b (At i) (read_locals (kind s)) (P, sites) = (P', sites')" by fastforce
  have P': "P' = P \<union> (S \<inter> stmt_reads s)" using prove_uses_state [of S b "At i" _ P sites] p by (metis fst_conv)
  have s': "set sites' = set sites \<union> {(b, At i, l) | l. l \<in> stmt_reads s \<inter> S - P}"
    using prove_uses_sites [of S b "At i" _ P sites] p by (metis snd_conv)
  have "?R i (s # ss) P = {(b, At i, l) | l. l \<in> stmt_reads s \<inter> S - P} \<union> ?R (Suc i) ss (act info S (kind s) P')"
    (is "?L = ?A \<union> ?B")
  proof (intro set_eqI iffI)
    fix x
    assume "x \<in> ?L"
    then obtain j l where x: "x = (b, At (i + j), l)" "j < Suc (length ss)"
      "l \<in> S \<inter> stmt_reads ((s # ss) ! j) - flow info S (take j (s # ss)) P" by auto
    then show "x \<in> ?A \<union> ?B" by (cases j) (auto simp: P')
  next
    fix x
    assume "x \<in> ?A \<union> ?B"
    then consider "x \<in> ?A" | "x \<in> ?B" by blast
    then show "x \<in> ?L"
    proof cases
      case 1
      then obtain l where "x = (b, At (i + 0), l)" "0 < length (s # ss)"
        "l \<in> S \<inter> stmt_reads ((s # ss) ! 0) - flow info S (take 0 (s # ss)) P"
        by auto
      then show ?thesis by blast
    next
      case 2
      then obtain j l where "x = (b, At (i + Suc j), l)" "Suc j < length (s # ss)"
        "l \<in> S \<inter> stmt_reads ((s # ss) ! Suc j) - flow info S (take (Suc j) (s # ss)) P"
        by (auto simp: P')
      then show ?thesis by blast
    qed
  qed
  with Cons.IH [of "Suc i" "act info S (kind s) P'" sites'] p s' show ?case by auto
qed simp

definition switched :: "mir_function \<Rightarrow> bb_id \<Rightarrow> local set" where
  "switched f b = {l. switched_local (terminator (basic_blocks f ! b)) = Some l}"

abbreviation stmts :: "mir_function \<Rightarrow> bb_id \<Rightarrow> statement list" where
  "stmts f b \<equiv> statements (basic_blocks f ! b)"

abbreviation blocks :: "mir_function \<Rightarrow> nat" where
  "blocks f \<equiv> length (basic_blocks f)"

lemma switched_list: "set (case switched_local (terminator (basic_blocks f ! b)) of None \<Rightarrow> [] | Some l \<Rightarrow> [l]) = switched f b"
  by (auto simp: switched_def split: option.split)

lemma transfer_block_state:
  "fst (transfer_block f b info S (P, sites)) = flow info S (stmts f b) P \<union> (S \<inter> switched f b)"
proof -
  obtain P' sites' where p: "transfer_stmts info S b 0 (stmts f b) (P, sites) = (P', sites')" by fastforce
  then have "P' = flow info S (stmts f b) P" using transfer_stmts_state [of info S b 0 _ P sites] by (metis fst_conv)
  with p show ?thesis by (simp add: transfer_block_def Let_def switched_list)
qed

lemma transfer_block_sites:
  "set (snd (transfer_block f b info S (P, sites))) = set sites \<union>
     {(b, At i, l) | i l. i < length (stmts f b) \<and> l \<in> S \<inter> stmt_reads (stmts f b ! i) - flow info S (take i (stmts f b)) P} \<union>
     {(b, AtEnd, l) | l. l \<in> S \<inter> switched f b - flow info S (stmts f b) P}"
proof -
  obtain P' sites' where p: "transfer_stmts info S b 0 (stmts f b) (P, sites) = (P', sites')" by fastforce
  have P': "P' = flow info S (stmts f b) P" using transfer_stmts_state [of info S b 0 _ P sites] p by (metis fst_conv)
  have "set sites' = set sites \<union> {(b, At i, l) | i l. i < length (stmts f b) \<and>
      l \<in> S \<inter> stmt_reads (stmts f b ! i) - flow info S (take i (stmts f b)) P}"
    using transfer_stmts_sites [of info S b 0 "stmts f b" P sites] p by simp
  with p P' show ?thesis by (auto simp: transfer_block_def Let_def switched_list)
qed

subsection \<open>The table\<close>

lemma predecessors_iff: "p \<in> set (predecessors f b) \<longleftrightarrow> p < blocks f \<and> b \<in> set (bb_succs (basic_blocks f ! p))"
  by (auto simp: predecessors_def count_list_0_iff)

lemma fold_inter: "l \<in> fold (\<lambda>q s. s \<inter> out ! q) ps X \<longleftrightarrow> l \<in> X \<and> (\<forall>q\<in>set ps. l \<in> out ! q)"
  by (induction ps arbitrary: X) auto

lemma join_iff:
  "l \<in> join_proven f S out b \<longleftrightarrow>
     (if predecessors f b = [] then l \<in> S else \<forall>p\<in>set (predecessors f b). l \<in> out ! p)"
  by (auto simp: join_proven_def fold_inter split: list.split)

definition solve_at :: "mir_function \<Rightarrow> infos \<Rightarrow> local set \<Rightarrow> local set list \<Rightarrow> bb_id \<Rightarrow> local set" where
  "solve_at f info S out b = fst (transfer_block f b info S (join_proven f S out b, []))"

lemma solve_at_eq:
  "solve_at f info S out b = flow info S (stmts f b) (join_proven f S out b) \<union> (S \<inter> switched f b)"
  by (simp add: solve_at_def transfer_block_state)

lemma join_mono: "below xs ys \<Longrightarrow> length xs = blocks f \<Longrightarrow> join_proven f S xs b \<subseteq> join_proven f S ys b"
proof
  fix l
  assume "below xs ys" "length xs = blocks f" "l \<in> join_proven f S xs b"
  then show "l \<in> join_proven f S ys b"
    using subsetD [OF below_nth [of xs ys]] by (auto simp: join_iff predecessors_iff split: if_splits)
qed

interpretation solve_table: shrinking_table "solve_at f info (set ss)" "length (basic_blocks f)" "set ss"
  for f info ss
proof
  fix xs ys :: "local set list" and b
  assume "below xs ys" "length xs = blocks f"
  then show "solve_at f info (set ss) xs b \<subseteq> solve_at f info (set ss) ys b"
    using flow_mono [OF join_mono [of xs ys f "set ss" b]] by (auto simp: solve_at_eq)
qed simp

lemma solve_turn_table: "solve_turn f info (set ss) = solve_table.table_turn f info ss"
  by (auto simp: fun_eq_iff solve_turn_def solve_table.table_turn_def solve_at_def Let_def)

subsection \<open>Paths\<close>

inductive unproven :: "mir_function \<Rightarrow> infos \<Rightarrow> local \<Rightarrow> bb_id \<Rightarrow> nat \<Rightarrow> bool" for f info l where
  freed: "b < blocks f \<Longrightarrow> i < length (stmts f b) \<Longrightarrow> frees info l (kind (stmts f b ! i)) \<Longrightarrow>
      \<not> gives l (kind (stmts f b ! i)) \<Longrightarrow> unproven f info l b (Suc i)"
| kept: "unproven f info l b i \<Longrightarrow> b < blocks f \<Longrightarrow> i < length (stmts f b) \<Longrightarrow>
      l \<notin> stmt_reads (stmts f b ! i) \<Longrightarrow> \<not> gives l (kind (stmts f b ! i)) \<Longrightarrow> unproven f info l b (Suc i)"
| edge: "unproven f info l b (length (stmts f b)) \<Longrightarrow> b < blocks f \<Longrightarrow> l \<notin> switched f b \<Longrightarrow>
      s \<in> set (bb_succs (basic_blocks f ! b)) \<Longrightarrow> unproven f info l s 0"

inductive_simps unproven_Suc: "unproven f info l b (Suc i)"

inductive_simps unproven_0: "unproven f info l b 0"

definition proven_at :: "mir_function \<Rightarrow> infos \<Rightarrow> local set \<Rightarrow> bb_id \<Rightarrow> nat \<Rightarrow> local set" where
  "proven_at f info S b i = {l \<in> S. \<not> unproven f info l b i}"

lemma flow_proven:
  "b < blocks f \<Longrightarrow> i \<le> length (stmts f b) \<Longrightarrow>
   flow info S (take i (stmts f b)) (proven_at f info S b 0) = proven_at f info S b i"
proof (induction i)
  case (Suc i)
  then have "flow info S (take (Suc i) (stmts f b)) (proven_at f info S b 0) =
      act info S (kind (stmts f b ! i)) (proven_at f info S b i \<union> (S \<inter> stmt_reads (stmts f b ! i)))"
    by (simp add: flow_take_Suc)
  also have "\<dots> = proven_at f info S b (Suc i)" (is "?L = ?R")
  proof (intro set_eqI)
    fix l
    have "l \<in> S" if "l \<in> ?L" using act_subset [of "proven_at f info S b i \<union> (S \<inter> stmt_reads (stmts f b ! i))" S] that
      by (auto simp: proven_at_def)
    moreover have "l \<in> S" if "l \<in> ?R" using that by (simp add: proven_at_def)
    moreover have "l \<in> ?L \<longleftrightarrow> l \<in> ?R" if "l \<in> S"
      using Suc.prems that by (auto simp: act_iff [OF that] proven_at_def unproven_Suc)
    ultimately show "l \<in> ?L \<longleftrightarrow> l \<in> ?R" by blast
  qed
  finally show ?case .
qed simp

definition proven_ends :: "mir_function \<Rightarrow> infos \<Rightarrow> local set \<Rightarrow> local set list" where
  "proven_ends f info S =
     map (\<lambda>b. proven_at f info S b (length (stmts f b)) \<union> (S \<inter> switched f b)) [0..<blocks f]"

lemma proven_ends_simps [simp]:
  "length (proven_ends f info S) = blocks f"
  "b < blocks f \<Longrightarrow> proven_ends f info S ! b = proven_at f info S b (length (stmts f b)) \<union> (S \<inter> switched f b)"
  by (simp_all add: proven_ends_def)

lemma join_proven_ends: "join_proven f S (proven_ends f info S) b = proven_at f info S b 0"
proof (intro set_eqI)
  fix l
  have "\<not> unproven f info l b 0 \<longleftrightarrow> (\<forall>p\<in>set (predecessors f b). \<not> unproven f info l p (length (stmts f p)) \<or> l \<in> switched f p)"
    by (auto simp: unproven_0 predecessors_iff)
  moreover have "proven_ends f info S ! p = proven_at f info S p (length (stmts f p)) \<union> (S \<inter> switched f p)"
    if "p \<in> set (predecessors f b)" for p
    using that by (simp add: predecessors_iff)
  moreover have "predecessors f b \<noteq> [] \<longleftrightarrow> (\<exists>p. p \<in> set (predecessors f b))" by (cases "predecessors f b") auto
  ultimately show "l \<in> join_proven f S (proven_ends f info S) b \<longleftrightarrow> l \<in> proven_at f info S b 0"
    by (auto simp: join_iff proven_at_def)
qed

lemma proven_ends_fixed:
  "b < blocks f \<Longrightarrow> solve_at f info S (proven_ends f info S) b = proven_ends f info S ! b"
  using flow_proven [of b f "length (stmts f b)" info S]
  by (simp add: solve_at_eq join_proven_ends)

lemma unproven_not_flow:
  assumes fixed: "\<And>b. b < blocks f \<Longrightarrow> solve_at f info S y b = y ! b" and "l \<in> S"
  shows "unproven f info l b i \<Longrightarrow> l \<notin> flow info S (take i (stmts f b)) (join_proven f S y b)"
proof (induction rule: unproven.induct)
  case (edge b s)
  then have "l \<notin> y ! b" using fixed [of b] by (auto simp: solve_at_eq)
  moreover have b: "b \<in> set (predecessors f s)" using edge by (simp add: predecessors_iff)
  then have "predecessors f s \<noteq> []" by auto
  ultimately have "l \<notin> join_proven f S y s" using b by (auto simp: join_iff)
  then show ?case by simp
qed (simp_all add: flow_take_Suc act_iff [OF \<open>l \<in> S\<close>])

lemma join_subset: "(\<And>b. b < blocks f \<Longrightarrow> y ! b \<subseteq> S) \<Longrightarrow> join_proven f S y b \<subseteq> S"
proof
  fix l
  assume a: "\<And>b. b < blocks f \<Longrightarrow> y ! b \<subseteq> S" and l: "l \<in> join_proven f S y b"
  show "l \<in> S"
  proof (cases "predecessors f b")
    case (Cons p ps)
    then have "p < blocks f" using predecessors_iff [of p f b] by simp
    with Cons l a show ?thesis by (auto simp: join_iff)
  qed (use l in \<open>simp add: join_iff\<close>)
qed

lemma solve_loop_exact:
  obtains y where "solve_loop f info (set ss) = Some y"
    "\<And>b. b < blocks f \<Longrightarrow> solve_at f info (set ss) y b = y ! b"
    "\<And>b i. b < blocks f \<Longrightarrow> i \<le> length (stmts f b) \<Longrightarrow>
      flow info (set ss) (take i (stmts f b)) (join_proven f (set ss) y b) = proven_at f info (set ss) b i"
proof -
  let ?S = "set ss" and ?x = "replicate (blocks f) (set ss)" and ?z = "proven_ends f info (set ss)"
  have sub: "solve_at f info ?S y b \<subseteq> ?S" if "\<And>b. b < blocks f \<Longrightarrow> y ! b \<subseteq> ?S" for y b
    using flow_subset [OF join_subset [OF that]] by (auto simp: solve_at_eq)
  have "solve_table.shrinks f info ss ?x"
    using sub [of ?x] by (auto simp: solve_table.shrinks_def)
  moreover have "solve_table.above f info ss ?z ?x"
    unfolding solve_table.above_def
    by (auto intro!: belowI simp: proven_ends_fixed) (auto simp: proven_ends_def proven_at_def)
  ultimately obtain y where y: "while_option snd (\<lambda>(x, _). fold (solve_table.table_turn f info ss) [0..<blocks f] (x, False))
      (?x, True) = Some (y, False)" "length y = blocks f"
    "\<And>b. b < blocks f \<Longrightarrow> solve_at f info ?S y b = y ! b" "below ?z y"
    "\<And>b. b < blocks f \<Longrightarrow> y ! b \<subseteq> ?S"
    by (rule solve_table.table_ends) blast
  have exact: "flow info ?S (take i (stmts f b)) (join_proven f ?S y b) = proven_at f info ?S b i"
    if "b < blocks f" "i \<le> length (stmts f b)" for b i
  proof
    show "flow info ?S (take i (stmts f b)) (join_proven f ?S y b) \<subseteq> proven_at f info ?S b i"
      using flow_subset [OF join_subset [of f y ?S b]] y(5) unproven_not_flow [OF y(3)]
      by (fastforce simp: proven_at_def)
    show "proven_at f info ?S b i \<subseteq> flow info ?S (take i (stmts f b)) (join_proven f ?S y b)"
      using flow_mono [OF join_mono [OF y(4), of f ?S b], of info ?S "take i (stmts f b)"]
        flow_proven [OF that, of info ?S]
      by (simp add: join_proven_ends)
  qed
  show ?thesis
  proof (rule that)
    show "solve_loop f info ?S = Some y"
      using y(1) by (simp add: solve_loop_def Let_def solve_turn_table)
  qed (use exact y(3) in auto)
qed

definition needed_sites :: "mir_function \<Rightarrow> infos \<Rightarrow> local list \<Rightarrow> site set" where
  "needed_sites f info ss =
       {(b, At i, l) | b i l. b < length (basic_blocks f) \<and> i < length (stmts f b) \<and> l \<in> set ss \<and>
          l \<in> stmt_reads (stmts f b ! i) \<and> unproven f info l b i} \<union>
       {(b, AtEnd, l) | b l. b < length (basic_blocks f) \<and> l \<in> set ss \<and> l \<in> switched f b \<and>
          unproven f info l b (length (stmts f b))}"

lemma needed_sites_iff:
  "(b, At i, l) \<in> needed_sites f info ss \<longleftrightarrow> b < blocks f \<and> i < length (stmts f b) \<and> l \<in> set ss \<and>
     l \<in> stmt_reads (stmts f b ! i) \<and> unproven f info l b i"
  "(b, AtEnd, l) \<in> needed_sites f info ss \<longleftrightarrow> b < blocks f \<and> l \<in> set ss \<and> l \<in> switched f b \<and>
     unproven f info l b (length (stmts f b))"
  by (auto simp: needed_sites_def)

lemma solve_sites:
  obtains y sites where "solve f info (set ss) = Some sites" "set sites = needed_sites f info ss"
    "\<And>b. b < blocks f \<Longrightarrow> solve_at f info (set ss) y b = y ! b"
    "\<And>b i. b < blocks f \<Longrightarrow> i \<le> length (stmts f b) \<Longrightarrow>
      flow info (set ss) (take i (stmts f b)) (join_proven f (set ss) y b) = proven_at f info (set ss) b i"
proof -
  let ?S = "set ss"
  let ?at = "\<lambda>b. {(b, At i, l) | i l. i < length (stmts f b) \<and> l \<in> ?S \<and> l \<in> stmt_reads (stmts f b ! i) \<and>
      unproven f info l b i} \<union> {(b, AtEnd, l) | l. l \<in> ?S \<and> l \<in> switched f b \<and> unproven f info l b (length (stmts f b))}"
  obtain y where y: "solve_loop f info ?S = Some y"
    "\<And>b. b < blocks f \<Longrightarrow> solve_at f info ?S y b = y ! b"
    "\<And>b i. b < blocks f \<Longrightarrow> i \<le> length (stmts f b) \<Longrightarrow>
      flow info ?S (take i (stmts f b)) (join_proven f ?S y b) = proven_at f info ?S b i"
    by (rule solve_loop_exact) blast
  define step where "step = (\<lambda>b sites. snd (transfer_block f b info ?S (join_proven f ?S y b, sites)))"
  have at: "set (step b sites) = set sites \<union> ?at b" if "b < blocks f" for b sites
    unfolding step_def transfer_block_sites
    using y(3) [OF that, of "length (stmts f b)"] y(3) [OF that]
    by (auto simp: proven_at_def)
  have "set (fold step bs sites) = set sites \<union> (\<Union>b\<in>set bs. ?at b)" if "set bs \<subseteq> {..<blocks f}" for bs sites
    using that by (induction bs arbitrary: sites) (auto simp: at)
  from this [of "[0..<blocks f]" "[]"] have "set (fold step [0..<blocks f] []) = (\<Union>b\<in>{..<blocks f}. ?at b)"
    by (simp add: atLeast0LessThan)
  moreover have "solve f info ?S = Some (fold step [0..<blocks f] [])"
    using y(1) by (simp add: solve_def step_def)
  moreover have "(\<Union>b\<in>{..<blocks f}. ?at b) =
      {(b, At i, l) | b i l. b < blocks f \<and> i < length (stmts f b) \<and> l \<in> ?S \<and>
          l \<in> stmt_reads (stmts f b ! i) \<and> unproven f info l b i} \<union>
       {(b, AtEnd, l) | b l. b < blocks f \<and> l \<in> ?S \<and> l \<in> switched f b \<and>
          unproven f info l b (length (stmts f b))}"
    by blast
  ultimately have "set (fold step [0..<blocks f] []) = needed_sites f info ss" "solve f info ?S = Some (fold step [0..<blocks f] [])"
    unfolding needed_sites_def by simp_all
  then show ?thesis by (intro that) (use y(2,3) in auto)
qed

text \<open>
  C30. The search for the places of checks ends on every function and finds exactly those where one is
  needed: the reads of suspects, and the branches on them, to which some path leads from a statement
  that may free the suspect without a definition or another read of it in between. What may free a suspect is the
  drop of one of its roots and, when not all its roots are known, any drop and any call that is not known to be safe.
\<close>

theorem check_sites_exact:
  "\<exists>sites. solve f info (set ss) = Some sites \<and>
     set sites =
       {(b, At i, l) | b i l. b < length (basic_blocks f) \<and> i < length (stmts f b) \<and> l \<in> set ss \<and>
          l \<in> stmt_reads (stmts f b ! i) \<and> unproven f info l b i} \<union>
       {(b, AtEnd, l) | b l. b < length (basic_blocks f) \<and> l \<in> set ss \<and> l \<in> switched f b \<and>
          unproven f info l b (length (stmts f b))}"
proof -
  obtain y sites where "solve f info (set ss) = Some sites" "set sites = needed_sites f info ss"
    by (rule solve_sites)
  then show ?thesis unfolding needed_sites_def by (intro exI conjI)
qed

end
