(* ===== verification/GenCheckCover.thy ===== *)
theory GenCheckCover
  imports GenCheckFlow
begin

text \<open>
  The function that comes out of the pass: on every path, a suspect that may have been freed since its last
  definition is checked before it is read.
\<close>

text \<open>
  A suspect may be freed at a place when some path frees it and then neither defines nor checks it; a read
  that happens to precede does not count as a check here.
\<close>

inductive may_be_freed :: "mir_function \<Rightarrow> infos \<Rightarrow> local \<Rightarrow> bb_id \<Rightarrow> nat \<Rightarrow> bool" for f info l where
  freed: "b < blocks f \<Longrightarrow> i < length (stmts f b) \<Longrightarrow> frees info l (kind (stmts f b ! i)) \<Longrightarrow>
      \<not> gives l (kind (stmts f b ! i)) \<Longrightarrow> may_be_freed f info l b (Suc i)"
| kept: "may_be_freed f info l b i \<Longrightarrow> b < blocks f \<Longrightarrow> i < length (stmts f b) \<Longrightarrow>
      \<not> gives l (kind (stmts f b ! i)) \<Longrightarrow> (\<And>g. kind (stmts f b ! i) \<noteq> GenCheck l g) \<Longrightarrow>
      may_be_freed f info l b (Suc i)"
| edge: "may_be_freed f info l b (length (stmts f b)) \<Longrightarrow> b < blocks f \<Longrightarrow>
      s \<in> set (bb_succs (basic_blocks f ! b)) \<Longrightarrow> may_be_freed f info l s 0"

subsection \<open>Statements that check\<close>

definition check_act :: "infos \<Rightarrow> local set \<Rightarrow> statement_kind \<Rightarrow> local set \<Rightarrow> local set" where
  "check_act info S k P = (case k of GenCheck l _ \<Rightarrow> if l \<in> S then insert l P else P | _ \<Rightarrow> act info S k P)"

fun checked_flow :: "infos \<Rightarrow> local set \<Rightarrow> statement list \<Rightarrow> local set \<Rightarrow> local set" where
  "checked_flow info S [] P = P"
| "checked_flow info S (s # ss) P = checked_flow info S ss (check_act info S (kind s) P)"

fun covered :: "infos \<Rightarrow> local set \<Rightarrow> statement list \<Rightarrow> local set \<Rightarrow> bool" where
  "covered info S [] P = True"
| "covered info S (s # ss) P \<longleftrightarrow> S \<inter> stmt_reads s \<subseteq> P \<and> covered info S ss (check_act info S (kind s) P)"

lemma checked_flow_append [simp]:
  "checked_flow info S (xs @ ys) P = checked_flow info S ys (checked_flow info S xs P)"
  by (induction xs arbitrary: P) auto

lemma covered_append [simp]:
  "covered info S (xs @ ys) P \<longleftrightarrow> covered info S xs P \<and> covered info S ys (checked_flow info S xs P)"
  by (induction xs arbitrary: P) auto

lemma covered_nth:
  "covered info S ss P \<Longrightarrow> i < length ss \<Longrightarrow> S \<inter> stmt_reads (ss ! i) \<subseteq> checked_flow info S (take i ss) P"
proof (induction ss arbitrary: P i)
  case (Cons s ss)
  then show ?case by (cases i) auto
qed simp

lemma check_act_iff:
  "l \<in> S \<Longrightarrow> l \<in> check_act info S k P \<longleftrightarrow> (\<exists>g. k = GenCheck l g) \<or> gives l k \<or> (l \<in> P \<and> \<not> frees info l k)"
  using act_iff [of l S info k P]
  by (cases k) (auto simp: check_act_def gives_def frees_def)

lemma act_below_check: "P \<subseteq> Q \<Longrightarrow> act info S k P \<subseteq> check_act info S k Q"
  using act_mono [of P Q info S k]
  by (cases k) (auto simp: check_act_def act_def)

lemma may_be_freed_not_checked:
  assumes edges: "\<And>b s. b < blocks g \<Longrightarrow> s \<in> set (bb_succs (basic_blocks g ! b)) \<Longrightarrow>
      P s \<subseteq> checked_flow info S (stmts g b) (P b)"
    and "l \<in> S"
  shows "may_be_freed g info l b i \<Longrightarrow> l \<notin> checked_flow info S (take i (stmts g b)) (P b)"
proof (induction rule: may_be_freed.induct)
  case (edge b s)
  then show ?case using edges [of b s] by auto
qed (simp_all add: take_Suc_conv_app_nth check_act_iff [OF \<open>l \<in> S\<close>], auto simp: frees_def)

subsection \<open>Rebuilt blocks\<close>

lemma checks_flow [simp]:
  "checked_flow info S (map (check_stmt f checked sp) ls) Q = Q \<union> (S \<inter> set ls)"
  "covered info S (map (check_stmt f checked sp) ls) Q"
  by (induction ls arbitrary: Q) (auto simp: check_stmt_def check_act_def read_locals_def)

lemma assign_grows: "(\<And>callee args. rv \<noteq> Call callee args) \<Longrightarrow> P \<subseteq> check_act info S (Assign g rv) P"
  by (cases rv) (auto simp: check_act_def act_def Let_def)

lemma captures_flow:
  "S \<inter> set ls \<subseteq> Q \<Longrightarrow> covered info S (map (capture_stmt f checked sp) ls) Q \<and>
     Q \<subseteq> checked_flow info S (map (capture_stmt f checked sp) ls) Q"
proof (induction ls arbitrary: Q)
  case (Cons l ls)
  let ?Q = "check_act info S (Assign (gen_of f checked l) (GenOf (Copy l))) Q"
  have "Q \<subseteq> ?Q" by (rule assign_grows) simp
  with Cons show ?case by (auto simp: capture_stmt_def read_locals_def dest: subsetD)
qed simp

lemma zeros_flow:
  "covered info S (map (zero_stmt f checked) ls) Q \<and> Q \<subseteq> checked_flow info S (map (zero_stmt f checked) ls) Q"
proof (induction ls arbitrary: Q)
  case (Cons l ls)
  let ?Q = "check_act info S (Assign (gen_of f checked l) (Use (Constant (CInt 0)))) Q"
  have "Q \<subseteq> ?Q" by (rule assign_grows) simp
  with Cons show ?case by (auto simp: zero_stmt_def read_locals_def dest: subsetD)
qed simp

lemma entry_flow:
  assumes "S \<subseteq> Q"
  shows "covered info S (entry_stmts f info sites) Q \<and> S \<subseteq> checked_flow info S (entry_stmts f info sites) Q"
proof -
  let ?c = "checked_locals sites"
  let ?z = "map (zero_stmt f ?c) ?c"
  let ?p = "filter (\<lambda>l. l \<ge> 1 \<and> l \<le> arg_count f \<and> si_suspect (info ! l)) ?c"
  have z: "covered info S ?z Q" "Q \<subseteq> checked_flow info S ?z Q" using zeros_flow by auto
  have "S \<inter> set ?p \<subseteq> checked_flow info S ?z Q" using z(2) assms by blast
  from captures_flow [OF this, of info f ?c default_span]
  have p: "covered info S (map (capture_stmt f ?c default_span) ?p) (checked_flow info S ?z Q)"
    "checked_flow info S ?z Q \<subseteq> checked_flow info S (map (capture_stmt f ?c default_span) ?p) (checked_flow info S ?z Q)"
    by simp_all
  show ?thesis unfolding entry_stmts_def Let_def using z p assms by simp
qed

lemma rebuilt_stmt_flow:
  assumes "P \<subseteq> Q" "S \<inter> stmt_reads s - P \<subseteq> set (sites_at sites b (At i))"
  shows "covered info S (rebuilt_stmt f sites b i s) Q \<and>
    act info S (kind s) (P \<union> (S \<inter> stmt_reads s)) \<subseteq> checked_flow info S (rebuilt_stmt f sites b i s) Q"
proof -
  let ?Q = "Q \<union> (S \<inter> set (sites_at sites b (At i)))"
  let ?c = "checked_locals sites"
  define cap where "cap = (case kind s of Assign dst _ \<Rightarrow> if dst \<in> set ?c then [dst] else [] | _ \<Rightarrow> [])"
  have rb: "rebuilt_stmt f sites b i s = map (check_stmt f ?c (span_of s)) (sites_at sites b (At i)) @
      s # map (capture_stmt f ?c (span_of s)) cap"
    by (simp add: rebuilt_stmt_def Let_def cap_def split: statement_kind.split)
  have reads: "P \<union> (S \<inter> stmt_reads s) \<subseteq> ?Q" using assms by auto
  have "act info S (kind s) (P \<union> (S \<inter> stmt_reads s)) \<subseteq> check_act info S (kind s) ?Q"
    by (rule act_below_check [OF reads])
  moreover have "S \<inter> set cap \<subseteq> check_act info S (kind s) ?Q"
    by (auto simp: cap_def check_act_iff gives_def split: statement_kind.splits if_splits)
  ultimately show ?thesis
    unfolding rb using reads captures_flow [of S cap "check_act info S (kind s) ?Q" info f ?c "span_of s"] by auto
qed

lemma rebuilt_stmts_flow:
  assumes "P \<subseteq> Q"
    "\<And>j. j < length ss \<Longrightarrow> S \<inter> stmt_reads (ss ! j) - flow info S (take j ss) P \<subseteq> set (sites_at sites b (At (i + j)))"
  shows "covered info S (rebuilt_stmts f sites b i ss) Q \<and>
    flow info S ss P \<subseteq> checked_flow info S (rebuilt_stmts f sites b i ss) Q"
  using assms
proof (induction ss arbitrary: i P Q)
  case (Cons s ss)
  let ?P = "act info S (kind s) (P \<union> (S \<inter> stmt_reads s))" and ?Q = "checked_flow info S (rebuilt_stmt f sites b i s) Q"
  have s: "covered info S (rebuilt_stmt f sites b i s) Q" "?P \<subseteq> ?Q"
    using rebuilt_stmt_flow [OF Cons.prems(1), of S s sites b i info f] Cons.prems(2) [of 0] by auto
  have "S \<inter> stmt_reads (ss ! j) - flow info S (take j ss) ?P \<subseteq> set (sites_at sites b (At (Suc i + j)))"
    if "j < length ss" for j
    using Cons.prems(2) [of "Suc j"] that by simp
  from Cons.IH [OF s(2) this] s(1) show ?case by simp
qed simp

subsection \<open>The whole function\<close>

lemma insert_checks_simps [simp]:
  "length (basic_blocks (insert_checks f info sites)) = blocks f"
  "b < blocks f \<Longrightarrow> basic_blocks (insert_checks f info sites) ! b = rebuilt_block f info sites b"
  by (simp_all add: insert_checks_def)

lemma rebuilt_block_simps [simp]:
  "terminator (rebuilt_block f info sites b) = terminator (basic_blocks f ! b)"
  "bb_succs (rebuilt_block f info sites b) = bb_succs (basic_blocks f ! b)"
  by (simp_all add: rebuilt_block_def Let_def bb_succs_def)

lemma rebuilt_block_flow:
  assumes sites: "\<And>i. i < length (stmts f b) \<Longrightarrow>
      S \<inter> stmt_reads (stmts f b ! i) - flow info S (take i (stmts f b)) P \<subseteq> set (sites_at sites b (At i))"
    "S \<inter> switched f b - flow info S (stmts f b) P \<subseteq> set (sites_at sites b AtEnd)"
    and "P \<subseteq> S" and entry: "b = 0 \<Longrightarrow> P = S"
  shows "covered info S (statements (rebuilt_block f info sites b)) P \<and>
    flow info S (stmts f b) P \<union> (S \<inter> switched f b) \<subseteq> checked_flow info S (statements (rebuilt_block f info sites b)) P"
proof -
  let ?e = "if b = 0 then entry_stmts f info sites else []"
  have e: "covered info S ?e P" "P \<subseteq> checked_flow info S ?e P"
    using entry entry_flow [of S S info f sites] by auto
  have r: "covered info S (rebuilt_stmts f sites b 0 (stmts f b)) (checked_flow info S ?e P)"
    "flow info S (stmts f b) P \<subseteq> checked_flow info S (rebuilt_stmts f sites b 0 (stmts f b)) (checked_flow info S ?e P)"
    using rebuilt_stmts_flow [OF e(2), of "stmts f b" S info sites b 0 f] sites(1) by auto
  show ?thesis
    unfolding rebuilt_block_def Let_def using e r sites(2) by auto
qed

lemma sites_at_iff: "l \<in> set (sites_at sites b p) \<longleftrightarrow> (b, p, l) \<in> set sites"
  by (force simp: sites_at_def)

lemma insert_covers:
  assumes solved: "solve f info (set ss) = Some sites" and entry: "predecessors f 0 = []"
    and l: "l \<in> set ss" and b: "b < blocks f" and may: "may_be_freed (insert_checks f info sites) info l b i"
  defines "g \<equiv> insert_checks f info sites"
  shows "(i < length (stmts g b) \<longrightarrow> l \<notin> stmt_reads (stmts g b ! i)) \<and> (i = length (stmts g b) \<longrightarrow> l \<notin> switched g b)"
proof -
  let ?S = "set ss" and ?P = "join_proven f (set ss)"
  obtain y sites' where y: "solve f info ?S = Some sites'" "set sites' = needed_sites f info ss"
    "\<And>b. b < blocks f \<Longrightarrow> solve_at f info ?S y b = y ! b"
    "\<And>b i. b < blocks f \<Longrightarrow> i \<le> length (stmts f b) \<Longrightarrow>
      flow info ?S (take i (stmts f b)) (?P y b) = proven_at f info ?S b i"
    by (rule solve_sites) blast
  have sites: "set sites = needed_sites f info ss" using y(1,2) solved by simp
  have sub: "?P y b \<subseteq> ?S" if "b < blocks f" for b
    using y(4) [OF that, of 0] by (auto simp: proven_at_def)
  have block: "covered info ?S (stmts g b) (?P y b) \<and> y ! b \<subseteq> checked_flow info ?S (stmts g b) (?P y b)"
    if "b < blocks f" for b
  proof -
    note b = that
    have "covered info ?S (statements (rebuilt_block f info sites b)) (?P y b) \<and>
        flow info ?S (stmts f b) (?P y b) \<union> (?S \<inter> switched f b)
          \<subseteq> checked_flow info ?S (statements (rebuilt_block f info sites b)) (?P y b)"
    proof (rule rebuilt_block_flow)
      show "?S \<inter> stmt_reads (stmts f b ! i) - flow info ?S (take i (stmts f b)) (?P y b) \<subseteq> set (sites_at sites b (At i))"
        if "i < length (stmts f b)" for i
        unfolding y(4) [OF b less_imp_le [OF that]] using b that
        by (simp add: sites_at_iff sites needed_sites_iff proven_at_def subset_iff)
      show "?S \<inter> switched f b - flow info ?S (stmts f b) (?P y b) \<subseteq> set (sites_at sites b AtEnd)"
        using y(4) [OF b order.refl] b
        by (simp add: sites_at_iff sites needed_sites_iff proven_at_def subset_iff)
      show "?P y b = ?S" if "b = 0" using that entry by (simp add: join_proven_def)
    qed (rule sub [OF b])
    then show ?thesis unfolding y(3) [OF b, symmetric] solve_at_eq using b by (simp add: g_def)
  qed
  have "?P y s \<subseteq> y ! b" if "b < blocks f" "s \<in> set (bb_succs (basic_blocks f ! b))" for b s
  proof -
    have "b \<in> set (predecessors f s)" using that by (simp add: predecessors_iff)
    moreover from this have "predecessors f s \<noteq> []" by auto
    ultimately show ?thesis by (auto simp: join_iff)
  qed
  then have edges: "?P y s \<subseteq> checked_flow info ?S (stmts g b) (?P y b)"
    if "b < blocks g" "s \<in> set (bb_succs (basic_blocks g ! b))" for b s
    using that block [of b] by (fastforce simp: g_def)
  have no: "l \<notin> checked_flow info ?S (take i (stmts g b)) (?P y b)"
    using may_be_freed_not_checked [of g "?P y" info ?S l, OF edges l] may by (simp add: g_def)
  have "?S \<inter> stmt_reads (stmts g b ! i) \<subseteq> checked_flow info ?S (take i (stmts g b)) (?P y b)" if "i < length (stmts g b)"
    using covered_nth [OF conjunct1 [OF block [OF b]] that] .
  moreover have "?S \<inter> switched g b \<subseteq> checked_flow info ?S (stmts g b) (?P y b)"
    using block [OF b] y(3) [OF b] b by (auto simp: switched_def solve_at_eq g_def)
  ultimately show ?thesis using no l by auto
qed

lemma insert_nothing: "basic_blocks (insert_checks f info []) = basic_blocks f"
proof -
  have stmts: "rebuilt_stmts f [] b i ss = ss" for b i ss
    by (induction ss arbitrary: i)
      (auto simp: rebuilt_stmt_def Let_def sites_at_def checked_locals_def split: statement_kind.split)
  have "rebuilt_block f info [] b = basic_blocks f ! b" for b
    by (simp add: rebuilt_block_def Let_def stmts entry_stmts_def checked_locals_def sites_at_def)
  then have "rebuilt_block f info [] = (!) (basic_blocks f)" by (rule ext)
  then show ?thesis by (simp add: insert_checks_def map_nth)
qed

lemma may_be_freed_blocks:
  "may_be_freed f info l b i \<Longrightarrow> basic_blocks g = basic_blocks f \<Longrightarrow> may_be_freed g info l b i"
  by (induction rule: may_be_freed.induct) (auto intro: may_be_freed.intros)

lemma run_inserts:
  assumes run: "gencheck_run pe br f = Some (g, [], changed)" and info: "closed_info pe br f = Some info"
    and l: "l \<in> set (suspects_of f info)"
  obtains sites where "solve f info (set (suspects_of f info)) = Some sites"
    "basic_blocks g = basic_blocks (insert_checks f info sites)"
proof (cases "basic_blocks f = []")
  case True
  obtain sites where s: "solve f info (set (suspects_of f info)) = Some sites"
    "set sites = needed_sites f info (suspects_of f info)"
    by (rule solve_sites)
  have "basic_blocks g = basic_blocks (insert_checks f info sites)"
    using run True by (simp add: gencheck_run_def insert_checks_def)
  with s(1) show ?thesis by (rule that)
next
  case False
  have ne: "suspects_of f info \<noteq> []" using l by auto
  obtain sites where s: "solve f info (set (suspects_of f info)) = Some sites"
    "set sites = needed_sites f info (suspects_of f info)"
    by (rule solve_sites)
  from run obtain hits where h: "find_must_stale f info = Some hits"
    using False info ne by (auto simp: gencheck_run_def Let_def split: bind_splits)
  have e: "hits = []" using run False info ne h s(1)
    by (auto simp: gencheck_run_def Let_def split: if_splits)
  have "basic_blocks g = basic_blocks (insert_checks f info sites)"
    using run False info ne h s(1)
    by (auto simp: gencheck_run_def Let_def e insert_nothing split: if_splits)
  with s(1) show ?thesis by (rule that)
qed

text \<open>
  C19. Let the pass report nothing on a function to whose entry no edge leads. In the function it gives out, no suspect
  is read, and no branch taken on one, at a place where a path may have freed it since it was last defined
  or checked: the check always stands between. What may free a suspect is the drop of one of its roots and, when not
  all its roots are known, any drop and any call that is not known to be safe.
\<close>

theorem gen_checks_cover:
  assumes "gencheck_run pe br f = Some (g, [], changed)"
    and "closed_info pe br f = Some info"
    and "predecessors f 0 = []"
    and "l \<in> set (suspects_of f info)"
    and "b < length (basic_blocks g)"
    and "may_be_freed g info l b i"
  shows "(i < length (stmts g b) \<longrightarrow> l \<notin> set (read_locals (kind (stmts g b ! i)))) \<and>
    (i = length (stmts g b) \<longrightarrow> switched_local (terminator (basic_blocks g ! b)) \<noteq> Some l)"
proof -
  obtain sites where s: "solve f info (set (suspects_of f info)) = Some sites"
    "basic_blocks g = basic_blocks (insert_checks f info sites)"
    by (rule run_inserts [OF assms(1,2,4)])
  have "b < blocks f" using assms(5) s(2) by simp
  from insert_covers [OF s(1) assms(3,4) this may_be_freed_blocks [OF assms(6) s(2) [symmetric]]] show ?thesis
    by (simp add: s(2) switched_def)
qed

text \<open>A view of a parameter that is dropped on one of two paths before the view is read.\<close>

definition view_fn :: mir_function where
  "view_fn = func [TInt, TList TInt, TList TInt, TBool] 1
     [block [Assign 2 (Use (Copy 1))] (SwitchInt (Copy 3) [(0, 2)] 1),
      block [Drop 1] (Goto 2),
      block [Assign 0 (GetIndex (Copy 2) (Constant (CInt 0)) False)] Return]"

definition view_info :: infos where
  "view_info = the (closed_info Map.empty {} view_fn)"

definition view_checked :: mir_function where
  "view_checked = fst (the (gencheck_run Map.empty {} view_fn))"

lemma gen_checks_cover_witness:
  "may_be_freed view_checked view_info 2 2 0 \<and> kind (stmts view_checked 2 ! 0) = GenCheck 2 4 \<and>
   2 \<notin> set (read_locals (kind (stmts view_checked 2 ! 0)))"
proof -
  have run: "gencheck_run Map.empty {} view_fn = Some (view_checked, [], True)" by code_simp
  have info: "closed_info Map.empty {} view_fn = Some view_info" by code_simp
  have l: "2 \<in> set (suspects_of view_fn view_info)" by code_simp
  have p: "predecessors view_fn 0 = []" by code_simp
  have fr: "1 < blocks view_checked" "0 < length (stmts view_checked 1)"
    "frees view_info 2 (kind (stmts view_checked 1 ! 0))" "\<not> gives 2 (kind (stmts view_checked 1 ! 0))"
    "length (stmts view_checked 1) = 1" "2 \<in> set (bb_succs (basic_blocks view_checked ! 1))"
    "2 < blocks view_checked" "kind (stmts view_checked 2 ! 0) = GenCheck 2 4" "0 < length (stmts view_checked 2)"
    by code_simp+
  have "may_be_freed view_checked view_info 2 1 (Suc 0)" using fr by (intro may_be_freed.freed)
  then have m: "may_be_freed view_checked view_info 2 2 0" using fr by (intro may_be_freed.edge [of _ _ _ 1]) simp_all
  show ?thesis using gen_checks_cover [OF run info p l fr(7) m] fr(8,9) m by simp
qed

end
