(* ===== verification/GenCheckRoots.thy ===== *)
theory GenCheckRoots
  imports GenCheckFlow
begin

text \<open>
  The closure of the suspects of \<open>gencheck/mod.rs\<close>: sharing between aliases and following the roots both end,
  because each change marks a local or adds one of the declared locals to its roots.
\<close>

definition declared_roots :: "nat \<Rightarrow> infos \<Rightarrow> bool" where
  "declared_roots n info \<longleftrightarrow> length info = n \<and> (\<forall>si\<in>set info. si_roots si \<subseteq> {..<n})"

text \<open>A local only ever gains marks and roots.\<close>

definition grows :: "suspect_info \<Rightarrow> suspect_info \<Rightarrow> bool" where
  "grows old new \<longleftrightarrow> (si_suspect old \<longrightarrow> si_suspect new) \<and> (si_unknown old \<longrightarrow> si_unknown new) \<and>
     si_roots old \<subseteq> si_roots new \<and> (si_borrow_span old \<noteq> None \<longrightarrow> si_borrow_span new = si_borrow_span old) \<and>
     si_elem_def new = si_elem_def old"

definition room :: "nat \<Rightarrow> suspect_info \<Rightarrow> nat" where
  "room n si = of_bool (\<not> si_suspect si) + of_bool (\<not> si_unknown si) + of_bool (si_borrow_span si = None) +
     card ({..<n} - si_roots si)"

definition rooms :: "nat \<Rightarrow> infos \<Rightarrow> nat" where
  "rooms n info = sum_list (map (room n) info)"

lemma room_less:
  assumes "grows old new" "new \<noteq> old" "si_roots new \<subseteq> {..<n}"
  shows "room n new < room n old"
proof -
  have sub: "{..<n} - si_roots new \<subseteq> {..<n} - si_roots old" using assms(1) by (auto simp: grows_def)
  then have c: "card ({..<n} - si_roots new) \<le> card ({..<n} - si_roots old)" by (intro card_mono) auto
  consider "si_roots new \<noteq> si_roots old" | "si_suspect new \<noteq> si_suspect old" | "si_unknown new \<noteq> si_unknown old"
    | "si_borrow_span new \<noteq> si_borrow_span old"
    using assms(1,2) by (cases old, cases new) (auto simp: grows_def)
  then show ?thesis
  proof cases
    case 1
    then have "{..<n} - si_roots new \<subset> {..<n} - si_roots old" using assms(1,3) sub by (auto simp: grows_def)
    then have "card ({..<n} - si_roots new) < card ({..<n} - si_roots old)" by (intro psubset_card_mono) auto
    with assms(1) show ?thesis by (auto simp: room_def grows_def of_bool_def)
  qed (use assms(1) c in \<open>auto simp: room_def grows_def of_bool_def\<close>)
qed

lemma rooms_update:
  assumes "x < length info" "grows (info ! x) new" "si_roots new \<subseteq> {..<n}"
  shows "rooms n (info[x := new]) \<le> rooms n info \<and> (new \<noteq> info ! x \<longrightarrow> rooms n (info[x := new]) < rooms n info)"
proof -
  have "room n (info ! x) \<le> rooms n info"
    using elem_le_sum_list [of x "map (room n) info"] assms(1) by (simp add: rooms_def)
  then have "rooms n (info[x := new]) + room n (info ! x) = rooms n info + room n new"
    using assms(1) by (simp add: rooms_def map_update sum_list_update)
  moreover have "new \<noteq> info ! x \<Longrightarrow> room n new < room n (info ! x)" using room_less assms(2,3) by blast
  ultimately show ?thesis by (cases "new = info ! x") auto
qed

text \<open>One change of one local, with the flag of the loop.\<close>

lemma change_one:
  assumes "declared_roots n info" "x < n" "grows (info ! x) new" "si_roots new \<subseteq> {..<n}"
  shows "declared_roots n (info[x := new])"
    "rooms n (info[x := new]) \<le> rooms n info"
    "new \<noteq> info ! x \<longleftrightarrow> rooms n (info[x := new]) < rooms n info"
    "rooms n (info[x := new]) = rooms n info \<Longrightarrow> info[x := new] = info"
proof -
  have x: "x < length info" using assms(1,2) by (simp add: declared_roots_def)
  note u = rooms_update [OF x assms(3,4)]
  show "declared_roots n (info[x := new])"
    using assms(1,4) set_update_subset_insert [of info x new] by (auto simp: declared_roots_def)
  show "rooms n (info[x := new]) \<le> rooms n info" using u by blast
  show i: "new \<noteq> info ! x \<longleftrightarrow> rooms n (info[x := new]) < rooms n info" using u by auto
  show "info[x := new] = info" if "rooms n (info[x := new]) = rooms n info" using i that by auto
qed

text \<open>What a turn promises to the loop.\<close>

definition good_turn :: "nat \<Rightarrow> (infos \<times> bool \<Rightarrow> infos \<times> bool) \<Rightarrow> bool" where
  "good_turn n turn \<longleftrightarrow> (\<forall>x c y d. declared_roots n x \<longrightarrow> turn (x, c) = (y, d) \<longrightarrow>
     declared_roots n y \<and> rooms n y \<le> rooms n x \<and> (d \<longleftrightarrow> c \<or> rooms n y < rooms n x) \<and>
     (rooms n y = rooms n x \<longrightarrow> y = x))"

lemma good_turnD:
  "good_turn n turn \<Longrightarrow> declared_roots n x \<Longrightarrow> turn (x, c) = (y, d) \<Longrightarrow>
   declared_roots n y \<and> rooms n y \<le> rooms n x \<and> (d \<longleftrightarrow> c \<or> rooms n y < rooms n x) \<and> (rooms n y = rooms n x \<longrightarrow> y = x)"
  unfolding good_turn_def by blast

lemma good_turn_comp:
  assumes "good_turn n t" "good_turn n u"
  shows "good_turn n (\<lambda>s. u (t s))"
  unfolding good_turn_def
proof (intro allI impI)
  fix x c y d
  assume a: "declared_roots n x" "u (t (x, c)) = (y, d)"
  obtain z e where z: "t (x, c) = (z, e)" by fastforce
  have 1: "declared_roots n z \<and> rooms n z \<le> rooms n x \<and> (e \<longleftrightarrow> c \<or> rooms n z < rooms n x) \<and> (rooms n z = rooms n x \<longrightarrow> z = x)"
    using assms(1) a(1) z unfolding good_turn_def by blast
  have 2: "declared_roots n y \<and> rooms n y \<le> rooms n z \<and> (d \<longleftrightarrow> e \<or> rooms n y < rooms n z) \<and> (rooms n y = rooms n z \<longrightarrow> y = z)"
    using assms(2) 1 a(2) z unfolding good_turn_def by metis
  have "rooms n y < rooms n x \<longleftrightarrow> rooms n y < rooms n z \<or> rooms n z < rooms n x" using 1 2 by auto
  with 1 2 show "declared_roots n y \<and> rooms n y \<le> rooms n x \<and> (d \<longleftrightarrow> c \<or> rooms n y < rooms n x) \<and>
     (rooms n y = rooms n x \<longrightarrow> y = x)" by auto
qed

lemma good_turn_fold:
  "(\<And>k. k \<in> set ks \<Longrightarrow> good_turn n (t k)) \<Longrightarrow> good_turn n (fold t ks)"
proof (induction ks)
  case Nil
  show ?case by (simp add: good_turn_def)
next
  case (Cons k ks)
  then show ?case using good_turn_comp [of n "t k" "fold t ks"] by (simp add: comp_def)
qed

lemma share_with_good: "x < n \<Longrightarrow> y < n \<Longrightarrow> good_turn n (share_with x y)"
  unfolding good_turn_def
proof (intro allI impI)
  fix info c info' d
  assume a: "x < n" "y < n" "declared_roots n info" "share_with x y (info, c) = (info', d)"
  let ?ix = "info ! x" and ?iy = "info ! y"
  let ?new = "?ix\<lparr>si_suspect := si_suspect ?ix \<or> si_suspect ?iy,
      si_borrow_span := (if si_borrow_span ?ix = None then si_borrow_span ?iy else si_borrow_span ?ix),
      si_unknown := si_unknown ?ix \<or> si_unknown ?iy, si_roots := si_roots ?ix \<union> (si_roots ?iy - {x})\<rparr>"
  have r: "info' = info[x := ?new]" "d \<longleftrightarrow> c \<or> ?new \<noteq> ?ix" using a(4) by (auto simp: share_with_def Let_def)
  have g: "grows ?ix ?new" by (simp add: grows_def)
  have "?ix \<in> set info" "?iy \<in> set info" using a by (auto simp: declared_roots_def)
  then have s: "si_roots ?new \<subseteq> {..<n}" using a(3) by (auto simp: declared_roots_def)
  from change_one [OF a(3,1) g s] show "declared_roots n info' \<and> rooms n info' \<le> rooms n info \<and>
      (d \<longleftrightarrow> c \<or> rooms n info' < rooms n info) \<and> (rooms n info' = rooms n info \<longrightarrow> info' = info)"
    unfolding r by blast
qed

lemma close_root_good: "i < n \<Longrightarrow> r < n \<Longrightarrow> good_turn n (close_root i r)"
  unfolding good_turn_def
proof (intro allI impI)
  fix info c info' d
  assume a: "i < n" "r < n" "declared_roots n info" "close_root i r (info, c) = (info', d)"
  let ?old = "info ! i"
  let ?new = "?old\<lparr>si_unknown := si_unknown ?old \<or> si_unknown (info ! r),
      si_roots := si_roots ?old \<union> (si_roots (info ! r) - {i})\<rparr>"
  show "declared_roots n info' \<and> rooms n info' \<le> rooms n info \<and>
      (d \<longleftrightarrow> c \<or> rooms n info' < rooms n info) \<and> (rooms n info' = rooms n info \<longrightarrow> info' = info)"
  proof (cases "r = i")
    case True
    with a show ?thesis by (simp add: close_root_def)
  next
    case False
    then have res: "info' = info[i := ?new]" "d \<longleftrightarrow> c \<or> ?new \<noteq> ?old"
      using a(4) by (auto simp: close_root_def Let_def)
    have g: "grows ?old ?new" by (simp add: grows_def)
    have "?old \<in> set info" "info ! r \<in> set info" using a by (auto simp: declared_roots_def)
    then have s: "si_roots ?new \<subseteq> {..<n}" using a(3) by (auto simp: declared_roots_def)
    from change_one [OF a(3,1) g s] show ?thesis unfolding res by blast
  qed
qed

text \<open>A turn of the closure goes over the roots that the local has when the turn starts.\<close>

definition close_turn :: "local \<Rightarrow> infos \<times> bool \<Rightarrow> infos \<times> bool" where
  "close_turn i = (\<lambda>(cur, changed). fold (close_root i) (sorted_list_of_set (si_roots (cur ! i))) (cur, changed))"

lemma close_turn_good:
  assumes "i < n"
  shows "good_turn n (close_turn i)"
  unfolding good_turn_def
proof (intro allI impI)
  fix x c y d
  assume x: "declared_roots n x" and t: "close_turn i (x, c) = (y, d)"
  have sub: "si_roots (x ! i) \<subseteq> {..<n}" using x assms by (auto simp: declared_roots_def)
  then have "finite (si_roots (x ! i))" by (rule finite_subset) simp
  with sub have "good_turn n (fold (close_root i) (sorted_list_of_set (si_roots (x ! i))))"
    using assms by (intro good_turn_fold close_root_good) auto
  then show "declared_roots n y \<and> rooms n y \<le> rooms n x \<and> (d \<longleftrightarrow> c \<or> rooms n y < rooms n x) \<and>
      (rooms n y = rooms n x \<longrightarrow> y = x)"
    using x t unfolding good_turn_def close_turn_def by simp
qed

interpretation share_loop: changed_loop "\<lambda>(a, b) ic. share_with b a (share_with a b ic)" aliases
    "\<lambda>info. declared_roots n info \<and> (\<forall>(a, b)\<in>set aliases. a < n \<and> b < n)" "rooms n" id
  for aliases n
proof
  fix k x c y d
  assume a: "k \<in> set aliases" "declared_roots n x \<and> (\<forall>(a, b)\<in>set aliases. a < n \<and> b < n)"
    "(case k of (a, b) \<Rightarrow> \<lambda>ic. share_with b a (share_with a b ic)) (x, c) = (y, d)"
  obtain p q where k: "k = (p, q)" "p < n" "q < n" using a(1,2) by (cases k) auto
  have "good_turn n (\<lambda>ic. share_with q p (share_with p q ic))"
    by (rule good_turn_comp [OF share_with_good share_with_good]) (rule k)+
  from good_turnD [OF this, of x c y d] have "declared_roots n y \<and> rooms n y \<le> rooms n x \<and>
      (d \<longleftrightarrow> c \<or> rooms n y < rooms n x) \<and> (rooms n y = rooms n x \<longrightarrow> y = x)"
    using a(2,3) unfolding k(1) by simp
  with a(2) show "(declared_roots n y \<and> (\<forall>(a, b)\<in>set aliases. a < n \<and> b < n)) \<and> rooms n y \<le> rooms n x \<and>
      (d \<longleftrightarrow> c \<or> rooms n y < rooms n x) \<and> (rooms n y = rooms n x \<longrightarrow> id y = id x)"
    by simp
qed

interpretation root_loop: changed_loop close_turn "[0..<n]" "declared_roots n" "rooms n" id for n
proof
  fix k x c y d
  assume "k \<in> set [0..<n]" "declared_roots n x" "close_turn k (x, c) = (y, d)"
  then show "declared_roots n y \<and> rooms n y \<le> rooms n x \<and> (d \<longleftrightarrow> c \<or> rooms n y < rooms n x) \<and>
      (rooms n y = rooms n x \<longrightarrow> id y = id x)"
    using close_turn_good [of k n] unfolding good_turn_def by simp
qed

lemma merge_ends:
  assumes "declared_roots n info" "\<forall>(a, b)\<in>set aliases. a < n \<and> b < n"
  obtains merged where "merge_aliases aliases info = Some merged" "declared_roots n merged"
proof -
  obtain y where "while_option snd (\<lambda>(x, _). fold (\<lambda>(a, b) ic. share_with b a (share_with a b ic)) aliases (x, False))
      (info, True) = Some (y, False)" "declared_roots n y"
    by (rule share_loop.loop_ends [of n info aliases]) (use assms in auto)
  then show ?thesis by (intro that) (simp_all add: merge_aliases_def)
qed

lemma close_roots_turns:
  "close_roots info = map_option fst (while_option snd
     (\<lambda>(cur, _). fold close_turn [0..<length info] (cur, False)) (info, True))"
  unfolding close_roots_def close_turn_def [abs_def] ..

lemma close_ends:
  assumes "declared_roots n info"
  obtains closed where "close_roots info = Some closed" "declared_roots n closed"
proof -
  have l: "length info = n" using assms by (simp add: declared_roots_def)
  obtain y where "while_option snd (\<lambda>(x, _). fold close_turn [0..<n] (x, False)) (info, True) = Some (y, False)"
    "declared_roots n y"
    by (rule root_loop.loop_ends [OF assms])
  then show ?thesis by (intro that) (simp_all add: close_roots_turns l)
qed

subsection \<open>What is collected\<close>

definition collected_ok :: "nat \<Rightarrow> infos \<times> (local \<times> local) list \<Rightarrow> bool" where
  "collected_ok n ia \<longleftrightarrow> declared_roots n (fst ia) \<and> (\<forall>(a, b)\<in>set (snd ia). a < n \<and> b < n)"

lemma declared_update:
  "declared_roots n info \<Longrightarrow> si_roots new \<subseteq> {..<n} \<Longrightarrow> declared_roots n (info[x := new])"
  using set_update_subset_insert [of info x new] by (auto simp: declared_roots_def)

lemma declared_nth: "declared_roots n info \<Longrightarrow> x < n \<Longrightarrow> r \<in> si_roots (info ! x) \<Longrightarrow> r < n"
  by (fastforce simp: declared_roots_def)

lemma op_locals_subset: "op_local p = l # ls \<Longrightarrow> set (op_local p) = {l}"
  by (cases p) auto

lemma suspect_at_roots [simp]: "si_roots (suspect_at sp si) = si_roots si"
  by (simp add: suspect_at_def)

lemma escape_ok:
  assumes "declared_roots (length (locals f)) info" "\<And>c. owner = Some c \<Longrightarrow> c < length (locals f)"
  shows "declared_roots (length (locals f)) (escape f sp p owner info)"
  using assms declared_nth [OF assms(1)]
  by (auto simp: escape_def tracked_def intro!: declared_update split: list.split option.split)

text \<open>The locals of a statement are declared.\<close>

definition stmt_declared :: "mir_function \<Rightarrow> statement \<Rightarrow> bool" where
  "stmt_declared f s \<longleftrightarrow> (\<forall>l\<in>stmt_locals (kind s). l < length (locals f)) \<and>
     (\<forall>d rv. kind s = Assign d rv \<longrightarrow> d < length (locals f))"

lemma op_owner_local: "op_owner p = Some c \<Longrightarrow> c \<in> set (op_local p)"
  by (cases p) (auto simp: op_owner_def)

lemma collect_escapes_ok:
  assumes "declared_roots (length (locals f)) info" "stmt_declared f s"
  shows "declared_roots (length (locals f)) (collect_escapes pe f s info)"
proof -
  let ?ok = "declared_roots (length (locals f))"
  have agg: "?ok (fold (\<lambda>p. escape f (span_of s) p (Some dst)) ops info)" if "dst < length (locals f)" for dst ops
    using fold_invariant [of ?ok, OF assms(1)] escape_ok that by (metis option.inject)
  have call: "?ok (fold (\<lambda>(i, p) acc. if runtime_escape callee i \<or> escapes_at pe callee i
      then escape f (span_of s) p None acc else acc) xs info)" for callee xs
    by (rule fold_invariant [of ?ok, OF assms(1)]) (auto intro: escape_ok)
  show ?thesis
    using assms agg call
    by (auto simp: collect_escapes_def stmt_declared_def intro!: escape_ok dest!: op_owner_local
        split: statement_kind.split rvalue.split operand.split const.split)
qed

lemma collect_borrows_ok:
  assumes "collected_ok (length (locals f)) (info, aliases)" "stmt_declared f s"
  shows "collected_ok (length (locals f)) (collect_borrows br f s (info, aliases))"
proof -
  let ?n = "length (locals f)"
  have info: "declared_roots ?n info" and al: "\<forall>(a, b)\<in>set aliases. a < ?n \<and> b < ?n"
    using assms(1) by (auto simp: collected_ok_def)
  have keep: "declared_roots ?n (info[x := new])"
    if "\<And>r. r \<in> si_roots new \<Longrightarrow> r < ?n" for x new
    using declared_update [OF info, of new x] that by blast
  have base: "declared_roots ?n (elem_borrow (span_of s) dst p info)"
    if "set (op_local p) \<subseteq> stmt_locals (kind s)" "dst < ?n" for p dst
    unfolding elem_borrow_def using that assms(2) declared_nth [OF info]
    by (intro keep) (auto simp: stmt_declared_def)
  show ?thesis
  proof (cases "kind s")
    case (Assign dst rv)
    then have d: "dst < ?n" "\<And>l. l \<in> rv_locals rv \<Longrightarrow> l < ?n" using assms(2) by (auto simp: stmt_declared_def)
    show ?thesis
      using info al d declared_nth [OF info] base [of _ dst]
      by (auto simp: collect_borrows_def collected_ok_def Assign intro!: keep
          split: rvalue.split operand.split const.split)
  qed (use info al in \<open>simp_all add: collect_borrows_def collected_ok_def\<close>)
qed

lemma collect_suspects_ok:
  assumes "wf_locals f"
  shows "collected_ok (length (locals f)) (collect_suspects pe br f)"
  unfolding collect_suspects_def
proof (rule fold_invariant)
  show "collected_ok (length (locals f)) (replicate (length (locals f)) no_suspect, [])"
    by (auto simp: collected_ok_def declared_roots_def no_suspect_def)
next
  fix s ia
  assume "s \<in> set (concat (map statements (basic_blocks f)))" and ia: "collected_ok (length (locals f)) ia"
  then have s: "stmt_declared f s" using assms by (auto simp: wf_locals_def stmt_declared_def)
  obtain info aliases where "ia = (info, aliases)" by fastforce
  with ia s show "collected_ok (length (locals f))
      (case ia of (info, aliases) \<Rightarrow> collect_borrows br f s (collect_escapes pe f s info, aliases))"
    using collect_escapes_ok [of f info s pe] by (auto simp: collected_ok_def intro!: collect_borrows_ok [unfolded collected_ok_def])
qed

lemma closed_info_ends:
  assumes "wf_locals f"
  obtains info where "closed_info pe br f = Some info" "declared_roots (length (locals f)) info"
proof -
  obtain info aliases where c: "collect_suspects pe br f = (info, aliases)" by fastforce
  then have "declared_roots (length (locals f)) info" "\<forall>(a, b)\<in>set aliases. a < length (locals f) \<and> b < length (locals f)"
    using collect_suspects_ok [OF assms, of pe br] by (auto simp: collected_ok_def)
  then obtain merged where m: "merge_aliases aliases info = Some merged" "declared_roots (length (locals f)) merged"
    by (rule merge_ends)
  obtain closed where "close_roots merged = Some closed" "declared_roots (length (locals f)) closed"
    by (rule close_ends [OF m(2)])
  with c m show ?thesis by (intro that [of closed]) (simp_all add: closed_info_def)
qed

end
