(* ===== verification/MustStale.thy ===== *)
theory MustStale
  imports GenCheckRoots
begin

text \<open>
  What \<open>must_stale.rs\<close> reports: exactly the reads of a suspect all of whose roots have been dropped, on every
  path, and neither assigned since nor the suspect itself. The words of bits stand for a set of pairs of a
  suspect and one of its roots.
\<close>

subsection \<open>Suspects with their bits\<close>

definition eligible :: "mir_function \<Rightarrow> infos \<Rightarrow> local \<Rightarrow> bool" where
  "eligible f info l \<longleftrightarrow> l < length info \<and> l \<noteq> 0 \<and> si_suspect (info ! l) \<and> \<not> si_unknown (info ! l) \<and>
     checkable (decl_ty (locals f ! l)) \<and> si_roots (info ! l) \<noteq> {} \<and> card (si_roots (info ! l)) \<le> 64"

definition root_pairs :: "mir_function \<Rightarrow> infos \<Rightarrow> (local \<times> local) set" where
  "root_pairs f info = {(l, r). eligible f info l \<and> r \<in> si_roots (info ! l)}"

definition finite_roots :: "infos \<Rightarrow> bool" where
  "finite_roots info \<longleftrightarrow> (\<forall>si\<in>set info. finite (si_roots si))"

abbreviation suspect_no :: "must_info \<Rightarrow> nat \<Rightarrow> local" where
  "suspect_no mi s \<equiv> mi_suspects mi ! s"

abbreviation root_no :: "must_info \<Rightarrow> nat \<Rightarrow> nat \<Rightarrow> local" where
  "root_no mi s b \<equiv> mi_roots mi ! s ! b"

abbreviation suspects_no :: "must_info \<Rightarrow> nat" where
  "suspects_no mi \<equiv> length (mi_suspects mi)"

abbreviation roots_no :: "must_info \<Rightarrow> nat \<Rightarrow> nat" where
  "roots_no mi s \<equiv> length (mi_roots mi ! s)"

text \<open>What the numbering of suspects and bits promises.\<close>

definition numbered :: "mir_function \<Rightarrow> infos \<Rightarrow> must_info \<Rightarrow> bool" where
  "numbered f info mi \<longleftrightarrow> distinct (mi_suspects mi) \<and> set (mi_suspects mi) = {l. eligible f info l} \<and>
     length (mi_roots mi) = suspects_no mi \<and>
     (\<forall>s < suspects_no mi. distinct (mi_roots mi ! s) \<and> roots_no mi s \<le> 64 \<and>
        set (mi_roots mi ! s) = si_roots (info ! suspect_no mi s))"

lemma build_numbered: "finite_roots info \<Longrightarrow> numbered f info (build_must_info f info)"
proof -
  assume fin: "finite_roots info"
  let ?mi = "build_must_info f info"
  have s: "mi_suspects ?mi = filter (eligible f info) [0..<length info]"
    unfolding build_must_info_def Let_def must_info.select_convs
    by (rule filter_cong) (auto simp: eligible_def max_roots_def)
  have r: "mi_roots ?mi = map (\<lambda>i. sorted_list_of_set (si_roots (info ! i))) (mi_suspects ?mi)"
    by (simp add: build_must_info_def Let_def)
  have sus: "set (mi_suspects ?mi) = {l. eligible f info l}" "distinct (mi_suspects ?mi)"
    unfolding s by (auto simp: eligible_def)
  have each: "distinct (mi_roots ?mi ! i) \<and> roots_no ?mi i \<le> 64 \<and>
      set (mi_roots ?mi ! i) = si_roots (info ! suspect_no ?mi i)" if "i < suspects_no ?mi" for i
  proof -
    have "eligible f info (suspect_no ?mi i)" using sus(1) nth_mem [OF that] by blast
    then have "finite (si_roots (info ! suspect_no ?mi i))" "card (si_roots (info ! suspect_no ?mi i)) \<le> 64"
      using fin by (auto simp: eligible_def finite_roots_def)
    then show ?thesis unfolding r using that by simp
  qed
  have "length (mi_roots ?mi) = suspects_no ?mi" unfolding r by simp
  with sus each show ?thesis unfolding numbered_def by blast
qed

lemma index_of_iff:
  assumes "distinct (mi_suspects mi)"
  shows "index_of mi l = Some s \<longleftrightarrow> s < suspects_no mi \<and> suspect_no mi s = l"
proof
  assume "index_of mi l = Some s"
  then have s: "s = length (takeWhile (\<lambda>x. x \<noteq> l) (mi_suspects mi))" "s < suspects_no mi"
    by (auto simp: index_of_def Let_def split: if_splits)
  then show "s < suspects_no mi \<and> suspect_no mi s = l" using nth_length_takeWhile [of "\<lambda>x. x \<noteq> l"] by simp
next
  assume s: "s < suspects_no mi \<and> suspect_no mi s = l"
  let ?i = "length (takeWhile (\<lambda>x. x \<noteq> l) (mi_suspects mi))"
  have "l \<in> set (mi_suspects mi)" using s by auto
  then obtain ys zs where "mi_suspects mi = ys @ l # zs" "l \<notin> set ys" by (meson split_list_first)
  then have "?i < suspects_no mi" by (simp add: takeWhile_append)
  moreover from this have "suspect_no mi ?i = l" using nth_length_takeWhile [of "\<lambda>x. x \<noteq> l"] by simp
  moreover have "?i = s" using nth_eq_iff_index_eq [OF assms, of ?i s] calculation s by simp
  ultimately show "index_of mi l = Some s" by (simp add: index_of_def Let_def)
qed

lemma backed_by_iff:
  assumes "length (mi_roots mi) = suspects_no mi"
  shows "(s, b) \<in> set (backed_by mi r) \<longleftrightarrow> s < suspects_no mi \<and> b < roots_no mi s \<and> root_no mi s b = r"
  by (force simp: backed_by_def in_set_enumerate_eq assms)

subsection \<open>Words of bits\<close>

lemma bit_full_mask_for: "n \<le> 64 \<Longrightarrow> bit (full_mask_for n) i \<longleftrightarrow> i < n"
proof (cases "n = 64")
  case True
  then show ?thesis by (auto simp: full_mask_for_def bit_simps dest: bit_imp_le_length)
next
  case False
  assume "n \<le> 64"
  with False have "full_mask_for n = mask n" by (simp add: full_mask_for_def mask_eq_exp_minus_1)
  with False \<open>n \<le> 64\<close> show ?thesis by (auto simp: bit_mask_iff)
qed

text \<open>The pairs whose bit is set, and what is true of the words at every time.\<close>

definition dropped :: "must_info \<Rightarrow> must_state \<Rightarrow> (local \<times> local) set" where
  "dropped mi w = {(suspect_no mi s, root_no mi s b) | s b. s < suspects_no mi \<and> b < roots_no mi s \<and> bit (fst w ! s) b}"

definition words_ok :: "must_info \<Rightarrow> must_state \<Rightarrow> bool" where
  "words_ok mi w \<longleftrightarrow> length (fst w) = suspects_no mi \<and> length (snd w) = suspects_no mi \<and>
     (\<forall>s < suspects_no mi. \<forall>b. bit (fst w ! s) b \<longrightarrow> b < roots_no mi s)"

lemma dropped_iff:
  assumes "numbered f info mi" "s < suspects_no mi" "b < roots_no mi s"
  shows "(suspect_no mi s, root_no mi s b) \<in> dropped mi w \<longleftrightarrow> bit (fst w ! s) b"
  using assms by (auto simp: dropped_def numbered_def nth_eq_iff_index_eq)

lemma dropped_subset: "numbered f info mi \<Longrightarrow> dropped mi w \<subseteq> root_pairs f info"
  by (fastforce simp: dropped_def numbered_def root_pairs_def)

lemma root_pairsE:
  assumes "numbered f info mi" "(l, r) \<in> root_pairs f info"
  obtains s b where "s < suspects_no mi" "b < roots_no mi s" "suspect_no mi s = l" "root_no mi s b = r"
proof -
  have "l \<in> set (mi_suspects mi)" "r \<in> si_roots (info ! l)"
    using assms by (auto simp: root_pairs_def numbered_def)
  then obtain s where s: "s < suspects_no mi" "suspect_no mi s = l" by (auto simp: in_set_conv_nth)
  with assms(1) \<open>r \<in> si_roots (info ! l)\<close> have "r \<in> set (mi_roots mi ! s)" by (auto simp: numbered_def)
  then obtain b where "b < roots_no mi s" "root_no mi s b = r" by (auto simp: in_set_conv_nth)
  with s that show ?thesis by blast
qed

lemma numbered_pair:
  "numbered f info mi \<Longrightarrow> s < suspects_no mi \<Longrightarrow> b < roots_no mi s \<Longrightarrow>
   (suspect_no mi s, root_no mi s b) \<in> root_pairs f info"
  by (fastforce simp: root_pairs_def numbered_def)

lemma dropped_eqI:
  assumes "numbered f info mi" "P \<subseteq> root_pairs f info"
    and "\<And>s b. s < suspects_no mi \<Longrightarrow> b < roots_no mi s \<Longrightarrow>
      bit (fst w ! s) b \<longleftrightarrow> (suspect_no mi s, root_no mi s b) \<in> P"
  shows "dropped mi w = P"
proof (intro set_eqI)
  fix x :: "local \<times> local"
  obtain l r where x: "x = (l, r)" by fastforce
  show "x \<in> dropped mi w \<longleftrightarrow> x \<in> P"
  proof
    assume "x \<in> dropped mi w"
    then show "x \<in> P" using assms(3) by (auto simp: dropped_def)
  next
    assume "x \<in> P"
    then have "(l, r) \<in> root_pairs f info" using assms(2) x by blast
    with assms(1) obtain s b where "s < suspects_no mi" "b < roots_no mi s" "suspect_no mi s = l" "root_no mi s b = r"
      by (rule root_pairsE)
    with assms(3) \<open>x \<in> P\<close> show "x \<in> dropped mi w" unfolding dropped_def x by blast
  qed
qed

subsection \<open>Steps on words and on pairs\<close>

text \<open>What a statement does to the set of the pairs whose root has been dropped.\<close>

definition pair_act :: "(local \<times> local) set \<Rightarrow> statement_kind \<Rightarrow> (local \<times> local) set \<Rightarrow> (local \<times> local) set" where
  "pair_act tops k P =
     (case k of
        Assign dst _ \<Rightarrow> {(l, r) \<in> P. l \<noteq> dst \<and> r \<noteq> dst}
      | Drop d \<Rightarrow> P \<union> {(l, r) \<in> tops. r = d}
      | _ \<Rightarrow> P)"

lemma forget_roots:
  "length (fst w) = n \<Longrightarrow> length (snd w) = n \<Longrightarrow>
   length (fst (fold forget_root xs w)) = n \<and> length (snd (fold forget_root xs w)) = n \<and>
   (\<forall>s < n. \<forall>b < 64. bit (fst (fold forget_root xs w) ! s) b \<longleftrightarrow> bit (fst w ! s) b \<and> (s, b) \<notin> set xs)"
proof (induction xs arbitrary: w)
  case (Cons x xs)
  obtain s b where x: "x = (s, b)" by fastforce
  obtain masks spans where w: "w = (masks, spans)" by fastforce
  have l: "length (fst (forget_root x w)) = n" "length (snd (forget_root x w)) = n"
    using Cons.prems by (auto simp: forget_root_def x w Let_def)
  have "bit (fst (forget_root x w) ! t) c \<longleftrightarrow> bit (fst w ! t) c \<and> (t, c) \<noteq> x" if "t < n" "c < 64" for t c
    using Cons.prems that
    by (auto simp: forget_root_def x w Let_def list_update_nth_cases bit_simps)
  with Cons.IH [OF l] show ?case by auto
qed simp

lemma drop_roots:
  "length (fst w) = n \<Longrightarrow> length (snd w) = n \<Longrightarrow>
   length (fst (fold (drop_root sp) xs w)) = n \<and> length (snd (fold (drop_root sp) xs w)) = n \<and>
   (\<forall>s < n. \<forall>b < 64. bit (fst (fold (drop_root sp) xs w) ! s) b \<longleftrightarrow> bit (fst w ! s) b \<or> (s, b) \<in> set xs)"
proof (induction xs arbitrary: w)
  case (Cons x xs)
  obtain s b where x: "x = (s, b)" by fastforce
  obtain masks spans where w: "w = (masks, spans)" by fastforce
  have l: "length (fst (drop_root sp x w)) = n" "length (snd (drop_root sp x w)) = n"
    using Cons.prems by (auto simp: drop_root_def x w)
  have "bit (fst (drop_root sp x w) ! t) c \<longleftrightarrow> bit (fst w ! t) c \<or> (t, c) = x" if "t < n" "c < 64" for t c
    using Cons.prems that
    by (auto simp: drop_root_def x w list_update_nth_cases bit_simps)
  with Cons.IH [OF l] show ?case by auto
qed simp

lemma bit_u64: "bit (w :: u64) b \<Longrightarrow> b < 64"
  using bit_imp_le_length [of w b] by simp

lemma words_okI:
  assumes "numbered f info mi" "length (fst w) = suspects_no mi" "length (snd w) = suspects_no mi"
    "\<And>s b. s < suspects_no mi \<Longrightarrow> b < 64 \<Longrightarrow> bit (fst w ! s) b \<Longrightarrow> b < roots_no mi s"
  shows "words_ok mi w"
  using assms bit_u64 by (auto simp: words_ok_def)

lemma must_act_words:
  assumes n: "numbered f info mi" and ok: "words_ok mi w"
  shows "words_ok mi (must_act mi s w)"
    "dropped mi (must_act mi s w) = pair_act (root_pairs f info) (kind s) (dropped mi w)"
proof -
  have l: "length (fst w) = suspects_no mi" "length (snd w) = suspects_no mi"
    "\<And>i b. i < suspects_no mi \<Longrightarrow> bit (fst w ! i) b \<Longrightarrow> b < roots_no mi i"
    using ok by (auto simp: words_ok_def)
  have r64: "b < 64" if "i < suspects_no mi" "b < roots_no mi i" for i b
    using n that by (fastforce simp: numbered_def)
  have len: "length (mi_roots mi) = suspects_no mi" and dis: "distinct (mi_suspects mi)"
    using n by (auto simp: numbered_def)
  let ?w = "must_act mi s w"
  have "words_ok mi ?w \<and> (\<forall>i < suspects_no mi. \<forall>b < roots_no mi i.
      bit (fst ?w ! i) b \<longleftrightarrow> (suspect_no mi i, root_no mi i b) \<in> pair_act (root_pairs f info) (kind s) (dropped mi w))"
  proof (cases "kind s")
    case (Assign dst rv)
    define v where "v = (case index_of mi dst of
        Some i \<Rightarrow> (case w of (masks, spans) \<Rightarrow> (masks[i := 0], spans[i := None])) | None \<Rightarrow> w)"
    have w: "?w = fold forget_root (backed_by mi dst) v"
      by (simp add: must_act_def Assign v_def Let_def)
    have vl: "length (fst v) = suspects_no mi" "length (snd v) = suspects_no mi"
      using l by (auto simp: v_def split: option.split prod.split)
    have vb: "bit (fst v ! i) b \<longleftrightarrow> bit (fst w ! i) b \<and> suspect_no mi i \<noteq> dst" if "i < suspects_no mi" for i b
    proof (cases "index_of mi dst")
      case None
      then have "suspect_no mi i \<noteq> dst" using index_of_iff [OF dis, of dst i] that by auto
      with None show ?thesis by (simp add: v_def)
    next
      case (Some j)
      then have j: "j < suspects_no mi" "suspect_no mi j = dst" using index_of_iff [OF dis] by auto
      then have "suspect_no mi i = dst \<longleftrightarrow> i = j" using that dis by (auto simp: nth_eq_iff_index_eq)
      moreover have "fst v ! i = (if i = j then 0 else fst w ! i)"
        using that l by (cases w) (simp add: v_def Some list_update_nth_cases)
      ultimately show ?thesis by simp
    qed
    have fb: "bit (fst ?w ! i) b \<longleftrightarrow> bit (fst w ! i) b \<and> suspect_no mi i \<noteq> dst \<and> (i, b) \<notin> set (backed_by mi dst)"
      if "i < suspects_no mi" "b < 64" for i b
      using forget_roots [OF vl, of "backed_by mi dst"] vb that unfolding w by blast
    have "words_ok mi ?w"
      using forget_roots [OF vl, of "backed_by mi dst"] fb l(3) by (intro words_okI [OF n]) (auto simp: w)
    moreover have "bit (fst ?w ! i) b \<longleftrightarrow> (suspect_no mi i, root_no mi i b) \<in> pair_act (root_pairs f info) (kind s) (dropped mi w)"
      if "i < suspects_no mi" "b < roots_no mi i" for i b
      using fb [OF that(1) r64 [OF that]] that dropped_iff [OF n that] backed_by_iff [OF len, of i b dst]
      by (auto simp: pair_act_def Assign)
    ultimately show ?thesis by blast
  next
    case (Drop d)
    have w: "?w = fold (drop_root (span_of s)) (backed_by mi d) w" by (simp add: must_act_def Drop)
    have fb: "bit (fst ?w ! i) b \<longleftrightarrow> bit (fst w ! i) b \<or> (i, b) \<in> set (backed_by mi d)"
      if "i < suspects_no mi" "b < 64" for i b
      using drop_roots [OF l(1,2), of "span_of s" "backed_by mi d"] that unfolding w by blast
    have "words_ok mi ?w"
      using drop_roots [OF l(1,2), of "span_of s" "backed_by mi d"] fb l(3)
      by (intro words_okI [OF n]) (auto simp: w backed_by_iff [OF len])
    moreover have "bit (fst ?w ! i) b \<longleftrightarrow> (suspect_no mi i, root_no mi i b) \<in> pair_act (root_pairs f info) (kind s) (dropped mi w)"
      if "i < suspects_no mi" "b < roots_no mi i" for i b
    proof -
      have "(suspect_no mi i, root_no mi i b) \<in> root_pairs f info"
        using n that by (fastforce simp: root_pairs_def numbered_def)
      then show ?thesis
        using fb [OF that(1) r64 [OF that]] that dropped_iff [OF n that] backed_by_iff [OF len, of i b d]
        by (auto simp: pair_act_def Drop)
    qed
    ultimately show ?thesis by blast
  qed (use ok dropped_iff [OF n] in \<open>auto simp: must_act_def pair_act_def\<close>)
  moreover have "pair_act (root_pairs f info) (kind s) (dropped mi w) \<subseteq> root_pairs f info"
    using dropped_subset [OF n, of w] by (auto simp: pair_act_def split: statement_kind.split)
  ultimately show "words_ok mi ?w" "dropped mi ?w = pair_act (root_pairs f info) (kind s) (dropped mi w)"
    using dropped_eqI [OF n] by blast+
qed

subsection \<open>Blocks and tables\<close>

fun pair_flow :: "(local \<times> local) set \<Rightarrow> statement list \<Rightarrow> (local \<times> local) set \<Rightarrow> (local \<times> local) set" where
  "pair_flow tops [] P = P"
| "pair_flow tops (s # ss) P = pair_flow tops ss (pair_act tops (kind s) P)"

lemma pair_flow_append [simp]: "pair_flow tops (xs @ ys) P = pair_flow tops ys (pair_flow tops xs P)"
  by (induction xs arbitrary: P) auto

lemma pair_act_mono: "P \<subseteq> Q \<Longrightarrow> pair_act tops k P \<subseteq> pair_act tops k Q"
  by (auto simp: pair_act_def split: statement_kind.split)

lemma pair_flow_mono: "P \<subseteq> Q \<Longrightarrow> pair_flow tops ss P \<subseteq> pair_flow tops ss Q"
  by (induction ss arbitrary: P Q) (simp_all add: pair_act_mono)

lemma pair_flow_subset: "P \<subseteq> tops \<Longrightarrow> pair_flow tops ss P \<subseteq> tops"
proof (induction ss arbitrary: P)
  case (Cons s ss)
  have "pair_act tops (kind s) P \<subseteq> tops" using Cons.prems by (auto simp: pair_act_def split: statement_kind.split)
  with Cons.IH show ?case by simp
qed simp

lemma must_stmts_words:
  "numbered f info mi \<Longrightarrow> words_ok mi w \<Longrightarrow>
   words_ok mi (fst (must_stmts mi b i ss (w, hits))) \<and>
   dropped mi (fst (must_stmts mi b i ss (w, hits))) = pair_flow (root_pairs f info) ss (dropped mi w)"
  by (induction ss arbitrary: w i hits) (simp_all add: must_act_words)

lemma must_block_words:
  assumes "numbered f info mi" "words_ok mi w"
  shows "words_ok mi (fst (must_block f mi b (w, hits)))"
    "dropped mi (fst (must_block f mi b (w, hits))) = pair_flow (root_pairs f info) (stmts f b) (dropped mi w)"
proof -
  have "fst (must_block f mi b (w, hits)) = fst (must_stmts mi b 0 (stmts f b) (w, hits))"
    by (simp add: must_block_def Let_def case_prod_unfold split: option.split)
  with must_stmts_words [OF assms, of b 0 "stmts f b" hits]
  show "words_ok mi (fst (must_block f mi b (w, hits)))"
    "dropped mi (fst (must_block f mi b (w, hits))) = pair_flow (root_pairs f info) (stmts f b) (dropped mi w)"
    by simp_all
qed

definition pair_join :: "mir_function \<Rightarrow> (local \<times> local) set list \<Rightarrow> bb_id \<Rightarrow> (local \<times> local) set" where
  "pair_join f out b = (case predecessors f b of [] \<Rightarrow> {} | p # ps \<Rightarrow> fold (\<lambda>q s. s \<inter> out ! q) ps (out ! p))"

lemma pair_join_iff:
  "x \<in> pair_join f out b \<longleftrightarrow> predecessors f b \<noteq> [] \<and> (\<forall>p\<in>set (predecessors f b). x \<in> out ! p)"
proof -
  have "x \<in> fold (\<lambda>q s. s \<inter> out ! q) ps X \<longleftrightarrow> x \<in> X \<and> (\<forall>q\<in>set ps. x \<in> out ! q)" for ps X
    by (induction ps arbitrary: X) auto
  then show ?thesis by (auto simp: pair_join_def split: list.split)
qed

definition pair_at :: "mir_function \<Rightarrow> (local \<times> local) set \<Rightarrow> (local \<times> local) set list \<Rightarrow> bb_id \<Rightarrow> (local \<times> local) set" where
  "pair_at f tops out b = pair_flow tops (stmts f b) (pair_join f out b)"

lemma pair_join_mono: "below xs ys \<Longrightarrow> length xs = blocks f \<Longrightarrow> pair_join f xs b \<subseteq> pair_join f ys b"
proof
  fix x
  assume "below xs ys" "length xs = blocks f" "x \<in> pair_join f xs b"
  then show "x \<in> pair_join f ys b"
    using subsetD [OF below_nth [of xs ys]] by (auto simp: pair_join_iff predecessors_iff)
qed

interpretation pair_table: shrinking_table "pair_at f (set rs)" "length (basic_blocks f)" "set rs" for f rs
proof
  fix xs ys :: "(local \<times> local) set list" and b
  assume "below xs ys" "length xs = blocks f"
  then show "pair_at f (set rs) xs b \<subseteq> pair_at f (set rs) ys b"
    unfolding pair_at_def by (intro pair_flow_mono pair_join_mono)
qed simp

lemma words_eq_iff:
  assumes "numbered f info mi" "words_ok mi v" "words_ok mi w"
  shows "fst v = fst w \<longleftrightarrow> dropped mi v = dropped mi w"
proof
  show "fst v = fst w \<Longrightarrow> dropped mi v = dropped mi w" by (simp add: dropped_def)
  assume eq: "dropped mi v = dropped mi w"
  show "fst v = fst w"
  proof (rule nth_equalityI)
    show "length (fst v) = length (fst w)" using assms(2,3) by (simp add: words_ok_def)
    fix s
    assume "s < length (fst v)"
    then have s: "s < suspects_no mi" using assms(2) by (simp add: words_ok_def)
    have "bit (fst v ! s) b \<longleftrightarrow> bit (fst w ! s) b" for b
    proof (cases "b < roots_no mi s")
      case True
      from dropped_iff [OF assms(1) s True] eq show ?thesis by metis
    next
      case False
      with assms(2,3) s show ?thesis by (auto simp: words_ok_def)
    qed
    then show "fst v ! s = fst w ! s" by (intro bit_eqI) blast
  qed
qed

definition meet_words :: "must_state \<Rightarrow> must_state \<Rightarrow> must_state" where
  "meet_words v w = (map2 (AND) (fst v) (fst w), map2 (\<lambda>a c. if a = None then c else a) (snd v) (snd w))"

lemma meet_words:
  assumes "numbered f info mi" "words_ok mi v" "words_ok mi w"
  shows "words_ok mi (meet_words v w)" "dropped mi (meet_words v w) = dropped mi v \<inter> dropped mi w"
proof -
  have b: "bit (fst (meet_words v w) ! s) b \<longleftrightarrow> bit (fst v ! s) b \<and> bit (fst w ! s) b" if "s < suspects_no mi" for s b
    using that assms(2,3) by (simp add: meet_words_def words_ok_def bit_simps)
  then show "words_ok mi (meet_words v w)" using assms(2,3) by (auto simp: meet_words_def words_ok_def)
  show "dropped mi (meet_words v w) = dropped mi v \<inter> dropped mi w"
  proof (rule dropped_eqI [OF assms(1)])
    show "dropped mi v \<inter> dropped mi w \<subseteq> root_pairs f info" using dropped_subset [OF assms(1), of v] by blast
  qed (simp add: b dropped_iff [OF assms(1)])
qed

lemma merge_preds_meets:
  "merge_preds f k out b =
     (case predecessors f b of [] \<Rightarrow> (replicate k 0, replicate k None)
      | p # ps \<Rightarrow> fold (\<lambda>q w. meet_words w (out ! q)) ps (out ! p))"
  by (simp add: merge_preds_def meet_words_def case_prod_unfold split: list.split)

lemma fold_meet_words:
  assumes "numbered f info mi" "\<And>q. q \<in> set qs \<Longrightarrow> words_ok mi (out ! q)" "words_ok mi w"
  shows "words_ok mi (fold (\<lambda>q w. meet_words w (out ! q)) qs w) \<and>
    dropped mi (fold (\<lambda>q w. meet_words w (out ! q)) qs w) = fold (\<lambda>q s. s \<inter> dropped mi (out ! q)) qs (dropped mi w)"
  using assms(2,3)
proof (induction qs arbitrary: w)
  case (Cons q qs)
  then show ?case using meet_words [OF assms(1), of w "out ! q"] by simp
qed simp

lemma merge_words:
  assumes n: "numbered f info mi" and out: "\<And>p. p < blocks f \<Longrightarrow> words_ok mi (out ! p)" and len: "length out = blocks f"
  shows "words_ok mi (merge_preds f (suspects_no mi) out b)"
    "dropped mi (merge_preds f (suspects_no mi) out b) = pair_join f (map (dropped mi) out) b"
proof -
  have "words_ok mi (merge_preds f (suspects_no mi) out b) \<and>
      dropped mi (merge_preds f (suspects_no mi) out b) = pair_join f (map (dropped mi) out) b"
  proof (cases "predecessors f b")
    case Nil
    then show ?thesis by (auto simp: merge_preds_meets pair_join_def words_ok_def dropped_def)
  next
    case (Cons p ps)
    then have p: "p < blocks f" "\<And>q. q \<in> set ps \<Longrightarrow> q < blocks f" using predecessors_iff [of _ f b] by auto
    have "fold (\<lambda>q s. s \<inter> dropped mi (out ! q)) ps X = fold (\<lambda>q s. s \<inter> map (dropped mi) out ! q) ps X" for X
      using p len by (intro fold_cong) auto
    then show ?thesis
      using fold_meet_words [OF n, of ps out "out ! p"] p out len
      by (simp add: merge_preds_meets pair_join_def Cons)
  qed
  then show "words_ok mi (merge_preds f (suspects_no mi) out b)"
    "dropped mi (merge_preds f (suspects_no mi) out b) = pair_join f (map (dropped mi) out) b"
    by blast+
qed

text \<open>The loop on words runs as the loop on pairs does.\<close>

definition table_ok :: "mir_function \<Rightarrow> must_info \<Rightarrow> must_state list \<Rightarrow> bool" where
  "table_ok f mi out \<longleftrightarrow> length out = blocks f \<and> (\<forall>w\<in>set out. words_ok mi w)"

definition as_pairs :: "must_info \<Rightarrow> must_state list \<times> bool \<Rightarrow> (local \<times> local) set list \<times> bool" where
  "as_pairs mi oc = (map (dropped mi) (fst oc), snd oc)"

lemma must_turn_pairs:
  assumes n: "numbered f info mi" and ok: "table_ok f mi (fst oc)" and b: "b < blocks f"
    and rs: "set rs = root_pairs f info"
  shows "table_ok f mi (fst (must_turn f mi b oc))"
    "as_pairs mi (must_turn f mi b oc) = pair_table.table_turn f rs b (as_pairs mi oc)"
proof -
  obtain out c where oc: "oc = (out, c)" by fastforce
  let ?m = "merge_preds f (suspects_no mi) out b"
  let ?w = "fst (must_block f mi b (?m, []))"
  have out: "\<And>p. p < blocks f \<Longrightarrow> words_ok mi (out ! p)" "length out = blocks f"
    using ok by (auto simp: oc table_ok_def)
  have w: "words_ok mi ?w" "dropped mi ?w = pair_at f (root_pairs f info) (map (dropped mi) out) b"
    using must_block_words [OF n merge_words(1) [OF n out, of b], where b = b and hits = "[]"]
      merge_words(2) [OF n out, of b] by (simp_all add: pair_at_def)
  have t: "must_turn f mi b (out, c) = (out[b := ?w], c \<or> fst ?w \<noteq> fst (out ! b))"
    by (simp add: must_turn_def Let_def)
  show "table_ok f mi (fst (must_turn f mi b oc))"
    using ok w(1) set_update_subset_insert [of out b ?w] by (auto simp: oc t table_ok_def)
  show "as_pairs mi (must_turn f mi b oc) = pair_table.table_turn f rs b (as_pairs mi oc)"
    using words_eq_iff [OF n w(1) out(1) [OF b]] out(2) b
    by (simp add: oc t as_pairs_def pair_table.table_turn_def w(2) [folded rs] map_update)
qed

lemma must_sweep_pairs:
  assumes n: "numbered f info mi" and rs: "set rs = root_pairs f info"
  shows "table_ok f mi (fst oc) \<Longrightarrow> set bs \<subseteq> {..<blocks f} \<Longrightarrow>
    table_ok f mi (fst (fold (must_turn f mi) bs oc)) \<and>
    as_pairs mi (fold (must_turn f mi) bs oc) = fold (pair_table.table_turn f rs) bs (as_pairs mi oc)"
proof (induction bs arbitrary: oc)
  case (Cons b bs)
  then show ?case using must_turn_pairs [OF n Cons.prems(1) _ rs, of b] by simp
qed simp

subsection \<open>Paths\<close>

text \<open>
  A root is held for a suspect when some path from the start of the function, or from the last assignment
  to one of the two, has not dropped it.
\<close>

inductive held :: "mir_function \<Rightarrow> local \<Rightarrow> local \<Rightarrow> bb_id \<Rightarrow> nat \<Rightarrow> bool" for f l r where
  start: "b < blocks f \<Longrightarrow> predecessors f b = [] \<Longrightarrow> held f l r b 0"
| given: "b < blocks f \<Longrightarrow> i < length (stmts f b) \<Longrightarrow>
      gives l (kind (stmts f b ! i)) \<or> gives r (kind (stmts f b ! i)) \<Longrightarrow> held f l r b (Suc i)"
| kept: "held f l r b i \<Longrightarrow> b < blocks f \<Longrightarrow> i < length (stmts f b) \<Longrightarrow>
      kind (stmts f b ! i) \<noteq> Drop r \<Longrightarrow> held f l r b (Suc i)"
| edge: "held f l r b (length (stmts f b)) \<Longrightarrow> b < blocks f \<Longrightarrow>
      s \<in> set (bb_succs (basic_blocks f ! b)) \<Longrightarrow> s < blocks f \<Longrightarrow> held f l r s 0"

inductive_simps held_Suc: "held f l r b (Suc i)"

inductive_simps held_0: "held f l r b 0"

definition gone_at :: "mir_function \<Rightarrow> (local \<times> local) set \<Rightarrow> bb_id \<Rightarrow> nat \<Rightarrow> (local \<times> local) set" where
  "gone_at f tops b i = {(l, r) \<in> tops. \<not> held f l r b i}"

lemma pair_act_iff:
  "(l, r) \<in> tops \<Longrightarrow> (l, r) \<in> pair_act tops k P \<longleftrightarrow>
     k = Drop r \<or> ((l, r) \<in> P \<and> \<not> gives l k \<and> \<not> gives r k)"
  by (auto simp: pair_act_def gives_def split: statement_kind.split)

lemma pair_act_subset: "P \<subseteq> tops \<Longrightarrow> pair_act tops k P \<subseteq> tops"
  by (auto simp: pair_act_def split: statement_kind.split)

lemma pair_flow_Suc:
  "i < length ss \<Longrightarrow> pair_flow tops (take (Suc i) ss) P = pair_act tops (kind (ss ! i)) (pair_flow tops (take i ss) P)"
  by (simp add: take_Suc_conv_app_nth)

lemma gives_not_drop: "gives l (Drop r) \<longleftrightarrow> False"
  by (simp add: gives_def)

lemma pair_flow_gone:
  "b < blocks f \<Longrightarrow> i \<le> length (stmts f b) \<Longrightarrow>
   pair_flow tops (take i (stmts f b)) (gone_at f tops b 0) = gone_at f tops b i"
proof (induction i)
  case (Suc i)
  then have i: "i < length (stmts f b)" and IH: "pair_flow tops (take i (stmts f b)) (gone_at f tops b 0) = gone_at f tops b i"
    by simp_all
  show ?case
    unfolding pair_flow_Suc [OF i] IH
  proof (intro set_eqI)
    fix x :: "local \<times> local"
    obtain l r where x: "x = (l, r)" by fastforce
    let ?k = "kind (stmts f b ! i)"
    have "x \<in> tops" if "x \<in> pair_act tops ?k (gone_at f tops b i)"
      using pair_act_subset [of "gone_at f tops b i" tops ?k] that by (auto simp: gone_at_def)
    moreover have "x \<in> tops" if "x \<in> gone_at f tops b (Suc i)" using that by (auto simp: gone_at_def)
    moreover have "x \<in> pair_act tops ?k (gone_at f tops b i) \<longleftrightarrow> x \<in> gone_at f tops b (Suc i)" if "x \<in> tops"
      using pair_act_iff [of l r tops ?k "gone_at f tops b i"] that Suc.prems i
      by (auto simp: x gone_at_def held_Suc gives_not_drop)
    ultimately show "x \<in> pair_act tops ?k (gone_at f tops b i) \<longleftrightarrow> x \<in> gone_at f tops b (Suc i)" by blast
  qed
qed simp

definition gone_ends :: "mir_function \<Rightarrow> (local \<times> local) set \<Rightarrow> (local \<times> local) set list" where
  "gone_ends f tops = map (\<lambda>b. gone_at f tops b (length (stmts f b))) [0..<blocks f]"

lemma gone_ends_simps [simp]:
  "length (gone_ends f tops) = blocks f"
  "b < blocks f \<Longrightarrow> gone_ends f tops ! b = gone_at f tops b (length (stmts f b))"
  by (simp_all add: gone_ends_def)

lemma pair_join_gone: "b < blocks f \<Longrightarrow> pair_join f (gone_ends f tops) b = gone_at f tops b 0"
proof (intro set_eqI)
  fix x :: "local \<times> local"
  assume b: "b < blocks f"
  obtain l r where x: "x = (l, r)" by fastforce
  have h: "\<not> held f l r b 0 \<longleftrightarrow> predecessors f b \<noteq> [] \<and>
      (\<forall>p\<in>set (predecessors f b). \<not> held f l r p (length (stmts f p)))"
    using b by (auto simp: held_0 predecessors_iff)
  have g: "gone_ends f tops ! p = gone_at f tops p (length (stmts f p))" if "p \<in> set (predecessors f b)" for p
    using that by (simp add: predecessors_iff)
  have "predecessors f b \<noteq> [] \<Longrightarrow> \<exists>p. p \<in> set (predecessors f b)" by (cases "predecessors f b") auto
  with h g show "x \<in> pair_join f (gone_ends f tops) b \<longleftrightarrow> x \<in> gone_at f tops b 0"
    by (auto simp: pair_join_iff x gone_at_def)
qed

lemma gone_ends_fixed: "b < blocks f \<Longrightarrow> pair_at f tops (gone_ends f tops) b = gone_ends f tops ! b"
  using pair_flow_gone [of b f "length (stmts f b)" tops] by (simp add: pair_at_def pair_join_gone)

lemma held_not_flow:
  assumes fixed: "\<And>b. b < blocks f \<Longrightarrow> pair_at f tops y b = y ! b" and t: "(l, r) \<in> tops"
  shows "held f l r b i \<Longrightarrow> (l, r) \<notin> pair_flow tops (take i (stmts f b)) (pair_join f y b)"
proof (induction rule: held.induct)
  case (start b)
  then show ?case by (simp add: pair_join_iff)
next
  case (edge b s)
  then have "(l, r) \<notin> y ! b" using fixed [of b] by (simp add: pair_at_def)
  with edge show ?case by (auto simp: pair_join_iff predecessors_iff)
next
  case (given b i)
  then show ?case by (auto simp: pair_flow_Suc pair_act_iff [OF t] gives_not_drop)
next
  case (kept b i)
  then show ?case by (auto simp: pair_flow_Suc pair_act_iff [OF t])
qed

subsection \<open>The loop\<close>

lemma must_start_ok:
  assumes n: "numbered f info mi"
  shows "table_ok f mi (must_start f mi)"
    "b < blocks f \<Longrightarrow> dropped mi (must_start f mi ! b) = (if predecessors f b = [] then {} else root_pairs f info)"
proof -
  let ?full = "(map (full_mask mi) [0..<suspects_no mi], replicate (suspects_no mi) (None :: span option))"
  have r: "roots_no mi s \<le> 64" if "s < suspects_no mi" for s using n that by (simp add: numbered_def)
  have "words_ok mi ?full" using r by (auto simp: words_ok_def full_mask_def bit_full_mask_for)
  moreover have "dropped mi ?full = root_pairs f info"
    using r numbered_pair [OF n] by (intro dropped_eqI [OF n subset_refl]) (simp add: full_mask_def bit_full_mask_for)
  ultimately have full: "words_ok mi ?full" "dropped mi ?full = root_pairs f info" .
  have none: "words_ok mi (replicate (suspects_no mi) 0, replicate (suspects_no mi) (None :: span option))"
    "dropped mi (replicate (suspects_no mi) 0, replicate (suspects_no mi) (None :: span option)) = {}"
    by (auto simp: words_ok_def dropped_def)
  show "table_ok f mi (must_start f mi)"
    using full none by (auto simp: table_ok_def must_start_def Let_def)
  show "b < blocks f \<Longrightarrow> dropped mi (must_start f mi ! b) = (if predecessors f b = [] then {} else root_pairs f info)"
    using full none by (simp add: must_start_def Let_def)
qed

text \<open>Only the entry is without predecessors: what the clean-up of the control flow leaves.\<close>

definition entry_only :: "mir_function \<Rightarrow> bool" where
  "entry_only f \<longleftrightarrow> 0 < blocks f \<and> predecessors f 0 = [] \<and> (\<forall>b<blocks f. b \<noteq> 0 \<longrightarrow> predecessors f b \<noteq> [])"

lemma finite_root_pairs: "finite_roots info \<Longrightarrow> finite (root_pairs f info)"
proof -
  assume "finite_roots info"
  then have "finite (SIGMA l:{..<length info}. si_roots (info ! l))"
    by (auto simp: finite_roots_def)
  moreover have "root_pairs f info \<subseteq> (SIGMA l:{..<length info}. si_roots (info ! l))"
    by (auto simp: root_pairs_def eligible_def)
  ultimately show ?thesis by (rule finite_subset [rotated])
qed

lemma must_loop_exact:
  assumes n: "numbered f info mi" and fin: "finite_roots info" and f: "entry_only f"
  obtains out where "must_loop f mi = Some out" "table_ok f mi out"
    "\<And>b i. b < blocks f \<Longrightarrow> i \<le> length (stmts f b) \<Longrightarrow>
      pair_flow (root_pairs f info) (take i (stmts f b)) (pair_join f (map (dropped mi) out) b) =
        gone_at f (root_pairs f info) b i"
proof -
  let ?T = "root_pairs f info"
  obtain rs where rs: "set rs = ?T" using finite_list [OF finite_root_pairs [OF fin]] by blast
  let ?x0 = "map (dropped mi) (must_start f mi)" and ?z = "gone_ends f ?T"
  let ?c0 = "pair_flow ?T (stmts f 0) {}"
  have len0: "length ?x0 = blocks f" by (simp add: must_start_def Let_def)
  have nb: "0 < blocks f" using f by (simp add: entry_only_def)
  have T0: "pair_at f (set rs) x 0 = ?c0" for x
    using f by (simp add: pair_at_def pair_join_def entry_only_def rs)
  have x1: "(?x0[0 := ?c0]) ! b = (if b = 0 then ?c0 else ?T)" if "b < blocks f" for b
    using that must_start_ok(2) [OF n that] f len0 by (simp add: list_update_nth_cases entry_only_def)
  have subs: "pair_at f ?T xs b \<subseteq> ?T" if "\<And>p. p < blocks f \<Longrightarrow> xs ! p \<subseteq> ?T" for xs b
    unfolding pair_at_def
  proof (rule pair_flow_subset, rule subsetI)
    fix x
    assume "x \<in> pair_join f xs b"
    then obtain p where "p \<in> set (predecessors f b)" "x \<in> xs ! p"
      by (auto simp: pair_join_iff) (metis list.set_intros(1) neq_Nil_conv)
    then show "x \<in> ?T" using that [of p] by (auto simp: predecessors_iff)
  qed
  have c0: "?c0 \<subseteq> ?T" by (rule pair_flow_subset) simp
  have shr: "pair_table.shrinks f rs (?x0[0 := ?c0])"
    unfolding pair_table.shrinks_def
    using len0 x1 c0 T0 subs [of "?x0[0 := ?c0]"] by (auto simp: rs)
  have "gone_at f ?T b i \<subseteq> ?T" for b i by (auto simp: gone_at_def)
  then have "below ?z (?x0[0 := ?c0])"
  proof (intro belowI)
    fix b
    assume "b < length ?z"
    then have b: "b < blocks f" by simp
    show "?z ! b \<subseteq> (?x0[0 := ?c0]) ! b"
      using gone_ends_fixed [OF b, of ?T] T0 [of ?z] x1 [OF b] b
      by (cases "b = 0") (auto simp: rs gone_at_def)
  qed (simp add: must_start_def Let_def)
  then have abv: "pair_table.above f rs ?z (?x0[0 := ?c0])"
    unfolding pair_table.above_def unfolding rs by (simp add: gone_ends_fixed)
  obtain y where y: "while_option snd (\<lambda>(x, _). fold (pair_table.table_turn f rs) [0..<blocks f] (x, False)) (?x0, True)
      = Some (y, False)" "length y = blocks f" "\<And>b. b < blocks f \<Longrightarrow> pair_at f ?T y b = y ! b" "below ?z y"
    "\<And>b. b < blocks f \<Longrightarrow> y ! b \<subseteq> ?T"
    using pair_table.table_ends_from [OF nb len0 T0 shr abv] unfolding rs by blast
  let ?w = "\<lambda>(out, _). fold (must_turn f mi) [0..<blocks f] (out, False)"
  have sub: "set [0..<blocks f] \<subseteq> {..<blocks f}" by auto
  have comm: "map_option (as_pairs mi) (while_option snd ?w (must_start f mi, True)) = Some (y, False)"
  proof (subst while_option_commute_invariant [where P = "\<lambda>oc. table_ok f mi (fst oc)" and b' = snd
        and c' = "\<lambda>(x, _). fold (pair_table.table_turn f rs) [0..<blocks f] (x, False)"])
    fix oc :: "must_state list \<times> bool"
    assume ok: "table_ok f mi (fst oc)"
    have s: "table_ok f mi (fst (?w oc)) \<and> as_pairs mi (?w oc) =
        fold (pair_table.table_turn f rs) [0..<blocks f] (as_pairs mi (fst oc, False))"
      using must_sweep_pairs [OF n rs _ sub, of "(fst oc, False)"] ok by (simp add: case_prod_unfold)
    then show "table_ok f mi (fst (?w oc))" by blast
    show "as_pairs mi (?w oc) =
        (\<lambda>(x, _). fold (pair_table.table_turn f rs) [0..<blocks f] (x, False)) (as_pairs mi oc)"
      using s by (cases oc) (simp add: as_pairs_def)
  qed (use must_start_ok(1) [OF n] y(1) in \<open>simp_all add: as_pairs_def\<close>)
  then obtain out where out: "while_option snd ?w (must_start f mi, True) = Some (out, False)" "map (dropped mi) out = y"
    by (auto simp: as_pairs_def)
  have "table_ok f mi (fst (out, False))"
    by (rule while_option_rule [OF _ out(1), of "\<lambda>oc. table_ok f mi (fst oc)"])
      (use must_sweep_pairs [OF n rs _ sub] must_start_ok(1) [OF n] in \<open>auto simp: case_prod_unfold\<close>)
  moreover have "pair_flow ?T (take i (stmts f b)) (pair_join f (map (dropped mi) out) b) = gone_at f ?T b i"
    if b: "b < blocks f" "i \<le> length (stmts f b)" for b i
  proof
    have "pair_join f y b \<subseteq> ?T" using y(5) by (auto simp: pair_join_iff predecessors_iff) (metis list.set_intros(1) neq_Nil_conv predecessors_iff subsetD)
    then have "pair_flow ?T (take i (stmts f b)) (pair_join f y b) \<subseteq> ?T" by (rule pair_flow_subset)
    then show "pair_flow ?T (take i (stmts f b)) (pair_join f (map (dropped mi) out) b) \<subseteq> gone_at f ?T b i"
      unfolding out(2) using held_not_flow [OF y(3)] by (auto simp: gone_at_def)
    show "gone_at f ?T b i \<subseteq> pair_flow ?T (take i (stmts f b)) (pair_join f (map (dropped mi) out) b)"
      unfolding out(2) pair_flow_gone [OF b, symmetric] pair_join_gone [OF b(1), symmetric]
      by (intro pair_flow_mono pair_join_mono y(4)) simp
  qed
  ultimately show ?thesis using out(1) by (intro that) (simp_all add: must_loop_def)
qed

subsection \<open>Reports\<close>

text \<open>The hand-over of a suspect to one of its roots is not a read of it.\<close>

definition hands_over :: "infos \<Rightarrow> local \<Rightarrow> statement_kind \<Rightarrow> bool" where
  "hands_over info l k \<longleftrightarrow> (\<exists>dst. k = Assign dst (Use (Move l)) \<and> dst \<in> si_roots (info ! l))"

lemma full_iff:
  assumes n: "numbered f info mi" and ok: "words_ok mi w" and s: "s < suspects_no mi"
  shows "fst w ! s = full_mask mi s \<longleftrightarrow> (\<forall>r\<in>si_roots (info ! suspect_no mi s). (suspect_no mi s, r) \<in> dropped mi w)"
proof -
  have r: "roots_no mi s \<le> 64" "set (mi_roots mi ! s) = si_roots (info ! suspect_no mi s)"
    using n s by (auto simp: numbered_def)
  have "fst w ! s = full_mask mi s \<longleftrightarrow> (\<forall>b. bit (fst w ! s) b \<longleftrightarrow> b < roots_no mi s)"
    using r(1) by (auto simp: bit_eq_iff full_mask_def bit_full_mask_for dest: bit_u64)
  also have "\<dots> \<longleftrightarrow> (\<forall>b < roots_no mi s. bit (fst w ! s) b)" using ok s by (auto simp: words_ok_def)
  also have "\<dots> \<longleftrightarrow> (\<forall>b < roots_no mi s. (suspect_no mi s, root_no mi s b) \<in> dropped mi w)"
    using dropped_iff [OF n s] by auto
  also have "\<dots> \<longleftrightarrow> (\<forall>r\<in>set (mi_roots mi ! s). (suspect_no mi s, r) \<in> dropped mi w)"
    by (simp add: all_set_conv_all_nth)
  finally show ?thesis by (simp add: r(2))
qed

definition places :: "must_stale_use list \<Rightarrow> site set" where
  "places hits = (\<lambda>h. (ms_bb h, ms_place h, ms_local h)) ` set hits"

lemma places_append [simp]: "places (xs @ ys) = places xs \<union> places ys" "places [] = {}"
  by (auto simp: places_def)

lemma exempt_full:
  assumes n: "numbered f info mi" and s: "s < suspects_no mi" "suspect_no mi s = l"
    and e: "self_move_exempt mi k = Some (es, bits)"
    and l: "l \<in> set (read_locals k)"
  shows "es = s \<and> hands_over info l k \<and> m AND NOT bits \<noteq> full_mask mi s"
proof -
  have dis: "distinct (mi_suspects mi)" and len: "length (mi_roots mi) = suspects_no mi" using n by (auto simp: numbered_def)
  obtain dst src where k: "k = Assign dst (Use (Move src))"
    using e by (auto simp: self_move_exempt_def split: statement_kind.splits rvalue.splits operand.splits)
  then have "src = l" using l by (simp add: read_locals_def)
  then have ix: "index_of mi src = Some s" using index_of_iff [OF dis] s by simp
  obtain si b where b: "find (\<lambda>(si, _). si = s) (backed_by mi dst) = Some (si, b)" "es = s" "bits = push_bit b 1"
    using e ix unfolding self_move_exempt_def k by (auto simp del: push_bit_of_1)
  from b(1) obtain j where "j < length (backed_by mi dst)" "si = s" "(si, b) = backed_by mi dst ! j"
    by (auto simp: find_Some_iff)
  then have "(s, b) \<in> set (backed_by mi dst)" by (metis nth_mem)
  then have bb: "b < roots_no mi s" "root_no mi s b = dst" using backed_by_iff [OF len] by auto
  then have "dst \<in> si_roots (info ! l)" using n s nth_mem [OF bb(1)] by (auto simp: numbered_def)
  moreover have "\<not> bit (m AND NOT bits) b" by (simp add: b(3) bit_simps)
  moreover have "bit (full_mask mi s) b" using n s bb by (simp add: full_mask_def bit_full_mask_for numbered_def)
  ultimately show ?thesis using b(2) k \<open>src = l\<close> by (auto simp: hands_over_def)
qed

lemma not_exempt:
  assumes n: "numbered f info mi" and s: "s < suspects_no mi" "suspect_no mi s = l"
    and e: "self_move_exempt mi k = None"
  shows "\<not> hands_over info l k"
proof
  assume "hands_over info l k"
  then obtain dst where k: "k = Assign dst (Use (Move l))" "dst \<in> si_roots (info ! l)" by (auto simp: hands_over_def)
  have dis: "distinct (mi_suspects mi)" and len: "length (mi_roots mi) = suspects_no mi" using n by (auto simp: numbered_def)
  have "dst \<in> set (mi_roots mi ! s)" using n s k(2) by (auto simp: numbered_def)
  then obtain b where "b < roots_no mi s" "root_no mi s b = dst" by (auto simp: in_set_conv_nth)
  then have "(s, b) \<in> set (backed_by mi dst)" using backed_by_iff [OF len] s by auto
  moreover have "index_of mi l = Some s" using index_of_iff [OF dis] s by simp
  ultimately show False using e by (auto simp: self_move_exempt_def k find_None_iff)
qed

lemma stale_reads_places:
  assumes n: "numbered f info mi" and ok: "words_ok mi w"
    and e: "\<And>l s. l \<in> set ls \<Longrightarrow> s < suspects_no mi \<Longrightarrow> suspect_no mi s = l \<Longrightarrow>
      (case exempt of None \<Rightarrow> \<not> X l | Some (es, bits) \<Rightarrow> es = s \<and> X l \<and> (\<forall>m. m AND NOT bits \<noteq> full_mask mi s))"
  shows "places (stale_reads mi b p exempt sp ls w) =
    {(b, p, l) | l. l \<in> set ls \<and> eligible f info l \<and> \<not> X l \<and> (\<forall>r\<in>si_roots (info ! l). (l, r) \<in> dropped mi w)}"
  using e
proof (induction ls)
  case Nil
  then show ?case by (simp add: stale_reads_def places_def split: prod.split)
next
  case (Cons l ls)
  obtain masks spans where w: "w = (masks, spans)" by fastforce
  have dis: "distinct (mi_suspects mi)" and el: "set (mi_suspects mi) = {l. eligible f info l}"
    using n by (auto simp: numbered_def)
  have split: "stale_reads mi b p exempt sp (l # ls) w =
      stale_reads mi b p exempt sp [l] w @ stale_reads mi b p exempt sp ls w"
    by (simp add: stale_reads_def w)
  have "places (stale_reads mi b p exempt sp [l] w) =
      (if eligible f info l \<and> \<not> X l \<and> (\<forall>r\<in>si_roots (info ! l). (l, r) \<in> dropped mi w) then {(b, p, l)} else {})"
  proof (cases "index_of mi l")
    case None
    have "\<not> eligible f info l"
    proof
      assume "eligible f info l"
      then have "l \<in> set (mi_suspects mi)" using el by blast
      then obtain s where "s < suspects_no mi" "suspect_no mi s = l" by (auto simp: in_set_conv_nth)
      with None index_of_iff [OF dis, of l s] show False by simp
    qed
    with None show ?thesis by (simp add: stale_reads_def w)
  next
    case (Some s)
    then have s: "s < suspects_no mi" "suspect_no mi s = l" using index_of_iff [OF dis] by auto
    then have "eligible f info l" using el nth_mem [OF s(1)] by blast
    moreover have "masks ! s = full_mask mi s \<longleftrightarrow> (\<forall>r\<in>si_roots (info ! l). (l, r) \<in> dropped mi w)"
      using full_iff [OF n ok s(1)] s(2) by (simp add: w)
    ultimately show ?thesis
      using Cons.prems [of l s] s Some
      by (auto simp: stale_reads_def w places_def Let_def split: option.splits)
  qed
  moreover have "places (stale_reads mi b p exempt sp ls w) =
      {(b, p, l) | l. l \<in> set ls \<and> eligible f info l \<and> \<not> X l \<and> (\<forall>r\<in>si_roots (info ! l). (l, r) \<in> dropped mi w)}"
    using Cons.IH Cons.prems by auto
  ultimately show ?case unfolding split places_append by (auto split: if_splits)
qed

lemma must_stmts_places:
  assumes n: "numbered f info mi"
  shows "words_ok mi w \<Longrightarrow> places (snd (must_stmts mi b i ss (w, hits))) = places hits \<union>
    {(b, At (i + j), l) | j l. j < length ss \<and> l \<in> stmt_reads (ss ! j) \<and> eligible f info l \<and>
       \<not> hands_over info l (kind (ss ! j)) \<and>
       (\<forall>r\<in>si_roots (info ! l). (l, r) \<in> pair_flow (root_pairs f info) (take j ss) (dropped mi w))}"
    (is "_ \<Longrightarrow> _ = _ \<union> ?R i ss w")
proof (induction ss arbitrary: i w hits)
  case (Cons s ss)
  let ?w = "must_act mi s w"
  let ?here = "{(b, At i, l) | l. l \<in> stmt_reads s \<and> eligible f info l \<and> \<not> hands_over info l (kind s) \<and>
      (\<forall>r\<in>si_roots (info ! l). (l, r) \<in> dropped mi w)}"
  have here: "places (stale_reads mi b (At i) (self_move_exempt mi (kind s)) (span_of s) (read_locals (kind s)) w) = ?here"
    using exempt_full [OF n] not_exempt [OF n]
    by (intro stale_reads_places [OF n Cons.prems]) (auto split: option.split)
  have "?R i (s # ss) w = ?here \<union> ?R (Suc i) ss ?w"
  proof (intro set_eqI iffI)
    fix x
    assume "x \<in> ?R i (s # ss) w"
    then obtain j l where x: "x = (b, At (i + j), l)" "j < Suc (length ss)" "l \<in> stmt_reads ((s # ss) ! j)"
      "eligible f info l" "\<not> hands_over info l (kind ((s # ss) ! j))"
      "\<forall>r\<in>si_roots (info ! l). (l, r) \<in> pair_flow (root_pairs f info) (take j (s # ss)) (dropped mi w)"
      by auto
    then show "x \<in> ?here \<union> ?R (Suc i) ss ?w"
      by (cases j) (auto simp: must_act_words(2) [OF n Cons.prems])
  next
    fix x
    assume "x \<in> ?here \<union> ?R (Suc i) ss ?w"
    then consider l where "x = (b, At (i + 0), l)" "0 < length (s # ss)" "l \<in> stmt_reads ((s # ss) ! 0)"
        "eligible f info l" "\<not> hands_over info l (kind ((s # ss) ! 0))"
        "\<forall>r\<in>si_roots (info ! l). (l, r) \<in> pair_flow (root_pairs f info) (take 0 (s # ss)) (dropped mi w)"
      | j l where "x = (b, At (i + Suc j), l)" "Suc j < length (s # ss)" "l \<in> stmt_reads ((s # ss) ! Suc j)"
        "eligible f info l" "\<not> hands_over info l (kind ((s # ss) ! Suc j))"
        "\<forall>r\<in>si_roots (info ! l). (l, r) \<in> pair_flow (root_pairs f info) (take (Suc j) (s # ss)) (dropped mi w)"
      by (auto simp: must_act_words(2) [OF n Cons.prems])
    then show "x \<in> ?R i (s # ss) w" by cases blast+
  qed
  with Cons.IH [OF must_act_words(1) [OF n Cons.prems]] show ?case by (simp add: here Un_assoc)
qed simp

lemma must_block_places:
  assumes n: "numbered f info mi" and w: "words_ok mi w"
  shows "places (snd (must_block f mi b (w, hits))) = places hits \<union>
    {(b, At i, l) | i l. i < length (stmts f b) \<and> l \<in> stmt_reads (stmts f b ! i) \<and> eligible f info l \<and>
       \<not> hands_over info l (kind (stmts f b ! i)) \<and>
       (\<forall>r\<in>si_roots (info ! l). (l, r) \<in> pair_flow (root_pairs f info) (take i (stmts f b)) (dropped mi w))} \<union>
    {(b, AtEnd, l) | l. l \<in> switched f b \<and> eligible f info l \<and>
       (\<forall>r\<in>si_roots (info ! l). (l, r) \<in> pair_flow (root_pairs f info) (stmts f b) (dropped mi w))}"
proof -
  obtain w' hits' where r: "must_stmts mi b 0 (stmts f b) (w, hits) = (w', hits')" by fastforce
  have w': "words_ok mi w'" "dropped mi w' = pair_flow (root_pairs f info) (stmts f b) (dropped mi w)"
    using must_stmts_words [OF n w, of b 0 "stmts f b" hits] by (simp_all add: r)
  have h: "places hits' = places hits \<union> {(b, At i, l) | i l. i < length (stmts f b) \<and> l \<in> stmt_reads (stmts f b ! i) \<and>
      eligible f info l \<and> \<not> hands_over info l (kind (stmts f b ! i)) \<and>
      (\<forall>r\<in>si_roots (info ! l). (l, r) \<in> pair_flow (root_pairs f info) (take i (stmts f b)) (dropped mi w))}"
    using must_stmts_places [OF n w, of b 0 "stmts f b" hits] by (simp add: r)
  show ?thesis
  proof (cases "terminator (basic_blocks f ! b)")
    case None
    then show ?thesis by (simp add: must_block_def Let_def r h switched_def switched_local_def)
  next
    case (Some t)
    let ?ls = "case switched_local (Some t) of None \<Rightarrow> [] | Some l \<Rightarrow> [l]"
    have ls: "set ?ls = switched f b" using switched_list [of f b] Some by simp
    have "places (stale_reads mi b AtEnd None (term_span t) ?ls w') =
        {(b, AtEnd, l) | l. l \<in> set ?ls \<and> eligible f info l \<and> \<not> False \<and> (\<forall>r\<in>si_roots (info ! l). (l, r) \<in> dropped mi w')}"
      by (rule stale_reads_places [OF n w'(1)]) simp
    then show ?thesis by (simp add: must_block_def Let_def r h Some ls w'(2))
  qed
qed

definition stale_places :: "mir_function \<Rightarrow> infos \<Rightarrow> site set" where
  "stale_places f info =
     {(b, At i, l) | b i l. b < length (basic_blocks f) \<and> i < length (stmts f b) \<and> l \<in> stmt_reads (stmts f b ! i) \<and>
        eligible f info l \<and> \<not> hands_over info l (kind (stmts f b ! i)) \<and>
        (\<forall>r\<in>si_roots (info ! l). \<not> held f l r b i)} \<union>
     {(b, AtEnd, l) | b l. b < length (basic_blocks f) \<and> l \<in> switched f b \<and> eligible f info l \<and>
        (\<forall>r\<in>si_roots (info ! l). \<not> held f l r b (length (stmts f b)))}"

lemma find_must_stale_exact:
  assumes fin: "finite_roots info" and f: "entry_only f"
  obtains hits where "find_must_stale f info = Some hits" "places hits = stale_places f info"
proof -
  let ?mi = "build_must_info f info" and ?T = "root_pairs f info"
  have n: "numbered f info ?mi" using build_numbered [OF fin] .
  have nb: "basic_blocks f \<noteq> []" using f by (auto simp: entry_only_def)
  show ?thesis
  proof (cases "mi_suspects ?mi = []")
    case True
    then have "\<not> eligible f info l" for l using n by (auto simp: numbered_def)
    then have "stale_places f info = {}" by (simp add: stale_places_def)
    with True show ?thesis by (intro that) (simp_all add: find_must_stale_def Let_def places_def)
  next
    case False
    obtain out where out: "must_loop f ?mi = Some out" "table_ok f ?mi out"
      "\<And>b i. b < blocks f \<Longrightarrow> i \<le> length (stmts f b) \<Longrightarrow>
        pair_flow ?T (take i (stmts f b)) (pair_join f (map (dropped ?mi) out) b) = gone_at f ?T b i"
      by (rule must_loop_exact [OF n fin f]) blast
    define step where "step = (\<lambda>b hits. snd (must_block f ?mi b (merge_preds f (suspects_no ?mi) out b, hits)))"
    let ?at = "\<lambda>b. {(b, At i, l) | i l. i < length (stmts f b) \<and> l \<in> stmt_reads (stmts f b ! i) \<and> eligible f info l \<and>
          \<not> hands_over info l (kind (stmts f b ! i)) \<and> (\<forall>r\<in>si_roots (info ! l). \<not> held f l r b i)} \<union>
        {(b, AtEnd, l) | l. l \<in> switched f b \<and> eligible f info l \<and>
          (\<forall>r\<in>si_roots (info ! l). \<not> held f l r b (length (stmts f b)))}"
    have ok: "\<And>p. p < blocks f \<Longrightarrow> words_ok ?mi (out ! p)" "length out = blocks f"
      using out(2) by (auto simp: table_ok_def)
    have gone: "(\<forall>r\<in>si_roots (info ! l). (l, r) \<in> gone_at f ?T b i) \<longleftrightarrow> (\<forall>r\<in>si_roots (info ! l). \<not> held f l r b i)"
      if "eligible f info l" for l b i
      using that by (auto simp: gone_at_def root_pairs_def)
    have at: "places (step b hits) = places hits \<union> ?at b" if b: "b < blocks f" for b hits
    proof -
      note m = merge_words [OF n ok, of b]
      have flow: "pair_flow ?T (take i (stmts f b)) (dropped ?mi (merge_preds f (suspects_no ?mi) out b)) = gone_at f ?T b i"
        if "i \<le> length (stmts f b)" for i
        using out(3) [OF b that] by (simp add: m(2))
      have flow_all: "pair_flow ?T (stmts f b) (dropped ?mi (merge_preds f (suspects_no ?mi) out b)) =
          gone_at f ?T b (length (stmts f b))"
        using flow [of "length (stmts f b)"] by simp
      show ?thesis
        using must_block_places [OF n m(1), of b hits] flow flow_all gone by (auto simp: step_def)
    qed
    have "places (fold step bs hits) = places hits \<union> (\<Union>b\<in>set bs. ?at b)" if "set bs \<subseteq> {..<blocks f}" for bs hits
      using that by (induction bs arbitrary: hits) (auto simp: at)
    from this [of "[0..<blocks f]" "[]"] have "places (fold step [0..<blocks f] []) = (\<Union>b\<in>{..<blocks f}. ?at b)"
      by (simp add: atLeast0LessThan)
    moreover have "(\<Union>b\<in>{..<blocks f}. ?at b) = stale_places f info" unfolding stale_places_def by blast
    moreover have "find_must_stale f info = Some (fold step [0..<blocks f] [])"
      using False nb out(1) by (simp add: find_must_stale_def step_def Let_def)
    ultimately show ?thesis by (intro that) simp_all
  qed
qed

lemma declared_finite: "declared_roots n info \<Longrightarrow> finite_roots info"
  unfolding declared_roots_def finite_roots_def by (meson finite_lessThan finite_subset)

text \<open>
  C37. The reports of definite staleness are exact on functions whose locals are declared and in which the entry,
  and no other block, is without predecessors: the search ends, and what it reports are the reads, and the
  branches, of a suspect with at most sixty-four roots, all of them known, each of which has been dropped on every path since
  the last assignment to it or to the suspect, save the hand-over of the suspect to one of its roots.
\<close>

theorem must_stale_exact:
  assumes "wf_locals f" and "entry_only f" and "closed_info pe br f = Some info"
  shows "\<exists>hits. find_must_stale f info = Some hits \<and>
    (\<lambda>h. (ms_bb h, ms_place h, ms_local h)) ` set hits =
     {(b, At i, l) | b i l. b < length (basic_blocks f) \<and> i < length (stmts f b) \<and> l \<in> stmt_reads (stmts f b ! i) \<and>
        eligible f info l \<and> \<not> hands_over info l (kind (stmts f b ! i)) \<and>
        (\<forall>r\<in>si_roots (info ! l). \<not> held f l r b i)} \<union>
     {(b, AtEnd, l) | b l. b < length (basic_blocks f) \<and> l \<in> switched f b \<and> eligible f info l \<and>
        (\<forall>r\<in>si_roots (info ! l). \<not> held f l r b (length (stmts f b)))}"
proof -
  obtain info' where "closed_info pe br f = Some info'" "declared_roots (length (locals f)) info'"
    by (rule closed_info_ends [OF assms(1)])
  then have "finite_roots info" using assms(3) declared_finite by simp
  then obtain hits where "find_must_stale f info = Some hits" "places hits = stale_places f info"
    by (rule find_must_stale_exact [OF _ assms(2)])
  then show ?thesis unfolding places_def stale_places_def by (intro exI conjI)
qed

text \<open>A view that is read after its only root was dropped.\<close>

definition stale_fn :: mir_function where
  "stale_fn = func [TInt, TList TInt, TList TInt] 1
     [block [Assign 2 (Use (Copy 1)), Drop 1] (Goto 1),
      block [Assign 0 (GetIndex (Copy 2) (Constant (CInt 0)) False)] Return]"

definition stale_info :: infos where
  "stale_info = the (closed_info Map.empty {} stale_fn)"

lemma must_stale_exact_witness:
  "\<exists>hits. find_must_stale stale_fn stale_info = Some hits \<and>
     (1, At 0, 2) \<in> (\<lambda>h. (ms_bb h, ms_place h, ms_local h)) ` set hits \<and>
     (\<forall>r\<in>si_roots (stale_info ! 2). \<not> held stale_fn 2 r 1 0)"
proof -
  have wf: "wf_locals stale_fn" by (auto simp: wf_locals_def stale_fn_def sample_defs)
  have e: "entry_only stale_fn" by code_simp
  have i: "closed_info Map.empty {} stale_fn = Some stale_info" by code_simp
  have ev: "eligible stale_fn stale_info 2" "si_roots (stale_info ! 2) = {1}"
    "\<not> hands_over stale_info 2 (kind (stmts stale_fn 1 ! 0))" "2 \<in> stmt_reads (stmts stale_fn 1 ! 0)"
    by (code_simp, code_simp, simp add: hands_over_def stale_fn_def sample_defs, code_simp)
  have b: "blocks stale_fn = 2" "length (stmts stale_fn 0) = 2" "length (stmts stale_fn 1) = 1"
    "kind (stmts stale_fn 0 ! 1) = Drop 1" "bb_succs (basic_blocks stale_fn ! 0) = [1]"
    "bb_succs (basic_blocks stale_fn ! 1) = []" "predecessors stale_fn 1 = [0]"
    by code_simp+
  have len: "0 < length (stmts stale_fn 1)" by code_simp
  have "\<not> held stale_fn 2 1 0 (Suc 1)" unfolding held_Suc using b by (simp add: gives_def)
  then have none: "c = 0 \<or> c = 1 \<Longrightarrow> 1 \<in> set (bb_succs (basic_blocks stale_fn ! c)) \<Longrightarrow>
      \<not> held stale_fn 2 1 c (length (stmts stale_fn c))" for c
    using b by (auto simp: numeral_2_eq_2)
  have nh: "\<not> held stale_fn 2 1 1 0"
  proof
    assume "held stale_fn 2 1 1 0"
    then obtain c where c: "held stale_fn 2 1 c (length (stmts stale_fn c))" "c < blocks stale_fn"
      "1 \<in> set (bb_succs (basic_blocks stale_fn ! c))"
      unfolding held_0 [of stale_fn 2 1 1] b(7) by blast
    then have "c = 0 \<or> c = 1" using b(1) by linarith
    with none c show False by blast
  qed
  obtain hits where h: "find_must_stale stale_fn stale_info = Some hits"
    "(\<lambda>h. (ms_bb h, ms_place h, ms_local h)) ` set hits = stale_places stale_fn stale_info"
    using must_stale_exact [OF wf e i] unfolding stale_places_def by (elim exE conjE)
  have "(1, At 0, 2) \<in> stale_places stale_fn stale_info"
    unfolding stale_places_def using ev b(1) len nh by simp
  with h ev(2) nh show ?thesis by auto
qed

text \<open>
  C38. The pass ends on every function whose locals are declared and in which the entry, and no other
  block, is without predecessors: the closure of aliases and roots and both analyses reach their fixpoints.
\<close>

theorem gencheck_ends:
  assumes "wf_locals f" and "entry_only f"
  shows "gencheck_run pe br f \<noteq> None"
proof -
  obtain info where i: "closed_info pe br f = Some info" "declared_roots (length (locals f)) info"
    by (rule closed_info_ends [OF assms(1)])
  obtain hits where h: "find_must_stale f info = Some hits" "places hits = stale_places f info"
    by (rule find_must_stale_exact [OF declared_finite [OF i(2)] assms(2)])
  obtain sites where s: "solve f info (set (suspects_of f info)) = Some sites"
    "set sites = needed_sites f info (suspects_of f info)"
    by (rule solve_sites)
  show ?thesis by (auto simp: gencheck_run_def i(1) h(1) s(1) Let_def)
qed

lemma gencheck_ends_witness: "gencheck_run Map.empty {} stale_fn \<noteq> None"
proof (rule gencheck_ends)
  show "wf_locals stale_fn" by (auto simp: wf_locals_def stale_fn_def sample_defs)
  show "entry_only stale_fn" by code_simp
qed

subsection \<open>A block that nothing leads to\<close>

text \<open>
  Without the hypothesis on the entry the search need not end: block 4 has no predecessors, drops the root
  and leads into a loop, round which the two values of the bit then chase each other. The passes before this
  one remove such blocks.
\<close>

definition dead_fn :: mir_function where
  "dead_fn = func [TInt, TList TInt, TList TInt] 1
     [block [Assign 2 (Use (Copy 1))] Return, block [] (Goto 3), block [] (Goto 1), block [] (Goto 2),
      block [Drop 1] (Goto 1)]"

definition dead_state :: "u64 list \<Rightarrow> span option \<Rightarrow> span option \<Rightarrow> span option \<Rightarrow> must_state list" where
  "dead_state ws a b c =
     [([0], [None]), ([ws ! 0], [a]), ([ws ! 1], [b]), ([ws ! 2], [c]), ([1], [Some default_span])]"

definition dead_info :: must_info where
  "dead_info = \<lparr>mi_suspects = [2], mi_roots = [[1]]\<rparr>"

abbreviation dead_sweep :: "must_state list \<Rightarrow> must_state list \<times> bool" where
  "dead_sweep out \<equiv> fold (must_turn dead_fn dead_info) [0..<5] (out, False)"

lemma dead_sweeps:
  "dead_sweep (must_start dead_fn dead_info) = (dead_state [0, 1, 0] None None None, True)"
  "dead_sweep (dead_state [0, 1, 0] None None None) = (dead_state [1, 0, 1] (Some default_span) None (Some default_span), True)"
  "dead_sweep (dead_state [1, 0, 1] (Some default_span) None (Some default_span)) =
     (dead_state [0, 1, 0] (Some default_span) (Some default_span) (Some default_span), True)"
  "dead_sweep (dead_state [0, 1, 0] (Some default_span) (Some default_span) (Some default_span)) =
     (dead_state [1, 0, 1] (Some default_span) (Some default_span) (Some default_span), True)"
  "dead_sweep (dead_state [1, 0, 1] (Some default_span) (Some default_span) (Some default_span)) =
     (dead_state [0, 1, 0] (Some default_span) (Some default_span) (Some default_span), True)"
  by (code_simp, code_simp, code_simp, code_simp, code_simp)

lemma must_stale_diverges: "find_must_stale dead_fn (the (closed_info Map.empty {} dead_fn)) = None"
proof -
  let ?c = "\<lambda>(out, _). dead_sweep out"
  let ?S = "Some default_span"
  let ?P = "\<lambda>s. s \<in> {(dead_state [0, 1, 0] None None None, True), (dead_state [1, 0, 1] ?S None ?S, True),
      (dead_state [0, 1, 0] ?S ?S ?S, True), (dead_state [1, 0, 1] ?S ?S ?S, True)}"
  have more: "snd s \<and> ?P (?c s)" if "?P s" for s
    using that by (elim insertE emptyE) (simp_all only: dead_sweeps prod.case snd_conv insert_iff simp_thms)
  have "while_option snd ?c (dead_state [0, 1, 0] None None None, True) = None"
    by (rule while_option_cycle [where P = ?P]) (simp, rule more)
  then have "while_option snd ?c (must_start dead_fn dead_info, True) = None"
    by (subst while_option_unfold) (simp only: dead_sweeps prod.case snd_conv if_True)
  moreover have b: "length (basic_blocks dead_fn) = 5" by (simp add: dead_fn_def)
  ultimately have "must_loop dead_fn dead_info = None" by (simp add: must_loop_def)
  moreover have "build_must_info dead_fn (the (closed_info Map.empty {} dead_fn)) = dead_info" by code_simp
  moreover have "mi_suspects dead_info \<noteq> []" by (simp add: dead_info_def)
  moreover have "basic_blocks dead_fn \<noteq> []" using b by auto
  ultimately show ?thesis unfolding find_must_stale_def Let_def by simp
qed

end
