(* ===== verification/Spec2Isabelle.thy ===== *)
theory Spec2Isabelle
  imports Folding ScalarPasses CfgProps LivenessProps DceProps LoopUtils Propagate Cse BorrowLoop
    LexerProps SlabRun ExhaustiveProps Inference StmtTotal TypeRoundtrip ResolverFree
    LspPosition Calendar PrettyDoc BorrowReturns GenCheckCover MustStale
begin

text \<open>
  The Olive compiler (\<open>src/src\<close>) and its runtime (\<open>src/std_lib/src\<close>).

  THE PROGRAM. A source text becomes tokens (\<open>lexer/\<close>), the tokens a syntax tree (\<open>parser/\<close>). The tree is
  checked: names are resolved (\<open>semantic/resolver.rs\<close>), types are inferred by unification
  (\<open>semantic/type_checker/\<close>), matches must cover every value. It is lowered to the middle intermediate
  representation (\<open>mir/\<close>), on which the borrow checker runs (\<open>borrow_check/\<close>), ownership is inferred, the
  optimizer passes rewrite functions and, last, generation checks are inserted. Cranelift makes machine code
  of it (\<open>codegen/\<close>), which calls the runtime: objects live in generational slabs, whose words of generation
  are what the inserted checks compare. A formatter, a language server and package tools use the same front
  end.

  VOCABULARY. \<open>Prelude\<close> has the machine integers (\<open>64 word\<close>, read by \<open>sint\<close> or \<open>uint\<close>), the Rust methods on
  them, indexing with a panic (\<open>idx\<close>, \<open>None\<close>) and results (\<open>'e + 'a\<close>). \<open>Types\<close> is \<open>semantic/types.rs\<close>.
  A hash map is a map, or an association list where its order is observable, a hash set a set. A loop that
  runs until nothing changes is a \<open>while_option\<close>, whose \<open>None\<close> is a loop that does not end.

  FRONT END.
  \<open>Lexer\<close> is \<open>lexer/\<close>: the scanner with its stack of indentations and its depth of brackets. \<open>LexerProps\<close>:
  it never panics, positions are exact, layout and brackets are balanced; lines are what lies between the
  line ends of all three kinds.
  \<open>Ast\<close> is \<open>parser/ast.rs\<close>; \<open>ParserBase\<close>, \<open>ExprParser\<close>, \<open>ExprOps\<close>, \<open>StmtParser\<close> are \<open>parser/\<close>, one
  definition for each method, as functions on the rest of the tokens. \<open>ParserLogic\<close>, \<open>StringLength\<close>,
  \<open>ParserTotal\<close>, \<open>StmtTotal\<close>: a logic for rules of the grammar, and with it that every token list of the lexer
  gives a program or an error. \<open>TypeRoundtrip\<close>: type expressions are read back as they were written.
  \<open>Suggest\<close> is \<open>semantic/suggest.rs\<close> (the edit distance is the least number of edits), \<open>Scopes\<close> the symbol
  table, \<open>Resolver\<close> the resolver, with the remaining depth of nesting as its first argument. \<open>ResolverProps\<close>:
  what it leaves of the scopes; \<open>ResolverFree\<close>: names that are free by the scoping rules are reported,
  unless they stand in one of the positions that it does not visit, which are listed there.
  \<open>Unify\<close> is \<open>semantic/type_checker/unify.rs\<close>. \<open>UnifyProps\<close>, \<open>UnifyArms\<close>, \<open>UnifySound\<close>, \<open>UnifyRuns\<close>,
  \<open>UnifyTotal\<close>, \<open>Inference\<close>: the substitution stays free of cycles, a run that adds no error makes the types
  compatible, and it always ends. \<open>Exhaustive\<close>, \<open>ExhaustiveProps\<close>: the check of matches against the values
  that their patterns accept.

  MIDDLE END.
  \<open>Mir\<close> is \<open>mir/ir.rs\<close>. \<open>Codegen\<close>, \<open>Exec\<close>: what the emitted code does with operands, operators, assignments
  and terminators, and running a function with it; calls and memory go through a record of parameters
  (\<open>runtime\<close>). \<open>Frame\<close>: runs from registers that agree. \<open>Rewrite\<close>, \<open>Refine\<close>: the loop the scalar passes
  share and what a pass may do. \<open>ConstFold\<close>/\<open>Folding\<close>, \<open>Peephole\<close>/\<open>ScalarPasses\<close> (peephole, strength
  reduction, algebraic rules), \<open>SimplifyCfg\<close>/\<open>CfgProps\<close>, \<open>Dce\<close>/\<open>DceProps\<close>: the passes, and that they keep
  results, with the rewrites that do not. \<open>Propagate\<close>, \<open>Cse\<close>, \<open>LoopUtils\<close>: copy and constant propagation,
  common subexpressions, dominators and loops. \<open>Liveness\<close>/\<open>LivenessProps\<close>: the analysis is exact.
  \<open>BorrowCheck\<close> is \<open>borrow_check/checker.rs\<close>; \<open>FlowLattice\<close>, \<open>MoveCheck\<close>, \<open>MoveSound\<close>: on functions without
  references it ends and reports a use after a move exactly when a path has one; \<open>BorrowLoop\<close>: with references
  the count of borrows may grow without bound. \<open>Summaries\<close> is \<open>ownership/summaries.rs\<close>, \<open>BorrowReturns\<close> has two functions on which it
  fails. \<open>GenCheck\<close> is \<open>gencheck/\<close>: suspects, their roots, where a check is needed, definite staleness, and the
  insertion. \<open>ChangedLoop\<close> has the loops that sweep until nothing changes, as locales; the loops of the pass
  are interpretations of them. \<open>GenCheckFlow\<close>: checks are placed exactly where they are needed; \<open>GenCheckCover\<close>:
  the function with its checks reads nothing that may have been freed unchecked; \<open>GenCheckRoots\<close>: the roots
  are found in finitely many turns; \<open>MustStale\<close>: the definite errors it reports are the definite errors there are, where the
  entry is the only block without predecessors, as the clean-up of the control flow leaves it.

  RUNTIME AND TOOLS.
  \<open>Slab\<close>, \<open>SlabTable\<close>, \<open>SlabProps\<close>, \<open>SlabRun\<close>: \<open>std_lib/src/slab.rs\<close> as a state machine; after any number of
  steps no stale handle is valid, no live slot is handed out twice. \<open>Calendar\<close>: \<open>std_lib/src/datetime.rs\<close> and
  \<open>time.rs\<close>. \<open>PrettyDoc\<close>: \<open>fmt/doc.rs\<close>. \<open>LspPosition\<close>: \<open>tooling/lsp/position.rs\<close>.

  BOUNDS AND FUEL. The parser's fuel is the number of tokens that are left, and each rule reads one; an
  f-string's is the length of its text. The resolver's depth is \<open>MAX_SEMANTIC_NESTING\<close>, as in the source.
  \<open>unify\<close> has fuel, and \<open>UnifyTotal\<close> shows that enough of it always exists and that more never matters. Runs of
  functions have a number of blocks; \<open>fn_returns\<close> is that some number is enough. The borrow checker's turns
  are bounded in \<open>MoveSound\<close>; its counts of borrows are natural numbers, where the source has 64 bits.
  Calendar times are 64-bit integers whose operations are checked for overflow; the round trip holds for
  every count of seconds but those of the first day, and for years up to 292277 millions either way.
  Positions are exact for texts below two to the 31 characters.

  NOT MODELLED. The type checker outside unification and matches and the lowering to MIR: they rest on tables
  of every declaration, and no property of theirs can be stated before those are modelled. The layout rules
  of the formatter. The emitted code for calls, aggregates and async functions: it is that of third-party
  builders and of the operating system's loader. Objects of the runtime other than slabs, the Python bridge,
  files, networks, processes, registries and the debug adapter: calls into code that is not here. Of the
  ownership passes the insertion of drops, copies and guards; of the optimizer value numbering, inlining and
  the loop transformations. Registers are words of 64 bits: the narrowing of integers and truth values at an
  assignment, the conversions between floats of two widths and from Python objects to floats, and the profiled sites of
  operators on \<open>Any\<close> are left out, so the theorems on runs are about functions over \<open>int\<close>, \<open>u64\<close>, \<open>usize\<close>,
  \<open>float\<close> and pointers. A slab is never dropped in the runs of \<open>SlabRun\<close>, and its pages are given back as on
  Unix, where they come back filled with zeros.
\<close>

end
